(* ===== verification/Prelude.thy ===== *)
theory Prelude
  imports Main "HOL-Library.Word"
begin

text \<open>
  Shared vocabulary of the development: the machine integer types of the C code, the
  error codes of \<^verbatim>\<open>rtdef.h\<close>, the faults that stand for a failed \<^verbatim>\<open>RT_ASSERT\<close> and for
  undefined behaviour of C, flag tests on 16-bit device flags, and circular slices of
  an array, which the serial receive FIFO and the generic ring buffer share.
\<close>

unbundle bit_operations_syntax

named_theorems inv_simps \<open>definitions of the component invariants\<close>
named_theorems op_simps \<open>unfolding rules of the modelled operations\<close>

section \<open>Machine types and error codes\<close>

type_synonym u8 = "8 word"
type_synonym u16 = "16 word"
type_synonym u32 = "32 word"
type_synonym u64 = "64 word"
type_synonym rt_err_t = int

abbreviation (input) RT_EOK :: rt_err_t where "RT_EOK \<equiv> 0"
abbreviation (input) RT_ERROR :: rt_err_t where "RT_ERROR \<equiv> 1"
abbreviation (input) RT_ETIMEOUT :: rt_err_t where "RT_ETIMEOUT \<equiv> 2"
abbreviation (input) RT_EFULL :: rt_err_t where "RT_EFULL \<equiv> 3"
abbreviation (input) RT_EEMPTY :: rt_err_t where "RT_EEMPTY \<equiv> 4"
abbreviation (input) RT_ENOMEM :: rt_err_t where "RT_ENOMEM \<equiv> 5"
abbreviation (input) RT_ENOSYS :: rt_err_t where "RT_ENOSYS \<equiv> 6"
abbreviation (input) RT_EBUSY :: rt_err_t where "RT_EBUSY \<equiv> 7"
abbreviation (input) RT_EIO :: rt_err_t where "RT_EIO \<equiv> 8"
abbreviation (input) RT_EINVAL :: rt_err_t where "RT_EINVAL \<equiv> 10"

text \<open>
  A C function that can hit a failed assertion or leave an array returns a value of
  \<open>'a res\<close>: \<open>Inl\<close> names what went wrong, \<open>Inr\<close> carries the result.
  \<open>Would_Wait\<close> marks a wait on a completion that nothing else in the model signals,
  \<open>Uninitialised\<close> the use of a variable that was never assigned.
\<close>

datatype fault = Assert_Failed | Out_Of_Bounds | Div_By_Zero | Would_Wait | Uninitialised

type_synonym 'a res = "fault + 'a"

definition bind_res :: "'a res \<Rightarrow> ('a \<Rightarrow> 'b res) \<Rightarrow> 'b res" where
  "bind_res r f = (case r of Inl e \<Rightarrow> Inl e | Inr x \<Rightarrow> f x)"

lemma bind_res_simps [simp]:
  "bind_res (Inl e) f = Inl e"
  "bind_res (Inr x) f = f x"
  by (simp_all add: bind_res_def)

lemma bind_res_Inr_iff:
  "bind_res r f = Inr y \<longleftrightarrow> (\<exists>x. r = Inr x \<and> f x = Inr y)"
  by (cases r) auto

lemma bind_res_cong [fundef_cong]:
  "r = r' \<Longrightarrow> (\<And>x. r' = Inr x \<Longrightarrow> f x = g x) \<Longrightarrow> bind_res r f = bind_res r' g"
  by (cases r') simp_all

text \<open>A C \<^verbatim>\<open>for\<close> loop over the elements of a list whose body can fail.\<close>

fun fold_res :: "('a \<Rightarrow> 's \<Rightarrow> 's res) \<Rightarrow> 'a list \<Rightarrow> 's \<Rightarrow> 's res" where
  "fold_res f [] s = Inr s"
| "fold_res f (x # xs) s = bind_res (f x s) (fold_res f xs)"

lemma bind_res_assoc: "bind_res (bind_res r f) g = bind_res r (\<lambda>x. bind_res (f x) g)"
  by (cases r) simp_all

lemma fold_res_append: "fold_res f (xs @ ys) s = bind_res (fold_res f xs s) (fold_res f ys)"
proof (induction xs arbitrary: s)
  case (Cons x xs)
  then show ?case by (cases "f x s") simp_all
qed simp

definition flag_set :: "u16 \<Rightarrow> u16 \<Rightarrow> bool" where
  "flag_set w m \<longleftrightarrow> w AND m \<noteq> 0"

lemma flag_set_or [simp]:
  "flag_set (a OR b) m \<longleftrightarrow> flag_set a m \<or> flag_set b m"
  by (simp add: flag_set_def bit.conj_disj_distrib2 or_eq_0_iff)

section \<open>Circular slices of an array\<close>

text \<open>The \<open>n\<close> elements of the array \<open>xs\<close> from index \<open>g\<close> on, wrapping at the end.\<close>

definition ring_slice :: "'a list \<Rightarrow> nat \<Rightarrow> nat \<Rightarrow> 'a list" where
  "ring_slice xs g n = map (\<lambda>i. xs ! ((g + i) mod length xs)) [0..<n]"

lemma length_ring_slice [simp]: "length (ring_slice xs g n) = n"
  by (simp add: ring_slice_def)

lemma ring_slice_0 [simp]: "ring_slice xs g 0 = []"
  by (simp add: ring_slice_def)

lemma nth_ring_slice: "i < n \<Longrightarrow> ring_slice xs g n ! i = xs ! ((g + i) mod length xs)"
  by (simp add: ring_slice_def)

lemma ring_slice_snoc:
  "ring_slice xs g (Suc n) = ring_slice xs g n @ [xs ! ((g + n) mod length xs)]"
  by (simp add: ring_slice_def)

lemma ring_slice_Cons:
  "ring_slice xs g (Suc n) = xs ! (g mod length xs) # ring_slice xs (Suc g mod length xs) n"
  by (rule nth_equalityI)
    (auto simp: nth_ring_slice nth_Cons mod_add_left_eq mod_Suc_eq split: nat.splits)

text \<open>Two positions of a slice that is shorter than the array never coincide.\<close>

lemma ring_index_neq:
  assumes "i < n" and "n < (b::nat)"
  shows "(g + i) mod b \<noteq> (g + n) mod b"
proof
  assume "(g + i) mod b = (g + n) mod b"
  then have "b dvd (g + n) - (g + i)"
    using assms(1) by (metis add_le_mono less_imp_le_nat mod_eq_dvd_iff_nat order_refl)
  then have "b dvd n - i" by simp
  with assms show False by (meson diff_le_self nat_dvd_not_less order_le_less_trans zero_less_diff)
qed

lemma ring_slice_update_outside:
  assumes "n < length xs"
  shows "ring_slice (xs[(g + n) mod length xs := x]) g n = ring_slice xs g n"
proof (rule nth_equalityI)
  fix i assume "i < length (ring_slice (xs[(g + n) mod length xs := x]) g n)"
  then have "i < n" by simp
  with ring_index_neq[OF this assms, of g] show
    "ring_slice (xs[(g + n) mod length xs := x]) g n ! i = ring_slice xs g n ! i"
    by (simp add: nth_ring_slice nth_list_update_neq)
qed simp

text \<open>Writing one element behind a slice that leaves room for it appends the element.\<close>

lemma ring_slice_append:
  assumes "n < length xs"
  shows "ring_slice (xs[(g + n) mod length xs := x]) g (Suc n) = ring_slice xs g n @ [x]"
proof -
  have "(g + n) mod length xs < length xs"
    using assms by (intro mod_less_divisor) auto
  then show ?thesis
    by (simp add: ring_slice_snoc ring_slice_update_outside assms)
qed

text \<open>Writing one element in front of a slice.\<close>

lemma ring_slice_update_other:
  assumes "\<And>i. i < n \<Longrightarrow> (g + i) mod length xs \<noteq> j"
  shows "ring_slice (xs[j := x]) g n = ring_slice xs g n"
proof (rule nth_equalityI)
  fix i assume "i < length (ring_slice (xs[j := x]) g n)"
  then show "ring_slice (xs[j := x]) g n ! i = ring_slice xs g n ! i"
    using assms[of i, symmetric] by (simp add: nth_ring_slice)
qed simp

lemma ring_slice_push:
  assumes "n < length xs" and "g < length xs" and "h = (if 0 < g then g - 1 else length xs - 1)"
  shows "ring_slice (xs[h := x]) h (Suc n) = x # ring_slice xs g n"
proof -
  have h: "h < length xs" "Suc h mod length xs = g" using assms(2,3) by auto
  have "(g + i) mod length xs \<noteq> h" if "i < n" for i
    using ring_index_neq[of 0 "Suc i" "length xs" h] that assms(1) h
    by (simp add: mod_Suc_eq) (metis add_Suc_right add_Suc mod_add_left_eq)
  then have "ring_slice (xs[h := x]) g n = ring_slice xs g n" by (rule ring_slice_update_other)
  then show ?thesis using h by (simp add: ring_slice_Cons)
qed

end
