(* ===== verification/Fifo_Spec.thy ===== *)
theory Fifo_Spec
  imports Prelude
begin

text \<open>
  The contract of a bounded byte queue that drops its oldest element when a new one
  arrives and there is no room: what the interrupt handler and the reader of the
  serial driver rely on. The receive FIFO of \<^verbatim>\<open>serial.c\<close> and the forced put of
  \<^verbatim>\<open>ringbuffer.c\<close> both implement it.
\<close>

locale overwriting_fifo =
  fixes put :: "'q \<Rightarrow> 'a \<Rightarrow> 'q"
    and get :: "'q \<Rightarrow> ('a \<times> 'q) option"
    and contents :: "'q \<Rightarrow> 'a list"
    and invar :: "'q \<Rightarrow> bool"
    and cap :: "'q \<Rightarrow> nat"
  assumes contents_bound: "invar q \<Longrightarrow> length (contents q) \<le> cap q"
    and contents_put: "invar q \<Longrightarrow>
      contents (put q x) = drop (Suc (length (contents q)) - cap q) (contents q @ [x])"
    and invar_put: "invar q \<Longrightarrow> invar (put q x)"
    and cap_put: "invar q \<Longrightarrow> cap (put q x) = cap q"
    and get_empty: "invar q \<Longrightarrow> contents q = [] \<Longrightarrow> get q = None"
    and get_nonempty: "invar q \<Longrightarrow> contents q = x # xs \<Longrightarrow>
      \<exists>q'. get q = Some (x, q') \<and> contents q' = xs \<and> invar q' \<and> cap q' = cap q"
begin

lemma invar_puts: "invar q \<Longrightarrow> invar (foldl put q xs)"
  by (induction xs arbitrary: q) (simp_all add: invar_put)

lemma cap_puts: "invar q \<Longrightarrow> cap (foldl put q xs) = cap q"
  by (induction xs arbitrary: q) (simp_all add: invar_put cap_put)

text \<open>After a burst of puts the queue holds the newest elements, in arrival order.\<close>

lemma contents_puts:
  "invar q \<Longrightarrow>
   contents (foldl put q xs) = drop (length (contents q) + length xs - cap q) (contents q @ xs)"
proof (induction xs arbitrary: q)
  case Nil
  then show ?case using contents_bound by simp
next
  case (Cons x xs)
  let ?d = "Suc (length (contents q)) - cap q"
  have len: "length (contents (put q x)) = Suc (length (contents q)) - ?d"
    using Cons.prems by (simp add: contents_put)
  have "contents (foldl put q (x # xs)) =
      drop (length (contents (put q x)) + length xs - cap q) (contents (put q x) @ xs)"
    using Cons by (simp add: invar_put cap_put)
  also have "contents (put q x) @ xs = drop ?d ((contents q @ [x]) @ xs)"
    using Cons.prems by (subst drop_append) (simp add: contents_put)
  also have "(contents q @ [x]) @ xs = contents q @ x # xs" by simp
  also have "drop (length (contents (put q x)) + length xs - cap q)
      (drop ?d (contents q @ x # xs)) =
      drop (length (contents q) + length (x # xs) - cap q) (contents q @ x # xs)"
    unfolding len drop_drop using contents_bound[OF Cons.prems]
    by (intro arg_cong2[of _ _ _ _ drop]) auto
  finally show ?case .
qed

text \<open>Nothing is lost while the burst fits into the free room.\<close>

lemma contents_puts_fit:
  assumes "invar q" and "length (contents q) + length xs \<le> cap q"
  shows "contents (foldl put q xs) = contents q @ xs"
  using assms by (simp add: contents_puts)

end

text \<open>
  A reader that takes up to \<open>n\<close> elements by repeated \<open>get\<close>, as the read loop of a
  character device does.
\<close>

locale drained_fifo = overwriting_fifo put get contents invar cap
  for put :: "'q \<Rightarrow> 'a \<Rightarrow> 'q" and get contents invar cap +
  fixes take_n :: "nat \<Rightarrow> 'q \<Rightarrow> 'a list \<times> 'q"
  assumes take_n_0: "take_n 0 q = ([], q)"
    and take_n_Suc: "take_n (Suc n) q =
      (case get q of None \<Rightarrow> ([], q)
       | Some (x, q') \<Rightarrow> (case take_n n q' of (xs, q'') \<Rightarrow> (x # xs, q'')))"
begin

lemma take_n_correct:
  "invar q \<Longrightarrow>
   fst (take_n n q) = take n (contents q) \<and>
   contents (snd (take_n n q)) = drop n (contents q) \<and>
   invar (snd (take_n n q)) \<and> cap (snd (take_n n q)) = cap q"
proof (induction n arbitrary: q)
  case 0
  then show ?case by (simp add: take_n_0)
next
  case (Suc n)
  show ?case
  proof (cases "contents q")
    case Nil
    with Suc.prems get_empty show ?thesis by (simp add: take_n_Suc)
  next
    case (Cons x xs)
    then obtain q' where "get q = Some (x, q')" "contents q' = xs" "invar q'" "cap q' = cap q"
      using Suc.prems get_nonempty by blast
    with Suc.IH[of q'] Cons show ?thesis
      by (cases "take_n n q'") (simp add: take_n_Suc)
  qed
qed

end

section \<open>A bounded queue that refuses\<close>

text \<open>
  The contract of a bounded queue that refuses a new element when it is full, and that can also
  take an urgent element at its front: mailboxes and message queues implement it. The
  predicate \<open>elem_ok\<close> tells which elements the queue is made for.
\<close>

datatype 'a queue_cmd = Cmd_Put 'a | Cmd_Push 'a | Cmd_Take

text \<open>What commands have done, in order.\<close>

datatype 'a queue_op = Put 'a | Pushed 'a | Taken 'a

text \<open>What is in a list-like queue after operations; \<open>None\<close> if one took what was not the first.\<close>

fun replay :: "'a queue_op list \<Rightarrow> 'a list \<Rightarrow> 'a list option" where
  "replay [] xs = Some xs"
| "replay (Put x # ops) xs = replay ops (xs @ [x])"
| "replay (Pushed x # ops) xs = replay ops (x # xs)"
| "replay (Taken x # ops) xs = (case xs of [] \<Rightarrow> None | y # ys \<Rightarrow> if x = y then replay ops ys else None)"

fun puts_of :: "'a queue_op list \<Rightarrow> 'a list" where
  "puts_of [] = []"
| "puts_of (Put x # ops) = x # puts_of ops"
| "puts_of (_ # ops) = puts_of ops"

fun taken_of :: "'a queue_op list \<Rightarrow> 'a list" where
  "taken_of [] = []"
| "taken_of (Taken x # ops) = x # taken_of ops"
| "taken_of (_ # ops) = taken_of ops"

lemma replay_append: "replay (as @ bs) xs = Option.bind (replay as xs) (replay bs)"
  by (induction as xs rule: replay.induct) (auto split: list.splits)

text \<open>Without urgent elements, everything comes out once and in the order it was put in.\<close>

lemma replay_fifo:
  assumes "replay ops xs = Some ys" and "\<And>x. Pushed x \<notin> set ops"
  shows "xs @ puts_of ops = taken_of ops @ ys"
  using assms by (induction ops xs rule: replay.induct) (auto split: list.splits if_splits)

fun run_queue :: "('a \<Rightarrow> 'q \<Rightarrow> 'q option) \<Rightarrow> ('a \<Rightarrow> 'q \<Rightarrow> 'q option) \<Rightarrow> ('q \<Rightarrow> ('a \<times> 'q) option) \<Rightarrow>
    'a queue_cmd list \<Rightarrow> 'q \<Rightarrow> 'a queue_op list \<times> 'q" where
  "run_queue enq push deq [] q = ([], q)"
| "run_queue enq push deq (c # cs) q =
     (case (case c of Cmd_Put x \<Rightarrow> map_option (Pair (Put x)) (enq x q)
                    | Cmd_Push x \<Rightarrow> map_option (Pair (Pushed x)) (push x q)
                    | Cmd_Take \<Rightarrow> map_option (\<lambda>(x, q'). (Taken x, q')) (deq q)) of
        None \<Rightarrow> run_queue enq push deq cs q
      | Some (e, q') \<Rightarrow> (case run_queue enq push deq cs q' of (es, q'') \<Rightarrow> (e # es, q'')))"

locale bounded_queue =
  fixes enq :: "'a \<Rightarrow> 'q \<Rightarrow> 'q option"
    and push :: "'a \<Rightarrow> 'q \<Rightarrow> 'q option"
    and deq :: "'q \<Rightarrow> ('a \<times> 'q) option"
    and contents :: "'q \<Rightarrow> 'a list"
    and invar :: "'q \<Rightarrow> bool"
    and cap :: "'q \<Rightarrow> nat"
    and elem_ok :: "'q \<Rightarrow> 'a \<Rightarrow> bool"
  assumes contents_bound: "invar q \<Longrightarrow> length (contents q) \<le> cap q"
    and enq_full: "invar q \<Longrightarrow> length (contents q) = cap q \<Longrightarrow> enq x q = None"
    and enq_room: "invar q \<Longrightarrow> elem_ok q x \<Longrightarrow> length (contents q) < cap q \<Longrightarrow>
      \<exists>q'. enq x q = Some q' \<and> contents q' = contents q @ [x] \<and> invar q' \<and> cap q' = cap q \<and> elem_ok q' = elem_ok q"
    and push_full: "invar q \<Longrightarrow> length (contents q) = cap q \<Longrightarrow> push x q = None"
    and push_room: "invar q \<Longrightarrow> elem_ok q x \<Longrightarrow> length (contents q) < cap q \<Longrightarrow>
      \<exists>q'. push x q = Some q' \<and> contents q' = x # contents q \<and> invar q' \<and> cap q' = cap q \<and> elem_ok q' = elem_ok q"
    and deq_empty: "invar q \<Longrightarrow> contents q = [] \<Longrightarrow> deq q = None"
    and deq_nonempty: "invar q \<Longrightarrow> contents q = x # xs \<Longrightarrow>
      \<exists>q'. deq q = Some (x, q') \<and> contents q' = xs \<and> invar q' \<and> cap q' = cap q \<and> elem_ok q' = elem_ok q"
begin

lemma enq_Some:
  assumes "invar q" and "elem_ok q x" and "enq x q = Some q'"
  shows "contents q' = contents q @ [x] \<and> invar q' \<and> cap q' = cap q \<and> elem_ok q' = elem_ok q"
proof -
  have "length (contents q) < cap q"
    using assms(1,3) contents_bound[OF assms(1)] enq_full[OF assms(1)] by fastforce
  then show ?thesis using enq_room[OF assms(1,2)] assms(3) by auto
qed

lemma push_Some:
  assumes "invar q" and "elem_ok q x" and "push x q = Some q'"
  shows "contents q' = x # contents q \<and> invar q' \<and> cap q' = cap q \<and> elem_ok q' = elem_ok q"
proof -
  have "length (contents q) < cap q"
    using assms(1,3) contents_bound[OF assms(1)] push_full[OF assms(1)] by fastforce
  then show ?thesis using push_room[OF assms(1,2)] assms(3) by auto
qed

lemma deq_Some:
  assumes "invar q" and "deq q = Some (x, q')"
  shows "contents q = x # contents q' \<and> invar q' \<and> cap q' = cap q \<and> elem_ok q' = elem_ok q"
  using assms deq_empty[OF assms(1)] deq_nonempty[OF assms(1)] by (cases "contents q") auto

text \<open>Any sequence of commands acts on the contents as on a list.\<close>

lemma run_queue_correct:
  assumes "invar q" and "\<And>x. Cmd_Put x \<in> set cs \<or> Cmd_Push x \<in> set cs \<Longrightarrow> elem_ok q x"
    and "run_queue enq push deq cs q = (ops, q')"
  shows "replay ops (contents q) = Some (contents q') \<and> invar q' \<and> cap q' = cap q"
  using assms
proof (induction cs arbitrary: q ops)
  case (Cons c cs)
  let ?step = "case c of Cmd_Put x \<Rightarrow> map_option (Pair (Put x)) (enq x q)
                    | Cmd_Push x \<Rightarrow> map_option (Pair (Pushed x)) (push x q)
                    | Cmd_Take \<Rightarrow> map_option (\<lambda>(x, q'). (Taken x, q')) (deq q)"
  show ?case
  proof (cases ?step)
    case None
    then have "run_queue enq push deq cs q = (ops, q')" using Cons.prems(3) by simp
    then show ?thesis by (rule Cons.IH[OF Cons.prems(1), rotated]) (use Cons.prems(2) in auto)
  next
    case (Some r)
    obtain e q1 where r: "?step = Some (e, q1)" using Some by (cases r) simp
    obtain es where es: "run_queue enq push deq cs q1 = (es, q')" "ops = e # es"
      using Cons.prems(3) r by (auto split: prod.splits)
    have el: "c = Cmd_Put x \<or> c = Cmd_Push x \<Longrightarrow> elem_ok q x" for x using Cons.prems(2)[of x] by auto
    have q1: "replay [e] (contents q) = Some (contents q1) \<and> invar q1 \<and> cap q1 = cap q \<and> elem_ok q1 = elem_ok q"
    proof (cases c)
      case (Cmd_Put x)
      then have "enq x q = Some q1" "e = Put x" using r by auto
      then show ?thesis
        using enq_Some[OF Cons.prems(1) el[of x]] Cmd_Put by simp
    next
      case (Cmd_Push x)
      then have "push x q = Some q1" "e = Pushed x" using r by auto
      then show ?thesis
        using push_Some[OF Cons.prems(1) el[of x]] Cmd_Push by simp
    next
      case Cmd_Take
      then obtain x where "deq q = Some (x, q1)" "e = Taken x" using r by auto
      then show ?thesis
        using deq_Some[OF Cons.prems(1)] by simp
    qed
    have "elem_ok q1 x" if "Cmd_Put x \<in> set cs \<or> Cmd_Push x \<in> set cs" for x
      using q1 Cons.prems(2)[of x] that by auto
    then have "replay es (contents q1) = Some (contents q') \<and> invar q' \<and> cap q' = cap q"
      using Cons.IH[OF _ _ es(1)] q1 by metis
    then show ?thesis using q1 es(2) replay_append[of "[e]" es "contents q"] by simp
  qed
qed simp

end

end
