(* ===== verification/Device.thy ===== *)
theory Device
  imports Prelude
begin

text \<open>
  The device layer of the kernel (\<^verbatim>\<open>rt-thread/src/device.c\<close>) and the part of the
  object container it stands on (\<^verbatim>\<open>rt-thread/src/object.c\<close>). \<open>struct rt_device\<close> is an
  extensible record: a driver's structure extends it, as the C structure embeds
  \<open>parent\<close>. The function pointers of a device are arguments of the operations that
  call through them; \<open>None\<close> is a null pointer. The null-pointer and object-type
  assertions on the device argument hold by typing.
\<close>

section \<open>State\<close>

record rt_device =
  flag :: u16
  open_flag :: u16
  ref_count :: u8
  rx_indicate :: "string option"
  tx_complete :: "string option"

abbreviation (input) RT_DEVICE_FLAG_RDWR :: u16 where "RT_DEVICE_FLAG_RDWR \<equiv> 0x003"
abbreviation (input) RT_DEVICE_FLAG_STANDALONE :: u16 where "RT_DEVICE_FLAG_STANDALONE \<equiv> 0x008"
abbreviation (input) RT_DEVICE_FLAG_ACTIVATED :: u16 where "RT_DEVICE_FLAG_ACTIVATED \<equiv> 0x010"
abbreviation (input) RT_DEVICE_FLAG_SUSPENDED :: u16 where "RT_DEVICE_FLAG_SUSPENDED \<equiv> 0x020"
abbreviation (input) RT_DEVICE_FLAG_STREAM :: u16 where "RT_DEVICE_FLAG_STREAM \<equiv> 0x040"
abbreviation (input) RT_DEVICE_FLAG_INT_RX :: u16 where "RT_DEVICE_FLAG_INT_RX \<equiv> 0x100"
abbreviation (input) RT_DEVICE_FLAG_DMA_RX :: u16 where "RT_DEVICE_FLAG_DMA_RX \<equiv> 0x200"
abbreviation (input) RT_DEVICE_FLAG_INT_TX :: u16 where "RT_DEVICE_FLAG_INT_TX \<equiv> 0x400"
abbreviation (input) RT_DEVICE_FLAG_DMA_TX :: u16 where "RT_DEVICE_FLAG_DMA_TX \<equiv> 0x800"
abbreviation (input) RT_DEVICE_OFLAG_OPEN :: u16 where "RT_DEVICE_OFLAG_OPEN \<equiv> 0x008"
abbreviation (input) RT_DEVICE_OFLAG_MASK :: u16 where "RT_DEVICE_OFLAG_MASK \<equiv> 0xf0f"

section \<open>Object container\<close>

text \<open>
  The list of objects of one class, newest first: the name as stored (at most
  \<open>RT_NAME_MAX\<close> characters) and the object's identity.
\<close>

type_synonym registry = "(string \<times> nat) list"

definition RT_NAME_MAX :: nat where
  "RT_NAME_MAX = 8"

definition rt_object_init :: "registry \<Rightarrow> nat \<Rightarrow> string \<Rightarrow> registry res" where
  "rt_object_init reg ob name =
     (if ob \<in> snd ` set reg then Inl Assert_Failed
      else Inr ((take RT_NAME_MAX name, ob) # reg))"

definition rt_object_detach :: "registry \<Rightarrow> nat \<Rightarrow> registry" where
  "rt_object_detach reg ob = filter (\<lambda>(_, i). i \<noteq> ob) reg"

fun rt_object_find :: "registry \<Rightarrow> string \<Rightarrow> nat option" where
  "rt_object_find [] name = None"
| "rt_object_find ((n, ob) # reg) name =
     (if take RT_NAME_MAX n = take RT_NAME_MAX name then Some ob else rt_object_find reg name)"

definition rt_device_find :: "registry \<Rightarrow> string \<Rightarrow> nat option" where
  "rt_device_find reg name = rt_object_find reg name"

definition rt_device_register ::
  "registry \<Rightarrow> nat option \<Rightarrow> 'a rt_device_scheme \<Rightarrow> string \<Rightarrow> u16
    \<Rightarrow> (rt_err_t \<times> registry \<times> 'a rt_device_scheme) res" where
  "rt_device_register reg ob dev name flags =
     (case ob of None \<Rightarrow> Inr (- RT_ERROR, reg, dev)
      | Some i \<Rightarrow>
          if rt_device_find reg name \<noteq> None then Inr (- RT_ERROR, reg, dev)
          else bind_res (rt_object_init reg i name)
            (\<lambda>reg'. Inr (RT_EOK, reg', dev\<lparr>flag := flags, ref_count := 0, open_flag := 0\<rparr>)))"

definition rt_device_unregister :: "registry \<Rightarrow> nat \<Rightarrow> rt_err_t \<times> registry" where
  "rt_device_unregister reg ob = (RT_EOK, rt_object_detach reg ob)"

section \<open>Device operations\<close>

type_synonym 'd init_fn = "'d \<Rightarrow> (rt_err_t \<times> 'd) res"
type_synonym 'd open_fn = "'d \<Rightarrow> u16 \<Rightarrow> (rt_err_t \<times> 'd) res"
type_synonym 'd read_fn = "'d \<Rightarrow> int \<Rightarrow> nat \<Rightarrow> (u8 list \<times> 'd) res"
type_synonym 'd write_fn = "'d \<Rightarrow> int \<Rightarrow> u8 list \<Rightarrow> (nat \<times> 'd) res"
type_synonym ('d, 'arg) control_fn = "'d \<Rightarrow> int \<Rightarrow> 'arg \<Rightarrow> (rt_err_t \<times> 'd) res"

abbreviation activate :: "'a rt_device_scheme \<Rightarrow> 'a rt_device_scheme" where
  "activate dev \<equiv> dev\<lparr>flag := flag dev OR RT_DEVICE_FLAG_ACTIVATED\<rparr>"

definition rt_device_init ::
  "'a rt_device_scheme init_fn option \<Rightarrow> 'a rt_device_scheme
    \<Rightarrow> (rt_err_t \<times> 'a rt_device_scheme) res" where
  "rt_device_init ini dev =
     (case ini of None \<Rightarrow> Inr (RT_EOK, dev)
      | Some f \<Rightarrow>
          if flag_set (flag dev) RT_DEVICE_FLAG_ACTIVATED then Inr (RT_EOK, dev)
          else bind_res (f dev) (\<lambda>(r, d). Inr (if r \<noteq> RT_EOK then (r, d) else (r, activate d))))"

text \<open>The part of \<^verbatim>\<open>rt_device_open\<close> after the initialisation of the device.\<close>

definition device_open_tail ::
  "'a rt_device_scheme open_fn option \<Rightarrow> u16 \<Rightarrow> 'a rt_device_scheme
    \<Rightarrow> (rt_err_t \<times> 'a rt_device_scheme) res" where
  "device_open_tail opn oflag dev =
     (if flag_set (flag dev) RT_DEVICE_FLAG_STANDALONE \<and>
         flag_set (open_flag dev) RT_DEVICE_OFLAG_OPEN
      then Inr (- RT_EBUSY, dev)
      else bind_res
        (case opn of Some f \<Rightarrow> f dev oflag
         | None \<Rightarrow> Inr (RT_EOK, dev\<lparr>open_flag := oflag AND RT_DEVICE_OFLAG_MASK\<rparr>))
        (\<lambda>(r, d). if r = RT_EOK \<or> r = - RT_ENOSYS
           then (if ref_count d + 1 = 0 then Inl Assert_Failed
                 else Inr (r, d\<lparr>open_flag := open_flag d OR RT_DEVICE_OFLAG_OPEN,
                                 ref_count := ref_count d + 1\<rparr>))
           else Inr (r, d)))"

definition rt_device_open ::
  "'a rt_device_scheme init_fn option \<Rightarrow> 'a rt_device_scheme open_fn option \<Rightarrow> u16
    \<Rightarrow> 'a rt_device_scheme \<Rightarrow> (rt_err_t \<times> 'a rt_device_scheme) res" where
  "rt_device_open ini opn oflag dev =
     (if flag_set (flag dev) RT_DEVICE_FLAG_ACTIVATED then device_open_tail opn oflag dev
      else (case ini of None \<Rightarrow> device_open_tail opn oflag (activate dev)
            | Some f \<Rightarrow> bind_res (f dev) (\<lambda>(r, d).
                if r \<noteq> RT_EOK then Inr (r, d) else device_open_tail opn oflag (activate d))))"

definition rt_device_close ::
  "'a rt_device_scheme init_fn option \<Rightarrow> 'a rt_device_scheme
    \<Rightarrow> (rt_err_t \<times> 'a rt_device_scheme) res" where
  "rt_device_close cls dev =
     (if ref_count dev = 0 then Inr (- RT_ERROR, dev)
      else let dev1 = dev\<lparr>ref_count := ref_count dev - 1\<rparr> in
        if ref_count dev1 \<noteq> 0 then Inr (RT_EOK, dev1)
        else bind_res (case cls of None \<Rightarrow> Inr (RT_EOK, dev1) | Some f \<Rightarrow> f dev1)
          (\<lambda>(r, d). Inr (r, if r = RT_EOK \<or> r = - RT_ENOSYS then d\<lparr>open_flag := 0\<rparr> else d)))"

text \<open>
  A read returns the error number it leaves for the caller (\<open>RT_EOK\<close> when it sets
  none) and the bytes read; the size C returns is the length of that list.
\<close>

definition rt_device_read ::
  "'a rt_device_scheme read_fn option \<Rightarrow> int \<Rightarrow> nat \<Rightarrow> 'a rt_device_scheme
    \<Rightarrow> (rt_err_t \<times> u8 list \<times> 'a rt_device_scheme) res" where
  "rt_device_read rd pos sz dev =
     (if ref_count dev = 0 then Inr (- RT_ERROR, [], dev)
      else case rd of None \<Rightarrow> Inr (- RT_ENOSYS, [], dev)
        | Some f \<Rightarrow> bind_res (f dev pos sz) (\<lambda>(bs, d). Inr (RT_EOK, bs, d)))"

definition rt_device_write ::
  "'a rt_device_scheme write_fn option \<Rightarrow> int \<Rightarrow> u8 list \<Rightarrow> 'a rt_device_scheme
    \<Rightarrow> (rt_err_t \<times> nat \<times> 'a rt_device_scheme) res" where
  "rt_device_write wr pos bs dev =
     (if ref_count dev = 0 then Inr (- RT_ERROR, 0, dev)
      else case wr of None \<Rightarrow> Inr (- RT_ENOSYS, 0, dev)
        | Some f \<Rightarrow> bind_res (f dev pos bs) (\<lambda>(n, d). Inr (RT_EOK, n, d)))"

definition rt_device_control ::
  "('a rt_device_scheme, 'arg) control_fn option \<Rightarrow> int \<Rightarrow> 'arg \<Rightarrow> 'a rt_device_scheme
    \<Rightarrow> (rt_err_t \<times> 'a rt_device_scheme) res" where
  "rt_device_control ctl cmd arg dev =
     (case ctl of None \<Rightarrow> Inr (- RT_ENOSYS, dev) | Some f \<Rightarrow> f dev cmd arg)"

definition rt_device_set_rx_indicate ::
  "'a rt_device_scheme \<Rightarrow> string option \<Rightarrow> rt_err_t \<times> 'a rt_device_scheme" where
  "rt_device_set_rx_indicate dev rx_ind = (RT_EOK, dev\<lparr>rx_indicate := rx_ind\<rparr>)"

definition rt_device_set_tx_complete ::
  "'a rt_device_scheme \<Rightarrow> string option \<Rightarrow> rt_err_t \<times> 'a rt_device_scheme" where
  "rt_device_set_tx_complete dev tx_done = (RT_EOK, dev\<lparr>tx_complete := tx_done\<rparr>)"

text \<open>No two registered objects answer to the same name.\<close>

definition names_distinct :: "registry \<Rightarrow> bool" where
  [inv_simps]: "names_distinct reg \<longleftrightarrow> distinct (map (take RT_NAME_MAX \<circ> fst) reg)"

section \<open>Lemmas\<close>

lemma rt_object_find_SomeD: "rt_object_find reg name = Some ob \<Longrightarrow> ob \<in> snd ` set reg"
  by (induction reg name rule: rt_object_find.induct) (auto split: if_splits)

lemma rt_object_find_None_iff:
  "rt_object_find reg name = None \<longleftrightarrow>
     (\<forall>n \<in> fst ` set reg. take RT_NAME_MAX n \<noteq> take RT_NAME_MAX name)"
  by (induction reg name rule: rt_object_find.induct) auto

lemma rt_device_register_ok:
  assumes "rt_device_register reg (Some i) dev name flags = Inr (RT_EOK, reg', dev')"
  shows "rt_device_find reg' name = Some i"
    and "names_distinct reg \<Longrightarrow> names_distinct reg'"
    and "take RT_NAME_MAX other \<noteq> take RT_NAME_MAX name \<Longrightarrow>
         rt_device_find reg' other = rt_device_find reg other"
  using assms
  by (force simp: rt_device_register_def rt_device_find_def rt_object_init_def inv_simps
      rt_object_find_None_iff image_iff split: if_splits)+

text \<open>An open device has been activated and counts its users.\<close>

lemma device_open_tail_ok:
  assumes "device_open_tail opn oflag dev = Inr (RT_EOK, dev')"
  shows "ref_count dev' \<noteq> 0 \<and> flag_set (open_flag dev') RT_DEVICE_OFLAG_OPEN"
proof -
  from assms obtain d where
    "dev' = d\<lparr>open_flag := open_flag d OR RT_DEVICE_OFLAG_OPEN, ref_count := ref_count d + 1\<rparr>"
    "ref_count d + 1 \<noteq> 0"
    unfolding device_open_tail_def
    by (fastforce simp: bind_res_Inr_iff split: if_splits prod.splits)
  then show ?thesis by (simp add: flag_set_def)
qed

end
