(* ===== verification/Serial.thy ===== *)
theory Serial
  imports Fifo_Spec Device
begin

text \<open>
  The serial framework (\<^verbatim>\<open>rt-thread/components/drivers/serial/serial.c\<close>) with the UART
  operations of the board (\<^verbatim>\<open>drivers/drv_usart.c\<close>), in the configuration of
  \<^verbatim>\<open>rtconfig.h\<close>: version 1 of the framework, no DMA, no POSIX stdio. The hardware is a
  record: the bytes the receiver still holds (\<open>RXNE\<close> is set while there is one, and
  reading \<open>RDR\<close> takes it), the bytes written to \<open>TDR\<close>, the receive interrupt enable
  and the values last handed to \<^verbatim>\<open>HAL_UART_Init\<close>, whose outcome is a parameter.
  FIFO indices are \<open>nat\<close>: the FIFO invariant keeps them below \<open>bufsz < 2 ^ 16\<close>.
\<close>

section \<open>State\<close>

record serial_configure =
  baud_rate :: nat
  data_bits :: nat
  stop_bits :: nat
  parity :: nat
  bit_order :: nat
  invert :: nat
  bufsz :: nat
  flowcontrol :: nat

record rx_fifo =
  buffer :: "u8 list"
  put_index :: nat
  get_index :: nat
  is_full :: bool

datatype word_length = UART_WORDLENGTH_8B | UART_WORDLENGTH_9B
datatype stop_length = UART_STOPBITS_1 | UART_STOPBITS_2
datatype parity_mode = UART_PARITY_NONE | UART_PARITY_ODD | UART_PARITY_EVEN

record uart_init =
  BaudRate :: nat
  WordLength :: word_length
  StopBits :: stop_length
  Parity :: parity_mode

record uart_hw =
  rdr :: "u8 list"
  tdr :: "u8 list"
  rxne_it :: bool
  nvic_irq :: bool
  Init :: uart_init

record serial_dev = rt_device +
  config :: serial_configure
  serial_rx :: "rx_fifo option"
  serial_tx :: "unit option"
  hw :: uart_hw

definition RT_SERIAL_CONFIG_DEFAULT :: serial_configure where
  "RT_SERIAL_CONFIG_DEFAULT =
     \<lparr>baud_rate = 115200, data_bits = 8, stop_bits = 0, parity = 0, bit_order = 0,
      invert = 0, bufsz = 64, flowcontrol = 0\<rparr>"

section \<open>UART operations of the board\<close>

definition stm32_configure ::
  "(uart_init \<Rightarrow> bool) \<Rightarrow> serial_dev \<Rightarrow> serial_configure \<Rightarrow> rt_err_t \<times> serial_dev" where
  "stm32_configure hal_uart_init s cfg =
     (let ini = \<lparr>BaudRate = baud_rate cfg,
                 WordLength = (if data_bits cfg = 9 then UART_WORDLENGTH_9B else UART_WORDLENGTH_8B),
                 StopBits = (if stop_bits cfg = 1 then UART_STOPBITS_2 else UART_STOPBITS_1),
                 Parity = (if parity cfg = 1 then UART_PARITY_ODD
                           else if parity cfg = 2 then UART_PARITY_EVEN else UART_PARITY_NONE)\<rparr>;
          s' = s\<lparr>hw := (hw s)\<lparr>Init := ini\<rparr>\<rparr>
      in if hal_uart_init ini then (RT_EOK, s') else (- RT_ERROR, s'))"

abbreviation (input) RT_DEVICE_CTRL_RESUME :: int where "RT_DEVICE_CTRL_RESUME \<equiv> 0x01"
abbreviation (input) RT_DEVICE_CTRL_SUSPEND :: int where "RT_DEVICE_CTRL_SUSPEND \<equiv> 0x02"
abbreviation (input) RT_DEVICE_CTRL_CONFIG :: int where "RT_DEVICE_CTRL_CONFIG \<equiv> 0x03"
abbreviation (input) RT_DEVICE_CTRL_CLOSE :: int where "RT_DEVICE_CTRL_CLOSE \<equiv> 0x04"
abbreviation (input) RT_DEVICE_CTRL_SET_INT :: int where "RT_DEVICE_CTRL_SET_INT \<equiv> 0x10"
abbreviation (input) RT_DEVICE_CTRL_CLR_INT :: int where "RT_DEVICE_CTRL_CLR_INT \<equiv> 0x11"

definition stm32_control :: "serial_dev \<Rightarrow> int \<Rightarrow> rt_err_t \<times> serial_dev" where
  "stm32_control s cmd =
     (RT_EOK,
      if cmd = RT_DEVICE_CTRL_CLR_INT then s\<lparr>hw := (hw s)\<lparr>nvic_irq := False, rxne_it := False\<rparr>\<rparr>
      else if cmd = RT_DEVICE_CTRL_SET_INT then s\<lparr>hw := (hw s)\<lparr>nvic_irq := True, rxne_it := True\<rparr>\<rparr>
      else s)"

definition stm32_putc :: "serial_dev \<Rightarrow> u8 \<Rightarrow> int \<times> serial_dev" where
  "stm32_putc s c = (1, s\<lparr>hw := (hw s)\<lparr>tdr := tdr (hw s) @ [c]\<rparr>\<rparr>)"

definition stm32_getc :: "serial_dev \<Rightarrow> int \<times> serial_dev" where
  "stm32_getc s =
     (case rdr (hw s) of [] \<Rightarrow> (-1, s)
      | c # cs \<Rightarrow> (uint c, s\<lparr>hw := (hw s)\<lparr>rdr := cs\<rparr>\<rparr>))"

section \<open>Receive FIFO\<close>

text \<open>One round of the loop of \<^verbatim>\<open>rt_hw_serial_isr\<close>: store a byte, drop the oldest if full.\<close>

definition fifo_put :: "nat \<Rightarrow> rx_fifo \<Rightarrow> u8 \<Rightarrow> rx_fifo" where
  "fifo_put b f c =
     (let p = (if put_index f + 1 \<ge> b then 0 else put_index f + 1);
          g = (if get_index f + 1 \<ge> b then 0 else get_index f + 1);
          f' = f\<lparr>buffer := (buffer f)[put_index f := c], put_index := p\<rparr>
      in if p = get_index f then f'\<lparr>get_index := g, is_full := True\<rparr> else f')"

text \<open>One round of the loop of \<^verbatim>\<open>_serial_int_rx\<close>.\<close>

definition fifo_get :: "nat \<Rightarrow> rx_fifo \<Rightarrow> (u8 \<times> rx_fifo) option" where
  "fifo_get b f =
     (if get_index f = put_index f \<and> \<not> is_full f then None
      else Some (buffer f ! get_index f,
        f\<lparr>get_index := (if get_index f + 1 \<ge> b then 0 else get_index f + 1), is_full := False\<rparr>))"

fun serial_int_rx :: "nat \<Rightarrow> nat \<Rightarrow> rx_fifo \<Rightarrow> u8 list \<times> rx_fifo" where
  "serial_int_rx b 0 f = ([], f)"
| "serial_int_rx b (Suc n) f =
     (case fifo_get b f of None \<Rightarrow> ([], f)
      | Some (c, f') \<Rightarrow> (case serial_int_rx b n f' of (cs, f'') \<Rightarrow> (c # cs, f'')))"

text \<open>The FIFO that \<^verbatim>\<open>rt_serial_open\<close> allocates.\<close>

definition fresh_fifo :: "nat \<Rightarrow> rx_fifo" where
  "fresh_fifo b = \<lparr>buffer = replicate b 0, put_index = 0, get_index = 0, is_full = False\<rparr>"

section \<open>Polling and interrupt transfers\<close>

fun serial_poll_rx :: "serial_dev \<Rightarrow> nat \<Rightarrow> u8 list \<times> serial_dev" where
  "serial_poll_rx s 0 = ([], s)"
| "serial_poll_rx s (Suc n) =
     (case stm32_getc s of (ch, s1) \<Rightarrow>
        if ch = -1 then ([], s1)
        else if flag_set (open_flag s1) RT_DEVICE_FLAG_STREAM \<and> ch = 10
        then ([word_of_int ch], s1)
        else (case serial_poll_rx s1 n of (cs, s2) \<Rightarrow> (word_of_int ch # cs, s2)))"

fun serial_poll_tx :: "serial_dev \<Rightarrow> u8 list \<Rightarrow> nat \<times> serial_dev" where
  "serial_poll_tx s [] = (0, s)"
| "serial_poll_tx s (c # cs) =
     (let s1 = (if c = 10 \<and> flag_set (open_flag s) RT_DEVICE_FLAG_STREAM
                then snd (stm32_putc s 13) else s);
          s2 = snd (stm32_putc s1 c)
      in case serial_poll_tx s2 cs of (n, s3) \<Rightarrow> (Suc n, s3))"

fun serial_int_tx :: "serial_dev \<Rightarrow> u8 list \<Rightarrow> (nat \<times> serial_dev) res" where
  "serial_int_tx s [] = Inr (0, s)"
| "serial_int_tx s (c # cs) =
     (case (if c = 10 \<and> flag_set (open_flag s) RT_DEVICE_FLAG_STREAM
            then stm32_putc s 13 else (1, s)) of (r1, s1) \<Rightarrow>
        if r1 = -1 then Inl Would_Wait
        else (case stm32_putc s1 c of (r2, s2) \<Rightarrow>
          if r2 = -1 then Inl Would_Wait
          else bind_res (serial_int_tx s2 cs) (\<lambda>(n, s3). Inr (Suc n, s3))))"

section \<open>Device interface\<close>

definition rt_serial_init :: "(uart_init \<Rightarrow> bool) \<Rightarrow> serial_dev \<Rightarrow> (rt_err_t \<times> serial_dev) res" where
  "rt_serial_init hal_uart_init s =
     (let s1 = s\<lparr>serial_rx := None, serial_tx := None\<rparr>
      in Inr (stm32_configure hal_uart_init s1 (config s1)))"

text \<open>
  \<^verbatim>\<open>rt_serial_open\<close> in three parts: the receive side, the transmit side, and the
  function itself with its checks. \<open>mem\<close> says whether the allocation succeeds.
\<close>

definition serial_open_rx :: "bool \<Rightarrow> u16 \<Rightarrow> serial_dev \<Rightarrow> serial_dev res" where
  "serial_open_rx mem oflag s =
     (case serial_rx s of
        None \<Rightarrow>
          if flag_set oflag RT_DEVICE_FLAG_INT_RX
          then if \<not> mem then Inl Assert_Failed
            else Inr (snd (stm32_control
              (s\<lparr>serial_rx := Some (fresh_fifo (bufsz (config s))),
                 open_flag := open_flag s OR RT_DEVICE_FLAG_INT_RX\<rparr>) RT_DEVICE_CTRL_SET_INT))
          else Inr (s\<lparr>serial_rx := None\<rparr>)
      | Some f \<Rightarrow>
          Inr (if flag_set oflag RT_DEVICE_FLAG_INT_RX
               then s\<lparr>open_flag := open_flag s OR RT_DEVICE_FLAG_INT_RX\<rparr> else s))"

definition serial_open_tx :: "bool \<Rightarrow> u16 \<Rightarrow> serial_dev \<Rightarrow> serial_dev res" where
  "serial_open_tx mem oflag s =
     (case serial_tx s of
        None \<Rightarrow>
          if flag_set oflag RT_DEVICE_FLAG_INT_TX
          then if \<not> mem then Inl Assert_Failed
            else Inr (snd (stm32_control
              (s\<lparr>serial_tx := Some (), open_flag := open_flag s OR RT_DEVICE_FLAG_INT_TX\<rparr>)
              RT_DEVICE_CTRL_SET_INT))
          else Inr (s\<lparr>serial_tx := None\<rparr>)
      | Some _ \<Rightarrow>
          Inr (if flag_set oflag RT_DEVICE_FLAG_INT_TX
               then s\<lparr>open_flag := open_flag s OR RT_DEVICE_FLAG_INT_TX\<rparr> else s))"

definition lacks :: "serial_dev \<Rightarrow> u16 \<Rightarrow> u16 \<Rightarrow> bool" where
  "lacks s oflag m \<longleftrightarrow> flag_set oflag m \<and> \<not> flag_set (flag s) m"

definition rt_serial_open :: "bool \<Rightarrow> serial_dev \<Rightarrow> u16 \<Rightarrow> (rt_err_t \<times> serial_dev) res" where
  "rt_serial_open mem s oflag =
     (if lacks s oflag RT_DEVICE_FLAG_DMA_RX \<or> lacks s oflag RT_DEVICE_FLAG_DMA_TX \<or>
         lacks s oflag RT_DEVICE_FLAG_INT_RX \<or> lacks s oflag RT_DEVICE_FLAG_INT_TX
      then Inr (- RT_EIO, s)
      else let
          stream_flag = (if flag_set oflag RT_DEVICE_FLAG_STREAM \<or>
                            flag_set (open_flag s) RT_DEVICE_FLAG_STREAM
                         then RT_DEVICE_FLAG_STREAM else 0);
          s1 = s\<lparr>open_flag := oflag AND 0xff\<rparr>
        in bind_res (serial_open_rx mem oflag s1) (\<lambda>s2.
           bind_res (serial_open_tx mem oflag s2) (\<lambda>s3.
             Inr (RT_EOK, s3\<lparr>open_flag := open_flag s3 OR stream_flag\<rparr>))))"

definition serial_close_rx :: "serial_dev \<Rightarrow> serial_dev res" where
  "serial_close_rx s =
     (if flag_set (open_flag s) RT_DEVICE_FLAG_INT_RX
      then let s1 = snd (stm32_control s RT_DEVICE_CTRL_CLR_INT);
               s2 = s1\<lparr>open_flag := open_flag s1 AND NOT RT_DEVICE_FLAG_INT_RX\<rparr>
        in (if serial_rx s2 = None then Inl Assert_Failed else Inr (s2\<lparr>serial_rx := None\<rparr>))
      else Inr s)"

definition serial_close_tx :: "serial_dev \<Rightarrow> serial_dev res" where
  "serial_close_tx s =
     (if flag_set (open_flag s) RT_DEVICE_FLAG_INT_TX
      then let s1 = snd (stm32_control s RT_DEVICE_CTRL_CLR_INT);
               s2 = s1\<lparr>open_flag := open_flag s1 AND NOT RT_DEVICE_FLAG_INT_TX\<rparr>
        in (if serial_tx s2 = None then Inl Assert_Failed else Inr (s2\<lparr>serial_tx := None\<rparr>))
      else Inr s)"

definition rt_serial_close :: "serial_dev \<Rightarrow> (rt_err_t \<times> serial_dev) res" where
  "rt_serial_close s =
     (if ref_count s > 1 then Inr (RT_EOK, s)
      else bind_res (serial_close_rx s) (\<lambda>s1. bind_res (serial_close_tx s1) (\<lambda>s2.
        let s3 = snd (stm32_control s2 RT_DEVICE_CTRL_CLOSE)
        in Inr (RT_EOK, s3\<lparr>flag := flag s3 AND NOT RT_DEVICE_FLAG_ACTIVATED\<rparr>))))"

definition rt_serial_read :: "serial_dev \<Rightarrow> int \<Rightarrow> nat \<Rightarrow> (u8 list \<times> serial_dev) res" where
  "rt_serial_read s pos sz =
     (if sz = 0 then Inr ([], s)
      else if flag_set (open_flag s) RT_DEVICE_FLAG_INT_RX
      then (case serial_rx s of None \<Rightarrow> Inl Assert_Failed
            | Some f \<Rightarrow> (case serial_int_rx (bufsz (config s)) sz f of
                (cs, f') \<Rightarrow> Inr (cs, s\<lparr>serial_rx := Some f'\<rparr>)))
      else Inr (serial_poll_rx s sz))"

definition rt_serial_write :: "serial_dev \<Rightarrow> int \<Rightarrow> u8 list \<Rightarrow> (nat \<times> serial_dev) res" where
  "rt_serial_write s pos bs =
     (if bs = [] then Inr (0, s)
      else if flag_set (open_flag s) RT_DEVICE_FLAG_INT_TX
      then (if serial_tx s = None then Inl Assert_Failed else serial_int_tx s bs)
      else Inr (serial_poll_tx s bs))"

datatype serial_arg = Null_Arg | Config_Arg serial_configure

definition rt_serial_control ::
  "(uart_init \<Rightarrow> bool) \<Rightarrow> serial_dev \<Rightarrow> int \<Rightarrow> serial_arg \<Rightarrow> (rt_err_t \<times> serial_dev) res" where
  "rt_serial_control hal_uart_init s cmd args =
     (if cmd = RT_DEVICE_CTRL_SUSPEND
      then Inr (RT_EOK, s\<lparr>flag := flag s OR RT_DEVICE_FLAG_SUSPENDED\<rparr>)
      else if cmd = RT_DEVICE_CTRL_RESUME
      then Inr (RT_EOK, s\<lparr>flag := flag s AND NOT RT_DEVICE_FLAG_SUSPENDED\<rparr>)
      else if cmd = RT_DEVICE_CTRL_CONFIG
      then (case args of Null_Arg \<Rightarrow> Inr (RT_EOK, s)
        | Config_Arg cfg \<Rightarrow>
            if bufsz cfg \<noteq> bufsz (config s) \<and> ref_count s \<noteq> 0 then Inr (RT_EBUSY, s)
            else let s1 = s\<lparr>config := cfg\<rparr>
              in Inr (RT_EOK, if ref_count s1 \<noteq> 0
                              then snd (stm32_configure hal_uart_init s1 cfg) else s1))
      else Inr (stm32_control s cmd))"

definition rt_hw_serial_register ::
  "registry \<Rightarrow> nat \<Rightarrow> serial_dev \<Rightarrow> string \<Rightarrow> u16 \<Rightarrow> (rt_err_t \<times> registry \<times> serial_dev) res" where
  "rt_hw_serial_register reg ob s name flags =
     rt_device_register reg (Some ob) (s\<lparr>rx_indicate := None, tx_complete := None\<rparr>) name flags"

text \<open>
  \<^verbatim>\<open>rt_hw_usart_init\<close> registers the UARTs the board enables. \<open>uart_obj_init\<close> is an element
  of the zero-initialised static array with the default configuration.
\<close>

definition uart_obj_init :: serial_dev where
  "uart_obj_init =
     \<lparr>flag = 0, open_flag = 0, ref_count = 0, rx_indicate = None, tx_complete = None,
      config = RT_SERIAL_CONFIG_DEFAULT, serial_rx = None, serial_tx = None,
      hw = \<lparr>rdr = [], tdr = [], rxne_it = False, nvic_irq = False,
            Init = \<lparr>BaudRate = 0, WordLength = UART_WORDLENGTH_8B,
                    StopBits = UART_STOPBITS_1, Parity = UART_PARITY_NONE\<rparr>\<rparr>\<rparr>"

definition uart_names :: "string list" where
  "uart_names = [''uart2'', ''uart3'', ''uart4'', ''uart6'']"

fun usart_register_all ::
  "registry \<Rightarrow> nat \<Rightarrow> string list \<Rightarrow> (registry \<times> serial_dev list) res" where
  "usart_register_all reg ob [] = Inr (reg, [])"
| "usart_register_all reg ob (name # names) =
     bind_res (rt_hw_serial_register reg ob uart_obj_init name
        (RT_DEVICE_FLAG_RDWR OR RT_DEVICE_FLAG_INT_RX OR RT_DEVICE_FLAG_INT_TX))
       (\<lambda>(r, reg', s). if r \<noteq> RT_EOK then Inl Assert_Failed
          else bind_res (usart_register_all reg' (Suc ob) names)
            (\<lambda>(reg'', ss). Inr (reg'', s # ss)))"

definition rt_hw_usart_init :: "registry \<Rightarrow> (registry \<times> serial_dev list) res" where
  "rt_hw_usart_init reg = usart_register_all reg 0 uart_names"

section \<open>Interrupt handler\<close>

abbreviation (input) RT_SERIAL_EVENT_RX_IND :: int where "RT_SERIAL_EVENT_RX_IND \<equiv> 1"

function isr_rx_loop :: "serial_dev \<Rightarrow> rx_fifo \<Rightarrow> serial_dev \<times> rx_fifo" where
  "isr_rx_loop s f =
     (case stm32_getc s of (ch, s') \<Rightarrow>
        if ch = -1 then (s', f)
        else isr_rx_loop s' (fifo_put (bufsz (config s)) f (word_of_int ch)))"
  by pat_completeness auto
termination
  by (relation "measure (\<lambda>(s, f). length (rdr (hw s)))")
    (auto simp: stm32_getc_def split: list.splits)

declare isr_rx_loop.simps [simp del]

definition fifo_rx_length :: "nat \<Rightarrow> rx_fifo \<Rightarrow> nat" where
  "fifo_rx_length b f =
     (if put_index f \<ge> get_index f then put_index f - get_index f
      else b - (get_index f - put_index f))"

text \<open>
  The handler runs the registered callback in interrupt context: \<open>ind\<close> maps the
  callback's name, the length and the state of the world around the device to the
  new device and world. The transmit-done event only signals a completion on which
  the board's \<^verbatim>\<open>stm32_putc\<close> never makes anyone wait, so it leaves the state alone.
\<close>

definition rt_hw_serial_isr ::
  "(string \<Rightarrow> nat \<Rightarrow> serial_dev \<times> 'w \<Rightarrow> (serial_dev \<times> 'w) res) \<Rightarrow> int
    \<Rightarrow> serial_dev \<times> 'w \<Rightarrow> (serial_dev \<times> 'w) res" where
  "rt_hw_serial_isr ind event sw =
     (if event mod 256 = RT_SERIAL_EVENT_RX_IND
      then (case serial_rx (fst sw) of None \<Rightarrow> Inl Assert_Failed
        | Some f \<Rightarrow> (case isr_rx_loop (fst sw) f of (s', f') \<Rightarrow>
            let s'' = s'\<lparr>serial_rx := Some f'\<rparr>;
                len = fifo_rx_length (bufsz (config s'')) f'
            in (case rx_indicate s'' of None \<Rightarrow> Inr (s'', snd sw)
                | Some cb \<Rightarrow> if len \<noteq> 0 then ind cb len (s'', snd sw) else Inr (s'', snd sw))))
      else Inr sw)"

text \<open>
  \<^verbatim>\<open>uart_isr\<close>: the receive branch runs the framework's handler; the other branch
  clears error and status flags, which are not part of the model, and the pending
  byte stays in the receiver.
\<close>

definition uart_isr ::
  "(string \<Rightarrow> nat \<Rightarrow> serial_dev \<times> 'w \<Rightarrow> (serial_dev \<times> 'w) res)
    \<Rightarrow> serial_dev \<times> 'w \<Rightarrow> (serial_dev \<times> 'w) res" where
  "uart_isr ind sw =
     (if rdr (hw (fst sw)) \<noteq> [] \<and> rxne_it (hw (fst sw))
      then rt_hw_serial_isr ind RT_SERIAL_EVENT_RX_IND sw else Inr sw)"

section \<open>The receive FIFO as a queue\<close>

definition fifo_inv :: "nat \<Rightarrow> rx_fifo \<Rightarrow> bool" where
  [inv_simps]: "fifo_inv b f \<longleftrightarrow>
     1 < b \<and> b < 2 ^ 16 \<and> length (buffer f) = b \<and> put_index f < b \<and> get_index f < b \<and>
     (is_full f \<longrightarrow> put_index f \<noteq> get_index f)"

text \<open>The bytes in the FIFO, oldest first.\<close>

definition fifo_list :: "nat \<Rightarrow> rx_fifo \<Rightarrow> u8 list" where
  "fifo_list b f = ring_slice (buffer f) (get_index f) (fifo_rx_length b f)"

lemma wrap_index: "i < b \<Longrightarrow> (if i + 1 \<ge> b then 0 else i + 1) = Suc i mod (b::nat)"
  by (cases "Suc i = b") auto

lemma fifo_rx_length_bound: "fifo_inv b f \<Longrightarrow> fifo_rx_length b f < b"
  by (auto simp: inv_simps fifo_rx_length_def)

lemma fifo_put_index:
  assumes "fifo_inv b f"
  shows "(get_index f + fifo_rx_length b f) mod b = put_index f"
  using assms by (auto simp: inv_simps fifo_rx_length_def)

lemma fifo_put_inv: "fifo_inv b f \<Longrightarrow> fifo_inv b (fifo_put b f c)"
  by (auto simp: inv_simps fifo_put_def Let_def)

lemma fifo_put_list:
  assumes inv: "fifo_inv b f"
  shows "fifo_list b (fifo_put b f c) =
    drop (Suc (length (fifo_list b f)) - (b - 1)) (fifo_list b f @ [c])"
proof -
  let ?n = "fifo_rx_length b f" and ?g = "get_index f"
  let ?buf = "(buffer f)[put_index f := c]"
  have len: "length (buffer f) = b" and nb: "?n < b"
    using inv fifo_rx_length_bound by (auto simp: inv_simps)
  have app: "ring_slice ?buf ?g (Suc ?n) = fifo_list b f @ [c]"
    using ring_slice_append[of ?n "buffer f" ?g c] len nb
    by (simp add: fifo_put_index[OF inv] fifo_list_def)
  show ?thesis
  proof (cases "Suc ?n = b")
    case True
    have p: "(if put_index f + 1 \<ge> b then 0 else put_index f + 1) = ?g"
      using inv True by (auto simp: inv_simps fifo_rx_length_def split: if_splits)
    have "fifo_put b f c =
        f\<lparr>buffer := ?buf, put_index := ?g, get_index := Suc ?g mod b, is_full := True\<rparr>"
      using inv p wrap_index[of ?g b] by (simp add: fifo_put_def Let_def inv_simps)
    moreover from this have "fifo_rx_length b (fifo_put b f c) = b - 1"
      using inv by (auto simp: inv_simps fifo_rx_length_def mod_Suc)
    ultimately have "fifo_list b (fifo_put b f c) = ring_slice ?buf (Suc ?g mod b) (b - 1)"
      by (simp add: fifo_list_def)
    moreover have "ring_slice ?buf ?g (Suc ?n) = ?buf ! (?g mod b) # ring_slice ?buf (Suc ?g mod b) ?n"
      using len by (simp add: ring_slice_Cons)
    moreover have "length (fifo_list b f) = ?n" and "b - 1 = ?n" and "Suc ?n - ?n = Suc 0"
      using True by (auto simp: fifo_list_def)
    ultimately show ?thesis by (simp only: app[symmetric] drop_Suc_Cons drop_0)
  next
    case False
    have p: "(if put_index f + 1 \<ge> b then 0 else put_index f + 1) \<noteq> ?g"
      using inv False by (auto simp: inv_simps fifo_rx_length_def split: if_splits)
    then have "fifo_put b f c = f\<lparr>buffer := ?buf, put_index := Suc (put_index f) mod b\<rparr>"
      using inv wrap_index[of "put_index f" b] by (simp add: fifo_put_def Let_def inv_simps)
    moreover from this have "fifo_rx_length b (fifo_put b f c) = Suc ?n"
      using inv p by (auto simp: inv_simps fifo_rx_length_def mod_Suc split: if_splits)
    ultimately have "fifo_list b (fifo_put b f c) = ring_slice ?buf ?g (Suc ?n)"
      by (simp add: fifo_list_def)
    with app False nb show ?thesis by (simp add: fifo_list_def)
  qed
qed

lemma fifo_get_None:
  assumes "fifo_inv b f" and "fifo_list b f = []"
  shows "fifo_get b f = None"
proof -
  from assms(2) have "fifo_rx_length b f = 0" by (simp add: fifo_list_def flip: length_0_conv)
  with assms(1) show ?thesis by (auto simp: inv_simps fifo_rx_length_def fifo_get_def split: if_splits)
qed

lemma fifo_get_Some:
  assumes inv: "fifo_inv b f" and ne: "fifo_list b f = x # xs"
  shows "\<exists>f'. fifo_get b f = Some (x, f') \<and> fifo_list b f' = xs \<and> fifo_inv b f'"
proof -
  let ?f' = "f\<lparr>get_index := Suc (get_index f) mod b, is_full := False\<rparr>"
  from ne obtain m where n: "fifo_rx_length b f = Suc m"
    by (cases "fifo_rx_length b f") (auto simp: fifo_list_def)
  have g: "get_index f < b" "length (buffer f) = b" using inv by (auto simp: inv_simps)
  have get: "fifo_get b f = Some (buffer f ! get_index f, ?f')"
    using n inv wrap_index[OF g(1)] by (auto simp: fifo_get_def fifo_rx_length_def)
  have m: "fifo_rx_length b ?f' = m"
    using n inv by (auto simp: inv_simps fifo_rx_length_def mod_Suc split: if_splits)
  have "x # xs = buffer f ! get_index f # fifo_list b ?f'"
    using ne m g by (simp add: fifo_list_def n ring_slice_Cons)
  moreover have "fifo_inv b ?f'" using inv by (auto simp: inv_simps)
  ultimately show ?thesis using get by auto
qed

interpretation rxf: drained_fifo "fifo_put b" "fifo_get b" "fifo_list b" "fifo_inv b"
    "\<lambda>_. b - 1" "serial_int_rx b" for b
proof unfold_locales
  fix q :: rx_fifo assume "fifo_inv b q"
  then show "length (fifo_list b q) \<le> b - 1"
    using fifo_rx_length_bound[of b q] by (simp add: fifo_list_def)
next
  fix q :: rx_fifo and x xs assume "fifo_inv b q" "fifo_list b q = x # xs"
  then show "\<exists>q'. fifo_get b q = Some (x, q') \<and> fifo_list b q' = xs \<and> fifo_inv b q' \<and> b - 1 = b - 1"
    using fifo_get_Some by blast
qed (simp_all add: fifo_put_list fifo_put_inv fifo_get_None)

section \<open>Interrupt handler and reader\<close>

lemma isr_rx_loop_eq:
  "isr_rx_loop s f =
     (s\<lparr>hw := (hw s)\<lparr>rdr := []\<rparr>\<rparr>, foldl (fifo_put (bufsz (config s))) f (rdr (hw s)))"
proof (induction s f rule: isr_rx_loop.induct)
  case (1 s f)
  show ?case
  proof (cases "rdr (hw s)")
    case Nil
    then have "s\<lparr>hw := (hw s)\<lparr>rdr := []\<rparr>\<rparr> = s" by simp
    with Nil show ?thesis by (simp add: isr_rx_loop.simps[of s f] stm32_getc_def)
  next
    case (Cons c cs)
    have "uint c \<noteq> -1" by (metis uint_ge_0 neg_0_le_iff_le not_one_le_zero)
    with Cons 1[of "uint c" "s\<lparr>hw := (hw s)\<lparr>rdr := cs\<rparr>\<rparr>"] show ?thesis
      by (simp add: isr_rx_loop.simps[of s f] stm32_getc_def)
  qed
qed

lemma rt_hw_serial_isr_rx:
  assumes "serial_rx s = Some f"
  defines "f' \<equiv> foldl (fifo_put (bufsz (config s))) f (rdr (hw s))"
  defines "s' \<equiv> s\<lparr>hw := (hw s)\<lparr>rdr := []\<rparr>, serial_rx := Some f'\<rparr>"
  shows "rt_hw_serial_isr ind RT_SERIAL_EVENT_RX_IND (s, w) =
     (case rx_indicate s of None \<Rightarrow> Inr (s', w)
      | Some cb \<Rightarrow> if fifo_list (bufsz (config s)) f' \<noteq> []
          then ind cb (length (fifo_list (bufsz (config s)) f')) (s', w) else Inr (s', w))"
  using assms(1)
  by (simp add: rt_hw_serial_isr_def isr_rx_loop_eq f'_def s'_def fifo_list_def Let_def
      split: option.splits flip: length_0_conv)

lemma rt_serial_read_int:
  assumes "serial_rx s = Some f" and "fifo_inv (bufsz (config s)) f"
    and "flag_set (open_flag s) RT_DEVICE_FLAG_INT_RX"
  shows "\<exists>f'. rt_serial_read s pos sz =
           Inr (take sz (fifo_list (bufsz (config s)) f), s\<lparr>serial_rx := Some f'\<rparr>) \<and>
         fifo_inv (bufsz (config s)) f' \<and>
         fifo_list (bufsz (config s)) f' = drop sz (fifo_list (bufsz (config s)) f)"
proof (cases "sz = 0")
  case True
  then have "rt_serial_read s pos sz = Inr ([], s\<lparr>serial_rx := Some f\<rparr>)"
    using assms(1) by (simp add: rt_serial_read_def)
  with True assms(2) show ?thesis by (intro exI[of _ f]) simp
next
  case False
  with rxf.take_n_correct[OF assms(2), of sz] assms show ?thesis
    by (intro exI[of _ "snd (serial_int_rx (bufsz (config s)) sz f)"])
      (simp add: rt_serial_read_def case_prod_beta)
qed

text \<open>
  C27. The receive interrupt stores every byte the receiver holds and, when the FIFO has
  no room for all of them, keeps the newest \<open>bufsz - 1\<close> bytes in arrival order: the FIFO
  then holds the last bytes of the old contents followed by the new ones. If a callback is
  registered (as every UART of the firmware has one) and the FIFO is not empty, the callback runs on
  exactly this state and is told the number of bytes in the FIFO; otherwise the state is the result.
\<close>

theorem serial_isr_keeps_newest:
  assumes "serial_rx s = Some f" and "fifo_inv (bufsz (config s)) f"
  shows "\<exists>f'. rt_hw_serial_isr ind RT_SERIAL_EVENT_RX_IND (s, w) =
            (let s' = s\<lparr>hw := (hw s)\<lparr>rdr := []\<rparr>, serial_rx := Some f'\<rparr>; n = length (fifo_list (bufsz (config s)) f')
             in case rx_indicate s of None \<Rightarrow> Inr (s', w)
                | Some cb \<Rightarrow> if n \<noteq> 0 then ind cb n (s', w) else Inr (s', w)) \<and>
          fifo_inv (bufsz (config s)) f' \<and>
          fifo_list (bufsz (config s)) f' =
            drop (length (fifo_list (bufsz (config s)) f) + length (rdr (hw s))
                    - (bufsz (config s) - 1))
              (fifo_list (bufsz (config s)) f @ rdr (hw s))"
  using assms
  by (intro exI[of _ "foldl (fifo_put (bufsz (config s))) f (rdr (hw s))"] conjI)
    (simp_all add: rt_hw_serial_isr_rx[OF assms(1)] rxf.contents_puts rxf.invar_puts Let_def del: length_drop split: option.split)

theorem serial_isr_keeps_newest_witness:
  "\<exists>f'. rt_hw_serial_isr (\<lambda>cb n (s, w). Inr (s, (cb, n) # w)) RT_SERIAL_EVENT_RX_IND
      (uart_obj_init\<lparr>config := RT_SERIAL_CONFIG_DEFAULT\<lparr>bufsz := 3\<rparr>, serial_rx := Some (fresh_fifo 3),
        hw := (hw uart_obj_init)\<lparr>rdr := [1, 2, 3, 4]\<rparr>, rx_indicate := Some ''uart_rx_callback''\<rparr>, []) =
      Inr (uart_obj_init\<lparr>config := RT_SERIAL_CONFIG_DEFAULT\<lparr>bufsz := 3\<rparr>,
        hw := (hw uart_obj_init)\<lparr>rdr := []\<rparr>, serial_rx := Some f', rx_indicate := Some ''uart_rx_callback''\<rparr>,
        [(''uart_rx_callback'', 2)]) \<and>
    fifo_list 3 f' = [3, 4]"
proof -
  let ?s = "uart_obj_init\<lparr>config := RT_SERIAL_CONFIG_DEFAULT\<lparr>bufsz := 3\<rparr>, serial_rx := Some (fresh_fifo 3),
    hw := (hw uart_obj_init)\<lparr>rdr := [1, 2, 3, 4]\<rparr>, rx_indicate := Some ''uart_rx_callback''\<rparr>"
  have "serial_rx ?s = Some (fresh_fifo 3)" "fifo_inv (bufsz (config ?s)) (fresh_fifo 3)"
    "rx_indicate ?s = Some ''uart_rx_callback''" "fifo_list 3 (fresh_fifo 3) = []"
    by (simp_all add: inv_simps fresh_fifo_def fifo_list_def fifo_rx_length_def uart_obj_init_def)
  with serial_isr_keeps_newest[of ?s "fresh_fifo 3" "\<lambda>cb n (s, w). Inr (s, (cb, n) # w)" "[]"] show ?thesis
    by (auto simp: uart_obj_init_def Let_def)
qed

end
