(* ===== verification/Frame_Rx.thy ===== *)
theory Frame_Rx
  imports Serial
begin

text \<open>
  Reception of an image over the UART (\<^verbatim>\<open>applications/model_sd_start.c\<close>,
  \<^verbatim>\<open>uart_rx_callback\<close>): the callback runs in the receive interrupt, drains the serial
  FIFO and feeds every byte to a frame parser. A frame is the head byte, 1024 image
  bytes and a two-byte tail; while the tail does not match, the parser slides its
  window by one byte. The parser is proved to implement the specification
  \<open>spec_run\<close>, which looks at the whole stream since the head.
\<close>

section \<open>Model\<close>

definition IMAGE_SIZE :: nat where "IMAGE_SIZE = 1024"
definition FRAME_HEAD :: u8 where "FRAME_HEAD = 0xA6"
definition FRAME_TAIL_SEQ :: "u8 list" where "FRAME_TAIL_SEQ = [0x5D, 0x5B]"
definition FRAME_TAIL_SEQ_LEN :: nat where "FRAME_TAIL_SEQ_LEN = 2"
definition VAL_MAX :: u8 where "VAL_MAX = 127"
definition RECV_BUF_SIZE :: nat where "RECV_BUF_SIZE = 1032"
definition UART_RX_BUF_SIZE :: nat where "UART_RX_BUF_SIZE = 64"

record rx_state =
  frame_start :: u8
  recv_cnt :: nat
  recv_buf :: "u8 list"
  image_buffer :: "u8 list"
  frame_ready :: u8

definition rx_state_init :: rx_state where
  "rx_state_init =
     \<lparr>frame_start = 0, recv_cnt = 0, recv_buf = replicate RECV_BUF_SIZE 0,
      image_buffer = replicate IMAGE_SIZE 0, frame_ready = 0\<rparr>"

definition clamp_val :: "u8 \<Rightarrow> u8" where
  "clamp_val v = (if v > VAL_MAX then VAL_MAX else v)"

text \<open>The inner loop that compares the tail, with its early exit.\<close>

fun tail_match :: "u8 list \<Rightarrow> nat \<Rightarrow> u8 list \<Rightarrow> bool" where
  "tail_match buf pos [] = True"
| "tail_match buf pos (t # ts) = (if buf ! pos \<noteq> t then False else tail_match buf (Suc pos) ts)"

definition memmove_left :: "u8 list \<Rightarrow> u8 list" where
  "memmove_left buf = tl buf @ [last buf]"

text \<open>The body of the loop over the received bytes.\<close>

definition rx_byte :: "rx_state \<Rightarrow> u8 \<Rightarrow> rx_state" where
  "rx_byte r d =
     (if frame_start r = 0
      then (if d = FRAME_HEAD
            then r\<lparr>frame_start := 1, recv_cnt := 0, recv_buf := replicate RECV_BUF_SIZE 0\<rparr>
            else r)
      else let r1 = (if recv_cnt r < RECV_BUF_SIZE
                     then r\<lparr>recv_buf := (recv_buf r)[recv_cnt r := d], recv_cnt := recv_cnt r + 1\<rparr>
                     else r)
        in if recv_cnt r1 \<ge> IMAGE_SIZE + FRAME_TAIL_SEQ_LEN
           then if tail_match (recv_buf r1) (recv_cnt r1 - FRAME_TAIL_SEQ_LEN) FRAME_TAIL_SEQ
             then r1\<lparr>image_buffer := map (\<lambda>j. clamp_val (recv_buf r1 ! j)) [0..<IMAGE_SIZE],
                     frame_ready := 1, frame_start := 0, recv_cnt := 0\<rparr>
             else r1\<lparr>recv_buf := memmove_left (recv_buf r1), recv_cnt := recv_cnt r1 - 1\<rparr>
           else r1)"

definition uart_rx_callback ::
  "nat \<Rightarrow> serial_dev \<times> rx_state \<Rightarrow> (serial_dev \<times> rx_state) res" where
  "uart_rx_callback sz sr =
     bind_res (rt_device_read (Some rt_serial_read) 0 UART_RX_BUF_SIZE (fst sr))
       (\<lambda>(e, bs, s'). Inr (s', foldl rx_byte (snd sr) bs))"

text \<open>
  Bytes \<open>cs\<close> arrive at the image UART and its interrupt is served, with the callback
  that \<^verbatim>\<open>uart_recv_thread\<close> has registered.
\<close>

definition image_uart_irq ::
  "u8 list \<Rightarrow> serial_dev \<times> rx_state \<Rightarrow> (serial_dev \<times> rx_state) res" where
  "image_uart_irq cs sr =
     uart_isr (\<lambda>cb len. if cb = ''uart_rx_callback'' then uart_rx_callback len else Inr)
       ((fst sr)\<lparr>hw := (hw (fst sr))\<lparr>rdr := rdr (hw (fst sr)) @ cs\<rparr>\<rparr>, snd sr)"

fun image_uart_irqs ::
  "u8 list list \<Rightarrow> serial_dev \<times> rx_state \<Rightarrow> (serial_dev \<times> rx_state) res" where
  "image_uart_irqs [] sr = Inr sr"
| "image_uart_irqs (cs # css) sr = bind_res (image_uart_irq cs sr) (image_uart_irqs css)"

text \<open>
  The start of \<^verbatim>\<open>uart_recv_thread\<close>: configure the image UART for 9600 baud, register the
  callback, open the device for interrupt reception.
\<close>

definition image_uart_setup ::
  "(uart_init \<Rightarrow> bool) \<Rightarrow> bool \<Rightarrow> serial_dev \<Rightarrow> (rt_err_t \<times> serial_dev) res" where
  "image_uart_setup hal_uart_init mem s =
     bind_res (rt_device_control (Some (rt_serial_control hal_uart_init)) RT_DEVICE_CTRL_CONFIG
        (Config_Arg (RT_SERIAL_CONFIG_DEFAULT\<lparr>baud_rate := 9600\<rparr>)) s)
       (\<lambda>(_, s1). rt_device_open (Some (rt_serial_init hal_uart_init)) (Some (rt_serial_open mem))
          RT_DEVICE_FLAG_INT_RX (snd (rt_device_set_rx_indicate s1 (Some ''uart_rx_callback''))))"

text \<open>The image UART after \<^verbatim>\<open>uart_recv_thread\<close> has opened it, with nothing pending.\<close>

definition image_uart_idle :: "serial_dev \<Rightarrow> bool" where
  "image_uart_idle s \<longleftrightarrow> bufsz (config s) = 64 \<and> rdr (hw s) = [] \<and> rxne_it (hw s) \<and>
     flag_set (open_flag s) RT_DEVICE_FLAG_INT_RX \<and> ref_count s \<noteq> 0 \<and>
     rx_indicate s = Some ''uart_rx_callback'' \<and>
     (\<exists>f. serial_rx s = Some f \<and> fifo_inv 64 f \<and> fifo_list 64 f = [])"

section \<open>Specification over the byte stream\<close>

text \<open>
  \<open>Collect bs\<close>: a head byte has been seen and \<open>bs\<close> are all bytes after it. A frame is
  complete when at least 1026 bytes have arrived and the last two are the tail; the
  image is the 1024 bytes before them.
\<close>

datatype frame_spec = Hunt | Collect "u8 list"

definition frame_end :: "u8 list \<Rightarrow> bool" where
  "frame_end bs \<longleftrightarrow> IMAGE_SIZE + 2 \<le> length bs \<and> drop (length bs - 2) bs = FRAME_TAIL_SEQ"

definition frame_image :: "u8 list \<Rightarrow> u8 list" where
  "frame_image bs = map clamp_val (take IMAGE_SIZE (drop (length bs - (IMAGE_SIZE + 2)) bs))"

fun spec_run :: "frame_spec \<Rightarrow> u8 list \<Rightarrow> frame_spec \<times> u8 list list" where
  "spec_run sp [] = (sp, [])"
| "spec_run Hunt (d # ds) = spec_run (if d = FRAME_HEAD then Collect [] else Hunt) ds"
| "spec_run (Collect bs) (d # ds) =
     (if frame_end (bs @ [d])
      then (case spec_run Hunt ds of (sp', imgs) \<Rightarrow> (sp', frame_image (bs @ [d]) # imgs))
      else spec_run (Collect (bs @ [d])) ds)"

section \<open>Invariant and simulation\<close>

definition rx_inv :: "rx_state \<Rightarrow> bool" where
  [inv_simps]: "rx_inv r \<longleftrightarrow> recv_cnt r < IMAGE_SIZE + 2 \<and>
     length (recv_buf r) = RECV_BUF_SIZE \<and> length (image_buffer r) = IMAGE_SIZE"

text \<open>The parser holds the last at most 1025 bytes of what the specification has collected.\<close>

definition rx_sim :: "rx_state \<Rightarrow> frame_spec \<Rightarrow> bool" where
  "rx_sim r sp \<longleftrightarrow> rx_inv r \<and>
     (case sp of Hunt \<Rightarrow> frame_start r = 0
      | Collect bs \<Rightarrow> frame_start r = 1 \<and> recv_cnt r = min (length bs) (IMAGE_SIZE + 1) \<and>
          take (recv_cnt r) (recv_buf r) = drop (length bs - recv_cnt r) bs)"

lemmas frame_consts = IMAGE_SIZE_def RECV_BUF_SIZE_def FRAME_TAIL_SEQ_LEN_def

lemma rx_state_init_inv: "rx_inv rx_state_init"
  by (simp add: inv_simps rx_state_init_def frame_consts)

lemma length_memmove_left [simp]: "buf \<noteq> [] \<Longrightarrow> length (memmove_left buf) = length buf"
  by (simp add: memmove_left_def)

lemma take_memmove_left: "n < length buf \<Longrightarrow> take n (memmove_left buf) = take n (tl buf)"
  by (simp add: memmove_left_def)

lemma tail_match_iff:
  assumes "pos + 2 \<le> length buf"
  shows "tail_match buf pos FRAME_TAIL_SEQ \<longleftrightarrow> take 2 (drop pos buf) = FRAME_TAIL_SEQ"
  using assms by (simp add: FRAME_TAIL_SEQ_def take_Suc_conv_app_nth drop_Suc numeral_2_eq_2
      Cons_nth_drop_Suc[symmetric] nth_tl)

lemma rx_byte_inv: "rx_inv r \<Longrightarrow> rx_inv (rx_byte r d)"
  by (auto simp: inv_simps rx_byte_def Let_def frame_consts memmove_left_def)

lemma rx_byte_hunt:
  assumes "rx_sim r Hunt"
  shows "rx_sim (rx_byte r d) (if d = FRAME_HEAD then Collect [] else Hunt) \<and>
    image_buffer (rx_byte r d) = image_buffer r \<and> frame_ready (rx_byte r d) = frame_ready r"
  using assms by (auto simp: rx_sim_def rx_byte_def inv_simps frame_consts)

text \<open>The window after storing one more byte: the last bytes of the longer stream.\<close>

lemma window_snoc:
  assumes "take n buf = drop (length bs - n) bs" and "n < length buf" and "n \<le> length bs"
  shows "take (Suc n) (buf[n := d]) = drop (length bs - n) (bs @ [d])"
proof -
  have "take (Suc n) (buf[n := d]) = take n buf @ [d]"
    using assms(2) by (simp add: take_Suc_conv_app_nth)
  with assms(1,3) show ?thesis by simp
qed

lemma window_image:
  assumes "take (IMAGE_SIZE + 2) buf = W" and "IMAGE_SIZE + 2 \<le> length buf"
  shows "map (\<lambda>j. clamp_val (buf ! j)) [0..<IMAGE_SIZE] = map clamp_val (take IMAGE_SIZE W)"
  using assms by (intro nth_equalityI) (auto split: if_splits)

lemma rx_byte_collect:
  assumes sim: "rx_sim r (Collect bs)"
  shows "if frame_end (bs @ [d])
    then rx_sim (rx_byte r d) Hunt \<and> image_buffer (rx_byte r d) = frame_image (bs @ [d]) \<and>
         frame_ready (rx_byte r d) = 1
    else rx_sim (rx_byte r d) (Collect (bs @ [d])) \<and>
         image_buffer (rx_byte r d) = image_buffer r \<and> frame_ready (rx_byte r d) = frame_ready r"
proof -
  let ?n = "recv_cnt r" and ?buf = "(recv_buf r)[recv_cnt r := d]" and ?bs = "bs @ [d]"
  have inv: "rx_inv r" and st: "frame_start r = 1" and n: "?n = min (length bs) (IMAGE_SIZE + 1)"
    and win: "take ?n (recv_buf r) = drop (length bs - ?n) bs"
    using sim by (auto simp: rx_sim_def)
  have len: "length ?buf = RECV_BUF_SIZE" "?n < RECV_BUF_SIZE"
    using inv by (auto simp: inv_simps frame_consts)
  have W: "take (Suc ?n) ?buf = drop (length bs - ?n) ?bs"
    using window_snoc[OF win, of d] len n by simp
  show ?thesis
  proof (cases "?n = IMAGE_SIZE + 1")
    case False
    then have small: "length bs = ?n" "Suc ?n < IMAGE_SIZE + 2" using n by auto
    then have "rx_byte r d = r\<lparr>recv_buf := ?buf, recv_cnt := Suc ?n\<rparr>"
      using st len by (simp add: rx_byte_def FRAME_TAIL_SEQ_LEN_def)
    moreover have "\<not> frame_end ?bs" using small by (simp add: frame_end_def)
    ultimately show ?thesis using st W inv small
      by (auto simp: rx_sim_def inv_simps)
  next
    case True
    then have big: "IMAGE_SIZE + 1 \<le> length bs" using n by simp
    have W': "take (IMAGE_SIZE + 2) ?buf = drop (length ?bs - (IMAGE_SIZE + 2)) ?bs"
      using W True by simp
    have "take 2 (drop IMAGE_SIZE ?buf) = drop IMAGE_SIZE (take (IMAGE_SIZE + 2) ?buf)"
      by (simp add: drop_take)
    also have "\<dots> = drop (length ?bs - 2) ?bs"
      unfolding W' drop_drop using big by (simp only: length_append) simp
    finally have tm: "tail_match ?buf IMAGE_SIZE FRAME_TAIL_SEQ \<longleftrightarrow> frame_end ?bs"
      using len big by (subst tail_match_iff) (auto simp: frame_consts frame_end_def)
    have r1: "rx_byte r d = (if frame_end ?bs
        then r\<lparr>recv_buf := ?buf, recv_cnt := 0, image_buffer := frame_image ?bs,
               frame_ready := 1, frame_start := 0\<rparr>
        else r\<lparr>recv_buf := memmove_left ?buf, recv_cnt := IMAGE_SIZE + 1\<rparr>)"
      using st len True tm window_image[OF W'] len
      by (simp add: rx_byte_def frame_image_def FRAME_TAIL_SEQ_LEN_def frame_consts)
    have "take (IMAGE_SIZE + 1) (memmove_left ?buf) = tl (take (IMAGE_SIZE + 2) ?buf)"
      using len by (subst take_memmove_left) (auto simp: frame_consts tl_take)
    also have "\<dots> = drop (length ?bs - (IMAGE_SIZE + 1)) ?bs"
      unfolding W' using big by (simp add: tl_drop drop_Suc[symmetric] Suc_diff_Suc)
    finally have win': "take (IMAGE_SIZE + 1) (memmove_left ?buf) = \<dots>" .
    have "length (memmove_left ?buf) = RECV_BUF_SIZE"
      using len by (subst length_memmove_left) (auto simp: frame_consts)
    with win' show ?thesis
      using r1 st inv big len by (auto simp: rx_sim_def inv_simps frame_image_def)
  qed
qed

lemma rx_run_refines:
  assumes "rx_sim r sp" and "spec_run sp ds = (sp', imgs)"
  shows "rx_sim (foldl rx_byte r ds) sp' \<and>
    image_buffer (foldl rx_byte r ds) = (if imgs = [] then image_buffer r else last imgs) \<and>
    frame_ready (foldl rx_byte r ds) = (if imgs = [] then frame_ready r else 1)"
  using assms
proof (induction sp ds arbitrary: r sp' imgs rule: spec_run.induct)
  case (1 sp)
  then show ?case by simp
next
  case (2 d ds)
  then show ?case using rx_byte_hunt[of r d] by auto
next
  case (3 bs d ds)
  show ?case
  proof (cases "frame_end (bs @ [d])")
    case True
    then obtain imgs' where "spec_run Hunt ds = (sp', imgs')" "imgs = frame_image (bs @ [d]) # imgs'"
      using "3.prems"(2) by (auto split: prod.splits)
    with True "3.IH"(1)[of "rx_byte r d" sp' imgs'] rx_byte_collect[OF "3.prems"(1), of d]
    show ?thesis by auto
  next
    case False
    with "3.IH"(2)[of "rx_byte r d" sp' imgs] rx_byte_collect[OF "3.prems"(1), of d] "3.prems"(2)
    show ?thesis by auto
  qed
qed

text \<open>
  C5. The incremental frame parser implements the stream specification: run on any bytes
  from a state that simulates the specification it ends in a simulating state, and its
  image buffer and ready flag show the last image the specification has emitted.
\<close>

theorem frame_parser_refines_spec:
  assumes "rx_sim r sp" and "spec_run sp ds = (sp', imgs)"
  shows "rx_sim (foldl rx_byte r ds) sp' \<and>
    image_buffer (foldl rx_byte r ds) = (if imgs = [] then image_buffer r else last imgs) \<and>
    frame_ready (foldl rx_byte r ds) = (if imgs = [] then frame_ready r else 1)"
  using assms by (rule rx_run_refines)

section \<open>A whole frame, and the path from the interrupt\<close>

lemma spec_run_collect:
  "length bs + length xs < IMAGE_SIZE + 2 \<Longrightarrow>
   spec_run (Collect bs) (xs @ ys) = spec_run (Collect (bs @ xs)) ys"
  by (induction xs arbitrary: bs) (simp_all add: frame_end_def)

lemma spec_run_frame:
  assumes "length img = IMAGE_SIZE"
  shows "spec_run Hunt (FRAME_HEAD # img @ FRAME_TAIL_SEQ) = (Hunt, [map clamp_val img])"
proof -
  have "spec_run (Collect []) ((img @ [0x5D]) @ [0x5B]) = spec_run (Collect (img @ [0x5D])) [0x5B]"
    using assms by (subst spec_run_collect) auto
  then show ?thesis
    using assms by (simp add: FRAME_TAIL_SEQ_def frame_end_def frame_image_def)
qed

lemma rx_frame:
  assumes "rx_inv r" and "frame_start r = 0" and "length img = IMAGE_SIZE"
    and "r' = foldl rx_byte r (FRAME_HEAD # img @ FRAME_TAIL_SEQ)"
  shows "rx_inv r' \<and> frame_start r' = 0 \<and> image_buffer r' = map clamp_val img \<and> frame_ready r' = 1"
proof -
  have "rx_sim r Hunt" using assms(1,2) by (simp add: rx_sim_def)
  from rx_run_refines[OF this spec_run_frame[OF assms(3)]] show ?thesis
    unfolding assms(4) by (simp add: rx_sim_def)
qed

text \<open>
  A frame sent while the parser is idle is received whole: after the head, any 1024
  bytes and the tail, the image buffer holds exactly those bytes, each limited to 127,
  the ready flag is set and the parser waits for the next head, whatever the bytes are.
\<close>

theorem frame_received:
  assumes "rx_inv r" and "frame_start r = 0" and "length img = IMAGE_SIZE"
  shows "image_buffer (foldl rx_byte r (FRAME_HEAD # img @ FRAME_TAIL_SEQ)) = map clamp_val img \<and>
    frame_ready (foldl rx_byte r (FRAME_HEAD # img @ FRAME_TAIL_SEQ)) = 1 \<and>
    frame_start (foldl rx_byte r (FRAME_HEAD # img @ FRAME_TAIL_SEQ)) = 0"
  using rx_frame[OF assms refl] by simp

lemma image_uart_irq_step:
  assumes "image_uart_idle s"
  shows "\<exists>s'. image_uart_irq cs (s, r) = Inr (s', foldl rx_byte r (drop (length cs - 63) cs)) \<and>
    image_uart_idle s'"
proof (cases "cs = []")
  case True
  with assms show ?thesis
    by (auto simp: image_uart_irq_def uart_isr_def image_uart_idle_def)
next
  case False
  let ?s = "s\<lparr>hw := (hw s)\<lparr>rdr := cs\<rparr>\<rparr>"
  from assms obtain f where f: "serial_rx s = Some f" "fifo_inv 64 f" "fifo_list 64 f = []"
    and s: "bufsz (config s) = 64" "rdr (hw s) = []" "rxne_it (hw s)"
      "flag_set (open_flag s) RT_DEVICE_FLAG_INT_RX" "ref_count s \<noteq> 0"
      "rx_indicate s = Some ''uart_rx_callback''"
    by (auto simp: image_uart_idle_def)
  let ?f = "foldl (fifo_put 64) f cs"
  let ?t = "?s\<lparr>hw := (hw ?s)\<lparr>rdr := []\<rparr>, serial_rx := Some ?f\<rparr>"
  have F: "fifo_inv 64 ?f" "fifo_list 64 ?f = drop (length cs - 63) cs"
    using f rxf.invar_puts[of 64 f cs] rxf.contents_puts[of 64 f cs] by simp_all
  obtain f' where rd: "rt_serial_read ?t 0 UART_RX_BUF_SIZE =
      Inr (take UART_RX_BUF_SIZE (fifo_list 64 ?f), ?t\<lparr>serial_rx := Some f'\<rparr>)"
    "fifo_inv 64 f'" "fifo_list 64 f' = drop UART_RX_BUF_SIZE (fifo_list 64 ?f)"
    using rt_serial_read_int[of ?t ?f 0 UART_RX_BUF_SIZE] F s by auto
  have all: "take UART_RX_BUF_SIZE (fifo_list 64 ?f) = fifo_list 64 ?f"
    "drop UART_RX_BUF_SIZE (fifo_list 64 ?f) = []"
    using F by (simp_all add: UART_RX_BUF_SIZE_def)
  have ne: "\<not> length cs \<le> length cs - 63" using False by (cases cs) auto
  have "image_uart_irq cs (s, r) = Inr (?t\<lparr>serial_rx := Some f'\<rparr>, foldl rx_byte r (fifo_list 64 ?f))"
    using False ne s f F rd all unfolding image_uart_irq_def uart_isr_def
    by (simp add: rt_hw_serial_isr_rx uart_rx_callback_def rt_device_read_def)
  moreover have "image_uart_idle (?t\<lparr>serial_rx := Some f'\<rparr>)"
    using s rd all by (simp add: image_uart_idle_def)
  ultimately show ?thesis using F by auto
qed

text \<open>
  C28. From the receive interrupt to the frame parser no byte is lost or reordered as long
  as no single interrupt finds more than 63 bytes: any sequence of interrupts then has
  the parser process exactly the concatenation of the received bytes.
\<close>

theorem image_path_lossless:
  assumes "image_uart_idle s" and "\<forall>cs \<in> set css. length cs \<le> 63"
  shows "\<exists>s'. image_uart_irqs css (s, r) = Inr (s', foldl rx_byte r (concat css)) \<and>
    image_uart_idle s'"
  using assms
proof (induction css arbitrary: s r)
  case Nil
  then show ?case by simp
next
  case (Cons cs css)
  then obtain s' where "image_uart_irq cs (s, r) = Inr (s', foldl rx_byte r cs)" "image_uart_idle s'"
    using image_uart_irq_step[of s cs r] by auto
  with Cons.IH[of s' "foldl rx_byte r cs"] Cons.prems show ?case by auto
qed

section \<open>Start-up of the image UART\<close>

lemma rt_hw_usart_init_eval:
  "rt_hw_usart_init [] =
     Inr ([(''uart6'', 3), (''uart4'', 2), (''uart3'', 1), (''uart2'', 0)],
          replicate 4 (uart_obj_init\<lparr>flag := 0x503\<rparr>))"
  by (simp add: rt_hw_usart_init_def uart_names_def rt_hw_serial_register_def
      rt_device_register_def rt_device_find_def rt_object_init_def RT_NAME_MAX_def
      uart_obj_init_def numeral_eq_Suc)

lemma fresh_fifo_empty: "fifo_inv 64 (fresh_fifo 64) \<and> fifo_list 64 (fresh_fifo 64) = []"
  by (simp add: inv_simps fresh_fifo_def fifo_list_def fifo_rx_length_def)

lemma image_uart_setup_ok:
  assumes "\<And>ini. hal_uart_init ini" and "s = uart_obj_init\<lparr>flag := 0x503\<rparr>"
  shows "\<exists>s'. image_uart_setup hal_uart_init True s = Inr (RT_EOK, s') \<and> image_uart_idle s' \<and>
    BaudRate (Init (hw s')) = 9600"
  using assms fresh_fifo_empty
  by (simp add: image_uart_setup_def rt_device_control_def rt_serial_control_def
      rt_device_set_rx_indicate_def rt_device_open_def rt_serial_init_def stm32_configure_def
      device_open_tail_def rt_serial_open_def serial_open_rx_def serial_open_tx_def lacks_def
      flag_set_def stm32_control_def RT_SERIAL_CONFIG_DEFAULT_def uart_obj_init_def Let_def
      image_uart_idle_def)

text \<open>
  Start-up brings the image UART into the state reception needs: when the board's
  UARTs have been registered and the HAL accepts the settings, opening the device found
  under the name uart3 succeeds, and the device is configured for 9600 baud, has its
  receive interrupt enabled, the callback registered and an empty FIFO of 64 bytes.
\<close>

theorem image_uart_ready_after_setup:
  assumes "\<And>ini. hal_uart_init ini" and "rt_hw_usart_init [] = Inr (reg, devs)"
  shows "\<exists>i s'. rt_device_find reg ''uart3'' = Some i \<and>
    image_uart_setup hal_uart_init True (devs ! i) = Inr (RT_EOK, s') \<and>
    image_uart_idle s' \<and> BaudRate (Init (hw s')) = 9600"
proof -
  from assms(2) have reg: "reg = [(''uart6'', 3), (''uart4'', 2), (''uart3'', 1), (''uart2'', 0)]"
    and devs: "devs = replicate 4 (uart_obj_init\<lparr>flag := 0x503\<rparr>)"
    by (simp_all add: rt_hw_usart_init_eval)
  have "rt_device_find reg ''uart3'' = Some 1"
    unfolding reg by (simp add: rt_device_find_def RT_NAME_MAX_def)
  moreover have "devs ! 1 = uart_obj_init\<lparr>flag := 0x503\<rparr>"
    unfolding devs by simp
  then obtain s' where "image_uart_setup hal_uart_init True (devs ! 1) = Inr (RT_EOK, s')"
    "image_uart_idle s'" "BaudRate (Init (hw s')) = 9600"
    using image_uart_setup_ok[of hal_uart_init "devs ! 1"] assms(1) by blast
  ultimately show ?thesis by (intro exI[of _ 1] exI[of _ s'] conjI)
qed

section \<open>Witnesses\<close>

theorem image_uart_ready_after_setup_witness:
  "\<exists>i s'. rt_device_find [(''uart6'', 3), (''uart4'', 2), (''uart3'', 1), (''uart2'', 0)] ''uart3''
      = Some i \<and>
    image_uart_setup (\<lambda>_. True) True (replicate 4 (uart_obj_init\<lparr>flag := 0x503\<rparr>) ! i) =
      Inr (RT_EOK, s') \<and>
    image_uart_idle s' \<and> BaudRate (Init (hw s')) = 9600"
  using image_uart_ready_after_setup[of "\<lambda>_. True", OF _ rt_hw_usart_init_eval] by simp

theorem frame_parser_refines_spec_witness:
  "rx_sim (foldl rx_byte rx_state_init [7, FRAME_HEAD, 8]) (Collect [8]) \<and>
   image_buffer (foldl rx_byte rx_state_init [7, FRAME_HEAD, 8]) = image_buffer rx_state_init"
proof -
  have "rx_sim rx_state_init Hunt"
    by (simp add: rx_sim_def rx_state_init_inv) (simp add: rx_state_init_def)
  moreover have "spec_run Hunt [7, FRAME_HEAD, 8] = (Collect [8], [])"
    by (simp add: FRAME_HEAD_def frame_end_def IMAGE_SIZE_def)
  ultimately show ?thesis using frame_parser_refines_spec by fastforce
qed

theorem frame_received_witness:
  "image_buffer (foldl rx_byte rx_state_init
     (FRAME_HEAD # replicate IMAGE_SIZE 0x5D @ FRAME_TAIL_SEQ)) = map clamp_val (replicate IMAGE_SIZE 0x5D)"
proof -
  have "frame_start rx_state_init = 0" by (simp add: rx_state_init_def)
  from frame_received[OF rx_state_init_inv this, of "replicate IMAGE_SIZE 0x5D"]
  show ?thesis by simp
qed

theorem image_path_lossless_witness:
  "\<exists>s s'. image_uart_irqs [[FRAME_HEAD], [1, 2], [3]] (s, rx_state_init) =
     Inr (s', foldl rx_byte rx_state_init [FRAME_HEAD, 1, 2, 3]) \<and> image_uart_idle s'"
proof -
  obtain s where "image_uart_idle s"
    using image_uart_setup_ok[of "\<lambda>_. True"] by blast
  then have "\<exists>s'. image_uart_irqs [[FRAME_HEAD], [1, 2], [3]] (s, rx_state_init) =
      Inr (s', foldl rx_byte rx_state_init (concat [[FRAME_HEAD], [1, 2], [3]])) \<and> image_uart_idle s'"
    by (rule image_path_lossless) simp
  then show ?thesis by (simp del: image_uart_irqs.simps foldl_Cons) blast
qed

end
