(* ===== verification/Float32.thy ===== *)
theory Float32
  imports Complex_Main
begin

text \<open>
  Single-precision arithmetic of the speed controller: a \<^verbatim>\<open>float\<close> is a rational number
  and every operation rounds its exact result to the nearest value with 24 significant
  bits, ties to even, with the exponent range of the format at the lower end. Overflow is
  not modelled: the magnitudes in the controller stay far below the largest number.
  Multiply-add contraction by the compiler is not modelled.
\<close>

fun nat_log2 :: "nat \<Rightarrow> nat" where
  "nat_log2 n = (if n < 2 then 0 else Suc (nat_log2 (n div 2)))"

declare nat_log2.simps [simp del]

definition pow2 :: "int \<Rightarrow> rat" where
  "pow2 z = (if z \<ge> 0 then 2 ^ nat z else 1 / 2 ^ nat (- z))"

definition ilog2 :: "rat \<Rightarrow> int" where
  "ilog2 x =
     (case quotient_of x of (n, d) \<Rightarrow>
        let l = int (nat_log2 (nat n)) - int (nat_log2 (nat d)) in if pow2 l \<le> x then l else l - 1)"

definition round_half_even :: "rat \<Rightarrow> int" where
  "round_half_even q =
     (let f = \<lfloor>q\<rfloor>; r = q - of_int f in
      if r < 1 / 2 then f else if r > 1 / 2 then f + 1 else if even f then f else f + 1)"

definition rnd32 :: "rat \<Rightarrow> rat" where
  "rnd32 x =
     (if x = 0 then 0
      else let u = pow2 (max (ilog2 \<bar>x\<bar>) (- 126) - 23) in of_int (round_half_even (x / u)) * u)"

definition fadd :: "rat \<Rightarrow> rat \<Rightarrow> rat" where "fadd a b = rnd32 (a + b)"
definition fsub :: "rat \<Rightarrow> rat \<Rightarrow> rat" where "fsub a b = rnd32 (a - b)"
definition fmul :: "rat \<Rightarrow> rat \<Rightarrow> rat" where "fmul a b = rnd32 (a * b)"
definition fdiv :: "rat \<Rightarrow> rat \<Rightarrow> rat" where "fdiv a b = rnd32 (a / b)"
definition fint :: "int \<Rightarrow> rat" where "fint i = rnd32 (of_int i)"

text \<open>Conversion to an unsigned 16-bit number, for the values the code converts.\<close>

definition f2u16 :: "rat \<Rightarrow> nat" where "f2u16 x = nat \<lfloor>x\<rfloor> mod 65536"

lemma f2u16_bound: "0 \<le> x \<Longrightarrow> x \<le> of_nat n \<Longrightarrow> f2u16 x \<le> n"
proof -
  assume "0 \<le> x" "x \<le> of_nat n"
  then have "\<lfloor>x\<rfloor> \<le> int n" by (simp add: floor_le_iff)
  then have "nat \<lfloor>x\<rfloor> \<le> n" by simp
  then show ?thesis unfolding f2u16_def by (meson le_trans mod_less_eq_dividend)
qed

end
