(* ===== verification/Json.thy ===== *)
theory Json
  imports Prelude Float32
begin

text \<open>
  The part of \<^verbatim>\<open>packages/cJSON-v1.7.17/cJSON.c\<close> the application reports with: building
  objects and arrays, rendering them, and the reader of string literals, which shows
  that the escaping is right. A \<open>cJSON\<close> item is a value of a datatype; the sibling
  list of children is a list. Allocations succeed. A number carries its
  \<open>valuedouble\<close> and its \<open>valueint\<close>; how C renders a
  double that \<open>valueint\<close> cannot hold (\<^verbatim>\<open>%1.15g\<close>, \<^verbatim>\<open>%1.17g\<close>) is the parameter \<open>fmt_g\<close>.
  The reader of whole documents is in \<open>Json_Parse\<close>.
\<close>

section \<open>Items\<close>

text \<open>A \<^verbatim>\<open>double\<close> that is a number or one of the infinities.\<close>

datatype c_double = Finite rat | Pos_Inf | Neg_Inf

datatype cJSON =
    cJSON_NULL
  | cJSON_False
  | cJSON_True
  | cJSON_Number c_double int
  | cJSON_Raw string
  | cJSON_String string
  | cJSON_Array "cJSON list"
  | cJSON_Object "(string \<times> cJSON) list"

definition INT_MAX :: int where "INT_MAX = 2 ^ 31 - 1"
definition INT_MIN :: int where "INT_MIN = - (2 ^ 31)"

text \<open>The conversion to \<^verbatim>\<open>int\<close> saturates and drops the fraction.\<close>

fun saturate_int :: "c_double \<Rightarrow> int" where
  "saturate_int (Finite x) =
     (if x \<ge> of_int INT_MAX then INT_MAX else if x \<le> of_int INT_MIN then INT_MIN
      else if x \<ge> 0 then \<lfloor>x\<rfloor> else \<lceil>x\<rceil>)"
| "saturate_int Pos_Inf = INT_MAX"
| "saturate_int Neg_Inf = INT_MIN"

definition cJSON_CreateNumber :: "c_double \<Rightarrow> cJSON" where
  "cJSON_CreateNumber num = cJSON_Number num (saturate_int num)"

text \<open>An integer as a \<^verbatim>\<open>double\<close>.\<close>

definition double_of_int :: "int \<Rightarrow> c_double" where "double_of_int n = Finite (of_int n)"

definition cJSON_CreateString :: "string \<Rightarrow> cJSON" where
  "cJSON_CreateString s = cJSON_String s"

definition cJSON_CreateObject :: cJSON where
  "cJSON_CreateObject = cJSON_Object []"

definition cJSON_CreateArray :: cJSON where
  "cJSON_CreateArray = cJSON_Array []"

text \<open>Appending a child has no visible effect on an item that is no container.\<close>

fun add_item_to_array :: "cJSON \<Rightarrow> cJSON \<Rightarrow> cJSON" where
  "add_item_to_array (cJSON_Array xs) item = cJSON_Array (xs @ [item])"
| "add_item_to_array other item = other"

fun add_item_to_object :: "cJSON \<Rightarrow> string \<Rightarrow> cJSON \<Rightarrow> cJSON" where
  "add_item_to_object (cJSON_Object ms) name item = cJSON_Object (ms @ [(name, item)])"
| "add_item_to_object other name item = other"

definition cJSON_AddNumberToObject :: "cJSON \<Rightarrow> string \<Rightarrow> c_double \<Rightarrow> cJSON" where
  "cJSON_AddNumberToObject ob name n = add_item_to_object ob name (cJSON_CreateNumber n)"

definition cJSON_AddStringToObject :: "cJSON \<Rightarrow> string \<Rightarrow> string \<Rightarrow> cJSON" where
  "cJSON_AddStringToObject ob name s = add_item_to_object ob name (cJSON_CreateString s)"

section \<open>Rendering\<close>

definition hex_digit :: "nat \<Rightarrow> char" where
  "hex_digit n = (if n < 10 then char_of (48 + n) else char_of (87 + n))"

text \<open>\<^verbatim>\<open>sprintf("u%04x", c)\<close> for a byte.\<close>

definition u_escape :: "nat \<Rightarrow> string" where
  "u_escape c = [CHR ''u'', CHR ''0'', CHR ''0'', hex_digit (c div 16), hex_digit (c mod 16)]"

definition escape_char :: "char \<Rightarrow> string" where
  "escape_char c =
     (let n = of_char c :: nat in
      if n > 31 \<and> c \<noteq> CHR 0x22 \<and> c \<noteq> CHR 0x5C then [c]
      else CHR 0x5C #
        (if c = CHR 0x5C then [CHR 0x5C]
         else if c = CHR 0x22 then [CHR 0x22]
         else if n = 8 then ''b''
         else if n = 12 then ''f''
         else if n = 10 then ''n''
         else if n = 13 then ''r''
         else if n = 9 then ''t''
         else u_escape n))"

text \<open>A C string ends at its first NUL.\<close>

definition c_str :: "string \<Rightarrow> string" where
  "c_str s = takeWhile (\<lambda>c. c \<noteq> CHR 0x00) s"

definition print_string_ptr :: "string \<Rightarrow> string" where
  "print_string_ptr s = CHR 0x22 # concat (map escape_char (c_str s)) @ [CHR 0x22]"

fun string_of_nat :: "nat \<Rightarrow> string" where
  "string_of_nat n =
     (if n < 10 then [char_of (48 + n)] else string_of_nat (n div 10) @ [char_of (48 + n mod 10)])"

declare string_of_nat.simps [simp del]

definition string_of_int :: "int \<Rightarrow> string" where
  "string_of_int i = (if i < 0 then CHR ''-'' # string_of_nat (nat (- i)) else string_of_nat (nat i))"

fun print_number :: "(rat \<Rightarrow> string) \<Rightarrow> c_double \<Rightarrow> int \<Rightarrow> string" where
  "print_number fmt_g (Finite x) i = (if x = of_int i then string_of_int i else fmt_g x)"
| "print_number fmt_g d i = ''null''"

fun print_value :: "(rat \<Rightarrow> string) \<Rightarrow> bool \<Rightarrow> nat \<Rightarrow> cJSON \<Rightarrow> string"
  and print_elements :: "(rat \<Rightarrow> string) \<Rightarrow> bool \<Rightarrow> nat \<Rightarrow> cJSON list \<Rightarrow> string"
  and print_members :: "(rat \<Rightarrow> string) \<Rightarrow> bool \<Rightarrow> nat \<Rightarrow> (string \<times> cJSON) list \<Rightarrow> string" where
  "print_value g fmt depth cJSON_NULL = ''null''"
| "print_value g fmt depth cJSON_False = ''false''"
| "print_value g fmt depth cJSON_True = ''true''"
| "print_value g fmt depth (cJSON_Number d i) = print_number g d i"
| "print_value g fmt depth (cJSON_Raw s) = s"
| "print_value g fmt depth (cJSON_String s) = print_string_ptr s"
| "print_value g fmt depth (cJSON_Array xs) = ''['' @ print_elements g fmt (Suc depth) xs @ '']''"
| "print_value g fmt depth (cJSON_Object ms) =
     ''{'' @ (if fmt then [CHR 0x0A] else []) @ print_members g fmt (Suc depth) ms @
     (if fmt then replicate depth (CHR 0x09) else []) @ ''}''"
| "print_elements g fmt depth [] = []"
| "print_elements g fmt depth (x # xs) =
     print_value g fmt depth x @
     (if xs = [] then [] else if fmt then '', '' else '','') @ print_elements g fmt depth xs"
| "print_members g fmt depth [] = []"
| "print_members g fmt depth (m # ms) =
     (if fmt then replicate depth (CHR 0x09) else []) @ print_string_ptr (fst m) @
     (if fmt then [CHR '':'', CHR 0x09] else '':'') @ print_value g fmt depth (snd m) @
     (if ms = [] then [] else '','') @ (if fmt then [CHR 0x0A] else []) @ print_members g fmt depth ms"

definition cJSON_PrintUnformatted :: "(rat \<Rightarrow> string) \<Rightarrow> cJSON \<Rightarrow> string" where
  "cJSON_PrintUnformatted g item = print_value g False 0 item"

definition cJSON_Print :: "(rat \<Rightarrow> string) \<Rightarrow> cJSON \<Rightarrow> string" where
  "cJSON_Print g item = print_value g True 0 item"

lemma length_string_of_nat: "n < 10 ^ Suc k \<Longrightarrow> length (string_of_nat n) \<le> Suc k"
proof (induction k arbitrary: n)
  case (Suc k)
  then show ?case by (cases "n < 10") (auto simp: string_of_nat.simps[of n] less_mult_imp_div_less)
qed (simp add: string_of_nat.simps)

lemma saturate_double_of_int: "INT_MIN \<le> n \<Longrightarrow> n \<le> INT_MAX \<Longrightarrow> saturate_int (double_of_int n) = n"
  by (auto simp: double_of_int_def)

lemma print_double_of_int [simp]: "print_number g (double_of_int n) n = string_of_int n"
  by (simp add: double_of_int_def)

section \<open>Reading string literals\<close>

definition hex_value :: "char \<Rightarrow> nat option" where
  "hex_value c =
     (let n = of_char c :: nat in
      if 48 \<le> n \<and> n \<le> 57 then Some (n - 48)
      else if 65 \<le> n \<and> n \<le> 70 then Some (10 + n - 65)
      else if 97 \<le> n \<and> n \<le> 102 then Some (10 + n - 97)
      else None)"

text \<open>An invalid digit makes the whole number 0, as in C.\<close>

definition parse_hex4 :: "char list \<Rightarrow> nat" where
  "parse_hex4 cs =
     (case map hex_value (take 4 cs) of
        [Some a, Some b, Some c, Some d] \<Rightarrow> ((a * 16 + b) * 16 + c) * 16 + d
      | _ \<Rightarrow> 0)"

definition utf8_bytes :: "nat \<Rightarrow> string" where
  "utf8_bytes cp =
     (if cp < 0x80 then [char_of cp]
      else if cp < 0x800 then [char_of (0xC0 + cp div 64), char_of (0x80 + cp mod 64)]
      else if cp < 0x10000
      then [char_of (0xE0 + cp div 4096), char_of (0x80 + cp div 64 mod 64), char_of (0x80 + cp mod 64)]
      else [char_of (0xF0 + cp div 262144), char_of (0x80 + cp div 4096 mod 64),
            char_of (0x80 + cp div 64 mod 64), char_of (0x80 + cp mod 64)])"

text \<open>
  The input starts at the backslash and ends where the literal ends. The result is the
  decoded bytes and the length of the sequence read.
\<close>

definition utf16_literal_to_utf8 :: "string \<Rightarrow> (string \<times> nat) option" where
  "utf16_literal_to_utf8 inp =
     (if length inp < 6 then None
      else let first_code = parse_hex4 (drop 2 inp) in
        if 0xDC00 \<le> first_code \<and> first_code \<le> 0xDFFF then None
        else if 0xD800 \<le> first_code \<and> first_code \<le> 0xDBFF
        then let second = drop 6 inp in
          if length second < 6 \<or> take 2 second \<noteq> [CHR 0x5C, CHR ''u''] then None
          else let second_code = parse_hex4 (drop 2 second) in
            if second_code < 0xDC00 \<or> second_code > 0xDFFF then None
            else Some (utf8_bytes (0x10000 + (first_code mod 1024) * 1024 + second_code mod 1024), 12)
        else Some (utf8_bytes first_code, 6))"

text \<open>
  The first pass of \<^verbatim>\<open>parse_string\<close>: find the closing quote, stepping over escaped
  characters. The result is the body of the literal and the input after the quote.
\<close>

fun scan_literal :: "string \<Rightarrow> (string \<times> string) option" where
  "scan_literal [] = None"
| "scan_literal (c # cs) =
     (if c = CHR 0x22 then Some ([], cs)
      else if c = CHR 0x5C
      then (case cs of [] \<Rightarrow> None
            | d # ds \<Rightarrow> map_option (\<lambda>(b, r). (c # d # b, r)) (scan_literal ds))
      else map_option (\<lambda>(b, r). (c # b, r)) (scan_literal cs))"

text \<open>
  The second pass: decode the body. Every round removes at least one character. Escapes that the first
  pass read differently can leave a backslash at the end; the code then reads the closing quote behind the body.
\<close>

function unescape :: "string \<Rightarrow> string option" where
  "unescape inp =
     (case inp of [] \<Rightarrow> Some []
      | c # cs \<Rightarrow>
          if c \<noteq> CHR 0x5C then map_option (\<lambda>s. c # s) (unescape cs)
          else (case cs of [] \<Rightarrow> Some [CHR 0x22]
            | e # ds \<Rightarrow>
                if e = CHR ''b'' then map_option (\<lambda>s. char_of (8::nat) # s) (unescape ds)
                else if e = CHR ''f'' then map_option (\<lambda>s. char_of (12::nat) # s) (unescape ds)
                else if e = CHR ''n'' then map_option (\<lambda>s. char_of (10::nat) # s) (unescape ds)
                else if e = CHR ''r'' then map_option (\<lambda>s. char_of (13::nat) # s) (unescape ds)
                else if e = CHR ''t'' then map_option (\<lambda>s. char_of (9::nat) # s) (unescape ds)
                else if e = CHR 0x22 \<or> e = CHR 0x5C \<or> e = CHR ''/''
                then map_option (\<lambda>s. e # s) (unescape ds)
                else if e = CHR ''u''
                then (case utf16_literal_to_utf8 inp of None \<Rightarrow> None
                      | Some (bs, n) \<Rightarrow> map_option (\<lambda>s. bs @ s) (unescape (drop (max 1 n) inp)))
                else None))"
  by pat_completeness auto
termination
  by (relation "measure length") (auto split: if_splits)

declare unescape.simps [simp del]

definition parse_string :: "string \<Rightarrow> (string \<times> string) option" where
  "parse_string inp =
     (case inp of [] \<Rightarrow> None
      | c # cs \<Rightarrow>
          if c \<noteq> CHR 0x22 then None
          else (case scan_literal cs of None \<Rightarrow> None
            | Some (body, rest) \<Rightarrow>
                (case unescape body of None \<Rightarrow> None | Some s \<Rightarrow> Some (s, rest))))"

section \<open>Escaping and unescaping agree\<close>

text \<open>Every control character takes one of the five short forms or the \<^verbatim>\<open>\u\<close> form.\<close>

lemma of_char_hex_digit:
  "k < 16 \<Longrightarrow> of_char (hex_digit k) = (if k < 10 then 48 + k else 87 + k)"
  by (simp add: hex_digit_def)

lemma parse_hex4_u_escape:
  assumes "n < 32"
  shows "parse_hex4 (tl (u_escape n) @ t) = n"
proof -
  have "\<forall>n\<in>{0..<32}. parse_hex4 (tl (u_escape n) @ t) = n"
    by (simp add: parse_hex4_def u_escape_def hex_digit_def hex_value_def
        atLeastLessThan_nat_numeral)
  with assms show ?thesis by simp
qed

lemma unescape_plain: "c \<noteq> CHR 0x5C \<Longrightarrow> unescape (c # t) = map_option (Cons c) (unescape t)"
  by (subst unescape.simps) simp

lemma append_single: "(@) [x] = (#) x"
  by (simp add: fun_eq_iff)

lemma unescape_u_escape:
  assumes "n < 32"
  shows "unescape (CHR 0x5C # u_escape n @ t) = map_option (Cons (char_of n)) (unescape t)"
proof -
  have u: "u_escape n = CHR ''u'' # tl (u_escape n)" "length (u_escape n) = 5"
    by (simp_all add: u_escape_def)
  have d: "drop 2 (CHR 0x5C # u_escape n @ t) = tl (u_escape n) @ t"
    by (simp add: u_escape_def)
  have "utf16_literal_to_utf8 (CHR 0x5C # u_escape n @ t) = Some ([char_of n], 6)"
    unfolding utf16_literal_to_utf8_def d parse_hex4_u_escape[OF assms]
    using assms u(2) by (simp add: utf8_bytes_def)
  moreover have "drop 6 (CHR 0x5C # u_escape n @ t) = t"
    by (simp add: u(2))
  ultimately show ?thesis
    by (subst unescape.simps, subst u(1)) (simp add: append_single u_escape_def)
qed

lemma unescape_short:
  "unescape (CHR 0x5C # CHR ''b'' # t) = map_option (Cons (char_of (8::nat))) (unescape t)"
  "unescape (CHR 0x5C # CHR ''f'' # t) = map_option (Cons (char_of (12::nat))) (unescape t)"
  "unescape (CHR 0x5C # CHR ''n'' # t) = map_option (Cons (char_of (10::nat))) (unescape t)"
  "unescape (CHR 0x5C # CHR ''r'' # t) = map_option (Cons (char_of (13::nat))) (unescape t)"
  "unescape (CHR 0x5C # CHR ''t'' # t) = map_option (Cons (char_of (9::nat))) (unescape t)"
  "unescape (CHR 0x5C # CHR 0x22 # t) = map_option (Cons (CHR 0x22)) (unescape t)"
  "unescape (CHR 0x5C # CHR 0x5C # t) = map_option (Cons (CHR 0x5C)) (unescape t)"
  by (subst unescape.simps, simp)+

lemma unescape_escape_control:
  assumes "n < (32::nat)"
  shows "unescape (escape_char (char_of n) @ t) = map_option (Cons (char_of n)) (unescape t)"
proof -
  have n: "of_char (char_of n :: char) = n" using assms by simp
  then have "char_of n \<noteq> CHR 0x22" "char_of n \<noteq> CHR 0x5C"
    using assms by (auto dest!: arg_cong[where f = "of_char :: char \<Rightarrow> nat"])
  with assms n have e: "escape_char (char_of n) = CHR 0x5C #
      (if n = 8 then ''b'' else if n = 12 then ''f'' else if n = 10 then ''n''
       else if n = 13 then ''r'' else if n = 9 then ''t'' else u_escape n)"
    unfolding escape_char_def Let_def n by auto
  show ?thesis
    unfolding e by (simp add: unescape_short unescape_u_escape[OF assms, of t, simplified])
qed

lemma unescape_escape_char: "unescape (escape_char c @ t) = map_option (Cons c) (unescape t)"
proof (cases "of_char c < (32::nat)")
  case True
  then show ?thesis using unescape_escape_control[of "of_char c" t] by simp
next
  case False
  then show ?thesis
    by (cases "c = CHR 0x22 \<or> c = CHR 0x5C")
      (auto simp: escape_char_def unescape_plain unescape_short)
qed

lemma unescape_escape: "unescape (concat (map escape_char s)) = Some s"
  by (induction s) (simp_all add: unescape_escape_char unescape.simps[of "[]"])

text \<open>The scan for the closing quote steps over one escaped character as a whole.\<close>

lemma scan_literal_escape_char:
  "scan_literal (escape_char c @ t) = map_option (\<lambda>(b, r). (escape_char c @ b, r)) (scan_literal t)"
proof -
  have h: "hex_digit k \<noteq> CHR 0x22 \<and> hex_digit k \<noteq> CHR 0x5C" if "k < 16" for k
    using of_char_hex_digit[OF that] that by (auto split: if_splits)
  have "of_char c div 16 < (16::nat)"
    by (rule less_mult_imp_div_less) simp
  then show ?thesis
    by (cases "scan_literal t") (auto simp: escape_char_def u_escape_def Let_def h)
qed

lemma scan_literal_escape:
  "scan_literal (concat (map escape_char s) @ CHR 0x22 # rest) = Some (concat (map escape_char s), rest)"
  by (induction s) (simp_all add: scan_literal_escape_char)

text \<open>
  Rendering a string as a JSON literal and reading the literal back gives the
  string, whatever bytes it holds (quotes, backslashes, control characters, UTF-8)
  and whatever follows it.
\<close>

lemma json_string_roundtrip:
  "parse_string (print_string_ptr s @ rest) = Some (c_str s, rest)"
  by (simp add: parse_string_def print_string_ptr_def scan_literal_escape unescape_escape)

end
