(* ===== verification/Inspect.thy ===== *)
theory Inspect
  imports Frame_Rx Json
begin

text \<open>
  The inspection thread of \<^verbatim>\<open>applications/model_sd_start.c\<close>: it runs the neural network on
  every received image, counts the classes of a batch and, when the batch is complete,
  writes the CSV file and publishes two reports. What the thread does to the outside is
  recorded in order in \<open>trace\<close>. The network, the random numbers, the MQTT client and the
  file system are the fields of \<open>insp_env\<close>; the argument \<open>nat\<close> of some of them is the
  number of effects so far, so that their answers may change over time.
\<close>

section \<open>State\<close>

datatype effect =
    E_Open string
  | E_Write int string
  | E_Close int
  | E_Publish string string
  | E_Pin nat bool
  | E_Delay nat

record insp_env =
  nn_create :: "nat option"
  nn_run :: "nat option \<Rightarrow> u8 list \<Rightarrow> u8 list"
  rnd :: "nat \<Rightarrow> u32"
  mqtt_publish :: "nat \<Rightarrow> string \<Rightarrow> string \<Rightarrow> int"
  fs_open :: "nat \<Rightarrow> string \<Rightarrow> int"
  fmt_g :: "rat \<Rightarrow> string"

record insp =
  rx :: rx_state
  defect_model :: "nat option"
  nnom_input_data :: "u8 list"
  nnom_output_data :: "u8 list"
  detection_round_cnt :: u8
  detection_round_mutex :: bool
  detect_round :: u8
  defect_counter :: "u16 list"
  last_detect :: "u8 list"
  trace :: "effect list"

definition DEFECT_CLASS_CNT :: nat where "DEFECT_CLASS_CNT = 7"
definition DEFAULT_DETECTION_ROUND_CNT :: nat where "DEFAULT_DETECTION_ROUND_CNT = 10"

definition defect_names :: "string list" where
  "defect_names = [''crack'', ''dirt'', ''glue'', ''line'', ''oil'', ''no defect'', ''wear'']"

definition round_names :: "string list" where
  "round_names = [''first'', ''second'', ''third'', ''forth'', ''fifth'', ''sixth'', ''seventh'',
     ''eighth'', ''ninth'', ''tenth'']"

definition insp_init :: insp where
  "insp_init =
     \<lparr>rx = rx_state_init, defect_model = None, nnom_input_data = replicate IMAGE_SIZE 0,
      nnom_output_data = replicate DEFECT_CLASS_CNT 0,
      detection_round_cnt = of_nat DEFAULT_DETECTION_ROUND_CNT, detection_round_mutex = False,
      detect_round = 0, defect_counter = replicate DEFECT_CLASS_CNT 0,
      last_detect = replicate DEFAULT_DETECTION_ROUND_CNT 0, trace = []\<rparr>"

definition emit :: "effect \<Rightarrow> insp \<Rightarrow> insp" where
  "emit e s = s\<lparr>trace := trace s @ [e]\<rparr>"

section \<open>Classification\<close>

text \<open>\<open>made\<close>: the kernel could allocate the mutex.\<close>

definition detection_mutex_init :: "bool \<Rightarrow> insp \<Rightarrow> int \<times> insp" where
  "detection_mutex_init made s =
     (if made then 0 else - 1, s\<lparr>detection_round_mutex := made\<rparr>)"

definition defect_model_init :: "insp_env \<Rightarrow> insp \<Rightarrow> int \<times> insp" where
  "defect_model_init env s =
     (if defect_model s \<noteq> None then (0, s)
      else (if nn_create env = None then - 1 else 0, s\<lparr>defect_model := nn_create env\<rparr>))"

text \<open>
  Take the mutex, read the batch size, release the mutex. A mutex that was never created
  fails the assertion of \<^verbatim>\<open>rt_mutex_take\<close>.
\<close>

definition read_round_cnt :: "insp \<Rightarrow> u8 res" where
  "read_round_cnt s =
     (if detection_round_mutex s then Inr (detection_round_cnt s) else Inl Assert_Failed)"

fun argmax_loop :: "u8 list \<Rightarrow> nat \<Rightarrow> int \<Rightarrow> nat \<Rightarrow> nat" where
  "argmax_loop [] i max_val max_idx = max_idx"
| "argmax_loop (x # xs) i max_val max_idx =
     (if sint x > max_val then argmax_loop xs (Suc i) (sint x) i
      else argmax_loop xs (Suc i) max_val max_idx)"

definition max_index :: "u8 list \<Rightarrow> nat" where
  "max_index out = argmax_loop (take DEFECT_CLASS_CNT out) 0 (- 128) 0"

definition parse_output_result :: "u8 list \<Rightarrow> insp \<Rightarrow> insp res" where
  "parse_output_result out s =
     (if length out < DEFECT_CLASS_CNT then Inl Out_Of_Bounds
      else let max_idx = max_index out in
        bind_res (read_round_cnt s) (\<lambda>n_total.
        bind_res
          (if detect_round s < n_total
           then (if unat (detect_round s) < length (last_detect s)
                 then Inr (s\<lparr>last_detect := (last_detect s)[unat (detect_round s) := of_nat max_idx]\<rparr>)
                 else Inl Out_Of_Bounds)
           else Inr s)
          (\<lambda>s1. Inr (s1\<lparr>defect_counter :=
             (defect_counter s1)[max_idx := defect_counter s1 ! max_idx + 1]\<rparr>))))"

definition prepare_input_data :: "nat \<Rightarrow> insp \<Rightarrow> insp" where
  "prepare_input_data sz s =
     s\<lparr>nnom_input_data := take sz (image_buffer (rx s)) @ drop sz (nnom_input_data s)\<rparr>"

definition defect_inspect_main :: "insp_env \<Rightarrow> insp \<Rightarrow> insp res" where
  "defect_inspect_main env s =
     (let s1 = prepare_input_data IMAGE_SIZE s;
          s2 = s1\<lparr>nnom_output_data := nn_run env (defect_model s1) (nnom_input_data s1)\<rparr>
      in parse_output_result (nnom_output_data s2) s2)"

section \<open>Reports\<close>

text \<open>The topic of both reports: \<^verbatim>\<open>$sys/<product>/<device>/thing/property/post\<close>.\<close>

definition onenet_topic :: string where
  "onenet_topic = take 127 (''$sys/'' @ ''Li52kea1xX'' @ ''/'' @ ''inspect'' @ ''/thing/property/post'')"

text \<open>
  \<^verbatim>\<open>{"id":...,"params":{<name>:{"value":...}}}\<close>. The C code fills an object after it has
  linked it into its parent; the items here are built from the inside.
\<close>

definition onejson_property :: "u32 \<Rightarrow> string \<Rightarrow> string \<Rightarrow> cJSON" where
  "onejson_property r name value_str =
     (let prop_root = cJSON_AddStringToObject cJSON_CreateObject ''id'' (take 11 (string_of_nat (unat r)));
          entry = cJSON_AddStringToObject cJSON_CreateObject ''value'' value_str;
          params = add_item_to_object cJSON_CreateObject name entry
      in add_item_to_object prop_root ''params'' params)"

text \<open>The element \<^verbatim>\<open>defect_names[detect_results[i]]\<close>; both indices are checked.\<close>

definition result_name :: "u8 list \<Rightarrow> nat \<Rightarrow> string res" where
  "result_name results i =
     (if i < length results \<and> unat (results ! i) < length defect_names
      then Inr (defect_names ! unat (results ! i)) else Inl Out_Of_Bounds)"

definition defect_report_value :: "u8 \<Rightarrow> u8 list \<Rightarrow> cJSON res" where
  "defect_report_value n_total results =
     (let item = cJSON_AddNumberToObject cJSON_CreateObject ''total'' (double_of_int (uint n_total)) in
      bind_res
        (fold_res (\<lambda>i arr. bind_res (result_name results i)
            (\<lambda>nm. Inr (add_item_to_array arr (cJSON_CreateString nm)))) [0..<unat n_total] cJSON_CreateArray)
        (\<lambda>arr. Inr (add_item_to_object item ''results'' arr)))"

definition defect_count_value :: "u16 list \<Rightarrow> cJSON" where
  "defect_count_value counter =
     foldl (\<lambda>item i. cJSON_AddNumberToObject item (defect_names ! i) (double_of_int (uint (counter ! i))))
       cJSON_CreateObject [0..<DEFECT_CLASS_CNT]"

definition onenet_publish_property :: "insp_env \<Rightarrow> string \<Rightarrow> cJSON \<Rightarrow> insp \<Rightarrow> int \<times> insp" where
  "onenet_publish_property env name item s =
     (let value_str = cJSON_PrintUnformatted (fmt_g env) item;
          n = length (trace s);
          json_str = cJSON_PrintUnformatted (fmt_g env) (onejson_property (rnd env n) name value_str)
      in (mqtt_publish env n onenet_topic json_str, emit (E_Publish onenet_topic json_str) s))"

definition onenet_upload_defect_report ::
  "insp_env \<Rightarrow> u8 \<Rightarrow> u8 list \<Rightarrow> insp \<Rightarrow> (int \<times> insp) res" where
  "onenet_upload_defect_report env n_total results s =
     bind_res (defect_report_value n_total results)
       (\<lambda>item. Inr (onenet_publish_property env ''defect_report'' item s))"

definition onenet_upload_defect_count :: "insp_env \<Rightarrow> u16 list \<Rightarrow> insp \<Rightarrow> int \<times> insp" where
  "onenet_upload_defect_count env counter s =
     onenet_publish_property env ''defect_count'' (defect_count_value counter) s"

section \<open>The CSV file\<close>

text \<open>\<^verbatim>\<open>strcat\<close> into a character array of \<open>cap\<close> bytes.\<close>

definition strcat :: "nat \<Rightarrow> string \<Rightarrow> string \<Rightarrow> string res" where
  "strcat cap buf s = (if length buf + length s < cap then Inr (buf @ s) else Inl Out_Of_Bounds)"

definition csv_header :: "nat \<Rightarrow> string res" where
  "csv_header n_total =
     bind_res
       (fold_res (\<lambda>i h.
          if i < length round_names
          then bind_res (strcat 128 h (round_names ! i))
                 (\<lambda>h1. if int i \<noteq> int n_total - 1 then strcat 128 h1 '','' else Inr h1)
          else Inl Out_Of_Bounds) [0..<n_total] ''type,'')
       (\<lambda>h. strcat 128 h [CHR 0x0A])"

text \<open>A comma and the UTF-8 bytes of the check mark.\<close>

definition csv_mark :: string where
  "csv_mark = [CHR '','', CHR 0xE2, CHR 0x88, CHR 0x9A]"

definition csv_line :: "nat \<Rightarrow> nat \<Rightarrow> u8 list \<Rightarrow> string res" where
  "csv_line i n_total results =
     bind_res
       (fold_res (\<lambda>j l.
          if j < length results
          then strcat 256 l (if unat (results ! j) = i then csv_mark else '','')
          else Inl Out_Of_Bounds) [0..<n_total] (defect_names ! i))
       (\<lambda>l. strcat 256 l [CHR 0x0A])"

definition BUZZER_PIN :: nat where "BUZZER_PIN = 58"

text \<open>The end of \<^verbatim>\<open>generate_defect_stat_csv\<close>: beep and start a new batch.\<close>

definition batch_reset :: "insp \<Rightarrow> insp" where
  "batch_reset s =
     (let s1 = emit (E_Delay 80) (emit (E_Pin BUZZER_PIN False)
                 (emit (E_Delay 80) (emit (E_Pin BUZZER_PIN True) s)))
      in s1\<lparr>defect_counter := replicate DEFECT_CLASS_CNT 0,
            last_detect := replicate DEFAULT_DETECTION_ROUND_CNT 0, detect_round := 0\<rparr>)"

definition csv_filename :: string where "csv_filename = ''/defect_stat.csv''"

definition generate_defect_stat_csv :: "insp_env \<Rightarrow> insp \<Rightarrow> insp res" where
  "generate_defect_stat_csv env s =
     (let fd = fs_open env (length (trace s)) csv_filename; s0 = emit (E_Open csv_filename) s in
      if fd < 0 then Inr s0
      else bind_res (read_round_cnt s0) (\<lambda>n_total.
        bind_res (csv_header (unat n_total)) (\<lambda>header.
        bind_res
          (fold_res (\<lambda>i s1. bind_res (csv_line i (unat n_total) (last_detect s1))
             (\<lambda>line. Inr (emit (E_Write fd line) s1))) [0..<DEFECT_CLASS_CNT]
             (emit (E_Write fd header) s0)) (\<lambda>s2.
        bind_res (onenet_upload_defect_report env n_total (last_detect s2) (emit (E_Close fd) s2))
          (\<lambda>(_, s3).
        let s4 = snd (onenet_upload_defect_count env (defect_counter s3) (emit (E_Delay 300) s3))
        in Inr (batch_reset (emit (E_Delay 200) s4)))))))"

section \<open>The thread\<close>

text \<open>The start of \<^verbatim>\<open>uart_recv_thread\<close>, less the set-up of the UART (\<open>image_uart_setup\<close>).\<close>

definition uart_recv_thread_init :: "insp_env \<Rightarrow> insp \<Rightarrow> insp" where
  "uart_recv_thread_init env s =
     (snd (defect_model_init env s))\<lparr>defect_counter := replicate DEFECT_CLASS_CNT 0,
        last_detect := replicate DEFAULT_DETECTION_ROUND_CNT 0, detect_round := 0\<rparr>"

text \<open>
  The loop body in three pieces, so that other threads and the receive interrupt can run
  in between: inspect a ready frame, compare the round with the batch size, write the
  report.
\<close>

datatype recv_pc = PC_Poll | PC_Decide | PC_Csv

fun uart_recv_step :: "insp_env \<Rightarrow> recv_pc \<times> insp \<Rightarrow> (recv_pc \<times> insp) res" where
  "uart_recv_step env (PC_Poll, s) =
     (if frame_ready (rx s) \<noteq> 0
      then bind_res (defect_inspect_main env (s\<lparr>rx := (rx s)\<lparr>frame_ready := 0\<rparr>\<rparr>))
             (\<lambda>s1. Inr (PC_Decide, s1\<lparr>detect_round := detect_round s1 + 1\<rparr>))
      else Inr (PC_Poll, emit (E_Delay 10) s))"
| "uart_recv_step env (PC_Decide, s) =
     bind_res (read_round_cnt s) (\<lambda>n_total.
       Inr (if detect_round s \<ge> n_total then (PC_Csv, s) else (PC_Poll, emit (E_Delay 10) s)))"
| "uart_recv_step env (PC_Csv, s) =
     bind_res (generate_defect_stat_csv env s) (\<lambda>s1. Inr (PC_Poll, emit (E_Delay 10) s1))"

text \<open>One round of the loop, run without interruption.\<close>

definition uart_recv_round :: "insp_env \<Rightarrow> insp \<Rightarrow> insp res" where
  "uart_recv_round env s =
     (if frame_ready (rx s) \<noteq> 0
      then bind_res (defect_inspect_main env (s\<lparr>rx := (rx s)\<lparr>frame_ready := 0\<rparr>\<rparr>)) (\<lambda>s1.
        let s2 = s1\<lparr>detect_round := detect_round s1 + 1\<rparr> in
        bind_res (read_round_cnt s2) (\<lambda>n_total.
        bind_res (if detect_round s2 \<ge> n_total then generate_defect_stat_csv env s2 else Inr s2)
          (\<lambda>s3. Inr (emit (E_Delay 10) s3))))
      else Inr (emit (E_Delay 10) s))"

text \<open>\<open>mount n\<close>: the result of the \<open>n\<close>-th call of \<^verbatim>\<open>dfs_mount\<close>.\<close>

fun sd_mount_loop :: "(nat \<Rightarrow> int) \<Rightarrow> nat \<Rightarrow> nat \<Rightarrow> int \<times> nat" where
  "sd_mount_loop mount i 0 = (- 1, i)"
| "sd_mount_loop mount i (Suc n) =
     (if mount i = 0 then (0, Suc i) else sd_mount_loop mount (Suc i) n)"

text \<open>The result and the number of attempts to mount.\<close>

definition sd_init :: "registry \<Rightarrow> (nat \<Rightarrow> int) \<Rightarrow> int \<times> nat" where
  "sd_init reg mount =
     (case rt_device_find reg ''sd0'' of None \<Rightarrow> (- 1, 0) | Some _ \<Rightarrow> sd_mount_loop mount 0 3)"

section \<open>The network's answer\<close>

text \<open>What the loop has found after the outputs \<open>ys\<close>.\<close>

definition argmax_inv :: "u8 list \<Rightarrow> int \<Rightarrow> nat \<Rightarrow> bool" where
  [inv_simps]: "argmax_inv ys mv mi \<longleftrightarrow> mi \<le> length ys \<and> mv \<ge> - 128 \<and>
     (\<forall>y \<in> set ys. sint y \<le> mv) \<and> (\<forall>y \<in> set (take mi ys). sint y < mv) \<and>
     (mi < length ys \<and> sint (ys ! mi) = mv \<or> mv = - 128 \<and> mi = 0)"

lemma argmax_inv_step:
  assumes "argmax_inv ys mv mi"
  shows "sint x > mv \<Longrightarrow> argmax_inv (ys @ [x]) (sint x) (length ys)"
    and "\<not> sint x > mv \<Longrightarrow> argmax_inv (ys @ [x]) mv mi"
  using assms by (fastforce simp: inv_simps nth_append)+

lemma argmax_loop_inv:
  "argmax_inv ys mv mi \<Longrightarrow>
   \<exists>mv'. argmax_inv (ys @ xs) mv' (argmax_loop xs (length ys) mv mi)"
proof (induction xs arbitrary: ys mv mi)
  case (Cons x xs)
  show ?case
    using Cons.IH[of "ys @ [x]" "sint x" "length ys"] Cons.IH[of "ys @ [x]" mv mi]
      argmax_inv_step[OF Cons.prems, of x] by auto
qed auto

lemma argmax_inv_final:
  assumes "argmax_inv xs mv m" and "xs \<noteq> []"
  shows "m < length xs \<and> (\<forall>x \<in> set xs. sint x \<le> sint (xs ! m)) \<and>
    (\<forall>x \<in> set (take m xs). sint x < sint (xs ! m))"
proof (cases "mv = - 128 \<and> m = 0")
  case True
  have "sint (xs ! 0) \<ge> - 128" using sint_ge[of "xs ! 0"] by simp
  with True assms show ?thesis by (fastforce simp: inv_simps)
next
  case False
  with assms(1) show ?thesis by (auto simp: inv_simps)
qed

lemma max_index_props:
  assumes "length out = DEFECT_CLASS_CNT"
  shows "max_index out < DEFECT_CLASS_CNT \<and>
    (\<forall>x \<in> set out. sint x \<le> sint (out ! max_index out)) \<and>
    (\<forall>x \<in> set (take (max_index out) out). sint x < sint (out ! max_index out))"
proof -
  have "argmax_inv [] (- 128) 0" by (simp add: inv_simps)
  from argmax_loop_inv[OF this, of out] obtain mv where "argmax_inv out mv (max_index out)"
    using assms by (auto simp: max_index_def)
  moreover have "out \<noteq> []" using assms by (auto simp: DEFECT_CLASS_CNT_def)
  ultimately show ?thesis using argmax_inv_final[of out mv "max_index out"] assms by simp
qed

text \<open>
  The class chosen for an image is the first one with the greatest network output,
  the outputs being read as signed 8-bit numbers: no class has a greater output and
  every class before it has a smaller one, also when all outputs are at the minimum.
\<close>

theorem max_index_correct:
  assumes "length out = DEFECT_CLASS_CNT"
  shows "max_index out < DEFECT_CLASS_CNT \<and>
    (\<forall>x \<in> set out. sint x \<le> sint (out ! max_index out)) \<and>
    (\<forall>x \<in> set (take (max_index out) out). sint x < sint (out ! max_index out))"
  using assms by (rule max_index_props)

theorem max_index_correct_witness:
  "max_index [0x80, 3, 0xFF, 7, 0, 7, 1] = 3 \<and> sint (0xFF :: u8) \<le> sint (7 :: u8) \<and>
   sint (3 :: u8) < sint (7 :: u8)"
proof -
  have "max_index [0x80, 3, 0xFF, 7, 0, 7, 1] = 3"
    by (simp add: max_index_def DEFECT_CLASS_CNT_def)
  with max_index_correct[of "[0x80, 3, 0xFF, 7, 0, 7, 1]"] show ?thesis
    by (simp add: DEFECT_CLASS_CNT_def)
qed

section \<open>The CSV file and the reports of a batch\<close>

text \<open>What the file and the reports should say of a batch with the classes \<open>cs\<close>.\<close>

fun intercalate :: "string \<Rightarrow> string list \<Rightarrow> string" where
  "intercalate sep [] = []"
| "intercalate sep [x] = x"
| "intercalate sep (x # y # ys) = x @ sep @ intercalate sep (y # ys)"

definition csv_header_spec :: "nat \<Rightarrow> string" where
  "csv_header_spec n = ''type,'' @ intercalate '','' (take n round_names) @ [CHR 0x0A]"

definition csv_row_spec :: "nat list \<Rightarrow> nat \<Rightarrow> string" where
  "csv_row_spec cs i =
     defect_names ! i @ concat (map (\<lambda>c. if c = i then csv_mark else '','') cs) @ [CHR 0x0A]"

definition report_spec :: "nat list \<Rightarrow> cJSON" where
  "report_spec cs =
     cJSON_Object [(''total'', cJSON_Number (double_of_int (int (length cs))) (int (length cs))),
       (''results'', cJSON_Array (map (\<lambda>c. cJSON_String (defect_names ! c)) cs))]"

definition counts :: "nat list \<Rightarrow> u16 list" where
  "counts cs = map (\<lambda>i. of_nat (count_list cs i)) [0..<DEFECT_CLASS_CNT]"

definition count_spec :: "nat list \<Rightarrow> cJSON" where
  "count_spec cs =
     cJSON_Object (map (\<lambda>i. (defect_names ! i,
       cJSON_Number (double_of_int (int (count_list cs i))) (int (count_list cs i)))) [0..<DEFECT_CLASS_CNT])"

definition payload_spec :: "(rat \<Rightarrow> string) \<Rightarrow> u32 \<Rightarrow> string \<Rightarrow> cJSON \<Rightarrow> string" where
  "payload_spec g r name v =
     cJSON_PrintUnformatted g (cJSON_Object [(''id'', cJSON_String (string_of_nat (unat r))),
       (''params'', cJSON_Object [(name,
          cJSON_Object [(''value'', cJSON_String (cJSON_PrintUnformatted g v))])])])"

definition batch_effects :: "(rat \<Rightarrow> string) \<Rightarrow> int \<Rightarrow> u32 \<Rightarrow> u32 \<Rightarrow> nat list \<Rightarrow> cJSON \<Rightarrow> effect list" where
  "batch_effects g fd r1 r2 cs cv =
     E_Open csv_filename # E_Write fd (csv_header_spec (length cs)) #
     map (\<lambda>i. E_Write fd (csv_row_spec cs i)) [0..<DEFECT_CLASS_CNT] @
     [E_Close fd, E_Publish onenet_topic (payload_spec g r1 ''defect_report'' (report_spec cs)),
      E_Delay 300, E_Publish onenet_topic (payload_spec g r2 ''defect_count'' cv),
      E_Delay 200, E_Pin BUZZER_PIN True, E_Delay 80, E_Pin BUZZER_PIN False, E_Delay 80]"

lemma length_id: "length (string_of_nat (unat (r::u32))) \<le> 11"
proof -
  have "unat r < 10 ^ Suc 9" by (rule order.strict_trans2[OF unsigned_less]) simp
  from length_string_of_nat[OF this] show ?thesis by simp
qed

lemma csv_header_ok: "n \<le> 10 \<Longrightarrow> csv_header n = Inr (csv_header_spec n)"
proof -
  assume "n \<le> 10"
  then have "n \<in> {0, 1, 2, 3, 4, 5, 6, 7, 8, 9, 10}"
    unfolding insert_iff empty_iff by presburger
  then show ?thesis
    by (elim insertE emptyE; hypsubst)
      (simp_all add: csv_header_def csv_header_spec_def round_names_def strcat_def upt_rec)
qed

text \<open>Rows never fill their buffer: ten marks of four bytes behind a name.\<close>

lemma csv_line_loop:
  assumes "k \<le> length results" and "k \<le> 10" and "i < DEFECT_CLASS_CNT"
  shows "fold_res (\<lambda>j l. if j < length results
      then strcat 256 l (if unat (results ! j) = i then csv_mark else '','')
      else Inl Out_Of_Bounds) [0..<k] (defect_names ! i) =
    Inr (defect_names ! i @ concat (map (\<lambda>c. if unat c = i then csv_mark else '','') (take k results)))"
  using assms(1,2)
proof (induction k)
  case 0
  then show ?case by simp
next
  case (Suc k)
  let ?m = "\<lambda>c. if unat c = i then csv_mark else '',''"
  have len: "length (concat (map ?m xs)) \<le> 4 * length xs" for xs
    by (induction xs) (auto simp: csv_mark_def)
  have "i \<in> {0, 1, 2, 3, 4, 5, 6}"
    using assms(3) by (auto simp: DEFECT_CLASS_CNT_def)
  then have "length (defect_names ! i) \<le> 9" by (auto simp: defect_names_def)
  moreover have "length (?m (results ! k)) \<le> 4" by (simp add: csv_mark_def)
  moreover have "length (concat (map ?m (take k results))) \<le> 4 * 9"
    using len[of "take k results"] Suc.prems by simp
  ultimately have "length (defect_names ! i) + length (concat (map ?m (take k results))) +
      length (?m (results ! k)) < 256"
    by linarith
  then have "strcat 256 (defect_names ! i @ concat (map ?m (take k results))) (?m (results ! k)) =
     Inr (defect_names ! i @ concat (map ?m (take k results)) @ ?m (results ! k))"
    by (simp add: strcat_def)
  with Suc show ?case
    by (simp add: fold_res_append take_Suc_conv_app_nth)
qed

text \<open>How the array \<^verbatim>\<open>last_detect\<close> represents the classes of the images seen so far.\<close>

definition round_array :: "nat list \<Rightarrow> u8 list" where
  "round_array cs = map of_nat cs @ replicate (DEFAULT_DETECTION_ROUND_CNT - length cs) 0"

lemma unat_of_class: "c < DEFECT_CLASS_CNT \<Longrightarrow> unat (of_nat c :: u8) = c"
  by (simp add: DEFECT_CLASS_CNT_def unat_of_nat)

lemma round_array_classes:
  "set cs \<subseteq> {..<DEFECT_CLASS_CNT} \<Longrightarrow> map unat (take (length cs) (round_array cs)) = cs"
  by (auto simp: round_array_def unat_of_class intro!: map_idI)

lemma csv_line_ok:
  assumes "n \<le> length results" and "n \<le> 10" and "i < DEFECT_CLASS_CNT"
  shows "csv_line i n results = Inr (csv_row_spec (map unat (take n results)) i)"
proof -
  let ?m = "\<lambda>c::u8. if unat c = i then csv_mark else '',''"
  have "length (concat (map ?m xs)) \<le> 4 * length xs" for xs
    by (induction xs) (auto simp: csv_mark_def)
  from this[of "take n results"] assms(2) have "length (concat (map ?m (take n results))) \<le> 40"
    by simp
  moreover have "i \<in> {0, 1, 2, 3, 4, 5, 6}"
    using assms(3) by (auto simp: DEFECT_CLASS_CNT_def)
  then have "length (defect_names ! i) \<le> 9" by (auto simp: defect_names_def)
  ultimately have "length (defect_names ! i) + length (concat (map ?m (take n results))) + 1 < 256"
    by linarith
  then show ?thesis
    unfolding csv_line_def csv_line_loop[OF assms]
    by (simp add: csv_row_spec_def strcat_def comp_def)
qed

definition classes_ok :: "u8 list \<Rightarrow> bool" where
  [inv_simps]: "classes_ok results \<longleftrightarrow> (\<forall>x \<in> set results. unat x < DEFECT_CLASS_CNT)"

lemma report_loop:
  assumes "k \<le> length results" and "classes_ok results"
  shows "fold_res (\<lambda>i arr. bind_res (result_name results i)
      (\<lambda>nm. Inr (add_item_to_array arr (cJSON_CreateString nm)))) [0..<k] cJSON_CreateArray =
    Inr (cJSON_Array (map (\<lambda>c. cJSON_String (defect_names ! unat c)) (take k results)))"
  using assms(1)
proof (induction k)
  case (Suc k)
  then have "results ! k \<in> set results" by simp
  with assms(2) have "unat (results ! k) < DEFECT_CLASS_CNT" by (auto simp: inv_simps)
  then have "result_name results k = Inr (defect_names ! unat (results ! k))"
    using Suc.prems by (simp add: result_name_def DEFECT_CLASS_CNT_def defect_names_def)
  with Suc show ?case
    by (simp add: fold_res_append take_Suc_conv_app_nth cJSON_CreateString_def)
qed (simp add: cJSON_CreateArray_def)

lemma CreateNumber_small:
  "0 \<le> n \<Longrightarrow> n < 65536 \<Longrightarrow> cJSON_CreateNumber (double_of_int n) = cJSON_Number (double_of_int n) n"
  by (simp add: cJSON_CreateNumber_def saturate_double_of_int INT_MAX_def INT_MIN_def)

lemma report_value_ok:
  assumes "unat n_total \<le> length results" and "classes_ok results"
  shows "defect_report_value n_total results = Inr (report_spec (map unat (take (unat n_total) results)))"
proof -
  have "uint n_total < 65536" by (rule order.strict_trans2[OF uint_lt2p]) simp
  then have "cJSON_CreateNumber (double_of_int (uint n_total)) = cJSON_Number (double_of_int (uint n_total)) (uint n_total)"
    by (intro CreateNumber_small) auto
  then show ?thesis
    using assms(1) unfolding defect_report_value_def Let_def report_loop[OF assms]
      report_spec_def cJSON_AddNumberToObject_def cJSON_CreateObject_def
    by (simp add: min_absorb2 comp_def)
qed

lemma count_value_ok:
  assumes "length cs \<le> 10"
  shows "defect_count_value (counts cs) = count_spec cs"
proof -
  have le: "count_list cs i \<le> 10" for i
    using count_le_length[of cs i] assms by linarith
  have u: "uint (of_nat (count_list cs i) :: u16) = int (count_list cs i)"
    "cJSON_CreateNumber (double_of_int (int (count_list cs i))) =
       cJSON_Number (double_of_int (int (count_list cs i))) (int (count_list cs i))" for i
    using le[of i] CreateNumber_small[of "int (count_list cs i)"]
    by (simp_all add: uint_nat unat_of_nat)
  have "[0..<DEFECT_CLASS_CNT] = [0, 1, 2, 3, 4, 5, 6]"
    by (simp add: DEFECT_CLASS_CNT_def upt_rec)
  then show ?thesis
    by (simp add: defect_count_value_def counts_def count_spec_def cJSON_AddNumberToObject_def
        cJSON_CreateObject_def u)
qed

lemma publish_property_eq:
  "onenet_publish_property env name v s =
     (mqtt_publish env (length (trace s)) onenet_topic
        (payload_spec (fmt_g env) (rnd env (length (trace s))) name v),
      emit (E_Publish onenet_topic (payload_spec (fmt_g env) (rnd env (length (trace s))) name v)) s)"
  using length_id[of "rnd env (length (trace s))"]
  by (simp add: onenet_publish_property_def onejson_property_def payload_spec_def
      cJSON_AddStringToObject_def cJSON_CreateObject_def cJSON_CreateString_def Let_def)

lemma csv_rows_loop:
  assumes "n \<le> length (last_detect s)" and "n \<le> 10" and "k \<le> DEFECT_CLASS_CNT"
  shows "fold_res (\<lambda>i s1. bind_res (csv_line i n (last_detect s1))
      (\<lambda>line. Inr (emit (E_Write fd line) s1))) [0..<k] s =
    Inr (s\<lparr>trace := trace s @
      map (\<lambda>i. E_Write fd (csv_row_spec (map unat (take n (last_detect s))) i)) [0..<k]\<rparr>)"
  using assms(3)
proof (induction k)
  case (Suc k)
  then show ?case
    using csv_line_ok[OF assms(1,2), of k] by (simp add: fold_res_append emit_def)
qed simp

lemma generate_csv_ok:
  assumes "0 \<le> fs_open env (length (trace s)) csv_filename" and "detection_round_mutex s"
    and "unat (detection_round_cnt s) = n" and "n \<le> 10" and "n \<le> length (last_detect s)"
    and "classes_ok (last_detect s)" and "cs = map unat (take n (last_detect s))"
  shows "generate_defect_stat_csv env s =
    Inr (s\<lparr>trace := trace s @ batch_effects (fmt_g env) (fs_open env (length (trace s)) csv_filename)
             (rnd env (length (trace s) + 10)) (rnd env (length (trace s) + 12)) cs
             (defect_count_value (defect_counter s)),
           defect_counter := replicate DEFECT_CLASS_CNT 0,
           last_detect := replicate DEFAULT_DETECTION_ROUND_CNT 0, detect_round := 0\<rparr>)"
proof -
  let ?fd = "fs_open env (length (trace s)) csv_filename" and ?cv = "defect_count_value (defect_counter s)"
  let ?s0 = "emit (E_Write ?fd (csv_header_spec n)) (emit (E_Open csv_filename) s)"
  let ?s2 = "?s0\<lparr>trace := trace ?s0 @ map (\<lambda>i. E_Write ?fd (csv_row_spec cs i)) [0..<DEFECT_CLASS_CNT]\<rparr>"
  have ld: "last_detect ?s0 = last_detect s" by (simp add: emit_def)
  have "n = length cs" using assms(5,7) by simp
  have "generate_defect_stat_csv env s =
    (let s3 = snd (onenet_publish_property env ''defect_report'' (report_spec cs) (emit (E_Close ?fd) ?s2));
         s4 = snd (onenet_publish_property env ''defect_count'' ?cv (emit (E_Delay 300) s3))
     in Inr (batch_reset (emit (E_Delay 200) s4)))"
    using assms(1-6) csv_rows_loop[of n ?s0, OF _ assms(4) order_refl, of ?fd]
      report_value_ok[of "detection_round_cnt s" "last_detect s"]
    by (simp add: generate_defect_stat_csv_def read_round_cnt_def csv_header_ok[OF assms(4)]
        onenet_upload_defect_report_def onenet_upload_defect_count_def assms(7) ld
        publish_property_eq Let_def emit_def)
  also have "\<dots> = (Inr (s\<lparr>trace := trace s @ batch_effects (fmt_g env) ?fd
             (rnd env (length (trace s) + 10)) (rnd env (length (trace s) + 12)) cs ?cv,
           defect_counter := replicate DEFECT_CLASS_CNT 0,
           last_detect := replicate DEFAULT_DETECTION_ROUND_CNT 0, detect_round := 0\<rparr>) :: insp res)"
  proof -
    have n: "Suc (Suc (Suc (length (trace s) + DEFECT_CLASS_CNT))) = length (trace s) + 10"
      "Suc (Suc (Suc (Suc (Suc (length (trace s) + DEFECT_CLASS_CNT))))) = length (trace s) + 12"
      "12 + length (trace s) = length (trace s) + 12"
      by (simp_all add: DEFECT_CLASS_CNT_def)
    show ?thesis
      by (simp add: publish_property_eq Let_def batch_reset_def batch_effects_def emit_def n
          \<open>n = length cs\<close>)
  qed
  finally show ?thesis .
qed

section \<open>A whole batch\<close>

text \<open>The camera sends a frame with the image \<open>img\<close>.\<close>

definition recv_frame :: "u8 list \<Rightarrow> insp \<Rightarrow> insp" where
  "recv_frame img s = s\<lparr>rx := foldl rx_byte (rx s) (FRAME_HEAD # img @ FRAME_TAIL_SEQ)\<rparr>"

fun run_images :: "insp_env \<Rightarrow> u8 list list \<Rightarrow> insp \<Rightarrow> insp res" where
  "run_images env [] s = Inr s"
| "run_images env (img # imgs) s =
     bind_res (uart_recv_round env (recv_frame img s)) (run_images env imgs)"

definition classify :: "insp_env \<Rightarrow> nat option \<Rightarrow> u8 list \<Rightarrow> nat" where
  "classify env h img = max_index (nn_run env h (map clamp_val img))"

text \<open>A batch of \<open>n\<close> images is under way and the images so far had the classes \<open>cs\<close>.\<close>

definition batch_at :: "nat \<Rightarrow> nat list \<Rightarrow> insp \<Rightarrow> bool" where
  [inv_simps]: "batch_at n cs s \<longleftrightarrow> rx_inv (rx s) \<and> frame_start (rx s) = 0 \<and>
     length (nnom_input_data s) = IMAGE_SIZE \<and> detection_round_mutex s \<and>
     detection_round_cnt s = of_nat n \<and> detect_round s = of_nat (length cs) \<and>
     last_detect s = round_array cs \<and> defect_counter s = counts cs"

lemma counts_snoc:
  "c < DEFECT_CLASS_CNT \<Longrightarrow> (counts cs)[c := counts cs ! c + 1] = counts (cs @ [c])"
  by (rule nth_equalityI) (auto simp: counts_def nth_list_update count_list_append)

lemma round_array_snoc:
  assumes "length cs < 10"
  shows "(round_array cs)[length cs := of_nat c] = round_array (cs @ [c])"
  using assms
  by (simp add: round_array_def list_update_append DEFAULT_DETECTION_ROUND_CNT_def
      Suc_diff_Suc[symmetric] del: replicate_Suc) simp

lemma length_round_array: "length cs \<le> 10 \<Longrightarrow> length (round_array cs) = 10"
  by (simp add: round_array_def DEFAULT_DETECTION_ROUND_CNT_def)

lemma classes_round_array: "set cs \<subseteq> {..<DEFECT_CLASS_CNT} \<Longrightarrow> classes_ok (round_array cs)"
  by (auto simp: inv_simps round_array_def unat_of_class) (simp add: DEFECT_CLASS_CNT_def)

lemma of_nat_u8_less: "a < 256 \<Longrightarrow> b < 256 \<Longrightarrow> (of_nat a < (of_nat b :: u8)) = (a < b)"
  by (simp add: word_less_nat_alt unat_of_nat)

text \<open>The state in which the thread has inspected the image and advanced the round.\<close>

lemma inspect_image:
  assumes "batch_at n cs s" and "length cs < n" and "n \<le> 10" and "length img = IMAGE_SIZE"
    and "c = classify env (defect_model s) img"
    and "length (nn_run env (defect_model s) (map clamp_val img)) = DEFECT_CLASS_CNT"
  shows "\<exists>s1. defect_inspect_main env ((recv_frame img s)\<lparr>rx := (rx (recv_frame img s))\<lparr>frame_ready := 0\<rparr>\<rparr>)
       = Inr s1 \<and> batch_at n (cs @ [c]) (s1\<lparr>detect_round := detect_round s1 + 1\<rparr>) \<and>
     trace s1 = trace s \<and> defect_model s1 = defect_model s \<and> c < DEFECT_CLASS_CNT"
proof -
  let ?r = "foldl rx_byte (rx s) (FRAME_HEAD # img @ FRAME_TAIL_SEQ)"
  have r: "rx_inv ?r" "frame_start ?r = 0" "image_buffer ?r = map clamp_val img"
    using rx_frame[of "rx s" img ?r] assms(1,4) by (auto simp: inv_simps)
  have c: "c < DEFECT_CLASS_CNT" "max_index (nn_run env (defect_model s) (map clamp_val img)) = c"
    using max_index_props[OF assms(6)] assms(5) by (simp_all add: classify_def)
  have lt: "detect_round s < detection_round_cnt s" "unat (detect_round s) = length cs"
    using assms(1,2,3) by (simp_all add: batch_at_def of_nat_u8_less unat_of_nat)
  let ?s1 = "s\<lparr>rx := ?r\<lparr>frame_ready := 0\<rparr>, nnom_input_data := map clamp_val img,
     nnom_output_data := nn_run env (defect_model s) (map clamp_val img),
     last_detect := round_array (cs @ [c]), defect_counter := counts (cs @ [c])\<rparr>"
  have "defect_inspect_main env ((recv_frame img s)\<lparr>rx := (rx (recv_frame img s))\<lparr>frame_ready := 0\<rparr>\<rparr>) = Inr ?s1"
    using assms(1-4,6) r(3) lt c round_array_snoc[of cs c] counts_snoc[OF c(1), of cs]
    by (simp add: defect_inspect_main_def prepare_input_data_def parse_output_result_def recv_frame_def
        read_round_cnt_def batch_at_def Let_def length_round_array del: foldl_Cons)
  moreover have "batch_at n (cs @ [c]) (?s1\<lparr>detect_round := detect_round ?s1 + 1\<rparr>)"
    using assms(1,4) r(1,2) by (simp add: batch_at_def del: foldl_Cons) (simp add: rx_inv_def)
  ultimately show ?thesis using c(1) by (intro exI[of _ ?s1]) simp
qed

lemma round_middle:
  assumes "batch_at n cs s" and "Suc (length cs) < n" and "n \<le> 10" and "length img = IMAGE_SIZE"
    and "c = classify env (defect_model s) img" and "\<And>x. length (nn_run env (defect_model s) x) = DEFECT_CLASS_CNT"
  shows "\<exists>s'. uart_recv_round env (recv_frame img s) = Inr s' \<and> batch_at n (cs @ [c]) s' \<and>
    trace s' = trace s @ [E_Delay 10] \<and> defect_model s' = defect_model s \<and> c < DEFECT_CLASS_CNT"
proof -
  obtain s1 where s1: "defect_inspect_main env
      ((recv_frame img s)\<lparr>rx := (rx (recv_frame img s))\<lparr>frame_ready := 0\<rparr>\<rparr>) = Inr s1"
    "batch_at n (cs @ [c]) (s1\<lparr>detect_round := detect_round s1 + 1\<rparr>)"
    "trace s1 = trace s" "defect_model s1 = defect_model s" "c < DEFECT_CLASS_CNT"
    using inspect_image[OF assms(1) _ assms(3-5)] assms(2,6) by auto
  have "frame_ready (rx (recv_frame img s)) = 1"
    using rx_frame[of "rx s" img] assms(1,4) by (simp add: recv_frame_def batch_at_def)
  moreover have "\<not> (of_nat n :: u8) \<le> of_nat (Suc (length cs))"
    using assms(2,3) by (simp add: not_le of_nat_u8_less del: of_nat_Suc)
  then have "\<not> detection_round_cnt s1 \<le> detect_round s1 + 1" "detection_round_mutex s1"
    using s1(2) by (simp_all add: batch_at_def add.commute)
  ultimately have "uart_recv_round env (recv_frame img s) =
      Inr (emit (E_Delay 10) (s1\<lparr>detect_round := detect_round s1 + 1\<rparr>))"
    using s1(1) by (simp add: uart_recv_round_def read_round_cnt_def)
  with s1 show ?thesis
    by (intro exI[of _ "emit (E_Delay 10) (s1\<lparr>detect_round := detect_round s1 + 1\<rparr>)"])
      (simp add: emit_def batch_at_def)
qed

lemma round_last:
  assumes "batch_at n cs s" and "Suc (length cs) = n" and "n \<le> 10" and "length img = IMAGE_SIZE"
    and "c = classify env (defect_model s) img" and "\<And>x. length (nn_run env (defect_model s) x) = DEFECT_CLASS_CNT"
    and "\<And>k f. 0 \<le> fs_open env k f" and "set cs \<subseteq> {..<DEFECT_CLASS_CNT}"
  shows "\<exists>s' m r1 r2. uart_recv_round env (recv_frame img s) = Inr s' \<and> batch_at n [] s' \<and>
    trace s' = trace s @ batch_effects (fmt_g env) (fs_open env m csv_filename) r1 r2 (cs @ [c]) (count_spec (cs @ [c])) @ [E_Delay 10] \<and>
    defect_model s' = defect_model s"
proof -
  obtain s1 where s1: "defect_inspect_main env
      ((recv_frame img s)\<lparr>rx := (rx (recv_frame img s))\<lparr>frame_ready := 0\<rparr>\<rparr>) = Inr s1"
    "batch_at n (cs @ [c]) (s1\<lparr>detect_round := detect_round s1 + 1\<rparr>)"
    "trace s1 = trace s" "defect_model s1 = defect_model s" "c < DEFECT_CLASS_CNT"
    using inspect_image[OF assms(1) _ assms(3-5)] assms(2,6) by auto
  let ?s2 = "s1\<lparr>detect_round := detect_round s1 + 1\<rparr>"
  let ?n = "length (trace s)" and ?z = "replicate DEFECT_CLASS_CNT 0"
  let ?s3 = "?s2\<lparr>trace := trace s @ batch_effects (fmt_g env) (fs_open env ?n csv_filename)
      (rnd env (?n + 10)) (rnd env (?n + 12)) (cs @ [c]) (count_spec (cs @ [c])), defect_counter := ?z,
      last_detect := replicate DEFAULT_DETECTION_ROUND_CNT 0, detect_round := 0\<rparr>"
  have "generate_defect_stat_csv env ?s2 = Inr ?s3"
  proof -
    have cl: "set (cs @ [c]) \<subseteq> {..<DEFECT_CLASS_CNT}" and le: "length (cs @ [c]) \<le> 10"
      using assms(2,3,8) s1(5) by auto
    have ld: "last_detect s1 = round_array (cs @ [c])" and ct: "defect_counter s1 = counts (cs @ [c])"
      and mu: "detection_round_mutex s1" and cnt: "unat (detection_round_cnt s1) = n"
      using s1(2) assms(3) by (simp_all add: batch_at_def unat_of_nat)
    have cls: "map unat (take n (last_detect s1)) = cs @ [c]"
      using round_array_classes[OF cl] assms(2) by (simp add: ld)
    show ?thesis
      by (subst generate_csv_ok[of env ?s2 n "cs @ [c]"])
        (use assms(2,3,7) s1(3) mu cnt cls ld ct classes_round_array[OF cl] length_round_array[OF le]
          count_value_ok[OF le] in simp_all)
  qed
  moreover have "frame_ready (rx (recv_frame img s)) = 1"
    using rx_frame[of "rx s" img] assms(1,4) by (simp add: recv_frame_def batch_at_def)
  moreover have "detection_round_cnt s1 \<le> detect_round s1 + 1" "detection_round_mutex s1"
    using s1(2) assms(2) by (simp_all add: batch_at_def)
  ultimately have "uart_recv_round env (recv_frame img s) = Inr (emit (E_Delay 10) ?s3)"
    using s1(1) by (simp add: uart_recv_round_def read_round_cnt_def)
  moreover have "batch_at n [] (emit (E_Delay 10) ?s3)"
    using s1(2) by (simp add: batch_at_def emit_def round_array_def counts_def map_replicate_const)
  moreover have "trace (emit (E_Delay 10) ?s3) = trace s @ batch_effects (fmt_g env)
      (fs_open env ?n csv_filename) (rnd env (?n + 10)) (rnd env (?n + 12)) (cs @ [c]) (count_spec (cs @ [c])) @ [E_Delay 10]"
    "defect_model (emit (E_Delay 10) ?s3) = defect_model s"
    using s1(4) by (simp_all add: emit_def)
  ultimately show ?thesis by blast
qed

lemma run_images_batch:
  assumes "batch_at n cs s" and "length cs + length imgs = n" and "imgs \<noteq> []" and "n \<le> 10"
    and "\<forall>img \<in> set imgs. length img = IMAGE_SIZE" and "h = defect_model s"
    and "\<And>x. length (nn_run env h x) = DEFECT_CLASS_CNT"
    and "\<And>k f. 0 \<le> fs_open env k f" and "set cs \<subseteq> {..<DEFECT_CLASS_CNT}"
  shows "\<exists>s' m r1 r2. run_images env imgs s = Inr s' \<and> batch_at n [] s' \<and> defect_model s' = h \<and>
    trace s' = trace s @ replicate (length imgs - 1) (E_Delay 10) @
      batch_effects (fmt_g env) (fs_open env m csv_filename) r1 r2 (cs @ map (classify env h) imgs)
        (count_spec (cs @ map (classify env h) imgs)) @ [E_Delay 10]"
  using assms
proof (induction imgs arbitrary: cs s)
  case (Cons img imgs)
  let ?c = "classify env h img"
  have img: "length img = IMAGE_SIZE" using Cons.prems(5) by simp
  have nn: "\<And>x. length (nn_run env (defect_model s) x) = DEFECT_CLASS_CNT"
    using Cons.prems(6,7) by simp
  show ?case
  proof (cases "imgs = []")
    case True
    then have "Suc (length cs) = n" using Cons.prems(2) by simp
    from round_last[OF Cons.prems(1) this Cons.prems(4) img refl nn Cons.prems(8,9)]
    obtain s' m r1 r2 where "uart_recv_round env (recv_frame img s) = Inr s'"
      "batch_at n [] s'" "defect_model s' = h"
      "trace s' = trace s @ batch_effects (fmt_g env) (fs_open env m csv_filename) r1 r2 (cs @ [?c]) (count_spec (cs @ [?c])) @ [E_Delay 10]"
      unfolding Cons.prems(6) by blast
    with True show ?thesis by auto
  next
    case False
    then have "Suc (length cs) < n" using Cons.prems(2) by (cases imgs) auto
    from round_middle[OF Cons.prems(1) this Cons.prems(4) img refl nn]
    obtain s' where s': "uart_recv_round env (recv_frame img s) = Inr s'"
      "batch_at n (cs @ [?c]) s'" "trace s' = trace s @ [E_Delay 10]" "h = defect_model s'"
      "?c < DEFECT_CLASS_CNT"
      unfolding Cons.prems(6) by metis
    have r: "replicate (length imgs) e = e # replicate (length imgs - 1) e" for e :: effect
      using False by (cases imgs) auto
    have "set (cs @ [?c]) \<subseteq> {..<DEFECT_CLASS_CNT}" using Cons.prems(9) s'(5) by simp
    from Cons.IH[OF s'(2) _ False Cons.prems(4) _ s'(4) Cons.prems(7,8) this] Cons.prems(2,5)
    obtain s'' m r1 r2 where "run_images env imgs s' = Inr s''" "batch_at n [] s''" "defect_model s'' = h"
      "trace s'' = trace s' @ replicate (length imgs - 1) (E_Delay 10) @
        batch_effects (fmt_g env) (fs_open env m csv_filename) r1 r2 ((cs @ [?c]) @ map (classify env h) imgs)
          (count_spec ((cs @ [?c]) @ map (classify env h) imgs)) @ [E_Delay 10]"
      by auto
    with s'(1,3) show ?thesis
      by (intro exI[of _ s''] exI[of _ m] exI[of _ r1] exI[of _ r2]) (simp add: r)
  qed
qed simp

text \<open>
  A batch is inspected and reported correctly. When a batch of at most ten images is
  announced and the images arrive as frames one per round of the thread, nothing faults;
  with the last image, and not before, the thread writes a CSV file whose header names
  the images and whose row for a class marks exactly the images of that class, then
  publishes the list of classes and the count of every class, beeps, and is ready for
  the next batch with all counters cleared.
\<close>

theorem batch_reported:
  assumes "batch_at (length imgs) [] s" and "imgs \<noteq> []" and "length imgs \<le> 10"
    and "\<forall>img \<in> set imgs. length img = IMAGE_SIZE"
    and "\<And>x. length (nn_run env (defect_model s) x) = DEFECT_CLASS_CNT"
    and "\<And>k f. 0 \<le> fs_open env k f"
  shows "\<exists>s' m r1 r2. run_images env imgs s = Inr s' \<and> batch_at (length imgs) [] s' \<and>
    trace s' = trace s @ replicate (length imgs - 1) (E_Delay 10) @
      batch_effects (fmt_g env) (fs_open env m csv_filename) r1 r2 (map (classify env (defect_model s)) imgs)
        (count_spec (map (classify env (defect_model s)) imgs)) @ [E_Delay 10]"
  using run_images_batch[OF assms(1) _ assms(2-4) refl assms(5,6)] by auto

definition demo_env :: insp_env where
  "demo_env = \<lparr>nn_create = Some 1, nn_run = (\<lambda>_ _. [0, 0, 5, 0, 0x80, 0, 0]), rnd = (\<lambda>_. 7),
     mqtt_publish = (\<lambda>_ _ _. 0), fs_open = (\<lambda>_ _. 3), fmt_g = (\<lambda>_. [])\<rparr>"

definition demo_state :: insp where
  "demo_state = uart_recv_thread_init demo_env
     ((snd (detection_mutex_init True insp_init))\<lparr>detection_round_cnt := 2\<rparr>)"

lemma demo_state_batch: "batch_at 2 [] demo_state \<and> trace demo_state = []"
  by (simp add: demo_state_def uart_recv_thread_init_def defect_model_init_def detection_mutex_init_def
      insp_init_def batch_at_def rx_state_init_inv round_array_def counts_def map_replicate_const)
    (simp add: rx_state_init_def)

theorem batch_reported_witness:
  "\<exists>s' r1 r2. run_images demo_env (replicate 2 (replicate IMAGE_SIZE 9)) demo_state = Inr s' \<and>
     batch_at 2 [] s' \<and>
     trace s' = E_Delay 10 # batch_effects (\<lambda>_. []) 3 r1 r2 [2, 2] (count_spec [2, 2]) @ [E_Delay 10]"
proof -
  have "classify demo_env h img = 2" for h img
    by (simp add: classify_def demo_env_def max_index_def DEFECT_CLASS_CNT_def)
  then show ?thesis
    using batch_reported[of "replicate 2 (replicate IMAGE_SIZE 9)" demo_state demo_env] demo_state_batch
    by (simp add: demo_env_def DEFECT_CLASS_CNT_def numeral_2_eq_2)
qed

section \<open>Safety under interleaving\<close>

text \<open>
  Between two pieces of the loop body the interrupt may deliver a byte and the command
  thread may announce another batch size.
\<close>

inductive insp_reach :: "insp_env \<Rightarrow> recv_pc \<times> insp \<Rightarrow> bool" for env where
  init: "insp_reach env (PC_Poll, uart_recv_thread_init env (snd (detection_mutex_init True insp_init)))"
| thread: "insp_reach env c \<Longrightarrow> uart_recv_step env c = Inr c' \<Longrightarrow> insp_reach env c'"
| rx_byte: "insp_reach env (pc, s) \<Longrightarrow> insp_reach env (pc, s\<lparr>rx := rx_byte (rx s) b\<rparr>)"
| round_cnt: "insp_reach env (pc, s) \<Longrightarrow> n \<le> 10 \<Longrightarrow> insp_reach env (pc, s\<lparr>detection_round_cnt := n\<rparr>)"

definition insp_inv :: "insp \<Rightarrow> bool" where
  [inv_simps]: "insp_inv s \<longleftrightarrow> rx_inv (rx s) \<and> detection_round_mutex s \<and> detection_round_cnt s \<le> 10 \<and>
     length (last_detect s) = 10 \<and> classes_ok (last_detect s) \<and> length (defect_counter s) = 7 \<and>
     length (nnom_input_data s) = IMAGE_SIZE"

lemma insp_inv_init:
  "insp_inv (uart_recv_thread_init env (snd (detection_mutex_init True insp_init)))"
  by (simp add: insp_inv_def uart_recv_thread_init_def defect_model_init_def detection_mutex_init_def
      insp_init_def rx_state_init_inv DEFAULT_DETECTION_ROUND_CNT_def DEFECT_CLASS_CNT_def)
    (simp add: classes_ok_def DEFECT_CLASS_CNT_def)

lemma insp_inv_emit [simp]: "insp_inv (emit e s) = insp_inv s"
  by (simp add: insp_inv_def emit_def)

lemma classes_ok_update: "classes_ok xs \<Longrightarrow> c < DEFECT_CLASS_CNT \<Longrightarrow> classes_ok (xs[i := of_nat c])"
  using set_update_subset_insert[of xs i "of_nat c"]
  by (fastforce simp: classes_ok_def unat_of_class)

lemma inspect_main_inv:
  assumes "insp_inv s" and "\<And>h x. length (nn_run env h x) = DEFECT_CLASS_CNT"
  shows "\<exists>s1. defect_inspect_main env s = Inr s1 \<and> insp_inv s1"
proof -
  let ?out = "nn_run env (defect_model s) (take IMAGE_SIZE (image_buffer (rx s)) @
     drop IMAGE_SIZE (nnom_input_data s))"
  have c: "max_index ?out < DEFECT_CLASS_CNT" using max_index_props[of ?out] assms(2) by simp
  have lt: "unat (detect_round s) < 10" if "detect_round s < detection_round_cnt s"
  proof -
    from that assms(1) have "detect_round s < 10" by (auto simp: insp_inv_def)
    then show ?thesis by (simp add: word_less_nat_alt)
  qed
  show ?thesis
    using assms lt classes_ok_update[OF _ c]
    by (auto simp: defect_inspect_main_def prepare_input_data_def parse_output_result_def
        read_round_cnt_def insp_inv_def Let_def rx_inv_def)
qed

lemma generate_csv_inv:
  assumes "insp_inv s"
  shows "\<exists>s1. generate_defect_stat_csv env s = Inr s1 \<and> insp_inv s1"
proof (cases "0 \<le> fs_open env (length (trace s)) csv_filename")
  case True
  have n: "unat (detection_round_cnt s) \<le> 10" using assms by (auto simp: insp_inv_def word_le_nat_alt)
  show ?thesis
    by (subst generate_csv_ok[OF True _ refl n])
      (use assms n in \<open>simp_all add: insp_inv_def DEFAULT_DETECTION_ROUND_CNT_def DEFECT_CLASS_CNT_def\<close>,
       simp add: classes_ok_def DEFECT_CLASS_CNT_def)
next
  case False
  with assms show ?thesis by (simp add: generate_defect_stat_csv_def)
qed

lemma uart_recv_step_ok:
  assumes "insp_inv s" and "\<And>h x. length (nn_run env h x) = DEFECT_CLASS_CNT"
  shows "\<exists>pc' s'. uart_recv_step env (pc, s) = Inr (pc', s') \<and> insp_inv s'"
proof (cases pc)
  case PC_Poll
  have "insp_inv (s\<lparr>rx := (rx s)\<lparr>frame_ready := 0\<rparr>\<rparr>)" using assms(1) by (simp add: insp_inv_def rx_inv_def)
  from inspect_main_inv[OF this assms(2)] obtain s1 where
    "defect_inspect_main env (s\<lparr>rx := (rx s)\<lparr>frame_ready := 0\<rparr>\<rparr>) = Inr s1" "insp_inv s1" by auto
  with PC_Poll assms(1) show ?thesis by (auto simp: insp_inv_def[of "_\<lparr>detect_round := _\<rparr>"]) (auto simp: insp_inv_def)
next
  case PC_Decide
  with assms(1) show ?thesis by (auto simp: read_round_cnt_def insp_inv_def emit_def)
next
  case PC_Csv
  with generate_csv_inv[OF assms(1), of env] show ?thesis by auto
qed

lemma insp_reach_inv:
  assumes "insp_reach env c" and "\<And>h x. length (nn_run env h x) = DEFECT_CLASS_CNT"
  shows "insp_inv (snd c)"
  using assms(1)
proof induction
  case init
  then show ?case using insp_inv_init by simp
next
  case (thread c c')
  then show ?case using uart_recv_step_ok[OF thread.IH assms(2), of "fst c"] by auto
next
  case (rx_byte pc s b)
  then show ?case using rx_byte_inv by (simp add: insp_inv_def)
next
  case (round_cnt pc s n)
  then show ?case by (simp add: insp_inv_def)
qed

text \<open>
  The inspection thread never leaves an array and never fails an assertion, for any
  interleaving with the receive interrupt and with changes of the batch size, any bytes
  on the line, any network outputs, failing or working file system and MQTT client, as
  long as no announced batch is larger than ten images: in every reachable state the
  thread's next step succeeds.
\<close>

theorem inspection_never_faults:
  assumes "insp_reach env (pc, s)" and "\<And>h x. length (nn_run env h x) = DEFECT_CLASS_CNT"
  shows "\<exists>pc' s'. uart_recv_step env (pc, s) = Inr (pc', s')"
  using uart_recv_step_ok[of s env pc, OF _ assms(2)] insp_reach_inv[OF assms(1,2)] by auto

theorem inspection_never_faults_witness:
  "\<exists>pc' s'. uart_recv_step demo_env
     (PC_Poll, (uart_recv_thread_init demo_env (snd (detection_mutex_init True insp_init)))
        \<lparr>detection_round_cnt := 4\<rparr>) = Inr (pc', s')"
  by (rule inspection_never_faults[OF insp_reach.round_cnt[OF insp_reach.init]])
    (simp_all add: demo_env_def DEFECT_CLASS_CNT_def)

section \<open>Where the code does not do what it should\<close>

text \<open>
  The bound of ten images is not enforced where the batch size is set, and a larger
  batch makes the thread write past the array of results: with a batch size above ten,
  the eleventh image of the batch is stored out of bounds.
\<close>

theorem oversized_batch_out_of_bounds:
  assumes "insp_inv (s\<lparr>detection_round_cnt := 10\<rparr>)" and "detection_round_cnt s > 10"
    and "detect_round s = 10" and "frame_ready (rx s) \<noteq> 0"
    and "length (nn_run env (defect_model s) (image_buffer (rx s))) = DEFECT_CLASS_CNT"
  shows "uart_recv_step env (PC_Poll, s) = Inl Out_Of_Bounds"
proof -
  have "take IMAGE_SIZE (image_buffer (rx s)) @ drop IMAGE_SIZE (nnom_input_data s) = image_buffer (rx s)"
    using assms(1) by (simp add: insp_inv_def rx_inv_def)
  with assms show ?thesis
    by (simp add: defect_inspect_main_def prepare_input_data_def parse_output_result_def
        read_round_cnt_def insp_inv_def)
qed

text \<open>
  When the CSV file cannot be opened, the finished batch is neither reported nor
  cleared. From then on every further image only tries to open the file again: its class
  is not stored, nothing is published, and the round counter moves away from the batch
  size instead of returning to zero.
\<close>

theorem failed_open_keeps_batch:
  assumes "\<And>k f. fs_open env k f < 0" and "insp_inv s" and "frame_ready (rx s) \<noteq> 0"
    and "detection_round_cnt s \<le> detect_round s" and "detect_round s < 255"
    and "length (nn_run env (defect_model s) (image_buffer (rx s))) = DEFECT_CLASS_CNT"
  shows "\<exists>s'. uart_recv_round env s = Inr s' \<and> last_detect s' = last_detect s \<and>
    detect_round s' = detect_round s + 1 \<and> trace s' = trace s @ [E_Open csv_filename, E_Delay 10]"
proof -
  have img: "take IMAGE_SIZE (image_buffer (rx s)) @ drop IMAGE_SIZE (nnom_input_data s) = image_buffer (rx s)"
    using assms(2) by (simp add: insp_inv_def rx_inv_def)
  have "detect_round s \<le> detect_round s + 1"
    using assms(5) by (simp add: word_le_nat_alt word_less_nat_alt unat_word_ariths)
  then have le: "detection_round_cnt s \<le> detect_round s + 1" using assms(4) by simp
  show ?thesis
    using assms img le by (simp add: uart_recv_round_def defect_inspect_main_def prepare_input_data_def
        parse_output_result_def read_round_cnt_def insp_inv_def generate_defect_stat_csv_def emit_def
        Let_def not_less[THEN iffD2])
qed

lemma demo_state_inv:
  assumes "n \<le> 10"
  shows "insp_inv (demo_state\<lparr>detection_round_cnt := n, detect_round := d,
     rx := rx_state_init\<lparr>frame_ready := 1\<rparr>\<rparr>)"
proof -
  have "rx_inv (rx_state_init\<lparr>frame_ready := 1\<rparr>)" using rx_state_init_inv by (simp add: rx_inv_def)
  moreover have "classes_ok (replicate 10 0)" by (simp add: classes_ok_def DEFECT_CLASS_CNT_def)
  ultimately show ?thesis
    using assms by (simp add: demo_state_def insp_inv_def uart_recv_thread_init_def
        defect_model_init_def detection_mutex_init_def insp_init_def demo_env_def
        DEFAULT_DETECTION_ROUND_CNT_def DEFECT_CLASS_CNT_def)
qed

theorem failed_open_keeps_batch_witness:
  "\<exists>s'. uart_recv_round (demo_env\<lparr>fs_open := \<lambda>_ _. - 1\<rparr>) (demo_state\<lparr>detect_round := 2,
       rx := rx_state_init\<lparr>frame_ready := 1\<rparr>\<rparr>) = Inr s' \<and>
     last_detect s' = last_detect demo_state \<and> detect_round s' = 3 \<and>
     trace s' = [E_Open csv_filename, E_Delay 10]"
proof -
  let ?s = "demo_state\<lparr>detect_round := 2, rx := rx_state_init\<lparr>frame_ready := 1\<rparr>\<rparr>"
  have c: "detection_round_cnt demo_state = 2" using demo_state_batch by (simp add: batch_at_def)
  with demo_state_inv[of 2 2] have "insp_inv ?s" by (simp add: insp_inv_def)
  then show ?thesis
    using failed_open_keeps_batch[of "demo_env\<lparr>fs_open := \<lambda>_ _. - 1\<rparr>" ?s] demo_state_batch
    by (simp add: demo_env_def DEFECT_CLASS_CNT_def c)
qed

theorem oversized_batch_out_of_bounds_witness:
  "uart_recv_step demo_env (PC_Poll, demo_state\<lparr>detection_round_cnt := 11, detect_round := 10,
     rx := rx_state_init\<lparr>frame_ready := 1\<rparr>\<rparr>) = Inl Out_Of_Bounds"
proof (rule oversized_batch_out_of_bounds)
  show "insp_inv (demo_state\<lparr>detection_round_cnt := 11, detect_round := 10,
     rx := rx_state_init\<lparr>frame_ready := 1\<rparr>, detection_round_cnt := 10\<rparr>)"
    using demo_state_inv[of 10 10] by (simp add: insp_inv_def)
qed (simp_all add: demo_env_def DEFECT_CLASS_CNT_def)

end
