(* ===== verification/Pwm.thy ===== *)
theory Pwm
  imports Device
begin

text \<open>
  The PWM framework (\<^verbatim>\<open>rt-thread/components/drivers/misc/rt_drv_pwm.c\<close>) and the timer
  driver below it (\<^verbatim>\<open>drivers/drv_pwm.c\<close>). The registers of a timer are a record; the
  32- and 64-bit arithmetic of the driver is done on natural numbers with every
  wrap-around written out by \<open>u32w\<close> and \<open>u64w\<close>. The bus clocks, and whether the HAL
  accepts a configuration, are parameters. Of the HAL calls the effect on the registers
  named here is modelled.
\<close>

section \<open>Timer registers\<close>

definition u32w :: "nat \<Rightarrow> nat" where "u32w n = n mod 2 ^ 32"
definition u64w :: "nat \<Rightarrow> nat" where "u64w n = n mod 2 ^ 64"

record tim_hw =
  Instance :: nat
  CKD :: nat
  PSC :: nat
  ARR :: nat
  CNT :: nat
  CCR :: "nat list"
  CCE :: "nat list"
  MOE :: bool
  CEN :: bool

record bus_clocks =
  PCLK1 :: nat
  PCLK2 :: nat

record rt_pwm_configuration =
  channel :: nat
  period :: nat
  pulse :: nat
  complementary :: bool

abbreviation (input) TIM_CLOCKDIVISION_DIV2 :: nat where "TIM_CLOCKDIVISION_DIV2 \<equiv> 0x100"
abbreviation (input) TIM_CLOCKDIVISION_DIV4 :: nat where "TIM_CLOCKDIVISION_DIV4 \<equiv> 0x200"

definition MAX_PERIOD :: nat where "MAX_PERIOD = 65535"
definition MIN_PERIOD :: nat where "MIN_PERIOD = 3"
definition MIN_PULSE :: nat where "MIN_PULSE = 2"

text \<open>The HAL number of a channel, and the compare register the HAL selects for it.\<close>

definition hal_channel :: "rt_pwm_configuration \<Rightarrow> nat" where
  "hal_channel cfg = u32w (4 * u32w (channel cfg + (2 ^ 32 - 1)))"

definition ccr_index :: "nat \<Rightarrow> nat" where
  "ccr_index ch =
     (if ch = 0 then 0 else if ch = 4 then 1 else if ch = 8 then 2 else if ch = 12 then 3
      else if ch = 16 then 4 else 5)"

text \<open>
  \<^verbatim>\<open>HAL_TIM_PWM_Start\<close> and \<^verbatim>\<open>HAL_TIM_PWM_Stop\<close>: the enabled channels, the main output
  (timers with a break input) and the counter, which stops with the last channel.
\<close>

definition break_instance :: "tim_hw \<Rightarrow> bool" where
  "break_instance t \<longleftrightarrow> Instance t \<in> {1, 8, 15, 16, 17}"

definition HAL_TIM_PWM_Start :: "tim_hw \<Rightarrow> nat \<Rightarrow> tim_hw" where
  "HAL_TIM_PWM_Start t ch =
     t\<lparr>CCE := (if ch \<in> set (CCE t) then CCE t else ch # CCE t),
       MOE := (break_instance t \<or> MOE t), CEN := True\<rparr>"

definition HAL_TIM_PWM_Stop :: "tim_hw \<Rightarrow> nat \<Rightarrow> tim_hw" where
  "HAL_TIM_PWM_Stop t ch =
     (let on = filter (\<lambda>c. c \<noteq> ch) (CCE t) in
      if on = [] then t\<lparr>CCE := on, MOE := (\<not> break_instance t \<and> MOE t), CEN := False\<rparr> else t\<lparr>CCE := on\<rparr>)"

section \<open>The timer driver\<close>

text \<open>The clock of the timer in MHz, as \<^verbatim>\<open>drv_pwm_get\<close> and \<^verbatim>\<open>drv_pwm_set\<close> compute it.\<close>

definition tim_clock :: "bus_clocks \<Rightarrow> tim_hw \<Rightarrow> nat" where
  "tim_clock clk t =
     (let c = (if Instance t \<in> {1, 8, 12, 13, 14, 15, 16, 17} then u32w (PCLK2 clk * 2)
               else u32w (PCLK1 clk * 2));
          c2 = (if CKD t = TIM_CLOCKDIVISION_DIV2 then c div 2
                else if CKD t = TIM_CLOCKDIVISION_DIV4 then c div 4 else c)
      in c2 div 1000000)"

definition drv_pwm_enable :: "tim_hw \<Rightarrow> rt_pwm_configuration \<Rightarrow> bool \<Rightarrow> rt_err_t \<times> tim_hw" where
  "drv_pwm_enable t cfg enable =
     (RT_EOK, if \<not> enable then HAL_TIM_PWM_Stop t (hal_channel cfg)
              else HAL_TIM_PWM_Start t (hal_channel cfg))"

text \<open>
  The products of registers are 32-bit products (\<^verbatim>\<open>unsigned long\<close> has 32 bits on this
  processor); the division is a 64-bit one.
\<close>

definition drv_pwm_get ::
  "bus_clocks \<Rightarrow> tim_hw \<Rightarrow> rt_pwm_configuration \<Rightarrow> (rt_err_t \<times> rt_pwm_configuration) res" where
  "drv_pwm_get clk t cfg =
     (let c = tim_clock clk t in
      if c = 0 then Inl Div_By_Zero
      else Inr (RT_EOK, cfg\<lparr>
        period := u32w (u32w ((ARR t + 1) * (PSC t + 1) * 1000) div c),
        pulse := u32w (u32w ((CCR t ! ccr_index (hal_channel cfg) + 1) * (PSC t + 1) * 1000) div c)\<rparr>))"

text \<open>The divisors are constants and the prescaler, which is at least 1, so no division can fail.\<close>

definition drv_pwm_set :: "bus_clocks \<Rightarrow> tim_hw \<Rightarrow> rt_pwm_configuration \<Rightarrow> rt_err_t \<times> tim_hw" where
  "drv_pwm_set clk t cfg =
     (let c = tim_clock clk t;
          ticks = u32w (u64w (period cfg * c) div 1000);
          psc = ticks div MAX_PERIOD + 1;
          per0 = ticks div psc;
          per = (if per0 < MIN_PERIOD then MIN_PERIOD else per0);
          pul0 = u32w (u64w (pulse cfg * c) div psc div 1000);
          pul = (if pul0 < MIN_PULSE then MIN_PULSE else if pul0 > per then per else pul0)
      in (RT_EOK, t\<lparr>PSC := psc - 1, ARR := per - 1,
            CCR := (CCR t)[ccr_index (hal_channel cfg) := pul - 1], CNT := 0\<rparr>))"

abbreviation (input) PWM_CMD_ENABLE :: int where "PWM_CMD_ENABLE \<equiv> 0x1D00"
abbreviation (input) PWM_CMD_DISABLE :: int where "PWM_CMD_DISABLE \<equiv> 0x1D01"
abbreviation (input) PWM_CMD_SET :: int where "PWM_CMD_SET \<equiv> 0x1D02"
abbreviation (input) PWM_CMD_GET :: int where "PWM_CMD_GET \<equiv> 0x1D03"
abbreviation (input) PWM_CMD_SET_PERIOD :: int where "PWM_CMD_SET_PERIOD \<equiv> 0x1D06"
abbreviation (input) PWM_CMD_SET_PULSE :: int where "PWM_CMD_SET_PULSE \<equiv> 0x1D07"

record rt_device_pwm = rt_device +
  tim :: tim_hw

type_synonym pwm_result = "(rt_err_t \<times> rt_pwm_configuration \<times> rt_device_pwm) res"

text \<open>The configuration is passed by reference; the result carries its value afterwards.\<close>

definition drv_pwm_control ::
  "bus_clocks \<Rightarrow> rt_device_pwm \<Rightarrow> int \<Rightarrow> rt_pwm_configuration \<Rightarrow> pwm_result" where
  "drv_pwm_control clk d cmd cfg =
     (if cmd = PWM_CMD_ENABLE
      then (case drv_pwm_enable (tim d) cfg True of (r, t) \<Rightarrow> Inr (r, cfg, d\<lparr>tim := t\<rparr>))
      else if cmd = PWM_CMD_DISABLE
      then (case drv_pwm_enable (tim d) cfg False of (r, t) \<Rightarrow> Inr (r, cfg, d\<lparr>tim := t\<rparr>))
      else if cmd = PWM_CMD_SET
      then (case drv_pwm_set clk (tim d) cfg of (r, t) \<Rightarrow> Inr (r, cfg, d\<lparr>tim := t\<rparr>))
      else if cmd = PWM_CMD_GET
      then bind_res (drv_pwm_get clk (tim d) cfg) (\<lambda>(r, cfg'). Inr (r, cfg', d))
      else Inr (RT_EINVAL, cfg, d))"

section \<open>The framework\<close>

text \<open>
  \<^verbatim>\<open>_pwm_control\<close>, the control entry of the device: \<open>rt_device_control\<close> calls it through
  a pointer that registration has set.
\<close>

definition pwm_control ::
  "bus_clocks \<Rightarrow> rt_device_pwm \<Rightarrow> int \<Rightarrow> rt_pwm_configuration \<Rightarrow> pwm_result" where
  "pwm_control clk d cmd cfg = drv_pwm_control clk d cmd cfg"

definition pwm_cfg0 :: rt_pwm_configuration where
  "pwm_cfg0 = \<lparr>channel = 0, period = 0, pulse = 0, complementary = False\<rparr>"

definition abs_channel :: "int \<Rightarrow> nat" where
  "abs_channel ch = nat (if ch > 0 then ch else - ch)"

text \<open>The value read and the number of bytes returned.\<close>

definition pwm_read :: "bus_clocks \<Rightarrow> rt_device_pwm \<Rightarrow> int \<Rightarrow> nat \<Rightarrow> (nat option \<times> nat) res" where
  "pwm_read clk d pos sz =
     bind_res (drv_pwm_control clk d PWM_CMD_GET (pwm_cfg0\<lparr>channel := abs_channel pos\<rparr>))
       (\<lambda>(r, cfg, _). Inr (if r \<noteq> RT_EOK then (None, 0) else (Some (pulse cfg), sz)))"

definition pwm_write :: "bus_clocks \<Rightarrow> rt_device_pwm \<Rightarrow> int \<Rightarrow> nat \<Rightarrow> nat \<Rightarrow> (nat \<times> rt_device_pwm) res" where
  "pwm_write clk d pos val sz =
     bind_res (drv_pwm_control clk d PWM_CMD_GET (pwm_cfg0\<lparr>channel := abs_channel pos\<rparr>))
       (\<lambda>(r, cfg, d1). if r \<noteq> RT_EOK then Inr (0, d1)
         else bind_res (drv_pwm_control clk d1 PWM_CMD_SET (cfg\<lparr>pulse := val\<rparr>))
           (\<lambda>(r2, _, d2). Inr (if r2 \<noteq> RT_EOK then (0, d2) else (sz, d2))))"

definition rt_device_pwm_register ::
  "registry \<Rightarrow> nat \<Rightarrow> rt_device_pwm \<Rightarrow> string \<Rightarrow> (rt_err_t \<times> registry \<times> rt_device_pwm) res" where
  "rt_device_pwm_register reg i d name =
     rt_device_register reg (Some i)
       \<lparr>flag = 0, open_flag = 0, ref_count = 0, rx_indicate = None, tx_complete = None, tim = tim d\<rparr>
       name RT_DEVICE_FLAG_RDWR"

text \<open>A null device is \<open>None\<close>.\<close>

definition pwm_call ::
  "bus_clocks \<Rightarrow> int \<Rightarrow> rt_pwm_configuration \<Rightarrow> rt_device_pwm option
    \<Rightarrow> (rt_err_t \<times> rt_pwm_configuration \<times> rt_device_pwm option) res" where
  "pwm_call clk cmd cfg dev =
     (case dev of None \<Rightarrow> Inr (- RT_EIO, cfg, None)
      | Some d \<Rightarrow> bind_res (pwm_control clk d cmd cfg) (\<lambda>(r, cfg', d'). Inr (r, cfg', Some d')))"

definition rt_pwm_enable :: "bus_clocks \<Rightarrow> rt_device_pwm option \<Rightarrow> int \<Rightarrow> (rt_err_t \<times> rt_device_pwm option) res" where
  "rt_pwm_enable clk dev ch =
     bind_res (pwm_call clk PWM_CMD_ENABLE (pwm_cfg0\<lparr>channel := abs_channel ch, complementary := \<not> ch > 0\<rparr>) dev)
       (\<lambda>(r, _, d). Inr (r, d))"

definition rt_pwm_disable :: "bus_clocks \<Rightarrow> rt_device_pwm option \<Rightarrow> int \<Rightarrow> (rt_err_t \<times> rt_device_pwm option) res" where
  "rt_pwm_disable clk dev ch =
     bind_res (pwm_call clk PWM_CMD_DISABLE (pwm_cfg0\<lparr>channel := abs_channel ch, complementary := \<not> ch > 0\<rparr>) dev)
       (\<lambda>(r, _, d). Inr (r, d))"

definition rt_pwm_set ::
  "bus_clocks \<Rightarrow> rt_device_pwm option \<Rightarrow> int \<Rightarrow> nat \<Rightarrow> nat \<Rightarrow> (rt_err_t \<times> rt_device_pwm option) res" where
  "rt_pwm_set clk dev ch per pul =
     bind_res (pwm_call clk PWM_CMD_SET (pwm_cfg0\<lparr>channel := abs_channel ch, period := per, pulse := pul\<rparr>) dev)
       (\<lambda>(r, _, d). Inr (r, d))"

definition rt_pwm_set_period ::
  "bus_clocks \<Rightarrow> rt_device_pwm option \<Rightarrow> int \<Rightarrow> nat \<Rightarrow> (rt_err_t \<times> rt_device_pwm option) res" where
  "rt_pwm_set_period clk dev ch per =
     bind_res (pwm_call clk PWM_CMD_SET_PERIOD (pwm_cfg0\<lparr>channel := abs_channel ch, period := per\<rparr>) dev)
       (\<lambda>(r, _, d). Inr (r, d))"

definition rt_pwm_set_pulse ::
  "bus_clocks \<Rightarrow> rt_device_pwm option \<Rightarrow> int \<Rightarrow> nat \<Rightarrow> (rt_err_t \<times> rt_device_pwm option) res" where
  "rt_pwm_set_pulse clk dev ch pul =
     bind_res (pwm_call clk PWM_CMD_SET_PULSE (pwm_cfg0\<lparr>channel := abs_channel ch, pulse := pul\<rparr>) dev)
       (\<lambda>(r, _, d). Inr (r, d))"

definition rt_pwm_get ::
  "bus_clocks \<Rightarrow> rt_device_pwm option \<Rightarrow> rt_pwm_configuration
    \<Rightarrow> (rt_err_t \<times> rt_pwm_configuration \<times> rt_device_pwm option) res" where
  "rt_pwm_get clk dev cfg = pwm_call clk PWM_CMD_GET cfg dev"

section \<open>Initialisation\<close>

text \<open>
  \<open>hal f n\<close>: the HAL call \<open>f\<close> succeeds, for channel \<open>n\<close> where it has one. The timer
  starts with prescaler, period and compare values 0.
\<close>

definition stm32_hw_pwm_init :: "(string \<Rightarrow> nat \<Rightarrow> bool) \<Rightarrow> u8 \<Rightarrow> tim_hw \<Rightarrow> rt_err_t \<times> tim_hw" where
  "stm32_hw_pwm_init hal chans t =
     (let t1 = t\<lparr>PSC := 0, ARR := 0, CKD := 0\<rparr>;
          conf = \<lambda>n. \<not> bit chans n \<or> hal ''HAL_TIM_PWM_ConfigChannel'' n;
          conf_ccr = \<lambda>n c. if bit chans n then c[n := 0] else c
      in if \<not> hal ''HAL_TIM_PWM_Init'' 0 then (- RT_ERROR, t)
         else if \<not> hal ''HAL_TIM_ConfigClockSource'' 0 then (- RT_ERROR, t1)
         else if \<not> hal ''HAL_TIMEx_MasterConfigSynchronization'' 0 then (- RT_ERROR, t1)
         else if \<not> conf 0 then (- RT_ERROR, t1)
         else let t2 = t1\<lparr>CCR := conf_ccr 0 (CCR t1)\<rparr> in
         if \<not> conf 1 then (- RT_ERROR, t2)
         else let t3 = t2\<lparr>CCR := conf_ccr 1 (CCR t2)\<rparr> in
         if \<not> conf 2 then (- RT_ERROR, t3)
         else let t4 = t3\<lparr>CCR := conf_ccr 2 (CCR t3)\<rparr> in
         if \<not> conf 3 then (- RT_ERROR, t4)
         else (RT_EOK, t4\<lparr>CCR := conf_ccr 3 (CCR t4)\<rparr>))"

text \<open>The board uses channel 1 of timers 1 and 2 (\<^verbatim>\<open>drivers/board.h\<close>).\<close>

definition pwm_get_channel :: "u8 list" where
  "pwm_get_channel = [1, 1]"

definition stm32_pwm_obj :: "(string \<times> rt_device_pwm) list" where
  "stm32_pwm_obj =
     map (\<lambda>(name, n). (name, \<lparr>flag = 0, open_flag = 0, ref_count = 0, rx_indicate = None,
            tx_complete = None, tim = \<lparr>Instance = n, CKD = 0, PSC = 0, ARR = 0, CNT = 0,
              CCR = replicate 6 0, CCE = [], MOE = False, CEN = False\<rparr>\<rparr>))
       [(''pwm1'', 1), (''pwm2'', 2)]"

text \<open>The loop over the objects; the devices so far and their numbers in the registry.\<close>

fun pwm_init_loop ::
  "(string \<Rightarrow> nat \<Rightarrow> bool) \<Rightarrow> (string \<times> rt_device_pwm) list \<Rightarrow> u8 list \<Rightarrow> nat \<Rightarrow> rt_err_t
    \<Rightarrow> registry \<Rightarrow> rt_device_pwm list \<Rightarrow> (rt_err_t \<times> registry \<times> rt_device_pwm list) res" where
  "pwm_init_loop hal ((name, d) # objs) (ch # chs) i r reg devs =
     (case stm32_hw_pwm_init hal ch (tim d) of (e, t) \<Rightarrow>
        if e \<noteq> RT_EOK then Inr (- RT_ERROR, reg, devs)
        else bind_res (rt_device_pwm_register reg i (d\<lparr>tim := t\<rparr>) name) (\<lambda>(e2, reg', d').
          pwm_init_loop hal objs chs (Suc i) (if e2 = RT_EOK then r else - RT_ERROR) reg' (devs @ [d'])))"
| "pwm_init_loop hal objs chs i r reg devs = Inr (r, reg, devs)"

definition stm32_pwm_init ::
  "(string \<Rightarrow> nat \<Rightarrow> bool) \<Rightarrow> nat \<Rightarrow> registry \<Rightarrow> (rt_err_t \<times> registry \<times> rt_device_pwm list) res" where
  "stm32_pwm_init hal i reg = pwm_init_loop hal stm32_pwm_obj pwm_get_channel i RT_EOK reg []"

section \<open>The values in the registers\<close>

text \<open>
  The three settings a call of \<^verbatim>\<open>drv_pwm_set\<close> leaves in the timer, from the period in
  ticks of the timer clock.
\<close>

definition set_psc :: "nat \<Rightarrow> nat" where "set_psc ticks = ticks div MAX_PERIOD + 1"

definition set_per :: "nat \<Rightarrow> nat" where "set_per ticks = max MIN_PERIOD (ticks div set_psc ticks)"

definition set_pul :: "nat \<Rightarrow> nat \<Rightarrow> nat" where
  "set_pul ticks pulse_ticks = max MIN_PULSE (min (set_per ticks) pulse_ticks)"

lemma u32w_id: "n < 2 ^ 32 \<Longrightarrow> u32w n = n"
  by (simp add: u32w_def)

lemma u64w_mult_id: "a < 2 ^ 32 \<Longrightarrow> c \<le> 1000 \<Longrightarrow> u64w (a * c) = a * c"
proof -
  assume "a < 2 ^ 32" "c \<le> 1000"
  then have "a * c \<le> (2 ^ 32 - 1) * 1000" by (intro mult_mono) auto
  then show ?thesis by (simp add: u64w_def)
qed

lemma ticks_bound:
  assumes "a < 2 ^ 32" and "c < 1000"
  shows "a * c div 1000 < 65536 * MAX_PERIOD"
proof -
  have "a * c \<le> (2 ^ 32 - 1) * 999" using assms by (intro mult_mono) auto
  then have "a * c div 1000 \<le> (2 ^ 32 - 1) * 999 div 1000" by (rule div_le_mono)
  then show ?thesis by (simp add: MAX_PERIOD_def)
qed

lemma drv_pwm_set_eq:
  assumes "period cfg < 2 ^ 32" and "pulse cfg < 2 ^ 32" and "tim_clock clk t < 1000"
    and "ticks = period cfg * tim_clock clk t div 1000"
  shows "drv_pwm_set clk t cfg = (RT_EOK, t\<lparr>PSC := set_psc ticks - 1, ARR := set_per ticks - 1,
    CCR := (CCR t)[ccr_index (hal_channel cfg) :=
      set_pul ticks (pulse cfg * tim_clock clk t div set_psc ticks div 1000) - 1], CNT := 0\<rparr>)"
proof -
  let ?c = "tim_clock clk t"
  have "period cfg * ?c div 1000 < 2 ^ 32"
    using ticks_bound[OF assms(1,3)] by (simp add: MAX_PERIOD_def)
  then have t: "u32w (u64w (period cfg * ?c) div 1000) = ticks"
    using assms(1,3,4) by (simp add: u64w_mult_id u32w_id)
  have "pulse cfg * ?c div set_psc ticks div 1000 \<le> pulse cfg * ?c div 1000"
    by (metis div_le_dividend div_le_mono)
  also have "\<dots> < 2 ^ 32" using ticks_bound[OF assms(2,3)] by (simp add: MAX_PERIOD_def)
  finally have p: "u32w (u64w (pulse cfg * ?c) div set_psc ticks div 1000) =
      pulse cfg * ?c div set_psc ticks div 1000"
    using assms(2,3) by (simp add: u64w_mult_id u32w_id)
  have m: "(if a < MIN_PERIOD then MIN_PERIOD else a) = max MIN_PERIOD a" for a by simp
  have m2: "(if a < MIN_PULSE then MIN_PULSE else if set_per ticks < a then set_per ticks else a) =
      set_pul ticks a" for a
    by (auto simp: set_pul_def set_per_def MIN_PULSE_def MIN_PERIOD_def)
  show ?thesis
    unfolding drv_pwm_set_def Let_def t set_psc_def[symmetric] p m set_per_def[symmetric] m2 by simp
qed

lemma tim_clock_set: "drv_pwm_set clk t cfg = (r, t') \<Longrightarrow> tim_clock clk t' = tim_clock clk t"
proof -
  assume "drv_pwm_set clk t cfg = (r, t')"
  then have e: "Instance t' = Instance t" "CKD t' = CKD t" by (auto simp: drv_pwm_set_def Let_def)
  show ?thesis unfolding tim_clock_def e ..
qed

lemma set_psc_bounds: "ticks < 65536 * MAX_PERIOD \<Longrightarrow> 1 \<le> set_psc ticks \<and> set_psc ticks \<le> 65536"
  by (simp add: set_psc_def less_mult_imp_div_less Suc_le_eq)

lemma set_per_bounds: "MIN_PERIOD \<le> set_per ticks \<and> set_per ticks \<le> MAX_PERIOD"
proof -
  have "ticks < MAX_PERIOD * set_psc ticks"
    unfolding set_psc_def by (simp add: MAX_PERIOD_def dividend_less_times_div)
  then have "ticks div set_psc ticks < MAX_PERIOD" by (rule less_mult_imp_div_less)
  then show ?thesis by (simp add: set_per_def MIN_PERIOD_def MAX_PERIOD_def)
qed

lemma set_pul_bounds: "2 \<le> set_pul ticks p \<and> set_pul ticks p \<le> set_per ticks"
  using set_per_bounds[of ticks] by (auto simp: set_pul_def MIN_PULSE_def MIN_PERIOD_def)

text \<open>
  Whatever period and pulse width are asked for, the timer gets values its 16-bit
  registers can hold and a pulse that is at least one tick and not longer than the
  period: the prescaler is at most 65535, the reload value between 2 and 65534, and the
  compare value between 1 and the reload value, for every timer clock below 1 GHz.
\<close>

theorem pwm_set_registers_fit:
  assumes "period cfg < 2 ^ 32" and "pulse cfg < 2 ^ 32" and "tim_clock clk t < 1000"
    and "length (CCR t) = 6" and "drv_pwm_set clk t cfg = (r, t')"
  shows "r = RT_EOK \<and> PSC t' \<le> 65535 \<and> 2 \<le> ARR t' \<and> ARR t' \<le> 65534 \<and>
    1 \<le> CCR t' ! ccr_index (hal_channel cfg) \<and> CCR t' ! ccr_index (hal_channel cfg) \<le> ARR t'"
proof -
  define ticks where "ticks = period cfg * tim_clock clk t div 1000"
  define pt where "pt = pulse cfg * tim_clock clk t div set_psc ticks div 1000"
  have i: "ccr_index ch < 6" for ch by (simp add: ccr_index_def)
  have e: "r = RT_EOK" "PSC t' = set_psc ticks - 1" "ARR t' = set_per ticks - 1"
    "CCR t' ! ccr_index (hal_channel cfg) = set_pul ticks pt - 1"
    using assms(5) i[of "hal_channel cfg"] unfolding drv_pwm_set_eq[OF assms(1-3) ticks_def] pt_def
    by (auto simp: assms(4))
  have "ticks < 65536 * MAX_PERIOD" unfolding ticks_def by (rule ticks_bound[OF assms(1,3)])
  from set_psc_bounds[OF this] set_per_bounds[of ticks] set_pul_bounds[of ticks pt]
  show ?thesis unfolding e MIN_PERIOD_def MAX_PERIOD_def by linarith
qed

lemma pwm_ticks_accurate:
  assumes "period cfg < 2 ^ 32" and "pulse cfg < 2 ^ 32" and "tim_clock clk t < 1000"
    and "drv_pwm_set clk t cfg = (r, t')"
    and "ticks = period cfg * tim_clock clk t div 1000" and "3 * (ticks div 65535 + 1) \<le> ticks"
  shows "(ARR t' + 1) * (PSC t' + 1) \<le> ticks \<and> ticks < (ARR t' + 1) * (PSC t' + 1) + (PSC t' + 1)"
proof -
  let ?p = "set_psc ticks"
  have psc: "0 < ?p" "3 * ?p \<le> ticks" using assms(6) by (simp_all add: set_psc_def MAX_PERIOD_def)
  then have "3 \<le> ticks div ?p" by (simp add: less_eq_div_iff_mult_less_eq)
  then have "set_per ticks = ticks div ?p" "1 \<le> set_per ticks" by (simp_all add: set_per_def MIN_PERIOD_def)
  moreover have "PSC t' = ?p - 1" "ARR t' = set_per ticks - 1"
    using assms(4) unfolding drv_pwm_set_eq[OF assms(1-3,5)] by auto
  ultimately have e: "ARR t' + 1 = ticks div ?p" "PSC t' + 1 = ?p"
    using psc(1) by auto
  show ?thesis
    unfolding e using div_times_less_eq_dividend[of ticks ?p] dividend_less_div_times[OF psc(1), of ticks]
    by simp
qed

text \<open>
  The bus a timer is on, by its address in \<^verbatim>\<open>stm32h743xx.h\<close>, and the divisor that the driver takes from the
  clock division bits of the timer.
\<close>

definition timer_bus :: "bus_clocks \<Rightarrow> tim_hw \<Rightarrow> nat" where
  "timer_bus clk t = (if Instance t \<in> {1, 8, 15, 16, 17} then PCLK2 clk else PCLK1 clk)"

definition ckd_div :: "tim_hw \<Rightarrow> nat" where
  "ckd_div t = (if CKD t = 0x100 then 2 else if CKD t = 0x200 then 4 else 1)"

lemma tim_clock_bus:
  assumes "Instance t \<notin> {12, 13, 14} \<or> PCLK1 clk = PCLK2 clk" and "2 * timer_bus clk t < 10 ^ 9"
    and "10 ^ 6 * ckd_div t dvd 2 * timer_bus clk t"
  shows "10 ^ 6 * ckd_div t * tim_clock clk t = 2 * timer_bus clk t" and "tim_clock clk t < 1000"
proof -
  have "(if Instance t \<in> {1, 8, 12, 13, 14, 15, 16, 17} then u32w (PCLK2 clk * 2) else u32w (PCLK1 clk * 2)) = 2 * timer_bus clk t"
    using assms(1,2) by (auto simp: timer_bus_def u32w_def split: if_splits)
  then have "tim_clock clk t = 2 * timer_bus clk t div ckd_div t div 10 ^ 6"
    by (simp add: tim_clock_def ckd_div_def Let_def)
  then have c: "tim_clock clk t = 2 * timer_bus clk t div (10 ^ 6 * ckd_div t)"
    by (metis div_mult2_eq mult.commute)
  then show "10 ^ 6 * ckd_div t * tim_clock clk t = 2 * timer_bus clk t"
    using dvd_mult_div_cancel[OF assms(3)] by (simp only: c)
  have "tim_clock clk t \<le> 2 * timer_bus clk t div 10 ^ 6"
    unfolding c by (rule div_le_mono2) (simp_all add: ckd_div_def)
  then show "tim_clock clk t < 1000" using assms(2) by simp
qed

lemma pwm_ticks_minimal:
  assumes "period cfg < 2 ^ 32" and "pulse cfg < 2 ^ 32" and "tim_clock clk t < 1000"
    and "drv_pwm_set clk t cfg = (r, t')" and "ticks = period cfg * tim_clock clk t div 1000" and "ticks < 3"
  shows "PSC t' = 0 \<and> ARR t' = 2"
proof -
  have "set_psc ticks = 1" using assms(6) by (simp add: set_psc_def MAX_PERIOD_def)
  moreover from this have "set_per ticks = 3" using assms(6) by (simp add: set_per_def MIN_PERIOD_def)
  ultimately show ?thesis using assms(4) unfolding drv_pwm_set_eq[OF assms(1-3,5)] by auto
qed

text \<open>
  C38. The period that the timer produces. A timer runs at \<open>f\<close> times the clock of its bus, which is \<open>hz\<close>: \<open>f\<close> is 2
  if the bus divides its clock and 1 if it does not. The driver counts on twice the clock of the bus, divided
  by \<open>k = ckd_div t\<close>. So \<open>(ARR + 1) * (PSC + 1)\<close> clocks of the timer, \<open>(ARR + 1) * (PSC + 1) * 10 ^ 9 / hz\<close> nanoseconds, are
  \<open>2 / (f * k)\<close> times the period asked for, rounded down by less than one prescaled tick: with \<open>f = 2\<close> (the
  dividers of \<^verbatim>\<open>system_clock_config\<close>) and \<open>k = 1\<close> (what \<^verbatim>\<open>stm32_hw_pwm_init\<close> sets) it is that period, with the undivided
  buses of \<^verbatim>\<open>SystemClock_Config\<close> twice as long. A request for less than three ticks of the clock that the driver counts on gets three. The
  clock is below 1 GHz and a whole number of MHz, and timers 12 to 14, which the driver looks for on the other bus, need buses of the same clock.
\<close>

theorem pwm_period_accurate:
  assumes "period cfg < 2 ^ 32" and "pulse cfg < 2 ^ 32" and "drv_pwm_set clk t cfg = (r, t')"
    and "Instance t \<notin> {12, 13, 14} \<or> PCLK1 clk = PCLK2 clk" and "2 * timer_bus clk t < 10 ^ 9"
    and "10 ^ 6 * ckd_div t dvd 2 * timer_bus clk t" and "hz = f * timer_bus clk t" and "0 < f"
  shows "if 3 * 10 ^ 9 * ckd_div t \<le> 2 * period cfg * timer_bus clk t
    then f * ckd_div t * ((ARR t' + 1) * (PSC t' + 1) * 10 ^ 9) \<le> 2 * period cfg * hz \<and>
      2 * period cfg * hz < f * ckd_div t * (((ARR t' + 1) * (PSC t' + 1) + (PSC t' + 1)) * 10 ^ 9)
    else PSC t' = 0 \<and> ARR t' = 2"
proof -
  let ?c = "tim_clock clk t" and ?k = "ckd_div t"
  define N where "N = (ARR t' + 1) * (PSC t' + 1)"
  note c = tim_clock_bus[OF assms(4-6)]
  have k: "0 < ?k" by (simp add: ckd_div_def)
  have e: "2 * period cfg * timer_bus clk t = 10 ^ 6 * ?k * (period cfg * ?c)"
    unfolding mult.assoc[symmetric] mult.commute[of 2 "period cfg"]
    by (metis c(1) mult.assoc mult.commute)
  have le: "10 ^ 9 * ?k * n \<le> 2 * period cfg * timer_bus clk t \<longleftrightarrow> n \<le> period cfg * ?c div 1000" for n
  proof -
    have "10 ^ 9 * ?k * n = 10 ^ 6 * ?k * (n * 1000)" by simp
    then have "10 ^ 9 * ?k * n \<le> 2 * period cfg * timer_bus clk t \<longleftrightarrow> n * 1000 \<le> period cfg * ?c"
      unfolding e using k by (metis mult_le_cancel1 nat_0_less_mult_iff zero_less_numeral zero_less_power)
    then show ?thesis by (simp add: less_eq_div_iff_mult_less_eq)
  qed
  have hz: "2 * period cfg * hz = f * (2 * period cfg * timer_bus clk t)" using assms(7) by simp
  show ?thesis
  proof (cases "3 * 10 ^ 9 * ?k \<le> 2 * period cfg * timer_bus clk t")
    case True
    define ticks where "ticks = period cfg * ?c div 1000"
    have three: "3 \<le> ticks" using True le[of 3] by (simp add: ticks_def ac_simps)
    have "3 * (ticks div 65535 + 1) \<le> ticks"
    proof (cases "ticks < 65535")
      case False
      have a: "3 * (q + 1) \<le> n" if "q * 65535 \<le> n" "1 \<le> q" for q n :: nat
      proof -
        have "q * 6 \<le> n" using that(1) by (rule le_trans[rotated]) simp
        then show ?thesis using that(2) by simp
      qed
      show ?thesis
        by (rule a[OF div_times_less_eq_dividend]) (use False in \<open>simp add: less_eq_div_iff_mult_less_eq\<close>)
    qed (use three in simp)
    from pwm_ticks_accurate[OF assms(1,2) c(2) assms(3) ticks_def this]
    have n: "N \<le> ticks" "ticks < N + (PSC t' + 1)" by (simp_all add: N_def)
    have "10 ^ 9 * ?k * N \<le> 2 * period cfg * timer_bus clk t" using n(1) le by (simp add: ticks_def)
    then have "f * (10 ^ 9 * ?k * N) \<le> 2 * period cfg * hz" unfolding hz by (rule mult_le_mono2)
    moreover have "2 * period cfg * timer_bus clk t < 10 ^ 9 * ?k * (N + (PSC t' + 1))"
      using n(2) le[of "N + (PSC t' + 1)"] by (simp add: ticks_def not_le[symmetric])
    then have "2 * period cfg * hz < f * (10 ^ 9 * ?k * (N + (PSC t' + 1)))"
      unfolding hz using assms(8) by (rule mult_less_mono2)
    ultimately show ?thesis using True unfolding N_def[symmetric] by (simp add: ac_simps)
  next
    case False
    then have "period cfg * ?c div 1000 < 3" using le[of 3] by (simp add: not_le ac_simps)
    from pwm_ticks_minimal[OF assms(1,2) c(2) assms(3) refl this] False show ?thesis by simp
  qed
qed

text \<open>
  What \<^verbatim>\<open>rt_pwm_get\<close> reports after \<^verbatim>\<open>rt_pwm_set\<close> is the period that was set, rounded
  down by less than one prescaled tick, as long as the period in ticks times 1000 fits
  into 32 bits.
\<close>

theorem pwm_set_get_roundtrip:
  assumes "period cfg < 2 ^ 32" and "pulse cfg < 2 ^ 32" and "tim_clock clk t < 1000"
    and "drv_pwm_set clk t cfg = (r, t')" and "drv_pwm_get clk t' cfg0 = Inr (r', cfg')"
    and "ticks = period cfg * tim_clock clk t div 1000" and "3 * (ticks div 65535 + 1) \<le> ticks"
    and "period cfg * tim_clock clk t < 2 ^ 32"
  shows "period cfg' \<le> period cfg \<and>
    period cfg * tim_clock clk t < (period cfg' + 1) * tim_clock clk t + 1000 * (PSC t' + 1)"
proof -
  let ?c = "tim_clock clk t" and ?n = "(ARR t' + 1) * (PSC t' + 1)"
  note n = pwm_ticks_accurate[OF assms(1-4,6,7)]
  have c': "tim_clock clk t' = ?c" using assms(4) by (rule tim_clock_set)
  have c: "0 < ?c" using assms(5) c' by (auto simp: drv_pwm_get_def Let_def split: if_splits)
  have le: "?n * 1000 \<le> period cfg * ?c"
    using n assms(6) by (metis div_times_less_eq_dividend le_trans mult_le_mono1)
  have "u32w (u32w (?n * 1000) div ?c) = ?n * 1000 div ?c"
    using le assms(8) by (simp add: u32w_id le_less_trans[OF div_le_dividend])
  then have p': "period cfg' = ?n * 1000 div ?c"
    using assms(5) c c' by (auto simp: drv_pwm_get_def Let_def)
  then have "period cfg' \<le> period cfg"
    using le c by (metis div_le_mono div_mult_self_is_m)
  moreover have "?n * 1000 < (period cfg' + 1) * ?c"
    unfolding p' using dividend_less_div_times[OF c, of "?n * 1000"] by simp
  moreover have "period cfg * ?c < (ticks + 1) * 1000"
    unfolding assms(6) using dividend_less_div_times[of 1000 "period cfg * ?c"] by simp
  moreover have "(ticks + 1) * 1000 \<le> ?n * 1000 + 1000 * (PSC t' + 1)" using n by simp
  ultimately show ?thesis by linarith
qed

text \<open>
  \<^verbatim>\<open>rt_pwm_get\<close> cannot report a longer period than \<open>2^32 / clock\<close> nanoseconds, because the
  product it divides is computed in 32 bits: a period that was set longer than that is
  reported wrongly. At a clock of 240 MHz the limit is below 18 ms.
\<close>

theorem pwm_get_period_bounded:
  assumes "drv_pwm_get clk t cfg0 = Inr (r, cfg')"
  shows "period cfg' * tim_clock clk t < 2 ^ 32"
proof -
  let ?n = "(ARR t + 1) * (PSC t + 1) * 1000"
  have "period cfg' \<le> u32w ?n div tim_clock clk t"
    using assms by (auto simp: drv_pwm_get_def Let_def u32w_def split: if_splits)
  then have "period cfg' * tim_clock clk t \<le> u32w ?n div tim_clock clk t * tim_clock clk t" by simp
  also have "\<dots> \<le> u32w ?n" by (rule div_times_less_eq_dividend)
  also have "\<dots> < 2 ^ 32" by (simp add: u32w_def)
  finally show ?thesis .
qed

text \<open>
  Setting only the period or only the pulse width does nothing: the driver does not
  know these two commands of the framework, leaves the timer alone and returns a
  positive error number.
\<close>

theorem pwm_set_period_pulse_unsupported:
  "rt_pwm_set_period clk (Some d) ch p = Inr (RT_EINVAL, Some d) \<and>
   rt_pwm_set_pulse clk (Some d) ch p = Inr (RT_EINVAL, Some d)"
  by (simp add: rt_pwm_set_period_def rt_pwm_set_pulse_def pwm_call_def pwm_control_def
      drv_pwm_control_def)

section \<open>Witnesses\<close>

definition demo_clk :: bus_clocks where "demo_clk = \<lparr>PCLK1 = 120000000, PCLK2 = 120000000\<rparr>"

definition demo_tim :: tim_hw where
  "demo_tim = \<lparr>Instance = 1, CKD = 0, PSC = 0, ARR = 0, CNT = 0, CCR = replicate 6 0, CCE = [],
     MOE = False, CEN = False\<rparr>"

definition demo_cfg :: "nat \<Rightarrow> rt_pwm_configuration" where
  "demo_cfg p = \<lparr>channel = 1, period = p, pulse = p div 2, complementary = False\<rparr>"

lemma demo_clock: "tim_clock demo_clk demo_tim = 240"
  by (simp add: tim_clock_def demo_clk_def demo_tim_def u32w_def)

theorem pwm_set_registers_fit_witness:
  "\<exists>t'. drv_pwm_set demo_clk demo_tim (demo_cfg 4294967295) = (RT_EOK, t') \<and> PSC t' \<le> 65535 \<and>
     ARR t' \<le> 65534 \<and> CCR t' ! 0 \<le> ARR t'"
proof -
  obtain r t' where s: "drv_pwm_set demo_clk demo_tim (demo_cfg 4294967295) = (r, t')" by fastforce
  have "hal_channel (demo_cfg p) = 0" for p by (simp add: hal_channel_def demo_cfg_def u32w_def)
  then have "ccr_index (hal_channel (demo_cfg p)) = 0" for p by (simp add: ccr_index_def)
  moreover have "period (demo_cfg p) = p" "pulse (demo_cfg p) = p div 2" "length (CCR demo_tim) = 6" for p
    by (simp_all add: demo_cfg_def demo_tim_def)
  ultimately show ?thesis
    using pwm_set_registers_fit[OF _ _ _ _ s] s by (simp add: demo_clock)
qed

theorem pwm_period_accurate_witness:
  "\<exists>r t'. drv_pwm_set demo_clk demo_tim (demo_cfg 2000000) = (r, t') \<and>
     (ARR t' + 1) * (PSC t' + 1) \<le> 480000 \<and> 480000 < (ARR t' + 1) * (PSC t' + 1) + (PSC t' + 1)"
proof -
  obtain r t' where s: "drv_pwm_set demo_clk demo_tim (demo_cfg 2000000) = (r, t')" by fastforce
  have d: "timer_bus demo_clk demo_tim = 120000000" "ckd_div demo_tim = 1" "period (demo_cfg 2000000) = 2000000"
    "pulse (demo_cfg 2000000) = 1000000" "Instance demo_tim = 1"
    by (simp_all add: timer_bus_def ckd_div_def demo_clk_def demo_tim_def demo_cfg_def)
  have "f * 1 * ((ARR t' + 1) * (PSC t' + 1) * 10 ^ 9) \<le> 2 * 2000000 * (f * 120000000) \<and>
      2 * 2000000 * (f * 120000000) < f * 1 * (((ARR t' + 1) * (PSC t' + 1) + (PSC t' + 1)) * 10 ^ 9)" if "f = 2" for f
    using pwm_period_accurate[OF _ _ s _ _ _ refl, of f] that by (simp add: d)
  from this[OF refl] s show ?thesis by (intro exI[of _ r] exI[of _ t']) (auto simp: algebra_simps)
qed

theorem pwm_set_get_roundtrip_witness:
  "\<exists>t' cfg'. drv_pwm_set demo_clk demo_tim (demo_cfg 2000000) = (RT_EOK, t') \<and>
     drv_pwm_get demo_clk t' (demo_cfg 0) = Inr (RT_EOK, cfg') \<and> period cfg' \<le> 2000000"
proof -
  let ?s = "drv_pwm_set demo_clk demo_tim (demo_cfg 2000000)"
  obtain t' where s: "?s = (RT_EOK, t')"
    by (simp add: drv_pwm_set_eq[OF _ _ _ refl] demo_clock demo_cfg_def)
  have c: "tim_clock demo_clk t' = 240"
    using tim_clock_set[OF s] demo_clock by simp
  then obtain cfg' where g: "drv_pwm_get demo_clk t' (demo_cfg 0) = Inr (RT_EOK, cfg')"
    by (simp add: drv_pwm_get_def)
  with pwm_set_get_roundtrip[OF _ _ _ s g refl] s show ?thesis
    by (simp add: demo_clock) (simp add: demo_cfg_def)
qed

theorem pwm_get_period_bounded_witness:
  "\<exists>cfg'. drv_pwm_get demo_clk (demo_tim\<lparr>PSC := 73, ARR := 64863\<rparr>) (demo_cfg 0) = Inr (RT_EOK, cfg') \<and>
     period cfg' * 240 < 2 ^ 32"
proof -
  have c: "tim_clock demo_clk (demo_tim\<lparr>PSC := 73, ARR := 64863\<rparr>) = 240"
    by (simp add: tim_clock_def demo_tim_def demo_clk_def u32w_def)
  then obtain cfg' where g: "drv_pwm_get demo_clk (demo_tim\<lparr>PSC := 73, ARR := 64863\<rparr>) (demo_cfg 0) =
      Inr (RT_EOK, cfg')"
    by (simp add: drv_pwm_get_def)
  with pwm_get_period_bounded[OF g] c show ?thesis by auto
qed

end
