(* ===== verification/Pin.thy ===== *)
theory Pin
  imports Device
begin

text \<open>
  General-purpose pins: the framework (\<^verbatim>\<open>rt-thread/components/drivers/misc/pin.c\<close>) and the
  driver (\<^verbatim>\<open>drivers/drv_gpio.c\<close>). Pin \<open>16 * port + bit\<close> is the index of the table
  \<^verbatim>\<open>pins[]\<close>, which has all sixteen bits of the ports A to K. A handler is a number. Null
  checks of the one pin device hold by typing.
\<close>

section \<open>State\<close>

datatype gpio_mode =
    GPIO_MODE_ANALOG
  | GPIO_MODE_INPUT
  | GPIO_MODE_OUTPUT_PP
  | GPIO_MODE_OUTPUT_OD
  | GPIO_MODE_IT_RISING
  | GPIO_MODE_IT_FALLING
  | GPIO_MODE_IT_RISING_FALLING

datatype gpio_pull = GPIO_NOPULL | GPIO_PULLUP | GPIO_PULLDOWN

datatype irqn = EXTI nat | EXTI9_5 | EXTI15_10

record pin_irq_hdr =
  hdr_pin :: int
  hdr_mode :: nat
  hdr_fn :: "nat option"
  hdr_args :: nat

record gpio =
  level :: "nat \<Rightarrow> bool"
  pin_cfg :: "nat \<Rightarrow> gpio_mode \<times> gpio_pull"
  pin_irq_hdr_tab :: "pin_irq_hdr list"
  pin_irq_enable_mask :: u32
  nvic :: "irqn list"

definition hdr_free :: pin_irq_hdr where
  "hdr_free = \<lparr>hdr_pin = - 1, hdr_mode = 0, hdr_fn = None, hdr_args = 0\<rparr>"

definition gpio_init :: gpio where
  "gpio_init = \<lparr>level = \<lambda>_. False, pin_cfg = \<lambda>_. (GPIO_MODE_ANALOG, GPIO_NOPULL),
     pin_irq_hdr_tab = replicate 16 hdr_free, pin_irq_enable_mask = 0, nvic = []\<rparr>"

abbreviation (input) PIN_MODE_OUTPUT :: int where "PIN_MODE_OUTPUT \<equiv> 0"
abbreviation (input) PIN_MODE_INPUT :: int where "PIN_MODE_INPUT \<equiv> 1"
abbreviation (input) PIN_MODE_INPUT_PULLUP :: int where "PIN_MODE_INPUT_PULLUP \<equiv> 2"
abbreviation (input) PIN_MODE_INPUT_PULLDOWN :: int where "PIN_MODE_INPUT_PULLDOWN \<equiv> 3"
abbreviation (input) PIN_MODE_OUTPUT_OD :: int where "PIN_MODE_OUTPUT_OD \<equiv> 4"

section \<open>The driver\<close>

text \<open>The entry of \<^verbatim>\<open>pins[]\<close>: its index and its bit mask. The argument of C is 8 bits wide.\<close>

definition PINS_NUM :: nat where "PINS_NUM = 176"

definition get_pin :: "int \<Rightarrow> (nat \<times> nat) option" where
  "get_pin p =
     (let i = nat (p mod 256) in if i < PINS_NUM then Some (i, 2 ^ (i mod 16)) else None)"

definition stm32_pin_write :: "gpio \<Rightarrow> int \<Rightarrow> int \<Rightarrow> gpio" where
  "stm32_pin_write g p v =
     (case get_pin p of None \<Rightarrow> g
      | Some (i, _) \<Rightarrow> g\<lparr>level := (level g)(i := v \<noteq> 0)\<rparr>)"

definition stm32_pin_read :: "gpio \<Rightarrow> int \<Rightarrow> int" where
  "stm32_pin_read g p =
     (case get_pin p of None \<Rightarrow> 0 | Some (i, _) \<Rightarrow> if level g i then 1 else 0)"

definition stm32_pin_mode :: "gpio \<Rightarrow> int \<Rightarrow> int \<Rightarrow> gpio" where
  "stm32_pin_mode g p mode =
     (case get_pin p of None \<Rightarrow> g
      | Some (i, _) \<Rightarrow>
          let c = (if mode = PIN_MODE_OUTPUT then (GPIO_MODE_OUTPUT_PP, GPIO_NOPULL)
                   else if mode = PIN_MODE_INPUT then (GPIO_MODE_INPUT, GPIO_NOPULL)
                   else if mode = PIN_MODE_INPUT_PULLUP then (GPIO_MODE_INPUT, GPIO_PULLUP)
                   else if mode = PIN_MODE_INPUT_PULLDOWN then (GPIO_MODE_INPUT, GPIO_PULLDOWN)
                   else if mode = PIN_MODE_OUTPUT_OD then (GPIO_MODE_OUTPUT_OD, GPIO_NOPULL)
                   else (GPIO_MODE_OUTPUT_PP, GPIO_NOPULL))
          in g\<lparr>pin_cfg := (pin_cfg g)(i := c)\<rparr>)"

fun bit2bitno_loop :: "nat \<Rightarrow> nat \<Rightarrow> nat \<Rightarrow> int" where
  "bit2bitno_loop 0 i b = - 1"
| "bit2bitno_loop (Suc n) i b = (if 2 ^ i = b then int i else bit2bitno_loop n (Suc i) b)"

definition bit2bitno :: "nat \<Rightarrow> int" where
  "bit2bitno b = bit2bitno_loop 32 0 b"

text \<open>The interrupt of a line: \<^verbatim>\<open>pin_irq_map[n].irqno\<close>; its \<^verbatim>\<open>pinbit\<close> is bit \<open>n\<close>.\<close>

definition irqno_of :: "nat \<Rightarrow> irqn" where
  "irqno_of n = (if n \<le> 4 then EXTI n else if n \<le> 9 then EXTI9_5 else EXTI15_10)"

definition get_pin_irq_map :: "nat \<Rightarrow> nat option" where
  "get_pin_irq_map pinbit =
     (let i = bit2bitno pinbit in if i < 0 \<or> i \<ge> 16 then None else Some (nat i))"

definition stm32_pin_attach_irq :: "gpio \<Rightarrow> int \<Rightarrow> nat \<Rightarrow> nat option \<Rightarrow> nat \<Rightarrow> rt_err_t \<times> gpio" where
  "stm32_pin_attach_irq g p mode hdr args =
     (case get_pin p of None \<Rightarrow> (RT_ENOSYS, g)
      | Some (_, b) \<Rightarrow>
          let i = bit2bitno b in
          if i < 0 \<or> i \<ge> 16 then (RT_ENOSYS, g)
          else let e = pin_irq_hdr_tab g ! nat i in
            if hdr_pin e = p \<and> hdr_fn e = hdr \<and> hdr_mode e = mode \<and> hdr_args e = args then (RT_EOK, g)
            else if hdr_pin e \<noteq> - 1 then (RT_EBUSY, g)
            else (RT_EOK, g\<lparr>pin_irq_hdr_tab := (pin_irq_hdr_tab g)[nat i :=
                    \<lparr>hdr_pin = p, hdr_mode = mode, hdr_fn = hdr, hdr_args = args\<rparr>]\<rparr>))"

definition stm32_pin_dettach_irq :: "gpio \<Rightarrow> int \<Rightarrow> rt_err_t \<times> gpio" where
  "stm32_pin_dettach_irq g p =
     (case get_pin p of None \<Rightarrow> (RT_ENOSYS, g)
      | Some (_, b) \<Rightarrow>
          let i = bit2bitno b in
          if i < 0 \<or> i \<ge> 16 then (RT_ENOSYS, g)
          else if hdr_pin (pin_irq_hdr_tab g ! nat i) = - 1 then (RT_EOK, g)
          else (RT_EOK, g\<lparr>pin_irq_hdr_tab := (pin_irq_hdr_tab g)[nat i := hdr_free]\<rparr>))"

definition HAL_NVIC_EnableIRQ :: "irqn \<Rightarrow> gpio \<Rightarrow> gpio" where
  "HAL_NVIC_EnableIRQ q g = g\<lparr>nvic := (if q \<in> set (nvic g) then nvic g else q # nvic g)\<rparr>"

definition HAL_NVIC_DisableIRQ :: "irqn \<Rightarrow> gpio \<Rightarrow> gpio" where
  "HAL_NVIC_DisableIRQ q g = g\<lparr>nvic := filter (\<lambda>x. x \<noteq> q) (nvic g)\<rparr>"

text \<open>
  The settings for the three edge modes. For any other mode the C code leaves
  \<^verbatim>\<open>GPIO_InitStruct.Mode\<close> and \<^verbatim>\<open>Pull\<close> unassigned.
\<close>

definition irq_cfg :: "nat \<Rightarrow> (gpio_mode \<times> gpio_pull) res" where
  "irq_cfg mode =
     (if mode = 0 then Inr (GPIO_MODE_IT_RISING, GPIO_PULLDOWN)
      else if mode = 1 then Inr (GPIO_MODE_IT_FALLING, GPIO_PULLUP)
      else if mode = 2 then Inr (GPIO_MODE_IT_RISING_FALLING, GPIO_NOPULL)
      else Inl Uninitialised)"

definition stm32_pin_irq_enable :: "gpio \<Rightarrow> int \<Rightarrow> nat \<Rightarrow> (rt_err_t \<times> gpio) res" where
  "stm32_pin_irq_enable g p enabled =
     (case get_pin p of None \<Rightarrow> Inr (RT_ENOSYS, g)
      | Some (ix, b) \<Rightarrow>
          if enabled = 1 then
            let i = bit2bitno b in
            if i < 0 \<or> i \<ge> 16 then Inr (RT_ENOSYS, g)
            else let e = pin_irq_hdr_tab g ! nat i in
              if hdr_pin e = - 1 then Inr (RT_ENOSYS, g)
              else bind_res (irq_cfg (hdr_mode e)) (\<lambda>c.
                let g1 = g\<lparr>pin_cfg := (pin_cfg g)(ix := c)\<rparr>;
                    g2 = HAL_NVIC_EnableIRQ (irqno_of (nat i)) g1
                in Inr (RT_EOK, g2\<lparr>pin_irq_enable_mask :=
                     set_bit (nat i) (pin_irq_enable_mask g2)\<rparr>))
          else if enabled = 0 then
            (case get_pin_irq_map b of None \<Rightarrow> Inr (RT_ENOSYS, g)
             | Some n \<Rightarrow>
                 let g1 = g\<lparr>pin_cfg := (pin_cfg g)(ix := (GPIO_MODE_ANALOG, GPIO_NOPULL)),
                            pin_irq_enable_mask := unset_bit n (pin_irq_enable_mask g)\<rparr>
                 in Inr (RT_EOK,
                   if 5 \<le> n \<and> n \<le> 9
                   then (if pin_irq_enable_mask g1 AND 0x3E0 = 0
                         then HAL_NVIC_DisableIRQ (irqno_of n) g1 else g1)
                   else if 10 \<le> n \<and> n \<le> 15
                   then (if pin_irq_enable_mask g1 AND 0xFC00 = 0
                         then HAL_NVIC_DisableIRQ (irqno_of n) g1 else g1)
                   else HAL_NVIC_DisableIRQ (irqno_of n) g1))
          else Inr (- RT_ENOSYS, g))"

text \<open>The handler that a line's interrupt calls, with its argument.\<close>

definition pin_irq_hdr_call :: "gpio \<Rightarrow> nat \<Rightarrow> (nat \<times> nat) option" where
  "pin_irq_hdr_call g irq =
     map_option (\<lambda>f. (f, hdr_args (pin_irq_hdr_tab g ! irq))) (hdr_fn (pin_irq_hdr_tab g ! irq))"

section \<open>The framework\<close>

definition rt_pin_mode :: "gpio \<Rightarrow> int \<Rightarrow> int \<Rightarrow> gpio" where "rt_pin_mode g p m = stm32_pin_mode g p m"
definition rt_pin_write :: "gpio \<Rightarrow> int \<Rightarrow> int \<Rightarrow> gpio" where "rt_pin_write g p v = stm32_pin_write g p v"
definition rt_pin_read :: "gpio \<Rightarrow> int \<Rightarrow> int" where "rt_pin_read g p = stm32_pin_read g p"

definition rt_pin_attach_irq :: "gpio \<Rightarrow> int \<Rightarrow> nat \<Rightarrow> nat option \<Rightarrow> nat \<Rightarrow> rt_err_t \<times> gpio" where
  "rt_pin_attach_irq g p mode hdr args = stm32_pin_attach_irq g p mode hdr args"

definition rt_pin_detach_irq :: "gpio \<Rightarrow> int \<Rightarrow> rt_err_t \<times> gpio" where
  "rt_pin_detach_irq g p = stm32_pin_dettach_irq g p"

definition rt_pin_irq_enable :: "gpio \<Rightarrow> int \<Rightarrow> nat \<Rightarrow> (rt_err_t \<times> gpio) res" where
  "rt_pin_irq_enable g p enabled = stm32_pin_irq_enable g p enabled"

text \<open>The device entries; \<open>szok\<close>: the buffer is not null and has the size of the structure.\<close>

definition pin_dev_read :: "gpio \<Rightarrow> bool \<Rightarrow> nat \<Rightarrow> nat \<Rightarrow> nat \<times> int" where
  "pin_dev_read g szok p sz = (if \<not> szok then (0, 0) else (sz, stm32_pin_read g (int p)))"

definition pin_dev_write :: "gpio \<Rightarrow> bool \<Rightarrow> nat \<Rightarrow> nat \<Rightarrow> nat \<Rightarrow> nat \<times> gpio" where
  "pin_dev_write g szok p v sz = (if \<not> szok then (0, g) else (sz, stm32_pin_write g (int p) (int v)))"

definition pin_dev_control :: "gpio \<Rightarrow> (nat \<times> nat) option \<Rightarrow> rt_err_t \<times> gpio" where
  "pin_dev_control g arg =
     (case arg of None \<Rightarrow> (- RT_ERROR, g)
      | Some (p, m) \<Rightarrow> (0, stm32_pin_mode g (int p) (int m)))"

section \<open>Lemmas\<close>

lemma bit2bitno_loop_pow:
  "i \<le> n \<Longrightarrow> n < i + k \<Longrightarrow> bit2bitno_loop k i (2 ^ n) = int n"
  by (induction k arbitrary: i) (auto simp: Suc_le_eq)

lemma bit2bitno_pow: "n < 32 \<Longrightarrow> bit2bitno (2 ^ n) = int n"
  unfolding bit2bitno_def by (rule bit2bitno_loop_pow) auto

lemma get_pin_Some: "get_pin p = Some (i, b) \<Longrightarrow> i < PINS_NUM \<and> b = 2 ^ (i mod 16)"
  by (auto simp: get_pin_def Let_def split: if_splits)

lemma get_pin_small: "0 \<le> p \<Longrightarrow> p < 176 \<Longrightarrow> get_pin p = Some (nat p, 2 ^ (nat p mod 16))"
  by (simp add: get_pin_def PINS_NUM_def Let_def mod_pos_pos_trivial nat_less_iff)

lemma get_pin_irq_map_pow: "n < 16 \<Longrightarrow> get_pin_irq_map (2 ^ n) = Some n"
  by (simp add: get_pin_irq_map_def bit2bitno_pow)

text \<open>Writing one pin changes the level of that pin only.\<close>

lemma pin_write_level:
  "0 \<le> p \<Longrightarrow> p < 176 \<Longrightarrow> level (rt_pin_write g p v) = (level g)(nat p := v \<noteq> 0)"
  by (simp add: rt_pin_write_def stm32_pin_write_def get_pin_small)

section \<open>Shared interrupt lines\<close>

text \<open>
  Several lines share one interrupt. The interrupt controller has an interrupt enabled
  exactly when the mask has one of its lines.
\<close>

definition nvic_inv :: "gpio \<Rightarrow> bool" where
  [inv_simps]: "nvic_inv g \<longleftrightarrow>
     (\<forall>q. q \<in> set (nvic g) \<longleftrightarrow> (\<exists>n < 16. bit (pin_irq_enable_mask g) n \<and> irqno_of n = q)) \<and>
     length (pin_irq_hdr_tab g) = 16"

lemma nvic_inv_init: "nvic_inv gpio_init"
  by (simp add: inv_simps gpio_init_def)

lemma window_mask_zero:
  assumes "a + k \<le> 32"
  shows "(m AND push_bit a (mask k) = (0::u32)) \<longleftrightarrow> (\<forall>n. a \<le> n \<and> n < a + k \<longrightarrow> \<not> bit m n)"
proof -
  have b: "bit (push_bit a (mask k) :: u32) n \<longleftrightarrow> a \<le> n \<and> n < a + k" for n
    using assms by (auto simp: bit_push_bit_iff bit_mask_iff)
  show ?thesis
  proof
    assume z: "m AND push_bit a (mask k) = 0"
    have "\<not> bit (m AND push_bit a (mask k)) n" for n unfolding z by simp
    then show "\<forall>n. a \<le> n \<and> n < a + k \<longrightarrow> \<not> bit m n" unfolding bit_and_iff b by blast
  next
    assume "\<forall>n. a \<le> n \<and> n < a + k \<longrightarrow> \<not> bit m n"
    then show "m AND push_bit a (mask k) = 0"
      by (intro bit_eqI) (auto simp: bit_and_iff b)
  qed
qed

lemma group_mask_zero:
  "(m AND 0x3E0 = (0::u32)) \<longleftrightarrow> (\<forall>n. 5 \<le> n \<and> n \<le> 9 \<longrightarrow> \<not> bit m n)"
  "(m AND 0xFC00 = (0::u32)) \<longleftrightarrow> (\<forall>n. 10 \<le> n \<and> n \<le> 15 \<longrightarrow> \<not> bit m n)"
proof -
  have "push_bit 5 (mask 5) = (0x3E0::u32)" "push_bit 10 (mask 6) = (0xFC00::u32)"
    by (simp_all add: mask_eq_exp_minus_1)
  with window_mask_zero[of 5 5 m] window_mask_zero[of 10 6 m]
  show "(m AND 0x3E0 = (0::u32)) \<longleftrightarrow> (\<forall>n. 5 \<le> n \<and> n \<le> 9 \<longrightarrow> \<not> bit m n)"
    "(m AND 0xFC00 = (0::u32)) \<longleftrightarrow> (\<forall>n. 10 \<le> n \<and> n \<le> 15 \<longrightarrow> \<not> bit m n)"
    by (simp_all add: less_Suc_eq_le[of _ 9, simplified] less_Suc_eq_le[of _ 15, simplified])
qed

lemma irqno_eq_iff:
  "irqno_of m = irqno_of n \<longleftrightarrow> m = n \<or> 5 \<le> m \<and> m \<le> 9 \<and> 5 \<le> n \<and> n \<le> 9 \<or> 10 \<le> m \<and> 10 \<le> n"
  by (auto simp: irqno_of_def)

lemma nvic_enable_mask: "pin_irq_enable_mask (HAL_NVIC_EnableIRQ q g) = pin_irq_enable_mask g"
  by (simp add: HAL_NVIC_EnableIRQ_def)

text \<open>Enabling a line keeps the agreement; so does disabling one.\<close>

lemma nvic_inv_enable:
  assumes "nvic_inv g" and "n < 16"
  shows "nvic_inv ((HAL_NVIC_EnableIRQ (irqno_of n) (g\<lparr>pin_cfg := c\<rparr>))
    \<lparr>pin_irq_enable_mask := set_bit n (pin_irq_enable_mask g)\<rparr>)"
  using assms by (auto simp: inv_simps HAL_NVIC_EnableIRQ_def bit_set_bit_iff possible_bit_word)

lemma nvic_inv_disable:
  assumes "nvic_inv g" and "n < 16"
    and "g1 = g\<lparr>pin_cfg := c, pin_irq_enable_mask := unset_bit n (pin_irq_enable_mask g)\<rparr>"
    and "off \<longleftrightarrow> (\<forall>m < 16. irqno_of m = irqno_of n \<longrightarrow> \<not> bit (pin_irq_enable_mask g1) m)"
  shows "nvic_inv (if off then HAL_NVIC_DisableIRQ (irqno_of n) g1 else g1)"
  using assms by (auto simp: inv_simps HAL_NVIC_DisableIRQ_def bit_unset_bit_iff)

lemma group_off:
  assumes "n < 16" and "\<not> bit m n"
  shows "(if 5 \<le> n \<and> n \<le> 9 then (if m AND 0x3E0 = (0::u32) then x else y)
     else if 10 \<le> n \<and> n \<le> 15 then (if m AND 0xFC00 = 0 then x else y)
     else x) =
    (if \<forall>k < 16. irqno_of k = irqno_of n \<longrightarrow> \<not> bit m k then x else y)"
  using assms by (auto simp: group_mask_zero irqno_eq_iff)

text \<open>
  The interrupt controller always has exactly those interrupts enabled that some
  enabled pin line needs: enabling or disabling the interrupt of any pin keeps this,
  although up to six lines share one interrupt, for every pin number and every argument.
\<close>

theorem pin_irq_enable_keeps_nvic:
  assumes "nvic_inv g" and "stm32_pin_irq_enable g p enabled = Inr (r, g')"
  shows "nvic_inv g'"
proof (cases "get_pin p")
  case None
  with assms show ?thesis by (simp add: stm32_pin_irq_enable_def)
next
  case (Some ib)
  obtain i b where "ib = (i, b)" by fastforce
  define n where "n = i mod 16"
  have p: "get_pin p = Some (i, 2 ^ n)" and n: "n < 16"
    using get_pin_Some[of p i b] Some \<open>ib = (i, b)\<close> by (auto simp: n_def)
  have bn: "bit2bitno (2 ^ n) = int n" "get_pin_irq_map (2 ^ n) = Some n"
    using n by (simp_all add: bit2bitno_pow get_pin_irq_map_pow)
  let ?g1 = "g\<lparr>pin_cfg := (pin_cfg g)(i := (GPIO_MODE_ANALOG, GPIO_NOPULL)),
     pin_irq_enable_mask := unset_bit n (pin_irq_enable_mask g)\<rparr>"
  consider "enabled = 1" | "enabled = 0" | "enabled \<noteq> 0" "enabled \<noteq> 1" by auto
  then show ?thesis
  proof cases
    case 1
    with assms p bn n nvic_inv_enable[OF assms(1) n] show ?thesis
      by (auto simp: stm32_pin_irq_enable_def Let_def bind_res_Inr_iff nvic_enable_mask split: if_splits)
  next
    case 2
    have u: "\<not> bit (pin_irq_enable_mask ?g1) n" by (simp add: bit_unset_bit_iff)
    from 2 assms(2) p bn have "g' = (if \<forall>k < 16. irqno_of k = irqno_of n \<longrightarrow> \<not> bit (pin_irq_enable_mask ?g1) k
        then HAL_NVIC_DisableIRQ (irqno_of n) ?g1 else ?g1)"
      unfolding stm32_pin_irq_enable_def p option.case prod.case
      using group_off[OF n u, of "HAL_NVIC_DisableIRQ (irqno_of n) ?g1" ?g1]
      by (simp add: Let_def)
    with nvic_inv_disable[OF assms(1) n refl refl] show ?thesis by simp
  next
    case 3
    with assms p show ?thesis by (auto simp: stm32_pin_irq_enable_def)
  qed
qed

theorem pin_irq_enable_keeps_nvic_witness:
  "\<exists>r g'. stm32_pin_irq_enable (snd (stm32_pin_attach_irq gpio_init 69 0 (Some 1) 0)) 69 1 = Inr (r, g') \<and>
     nvic_inv g'"
proof -
  let ?g = "snd (stm32_pin_attach_irq gpio_init 69 0 (Some 1) 0)"
  have g: "get_pin 69 = Some (69, 2 ^ 5)" using get_pin_small[of 69] by simp
  have b: "bit2bitno 32 = 5" using bit2bitno_pow[of 5] by simp
  have "nvic_inv ?g" using nvic_inv_init g b
    by (simp add: stm32_pin_attach_irq_def inv_simps gpio_init_def hdr_free_def)
  moreover obtain r g' where e: "stm32_pin_irq_enable ?g 69 1 = Inr (r, g')"
    using g b by (simp add: stm32_pin_irq_enable_def stm32_pin_attach_irq_def gpio_init_def hdr_free_def
        irq_cfg_def Let_def)
  ultimately show ?thesis using pin_irq_enable_keeps_nvic[of ?g 69 1 r g'] by blast
qed

end
