(* ===== verification/Motor.thy ===== *)
theory Motor
  imports Pwm Pin Float32
begin

text \<open>
  Motor control of \<^verbatim>\<open>applications/main.c\<close>: the two stepper motors behind the PWM devices
  and their direction and enable pins, the speed measurement with the encoder, the PID
  loop and the commands of the control thread. The static variables are the fields of
  \<open>motor\<close>. Time passes in \<^verbatim>\<open>rt_thread_mdelay\<close> only and is added up in \<open>elapsed\<close>; what is sent
  to the camera is collected in \<open>uart4_out\<close>. Log output is left out.
\<close>

section \<open>State\<close>

record motor =
  pwm_dev1 :: "rt_device_pwm option"
  pwm_dev2 :: "rt_device_pwm option"
  pins :: gpio
  g_motor_run :: bool
  g_direction_reverse :: bool
  g_motor_speed_us :: nat
  image_count :: u8
  round_cnt :: u8
  closed_loop_enable :: bool
  target_speed_mmps :: rat
  filtered_speed :: rat
  last_count :: int
  last_time_ms :: u32
  elapsed :: nat
  uart4_out :: string

definition BUZZER :: int where "BUZZER = 58"
definition MICRO_STEPS :: nat where "MICRO_STEPS = 400"
definition PULSE_HALF_CIRC :: nat where "PULSE_HALF_CIRC = 200"
definition PULSE_FULL_CIRC :: nat where "PULSE_FULL_CIRC = 400"
definition SPEED_MID_US :: nat where "SPEED_MID_US = 750"
definition ENCODER_4X :: int where "ENCODER_4X = 500 * 4"
definition WHEEL_CIRCUM_MM :: rat where "WHEEL_CIRCUM_MM = rnd32 (1884956 / 10000)"

text \<open>\<^verbatim>\<open>GET_PIN(E, n)\<close>: port E is the fifth.\<close>

definition GET_PIN_E :: "int \<Rightarrow> int" where "GET_PIN_E n = 16 * 4 + n"

definition MOTOR1_DIR_PLUS :: int where "MOTOR1_DIR_PLUS = GET_PIN_E 10"
definition MOTOR1_DIR_MINUS :: int where "MOTOR1_DIR_MINUS = GET_PIN_E 11"
definition MOTOR1_ENA :: int where "MOTOR1_ENA = GET_PIN_E 3"
definition MOTOR1_PULSE_NEG :: int where "MOTOR1_PULSE_NEG = GET_PIN_E 8"
definition MOTOR2_DIR_PLUS :: int where "MOTOR2_DIR_PLUS = GET_PIN_E 14"
definition MOTOR2_DIR_MINUS :: int where "MOTOR2_DIR_MINUS = GET_PIN_E 15"
definition MOTOR2_ENA :: int where "MOTOR2_ENA = GET_PIN_E 4"
definition MOTOR2_PULSE_NEG :: int where "MOTOR2_PULSE_NEG = GET_PIN_E 12"

definition motor_init :: motor where
  "motor_init =
     \<lparr>pwm_dev1 = None, pwm_dev2 = None, pins = gpio_init, g_motor_run = False,
      g_direction_reverse = False, g_motor_speed_us = SPEED_MID_US, image_count = 0,
      round_cnt = 10, closed_loop_enable = False, target_speed_mmps = 200, filtered_speed = 0,
      last_count = 0, last_time_ms = 0, elapsed = 0, uart4_out = []\<rparr>"

definition mdelay :: "nat \<Rightarrow> motor \<Rightarrow> motor" where
  "mdelay ms m = m\<lparr>elapsed := elapsed m + ms\<rparr>"

definition pin_w :: "int \<Rightarrow> int \<Rightarrow> motor \<Rightarrow> motor" where
  "pin_w p v m = m\<lparr>pins := rt_pin_write (pins m) p v\<rparr>"

definition pin_m :: "int \<Rightarrow> motor \<Rightarrow> motor" where
  "pin_m p m = m\<lparr>pins := rt_pin_mode (pins m) p PIN_MODE_OUTPUT\<rparr>"

text \<open>
  Calls of the PWM framework whose result the code ignores. They always return, so ignoring the result hides no
  fault: of the commands of the driver only the one that reads the timer back divides by the clock.
\<close>

lemma rt_pwm_calls_return:
  "\<exists>x. rt_pwm_set clk dv ch per pul = Inr x" "\<exists>x. rt_pwm_enable clk dv ch = Inr x" "\<exists>x. rt_pwm_disable clk dv ch = Inr x"
  by (cases dv; simp add: rt_pwm_set_def rt_pwm_enable_def rt_pwm_disable_def pwm_call_def pwm_control_def drv_pwm_control_def
      case_prod_beta)+

definition dev_of :: "(rt_err_t \<times> rt_device_pwm option) res \<Rightarrow> rt_device_pwm option \<Rightarrow> rt_device_pwm option" where
  "dev_of r d = (case r of Inr (_, d') \<Rightarrow> d' | Inl _ \<Rightarrow> d)"

definition pwm1_set :: "bus_clocks \<Rightarrow> nat \<Rightarrow> nat \<Rightarrow> motor \<Rightarrow> motor" where
  "pwm1_set clk per pul m = m\<lparr>pwm_dev1 := dev_of (rt_pwm_set clk (pwm_dev1 m) 1 per pul) (pwm_dev1 m)\<rparr>"
definition pwm2_set :: "bus_clocks \<Rightarrow> nat \<Rightarrow> nat \<Rightarrow> motor \<Rightarrow> motor" where
  "pwm2_set clk per pul m = m\<lparr>pwm_dev2 := dev_of (rt_pwm_set clk (pwm_dev2 m) 1 per pul) (pwm_dev2 m)\<rparr>"
definition pwm1_enable :: "bus_clocks \<Rightarrow> motor \<Rightarrow> motor" where
  "pwm1_enable clk m = m\<lparr>pwm_dev1 := dev_of (rt_pwm_enable clk (pwm_dev1 m) 1) (pwm_dev1 m)\<rparr>"
definition pwm2_enable :: "bus_clocks \<Rightarrow> motor \<Rightarrow> motor" where
  "pwm2_enable clk m = m\<lparr>pwm_dev2 := dev_of (rt_pwm_enable clk (pwm_dev2 m) 1) (pwm_dev2 m)\<rparr>"
definition pwm1_disable :: "bus_clocks \<Rightarrow> motor \<Rightarrow> motor" where
  "pwm1_disable clk m = m\<lparr>pwm_dev1 := dev_of (rt_pwm_disable clk (pwm_dev1 m) 1) (pwm_dev1 m)\<rparr>"
definition pwm2_disable :: "bus_clocks \<Rightarrow> motor \<Rightarrow> motor" where
  "pwm2_disable clk m = m\<lparr>pwm_dev2 := dev_of (rt_pwm_disable clk (pwm_dev2 m) 1) (pwm_dev2 m)\<rparr>"

section \<open>Speed measurement\<close>

text \<open>The counter register of the encoder timer has 16 bits.\<close>

definition encoder_get_count :: "u16 \<Rightarrow> int" where
  "encoder_get_count cnt = uint cnt"

definition encoder_reset_count :: u16 where
  "encoder_reset_count = 0"

definition encoder_delta :: "int \<Rightarrow> int \<Rightarrow> int" where
  "encoder_delta current prev =
     (let delta = current - prev in
      if delta > 32767 then delta - 65536 else if delta < - 32767 then delta + 65536 else delta)"

definition get_line_speed_mmps :: "u16 \<Rightarrow> u32 \<Rightarrow> motor \<Rightarrow> rat \<times> motor" where
  "get_line_speed_mmps cnt now m =
     (let current = encoder_get_count cnt;
          dt = fdiv (fmul (fint (uint (now - last_time_ms m))) 1) 1000
      in if dt \<le> 0 then (filtered_speed m, m)
         else let delta = encoder_delta current (last_count m);
                  dist = fdiv (fmul (fint delta) WHEEL_CIRCUM_MM) (of_int ENCODER_4X);
                  raw_speed = fdiv dist dt;
                  filt = (if filtered_speed m = 0 then raw_speed
                          else fadd (fmul (1 / 2) raw_speed) (fmul (fsub 1 (1 / 2)) (filtered_speed m)))
           in (filt, m\<lparr>filtered_speed := filt, last_count := current, last_time_ms := now\<rparr>))"

section \<open>Setting the speed\<close>

definition rpm_freq :: "nat \<Rightarrow> nat" where
  "rpm_freq rpm = (let f = rpm * MICRO_STEPS div 60 in if f < 1 then 1 else f)"

definition motor_set_active_speed_rpm :: "bus_clocks \<Rightarrow> nat \<Rightarrow> motor \<Rightarrow> motor" where
  "motor_set_active_speed_rpm clk rpm m =
     (if pwm_dev1 m = None \<or> pwm_dev2 m = None then m
      else let period_ns = 1000000000 div rpm_freq rpm; pulse_ns = period_ns div 2 in
        if \<not> g_direction_reverse m then pwm1_set clk period_ns pulse_ns m
        else pwm2_set clk period_ns pulse_ns m)"

definition motor_set_speed_rpm_both :: "bus_clocks \<Rightarrow> nat \<Rightarrow> motor \<Rightarrow> motor" where
  "motor_set_speed_rpm_both clk rpm m =
     (if pwm_dev1 m = None \<or> pwm_dev2 m = None then m
      else let period_ns = 1000000000 div rpm_freq rpm; pulse_ns = period_ns div 2 in
        pwm2_set clk period_ns pulse_ns (pwm1_set clk period_ns pulse_ns m))"

definition motor_set_direction :: "bool \<Rightarrow> motor \<Rightarrow> motor" where
  "motor_set_direction reverse m =
     (if \<not> reverse
      then pin_w MOTOR2_ENA 0 (pin_w MOTOR1_ENA 1 (pin_w MOTOR2_DIR_PLUS 0 (pin_w MOTOR1_DIR_PLUS 0 m)))
      else pin_w MOTOR2_ENA 1 (pin_w MOTOR1_ENA 0 (pin_w MOTOR2_DIR_PLUS 1 (pin_w MOTOR1_DIR_PLUS 1 m))))"

definition motor_continuous_stop :: "bus_clocks \<Rightarrow> motor \<Rightarrow> motor" where
  "motor_continuous_stop clk m =
     (if g_motor_run m then pwm2_disable clk (pwm1_disable clk (m\<lparr>g_motor_run := False\<rparr>))
      else pwm2_disable clk (pwm1_disable clk m))"

definition motor_set_speed_level :: "bus_clocks \<Rightarrow> nat \<Rightarrow> motor \<Rightarrow> motor res" where
  "motor_set_speed_level clk period_us m =
     (let m1 = m\<lparr>g_motor_speed_us := period_us\<rparr> in
      if g_motor_run m1 \<and> \<not> closed_loop_enable m1
      then if period_us = 0 then Inl Div_By_Zero
        else let freq_hz = 1000000 div period_us;
                 rpm = u32w (freq_hz * 60) div MICRO_STEPS;
                 pf = u32w (rpm * MICRO_STEPS) div 60;
                 pulse_freq = (if pf < 1 then 1 else pf);
                 period_ns = 1000000000 div pulse_freq;
                 pulse_ns = period_ns div 2
             in Inr (pwm2_set clk period_ns pulse_ns (pwm1_set clk period_ns pulse_ns m1))
      else Inr m1)"

definition jog_time_ms :: "nat \<Rightarrow> nat" where
  "jog_time_ms steps = (let t = u32w (steps * 1000) div 500 in if t < 20 then 20 else t)"

definition motor_move_steps :: "bus_clocks \<Rightarrow> nat \<Rightarrow> nat \<Rightarrow> bool \<Rightarrow> motor \<Rightarrow> motor res" where
  "motor_move_steps clk motor_id steps reverse m =
     (let m1 = (if closed_loop_enable m
                then mdelay 10 (motor_continuous_stop clk (m\<lparr>closed_loop_enable := False\<rparr>)) else m);
          m2 = mdelay 10 (motor_continuous_stop clk m1);
          period_ns = 1000000000 div 500; pulse_ns = period_ns div 2;
          lvl = (if reverse then 1 else 0);
          m3 = (if motor_id = 1
                then pwm1_enable clk (pwm1_set clk period_ns pulse_ns
                  (pin_w MOTOR2_ENA 0 (pin_w MOTOR1_ENA 1 (pin_w MOTOR1_DIR_PLUS lvl m2))))
                else pwm2_enable clk (pwm2_set clk period_ns pulse_ns
                  (pin_w MOTOR1_ENA 0 (pin_w MOTOR2_ENA 1 (pin_w MOTOR2_DIR_PLUS lvl m2)))));
          m4 = mdelay (jog_time_ms steps) m3;
          m5 = (if motor_id = 1 then pwm1_disable clk m4 else pwm2_disable clk m4);
          m6 = pin_w MOTOR2_ENA 0 (pin_w MOTOR1_ENA 0 m5)
      in motor_set_speed_level clk (g_motor_speed_us m6) m6)"

text \<open>Start the motors unless they run; two places of \<^verbatim>\<open>motor_accel\<close> do this.\<close>

definition motor_start :: "bus_clocks \<Rightarrow> motor \<Rightarrow> motor" where
  "motor_start clk m =
     (if \<not> g_motor_run m
      then pwm2_enable clk (pwm1_enable clk
             (motor_set_direction (g_direction_reverse m) (m\<lparr>g_motor_run := True\<rparr>)))
      else m)"

text \<open>
  The loop of \<^verbatim>\<open>motor_accel\<close>. With a step that is not positive it would not end;
  \<open>rpm\<close> is passed on as an unsigned 16-bit number.
\<close>

function accel_loop :: "bus_clocks \<Rightarrow> int \<Rightarrow> int \<Rightarrow> int \<Rightarrow> nat \<Rightarrow> motor \<Rightarrow> motor res" where
  "accel_loop clk rpm target step delay m =
     (if rpm \<le> target
      then if step \<le> 0 then Inl Would_Wait
        else accel_loop clk (rpm + step) target step delay
               (mdelay delay (motor_set_speed_rpm_both clk (nat (rpm mod 65536)) m))
      else Inr m)"
  by pat_completeness auto
termination
  by (relation "measure (\<lambda>(_, rpm, target, _). nat (target + 1 - rpm))") auto

declare accel_loop.simps [simp del]

definition motor_accel :: "bus_clocks \<Rightarrow> int \<Rightarrow> int \<Rightarrow> int \<Rightarrow> nat \<Rightarrow> motor \<Rightarrow> motor res" where
  "motor_accel clk start_rpm target_rpm step_rpm step_delay m =
     (if start_rpm \<ge> target_rpm
      then Inr (motor_start clk (motor_set_speed_rpm_both clk (nat (target_rpm mod 65536)) m))
      else bind_res
        (accel_loop clk (start_rpm + step_rpm) target_rpm step_rpm step_delay
          (mdelay step_delay (motor_start clk
            (motor_set_speed_rpm_both clk (nat (start_rpm mod 65536)) m))))
        (\<lambda>m1. Inr (motor_set_speed_rpm_both clk (nat (target_rpm mod 65536)) m1)))"

definition motor_hw_init :: "rt_device_pwm option \<Rightarrow> rt_device_pwm option \<Rightarrow> motor \<Rightarrow> motor" where
  "motor_hw_init found1 found2 m =
     (let m1 = pin_w MOTOR2_PULSE_NEG 0 (pin_m MOTOR2_PULSE_NEG
                 (pin_w MOTOR1_PULSE_NEG 0 (pin_m MOTOR1_PULSE_NEG m)));
          m2 = pin_w MOTOR2_DIR_MINUS 0 (pin_m MOTOR2_DIR_MINUS (pin_m MOTOR2_DIR_PLUS
                 (pin_w MOTOR1_DIR_MINUS 0 (pin_m MOTOR1_DIR_MINUS (pin_m MOTOR1_DIR_PLUS m1)))));
          m3 = pin_w MOTOR2_ENA 0 (pin_w MOTOR1_ENA 0 (pin_m MOTOR2_ENA (pin_m MOTOR1_ENA m2)));
          m4 = m3\<lparr>pwm_dev1 := found1, pwm_dev2 := found2\<rparr>
      in if found1 = None \<or> found2 = None then m4 else m4\<lparr>g_motor_speed_us := SPEED_MID_US\<rparr>)"

section \<open>The PID loop\<close>

record pid =
  integral :: rat
  prev_error :: rat
  was_enabled :: bool

definition pid_init :: pid where
  "pid_init = \<lparr>integral = 0, prev_error = 0, was_enabled = False\<rparr>"

text \<open>The gains: \<^verbatim>\<open>Kp = 1\<close>, \<^verbatim>\<open>Ki = 0.05f\<close>, \<^verbatim>\<open>Kd = 0\<close>, and the period \<^verbatim>\<open>dt = 0.02f\<close>.\<close>

definition Ki_gain :: rat where "Ki_gain = rnd32 (5 / 100)"
definition pid_dt :: rat where "pid_dt = rnd32 (2 / 100)"

definition clamp :: "rat \<Rightarrow> rat \<Rightarrow> rat \<Rightarrow> rat" where
  "clamp lo hi x = (let y = (if x > hi then hi else x) in if y < lo then lo else y)"

text \<open>
  One round of \<^verbatim>\<open>speed_pid_thread\<close> with the encoder count and the tick it reads: the new
  controller and motor states, and the speed it commands, if it commands one.
\<close>

definition pid_round :: "bus_clocks \<Rightarrow> u16 \<Rightarrow> u32 \<Rightarrow> pid \<times> motor \<Rightarrow> nat option \<times> pid \<times> motor" where
  "pid_round clk cnt now pm =
     (let p = fst pm; m = snd pm in
      if closed_loop_enable m then
        let p1 = (if \<not> was_enabled p then \<lparr>integral = 0, prev_error = 0, was_enabled = True\<rparr> else p);
            m1 = (if \<not> was_enabled p then m\<lparr>filtered_speed := 0\<rparr> else m);
            current_speed = fst (get_line_speed_mmps cnt now m1);
            m2 = snd (get_line_speed_mmps cnt now m1);
            err = fsub (target_speed_mmps m2) current_speed;
            i = clamp (- 50) 50 (fadd (integral p1) (fmul err pid_dt));
            derivative = fdiv (fsub err (prev_error p1)) pid_dt;
            output = clamp 0 800 (fadd (fadd (fmul 1 err) (fmul Ki_gain i)) (fmul 0 derivative));
            rpm = f2u16 output
        in (Some rpm, \<lparr>integral = i, prev_error = err, was_enabled = True\<rparr>,
            mdelay 20 (motor_set_active_speed_rpm clk rpm m2))
      else (None, pid_init, mdelay 20 (m\<lparr>filtered_speed := 0\<rparr>)))"

section \<open>The commands\<close>

definition beep :: "nat \<Rightarrow> motor \<Rightarrow> motor" where
  "beep ms m = pin_w BUZZER 0 (mdelay ms (pin_w BUZZER 1 m))"

text \<open>\<^verbatim>\<open>(uint32_t)(target_speed_mmps * 60.0f / (3.14159f * 60.0f))\<close>, at least 30.\<close>

definition start_target_rpm :: "rat \<Rightarrow> nat" where
  "start_target_rpm v =
     (let r = nat \<lfloor>fdiv (fmul v 60) (fmul (rnd32 (314159 / 100000)) 60)\<rfloor> in if r < 30 then 30 else r)"

text \<open>The \<^verbatim>\<open>switch\<close> of \<^verbatim>\<open>uart_ctrl_thread_entry\<close>.\<close>

definition exec_cmd :: "bus_clocks \<Rightarrow> char \<Rightarrow> motor \<Rightarrow> motor res" where
  "exec_cmd clk ch m =
     (let stop = (\<lambda>m. motor_continuous_stop clk (m\<lparr>closed_loop_enable := False\<rparr>)) in
      if ch = CHR ''b'' then
        Inr (beep 100 ((stop m)\<lparr>uart4_out := uart4_out m @ ''pp''\<rparr>))
      else if ch = CHR ''s'' then Inr (stop m)
      else if ch = CHR ''u'' then
        let m1 = mdelay 20 (stop m);
            m2 = motor_set_direction False (m1\<lparr>g_direction_reverse := False\<rparr>)
        in bind_res (motor_accel clk 50 (int (start_target_rpm (target_speed_mmps m2))) 5 80 m2)
             (\<lambda>m3. Inr (m3\<lparr>closed_loop_enable := True\<rparr>))
      else if ch = CHR ''o'' then
        let m1 = motor_continuous_stop clk m;
            m2 = motor_set_direction True (m1\<lparr>closed_loop_enable := True, g_direction_reverse := True\<rparr>)
        in Inr (pwm1_disable clk (pwm2_enable clk m2))
      else if ch = CHR ''h'' then motor_move_steps clk 1 PULSE_HALF_CIRC False m
      else if ch = CHR ''a'' then motor_move_steps clk 1 PULSE_FULL_CIRC False m
      else if ch = CHR ''y'' then motor_move_steps clk 1 PULSE_HALF_CIRC True m
      else if ch = CHR ''z'' then motor_move_steps clk 1 PULSE_FULL_CIRC True m
      else if ch = CHR ''d'' then motor_move_steps clk 2 PULSE_HALF_CIRC False m
      else if ch = CHR ''x'' then motor_move_steps clk 2 PULSE_FULL_CIRC False m
      else if ch = CHR ''p'' then motor_move_steps clk 2 PULSE_HALF_CIRC True m
      else if ch = CHR ''q'' then motor_move_steps clk 2 PULSE_FULL_CIRC True m
      else if ch = CHR ''w'' then Inr (m\<lparr>target_speed_mmps := 300\<rparr>)
      else if ch = CHR ''m'' then Inr (m\<lparr>target_speed_mmps := 200\<rparr>)
      else if ch = CHR ''l'' then Inr (m\<lparr>target_speed_mmps := 100\<rparr>)
      else if ch = CHR ''t'' then
        motor_accel clk 100 200 20 50
          (motor_set_direction False ((stop m)\<lparr>g_direction_reverse := False\<rparr>))
      else if ch = CHR ''('' then Inr (m\<lparr>image_count := image_count m + 1\<rparr>)
      else if ch = CHR '')'' then
        let m1 = beep 80 (mdelay 80 (beep 80 m))
        in Inr (m1\<lparr>round_cnt := image_count m1, image_count := 0\<rparr>)
      else Inr m)"

section \<open>What the operations change\<close>

definition step_cfg :: "nat \<Rightarrow> nat \<Rightarrow> rt_pwm_configuration" where
  "step_cfg per pul = pwm_cfg0\<lparr>channel := 1, period := per, pulse := pul\<rparr>"

definition set_dev :: "bus_clocks \<Rightarrow> nat \<Rightarrow> nat \<Rightarrow> rt_device_pwm \<Rightarrow> rt_device_pwm" where
  "set_dev clk per pul d = d\<lparr>tim := snd (drv_pwm_set clk (tim d) (step_cfg per pul))\<rparr>"

lemma hal_channel_1: "channel cfg = 1 \<Longrightarrow> hal_channel cfg = 0"
  by (simp add: hal_channel_def u32w_def)

lemma rt_pwm_calls:
  "dev_of (rt_pwm_set clk dv 1 per pul) dv = map_option (set_dev clk per pul) dv"
  "dev_of (rt_pwm_enable clk dv 1) dv = map_option (\<lambda>d. d\<lparr>tim := HAL_TIM_PWM_Start (tim d) 0\<rparr>) dv"
  "dev_of (rt_pwm_disable clk dv 1) dv = map_option (\<lambda>d. d\<lparr>tim := HAL_TIM_PWM_Stop (tim d) 0\<rparr>) dv"
  by (cases dv; simp add: dev_of_def rt_pwm_set_def rt_pwm_enable_def rt_pwm_disable_def pwm_call_def
      pwm_control_def drv_pwm_control_def drv_pwm_enable_def abs_channel_def hal_channel_1 set_dev_def
      step_cfg_def case_prod_beta pwm_cfg0_def)+

lemmas pwm_ops = pwm1_set_def pwm2_set_def pwm1_enable_def pwm2_enable_def pwm1_disable_def
  pwm2_disable_def rt_pwm_calls

text \<open>A motor gets step pulses while channel 1 of its timer is on.\<close>

definition pulsing :: "rt_device_pwm option \<Rightarrow> bool" where
  "pulsing dv \<longleftrightarrow> (case dv of None \<Rightarrow> False | Some d \<Rightarrow> 0 \<in> set (CCE (tim d)))"

lemma CCE_set: "CCE (snd (drv_pwm_set clk t cfg)) = CCE t"
  by (simp add: drv_pwm_set_def Let_def)

lemma pulsing_ops [simp]:
  "pulsing (map_option (set_dev clk per pul) dv) = pulsing dv"
  "pulsing (map_option (\<lambda>d. d\<lparr>tim := HAL_TIM_PWM_Start (tim d) 0\<rparr>) dv) = (dv \<noteq> None)"
  "\<not> pulsing (map_option (\<lambda>d. d\<lparr>tim := HAL_TIM_PWM_Stop (tim d) 0\<rparr>) dv)"
  by (cases dv; simp add: pulsing_def set_dev_def CCE_set HAL_TIM_PWM_Start_def HAL_TIM_PWM_Stop_def Let_def)+

text \<open>The enable inputs of the two motors: pins E3 and E4.\<close>

definition ena1 :: "motor \<Rightarrow> bool" where "ena1 m = level (pins m) 67"
definition ena2 :: "motor \<Rightarrow> bool" where "ena2 m = level (pins m) 68"

lemmas motor_pins = BUZZER_def MOTOR1_DIR_PLUS_def MOTOR1_DIR_MINUS_def MOTOR1_ENA_def
  MOTOR1_PULSE_NEG_def MOTOR2_DIR_PLUS_def MOTOR2_DIR_MINUS_def MOTOR2_ENA_def
  MOTOR2_PULSE_NEG_def GET_PIN_E_def

lemma level_pin_mode: "level (rt_pin_mode g p v) = level g"
  by (simp add: rt_pin_mode_def stm32_pin_mode_def Let_def split: option.split)

lemmas motor_ops = pwm_ops pin_w_def pin_m_def mdelay_def beep_def ena1_def ena2_def motor_pins
  pin_write_level level_pin_mode

section \<open>Encoder\<close>

text \<open>
  The distance between two readings of the 16-bit encoder counter is computed right
  across the wrap-around in both directions: when the counter has really moved by \<open>d\<close>
  pulses since the last reading, and \<open>d\<close> is at most 32767 in magnitude, the difference
  the code computes is \<open>d\<close>.
\<close>

theorem encoder_delta_correct:
  assumes "- 32767 \<le> d" and "d \<le> 32767"
  shows "encoder_delta (encoder_get_count (c + of_int d)) (encoder_get_count c) = d"
proof -
  have e: "uint (c + of_int d) = (uint c + d) mod 65536"
    by (simp add: uint_word_ariths uint_word_of_int mod_simps)
  have "0 \<le> uint c" "uint c < 65536" using uint_lt2p[of c] by simp_all
  then have "(uint c + d) mod 65536 =
      (if uint c + d < 0 then uint c + d + 65536
       else if uint c + d \<ge> 65536 then uint c + d - 65536 else uint c + d)"
    using assms by (smt (verit) minus_mod_self2 mod_add_self2 mod_pos_pos_trivial)
  with assms \<open>0 \<le> uint c\<close> \<open>uint c < 65536\<close> show ?thesis
    by (simp add: encoder_delta_def encoder_get_count_def e Let_def)
qed

theorem encoder_delta_correct_witness:
  "encoder_delta (encoder_get_count 5) (encoder_get_count 65530) = 11 \<and>
   encoder_delta (encoder_get_count 65530) (encoder_get_count 5) = - 11"
proof -
  have e: "(65530::u16) + of_int 11 = 5" "(5::u16) + of_int (- 11) = 65530" by (code_simp)+
  show ?thesis
    using encoder_delta_correct[of 11 65530] encoder_delta_correct[of "- 11" 5] unfolding e by simp
qed

section \<open>The PID controller\<close>

definition pid_inv :: "pid \<Rightarrow> bool" where
  [inv_simps]: "pid_inv p \<longleftrightarrow> - 50 \<le> integral p \<and> integral p \<le> 50"

lemma clamp_bounds: "lo \<le> hi \<Longrightarrow> lo \<le> clamp lo hi x \<and> clamp lo hi x \<le> hi"
  by (auto simp: clamp_def Let_def)

lemma clamp_id: "lo \<le> x \<Longrightarrow> x \<le> hi \<Longrightarrow> clamp lo hi x = x"
  by (auto simp: clamp_def Let_def)

lemma pid_round_bounds:
  assumes "pid_round clk cnt now (p, m) = (out, p', m')"
  shows "pid_inv p' \<and> (\<forall>rpm. out = Some rpm \<longrightarrow> rpm \<le> 800) \<and> (out = None \<longleftrightarrow> \<not> closed_loop_enable m)"
proof -
  have c: "- 50 \<le> clamp (- 50) 50 x \<and> clamp (- 50) 50 x \<le> 50" "0 \<le> clamp 0 800 x \<and> clamp 0 800 x \<le> 800" for x
    by (rule clamp_bounds; simp)+
  have f: "f2u16 (clamp 0 800 x) \<le> 800" for x
    using c(2)[of x] by (intro f2u16_bound) simp_all
  show ?thesis
    using assms c f by (auto simp: pid_round_def Let_def inv_simps pid_init_def split: if_splits)
qed

lemma rpm_freq_bounds: "rpm \<le> 800 \<Longrightarrow> 1 \<le> rpm_freq rpm \<and> rpm_freq rpm \<le> 5333"
proof -
  assume "rpm \<le> 800"
  then have "rpm * 400 div 60 \<le> 800 * 400 div 60" by (intro div_le_mono) simp
  then show ?thesis by (simp add: rpm_freq_def MICRO_STEPS_def Let_def)
qed

text \<open>Every round of the controller, in any order with changes of the motor state.\<close>

inductive pid_reach :: "bus_clocks \<Rightarrow> pid \<Rightarrow> bool" for clk where
  init: "pid_reach clk pid_init"
| round: "pid_reach clk p \<Longrightarrow> pid_round clk cnt now (p, m) = (out, p', m') \<Longrightarrow> pid_reach clk p'"

text \<open>
  C37. The speed controller stays within its limits for all encoder readings, clock values
  and states of the motors, over any number of rounds: the integral term never leaves
  the range from -50 to 50, and the speed it commands is at most 800 revolutions per
  minute, a step frequency between 1 and 5333 Hz; it commands one exactly when the loop
  is closed.
\<close>

theorem pid_within_limits:
  assumes "pid_reach clk p" and "pid_round clk cnt now (p, m) = (out, p', m')"
  shows "- 50 \<le> integral p \<and> integral p \<le> 50 \<and> - 50 \<le> integral p' \<and> integral p' \<le> 50 \<and>
    (\<forall>rpm. out = Some rpm \<longrightarrow> rpm \<le> 800 \<and> 1 \<le> rpm_freq rpm \<and> rpm_freq rpm \<le> 5333) \<and>
    (out = None \<longleftrightarrow> \<not> closed_loop_enable m)"
proof -
  have "pid_inv p" using assms(1)
  proof induction
    case init
    show ?case by (simp add: inv_simps pid_init_def)
  next
    case (round p cnt now m out p' m')
    then show ?case using pid_round_bounds by blast
  qed
  with pid_round_bounds[OF assms(2)] rpm_freq_bounds show ?thesis by (simp add: inv_simps)
qed

theorem pid_within_limits_witness:
  "\<exists>out p' m'. pid_round demo_clk 100 20 (pid_init, motor_init\<lparr>closed_loop_enable := True\<rparr>) = (out, p', m') \<and>
     - 50 \<le> integral p' \<and> integral p' \<le> 50 \<and> out \<noteq> None"
proof -
  obtain out p' m' where r: "pid_round demo_clk 100 20 (pid_init, motor_init\<lparr>closed_loop_enable := True\<rparr>) = (out, p', m')"
    using prod_cases3 by blast
  from pid_within_limits[OF pid_reach.init r] r show ?thesis by auto
qed

section \<open>Commands\<close>

text \<open>What all commands keep: a non-zero speed level, and at most one enabled motor.\<close>

definition motor_inv :: "motor \<Rightarrow> bool" where
  [inv_simps]: "motor_inv m \<longleftrightarrow> 0 < g_motor_speed_us m \<and> \<not> (ena1 m \<and> ena2 m)"

lemma motor_fields_speed [simp]:
  "g_motor_speed_us (motor_set_speed_rpm_both clk r m) = g_motor_speed_us m"
  "pins (motor_set_speed_rpm_both clk r m) = pins m"
  "g_motor_run (motor_set_speed_rpm_both clk r m) = g_motor_run m"
  "g_direction_reverse (motor_set_speed_rpm_both clk r m) = g_direction_reverse m"
  "closed_loop_enable (motor_set_speed_rpm_both clk r m) = closed_loop_enable m"
  "elapsed (motor_set_speed_rpm_both clk r m) = elapsed m"
  by (simp_all add: motor_set_speed_rpm_both_def Let_def pwm_ops)

lemma motor_fields_stop [simp]:
  "g_motor_speed_us (motor_continuous_stop clk m) = g_motor_speed_us m"
  "pins (motor_continuous_stop clk m) = pins m"
  "g_motor_run (motor_continuous_stop clk m) = False"
  "closed_loop_enable (motor_continuous_stop clk m) = closed_loop_enable m"
  "g_direction_reverse (motor_continuous_stop clk m) = g_direction_reverse m"
  "\<not> pulsing (pwm_dev1 (motor_continuous_stop clk m))"
  "\<not> pulsing (pwm_dev2 (motor_continuous_stop clk m))"
  by (simp_all add: motor_continuous_stop_def pwm_ops)

lemma motor_set_direction_ena:
  "ena1 (motor_set_direction r m) = (\<not> r)" "ena2 (motor_set_direction r m) = r"
  "g_motor_speed_us (motor_set_direction r m) = g_motor_speed_us m"
  "closed_loop_enable (motor_set_direction r m) = closed_loop_enable m"
  "g_motor_run (motor_set_direction r m) = g_motor_run m"
  "g_direction_reverse (motor_set_direction r m) = g_direction_reverse m"
  "target_speed_mmps (motor_set_direction r m) = target_speed_mmps m"
  by (simp_all add: motor_set_direction_def motor_ops)

lemma motor_start_inv: "motor_inv m \<Longrightarrow> motor_inv (motor_start clk m)"
  using motor_set_direction_ena[of "g_direction_reverse m" "m\<lparr>g_motor_run := True\<rparr>"]
  by (auto simp: motor_start_def inv_simps pwm_ops ena1_def ena2_def)

lemma motor_inv_cong:
  "g_motor_speed_us m' = g_motor_speed_us m \<Longrightarrow> pins m' = pins m \<Longrightarrow> motor_inv m' = motor_inv m"
  by (simp add: inv_simps ena1_def ena2_def)

text \<open>The acceleration ends, and keeps what every change of speed keeps.\<close>

lemma accel_loop_inv:
  "0 < step \<Longrightarrow> motor_inv m \<Longrightarrow> \<exists>m'. accel_loop clk rpm target step delay m = Inr m' \<and> motor_inv m'"
proof (induction clk rpm target step delay m rule: accel_loop.induct)
  case (1 clk rpm target step delay m)
  have "motor_inv (mdelay delay (motor_set_speed_rpm_both clk (nat (rpm mod 65536)) m))"
    using 1(3) by (subst motor_inv_cong[of _ m]) (simp_all add: mdelay_def)
  with 1 show ?case by (subst accel_loop.simps) auto
qed

lemma motor_accel_inv:
  assumes "0 < step" and "motor_inv m"
  shows "\<exists>m'. motor_accel clk start target step delay m = Inr m' \<and> motor_inv m'"
proof -
  have both: "motor_inv (motor_set_speed_rpm_both clk r m)" if "motor_inv m" for r m
    using that by (subst motor_inv_cong[of _ m]) simp_all
  have "motor_inv (mdelay delay (motor_start clk (motor_set_speed_rpm_both clk r m)))" for r
    using motor_start_inv[OF both[OF assms(2)]] by (subst motor_inv_cong[of _ "motor_start clk _"]) (simp_all add: mdelay_def)
  from accel_loop_inv[OF assms(1) this, of clk "start + step" target delay "nat (start mod 65536)"]
  obtain m1 where "accel_loop clk (start + step) target step delay
      (mdelay delay (motor_start clk (motor_set_speed_rpm_both clk (nat (start mod 65536)) m))) = Inr m1" "motor_inv m1"
    by blast
  then show ?thesis
    using motor_start_inv[OF both[OF assms(2)]] both by (simp add: motor_accel_def)
qed

lemma motor_move_steps_inv:
  assumes "motor_inv m"
  shows "\<exists>m'. motor_move_steps clk i n r m = Inr m' \<and> motor_inv m'"
proof -
  have lv: "\<exists>m'. motor_set_speed_level clk us m = Inr m' \<and> motor_inv m'" if "motor_inv m" "0 < us" for m us
    using that by (auto simp: motor_set_speed_level_def Let_def inv_simps pwm_ops ena1_def ena2_def)
  show ?thesis
    unfolding motor_move_steps_def Let_def
    by (rule lv) (use assms in \<open>auto simp: inv_simps motor_ops motor_continuous_stop_def\<close>)
qed

lemma exec_cmd_inv:
  assumes "motor_inv m"
  shows "\<exists>m'. exec_cmd clk ch m = Inr m' \<and> motor_inv m'"
proof -
  have d: "motor_inv (motor_set_direction r m)" if "0 < g_motor_speed_us m" for r m
    using that by (simp add: inv_simps motor_set_direction_ena)
  have mv: "\<exists>m'. motor_move_steps clk i n r m = Inr m' \<and> motor_inv m'" for i n r
    by (rule motor_move_steps_inv[OF assms])
  have ac: "\<exists>m'. motor_accel clk a b c dl (motor_set_direction r m) = Inr m' \<and> motor_inv m'"
    if "0 < c" "0 < g_motor_speed_us m" for a b c dl r m
    by (rule motor_accel_inv[OF that(1) d[OF that(2)]])
  have us: "0 < g_motor_speed_us m" using assms by (simp add: inv_simps)
  have cl: "motor_inv (m\<lparr>closed_loop_enable := b\<rparr>) = motor_inv m" for m b
    by (rule motor_inv_cong) simp_all
  have "\<exists>m'. exec_cmd clk (CHR ''u'') m = Inr m' \<and> motor_inv m'"
  proof -
    let ?m2 = "motor_set_direction False ((mdelay 20 (motor_continuous_stop clk (m\<lparr>closed_loop_enable := False\<rparr>)))
      \<lparr>g_direction_reverse := False\<rparr>)"
    obtain m3 where "motor_accel clk 50 (int (start_target_rpm (target_speed_mmps ?m2))) 5 80 ?m2 = Inr m3" "motor_inv m3"
      using ac[of 5 "(mdelay 20 (motor_continuous_stop clk (m\<lparr>closed_loop_enable := False\<rparr>)))\<lparr>g_direction_reverse := False\<rparr>"
          50 "int (start_target_rpm (target_speed_mmps ?m2))" 80 False] us
      by (auto simp: mdelay_def)
    then show ?thesis by (simp add: exec_cmd_def Let_def cl)
  qed
  moreover have "\<exists>m'. exec_cmd clk (CHR ''t'') m = Inr m' \<and> motor_inv m'"
    using ac[of 20 "(motor_continuous_stop clk (m\<lparr>closed_loop_enable := False\<rparr>))\<lparr>g_direction_reverse := False\<rparr>" 100 200 50 False] us
    by (simp add: exec_cmd_def Let_def)
  moreover have "\<exists>m'. exec_cmd clk (CHR ''o'') m = Inr m' \<and> motor_inv m'"
    using motor_set_direction_ena[of True "(motor_continuous_stop clk m)\<lparr>closed_loop_enable := True, g_direction_reverse := True\<rparr>"] us
    by (simp add: exec_cmd_def Let_def inv_simps pwm_ops ena1_def ena2_def)
  moreover have "\<exists>m'. exec_cmd clk ch m = Inr m' \<and> motor_inv m'"
    if "ch \<noteq> CHR ''u''" "ch \<noteq> CHR ''t''" "ch \<noteq> CHR ''o''"
    using that assms mv by (simp add: exec_cmd_def Let_def inv_simps motor_ops)
  ultimately show ?thesis by (cases "ch \<in> {CHR ''u'', CHR ''t'', CHR ''o''}") auto
qed

lemma motor_fields_active [simp]:
  "pins (motor_set_active_speed_rpm clk r m) = pins m"
  "g_motor_speed_us (motor_set_active_speed_rpm clk r m) = g_motor_speed_us m"
  "pulsing (pwm_dev1 (motor_set_active_speed_rpm clk r m)) = pulsing (pwm_dev1 m)"
  "pulsing (pwm_dev2 (motor_set_active_speed_rpm clk r m)) = pulsing (pwm_dev2 m)"
  "g_motor_run (motor_set_active_speed_rpm clk r m) = g_motor_run m"
  "closed_loop_enable (motor_set_active_speed_rpm clk r m) = closed_loop_enable m"
  using pulsing_ops(1)[of clk _ _ "pwm_dev1 m"] pulsing_ops(1)[of clk _ _ "pwm_dev2 m"]
  by (simp_all add: motor_set_active_speed_rpm_def Let_def pwm_ops)

lemma pid_round_keeps:
  assumes "pid_round clk cnt now (p, m) = (out, p', m')"
  shows "pins m' = pins m" "g_motor_speed_us m' = g_motor_speed_us m"
    "pulsing (pwm_dev1 m') = pulsing (pwm_dev1 m)" "pulsing (pwm_dev2 m') = pulsing (pwm_dev2 m)"
    "g_motor_run m' = g_motor_run m" "closed_loop_enable m' = closed_loop_enable m"
proof -
  have g: "pins (snd (get_line_speed_mmps cnt now m)) = pins m"
    "g_motor_speed_us (snd (get_line_speed_mmps cnt now m)) = g_motor_speed_us m"
    "pwm_dev1 (snd (get_line_speed_mmps cnt now m)) = pwm_dev1 m"
    "pwm_dev2 (snd (get_line_speed_mmps cnt now m)) = pwm_dev2 m"
    "g_motor_run (snd (get_line_speed_mmps cnt now m)) = g_motor_run m"
    "closed_loop_enable (snd (get_line_speed_mmps cnt now m)) = closed_loop_enable m" for m
    by (simp_all add: get_line_speed_mmps_def Let_def)
  show "pins m' = pins m" "g_motor_speed_us m' = g_motor_speed_us m"
    "pulsing (pwm_dev1 m') = pulsing (pwm_dev1 m)" "pulsing (pwm_dev2 m') = pulsing (pwm_dev2 m)"
    "g_motor_run m' = g_motor_run m" "closed_loop_enable m' = closed_loop_enable m"
    using assms by (auto simp: pid_round_def Let_def mdelay_def g split: if_splits)
qed

text \<open>The control thread and the PID thread share the motors.\<close>

inductive motor_reach :: "bus_clocks \<Rightarrow> motor \<Rightarrow> bool" for clk where
  init: "motor_reach clk (motor_hw_init d1 d2 motor_init)"
| command: "motor_reach clk m \<Longrightarrow> exec_cmd clk ch m = Inr m' \<Longrightarrow> motor_reach clk m'"
| pid: "motor_reach clk m \<Longrightarrow> pid_round clk cnt now (p, m) = (out, p', m') \<Longrightarrow> motor_reach clk m'"

lemma motor_reach_inv: "motor_reach clk m \<Longrightarrow> motor_inv m"
proof (induction rule: motor_reach.induct)
  case (init d1 d2)
  show ?case
    by (simp add: motor_hw_init_def Let_def inv_simps motor_ops motor_init_def SPEED_MID_US_def)
next
  case (command m ch m')
  then show ?case using exec_cmd_inv[of m clk ch] by auto
next
  case (pid m cnt now p out p' m')
  then show ?case using pid_round_keeps[OF pid(2)] motor_inv_cong[of m' m] by simp
qed

text \<open>
  C29. From every state the two threads can reach, every command completes: no byte makes
  the control thread divide by zero or loop for ever, and between commands the two
  motors are never enabled at the same time, whichever commands and control rounds came
  before, also when no PWM device was found.
\<close>

theorem commands_complete_one_motor_enabled:
  assumes "motor_reach clk m"
  shows "(\<exists>m'. exec_cmd clk ch m = Inr m' \<and> \<not> (ena1 m' \<and> ena2 m')) \<and> \<not> (ena1 m \<and> ena2 m)"
  using motor_reach_inv[OF assms] exec_cmd_inv[OF motor_reach_inv[OF assms], of clk ch]
  by (auto simp: motor_inv_def)

fun pid_rounds :: "bus_clocks \<Rightarrow> (u16 \<times> u32) list \<Rightarrow> pid \<times> motor \<Rightarrow> pid \<times> motor" where
  "pid_rounds clk [] pm = pm"
| "pid_rounds clk ((cnt, now) # rs) pm = pid_rounds clk rs (snd (pid_round clk cnt now pm))"

lemma pid_rounds_keep:
  "pulsing (pwm_dev1 (snd (pid_rounds clk rs (p, m)))) = pulsing (pwm_dev1 m) \<and>
   pulsing (pwm_dev2 (snd (pid_rounds clk rs (p, m)))) = pulsing (pwm_dev2 m) \<and>
   closed_loop_enable (snd (pid_rounds clk rs (p, m))) = closed_loop_enable m"
proof (induction rs arbitrary: p m)
  case (Cons r rs)
  obtain cnt now where r: "r = (cnt, now)" by fastforce
  obtain out p' m' where e: "pid_round clk cnt now (p, m) = (out, p', m')" using prod_cases3 by blast
  from Cons.IH[of p' m'] pid_round_keeps[OF e] show ?case by (simp add: r e)
qed simp

text \<open>
  The stop command stops: after it neither motor gets step pulses and the control loop
  is open, in every state, and this remains so through any number of control rounds until
  another command comes.
\<close>

theorem stop_command_stops:
  assumes "ch = CHR ''s'' \<or> ch = CHR ''b''"
  shows "\<exists>m'. exec_cmd clk ch m = Inr m' \<and> \<not> g_motor_run m' \<and>
    (let m'' = snd (pid_rounds clk rs (p, m')) in
       \<not> pulsing (pwm_dev1 m'') \<and> \<not> pulsing (pwm_dev2 m'') \<and> \<not> closed_loop_enable m'')"
proof -
  define m1 where "m1 = motor_continuous_stop clk (m\<lparr>closed_loop_enable := False\<rparr>)"
  define m' where "m' = (if ch = CHR ''s'' then m1 else beep 100 (m1\<lparr>uart4_out := uart4_out m @ ''pp''\<rparr>))"
  have "exec_cmd clk ch m = Inr m'" 
    using assms unfolding m'_def m1_def by (elim disjE) (simp_all add: exec_cmd_def Let_def)
  moreover have "\<not> pulsing (pwm_dev1 m') \<and> \<not> pulsing (pwm_dev2 m') \<and> \<not> closed_loop_enable m' \<and> \<not> g_motor_run m'"
    by (simp add: m'_def m1_def beep_def pin_w_def mdelay_def)
  ultimately show ?thesis using pid_rounds_keep[of clk rs p m'] by (simp add: Let_def)
qed

theorem stop_command_stops_witness:
  "\<exists>m'. exec_cmd demo_clk (CHR ''s'') motor_init = Inr m' \<and>
     \<not> closed_loop_enable (snd (pid_rounds demo_clk [(5, 7)] (pid_init, m')))"
  using stop_command_stops[of "CHR ''s''" demo_clk motor_init "[(5, 7)]" pid_init]
  unfolding Let_def by blast

theorem commands_complete_one_motor_enabled_witness:
  "\<exists>m'. exec_cmd demo_clk (CHR ''h'') (motor_hw_init None None motor_init) = Inr m' \<and> \<not> (ena1 m' \<and> ena2 m')"
  using commands_complete_one_motor_enabled[OF motor_reach.init, of demo_clk "CHR ''h''" None None] by blast

section \<open>Jogging and acceleration\<close>

lemma jog_time:
  assumes "10 \<le> steps" and "steps * 1000 < 2 ^ 32"
  shows "jog_time_ms steps * 500 = steps * 1000"
  using assms by (simp add: jog_time_ms_def u32w_def Let_def)

text \<open>
  A jog command turns the motor by the requested number of steps: the pulses run at
  500 Hz for exactly the time that gives this many pulses, for at least ten steps, after
  the loop was opened and everything stopped; afterwards both motors are without pulses
  and disabled.
\<close>

theorem jog_moves_steps:
  assumes "10 \<le> steps" and "steps * 1000 < 2 ^ 32" and "0 < g_motor_speed_us m"
    and "i = 1 \<or> i = 2"
  shows "\<exists>m'. motor_move_steps clk i steps reverse m = Inr m' \<and>
    500 * (elapsed m' - elapsed m - (if closed_loop_enable m then 20 else 10)) = 1000 * steps \<and>
    \<not> pulsing (pwm_dev1 m') \<and> \<not> pulsing (pwm_dev2 m') \<and> \<not> ena1 m' \<and> \<not> ena2 m' \<and>
    \<not> closed_loop_enable m' \<and> \<not> g_motor_run m'"
proof -
  have lv: "motor_set_speed_level clk us m = Inr (m\<lparr>g_motor_speed_us := us\<rparr>)" if "\<not> g_motor_run m" for m us
    using that by (simp add: motor_set_speed_level_def)
  show ?thesis
    using jog_time[OF assms(1,2)] assms(3,4)
    by (auto simp: motor_move_steps_def Let_def lv motor_ops motor_continuous_stop_def)
qed

theorem jog_moves_steps_witness:
  "\<exists>m'. motor_move_steps demo_clk 1 200 True motor_init = Inr m' \<and>
     500 * (elapsed m' - 0 - 10) = 1000 * 200 \<and> \<not> ena1 m'"
  using jog_moves_steps[of 200 motor_init 1 demo_clk True] by (auto simp: motor_init_def SPEED_MID_US_def)

text \<open>What a run of speed settings and delays keeps.\<close>

definition same_drive :: "motor \<Rightarrow> motor \<Rightarrow> bool" where
  "same_drive m m' \<longleftrightarrow> pins m' = pins m \<and> g_motor_run m' = g_motor_run m \<and>
     g_direction_reverse m' = g_direction_reverse m \<and> (pwm_dev1 m' = None) = (pwm_dev1 m = None) \<and>
     (pwm_dev2 m' = None) = (pwm_dev2 m = None) \<and>
     pulsing (pwm_dev1 m') = pulsing (pwm_dev1 m) \<and> pulsing (pwm_dev2 m') = pulsing (pwm_dev2 m)"

lemma same_drive_trans: "same_drive a b \<Longrightarrow> same_drive b c \<Longrightarrow> same_drive a c"
  by (simp add: same_drive_def)

lemma same_drive_speed: "same_drive m (motor_set_speed_rpm_both clk r m)"
  using pulsing_ops(1)[of clk _ _ "pwm_dev1 m"] pulsing_ops(1)[of clk _ _ "pwm_dev2 m"]
  by (simp add: same_drive_def motor_set_speed_rpm_both_def Let_def pwm_ops)

lemma same_drive_mdelay: "same_drive m m' \<Longrightarrow> same_drive m (mdelay d m')"
  by (simp add: same_drive_def mdelay_def)

lemma div_step:
  fixes rpm target step :: int
  assumes "0 < step" and "rpm \<le> target"
  shows "(target - rpm) div step =
    (if rpm + step \<le> target then (target - (rpm + step)) div step + 1 else 0)"
proof (cases "rpm + step \<le> target")
  case True
  have "(target - rpm) div step = (target - (rpm + step) + 1 * step) div step" by (simp add: algebra_simps)
  also have "\<dots> = (target - (rpm + step)) div step + 1" using assms(1) by (subst div_mult_self1) auto
  finally show ?thesis using True by simp
next
  case False
  with assms(2) show ?thesis by (simp add: div_pos_pos_trivial)
qed

lemma accel_loop_drive:
  assumes "0 < step"
  shows "\<exists>m'. accel_loop clk rpm target step delay m = Inr m' \<and> same_drive m m' \<and>
    elapsed m' = elapsed m + delay * (if rpm \<le> target then nat ((target - rpm) div step + 1) else 0)"
  using assms
proof (induction clk rpm target step delay m rule: accel_loop.induct)
  case (1 clk rpm target step delay m)
  let ?m1 = "mdelay delay (motor_set_speed_rpm_both clk (nat (rpm mod 65536)) m)"
  show ?case
  proof (cases "rpm \<le> target")
    case False
    then show ?thesis by (subst accel_loop.simps) (simp add: same_drive_def)
  next
    case True
    then obtain m' where m': "accel_loop clk (rpm + step) target step delay ?m1 = Inr m'" "same_drive ?m1 m'"
      "elapsed m' = elapsed ?m1 + delay * (if rpm + step \<le> target then nat ((target - (rpm + step)) div step + 1) else 0)"
      using 1 by fastforce
    note d = div_step[OF "1.prems" True]
    have "0 \<le> (target - (rpm + step)) div step" if "rpm + step \<le> target"
      using that "1.prems" by (simp add: pos_imp_zdiv_nonneg_iff)
    then have "elapsed m' = elapsed m + delay * nat ((target - rpm) div step + 1)"
      unfolding m'(3) d by (auto simp: mdelay_def nat_add_distrib algebra_simps)
    moreover have "same_drive m m'"
      using m'(2) same_drive_mdelay[OF same_drive_speed] same_drive_trans by blast
    ultimately show ?thesis
      using True "1.prems" m'(1) by (subst accel_loop.simps) auto
  qed
qed

lemma motor_start_running:
  assumes "\<not> g_motor_run m"
  shows "g_motor_run (motor_start clk m)" "ena1 (motor_start clk m) = (\<not> g_direction_reverse m)"
    "ena2 (motor_start clk m) = g_direction_reverse m" "g_direction_reverse (motor_start clk m) = g_direction_reverse m"
    "pulsing (pwm_dev1 (motor_start clk m)) = (pwm_dev1 m \<noteq> None)"
    "pulsing (pwm_dev2 (motor_start clk m)) = (pwm_dev2 m \<noteq> None)"
    "(pwm_dev1 (motor_start clk m) = None) = (pwm_dev1 m = None)"
    "(pwm_dev2 (motor_start clk m) = None) = (pwm_dev2 m = None)"
    "elapsed (motor_start clk m) = elapsed m"
  using assms by (simp_all add: motor_start_def motor_set_direction_def motor_ops)

text \<open>Both motors are set to the step rate of \<open>rpm\<close>.\<close>

definition set_to_rpm :: "bus_clocks \<Rightarrow> nat \<Rightarrow> rt_device_pwm option \<Rightarrow> bool" where
  "set_to_rpm clk rpm dv \<longleftrightarrow>
     (\<exists>d. dv = Some (set_dev clk (1000000000 div rpm_freq rpm) (1000000000 div rpm_freq rpm div 2) d))"

lemma set_both_to_rpm:
  "pwm_dev1 m \<noteq> None \<Longrightarrow> pwm_dev2 m \<noteq> None \<Longrightarrow>
   set_to_rpm clk rpm (pwm_dev1 (motor_set_speed_rpm_both clk rpm m)) \<and>
   set_to_rpm clk rpm (pwm_dev2 (motor_set_speed_rpm_both clk rpm m))"
  by (auto simp: set_to_rpm_def motor_set_speed_rpm_both_def Let_def pwm_ops)

text \<open>
  A soft start from standstill brings both motors to the target speed and takes the
  expected time: one delay at the start speed and one for every step up to the target.
  At the end the pulse generators run at the rate of the target speed and exactly the
  motor of the current direction is enabled.
\<close>

theorem accel_reaches_target:
  assumes "0 < step" and "0 \<le> start" and "start < target" and "target < 65536"
    and "pwm_dev1 m \<noteq> None" and "pwm_dev2 m \<noteq> None" and "\<not> g_motor_run m"
  shows "\<exists>m'. motor_accel clk start target step delay m = Inr m' \<and>
    elapsed m' = elapsed m + delay * nat ((target - start) div step + 1) \<and>
    set_to_rpm clk (nat target) (pwm_dev1 m') \<and> set_to_rpm clk (nat target) (pwm_dev2 m') \<and>
    pulsing (pwm_dev1 m') \<and> pulsing (pwm_dev2 m') \<and> g_motor_run m' \<and>
    ena1 m' = (\<not> g_direction_reverse m) \<and> ena2 m' = g_direction_reverse m"
proof -
  let ?m0 = "motor_set_speed_rpm_both clk (nat (start mod 65536)) m"
  let ?m1 = "mdelay delay (motor_start clk ?m0)"
  have d0: "pwm_dev1 ?m0 \<noteq> None" "pwm_dev2 ?m0 \<noteq> None" "\<not> g_motor_run ?m0"
    using assms(5-7) same_drive_speed[of m clk] by (auto simp: same_drive_def)
  obtain m2 where m2: "accel_loop clk (start + step) target step delay ?m1 = Inr m2" "same_drive ?m1 m2"
    "elapsed m2 = elapsed ?m1 + delay * (if start + step \<le> target then nat ((target - (start + step)) div step + 1) else 0)"
    using accel_loop_drive[OF assms(1)] by blast
  let ?m3 = "motor_set_speed_rpm_both clk (nat target) m2"
  have "nat (target mod 65536) = nat target" using assms(2-4) by simp
  then have r: "motor_accel clk start target step delay m = Inr ?m3"
    using assms(3) m2(1) by (simp add: motor_accel_def)
  have dr: "same_drive ?m1 ?m3" using m2(2) same_drive_speed same_drive_trans by blast
  have dv: "pwm_dev1 m2 \<noteq> None" "pwm_dev2 m2 \<noteq> None"
    using m2(2) d0 motor_start_running[OF d0(3), of clk] by (auto simp: same_drive_def mdelay_def)
  note div_step[OF assms(1) less_imp_le[OF assms(3)]]
  moreover have "0 \<le> (target - (start + step)) div step" if "start + step \<le> target"
    using that assms(1) by (simp add: pos_imp_zdiv_nonneg_iff)
  ultimately have "elapsed ?m3 = elapsed m + delay * nat ((target - start) div step + 1)"
    using m2(3) motor_start_running(9)[OF d0(3), of clk] by (auto simp: mdelay_def nat_add_distrib algebra_simps)
  then show ?thesis
    using r dr set_both_to_rpm[OF dv] d0(1,2) motor_start_running[OF d0(3), of clk]
    by (intro exI[of _ ?m3]) (simp add: same_drive_def mdelay_def ena1_def ena2_def)
qed

theorem accel_reaches_target_witness:
  "let d = snd (hd stm32_pwm_obj); m = motor_hw_init (Some d) (Some d) motor_init in
   \<exists>m'. motor_accel demo_clk 50 63 5 80 m = Inr m' \<and> elapsed m' = 240 \<and> ena1 m' \<and> \<not> ena2 m'"
  using accel_reaches_target[of 5 50 63 "motor_hw_init (Some (snd (hd stm32_pwm_obj)))
      (Some (snd (hd stm32_pwm_obj))) motor_init" demo_clk 80]
  by (auto simp: Let_def motor_hw_init_def motor_init_def pin_w_def pin_m_def)

end
