(* ===== verification/Inspection_System.thy ===== *)
theory Inspection_System
  imports Inspect Motor
begin

text \<open>
  The firmware as a whole: the inspection thread of \<^verbatim>\<open>model_sd_start.c\<close>, the command thread
  and the speed controller of \<^verbatim>\<open>main.c\<close> and the receive interrupt of the image UART run
  interleaved. The threads share one variable, the batch size \<^verbatim>\<open>detection_round_cnt\<close>: the
  command thread sets it (\<open>round_cnt\<close> of the motor state), the inspection thread reads it,
  both under the mutex \<^verbatim>\<open>detection_round_mutex\<close>.
\<close>

section \<open>State and commands\<close>

record firmware =
  pc :: recv_pc
  inspection :: insp
  controller :: pid
  drive :: motor

definition firmware_init ::
  "insp_env \<Rightarrow> rt_device_pwm option \<Rightarrow> rt_device_pwm option \<Rightarrow> firmware" where
  "firmware_init env d1 d2 =
     \<lparr>pc = PC_Poll,
      inspection = uart_recv_thread_init env (snd (detection_mutex_init True insp_init)),
      controller = pid_init, drive = motor_hw_init d1 d2 motor_init\<rparr>"

text \<open>One command byte, with the assignment to the shared batch size.\<close>

definition ctrl_command :: "bus_clocks \<Rightarrow> char \<Rightarrow> firmware \<Rightarrow> firmware res" where
  "ctrl_command clk ch f =
     bind_res (exec_cmd clk ch (drive f)) (\<lambda>m.
       Inr (f\<lparr>drive := m,
              inspection := (inspection f)\<lparr>detection_round_cnt := round_cnt m\<rparr>\<rparr>))"

definition ctrl_commands :: "bus_clocks \<Rightarrow> string \<Rightarrow> firmware \<Rightarrow> firmware res" where
  "ctrl_commands clk = fold_res (ctrl_command clk)"

section \<open>What the commands do to the batch size\<close>

lemma image_fields_pins [simp]:
  "image_count (pin_w p v m) = image_count m" "round_cnt (pin_w p v m) = round_cnt m"
  "image_count (mdelay d m) = image_count m" "round_cnt (mdelay d m) = round_cnt m"
  by (simp_all add: pin_w_def mdelay_def)

lemma image_fields_pwm [simp]:
  "image_count (pwm1_set clk a b m) = image_count m" "round_cnt (pwm1_set clk a b m) = round_cnt m"
  "image_count (pwm2_set clk a b m) = image_count m" "round_cnt (pwm2_set clk a b m) = round_cnt m"
  "image_count (pwm1_enable clk m) = image_count m" "round_cnt (pwm1_enable clk m) = round_cnt m"
  "image_count (pwm2_enable clk m) = image_count m" "round_cnt (pwm2_enable clk m) = round_cnt m"
  "image_count (pwm1_disable clk m) = image_count m" "round_cnt (pwm1_disable clk m) = round_cnt m"
  "image_count (pwm2_disable clk m) = image_count m" "round_cnt (pwm2_disable clk m) = round_cnt m"
  by (simp_all add: pwm1_set_def pwm2_set_def pwm1_enable_def pwm2_enable_def pwm1_disable_def pwm2_disable_def)

lemma image_fields_ops [simp]:
  "image_count (motor_set_speed_rpm_both clk r m) = image_count m"
  "round_cnt (motor_set_speed_rpm_both clk r m) = round_cnt m"
  "image_count (motor_set_direction back m) = image_count m"
  "round_cnt (motor_set_direction back m) = round_cnt m"
  "image_count (motor_continuous_stop clk m) = image_count m"
  "round_cnt (motor_continuous_stop clk m) = round_cnt m"
  "image_count (motor_start clk m) = image_count m" "round_cnt (motor_start clk m) = round_cnt m"
  "image_count (beep ms m) = image_count m" "round_cnt (beep ms m) = round_cnt m"
  by (simp_all add: motor_set_speed_rpm_both_def motor_set_direction_def motor_continuous_stop_def
      motor_start_def beep_def Let_def)

lemma image_fields_accel_loop:
  "accel_loop clk rpm target step delay m = Inr m' \<Longrightarrow>
   image_count m' = image_count m \<and> round_cnt m' = round_cnt m"
proof (induction clk rpm target step delay m rule: accel_loop.induct)
  case (1 clk rpm target step delay m)
  from 1(2) show ?case
    by (subst (asm) accel_loop.simps) (auto split: if_splits dest: 1(1)[rotated 2])
qed

lemma image_fields_accel:
  "motor_accel clk s t st d m = Inr m' \<Longrightarrow> image_count m' = image_count m \<and> round_cnt m' = round_cnt m"
  by (auto simp: motor_accel_def Let_def bind_res_def split: if_splits sum.splits dest!: image_fields_accel_loop)

lemma image_fields_level:
  "motor_set_speed_level clk us m = Inr m' \<Longrightarrow> image_count m' = image_count m \<and> round_cnt m' = round_cnt m"
  by (auto simp: motor_set_speed_level_def Let_def split: if_splits)

lemma image_fields_jog:
  assumes "motor_move_steps clk i n r m = Inr m'"
  shows "image_count m' = image_count m \<and> round_cnt m' = round_cnt m"
  using image_fields_level[OF assms[unfolded motor_move_steps_def Let_def]]
  by (simp add: if_distrib[of image_count] if_distrib[of round_cnt] split del: if_split cong: if_cong)

text \<open>
  Only two commands touch the shared variable and the counter of announced images:
  an opening parenthesis counts one image, a closing one publishes the count.
\<close>

lemma exec_cmd_image:
  assumes "exec_cmd clk ch m = Inr m'"
  shows "image_count m' = (if ch = CHR ''('' then image_count m + 1
      else if ch = CHR '')'' then 0 else image_count m)"
    and "round_cnt m' = (if ch = CHR '')'' then image_count m else round_cnt m)"
  using assms unfolding exec_cmd_def Let_def
  by (auto simp: bind_res_Inr_iff split: if_splits dest!: image_fields_accel image_fields_jog)

lemma pid_round_image:
  assumes "pid_round clk cnt now (p, m) = (out, p', m')"
  shows "image_count m' = image_count m" "round_cnt m' = round_cnt m"
proof -
  have g: "image_count (snd (get_line_speed_mmps cnt now m)) = image_count m"
    "round_cnt (snd (get_line_speed_mmps cnt now m)) = round_cnt m" for m
    by (simp_all add: get_line_speed_mmps_def Let_def)
  have a: "image_count (motor_set_active_speed_rpm clk r m) = image_count m"
    "round_cnt (motor_set_active_speed_rpm clk r m) = round_cnt m" for r m
    by (simp_all add: motor_set_active_speed_rpm_def Let_def)
  show "image_count m' = image_count m" "round_cnt m' = round_cnt m"
    using assms by (auto simp: pid_round_def Let_def g a split: if_splits)
qed

section \<open>The running firmware\<close>

text \<open>
  The steps of the four activities. The command thread may receive any byte, but the
  operator announces at most ten images before closing the parenthesis.
\<close>

inductive fw_step :: "insp_env \<Rightarrow> bus_clocks \<Rightarrow> firmware \<Rightarrow> firmware \<Rightarrow> bool" for env clk where
  inspect: "uart_recv_step env (pc f, inspection f) = Inr (p, s) \<Longrightarrow>
     fw_step env clk f (f\<lparr>pc := p, inspection := s\<rparr>)"
| image_byte: "fw_step env clk f
     (f\<lparr>inspection := (inspection f)\<lparr>rx := rx_byte (rx (inspection f)) b\<rparr>\<rparr>)"
| command: "ctrl_command clk ch f = Inr f' \<Longrightarrow>
     ch = CHR '')'' \<longrightarrow> image_count (drive f) \<le> 10 \<Longrightarrow> fw_step env clk f f'"
| control: "pid_round clk cnt now (controller f, drive f) = (out, p, m) \<Longrightarrow>
     fw_step env clk f (f\<lparr>controller := p, drive := m\<rparr>)"

inductive fw_reach :: "insp_env \<Rightarrow> bus_clocks \<Rightarrow> firmware \<Rightarrow> bool" for env clk where
  start: "fw_reach env clk (firmware_init env d1 d2)"
| step: "fw_reach env clk f \<Longrightarrow> fw_step env clk f f' \<Longrightarrow> fw_reach env clk f'"

inductive_cases fw_stepE: "fw_step env clk f f'"

definition fw_inv :: "firmware \<Rightarrow> bool" where
  [inv_simps]: "fw_inv f \<longleftrightarrow> insp_inv (inspection f) \<and> motor_inv (drive f) \<and> pid_inv (controller f) \<and>
     detection_round_cnt (inspection f) = round_cnt (drive f)"

lemma uart_recv_step_round_cnt:
  assumes "uart_recv_step env (p, s) = Inr (p', s')"
  shows "detection_round_cnt s' = detection_round_cnt s"
proof -
  have m: "detection_round_cnt s2 = detection_round_cnt s1" if "defect_inspect_main env s1 = Inr s2" for s1 s2
    using that by (auto simp: defect_inspect_main_def prepare_input_data_def parse_output_result_def
        read_round_cnt_def bind_res_Inr_iff Let_def split: if_splits)
  have l: "detection_round_cnt s2 = detection_round_cnt s1"
    if "fold_res (\<lambda>i s1. bind_res (h i s1) (\<lambda>line. Inr (emit (E_Write fd line) s1))) is s1 = Inr s2"
    for h fd "is" s1 s2
    using that by (induction "is" arbitrary: s1) (auto simp: bind_res_Inr_iff emit_def)
  have g: "detection_round_cnt s2 = detection_round_cnt s1" if "generate_defect_stat_csv env s1 = Inr s2" for s1 s2
    using that by (auto simp: generate_defect_stat_csv_def onenet_upload_defect_report_def
        onenet_upload_defect_count_def onenet_publish_property_def batch_reset_def bind_res_Inr_iff Let_def
        emit_def[abs_def] split: if_splits dest!: l[unfolded emit_def[abs_def]])
  show ?thesis
    using assms by (cases p) (auto simp: bind_res_Inr_iff emit_def split: if_splits dest!: m g)
qed

lemma fw_inv_init: "fw_inv (firmware_init env d1 d2)"
proof -
  have "motor_reach clk (motor_hw_init d1 d2 motor_init)" for clk by (rule motor_reach.init)
  then have "motor_inv (motor_hw_init d1 d2 motor_init)" by (rule motor_reach_inv)
  moreover have "pid_inv pid_init" by (simp add: pid_inv_def pid_init_def)
  moreover have "detection_round_cnt (uart_recv_thread_init env (snd (detection_mutex_init True insp_init))) = 10"
    by (simp add: uart_recv_thread_init_def defect_model_init_def detection_mutex_init_def insp_init_def
        DEFAULT_DETECTION_ROUND_CNT_def)
  moreover have "round_cnt (motor_hw_init d1 d2 motor_init) = 10"
    by (simp add: motor_hw_init_def motor_init_def pin_w_def pin_m_def Let_def)
  ultimately show ?thesis using insp_inv_init by (simp add: fw_inv_def firmware_init_def)
qed

lemma fw_step_inv:
  assumes "fw_step env clk f f'" and "fw_inv f" and "\<And>h x. length (nn_run env h x) = DEFECT_CLASS_CNT"
  shows "fw_inv f'"
  using assms(1)
proof cases
  case (inspect p s)
  then show ?thesis
    using assms(2) uart_recv_step_ok[of "inspection f" env "pc f", OF _ assms(3)]
      uart_recv_step_round_cnt[OF inspect(2)] by (auto simp: fw_inv_def)
next
  case (image_byte b)
  then show ?thesis using assms(2) rx_byte_inv by (auto simp: fw_inv_def insp_inv_def)
next
  case (command ch)
  then obtain m where m: "exec_cmd clk ch (drive f) = Inr m"
    "f' = f\<lparr>drive := m, inspection := (inspection f)\<lparr>detection_round_cnt := round_cnt m\<rparr>\<rparr>"
    by (auto simp: ctrl_command_def bind_res_Inr_iff)
  have "round_cnt m \<le> 10"
    using exec_cmd_image(2)[OF m(1)] command(2) assms(2) by (auto simp: fw_inv_def insp_inv_def)
  moreover have "motor_inv m" using exec_cmd_inv[of "drive f" clk ch] m(1) assms(2) by (auto simp: fw_inv_def)
  ultimately show ?thesis using assms(2) m(2) by (simp add: fw_inv_def insp_inv_def)
next
  case (control cnt now out p m)
  then show ?thesis
    using assms(2) pid_round_keeps[OF control(2)] motor_inv_cong[of m "drive f"]
      pid_round_image[OF control(2)] pid_round_bounds[OF control(2)] by (simp add: fw_inv_def)
qed

lemma fw_reach_inv:
  assumes "fw_reach env clk f" and "\<And>h x. length (nn_run env h x) = DEFECT_CLASS_CNT"
  shows "fw_inv f"
  using assms(1) by induction (use fw_inv_init fw_step_inv assms(2) in auto)

text \<open>
  C1. The firmware never faults. However the inspection thread, the image interrupt, the
  command thread and the speed controller interleave, and whatever bytes arrive on the
  image line and the command line, as long as the operator announces at most ten images
  per batch: the inspection thread's next step succeeds, every command byte is carried
  out to its end, the two motors are never enabled together between steps, and both
  threads agree on a batch size of at most ten.
\<close>

theorem firmware_never_faults:
  assumes "fw_reach env clk f" and "\<And>h x. length (nn_run env h x) = DEFECT_CLASS_CNT"
  shows "(\<exists>c. uart_recv_step env (pc f, inspection f) = Inr c) \<and> (\<exists>f'. ctrl_command clk ch f = Inr f') \<and>
    \<not> (ena1 (drive f) \<and> ena2 (drive f)) \<and>
    detection_round_cnt (inspection f) = round_cnt (drive f) \<and> round_cnt (drive f) \<le> 10"
proof -
  have inv: "fw_inv f" by (rule fw_reach_inv[OF assms])
  then have "motor_inv (drive f)" "insp_inv (inspection f)" by (auto simp: fw_inv_def)
  then show ?thesis
    using inv exec_cmd_inv[of "drive f" clk ch] uart_recv_step_ok[of "inspection f" env "pc f", OF _ assms(2)]
    by (auto simp: ctrl_command_def motor_inv_def fw_inv_def insp_inv_def)
qed

theorem firmware_never_faults_witness:
  "\<exists>f'. ctrl_command demo_clk (CHR ''u'') (firmware_init demo_env None None) = Inr f'"
  using firmware_never_faults[OF fw_reach.start[of demo_env demo_clk None None], of "CHR ''u''"]
  by (simp add: demo_env_def DEFECT_CLASS_CNT_def)

section \<open>Announcing and inspecting a batch\<close>

lemma ctrl_count_images:
  assumes "motor_inv (drive f)" and "detection_round_cnt (inspection f) = round_cnt (drive f)"
  shows "ctrl_commands clk (replicate n (CHR ''('')) f =
    Inr (f\<lparr>drive := (drive f)\<lparr>image_count := image_count (drive f) + of_nat n\<rparr>\<rparr>)"
  using assms
proof (induction n arbitrary: f)
  case (Suc n)
  have "ctrl_command clk (CHR ''('') f =
      Inr (f\<lparr>drive := (drive f)\<lparr>image_count := image_count (drive f) + 1\<rparr>\<rparr>)"
    using Suc.prems by (simp add: ctrl_command_def exec_cmd_def Let_def)
  then show ?case
    using Suc.IH[of "f\<lparr>drive := (drive f)\<lparr>image_count := image_count (drive f) + 1\<rparr>\<rparr>"] Suc.prems
    by (simp add: ctrl_commands_def motor_inv_def ena1_def ena2_def add.assoc)
qed (simp add: ctrl_commands_def)

definition announce :: "nat \<Rightarrow> string" where
  "announce n = replicate n (CHR ''('') @ '')''"

lemma ctrl_announce:
  assumes "motor_inv (drive f)" and "detection_round_cnt (inspection f) = round_cnt (drive f)"
    and "image_count (drive f) = 0"
  shows "\<exists>f'. ctrl_commands clk (announce n) f = Inr f' \<and> pc f' = pc f \<and> image_count (drive f') = 0 \<and>
    inspection f' = (inspection f)\<lparr>detection_round_cnt := of_nat n\<rparr>"
proof -
  let ?f = "f\<lparr>drive := (drive f)\<lparr>image_count := of_nat n\<rparr>\<rparr>"
  have "motor_inv (drive ?f)" using assms(1) by (simp add: motor_inv_def ena1_def ena2_def)
  from exec_cmd_inv[OF this, of clk "CHR '')''"] obtain m' where
    m': "exec_cmd clk (CHR '')'') (drive ?f) = Inr m'" by blast
  from exec_cmd_image[OF this] have "round_cnt m' = of_nat n" "image_count m' = 0" by simp_all
  then show ?thesis
    using ctrl_count_images[OF assms(1,2), of clk n] m' assms(3)
    by (simp add: announce_def ctrl_commands_def fold_res_append ctrl_command_def)
qed

text \<open>
  C2. From the announcement to the report: when the operator announces between one and ten
  images on the command line and the camera then sends them, the batch is inspected with
  exactly this size and ends in the CSV file and the two reports of these images.
\<close>

theorem announced_batch_reported:
  assumes "fw_inv f" and "image_count (drive f) = 0" and "batch_at k [] (inspection f)"
    and "imgs \<noteq> []" and "length imgs \<le> 10" and "\<forall>img \<in> set imgs. length img = IMAGE_SIZE"
    and "\<And>x. length (nn_run env (defect_model (inspection f)) x) = DEFECT_CLASS_CNT"
    and "\<And>k f. 0 \<le> fs_open env k f"
  shows "\<exists>f' s' m r1 r2. ctrl_commands clk (announce (length imgs)) f = Inr f' \<and>
    run_images env imgs (inspection f') = Inr s' \<and> batch_at (length imgs) [] s' \<and>
    (let cs = map (classify env (defect_model (inspection f))) imgs in
     trace s' = trace (inspection f) @ replicate (length imgs - 1) (E_Delay 10) @
      batch_effects (fmt_g env) (fs_open env m csv_filename) r1 r2 cs (count_spec cs) @ [E_Delay 10])"
proof -
  obtain f' where f': "ctrl_commands clk (announce (length imgs)) f = Inr f'"
    "inspection f' = (inspection f)\<lparr>detection_round_cnt := of_nat (length imgs)\<rparr>"
    using ctrl_announce[of f clk "length imgs"] assms(1,2) by (auto simp: fw_inv_def)
  have "batch_at (length imgs) [] (inspection f')" using assms(3) f'(2) by (simp add: batch_at_def)
  from run_images_batch[OF this _ assms(4,5,6) refl, of env] show ?thesis
    using f' assms(7,8) by (auto simp: Let_def)
qed

text \<open>
  C39. Nothing keeps the operator from announcing more than ten images: after eleven to 255
  announcements the shared batch size is that number, and once ten images of the batch
  are stored, the next image makes the inspection thread write outside its result array.
\<close>

theorem oversized_announcement_faults:
  assumes "fw_inv f" and "image_count (drive f) = 0" and "10 < n" and "n < 256"
    and "pc f = PC_Poll" and "detect_round (inspection f) = 10" and "frame_ready (rx (inspection f)) \<noteq> 0"
    and "\<And>x. length (nn_run env (defect_model (inspection f)) x) = DEFECT_CLASS_CNT"
  shows "\<exists>f'. ctrl_commands clk (announce n) f = Inr f' \<and>
    detection_round_cnt (inspection f') = of_nat n \<and>
    uart_recv_step env (pc f', inspection f') = Inl Out_Of_Bounds"
proof -
  obtain f' where f': "ctrl_commands clk (announce n) f = Inr f'" "pc f' = pc f"
    "inspection f' = (inspection f)\<lparr>detection_round_cnt := of_nat n\<rparr>"
    using ctrl_announce[of f clk n] assms(1,2) by (auto simp: fw_inv_def)
  have "(of_nat n :: u8) > 10" using assms(3,4) by (simp add: word_less_nat_alt unat_of_nat take_bit_nat_eq_self)
  then show ?thesis
    using f' assms by (simp add: defect_inspect_main_def prepare_input_data_def parse_output_result_def
        read_round_cnt_def fw_inv_def insp_inv_def)
qed

definition demo_firmware :: firmware where
  "demo_firmware = firmware_init demo_env None None"

lemma demo_firmware_ok:
  "fw_inv demo_firmware" "image_count (drive demo_firmware) = 0" "batch_at 10 [] (inspection demo_firmware)"
  "pc demo_firmware = PC_Poll"
proof -
  show "fw_inv demo_firmware" by (simp add: demo_firmware_def fw_inv_init)
  show "image_count (drive demo_firmware) = 0" "pc demo_firmware = PC_Poll"
    by (simp_all add: demo_firmware_def firmware_init_def motor_hw_init_def motor_init_def pin_m_def Let_def)
  show "batch_at 10 [] (inspection demo_firmware)"
    using demo_state_batch
    by (simp add: demo_firmware_def firmware_init_def batch_at_def demo_state_def uart_recv_thread_init_def
        defect_model_init_def detection_mutex_init_def insp_init_def DEFAULT_DETECTION_ROUND_CNT_def)
qed

theorem announced_batch_reported_witness:
  "\<exists>f' s'. ctrl_commands demo_clk ''(()'' demo_firmware = Inr f' \<and>
     run_images demo_env (replicate 2 (replicate IMAGE_SIZE 9)) (inspection f') = Inr s' \<and>
     batch_at 2 [] s'"
  using announced_batch_reported[OF demo_firmware_ok(1-3), of "replicate 2 (replicate IMAGE_SIZE 9)" demo_env demo_clk]
  by (auto simp: demo_env_def DEFECT_CLASS_CNT_def announce_def numeral_2_eq_2)

theorem oversized_announcement_faults_witness:
  "let f = demo_firmware\<lparr>inspection := (inspection demo_firmware)\<lparr>detect_round := 10,
     rx := (rx (inspection demo_firmware))\<lparr>frame_ready := 1\<rparr>\<rparr>\<rparr> in
   \<exists>f'. ctrl_commands demo_clk (announce 11) f = Inr f' \<and>
     uart_recv_step demo_env (pc f', inspection f') = Inl Out_Of_Bounds"
proof -
  let ?f = "demo_firmware\<lparr>inspection := (inspection demo_firmware)\<lparr>detect_round := 10,
     rx := (rx (inspection demo_firmware))\<lparr>frame_ready := 1\<rparr>\<rparr>\<rparr>"
  have "fw_inv ?f" using demo_firmware_ok(1) by (auto simp: fw_inv_def insp_inv_def rx_inv_def)
  from oversized_announcement_faults[OF this, of 11 demo_env demo_clk] show ?thesis
    using demo_firmware_ok by (auto simp: demo_env_def DEFECT_CLASS_CNT_def)
qed

end
