(* ===== verification/Ringbuffer.thy ===== *)
theory Ringbuffer
  imports Fifo_Spec
begin

text \<open>
  The ring buffer of the device framework
  (\<^verbatim>\<open>rt-thread/components/drivers/ipc/ringbuffer.c\<close>). A mirror bit beside each index
  tells a full buffer from an empty one. The indices are 15-bit fields in C; the
  invariant keeps them below the size, which is at most 32767, so they are modelled as
  numbers. The pool is the part of the memory that the aligned size covers.
\<close>

section \<open>Model\<close>

record rt_ringbuffer =
  buffer_ptr :: "u8 list"
  read_mirror :: bool
  read_index :: nat
  write_mirror :: bool
  write_index :: nat
  buffer_size :: nat

datatype rt_ringbuffer_state =
    RT_RINGBUFFER_EMPTY
  | RT_RINGBUFFER_FULL
  | RT_RINGBUFFER_HALFFULL

definition rt_ringbuffer_status :: "rt_ringbuffer \<Rightarrow> rt_ringbuffer_state" where
  "rt_ringbuffer_status rb =
     (if read_index rb = write_index rb
      then (if read_mirror rb = write_mirror rb then RT_RINGBUFFER_EMPTY else RT_RINGBUFFER_FULL)
      else RT_RINGBUFFER_HALFFULL)"

text \<open>\<^verbatim>\<open>size\<close> is a signed 16-bit number; the alignment is 4 bytes.\<close>

definition rt_ringbuffer_init :: "u8 list \<Rightarrow> int \<Rightarrow> rt_ringbuffer res" where
  "rt_ringbuffer_init pool sz =
     (if sz \<le> 0 then Inl Assert_Failed
      else let n = nat sz div 4 * 4 in
        Inr \<lparr>buffer_ptr = take n pool, read_mirror = False, read_index = 0,
             write_mirror = False, write_index = 0, buffer_size = n\<rparr>)"

definition rt_ringbuffer_data_len :: "rt_ringbuffer \<Rightarrow> nat" where
  "rt_ringbuffer_data_len rb =
     (case rt_ringbuffer_status rb of
        RT_RINGBUFFER_EMPTY \<Rightarrow> 0
      | RT_RINGBUFFER_FULL \<Rightarrow> buffer_size rb
      | RT_RINGBUFFER_HALFFULL \<Rightarrow>
          if write_index rb > read_index rb then write_index rb - read_index rb
          else buffer_size rb - (read_index rb - write_index rb))"

definition rt_ringbuffer_space_len :: "rt_ringbuffer \<Rightarrow> nat" where
  "rt_ringbuffer_space_len rb = buffer_size rb - rt_ringbuffer_data_len rb"

text \<open>\<^verbatim>\<open>rt_memcpy(&buf[i], src, length src)\<close>.\<close>

definition memcpy_at :: "u8 list \<Rightarrow> nat \<Rightarrow> u8 list \<Rightarrow> u8 list" where
  "memcpy_at buf i src = take i buf @ src @ drop (i + length src) buf"

text \<open>The two copies of a block that reaches the end of the buffer.\<close>

definition copy_wrapped :: "u8 list \<Rightarrow> nat \<Rightarrow> nat \<Rightarrow> u8 list \<Rightarrow> u8 list" where
  "copy_wrapped buf sz w src = memcpy_at (memcpy_at buf w (take (sz - w) src)) 0 (drop (sz - w) src)"

definition rt_ringbuffer_put :: "rt_ringbuffer \<Rightarrow> u8 list \<Rightarrow> nat \<times> rt_ringbuffer" where
  "rt_ringbuffer_put rb ptr =
     (let sz = rt_ringbuffer_space_len rb in
      if sz = 0 then (0, rb)
      else let len = (if sz < length ptr then sz else length ptr); src = take len ptr in
        if buffer_size rb - write_index rb > len
        then (len, rb\<lparr>buffer_ptr := memcpy_at (buffer_ptr rb) (write_index rb) src,
                     write_index := write_index rb + len\<rparr>)
        else (len, rb\<lparr>buffer_ptr := copy_wrapped (buffer_ptr rb) (buffer_size rb) (write_index rb) src,
                     write_mirror := \<not> write_mirror rb,
                     write_index := len - (buffer_size rb - write_index rb)\<rparr>))"

definition rt_ringbuffer_put_force :: "rt_ringbuffer \<Rightarrow> u8 list \<Rightarrow> nat \<times> rt_ringbuffer" where
  "rt_ringbuffer_put_force rb ptr =
     (let space_length = rt_ringbuffer_space_len rb;
          src = (if length ptr > buffer_size rb then drop (length ptr - buffer_size rb) ptr else ptr);
          len = length src in
      if buffer_size rb - write_index rb > len
      then let rb1 = rb\<lparr>buffer_ptr := memcpy_at (buffer_ptr rb) (write_index rb) src,
                        write_index := write_index rb + len\<rparr>
        in (len, if len > space_length then rb1\<lparr>read_index := write_index rb1\<rparr> else rb1)
      else let rb1 = rb\<lparr>buffer_ptr := copy_wrapped (buffer_ptr rb) (buffer_size rb) (write_index rb) src,
                        write_mirror := \<not> write_mirror rb,
                        write_index := len - (buffer_size rb - write_index rb)\<rparr>
        in (len, if len > space_length
                 then (if write_index rb1 \<le> read_index rb1
                       then rb1\<lparr>read_mirror := \<not> read_mirror rb1, read_index := write_index rb1\<rparr>
                       else rb1\<lparr>read_index := write_index rb1\<rparr>)
                 else rb1))"

text \<open>The bytes written to \<^verbatim>\<open>ptr\<close>; the size C returns is the length of that list.\<close>

definition rt_ringbuffer_get :: "rt_ringbuffer \<Rightarrow> nat \<Rightarrow> u8 list \<times> rt_ringbuffer" where
  "rt_ringbuffer_get rb n =
     (let sz = rt_ringbuffer_data_len rb in
      if sz = 0 then ([], rb)
      else let len = (if sz < n then sz else n) in
        if buffer_size rb - read_index rb > len
        then (take len (drop (read_index rb) (buffer_ptr rb)),
              rb\<lparr>read_index := read_index rb + len\<rparr>)
        else let k = buffer_size rb - read_index rb in
          (take k (drop (read_index rb) (buffer_ptr rb)) @ take (len - k) (buffer_ptr rb),
           rb\<lparr>read_mirror := \<not> read_mirror rb, read_index := len - k\<rparr>))"

text \<open>The offset \<^verbatim>\<open>ptr\<close> points to, if any, and the size returned.\<close>

definition rt_ringbuffer_peek :: "rt_ringbuffer \<Rightarrow> nat option \<times> nat \<times> rt_ringbuffer" where
  "rt_ringbuffer_peek rb =
     (let sz = rt_ringbuffer_data_len rb in
      if sz = 0 then (None, 0, rb)
      else if buffer_size rb - read_index rb > sz
      then (Some (read_index rb), sz, rb\<lparr>read_index := read_index rb + sz\<rparr>)
      else (Some (read_index rb), buffer_size rb - read_index rb,
            rb\<lparr>read_mirror := \<not> read_mirror rb, read_index := 0\<rparr>))"

definition rt_ringbuffer_putchar :: "rt_ringbuffer \<Rightarrow> u8 \<Rightarrow> nat \<times> rt_ringbuffer" where
  "rt_ringbuffer_putchar rb ch =
     (if rt_ringbuffer_space_len rb = 0 then (0, rb)
      else let rb1 = rb\<lparr>buffer_ptr := (buffer_ptr rb)[write_index rb := ch]\<rparr> in
        (1, if write_index rb + 1 = buffer_size rb
            then rb1\<lparr>write_mirror := \<not> write_mirror rb, write_index := 0\<rparr>
            else rb1\<lparr>write_index := write_index rb + 1\<rparr>))"

definition rt_ringbuffer_putchar_force :: "rt_ringbuffer \<Rightarrow> u8 \<Rightarrow> rt_ringbuffer" where
  "rt_ringbuffer_putchar_force rb ch =
     (let old_state = rt_ringbuffer_status rb;
          rb1 = rb\<lparr>buffer_ptr := (buffer_ptr rb)[write_index rb := ch]\<rparr> in
      if write_index rb + 1 = buffer_size rb
      then let rb2 = rb1\<lparr>write_mirror := \<not> write_mirror rb, write_index := 0\<rparr> in
        if old_state = RT_RINGBUFFER_FULL
        then rb2\<lparr>read_mirror := \<not> read_mirror rb, read_index := write_index rb2\<rparr> else rb2
      else let rb2 = rb1\<lparr>write_index := write_index rb + 1\<rparr> in
        if old_state = RT_RINGBUFFER_FULL then rb2\<lparr>read_index := write_index rb2\<rparr> else rb2)"

definition rt_ringbuffer_getchar :: "rt_ringbuffer \<Rightarrow> (u8 \<times> rt_ringbuffer) option" where
  "rt_ringbuffer_getchar rb =
     (if rt_ringbuffer_data_len rb = 0 then None
      else Some (buffer_ptr rb ! read_index rb,
        if read_index rb + 1 = buffer_size rb
        then rb\<lparr>read_mirror := \<not> read_mirror rb, read_index := 0\<rparr>
        else rb\<lparr>read_index := read_index rb + 1\<rparr>))"

definition rt_ringbuffer_reset :: "rt_ringbuffer \<Rightarrow> rt_ringbuffer" where
  "rt_ringbuffer_reset rb =
     rb\<lparr>read_mirror := False, read_index := 0, write_mirror := False, write_index := 0\<rparr>"

section \<open>Invariant and abstraction\<close>

definition rb_inv :: "rt_ringbuffer \<Rightarrow> bool" where
  [inv_simps]: "rb_inv rb \<longleftrightarrow> 0 < buffer_size rb \<and> length (buffer_ptr rb) = buffer_size rb \<and>
     read_index rb < buffer_size rb \<and> write_index rb < buffer_size rb \<and>
     (if read_mirror rb = write_mirror rb then read_index rb \<le> write_index rb
      else write_index rb \<le> read_index rb)"

definition rb_list :: "rt_ringbuffer \<Rightarrow> u8 list" where
  "rb_list rb = ring_slice (buffer_ptr rb) (read_index rb) (rt_ringbuffer_data_len rb)"

lemma data_len_eq:
  "rb_inv rb \<Longrightarrow> rt_ringbuffer_data_len rb =
     (if read_mirror rb = write_mirror rb then write_index rb - read_index rb
      else buffer_size rb - read_index rb + write_index rb)"
  by (auto simp: inv_simps rt_ringbuffer_data_len_def rt_ringbuffer_status_def split: if_splits)

lemma length_rb_list [simp]: "length (rb_list rb) = rt_ringbuffer_data_len rb"
  by (simp add: rb_list_def)

lemma data_len_le: "rb_inv rb \<Longrightarrow> rt_ringbuffer_data_len rb \<le> buffer_size rb"
  by (simp add: data_len_eq) (auto simp: inv_simps split: if_splits)

lemma full_iff:
  "rb_inv rb \<Longrightarrow> rt_ringbuffer_status rb = RT_RINGBUFFER_FULL \<longleftrightarrow>
     rt_ringbuffer_data_len rb = buffer_size rb"
  by (simp add: data_len_eq) (auto simp: inv_simps rt_ringbuffer_status_def split: if_splits)

lemma mod_wrap: "a < 2 * b \<Longrightarrow> a mod b = (if a < b then a else a - (b::nat))"
  by (simp add: mod_if)

text \<open>The write position follows from the read position and the fill level.\<close>

lemma write_index_eq:
  "rb_inv rb \<Longrightarrow>
     write_index rb = (read_index rb + rt_ringbuffer_data_len rb) mod buffer_size rb"
  by (subst mod_wrap) (auto simp: data_len_eq inv_simps split: if_splits)

section \<open>Block copies\<close>

text \<open>Both ways \<^verbatim>\<open>put\<close> copies a block, chosen as the code does.\<close>

definition block_copy :: "u8 list \<Rightarrow> nat \<Rightarrow> u8 list \<Rightarrow> u8 list" where
  "block_copy buf w src =
     (if length buf - w > length src then memcpy_at buf w src
      else copy_wrapped buf (length buf) w src)"

lemma block_copy_length:
  assumes "w < length buf" and "length src \<le> length buf"
  shows "length (block_copy buf w src) = length buf"
  using assms by (auto simp: block_copy_def memcpy_at_def copy_wrapped_def)

text \<open>Position \<open>j\<close> lies behind the write position by \<open>j - w\<close>, or by \<open>j + size - w\<close>.\<close>

lemma block_copy_nth:
  assumes "w < length buf" and "length src \<le> length buf" and "j < length buf"
  shows "block_copy buf w src ! j =
    (let k = (if w \<le> j then j - w else length buf + j - w) in
     if k < length src then src ! k else buf ! j)"
  using assms by (auto simp: block_copy_def memcpy_at_def copy_wrapped_def nth_append Let_def min_def)

lemma block_copy_nth_mod:
  assumes "w < length buf" and "length src \<le> length buf" and "k < length buf"
  shows "block_copy buf w src ! ((w + k) mod length buf) =
    (if k < length src then src ! k else buf ! ((w + k) mod length buf))"
  using assms by (subst block_copy_nth) (auto simp: mod_wrap Let_def)

text \<open>
  The slice after a block copy behind \<open>c\<close> elements, when the oldest \<open>d\<close> are given up to
  make room.
\<close>

lemma ring_slice_block_copy:
  assumes "g < length buf" and "c \<le> length buf" and "length src \<le> length buf" and "d \<le> c"
    and "c + length src - d \<le> length buf"
  shows "ring_slice (block_copy buf ((g + c) mod length buf) src) ((g + d) mod length buf)
      (c + length src - d) = drop d (ring_slice buf g c @ src)"
proof (rule nth_equalityI)
  let ?b = "length buf" and ?w = "(g + c) mod length buf"
  have w: "?w < ?b" using assms(1) by (intro mod_less_divisor) auto
  have len: "length (block_copy buf ?w src) = ?b"
    using assms w by (intro block_copy_length) auto
  show "length (ring_slice (block_copy buf ?w src) ((g + d) mod ?b) (c + length src - d)) =
      length (drop d (ring_slice buf g c @ src))" by simp
  fix i assume "i < length (ring_slice (block_copy buf ?w src) ((g + d) mod ?b) (c + length src - d))"
  then have i: "i < c + length src - d" by simp
  have idx: "((g + d) mod ?b + i) mod ?b = (g + (d + i)) mod ?b"
    by (simp add: mod_add_left_eq add.assoc)
  have lhs: "ring_slice (block_copy buf ?w src) ((g + d) mod ?b) (c + length src - d) ! i =
      block_copy buf ?w src ! ((g + (d + i)) mod ?b)"
    using i len idx by (simp add: nth_ring_slice)
  have rhs: "drop d (ring_slice buf g c @ src) ! i = (ring_slice buf g c @ src) ! (d + i)"
    using assms(4) by (intro nth_drop) simp
  show "ring_slice (block_copy buf ?w src) ((g + d) mod ?b) (c + length src - d) ! i =
      drop d (ring_slice buf g c @ src) ! i"
  proof (cases "d + i < c")
    case True
    let ?k = "?b - (c - (d + i))"
    have "(?w + ?k) mod ?b = (g + c + ?k) mod ?b" by (simp add: mod_add_left_eq)
    also have "g + c + ?k = (g + (d + i)) + ?b" using True assms by simp
    finally have "(?w + ?k) mod ?b = (g + (d + i)) mod ?b" by simp
    moreover have "block_copy buf ?w src ! ((?w + ?k) mod ?b) = buf ! ((?w + ?k) mod ?b)"
      using True assms i w by (subst block_copy_nth_mod) auto
    ultimately have "block_copy buf ?w src ! ((g + (d + i)) mod ?b) = buf ! ((g + (d + i)) mod ?b)"
      by simp
    with True lhs show ?thesis unfolding rhs by (simp add: nth_append nth_ring_slice)
  next
    case False
    let ?k = "d + i - c"
    have "(?w + ?k) mod ?b = (g + c + ?k) mod ?b" by (rule mod_add_left_eq)
    also have "g + c + ?k = g + (d + i)" using False by simp
    finally have "(?w + ?k) mod ?b = (g + (d + i)) mod ?b" .
    moreover have "block_copy buf ?w src ! ((?w + ?k) mod ?b) = src ! ?k"
      using False assms i w by (subst block_copy_nth_mod) auto
    ultimately show ?thesis using False lhs i unfolding rhs by (simp add: nth_append)
  qed
qed

section \<open>Operations\<close>

text \<open>
  A ring buffer is known by its memory, its read position, its fill level and its size;
  this is how the operations are described.
\<close>

lemma rb_list_eqI:
  assumes "rb_inv rb'" and "buffer_ptr rb' = block_copy (buffer_ptr rb) (write_index rb) src"
    and "rb_inv rb" and "length src \<le> buffer_size rb"
    and "d \<le> rt_ringbuffer_data_len rb"
    and "rt_ringbuffer_data_len rb' = rt_ringbuffer_data_len rb + length src - d"
    and "read_index rb' = (read_index rb + d) mod buffer_size rb"
    and "buffer_size rb' = buffer_size rb"
  shows "rb_list rb' = drop d (rb_list rb @ src)"
proof -
  have "length (buffer_ptr rb) = buffer_size rb" "read_index rb < buffer_size rb"
    using assms(3) by (simp_all add: inv_simps)
  then show ?thesis
    using ring_slice_block_copy[of "read_index rb" "buffer_ptr rb" "rt_ringbuffer_data_len rb" src d]
      assms data_len_le[OF assms(1)] data_len_le[OF assms(3)] write_index_eq[OF assms(3)]
    by (simp add: rb_list_def)
qed

lemma put_indices:
  assumes "rb_inv rb" and "rt_ringbuffer_data_len rb + k \<le> buffer_size rb" and "length b = buffer_size rb"
    and "rb' = (if buffer_size rb - write_index rb > k
      then rb\<lparr>buffer_ptr := b, write_index := write_index rb + k\<rparr>
      else rb\<lparr>buffer_ptr := b, write_mirror := \<not> write_mirror rb,
             write_index := k - (buffer_size rb - write_index rb)\<rparr>)"
  shows "rb_inv rb'" and "rt_ringbuffer_data_len rb' = rt_ringbuffer_data_len rb + k"
proof -
  show i: "rb_inv rb'"
    using assms(1-3) unfolding data_len_eq[OF assms(1)] assms(4)
    by (auto simp: inv_simps split: if_splits)
  show "rt_ringbuffer_data_len rb' = rt_ringbuffer_data_len rb + k"
    using assms(1,2) unfolding data_len_eq[OF assms(1)] data_len_eq[OF i]
    by (auto simp: assms(4) inv_simps split: if_splits)
qed

lemma put_ok:
  assumes "rb_inv rb" and "rt_ringbuffer_put rb ptr = (n, rb')"
  shows "n = min (length ptr) (rt_ringbuffer_space_len rb) \<and> rb_inv rb' \<and>
    buffer_size rb' = buffer_size rb \<and> rb_list rb' = rb_list rb @ take n ptr"
proof (cases "rt_ringbuffer_space_len rb = 0")
  case True
  with assms show ?thesis by (simp add: rt_ringbuffer_put_def)
next
  case False
  let ?n = "min (length ptr) (rt_ringbuffer_space_len rb)"
  let ?src = "take ?n ptr"
  let ?b = "block_copy (buffer_ptr rb) (write_index rb) ?src"
  have I: "length (buffer_ptr rb) = buffer_size rb" "write_index rb < buffer_size rb"
    "read_index rb < buffer_size rb"
    using assms(1) by (simp_all add: inv_simps)
  have le: "length ?src \<le> buffer_size rb"
    by (auto simp: rt_ringbuffer_space_len_def min_def)
  have lb: "length ?b = buffer_size rb" using block_copy_length[of "write_index rb" "buffer_ptr rb" ?src] I le by simp
  have res: "n = ?n" "rb' = (if buffer_size rb - write_index rb > ?n
      then rb\<lparr>buffer_ptr := ?b, write_index := write_index rb + ?n\<rparr>
      else rb\<lparr>buffer_ptr := ?b, write_mirror := \<not> write_mirror rb,
             write_index := ?n - (buffer_size rb - write_index rb)\<rparr>)"
    using assms(2) False I by (auto simp: rt_ringbuffer_put_def Let_def block_copy_def min_def split: if_splits)
  have fit: "rt_ringbuffer_data_len rb + ?n \<le> buffer_size rb"
    using False by (auto simp: rt_ringbuffer_space_len_def min_def)
  note inv = put_indices[OF assms(1) fit lb res(2)]
  have "rb_list rb' = drop 0 (rb_list rb @ ?src)"
    by (rule rb_list_eqI[OF inv(1) _ assms(1) le]) (use inv(2) I in \<open>simp_all add: res(2)\<close>)
  with res(1) inv(1) show ?thesis by (simp add: res(2))
qed

text \<open>
  A forced put keeps the newest bytes: the fill level after it, and how far the read
  position moves.
\<close>

lemma force_indices:
  assumes "rb_inv rb" and "k \<le> buffer_size rb" and "length b = buffer_size rb"
    and "if buffer_size rb - write_index rb > k then wm = write_mirror rb \<and> wi = write_index rb + k
      else wm = (\<not> write_mirror rb) \<and> wi = k - (buffer_size rb - write_index rb)"
    and "if k > buffer_size rb - rt_ringbuffer_data_len rb
      then ri = wi \<and> (rm = (if buffer_size rb - write_index rb > k \<or> wi > read_index rb
        then read_mirror rb else (\<not> read_mirror rb)))
      else rm = read_mirror rb \<and> ri = read_index rb"
    and "rb' = rb\<lparr>buffer_ptr := b, write_mirror := wm, write_index := wi,
      read_mirror := rm, read_index := ri\<rparr>"
  shows "rb_inv rb'"
    and "rt_ringbuffer_data_len rb' =
      rt_ringbuffer_data_len rb + k - (rt_ringbuffer_data_len rb + k - buffer_size rb)"
    and "read_index rb' =
      (read_index rb + (rt_ringbuffer_data_len rb + k - buffer_size rb)) mod buffer_size rb"
proof -
  have c: "rt_ringbuffer_data_len rb =
      (if read_mirror rb = write_mirror rb then write_index rb - read_index rb
       else buffer_size rb - read_index rb + write_index rb)" using assms(1) by (rule data_len_eq)
  show i: "rb_inv rb'"
    using assms(1-5) unfolding assms(6) c by (auto simp: inv_simps split: if_splits)
  show "rt_ringbuffer_data_len rb' =
      rt_ringbuffer_data_len rb + k - (rt_ringbuffer_data_len rb + k - buffer_size rb)"
    using assms(1,2,4,5) unfolding data_len_eq[OF i] c
    by (auto simp: assms(6) inv_simps split: if_splits)
  show "read_index rb' =
      (read_index rb + (rt_ringbuffer_data_len rb + k - buffer_size rb)) mod buffer_size rb"
    using assms(1,2,4,5) unfolding c
    by (subst mod_wrap) (auto simp: assms(6) inv_simps split: if_splits)
qed

lemma put_force_eq:
  assumes "length (buffer_ptr rb) = buffer_size rb"
    and "src = drop (length ptr - buffer_size rb) ptr" and "k = length src"
    and "wm = (if buffer_size rb - write_index rb > k then write_mirror rb else \<not> write_mirror rb)"
    and "wi = (if buffer_size rb - write_index rb > k then write_index rb + k
      else k - (buffer_size rb - write_index rb))"
    and "rm = (if k > buffer_size rb - rt_ringbuffer_data_len rb \<and>
        \<not> (buffer_size rb - write_index rb > k \<or> wi > read_index rb)
      then \<not> read_mirror rb else read_mirror rb)"
    and "ri = (if k > buffer_size rb - rt_ringbuffer_data_len rb then wi else read_index rb)"
  shows "rt_ringbuffer_put_force rb ptr = (k, rb\<lparr>buffer_ptr := block_copy (buffer_ptr rb) (write_index rb) src,
    write_mirror := wm, write_index := wi, read_mirror := rm, read_index := ri\<rparr>)"
proof -
  have s: "(if length ptr > buffer_size rb then src else ptr) = src" by (simp add: assms(2))
  have "rt_ringbuffer_put_force rb ptr =
     (let space_length = rt_ringbuffer_space_len rb in
      if buffer_size rb - write_index rb > k
      then let rb1 = rb\<lparr>buffer_ptr := memcpy_at (buffer_ptr rb) (write_index rb) src,
                        write_index := write_index rb + k\<rparr>
        in (k, if k > space_length then rb1\<lparr>read_index := write_index rb1\<rparr> else rb1)
      else let rb1 = rb\<lparr>buffer_ptr := copy_wrapped (buffer_ptr rb) (buffer_size rb) (write_index rb) src,
                        write_mirror := \<not> write_mirror rb,
                        write_index := k - (buffer_size rb - write_index rb)\<rparr>
        in (k, if k > space_length
                 then (if write_index rb1 \<le> read_index rb1
                       then rb1\<lparr>read_mirror := \<not> read_mirror rb1, read_index := write_index rb1\<rparr>
                       else rb1\<lparr>read_index := write_index rb1\<rparr>)
                 else rb1))"
    unfolding rt_ringbuffer_put_force_def Let_def assms(3) s[unfolded assms(2)] assms(2) by simp
  then show ?thesis
    using assms(1,3) unfolding assms(4-7) block_copy_def rt_ringbuffer_space_len_def Let_def
    by (cases rb) (simp add: not_le)
qed

lemma put_force_ok:
  assumes "rb_inv rb" and "rt_ringbuffer_put_force rb ptr = (n, rb')"
  shows "n = min (length ptr) (buffer_size rb) \<and> rb_inv rb' \<and> buffer_size rb' = buffer_size rb \<and>
    rb_list rb' = drop (rt_ringbuffer_data_len rb + length ptr - buffer_size rb) (rb_list rb @ ptr)"
proof -
  let ?src = "drop (length ptr - buffer_size rb) ptr" and ?c = "rt_ringbuffer_data_len rb"
  let ?n = "length ?src"
  let ?b = "block_copy (buffer_ptr rb) (write_index rb) ?src" and ?d = "?c + ?n - buffer_size rb"
  have I: "length (buffer_ptr rb) = buffer_size rb" "write_index rb < buffer_size rb"
    "read_index rb < buffer_size rb"
    using assms(1) by (simp_all add: inv_simps)
  have le: "?n \<le> buffer_size rb" by simp
  have lb: "length ?b = buffer_size rb"
    using block_copy_length[of "write_index rb" "buffer_ptr rb" ?src] I le by simp
  define wm where "wm = (if buffer_size rb - write_index rb > ?n then write_mirror rb else \<not> write_mirror rb)"
  define wi where "wi = (if buffer_size rb - write_index rb > ?n then write_index rb + ?n
    else ?n - (buffer_size rb - write_index rb))"
  define rm where "rm = (if ?n > buffer_size rb - ?c \<and> \<not> (buffer_size rb - write_index rb > ?n \<or> wi > read_index rb)
    then \<not> read_mirror rb else read_mirror rb)"
  define ri where "ri = (if ?n > buffer_size rb - ?c then wi else read_index rb)"
  have eq: "rt_ringbuffer_put_force rb ptr = (?n, rb\<lparr>buffer_ptr := ?b, write_mirror := wm,
      write_index := wi, read_mirror := rm, read_index := ri\<rparr>)"
    by (rule put_force_eq[OF I(1) refl refl wm_def wi_def rm_def ri_def])
  have rb': "rb' = rb\<lparr>buffer_ptr := ?b, write_mirror := wm, write_index := wi,
      read_mirror := rm, read_index := ri\<rparr>" and n: "n = ?n"
    using assms(2) unfolding eq by simp_all
  have wr: "if buffer_size rb - write_index rb > ?n then wm = write_mirror rb \<and> wi = write_index rb + ?n
      else wm = (\<not> write_mirror rb) \<and> wi = ?n - (buffer_size rb - write_index rb)"
    unfolding wm_def wi_def by (simp del: length_drop)
  have rd: "if ?n > buffer_size rb - ?c
      then ri = wi \<and> (rm = (if buffer_size rb - write_index rb > ?n \<or> wi > read_index rb
        then read_mirror rb else (\<not> read_mirror rb)))
      else rm = read_mirror rb \<and> ri = read_index rb"
    unfolding rm_def ri_def by (simp del: length_drop)
  note inv = force_indices[OF assms(1) le lb wr rd rb']
  have "rb_list rb' = drop ?d (rb_list rb @ ?src)"
    by (rule rb_list_eqI[OF inv(1) _ assms(1) le _ inv(2,3)])
      (use data_len_le[OF assms(1)] le in \<open>simp_all add: rb'\<close>)
  also have "\<dots> = drop (?c + length ptr - buffer_size rb) (rb_list rb @ ptr)"
    using data_len_le[OF assms(1)] by (cases "buffer_size rb < length ptr") (auto simp: drop_append)
  finally show ?thesis using inv(1) n by (simp add: rb' min_def)
qed

text \<open>Reading moves the read position by the number of bytes taken.\<close>

lemma take_ok:
  assumes "rb_inv rb" and "k \<le> rt_ringbuffer_data_len rb"
    and "rb' = (if buffer_size rb - read_index rb > k then rb\<lparr>read_index := read_index rb + k\<rparr>
      else rb\<lparr>read_mirror := \<not> read_mirror rb, read_index := k - (buffer_size rb - read_index rb)\<rparr>)"
  shows "rb_inv rb'" and "buffer_size rb' = buffer_size rb" and "rb_list rb' = drop k (rb_list rb)"
proof -
  have c: "rt_ringbuffer_data_len rb =
      (if read_mirror rb = write_mirror rb then write_index rb - read_index rb
       else buffer_size rb - read_index rb + write_index rb)" using assms(1) by (rule data_len_eq)
  show i: "rb_inv rb'"
    using assms(1,2) unfolding assms(3) c by (auto simp: inv_simps split: if_splits)
  have len: "rt_ringbuffer_data_len rb' = rt_ringbuffer_data_len rb - k"
    using assms(1,2) unfolding data_len_eq[OF i] c by (auto simp: assms(3) inv_simps split: if_splits)
  have b: "length (buffer_ptr rb) = buffer_size rb" "read_index rb < buffer_size rb"
    "buffer_ptr rb' = buffer_ptr rb"
    using assms(1) by (simp_all add: inv_simps assms(3))
  have ri: "read_index rb' = (read_index rb + k) mod buffer_size rb"
    using b data_len_le[OF assms(1)] assms(2) by (subst mod_wrap) (auto simp: assms(3))
  show "buffer_size rb' = buffer_size rb" by (simp add: assms(3))
  show "rb_list rb' = drop k (rb_list rb)"
  proof (rule nth_equalityI)
    fix i assume "i < length (rb_list rb')"
    then have "i < rt_ringbuffer_data_len rb - k" using len by simp
    then show "rb_list rb' ! i = drop k (rb_list rb) ! i"
      using b len ri assms(2) by (simp add: rb_list_def nth_ring_slice mod_add_left_eq add.assoc)
  qed (simp add: len)
qed

lemma take_ring_slice:
  assumes "k \<le> c" and "c \<le> length buf" and "g < length buf"
  shows "take k (ring_slice buf g c) =
    (if length buf - g > k then take k (drop g buf)
     else take (length buf - g) (drop g buf) @ take (k - (length buf - g)) buf)"
proof (rule nth_equalityI)
  fix i assume "i < length (take k (ring_slice buf g c))"
  then have "i < k" "i < c" by simp_all
  then show "take k (ring_slice buf g c) ! i = (if length buf - g > k then take k (drop g buf)
     else take (length buf - g) (drop g buf) @ take (k - (length buf - g)) buf) ! i"
    using assms by (auto simp: nth_ring_slice nth_append mod_wrap add.commute)
qed (use assms in auto)

lemma get_ok:
  assumes "rb_inv rb" and "rt_ringbuffer_get rb n = (bs, rb')"
  shows "bs = take n (rb_list rb) \<and> rb_inv rb' \<and> buffer_size rb' = buffer_size rb \<and>
    rb_list rb' = drop n (rb_list rb)"
proof (cases "rt_ringbuffer_data_len rb = 0")
  case True
  with assms show ?thesis by (auto simp: rt_ringbuffer_get_def rb_list_def)
next
  case False
  define k where "k = min n (rt_ringbuffer_data_len rb)"
  have k: "k \<le> rt_ringbuffer_data_len rb" "(if rt_ringbuffer_data_len rb < n then rt_ringbuffer_data_len rb else n) = k"
    by (simp_all add: k_def)
  have b: "length (buffer_ptr rb) = buffer_size rb" "read_index rb < buffer_size rb"
    using assms(1) by (simp_all add: inv_simps)
  have rb': "rb' = (if buffer_size rb - read_index rb > k then rb\<lparr>read_index := read_index rb + k\<rparr>
      else rb\<lparr>read_mirror := \<not> read_mirror rb, read_index := k - (buffer_size rb - read_index rb)\<rparr>)"
    and "bs = take k (rb_list rb)"
    using assms(2) False take_ring_slice[OF k(1), of "buffer_ptr rb" "read_index rb"] b data_len_le[OF assms(1)]
    unfolding rt_ringbuffer_get_def Let_def k(2) by (auto simp: rb_list_def split: if_splits)
  moreover have "take k (rb_list rb) = take n (rb_list rb)" "drop k (rb_list rb) = drop n (rb_list rb)"
    unfolding k_def by (simp_all add: min_def)
  ultimately show ?thesis using take_ok[OF assms(1) k(1) rb'] by simp
qed

lemma peek_ok:
  assumes "rb_inv rb" and "rt_ringbuffer_peek rb = (p, n, rb')"
  shows "n = min (rt_ringbuffer_data_len rb) (buffer_size rb - read_index rb) \<and> rb_inv rb' \<and>
    (0 < n \<longrightarrow> p = Some (read_index rb)) \<and>
    take n (drop (read_index rb) (buffer_ptr rb)) = take n (rb_list rb) \<and>
    rb_list rb' = drop n (rb_list rb)"
proof (cases "rt_ringbuffer_data_len rb = 0")
  case True
  with assms show ?thesis by (auto simp: rt_ringbuffer_peek_def rb_list_def)
next
  case False
  let ?k = "min (rt_ringbuffer_data_len rb) (buffer_size rb - read_index rb)"
  have b: "length (buffer_ptr rb) = buffer_size rb" "read_index rb < buffer_size rb"
    using assms(1) by (simp_all add: inv_simps)
  have k: "?k \<le> rt_ringbuffer_data_len rb" by simp
  have rb': "rb' = (if buffer_size rb - read_index rb > ?k then rb\<lparr>read_index := read_index rb + ?k\<rparr>
      else rb\<lparr>read_mirror := \<not> read_mirror rb, read_index := ?k - (buffer_size rb - read_index rb)\<rparr>)"
    and n: "n = ?k" "p = Some (read_index rb)"
    using assms(2) False unfolding rt_ringbuffer_peek_def Let_def by (auto simp: min_def split: if_splits)
  have "take ?k (drop (read_index rb) (buffer_ptr rb)) = take ?k (rb_list rb)"
    using take_ring_slice[OF k, of "buffer_ptr rb" "read_index rb"] b data_len_le[OF assms(1)]
    by (auto simp: rb_list_def min_def)
  with take_ok[OF assms(1) k rb'] n show ?thesis by simp
qed

section \<open>Single bytes\<close>

lemma memcpy_at_single: "w < length buf \<Longrightarrow> memcpy_at buf w [ch] = buf[w := ch]"
  by (simp add: memcpy_at_def upd_conv_take_nth_drop)

lemma copy_wrapped_single:
  "w + 1 = length buf \<Longrightarrow> copy_wrapped buf (length buf) w [ch] = buf[w := ch]"
  by (simp add: copy_wrapped_def memcpy_at_single[symmetric] memcpy_at_def)

lemma putchar_eq_put: "rb_inv rb \<Longrightarrow> rt_ringbuffer_putchar rb ch = rt_ringbuffer_put rb [ch]"
  using memcpy_at_single[of "write_index rb" "buffer_ptr rb" ch]
    copy_wrapped_single[of "write_index rb" "buffer_ptr rb" ch]
  by (auto simp: rt_ringbuffer_putchar_def rt_ringbuffer_put_def Let_def inv_simps)

lemma putchar_force_eq_put_force:
  assumes "rb_inv rb"
  shows "rt_ringbuffer_putchar_force rb ch = snd (rt_ringbuffer_put_force rb [ch])"
proof -
  have "rt_ringbuffer_status rb = RT_RINGBUFFER_FULL \<longleftrightarrow> 1 > rt_ringbuffer_space_len rb"
    unfolding full_iff[OF assms] using data_len_le[OF assms] by (auto simp: rt_ringbuffer_space_len_def)
  moreover have "0 < buffer_size rb" "length (buffer_ptr rb) = buffer_size rb" "write_index rb < buffer_size rb"
    using assms by (simp_all add: inv_simps)
  ultimately show ?thesis
    using memcpy_at_single[of "write_index rb" "buffer_ptr rb" ch]
      copy_wrapped_single[of "write_index rb" "buffer_ptr rb" ch]
    by (cases rb) (auto simp: rt_ringbuffer_putchar_force_def rt_ringbuffer_put_force_def Let_def)
qed

lemma getchar_eq_get:
  assumes "rb_inv rb"
  shows "rt_ringbuffer_getchar rb =
     (case rt_ringbuffer_get rb 1 of ([], _) \<Rightarrow> None | (x # _, rb') \<Rightarrow> Some (x, rb'))"
proof -
  have I: "length (buffer_ptr rb) = buffer_size rb" "read_index rb < buffer_size rb"
    using assms by (simp_all add: inv_simps)
  then have "drop (read_index rb) (buffer_ptr rb) =
      buffer_ptr rb ! read_index rb # drop (Suc (read_index rb)) (buffer_ptr rb)"
    by (simp add: Cons_nth_drop_Suc)
  with I show ?thesis
    by (auto simp: rt_ringbuffer_getchar_def rt_ringbuffer_get_def Let_def take_Cons')
qed

text \<open>The forced put and the read of single bytes implement the overwriting queue.\<close>

interpretation rbq: overwriting_fifo rt_ringbuffer_putchar_force rt_ringbuffer_getchar rb_list rb_inv
  buffer_size
proof
  fix rb :: rt_ringbuffer and x
  assume inv: "rb_inv rb"
  obtain n rb' where f: "rt_ringbuffer_put_force rb [x] = (n, rb')" by fastforce
  show "length (rb_list rb) \<le> buffer_size rb" using data_len_le[OF inv] by simp
  show "rb_list (rt_ringbuffer_putchar_force rb x) =
      drop (Suc (length (rb_list rb)) - buffer_size rb) (rb_list rb @ [x])"
    "rb_inv (rt_ringbuffer_putchar_force rb x)"
    "buffer_size (rt_ringbuffer_putchar_force rb x) = buffer_size rb"
    using put_force_ok[OF inv f] f by (simp_all add: putchar_force_eq_put_force[OF inv])
  show "rb_list rb = [] \<Longrightarrow> rt_ringbuffer_getchar rb = None"
    by (simp add: rt_ringbuffer_getchar_def rb_list_def ring_slice_def)
next
  fix rb :: rt_ringbuffer and x xs
  assume inv: "rb_inv rb" and l: "rb_list rb = x # xs"
  obtain bs rb' where g: "rt_ringbuffer_get rb 1 = (bs, rb')" by fastforce
  from get_ok[OF inv g] l g show "\<exists>q'. rt_ringbuffer_getchar rb = Some (x, q') \<and> rb_list q' = xs \<and>
      rb_inv q' \<and> buffer_size q' = buffer_size rb"
    by (simp add: getchar_eq_get[OF inv])
qed

section \<open>Properties\<close>

text \<open>
  Putting a block never loses or reorders what is stored and accepts exactly as many
  bytes as there is room for, and reading returns the bytes in the order they were put:
  after a put of \<open>ptr\<close> a get of \<open>m\<close> bytes returns the first \<open>m\<close> of the old contents
  followed by the accepted bytes, and leaves the rest.
\<close>

theorem ringbuffer_put_get:
  assumes "rb_inv rb" and "rt_ringbuffer_put rb ptr = (n, rb1)"
    and "rt_ringbuffer_get rb1 m = (bs, rb2)"
  shows "n = min (length ptr) (buffer_size rb - length (rb_list rb)) \<and>
    bs = take m (rb_list rb @ take n ptr) \<and> rb_list rb2 = drop m (rb_list rb @ take n ptr) \<and>
    rb_inv rb2 \<and> buffer_size rb2 = buffer_size rb"
proof -
  from put_ok[OF assms(1,2)] have p: "n = min (length ptr) (buffer_size rb - length (rb_list rb))"
    "rb_inv rb1" "buffer_size rb1 = buffer_size rb" "rb_list rb1 = rb_list rb @ take n ptr"
    by (auto simp: rt_ringbuffer_space_len_def)
  from get_ok[OF p(2) assms(3)] show ?thesis by (simp add: p)
qed

text \<open>
  C30. The block copy of a forced put, with its two copies and its corrections of index and
  mirror bit, is equivalent to putting the bytes one at a time with the forced put of a
  single byte: both leave the newest bytes that fit, in order, also when the block is
  longer than the buffer.
\<close>

theorem ringbuffer_put_force_equiv:
  assumes "rb_inv rb"
  shows "rb_list (snd (rt_ringbuffer_put_force rb ptr)) = rb_list (foldl rt_ringbuffer_putchar_force rb ptr) \<and>
    rb_list (snd (rt_ringbuffer_put_force rb ptr)) =
      drop (length (rb_list rb) + length ptr - buffer_size rb) (rb_list rb @ ptr) \<and>
    rb_inv (snd (rt_ringbuffer_put_force rb ptr))"
proof -
  obtain n rb' where f: "rt_ringbuffer_put_force rb ptr = (n, rb')" by fastforce
  from put_force_ok[OF assms f] f rbq.contents_puts[OF assms, of ptr] show ?thesis by simp
qed

text \<open>
  The function documented as looking at the first readable byte hands out a
  contiguous piece of the memory that holds the oldest bytes, and removes them: what
  \<^verbatim>\<open>rt_ringbuffer_peek\<close> returns is no longer in the buffer afterwards.
\<close>

theorem ringbuffer_peek_consumes:
  assumes "rb_inv rb" and "rt_ringbuffer_peek rb = (p, n, rb')" and "rb_list rb \<noteq> []"
  shows "0 < n \<and> p = Some (read_index rb) \<and>
    take n (drop (read_index rb) (buffer_ptr rb)) @ rb_list rb' = rb_list rb \<and> rb_inv rb'"
proof -
  have "rt_ringbuffer_data_len rb \<noteq> 0" using assms(3) by (metis length_0_conv length_rb_list)
  moreover have "read_index rb < buffer_size rb" using assms(1) by (simp add: inv_simps)
  ultimately show ?thesis using peek_ok[OF assms(1,2)] by auto
qed

section \<open>Witnesses\<close>

definition demo_rb :: rt_ringbuffer where
  "demo_rb = \<lparr>buffer_ptr = [1, 2, 3, 4], read_mirror = False, read_index = 3,
     write_mirror = True, write_index = 1, buffer_size = 4\<rparr>"

lemma demo_rb_inv: "rb_inv demo_rb" by (simp add: demo_rb_def inv_simps)

lemma demo_rb_fields: "buffer_size demo_rb = 4" "read_index demo_rb = 3" "buffer_ptr demo_rb = [1, 2, 3, 4]"
  by (simp_all add: demo_rb_def)

lemma demo_rb_list: "rb_list demo_rb = [4, 1]"
  by (simp add: demo_rb_def rb_list_def ring_slice_def rt_ringbuffer_data_len_def
      rt_ringbuffer_status_def upt_rec)

theorem ringbuffer_put_get_witness:
  "let (n, rb1) = rt_ringbuffer_put demo_rb [7, 8, 9]; (bs, rb2) = rt_ringbuffer_get rb1 3
   in n = 2 \<and> bs = [4, 1, 7] \<and> rb_list rb2 = [8]"
proof -
  obtain n rb1 where p: "rt_ringbuffer_put demo_rb [7, 8, 9] = (n, rb1)" by fastforce
  obtain bs rb2 where g: "rt_ringbuffer_get rb1 3 = (bs, rb2)" by fastforce
  from ringbuffer_put_get[OF demo_rb_inv p g] p g show ?thesis
    by (simp add: demo_rb_list) (simp add: demo_rb_def)
qed

theorem ringbuffer_put_force_equiv_witness:
  "rb_list (snd (rt_ringbuffer_put_force demo_rb [5, 6, 7])) = [1, 5, 6, 7] \<and>
   rb_list (foldl rt_ringbuffer_putchar_force demo_rb [5, 6, 7]) = [1, 5, 6, 7]"
  using ringbuffer_put_force_equiv[OF demo_rb_inv, of "[5, 6, 7]"]
  by (auto simp: demo_rb_list demo_rb_fields)

theorem ringbuffer_peek_consumes_witness:
  "let (p, n, rb') = rt_ringbuffer_peek demo_rb
   in 0 < n \<and> p = Some 3 \<and> take n (drop 3 [1, 2, 3, 4]) @ rb_list rb' = [4, 1]"
proof -
  obtain p n rb' where e: "rt_ringbuffer_peek demo_rb = (p, n, rb')" using prod_cases3 by blast
  from ringbuffer_peek_consumes[OF demo_rb_inv e] e show ?thesis
    by (auto simp: demo_rb_list demo_rb_fields take_Cons')
qed

end
