(* ===== verification/Sched.thy ===== *)
theory Sched
  imports Prelude
begin

text \<open>
  Threads, the scheduler and the thread timers of the kernel
  (\<^verbatim>\<open>rt-thread/src/scheduler.c\<close>, \<^verbatim>\<open>thread.c\<close>, \<^verbatim>\<open>timer.c\<close>, \<^verbatim>\<open>clock.c\<close>) for one processor and 32
  priorities. A thread is a number; its control block, the 32 ready queues with their
  bit map, the queues of threads waiting for an IPC object and the list of running
  timers make up the state. The doubly linked lists are HOL lists: a thread is in at most
  one of the ready and waiting queues, so taking it out of the list it is linked in is
  removing it from all of them. The timers of the model are the one-shot timers every
  thread has. Context switch, stacks, hooks and log output are left out.
\<close>

section \<open>State\<close>

datatype thread_stat =
    RT_THREAD_INIT | RT_THREAD_READY | RT_THREAD_SUSPEND | RT_THREAD_RUNNING | RT_THREAD_CLOSE

record rt_timer =
  init_tick :: u32
  timeout_tick :: u32
  activated :: bool

record rt_thread =
  stat :: thread_stat
  yielded :: bool
  current_priority :: nat
  number_mask :: u32
  error :: int
  slice_tick :: u32
  remaining_tick :: u32
  thread_timer :: rt_timer

text \<open>The queues of threads that wait for an IPC object or a memory pool.\<close>

datatype wait_queue =
    Sem_Q nat | Mutex_Q nat | Event_Q nat | Mb_Recv_Q nat | Mb_Send_Q nat | Mq_Recv_Q nat | Mq_Send_Q nat | Mp_Q nat

record kernel =
  thr :: "nat \<Rightarrow> rt_thread"
  ready :: "nat \<Rightarrow> nat list"
  ready_group :: u32
  susp :: "wait_queue \<Rightarrow> nat list"
  current :: nat
  rt_current_priority :: nat
  lock_nest :: nat
  irq_nest :: nat
  tick :: u32
  timer_list :: "nat list"

definition RT_THREAD_PRIORITY_MAX :: nat where "RT_THREAD_PRIORITY_MAX = 32"

text \<open>\<^verbatim>\<open>RT_TICK_MAX / 2\<close>.\<close>

abbreviation (input) TICK_HALF :: u32 where "TICK_HALF \<equiv> 0x7FFFFFFF"

definition upd :: "nat \<Rightarrow> (rt_thread \<Rightarrow> rt_thread) \<Rightarrow> kernel \<Rightarrow> kernel" where
  "upd t f k = k\<lparr>thr := (thr k)(t := f (thr k t))\<rparr>"

definition set_stat :: "nat \<Rightarrow> thread_stat \<Rightarrow> kernel \<Rightarrow> kernel" where
  "set_stat t s = upd t (\<lambda>th. th\<lparr>stat := s\<rparr>)"

abbreviation prio :: "kernel \<Rightarrow> nat \<Rightarrow> nat" where
  "prio k t \<equiv> current_priority (thr k t)"

section \<open>The ready queues\<close>

text \<open>\<^verbatim>\<open>rt_list_remove(&thread->tlist)\<close>.\<close>

definition list_remove :: "nat \<Rightarrow> kernel \<Rightarrow> kernel" where
  "list_remove t k = k\<lparr>ready := \<lambda>p. removeAll t (ready k p), susp := \<lambda>q. removeAll t (susp k q)\<rparr>"

text \<open>One plus the index of the lowest bit that is set; zero if there is none.\<close>

definition rt_ffs :: "u32 \<Rightarrow> nat" where
  "rt_ffs w = (case filter (bit w) [0..<32] of [] \<Rightarrow> 0 | i # _ \<Rightarrow> i + 1)"

definition rt_schedule_insert_thread :: "nat \<Rightarrow> kernel \<Rightarrow> kernel" where
  "rt_schedule_insert_thread t k =
     (if t = current k then set_stat t RT_THREAD_RUNNING k
      else let k1 = set_stat t RT_THREAD_READY k; p = prio k1 t;
               k2 = k1\<lparr>ready := (ready k1)(p := if yielded (thr k1 t) then ready k1 p @ [t] else t # ready k1 p)\<rparr>
           in k2\<lparr>ready_group := ready_group k2 OR number_mask (thr k2 t)\<rparr>)"

definition rt_schedule_remove_thread :: "nat \<Rightarrow> kernel \<Rightarrow> kernel" where
  "rt_schedule_remove_thread t k =
     (let k1 = list_remove t k in
      if ready k1 (prio k1 t) = []
      then k1\<lparr>ready_group := ready_group k1 AND NOT (number_mask (thr k1 t))\<rparr> else k1)"

text \<open>The highest ready priority and the first thread of its queue.\<close>

definition scheduler_get_highest_priority_thread :: "kernel \<Rightarrow> (nat \<times> nat) res" where
  "scheduler_get_highest_priority_thread k =
     (let p = rt_ffs (ready_group k) - 1 in
      case ready k p of [] \<Rightarrow> Inl Out_Of_Bounds | t # _ \<Rightarrow> Inr (t, p))"

definition rt_system_scheduler_init :: "kernel \<Rightarrow> kernel" where
  "rt_system_scheduler_init k = k\<lparr>lock_nest := 0, ready := \<lambda>_. [], ready_group := 0\<rparr>"

definition rt_system_scheduler_start :: "kernel \<Rightarrow> kernel res" where
  "rt_system_scheduler_start k =
     bind_res (scheduler_get_highest_priority_thread k) (\<lambda>(to_thread, _).
       Inr (set_stat to_thread RT_THREAD_RUNNING
              (upd to_thread (\<lambda>th. th\<lparr>yielded := False\<rparr>)
                (rt_schedule_remove_thread to_thread (k\<lparr>current := to_thread\<rparr>)))))"

text \<open>
  The switch to another thread. A running thread that goes on runs; one that yielded or
  is outranked is put back into its queue, after its yield flag was cleared.
\<close>

definition switch_to :: "nat \<Rightarrow> nat \<Rightarrow> bool \<Rightarrow> kernel \<Rightarrow> kernel" where
  "switch_to to_thread highest need_insert k =
     (let k1 = k\<lparr>rt_current_priority := highest, current := to_thread\<rparr>;
          k2 = (if need_insert then rt_schedule_insert_thread (current k) k1 else k1)
      in set_stat to_thread RT_THREAD_RUNNING (rt_schedule_remove_thread to_thread k2))"

definition rt_schedule :: "kernel \<Rightarrow> kernel res" where
  "rt_schedule k =
     (if lock_nest k = 0 \<and> ready_group k \<noteq> 0
      then bind_res (scheduler_get_highest_priority_thread k) (\<lambda>(h_thread, highest).
        let c = current k;
            running = (stat (thr k c) = RT_THREAD_RUNNING);
            stay = (running \<and> (prio k c < highest \<or> prio k c = highest \<and> \<not> yielded (thr k c)));
            k1 = (if running then upd c (\<lambda>th. th\<lparr>yielded := False\<rparr>) k else k);
            to_thread = (if stay then c else h_thread)
        in if to_thread \<noteq> c then Inr (switch_to to_thread highest (running \<and> \<not> stay) k1)
           else Inr (set_stat c RT_THREAD_RUNNING (rt_schedule_remove_thread c k1)))
      else Inr k)"

definition rt_enter_critical :: "kernel \<Rightarrow> kernel" where
  "rt_enter_critical k = k\<lparr>lock_nest := lock_nest k + 1\<rparr>"

definition rt_exit_critical :: "kernel \<Rightarrow> kernel res" where
  "rt_exit_critical k =
     (let k1 = k\<lparr>lock_nest := lock_nest k - 1\<rparr> in if lock_nest k1 = 0 then rt_schedule k1 else Inr k1)"

section \<open>Thread timers\<close>

definition upd_timer :: "nat \<Rightarrow> (rt_timer \<Rightarrow> rt_timer) \<Rightarrow> kernel \<Rightarrow> kernel" where
  "upd_timer t f = upd t (\<lambda>th. th\<lparr>thread_timer := f (thread_timer th)\<rparr>)"

abbreviation deadline :: "kernel \<Rightarrow> nat \<Rightarrow> u32" where
  "deadline k t \<equiv> timeout_tick (thread_timer (thr k t))"

text \<open>The place of a timer in the list: behind every timer that does not expire later.\<close>

fun timer_insert :: "(nat \<Rightarrow> u32) \<Rightarrow> nat \<Rightarrow> nat list \<Rightarrow> nat list" where
  "timer_insert d x [] = [x]"
| "timer_insert d x (t # ts) =
     (if d t - d x = 0 then t # timer_insert d x ts
      else if d t - d x < TICK_HALF then x # t # ts
      else t # timer_insert d x ts)"

definition rt_timer_start :: "nat \<Rightarrow> kernel \<Rightarrow> kernel" where
  "rt_timer_start t k =
     (let k1 = k\<lparr>timer_list := removeAll t (timer_list k)\<rparr>;
          k2 = upd_timer t (\<lambda>tm. tm\<lparr>activated := False, timeout_tick := tick k1 + init_tick tm\<rparr>) k1;
          k3 = k2\<lparr>timer_list := timer_insert (deadline k2) t (timer_list k2)\<rparr>
      in upd_timer t (\<lambda>tm. tm\<lparr>activated := True\<rparr>) k3)"

definition rt_timer_stop :: "nat \<Rightarrow> kernel \<Rightarrow> rt_err_t \<times> kernel" where
  "rt_timer_stop t k =
     (if \<not> activated (thread_timer (thr k t)) then (- RT_ERROR, k)
      else (RT_EOK, upd_timer t (\<lambda>tm. tm\<lparr>activated := False\<rparr>)
             (k\<lparr>timer_list := removeAll t (timer_list k)\<rparr>)))"

text \<open>The command \<^verbatim>\<open>RT_TIMER_CTRL_SET_TIME\<close> of \<^verbatim>\<open>rt_timer_control\<close>.\<close>

definition rt_timer_set_time :: "nat \<Rightarrow> u32 \<Rightarrow> kernel \<Rightarrow> kernel res" where
  "rt_timer_set_time t v k =
     (if v < TICK_HALF then Inr (upd_timer t (\<lambda>tm. tm\<lparr>init_tick := v\<rparr>) k) else Inl Assert_Failed)"

section \<open>Threads\<close>

definition rt_thread_suspend :: "nat \<Rightarrow> kernel \<Rightarrow> (rt_err_t \<times> kernel) res" where
  "rt_thread_suspend t k =
     (if t \<noteq> current k then Inl Assert_Failed
      else if stat (thr k t) \<noteq> RT_THREAD_READY \<and> stat (thr k t) \<noteq> RT_THREAD_RUNNING then Inr (- RT_ERROR, k)
      else Inr (RT_EOK, snd (rt_timer_stop t
             (set_stat t RT_THREAD_SUSPEND (rt_schedule_remove_thread t k)))))"

definition rt_thread_resume :: "nat \<Rightarrow> kernel \<Rightarrow> rt_err_t \<times> kernel" where
  "rt_thread_resume t k =
     (if stat (thr k t) \<noteq> RT_THREAD_SUSPEND then (- RT_ERROR, k)
      else (RT_EOK, rt_schedule_insert_thread t (snd (rt_timer_stop t (list_remove t k)))))"

text \<open>\<^verbatim>\<open>_thread_init\<close>: the fields of the control block that the kernel model has.\<close>

definition thread_init :: "nat \<Rightarrow> nat \<Rightarrow> u32 \<Rightarrow> kernel \<Rightarrow> kernel res" where
  "thread_init t priority ticks k =
     (if priority < RT_THREAD_PRIORITY_MAX
      then Inr (k\<lparr>thr := (thr k)(t :=
        \<lparr>stat = RT_THREAD_INIT, yielded = False, current_priority = priority, number_mask = 0, error = RT_EOK,
         slice_tick = ticks, remaining_tick = ticks,
         thread_timer = \<lparr>init_tick = 0, timeout_tick = 0, activated = False\<rparr>\<rparr>)\<rparr>)
      else Inl Assert_Failed)"

text \<open>\<open>started\<close>: the scheduler runs already (\<^verbatim>\<open>rt_thread_self() != RT_NULL\<close>).\<close>

definition rt_thread_startup :: "bool \<Rightarrow> nat \<Rightarrow> kernel \<Rightarrow> kernel res" where
  "rt_thread_startup started t k =
     (if stat (thr k t) \<noteq> RT_THREAD_INIT then Inl Assert_Failed
      else let k1 = upd t (\<lambda>th. th\<lparr>number_mask := push_bit (current_priority th) 1,
                                  stat := RT_THREAD_SUSPEND, yielded := False\<rparr>) k;
               k2 = snd (rt_thread_resume t k1)
           in if started then rt_schedule k2 else Inr k2)"

definition set_priority :: "nat \<Rightarrow> nat \<Rightarrow> kernel \<Rightarrow> kernel" where
  "set_priority t p = upd t (\<lambda>th. th\<lparr>current_priority := p, number_mask := push_bit p 1\<rparr>)"

text \<open>\<^verbatim>\<open>rt_thread_control\<close> with \<^verbatim>\<open>RT_THREAD_CTRL_CHANGE_PRIORITY\<close>.\<close>

definition change_priority :: "nat \<Rightarrow> nat \<Rightarrow> kernel \<Rightarrow> kernel" where
  "change_priority t p k =
     (if stat (thr k t) = RT_THREAD_READY
      then rt_schedule_insert_thread t (set_priority t p (rt_schedule_remove_thread t k))
      else set_priority t p k)"

definition rt_thread_yield :: "kernel \<Rightarrow> kernel res" where
  "rt_thread_yield k =
     rt_schedule (upd (current k) (\<lambda>th. th\<lparr>remaining_tick := slice_tick th, yielded := True\<rparr>) k)"

definition set_error :: "nat \<Rightarrow> rt_err_t \<Rightarrow> kernel \<Rightarrow> kernel" where
  "set_error t e = upd t (\<lambda>th. th\<lparr>error := e\<rparr>)"

text \<open>
  Suspending the current thread for a number of ticks. The thread goes on after the
  following schedule when it is chosen again; what it returns then is \<open>sleep_result\<close>.
\<close>

definition sleep_ticks :: "u32 \<Rightarrow> kernel \<Rightarrow> kernel res" where
  "sleep_ticks n k =
     bind_res (rt_thread_suspend (current k) k) (\<lambda>(_, k1).
     bind_res (rt_timer_set_time (current k) n k1) (\<lambda>k2.
     rt_schedule (rt_timer_start (current k) k2)))"

definition rt_thread_sleep :: "u32 \<Rightarrow> kernel \<Rightarrow> kernel res" where
  "rt_thread_sleep n k = sleep_ticks n (set_error (current k) RT_EOK k)"

definition sleep_result :: "nat \<Rightarrow> kernel \<Rightarrow> rt_err_t" where
  "sleep_result t k = (if error (thr k t) = - RT_ETIMEOUT then RT_EOK else error (thr k t))"

definition rt_thread_delay :: "u32 \<Rightarrow> kernel \<Rightarrow> kernel res" where
  "rt_thread_delay n = rt_thread_sleep n"

text \<open>The new value of the caller's variable and the state.\<close>

definition rt_thread_delay_until :: "u32 \<Rightarrow> u32 \<Rightarrow> kernel \<Rightarrow> (u32 \<times> kernel) res" where
  "rt_thread_delay_until prev inc k =
     (let k0 = set_error (current k) RT_EOK k in
      if tick k - prev < inc
      then bind_res (sleep_ticks (prev + inc - tick k) k0) (\<lambda>k1. Inr (prev + inc, k1))
      else Inr (tick k, k0))"

text \<open>1000 ticks per second; a negative argument means for ever.\<close>

definition rt_tick_from_millisecond :: "int \<Rightarrow> u32" where
  "rt_tick_from_millisecond ms =
     (if ms < 0 then - 1
      else of_int (1000 * (ms div 1000)) + of_int ((1000 * (ms mod 1000) + 999) div 1000))"

definition rt_thread_mdelay :: "int \<Rightarrow> kernel \<Rightarrow> kernel res" where
  "rt_thread_mdelay ms = rt_thread_sleep (rt_tick_from_millisecond ms)"

text \<open>\<^verbatim>\<open>_thread_timeout\<close>, the function of a thread timer.\<close>

definition thread_timeout :: "nat \<Rightarrow> kernel \<Rightarrow> kernel res" where
  "thread_timeout t k =
     (if stat (thr k t) \<noteq> RT_THREAD_SUSPEND then Inl Assert_Failed
      else rt_schedule (rt_schedule_insert_thread t (list_remove t (set_error t (- RT_ETIMEOUT) k))))"

text \<open>\<^verbatim>\<open>rt_thread_detach\<close> of a thread that is not closed, and \<^verbatim>\<open>_thread_exit\<close>.\<close>

definition rt_thread_detach :: "nat \<Rightarrow> kernel \<Rightarrow> kernel" where
  "rt_thread_detach t k =
     (if stat (thr k t) = RT_THREAD_CLOSE then k
      else let k1 = (if stat (thr k t) \<noteq> RT_THREAD_INIT then rt_schedule_remove_thread t k else k);
               k2 = upd_timer t (\<lambda>tm. tm\<lparr>activated := False\<rparr>) (k1\<lparr>timer_list := removeAll t (timer_list k1)\<rparr>)
           in upd t (\<lambda>th. th\<lparr>stat := RT_THREAD_CLOSE, yielded := False\<rparr>) k2)"

definition thread_exit :: "kernel \<Rightarrow> kernel res" where
  "thread_exit k =
     (let t = current k; k1 = rt_schedule_remove_thread t k;
          k2 = upd_timer t (\<lambda>tm. tm\<lparr>activated := False\<rparr>) (k1\<lparr>timer_list := removeAll t (timer_list k1)\<rparr>)
      in rt_schedule (upd t (\<lambda>th. th\<lparr>stat := RT_THREAD_CLOSE, yielded := False\<rparr>) k2))"

section \<open>What the primitives change\<close>

lemma thr_upd [simp]: "thr (upd t f k) = (thr k)(t := f (thr k t))"
  by (simp add: upd_def)

lemma upd_fields [simp]:
  "ready (upd t f k) = ready k" "ready_group (upd t f k) = ready_group k" "susp (upd t f k) = susp k"
  "current (upd t f k) = current k" "lock_nest (upd t f k) = lock_nest k" "irq_nest (upd t f k) = irq_nest k"
  "tick (upd t f k) = tick k" "timer_list (upd t f k) = timer_list k"
  by (simp_all add: upd_def)

lemma list_remove_fields [simp]:
  "thr (list_remove t k) = thr k" "ready (list_remove t k) p = removeAll t (ready k p)"
  "susp (list_remove t k) q = removeAll t (susp k q)" "ready_group (list_remove t k) = ready_group k"
  "current (list_remove t k) = current k" "lock_nest (list_remove t k) = lock_nest k"
  "irq_nest (list_remove t k) = irq_nest k" "tick (list_remove t k) = tick k"
  "timer_list (list_remove t k) = timer_list k"
  by (simp_all add: list_remove_def)

lemma remove_thread_fields [simp]:
  "thr (rt_schedule_remove_thread t k) = thr k"
  "ready (rt_schedule_remove_thread t k) p = removeAll t (ready k p)"
  "susp (rt_schedule_remove_thread t k) q = removeAll t (susp k q)"
  "current (rt_schedule_remove_thread t k) = current k"
  "lock_nest (rt_schedule_remove_thread t k) = lock_nest k"
  "irq_nest (rt_schedule_remove_thread t k) = irq_nest k"
  "tick (rt_schedule_remove_thread t k) = tick k"
  "timer_list (rt_schedule_remove_thread t k) = timer_list k"
  by (simp_all add: rt_schedule_remove_thread_def Let_def)

lemma insert_thread_fields [simp]:
  "susp (rt_schedule_insert_thread t k) = susp k"
  "current (rt_schedule_insert_thread t k) = current k"
  "lock_nest (rt_schedule_insert_thread t k) = lock_nest k"
  "irq_nest (rt_schedule_insert_thread t k) = irq_nest k"
  "tick (rt_schedule_insert_thread t k) = tick k"
  "timer_list (rt_schedule_insert_thread t k) = timer_list k"
  "thr (rt_schedule_insert_thread t k) = (thr k)(t := (thr k t)
     \<lparr>stat := if t = current k then RT_THREAD_RUNNING else RT_THREAD_READY\<rparr>)"
  by (simp_all add: rt_schedule_insert_thread_def Let_def set_stat_def)

lemma switch_to_fields [simp]:
  "lock_nest (switch_to t h b k) = lock_nest k" "irq_nest (switch_to t h b k) = irq_nest k"
  "tick (switch_to t h b k) = tick k" "timer_list (switch_to t h b k) = timer_list k"
  "current (switch_to t h b k) = t"
  by (simp_all add: switch_to_def Let_def set_stat_def)

text \<open>A schedule leaves time and timers alone.\<close>

lemma rt_schedule_frame:
  assumes "rt_schedule k = Inr k'"
  shows "tick k' = tick k \<and> timer_list k' = timer_list k \<and> lock_nest k' = lock_nest k \<and>
    irq_nest k' = irq_nest k \<and> (\<forall>t. thread_timer (thr k' t) = thread_timer (thr k t))"
  using assms
  by (auto simp: rt_schedule_def bind_res_Inr_iff Let_def switch_to_def set_stat_def split: if_splits prod.splits)

lemma thread_timeout_frame:
  assumes "thread_timeout t k = Inr k'"
  shows "tick k' = tick k \<and> timer_list k' = timer_list k \<and> lock_nest k' = lock_nest k \<and>
    irq_nest k' = irq_nest k \<and> (\<forall>t. thread_timer (thr k' t) = thread_timer (thr k t))"
  using assms
  by (auto simp: thread_timeout_def set_error_def dest!: rt_schedule_frame split: if_splits)

section \<open>The clock\<close>

text \<open>
  \<^verbatim>\<open>rt_timer_check\<close>: as long as the first timer of the list has expired it is taken off
  and its function is called.
\<close>

definition expired :: "kernel \<Rightarrow> nat \<Rightarrow> bool" where
  "expired k t \<longleftrightarrow> tick k - deadline k t < TICK_HALF"

definition timer_off :: "nat \<Rightarrow> kernel \<Rightarrow> kernel" where
  "timer_off t k = upd_timer t (\<lambda>tm. tm\<lparr>activated := False\<rparr>) (k\<lparr>timer_list := removeAll t (timer_list k)\<rparr>)"

function rt_timer_check :: "kernel \<Rightarrow> kernel res" where
  "rt_timer_check k =
     (case timer_list k of [] \<Rightarrow> Inr k
      | t # ts \<Rightarrow> if expired k t then bind_res (thread_timeout t (timer_off t k)) rt_timer_check else Inr k)"
  by pat_completeness auto
termination
proof (relation "measure (\<lambda>k. length (timer_list k))")
  fix k t ts k'
  assume "timer_list k = t # ts" "expired k t" "thread_timeout t (timer_off t k) = Inr k'"
  then show "(k', k) \<in> measure (\<lambda>k. length (timer_list k))"
    using thread_timeout_frame[of t "timer_off t k" k'] length_filter_le[of "(\<noteq>) t" ts]
    by (simp add: timer_off_def upd_timer_def removeAll_filter_not_eq less_Suc_eq_le)
qed simp

declare rt_timer_check.simps [simp del]

definition rt_tick_increase :: "kernel \<Rightarrow> kernel res" where
  "rt_tick_increase k =
     (let k1 = k\<lparr>tick := tick k + 1\<rparr>; c = current k1;
          k2 = upd c (\<lambda>th. th\<lparr>remaining_tick := remaining_tick th - 1\<rparr>) k1
      in bind_res
          (if remaining_tick (thr k2 c) = 0
           then rt_schedule (upd c (\<lambda>th. th\<lparr>remaining_tick := slice_tick th, yielded := True\<rparr>) k2)
           else Inr k2)
          rt_timer_check)"

end
