(* ===== verification/Sched_Inv.thy ===== *)
theory Sched_Inv
  imports Sched
begin

text \<open>
  The invariant of the scheduler and what every kernel operation keeps of it: the ready
  queues hold exactly the ready threads of each priority and the bit map says which are
  empty, a waiting thread waits in one queue, and the timer list holds the running
  timers in the order in which they expire.
\<close>

section \<open>Invariants\<close>

definition ready_inv :: "kernel \<Rightarrow> bool" where
  [inv_simps]: "ready_inv k \<longleftrightarrow> (\<forall>p. distinct (ready k p)) \<and>
     (\<forall>p t. t \<in> set (ready k p) \<longleftrightarrow> stat (thr k t) = RT_THREAD_READY \<and> prio k t = p) \<and>
     (\<forall>p. bit (ready_group k) p \<longleftrightarrow> ready k p \<noteq> []) \<and>
     (\<forall>t. prio k t < 32) \<and>
     (\<forall>t. stat (thr k t) \<noteq> RT_THREAD_INIT \<longrightarrow> number_mask (thr k t) = push_bit (prio k t) 1)"

definition wait_inv :: "kernel \<Rightarrow> bool" where
  [inv_simps]: "wait_inv k \<longleftrightarrow> (\<forall>q. distinct (susp k q)) \<and>
     (\<forall>q t. t \<in> set (susp k q) \<longrightarrow> stat (thr k t) = RT_THREAD_SUSPEND) \<and>
     (\<forall>q q' t. t \<in> set (susp k q) \<longrightarrow> t \<in> set (susp k q') \<longrightarrow> q = q')"

text \<open>The ticks from the time \<open>now\<close> until a timer expires.\<close>

definition remaining :: "u32 \<Rightarrow> kernel \<Rightarrow> nat \<Rightarrow> nat" where
  "remaining now k t = unat (deadline k t - now)"

definition timer_inv :: "u32 \<Rightarrow> kernel \<Rightarrow> bool" where
  [inv_simps]: "timer_inv now k \<longleftrightarrow> distinct (timer_list k) \<and>
     (\<forall>t. t \<in> set (timer_list k) \<longleftrightarrow> activated (thread_timer (thr k t))) \<and>
     (\<forall>t. activated (thread_timer (thr k t)) \<longrightarrow> stat (thr k t) = RT_THREAD_SUSPEND) \<and>
     sorted (map (remaining now k) (timer_list k)) \<and> (\<forall>t \<in> set (timer_list k). remaining now k t < 0x7FFFFFFF)"

definition running_inv :: "kernel \<Rightarrow> bool" where
  [inv_simps]: "running_inv k \<longleftrightarrow> (\<forall>t. stat (thr k t) = RT_THREAD_RUNNING \<longrightarrow> t = current k) \<and>
     stat (thr k (current k)) \<notin> {RT_THREAD_INIT, RT_THREAD_READY}"

definition kinv :: "u32 \<Rightarrow> kernel \<Rightarrow> bool" where
  "kinv now k \<longleftrightarrow> ready_inv k \<and> wait_inv k \<and> timer_inv now k \<and> running_inv k"

section \<open>Ready queues\<close>

lemma rt_ffs_least:
  assumes "w \<noteq> 0"
  shows "bit w (rt_ffs w - 1) \<and> rt_ffs w - 1 < 32 \<and> (\<forall>i < rt_ffs w - 1. \<not> bit w i)"
proof -
  have "\<exists>i. bit w i" using assms by (auto simp: bit_eq_iff)
  then obtain i where "bit w i" "i < 32" using bit_imp_le_length[of w] by fastforce
  then have "i \<in> set (filter (bit w) [0..<32])" by simp
  then obtain j js where j: "filter (bit w) [0..<32] = j # js"
    by (metis list.exhaust list.set(1) empty_iff)
  have "sorted (j # js)" using sorted_filter[of "\<lambda>x. x" "[0..<32]" "bit w"] j by (simp add: sorted_upt)
  moreover have s: "x \<in> set (j # js) \<longleftrightarrow> bit w x \<and> x < 32" for x
    unfolding j[symmetric] by auto
  ultimately have "\<not> bit w x" if "x < j" for x
    using that s[of j] s[of x] by (cases "bit w x") fastforce+
  then show ?thesis using j s[of j] by (simp add: rt_ffs_def)
qed

lemma bit_mask_or: "p < 32 \<Longrightarrow> bit (w OR (2 ^ p :: u32)) i \<longleftrightarrow> bit w i \<or> i = p"
  by (auto simp: bit_or_iff bit_exp_iff)

lemma bit_mask_clear: "bit (w AND NOT (2 ^ p :: u32)) i \<longleftrightarrow> bit w i \<and> i \<noteq> p"
  by (auto simp: bit_and_iff bit_not_iff bit_exp_iff dest: bit_imp_le_length)

lemma insert_thread_ready_inv:
  assumes "ready_inv k" and "stat (thr k t) \<notin> {RT_THREAD_INIT, RT_THREAD_READY}"
  shows "ready_inv (rt_schedule_insert_thread t k)"
  using assms
  by (auto simp: ready_inv_def rt_schedule_insert_thread_def Let_def set_stat_def bit_mask_or)

text \<open>A thread that leaves its ready queue gets another state.\<close>

lemma remove_thread_ready_inv:
  assumes "ready_inv k" and "s \<notin> {RT_THREAD_INIT, RT_THREAD_READY}" and "stat (thr k t) \<noteq> RT_THREAD_INIT"
  shows "ready_inv (set_stat t s (rt_schedule_remove_thread t k))"
proof -
  let ?k = "set_stat t s (rt_schedule_remove_thread t k)"
  have m: "number_mask (thr k t) = push_bit (prio k t) 1" "prio k t < 32" using assms by (auto simp: ready_inv_def)
  have g: "bit (ready_group ?k) p \<longleftrightarrow> ready ?k p \<noteq> []" for p
  proof (cases "p = prio k t")
    case True
    then show ?thesis
      using assms(1) by (auto simp: rt_schedule_remove_thread_def Let_def set_stat_def m bit_mask_clear ready_inv_def)
  next
    case False
    then have "t \<notin> set (ready k p)" using assms(1) by (simp add: ready_inv_def)
    then show ?thesis
      using assms(1) False
      by (auto simp: rt_schedule_remove_thread_def Let_def set_stat_def m bit_mask_clear ready_inv_def)
  qed
  have q: "ready ?k p = removeAll t (ready k p)" for p by (simp add: set_stat_def)
  have th: "thr ?k = (thr k)(t := (thr k t)\<lparr>stat := s\<rparr>)" by (simp add: set_stat_def)
  show ?thesis
    unfolding ready_inv_def using g assms by (auto simp: q th ready_inv_def distinct_removeAll)
qed

section \<open>Changes an invariant does not see\<close>

lemma ready_inv_cong:
  assumes "ready_inv k" and "ready k' = ready k" and "ready_group k' = ready_group k"
    and "\<And>t. stat (thr k' t) = stat (thr k t)" and "\<And>t. prio k' t = prio k t"
    and "\<And>t. number_mask (thr k' t) = number_mask (thr k t)"
  shows "ready_inv k'"
  using assms by (simp add: ready_inv_def)

lemma wait_inv_cong:
  assumes "wait_inv k" and "\<And>q. susp k' q = removeAll t (susp k q)"
    and "\<And>x. x \<noteq> t \<Longrightarrow> stat (thr k x) = RT_THREAD_SUSPEND \<Longrightarrow> stat (thr k' x) = RT_THREAD_SUSPEND"
  shows "wait_inv k'"
  using assms by (auto simp: wait_inv_def distinct_removeAll)

lemma wait_inv_same:
  assumes "wait_inv k" and "susp k' = susp k" and "\<And>t. stat (thr k' t) = stat (thr k t)"
  shows "wait_inv k'"
  using assms by (simp add: wait_inv_def)

lemma running_inv_same:
  assumes "running_inv k" and "current k' = current k" and "\<And>t. stat (thr k' t) = stat (thr k t)"
  shows "running_inv k'"
  using assms by (simp add: running_inv_def)

lemma removeAll_not_waiting:
  assumes "wait_inv k" and "stat (thr k t) \<noteq> RT_THREAD_SUSPEND"
  shows "removeAll t (susp k q) = susp k q"
  by (rule removeAll_id) (use assms in \<open>auto simp: wait_inv_def\<close>)

lemma timer_inv_cong:
  assumes "timer_inv now k" and "timer_list k' = timer_list k"
    and "\<And>t. thread_timer (thr k' t) = thread_timer (thr k t)"
    and "\<And>t. stat (thr k t) = RT_THREAD_SUSPEND \<Longrightarrow> activated (thread_timer (thr k t)) \<Longrightarrow>
      stat (thr k' t) = RT_THREAD_SUSPEND"
  shows "timer_inv now k'"
proof -
  have "remaining now k' = remaining now k" using assms by (auto simp: remaining_def fun_eq_iff)
  then show ?thesis using assms by (auto simp: timer_inv_def)
qed

section \<open>Scheduling\<close>

text \<open>
  What a schedule keeps: all waiting threads and their queues, and of every thread all
  but whether it runs or is ready, and its yield flag.
\<close>

definition same_waiting :: "kernel \<Rightarrow> kernel \<Rightarrow> bool" where
  "same_waiting k k' \<longleftrightarrow> susp k' = susp k \<and> tick k' = tick k \<and> timer_list k' = timer_list k \<and>
     lock_nest k' = lock_nest k \<and> irq_nest k' = irq_nest k \<and>
     (\<forall>t. thr k' t = (thr k t)\<lparr>stat := stat (thr k' t), yielded := yielded (thr k' t)\<rparr>) \<and>
     (\<forall>t. stat (thr k' t) = stat (thr k t) \<or>
        {stat (thr k t), stat (thr k' t)} = {RT_THREAD_READY, RT_THREAD_RUNNING})"

lemma same_waitingD:
  assumes "same_waiting k k'"
  shows "susp k' = susp k" "tick k' = tick k" "timer_list k' = timer_list k" "lock_nest k' = lock_nest k"
    "irq_nest k' = irq_nest k" "prio k' t = prio k t" "error (thr k' t) = error (thr k t)"
    "thread_timer (thr k' t) = thread_timer (thr k t)"
    "stat (thr k' t) = RT_THREAD_SUSPEND \<longleftrightarrow> stat (thr k t) = RT_THREAD_SUSPEND"
    "remaining now k' t = remaining now k t"
proof -
  have "thr k' t = (thr k t)\<lparr>stat := stat (thr k' t), yielded := yielded (thr k' t)\<rparr>"
    using assms by (simp add: same_waiting_def)
  then have "\<And>f. f (thr k' t) = f ((thr k t)\<lparr>stat := stat (thr k' t), yielded := yielded (thr k' t)\<rparr>)"
    by simp
  from this[of current_priority] this[of error] this[of thread_timer]
  show "prio k' t = prio k t" "error (thr k' t) = error (thr k t)"
    "thread_timer (thr k' t) = thread_timer (thr k t)" by simp_all
  then show "remaining now k' t = remaining now k t" using assms by (simp add: same_waiting_def remaining_def)
  have "stat (thr k' t) = stat (thr k t) \<or>
        {stat (thr k t), stat (thr k' t)} = {RT_THREAD_READY, RT_THREAD_RUNNING}"
    using assms by (simp add: same_waiting_def)
  then show "stat (thr k' t) = RT_THREAD_SUSPEND \<longleftrightarrow> stat (thr k t) = RT_THREAD_SUSPEND"
    by (auto simp: doubleton_eq_iff)
qed (use assms in \<open>simp_all add: same_waiting_def\<close>)

lemma ready_bit:
  assumes "ready_inv k" and "stat (thr k t) = RT_THREAD_READY"
  shows "bit (ready_group k) (prio k t)"
proof -
  have "t \<in> set (ready k (prio k t))" using assms by (simp add: ready_inv_def)
  then have "ready k (prio k t) \<noteq> []" by auto
  then show ?thesis using assms(1) by (simp add: ready_inv_def)
qed

lemma highest_ready:
  assumes "ready_inv k" and "ready_group k \<noteq> 0"
  obtains t p ts where "scheduler_get_highest_priority_thread k = Inr (t, p)" and "ready k p = t # ts"
    and "stat (thr k t) = RT_THREAD_READY" and "prio k t = p"
    and "\<And>x. stat (thr k x) = RT_THREAD_READY \<Longrightarrow> p \<le> prio k x"
proof -
  let ?p = "rt_ffs (ready_group k) - 1"
  have b: "bit (ready_group k) ?p" "\<forall>i < ?p. \<not> bit (ready_group k) i" using rt_ffs_least[OF assms(2)] by auto
  then have "ready k ?p \<noteq> []" using assms(1) by (simp add: ready_inv_def)
  then obtain t ts where t: "ready k ?p = t # ts" by (cases "ready k ?p") auto
  have "t \<in> set (ready k ?p)" using t by simp
  then have s: "stat (thr k t) = RT_THREAD_READY" "prio k t = ?p" using assms(1) by (auto simp: ready_inv_def)
  have "?p \<le> prio k x" if "stat (thr k x) = RT_THREAD_READY" for x
  proof -
    from ready_bit[OF assms(1) that] b(2) show ?thesis by (meson not_le)
  qed
  then show thesis using that[of t ?p ts] t s by (simp add: scheduler_get_highest_priority_thread_def Let_def)
qed

lemma no_ready_threads:
  assumes "ready_inv k" and "ready_group k = 0"
  shows "stat (thr k t) \<noteq> RT_THREAD_READY"
  using ready_bit[OF assms(1), of t] assms(2) by auto

lemma stat_unchanged [simp]: "stat th = s \<Longrightarrow> th\<lparr>yielded := y, stat := s\<rparr> = th\<lparr>yielded := y\<rparr>"
  by (cases th) simp

text \<open>A thread that goes on running.\<close>

lemma go_on_inv:
  assumes "kinv now k" and "stat (thr k (current k)) = RT_THREAD_RUNNING" and "c = current k"
    and "k' = set_stat c RT_THREAD_RUNNING (rt_schedule_remove_thread c (upd c (\<lambda>th. th\<lparr>yielded := y\<rparr>) k))"
  shows "kinv now k' \<and> same_waiting k k' \<and> current k' = c \<and> stat (thr k' c) = RT_THREAD_RUNNING \<and>
    (\<forall>t. stat (thr k' t) = stat (thr k t))"
proof -
  let ?k1 = "upd c (\<lambda>th. th\<lparr>yielded := y\<rparr>) k"
  have w: "removeAll c (susp k q) = susp k q" for q
    using assms(1-3) removeAll_not_waiting[of k c] by (simp add: kinv_def)
  have th: "thr k' = (thr k)(c := (thr k c)\<lparr>yielded := y\<rparr>)"
    using assms(2,3) by (simp add: assms(4) set_stat_def)
  have f: "susp k' q = removeAll c (susp k q)" "tick k' = tick k" "timer_list k' = timer_list k"
    "current k' = current k" "lock_nest k' = lock_nest k" "irq_nest k' = irq_nest k" for q
    by (simp_all add: assms(4) set_stat_def)
  have st: "stat (thr k' t) = stat (thr k t)" "thread_timer (thr k' t) = thread_timer (thr k t)" for t
    by (simp_all add: th)
  have i: "ready_inv k" "wait_inv k" "timer_inv now k" "running_inv k" using assms(1) by (simp_all add: kinv_def)
  have "ready_inv ?k1" using i(1) by (rule ready_inv_cong) simp_all
  then have "ready_inv k'" unfolding assms(4) by (rule remove_thread_ready_inv) (use assms(2,3) in auto)
  moreover have "wait_inv k'" using i(2) f(1) by (rule wait_inv_cong) (simp add: st)
  moreover have "timer_inv now k'" using i(3) f(3) st(2) by (rule timer_inv_cong) (simp add: st)
  moreover have "running_inv k'" using i(4) by (simp add: running_inv_def f st)
  moreover have "same_waiting k k'"
    unfolding same_waiting_def by (simp add: f w st fun_eq_iff) (simp add: th)
  ultimately show ?thesis using f(4) assms(2,3) by (simp add: kinv_def st)
qed

text \<open>The switch to the thread \<open>t\<close>; \<open>k\<close> is the state in which the old thread's flag is cleared.\<close>

lemma switch_to_inv:
  assumes "kinv now k" and "stat (thr k t) = RT_THREAD_READY"
    and "b \<longleftrightarrow> stat (thr k (current k)) = RT_THREAD_RUNNING" and "k' = switch_to t p b k"
  shows "kinv now k' \<and> same_waiting k k' \<and> current k' = t \<and> stat (thr k' t) = RT_THREAD_RUNNING \<and>
    (\<forall>x. stat (thr k' x) = RT_THREAD_READY \<longrightarrow>
       stat (thr k x) = RT_THREAD_READY \<or> x = current k \<and> stat (thr k x) = RT_THREAD_RUNNING)"
proof -
  let ?c = "current k"
  let ?k1 = "k\<lparr>rt_current_priority := p, current := t\<rparr>"
  define k2 where "k2 = (if b then rt_schedule_insert_thread ?c ?k1 else ?k1)"
  have k': "k' = set_stat t RT_THREAD_RUNNING (rt_schedule_remove_thread t k2)"
    by (simp add: assms(4) switch_to_def k2_def Let_def)
  have i: "ready_inv k" "wait_inv k" "timer_inv now k" "running_inv k" using assms(1) by (simp_all add: kinv_def)
  have ne: "t \<noteq> ?c" using i(4) assms(2) by (auto simp: running_inv_def)
  have th2: "thr k2 = (if b then (thr k)(?c := (thr k ?c)\<lparr>stat := RT_THREAD_READY\<rparr>) else thr k)"
    using ne by (simp add: k2_def)
  have th: "thr k' = (thr k2)(t := (thr k t)\<lparr>stat := RT_THREAD_RUNNING\<rparr>)"
    using ne by (simp add: k' set_stat_def th2)
  have w: "removeAll t (susp k q) = susp k q" for q
    using removeAll_not_waiting[OF i(2), of t] assms(2) by simp
  have f: "susp k' q = susp k q" "tick k' = tick k" "timer_list k' = timer_list k" "current k' = t"
    "lock_nest k' = lock_nest k" "irq_nest k' = irq_nest k" for q
    by (simp_all add: k' set_stat_def k2_def w)
  have "ready_inv ?k1" using i(1) by (rule ready_inv_cong) simp_all
  then have "ready_inv k2" using assms(3) by (auto simp: k2_def intro!: insert_thread_ready_inv)
  then have r: "ready_inv k'" unfolding k' by (rule remove_thread_ready_inv) (use assms(2) ne th2 in auto)
  have st: "stat (thr k' x) = (if x = t then RT_THREAD_RUNNING
      else if b \<and> x = ?c then RT_THREAD_READY else stat (thr k x))" for x
    using ne by (simp add: th th2)
  have sus: "stat (thr k' x) = RT_THREAD_SUSPEND" if "stat (thr k x) = RT_THREAD_SUSPEND" for x
    using that assms(2,3) by (auto simp: st)
  have tm: "thread_timer (thr k' x) = thread_timer (thr k x)" for x by (simp add: th th2)
  have "wait_inv k'" using i(2) by (rule wait_inv_cong[of _ _ t]) (simp_all add: f w sus)
  moreover have "timer_inv now k'" using i(3) f(3) tm by (rule timer_inv_cong) (simp add: sus)
  moreover have "running_inv k'"
  proof -
    have only: "x = t" if "stat (thr k' x) = RT_THREAD_RUNNING" for x
    proof (rule ccontr)
      assume "x \<noteq> t"
      then have "\<not> (b \<and> x = ?c)" "stat (thr k x) = RT_THREAD_RUNNING" using that st[of x] by (auto split: if_splits)
      moreover from this(2) have "x = ?c" using i(4) by (simp add: running_inv_def)
      ultimately show False using assms(3) by blast
    qed
    have "stat (thr k' t) \<notin> {RT_THREAD_INIT, RT_THREAD_READY}" by (simp add: st)
    with only show ?thesis unfolding running_inv_def f by blast
  qed
  moreover have "thr k' x = (thr k x)\<lparr>stat := stat (thr k' x), yielded := yielded (thr k' x)\<rparr>" for x
    by (rule rt_thread.equality) (simp_all add: th th2)
  then have "same_waiting k k'"
    unfolding same_waiting_def using assms(2,3) by (simp add: f fun_eq_iff) (simp add: st doubleton_eq_iff)
  ultimately show ?thesis using r f(4) assms(3) by (auto simp: kinv_def st)
qed

text \<open>An update of fields the invariant does not mention.\<close>

lemma kinv_upd:
  assumes "kinv now k" and "\<And>th. stat (f th) = stat th" and "\<And>th. current_priority (f th) = current_priority th"
    and "\<And>th. number_mask (f th) = number_mask th" and "\<And>th. thread_timer (f th) = thread_timer th"
  shows "kinv now (upd c f k)"
proof -
  let ?k = "upd c f k"
  have i: "ready_inv k" "wait_inv k" "timer_inv now k" "running_inv k" using assms(1) by (simp_all add: kinv_def)
  have "ready_inv ?k" using i(1) by (rule ready_inv_cong) (simp_all add: assms)
  moreover have "wait_inv ?k" using i(2) assms(2) by (auto simp: wait_inv_def)
  moreover have "timer_inv now ?k" using i(3) by (rule timer_inv_cong) (auto simp: assms)
  moreover have "running_inv ?k" using i(4) assms(2) by (auto simp: running_inv_def)
  ultimately show ?thesis by (simp add: kinv_def)
qed

lemma same_waiting_clear_yield:
  "same_waiting (upd c (\<lambda>th. th\<lparr>yielded := y\<rparr>) k) k' \<Longrightarrow> same_waiting k k'"
  by (auto simp: same_waiting_def split: if_splits)

lemma rt_schedule_inv:
  assumes "kinv now k"
    and "stat (thr k (current k)) = RT_THREAD_RUNNING \<or> lock_nest k = 0 \<and> ready_group k \<noteq> 0"
  shows "\<exists>k'. rt_schedule k = Inr k' \<and> kinv now k' \<and> same_waiting k k' \<and>
    stat (thr k' (current k')) = RT_THREAD_RUNNING \<and>
    (lock_nest k = 0 \<longrightarrow> (\<forall>t. stat (thr k' t) = RT_THREAD_READY \<longrightarrow> prio k' (current k') \<le> prio k' t))"
proof (cases "lock_nest k = 0 \<and> ready_group k \<noteq> 0")
  case False
  have "ready_inv k" using assms(1) by (simp add: kinv_def)
  then show ?thesis
    using False assms no_ready_threads[of k] by (auto simp: rt_schedule_def same_waiting_def)
next
  case True
  let ?c = "current k"
  have i: "ready_inv k" "running_inv k" using assms(1) by (simp_all add: kinv_def)
  obtain h p ts where h: "scheduler_get_highest_priority_thread k = Inr (h, p)" "ready k p = h # ts"
    "stat (thr k h) = RT_THREAD_READY" "prio k h = p"
    "\<And>x. stat (thr k x) = RT_THREAD_READY \<Longrightarrow> p \<le> prio k x"
    using highest_ready[OF i(1)] True by metis
  have ne: "h \<noteq> ?c" using h(3) i(2) by (auto simp: running_inv_def)
  define running where "running = (stat (thr k ?c) = RT_THREAD_RUNNING)"
  define stay where "stay = (running \<and> (prio k ?c < p \<or> prio k ?c = p \<and> \<not> yielded (thr k ?c)))"
  let ?k1 = "if running then upd ?c (\<lambda>th. th\<lparr>yielded := False\<rparr>) k else k"
  show ?thesis
  proof (cases stay)
    case True
    then have run: "stat (thr k ?c) = RT_THREAD_RUNNING" by (simp add: stay_def running_def)
    define k' where "k' = set_stat ?c RT_THREAD_RUNNING
      (rt_schedule_remove_thread ?c (upd ?c (\<lambda>th. th\<lparr>yielded := False\<rparr>) k))"
    note * = go_on_inv[OF assms(1) run refl k'_def]
    have "rt_schedule k = Inr k'"
      using True run \<open>lock_nest k = 0 \<and> ready_group k \<noteq> 0\<close> unfolding k'_def
      by (simp add: rt_schedule_def h(1) Let_def stay_def running_def)
    moreover have "prio k ?c \<le> prio k t" if "stat (thr k t) = RT_THREAD_READY" for t
      using h(5)[OF that] True by (auto simp: stay_def)
    ultimately show ?thesis using * run same_waitingD(6)[of k k'] by (intro exI[of _ k']) simp
  next
    case False
    define k1 where "k1 = (if running then upd ?c (\<lambda>th. th\<lparr>yielded := False\<rparr>) k else k)"
    define k' where "k' = switch_to h p running k1"
    have s: "rt_schedule k = Inr k'"
      using False ne \<open>lock_nest k = 0 \<and> ready_group k \<noteq> 0\<close> unfolding k'_def k1_def stay_def running_def
      by (auto simp: rt_schedule_def h(1) Let_def)
    have s1: "stat (thr k1 x) = stat (thr k x)" "current k1 = ?c" for x by (simp_all add: k1_def)
    have "kinv now k1" using kinv_upd[OF assms(1)] assms(1) by (simp add: k1_def)
    note * = switch_to_inv[OF this, of h running k' p, unfolded s1, OF h(3) running_def k'_def]
    then have w: "same_waiting k k'" using same_waiting_clear_yield by (auto simp: k1_def split: if_splits)
    have "p \<le> prio k t" if "stat (thr k' t) = RT_THREAD_READY" for t
      using * that h(5)[of t] False by (auto simp: stay_def running_def)
    then show ?thesis
      using s * w h(4) same_waitingD(6)[OF w] by (intro exI[of _ k']) simp
  qed
qed

section \<open>Suspending and resuming\<close>

lemma kinvD:
  assumes "kinv now k"
  shows "ready_inv k" "wait_inv k" "timer_inv now k" "running_inv k"
  using assms by (simp_all add: kinv_def)

lemma mask_clear_id:
  assumes "\<not> bit w p"
  shows "w AND NOT (2 ^ p) = (w :: u32)"
  by (rule bit_eqI) (use assms bit_mask_clear[of w p] in auto)

lemma remove_thread_id:
  assumes "ready_inv k" and "wait_inv k"
    and "stat (thr k t) \<notin> {RT_THREAD_INIT, RT_THREAD_READY, RT_THREAD_SUSPEND}"
  shows "rt_schedule_remove_thread t k = k"
proof -
  have "removeAll t (ready k p) = ready k p" "removeAll t (susp k q) = susp k q" for p q
    using assms by (auto intro!: removeAll_id simp: ready_inv_def wait_inv_def)
  then have "list_remove t k = k" by (simp add: list_remove_def)
  moreover have "ready_group k AND NOT (number_mask (thr k t)) = ready_group k" if "ready k (prio k t) = []"
    using that assms(1,3) by (auto simp: ready_inv_def intro: mask_clear_id)
  ultimately show ?thesis by (simp add: rt_schedule_remove_thread_def Let_def)
qed

lemma running_timer_off:
  assumes "timer_inv now k" and "stat (thr k t) \<noteq> RT_THREAD_SUSPEND"
  shows "\<not> activated (thread_timer (thr k t))"
  using assms by (auto simp: timer_inv_def)

lemma suspend_eq:
  assumes "kinv now k" and "stat (thr k (current k)) = RT_THREAD_RUNNING"
  shows "rt_thread_suspend (current k) k = Inr (RT_EOK, set_stat (current k) RT_THREAD_SUSPEND k)"
  using assms remove_thread_id[OF kinvD(1,2)[OF assms(1)], of "current k"]
    running_timer_off[OF kinvD(3)[OF assms(1)], of "current k"]
  by (simp add: rt_thread_suspend_def rt_timer_stop_def set_stat_def)

lemma kinv_suspend:
  assumes "kinv now k" and "stat (thr k (current k)) = RT_THREAD_RUNNING"
  shows "kinv now (set_stat (current k) RT_THREAD_SUSPEND k)"
proof -
  let ?k = "set_stat (current k) RT_THREAD_SUSPEND k"
  note i = kinvD[OF assms(1)]
  have "ready_inv ?k"
    using remove_thread_ready_inv[OF i(1), of RT_THREAD_SUSPEND "current k"] assms(2)
      remove_thread_id[OF i(1,2), of "current k"] by simp
  moreover have "wait_inv ?k" using i(2) by (auto simp: wait_inv_def set_stat_def)
  moreover have "timer_inv now ?k" using i(3) by (rule timer_inv_cong) (auto simp: set_stat_def)
  moreover have "running_inv ?k" using i(4) by (auto simp: running_inv_def set_stat_def)
  ultimately show ?thesis by (simp add: kinv_def)
qed

text \<open>Taking a waiting thread out of its queue and out of the timer list.\<close>

lemma sorted_map_removeAll: "sorted (map f xs) \<Longrightarrow> sorted (map f (removeAll x xs))"
  by (simp add: removeAll_filter_not_eq sorted_filter)

lemma timer_off_inv:
  assumes "timer_inv now k"
  shows "timer_inv now (timer_off t k)"
proof -
  have "remaining now (timer_off t k) = remaining now k"
    by (auto simp: remaining_def fun_eq_iff timer_off_def upd_timer_def)
  then show ?thesis
    using assms sorted_map_removeAll[of "remaining now k" "timer_list k" t]
    by (auto simp: timer_inv_def timer_off_def upd_timer_def distinct_removeAll)
qed

lemma timer_stop_off:
  assumes "timer_inv now k"
  shows "snd (rt_timer_stop t k) = timer_off t k"
proof (cases "activated (thread_timer (thr k t))")
  case False
  then have "removeAll t (timer_list k) = timer_list k" using assms by (auto intro!: removeAll_id simp: timer_inv_def)
  moreover from False have e: "(thread_timer (thr k t))\<lparr>activated := False\<rparr> = thread_timer (thr k t)"
    by (intro rt_timer.equality) simp_all
  have "upd t (\<lambda>th. th\<lparr>thread_timer := (thread_timer th)\<lparr>activated := False\<rparr>\<rparr>) k = k"
    unfolding upd_def e by simp
  ultimately show ?thesis using False by (simp add: rt_timer_stop_def timer_off_def upd_timer_def)
qed (simp add: rt_timer_stop_def timer_off_def)

text \<open>The thread becomes ready, or goes on running when it is the current one.\<close>

definition wake :: "nat \<Rightarrow> kernel \<Rightarrow> kernel" where
  "wake t k = rt_schedule_insert_thread t (timer_off t (list_remove t k))"

lemma resume_wake:
  assumes "timer_inv now k" and "stat (thr k t) = RT_THREAD_SUSPEND"
  shows "rt_thread_resume t k = (RT_EOK, wake t k)"
proof -
  have "timer_inv now (list_remove t k)" using assms(1) by (rule timer_inv_cong) simp_all
  then show ?thesis using assms(2) by (simp add: rt_thread_resume_def wake_def timer_stop_off)
qed

lemma wake_fields:
  "susp (wake t k) q = removeAll t (susp k q)" "current (wake t k) = current k" "tick (wake t k) = tick k"
  "lock_nest (wake t k) = lock_nest k" "irq_nest (wake t k) = irq_nest k"
  "timer_list (wake t k) = removeAll t (timer_list k)"
  "x \<noteq> t \<Longrightarrow> thr (wake t k) x = thr k x" "prio (wake t k) x = prio k x"
  "stat (thr (wake t k) t) = (if t = current k then RT_THREAD_RUNNING else RT_THREAD_READY)"
  "error (thr (wake t k) x) = error (thr k x)" "\<not> activated (thread_timer (thr (wake t k) t))"
  by (simp_all add: wake_def timer_off_def upd_timer_def)

lemma wake_inv:
  assumes "kinv now k" and "stat (thr k t) = RT_THREAD_SUSPEND"
  shows "kinv now (wake t k)"
proof -
  note i = kinvD[OF assms(1)]
  let ?k1 = "timer_off t (list_remove t k)"
  have nr: "removeAll t (ready k p) = ready k p" for p
    using i(1) assms(2) by (auto intro!: removeAll_id simp: ready_inv_def)
  have "ready_inv ?k1"
    using i(1) by (rule ready_inv_cong) (simp_all add: timer_off_def upd_timer_def nr fun_eq_iff)
  then have r: "ready_inv (wake t k)"
    unfolding wake_def by (rule insert_thread_ready_inv) (use assms(2) in \<open>simp add: timer_off_def upd_timer_def\<close>)
  have "wait_inv (wake t k)" using i(2) by (rule wait_inv_cong[of _ _ t]) (simp_all add: wake_fields)
  moreover have "timer_inv now (list_remove t k)" using i(3) by (rule timer_inv_cong) simp_all
  then have "timer_inv now ?k1" by (rule timer_off_inv)
  then have "timer_inv now (wake t k)"
    unfolding wake_def by (rule timer_inv_cong) (auto simp: timer_off_def upd_timer_def split: if_splits)
  moreover have "running_inv (wake t k)"
    using i(4) assms(2) by (auto simp: running_inv_def wake_fields wake_def timer_off_def upd_timer_def)
  ultimately show ?thesis using r by (simp add: kinv_def)
qed

text \<open>Joining a wait queue.\<close>

lemma enqueue_inv:
  assumes "kinv now k" and "stat (thr k t) = RT_THREAD_SUSPEND" and "\<And>q. t \<notin> set (susp k q)"
    and "distinct xs" and "set xs = insert t (set (susp k q))"
  shows "kinv now (k\<lparr>susp := (susp k)(q := xs)\<rparr>)"
proof -
  note i = kinvD[OF assms(1)]
  let ?k = "k\<lparr>susp := (susp k)(q := xs)\<rparr>"
  have "ready_inv ?k" using i(1) by (rule ready_inv_cong) simp_all
  moreover have "wait_inv ?k" using i(2) assms(2-5) unfolding wait_inv_def by (auto split: if_splits)
  moreover have "timer_inv now ?k" using i(3) by (rule timer_inv_cong) simp_all
  moreover have "running_inv ?k" using i(4) by (simp add: running_inv_def)
  ultimately show ?thesis by (simp add: kinv_def)
qed

text \<open>A thread the scheduler can choose.\<close>

definition alive :: "kernel \<Rightarrow> nat \<Rightarrow> bool" where
  "alive k t \<longleftrightarrow> stat (thr k t) \<in> {RT_THREAD_READY, RT_THREAD_RUNNING}"

lemma same_waiting_alive: "same_waiting k k' \<Longrightarrow> alive k' t = alive k t"
  unfolding same_waiting_def alive_def by (auto simp: doubleton_eq_iff dest!: spec[of _ t])

lemma alive_not_suspended: "alive k t \<Longrightarrow> stat (thr k t) \<noteq> RT_THREAD_SUSPEND"
  by (auto simp: alive_def)

lemma ready_group_nonzero:
  assumes "ready_inv k" and "stat (thr k t) = RT_THREAD_READY"
  shows "ready_group k \<noteq> 0"
  using ready_bit[OF assms] by auto

text \<open>
  What waking \<open>t\<close> and a schedule change: \<open>t\<close> is in no queue and its timer is off; the other
  threads keep everything but whether they run or are ready.
\<close>

definition woken :: "nat \<Rightarrow> kernel \<Rightarrow> kernel \<Rightarrow> bool" where
  "woken t k k' \<longleftrightarrow> alive k' t \<and> (\<forall>q. susp k' q = removeAll t (susp k q)) \<and>
     timer_list k' = removeAll t (timer_list k) \<and> \<not> activated (thread_timer (thr k' t)) \<and>
     (\<forall>x. x \<noteq> t \<longrightarrow> thread_timer (thr k' x) = thread_timer (thr k x) \<and> alive k' x = alive k x \<and>
        (stat (thr k' x) = RT_THREAD_SUSPEND \<longleftrightarrow> stat (thr k x) = RT_THREAD_SUSPEND)) \<and>
     (\<forall>x. prio k' x = prio k x \<and> error (thr k' x) = error (thr k x)) \<and>
     tick k' = tick k \<and> lock_nest k' = lock_nest k \<and> irq_nest k' = irq_nest k"

lemma wake_woken: "woken t k (wake t k)"
  by (simp add: woken_def wake_fields alive_def)

lemma woken_schedule:
  assumes "woken t k k1" and "same_waiting k1 k2"
  shows "woken t k k2"
  using assms(1) unfolding woken_def
  by (simp add: same_waitingD[OF assms(2)] same_waiting_alive[OF assms(2)])

lemma wake_schedule:
  assumes "kinv now k" and "stat (thr k t) = RT_THREAD_SUSPEND"
    and "stat (thr k (current k)) = RT_THREAD_RUNNING"
  shows "\<exists>k'. rt_schedule (wake t k) = Inr k' \<and> kinv now k' \<and> woken t k k' \<and>
    stat (thr k' (current k')) = RT_THREAD_RUNNING"
proof -
  have ne: "current k \<noteq> t" using assms(2,3) by auto
  then have "stat (thr (wake t k) (current (wake t k))) = RT_THREAD_RUNNING"
    using assms(3) by (simp add: wake_fields)
  then show ?thesis
    using rt_schedule_inv[OF wake_inv[OF assms(1,2)]] woken_schedule[OF wake_woken] by blast
qed

section \<open>Timers\<close>

lemma timer_insert_set [simp]: "set (timer_insert d x ts) = insert x (set ts)"
  by (induction ts) auto

lemma timer_insert_distinct: "x \<notin> set ts \<Longrightarrow> distinct ts \<Longrightarrow> distinct (timer_insert d x ts)"
  by (induction ts) auto

text \<open>The comparison of two deadlines, which may wrap around, is that of the times left.\<close>

lemma deadline_less:
  assumes "unat (a - now) < 0x7FFFFFFF" and "unat (b - now) < 0x7FFFFFFF"
  shows "a = b \<longleftrightarrow> unat (a - now) = unat (b - now)"
    and "a - b < (TICK_HALF :: u32) \<longleftrightarrow> unat (b - now) \<le> unat (a - now)"
proof -
  show "a = b \<longleftrightarrow> unat (a - now) = unat (b - now)" by (auto simp: word_unat_eq_iff[symmetric])
  have e: "a - b = (a - now) - (b - now)" by simp
  have "unat (a - b) = (if unat (b - now) \<le> unat (a - now) then unat (a - now) - unat (b - now)
      else unat (a - now) + 2 ^ 32 - unat (b - now))"
    unfolding e by (subst unat_sub_if') simp
  then show "a - b < (TICK_HALF :: u32) \<longleftrightarrow> unat (b - now) \<le> unat (a - now)"
    using assms by (simp add: word_less_nat_alt split: if_splits)
qed

lemma timer_insert_sorted:
  assumes "sorted (map (\<lambda>t. unat (d t - now)) ts)"
    and "\<forall>t \<in> insert x (set ts). unat (d t - now) < 0x7FFFFFFF"
  shows "sorted (map (\<lambda>t. unat (d t - now)) (timer_insert d x ts))"
  using assms
proof (induction ts)
  case (Cons t ts)
  then show ?case
    using deadline_less[of "d t" now "d x"] by auto
qed simp

lemma upd_timer_fields [simp]:
  "timer_list (upd_timer t f k) = timer_list k" "tick (upd_timer t f k) = tick k"
  "thr (upd_timer t f k) = (thr k)(t := (thr k t)\<lparr>thread_timer := f (thread_timer (thr k t))\<rparr>)"
  by (simp_all add: upd_timer_def)

lemma timer_start_list:
  "timer_list (rt_timer_start t k) =
     timer_insert ((deadline k)(t := tick k + init_tick (thread_timer (thr k t)))) t (removeAll t (timer_list k))"
proof -
  have "deadline (upd_timer t (\<lambda>tm. tm\<lparr>activated := False, timeout_tick := tick k + init_tick tm\<rparr>)
      (k\<lparr>timer_list := ts\<rparr>)) = (deadline k)(t := tick k + init_tick (thread_timer (thr k t)))" for ts
    by (rule ext) simp
  then show ?thesis by (simp add: rt_timer_start_def Let_def del: upd_timer_fields(3))
qed

lemma timer_start_inv:
  assumes "kinv (tick k) k" and "stat (thr k t) = RT_THREAD_SUSPEND"
    and "init_tick (thread_timer (thr k t)) < TICK_HALF"
  shows "kinv (tick k) (rt_timer_start t k) \<and>
    remaining (tick k) (rt_timer_start t k) t = unat (init_tick (thread_timer (thr k t))) \<and>
    activated (thread_timer (thr (rt_timer_start t k) t))"
proof -
  note i = kinvD[OF assms(1)]
  let ?k = "rt_timer_start t k"
  let ?d = "(deadline k)(t := tick k + init_tick (thread_timer (thr k t)))"
  note tl = timer_start_list[of t k]
  have d: "deadline ?k = ?d" by (simp add: rt_timer_start_def Let_def fun_eq_iff)
  have r: "remaining now ?k = (\<lambda>x. unat (?d x - now))" for now
    unfolding remaining_def[abs_def] by (rule ext) (use fun_cong[OF d] in simp)
  have rt: "unat (?d t - tick k) = unat (init_tick (thread_timer (thr k t)))" by simp
  have ro: "unat (?d x - tick k) = remaining (tick k) k x" if "x \<noteq> t" for x
    using that by (simp add: remaining_def)
  have th: "stat (thr ?k x) = stat (thr k x)" "prio ?k x = prio k x" "number_mask (thr ?k x) = number_mask (thr k x)"
    "activated (thread_timer (thr ?k x)) = (x = t \<or> activated (thread_timer (thr k x)))" for x
    by (simp_all add: rt_timer_start_def Let_def upd_timer_def)
  have f: "ready ?k = ready k" "ready_group ?k = ready_group k" "susp ?k = susp k" "current ?k = current k"
    by (simp_all add: rt_timer_start_def Let_def upd_timer_def)
  have m: "map (\<lambda>x. unat (?d x - tick k)) (removeAll t (timer_list k)) =
      map (remaining (tick k) k) (removeAll t (timer_list k))"
    by (rule map_cong) (simp_all add: remaining_def)
  have lt: "\<forall>x \<in> insert t (set (removeAll t (timer_list k))). unat (?d x - tick k) < 0x7FFFFFFF"
    using i(3) assms(3) ro rt by (auto simp: timer_inv_def word_less_nat_alt)
  have "timer_inv (tick k) ?k"
    unfolding timer_inv_def r tl
  proof (intro conjI)
    show "sorted (map (\<lambda>x. unat (?d x - tick k)) (timer_insert ?d t (removeAll t (timer_list k))))"
      by (rule timer_insert_sorted[OF _ lt], unfold m)
        (use i(3) in \<open>simp add: timer_inv_def sorted_map_removeAll\<close>)
    show "distinct (timer_insert ?d t (removeAll t (timer_list k)))"
      by (rule timer_insert_distinct) (use i(3) in \<open>simp_all add: timer_inv_def distinct_removeAll\<close>)
    show "\<forall>x. x \<in> set (timer_insert ?d t (removeAll t (timer_list k))) \<longleftrightarrow> activated (thread_timer (thr ?k x))"
      using i(3) by (auto simp: th timer_inv_def)
    show "\<forall>x. activated (thread_timer (thr ?k x)) \<longrightarrow> stat (thr ?k x) = RT_THREAD_SUSPEND"
      using i(3) assms(2) by (auto simp: th timer_inv_def)
    show "\<forall>x \<in> set (timer_insert ?d t (removeAll t (timer_list k))). unat (?d x - tick k) < 0x7FFFFFFF"
      using lt by simp
  qed
  moreover have "ready_inv ?k" using i(1) f(1,2) by (rule ready_inv_cong) (simp_all add: th)
  moreover have "wait_inv ?k" using i(2) by (simp add: wait_inv_def f th)
  moreover have "running_inv ?k" using i(4) by (simp add: running_inv_def f th)
  ultimately show ?thesis using rt by (simp add: kinv_def r th)
qed

lemma timeout_wake:
  assumes "stat (thr k t) = RT_THREAD_SUSPEND"
  shows "thread_timeout t (timer_off t k) = rt_schedule (wake t (set_error t (- RT_ETIMEOUT) k))"
proof -
  have "list_remove t (set_error t e (timer_off t k)) = timer_off t (list_remove t (set_error t e k))" for e
    by (cases k; cases "thr k t") (simp add: list_remove_def set_error_def timer_off_def upd_timer_def upd_def)
  then show ?thesis using assms by (simp add: thread_timeout_def wake_def timer_off_def)
qed

lemma kinv_set_error: "kinv now k \<Longrightarrow> kinv now (set_error t e k)"
  unfolding set_error_def by (rule kinv_upd) simp_all

text \<open>After a tick exactly the timers that had at most one tick left have expired.\<close>

lemma expired_iff:
  assumes "remaining (tick k - 1) k t < 0x7FFFFFFF"
  shows "expired k t \<longleftrightarrow> remaining (tick k - 1) k t \<le> 1"
proof -
  let ?u = "deadline k t - (tick k - 1)"
  have e: "tick k - deadline k t = 1 - ?u" by simp
  have "unat (1 - ?u) = (if unat ?u \<le> 1 then 1 - unat ?u else 1 + 2 ^ 32 - unat ?u)"
    by (subst unat_sub_if') simp
  then show ?thesis
    using assms unfolding expired_def remaining_def e by (simp add: word_less_nat_alt split: if_splits)
qed

lemma remaining_next:
  assumes "1 < remaining (tick k - 1) k t"
  shows "remaining (tick k) k t = remaining (tick k - 1) k t - 1"
proof -
  have e: "deadline k t - tick k = (deadline k t - (tick k - 1)) - 1" by simp
  have "deadline k t - (tick k - 1) \<noteq> 0" using assms by (auto simp: remaining_def)
  then show ?thesis unfolding remaining_def e by (rule unat_minus_one)
qed

text \<open>The threads whose timers expire at a tick: \<open>now\<close> is the time before it.\<close>

definition due :: "u32 \<Rightarrow> kernel \<Rightarrow> nat \<Rightarrow> bool" where
  "due now k t \<longleftrightarrow> activated (thread_timer (thr k t)) \<and> remaining now k t \<le> 1"

text \<open>
  What a check of the timers does: due threads are awake with a time-out, the others keep
  everything but whether they run or are ready.
\<close>

definition fired :: "u32 \<Rightarrow> kernel \<Rightarrow> kernel \<Rightarrow> bool" where
  "fired now k k' \<longleftrightarrow>
     (\<forall>t. due now k t \<longrightarrow> alive k' t \<and> error (thr k' t) = - RT_ETIMEOUT \<and> \<not> activated (thread_timer (thr k' t))) \<and>
     (\<forall>t. \<not> due now k t \<longrightarrow> alive k' t = alive k t \<and> error (thr k' t) = error (thr k t) \<and>
        thread_timer (thr k' t) = thread_timer (thr k t) \<and>
        (stat (thr k' t) = RT_THREAD_SUSPEND \<longleftrightarrow> stat (thr k t) = RT_THREAD_SUSPEND)) \<and>
     (\<forall>q. susp k' q = filter (\<lambda>t. \<not> due now k t) (susp k q)) \<and> (\<forall>t. prio k' t = prio k t) \<and>
     tick k' = tick k \<and> lock_nest k' = lock_nest k \<and> irq_nest k' = irq_nest k"

lemma fired_step:
  assumes "due now k t" and "woken t (set_error t (- RT_ETIMEOUT) k) k1" and "fired now k1 k2"
  shows "fired now k k2"
proof -
  have d: "due now k1 x \<longleftrightarrow> due now k x \<and> x \<noteq> t" for x
    using assms(2) by (cases "x = t") (auto simp: due_def woken_def set_error_def remaining_def)
  have "removeAll t xs = filter (\<lambda>x. x \<noteq> t) xs" for xs :: "nat list"
    by (simp add: removeAll_filter_not_eq neq_commute)
  then have s: "filter (\<lambda>x. \<not> due now k1 x) (removeAll t xs) = filter (\<lambda>x. \<not> due now k x) xs" for xs
    using assms(1) by (simp add: d) (metis (full_types))
  have x: "\<not> due now k1 t" by (simp add: d)
  show ?thesis
    unfolding fired_def
  proof (intro conjI allI impI)
    fix x assume "due now k x"
    then show "alive k2 x" "error (thr k2 x) = - RT_ETIMEOUT" "\<not> activated (thread_timer (thr k2 x))"
      using assms(2,3) x by (cases "x = t"; auto simp: fired_def woken_def d set_error_def)+
  next
    fix x assume "\<not> due now k x"
    then have "x \<noteq> t" "\<not> due now k1 x" using assms(1) d by auto
    then show "alive k2 x = alive k x" "error (thr k2 x) = error (thr k x)"
      "thread_timer (thr k2 x) = thread_timer (thr k x)"
      "(stat (thr k2 x) = RT_THREAD_SUSPEND) = (stat (thr k x) = RT_THREAD_SUSPEND)"
      using assms(2,3) by (simp_all add: fired_def woken_def set_error_def alive_def)
  qed (use assms(2,3) s in \<open>simp_all add: fired_def woken_def set_error_def\<close>)
qed

lemma timer_check_inv:
  assumes "kinv (tick k - 1) k" and "stat (thr k (current k)) = RT_THREAD_RUNNING"
  shows "\<exists>k'. rt_timer_check k = Inr k' \<and> kinv (tick k) k' \<and> fired (tick k - 1) k k' \<and>
    stat (thr k' (current k')) = RT_THREAD_RUNNING"
  using assms
proof (induction k rule: rt_timer_check.induct)
  case (1 k)
  note i = kinvD(3)[OF "1.prems"(1)]
  show ?case
  proof (cases "timer_list k = [] \<or> \<not> expired k (hd (timer_list k))")
    case True
    have nd: "\<not> due (tick k - 1) k t" for t
    proof
      assume d: "due (tick k - 1) k t"
      then have t: "t \<in> set (timer_list k)" using i by (auto simp: due_def timer_inv_def)
      then obtain h hs where h: "timer_list k = h # hs" by (cases "timer_list k") auto
      then have "remaining (tick k - 1) k h \<le> remaining (tick k - 1) k t" using i t by (auto simp: timer_inv_def)
      moreover have "\<not> expired k h" using True h by simp
      ultimately show False using d expired_iff[of k h] i h by (auto simp: due_def timer_inv_def)
    qed
    then have gt: "1 < remaining (tick k - 1) k t" if "t \<in> set (timer_list k)" for t
      using that i by (auto simp: due_def timer_inv_def not_le)
    have m: "map (remaining (tick k) k) (timer_list k) = map (\<lambda>t. remaining (tick k - 1) k t - 1) (timer_list k)"
      by (rule map_cong[OF refl]) (rule remaining_next, rule gt)
    have "sorted (map (\<lambda>t. remaining (tick k - 1) k t - 1) (timer_list k))"
      using i by (auto simp: timer_inv_def sorted_map intro: sorted_wrt_mono_rel[rotated])
    then have "sorted (map (remaining (tick k) k) (timer_list k))" unfolding m .
    moreover have "\<forall>t \<in> set (timer_list k). remaining (tick k) k t < 0x7FFFFFFF"
      using i gt remaining_next[of k] unfolding timer_inv_def by fastforce
    ultimately have "timer_inv (tick k) k" using i unfolding timer_inv_def by blast
    then have "kinv (tick k) k" using "1.prems"(1) by (simp add: kinv_def)
    moreover have "rt_timer_check k = Inr k" using True by (subst rt_timer_check.simps) (auto split: list.split)
    ultimately show ?thesis using nd "1.prems"(2) by (simp add: fired_def filter_id_conv)
  next
    case False
    then obtain t ts where t: "timer_list k = t # ts" "expired k t" by (cases "timer_list k") auto
    have a: "stat (thr k t) = RT_THREAD_SUSPEND" "due (tick k - 1) k t"
      using i t expired_iff[of k t] by (auto simp: timer_inv_def due_def)
    let ?k0 = "set_error t (- RT_ETIMEOUT) k"
    have "kinv (tick k - 1) ?k0" using "1.prems"(1) by (rule kinv_set_error)
    moreover have "stat (thr ?k0 t) = RT_THREAD_SUSPEND" "stat (thr ?k0 (current ?k0)) = RT_THREAD_RUNNING"
      using a(1) "1.prems"(2) by (auto simp: set_error_def)
    ultimately obtain k1 where k1: "rt_schedule (wake t ?k0) = Inr k1" "kinv (tick k - 1) k1" "woken t ?k0 k1"
      "stat (thr k1 (current k1)) = RT_THREAD_RUNNING"
      using wake_schedule[of "tick k - 1" ?k0 t] by blast
    have tk: "tick k1 = tick k" using k1(3) by (simp add: woken_def set_error_def)
    have to: "thread_timeout t (timer_off t k) = Inr k1" using timeout_wake[OF a(1)] k1(1) by simp
    from "1.IH"[OF t(1,2) to] k1(2,4) tk obtain k' where
      k': "rt_timer_check k1 = Inr k'" "kinv (tick k) k'" "fired (tick k - 1) k1 k'"
      "stat (thr k' (current k')) = RT_THREAD_RUNNING" by auto
    then show ?thesis
      using t to fired_step[OF a(2) k1(3)] by (subst rt_timer_check.simps) auto
  qed
qed

lemma same_waiting_fired:
  assumes "same_waiting k k1" and "fired now k1 k2"
  shows "fired now k k2"
proof -
  have d: "due now k1 = due now k"
    by (simp add: due_def[abs_def] remaining_def same_waitingD[OF assms(1)])
  show ?thesis
    using assms(2) unfolding fired_def d
    by (simp add: same_waitingD[OF assms(1)] same_waiting_alive[OF assms(1)])
qed

lemma fired_upd:
  assumes "fired now (upd c f k) k'" and "\<And>th. stat (f th) = stat th"
    and "\<And>th. current_priority (f th) = current_priority th" and "\<And>th. error (f th) = error th"
    and "\<And>th. thread_timer (f th) = thread_timer th"
  shows "fired now k k'"
proof -
  have e: "stat (thr (upd c f k) t) = stat (thr k t)" "prio (upd c f k) t = prio k t"
    "error (thr (upd c f k) t) = error (thr k t)" "thread_timer (thr (upd c f k) t) = thread_timer (thr k t)" for t
    by (simp_all add: assms)
  then have d: "due now (upd c f k) = due now k" "alive (upd c f k) = alive k"
    by (simp_all add: due_def[abs_def] remaining_def alive_def[abs_def])
  show ?thesis using assms(1) unfolding fired_def d e by (simp del: thr_upd)
qed

text \<open>
  One tick of the clock: the invariant holds again for the new time, the due threads are
  awake, and no other thread starts or stops waiting.
\<close>

lemma tick_inv:
  assumes "kinv (tick k) k" and "stat (thr k (current k)) = RT_THREAD_RUNNING"
  shows "\<exists>k'. rt_tick_increase k = Inr k' \<and> kinv (tick k') k' \<and> fired (tick k) (k\<lparr>tick := tick k + 1\<rparr>) k' \<and>
    stat (thr k' (current k')) = RT_THREAD_RUNNING"
proof -
  let ?c = "current k"
  define k2 where "k2 = upd ?c (\<lambda>th. th\<lparr>remaining_tick := remaining_tick th - 1\<rparr>) (k\<lparr>tick := tick k + 1\<rparr>)"
  define k3 where "k3 = upd ?c (\<lambda>th. th\<lparr>remaining_tick := slice_tick th, yielded := True\<rparr>) k2"
  have "kinv (tick k) (k\<lparr>tick := tick k + 1\<rparr>)"
    using assms(1) by (simp add: kinv_def inv_simps remaining_def[abs_def])
  then have i2: "kinv (tick k) k2" unfolding k2_def by (rule kinv_upd) simp_all
  then have i3: "kinv (tick k) k3" unfolding k3_def by (rule kinv_upd) simp_all
  have r: "stat (thr k2 (current k2)) = RT_THREAD_RUNNING" "stat (thr k3 (current k3)) = RT_THREAD_RUNNING"
    using assms(2) by (simp_all add: k2_def k3_def)
  obtain k4 where k4: "rt_schedule k3 = Inr k4" "kinv (tick k) k4" "same_waiting k3 k4"
    "stat (thr k4 (current k4)) = RT_THREAD_RUNNING"
    using rt_schedule_inv[OF i3] r(2) by blast
  define km where "km = (if remaining_tick (thr k2 ?c) = 0 then k4 else k2)"
  have tk: "tick km = tick k + 1"
    using same_waitingD(2)[OF k4(3)] by (simp add: km_def k2_def k3_def)
  have "kinv (tick km - 1) km" "stat (thr km (current km)) = RT_THREAD_RUNNING"
    using i2 k4(2,4) r(1) by (simp_all add: tk) (simp_all add: km_def)
  from timer_check_inv[OF this] obtain k' where k': "rt_timer_check km = Inr k'" "kinv (tick km) k'"
    "fired (tick k) km k'" "stat (thr k' (current k')) = RT_THREAD_RUNNING" unfolding tk by auto
  have "remaining_tick (thr k2 ?c) = 0 \<longleftrightarrow> remaining_tick (thr k ?c) = 1" by (simp add: k2_def)
  then have "rt_tick_increase k = Inr k'"
    using k'(1) k4(1)
    by (simp add: rt_tick_increase_def Let_def k2_def[symmetric] k3_def[symmetric] km_def split: if_splits)
  moreover have "fired (tick k) k2 k'"
  proof (cases "remaining_tick (thr k2 ?c) = 0")
    case True
    then have "fired (tick k) k3 k'" using k'(3) same_waiting_fired[OF k4(3)] by (simp add: km_def)
    then show ?thesis unfolding k3_def by (rule fired_upd) simp_all
  qed (use k'(3) in \<open>simp add: km_def\<close>)
  then have "fired (tick k) (k\<lparr>tick := tick k + 1\<rparr>) k'"
    unfolding k2_def by (rule fired_upd) simp_all
  moreover have "tick k' = tick km" using k'(3) by (simp add: fired_def)
  ultimately show ?thesis using k'(2,4) by auto
qed

text \<open>Going to sleep, when another thread can run.\<close>

lemma sleep_inv:
  assumes "kinv (tick k) k" and "stat (thr k (current k)) = RT_THREAD_RUNNING" and "lock_nest k = 0"
    and "stat (thr k i) = RT_THREAD_READY" and "n < TICK_HALF"
  shows "\<exists>k'. sleep_ticks n k = Inr k' \<and> kinv (tick k') k' \<and> tick k' = tick k \<and>
    stat (thr k' (current k')) = RT_THREAD_RUNNING \<and> stat (thr k' (current k)) = RT_THREAD_SUSPEND \<and>
    (\<forall>q. susp k' q = susp k q) \<and> activated (thread_timer (thr k' (current k))) \<and>
    remaining (tick k') k' (current k) = unat n \<and> lock_nest k' = lock_nest k \<and> irq_nest k' = irq_nest k \<and>
    (\<forall>t. t \<noteq> current k \<longrightarrow> alive k' t = alive k t) \<and> (\<forall>t. error (thr k' t) = error (thr k t)) \<and>
    (\<forall>t. t \<noteq> current k \<longrightarrow> thread_timer (thr k' t) = thread_timer (thr k t) \<and>
       (stat (thr k' t) = RT_THREAD_SUSPEND \<longleftrightarrow> stat (thr k t) = RT_THREAD_SUSPEND))"
proof -
  let ?c = "current k"
  let ?k1 = "set_stat ?c RT_THREAD_SUSPEND k"
  let ?k2 = "upd_timer ?c (\<lambda>tm. tm\<lparr>init_tick := n\<rparr>) ?k1"
  let ?k3 = "rt_timer_start ?c ?k2"
  have ne: "i \<noteq> ?c" using assms(2,4) by auto
  note i = kinvD[OF kinv_suspend[OF assms(1,2)]]
  have "ready_inv ?k2" using i(1) by (rule ready_inv_cong) (simp_all add: set_stat_def upd_timer_def)
  moreover have "wait_inv ?k2" using i(2) by (rule wait_inv_same) (simp_all add: upd_timer_def)
  moreover have "remaining now ?k2 = remaining now ?k1" for now by (auto simp: remaining_def fun_eq_iff)
  then have "timer_inv (tick k) ?k2" using i(3) by (auto simp: timer_inv_def set_stat_def split: if_splits)
  moreover have "running_inv ?k2" using i(4) by (rule running_inv_same) (simp_all add: upd_timer_def)
  ultimately have i2: "kinv (tick ?k2) ?k2" by (simp add: kinv_def set_stat_def)
  have "kinv (tick ?k2) ?k3 \<and> remaining (tick ?k2) ?k3 ?c = unat (init_tick (thread_timer (thr ?k2 ?c))) \<and>
      activated (thread_timer (thr ?k3 ?c))"
    by (rule timer_start_inv[OF i2]) (use assms(5) in \<open>simp_all add: set_stat_def\<close>)
  then have i3: "kinv (tick k) ?k3" "remaining (tick k) ?k3 ?c = unat n" "activated (thread_timer (thr ?k3 ?c))"
    by (simp_all add: set_stat_def)
  have f: "current ?k3 = ?c" "lock_nest ?k3 = 0" "susp ?k3 = susp k" "tick ?k3 = tick k" "irq_nest ?k3 = irq_nest k"
    "stat (thr ?k3 t) = (if t = ?c then RT_THREAD_SUSPEND else stat (thr k t))"
    "error (thr ?k3 t) = error (thr k t)" "t \<noteq> ?c \<Longrightarrow> thread_timer (thr ?k3 t) = thread_timer (thr k t)" for t
    using assms(3) by (simp_all add: rt_timer_start_def Let_def upd_timer_def set_stat_def)
  have "ready_group ?k3 \<noteq> 0"
    by (rule ready_group_nonzero[OF kinvD(1)[OF i3(1)], of i]) (use ne assms(4) in \<open>simp add: f\<close>)
  then obtain k' where k': "rt_schedule ?k3 = Inr k'" "kinv (tick k) k'" "same_waiting ?k3 k'"
    "stat (thr k' (current k')) = RT_THREAD_RUNNING"
    using rt_schedule_inv[OF i3(1)] f(2) by blast
  have "sleep_ticks n k = Inr k'"
    using k'(1) assms(5) by (simp add: sleep_ticks_def suspend_eq[OF assms(1,2)] rt_timer_set_time_def)
  then show ?thesis
    using k' i3 f same_waitingD[OF k'(3)] same_waiting_alive[OF k'(3)] assms(3)
    by (intro exI[of _ k']) (simp add: alive_def)
qed

section \<open>Changing a priority\<close>

lemma change_priority_fields:
  assumes "kinv now k"
  shows "susp (change_priority t p k) q = susp k q" "current (change_priority t p k) = current k"
    "tick (change_priority t p k) = tick k" "lock_nest (change_priority t p k) = lock_nest k"
    "irq_nest (change_priority t p k) = irq_nest k" "timer_list (change_priority t p k) = timer_list k"
    "stat (thr (change_priority t p k) x) = stat (thr k x)" "error (thr (change_priority t p k) x) = error (thr k x)"
    "thread_timer (thr (change_priority t p k) x) = thread_timer (thr k x)"
    "prio (change_priority t p k) x = (if x = t then p else prio k x)"
proof -
  note i = kinvD[OF assms]
  have "removeAll t (susp k q) = susp k q" if "stat (thr k t) = RT_THREAD_READY"
    using removeAll_not_waiting[OF i(2)] that by simp
  moreover have "t \<noteq> current k" if "stat (thr k t) = RT_THREAD_READY" using i(4) that by (auto simp: running_inv_def)
  ultimately show "susp (change_priority t p k) q = susp k q" "current (change_priority t p k) = current k"
    "tick (change_priority t p k) = tick k" "lock_nest (change_priority t p k) = lock_nest k"
    "irq_nest (change_priority t p k) = irq_nest k" "timer_list (change_priority t p k) = timer_list k"
    "stat (thr (change_priority t p k) x) = stat (thr k x)" "error (thr (change_priority t p k) x) = error (thr k x)"
    "thread_timer (thr (change_priority t p k) x) = thread_timer (thr k x)"
    "prio (change_priority t p k) x = (if x = t then p else prio k x)"
    by (simp_all add: change_priority_def set_priority_def)
qed

lemma set_priority_ready_inv:
  assumes "ready_inv k" and "stat (thr k t) \<noteq> RT_THREAD_READY" and "p < 32"
  shows "ready_inv (set_priority t p k)"
  using assms by (auto simp: ready_inv_def set_priority_def)

lemma insert_thread_stat:
  "rt_schedule_insert_thread t (set_priority t p (set_stat t s k)) = rt_schedule_insert_thread t (set_priority t p k)"
  by (cases "thr k t") (simp add: rt_schedule_insert_thread_def set_priority_def set_stat_def upd_def)

lemma change_priority_inv:
  assumes "kinv now k" and "p < 32"
  shows "kinv now (change_priority t p k)"
proof -
  let ?k = "change_priority t p k"
  note i = kinvD[OF assms(1)] and f = change_priority_fields[OF assms(1)]
  have "ready_inv ?k"
  proof (cases "stat (thr k t) = RT_THREAD_READY")
    case True
    have "ready_inv (set_stat t RT_THREAD_SUSPEND (rt_schedule_remove_thread t k))"
      using i(1) by (rule remove_thread_ready_inv) (simp_all add: True)
    then have "ready_inv (set_priority t p (set_stat t RT_THREAD_SUSPEND (rt_schedule_remove_thread t k)))"
      by (rule set_priority_ready_inv) (simp_all add: set_stat_def assms(2))
    then have "ready_inv (rt_schedule_insert_thread t
        (set_priority t p (set_stat t RT_THREAD_SUSPEND (rt_schedule_remove_thread t k))))"
      by (rule insert_thread_ready_inv) (simp add: set_priority_def set_stat_def)
    then show ?thesis using True by (simp add: change_priority_def insert_thread_stat)
  qed (use set_priority_ready_inv[OF i(1) _ assms(2)] in \<open>simp add: change_priority_def\<close>)
  moreover have "wait_inv ?k" using i(2) by (rule wait_inv_same) (simp_all add: f fun_eq_iff)
  moreover have "timer_inv now ?k" using i(3) f(6,9) by (rule timer_inv_cong) (simp add: f)
  moreover have "running_inv ?k" using i(4) f(2,7) by (rule running_inv_same)
  ultimately show ?thesis by (simp add: kinv_def)
qed

end
