(* ===== verification/Ipc.thy ===== *)
theory Ipc
  imports Sched_Inv
begin

text \<open>
  Semaphores and mutexes (\<^verbatim>\<open>rt-thread/src/ipc.c\<close>) on top of the scheduler. A call that blocks
  ends in a schedule; the thread goes on later, when it is chosen again, with the error
  code its control block holds then. Counters are natural numbers: the code guards every
  increment and decrement except that of \<^verbatim>\<open>hold\<close> in \<^verbatim>\<open>rt_mutex_release\<close>, whose wrap-around
  is written out.
\<close>

section \<open>Wait queues\<close>

abbreviation (input) RT_IPC_FLAG_FIFO :: nat where "RT_IPC_FLAG_FIFO \<equiv> 0"
abbreviation (input) RT_IPC_FLAG_PRIO :: nat where "RT_IPC_FLAG_PRIO \<equiv> 1"
abbreviation (input) RT_WAITING_FOREVER :: int where "RT_WAITING_FOREVER \<equiv> - 1"
abbreviation (input) RT_WAITING_NO :: int where "RT_WAITING_NO \<equiv> 0"

text \<open>The place of a thread in a queue ordered by priority: before the first lower one.\<close>

fun prio_insert :: "(nat \<Rightarrow> nat) \<Rightarrow> nat \<Rightarrow> nat list \<Rightarrow> nat list" where
  "prio_insert pr t [] = [t]"
| "prio_insert pr t (s # ss) = (if pr t < pr s then t # s # ss else s # prio_insert pr t ss)"

definition ipc_list_suspend :: "wait_queue \<Rightarrow> nat \<Rightarrow> nat \<Rightarrow> kernel \<Rightarrow> kernel res" where
  "ipc_list_suspend q t flag k =
     bind_res (rt_thread_suspend t k) (\<lambda>(_, k1).
       if flag = RT_IPC_FLAG_FIFO then Inr (k1\<lparr>susp := (susp k1)(q := susp k1 q @ [t])\<rparr>)
       else if flag = RT_IPC_FLAG_PRIO
       then Inr (k1\<lparr>susp := (susp k1)(q := prio_insert (prio k1) t (susp k1 q))\<rparr>)
       else Inl Assert_Failed)"

definition ipc_list_resume :: "wait_queue \<Rightarrow> kernel \<Rightarrow> kernel res" where
  "ipc_list_resume q k =
     (case susp k q of [] \<Rightarrow> Inl Out_Of_Bounds | t # _ \<Rightarrow> Inr (snd (rt_thread_resume t k)))"

text \<open>A thread in the queue that is not suspended would make the loop run for ever.\<close>

function ipc_list_resume_all :: "wait_queue \<Rightarrow> kernel \<Rightarrow> kernel res" where
  "ipc_list_resume_all q k =
     (case susp k q of [] \<Rightarrow> Inr k
      | t # ts \<Rightarrow> if stat (thr k t) \<noteq> RT_THREAD_SUSPEND then Inl Would_Wait
                 else ipc_list_resume_all q (snd (rt_thread_resume t (set_error t (- RT_ERROR) k))))"
  by pat_completeness auto
termination
proof (relation "measure (\<lambda>(q, k). length (susp k q))")
  fix q t ts and k :: kernel
  assume "susp k q = t # ts" "\<not> stat (thr k t) \<noteq> RT_THREAD_SUSPEND"
  then show "((q, snd (rt_thread_resume t (set_error t (- RT_ERROR) k))), q, k) \<in> measure (\<lambda>(q, k). length (susp k q))"
    using length_filter_le[of "(\<noteq>) t" ts]
    by (simp add: rt_thread_resume_def set_error_def rt_timer_stop_def upd_timer_def
        removeAll_filter_not_eq less_Suc_eq_le)
qed simp

declare ipc_list_resume_all.simps [simp del]

section \<open>Objects\<close>

record rt_semaphore =
  sem_value :: nat
  sem_flag :: nat

record rt_mutex =
  mutex_value :: nat
  original_priority :: nat
  hold :: nat
  owner :: "nat option"

record os =
  krn :: kernel
  sem :: "nat \<Rightarrow> rt_semaphore"
  mutex :: "nat \<Rightarrow> rt_mutex"

definition RT_SEM_VALUE_MAX :: nat where "RT_SEM_VALUE_MAX = 65535"
definition RT_MUTEX_VALUE_MAX :: nat where "RT_MUTEX_VALUE_MAX = 65535"
definition RT_MUTEX_HOLD_MAX :: nat where "RT_MUTEX_HOLD_MAX = 255"

definition set_sem_value :: "nat \<Rightarrow> nat \<Rightarrow> os \<Rightarrow> os" where
  "set_sem_value s v w = w\<lparr>sem := (sem w)(s := (sem w s)\<lparr>sem_value := v\<rparr>)\<rparr>"

definition upd_mutex :: "nat \<Rightarrow> (rt_mutex \<Rightarrow> rt_mutex) \<Rightarrow> os \<Rightarrow> os" where
  "upd_mutex m f w = w\<lparr>mutex := (mutex w)(m := f (mutex w m))\<rparr>"

text \<open>A call that returns, or that waits and returns the thread's error code later.\<close>

datatype wait_result = Returned rt_err_t | Waiting

text \<open>\<^verbatim>\<open>RT_DEBUG_SCHEDULER_AVAILABLE\<close>: not in an interrupt, scheduler not locked.\<close>

definition scheduler_available :: "kernel \<Rightarrow> bool" where
  "scheduler_available k \<longleftrightarrow> lock_nest k = 0 \<and> irq_nest k = 0"

text \<open>Start the thread's timer if there is a limit, and give up the processor.\<close>

definition wait_schedule :: "nat \<Rightarrow> int \<Rightarrow> kernel \<Rightarrow> (wait_result \<times> kernel) res" where
  "wait_schedule t timeout k =
     bind_res (if timeout > 0
               then bind_res (rt_timer_set_time t (of_int timeout) k) (\<lambda>k1. Inr (rt_timer_start t k1))
               else Inr k) (\<lambda>k1.
     bind_res (rt_schedule k1) (\<lambda>k2.
       Inr (if current k2 = t then Returned (error (thr k2 t)) else Waiting, k2)))"

section \<open>Semaphores\<close>

definition rt_sem_init :: "nat \<Rightarrow> nat \<Rightarrow> nat \<Rightarrow> os \<Rightarrow> os res" where
  "rt_sem_init s v flag w =
     (if v < 0x10000 \<and> (flag = RT_IPC_FLAG_FIFO \<or> flag = RT_IPC_FLAG_PRIO)
      then Inr (w\<lparr>krn := (krn w)\<lparr>susp := (susp (krn w))(Sem_Q s := [])\<rparr>,
                  sem := (sem w)(s := \<lparr>sem_value = v mod 65536, sem_flag = flag\<rparr>)\<rparr>)
      else Inl Assert_Failed)"

definition rt_sem_detach :: "nat \<Rightarrow> os \<Rightarrow> os res" where
  "rt_sem_detach s w = bind_res (ipc_list_resume_all (Sem_Q s) (krn w)) (\<lambda>k. Inr (w\<lparr>krn := k\<rparr>))"

definition rt_sem_take :: "nat \<Rightarrow> int \<Rightarrow> os \<Rightarrow> (wait_result \<times> os) res" where
  "rt_sem_take s timeout w =
     (let v = sem_value (sem w s); t = current (krn w) in
      if v > 0 then Inr (Returned RT_EOK, set_sem_value s (v - 1) w)
      else if timeout = 0 then Inr (Returned (- RT_ETIMEOUT), w)
      else if \<not> scheduler_available (krn w) then Inl Assert_Failed
      else bind_res (ipc_list_suspend (Sem_Q s) t (sem_flag (sem w s)) (set_error t RT_EOK (krn w))) (\<lambda>k1.
           bind_res (wait_schedule t timeout k1) (\<lambda>(r, k2). Inr (r, w\<lparr>krn := k2\<rparr>))))"

definition rt_sem_trytake :: "nat \<Rightarrow> os \<Rightarrow> (wait_result \<times> os) res" where
  "rt_sem_trytake s = rt_sem_take s RT_WAITING_NO"

definition rt_sem_release :: "nat \<Rightarrow> os \<Rightarrow> (rt_err_t \<times> os) res" where
  "rt_sem_release s w =
     (if susp (krn w) (Sem_Q s) \<noteq> []
      then bind_res (ipc_list_resume (Sem_Q s) (krn w)) (\<lambda>k1.
           bind_res (rt_schedule k1) (\<lambda>k2. Inr (RT_EOK, w\<lparr>krn := k2\<rparr>)))
      else let v = sem_value (sem w s) in
        if v < RT_SEM_VALUE_MAX then Inr (RT_EOK, set_sem_value s (v + 1) w) else Inr (- RT_EFULL, w))"

text \<open>\<open>reset\<close>: the command is \<^verbatim>\<open>RT_IPC_CMD_RESET\<close>.\<close>

definition rt_sem_control :: "nat \<Rightarrow> bool \<Rightarrow> nat \<Rightarrow> os \<Rightarrow> (rt_err_t \<times> os) res" where
  "rt_sem_control s reset v w =
     (if reset
      then bind_res (ipc_list_resume_all (Sem_Q s) (krn w)) (\<lambda>k1.
           bind_res (rt_schedule k1) (\<lambda>k2.
             Inr (RT_EOK, (set_sem_value s (v mod 65536) w)\<lparr>krn := k2\<rparr>)))
      else Inr (- RT_ERROR, w))"

section \<open>Mutexes\<close>

definition rt_mutex_init :: "nat \<Rightarrow> os \<Rightarrow> os" where
  "rt_mutex_init m w =
     w\<lparr>krn := (krn w)\<lparr>susp := (susp (krn w))(Mutex_Q m := [])\<rparr>,
       mutex := (mutex w)(m := \<lparr>mutex_value = 1, original_priority = 0xFF, hold = 0, owner = None\<rparr>)\<rparr>"

definition rt_mutex_detach :: "nat \<Rightarrow> os \<Rightarrow> os res" where
  "rt_mutex_detach m w = bind_res (ipc_list_resume_all (Mutex_Q m) (krn w)) (\<lambda>k. Inr (w\<lparr>krn := k\<rparr>))"

text \<open>The wait of \<^verbatim>\<open>rt_mutex_take\<close>, with the priority of the owner raised if needed.\<close>

definition mutex_block :: "nat \<Rightarrow> int \<Rightarrow> kernel \<Rightarrow> nat option \<Rightarrow> (wait_result \<times> kernel) res" where
  "mutex_block m timeout k own =
     (let t = current k in
      case own of None \<Rightarrow> Inl Out_Of_Bounds
      | Some h \<Rightarrow>
          let k1 = (if prio k t < prio k h then change_priority h (prio k t) k else k)
          in bind_res (ipc_list_suspend (Mutex_Q m) t RT_IPC_FLAG_PRIO k1) (wait_schedule t timeout))"

definition rt_mutex_take :: "nat \<Rightarrow> int \<Rightarrow> os \<Rightarrow> (wait_result \<times> os) res" where
  "rt_mutex_take m timeout w =
     (if \<not> scheduler_available (krn w) then Inl Assert_Failed
      else let t = current (krn w); o1 = w\<lparr>krn := set_error t RT_EOK (krn w)\<rparr>; mu = mutex o1 m in
        if owner mu = Some t
        then if hold mu < RT_MUTEX_HOLD_MAX
          then Inr (Returned RT_EOK, upd_mutex m (\<lambda>mu. mu\<lparr>hold := hold mu + 1\<rparr>) o1)
          else Inr (Returned (- RT_EFULL), o1)
        else if mutex_value mu > 0
        then let o2 = upd_mutex m (\<lambda>mu. mu\<lparr>mutex_value := mutex_value mu - 1, owner := Some t,
                                          original_priority := prio (krn o1) t\<rparr>) o1
          in if hold mu < RT_MUTEX_HOLD_MAX
             then Inr (Returned RT_EOK, upd_mutex m (\<lambda>mu. mu\<lparr>hold := hold mu + 1\<rparr>) o2)
             else Inr (Returned (- RT_EFULL), o2)
        else if timeout = 0
        then Inr (Returned (- RT_ETIMEOUT), o1\<lparr>krn := set_error t (- RT_ETIMEOUT) (krn o1)\<rparr>)
        else bind_res (mutex_block m timeout (krn o1) (owner mu)) (\<lambda>(r, k). Inr (r, o1\<lparr>krn := k\<rparr>)))"

definition rt_mutex_trytake :: "nat \<Rightarrow> os \<Rightarrow> (wait_result \<times> os) res" where
  "rt_mutex_trytake m = rt_mutex_take m RT_WAITING_NO"

text \<open>The release of the last hold: the first waiting thread becomes the owner.\<close>

definition mutex_hand_over :: "nat \<Rightarrow> os \<Rightarrow> (rt_err_t \<times> os) res" where
  "mutex_hand_over m w =
     (case susp (krn w) (Mutex_Q m) of
        t # _ \<Rightarrow>
          let o1 = upd_mutex m (\<lambda>mu. mu\<lparr>owner := Some t, original_priority := prio (krn w) t\<rparr>) w in
          if hold (mutex o1 m) < RT_MUTEX_HOLD_MAX
          then bind_res (ipc_list_resume (Mutex_Q m) (krn o1)) (\<lambda>k1.
               bind_res (rt_schedule k1) (\<lambda>k2.
                 Inr (RT_EOK, (upd_mutex m (\<lambda>mu. mu\<lparr>hold := hold mu + 1\<rparr>) o1)\<lparr>krn := k2\<rparr>)))
          else Inr (- RT_EFULL, o1)
      | [] \<Rightarrow>
          if mutex_value (mutex w m) < RT_MUTEX_VALUE_MAX
          then Inr (RT_EOK, upd_mutex m (\<lambda>mu. mu\<lparr>mutex_value := mutex_value mu + 1, owner := None,
                                               original_priority := 0xFF\<rparr>) w)
          else Inr (- RT_EFULL, w))"

definition rt_mutex_release :: "nat \<Rightarrow> os \<Rightarrow> (rt_err_t \<times> os) res" where
  "rt_mutex_release m w =
     (if irq_nest (krn w) \<noteq> 0 then Inl Assert_Failed
      else let t = current (krn w) in
        if owner (mutex w m) \<noteq> Some t
        then Inr (- RT_ERROR, w\<lparr>krn := set_error t (- RT_ERROR) (krn w)\<rparr>)
        else let o1 = upd_mutex m (\<lambda>mu. mu\<lparr>hold := (hold mu + 255) mod 256\<rparr>) w; mu = mutex o1 m in
          if hold mu = 0
          then mutex_hand_over m
                 (if original_priority mu \<noteq> prio (krn o1) t
                  then o1\<lparr>krn := change_priority t (original_priority mu) (krn o1)\<rparr> else o1)
          else Inr (RT_EOK, o1))"

end
