(* ===== verification/Ipc_Inv.thy ===== *)
theory Ipc_Inv
  imports Ipc
begin

text \<open>
  The invariant of the IPC objects together with the scheduler, kept by every call and by
  the clock: a semaphore with a positive value has no waiting threads, a mutex is free or
  has one owner that does not wait for it, and so on. The reachable states of the kernel
  follow, with the absence of faults.
\<close>

section \<open>Wait queues\<close>

lemma prio_insert_set [simp]: "set (prio_insert pr t xs) = insert t (set xs)"
  by (induction xs) auto

lemma prio_insert_distinct: "t \<notin> set xs \<Longrightarrow> distinct xs \<Longrightarrow> distinct (prio_insert pr t xs)"
  by (induction xs) auto

text \<open>A queue in order of priority remains so, and equal priorities remain first come, first served.\<close>

lemma prio_insert_sorted: "sorted (map pr xs) \<Longrightarrow> sorted (map pr (prio_insert pr t xs))"
  by (induction xs) auto

lemma prio_insert_split:
  assumes "sorted (map pr xs)"
  shows "prio_insert pr t xs = filter (\<lambda>x. pr x \<le> pr t) xs @ t # filter (\<lambda>x. pr t < pr x) xs"
  using assms
proof (induction xs)
  case (Cons x xs)
  show ?case
  proof (cases "pr t < pr x")
    case True
    then have "\<forall>y \<in> set xs. pr t < pr y" using Cons.prems by auto
    then have "filter (\<lambda>x. pr x \<le> pr t) xs = []" "filter (\<lambda>x. pr t < pr x) xs = xs"
      by (auto simp: filter_empty_conv filter_id_conv)
    then show ?thesis using True by simp
  qed (use Cons in simp)
qed simp

text \<open>The current thread joins the queue \<open>q\<close>; \<open>xs\<close> is the queue afterwards.\<close>

definition in_queue :: "wait_queue \<Rightarrow> nat list \<Rightarrow> kernel \<Rightarrow> kernel" where
  "in_queue q xs k = (set_stat (current k) RT_THREAD_SUSPEND k)\<lparr>susp := (susp k)(q := xs)\<rparr>"

lemma in_queue_inv:
  assumes "kinv now k" and "stat (thr k (current k)) = RT_THREAD_RUNNING"
    and "set xs = insert (current k) (set (susp k q))" and "distinct xs"
  shows "kinv now (in_queue q xs k)"
proof -
  let ?k = "set_stat (current k) RT_THREAD_SUSPEND k"
  have "current k \<notin> set (susp k q')" for q' using kinvD(2)[OF assms(1)] assms(2) by (auto simp: wait_inv_def)
  moreover have "susp ?k = susp k" by (simp add: set_stat_def)
  ultimately have "kinv now (?k\<lparr>susp := (susp ?k)(q := xs)\<rparr>)"
    by (intro enqueue_inv[OF kinv_suspend[OF assms(1,2)], of "current k"])
      (use assms(3,4) in \<open>auto simp: set_stat_def\<close>)
  then show ?thesis by (simp add: in_queue_def set_stat_def)
qed

lemma ipc_suspend_inv:
  assumes "kinv now k" and "stat (thr k (current k)) = RT_THREAD_RUNNING"
    and "flag = RT_IPC_FLAG_FIFO \<or> flag = RT_IPC_FLAG_PRIO"
  shows "\<exists>xs. ipc_list_suspend q (current k) flag k = Inr (in_queue q xs k) \<and> set xs = insert (current k) (set (susp k q)) \<and> distinct xs \<and>
    xs = (if flag = RT_IPC_FLAG_FIFO then susp k q @ [current k]
          else prio_insert (prio k) (current k) (susp k q))"
proof -
  let ?c = "current k"
  let ?k = "set_stat ?c RT_THREAD_SUSPEND k"
  let ?xs = "if flag = RT_IPC_FLAG_FIFO then susp k q @ [?c] else prio_insert (prio k) ?c (susp k q)"
  note i = kinvD[OF assms(1)]
  have nw: "?c \<notin> set (susp k q')" for q' using i(2) assms(2) by (auto simp: wait_inv_def)
  have d: "distinct (susp k q)" using i(2) by (simp add: wait_inv_def)
  have s: "susp ?k = susp k" "prio ?k = prio k" by (auto simp: set_stat_def fun_eq_iff)
  have xs: "set ?xs = insert ?c (set (susp k q))" "distinct ?xs"
    using nw d prio_insert_distinct by auto
  have "ipc_list_suspend q ?c flag k = Inr (in_queue q ?xs k)"
    using assms(3) by (auto simp: ipc_list_suspend_def suspend_eq[OF assms(1,2)] s in_queue_def)
  then show ?thesis using xs s by (intro exI[of _ ?xs]) simp
qed

text \<open>
  What a call that blocks leaves behind: \<open>t\<close> waits, the other threads keep everything but
  whether they run or are ready, and the queues are those before the schedule.
\<close>

definition blocked :: "nat \<Rightarrow> kernel \<Rightarrow> kernel \<Rightarrow> bool" where
  "blocked t k k' \<longleftrightarrow> susp k' = susp k \<and> stat (thr k' t) = RT_THREAD_SUSPEND \<and> current k' \<noteq> t \<and>
     (\<forall>x. prio k' x = prio k x) \<and> (\<forall>x. error (thr k' x) = error (thr k x)) \<and> (\<forall>x. alive k' x = alive k x) \<and>
     (\<forall>x. x \<noteq> t \<longrightarrow> thread_timer (thr k' x) = thread_timer (thr k x) \<and>
        (stat (thr k' x) = RT_THREAD_SUSPEND \<longleftrightarrow> stat (thr k x) = RT_THREAD_SUSPEND)) \<and>
     tick k' = tick k \<and> lock_nest k' = lock_nest k \<and> irq_nest k' = irq_nest k"

text \<open>The timer of \<open>t\<close> runs and has \<open>n\<close> ticks left.\<close>

definition counting :: "kernel \<Rightarrow> nat \<Rightarrow> nat \<Rightarrow> bool" where
  "counting k t n \<longleftrightarrow> stat (thr k t) = RT_THREAD_SUSPEND \<and> activated (thread_timer (thr k t)) \<and>
     remaining (tick k) k t = n"

lemma wait_schedule_inv:
  assumes "kinv (tick k) k" and "stat (thr k t) = RT_THREAD_SUSPEND" and "current k = t"
    and "stat (thr k i) = RT_THREAD_READY" and "lock_nest k = 0" and "timeout < 0x7FFFFFFF"
  shows "\<exists>k'. wait_schedule t timeout k = Inr (Waiting, k') \<and> kinv (tick k') k' \<and> blocked t k k' \<and>
    stat (thr k' (current k')) = RT_THREAD_RUNNING \<and> (timeout > 0 \<longrightarrow> counting k' t (nat timeout))"
proof -
  define k2 where "k2 = (if timeout > 0
    then rt_timer_start t (upd_timer t (\<lambda>tm. tm\<lparr>init_tick := of_int timeout\<rparr>) k) else k)"
  have f: "susp k2 = susp k" "tick k2 = tick k" "lock_nest k2 = 0" "irq_nest k2 = irq_nest k" "current k2 = t"
    "prio k2 x = prio k x" "error (thr k2 x) = error (thr k x)" "stat (thr k2 x) = stat (thr k x)"
    "x \<noteq> t \<Longrightarrow> thread_timer (thr k2 x) = thread_timer (thr k x)" for x
    using assms(3,5) by (simp_all add: k2_def rt_timer_start_def Let_def upd_timer_def)
  have i2: "kinv (tick k) k2 \<and> (timeout > 0 \<longrightarrow> counting k2 t (nat timeout))"
  proof (cases "timeout > 0")
    case True
    let ?k1 = "upd_timer t (\<lambda>tm. tm\<lparr>init_tick := of_int timeout\<rparr>) k"
    note i = kinvD[OF assms(1)]
    have "ready_inv ?k1" using i(1) by (rule ready_inv_cong) (simp_all add: upd_timer_def)
    moreover have "wait_inv ?k1" using i(2) by (rule wait_inv_same) (simp_all add: upd_timer_def)
    moreover have "remaining now ?k1 = remaining now k" for now by (auto simp: remaining_def fun_eq_iff)
    then have "timer_inv (tick k) ?k1" using i(3) by (auto simp: timer_inv_def split: if_splits)
    moreover have "running_inv ?k1" using i(4) by (rule running_inv_same) (simp_all add: upd_timer_def)
    ultimately have "kinv (tick ?k1) ?k1" by (simp add: kinv_def)
    moreover have "(of_int timeout :: u32) < TICK_HALF"
      using True assms(6) by (simp add: word_less_def uint_word_of_int_eq take_bit_int_eq_self)
    moreover have "unat (of_int timeout :: u32) = nat timeout"
      using True assms(6) by (simp add: unat_eq_nat_uint uint_word_of_int_eq take_bit_int_eq_self)
    ultimately have "kinv (tick ?k1) (rt_timer_start t ?k1) \<and> counting (rt_timer_start t ?k1) t (nat timeout)"
      using timer_start_inv[of ?k1 t] assms(2) f True by (simp add: counting_def k2_def)
    then show ?thesis using True by (simp add: k2_def)
  qed (use assms(1) in \<open>simp add: k2_def\<close>)
  have "ready_group k2 \<noteq> 0"
    by (rule ready_group_nonzero[OF kinvD(1)[OF conjunct1[OF i2]], of i]) (simp add: f assms(4))
  then obtain k' where k': "rt_schedule k2 = Inr k'" "kinv (tick k) k'" "same_waiting k2 k'"
    "stat (thr k' (current k')) = RT_THREAD_RUNNING"
    using rt_schedule_inv[OF conjunct1[OF i2]] f(3) by blast
  have t: "stat (thr k' t) = RT_THREAD_SUSPEND" using same_waitingD(9)[OF k'(3)] assms(2) f by simp
  then have ne: "current k' \<noteq> t" using k'(4) by auto
  have "(of_int timeout :: u32) < TICK_HALF" if "timeout > 0"
    using that assms(6) by (simp add: word_less_def uint_word_of_int_eq take_bit_int_eq_self)
  then have "wait_schedule t timeout k = Inr (Waiting, k')"
    using k'(1) ne by (cases "timeout > 0") (simp_all add: wait_schedule_def k2_def rt_timer_set_time_def)
  moreover have "alive k2 x = alive k x" for x by (simp add: alive_def f)
  then have "blocked t k k'"
    using t ne f same_waitingD[OF k'(3)] same_waiting_alive[OF k'(3)] assms(5) by (simp add: blocked_def)
  moreover have "counting k' t (nat timeout)" if "timeout > 0"
    using i2 that same_waitingD(2,8,9,10)[OF k'(3)] by (simp add: counting_def)
  ultimately show ?thesis using k' same_waitingD(2)[OF k'(3)] f(2) by (intro exI[of _ k']) simp
qed

section \<open>Objects\<close>

definition sem_inv :: "os \<Rightarrow> nat \<Rightarrow> bool" where
  "sem_inv w s \<longleftrightarrow> sem_value (sem w s) \<le> RT_SEM_VALUE_MAX \<and>
     (sem_flag (sem w s) = RT_IPC_FLAG_FIFO \<or> sem_flag (sem w s) = RT_IPC_FLAG_PRIO) \<and>
     (0 < sem_value (sem w s) \<longrightarrow> susp (krn w) (Sem_Q s) = [])"

text \<open>A mutex is free with nobody waiting, or held by one thread that does not wait for it.\<close>

definition mutex_inv :: "os \<Rightarrow> nat \<Rightarrow> bool" where
  "mutex_inv w m \<longleftrightarrow> (case owner (mutex w m) of
       None \<Rightarrow> mutex_value (mutex w m) = 1 \<and> hold (mutex w m) = 0 \<and> susp (krn w) (Mutex_Q m) = []
     | Some t \<Rightarrow> mutex_value (mutex w m) = 0 \<and> 1 \<le> hold (mutex w m) \<and> hold (mutex w m) \<le> RT_MUTEX_HOLD_MAX \<and>
         t \<notin> set (susp (krn w) (Mutex_Q m)) \<and> original_priority (mutex w m) < 32)"

text \<open>
  The idle thread \<open>i\<close> can always run; some thread runs; the error code of a waiting thread
  says success until the wait ends otherwise.
\<close>

definition os_inv :: "nat \<Rightarrow> os \<Rightarrow> bool" where
  "os_inv i w \<longleftrightarrow> kinv (tick (krn w)) (krn w) \<and>
     stat (thr (krn w) (current (krn w))) = RT_THREAD_RUNNING \<and> alive (krn w) i \<and>
     (\<forall>s. sem_inv w s) \<and> (\<forall>m. mutex_inv w m) \<and>
     (\<forall>q. \<forall>t \<in> set (susp (krn w) q). error (thr (krn w) t) = RT_EOK)"

lemma os_invD:
  assumes "os_inv i w"
  shows "kinv (tick (krn w)) (krn w)" "stat (thr (krn w) (current (krn w))) = RT_THREAD_RUNNING"
    "alive (krn w) i" "sem_inv w s" "mutex_inv w m"
    "t \<in> set (susp (krn w) q) \<Longrightarrow> error (thr (krn w) t) = RT_EOK"
  using assms by (auto simp: os_inv_def)

text \<open>If the queues of the objects do not grow, the objects' invariants only need the objects.\<close>

lemma objects_queue_mono:
  assumes "sem w' = sem w" and "mutex w' = mutex w"
    and "\<And>q. set (susp (krn w') q) \<subseteq> set (susp (krn w) q)"
  shows "sem_inv w s \<Longrightarrow> sem_inv w' s" and "mutex_inv w m \<Longrightarrow> mutex_inv w' m"
proof -
  have "susp (krn w) q = [] \<Longrightarrow> susp (krn w') q = []" for q using assms(3)[of q] by simp
  then show "sem_inv w s \<Longrightarrow> sem_inv w' s" "mutex_inv w m \<Longrightarrow> mutex_inv w' m"
    using assms(1,2) assms(3)[of "Mutex_Q m"] by (auto simp: sem_inv_def mutex_inv_def split: option.splits)
qed

lemma set_sem_value_simps [simp]:
  "krn (set_sem_value s v w) = krn w" "mutex (set_sem_value s v w) = mutex w"
  "sem (set_sem_value s v w) = (sem w)(s := (sem w s)\<lparr>sem_value := v\<rparr>)"
  by (simp_all add: set_sem_value_def)

lemma mutex_inv_sem [simp]: "mutex_inv (set_sem_value s v w) m = mutex_inv w m"
  unfolding mutex_inv_def set_sem_value_simps ..

lemma idle_ready:
  assumes "os_inv i w" and "current (krn w) \<noteq> i"
  shows "stat (thr (krn w) i) = RT_THREAD_READY"
  using os_invD(3)[OF assms(1)] kinvD(4)[OF os_invD(1)[OF assms(1)]] assms(2)
  by (auto simp: alive_def running_inv_def)

lemma current_not_waiting:
  assumes "os_inv i w"
  shows "current (krn w) \<notin> set (susp (krn w) q)"
  using kinvD(2)[OF os_invD(1)[OF assms]] os_invD(2)[OF assms] by (auto simp: wait_inv_def)

lemma set_error_kernel:
  assumes "kinv now k"
  shows "kinv now (set_error t e k)" "current (set_error t e k) = current k" "tick (set_error t e k) = tick k"
    "stat (thr (set_error t e k) x) = stat (thr k x)" "susp (set_error t e k) = susp k"
    "prio (set_error t e k) x = prio k x" "lock_nest (set_error t e k) = lock_nest k"
    "irq_nest (set_error t e k) = irq_nest k" "alive (set_error t e k) x = alive k x"
  using kinv_set_error[OF assms] by (simp_all add: set_error_def alive_def)

text \<open>The kernel after the current thread has joined a queue and another one runs.\<close>

definition joined :: "wait_queue \<Rightarrow> nat list \<Rightarrow> kernel \<Rightarrow> kernel \<Rightarrow> bool" where
  "joined q xs k k' \<longleftrightarrow> kinv (tick k') k' \<and> susp k' = (susp k)(q := xs) \<and>
     stat (thr k' (current k)) = RT_THREAD_SUSPEND \<and> stat (thr k' (current k')) = RT_THREAD_RUNNING \<and>
     (\<forall>x. prio k' x = prio k x) \<and> (\<forall>x. x \<noteq> current k \<longrightarrow> alive k' x = alive k x) \<and>
     (\<forall>x. error (thr k' x) = error (thr k x)) \<and>
     (\<forall>x. x \<noteq> current k \<longrightarrow> thread_timer (thr k' x) = thread_timer (thr k x) \<and>
        (stat (thr k' x) = RT_THREAD_SUSPEND \<longleftrightarrow> stat (thr k x) = RT_THREAD_SUSPEND)) \<and>
     tick k' = tick k \<and> lock_nest k' = lock_nest k \<and> irq_nest k' = irq_nest k"

lemma block_as_inv:
  assumes "kinv (tick k) k" and "stat (thr k (current k)) = RT_THREAD_RUNNING"
    and "set xs = insert (current k) (set (susp k q))" and "distinct xs"
    and "stat (thr k i) = RT_THREAD_READY" and "lock_nest k = 0" and "timeout < 0x7FFFFFFF"
  shows "\<exists>k'. wait_schedule (current k) timeout (in_queue q xs k) = Inr (Waiting, k') \<and> joined q xs k k' \<and>
    (timeout > 0 \<longrightarrow> counting k' (current k) (nat timeout))"
proof -
  let ?c = "current k" and ?k1 = "in_queue q xs k"
  have ne: "i \<noteq> ?c" using assms(2,5) by auto
  have f: "stat (thr ?k1 ?c) = RT_THREAD_SUSPEND" "current ?k1 = ?c" "stat (thr ?k1 i) = RT_THREAD_READY"
    "lock_nest ?k1 = 0" "tick ?k1 = tick k"
    using ne assms(5,6) by (simp_all add: set_stat_def in_queue_def)
  from wait_schedule_inv[OF _ f(1,2,3,4) assms(7)] in_queue_inv[OF assms(1-4)] f(5) obtain k' where
    k': "wait_schedule ?c timeout ?k1 = Inr (Waiting, k')" "kinv (tick k') k'" "blocked ?c ?k1 k'"
    "stat (thr k' (current k')) = RT_THREAD_RUNNING" "timeout > 0 \<longrightarrow> counting k' ?c (nat timeout)" by auto
  have "joined q xs k k'"
    using k'(2-4) unfolding joined_def blocked_def by (simp add: set_stat_def alive_def in_queue_def)
  then show ?thesis using k'(1,5) by simp
qed

lemma block_inv:
  assumes "kinv (tick k) k" and "stat (thr k (current k)) = RT_THREAD_RUNNING"
    and "flag = RT_IPC_FLAG_FIFO \<or> flag = RT_IPC_FLAG_PRIO"
    and "stat (thr k i) = RT_THREAD_READY" and "lock_nest k = 0" and "timeout < 0x7FFFFFFF"
    and "xs = (if flag = RT_IPC_FLAG_FIFO then susp k q @ [current k]
               else prio_insert (prio k) (current k) (susp k q))"
  shows "\<exists>k'. bind_res (ipc_list_suspend q (current k) flag k) (wait_schedule (current k) timeout)
      = Inr (Waiting, k') \<and> joined q xs k k' \<and> (timeout > 0 \<longrightarrow> counting k' (current k) (nat timeout))"
proof -
  obtain ys where ys: "ipc_list_suspend q (current k) flag k = Inr (in_queue q ys k)"
    "set ys = insert (current k) (set (susp k q))" "distinct ys" "ys = xs"
    using ipc_suspend_inv[OF assms(1-3), of q] assms(7) by auto
  then show ?thesis using block_as_inv[OF assms(1,2) ys(2,3) assms(4-6)] by simp
qed

lemma joined_error:
  assumes "joined q' xs k k'" and "t \<in> set (susp k' q)" and "set xs = insert (current k) (set (susp k q'))"
  shows "error (thr k' t) = error (thr k t)" "t = current k \<or> t \<in> set (susp k q)"
  using assms by (auto simp: joined_def split: if_splits)

text \<open>
  A thread that waits goes on waiting with its timer and in its queue, or a call has woken it
  from its queue. So only the clock wakes a thread that sleeps.
\<close>

definition kept :: "kernel \<Rightarrow> kernel \<Rightarrow> bool" where
  "kept k k' \<longleftrightarrow> tick k' = tick k \<and> (\<forall>t. stat (thr k t) = RT_THREAD_SUSPEND \<longrightarrow>
     stat (thr k' t) = RT_THREAD_SUSPEND \<and> thread_timer (thr k' t) = thread_timer (thr k t) \<and>
       (\<forall>q. t \<in> set (susp k' q) \<longleftrightarrow> t \<in> set (susp k q)) \<or>
     alive k' t \<and> (\<exists>q. t \<in> set (susp k q)))"

lemma kept_same:
  assumes "tick k' = tick k" and "\<And>q. susp k' q = susp k q"
    and "\<And>t. stat (thr k t) = RT_THREAD_SUSPEND \<Longrightarrow> stat (thr k' t) = RT_THREAD_SUSPEND"
    and "\<And>t. stat (thr k t) = RT_THREAD_SUSPEND \<Longrightarrow> thread_timer (thr k' t) = thread_timer (thr k t)"
  shows "kept k k'"
  using assms by (simp add: kept_def)

lemma kept_refl [simp]: "kept k k"
  by (simp add: kept_def)

lemma kept_joined:
  assumes "joined q xs k k'" and "stat (thr k (current k)) = RT_THREAD_RUNNING"
    and "set xs = insert (current k) (set (susp k q))"
  shows "kept k k'"
proof -
  have ne: "t \<noteq> current k" if "stat (thr k t) = RT_THREAD_SUSPEND" for t using that assms(2) by auto
  then have "stat (thr k' t) = RT_THREAD_SUSPEND \<and> thread_timer (thr k' t) = thread_timer (thr k t) \<and>
      (\<forall>q'. t \<in> set (susp k' q') \<longleftrightarrow> t \<in> set (susp k q'))" if "stat (thr k t) = RT_THREAD_SUSPEND" for t
    using assms(1,3) that ne[OF that] by (simp add: joined_def)
  then show ?thesis using assms(1) by (simp add: kept_def joined_def)
qed

lemma kept_woken:
  assumes "woken t k k'" and "t \<in> set (susp k q)"
  shows "kept k k'"
  unfolding kept_def
proof (intro conjI allI impI)
  fix x assume "stat (thr k x) = RT_THREAD_SUSPEND"
  then show "stat (thr k' x) = RT_THREAD_SUSPEND \<and> thread_timer (thr k' x) = thread_timer (thr k x) \<and>
       (\<forall>q. x \<in> set (susp k' q) \<longleftrightarrow> x \<in> set (susp k q)) \<or> alive k' x \<and> (\<exists>q. x \<in> set (susp k q))"
    using assms by (cases "x = t") (auto simp: woken_def)
qed (use assms(1) in \<open>simp add: woken_def\<close>)

text \<open>Whatever keeps the threads before it, and a schedule.\<close>

lemma kept_schedule:
  assumes "kept k k1" and "same_waiting k1 k2"
  shows "kept k k2"
  using assms(1) by (simp add: kept_def same_waitingD[OF assms(2)] same_waiting_alive[OF assms(2)])

lemma kept_cong:
  assumes "kept k1 k2" and "tick k1 = tick k" and "susp k1 = susp k"
    and "\<And>t. stat (thr k1 t) = stat (thr k t)" and "\<And>t. thread_timer (thr k1 t) = thread_timer (thr k t)"
  shows "kept k k2"
  using assms by (simp add: kept_def)

lemma kept_error: "kept (set_error t e k) k' \<Longrightarrow> kept k k'" and kept_set_error: "kept k (set_error t e k)"
  by (auto simp: set_error_def intro: kept_same elim!: kept_cong)

text \<open>The first thread of a queue is woken and the scheduler chooses.\<close>

lemma resume_first_inv:
  assumes "kinv now k" and "stat (thr k (current k)) = RT_THREAD_RUNNING" and "susp k q = t # ts"
  shows "\<exists>k'. bind_res (ipc_list_resume q k) rt_schedule = Inr k' \<and> kinv now k' \<and> woken t k k' \<and>
    stat (thr k' (current k')) = RT_THREAD_RUNNING"
proof -
  have "t \<in> set (susp k q)" using assms(3) by simp
  then have "stat (thr k t) = RT_THREAD_SUSPEND" using kinvD(2)[OF assms(1)] unfolding wait_inv_def by blast
  then show ?thesis
    using wake_schedule[OF assms(1) _ assms(2)] resume_wake[OF kinvD(3)[OF assms(1)]] assms(3)
    by (simp add: ipc_list_resume_def)
qed

lemma woken_queues: "woken t k k' \<Longrightarrow> set (susp k' q) \<subseteq> set (susp k q)"
  by (simp add: woken_def)

lemma os_inv_kernel:
  assumes "os_inv i w" and "kinv (tick k) k" and "stat (thr k (current k)) = RT_THREAD_RUNNING" and "alive k i"
    and "\<And>q. set (susp k q) \<subseteq> set (susp (krn w) q)"
    and "\<And>q t. t \<in> set (susp k q) \<Longrightarrow> error (thr k t) = error (thr (krn w) t)"
  shows "os_inv i (w\<lparr>krn := k\<rparr>)"
proof -
  have "sem_inv (w\<lparr>krn := k\<rparr>) s" "mutex_inv (w\<lparr>krn := k\<rparr>) m" for s m
    by (rule objects_queue_mono[of _ w]; use assms(5) os_invD(4,5)[OF assms(1)] in simp)+
  moreover have "error (thr k t) = RT_EOK" if "t \<in> set (susp k q)" for q t
    using assms(5)[of q] assms(6)[OF that] os_invD(6)[OF assms(1), of t q] that by auto
  ultimately show ?thesis using assms(2-4) by (simp add: os_inv_def)
qed

lemma os_inv_woken:
  assumes "os_inv i w" and "kinv (tick (krn w)) k" and "woken t (krn w) k"
    and "stat (thr k (current k)) = RT_THREAD_RUNNING"
  shows "os_inv i (w\<lparr>krn := k\<rparr>)"
proof (rule os_inv_kernel[OF assms(1) _ assms(4)])
  show "kinv (tick k) k" using assms(2,3) by (simp add: woken_def)
  show "alive k i" using assms(3) os_invD(3)[OF assms(1)] by (cases "i = t") (auto simp: woken_def)
  show "set (susp k q) \<subseteq> set (susp (krn w) q)" for q using woken_queues[OF assms(3)] .
  show "error (thr k x) = error (thr (krn w) x)" for x using assms(3) by (simp add: woken_def)
qed

section \<open>Semaphores\<close>

text \<open>A thread that finds the semaphore taken joins the queue at its place.\<close>

lemma sem_take_blocks:
  assumes "os_inv i w" and "timeout < 0x7FFFFFFF" and "timeout \<noteq> 0" and "scheduler_available (krn w)"
    and "current (krn w) \<noteq> i" and "sem_value (sem w s) = 0"
  defines "t \<equiv> current (krn w)"
  shows "\<exists>w'. rt_sem_take s timeout w = Inr (Waiting, w') \<and> os_inv i w' \<and> kept (krn w) (krn w') \<and>
    stat (thr (krn w') t) = RT_THREAD_SUSPEND \<and> sem w' = sem w \<and> lock_nest (krn w') = 0 \<and>
    susp (krn w') = (susp (krn w))(Sem_Q s :=
      if sem_flag (sem w s) = RT_IPC_FLAG_FIFO then susp (krn w) (Sem_Q s) @ [t]
      else prio_insert (prio (krn w)) t (susp (krn w) (Sem_Q s))) \<and>
    (timeout > 0 \<longrightarrow> counting (krn w') t (nat timeout))"
proof -
  note o = os_invD[OF assms(1)]
  let ?k = "set_error t RT_EOK (krn w)"
  let ?xs = "if sem_flag (sem w s) = RT_IPC_FLAG_FIFO then susp ?k (Sem_Q s) @ [current ?k]
      else prio_insert (prio ?k) (current ?k) (susp ?k (Sem_Q s))"
  note k = set_error_kernel[OF o(1)]
  have e: "kinv (tick ?k) ?k" "stat (thr ?k (current ?k)) = RT_THREAD_RUNNING"
    "stat (thr ?k i) = RT_THREAD_READY" "lock_nest ?k = 0" "current ?k = t"
    using k o(2) idle_ready[OF assms(1,5)] assms(4) by (simp_all add: scheduler_available_def t_def)
  have fl: "sem_flag (sem w s) = RT_IPC_FLAG_FIFO \<or> sem_flag (sem w s) = RT_IPC_FLAG_PRIO"
    using o(4)[of s] by (simp add: sem_inv_def)
  obtain k' where k': "bind_res (ipc_list_suspend (Sem_Q s) (current ?k) (sem_flag (sem w s)) ?k)
      (wait_schedule (current ?k) timeout) = Inr (Waiting, k')" "joined (Sem_Q s) ?xs ?k k'"
    "timeout > 0 \<longrightarrow> counting k' (current ?k) (nat timeout)"
    using block_inv[OF e(1,2) fl e(3,4) assms(2) refl] by blast
  have take: "rt_sem_take s timeout w = Inr (Waiting, w\<lparr>krn := k'\<rparr>)"
    using k'(1) assms(3,4,6) e(5) by (simp add: rt_sem_take_def Let_def t_def bind_res_assoc[symmetric])
  have xs: "set ?xs = insert (current ?k) (set (susp ?k (Sem_Q s)))" by simp
  have kept: "kept (krn w) k'" using kept_joined[OF k'(2) e(2) xs] kept_error by blast
  have "sem_inv (w\<lparr>krn := k'\<rparr>) s'" for s'
    using o(4)[of s'] o(4)[of s] k'(2) assms(6) by (auto simp: sem_inv_def joined_def k)
  moreover have "mutex_inv (w\<lparr>krn := k'\<rparr>) m" for m
    using o(5)[of m] k'(2) by (auto simp: mutex_inv_def joined_def k split: option.splits)
  moreover have "error (thr k' x) = RT_EOK" if "x \<in> set (susp k' q)" for q x
    using joined_error[OF k'(2) that xs] o(6)[of x q] e(5) by (auto simp: set_error_def k)
  ultimately have "os_inv i (w\<lparr>krn := k'\<rparr>)"
    using k'(2) o(3) assms(5) by (auto simp: os_inv_def joined_def k)
  moreover have "prio ?k = prio (krn w)" by (simp add: k fun_eq_iff)
  ultimately show ?thesis
    using take kept k'(2,3) e(5) assms(4) by (simp add: joined_def k scheduler_available_def)
qed

lemma sem_take_inv:
  assumes "os_inv i w" and "timeout < 0x7FFFFFFF"
    and "scheduler_available (krn w) \<and> current (krn w) \<noteq> i \<or> timeout = 0"
  shows "\<exists>r w'. rt_sem_take s timeout w = Inr (r, w') \<and> os_inv i w' \<and> kept (krn w) (krn w')"
proof -
  note o = os_invD[OF assms(1)]
  consider (free) "0 < sem_value (sem w s)" | (poll) "sem_value (sem w s) = 0" "timeout = 0"
    | (wait) "sem_value (sem w s) = 0" "timeout \<noteq> 0" by auto
  then show ?thesis
  proof cases
    case free
    have "sem_inv (set_sem_value s (sem_value (sem w s) - 1) w) s'" for s'
      using o(4)[of s'] o(4)[of s] free by (auto simp: sem_inv_def)
    then have "os_inv i (set_sem_value s (sem_value (sem w s) - 1) w)" using o by (simp add: os_inv_def)
    then show ?thesis using free by (simp add: rt_sem_take_def Let_def)
  next
    case poll
    then show ?thesis using assms(1) by (simp add: rt_sem_take_def)
  next
    case wait
    then show ?thesis using sem_take_blocks[OF assms(1,2), of s] assms(3) by blast
  qed
qed

lemma sem_release_inv:
  assumes "os_inv i w"
  shows "\<exists>r w'. rt_sem_release s w = Inr (r, w') \<and> os_inv i w' \<and> kept (krn w) (krn w')"
proof -
  note o = os_invD[OF assms]
  show ?thesis
  proof (cases "susp (krn w) (Sem_Q s)")
    case Nil
    have "sem_inv (set_sem_value s (sem_value (sem w s) + 1) w) s'" if "sem_value (sem w s) < RT_SEM_VALUE_MAX" for s'
      using o(4)[of s'] o(4)[of s] Nil that by (auto simp: sem_inv_def)
    then have "os_inv i (set_sem_value s (sem_value (sem w s) + 1) w)" if "sem_value (sem w s) < RT_SEM_VALUE_MAX"
      using o that by (simp add: os_inv_def)
    then show ?thesis using Nil assms by (simp add: rt_sem_release_def Let_def)
  next
    case (Cons t ts)
    obtain k' where k': "bind_res (ipc_list_resume (Sem_Q s) (krn w)) rt_schedule = Inr k'"
      "kinv (tick (krn w)) k'" "woken t (krn w) k'" "stat (thr k' (current k')) = RT_THREAD_RUNNING"
      using resume_first_inv[OF o(1,2) Cons] by blast
    have "rt_sem_release s w = Inr (RT_EOK, w\<lparr>krn := k'\<rparr>)"
      using k'(1) Cons by (simp add: rt_sem_release_def bind_res_assoc[symmetric])
    moreover have "os_inv i (w\<lparr>krn := k'\<rparr>)" using assms k'(2-4) by (rule os_inv_woken)
    moreover have "kept (krn w) k'" by (rule kept_woken[OF k'(3), of "Sem_Q s"]) (simp add: Cons)
    ultimately show ?thesis by simp
  qed
qed

text \<open>Emptying a queue: all its threads are awake with an error; nobody else is concerned.\<close>

definition flushed :: "wait_queue \<Rightarrow> kernel \<Rightarrow> kernel \<Rightarrow> bool" where
  "flushed q k k' \<longleftrightarrow> susp k' = (susp k)(q := []) \<and> current k' = current k \<and> tick k' = tick k \<and>
     lock_nest k' = lock_nest k \<and> irq_nest k' = irq_nest k \<and> (\<forall>x. prio k' x = prio k x) \<and>
     (\<forall>x \<in> set (susp k q). alive k' x \<and> error (thr k' x) = - RT_ERROR) \<and>
     (\<forall>x. x \<notin> set (susp k q) \<longrightarrow> thr k' x = thr k x)"

lemma flushed_step:
  assumes "wait_inv k" and "susp k q = t # ts" and "t \<noteq> current k"
    and "flushed q (wake t (set_error t (- RT_ERROR) k)) k'"
  shows "flushed q k k'"
proof -
  let ?k1 = "wake t (set_error t (- RT_ERROR) k)"
  have d: "distinct (t # ts)" using assms(1,2) unfolding wait_inv_def by metis
  have q: "susp ?k1 q = ts" using d assms(2) by (simp add: wake_fields set_error_def removeAll_id)
  have "t \<notin> set (susp k q')" if "q' \<noteq> q" for q'
    using assms(1,2) that unfolding wait_inv_def by (metis list.set_intros(1))
  then have q': "susp ?k1 q' = susp k q'" if "q' \<noteq> q" for q'
    using that by (simp add: wake_fields set_error_def removeAll_id)
  have "susp k' = (susp k)(q := [])" using assms(4) q' by (auto simp: flushed_def)
  moreover have "alive ?k1 t" "error (thr ?k1 t) = - RT_ERROR"
    using assms(3) by (simp_all add: alive_def wake_fields set_error_def)
  then have "alive k' t \<and> error (thr k' t) = - RT_ERROR" using assms(4) q d by (auto simp: flushed_def alive_def)
  moreover have "thr ?k1 x = thr k x" "prio ?k1 y = prio k y" if "x \<noteq> t" for x y
    using that by (simp_all add: wake_fields set_error_def)
  moreover have "prio ?k1 x = prio k x" for x by (simp add: wake_fields set_error_def)
  ultimately show ?thesis
    using assms(2,4) q unfolding flushed_def by (auto simp: wake_fields(2-5) set_error_def)
qed

lemma kept_flushed:
  assumes "wait_inv k" and "flushed q k k'"
  shows "kept k k'"
proof -
  have "t \<notin> set (susp k q')" if "t \<in> set (susp k q)" "q' \<noteq> q" for t q'
    using assms(1) that unfolding wait_inv_def by blast
  then show ?thesis using assms(2) unfolding kept_def flushed_def by (auto split: if_splits)
qed

lemma resume_all_inv:
  assumes "kinv now k" and "stat (thr k (current k)) = RT_THREAD_RUNNING"
  shows "\<exists>k'. ipc_list_resume_all q k = Inr k' \<and> kinv now k' \<and> flushed q k k'"
  using assms
proof (induction q k rule: ipc_list_resume_all.induct)
  case (1 q k)
  show ?case
  proof (cases "susp k q")
    case Nil
    then have "(susp k)(q := []) = susp k" by auto
    then show ?thesis using Nil "1.prems"(1) by (subst ipc_list_resume_all.simps) (simp add: flushed_def)
  next
    case (Cons t ts)
    let ?k0 = "set_error t (- RT_ERROR) k"
    have "t \<in> set (susp k q)" using Cons by simp
    then have s: "stat (thr k t) = RT_THREAD_SUSPEND"
      using kinvD(2)[OF "1.prems"(1)] unfolding wait_inv_def by blast
    then have ne: "t \<noteq> current k" using "1.prems"(2) by auto
    note e = set_error_kernel[OF "1.prems"(1), of t "- RT_ERROR"]
    have w: "rt_thread_resume t ?k0 = (RT_EOK, wake t ?k0)"
      by (rule resume_wake[OF kinvD(3)[OF e(1)]]) (simp add: e s)
    have "kinv now (wake t ?k0)" by (rule wake_inv[OF e(1)]) (simp add: e s)
    moreover have "stat (thr (wake t ?k0) (current (wake t ?k0))) = RT_THREAD_RUNNING"
      using ne "1.prems"(2) by (simp add: wake_fields e)
    ultimately obtain k' where "ipc_list_resume_all q (wake t ?k0) = Inr k'" "kinv now k'" "flushed q (wake t ?k0) k'"
      using "1.IH"[OF Cons] s w by auto
    then show ?thesis
      using Cons s w flushed_step[OF kinvD(2)[OF "1.prems"(1)] Cons ne]
      by (subst ipc_list_resume_all.simps) simp
  qed
qed

lemma flushed_inv:
  assumes "os_inv i w" and "flushed q (krn w) k"
  shows "stat (thr k (current k)) = RT_THREAD_RUNNING" "alive k i" "tick k = tick (krn w)"
    "set (susp k q') \<subseteq> set (susp (krn w) q')"
    "t \<in> set (susp k q') \<Longrightarrow> error (thr k t) = error (thr (krn w) t)"
proof -
  note o = os_invD[OF assms(1)]
  show "stat (thr k (current k)) = RT_THREAD_RUNNING"
    using assms(2) o(2) current_not_waiting[OF assms(1)] by (simp add: flushed_def)
  show "alive k i"
    using assms(2) o(3) by (cases "i \<in> set (susp (krn w) q)") (auto simp: flushed_def alive_def)
  show "tick k = tick (krn w)" "set (susp k q') \<subseteq> set (susp (krn w) q')"
    using assms(2) by (auto simp: flushed_def)
  have w: "q' = q'' \<or> x \<notin> set (susp (krn w) q') \<or> x \<notin> set (susp (krn w) q'')" for x q' q''
    using kinvD(2)[OF o(1)] unfolding wait_inv_def by blast
  show "t \<in> set (susp k q') \<Longrightarrow> error (thr k t) = error (thr (krn w) t)"
    using assms(2) w[of q q' t] by (auto simp: flushed_def split: if_splits)
qed

text \<open>Detaching a semaphore and setting its value wake all its threads.\<close>

lemma sem_detach_inv:
  assumes "os_inv i w"
  shows "\<exists>w'. rt_sem_detach s w = Inr w' \<and> os_inv i w' \<and> flushed (Sem_Q s) (krn w) (krn w') \<and>
    kept (krn w) (krn w')"
proof -
  obtain k where k: "ipc_list_resume_all (Sem_Q s) (krn w) = Inr k" "kinv (tick (krn w)) k"
    "flushed (Sem_Q s) (krn w) k"
    using resume_all_inv[OF os_invD(1,2)[OF assms]] by blast
  have "os_inv i (w\<lparr>krn := k\<rparr>)"
    by (rule os_inv_kernel[OF assms]) (use k(2) flushed_inv[OF assms k(3)] in simp_all)
  then show ?thesis using k kept_flushed[OF kinvD(2)[OF os_invD(1)[OF assms]]] by (simp add: rt_sem_detach_def)
qed

lemma sem_control_inv:
  assumes "os_inv i w" and "v \<le> RT_SEM_VALUE_MAX"
  shows "\<exists>r w'. rt_sem_control s b v w = Inr (r, w') \<and> os_inv i w' \<and> kept (krn w) (krn w')"
proof (cases b)
  case True
  obtain k where k: "ipc_list_resume_all (Sem_Q s) (krn w) = Inr k" "kinv (tick (krn w)) k"
    "flushed (Sem_Q s) (krn w) k"
    using resume_all_inv[OF os_invD(1,2)[OF assms(1)]] by blast
  note f = flushed_inv[OF assms(1) k(3)]
  obtain k' where k': "rt_schedule k = Inr k'" "kinv (tick k) k'" "same_waiting k k'"
    "stat (thr k' (current k')) = RT_THREAD_RUNNING"
    using rt_schedule_inv[OF k(2)] f(1,3) by auto
  note d = same_waitingD[OF k'(3)]
  have i: "os_inv i (w\<lparr>krn := k'\<rparr>)"
    by (rule os_inv_kernel[OF assms(1)]) (use k' d f same_waiting_alive[OF k'(3)] in simp_all)
  have q: "susp k' (Sem_Q s) = []" using k(3) d(1) by (simp add: flushed_def)
  have "sem_inv ((set_sem_value s v w)\<lparr>krn := k'\<rparr>) s'" for s'
    using os_invD(4)[OF i, of s'] q assms(2) by (auto simp: sem_inv_def)
  moreover have "mutex_inv ((set_sem_value s v w)\<lparr>krn := k'\<rparr>) m" for m
    using os_invD(5)[OF i, of m] by (simp add: mutex_inv_def cong: option.case_cong)
  ultimately have "os_inv i ((set_sem_value s v w)\<lparr>krn := k'\<rparr>)"
    using i by (simp add: os_inv_def)
  moreover have "kept (krn w) k'"
    by (rule kept_schedule[OF kept_flushed[OF kinvD(2)[OF os_invD(1)[OF assms(1)]] k(3)] k'(3)])
  ultimately show ?thesis using True k(1) k'(1) assms(2) by (simp add: rt_sem_control_def RT_SEM_VALUE_MAX_def)
qed (use assms in \<open>simp add: rt_sem_control_def\<close>)

section \<open>Mutexes\<close>

lemma upd_mutex_simps [simp]:
  "krn (upd_mutex m f w) = krn w" "sem (upd_mutex m f w) = sem w"
  "mutex (upd_mutex m f w) = (mutex w)(m := f (mutex w m))"
  by (simp_all add: upd_mutex_def)

lemma sem_inv_mutex [simp]: "sem_inv (upd_mutex m f w) s = sem_inv w s"
  unfolding sem_inv_def upd_mutex_simps ..

lemma mutex_inv_same:
  assumes "mutex w' m = mutex w m" and "susp (krn w') (Mutex_Q m) = susp (krn w) (Mutex_Q m)"
  shows "mutex_inv w' m = mutex_inv w m"
  using assms by (simp add: mutex_inv_def cong: option.case_cong)

lemma upd_mutex_krn: "(upd_mutex m f w)\<lparr>krn := krn w\<rparr> = upd_mutex m f w"
  by (cases w) (simp add: upd_mutex_def)

text \<open>A new control block for one mutex, and a kernel whose queues did not grow.\<close>

lemma os_inv_update:
  assumes "os_inv i w" and "kinv (tick k) k" and "stat (thr k (current k)) = RT_THREAD_RUNNING" and "alive k i"
    and "\<And>q. set (susp k q) \<subseteq> set (susp (krn w) q)"
    and "\<And>q t. t \<in> set (susp k q) \<Longrightarrow> error (thr k t) = error (thr (krn w) t)"
    and "mutex_inv ((upd_mutex m f w)\<lparr>krn := k\<rparr>) m"
  shows "os_inv i ((upd_mutex m f w)\<lparr>krn := k\<rparr>)"
proof -
  let ?w = "(upd_mutex m f w)\<lparr>krn := k\<rparr>"
  have o: "sem_inv (w\<lparr>krn := k\<rparr>) s" "mutex_inv (w\<lparr>krn := k\<rparr>) m'" for s m'
    by (rule objects_queue_mono[of _ w]; use assms(5) os_invD(4,5)[OF assms(1)] in simp)+
  have "sem_inv ?w s" for s using o(1)[of s] by (simp add: sem_inv_def)
  moreover have "mutex_inv ?w m'" for m'
    using o(2)[of m'] assms(7) mutex_inv_same[of ?w m' "w\<lparr>krn := k\<rparr>"] by (cases "m' = m") simp_all
  moreover have "error (thr k t) = RT_EOK" if "t \<in> set (susp k q)" for q t
    using assms(5)[of q] assms(6)[OF that] os_invD(6)[OF assms(1), of t q] that by auto
  ultimately show ?thesis using assms(2-4) by (simp add: os_inv_def)
qed

lemma os_inv_error:
  assumes "os_inv i w" and "t = current (krn w)"
  shows "os_inv i (w\<lparr>krn := set_error t e (krn w)\<rparr>)"
proof (rule os_inv_kernel[OF assms(1)])
  show "error (thr (set_error t e (krn w)) x) = error (thr (krn w) x)"
    if "x \<in> set (susp (set_error t e (krn w)) q)" for q x
    using current_not_waiting[OF assms(1), of q] assms(2) that by (auto simp: set_error_def)
qed (use os_invD(1-3)[OF assms(1)] set_error_kernel[OF os_invD(1)[OF assms(1)]] in simp_all)

text \<open>
  A thread that blocks on a mutex lends the owner its priority and joins the queue, which
  is ordered by priority.
\<close>

lemma mutex_block_inv:
  assumes "os_inv i w" and "owner (mutex w m) = Some h" and "h \<noteq> current (krn w)"
    and "current (krn w) \<noteq> i" and "scheduler_available (krn w)" and "timeout < 0x7FFFFFFF"
    and "error (thr (krn w) (current (krn w))) = RT_EOK"
  defines "k1 \<equiv> (if prio (krn w) (current (krn w)) < prio (krn w) h
     then change_priority h (prio (krn w) (current (krn w))) (krn w) else krn w)"
  shows "\<exists>k'. mutex_block m timeout (krn w) (owner (mutex w m)) = Inr (Waiting, k') \<and>
    joined (Mutex_Q m) (prio_insert (prio k1) (current k1) (susp k1 (Mutex_Q m))) k1 k' \<and>
    current k1 = current (krn w) \<and> susp k1 = susp (krn w) \<and>
    prio k' h = min (prio (krn w) h) (prio (krn w) (current (krn w))) \<and> os_inv i (w\<lparr>krn := k'\<rparr>) \<and>
    kept (krn w) k'"
proof -
  let ?k = "krn w"
  let ?t = "current ?k"
  note o = os_invD[OF assms(1)]
  note f = change_priority_fields[OF o(1)]
  have lt: "prio ?k ?t < 32" using kinvD(1)[OF o(1)] by (simp add: ready_inv_def)
  have k1: "kinv (tick k1) k1" using change_priority_inv[OF o(1) lt] o(1) by (simp add: k1_def f)
  have g: "current k1 = ?t" "susp k1 = susp ?k" "stat (thr k1 x) = stat (thr ?k x)" "lock_nest k1 = lock_nest ?k"
    "tick k1 = tick ?k" "prio k1 h = min (prio ?k h) (prio ?k ?t)" "error (thr k1 x) = error (thr ?k x)"
    "thread_timer (thr k1 x) = thread_timer (thr ?k x)" for x
    by (auto simp: k1_def f fun_eq_iff)
  have r: "stat (thr k1 (current k1)) = RT_THREAD_RUNNING" "stat (thr k1 i) = RT_THREAD_READY" "lock_nest k1 = 0"
    using o(2) idle_ready[OF assms(1,4)] assms(5) by (simp_all add: g scheduler_available_def)
  obtain k' where k': "bind_res (ipc_list_suspend (Mutex_Q m) (current k1) RT_IPC_FLAG_PRIO k1)
      (wait_schedule (current k1) timeout) = Inr (Waiting, k')"
    "joined (Mutex_Q m) (prio_insert (prio k1) (current k1) (susp k1 (Mutex_Q m))) k1 k'"
    using block_inv[OF k1 r(1) _ r(2,3) assms(6) refl, of RT_IPC_FLAG_PRIO "Mutex_Q m"] by auto
  have b: "mutex_block m timeout ?k (owner (mutex w m)) = Inr (Waiting, k')"
    using k'(1) assms(2) by (simp add: mutex_block_def Let_def k1_def[symmetric] g(1))
  have q: "susp k' = (susp ?k)(Mutex_Q m := prio_insert (prio k1) ?t (susp ?k (Mutex_Q m)))"
    using k'(2) by (simp add: joined_def g)
  have "sem_inv (w\<lparr>krn := k'\<rparr>) s" for s using o(4)[of s] by (simp add: sem_inv_def q)
  moreover have "mutex_inv (w\<lparr>krn := k'\<rparr>) m'" for m'
    using o(5)[of m'] assms(2,3) by (cases "m' = m") (auto simp: mutex_inv_def q split: option.splits)
  moreover have "alive k' i" using k'(2) o(3) assms(4) by (auto simp: joined_def g alive_def)
  moreover have "error (thr k' x) = RT_EOK" if "x \<in> set (susp k' q)" for q x
    using joined_error[OF k'(2) that] o(6)[of x q] assms(7) by (auto simp: g)
  ultimately have "os_inv i (w\<lparr>krn := k'\<rparr>)" using k'(2) by (auto simp: os_inv_def joined_def simp del: fun_upd_apply)
  moreover have "prio k' h = min (prio ?k h) (prio ?k ?t)" using k'(2) by (simp add: joined_def g)
  moreover have "kept ?k k'" by (rule kept_cong[OF kept_joined[OF k'(2) r(1)]]) (simp_all add: g)
  ultimately show ?thesis using b k'(2) g(1,2) by blast
qed

lemma mutex_take_inv:
  assumes "os_inv i w" and "timeout < 0x7FFFFFFF" and "scheduler_available (krn w)"
    and "current (krn w) \<noteq> i \<or> timeout = 0"
  shows "\<exists>r w'. rt_mutex_take m timeout w = Inr (r, w') \<and> os_inv i w' \<and> kept (krn w) (krn w')"
proof -
  let ?t = "current (krn w)"
  let ?w = "w\<lparr>krn := set_error ?t RT_EOK (krn w)\<rparr>"
  have w1: "os_inv i ?w" by (rule os_inv_error[OF assms(1) refl])
  note k = set_error_kernel[OF os_invD(1)[OF assms(1)]]
  note o = os_invD[OF w1]
  have e: "current (krn ?w) = ?t" "mutex ?w = mutex w" "scheduler_available (krn ?w)"
    using assms(3) by (simp_all add: k scheduler_available_def)
  have upd: "os_inv i (upd_mutex m f ?w)" if "mutex_inv (upd_mutex m f ?w) m" for f
    using os_inv_update[OF w1 o(1,2,3), of m f] that unfolding upd_mutex_krn by simp
  consider (own) "owner (mutex w m) = Some ?t" | (free) "owner (mutex w m) = None"
    | (held) h where "owner (mutex w m) = Some h" "h \<noteq> ?t"
    by (cases "owner (mutex w m)") auto
  then show ?thesis
  proof cases
    case own
    have "os_inv i (upd_mutex m (\<lambda>mu. mu\<lparr>hold := hold mu + 1\<rparr>) ?w)" if "hold (mutex w m) < RT_MUTEX_HOLD_MAX"
      by (rule upd) (use o(5)[of m] own that in \<open>simp add: mutex_inv_def\<close>)
    then show ?thesis using own w1 assms(3) e by (simp add: rt_mutex_take_def Let_def kept_set_error)
  next
    case free
    have p: "prio (krn ?w) ?t < 32" using kinvD(1)[OF o(1)] by (simp add: ready_inv_def)
    have v: "mutex_value (mutex w m) = 1" "hold (mutex w m) = 0" "susp (krn w) (Mutex_Q m) = []"
      using os_invD(5)[OF assms(1), of m] free by (simp_all add: mutex_inv_def)
    let ?f = "\<lambda>mu. mu\<lparr>mutex_value := mutex_value mu - 1, owner := Some ?t, original_priority := prio (krn ?w) ?t,
      hold := hold mu + 1\<rparr>"
    have "os_inv i (upd_mutex m ?f ?w)"
      by (rule upd) (use v p in \<open>simp add: mutex_inv_def k RT_MUTEX_HOLD_MAX_def\<close>)
    then show ?thesis
      using free v assms(3) e
      by (simp add: rt_mutex_take_def Let_def RT_MUTEX_HOLD_MAX_def upd_mutex_def kept_set_error)
  next
    case held
    have v: "mutex_value (mutex w m) = 0" using os_invD(5)[OF assms(1), of m] held by (simp add: mutex_inv_def)
    show ?thesis
    proof (cases "timeout = 0")
      case True
      then show ?thesis
        using held v assms(3) e os_inv_error[OF w1, of ?t "- RT_ETIMEOUT"]
        by (simp add: rt_mutex_take_def Let_def kept_error[OF kept_set_error])
    next
      case False
      then have "?t \<noteq> i" using assms(4) by simp
      then obtain k' where "mutex_block m timeout (krn ?w) (owner (mutex ?w m)) = Inr (Waiting, k')"
        "os_inv i (?w\<lparr>krn := k'\<rparr>)" "kept (krn ?w) k'"
        using mutex_block_inv[OF w1, of m h timeout] held assms(2) e by (auto simp: set_error_def)
      then show ?thesis using held v False assms(3) e by (simp add: rt_mutex_take_def Let_def kept_error)
    qed
  qed
qed

text \<open>
  The last release: the thread is back at its original priority and the first waiting
  thread, if there is one, is the new owner and awake.
\<close>

lemma mutex_release_last:
  assumes "os_inv i w" and "owner (mutex w m) = Some (current (krn w))" and "hold (mutex w m) = 1"
    and "irq_nest (krn w) = 0"
  shows "\<exists>w'. rt_mutex_release m w = Inr (RT_EOK, w') \<and> os_inv i w' \<and> kept (krn w) (krn w') \<and>
    prio (krn w') (current (krn w)) = original_priority (mutex w m) \<and>
    (case susp (krn w) (Mutex_Q m) of
       [] \<Rightarrow> owner (mutex w' m) = None \<and> susp (krn w') = susp (krn w)
     | h # hs \<Rightarrow> owner (mutex w' m) = Some h \<and> hold (mutex w' m) = 1 \<and> alive (krn w') h \<and>
         susp (krn w') (Mutex_Q m) = hs)"
proof -
  let ?t = "current (krn w)"
  let ?mu = "mutex w m"
  note o = os_invD[OF assms(1)]
  have mi: "mutex_value ?mu = 0" "original_priority ?mu < 32" "?t \<notin> set (susp (krn w) (Mutex_Q m))"
    using o(5)[of m] assms(2) by (simp_all add: mutex_inv_def)
  define k1 where "k1 = (if original_priority ?mu \<noteq> prio (krn w) ?t
    then change_priority ?t (original_priority ?mu) (krn w) else krn w)"
  note f = change_priority_fields[OF o(1)]
  have k1: "kinv (tick k1) k1" "stat (thr k1 (current k1)) = RT_THREAD_RUNNING" "alive k1 i" "susp k1 = susp (krn w)"
    "prio k1 ?t = original_priority ?mu" "tick k1 = tick (krn w)" "error (thr k1 x) = error (thr (krn w) x)"
    "stat (thr k1 x) = stat (thr (krn w) x)" "thread_timer (thr k1 x) = thread_timer (thr (krn w) x)" for x
    using change_priority_inv[OF o(1) mi(2), of ?t] o(1-3) by (auto simp: k1_def f alive_def fun_eq_iff)
  let ?w1 = "upd_mutex m (\<lambda>mu. mu\<lparr>hold := 0\<rparr>) w"
  have rel: "rt_mutex_release m w = mutex_hand_over m (?w1\<lparr>krn := k1\<rparr>)"
    using assms(2-4) unfolding k1_def
    by (auto simp: rt_mutex_release_def Let_def upd_mutex_def)
  show ?thesis
  proof (cases "susp (krn w) (Mutex_Q m)")
    case Nil
    let ?f = "\<lambda>mu. mu\<lparr>hold := 0, mutex_value := mutex_value mu + 1, owner := None, original_priority := 0xFF\<rparr>"
    let ?w' = "(upd_mutex m ?f w)\<lparr>krn := k1\<rparr>"
    have "mutex_hand_over m (?w1\<lparr>krn := k1\<rparr>) = Inr (RT_EOK, ?w')"
      using Nil mi(1) by (simp add: mutex_hand_over_def k1(4) RT_MUTEX_VALUE_MAX_def upd_mutex_def)
    moreover have "os_inv i ?w'"
      using assms(1) k1(1-3) by (rule os_inv_update) (use Nil mi k1(4,7) in \<open>simp_all add: mutex_inv_def\<close>)
    moreover have "kept (krn w) k1" by (rule kept_same) (simp_all add: k1)
    ultimately show ?thesis using Nil k1(4,5) rel by simp
  next
    case (Cons h hs)
    obtain k' where k': "bind_res (ipc_list_resume (Mutex_Q m) k1) rt_schedule = Inr k'" "kinv (tick k1) k'"
      "woken h k1 k'" "stat (thr k' (current k')) = RT_THREAD_RUNNING"
      using resume_first_inv[OF k1(1,2), of "Mutex_Q m" h hs] Cons k1(4) by auto
    let ?f = "\<lambda>mu. mu\<lparr>hold := 1, owner := Some h, original_priority := prio k1 h\<rparr>"
    let ?w' = "(upd_mutex m ?f w)\<lparr>krn := k'\<rparr>"
    have d: "h \<notin> set hs" using kinvD(2)[OF o(1)] Cons by (metis distinct.simps(2) wait_inv_def)
    have q: "susp k' (Mutex_Q m) = hs" using k'(3) Cons d by (simp add: woken_def k1(4) removeAll_id)
    have p: "prio k1 h < 32" using kinvD(1)[OF k1(1)] by (simp add: ready_inv_def)
    have "mutex_hand_over m (?w1\<lparr>krn := k1\<rparr>) = Inr (RT_EOK, ?w')"
      using Cons k'(1)
      by (cases "mutex w m") (simp add: mutex_hand_over_def k1(4) RT_MUTEX_HOLD_MAX_def upd_mutex_def Let_def
          bind_res_assoc[symmetric])
    moreover have "os_inv i ?w'"
    proof (rule os_inv_update[OF assms(1)])
      show "kinv (tick k') k'" using k'(2,3) by (simp add: woken_def)
      show "alive k' i" using k'(3) k1(3) by (cases "i = h") (auto simp: woken_def)
      show "set (susp k' q) \<subseteq> set (susp (krn w) q)" for q using woken_queues[OF k'(3)] k1(4) by simp
      show "error (thr k' x) = error (thr (krn w) x)" for x using k'(3) k1(7) by (simp add: woken_def)
      show "mutex_inv ?w' m" using mi q p d by (simp add: mutex_inv_def RT_MUTEX_HOLD_MAX_def)
    qed (rule k'(4))
    moreover have "prio k' ?t = original_priority ?mu" "alive k' h" using k'(3) k1(5) by (simp_all add: woken_def)
    moreover have "kept (krn w) k'"
      by (rule kept_cong[OF kept_woken[OF k'(3), of "Mutex_Q m"]]) (simp_all add: k1 Cons)
    ultimately show ?thesis using Cons q rel by simp
  qed
qed

lemma mutex_release_inv:
  assumes "os_inv i w" and "irq_nest (krn w) = 0"
  shows "\<exists>r w'. rt_mutex_release m w = Inr (r, w') \<and> os_inv i w' \<and> kept (krn w) (krn w')"
proof -
  let ?t = "current (krn w)"
  note o = os_invD[OF assms(1)]
  consider (other) "owner (mutex w m) \<noteq> Some ?t" | (last) "owner (mutex w m) = Some ?t" "hold (mutex w m) = 1"
    | (nested) "owner (mutex w m) = Some ?t" "hold (mutex w m) \<noteq> 1" by blast
  then show ?thesis
  proof cases
    case other
    then show ?thesis using assms os_inv_error[OF assms(1) refl] by (simp add: rt_mutex_release_def kept_set_error)
  next
    case last
    then show ?thesis using mutex_release_last[OF assms(1) _ _ assms(2)] by blast
  next
    case nested
    then have h: "2 \<le> hold (mutex w m)" "hold (mutex w m) \<le> 255" using o(5)[of m]
      by (auto simp: mutex_inv_def RT_MUTEX_HOLD_MAX_def)
    then have d: "(hold (mutex w m) + 255) mod 256 = hold (mutex w m) - 1"
      using mod_add_self2[of "hold (mutex w m) - 1" 256] by (simp add: add.commute)
    have "os_inv i ((upd_mutex m (\<lambda>mu. mu\<lparr>hold := (hold mu + 255) mod 256\<rparr>) w)\<lparr>krn := krn w\<rparr>)"
      using assms(1) o(1-3) by (rule os_inv_update) (use o(5)[of m] nested h d in \<open>auto simp: mutex_inv_def RT_MUTEX_HOLD_MAX_def\<close>)
    then show ?thesis using nested h d assms(2) unfolding upd_mutex_krn by (simp add: rt_mutex_release_def Let_def)
  qed
qed

section \<open>Other calls\<close>

lemma os_tick_inv:
  assumes "os_inv i w"
  shows "\<exists>k. rt_tick_increase (krn w) = Inr k \<and> os_inv i (w\<lparr>krn := k\<rparr>) \<and>
    fired (tick (krn w)) ((krn w)\<lparr>tick := tick (krn w) + 1\<rparr>) k"
proof -
  note o = os_invD[OF assms]
  obtain k where k: "rt_tick_increase (krn w) = Inr k" "kinv (tick k) k"
    "fired (tick (krn w)) ((krn w)\<lparr>tick := tick (krn w) + 1\<rparr>) k" "stat (thr k (current k)) = RT_THREAD_RUNNING"
    using tick_inv[OF o(1,2)] by blast
  have "alive k i" using k(3) o(3) by (auto simp: fired_def alive_def)
  moreover have "set (susp k q) \<subseteq> set (susp (krn w) q)" for q using k(3) by (auto simp: fired_def)
  moreover have "error (thr k t) = error (thr (krn w) t)" if "t \<in> set (susp k q)" for t q
    using k(3) that by (auto simp: fired_def)
  ultimately show ?thesis using os_inv_kernel[OF assms k(2,4)] k(1,3) by blast
qed

lemma os_schedule_inv:
  assumes "os_inv i w" and "kinv (tick k) k" and "stat (thr k (current k)) = RT_THREAD_RUNNING"
    and "alive k i" and "\<And>q. set (susp k q) \<subseteq> set (susp (krn w) q)"
    and "\<And>q t. t \<in> set (susp k q) \<Longrightarrow> error (thr k t) = error (thr (krn w) t)"
  shows "\<exists>k'. rt_schedule k = Inr k' \<and> os_inv i (w\<lparr>krn := k'\<rparr>) \<and> same_waiting k k'"
proof -
  obtain k' where k': "rt_schedule k = Inr k'" "kinv (tick k) k'" "same_waiting k k'"
    "stat (thr k' (current k')) = RT_THREAD_RUNNING"
    using rt_schedule_inv[OF assms(2)] assms(3) by blast
  then show ?thesis
    using os_inv_kernel[OF assms(1), of k'] assms(4-6) same_waitingD[OF k'(3)] same_waiting_alive[OF k'(3)] by auto
qed

lemma os_yield_inv:
  assumes "os_inv i w"
  shows "\<exists>k. rt_thread_yield (krn w) = Inr k \<and> os_inv i (w\<lparr>krn := k\<rparr>) \<and> kept (krn w) k"
proof -
  note o = os_invD[OF assms]
  let ?k = "upd (current (krn w)) (\<lambda>th. th\<lparr>remaining_tick := slice_tick th, yielded := True\<rparr>) (krn w)"
  have f: "tick ?k = tick (krn w)" "susp ?k = susp (krn w)" "error (thr ?k x) = error (thr (krn w) x)"
    "stat (thr ?k x) = stat (thr (krn w) x)" "current ?k = current (krn w)"
    "thread_timer (thr ?k x) = thread_timer (thr (krn w) x)" for x by simp_all
  have "kinv (tick (krn w)) ?k" using o(1) by (rule kinv_upd) simp_all
  then have "\<exists>k'. rt_schedule ?k = Inr k' \<and> os_inv i (w\<lparr>krn := k'\<rparr>) \<and> same_waiting ?k k'"
    by (intro os_schedule_inv[OF assms]) (use o(2,3) in \<open>simp_all only: f alive_def subset_refl\<close>)
  moreover have "kept (krn w) ?k" by (rule kept_same) (simp_all only: f)
  ultimately show ?thesis using kept_schedule by (auto simp only: rt_thread_yield_def)
qed

lemma os_sleep_inv:
  assumes "os_inv i w" and "current (krn w) \<noteq> i" and "lock_nest (krn w) = 0" and "n < TICK_HALF"
  shows "\<exists>k. rt_thread_sleep n (krn w) = Inr k \<and> os_inv i (w\<lparr>krn := k\<rparr>) \<and> kept (krn w) k \<and>
    stat (thr k (current (krn w))) = RT_THREAD_SUSPEND \<and> activated (thread_timer (thr k (current (krn w)))) \<and>
    remaining (tick k) k (current (krn w)) = unat n \<and> (\<forall>q. current (krn w) \<notin> set (susp k q)) \<and>
    lock_nest k = lock_nest (krn w) \<and> irq_nest k = irq_nest (krn w)"
proof -
  note o = os_invD[OF assms(1)]
  note e = set_error_kernel[OF o(1), of "current (krn w)" RT_EOK]
  let ?k = "set_error (current (krn w)) RT_EOK (krn w)"
  obtain k where k: "sleep_ticks n ?k = Inr k" "kinv (tick k) k" "stat (thr k (current k)) = RT_THREAD_RUNNING"
    "\<forall>q. susp k q = susp ?k q" "\<forall>t. t \<noteq> current ?k \<longrightarrow> alive k t = alive ?k t"
    "\<forall>t. error (thr k t) = error (thr ?k t)"
    "\<forall>t. t \<noteq> current ?k \<longrightarrow> thread_timer (thr k t) = thread_timer (thr ?k t) \<and>
       (stat (thr k t) = RT_THREAD_SUSPEND \<longleftrightarrow> stat (thr ?k t) = RT_THREAD_SUSPEND)"
    "tick k = tick ?k" "stat (thr k (current ?k)) = RT_THREAD_SUSPEND"
    "activated (thread_timer (thr k (current ?k)))" "remaining (tick k) k (current ?k) = unat n"
    "lock_nest k = lock_nest ?k" "irq_nest k = irq_nest ?k"
    using sleep_inv[of ?k i n] e o(2) idle_ready[OF assms(1,2)] assms(3,4) by auto
  moreover have "error (thr k t) = error (thr (krn w) t)" if "t \<in> set (susp k q)" for t q
    using k(4,6) that current_not_waiting[OF assms(1), of q] e(5) by (auto simp: set_error_def)
  ultimately have "os_inv i (w\<lparr>krn := k\<rparr>)"
    using os_inv_kernel[OF assms(1) k(2,3)] o(3) assms(2) e by auto
  moreover have "t \<noteq> current ?k" if "stat (thr ?k t) = RT_THREAD_SUSPEND" for t using that o(2) e by auto
  then have "kept (krn w) k" using k by (intro kept_error[OF kept_same]) auto
  ultimately show ?thesis
    using k e current_not_waiting[OF assms(1)] by (simp add: rt_thread_sleep_def)
qed

end
