(* ===== verification/Kernel.thy ===== *)
theory Kernel
  imports Ipc_Inv
begin

text \<open>
  The kernel as a whole: the start of the system (\<^verbatim>\<open>components.c\<close>, \<^verbatim>\<open>idle.c\<close>), the calls that
  threads make and the clock, in any order. From the start on, calls that respect the
  documented conditions never fail an assertion, never leave the processor without a
  thread, and keep semaphores and mutexes consistent.
\<close>

section \<open>Starting threads\<close>

text \<open>\<^verbatim>\<open>rt_thread_create\<close> or \<^verbatim>\<open>rt_thread_init\<close>, and \<^verbatim>\<open>rt_thread_startup\<close>.\<close>

definition thread_start :: "bool \<Rightarrow> nat \<Rightarrow> nat \<Rightarrow> u32 \<Rightarrow> kernel \<Rightarrow> kernel res" where
  "thread_start started t priority ticks k =
     bind_res (thread_init t priority ticks k) (rt_thread_startup started t)"

definition fresh :: "kernel \<Rightarrow> nat \<Rightarrow> bool" where
  "fresh k t \<longleftrightarrow> t \<noteq> current k \<and> (stat (thr k t) = RT_THREAD_INIT \<or> stat (thr k t) = RT_THREAD_CLOSE)"

text \<open>What the start of \<open>t\<close> at priority \<open>p\<close> changes.\<close>

definition started_thread :: "nat \<Rightarrow> nat \<Rightarrow> kernel \<Rightarrow> kernel \<Rightarrow> bool" where
  "started_thread t p k k' \<longleftrightarrow> stat (thr k' t) = RT_THREAD_READY \<and> prio k' t = p \<and>
     (\<forall>x. x \<noteq> t \<longrightarrow> thr k' x = thr k x) \<and> susp k' = susp k \<and> current k' = current k \<and> tick k' = tick k \<and>
     lock_nest k' = lock_nest k \<and> irq_nest k' = irq_nest k"

lemma thread_start_inv:
  assumes "kinv now k" and "fresh k t" and "p < 32"
  shows "\<exists>k'. thread_start False t p n k = Inr k' \<and> kinv now k' \<and> started_thread t p k k'"
proof -
  define th where "th = \<lparr>stat = RT_THREAD_SUSPEND, yielded = False, current_priority = p,
    number_mask = push_bit p 1, error = RT_EOK, slice_tick = n, remaining_tick = n,
    thread_timer = \<lparr>init_tick = 0, timeout_tick = 0, activated = False\<rparr>\<rparr>"
  let ?k = "k\<lparr>thr := (thr k)(t := th)\<rparr>"
  note i = kinvD[OF assms(1)]
  have ne: "t \<noteq> current k" and st: "stat (thr k t) \<notin> {RT_THREAD_READY, RT_THREAD_SUSPEND, RT_THREAD_RUNNING}"
    using assms(2) by (auto simp: fresh_def)
  have f: "stat th = RT_THREAD_SUSPEND" "current_priority th = p" "number_mask th = push_bit p 1"
    "\<not> activated (thread_timer th)" by (simp_all add: th_def)
  have nt: "t \<notin> set (timer_list k)" using i(3) st by (auto simp: timer_inv_def)
  have nw: "t \<notin> set (susp k q)" for q using i(2) st by (auto simp: wait_inv_def)
  have "ready_inv ?k" using i(1) st assms(3) by (auto simp: ready_inv_def f)
  moreover have "wait_inv ?k" using i(2) st by (auto simp: wait_inv_def f)
  moreover have e: "map (remaining now ?k) (timer_list k) = map (remaining now k) (timer_list k)"
    using nt by (auto simp: remaining_def)
  have "timer_inv now ?k" using i(3) nt unfolding timer_inv_def by (auto simp: f e) (auto simp: remaining_def)
  moreover have "running_inv ?k" using i(4) ne st by (auto simp: running_inv_def f)
  ultimately have ik: "kinv now ?k" by (simp add: kinv_def)
  have "thread_start False t p n k = Inr (snd (rt_thread_resume t ?k))"
    using assms(3) by (simp add: thread_start_def thread_init_def rt_thread_startup_def Let_def upd_def th_def
        RT_THREAD_PRIORITY_MAX_def)
  also have "rt_thread_resume t ?k = (RT_EOK, wake t ?k)"
    by (rule resume_wake[OF kinvD(3)[OF ik]]) (simp add: f)
  finally have e: "thread_start False t p n k = Inr (wake t ?k)" by simp
  moreover have "kinv now (wake t ?k)" by (rule wake_inv[OF ik]) (simp add: f)
  moreover have "started_thread t p k (wake t ?k)"
    using ne nw by (simp add: started_thread_def wake_fields f fun_eq_iff removeAll_id)
  ultimately show ?thesis by blast
qed

lemma thread_start_running:
  "thread_start True t p n k = bind_res (thread_start False t p n k) rt_schedule"
  by (auto simp: thread_start_def thread_init_def rt_thread_startup_def Let_def)

section \<open>The start of the system\<close>

text \<open>
  The state at reset: no thread is initialised and the boot code \<open>c\<close> runs, which is not a
  thread (\<^verbatim>\<open>rt_current_thread\<close> is null).
\<close>

definition reset_kernel :: "nat \<Rightarrow> kernel" where
  "reset_kernel c =
     \<lparr>thr = \<lambda>t. \<lparr>stat = if t = c then RT_THREAD_CLOSE else RT_THREAD_INIT, yielded = False,
                current_priority = 0, number_mask = 1, error = RT_EOK, slice_tick = 0, remaining_tick = 0,
                thread_timer = \<lparr>init_tick = 0, timeout_tick = 0, activated = False\<rparr>\<rparr>,
      ready = \<lambda>_. [], ready_group = 0, susp = \<lambda>_. [], current = c, rt_current_priority = 0,
      lock_nest = 0, irq_nest = 0, tick = 0, timer_list = []\<rparr>"

text \<open>The main thread, the thread of the soft timers and the idle thread are started.\<close>

definition rtthread_startup :: "nat \<Rightarrow> nat \<Rightarrow> nat \<Rightarrow> kernel \<Rightarrow> kernel res" where
  "rtthread_startup main timer idle k =
     bind_res (thread_start False main 10 20 (rt_system_scheduler_init k)) (\<lambda>k1.
     bind_res (thread_start False timer 4 10 k1) (\<lambda>k2.
     bind_res (thread_start False idle (RT_THREAD_PRIORITY_MAX - 1) 32 k2)
       rt_system_scheduler_start))"

definition os_start :: "kernel \<Rightarrow> os" where
  "os_start k = \<lparr>krn = k, sem = \<lambda>_. \<lparr>sem_value = 0, sem_flag = RT_IPC_FLAG_FIFO\<rparr>,
     mutex = \<lambda>_. \<lparr>mutex_value = 1, original_priority = 0xFF, hold = 0, owner = None\<rparr>\<rparr>"

lemma scheduler_start_inv:
  assumes "kinv now k" and "stat (thr k (current k)) = RT_THREAD_CLOSE" and "stat (thr k x) = RT_THREAD_READY"
  shows "\<exists>k'. rt_system_scheduler_start k = Inr k' \<and> kinv now k' \<and> susp k' = susp k \<and> tick k' = tick k \<and>
    lock_nest k' = lock_nest k \<and> irq_nest k' = irq_nest k \<and>
    stat (thr k' (current k')) = RT_THREAD_RUNNING \<and> (\<forall>t. alive k' t = alive k t) \<and>
    (\<forall>t. prio k' t = prio k t) \<and> (\<forall>t. stat (thr k t) = RT_THREAD_READY \<longrightarrow> prio k' (current k') \<le> prio k' t)"
proof -
  note i = kinvD[OF assms(1)]
  obtain t p where t: "scheduler_get_highest_priority_thread k = Inr (t, p)" "stat (thr k t) = RT_THREAD_READY"
    "prio k t = p" "\<And>x. stat (thr k x) = RT_THREAD_READY \<Longrightarrow> p \<le> prio k x"
    using highest_ready[OF i(1) ready_group_nonzero[OF i(1) assms(3)]] by metis
  let ?k1 = "upd t (\<lambda>th. th\<lparr>yielded := False\<rparr>) k"
  let ?s = "switch_to t (rt_current_priority k) False ?k1"
  have "thr k t\<lparr>stat := s, yielded := y\<rparr> = thr k t\<lparr>yielded := y, stat := s\<rparr>" for s y
    by (cases "thr k t") simp
  then have "rt_system_scheduler_start k = Inr ?s"
    using t(1) by (cases k) (simp add: rt_system_scheduler_start_def switch_to_def set_stat_def upd_def
        rt_schedule_remove_thread_def list_remove_def Let_def)
  moreover have "kinv now ?k1" using assms(1) by (rule kinv_upd) simp_all
  from switch_to_inv[OF this, of t False _ "rt_current_priority k"] t(2) assms(2)
  have s: "kinv now ?s" "same_waiting ?k1 ?s" "current ?s = t" "stat (thr ?s t) = RT_THREAD_RUNNING" by auto
  have "alive ?s x = alive k x" "prio ?s x = prio k x" for x
    using same_waiting_alive[OF s(2), of x] same_waitingD(6)[OF s(2), of x] by (auto simp: alive_def)
  ultimately show ?thesis using s t(3,4) same_waitingD(1,2,4,5)[OF s(2)] by auto
qed

lemma reset_kernel_inv:
  "kinv 0 (rt_system_scheduler_init (reset_kernel c))"
  by (auto simp: kinv_def inv_simps rt_system_scheduler_init_def reset_kernel_def)

lemma os_start_inv:
  assumes "kinv (tick k) k" and "stat (thr k (current k)) = RT_THREAD_RUNNING" and "alive k i" and "susp k = (\<lambda>_. [])"
  shows "os_inv i (os_start k)"
  using assms by (simp add: os_inv_def os_start_def sem_inv_def mutex_inv_def)

lemma startup_inv:
  assumes "distinct [c, main, timer, idle]"
  shows "\<exists>k. rtthread_startup main timer idle (reset_kernel c) = Inr k \<and> os_inv idle (os_start k) \<and>
    current k = timer \<and> lock_nest k = 0 \<and> irq_nest k = 0 \<and> susp k = (\<lambda>_. []) \<and>
    alive k main \<and> prio k main = 10 \<and> prio k timer = 4"
proof -
  let ?k0 = "rt_system_scheduler_init (reset_kernel c)"
  have z: "stat (thr ?k0 t) = (if t = c then RT_THREAD_CLOSE else RT_THREAD_INIT)" "current ?k0 = c"
    "susp ?k0 = (\<lambda>_. [])" "tick ?k0 = 0" "lock_nest ?k0 = 0" "irq_nest ?k0 = 0" for t
    by (simp_all add: rt_system_scheduler_init_def reset_kernel_def)
  obtain k1 where k1: "thread_start False main 10 20 ?k0 = Inr k1" "kinv 0 k1" "started_thread main 10 ?k0 k1"
    using thread_start_inv[OF reset_kernel_inv, of c main 10 20] assms by (auto simp: fresh_def z)
  obtain k2 where k2: "thread_start False timer 4 10 k1 = Inr k2" "kinv 0 k2" "started_thread timer 4 k1 k2"
    using thread_start_inv[OF k1(2), of timer 4 10] assms k1(3) by (auto simp: fresh_def started_thread_def z)
  obtain k3 where k3: "thread_start False idle 31 32 k2 = Inr k3" "kinv 0 k3" "started_thread idle 31 k2 k3"
    using thread_start_inv[OF k2(2), of idle 31 32] assms k1(3) k2(3) by (auto simp: fresh_def started_thread_def z)
  have s: "stat (thr k3 x) = (if x \<in> {main, timer, idle} then RT_THREAD_READY
      else if x = c then RT_THREAD_CLOSE else RT_THREAD_INIT)" for x
    using k1(3) k2(3) k3(3) assms z(1)[of x]
    by (cases "x = idle"; cases "x = timer"; cases "x = main") (simp_all add: started_thread_def)
  have p: "prio k3 timer = 4" "prio k3 main = 10" "prio k3 idle = 31"
    using k1(3) k2(3) k3(3) assms by (simp_all add: started_thread_def)
  have f: "current k3 = c" "susp k3 = (\<lambda>_. [])" "tick k3 = 0" "lock_nest k3 = 0" "irq_nest k3 = 0"
    using k1(3) k2(3) k3(3) by (simp_all add: started_thread_def z)
  have cl: "stat (thr k3 (current k3)) = RT_THREAD_CLOSE" using assms by (simp add: s f)
  have ri: "stat (thr k3 idle) = RT_THREAD_READY" "stat (thr k3 timer) = RT_THREAD_READY" by (simp_all add: s)
  obtain k where k: "rt_system_scheduler_start k3 = Inr k" "kinv 0 k" "susp k = susp k3" "tick k = tick k3"
    "lock_nest k = lock_nest k3" "irq_nest k = irq_nest k3"
    "stat (thr k (current k)) = RT_THREAD_RUNNING" "\<forall>t. alive k t = alive k3 t" "\<forall>t. prio k t = prio k3 t"
    "\<forall>t. stat (thr k3 t) = RT_THREAD_READY \<longrightarrow> prio k (current k) \<le> prio k t"
    using scheduler_start_inv[OF k3(2) cl ri(1)] by blast
  have "alive k3 (current k)" using k(7,8) by (metis alive_def insertCI)
  then have "current k \<in> {main, timer, idle}" using s[of "current k"] by (auto simp: alive_def split: if_splits)
  moreover have "prio k3 (current k) \<le> 4" using k(9,10) ri(2) p(1) by metis
  ultimately have "current k = timer" using p by auto
  moreover have "os_inv idle (os_start k)"
    by (rule os_start_inv) (use k f ri in \<open>simp_all add: alive_def\<close>)
  moreover have "rtthread_startup main timer idle (reset_kernel c) = Inr k"
    using k1(1) k2(1) k3(1) k(1) by (simp add: rtthread_startup_def RT_THREAD_PRIORITY_MAX_def)
  moreover have "alive k main" using k(8) s[of main] by (simp add: alive_def)
  ultimately show ?thesis using k(3,5,6,9) f p by auto
qed

section \<open>The calls of the threads\<close>

datatype call =
    Sem_Init nat nat nat | Sem_Take nat int | Sem_Release nat | Sem_Reset nat nat | Sem_Detach nat
  | Mutex_Init nat | Mutex_Take nat int | Mutex_Release nat
  | Yield | Sleep u32 | Start nat nat u32 | Exit | Enter_Critical | Exit_Critical | Tick

definition in_kernel :: "(kernel \<Rightarrow> kernel res) \<Rightarrow> os \<Rightarrow> os res" where
  "in_kernel f w = bind_res (f (krn w)) (\<lambda>k. Inr (w\<lparr>krn := k\<rparr>))"

fun do_call :: "call \<Rightarrow> os \<Rightarrow> os res" where
  "do_call (Sem_Init s v flag) w = rt_sem_init s v flag w"
| "do_call (Sem_Take s timeout) w = bind_res (rt_sem_take s timeout w) (\<lambda>(_, w'). Inr w')"
| "do_call (Sem_Release s) w = bind_res (rt_sem_release s w) (\<lambda>(_, w'). Inr w')"
| "do_call (Sem_Reset s v) w = bind_res (rt_sem_control s True v w) (\<lambda>(_, w'). Inr w')"
| "do_call (Sem_Detach s) w = rt_sem_detach s w"
| "do_call (Mutex_Init m) w = Inr (rt_mutex_init m w)"
| "do_call (Mutex_Take m timeout) w = bind_res (rt_mutex_take m timeout w) (\<lambda>(_, w'). Inr w')"
| "do_call (Mutex_Release m) w = bind_res (rt_mutex_release m w) (\<lambda>(_, w'). Inr w')"
| "do_call Yield w = in_kernel rt_thread_yield w"
| "do_call (Sleep n) w = in_kernel (rt_thread_sleep n) w"
| "do_call (Start t p n) w = in_kernel (thread_start True t p n) w"
| "do_call Exit w = in_kernel thread_exit w"
| "do_call Enter_Critical w = in_kernel (\<lambda>k. Inr (rt_enter_critical k)) w"
| "do_call Exit_Critical w = in_kernel rt_exit_critical w"
| "do_call Tick w = in_kernel rt_tick_increase w"

text \<open>
  The conditions under which the functions are documented to be called: a call that may block
  is made by a thread other than the idle thread \<open>i\<close> with the scheduler unlocked and with a
  time-out below half the range of the clock; an object is initialised when nobody waits for it.
\<close>

definition may_block :: "nat \<Rightarrow> os \<Rightarrow> bool" where
  "may_block i w \<longleftrightarrow> scheduler_available (krn w) \<and> current (krn w) \<noteq> i"

fun allowed :: "nat \<Rightarrow> os \<Rightarrow> call \<Rightarrow> bool" where
  "allowed i w (Sem_Init s v flag) \<longleftrightarrow> susp (krn w) (Sem_Q s) = [] \<and> v \<le> RT_SEM_VALUE_MAX \<and>
     (flag = RT_IPC_FLAG_FIFO \<or> flag = RT_IPC_FLAG_PRIO)"
| "allowed i w (Sem_Take s timeout) \<longleftrightarrow> timeout < 0x7FFFFFFF \<and> (may_block i w \<or> timeout = 0)"
| "allowed i w (Sem_Reset s v) \<longleftrightarrow> v \<le> RT_SEM_VALUE_MAX"
| "allowed i w (Mutex_Init m) \<longleftrightarrow> susp (krn w) (Mutex_Q m) = []"
| "allowed i w (Mutex_Take m timeout) \<longleftrightarrow> scheduler_available (krn w) \<and> timeout < 0x7FFFFFFF \<and>
     (current (krn w) \<noteq> i \<or> timeout = 0)"
| "allowed i w (Mutex_Release m) \<longleftrightarrow> irq_nest (krn w) = 0"
| "allowed i w (Sleep n) \<longleftrightarrow> may_block i w \<and> n < TICK_HALF"
| "allowed i w (Start t p n) \<longleftrightarrow> fresh (krn w) t \<and> p < RT_THREAD_PRIORITY_MAX"
| "allowed i w Exit \<longleftrightarrow> may_block i w"
| "allowed i w _ \<longleftrightarrow> True"

inductive os_step :: "nat \<Rightarrow> os \<Rightarrow> os \<Rightarrow> bool" for i where
  os_call: "allowed i w c \<Longrightarrow> do_call c w = Inr w' \<Longrightarrow> os_step i w w'"

inductive_cases os_stepE: "os_step i w w'"

text \<open>The states that the threads and the clock can reach after the start of the system.\<close>

inductive os_reach :: "nat \<Rightarrow> os \<Rightarrow> bool" for i where
  os_booted: "distinct [c, main, timer, i] \<Longrightarrow> rtthread_startup main timer i (reset_kernel c) = Inr k \<Longrightarrow>
     os_reach i (os_start k)"
| os_next: "os_reach i w \<Longrightarrow> os_step i w w' \<Longrightarrow> os_reach i w'"

section \<open>Every call keeps the invariant\<close>

lemma started_kept:
  assumes "started_thread t p k k'" and "fresh k t"
  shows "kept k k'"
proof -
  have "x \<noteq> t" if "stat (thr k x) = RT_THREAD_SUSPEND" for x using that assms(2) by (auto simp: fresh_def)
  then show ?thesis using assms(1) by (intro kept_same) (simp_all add: started_thread_def)
qed

lemma os_start_thread_inv:
  assumes "os_inv i w" and "fresh (krn w) t" and "p < 32"
  shows "\<exists>k. thread_start True t p n (krn w) = Inr k \<and> os_inv i (w\<lparr>krn := k\<rparr>) \<and> kept (krn w) k"
proof -
  note o = os_invD[OF assms(1)]
  obtain k where k: "thread_start False t p n (krn w) = Inr k" "kinv (tick (krn w)) k" "started_thread t p (krn w) k"
    using thread_start_inv[OF o(1) assms(2,3)] by blast
  have d: "tick k = tick (krn w)" "susp k = susp (krn w)" "stat (thr k (current k)) = RT_THREAD_RUNNING" "alive k i"
    using k(3) o(2,3) assms(2) by (auto simp: started_thread_def fresh_def alive_def)
  have nw: "t \<notin> set (susp (krn w) q)" for q
    using kinvD(2)[OF o(1)] assms(2) by (auto simp: wait_inv_def fresh_def)
  have "error (thr k x) = error (thr (krn w) x)" if "x \<in> set (susp k q)" for x q
    using k(3) that nw[of q] by (cases "x = t") (auto simp: started_thread_def)
  then obtain k' where "rt_schedule k = Inr k'" "os_inv i (w\<lparr>krn := k'\<rparr>)" "same_waiting k k'"
    using os_schedule_inv[OF assms(1), of k] k(2) d by auto
  then show ?thesis
    using k(1) kept_schedule[OF started_kept[OF k(3) assms(2)]] by (auto simp: thread_start_running)
qed

lemma os_exit_inv:
  assumes "os_inv i w" and "current (krn w) \<noteq> i" and "lock_nest (krn w) = 0"
  shows "\<exists>k. thread_exit (krn w) = Inr k \<and> os_inv i (w\<lparr>krn := k\<rparr>) \<and> kept (krn w) k"
proof -
  let ?k = "krn w"
  let ?c = "current ?k"
  note o = os_invD[OF assms(1)] and i = kinvD[OF os_invD(1)[OF assms(1)]]
  define k1 where "k1 = upd ?c (\<lambda>th. th\<lparr>stat := RT_THREAD_CLOSE, yielded := False\<rparr>) (timer_off ?c ?k)"
  have e: "thread_exit ?k = rt_schedule k1"
    using remove_thread_id[OF i(1,2), of ?c] o(2) by (simp add: thread_exit_def Let_def timer_off_def k1_def)
  have f: "susp k1 = susp ?k" "tick k1 = tick ?k" "lock_nest k1 = 0" "current k1 = ?c"
    "stat (thr k1 x) = (if x = ?c then RT_THREAD_CLOSE else stat (thr ?k x))"
    "error (thr k1 x) = error (thr ?k x)" "prio k1 x = prio ?k x"
    "x \<noteq> ?c \<Longrightarrow> thread_timer (thr k1 x) = thread_timer (thr ?k x)" for x
    using assms(3) by (simp_all add: k1_def timer_off_def upd_timer_def)
  have "ready_inv k1"
    using i(1) o(2) by (auto simp: k1_def ready_inv_def timer_off_def upd_timer_def)
  moreover have "wait_inv k1" using i(2) o(2) by (auto simp: wait_inv_def f)
  moreover have "timer_inv (tick ?k) k1"
    by (rule timer_inv_cong[OF timer_off_inv[OF i(3), of ?c]]) (use o(2) in \<open>auto simp: k1_def timer_off_def upd_timer_def\<close>)
  moreover have "running_inv k1" using i(4) by (auto simp: running_inv_def f split: if_splits)
  ultimately have ik: "kinv (tick ?k) k1" by (simp add: kinv_def)
  have "ready_group k1 \<noteq> 0"
    by (rule ready_group_nonzero[OF kinvD(1)[OF ik], of i]) (use assms(2) idle_ready[OF assms(1,2)] in \<open>simp add: f\<close>)
  then obtain k' where k': "rt_schedule k1 = Inr k'" "kinv (tick ?k) k'" "same_waiting k1 k'"
    "stat (thr k' (current k')) = RT_THREAD_RUNNING"
    using rt_schedule_inv[OF ik] f(3) by blast
  note d = same_waitingD[OF k'(3)]
  have "alive k' i" using same_waiting_alive[OF k'(3), of i] o(3) assms(2) by (simp add: alive_def f)
  then have "os_inv i (w\<lparr>krn := k'\<rparr>)"
    by (intro os_inv_kernel[OF assms(1)]) (use k' d f in simp_all)
  moreover have "x \<noteq> ?c" if "stat (thr ?k x) = RT_THREAD_SUSPEND" for x using that o(2) by auto
  then have "kept ?k k1" by (intro kept_same) (simp_all add: f)
  ultimately show ?thesis using e k'(1) kept_schedule[OF _ k'(3)] by auto
qed

text \<open>Locks and objects do not concern the invariant of the scheduler.\<close>

lemma lock_inv: "kinv now (k\<lparr>lock_nest := n\<rparr>) = kinv now k"
  by (simp add: kinv_def inv_simps remaining_def[abs_def])

lemma os_lock_inv:
  assumes "os_inv i w"
  shows "os_inv i (w\<lparr>krn := (krn w)\<lparr>lock_nest := n\<rparr>\<rparr>)"
  by (rule os_inv_kernel[OF assms]) (use os_invD[OF assms] in \<open>simp_all add: lock_inv alive_def\<close>)

lemma os_exit_critical_inv:
  assumes "os_inv i w"
  shows "\<exists>k. rt_exit_critical (krn w) = Inr k \<and> os_inv i (w\<lparr>krn := k\<rparr>) \<and> kept (krn w) k"
proof -
  let ?k = "(krn w)\<lparr>lock_nest := lock_nest (krn w) - 1\<rparr>"
  have i: "os_inv i (w\<lparr>krn := ?k\<rparr>)" using assms by (rule os_lock_inv)
  have "kept (krn w) ?k" by (rule kept_same) simp_all
  then show ?thesis
    using i os_schedule_inv[OF i, of ?k] os_invD(1-3)[OF i] kept_schedule
    by (auto simp: rt_exit_critical_def Let_def)
qed

lemma sem_init_inv:
  assumes "os_inv i w" and "allowed i w (Sem_Init s v flag)"
  shows "\<exists>w'. rt_sem_init s v flag w = Inr w' \<and> os_inv i w' \<and> krn w' = krn w"
proof -
  have "(susp (krn w))(Sem_Q s := []) = susp (krn w)" using assms(2) by auto
  then have e: "(krn w)\<lparr>susp := (susp (krn w))(Sem_Q s := [])\<rparr> = krn w" by simp
  let ?w = "w\<lparr>sem := (sem w)(s := \<lparr>sem_value = v, sem_flag = flag\<rparr>)\<rparr>"
  note o = os_invD[OF assms(1)]
  have "sem_inv ?w s'" for s' using o(4)[of s'] assms(2) by (auto simp: sem_inv_def)
  moreover have "mutex_inv ?w m" for m using o(5)[of m] by (simp add: mutex_inv_def cong: option.case_cong)
  ultimately have "os_inv i ?w" using assms(1) by (simp add: os_inv_def)
  moreover have "rt_sem_init s v flag w = Inr ?w"
    using assms(2) e by (cases w) (simp add: rt_sem_init_def RT_SEM_VALUE_MAX_def)
  ultimately show ?thesis by simp
qed

lemma mutex_init_inv:
  assumes "os_inv i w" and "susp (krn w) (Mutex_Q m) = []"
  shows "os_inv i (rt_mutex_init m w) \<and> krn (rt_mutex_init m w) = krn w"
proof -
  have "(susp (krn w))(Mutex_Q m := []) = susp (krn w)" using assms(2) by auto
  then have e: "(krn w)\<lparr>susp := (susp (krn w))(Mutex_Q m := [])\<rparr> = krn w" by simp
  let ?f = "\<lambda>_. \<lparr>mutex_value = 1, original_priority = 0xFF, hold = 0, owner = None\<rparr>"
  have "os_inv i ((upd_mutex m ?f w)\<lparr>krn := krn w\<rparr>)"
    using assms(1) os_invD(1-3)[OF assms(1)] by (rule os_inv_update) (simp_all add: mutex_inv_def assms(2))
  moreover have "rt_mutex_init m w = (upd_mutex m ?f w)\<lparr>krn := krn w\<rparr>"
    using e by (cases w) (simp add: rt_mutex_init_def upd_mutex_def)
  ultimately show ?thesis by simp
qed

text \<open>Every allowed call succeeds, and all but the clock leave the sleeping threads alone.\<close>

lemma call_inv:
  assumes "os_inv i w" and "allowed i w c"
  shows "\<exists>w'. do_call c w = Inr w' \<and> os_inv i w' \<and> (c \<noteq> Tick \<longrightarrow> kept (krn w) (krn w'))"
proof (cases c)
  case (Sem_Init s v flag)
  then show ?thesis using sem_init_inv[OF assms(1), of s v flag] assms(2) by force
next
  case (Sem_Take s n)
  then show ?thesis using sem_take_inv[OF assms(1), of n s] assms(2) by (auto simp: may_block_def)
next
  case (Sem_Release s)
  then show ?thesis using sem_release_inv[OF assms(1), of s] by auto
next
  case (Sem_Reset s v)
  then show ?thesis using sem_control_inv[OF assms(1), of v s True] assms(2) by auto
next
  case (Sem_Detach s)
  then show ?thesis using sem_detach_inv[OF assms(1), of s] by auto
next
  case (Mutex_Init m)
  then show ?thesis using mutex_init_inv[OF assms(1), of m] assms(2) by simp
next
  case (Mutex_Take m n)
  then show ?thesis using mutex_take_inv[OF assms(1), of n m] assms(2) by auto
next
  case (Mutex_Release m)
  then show ?thesis using mutex_release_inv[OF assms(1), of m] assms(2) by auto
next
  case Yield
  then show ?thesis using os_yield_inv[OF assms(1)] by (auto simp: in_kernel_def)
next
  case (Sleep n)
  then show ?thesis
    using os_sleep_inv[OF assms(1), of n] assms(2)
    by (auto simp: in_kernel_def may_block_def scheduler_available_def)
next
  case (Start t p n)
  then show ?thesis
    using os_start_thread_inv[OF assms(1), of t p n] assms(2)
    by (auto simp: in_kernel_def RT_THREAD_PRIORITY_MAX_def)
next
  case Exit
  then show ?thesis
    using os_exit_inv[OF assms(1)] assms(2) by (auto simp: in_kernel_def may_block_def scheduler_available_def)
next
  case Enter_Critical
  then show ?thesis
    using os_lock_inv[OF assms(1), of "lock_nest (krn w) + 1"] by (simp add: in_kernel_def rt_enter_critical_def kept_same)
next
  case Exit_Critical
  then show ?thesis using os_exit_critical_inv[OF assms(1)] by (auto simp: in_kernel_def)
next
  case Tick
  then show ?thesis using os_tick_inv[OF assms(1)] by (auto simp: in_kernel_def)
qed

lemma os_reach_inv: "os_reach i w \<Longrightarrow> os_inv i w"
proof (induction rule: os_reach.induct)
  case (os_booted c main timer k)
  then show ?case using startup_inv[OF os_booted(1)] by auto
next
  case (os_next w w')
  then show ?case using call_inv[OF os_next(3)] by (fastforce elim: os_stepE)
qed

end
