(* ===== verification/Kernel_Props.thy ===== *)
theory Kernel_Props
  imports Kernel
begin

text \<open>
  What the kernel promises its threads: no call faults, the objects stay consistent, the
  scheduler runs a thread of the highest priority, semaphores and mutexes are handed to
  the first waiting thread, and waiting ends in time. Two places where the code does not
  do what it means to are recorded at the end.
\<close>

section \<open>Sequences of calls\<close>

fun run_calls :: "call list \<Rightarrow> os \<Rightarrow> os res" where
  "run_calls [] w = Inr w"
| "run_calls (c # cs) w = bind_res (do_call c w) (run_calls cs)"

text \<open>Every call of the sequence is allowed when it is made.\<close>

fun all_allowed :: "nat \<Rightarrow> call list \<Rightarrow> os \<Rightarrow> bool" where
  "all_allowed i [] w \<longleftrightarrow> True"
| "all_allowed i (c # cs) w \<longleftrightarrow> allowed i w c \<and>
     (case do_call c w of Inl _ \<Rightarrow> True | Inr w' \<Rightarrow> all_allowed i cs w')"

definition ticks :: "call list \<Rightarrow> nat" where
  "ticks cs = length (filter ((=) Tick) cs)"

lemma ticks_simps [simp]: "ticks [] = 0" "ticks (c # cs) = (if c = Tick then Suc (ticks cs) else ticks cs)"
  by (auto simp: ticks_def)

lemma all_allowed_inv:
  assumes "os_inv i w" and "all_allowed i cs w"
  shows "\<exists>w'. run_calls cs w = Inr w' \<and> os_inv i w'"
  using assms
proof (induction cs arbitrary: w)
  case (Cons c cs)
  obtain w1 where "do_call c w = Inr w1" "os_inv i w1" using call_inv[OF Cons.prems(1), of c] Cons.prems(2) by auto
  then show ?case using Cons.IH[of w1] Cons.prems(2) by simp
qed simp

lemma all_allowed_always:
  assumes "os_inv i w" and "\<And>c w. c \<in> set cs \<Longrightarrow> allowed i w c"
  shows "all_allowed i cs w"
  using assms
proof (induction cs arbitrary: w)
  case (Cons c cs)
  obtain w1 where "do_call c w = Inr w1" "os_inv i w1" using call_inv[OF Cons.prems(1), of c] Cons.prems(2) by auto
  then show ?case using Cons.IH[of w1] Cons.prems(2) by simp
qed simp

text \<open>A tick on a thread whose timer runs.\<close>

lemma tick_counting:
  assumes "os_inv i w" and "counting (krn w) t n" and "do_call Tick w = Inr w'"
  shows "1 < n \<Longrightarrow> counting (krn w') t (n - 1) \<and> (\<forall>q. t \<in> set (susp (krn w') q) \<longleftrightarrow> t \<in> set (susp (krn w) q))"
    and "n \<le> 1 \<Longrightarrow> alive (krn w') t \<and> error (thr (krn w') t) = - RT_ETIMEOUT"
proof -
  let ?k = "(krn w)\<lparr>tick := tick (krn w) + 1\<rparr>"
  have f: "fired (tick (krn w)) ?k (krn w')"
    using os_tick_inv[OF assms(1)] assms(3) by (auto simp: in_kernel_def)
  have d: "due (tick (krn w)) ?k t \<longleftrightarrow> n \<le> 1"
    using assms(2) by (auto simp: due_def counting_def remaining_def)
  show "n \<le> 1 \<Longrightarrow> alive (krn w') t \<and> error (thr (krn w') t) = - RT_ETIMEOUT"
    using f d by (simp add: fired_def)
  assume n: "1 < n"
  then have nd: "\<not> due (tick (krn w)) ?k t" using d by simp
  then have e: "thread_timer (thr (krn w') t) = thread_timer (thr (krn w) t)" "tick (krn w') = tick (krn w) + 1"
    "stat (thr (krn w') t) = RT_THREAD_SUSPEND" "t \<in> set (susp (krn w') q) \<longleftrightarrow> t \<in> set (susp (krn w) q)" for q
    using f assms(2) by (simp_all add: fired_def counting_def)
  have "remaining (tick ?k) ?k t = remaining (tick ?k - 1) ?k t - 1"
    by (rule remaining_next) (use n assms(2) in \<open>simp add: counting_def remaining_def\<close>)
  then show "counting (krn w') t (n - 1) \<and> (\<forall>q. t \<in> set (susp (krn w') q) \<longleftrightarrow> t \<in> set (susp (krn w) q))"
    using assms(2) e by (simp add: counting_def remaining_def)
qed

text \<open>Until its time is over a sleeping thread sleeps, whatever the other threads do.\<close>

lemma asleep_until:
  assumes "os_inv i w" and "counting (krn w) t n" and "\<And>q. t \<notin> set (susp (krn w) q)"
    and "all_allowed i cs w" and "run_calls cs w = Inr w'" and "ticks cs < max n 1"
  shows "counting (krn w') t (n - ticks cs) \<and> os_inv i w'"
  using assms
proof (induction cs arbitrary: w n)
  case (Cons c cs)
  obtain w1 where w1: "do_call c w = Inr w1" "os_inv i w1" "c \<noteq> Tick \<longrightarrow> kept (krn w) (krn w1)"
    using call_inv[OF Cons.prems(1), of c] Cons.prems(4) by auto
  have rest: "all_allowed i cs w1" "run_calls cs w1 = Inr w'" using Cons.prems(4,5) w1(1) by auto
  show ?case
  proof (cases "c = Tick")
    case True
    then have "counting (krn w1) t (n - 1)" "t \<notin> set (susp (krn w1) q)" for q
      using tick_counting(1)[OF Cons.prems(1,2)] w1(1) Cons.prems(3,6) by auto
    then show ?thesis using Cons.IH[OF w1(2) _ _ rest, of "n - 1"] True Cons.prems(6) by auto
  next
    case False
    then have "counting (krn w1) t n" "t \<notin> set (susp (krn w1) q)" for q
      using w1(3) Cons.prems(2,3) by (auto simp: kept_def counting_def remaining_def)
    then show ?thesis using Cons.IH[OF w1(2) _ _ rest, of n] False Cons.prems(6) by auto
  qed
qed simp

text \<open>A thread with a running timer is awake again before its time is over.\<close>

lemma awake_within:
  assumes "os_inv i w" and "counting (krn w) t n" and "all_allowed i cs w" and "max n 1 \<le> ticks cs"
  shows "\<exists>j \<le> length cs. \<exists>w'. run_calls (take j cs) w = Inr w' \<and> alive (krn w') t"
  using assms
proof (induction cs arbitrary: w n)
  case (Cons c cs)
  obtain w1 where w1: "do_call c w = Inr w1" "os_inv i w1" "c \<noteq> Tick \<longrightarrow> kept (krn w) (krn w1)"
    using call_inv[OF Cons.prems(1), of c] Cons.prems(3) by auto
  have rest: "all_allowed i cs w1" using Cons.prems(3) w1(1) by auto
  have next_call: ?case if "\<exists>j \<le> length cs. \<exists>w'. run_calls (take j cs) w1 = Inr w' \<and> alive (krn w') t"
  proof -
    from that obtain j w' where "j \<le> length cs" "run_calls (take j cs) w1 = Inr w'" "alive (krn w') t" by blast
    then show ?thesis using w1(1) by (intro exI[of _ "Suc j"]) simp
  qed
  have awake: ?case if "alive (krn w1) t"
    by (rule next_call) (use that in \<open>auto intro!: exI[of _ 0]\<close>)
  show ?case
  proof (cases "c = Tick")
    case True
    show ?thesis
    proof (cases "n \<le> 1")
      case True
      then show ?thesis using awake tick_counting(2)[OF Cons.prems(1,2)] w1(1) \<open>c = Tick\<close> by blast
    next
      case False
      then have "counting (krn w1) t (n - 1)" using tick_counting(1)[OF Cons.prems(1,2)] w1(1) True by auto
      then show ?thesis using next_call Cons.IH[OF w1(2) _ rest, of "n - 1"] True False Cons.prems(4) by auto
    qed
  next
    case False
    then consider "alive (krn w1) t" | "counting (krn w1) t n"
      using w1(3) Cons.prems(2) by (auto simp: kept_def counting_def remaining_def)
    then show ?thesis
    proof cases
      case 2
      then show ?thesis using next_call Cons.IH[OF w1(2) _ rest, of n] False Cons.prems(4) by auto
    qed (rule awake)
  qed
qed simp

section \<open>A started system\<close>

text \<open>Threads 1, 2 and 3 are the main thread, the timer thread and the idle thread.\<close>

lemma booted:
  "\<exists>k. rtthread_startup 1 2 3 (reset_kernel 0) = Inr k \<and> os_reach 3 (os_start k) \<and>
    current k = 2 \<and> may_block 3 (os_start k) \<and> susp k = (\<lambda>_. []) \<and> alive k 1 \<and> prio k 1 = 10 \<and> prio k 2 = 4 \<and>
    krn (os_start k) = k"
proof -
  obtain k where k: "rtthread_startup 1 2 3 (reset_kernel 0) = Inr k" "current k = 2"
    "lock_nest k = 0" "irq_nest k = 0" "susp k = (\<lambda>_. [])" "alive k 1" "prio k 1 = 10" "prio k 2 = 4"
    using startup_inv[of 0 1 2 3] by auto
  moreover have "os_reach 3 (os_start k)" using os_booted[of 0 1 2 3 k] k(1) by simp
  ultimately show ?thesis by (auto simp: may_block_def scheduler_available_def os_start_def)
qed

text \<open>After that, the timer thread waits for semaphore 0.\<close>

lemma booted_waiting:
  "\<exists>k w. rtthread_startup 1 2 3 (reset_kernel 0) = Inr k \<and> do_call (Sem_Take 0 5) (os_start k) = Inr w \<and>
    os_reach 3 w \<and> susp (krn w) (Sem_Q 0) = [2] \<and> counting (krn w) 2 5 \<and> lock_nest (krn w) = 0"
proof -
  obtain k where k: "rtthread_startup 1 2 3 (reset_kernel 0) = Inr k" "os_reach 3 (os_start k)" "current k = 2"
    "may_block 3 (os_start k)" "susp k = (\<lambda>_. [])" "krn (os_start k) = k" using booted by auto
  obtain w where w: "rt_sem_take 0 5 (os_start k) = Inr (Waiting, w)" "susp (krn w) (Sem_Q 0) = [2]"
    "counting (krn w) 2 5" "lock_nest (krn w) = 0"
    using sem_take_blocks[OF os_reach_inv[OF k(2)], of 5 0] k(3-6) by (auto simp: may_block_def os_start_def)
  have "os_step 3 (os_start k) w" by (rule os_call[of 3 _ "Sem_Take 0 5"]) (use w k in simp_all)
  then show ?thesis using k w os_next by auto
qed

section \<open>Safety\<close>

text \<open>
  C6. Whatever the threads have done since the system started, every further sequence of
  kernel calls made under their documented conditions and of clock ticks runs to completion:
  no assertion fails, no list that the code takes for non-empty is empty, and there is
  always a thread that runs.
\<close>

theorem kernel_never_faults:
  assumes "os_reach i w" and "all_allowed i cs w"
  shows "\<exists>w'. run_calls cs w = Inr w' \<and> stat (thr (krn w') (current (krn w'))) = RT_THREAD_RUNNING"
  using all_allowed_inv[OF os_reach_inv[OF assms(1)] assms(2)] os_invD(2) by blast

theorem kernel_never_faults_witness:
  "\<exists>k w w'. rtthread_startup 1 2 3 (reset_kernel 0) = Inr k \<and> do_call (Sem_Take 0 5) (os_start k) = Inr w \<and>
    run_calls [Tick, Sem_Release 0, Yield, Tick] w = Inr w' \<and>
    stat (thr (krn w') (current (krn w'))) = RT_THREAD_RUNNING"
proof -
  obtain k w where w: "rtthread_startup 1 2 3 (reset_kernel 0) = Inr k" "do_call (Sem_Take 0 5) (os_start k) = Inr w"
    "os_reach 3 w" using booted_waiting by auto
  have "all_allowed 3 [Tick, Sem_Release 0, Yield, Tick] w"
    by (rule all_allowed_always[OF os_reach_inv[OF w(3)]]) auto
  then show ?thesis using kernel_never_faults[OF w(3), of "[Tick, Sem_Release 0, Yield, Tick]"] w by blast
qed

text \<open>
  C8. In every state the system can reach exactly the current thread runs, the ready queue of
  each priority holds exactly the ready threads of that priority, each once, and its bit in the bit
  map is set exactly if it is not empty. The timer list holds exactly the threads whose timer is
  activated, each once; they are suspended, and the list is in the order in which the timers expire,
  each of them within 0x7FFFFFFF ticks. The value of a semaphore is within its range, and no semaphore has
  tokens while threads wait for it (no wake-up is lost). A mutex is free with the value 1, or it has the value 0
  and an owner that holds it between 1 and 255 times; a mutex somebody waits for has an owner that
  does not wait for it itself. A thread waits for one object at most.
\<close>

theorem kernel_consistent:
  assumes "os_reach i w"
  shows "(stat (thr (krn w) t) = RT_THREAD_RUNNING \<longleftrightarrow> t = current (krn w)) \<and>
    (t \<in> set (ready (krn w) p) \<longleftrightarrow> stat (thr (krn w) t) = RT_THREAD_READY \<and> prio (krn w) t = p) \<and>
    (susp (krn w) (Sem_Q s) \<noteq> [] \<longrightarrow> sem_value (sem w s) = 0) \<and>
    (susp (krn w) (Mutex_Q m) \<noteq> [] \<longrightarrow> (\<exists>h. owner (mutex w m) = Some h \<and> h \<notin> set (susp (krn w) (Mutex_Q m)))) \<and>
    (t \<in> set (susp (krn w) q) \<longrightarrow> t \<in> set (susp (krn w) q') \<longrightarrow> q = q') \<and>
    distinct (ready (krn w) p) \<and> (bit (ready_group (krn w)) p \<longleftrightarrow> ready (krn w) p \<noteq> []) \<and> prio (krn w) t < 32 \<and>
    distinct (timer_list (krn w)) \<and> (t \<in> set (timer_list (krn w)) \<longleftrightarrow> activated (thread_timer (thr (krn w) t))) \<and>
    (t \<in> set (timer_list (krn w)) \<longrightarrow> stat (thr (krn w) t) = RT_THREAD_SUSPEND \<and>
       unat (timeout_tick (thread_timer (thr (krn w) t)) - tick (krn w)) < 0x7FFFFFFF) \<and>
    sorted (map (\<lambda>x. unat (timeout_tick (thread_timer (thr (krn w) x)) - tick (krn w))) (timer_list (krn w))) \<and>
    sem_value (sem w s) \<le> 65535 \<and>
    (case owner (mutex w m) of None \<Rightarrow> mutex_value (mutex w m) = 1 \<and> hold (mutex w m) = 0
     | Some h \<Rightarrow> mutex_value (mutex w m) = 0 \<and> 1 \<le> hold (mutex w m) \<and> hold (mutex w m) \<le> 255)"
proof (intro conjI)
  note o = os_invD[OF os_reach_inv[OF assms]]
  note k = kinvD[OF o(1)]
  show "stat (thr (krn w) t) = RT_THREAD_RUNNING \<longleftrightarrow> t = current (krn w)"
    using k(4) o(2) unfolding running_inv_def by metis
  show "susp (krn w) (Sem_Q s) \<noteq> [] \<longrightarrow> sem_value (sem w s) = 0" "sem_value (sem w s) \<le> 65535"
    using o(4)[of s] by (auto simp: sem_inv_def RT_SEM_VALUE_MAX_def)
  show "susp (krn w) (Mutex_Q m) \<noteq> [] \<longrightarrow>
      (\<exists>h. owner (mutex w m) = Some h \<and> h \<notin> set (susp (krn w) (Mutex_Q m)))"
    "case owner (mutex w m) of None \<Rightarrow> mutex_value (mutex w m) = 1 \<and> hold (mutex w m) = 0
     | Some h \<Rightarrow> mutex_value (mutex w m) = 0 \<and> 1 \<le> hold (mutex w m) \<and> hold (mutex w m) \<le> 255"
    using o(5)[of m] by (cases "owner (mutex w m)"; simp add: mutex_inv_def RT_MUTEX_HOLD_MAX_def)+
  show "t \<in> set (susp (krn w) q) \<longrightarrow> t \<in> set (susp (krn w) q') \<longrightarrow> q = q'"
    using k(2) unfolding wait_inv_def by blast
  show "t \<in> set (ready (krn w) p) \<longleftrightarrow> stat (thr (krn w) t) = RT_THREAD_READY \<and> prio (krn w) t = p"
    "distinct (ready (krn w) p)" "bit (ready_group (krn w)) p \<longleftrightarrow> ready (krn w) p \<noteq> []" "prio (krn w) t < 32"
    using k(1) by (simp_all add: ready_inv_def)
  show "distinct (timer_list (krn w))" "t \<in> set (timer_list (krn w)) \<longleftrightarrow> activated (thread_timer (thr (krn w) t))"
    "t \<in> set (timer_list (krn w)) \<longrightarrow> stat (thr (krn w) t) = RT_THREAD_SUSPEND \<and>
       unat (timeout_tick (thread_timer (thr (krn w) t)) - tick (krn w)) < 0x7FFFFFFF"
    "sorted (map (\<lambda>x. unat (timeout_tick (thread_timer (thr (krn w) x)) - tick (krn w))) (timer_list (krn w)))"
    using k(3) by (auto simp: timer_inv_def remaining_def[abs_def])
qed

theorem kernel_consistent_witness:
  "\<exists>k w. rtthread_startup 1 2 3 (reset_kernel 0) = Inr k \<and> do_call (Sem_Take 0 5) (os_start k) = Inr w \<and>
    susp (krn w) (Sem_Q 0) = [2] \<and> sem_value (sem w 0) = 0"
proof -
  obtain k w where w: "rtthread_startup 1 2 3 (reset_kernel 0) = Inr k" "do_call (Sem_Take 0 5) (os_start k) = Inr w"
    "os_reach 3 w" "susp (krn w) (Sem_Q 0) = [2]" using booted_waiting by auto
  then show ?thesis using kernel_consistent[OF w(3), of 0 0 0] by auto
qed

section \<open>Scheduling\<close>

text \<open>
  C25. With the scheduler unlocked, a schedule gives the processor to a thread whose priority
  no thread that can run exceeds, and it changes no thread that waits.
\<close>

theorem schedule_runs_highest:
  assumes "os_reach i w" and "lock_nest (krn w) = 0"
  shows "\<exists>k. rt_schedule (krn w) = Inr k \<and> stat (thr k (current k)) = RT_THREAD_RUNNING \<and>
    (\<forall>t. stat (thr k t) = RT_THREAD_READY \<longrightarrow> prio k (current k) \<le> prio k t) \<and>
    (\<forall>t. stat (thr k t) = RT_THREAD_SUSPEND \<longleftrightarrow> stat (thr (krn w) t) = RT_THREAD_SUSPEND) \<and> susp k = susp (krn w)"
proof -
  note o = os_invD[OF os_reach_inv[OF assms(1)]]
  obtain k where "rt_schedule (krn w) = Inr k" "same_waiting (krn w) k" "stat (thr k (current k)) = RT_THREAD_RUNNING"
    "\<forall>t. stat (thr k t) = RT_THREAD_READY \<longrightarrow> prio k (current k) \<le> prio k t"
    using rt_schedule_inv[OF o(1)] o(2) assms(2) by blast
  then show ?thesis using same_waitingD(1,9) by (intro exI[of _ k]) simp
qed

theorem schedule_runs_highest_witness:
  "\<exists>k w k'. rtthread_startup 1 2 3 (reset_kernel 0) = Inr k \<and> do_call (Sem_Take 0 5) (os_start k) = Inr w \<and>
    rt_schedule (krn w) = Inr k' \<and> susp k' (Sem_Q 0) = [2]"
proof -
  obtain k w where w: "rtthread_startup 1 2 3 (reset_kernel 0) = Inr k" "do_call (Sem_Take 0 5) (os_start k) = Inr w"
    "os_reach 3 w" "susp (krn w) (Sem_Q 0) = [2]" "lock_nest (krn w) = 0" using booted_waiting by blast
  then show ?thesis using schedule_runs_highest[OF w(3,5)] by auto
qed

section \<open>Semaphores and mutexes\<close>

text \<open>
  Releasing a semaphore that threads wait for hands the token to the first of them: it
  can run again, its pending take will report success, it has left the queue, the others
  keep their order, and the value of the semaphore does not change.
\<close>

theorem sem_release_hands_over:
  assumes "os_reach i w" and "susp (krn w) (Sem_Q s) = t # ts"
  shows "\<exists>w'. rt_sem_release s w = Inr (RT_EOK, w') \<and> alive (krn w') t \<and> error (thr (krn w') t) = RT_EOK \<and>
    susp (krn w') = (susp (krn w))(Sem_Q s := ts) \<and> sem w' = sem w"
proof -
  note o = os_invD[OF os_reach_inv[OF assms(1)]]
  have t: "t \<in> set (susp (krn w) (Sem_Q s))" using assms(2) by simp
  obtain k where k: "bind_res (ipc_list_resume (Sem_Q s) (krn w)) rt_schedule = Inr k" "woken t (krn w) k"
    using resume_first_inv[OF o(1,2) assms(2)] by blast
  have "rt_sem_release s w = Inr (RT_EOK, w\<lparr>krn := k\<rparr>)"
    using k(1) assms(2) by (simp add: rt_sem_release_def bind_res_assoc[symmetric])
  moreover have "susp k = (susp (krn w))(Sem_Q s := ts)"
  proof (rule ext)
    fix q
    have "distinct (t # ts)" "q \<noteq> Sem_Q s \<Longrightarrow> t \<notin> set (susp (krn w) q)"
      using kinvD(2)[OF o(1)] assms(2) t unfolding wait_inv_def by metis+
    then show "susp k q = ((susp (krn w))(Sem_Q s := ts)) q"
      using k(2) assms(2) by (cases "q = Sem_Q s") (auto simp: woken_def removeAll_id)
  qed
  ultimately show ?thesis using k(2) o(6)[OF t] by (simp add: woken_def)
qed

theorem sem_release_hands_over_witness:
  "\<exists>k w w'. rtthread_startup 1 2 3 (reset_kernel 0) = Inr k \<and> do_call (Sem_Take 0 5) (os_start k) = Inr w \<and>
    susp (krn w) (Sem_Q 0) = [2] \<and> rt_sem_release 0 w = Inr (RT_EOK, w') \<and> alive (krn w') 2 \<and>
    susp (krn w') (Sem_Q 0) = []"
proof -
  obtain k w where w: "rtthread_startup 1 2 3 (reset_kernel 0) = Inr k" "do_call (Sem_Take 0 5) (os_start k) = Inr w"
    "os_reach 3 w" "susp (krn w) (Sem_Q 0) = [2]" using booted_waiting by auto
  then show ?thesis using sem_release_hands_over[OF w(3,4)] by auto
qed

text \<open>
  While another thread holds a mutex, taking it never succeeds: without waiting the call
  reports a time-out and leaves the mutex alone; otherwise the caller joins the queue, which
  is ordered by priority, and the owner runs at the higher of the two priorities from then on.
\<close>

theorem mutex_take_held:
  assumes "os_reach i w" and "owner (mutex w m) = Some h" and "h \<noteq> current (krn w)"
    and "allowed i w (Mutex_Take m timeout)"
  defines "t \<equiv> current (krn w)"
  shows "\<exists>r w'. rt_mutex_take m timeout w = Inr (r, w') \<and> mutex w' = mutex w \<and>
    (if timeout = 0 then r = Returned (- RT_ETIMEOUT) \<and> susp (krn w') = susp (krn w)
     else r = Waiting \<and> stat (thr (krn w') t) = RT_THREAD_SUSPEND \<and>
       set (susp (krn w') (Mutex_Q m)) = insert t (set (susp (krn w) (Mutex_Q m))) \<and>
       prio (krn w') h = min (prio (krn w) h) (prio (krn w) t))"
proof -
  let ?w = "w\<lparr>krn := set_error t RT_EOK (krn w)\<rparr>"
  note i = os_reach_inv[OF assms(1)]
  note k = set_error_kernel[OF os_invD(1)[OF i]]
  have i1: "os_inv i ?w" unfolding t_def by (rule os_inv_error[OF i refl])
  have a: "scheduler_available (krn w)" "timeout < 0x7FFFFFFF" "current (krn w) \<noteq> i \<or> timeout = 0"
    using assms(4) by auto
  have v: "mutex_value (mutex w m) = 0" using os_invD(5)[OF i, of m] assms(2) by (simp add: mutex_inv_def)
  show ?thesis
  proof (cases "timeout = 0")
    case True
    then show ?thesis using assms(2,3) v a(1) by (simp add: rt_mutex_take_def Let_def t_def set_error_def)
  next
    case False
    define k1 where "k1 = (if prio (krn ?w) (current (krn ?w)) < prio (krn ?w) h
      then change_priority h (prio (krn ?w) (current (krn ?w))) (krn ?w) else krn ?w)"
    have c: "current (krn ?w) = t" "owner (mutex ?w m) = Some h" "scheduler_available (krn ?w)"
      "current (krn ?w) \<noteq> i" "error (thr (krn ?w) (current (krn ?w))) = RT_EOK" "h \<noteq> current (krn ?w)"
      using a(1,3) False assms(2,3) by (simp_all add: k t_def scheduler_available_def) (simp add: set_error_def)
    obtain k' where k': "mutex_block m timeout (krn ?w) (owner (mutex ?w m)) = Inr (Waiting, k')"
      "joined (Mutex_Q m) (prio_insert (prio k1) (current k1) (susp k1 (Mutex_Q m))) k1 k'"
      "current k1 = current (krn ?w)" "susp k1 = susp (krn ?w)"
      "prio k' h = min (prio (krn ?w) h) (prio (krn ?w) (current (krn ?w)))"
      using mutex_block_inv[OF i1 c(2,6,4,3) a(2) c(5)] unfolding k1_def by blast
    have "susp k' (Mutex_Q m) = prio_insert (prio k1) t (susp (krn w) (Mutex_Q m))"
      "stat (thr k' t) = RT_THREAD_SUSPEND"
      using k'(2) unfolding joined_def k'(3,4) c(1) by (simp_all add: k)
    moreover have "rt_mutex_take m timeout w = Inr (Waiting, ?w\<lparr>krn := k'\<rparr>)"
      using k'(1) assms(2,3) v a(1) False by (simp add: rt_mutex_take_def Let_def t_def)
    ultimately show ?thesis using False k'(5) by (simp add: k t_def)
  qed
qed

text \<open>In the started system the timer thread has taken mutex 0.\<close>

lemma booted_owner:
  "\<exists>k w. rtthread_startup 1 2 3 (reset_kernel 0) = Inr k \<and> do_call (Mutex_Take 0 0) (os_start k) = Inr w \<and>
    os_reach 3 w \<and> owner (mutex w 0) = Some 2 \<and> hold (mutex w 0) = 1 \<and> original_priority (mutex w 0) = 4 \<and>
    susp (krn w) = (\<lambda>_. []) \<and> current (krn w) = 2 \<and> may_block 3 w"
proof -
  obtain k where k: "rtthread_startup 1 2 3 (reset_kernel 0) = Inr k" "os_reach 3 (os_start k)" "current k = 2"
    "may_block 3 (os_start k)" "susp k = (\<lambda>_. [])" "prio k 2 = 4" "krn (os_start k) = k" using booted by auto
  let ?w = "upd_mutex 0 (\<lambda>mu. mu\<lparr>mutex_value := 0, owner := Some 2, original_priority := 4, hold := 1\<rparr>)
    ((os_start k)\<lparr>krn := set_error 2 RT_EOK k\<rparr>)"
  have m: "mutex (os_start k) 0 = \<lparr>mutex_value = 1, original_priority = 0xFF, hold = 0, owner = None\<rparr>"
    by (simp add: os_start_def)
  have "do_call (Mutex_Take 0 0) (os_start k) = Inr ?w"
    using k(3-7) m by (simp add: rt_mutex_take_def Let_def RT_MUTEX_HOLD_MAX_def upd_mutex_def may_block_def set_error_def)
  moreover from this have "os_step 3 (os_start k) ?w"
    by (intro os_call[of 3 _ "Mutex_Take 0 0"]) (use k in \<open>simp_all add: may_block_def\<close>)
  ultimately show ?thesis
    using k os_next[of 3 "os_start k" ?w]
    by (intro exI[of _ k] exI[of _ ?w]) (simp add: set_error_def may_block_def scheduler_available_def)
qed

text \<open>The timer thread then sleeps and the main thread runs, which asks for the mutex.\<close>

lemma booted_contended:
  "\<exists>k w w'. rtthread_startup 1 2 3 (reset_kernel 0) = Inr k \<and> do_call (Mutex_Take 0 0) (os_start k) = Inr w \<and>
    do_call (Sleep 7) w = Inr w' \<and> os_reach 3 w' \<and> owner (mutex w' 0) = Some 2 \<and> current (krn w') \<noteq> 2 \<and>
    scheduler_available (krn w')"
proof -
  obtain k w where k: "rtthread_startup 1 2 3 (reset_kernel 0) = Inr k" "do_call (Mutex_Take 0 0) (os_start k) = Inr w"
    "os_reach 3 w" "owner (mutex w 0) = Some 2" "current (krn w) = 2" "may_block 3 w"
    using booted_owner by auto
  have a: "current (krn w) \<noteq> 3" "lock_nest (krn w) = 0" "(7 :: u32) < TICK_HALF"
    using k(6) by (auto simp: may_block_def scheduler_available_def)
  obtain k' where k': "rt_thread_sleep 7 (krn w) = Inr k'" "os_inv 3 (w\<lparr>krn := k'\<rparr>)"
    "stat (thr k' 2) = RT_THREAD_SUSPEND" "lock_nest k' = lock_nest (krn w)" "irq_nest k' = irq_nest (krn w)"
    using os_sleep_inv[OF os_reach_inv[OF k(3)] a] k(5) by auto
  have "current k' \<noteq> 2" using os_invD(2)[OF k'(2)] k'(3) by auto
  moreover have "os_step 3 w (w\<lparr>krn := k'\<rparr>)"
    by (rule os_call[of 3 _ "Sleep 7"]) (use k k'(1) in \<open>simp_all add: in_kernel_def\<close>)
  ultimately show ?thesis
    using k k' os_next[OF k(3)] by (intro exI[of _ k] exI[of _ w] exI[of _ "w\<lparr>krn := k'\<rparr>"])
      (simp add: in_kernel_def may_block_def scheduler_available_def)
qed

theorem mutex_take_held_witness:
  "\<exists>k w w' w''. rtthread_startup 1 2 3 (reset_kernel 0) = Inr k \<and> do_call (Mutex_Take 0 0) (os_start k) = Inr w \<and>
    do_call (Sleep 7) w = Inr w' \<and> rt_mutex_take 0 0 w' = Inr (Returned (- RT_ETIMEOUT), w'') \<and>
    owner (mutex w'' 0) = Some 2"
proof -
  obtain k w w' where w: "rtthread_startup 1 2 3 (reset_kernel 0) = Inr k" "do_call (Mutex_Take 0 0) (os_start k) = Inr w"
    "do_call (Sleep 7) w = Inr w'" "os_reach 3 w'" "owner (mutex w' 0) = Some 2" "current (krn w') \<noteq> 2"
    "scheduler_available (krn w')" using booted_contended by blast
  then show ?thesis using mutex_take_held[OF w(4,5), of 0] by fastforce
qed

text \<open>
  When the owner releases its last hold of a mutex, its own priority is what it was when
  it took the mutex. If threads wait, the first of them is the owner at once, with one hold,
  and can run; otherwise the mutex is free.
\<close>

theorem mutex_release_hands_over:
  assumes "os_reach i w" and "owner (mutex w m) = Some (current (krn w))" and "hold (mutex w m) = 1"
    and "irq_nest (krn w) = 0"
  shows "\<exists>w'. rt_mutex_release m w = Inr (RT_EOK, w') \<and>
    prio (krn w') (current (krn w)) = original_priority (mutex w m) \<and>
    (case susp (krn w) (Mutex_Q m) of
       [] \<Rightarrow> owner (mutex w' m) = None \<and> susp (krn w') = susp (krn w)
     | h # hs \<Rightarrow> owner (mutex w' m) = Some h \<and> hold (mutex w' m) = 1 \<and> alive (krn w') h \<and>
         susp (krn w') (Mutex_Q m) = hs)"
  using mutex_release_last[OF os_reach_inv[OF assms(1)] assms(2-4)] by blast

theorem mutex_release_hands_over_witness:
  "\<exists>k w w'. rtthread_startup 1 2 3 (reset_kernel 0) = Inr k \<and> do_call (Mutex_Take 0 0) (os_start k) = Inr w \<and>
    owner (mutex w 0) = Some 2 \<and> rt_mutex_release 0 w = Inr (RT_EOK, w') \<and> owner (mutex w' 0) = None"
proof -
  obtain k w where w: "rtthread_startup 1 2 3 (reset_kernel 0) = Inr k" "do_call (Mutex_Take 0 0) (os_start k) = Inr w"
    "os_reach 3 w" "owner (mutex w 0) = Some 2" "hold (mutex w 0) = 1" "susp (krn w) = (\<lambda>_. [])"
    "current (krn w) = 2" "may_block 3 w" using booted_owner by blast
  then show ?thesis
    using mutex_release_hands_over[OF w(3), of 0] by (auto simp: may_block_def scheduler_available_def)
qed

section \<open>Waiting in time\<close>

text \<open>
  C31. A thread that sleeps for \<open>n\<close> ticks is not woken by anything the other threads do before
  the clock has ticked \<open>n\<close> times (once, if \<open>n\<close> is zero), and with that tick it can run again and
  the call reports success.
\<close>

theorem sleep_on_time:
  assumes "os_reach i w" and "all_allowed i (Sleep n # cs) w" and "ticks cs < max (unat n) 1"
  defines "t \<equiv> current (krn w)"
  shows "\<exists>w1. run_calls (Sleep n # cs) w = Inr w1 \<and> stat (thr (krn w1) t) = RT_THREAD_SUSPEND \<and>
    (Suc (ticks cs) = max (unat n) 1 \<longrightarrow>
      (\<exists>w2. do_call Tick w1 = Inr w2 \<and> alive (krn w2) t \<and> sleep_result t (krn w2) = RT_EOK))"
proof -
  note i = os_reach_inv[OF assms(1)]
  have a: "current (krn w) \<noteq> i" "lock_nest (krn w) = 0" "n < TICK_HALF"
    using assms(2) by (auto simp: may_block_def scheduler_available_def)
  obtain k where k: "rt_thread_sleep n (krn w) = Inr k" "os_inv i (w\<lparr>krn := k\<rparr>)" "counting k t (unat n)"
    "\<forall>q. t \<notin> set (susp k q)"
    using os_sleep_inv[OF i a] by (auto simp: counting_def t_def)
  let ?w = "w\<lparr>krn := k\<rparr>"
  have call: "do_call (Sleep n) w = Inr ?w" using k(1) by (simp add: in_kernel_def)
  have al: "all_allowed i cs ?w" using assms(2) call by simp
  obtain w1 where w1: "run_calls cs ?w = Inr w1" using all_allowed_inv[OF k(2) al] by blast
  have u: "counting (krn w1) t (unat n - ticks cs)" "os_inv i w1"
    using asleep_until[OF k(2) _ _ al w1 assms(3)] k(3,4) by auto
  have "\<exists>w2. do_call Tick w1 = Inr w2 \<and> alive (krn w2) t \<and> sleep_result t (krn w2) = RT_EOK"
    if "Suc (ticks cs) = max (unat n) 1"
  proof -
    obtain w2 where w2: "do_call Tick w1 = Inr w2" using call_inv[OF u(2), of Tick] by auto
    have "unat n - ticks cs \<le> 1" using that by (simp add: max_def split: if_splits)
    then show ?thesis using tick_counting(2)[OF u(2,1) w2] w2 by (simp add: sleep_result_def)
  qed
  then show ?thesis using call w1 u(1) by (auto simp: counting_def)
qed

theorem sleep_on_time_witness:
  "\<exists>k w1. rtthread_startup 1 2 3 (reset_kernel 0) = Inr k \<and>
    run_calls [Sleep 3, Tick, Yield, Tick] (os_start k) = Inr w1 \<and> stat (thr (krn w1) 2) = RT_THREAD_SUSPEND"
proof -
  obtain k where k: "rtthread_startup 1 2 3 (reset_kernel 0) = Inr k" "os_reach 3 (os_start k)" "current k = 2"
    "may_block 3 (os_start k)" "krn (os_start k) = k" using booted by auto
  obtain w where "do_call (Sleep 3) (os_start k) = Inr w" "os_inv 3 w"
    using call_inv[OF os_reach_inv[OF k(2)], of "Sleep 3"] k(4) by auto
  moreover from this have "all_allowed 3 [Tick, Yield, Tick] w" by (intro all_allowed_always) auto
  ultimately have "all_allowed 3 [Sleep 3, Tick, Yield, Tick] (os_start k)" using k(4) by simp
  then show ?thesis using sleep_on_time[OF k(2), of 3 "[Tick, Yield, Tick]"] k(1,3,5) by auto
qed

text \<open>
  A thread that finds a semaphore taken and waits for it with a limit of \<open>n\<close> ticks can
  run again before the clock has ticked \<open>n\<close> times more, whatever the other threads do in
  between.
\<close>

theorem sem_take_times_out:
  assumes "os_reach i w" and "all_allowed i (Sem_Take s n # cs) w" and "0 < n" and "sem_value (sem w s) = 0"
    and "nat n \<le> ticks cs"
  defines "t \<equiv> current (krn w)"
  shows "\<exists>w1. do_call (Sem_Take s n) w = Inr w1 \<and> t \<in> set (susp (krn w1) (Sem_Q s)) \<and>
    (\<exists>j \<le> length cs. \<exists>w2. run_calls (take j cs) w1 = Inr w2 \<and> alive (krn w2) t)"
proof -
  note i = os_reach_inv[OF assms(1)]
  have a: "n < 0x7FFFFFFF" "n \<noteq> 0" "scheduler_available (krn w)" "current (krn w) \<noteq> i"
    using assms(2,3) by (auto simp: may_block_def)
  obtain w1 where w1: "rt_sem_take s n w = Inr (Waiting, w1)" "os_inv i w1" "counting (krn w1) t (nat n)"
    "t \<in> set (susp (krn w1) (Sem_Q s))"
    using sem_take_blocks[OF i a assms(4)] assms(3) by (auto simp: t_def)
  have "all_allowed i cs w1" using assms(2) w1(1) by simp
  then show ?thesis using awake_within[OF w1(2,3)] w1(1,4) assms(3,5) by auto
qed

theorem sem_take_times_out_witness:
  "\<exists>k w1 j w2. rtthread_startup 1 2 3 (reset_kernel 0) = Inr k \<and> do_call (Sem_Take 0 2) (os_start k) = Inr w1 \<and>
    2 \<in> set (susp (krn w1) (Sem_Q 0)) \<and> run_calls (take j [Tick, Yield, Tick]) w1 = Inr w2 \<and> alive (krn w2) 2"
proof -
  obtain k where k: "rtthread_startup 1 2 3 (reset_kernel 0) = Inr k" "os_reach 3 (os_start k)" "current k = 2"
    "may_block 3 (os_start k)" "krn (os_start k) = k" using booted by auto
  obtain w where "do_call (Sem_Take 0 2) (os_start k) = Inr w" "os_inv 3 w"
    using call_inv[OF os_reach_inv[OF k(2)], of "Sem_Take 0 2"] k(4) by auto
  moreover from this have "all_allowed 3 [Tick, Yield, Tick] w" by (intro all_allowed_always) auto
  ultimately have a: "all_allowed 3 [Sem_Take 0 2, Tick, Yield, Tick] (os_start k)" using k(4) by simp
  have "sem_value (sem (os_start k) 0) = 0" by (simp add: os_start_def)
  then show ?thesis using sem_take_times_out[OF k(2) a] k(1,3,5) by auto
qed

section \<open>Yielding\<close>

text \<open>Threads at one priority that all give up the processor whenever they have it.\<close>

fun yields :: "nat \<Rightarrow> kernel \<Rightarrow> kernel res" where
  "yields 0 k = Inr k"
| "yields (Suc n) k = bind_res (rt_thread_yield k) (yields n)"

text \<open>\<open>a\<close> runs, \<open>b\<close> and then \<open>c\<close> are ready at the same priority, which is the highest.\<close>

definition rivals :: "nat \<Rightarrow> nat \<Rightarrow> nat \<Rightarrow> kernel \<Rightarrow> bool" where
  "rivals a b c k \<longleftrightarrow> kinv (tick k) k \<and> lock_nest k = 0 \<and> current k = a \<and> stat (thr k a) = RT_THREAD_RUNNING \<and>
     (\<exists>cs. ready k (prio k a) = b # c # cs) \<and> (\<forall>t. stat (thr k t) = RT_THREAD_READY \<longrightarrow> prio k a \<le> prio k t)"

lemma yield_rivals:
  assumes "rivals a b c k"
  shows "\<exists>k'. rt_thread_yield k = Inr k' \<and> rivals b a c k' \<and> prio k' c = prio k c"
proof -
  define k1 where "k1 = upd a (\<lambda>th. th\<lparr>remaining_tick := slice_tick th, yielded := True\<rparr>) k"
  from assms obtain cs where r: "kinv (tick k) k" "lock_nest k = 0" "current k = a" "stat (thr k a) = RT_THREAD_RUNNING"
    "ready k (prio k a) = b # c # cs" "\<And>t. stat (thr k t) = RT_THREAD_READY \<Longrightarrow> prio k a \<le> prio k t"
    by (auto simp: rivals_def)
  have f: "prio k1 x = prio k x" "stat (thr k1 x) = stat (thr k x)" "ready k1 = ready k" "lock_nest k1 = 0"
    "current k1 = a" "yielded (thr k1 a)" "tick k1 = tick k" for x
    using r(2,3) by (simp_all add: k1_def)
  have i: "kinv (tick k) k1" unfolding k1_def using r(1) by (rule kinv_upd) simp_all
  note ri = kinvD(1)[OF i]
  have d: "distinct (b # c # cs)" and b: "stat (thr k b) = RT_THREAD_READY" "prio k b = prio k a"
    and c: "stat (thr k c) = RT_THREAD_READY" "prio k c = prio k a"
    using ri r(5) f(1-3) unfolding ready_inv_def by (metis list.set_intros)+
  have ne: "a \<noteq> b" "a \<noteq> c" using b c r(4) by auto
  have "ready_group k1 \<noteq> 0" by (rule ready_group_nonzero[OF ri, of b]) (simp add: f b)
  then obtain t p ts where t: "scheduler_get_highest_priority_thread k1 = Inr (t, p)" "ready k1 p = t # ts"
    "stat (thr k1 t) = RT_THREAD_READY" "prio k1 t = p" "\<And>x. stat (thr k1 x) = RT_THREAD_READY \<Longrightarrow> p \<le> prio k1 x"
    using highest_ready[OF ri] by metis
  have "p = prio k a" using t(5)[of b] t(3,4) r(6)[of t] by (simp add: f b)
  then have "p = prio k a" "t = b" using t(2) r(5) by (simp_all add: f)
  note t = this t(1)
  let ?k' = "switch_to b p True (upd a (\<lambda>th. th\<lparr>yielded := False\<rparr>) k1)"
  have y: "rt_thread_yield k = Inr ?k'"
    using t ne r(2,3,4) \<open>ready_group k1 \<noteq> 0\<close> f
    by (simp add: rt_thread_yield_def k1_def[symmetric] rt_schedule_def Let_def)
  obtain k' where "rt_schedule k1 = Inr k'" "kinv (tick k) k'" "same_waiting k1 k'"
    "lock_nest k1 = 0 \<longrightarrow> (\<forall>t. stat (thr k' t) = RT_THREAD_READY \<longrightarrow> prio k' (current k') \<le> prio k' t)"
    "stat (thr k' (current k')) = RT_THREAD_RUNNING"
    using rt_schedule_inv[OF i] f(2,5) r(4) by auto
  then have k': "kinv (tick k) ?k'" "same_waiting k1 ?k'"
    "\<forall>t. stat (thr ?k' t) = RT_THREAD_READY \<longrightarrow> prio ?k' (current ?k') \<le> prio ?k' t"
    "stat (thr ?k' (current ?k')) = RT_THREAD_RUNNING"
    using y f(4) r(3) by (simp_all add: rt_thread_yield_def k1_def[symmetric])
  have p': "prio ?k' x = prio k x" for x using same_waitingD(6)[OF k'(2)] by (simp add: f)
  have "ready ?k' (prio k a) = a # c # cs"
    using ne d r(3,5) f(1,3,5)
    by (simp add: switch_to_def Let_def rt_schedule_insert_thread_def set_stat_def removeAll_id)
  then have "rivals b a c ?k'"
    using k' p' same_waitingD(2,4)[OF k'(2)] f b r(3) by (simp add: rivals_def)
  then show ?thesis using y p' by blast
qed

text \<open>
  C40. Of three threads of the highest priority that keep yielding, the third never runs: the
  schedule clears the flag that says a thread has yielded before it puts the thread back,
  so the thread goes to the front of its queue and not to the end.
\<close>

theorem yield_starves:
  assumes "rivals a b c k"
  shows "\<exists>k'. yields n k = Inr k' \<and> current k' \<in> {a, b} \<and> current k' \<noteq> c \<and> stat (thr k' c) = RT_THREAD_READY"
  using assms
proof (induction n arbitrary: a b k)
  case 0
  then have r: "kinv (tick k) k" "current k = a" "stat (thr k a) = RT_THREAD_RUNNING" "c \<in> set (ready k (prio k a))"
    by (auto simp: rivals_def simp del: not_gr_zero)
  have "stat (thr k c) = RT_THREAD_READY" using kinvD(1)[OF r(1)] r(4) by (simp add: ready_inv_def)
  moreover from this have "c \<noteq> a" using r(3) by auto
  ultimately show ?case using r(2) by simp
next
  case (Suc n)
  obtain k' where "rt_thread_yield k = Inr k'" "rivals b a c k'" using yield_rivals[OF Suc.prems] by blast
  then show ?case using Suc.IH[of b a k'] by auto
qed

text \<open>Threads 0, 1 and 2 at priority 10.\<close>

definition three_threads :: kernel where
  "three_threads = (reset_kernel 0)
     \<lparr>thr := \<lambda>t. (thr (reset_kernel 0) t)\<lparr>stat := if t = 0 then RT_THREAD_RUNNING else if t < 3 then RT_THREAD_READY
        else RT_THREAD_INIT, current_priority := 10, number_mask := push_bit 10 1\<rparr>,
      ready := (\<lambda>_. [])(10 := [1, 2]), ready_group := push_bit 10 1\<rparr>"

lemma three_threads_fields:
  "stat (thr three_threads t) = (if t = 0 then RT_THREAD_RUNNING else if t < 3 then RT_THREAD_READY else RT_THREAD_INIT)"
  "prio three_threads t = 10" "number_mask (thr three_threads t) = push_bit 10 1"
  "\<not> activated (thread_timer (thr three_threads t))" "ready three_threads p = (if p = 10 then [1, 2] else [])"
  "ready_group three_threads = push_bit 10 1" "susp three_threads q = []" "timer_list three_threads = []"
  "current three_threads = 0" "lock_nest three_threads = 0"
  by (simp_all add: three_threads_def reset_kernel_def)

lemma rivals_three: "rivals 0 1 2 three_threads"
proof -
  have "bit (push_bit 10 1 :: u32) p \<longleftrightarrow> p = 10" for p
    unfolding push_bit_of_1 bit_exp_iff by auto
  moreover have "t \<in> set (ready three_threads p) \<longleftrightarrow> stat (thr three_threads t) = RT_THREAD_READY \<and> 10 = p" for p t
    unfolding three_threads_fields by auto
  ultimately have "ready_inv three_threads"
    unfolding ready_inv_def by (simp add: three_threads_fields del: push_bit_of_1)
  moreover have "wait_inv three_threads" "timer_inv (tick three_threads) three_threads" "running_inv three_threads"
    by (simp_all add: wait_inv_def timer_inv_def running_inv_def three_threads_fields)
  ultimately have "kinv (tick three_threads) three_threads" by (simp add: kinv_def)
  then show ?thesis unfolding rivals_def by (simp add: three_threads_fields)
qed

theorem yield_starves_witness:
  "\<exists>k'. yields 7 three_threads = Inr k' \<and> current k' \<noteq> 2 \<and> stat (thr k' 2) = RT_THREAD_READY"
  using yield_starves[OF rivals_three, of 7] by blast

section \<open>Releasing a mutex nobody waits for\<close>

text \<open>
  A thread whose priority was raised and whose waiting rivals have given up is put back to
  its own priority by the release, but without a schedule: it keeps the processor although a
  thread of higher priority is ready.
\<close>

theorem mutex_release_keeps_processor:
  assumes "owner (mutex w m) = Some (current (krn w))" and "hold (mutex w m) = 1" and "irq_nest (krn w) = 0"
    and "mutex_value (mutex w m) = 0" and "susp (krn w) (Mutex_Q m) = []"
    and "stat (thr (krn w) (current (krn w))) = RT_THREAD_RUNNING"
    and "stat (thr (krn w) t) = RT_THREAD_READY" and "prio (krn w) t < original_priority (mutex w m)"
    and "original_priority (mutex w m) \<noteq> prio (krn w) (current (krn w))"
  shows "\<exists>w'. rt_mutex_release m w = Inr (RT_EOK, w') \<and> current (krn w') = current (krn w) \<and>
    stat (thr (krn w') t) = RT_THREAD_READY \<and> prio (krn w') t < prio (krn w') (current (krn w'))"
proof -
  have "t \<noteq> current (krn w)" using assms(6,7) by auto
  then show ?thesis
    using assms
    by (simp add: rt_mutex_release_def mutex_hand_over_def Let_def change_priority_def set_priority_def
        RT_MUTEX_VALUE_MAX_def)
qed

definition boosted :: os where
  "boosted = (os_start three_threads)
     \<lparr>mutex := \<lambda>_. \<lparr>mutex_value = 0, original_priority = 20, hold = 1, owner = Some 0\<rparr>\<rparr>"

theorem mutex_release_keeps_processor_witness:
  "\<exists>w'. rt_mutex_release 5 boosted = Inr (RT_EOK, w') \<and> current (krn w') = 0 \<and>
    stat (thr (krn w') 1) = RT_THREAD_READY \<and> prio (krn w') 1 < prio (krn w') 0"
proof -
  have b: "mutex boosted 5 = \<lparr>mutex_value = 0, original_priority = 20, hold = 1, owner = Some 0\<rparr>"
    "current (krn boosted) = 0" "irq_nest (krn boosted) = 0" "susp (krn boosted) (Mutex_Q 5) = []"
    "stat (thr (krn boosted) 0) = RT_THREAD_RUNNING" "stat (thr (krn boosted) 1) = RT_THREAD_READY"
    "prio (krn boosted) t = 10" for t
    by (simp_all add: boosted_def os_start_def three_threads_def reset_kernel_def)
  show ?thesis using mutex_release_keeps_processor[of boosted 5 1] b by fastforce
qed

end
