(* ===== verification/Objects.thy ===== *)
theory Objects
  imports Kernel
begin

text \<open>
  The state of the system with the objects that carry data between threads: events, mailboxes
  and message queues (\<^verbatim>\<open>rt-thread/src/ipc.c\<close>) and memory pools (\<^verbatim>\<open>mempool.c\<close>), on top of the kernel with its semaphores and
  mutexes. A call that waits goes on after a later schedule; where it goes on is recorded
  for its thread. The parts that the waiting calls share are defined here.
\<close>

section \<open>State\<close>

abbreviation (input) RT_EVENT_FLAG_AND :: u8 where "RT_EVENT_FLAG_AND \<equiv> 1"
abbreviation (input) RT_EVENT_FLAG_OR :: u8 where "RT_EVENT_FLAG_OR \<equiv> 2"
abbreviation (input) RT_EVENT_FLAG_CLEAR :: u8 where "RT_EVENT_FLAG_CLEAR \<equiv> 4"
abbreviation (input) RT_MB_ENTRY_MAX :: nat where "RT_MB_ENTRY_MAX \<equiv> 65535"
abbreviation (input) RT_MQ_ENTRY_MAX :: nat where "RT_MQ_ENTRY_MAX \<equiv> 65535"

record rt_event =
  ev_set :: u32
  ev_flag :: nat

record rt_mailbox =
  msg_pool :: "u32 list"
  mb_size :: nat
  entry :: nat
  in_offset :: nat
  out_offset :: nat
  mb_flag :: nat

text \<open>
  The nodes of a message queue are numbered in the order of the pool; a pointer to a node is
  its number, a null pointer is \<open>None\<close>. \<open>mq_bytes\<close> is the size of the memory behind the
  pool, which the code does not keep: every access to a node is checked against it.
\<close>

record rt_messagequeue =
  msg_size :: nat
  max_msgs :: nat
  mq_entry :: nat
  queue_head :: "nat option"
  queue_tail :: "nat option"
  queue_free :: "nat option"
  msg_next :: "nat \<Rightarrow> nat option"
  msg_data :: "nat \<Rightarrow> u8 list"
  mq_flag :: nat
  mq_bytes :: nat

text \<open>
  The blocks of a memory pool are numbered in the order of the pool. The word in front of a block
  is the link to the next free block, or, while the block is handed out, the pool. \<open>mp_stride\<close> is
  the distance of two blocks, \<^verbatim>\<open>block_size\<close> and the word in front, and \<open>mp_bytes\<close> the size of the memory that
  the pool was given.
\<close>

datatype block_head = Free_Link "nat option" | In_Pool nat

record rt_mempool =
  block_total_count :: nat
  block_free_count :: nat
  block_list :: "nat option"
  block_head :: "nat \<Rightarrow> block_head"
  mp_stride :: nat
  mp_bytes :: nat

text \<open>
  Where a thread goes on: in no call, after the schedule of a waiting call (with the arguments
  of the call and the tick at which the wait began), or where \<^verbatim>\<open>rt_mq_send_wait\<close>,
  \<^verbatim>\<open>rt_mq_urgent\<close> and \<^verbatim>\<open>rt_mq_recv\<close> copy a message with interrupts enabled.
\<close>

datatype pending =
    No_Call
  | Event_Wait nat
  | Mb_Send_Wait nat u32 int u32
  | Mb_Recv_Wait nat int u32
  | Mq_Send_Wait nat "u8 list" int u32
  | Mq_Recv_Wait nat nat int u32
  | Mq_Copy_In nat nat "u8 list" bool
  | Mq_Copy_Out nat nat nat
  | Mp_Wait nat int u32

record sys =
  base :: os
  event_set :: "nat \<Rightarrow> u32"
  event_info :: "nat \<Rightarrow> u8"
  event :: "nat \<Rightarrow> rt_event"
  mailbox :: "nat \<Rightarrow> rt_mailbox"
  msgq :: "nat \<Rightarrow> rt_messagequeue"
  mempool :: "nat \<Rightarrow> rt_mempool"
  pending :: "nat \<Rightarrow> pending"

abbreviation sk :: "sys \<Rightarrow> kernel" where "sk s \<equiv> krn (base s)"

definition set_kernel :: "kernel \<Rightarrow> sys \<Rightarrow> sys" where
  "set_kernel k s = s\<lparr>base := (base s)\<lparr>krn := k\<rparr>\<rparr>"

definition set_pending :: "nat \<Rightarrow> pending \<Rightarrow> sys \<Rightarrow> sys" where
  "set_pending t p s = s\<lparr>pending := (pending s)(t := p)\<rparr>"

text \<open>
  What a step of a call shows: it waits or goes on later, it returns an error code without
  data, or it returns \<^verbatim>\<open>RT_EOK\<close> and has moved data.
\<close>

datatype outcome =
    Not_Yet
  | Finished rt_err_t
  | Got_Event u32
  | Sent_Mail nat u32
  | Urgent_Mail nat u32
  | Got_Mail nat u32
  | Sent_Message nat "u8 list"
  | Urgent_Message nat "u8 list"
  | Got_Message nat "u8 list"
  | Got_Block nat nat
  | Freed_Block nat nat

section \<open>Waiting and waking\<close>

text \<open>Wait in a queue, for \<open>timeout\<close> ticks if it is positive and for ever if it is negative.\<close>

definition wait_in :: "wait_queue \<Rightarrow> nat \<Rightarrow> int \<Rightarrow> pending \<Rightarrow> sys \<Rightarrow> (outcome \<times> sys) res" where
  "wait_in q flag timeout p s =
     (let t = current (sk s) in
      bind_res (ipc_list_suspend q t flag (set_error t RT_EOK (sk s))) (\<lambda>k1.
      bind_res (wait_schedule t timeout k1) (\<lambda>(_, k2).
        Inr (Not_Yet, set_pending t p (set_kernel k2 s)))))"

text \<open>Wait in front of the other threads of a queue.\<close>

definition suspend_first :: "wait_queue \<Rightarrow> nat \<Rightarrow> kernel \<Rightarrow> kernel res" where
  "suspend_first q t k = bind_res (rt_thread_suspend t k) (\<lambda>(_, k1). Inr (k1\<lparr>susp := (susp k1)(q := t # susp k1 q)\<rparr>))"

definition wait_first :: "wait_queue \<Rightarrow> int \<Rightarrow> pending \<Rightarrow> sys \<Rightarrow> (outcome \<times> sys) res" where
  "wait_first q timeout p s =
     (let t = current (sk s) in
      bind_res (suspend_first q t (set_error t RT_EOK (sk s))) (\<lambda>k1.
      bind_res (wait_schedule t timeout k1) (\<lambda>(_, k2).
        Inr (Not_Yet, set_pending t p (set_kernel k2 s)))))"

text \<open>
  The time that is left after a wait that began at tick \<open>start\<close>; the subtraction is that of
  32-bit numbers, and its result is read as a signed number.
\<close>

definition time_left :: "int \<Rightarrow> u32 \<Rightarrow> u32 \<Rightarrow> int" where
  "time_left timeout start now =
     (if timeout > 0
      then let left = sint (of_int timeout - (now - start) :: u32) in if left < 0 then 0 else left
      else timeout)"

text \<open>Wake the first thread of a queue, if there is one, and give it the chance to run.\<close>

definition resume_first :: "wait_queue \<Rightarrow> kernel \<Rightarrow> kernel res" where
  "resume_first q k = (if susp k q \<noteq> [] then bind_res (ipc_list_resume q k) rt_schedule else Inr k)"

text \<open>Wake all threads of two queues with an error.\<close>

definition resume_both :: "wait_queue \<Rightarrow> wait_queue \<Rightarrow> kernel \<Rightarrow> kernel res" where
  "resume_both q q' k = bind_res (ipc_list_resume_all q k) (ipc_list_resume_all q')"

end
