(* ===== verification/Event.thy ===== *)
theory Event
  imports Objects
begin

text \<open>
  Events (\<^verbatim>\<open>rt_event_*\<close> of \<^verbatim>\<open>rt-thread/src/ipc.c\<close>): 32 flags; a thread waits until all or
  some of the flags it names are set.
\<close>

definition rt_event_init :: "nat \<Rightarrow> nat \<Rightarrow> sys \<Rightarrow> sys res" where
  "rt_event_init e flag s =
     (if flag = RT_IPC_FLAG_FIFO \<or> flag = RT_IPC_FLAG_PRIO
      then Inr ((set_kernel ((sk s)\<lparr>susp := (susp (sk s))(Event_Q e := [])\<rparr>) s)
             \<lparr>event := (event s)(e := \<lparr>ev_set = 0, ev_flag = flag\<rparr>)\<rparr>)
      else Inl Assert_Failed)"

definition rt_event_detach :: "nat \<Rightarrow> sys \<Rightarrow> sys res" where
  "rt_event_detach e s = bind_res (ipc_list_resume_all (Event_Q e) (sk s)) (\<lambda>k. Inr (set_kernel k s))"

text \<open>
  The loop of \<^verbatim>\<open>rt_event_send\<close> over the waiting threads. It carries the flags of the event,
  the flags each thread waits for or has got, the kernel, and whether a thread was
  woken; a thread with neither option ends it with an error.
\<close>

record event_scan =
  scan_set :: u32
  scan_event_set :: "nat \<Rightarrow> u32"
  scan_kernel :: kernel
  need_schedule :: bool

definition event_wake :: "u8 \<Rightarrow> nat \<Rightarrow> event_scan \<Rightarrow> event_scan" where
  "event_wake info t x =
     x\<lparr>scan_set := (if info AND RT_EVENT_FLAG_CLEAR \<noteq> 0
                   then scan_set x AND NOT (scan_event_set x t) else scan_set x),
       scan_kernel := snd (rt_thread_resume t (scan_kernel x)), need_schedule := True\<rparr>"

fun event_send_loop :: "(nat \<Rightarrow> u8) \<Rightarrow> nat list \<Rightarrow> event_scan \<Rightarrow> bool \<times> event_scan" where
  "event_send_loop info [] x = (True, x)"
| "event_send_loop info (t # ts) x =
     (if info t AND RT_EVENT_FLAG_AND \<noteq> 0
      then if scan_event_set x t AND scan_set x = scan_event_set x t
           then event_send_loop info ts (event_wake (info t) t x)
           else event_send_loop info ts x
      else if info t AND RT_EVENT_FLAG_OR \<noteq> 0
      then if scan_event_set x t AND scan_set x \<noteq> 0
           then event_send_loop info ts (event_wake (info t) t
                  (x\<lparr>scan_event_set := (scan_event_set x)(t := scan_event_set x t AND scan_set x)\<rparr>))
           else event_send_loop info ts x
      else (False, x))"

definition rt_event_send :: "nat \<Rightarrow> u32 \<Rightarrow> sys \<Rightarrow> (outcome \<times> sys) res" where
  "rt_event_send e bits s =
     (if bits = 0 then Inr (Finished (- RT_ERROR), s)
      else case event_send_loop (event_info s) (susp (sk s) (Event_Q e))
             \<lparr>scan_set = ev_set (event s e) OR bits, scan_event_set = event_set s, scan_kernel = sk s,
              need_schedule = False\<rparr> of (ok, x) \<Rightarrow>
        let s1 = (set_kernel (scan_kernel x) s)
              \<lparr>event := (event s)(e := (event s e)\<lparr>ev_set := scan_set x\<rparr>), event_set := scan_event_set x\<rparr>
        in if \<not> ok then Inr (Finished (- RT_EINVAL), s1)
           else if need_schedule x
           then bind_res (rt_schedule (sk s1)) (\<lambda>k. Inr (Finished RT_EOK, set_kernel k s1))
           else Inr (Finished RT_EOK, s1))"

text \<open>Are the flags there that a thread asks for?\<close>

definition event_ready :: "u32 \<Rightarrow> u8 \<Rightarrow> u32 \<Rightarrow> bool" where
  "event_ready bits option flags \<longleftrightarrow>
     (if option AND RT_EVENT_FLAG_AND \<noteq> 0 then flags AND bits = bits else flags AND bits \<noteq> 0)"

definition rt_event_recv :: "nat \<Rightarrow> u32 \<Rightarrow> u8 \<Rightarrow> int \<Rightarrow> sys \<Rightarrow> (outcome \<times> sys) res" where
  "rt_event_recv e bits option timeout s =
     (if \<not> scheduler_available (sk s) then Inl Assert_Failed
      else if bits = 0 then Inr (Finished (- RT_ERROR), s)
      else if option AND RT_EVENT_FLAG_AND = 0 \<and> option AND RT_EVENT_FLAG_OR = 0 then Inl Assert_Failed
      else let t = current (sk s); s1 = set_kernel (set_error t RT_EOK (sk s)) s; flags = ev_set (event s1 e) in
        if event_ready bits option flags
        then Inr (Got_Event (flags AND bits), s1\<lparr>event_set := (event_set s1)(t := flags AND bits),
               event_info := (event_info s1)(t := option),
               event := (event s1)(e := (event s1 e)\<lparr>ev_set :=
                 if option AND RT_EVENT_FLAG_CLEAR \<noteq> 0 then flags AND NOT bits else flags\<rparr>)\<rparr>)
        else if timeout = 0
        then Inr (Finished (- RT_ETIMEOUT), set_kernel (set_error t (- RT_ETIMEOUT) (sk s1)) s1)
        else wait_in (Event_Q e) (ev_flag (event s1 e)) timeout (Event_Wait e)
               (s1\<lparr>event_set := (event_set s1)(t := bits), event_info := (event_info s1)(t := option)\<rparr>))"

text \<open>After the wait.\<close>

definition event_recv_resume :: "nat \<Rightarrow> sys \<Rightarrow> (outcome \<times> sys) res" where
  "event_recv_resume t s =
     (if error (thr (sk s) t) \<noteq> RT_EOK then Inr (Finished (error (thr (sk s) t)), s)
      else Inr (Got_Event (event_set s t), s))"

text \<open>\<open>reset\<close>: the command is \<^verbatim>\<open>RT_IPC_CMD_RESET\<close>.\<close>

definition rt_event_control :: "nat \<Rightarrow> bool \<Rightarrow> sys \<Rightarrow> (outcome \<times> sys) res" where
  "rt_event_control e reset s =
     (if reset
      then bind_res (ipc_list_resume_all (Event_Q e) (sk s)) (\<lambda>k1.
           bind_res (rt_schedule k1) (\<lambda>k2.
             Inr (Finished RT_EOK, (set_kernel k2 s)\<lparr>event := (event s)(e := (event s e)\<lparr>ev_set := 0\<rparr>)\<rparr>)))
      else Inr (Finished (- RT_ERROR), s))"

end
