(* ===== verification/Mailbox.thy ===== *)
theory Mailbox
  imports Objects Fifo_Spec
begin

text \<open>
  Mailboxes (\<^verbatim>\<open>rt_mb_*\<close> of \<^verbatim>\<open>rt-thread/src/ipc.c\<close>): a ring of 32-bit values with a queue of
  threads that wait for a value and one of threads that wait for room. Counters are 16-bit
  numbers; they are written as natural numbers, reduced where the code assigns them.
\<close>

section \<open>The ring of values\<close>

definition rt_mb_init :: "nat \<Rightarrow> u32 list \<Rightarrow> nat \<Rightarrow> nat \<Rightarrow> sys \<Rightarrow> sys res" where
  "rt_mb_init b pool sz flag s =
     (if flag = RT_IPC_FLAG_FIFO \<or> flag = RT_IPC_FLAG_PRIO
      then Inr ((set_kernel ((sk s)\<lparr>susp := (susp (sk s))(Mb_Recv_Q b := [], Mb_Send_Q b := [])\<rparr>) s)
             \<lparr>mailbox := (mailbox s)(b := \<lparr>msg_pool = pool, mb_size = sz mod 65536, entry = 0, in_offset = 0,
                out_offset = 0, mb_flag = flag\<rparr>)\<rparr>)
      else Inl Assert_Failed)"

definition rt_mb_detach :: "nat \<Rightarrow> sys \<Rightarrow> sys res" where
  "rt_mb_detach b s = bind_res (resume_both (Mb_Recv_Q b) (Mb_Send_Q b) (sk s)) (\<lambda>k. Inr (set_kernel k s))"

text \<open>The value is stored at the input offset.\<close>

definition mb_store :: "u32 \<Rightarrow> rt_mailbox \<Rightarrow> (bool \<times> rt_mailbox) res" where
  "mb_store v mb =
     (if in_offset mb < length (msg_pool mb)
      then let i = (in_offset mb + 1) mod 65536;
               mb1 = mb\<lparr>msg_pool := (msg_pool mb)[in_offset mb := v], in_offset := if i \<ge> mb_size mb then 0 else i\<rparr>
           in if entry mb1 < RT_MB_ENTRY_MAX then Inr (True, mb1\<lparr>entry := entry mb1 + 1\<rparr>) else Inr (False, mb1)
      else Inl Out_Of_Bounds)"

text \<open>The value at the output offset is taken.\<close>

definition mb_fetch :: "rt_mailbox \<Rightarrow> (u32 \<times> rt_mailbox) res" where
  "mb_fetch mb =
     (if out_offset mb < length (msg_pool mb)
      then let i = (out_offset mb + 1) mod 65536
           in Inr (msg_pool mb ! out_offset mb,
                mb\<lparr>out_offset := if i \<ge> mb_size mb then 0 else i,
                   entry := if entry mb > 0 then entry mb - 1 else entry mb\<rparr>)
      else Inl Out_Of_Bounds)"

text \<open>The value is stored before the output offset.\<close>

definition mb_store_first :: "u32 \<Rightarrow> rt_mailbox \<Rightarrow> rt_mailbox res" where
  "mb_store_first v mb =
     (let i = (if out_offset mb > 0 then out_offset mb - 1 else (mb_size mb + 65535) mod 65536) in
      if i < length (msg_pool mb)
      then Inr (mb\<lparr>out_offset := i, msg_pool := (msg_pool mb)[i := v], entry := (entry mb + 1) mod 65536\<rparr>)
      else Inl Out_Of_Bounds)"

text \<open>
  A mailbox in a sound state, and what is in it. The three accesses implement the
  bounded queue.
\<close>

definition mb_ok :: "rt_mailbox \<Rightarrow> bool" where
  "mb_ok mb \<longleftrightarrow> length (msg_pool mb) = mb_size mb \<and> mb_size mb < 65536 \<and> entry mb \<le> mb_size mb \<and>
     (mb_flag mb = RT_IPC_FLAG_FIFO \<or> mb_flag mb = RT_IPC_FLAG_PRIO) \<and>
     (0 < mb_size mb \<longrightarrow> out_offset mb < mb_size mb \<and> in_offset mb = (out_offset mb + entry mb) mod mb_size mb)"

definition mb_list :: "rt_mailbox \<Rightarrow> u32 list" where
  "mb_list mb = ring_slice (msg_pool mb) (out_offset mb) (entry mb)"

lemma length_mb_list [simp]: "length (mb_list mb) = entry mb"
  by (simp add: mb_list_def)

definition mb_enq :: "u32 \<Rightarrow> rt_mailbox \<Rightarrow> rt_mailbox option" where
  "mb_enq v mb = (if entry mb = mb_size mb then None
     else case mb_store v mb of Inr (True, mb') \<Rightarrow> Some mb' | _ \<Rightarrow> None)"

definition mb_push :: "u32 \<Rightarrow> rt_mailbox \<Rightarrow> rt_mailbox option" where
  "mb_push v mb = (if entry mb = mb_size mb then None
     else case mb_store_first v mb of Inr mb' \<Rightarrow> Some mb' | Inl _ \<Rightarrow> None)"

definition mb_deq :: "rt_mailbox \<Rightarrow> (u32 \<times> rt_mailbox) option" where
  "mb_deq mb = (if entry mb = 0 then None else case mb_fetch mb of Inr r \<Rightarrow> Some r | Inl _ \<Rightarrow> None)"

lemma offset_next: "g < n \<Longrightarrow> n < 65536 \<Longrightarrow> (if n \<le> (g + 1) mod 65536 then 0 else (g + 1) mod 65536) = Suc g mod (n :: nat)"
  by (cases "Suc g = n") auto

lemma mb_store_ok:
  assumes "mb_ok mb" and "entry mb < mb_size mb"
  shows "\<exists>mb'. mb_store v mb = Inr (True, mb') \<and> mb_ok mb' \<and> mb_list mb' = mb_list mb @ [v] \<and>
    entry mb' = entry mb + 1 \<and> mb_size mb' = mb_size mb \<and> mb_flag mb' = mb_flag mb"
proof -
  have m: "length (msg_pool mb) = mb_size mb" "mb_size mb < 65536" "in_offset mb = (out_offset mb + entry mb) mod mb_size mb"
    "in_offset mb < mb_size mb" using assms by (auto simp: mb_ok_def)
  have "ring_slice ((msg_pool mb)[in_offset mb := v]) (out_offset mb) (Suc (entry mb)) = mb_list mb @ [v]"
    using ring_slice_append[of "entry mb" "msg_pool mb" "out_offset mb" v] assms(2) m by (simp add: mb_list_def)
  then show ?thesis
    using assms m offset_next[OF m(4,2)]
    by (auto simp: mb_store_def Let_def mb_ok_def mb_list_def mod_Suc_eq)
qed

lemma mb_store_first_ok:
  assumes "mb_ok mb" and "entry mb < mb_size mb"
  shows "\<exists>mb'. mb_store_first v mb = Inr mb' \<and> mb_ok mb' \<and> mb_list mb' = v # mb_list mb \<and>
    entry mb' = entry mb + 1 \<and> mb_size mb' = mb_size mb \<and> mb_flag mb' = mb_flag mb"
proof -
  define h where "h = (if 0 < out_offset mb then out_offset mb - 1 else mb_size mb - 1)"
  have m: "length (msg_pool mb) = mb_size mb" "mb_size mb < 65536" "in_offset mb = (out_offset mb + entry mb) mod mb_size mb"
    "out_offset mb < mb_size mb" using assms by (auto simp: mb_ok_def)
  have h: "h < mb_size mb" "(h + Suc (entry mb)) mod mb_size mb = in_offset mb"
    "(mb_size mb + 65535) mod 65536 = mb_size mb - 1"
  proof -
    show "h < mb_size mb" using m(4) by (auto simp: h_def)
    have "Suc h mod mb_size mb = out_offset mb" using m(4) by (auto simp: h_def)
    then show "(h + Suc (entry mb)) mod mb_size mb = in_offset mb"
      using m(3) by (metis add_Suc_right add_Suc mod_add_left_eq)
    have "mb_size mb + 65535 = 65536 + (mb_size mb - 1)" using m(4) by simp
    then show "(mb_size mb + 65535) mod 65536 = mb_size mb - 1"
      using m(2) by (metis diff_le_self le_less_trans mod_add_self1 mod_less)
  qed
  have "ring_slice ((msg_pool mb)[h := v]) h (Suc (entry mb)) = v # mb_list mb"
    unfolding mb_list_def by (rule ring_slice_push) (use assms(2) m in \<open>simp_all add: h_def\<close>)
  moreover have i: "(if out_offset mb > 0 then out_offset mb - 1 else (mb_size mb + 65535) mod 65536) = h"
    by (simp add: h(3) h_def)
  have "mb_store_first v mb = Inr (mb\<lparr>out_offset := h, msg_pool := (msg_pool mb)[h := v], entry := entry mb + 1\<rparr>)"
    unfolding mb_store_first_def Let_def i using h(1) m assms(2) by simp
  ultimately show ?thesis using assms h(1,2) m by (auto simp: mb_ok_def mb_list_def)
qed

lemma mb_fetch_ok:
  assumes "mb_ok mb" and "0 < entry mb"
  shows "\<exists>v mb'. mb_fetch mb = Inr (v, mb') \<and> mb_ok mb' \<and> mb_list mb = v # mb_list mb' \<and>
    entry mb' = entry mb - 1 \<and> mb_size mb' = mb_size mb \<and> mb_flag mb' = mb_flag mb"
proof -
  have m: "length (msg_pool mb) = mb_size mb" "mb_size mb < 65536" "in_offset mb = (out_offset mb + entry mb) mod mb_size mb"
    "out_offset mb < mb_size mb" using assms by (auto simp: mb_ok_def)
  obtain n where n: "entry mb = Suc n" using assms(2) by (cases "entry mb") auto
  have "(Suc (out_offset mb) mod mb_size mb + n) mod mb_size mb = in_offset mb"
    using m(3) n by (simp add: mod_add_left_eq)
  then show ?thesis
    using assms(1) m n offset_next[OF m(4,2)] ring_slice_Cons[of "msg_pool mb" "out_offset mb" n]
    by (auto simp: mb_fetch_def Let_def mb_ok_def mb_list_def)
qed

interpretation mbq: bounded_queue mb_enq mb_push mb_deq mb_list mb_ok mb_size "\<lambda>_ _. True"
proof unfold_locales
  fix q :: rt_mailbox and x :: u32
  assume q: "mb_ok q"
  show "length (mb_list q) \<le> mb_size q" using q by (simp add: mb_ok_def)
  show "length (mb_list q) = mb_size q \<Longrightarrow> mb_enq x q = None" by (simp add: mb_enq_def)
  show "length (mb_list q) = mb_size q \<Longrightarrow> mb_push x q = None" by (simp add: mb_push_def)
  show "mb_list q = [] \<Longrightarrow> mb_deq q = None" using length_mb_list[of q] by (simp add: mb_deq_def)
  show "\<exists>q'. mb_enq x q = Some q' \<and> mb_list q' = mb_list q @ [x] \<and> mb_ok q' \<and> mb_size q' = mb_size q \<and>
      (\<lambda>_. True) = (\<lambda>_. True)" if "length (mb_list q) < mb_size q"
    using mb_store_ok[OF q, of x] that by (auto simp: mb_enq_def)
  show "\<exists>q'. mb_push x q = Some q' \<and> mb_list q' = x # mb_list q \<and> mb_ok q' \<and> mb_size q' = mb_size q \<and>
      (\<lambda>_. True) = (\<lambda>_. True)" if "length (mb_list q) < mb_size q"
    using mb_store_first_ok[OF q, of x] that by (auto simp: mb_push_def)
  show "\<exists>q'. mb_deq q = Some (x, q') \<and> mb_list q' = xs \<and> mb_ok q' \<and> mb_size q' = mb_size q \<and>
      (\<lambda>_. True) = (\<lambda>_. True)" if "mb_list q = x # xs" for xs
    using mb_fetch_ok[OF q] that length_mb_list[of q] by (auto simp: mb_deq_def)
qed

section \<open>The calls\<close>

definition set_mailbox :: "nat \<Rightarrow> rt_mailbox \<Rightarrow> sys \<Rightarrow> sys" where
  "set_mailbox b mb s = s\<lparr>mailbox := (mailbox s)(b := mb)\<rparr>"

text \<open>
  The part of \<^verbatim>\<open>rt_mb_send_wait\<close> from the loop on, which is also where it goes on after a
  wait.
\<close>

definition mb_send_loop :: "nat \<Rightarrow> u32 \<Rightarrow> int \<Rightarrow> sys \<Rightarrow> (outcome \<times> sys) res" where
  "mb_send_loop b v timeout s =
     (let mb = mailbox s b; t = current (sk s) in
      if entry mb = mb_size mb
      then if timeout = 0 then Inr (Finished (- RT_EFULL), set_kernel (set_error t RT_EOK (sk s)) s)
           else wait_in (Mb_Send_Q b) (mb_flag mb) timeout (Mb_Send_Wait b v timeout (tick (sk s))) s
      else bind_res (mb_store v mb) (\<lambda>(ok, mb').
             let s1 = set_mailbox b mb' s in
             if \<not> ok then Inr (Finished (- RT_EFULL), s1)
             else bind_res (resume_first (Mb_Recv_Q b) (sk s1)) (\<lambda>k. Inr (Sent_Mail b v, set_kernel k s1))))"

definition rt_mb_send_wait :: "nat \<Rightarrow> u32 \<Rightarrow> int \<Rightarrow> sys \<Rightarrow> (outcome \<times> sys) res" where
  "rt_mb_send_wait b v timeout s =
     (if timeout \<noteq> 0 \<and> \<not> scheduler_available (sk s) then Inl Assert_Failed
      else if entry (mailbox s b) = mb_size (mailbox s b) \<and> timeout = 0 then Inr (Finished (- RT_EFULL), s)
      else mb_send_loop b v timeout s)"

definition mb_send_resume :: "nat \<Rightarrow> nat \<Rightarrow> u32 \<Rightarrow> int \<Rightarrow> u32 \<Rightarrow> sys \<Rightarrow> (outcome \<times> sys) res" where
  "mb_send_resume t b v timeout start s =
     (if error (thr (sk s) t) \<noteq> RT_EOK then Inr (Finished (error (thr (sk s) t)), s)
      else mb_send_loop b v (time_left timeout start (tick (sk s))) s)"

definition rt_mb_send :: "nat \<Rightarrow> u32 \<Rightarrow> sys \<Rightarrow> (outcome \<times> sys) res" where
  "rt_mb_send b v = rt_mb_send_wait b v 0"

definition rt_mb_urgent :: "nat \<Rightarrow> u32 \<Rightarrow> sys \<Rightarrow> (outcome \<times> sys) res" where
  "rt_mb_urgent b v s =
     (let mb = mailbox s b in
      if entry mb = mb_size mb then Inr (Finished (- RT_EFULL), s)
      else bind_res (mb_store_first v mb) (\<lambda>mb'.
             let s1 = set_mailbox b mb' s in
             bind_res (resume_first (Mb_Recv_Q b) (sk s1)) (\<lambda>k. Inr (Urgent_Mail b v, set_kernel k s1))))"

definition mb_recv_loop :: "nat \<Rightarrow> int \<Rightarrow> sys \<Rightarrow> (outcome \<times> sys) res" where
  "mb_recv_loop b timeout s =
     (let mb = mailbox s b; t = current (sk s) in
      if entry mb = 0
      then if timeout = 0
           then Inr (Finished (- RT_ETIMEOUT), set_kernel (set_error t (- RT_ETIMEOUT) (set_error t RT_EOK (sk s))) s)
           else wait_in (Mb_Recv_Q b) (mb_flag mb) timeout (Mb_Recv_Wait b timeout (tick (sk s))) s
      else bind_res (mb_fetch mb) (\<lambda>(v, mb').
             let s1 = set_mailbox b mb' s in
             bind_res (resume_first (Mb_Send_Q b) (sk s1)) (\<lambda>k. Inr (Got_Mail b v, set_kernel k s1))))"

definition rt_mb_recv :: "nat \<Rightarrow> int \<Rightarrow> sys \<Rightarrow> (outcome \<times> sys) res" where
  "rt_mb_recv b timeout s =
     (if timeout \<noteq> 0 \<and> \<not> scheduler_available (sk s) then Inl Assert_Failed
      else if entry (mailbox s b) = 0 \<and> timeout = 0 then Inr (Finished (- RT_ETIMEOUT), s)
      else mb_recv_loop b timeout s)"

definition mb_recv_resume :: "nat \<Rightarrow> nat \<Rightarrow> int \<Rightarrow> u32 \<Rightarrow> sys \<Rightarrow> (outcome \<times> sys) res" where
  "mb_recv_resume t b timeout start s =
     (if error (thr (sk s) t) \<noteq> RT_EOK then Inr (Finished (error (thr (sk s) t)), s)
      else mb_recv_loop b (time_left timeout start (tick (sk s))) s)"

definition rt_mb_control :: "nat \<Rightarrow> bool \<Rightarrow> sys \<Rightarrow> (outcome \<times> sys) res" where
  "rt_mb_control b reset s =
     (if reset
      then bind_res (resume_both (Mb_Recv_Q b) (Mb_Send_Q b) (sk s)) (\<lambda>k1.
           bind_res (rt_schedule k1) (\<lambda>k2.
             Inr (Finished RT_EOK, set_mailbox b ((mailbox s b)\<lparr>entry := 0, in_offset := 0, out_offset := 0\<rparr>)
               (set_kernel k2 s))))
      else Inr (Finished (- RT_ERROR), s))"

end
