(* ===== verification/Msgqueue.thy ===== *)
theory Msgqueue
  imports Objects
begin

text \<open>
  Message queues (\<^verbatim>\<open>rt_mq_*\<close> of \<^verbatim>\<open>rt-thread/src/ipc.c\<close>): messages of up to \<^verbatim>\<open>msg_size\<close> bytes in
  nodes that are linked into the queue or into a list of free nodes. A node is taken off
  its list with interrupts disabled, filled or read with interrupts enabled, and then
  linked again, so other threads run in between: sending and receiving take two steps.
\<close>

section \<open>The linked lists\<close>

text \<open>
  A node, its link and its \<^verbatim>\<open>msg_size\<close> bytes of data, lies in the memory of the pool. An access to any
  other node is out of bounds, and so is a copy that is longer than the data of the node.
\<close>

definition mq_node :: "nat \<Rightarrow> rt_messagequeue \<Rightarrow> bool" where
  "mq_node m mq \<longleftrightarrow> (m + 1) * (msg_size mq + 4) \<le> mq_bytes mq"

definition at_node :: "nat \<Rightarrow> rt_messagequeue \<Rightarrow> 'a res \<Rightarrow> 'a res" where
  "at_node m mq r = (if mq_node m mq then r else Inl Out_Of_Bounds)"

text \<open>The nodes from 0 on are put in front of the free list one after the other.\<close>

fun mq_free_list :: "nat \<Rightarrow> (nat \<Rightarrow> nat option) \<Rightarrow> nat option \<times> (nat \<Rightarrow> nat option)" where
  "mq_free_list 0 nx = (None, nx)"
| "mq_free_list (Suc n) nx = (case mq_free_list n nx of (f, nx1) \<Rightarrow> (Some n, nx1(n := f)))"

definition rt_mq_init :: "nat \<Rightarrow> (nat \<Rightarrow> nat option) \<Rightarrow> (nat \<Rightarrow> u8 list) \<Rightarrow> u32 \<Rightarrow> u32 \<Rightarrow> nat \<Rightarrow> sys \<Rightarrow> sys res" where
  "rt_mq_init q nx data msgsz pool_size flag s =
     (if flag = RT_IPC_FLAG_FIFO \<or> flag = RT_IPC_FLAG_PRIO
      then let sz = unat ((msgsz + 3) AND NOT 3) mod 65536;
               n = (unat pool_size div (sz + 4)) mod 65536
           in if n * (sz + 4) > unat pool_size then Inl Out_Of_Bounds
           else case mq_free_list n nx of (f, nx1) \<Rightarrow>
             Inr ((set_kernel ((sk s)\<lparr>susp := (susp (sk s))(Mq_Recv_Q q := [], Mq_Send_Q q := [])\<rparr>) s)
               \<lparr>msgq := (msgq s)(q := \<lparr>msg_size = sz, max_msgs = n, mq_entry = 0, queue_head = None,
                  queue_tail = None, queue_free = f, msg_next = nx1, msg_data = data, mq_flag = flag,
                  mq_bytes = unat pool_size\<rparr>)\<rparr>)
      else Inl Assert_Failed)"

definition rt_mq_detach :: "nat \<Rightarrow> sys \<Rightarrow> sys res" where
  "rt_mq_detach q s = bind_res (resume_both (Mq_Recv_Q q) (Mq_Send_Q q) (sk s)) (\<lambda>k. Inr (set_kernel k s))"

text \<open>A message is copied to the start of the data area of a node.\<close>

definition mq_copy :: "nat \<Rightarrow> u8 list \<Rightarrow> rt_messagequeue \<Rightarrow> rt_messagequeue res" where
  "mq_copy m buf mq =
     at_node m mq (if length buf > length (msg_data mq m) then Inl Out_Of_Bounds
       else Inr (mq\<lparr>msg_data := (msg_data mq)(m := buf @ drop (length buf) (msg_data mq m))\<rparr>))"

definition mq_count :: "rt_messagequeue \<Rightarrow> bool \<times> rt_messagequeue" where
  "mq_count mq = (if mq_entry mq < RT_MQ_ENTRY_MAX then (True, mq\<lparr>mq_entry := mq_entry mq + 1\<rparr>) else (False, mq))"

definition mq_link_tail :: "nat \<Rightarrow> rt_messagequeue \<Rightarrow> (bool \<times> rt_messagequeue) res" where
  "mq_link_tail m mq =
     at_node m mq (let mq1 = mq\<lparr>msg_next := (msg_next mq)(m := None)\<rparr> in
       bind_res (case queue_tail mq1 of None \<Rightarrow> Inr mq1
                 | Some l \<Rightarrow> at_node l mq1 (Inr (mq1\<lparr>msg_next := (msg_next mq1)(l := Some m)\<rparr>))) (\<lambda>mq2.
         Inr (mq_count (mq2\<lparr>queue_tail := Some m,
                            queue_head := if queue_head mq2 = None then Some m else queue_head mq2\<rparr>))))"

definition mq_link_head :: "nat \<Rightarrow> rt_messagequeue \<Rightarrow> (bool \<times> rt_messagequeue) res" where
  "mq_link_head m mq =
     at_node m mq (Inr (mq_count (mq\<lparr>msg_next := (msg_next mq)(m := queue_head mq), queue_head := Some m,
                  queue_tail := if queue_tail mq = None then Some m else queue_tail mq\<rparr>)))"

definition mq_unlink_head :: "nat \<Rightarrow> rt_messagequeue \<Rightarrow> rt_messagequeue" where
  "mq_unlink_head m mq =
     mq\<lparr>queue_head := msg_next mq m, queue_tail := if queue_tail mq = Some m then None else queue_tail mq\<rparr>"

definition mq_unlink_free :: "nat \<Rightarrow> rt_messagequeue \<Rightarrow> rt_messagequeue" where
  "mq_unlink_free m mq = mq\<lparr>queue_free := msg_next mq m\<rparr>"

definition mq_link_free :: "nat \<Rightarrow> rt_messagequeue \<Rightarrow> rt_messagequeue" where
  "mq_link_free m mq = mq\<lparr>msg_next := (msg_next mq)(m := queue_free mq), queue_free := Some m\<rparr>"

text \<open>The loop that releases all messages; the fuel bounds their number.\<close>

fun mq_release_all :: "nat \<Rightarrow> rt_messagequeue \<Rightarrow> rt_messagequeue res" where
  "mq_release_all 0 mq = (if queue_head mq = None then Inr mq else Inl Would_Wait)"
| "mq_release_all (Suc n) mq =
     (case queue_head mq of None \<Rightarrow> Inr mq
      | Some m \<Rightarrow> at_node m mq (mq_release_all n (mq_link_free m (mq_unlink_head m mq))))"

definition set_msgq :: "nat \<Rightarrow> rt_messagequeue \<Rightarrow> sys \<Rightarrow> sys" where
  "set_msgq q mq s = s\<lparr>msgq := (msgq s)(q := mq)\<rparr>"

section \<open>Sending\<close>

text \<open>From the loop of \<^verbatim>\<open>rt_mq_send_wait\<close> on until a free node is taken.\<close>

definition mq_send_loop :: "nat \<Rightarrow> u8 list \<Rightarrow> int \<Rightarrow> sys \<Rightarrow> (outcome \<times> sys) res" where
  "mq_send_loop q buf timeout s =
     (let mq = msgq s q; t = current (sk s) in
      case queue_free mq of
        None \<Rightarrow>
          if timeout = 0 then Inr (Finished (- RT_EFULL), set_kernel (set_error t RT_EOK (sk s)) s)
          else wait_in (Mq_Send_Q q) (mq_flag mq) timeout (Mq_Send_Wait q buf timeout (tick (sk s))) s
      | Some m \<Rightarrow> at_node m mq
          (Inr (Not_Yet, set_pending t (Mq_Copy_In q m buf False) (set_msgq q (mq_unlink_free m mq) s))))"

definition rt_mq_send_wait :: "nat \<Rightarrow> u8 list \<Rightarrow> int \<Rightarrow> sys \<Rightarrow> (outcome \<times> sys) res" where
  "rt_mq_send_wait q buf timeout s =
     (if buf = [] \<or> timeout \<noteq> 0 \<and> \<not> scheduler_available (sk s) then Inl Assert_Failed
      else if length buf > msg_size (msgq s q) then Inr (Finished (- RT_ERROR), s)
      else if queue_free (msgq s q) = None \<and> timeout = 0 then Inr (Finished (- RT_EFULL), s)
      else mq_send_loop q buf timeout s)"

definition rt_mq_send :: "nat \<Rightarrow> u8 list \<Rightarrow> sys \<Rightarrow> (outcome \<times> sys) res" where
  "rt_mq_send q buf = rt_mq_send_wait q buf 0"

definition mq_send_resume :: "nat \<Rightarrow> nat \<Rightarrow> u8 list \<Rightarrow> int \<Rightarrow> u32 \<Rightarrow> sys \<Rightarrow> (outcome \<times> sys) res" where
  "mq_send_resume t q buf timeout start s =
     (if error (thr (sk s) t) \<noteq> RT_EOK then Inr (Finished (error (thr (sk s) t)), s)
      else mq_send_loop q buf (time_left timeout start (tick (sk s))) s)"

definition rt_mq_urgent :: "nat \<Rightarrow> u8 list \<Rightarrow> sys \<Rightarrow> (outcome \<times> sys) res" where
  "rt_mq_urgent q buf s =
     (if buf = [] then Inl Assert_Failed
      else if length buf > msg_size (msgq s q) then Inr (Finished (- RT_ERROR), s)
      else case queue_free (msgq s q) of
        None \<Rightarrow> Inr (Finished (- RT_EFULL), s)
      | Some m \<Rightarrow> at_node m (msgq s q) (Inr (Not_Yet, set_pending (current (sk s)) (Mq_Copy_In q m buf True)
                            (set_msgq q (mq_unlink_free m (msgq s q)) s))))"

text \<open>The second step: the message is copied, the node is linked and a receiver is woken.\<close>

definition mq_copy_in :: "nat \<Rightarrow> nat \<Rightarrow> u8 list \<Rightarrow> bool \<Rightarrow> sys \<Rightarrow> (outcome \<times> sys) res" where
  "mq_copy_in q m buf urgent s =
     bind_res (mq_copy m buf (msgq s q)) (\<lambda>mq0.
     bind_res ((if urgent then mq_link_head else mq_link_tail) m mq0) (\<lambda>(ok, mq).
       let s1 = set_msgq q mq s in
       if \<not> ok then Inr (Finished (- RT_EFULL), s1)
       else bind_res (resume_first (Mq_Recv_Q q) (sk s1)) (\<lambda>k.
              Inr (if urgent then Urgent_Message q buf else Sent_Message q buf, set_kernel k s1))))"

section \<open>Receiving\<close>

definition mq_recv_loop :: "nat \<Rightarrow> nat \<Rightarrow> int \<Rightarrow> sys \<Rightarrow> (outcome \<times> sys) res" where
  "mq_recv_loop q sz timeout s =
     (let mq = msgq s q; t = current (sk s) in
      if mq_entry mq = 0
      then if timeout = 0
           then Inr (Finished (- RT_ETIMEOUT), set_kernel (set_error t (- RT_ETIMEOUT) (set_error t RT_EOK (sk s))) s)
           else wait_in (Mq_Recv_Q q) (mq_flag mq) timeout (Mq_Recv_Wait q sz timeout (tick (sk s))) s
      else case queue_head mq of
        None \<Rightarrow> Inl Out_Of_Bounds
      | Some m \<Rightarrow>
          at_node m mq (let mq1 = mq_unlink_head m mq in
          Inr (Not_Yet, set_pending t (Mq_Copy_Out q m sz) (set_msgq q (mq1\<lparr>mq_entry := mq_entry mq1 - 1\<rparr>) s))))"

definition rt_mq_recv :: "nat \<Rightarrow> nat \<Rightarrow> int \<Rightarrow> sys \<Rightarrow> (outcome \<times> sys) res" where
  "rt_mq_recv q sz timeout s =
     (if sz = 0 \<or> timeout \<noteq> 0 \<and> \<not> scheduler_available (sk s) then Inl Assert_Failed
      else if mq_entry (msgq s q) = 0 \<and> timeout = 0 then Inr (Finished (- RT_ETIMEOUT), s)
      else mq_recv_loop q sz timeout s)"

definition mq_recv_resume :: "nat \<Rightarrow> nat \<Rightarrow> nat \<Rightarrow> int \<Rightarrow> u32 \<Rightarrow> sys \<Rightarrow> (outcome \<times> sys) res" where
  "mq_recv_resume t q sz timeout start s =
     (if error (thr (sk s) t) \<noteq> RT_EOK then Inr (Finished (error (thr (sk s) t)), s)
      else mq_recv_loop q sz (time_left timeout start (tick (sk s))) s)"

text \<open>The second step: the message is copied out, the node is freed and a sender is woken.\<close>

definition mq_copy_out :: "nat \<Rightarrow> nat \<Rightarrow> nat \<Rightarrow> sys \<Rightarrow> (outcome \<times> sys) res" where
  "mq_copy_out q m sz s =
     (let mq = msgq s q; n = (if sz > msg_size mq then msg_size mq else sz); msg = take n (msg_data mq m);
          s1 = set_msgq q (mq_link_free m mq) s
      in at_node m mq (if n > length (msg_data mq m) then Inl Out_Of_Bounds
         else bind_res (resume_first (Mq_Send_Q q) (sk s1)) (\<lambda>k. Inr (Got_Message q msg, set_kernel k s1))))"

definition rt_mq_control :: "nat \<Rightarrow> bool \<Rightarrow> sys \<Rightarrow> (outcome \<times> sys) res" where
  "rt_mq_control q reset s =
     (if reset
      then bind_res (resume_both (Mq_Recv_Q q) (Mq_Send_Q q) (sk s)) (\<lambda>k1.
           bind_res (mq_release_all (max_msgs (msgq s q)) (msgq s q)) (\<lambda>mq.
           bind_res (rt_schedule k1) (\<lambda>k2.
             Inr (Finished RT_EOK, set_msgq q (mq\<lparr>mq_entry := 0\<rparr>) (set_kernel k2 s)))))
      else Inr (Finished (- RT_ERROR), s))"

end
