(* ===== verification/Mempool.thy ===== *)
theory Mempool
  imports Objects
begin

text \<open>
  Memory pools (\<^verbatim>\<open>rt-thread/src/mempool.c\<close>): blocks of one size in a list of free blocks, and a queue of
  threads that wait for a block. A block is known by its number; the word in front of it is part of the
  model, as \<^verbatim>\<open>rt_mp_free\<close> finds the pool in it. Pools on the heap are left out.
\<close>

section \<open>The free list\<close>

text \<open>A block, with the word in front of it, lies in the memory of the pool; an access to any other is out of bounds.\<close>

definition mp_block :: "nat \<Rightarrow> rt_mempool \<Rightarrow> bool" where
  "mp_block m mp \<longleftrightarrow> (m + 1) * mp_stride mp \<le> mp_bytes mp"

text \<open>The loop that links every block with the next one, and the end of the list.\<close>

fun link_blocks :: "nat \<Rightarrow> (nat \<Rightarrow> block_head) \<Rightarrow> nat \<Rightarrow> block_head" where
  "link_blocks 0 h = h"
| "link_blocks (Suc n) h = (link_blocks n h)(n := Free_Link (Some (Suc n)))"

text \<open>
  A pool that is too small for a single block is not noticed: the end of the list is then written in
  front of the pool.
\<close>

definition mp_make :: "(nat \<Rightarrow> block_head) \<Rightarrow> u32 \<Rightarrow> u32 \<Rightarrow> rt_mempool res" where
  "mp_make h sz bs =
     (if sz = 0 \<or> bs = 0 then Inl Assert_Failed
      else let stride = ((bs + 3) AND NOT 3) + 4 in
        if stride = 0 then Inl Div_By_Zero
        else let n = unat ((sz AND NOT 3) div stride) in
          if n = 0 \<or> n * unat stride > unat sz then Inl Out_Of_Bounds
          else Inr \<lparr>block_total_count = n, block_free_count = n, block_list = Some 0,
                    block_head = (link_blocks n h)(n - 1 := Free_Link None),
                    mp_stride = unat stride, mp_bytes = unat sz\<rparr>)"

definition set_mempool :: "nat \<Rightarrow> rt_mempool \<Rightarrow> sys \<Rightarrow> sys" where
  "set_mempool p mp s = s\<lparr>mempool := (mempool s)(p := mp)\<rparr>"

definition rt_mp_init :: "nat \<Rightarrow> (nat \<Rightarrow> block_head) \<Rightarrow> u32 \<Rightarrow> u32 \<Rightarrow> sys \<Rightarrow> sys res" where
  "rt_mp_init p h sz bs s =
     bind_res (mp_make h sz bs) (\<lambda>mp.
       Inr (set_mempool p mp (set_kernel ((sk s)\<lparr>susp := (susp (sk s))(Mp_Q p := [])\<rparr>) s)))"

definition rt_mp_detach :: "nat \<Rightarrow> sys \<Rightarrow> sys res" where
  "rt_mp_detach p s = bind_res (ipc_list_resume_all (Mp_Q p) (sk s)) (\<lambda>k. Inr (set_kernel k s))"

text \<open>The first free block is taken off the list and marked with its pool.\<close>

definition mp_take :: "nat \<Rightarrow> rt_mempool \<Rightarrow> (nat \<times> rt_mempool) res" where
  "mp_take p mp =
     (case block_list mp of
        None \<Rightarrow> Inl Assert_Failed
      | Some m \<Rightarrow>
          if \<not> mp_block m mp then Inl Out_Of_Bounds
          else (case block_head mp m of
             In_Pool _ \<Rightarrow> Inl Out_Of_Bounds
           | Free_Link nx \<Rightarrow>
               Inr (m, mp\<lparr>block_free_count := block_free_count mp - 1, block_list := nx, block_head := (block_head mp)(m := In_Pool p)\<rparr>)))"

definition mp_put :: "nat \<Rightarrow> rt_mempool \<Rightarrow> rt_mempool" where
  "mp_put m mp =
     mp\<lparr>block_free_count := block_free_count mp + 1, block_list := Some m, block_head := (block_head mp)(m := Free_Link (block_list mp))\<rparr>"

section \<open>The calls\<close>

definition rt_set_errno :: "rt_err_t \<Rightarrow> kernel \<Rightarrow> kernel" where
  "rt_set_errno e k = (if irq_nest k \<noteq> 0 then k else set_error (current k) e k)"

text \<open>\<^verbatim>\<open>rt_mp_alloc\<close> from its loop on, which is also where it goes on after a wait.\<close>

definition mp_alloc_loop :: "nat \<Rightarrow> int \<Rightarrow> sys \<Rightarrow> (outcome \<times> sys) res" where
  "mp_alloc_loop p time s =
     (let mp = mempool s p in
      if block_free_count mp = 0
      then if time = 0 then Inr (Finished (- RT_ETIMEOUT), set_kernel (rt_set_errno (- RT_ETIMEOUT) (sk s)) s)
           else if irq_nest (sk s) \<noteq> 0 then Inl Assert_Failed
           else wait_first (Mp_Q p) time (Mp_Wait p time (tick (sk s))) s
      else bind_res (mp_take p mp) (\<lambda>(m, mp'). Inr (Got_Block p m, set_mempool p mp' s)))"

definition rt_mp_alloc :: "nat \<Rightarrow> int \<Rightarrow> sys \<Rightarrow> (outcome \<times> sys) res" where
  "rt_mp_alloc p time s = mp_alloc_loop p time s"

definition mp_alloc_resume :: "nat \<Rightarrow> nat \<Rightarrow> int \<Rightarrow> u32 \<Rightarrow> sys \<Rightarrow> (outcome \<times> sys) res" where
  "mp_alloc_resume t p time start s =
     (if error (thr (sk s) t) \<noteq> RT_EOK then Inr (Finished (error (thr (sk s) t)), s)
      else mp_alloc_loop p (time_left time start (tick (sk s))) s)"

text \<open>
  A block in the memory of the pool \<open>p\<close> is freed; the pool is the one in the word in front of it. The
  first waiting thread is woken.
\<close>

definition rt_mp_free :: "nat \<Rightarrow> nat \<Rightarrow> sys \<Rightarrow> (outcome \<times> sys) res" where
  "rt_mp_free p m s =
     (if \<not> mp_block m (mempool s p) then Inl Out_Of_Bounds
      else case block_head (mempool s p) m of
        Free_Link _ \<Rightarrow> Inl Out_Of_Bounds
      | In_Pool p' \<Rightarrow>
          if p' \<noteq> p then Inl Out_Of_Bounds
          else let s1 = set_mempool p (mp_put m (mempool s p)) s; q = Mp_Q p in
            (case susp (sk s1) q of
               [] \<Rightarrow> Inr (Freed_Block p m, s1)
             | t # _ \<Rightarrow> bind_res (ipc_list_resume q (set_error t RT_EOK (sk s1))) (\<lambda>k1.
                          bind_res (rt_schedule k1) (\<lambda>k2. Inr (Freed_Block p m, set_kernel k2 s1)))))"

text \<open>A pool of \<open>sz\<close> bytes has room for a block of \<open>bs\<close> bytes.\<close>

definition mp_fits :: "u32 \<Rightarrow> u32 \<Rightarrow> bool" where
  "mp_fits sz bs \<longleftrightarrow> 0 < bs \<and> ((bs + 3) AND NOT 3) + 4 \<noteq> 0 \<and> ((bs + 3) AND NOT 3) + 4 \<le> sz AND NOT 3"

section \<open>What the list holds\<close>

text \<open>The blocks on a list.\<close>

fun on_list :: "(nat \<Rightarrow> block_head) \<Rightarrow> nat option \<Rightarrow> nat list \<Rightarrow> bool" where
  "on_list h l [] \<longleftrightarrow> l = None"
| "on_list h l (m # ms) \<longleftrightarrow> l = Some m \<and> (\<exists>nx. h m = Free_Link nx \<and> on_list h nx ms)"

definition mp_ok :: "nat \<Rightarrow> rt_mempool \<Rightarrow> bool" where
  "mp_ok p mp \<longleftrightarrow> block_total_count mp * mp_stride mp \<le> mp_bytes mp \<and> (\<exists>ms. on_list (block_head mp) (block_list mp) ms \<and> distinct ms \<and> length ms = block_free_count mp \<and>
     set ms \<subseteq> {..<block_total_count mp} \<and>
     (\<forall>m < block_total_count mp. m \<notin> set ms \<longrightarrow> block_head mp m = In_Pool p))"

text \<open>The blocks that are handed out.\<close>

definition mp_used :: "nat \<Rightarrow> rt_mempool \<Rightarrow> nat set" where
  "mp_used p mp = {m. m < block_total_count mp \<and> block_head mp m = In_Pool p}"

lemma mp_ok_block:
  assumes "mp_ok p mp" and "m < block_total_count mp"
  shows "mp_block m mp"
proof -
  have "(m + 1) * mp_stride mp \<le> block_total_count mp * mp_stride mp"
    by (rule mult_le_mono1) (use assms(2) in simp)
  then show ?thesis using assms(1) unfolding mp_ok_def mp_block_def by linarith
qed

lemma on_list_other: "on_list h l ms \<Longrightarrow> m \<notin> set ms \<Longrightarrow> on_list (h(m := x)) l ms"
  by (induction ms arbitrary: l) auto

lemma on_list_free: "on_list h l ms \<Longrightarrow> m \<in> set ms \<Longrightarrow> \<exists>nx. h m = Free_Link nx"
  by (induction ms arbitrary: l) auto

lemma on_list_unique: "on_list h l ms \<Longrightarrow> on_list h l ms' \<Longrightarrow> ms = ms'"
proof (induction ms arbitrary: l ms')
  case Nil
  then show ?case by (cases ms') auto
next
  case (Cons m ms)
  then show ?case by (cases ms') auto
qed

lemma mp_used_free:
  assumes "on_list (block_head mp) (block_list mp) ms" and "set ms \<subseteq> {..<block_total_count mp}"
    and "\<forall>m < block_total_count mp. m \<notin> set ms \<longrightarrow> block_head mp m = In_Pool p"
  shows "mp_used p mp = {..<block_total_count mp} - set ms"
  using assms on_list_free[OF assms(1)] by (fastforce simp: mp_used_def)

lemma mp_free_card:
  assumes "mp_ok p mp"
  shows "card (mp_used p mp) + block_free_count mp = block_total_count mp" and "finite (mp_used p mp)"
proof -
  obtain ms where ms: "on_list (block_head mp) (block_list mp) ms" "distinct ms" "length ms = block_free_count mp"
    "set ms \<subseteq> {..<block_total_count mp}" "\<forall>m < block_total_count mp. m \<notin> set ms \<longrightarrow> block_head mp m = In_Pool p"
    using assms by (auto simp: mp_ok_def)
  have "card (set ms) = block_free_count mp" using ms(2,3) distinct_card by metis
  moreover have "card (set ms) \<le> block_total_count mp" using card_mono[OF _ ms(4)] by simp
  ultimately show "card (mp_used p mp) + block_free_count mp = block_total_count mp"
    unfolding mp_used_free[OF ms(1,4,5)] using card_Diff_subset[of "set ms" "{..<block_total_count mp}"] ms(4) by simp
  show "finite (mp_used p mp)" by (simp add: mp_used_def)
qed

lemma mp_take_ok:
  assumes "mp_ok p mp" and "0 < block_free_count mp"
  shows "\<exists>m mp'. mp_take p mp = Inr (m, mp') \<and> mp_ok p mp' \<and> m \<notin> mp_used p mp \<and> m < block_total_count mp \<and>
    mp_used p mp' = insert m (mp_used p mp) \<and> block_free_count mp' = block_free_count mp - 1 \<and>
    block_total_count mp' = block_total_count mp"
proof -
  obtain ms where ms: "on_list (block_head mp) (block_list mp) ms" "distinct ms" "length ms = block_free_count mp"
    "set ms \<subseteq> {..<block_total_count mp}" "\<forall>m < block_total_count mp. m \<notin> set ms \<longrightarrow> block_head mp m = In_Pool p"
    using assms(1) by (auto simp: mp_ok_def)
  obtain m ms' where m: "ms = m # ms'" using ms(3) assms(2) by (cases ms) auto
  then obtain nx where nx: "block_list mp = Some m" "block_head mp m = Free_Link nx" "on_list (block_head mp) nx ms'"
    using ms(1) by auto
  let ?mp = "mp\<lparr>block_free_count := block_free_count mp - 1, block_list := nx, block_head := (block_head mp)(m := In_Pool p)\<rparr>"
  have "mp_block m mp" using mp_ok_block[OF assms(1)] ms(4) m by simp
  then have t: "mp_take p mp = Inr (m, ?mp)" using nx by (simp add: mp_take_def)
  have "on_list (block_head ?mp) (block_list ?mp) ms'" using on_list_other[OF nx(3)] ms(2) m by simp
  moreover have "block_total_count mp * mp_stride mp \<le> mp_bytes mp" using assms(1) by (simp add: mp_ok_def)
  ultimately have "mp_ok p ?mp"
    unfolding mp_ok_def by (intro conjI exI[of _ ms']) (use ms m in auto)
  moreover have "m \<notin> mp_used p mp" using nx(2) by (simp add: mp_used_def)
  moreover have "mp_used p ?mp = insert m (mp_used p mp)" using ms(4) m by (auto simp: mp_used_def)
  ultimately show ?thesis using t ms(4) m by (intro exI[of _ m] exI[of _ ?mp]) simp
qed

lemma mp_put_ok:
  assumes "mp_ok p mp" and "m \<in> mp_used p mp"
  shows "mp_ok p (mp_put m mp)" and "mp_used p (mp_put m mp) = mp_used p mp - {m}"
    and "block_free_count (mp_put m mp) = block_free_count mp + 1" and "block_total_count (mp_put m mp) = block_total_count mp"
proof -
  obtain ms where ms: "on_list (block_head mp) (block_list mp) ms" "distinct ms" "length ms = block_free_count mp"
    "set ms \<subseteq> {..<block_total_count mp}" "\<forall>m < block_total_count mp. m \<notin> set ms \<longrightarrow> block_head mp m = In_Pool p"
    using assms(1) by (auto simp: mp_ok_def)
  have m: "m \<notin> set ms" "m < block_total_count mp" using assms(2) mp_used_free[OF ms(1,4,5)] by auto
  have "on_list (block_head (mp_put m mp)) (block_list (mp_put m mp)) (m # ms)"
    using on_list_other[OF ms(1) m(1)] by (simp add: mp_put_def)
  moreover have "block_total_count mp * mp_stride mp \<le> mp_bytes mp" using assms(1) by (simp add: mp_ok_def)
  ultimately show "mp_ok p (mp_put m mp)"
    unfolding mp_ok_def by (intro conjI exI[of _ "m # ms"]) (use ms m in \<open>auto simp: mp_put_def\<close>)
  show "mp_used p (mp_put m mp) = mp_used p mp - {m}" by (auto simp: mp_used_def mp_put_def)
  show "block_free_count (mp_put m mp) = block_free_count mp + 1" "block_total_count (mp_put m mp) = block_total_count mp"
    by (simp_all add: mp_put_def)
qed

text \<open>A new pool: all blocks are free, in their order.\<close>

lemma link_blocks_head: "link_blocks n h m = (if m < n then Free_Link (Some (Suc m)) else h m)"
  by (induction n) (auto simp: less_Suc_eq)

lemma linked_from:
  "k < n \<Longrightarrow> on_list ((link_blocks n h)(n - 1 := Free_Link None)) (Some k) [k..<n]"
proof (induction "n - k" arbitrary: k)
  case (Suc d)
  show ?case
  proof (cases "Suc k = n")
    case True
    then show ?thesis by auto
  next
    case False
    then have k: "Suc k < n" "k \<noteq> n - 1" using Suc.prems by auto
    then have "on_list ((link_blocks n h)(n - 1 := Free_Link None)) (Some (Suc k)) [Suc k..<n]"
      using Suc.hyps by simp
    then show ?thesis using k Suc.prems upt_conv_Cons[OF Suc.prems] by (simp add: link_blocks_head)
  qed
qed simp

lemma mp_make_ok:
  assumes "mp_make h sz bs = Inr mp"
  shows "mp_ok p mp" and "mp_used p mp = {}" and "0 < block_total_count mp"
proof -
  let ?stride = "((bs + 3) AND NOT 3) + 4"
  let ?n = "unat ((sz AND NOT 3) div ?stride)"
  have n: "?n \<noteq> 0" "?stride \<noteq> 0" "?n * unat ?stride \<le> unat sz"
    "mp = \<lparr>block_total_count = ?n, block_free_count = ?n, block_list = Some 0,
      block_head = (link_blocks ?n h)(?n - 1 := Free_Link None),
      mp_stride = unat ?stride, mp_bytes = unat sz\<rparr>"
    using assms by (auto simp: mp_make_def Let_def split: if_splits)
  have "on_list (block_head mp) (block_list mp) [0..<?n]" using linked_from[of 0 ?n h] n by simp
  moreover have "block_total_count mp * mp_stride mp \<le> mp_bytes mp"
    using n(3,4) by simp
  ultimately show "mp_ok p mp"
    unfolding mp_ok_def by (intro conjI exI[of _ "[0..<?n]"]) (use n(4) in auto)
  show "mp_used p mp = {}" using n(4) by (auto simp: mp_used_def link_blocks_head split: if_splits)
  show "0 < block_total_count mp" using n by simp
qed

text \<open>All blocks that the loop links lie in the memory.\<close>

lemma blocks_in_memory:
  fixes sz n :: u32
  shows "unat ((sz AND NOT 3) div n) * unat n \<le> unat sz"
proof -
  have "unat ((sz AND NOT 3) div n) * unat n \<le> unat (sz AND NOT 3)" by (simp add: unat_div)
  also have "\<dots> \<le> unat sz" using word_and_le2[of sz "NOT 3"] by (simp add: word_le_nat_alt word_and_le1)
  finally show ?thesis .
qed

end
