(* ===== verification/Messages.thy ===== *)
theory Messages
  imports Event Mailbox Msgqueue Mempool
begin

text \<open>
  The system with all objects of \<^verbatim>\<open>ipc.c\<close> and memory pools: the calls of threads and interrupts, the steps in
  which a call goes on after a wait, in any order.
\<close>

section \<open>Going on with a call\<close>

definition continue :: "nat \<Rightarrow> sys \<Rightarrow> (outcome \<times> sys) res" where
  "continue t s =
     (let s1 = set_pending t No_Call s in
      case pending s t of
        No_Call \<Rightarrow> Inl Assert_Failed
      | Event_Wait e \<Rightarrow> event_recv_resume t s1
      | Mb_Send_Wait b v timeout start \<Rightarrow> mb_send_resume t b v timeout start s1
      | Mb_Recv_Wait b timeout start \<Rightarrow> mb_recv_resume t b timeout start s1
      | Mq_Send_Wait q buf timeout start \<Rightarrow> mq_send_resume t q buf timeout start s1
      | Mq_Recv_Wait q sz timeout start \<Rightarrow> mq_recv_resume t q sz timeout start s1
      | Mq_Copy_In q m buf urgent \<Rightarrow> mq_copy_in q m buf urgent s1
      | Mq_Copy_Out q m sz \<Rightarrow> mq_copy_out q m sz s1
      | Mp_Wait p time start \<Rightarrow> mp_alloc_resume t p time start s1)"

section \<open>Calls\<close>

datatype sys_call =
    Kernel_Call call
  | Event_Init nat nat | Event_Send nat u32 | Event_Recv nat u32 u8 int | Event_Reset nat | Event_Detach nat
  | Mb_Init nat "u32 list" nat nat | Mb_Send nat u32 int | Mb_Urgent nat u32 | Mb_Recv nat int
  | Mb_Reset nat | Mb_Detach nat
  | Mq_Init nat "nat \<Rightarrow> nat option" "nat \<Rightarrow> u8 list" u32 u32 nat | Mq_Send nat "u8 list" int
  | Mq_Urgent nat "u8 list" | Mq_Recv nat nat int | Mq_Reset nat | Mq_Detach nat
  | Mp_Init nat "nat \<Rightarrow> block_head" u32 u32 | Mp_Alloc nat int | Mp_Free nat nat | Mp_Detach nat
  | Go_On

definition silent :: "sys res \<Rightarrow> (outcome \<times> sys) res" where
  "silent r = bind_res r (\<lambda>s. Inr (Not_Yet, s))"

fun do_sys :: "sys_call \<Rightarrow> sys \<Rightarrow> (outcome \<times> sys) res" where
  "do_sys (Kernel_Call c) s = silent (bind_res (do_call c (base s)) (\<lambda>w. Inr (s\<lparr>base := w\<rparr>)))"
| "do_sys (Event_Init e flag) s = silent (rt_event_init e flag s)"
| "do_sys (Event_Send e bits) s = rt_event_send e bits s"
| "do_sys (Event_Recv e bits option timeout) s = rt_event_recv e bits option timeout s"
| "do_sys (Event_Reset e) s = rt_event_control e True s"
| "do_sys (Event_Detach e) s = silent (rt_event_detach e s)"
| "do_sys (Mb_Init b pool sz flag) s = silent (rt_mb_init b pool sz flag s)"
| "do_sys (Mb_Send b v timeout) s = rt_mb_send_wait b v timeout s"
| "do_sys (Mb_Urgent b v) s = rt_mb_urgent b v s"
| "do_sys (Mb_Recv b timeout) s = rt_mb_recv b timeout s"
| "do_sys (Mb_Reset b) s = rt_mb_control b True s"
| "do_sys (Mb_Detach b) s = silent (rt_mb_detach b s)"
| "do_sys (Mq_Init q nx data msgsz pool_size flag) s = silent (rt_mq_init q nx data msgsz pool_size flag s)"
| "do_sys (Mq_Send q buf timeout) s = rt_mq_send_wait q buf timeout s"
| "do_sys (Mq_Urgent q buf) s = rt_mq_urgent q buf s"
| "do_sys (Mq_Recv q sz timeout) s = rt_mq_recv q sz timeout s"
| "do_sys (Mq_Reset q) s = rt_mq_control q True s"
| "do_sys (Mq_Detach q) s = silent (rt_mq_detach q s)"
| "do_sys (Mp_Init p h sz bs) s = silent (rt_mp_init p h sz bs s)"
| "do_sys (Mp_Alloc p time) s = rt_mp_alloc p time s"
| "do_sys (Mp_Free p m) s = rt_mp_free p m s"
| "do_sys (Mp_Detach p) s = silent (rt_mp_detach p s)"
| "do_sys Go_On s = continue (current (sk s)) s"

text \<open>The running thread is in no call.\<close>

definition idle_call :: "sys \<Rightarrow> bool" where
  "idle_call s \<longleftrightarrow> pending s (current (sk s)) = No_Call"

text \<open>A thread has a call open on a message queue.\<close>

fun on_msgq :: "nat \<Rightarrow> pending \<Rightarrow> bool" where
  "on_msgq q (Mq_Send_Wait q' _ _ _) = (q' = q)"
| "on_msgq q (Mq_Recv_Wait q' _ _ _) = (q' = q)"
| "on_msgq q (Mq_Copy_In q' _ _ _) = (q' = q)"
| "on_msgq q (Mq_Copy_Out q' _ _) = (q' = q)"
| "on_msgq q _ = False"

text \<open>
  A wait is shorter than half the range of the clock, as the difference of two ticks is
  read as a signed number.
\<close>

fun in_time :: "u32 \<Rightarrow> pending \<Rightarrow> bool" where
  "in_time now (Mb_Send_Wait _ _ _ start) = (unat (now - start) < 2 ^ 31)"
| "in_time now (Mb_Recv_Wait _ _ start) = (unat (now - start) < 2 ^ 31)"
| "in_time now (Mq_Send_Wait _ _ _ start) = (unat (now - start) < 2 ^ 31)"
| "in_time now (Mq_Recv_Wait _ _ _ start) = (unat (now - start) < 2 ^ 31)"
| "in_time now (Mp_Wait _ _ start) = (unat (now - start) < 2 ^ 31)"
| "in_time now _ = True"

definition may_wait :: "nat \<Rightarrow> sys \<Rightarrow> int \<Rightarrow> bool" where
  "may_wait i s timeout \<longleftrightarrow> timeout < 0x7FFFFFFF \<and> (may_block i (base s) \<or> timeout = 0)"

definition flag_ok :: "nat \<Rightarrow> bool" where
  "flag_ok flag \<longleftrightarrow> flag = RT_IPC_FLAG_FIFO \<or> flag = RT_IPC_FLAG_PRIO"

text \<open>
  The documented conditions. Interrupts may release semaphores, send events and, without
  waiting, mails, and free blocks; they come at any time, also when the running thread has yet to go on
  with a call. An object is initialised when nobody waits for it, with a pool of the
  size it is told, and a memory pool with room for a block. A block is freed by whoever holds it.
\<close>

fun sys_allowed :: "nat \<Rightarrow> sys \<Rightarrow> sys_call \<Rightarrow> bool" where
  "sys_allowed i s (Kernel_Call c) \<longleftrightarrow> allowed i (base s) c \<and> (idle_call s \<or> c = Tick \<or> (\<exists>x. c = Sem_Release x))"
| "sys_allowed i s (Event_Init e flag) \<longleftrightarrow> susp (sk s) (Event_Q e) = [] \<and> flag_ok flag"
| "sys_allowed i s (Event_Send e bits) \<longleftrightarrow> True"
| "sys_allowed i s (Event_Recv e bits option timeout) \<longleftrightarrow> idle_call s \<and> scheduler_available (sk s) \<and>
     may_wait i s timeout \<and> (option AND RT_EVENT_FLAG_AND \<noteq> 0 \<or> option AND RT_EVENT_FLAG_OR \<noteq> 0)"
| "sys_allowed i s (Mb_Init b pool sz flag) \<longleftrightarrow> susp (sk s) (Mb_Recv_Q b) = [] \<and> susp (sk s) (Mb_Send_Q b) = [] \<and>
     flag_ok flag \<and> length pool = sz \<and> sz < 65536"
| "sys_allowed i s (Mb_Send b v timeout) \<longleftrightarrow> may_wait i s timeout \<and> (idle_call s \<or> timeout = 0)"
| "sys_allowed i s (Mb_Urgent b v) \<longleftrightarrow> True"
| "sys_allowed i s (Mb_Recv b timeout) \<longleftrightarrow> may_wait i s timeout \<and> idle_call s"
| "sys_allowed i s (Mq_Init q nx data msgsz pool_size flag) \<longleftrightarrow> (\<forall>t. \<not> on_msgq q (pending s t)) \<and> flag_ok flag \<and>
     unat msgsz < 65533 \<and> (\<forall>m. length (data m) = unat ((msgsz + 3) AND NOT 3))"
| "sys_allowed i s (Mq_Send q buf timeout) \<longleftrightarrow> may_wait i s timeout \<and> idle_call s \<and> buf \<noteq> []"
| "sys_allowed i s (Mq_Urgent q buf) \<longleftrightarrow> idle_call s \<and> buf \<noteq> []"
| "sys_allowed i s (Mq_Recv q sz timeout) \<longleftrightarrow> may_wait i s timeout \<and> idle_call s \<and> 0 < sz"
| "sys_allowed i s (Mp_Init p h sz bs) \<longleftrightarrow> susp (sk s) (Mp_Q p) = [] \<and> mp_fits sz bs"
| "sys_allowed i s (Mp_Alloc p time) \<longleftrightarrow> may_wait i s time \<and> idle_call s"
| "sys_allowed i s (Mp_Free p m) \<longleftrightarrow> m \<in> mp_used p (mempool s p)"
| "sys_allowed i s Go_On \<longleftrightarrow> \<not> idle_call s \<and> in_time (tick (sk s)) (pending s (current (sk s)))"
| "sys_allowed i s _ \<longleftrightarrow> idle_call s"

inductive sys_step :: "nat \<Rightarrow> sys \<Rightarrow> sys \<Rightarrow> bool" for i where
  sys_call: "sys_allowed i s c \<Longrightarrow> do_sys c s = Inr (out, s') \<Longrightarrow> sys_step i s s'"

inductive_cases sys_stepE: "sys_step i s s'"

text \<open>
  The objects before anyone initialises them: an empty mailbox without room, a message
  queue without nodes, an event without flags, a memory pool without blocks.
\<close>

definition sys_start :: "os \<Rightarrow> sys" where
  "sys_start w = \<lparr>base = w, event_set = \<lambda>_. 0, event_info = \<lambda>_. 0,
     event = \<lambda>_. \<lparr>ev_set = 0, ev_flag = RT_IPC_FLAG_FIFO\<rparr>,
     mailbox = \<lambda>_. \<lparr>msg_pool = [], mb_size = 0, entry = 0, in_offset = 0, out_offset = 0, mb_flag = RT_IPC_FLAG_FIFO\<rparr>,
     msgq = \<lambda>_. \<lparr>msg_size = 0, max_msgs = 0, mq_entry = 0, queue_head = None, queue_tail = None, queue_free = None,
                  msg_next = \<lambda>_. None, msg_data = \<lambda>_. [], mq_flag = RT_IPC_FLAG_FIFO, mq_bytes = 0\<rparr>,
     mempool = \<lambda>_. \<lparr>block_total_count = 0, block_free_count = 0, block_list = None, block_head = \<lambda>_. Free_Link None,
                     mp_stride = 0, mp_bytes = 0\<rparr>,
     pending = \<lambda>_. No_Call\<rparr>"

inductive sys_reach :: "nat \<Rightarrow> sys \<Rightarrow> bool" for i where
  sys_booted: "distinct [c, main, timer, i] \<Longrightarrow> rtthread_startup main timer i (reset_kernel c) = Inr k \<Longrightarrow>
     sys_reach i (sys_start (os_start k))"
| sys_next: "sys_reach i s \<Longrightarrow> sys_step i s s' \<Longrightarrow> sys_reach i s'"

text \<open>A run of calls, with what they show, and a run in which every call is allowed when it is made.\<close>

fun run_sys :: "sys_call list \<Rightarrow> sys \<Rightarrow> (outcome list \<times> sys) res" where
  "run_sys [] s = Inr ([], s)"
| "run_sys (c # cs) s = bind_res (do_sys c s) (\<lambda>(out, s1). bind_res (run_sys cs s1) (\<lambda>(outs, s2). Inr (out # outs, s2)))"

fun all_sys_allowed :: "nat \<Rightarrow> sys_call list \<Rightarrow> sys \<Rightarrow> bool" where
  "all_sys_allowed i [] s \<longleftrightarrow> True"
| "all_sys_allowed i (c # cs) s \<longleftrightarrow> sys_allowed i s c \<and>
     (case do_sys c s of Inl _ \<Rightarrow> True | Inr (_, s1) \<Rightarrow> all_sys_allowed i cs s1)"

end
