(* ===== verification/Msgqueue_Inv.thy ===== *)
theory Msgqueue_Inv
  imports Msgqueue Fifo_Spec
begin

text \<open>
  The linked lists of a message queue: the nodes of the queue, the free nodes and the nodes in
  the hands of threads that copy a message are all different. Every access keeps this, and
  without interruption the accesses implement the bounded queue.
\<close>

section \<open>Lists of nodes\<close>

fun path :: "(nat \<Rightarrow> nat option) \<Rightarrow> nat option \<Rightarrow> nat list \<Rightarrow> bool" where
  "path nx p [] \<longleftrightarrow> p = None"
| "path nx p (m # ms) \<longleftrightarrow> p = Some m \<and> path nx (nx m) ms"

text \<open>The nodes of a linked list; the first argument bounds their number.\<close>

fun follow :: "nat \<Rightarrow> (nat \<Rightarrow> nat option) \<Rightarrow> nat option \<Rightarrow> nat list" where
  "follow n nx None = []"
| "follow 0 nx (Some m) = []"
| "follow (Suc n) nx (Some m) = m # follow n nx (nx m)"

definition mq_nodes :: "rt_messagequeue \<Rightarrow> nat list" where
  "mq_nodes mq = follow (max_msgs mq) (msg_next mq) (queue_head mq)"

definition mq_free_nodes :: "rt_messagequeue \<Rightarrow> nat list" where
  "mq_free_nodes mq = follow (max_msgs mq) (msg_next mq) (queue_free mq)"

text \<open>The messages in the queue, each as long as a node.\<close>

definition mq_list :: "rt_messagequeue \<Rightarrow> u8 list list" where
  "mq_list mq = map (msg_data mq) (mq_nodes mq)"

lemma path_follow: "path nx p ms \<Longrightarrow> length ms \<le> n \<Longrightarrow> follow n nx p = ms"
proof (induction ms arbitrary: p n)
  case (Cons m ms)
  then show ?case by (cases n) auto
qed simp

lemma path_update [simp]: "m \<notin> set ms \<Longrightarrow> path (nx(m := x)) p ms = path nx p ms"
  by (induction ms arbitrary: p) auto

lemma path_snoc:
  "path nx p ms \<Longrightarrow> ms \<noteq> [] \<Longrightarrow> m \<notin> set ms \<Longrightarrow> distinct ms \<Longrightarrow>
   path (nx(m := None, last ms := Some m)) p (ms @ [m])"
  by (induction ms arbitrary: p) (auto split: if_splits)

text \<open>
  \<open>hs\<close> are the nodes in the queue, \<open>fs\<close> the free ones and \<open>R\<close> those in the hands of
  threads. Together they are all nodes of the pool: none is lost and none is in two places.
\<close>

definition mq_lists :: "nat set \<Rightarrow> rt_messagequeue \<Rightarrow> nat list \<Rightarrow> nat list \<Rightarrow> bool" where
  "mq_lists R mq hs fs \<longleftrightarrow>
     path (msg_next mq) (queue_head mq) hs \<and> path (msg_next mq) (queue_free mq) fs \<and>
     distinct (hs @ fs) \<and> R \<inter> set (hs @ fs) = {} \<and> set (hs @ fs) \<union> R = {..<max_msgs mq} \<and>
     queue_tail mq = (if hs = [] then None else Some (last hs)) \<and> max_msgs mq < 65536 \<and>
     (mq_flag mq = RT_IPC_FLAG_FIFO \<or> mq_flag mq = RT_IPC_FLAG_PRIO) \<and> (\<forall>m. length (msg_data mq m) = msg_size mq) \<and>
     max_msgs mq * (msg_size mq + 4) \<le> mq_bytes mq"

definition mq_ok :: "nat set \<Rightarrow> rt_messagequeue \<Rightarrow> bool" where
  "mq_ok R mq \<longleftrightarrow> mq_lists R mq (mq_nodes mq) (mq_free_nodes mq) \<and> mq_entry mq = length (mq_nodes mq)"

lemma mq_lists_nodes:
  assumes "mq_lists R mq hs fs"
  shows "mq_nodes mq = hs" "mq_free_nodes mq = fs" "length hs + length fs \<le> max_msgs mq"
proof -
  have "card (set (hs @ fs)) \<le> card {..<max_msgs mq}"
    using assms by (intro card_mono) (auto simp: mq_lists_def)
  then show l: "length hs + length fs \<le> max_msgs mq"
    using assms distinct_card[of "hs @ fs"] by (simp add: mq_lists_def)
  then show "mq_nodes mq = hs" "mq_free_nodes mq = fs"
    using assms path_follow by (simp_all add: mq_nodes_def mq_free_nodes_def mq_lists_def)
qed

lemma mq_okI: "mq_lists R mq hs fs \<Longrightarrow> mq_entry mq = length hs \<Longrightarrow> mq_ok R mq"
  using mq_lists_nodes[of R mq hs fs] by (simp add: mq_ok_def)

lemma mq_okD:
  assumes "mq_ok R mq"
  shows "mq_lists R mq (mq_nodes mq) (mq_free_nodes mq)" "mq_entry mq = length (mq_nodes mq)"
    "mq_entry mq + length (mq_free_nodes mq) \<le> max_msgs mq"
  using assms mq_lists_nodes(3) by (auto simp: mq_ok_def)

lemma queue_free_None:
  assumes "mq_ok R mq"
  shows "queue_free mq = None \<longleftrightarrow> mq_free_nodes mq = []"
  using mq_okD(1)[OF assms] by (cases "mq_free_nodes mq") (auto simp: mq_lists_def)

text \<open>All nodes lie in the memory of the pool.\<close>

lemma mq_lists_node:
  assumes "mq_lists R mq hs fs" and "m \<in> set hs \<union> set fs \<union> R"
  shows "mq_node m mq"
proof -
  have "m < max_msgs mq" "max_msgs mq * (msg_size mq + 4) \<le> mq_bytes mq" using assms by (auto simp: mq_lists_def)
  moreover have "(m + 1) * (msg_size mq + 4) \<le> max_msgs mq * (msg_size mq + 4)"
    by (rule mult_le_mono1) (use calculation in simp)
  ultimately show ?thesis by (simp add: mq_node_def)
qed

lemma at_node_ok [simp]: "mq_node m mq \<Longrightarrow> at_node m mq r = r"
  by (simp add: at_node_def)

lemma mq_node_update [simp]:
  "mq_node m (mq\<lparr>msg_next := nx\<rparr>) = mq_node m mq" "mq_node m (mq\<lparr>msg_data := d\<rparr>) = mq_node m mq"
  "mq_node m (mq_unlink_free m' mq) = mq_node m mq" "mq_node m (mq_unlink_head m' mq) = mq_node m mq"
  by (simp_all add: mq_node_def mq_unlink_free_def mq_unlink_head_def)

lemma free_node:
  assumes "mq_ok R mq" and "queue_free mq = Some m"
  shows "mq_node m mq"
  using assms mq_lists_node[OF mq_okD(1)[OF assms(1)], of m]
  by (cases "mq_free_nodes mq") (auto simp: mq_ok_def mq_lists_def)

lemma head_node:
  assumes "mq_ok R mq" and "queue_head mq = Some m"
  shows "mq_node m mq"
  using assms mq_lists_node[OF mq_okD(1)[OF assms(1)], of m]
  by (cases "mq_nodes mq") (auto simp: mq_ok_def mq_lists_def)

lemma hand_node: "mq_ok R mq \<Longrightarrow> m \<in> R \<Longrightarrow> mq_node m mq"
  using mq_lists_node[OF mq_okD(1)] by blast

section \<open>The accesses\<close>

lemma unlink_free_ok:
  assumes "mq_ok R mq" and "queue_free mq = Some m"
  shows "mq_ok (insert m R) (mq_unlink_free m mq) \<and> m \<notin> R \<and> mq_list (mq_unlink_free m mq) = mq_list mq \<and>
    mq_nodes (mq_unlink_free m mq) = mq_nodes mq \<and> mq_free_nodes mq = m # mq_free_nodes (mq_unlink_free m mq)"
proof -
  let ?mq = "mq_unlink_free m mq"
  obtain fs where fs: "mq_free_nodes mq = m # fs"
    using mq_okD(1)[OF assms(1)] assms(2) by (cases "mq_free_nodes mq") (auto simp: mq_lists_def)
  have l: "mq_lists R mq (mq_nodes mq) (m # fs)" using mq_okD(1)[OF assms(1)] fs by simp
  then have r: "mq_lists (insert m R) ?mq (mq_nodes mq) fs" by (auto simp: mq_lists_def mq_unlink_free_def)
  note n = mq_lists_nodes[OF r]
  have "mq_entry ?mq = length (mq_nodes mq)" using mq_okD(2)[OF assms(1)] by (simp add: mq_unlink_free_def)
  moreover have "m \<notin> R" using l by (auto simp: mq_lists_def)
  moreover have "mq_list ?mq = mq_list mq" unfolding mq_list_def n(1) by (simp add: mq_unlink_free_def)
  ultimately show ?thesis using mq_okI[OF r] n fs by simp
qed

lemma copy_ok:
  assumes "mq_ok R mq" and "length buf \<le> msg_size mq" and "m \<in> R"
  shows "\<exists>mq'. mq_copy m buf mq = Inr mq' \<and> mq_ok R mq' \<and> mq_nodes mq' = mq_nodes mq \<and>
    mq_free_nodes mq' = mq_free_nodes mq \<and> msg_data mq' = (msg_data mq)(m := buf @ drop (length buf) (msg_data mq m)) \<and>
    msg_size mq' = msg_size mq \<and> max_msgs mq' = max_msgs mq \<and> mq_entry mq' = mq_entry mq"
proof -
  let ?mq = "mq\<lparr>msg_data := (msg_data mq)(m := buf @ drop (length buf) (msg_data mq m))\<rparr>"
  have l: "length (msg_data mq m) = msg_size mq" using mq_okD(1)[OF assms(1)] by (simp add: mq_lists_def)
  have c: "mq_copy m buf mq = Inr ?mq"
    using hand_node[OF assms(1,3)] assms(2) l by (simp add: mq_copy_def)
  have "mq_lists R ?mq (mq_nodes mq) (mq_free_nodes mq)"
    using mq_okD(1)[OF assms(1)] assms(2) by (auto simp: mq_lists_def)
  then show ?thesis
    using c mq_okI mq_lists_nodes mq_okD(2)[OF assms(1)] by (intro exI[of _ ?mq]) auto
qed

lemma link_tail_ok:
  assumes "mq_ok R mq" and "m \<in> R"
  shows "\<exists>mq'. mq_link_tail m mq = Inr (True, mq') \<and> mq_ok (R - {m}) mq' \<and> mq_nodes mq' = mq_nodes mq @ [m] \<and>
    mq_free_nodes mq' = mq_free_nodes mq \<and> msg_data mq' = msg_data mq \<and> msg_size mq' = msg_size mq \<and>
    max_msgs mq' = max_msgs mq \<and> mq_entry mq' = mq_entry mq + 1"
proof -
  let ?hs = "mq_nodes mq" and ?fs = "mq_free_nodes mq"
  have l: "path (msg_next mq) (queue_head mq) ?hs" "path (msg_next mq) (queue_free mq) ?fs" "distinct (?hs @ ?fs)"
    "m \<notin> set ?hs" "m \<notin> set ?fs" "queue_tail mq = (if ?hs = [] then None else Some (last ?hs))"
    "max_msgs mq < 65536" "m < max_msgs mq"
    using mq_okD(1)[OF assms(1)] assms(2) by (auto simp: mq_lists_def)
  have tail: "mq_node l mq" if "queue_tail mq = Some l" for l
    using that l(6) mq_lists_node[OF mq_okD(1)[OF assms(1)], of l] by (auto split: if_splits)
  define mq' where "mq' = snd (projr (mq_link_tail m mq))"
  have "card (insert m (set (?hs @ ?fs))) \<le> card {..<max_msgs mq}"
    using mq_okD(1)[OF assms(1)] l(8) by (intro card_mono) (auto simp: mq_lists_def)
  then have "mq_entry mq < 65535"
    using l distinct_card[of "?hs @ ?fs"] mq_okD(2)[OF assms(1)] by simp
  then have e: "mq_link_tail m mq = Inr (True, mq')" "mq_entry mq' = mq_entry mq + 1" "queue_free mq' = queue_free mq"
    "queue_head mq' = (if queue_head mq = None then Some m else queue_head mq)" "queue_tail mq' = Some m"
    "msg_next mq' = (case queue_tail mq of None \<Rightarrow> (msg_next mq)(m := None) | Some l \<Rightarrow> (msg_next mq)(m := None, l := Some m))"
    "msg_data mq' = msg_data mq" "msg_size mq' = msg_size mq" "max_msgs mq' = max_msgs mq" "mq_flag mq' = mq_flag mq" "mq_bytes mq' = mq_bytes mq"
    using hand_node[OF assms] tail
    by (auto simp: mq'_def mq_link_tail_def mq_count_def Let_def split: option.splits)
  have "path (msg_next mq') (queue_head mq') (?hs @ [m])"
  proof (cases "?hs = []")
    case True
    then show ?thesis using l(1,6) e(4,6) by simp
  next
    case False
    then show ?thesis using path_snoc[OF l(1) False l(4)] l(1,3,6) e(4,6) by (cases ?hs) auto
  qed
  moreover have "path (msg_next mq') (queue_free mq') ?fs"
    using l(2-6) e(3,6) by (cases "?hs = []") (auto simp: disjoint_iff)
  ultimately have r: "mq_lists (R - {m}) mq' (?hs @ [m]) ?fs"
    using mq_okD(1)[OF assms(1)] assms(2) e l by (auto simp: mq_lists_def)
  then show ?thesis using mq_okI[OF r] mq_lists_nodes[OF r] e mq_okD(2)[OF assms(1)] by simp
qed

lemma link_head_ok:
  assumes "mq_ok R mq" and "m \<in> R"
  shows "\<exists>mq'. mq_link_head m mq = Inr (True, mq') \<and> mq_ok (R - {m}) mq' \<and> mq_nodes mq' = m # mq_nodes mq \<and>
    mq_free_nodes mq' = mq_free_nodes mq \<and> msg_data mq' = msg_data mq \<and> msg_size mq' = msg_size mq \<and>
    max_msgs mq' = max_msgs mq \<and> mq_entry mq' = mq_entry mq + 1"
proof -
  let ?hs = "mq_nodes mq" and ?fs = "mq_free_nodes mq"
  have l: "path (msg_next mq) (queue_head mq) ?hs" "path (msg_next mq) (queue_free mq) ?fs" "distinct (?hs @ ?fs)"
    "m \<notin> set ?hs" "m \<notin> set ?fs" "queue_tail mq = (if ?hs = [] then None else Some (last ?hs))"
    "max_msgs mq < 65536" "m < max_msgs mq"
    using mq_okD(1)[OF assms(1)] assms(2) by (auto simp: mq_lists_def)
  define mq' where "mq' = snd (projr (mq_link_head m mq))"
  have "card (insert m (set (?hs @ ?fs))) \<le> card {..<max_msgs mq}"
    using mq_okD(1)[OF assms(1)] l(8) by (intro card_mono) (auto simp: mq_lists_def)
  then have "mq_entry mq < 65535"
    using l distinct_card[of "?hs @ ?fs"] mq_okD(2)[OF assms(1)] by simp
  then have e: "mq_link_head m mq = Inr (True, mq')" "mq_entry mq' = mq_entry mq + 1" "queue_free mq' = queue_free mq"
    "queue_head mq' = Some m" "queue_tail mq' = (if queue_tail mq = None then Some m else queue_tail mq)"
    "msg_next mq' = (msg_next mq)(m := queue_head mq)"
    "msg_data mq' = msg_data mq" "msg_size mq' = msg_size mq" "max_msgs mq' = max_msgs mq" "mq_flag mq' = mq_flag mq" "mq_bytes mq' = mq_bytes mq"
    using hand_node[OF assms] by (auto simp: mq'_def mq_link_head_def mq_count_def)
  have r: "mq_lists (R - {m}) mq' (m # ?hs) ?fs"
    using mq_okD(1)[OF assms(1)] assms(2) e l by (auto simp: mq_lists_def)
  then show ?thesis using mq_okI[OF r] mq_lists_nodes[OF r] e mq_okD(2)[OF assms(1)] by simp
qed

lemma unlink_head_lists:
  assumes "mq_lists R mq (m # hs) fs"
  shows "queue_head mq = Some m \<and> mq_lists (insert m R) (mq_unlink_head m mq) hs fs"
  using assms by (auto simp: mq_lists_def mq_unlink_head_def)

lemma unlink_head_ok:
  assumes "mq_ok R mq" and "0 < mq_entry mq"
  shows "\<exists>m. queue_head mq = Some m \<and> m \<notin> R \<and>
    (let mq' = (mq_unlink_head m mq)\<lparr>mq_entry := mq_entry mq - 1\<rparr> in
      mq_ok (insert m R) mq' \<and> mq_nodes mq = m # mq_nodes mq' \<and> mq_free_nodes mq' = mq_free_nodes mq)"
proof -
  obtain m hs where m: "mq_nodes mq = m # hs" using assms mq_okD(2)[OF assms(1)] by (cases "mq_nodes mq") auto
  let ?mq = "(mq_unlink_head m mq)\<lparr>mq_entry := mq_entry mq - 1\<rparr>"
  have l: "mq_lists R mq (m # hs) (mq_free_nodes mq)" using mq_okD(1)[OF assms(1)] m by simp
  then have r: "mq_lists (insert m R) ?mq hs (mq_free_nodes mq)"
    using unlink_head_lists[OF l] by (simp add: mq_lists_def)
  have "m \<notin> R" using l by (auto simp: mq_lists_def)
  then show ?thesis
    using unlink_head_lists[OF l] mq_okI[OF r] mq_lists_nodes[OF r] mq_okD(2)[OF assms(1)] m by simp
qed

lemma link_free_lists:
  assumes "mq_lists R mq hs fs" and "m \<in> R"
  shows "mq_lists (R - {m}) (mq_link_free m mq) hs (m # fs)"
proof -
  have "m \<notin> set hs" "m \<notin> set fs" using assms by (auto simp: mq_lists_def)
  then show ?thesis using assms by (auto simp: mq_lists_def mq_link_free_def)
qed

lemma link_free_ok:
  assumes "mq_ok R mq" and "m \<in> R"
  shows "mq_ok (R - {m}) (mq_link_free m mq) \<and> mq_nodes (mq_link_free m mq) = mq_nodes mq \<and>
    mq_free_nodes (mq_link_free m mq) = m # mq_free_nodes mq"
proof -
  have r: "mq_lists (R - {m}) (mq_link_free m mq) (mq_nodes mq) (m # mq_free_nodes mq)"
    using link_free_lists[OF mq_okD(1)[OF assms(1)] assms(2)] .
  show ?thesis using mq_okI[OF r] mq_lists_nodes[OF r] mq_okD(2)[OF assms(1)] by (simp add: mq_link_free_def)
qed

text \<open>The fuel of the releasing loop suffices; it ends with an empty queue.\<close>

lemma release_all_lists:
  assumes "mq_lists R mq hs fs" and "length hs \<le> n"
  shows "\<exists>mq' fs'. mq_release_all n mq = Inr mq' \<and> mq_lists R mq' [] fs' \<and> msg_size mq' = msg_size mq \<and>
    max_msgs mq' = max_msgs mq"
  using assms
proof (induction n arbitrary: mq hs fs)
  case 0
  then show ?case by (auto simp: mq_lists_def)
next
  case (Suc n)
  show ?case
  proof (cases hs)
    case Nil
    then show ?thesis using Suc.prems by (auto simp: mq_lists_def)
  next
    case (Cons m hs')
    have u: "queue_head mq = Some m" "mq_lists (insert m R) (mq_unlink_head m mq) hs' fs"
      using unlink_head_lists Suc.prems(1) Cons by auto
    have "m \<notin> R" using Suc.prems(1) Cons by (auto simp: mq_lists_def)
    then have "mq_lists R (mq_link_free m (mq_unlink_head m mq)) hs' (m # fs)"
      using link_free_lists[OF u(2), of m] by simp
    from Suc.IH[OF this] Suc.prems(2) Cons u(1) mq_lists_node[OF Suc.prems(1), of m] show ?thesis
      by (auto simp: mq_link_free_def mq_unlink_head_def)
  qed
qed

lemma free_list_path:
  assumes "mq_free_list n nx = (f, nx')"
  shows "path nx' f (rev [0..<n])"
  using assms by (induction n arbitrary: f nx') (auto split: prod.splits)

section \<open>The bounded queue\<close>

definition mq_enq :: "u8 list \<Rightarrow> rt_messagequeue \<Rightarrow> rt_messagequeue option" where
  "mq_enq buf mq = (case queue_free mq of None \<Rightarrow> None
     | Some m \<Rightarrow> (case bind_res (mq_copy m buf (mq_unlink_free m mq)) (mq_link_tail m) of Inr (True, mq') \<Rightarrow> Some mq' | _ \<Rightarrow> None))"

definition mq_push :: "u8 list \<Rightarrow> rt_messagequeue \<Rightarrow> rt_messagequeue option" where
  "mq_push buf mq = (case queue_free mq of None \<Rightarrow> None
     | Some m \<Rightarrow> (case bind_res (mq_copy m buf (mq_unlink_free m mq)) (mq_link_head m) of Inr (True, mq') \<Rightarrow> Some mq' | _ \<Rightarrow> None))"

definition mq_deq :: "rt_messagequeue \<Rightarrow> (u8 list \<times> rt_messagequeue) option" where
  "mq_deq mq = (if mq_entry mq = 0 then None
     else case queue_head mq of None \<Rightarrow> None
     | Some m \<Rightarrow> Some (msg_data mq m, mq_link_free m ((mq_unlink_head m mq)\<lparr>mq_entry := mq_entry mq - 1\<rparr>)))"

text \<open>No thread copies, so every node is in the queue or free.\<close>

definition mq_quiet :: "rt_messagequeue \<Rightarrow> bool" where
  "mq_quiet mq \<longleftrightarrow> mq_ok {} mq \<and> mq_entry mq + length (mq_free_nodes mq) = max_msgs mq"

lemma length_mq_list: "mq_ok R mq \<Longrightarrow> length (mq_list mq) = mq_entry mq"
  by (simp add: mq_list_def mq_ok_def)

lemma mq_take_node:
  assumes "mq_quiet mq" and "length buf = msg_size mq" and "mq_entry mq < max_msgs mq"
  shows "\<exists>m mq'. queue_free mq = Some m \<and> mq_copy m buf (mq_unlink_free m mq) = Inr mq' \<and> mq_ok {m} mq' \<and>
    mq_nodes mq' = mq_nodes mq \<and> m \<notin> set (mq_nodes mq) \<and> Suc (length (mq_free_nodes mq')) = length (mq_free_nodes mq) \<and>
    msg_data mq' = (msg_data mq)(m := buf) \<and> msg_size mq' = msg_size mq \<and> max_msgs mq' = max_msgs mq \<and>
    mq_entry mq' = mq_entry mq"
proof -
  have q: "mq_ok {} mq" "mq_free_nodes mq \<noteq> []" using assms(1,3) by (auto simp: mq_quiet_def)
  obtain m where m: "queue_free mq = Some m" using queue_free_None[OF q(1)] q(2) by auto
  note u = unlink_free_ok[OF q(1) m]
  have "m \<notin> set (mq_nodes mq)" using mq_okD(1)[OF q(1)] u by (auto simp: mq_lists_def)
  then show ?thesis
    using m u copy_ok[of "{m}" "mq_unlink_free m mq" buf m] assms(2) mq_okD(1)[OF q(1)]
    by (auto simp: mq_unlink_free_def mq_lists_def)
qed

interpretation mqq: bounded_queue mq_enq mq_push mq_deq mq_list mq_quiet max_msgs "\<lambda>mq buf. length buf = msg_size mq"
proof unfold_locales
  fix q :: rt_messagequeue and x :: "u8 list"
  assume q: "mq_quiet q"
  then have ok: "mq_ok {} q" by (simp add: mq_quiet_def)
  note len = length_mq_list[OF ok]
  show "length (mq_list q) \<le> max_msgs q" using mq_okD(3)[OF ok] len by simp
  have full: "queue_free q = None" if "length (mq_list q) = max_msgs q"
    using that q queue_free_None[OF ok] len by (simp add: mq_quiet_def)
  show "length (mq_list q) = max_msgs q \<Longrightarrow> mq_enq x q = None" using full by (simp add: mq_enq_def)
  show "length (mq_list q) = max_msgs q \<Longrightarrow> mq_push x q = None" using full by (simp add: mq_push_def)
  show "mq_list q = [] \<Longrightarrow> mq_deq q = None" using len by (simp add: mq_deq_def)
  show "\<exists>q'. mq_enq x q = Some q' \<and> mq_list q' = mq_list q @ [x] \<and> mq_quiet q' \<and> max_msgs q' = max_msgs q \<and>
      (\<lambda>buf. length buf = msg_size q') = (\<lambda>buf. length buf = msg_size q)"
    if x: "length x = msg_size q" and r: "length (mq_list q) < max_msgs q"
  proof -
    obtain m q1 where m: "queue_free q = Some m" "mq_copy m x (mq_unlink_free m q) = Inr q1" "mq_ok {m} q1"
      "mq_nodes q1 = mq_nodes q" "m \<notin> set (mq_nodes q)" "Suc (length (mq_free_nodes q1)) = length (mq_free_nodes q)"
      "msg_data q1 = (msg_data q)(m := x)" "msg_size q1 = msg_size q" "max_msgs q1 = max_msgs q" "mq_entry q1 = mq_entry q"
      using mq_take_node[OF q x] r len by auto
    show ?thesis
      using link_tail_ok[OF m(3), of m] m q by (auto simp: mq_enq_def mq_quiet_def mq_list_def)
  qed
  show "\<exists>q'. mq_push x q = Some q' \<and> mq_list q' = x # mq_list q \<and> mq_quiet q' \<and> max_msgs q' = max_msgs q \<and>
      (\<lambda>buf. length buf = msg_size q') = (\<lambda>buf. length buf = msg_size q)"
    if x: "length x = msg_size q" and r: "length (mq_list q) < max_msgs q"
  proof -
    obtain m q1 where m: "queue_free q = Some m" "mq_copy m x (mq_unlink_free m q) = Inr q1" "mq_ok {m} q1"
      "mq_nodes q1 = mq_nodes q" "m \<notin> set (mq_nodes q)" "Suc (length (mq_free_nodes q1)) = length (mq_free_nodes q)"
      "msg_data q1 = (msg_data q)(m := x)" "msg_size q1 = msg_size q" "max_msgs q1 = max_msgs q" "mq_entry q1 = mq_entry q"
      using mq_take_node[OF q x] r len by auto
    show ?thesis
      using link_head_ok[OF m(3), of m] m q by (auto simp: mq_push_def mq_quiet_def mq_list_def)
  qed
  show "\<exists>q'. mq_deq q = Some (x, q') \<and> mq_list q' = xs \<and> mq_quiet q' \<and> max_msgs q' = max_msgs q \<and>
      (\<lambda>buf. length buf = msg_size q') = (\<lambda>buf. length buf = msg_size q)" if "mq_list q = x # xs" for xs
  proof -
    have e: "0 < mq_entry q" using that len by (cases "mq_entry q") auto
    obtain m where m: "queue_head q = Some m" "mq_ok {m} ((mq_unlink_head m q)\<lparr>mq_entry := mq_entry q - 1\<rparr>)"
      "mq_nodes q = m # mq_nodes ((mq_unlink_head m q)\<lparr>mq_entry := mq_entry q - 1\<rparr>)"
      "mq_free_nodes ((mq_unlink_head m q)\<lparr>mq_entry := mq_entry q - 1\<rparr>) = mq_free_nodes q"
      using unlink_head_ok[OF ok e] by (auto simp: Let_def)
    show ?thesis
      using link_free_ok[OF m(2), of m] m q e that
      by (auto simp: mq_deq_def mq_quiet_def mq_list_def mq_link_free_def mq_unlink_head_def)
  qed
qed

end
