(* ===== verification/Gentle.thy ===== *)
theory Gentle
  imports Kernel
begin

text \<open>
  What the calls of the kernel do to the threads and queues that they are not about. These
  facts need no invariant; they are proved for every primitive and put together for every
  call. They are what objects built on top of the kernel rely on.
\<close>

section \<open>The relation\<close>

definition live :: "kernel \<Rightarrow> nat \<Rightarrow> bool" where
  "live k t \<longleftrightarrow> stat (thr k t) \<notin> {RT_THREAD_INIT, RT_THREAD_CLOSE}"

text \<open>
  From \<open>k\<close> to \<open>k'\<close>, threads that can run, other than those in \<open>C\<close>, still can and keep their
  error code; threads that wait still wait or can run; queues other than those in \<open>Q\<close> do not
  grow; and a locked scheduler switches to no other thread.
\<close>

definition gentle :: "nat set \<Rightarrow> wait_queue set \<Rightarrow> kernel \<Rightarrow> kernel \<Rightarrow> bool" where
  "gentle C Q k k' \<longleftrightarrow>
     (\<forall>t. t \<notin> C \<longrightarrow> alive k t \<longrightarrow> alive k' t \<and> error (thr k' t) = error (thr k t)) \<and>
     (\<forall>t. t \<notin> C \<longrightarrow> live k t \<longrightarrow> live k' t) \<and>
     (\<forall>q. q \<notin> Q \<longrightarrow> set (susp k' q) \<subseteq> set (susp k q)) \<and>
     lock_nest k' = lock_nest k \<and> irq_nest k' = irq_nest k \<and> (lock_nest k \<noteq> 0 \<longrightarrow> current k' = current k)"

text \<open>Rules of the form: what \<open>f k\<close> is to \<open>k0\<close>, \<open>k\<close> was already.\<close>

named_theorems gentle_intros

lemma gentleD:
  assumes "gentle C Q k k'"
  shows "t \<notin> C \<Longrightarrow> alive k t \<Longrightarrow> alive k' t" and "t \<notin> C \<Longrightarrow> alive k t \<Longrightarrow> error (thr k' t) = error (thr k t)"
    and "t \<notin> C \<Longrightarrow> live k t \<Longrightarrow> live k' t" and "q \<notin> Q \<Longrightarrow> set (susp k' q) \<subseteq> set (susp k q)"
    and "lock_nest k' = lock_nest k" and "irq_nest k' = irq_nest k" and "lock_nest k \<noteq> 0 \<Longrightarrow> current k' = current k"
  using assms by (simp_all add: gentle_def)

lemma gentle_refl [simp]: "gentle C Q k k"
  by (simp add: gentle_def)

lemma gentle_trans:
  assumes "gentle C Q k k1" and "gentle C Q k1 k2"
  shows "gentle C Q k k2"
  using assms unfolding gentle_def by (metis subset_trans)

lemma gentle_mono:
  assumes "gentle C Q k k'" and "C \<subseteq> C'" and "Q \<subseteq> Q'"
  shows "gentle C' Q' k k'"
  using assms unfolding gentle_def by blast

lemma gentle_weaken: "gentle {} {} k k' \<Longrightarrow> gentle C Q k k'"
  by (erule gentle_mono) simp_all

section \<open>Primitives\<close>

lemma gentle_upd:
  assumes "\<And>th. t \<notin> C \<Longrightarrow> stat (f th) = stat th" and "\<And>th. t \<notin> C \<Longrightarrow> error (f th) = error th"
  shows "gentle C Q k (upd t f k)"
  using assms by (auto simp: gentle_def alive_def live_def)

lemma gentle_remove:
  "gentle C Q k (rt_schedule_remove_thread t k)" "gentle C Q k (list_remove t k)"
  by (auto simp: gentle_def alive_def live_def)

lemma gentle_insert: "gentle C Q k (rt_schedule_insert_thread t k)"
  by (auto simp: gentle_def alive_def live_def)

lemma gentle_set_running: "gentle C Q k (set_stat t RT_THREAD_RUNNING k)"
  by (auto simp: gentle_def alive_def live_def set_stat_def)

lemma gentle_timer:
  "gentle C Q k (upd_timer t f k)" "gentle C Q k (timer_off t k)" "gentle C Q k (k\<lparr>timer_list := ts\<rparr>)"
  "gentle C Q k (k\<lparr>tick := n\<rparr>)"
  by (simp_all add: gentle_def alive_def live_def upd_timer_def timer_off_def)

lemma gentle_yielded: "gentle C Q k (upd t (\<lambda>th. th\<lparr>yielded := y\<rparr>) k)"
  by (rule gentle_upd) simp_all

lemma gentle_set_error: "t \<in> C \<Longrightarrow> gentle C Q k (set_error t e k)"
  unfolding set_error_def by (rule gentle_upd) simp_all

lemma gentle_set_error_dead: "\<not> alive k t \<Longrightarrow> gentle C Q k (set_error t e k)"
  by (auto simp: gentle_def alive_def live_def set_error_def)

lemma gentle_set_priority: "gentle C Q k (set_priority t p k)"
  unfolding set_priority_def by (rule gentle_upd) simp_all

lemma gentle_suspended: "t \<in> C \<Longrightarrow> gentle C Q k (set_stat t RT_THREAD_SUSPEND k)"
  by (auto simp: gentle_def alive_def live_def set_stat_def)

lemma gentle_enqueue: "q \<in> Q \<Longrightarrow> gentle C Q k (k\<lparr>susp := (susp k)(q := xs)\<rparr>)"
  by (auto simp: gentle_def alive_def live_def)

lemmas gentle_primitives [gentle_intros] =
  gentle_trans[OF _ gentle_remove(1)] gentle_trans[OF _ gentle_remove(2)] gentle_trans[OF _ gentle_insert]
  gentle_trans[OF _ gentle_set_running] gentle_trans[OF _ gentle_timer(1)] gentle_trans[OF _ gentle_timer(2)]
  gentle_trans[OF _ gentle_yielded] gentle_trans[OF _ gentle_set_error] gentle_trans[OF _ gentle_set_priority]
  gentle_trans[OF _ gentle_suspended]

lemma gentle_timer_stop: "gentle C Q k (snd (rt_timer_stop t k))"
  using gentle_timer(3)[of C Q k "removeAll t (timer_list k)"]
  by (auto simp: rt_timer_stop_def intro!: gentle_intros)

lemma gentle_timer_start: "gentle C Q k (rt_timer_start t k)"
proof -
  have r: "gentle C Q k X \<Longrightarrow> gentle C Q k (X\<lparr>timer_list := ts\<rparr>)" for X ts
    by (erule gentle_trans) (rule gentle_timer(3))
  show ?thesis unfolding rt_timer_start_def Let_def by (intro gentle_intros r gentle_refl)
qed

lemma gentle_resume: "gentle C Q k (snd (rt_thread_resume t k))"
  by (auto simp: rt_thread_resume_def intro!: gentle_intros gentle_trans[OF _ gentle_timer_stop])

lemma gentle_change_priority: "gentle C Q k (change_priority t p k)"
  by (auto simp: change_priority_def intro!: gentle_intros)

lemmas gentle_operations [gentle_intros] =
  gentle_trans[OF _ gentle_timer_stop] gentle_trans[OF _ gentle_timer_start] gentle_trans[OF _ gentle_resume]
  gentle_trans[OF _ gentle_change_priority]

section \<open>Operations that can fail\<close>

lemma gentle_switch:
  assumes "lock_nest k = 0"
  shows "gentle C Q k (switch_to t h b k)"
proof -
  let ?k = "k\<lparr>rt_current_priority := h, current := t\<rparr>"
  have "gentle C Q k ?k" using assms by (simp add: gentle_def alive_def live_def)
  then show ?thesis unfolding switch_to_def Let_def by (auto intro!: gentle_intros)
qed

lemma gentle_schedule:
  assumes "rt_schedule k = Inr k'"
  shows "gentle C Q k k'"
proof (cases "lock_nest k = 0 \<and> ready_group k \<noteq> 0")
  case False
  then have "k' = k" using assms by (auto simp: rt_schedule_def split: if_splits)
  then show ?thesis by simp
next
  case True
  define k1 where "k1 = (if stat (thr k (current k)) = RT_THREAD_RUNNING
    then upd (current k) (\<lambda>th. th\<lparr>yielded := False\<rparr>) k else k)"
  have k1: "gentle C Q k k1" "lock_nest k1 = 0" using True by (simp_all add: k1_def gentle_yielded)
  have "(\<exists>t h b. k' = switch_to t h b k1) \<or>
      k' = set_stat (current k) RT_THREAD_RUNNING (rt_schedule_remove_thread (current k) k1)"
    using assms True
    by (cases "stat (thr k (current k)) = RT_THREAD_RUNNING")
      (auto simp: rt_schedule_def Let_def bind_res_Inr_iff k1_def split: if_splits)
  then show ?thesis using k1(1) gentle_switch[OF k1(2)] gentle_trans by (auto intro!: gentle_intros)
qed

lemma gentle_suspend: "rt_thread_suspend t k = Inr (e, k') \<Longrightarrow> t \<in> C \<Longrightarrow> gentle C Q k k'"
  by (auto simp: rt_thread_suspend_def split: if_splits intro!: gentle_intros)

lemma gentle_ipc_suspend:
  assumes "ipc_list_suspend q t flag k = Inr k'" and "t \<in> C" and "q \<in> Q"
  shows "gentle C Q k k'"
  using assms(1)
  by (auto simp: ipc_list_suspend_def bind_res_Inr_iff split: if_splits
      intro!: gentle_trans[OF gentle_suspend[OF _ assms(2)] gentle_enqueue[OF assms(3)]])

lemma gentle_set_time: "rt_timer_set_time t v k = Inr k' \<Longrightarrow> gentle C Q k k'"
  by (auto simp: rt_timer_set_time_def split: if_splits intro!: gentle_intros)

lemma gentle_wait_schedule:
  assumes "wait_schedule t timeout k = Inr (r, k')"
  shows "gentle C Q k k'"
proof -
  obtain k1 where k1: "rt_schedule k1 = Inr k'" "k1 = k \<or> (\<exists>k0 v. rt_timer_set_time t v k = Inr k0 \<and> k1 = rt_timer_start t k0)"
    using assms by (auto simp: wait_schedule_def bind_res_Inr_iff split: if_splits)
  from k1(2) have "gentle C Q k k1" by (auto intro!: gentle_intros elim: gentle_set_time)
  then show ?thesis using gentle_schedule[OF k1(1)] by (rule gentle_trans)
qed

lemma gentle_ipc_resume: "ipc_list_resume q k = Inr k' \<Longrightarrow> gentle C Q k k'"
  by (auto simp: ipc_list_resume_def gentle_resume split: list.splits)

lemma gentle_resume_all: "ipc_list_resume_all q k = Inr k' \<Longrightarrow> gentle C Q k k'"
proof (induction q k rule: ipc_list_resume_all.induct)
  case (1 q k)
  show ?case
  proof (cases "susp k q")
    case Nil
    then show ?thesis using "1.prems" by (simp add: ipc_list_resume_all.simps[of q k])
  next
    case (Cons t ts)
    let ?k = "snd (rt_thread_resume t (set_error t (- RT_ERROR) k))"
    have s: "stat (thr k t) = RT_THREAD_SUSPEND" "ipc_list_resume_all q ?k = Inr k'"
      using "1.prems" Cons by (simp_all add: ipc_list_resume_all.simps[of q k] split: if_splits)
    then have "gentle C Q ?k k'" using "1.IH"[OF Cons] by simp
    moreover have "gentle C Q k ?k"
      using s(1) by (intro gentle_intros gentle_set_error_dead) (simp add: alive_def)
    ultimately show ?thesis using gentle_trans by blast
  qed
qed

lemma gentle_timer_check: "rt_timer_check k = Inr k' \<Longrightarrow> gentle C Q k k'"
proof (induction k rule: rt_timer_check.induct)
  case (1 k)
  show ?case
  proof (cases "timer_list k")
    case Nil
    then show ?thesis using "1.prems" by (simp add: rt_timer_check.simps[of k])
  next
    case (Cons t ts)
    show ?thesis
    proof (cases "expired k t")
      case True
      then obtain k1 where k1: "thread_timeout t (timer_off t k) = Inr k1" "rt_timer_check k1 = Inr k'"
        using "1.prems" Cons by (auto simp: rt_timer_check.simps[of k] bind_res_Inr_iff)
      then have s: "\<not> alive (timer_off t k) t" by (simp add: thread_timeout_def alive_def split: if_splits)
      have "gentle C Q k (rt_schedule_insert_thread t (list_remove t (set_error t (- RT_ETIMEOUT) (timer_off t k))))"
        by (rule gentle_trans[OF gentle_timer(2)[of C Q k t]]) (intro gentle_primitives(1-3) gentle_set_error_dead[OF s])
      then have "gentle C Q k k1"
        using k1(1) gentle_schedule gentle_trans by (auto simp: thread_timeout_def split: if_splits)
      then show ?thesis using "1.IH"[OF Cons True k1(1,2)] gentle_trans by blast
    next
      case False
      then show ?thesis using "1.prems" Cons by (simp add: rt_timer_check.simps[of k])
    qed
  qed
qed

lemma gentle_tick: "rt_tick_increase k = Inr k' \<Longrightarrow> gentle C Q k k'"
proof -
  assume a: "rt_tick_increase k = Inr k'"
  have u: "gentle C Q X (upd t (\<lambda>th. th\<lparr>remaining_tick := n th\<rparr>) X)"
    "gentle C Q X (upd t (\<lambda>th. th\<lparr>remaining_tick := n th, yielded := y\<rparr>) X)" for X t n y
    by (rule gentle_upd; simp)+
  define k2 where "k2 = upd (current k) (\<lambda>th. th\<lparr>remaining_tick := remaining_tick th - 1\<rparr>) (k\<lparr>tick := tick k + 1\<rparr>)"
  have k2: "gentle C Q k k2" unfolding k2_def using gentle_timer(4) u(1) by (rule gentle_trans)
  obtain k3 where k3: "rt_timer_check k3 = Inr k'" "k3 = k2 \<or>
      rt_schedule (upd (current k) (\<lambda>th. th\<lparr>remaining_tick := slice_tick th, yielded := True\<rparr>) k2) = Inr k3"
    using a by (auto simp: rt_tick_increase_def Let_def bind_res_Inr_iff k2_def split: if_splits)
  then have "gentle C Q k2 k3" using gentle_trans[OF u(2) gentle_schedule] by auto
  then show ?thesis using k2 gentle_timer_check[OF k3(1)] gentle_trans by blast
qed

section \<open>Calls\<close>

text \<open>The queues of semaphores and mutexes.\<close>

definition base_queues :: "wait_queue set" where
  "base_queues = range Sem_Q \<union> range Mutex_Q"

lemma base_queues_mem [simp]:
  "Sem_Q s \<in> base_queues" "Mutex_Q m \<in> base_queues" "Event_Q e \<notin> base_queues" "Mb_Recv_Q b \<notin> base_queues"
  "Mb_Send_Q b \<notin> base_queues" "Mq_Recv_Q q \<notin> base_queues" "Mq_Send_Q q \<notin> base_queues" "Mp_Q p \<notin> base_queues"
  by (auto simp: base_queues_def)

lemma gentle_start:
  assumes "thread_start True t p n k = Inr k'" and "\<not> live k t"
  shows "gentle C Q k k'"
proof -
  obtain k1 where k1: "thread_init t p n k = Inr k1" "rt_thread_startup True t k1 = Inr k'"
    using assms(1) by (auto simp: thread_start_def bind_res_Inr_iff)
  have nl: "\<not> live k1 t" "\<not> alive k1 t" "gentle C Q k k1"
    using k1(1) assms(2) by (auto simp: thread_init_def live_def alive_def gentle_def split: if_splits)
  let ?k2 = "upd t (\<lambda>th. th\<lparr>number_mask := push_bit (current_priority th) 1,
                              stat := RT_THREAD_SUSPEND, yielded := False\<rparr>) k1"
  have "gentle C Q k1 ?k2" using nl(1,2) by (auto simp: gentle_def alive_def live_def)
  moreover have "rt_schedule (snd (rt_thread_resume t ?k2)) = Inr k'"
    using k1(2) by (simp add: rt_thread_startup_def Let_def split: if_splits)
  ultimately show ?thesis using nl(3) gentle_resume gentle_schedule gentle_trans by meson
qed

lemma gentle_exit:
  assumes "thread_exit k = Inr k'" and "current k \<in> C"
  shows "gentle C Q k k'"
proof -
  have c: "gentle C Q X (upd (current k) (\<lambda>th. th\<lparr>stat := RT_THREAD_CLOSE, yielded := False\<rparr>) X)" for X
    by (rule gentle_upd) (use assms(2) in simp_all)
  have l: "gentle C Q k X \<Longrightarrow> gentle C Q k (X\<lparr>timer_list := ts\<rparr>)" for X ts
    by (erule gentle_trans) (rule gentle_timer(3))
  have "gentle C Q k (upd (current k) (\<lambda>th. th\<lparr>stat := RT_THREAD_CLOSE, yielded := False\<rparr>)
      (upd_timer (current k) (\<lambda>tm. tm\<lparr>activated := False\<rparr>)
        ((rt_schedule_remove_thread (current k) k)\<lparr>timer_list :=
          removeAll (current k) (timer_list (rt_schedule_remove_thread (current k) k))\<rparr>)))"
    by (intro gentle_trans[OF _ c] gentle_intros l gentle_remove)
  then show ?thesis using assms(1) gentle_schedule gentle_trans by (auto simp: thread_exit_def Let_def)
qed

lemma gentle_sleep:
  assumes "rt_thread_sleep n k = Inr k'" and "current k \<in> C"
  shows "gentle C Q k k'"
proof -
  let ?k = "set_error (current k) RT_EOK k"
  obtain e k1 k2 where s: "rt_thread_suspend (current ?k) ?k = Inr (e, k1)"
    "rt_timer_set_time (current ?k) n k1 = Inr k2" "rt_schedule (rt_timer_start (current ?k) k2) = Inr k'"
    using assms(1) by (auto simp: rt_thread_sleep_def sleep_ticks_def bind_res_Inr_iff)
  have "current ?k \<in> C" using assms(2) by (simp add: set_error_def)
  then have "gentle C Q ?k k'"
    using s gentle_suspend gentle_set_time gentle_timer_start gentle_schedule gentle_trans by meson
  then show ?thesis using gentle_set_error[OF assms(2)] gentle_trans by blast
qed

lemma gentle_yield:
  assumes "rt_thread_yield k = Inr k'"
  shows "gentle C Q k k'"
proof -
  have "gentle C Q k (upd (current k) (\<lambda>th. th\<lparr>remaining_tick := slice_tick th, yielded := True\<rparr>) k)"
    by (rule gentle_upd) simp_all
  then show ?thesis using assms gentle_schedule gentle_trans unfolding rt_thread_yield_def by blast
qed

lemma gentle_wait:
  assumes "bind_res (ipc_list_suspend q t flag k) (wait_schedule t timeout) = Inr (r, k')" and "t \<in> C" and "q \<in> Q"
  shows "gentle C Q k k'"
  using assms gentle_ipc_suspend gentle_wait_schedule gentle_trans unfolding bind_res_Inr_iff by meson

lemma gentle_sem_take:
  assumes "rt_sem_take s timeout w = Inr (r, w')"
  shows "gentle {current (krn w)} base_queues (krn w) (krn w')"
proof -
  let ?t = "current (krn w)"
  let ?k = "set_error ?t RT_EOK (krn w)"
  consider "krn w' = krn w"
    | k1 k2 where "ipc_list_suspend (Sem_Q s) ?t (sem_flag (sem w s)) ?k = Inr k1"
      "wait_schedule ?t timeout k1 = Inr (r, k2)" "krn w' = k2"
    using assms by (auto simp: rt_sem_take_def Let_def bind_res_Inr_iff set_sem_value_def split: if_splits)
  then show ?thesis
  proof cases
    case 2
    then have "gentle {?t} base_queues ?k (krn w')"
      using gentle_ipc_suspend[of "Sem_Q s" ?t _ ?k k1 "{?t}" base_queues] gentle_wait_schedule gentle_trans by simp blast
    then show ?thesis using gentle_set_error[of ?t "{?t}"] gentle_trans by blast
  qed simp
qed

lemma gentle_sem_release:
  assumes "rt_sem_release s w = Inr (r, w')"
  shows "gentle C Q (krn w) (krn w')"
  using assms gentle_ipc_resume gentle_schedule gentle_trans
  by (auto simp: rt_sem_release_def Let_def bind_res_Inr_iff set_sem_value_def split: if_splits) blast

lemma gentle_sem_control:
  assumes "rt_sem_control s b v w = Inr (r, w')"
  shows "gentle C Q (krn w) (krn w')"
  using assms gentle_resume_all gentle_schedule gentle_trans
  by (auto simp: rt_sem_control_def bind_res_Inr_iff set_sem_value_def split: if_splits) blast

lemma gentle_mutex_take:
  assumes "rt_mutex_take m timeout w = Inr (r, w')"
  shows "gentle {current (krn w)} base_queues (krn w) (krn w')"
proof -
  let ?t = "current (krn w)"
  let ?k = "set_error ?t RT_EOK (krn w)"
  have e: "gentle {?t} base_queues (krn w) ?k" "gentle {?t} base_queues (krn w) (set_error ?t (- RT_ETIMEOUT) ?k)"
    using gentle_set_error[of ?t "{?t}"] gentle_trans by blast+
  consider "krn w' = ?k" | "krn w' = set_error ?t (- RT_ETIMEOUT) ?k"
    | k where "mutex_block m timeout ?k (owner (mutex w m)) = Inr (r, k)" "krn w' = k"
    using assms
    by (auto simp: rt_mutex_take_def Let_def bind_res_Inr_iff upd_mutex_def set_error_def split: if_splits)
  then show ?thesis
  proof cases
    case 3
    obtain h where h: "owner (mutex w m) = Some h" using 3(1) by (cases "owner (mutex w m)") (auto simp: mutex_block_def)
    define k1 where "k1 = (if prio ?k (current ?k) < prio ?k h then change_priority h (prio ?k (current ?k)) ?k else ?k)"
    have c: "current ?k = ?t" by (simp add: set_error_def)
    have "gentle {?t} base_queues k1 k"
      using 3(1) c unfolding mutex_block_def h Let_def option.case k1_def[symmetric]
      by (intro gentle_wait) auto
    moreover have "gentle {?t} base_queues ?k k1" by (simp add: k1_def gentle_change_priority)
    ultimately show ?thesis using e(1) 3(2) gentle_trans by blast
  qed (use e in simp_all)
qed

lemma gentle_hand_over:
  assumes "mutex_hand_over m w = Inr (r, w')"
  shows "gentle C Q (krn w) (krn w')"
proof (cases "susp (krn w) (Mutex_Q m)")
  case Nil
  then show ?thesis using assms by (auto simp: mutex_hand_over_def upd_mutex_def split: if_splits)
next
  case (Cons t ts)
  then show ?thesis
    using assms gentle_ipc_resume gentle_schedule gentle_trans
    by (auto simp: mutex_hand_over_def Let_def upd_mutex_def bind_res_Inr_iff split: if_splits) blast
qed

lemma gentle_mutex_release:
  assumes "rt_mutex_release m w = Inr (r, w')"
  shows "gentle {current (krn w)} Q (krn w) (krn w')"
proof -
  let ?t = "current (krn w)"
  consider "krn w' = krn w" | "krn w' = set_error ?t (- RT_ERROR) (krn w)"
    | w1 where "mutex_hand_over m w1 = Inr (r, w')" "krn w1 = krn w \<or> (\<exists>p. krn w1 = change_priority ?t p (krn w))"
    using assms
    by (auto simp: rt_mutex_release_def Let_def upd_mutex_def split: if_splits) (metis os.select_convs(1) os.surjective os.update_convs(1))+
  then show ?thesis
  proof cases
    case 3
    then show ?thesis using gentle_hand_over[OF 3(1)] gentle_change_priority gentle_trans by metis
  qed (simp_all add: gentle_set_error)
qed

text \<open>
  Every call of the kernel but those that lock the scheduler; only the calling thread is
  concerned, and not even it when the call is one that interrupts make.
\<close>

lemma gentle_call:
  assumes "do_call c w = Inr w'" and "allowed i w c" and "c \<noteq> Enter_Critical" and "c \<noteq> Exit_Critical"
  shows "gentle (if c = Tick \<or> (\<exists>s. c = Sem_Release s) then {} else {current (krn w)}) base_queues (krn w) (krn w')"
proof (cases c)
  case (Sem_Init s v flag)
  then show ?thesis using assms(1,2) by (auto simp: rt_sem_init_def gentle_enqueue split: if_splits)
next
  case (Start t p n)
  then have "\<not> live (krn w) t" using assms(2) by (auto simp: fresh_def live_def)
  then show ?thesis using Start assms(1) gentle_start by (auto simp: in_kernel_def bind_res_Inr_iff)
next
  case (Mutex_Init m)
  then show ?thesis using assms(1) by (auto simp: rt_mutex_init_def gentle_enqueue)
qed (use assms in \<open>auto simp: in_kernel_def bind_res_Inr_iff rt_sem_detach_def
    dest: gentle_sem_take gentle_sem_release gentle_sem_control gentle_resume_all gentle_mutex_take
      gentle_mutex_release gentle_yield gentle_tick intro: gentle_sleep gentle_exit\<close>)

end
