(* ===== verification/Wakeup.thy ===== *)
theory Wakeup
  imports Messages Msgqueue_Inv Gentle
begin

text \<open>
  What all waiting calls share. A call that finds nothing to take puts its thread into a
  queue; whoever brings something wakes the first thread of the queue, which takes it when
  it runs, if nobody else was faster. The invariant that makes this work: when threads
  wait although there is something to take, at least as many threads have been
  woken and have yet to look.
\<close>

section \<open>Threads in waiting calls\<close>

fun waits_in :: "pending \<Rightarrow> wait_queue option" where
  "waits_in (Event_Wait e) = Some (Event_Q e)"
| "waits_in (Mb_Send_Wait b _ _ _) = Some (Mb_Send_Q b)"
| "waits_in (Mb_Recv_Wait b _ _) = Some (Mb_Recv_Q b)"
| "waits_in (Mq_Send_Wait q _ _ _) = Some (Mq_Send_Q q)"
| "waits_in (Mq_Recv_Wait q _ _ _) = Some (Mq_Recv_Q q)"
| "waits_in (Mp_Wait p _ _) = Some (Mp_Q p)"
| "waits_in _ = None"

text \<open>The threads that were woken from a queue and have yet to go on.\<close>

definition woken_in :: "sys \<Rightarrow> wait_queue \<Rightarrow> nat set" where
  "woken_in s q = {t. waits_in (pending s t) = Some q \<and> alive (sk s) t \<and> error (thr (sk s) t) = RT_EOK}"

text \<open>How much there is to take for the threads of a queue.\<close>

fun avail :: "sys \<Rightarrow> wait_queue \<Rightarrow> nat" where
  "avail s (Mb_Recv_Q b) = entry (mailbox s b)"
| "avail s (Mb_Send_Q b) = mb_size (mailbox s b) - entry (mailbox s b)"
| "avail s (Mq_Recv_Q q) = mq_entry (msgq s q)"
| "avail s (Mq_Send_Q q) = length (mq_free_nodes (msgq s q))"
| "avail s (Mp_Q p) = block_free_count (mempool s p)"
| "avail s _ = 0"

definition enough_woken :: "sys \<Rightarrow> wait_queue \<Rightarrow> nat \<Rightarrow> bool" where
  "enough_woken s q n \<longleftrightarrow> (susp (sk s) q \<noteq> [] \<longrightarrow> n \<le> card (woken_in s q))"

definition wake_inv :: "sys \<Rightarrow> bool" where
  "wake_inv s \<longleftrightarrow> (\<forall>q. q \<notin> base_queues \<longrightarrow> enough_woken s q (avail s q))"

text \<open>One woken thread, or one thing to take, of \<open>q0\<close> does not count.\<close>

definition wake_but :: "wait_queue \<Rightarrow> sys \<Rightarrow> bool" where
  "wake_but q0 s \<longleftrightarrow>
     (\<forall>q. q \<notin> base_queues \<longrightarrow> enough_woken s q (avail s q - (if q = q0 then 1 else 0)))"

lemma wake_inv_but: "wake_inv s \<Longrightarrow> wake_but q s"
  by (auto simp: wake_inv_def wake_but_def enough_woken_def)

text \<open>
  The calls fit the threads: only threads of the kernel are in calls, a thread in a queue is in
  the call of this queue, and a thread that goes on after a wait may wait again.
\<close>

definition pend_inv :: "nat \<Rightarrow> sys \<Rightarrow> bool" where
  "pend_inv i s \<longleftrightarrow> finite {t. pending s t \<noteq> No_Call} \<and>
     (\<forall>t. pending s t \<noteq> No_Call \<longrightarrow> live (sk s) t) \<and>
     (\<forall>q t. q \<notin> base_queues \<longrightarrow> t \<in> set (susp (sk s) q) \<longrightarrow> waits_in (pending s t) = Some q) \<and>
     (lock_nest (sk s) \<noteq> 0 \<longrightarrow> waits_in (pending s (current (sk s))) = None) \<and>
     waits_in (pending s i) = None \<and> irq_nest (sk s) = 0"

definition proc_inv :: "nat \<Rightarrow> sys \<Rightarrow> bool" where
  "proc_inv i s \<longleftrightarrow> os_inv i (base s) \<and> pend_inv i s"

lemma proc_invD:
  assumes "proc_inv i s"
  shows "os_inv i (base s)" "pend_inv i s" "finite {t. pending s t \<noteq> No_Call}"
    "pending s t \<noteq> No_Call \<Longrightarrow> live (sk s) t"
    "q \<notin> base_queues \<Longrightarrow> t \<in> set (susp (sk s) q) \<Longrightarrow> waits_in (pending s t) = Some q"
    "irq_nest (sk s) = 0" "waits_in (pending s i) = None"
  using assms by (simp_all add: proc_inv_def pend_inv_def)

lemma set_kernel_simps [simp]:
  "base (set_kernel k s) = (base s)\<lparr>krn := k\<rparr>" "event (set_kernel k s) = event s"
  "event_set (set_kernel k s) = event_set s" "event_info (set_kernel k s) = event_info s"
  "mailbox (set_kernel k s) = mailbox s" "msgq (set_kernel k s) = msgq s" "mempool (set_kernel k s) = mempool s"
  "pending (set_kernel k s) = pending s"
  by (simp_all add: set_kernel_def)

lemma set_kernel_self [simp]: "set_kernel (sk s) s = s"
  by (simp add: set_kernel_def)

lemma set_pending_simps [simp]:
  "base (set_pending t p s) = base s" "event (set_pending t p s) = event s"
  "event_set (set_pending t p s) = event_set s" "event_info (set_pending t p s) = event_info s"
  "mailbox (set_pending t p s) = mailbox s" "msgq (set_pending t p s) = msgq s" "mempool (set_pending t p s) = mempool s"
  "pending (set_pending t p s) = (pending s)(t := p)"
  by (simp_all add: set_pending_def)

lemma woken_in_finite:
  assumes "proc_inv i s"
  shows "finite (woken_in s q)"
  by (rule finite_subset[OF _ proc_invD(3)[OF assms]]) (auto simp: woken_in_def)

lemma woken_in_alive: "t \<in> woken_in s q \<Longrightarrow> alive (sk s) t"
  by (simp add: woken_in_def)

section \<open>Calls about other things\<close>

lemma woken_in_mono:
  assumes "gentle C Q (sk s) (sk s')" and "\<And>t. t \<in> C \<Longrightarrow> waits_in (pending s t) = None"
    and "\<And>t. t \<notin> C \<Longrightarrow> pending s' t = pending s t"
  shows "woken_in s q \<subseteq> woken_in s' q"
proof
  fix t assume "t \<in> woken_in s q"
  then have t: "waits_in (pending s t) = Some q" "alive (sk s) t" "error (thr (sk s) t) = RT_EOK"
    by (simp_all add: woken_in_def)
  then have "t \<notin> C" using assms(2) by force
  then show "t \<in> woken_in s' q" using t gentleD(1,2)[OF assms(1)] assms(3) by (simp add: woken_in_def)
qed

lemma enough_woken_mono:
  assumes "enough_woken s q n" and "susp (sk s') q \<noteq> [] \<Longrightarrow> susp (sk s) q \<noteq> []"
    and "woken_in s q \<subseteq> woken_in s' q" and "finite (woken_in s' q)" and "n' \<le> n"
  shows "enough_woken s' q n'"
  using assms card_mono[OF assms(4,3)] unfolding enough_woken_def by (metis order_trans)

lemma proc_frame:
  assumes "proc_inv i s" and "os_inv i (base s')" and "gentle C base_queues (sk s) (sk s')"
    and "\<And>t. t \<in> C \<Longrightarrow> pending s t = No_Call" and "pending s' = pending s"
  shows "proc_inv i s'" and "woken_in s q \<subseteq> woken_in s' q"
    and "q \<notin> base_queues \<Longrightarrow> set (susp (sk s') q) \<subseteq> set (susp (sk s) q)"
proof -
  note p = proc_invD[OF assms(1)] and g = gentleD[OF assms(3)]
  have "live (sk s') t" if "pending s t \<noteq> No_Call" for t using g(3) p(4)[OF that] assms(4) that by blast
  moreover have "waits_in (pending s t) = Some q" if "q \<notin> base_queues" "t \<in> set (susp (sk s') q)" for q t
    using g(4)[OF that(1)] p(5)[OF that(1)] that(2) by blast
  moreover have "waits_in (pending s (current (sk s'))) = None" if "lock_nest (sk s') \<noteq> 0"
    using g(5,7) that assms(1) by (simp add: proc_inv_def pend_inv_def)
  ultimately show "proc_inv i s'"
    using assms(2,5) p g(6) by (auto simp: proc_inv_def pend_inv_def)
  show "woken_in s q \<subseteq> woken_in s' q" by (rule woken_in_mono[OF assms(3)]) (use assms(4,5) in auto)
  show "q \<notin> base_queues \<Longrightarrow> set (susp (sk s') q) \<subseteq> set (susp (sk s) q)" by (rule g(4))
qed

lemma wake_frame:
  assumes "wake_but q0 s" and "proc_inv i s'" and "\<And>q. woken_in s q \<subseteq> woken_in s' q"
    and "\<And>q. q \<notin> base_queues \<Longrightarrow> susp (sk s') q \<noteq> [] \<Longrightarrow> susp (sk s) q \<noteq> [] \<or> avail s' q = 0"
    and "\<And>q. q \<notin> base_queues \<Longrightarrow> avail s' q - (if q = q1 then 1 else 0) \<le> avail s q - (if q = q0 then 1 else 0)"
  shows "wake_but q1 s'"
  unfolding wake_but_def
proof (intro allI impI)
  fix q assume q: "q \<notin> base_queues"
  show "enough_woken s' q (avail s' q - (if q = q1 then 1 else 0))"
  proof (cases "avail s' q = 0")
    case False
    have "enough_woken s q (avail s q - (if q = q0 then 1 else 0))" using assms(1) q by (simp add: wake_but_def)
    then show ?thesis
      by (rule enough_woken_mono) (use assms(3) assms(4,5)[OF q] False woken_in_finite[OF assms(2)] in auto)
  qed (simp add: enough_woken_def)
qed

text \<open>\<open>q1\<close> being a queue of the kernel, nothing is left out on the right.\<close>

lemma wake_but_base: "q1 \<in> base_queues \<Longrightarrow> wake_but q1 s = wake_inv s"
  by (auto simp: wake_but_def wake_inv_def)

section \<open>Waiting\<close>

text \<open>The kernel side of a waiting call: the thread joins a queue, whatever its place there.\<close>

lemma os_wait_as:
  fixes w q xs
  defines "t \<equiv> current (krn w)"
  defines "k0 \<equiv> set_error t RT_EOK (krn w)"
  assumes "os_inv i w" and "timeout < 0x7FFFFFFF" and "may_block i w" and "q \<notin> base_queues"
    and "set xs = insert t (set (susp (krn w) q))" and "distinct xs"
  shows "\<exists>k. wait_schedule t timeout (in_queue q xs k0) = Inr (Waiting, k) \<and>
    os_inv i (w\<lparr>krn := k\<rparr>) \<and> susp k = (susp (krn w))(q := xs) \<and> gentle {t} {q} (krn w) k \<and>
    stat (thr k t) = RT_THREAD_SUSPEND"
proof -
  note o = os_invD[OF assms(3)]
  note k = set_error_kernel[OF o(1)]
  have e: "kinv (tick k0) k0" "stat (thr k0 (current k0)) = RT_THREAD_RUNNING"
    "stat (thr k0 i) = RT_THREAD_READY" "lock_nest k0 = 0" "current k0 = t" "susp k0 = susp (krn w)"
    using k o(2) idle_ready[OF assms(3)] assms(5) by (simp_all add: may_block_def scheduler_available_def t_def k0_def)
  have xs: "set xs = insert (current k0) (set (susp k0 q))" using assms(7) e(5,6) by simp
  obtain k' where k': "wait_schedule t timeout (in_queue q xs k0) = Inr (Waiting, k')" "joined q xs k0 k'"
    using block_as_inv[OF e(1,2) xs assms(8) e(3,4) assms(4)] e(5) by auto
  have nb: "q \<noteq> Sem_Q s" "q \<noteq> Mutex_Q s" for s using assms(6) by auto
  have "sem_inv (w\<lparr>krn := k'\<rparr>) s" "mutex_inv (w\<lparr>krn := k'\<rparr>) s" for s
    using o(4,5)[of s] k'(2) nb[of s] by (auto simp: sem_inv_def mutex_inv_def joined_def k k0_def split: option.splits)
  moreover have "error (thr k' x) = RT_EOK" if "x \<in> set (susp k' q')" for q' x
    using joined_error[OF k'(2) that xs] o(6)[of x q'] e(5,6) by (auto simp: set_error_def k0_def)
  ultimately have os: "os_inv i (w\<lparr>krn := k'\<rparr>)"
    using k'(2) o(3) assms(5) e(5) by (auto simp: os_inv_def joined_def k k0_def may_block_def t_def)
  have "gentle {t} {q} (set_stat t RT_THREAD_SUSPEND k0) (in_queue q xs k0)"
    unfolding in_queue_def e(5) using gentle_enqueue[of q "{q}" "{t}" "set_stat t RT_THREAD_SUSPEND k0" xs]
    by (simp add: set_stat_def)
  then have "gentle {t} {q} k0 (in_queue q xs k0)" using gentle_suspended[of t "{t}"] gentle_trans by blast
  then have "gentle {t} {q} k0 k'" using gentle_wait_schedule[OF k'(1)] gentle_trans by blast
  then have "gentle {t} {q} (krn w) k'" using gentle_set_error[of t "{t}"] gentle_trans unfolding k0_def by blast
  then show ?thesis using os k' e(5,6) by (auto simp: joined_def)
qed

text \<open>The two ways to join a queue.\<close>

lemma join_last:
  assumes "os_inv i w" and "flag_ok flag"
  defines "t \<equiv> current (krn w)"
  shows "\<exists>xs. ipc_list_suspend q t flag (set_error t RT_EOK (krn w)) = Inr (in_queue q xs (set_error t RT_EOK (krn w))) \<and>
    set xs = insert t (set (susp (krn w) q)) \<and> distinct xs"
proof -
  note o = os_invD[OF assms(1)]
  note k = set_error_kernel[OF o(1)]
  have "flag = RT_IPC_FLAG_FIFO \<or> flag = RT_IPC_FLAG_PRIO" using assms(2) by (simp add: flag_ok_def)
  then show ?thesis
    using ipc_suspend_inv[OF k(1), of t RT_EOK flag q] o(2) k by (auto simp: t_def)
qed

lemma join_first:
  assumes "os_inv i w"
  defines "t \<equiv> current (krn w)"
  shows "suspend_first q t (set_error t RT_EOK (krn w)) = Inr (in_queue q (t # susp (krn w) q) (set_error t RT_EOK (krn w)))"
    and "set (t # susp (krn w) q) = insert t (set (susp (krn w) q))" and "distinct (t # susp (krn w) q)"
proof -
  note o = os_invD[OF assms(1)]
  note k = set_error_kernel[OF o(1)]
  show "suspend_first q t (set_error t RT_EOK (krn w)) = Inr (in_queue q (t # susp (krn w) q) (set_error t RT_EOK (krn w)))"
    using suspend_eq[OF k(1), of t RT_EOK] o(2) k(2,4,5)
    by (simp add: suspend_first_def in_queue_def t_def set_stat_def)
  show "distinct (t # susp (krn w) q)"
    using current_not_waiting[OF assms(1), of q] kinvD(2)[OF o(1)] by (simp add: t_def wait_inv_def)
qed simp

text \<open>The thread of a waiting call in its queue.\<close>

lemma in_wait_inv:
  assumes "proc_inv i s" and "timeout < 0x7FFFFFFF" and "may_block i (base s)"
    and "pending s (current (sk s)) = No_Call" and "waits_in p = Some q"
    and "set xs = insert (current (sk s)) (set (susp (sk s) q))" and "distinct xs"
  shows "\<exists>k r. wait_schedule (current (sk s)) timeout (in_queue q xs (set_error (current (sk s)) RT_EOK (sk s))) = Inr (r, k) \<and>
    proc_inv i (set_pending (current (sk s)) p (set_kernel k s)) \<and> susp k = (susp (sk s))(q := xs) \<and>
    (\<forall>q'. woken_in s q' \<subseteq> woken_in (set_pending (current (sk s)) p (set_kernel k s)) q')"
proof -
  let ?t = "current (sk s)"
  note p = proc_invD[OF assms(1)]
  have nb: "q \<notin> base_queues" using assms(5) by (cases p) auto
  obtain k where k: "wait_schedule ?t timeout (in_queue q xs (set_error ?t RT_EOK (sk s))) = Inr (Waiting, k)"
    "os_inv i ((base s)\<lparr>krn := k\<rparr>)" "susp k = (susp (sk s))(q := xs)" "gentle {?t} {q} (sk s) k" "stat (thr k ?t) = RT_THREAD_SUSPEND"
    using os_wait_as[OF p(1) assms(2,3) nb assms(6,7)] by blast
  let ?s = "set_pending ?t p (set_kernel k s)"
  have g: "gentle {?t} {q} (sk s) (sk ?s)" using k(4) by simp
  have "?t \<noteq> i" "lock_nest (sk s) = 0" using assms(3) by (auto simp: may_block_def scheduler_available_def)
  moreover have "live (sk ?s) x" if "pending ?s x \<noteq> No_Call" for x
    using that p(4)[of x] gentleD(3)[OF g, of x] k(5) by (cases "x = ?t") (auto simp: live_def)
  moreover have "waits_in (pending ?s x) = Some q'" if "q' \<notin> base_queues" "x \<in> set (susp (sk ?s) q')" for q' x
    using that p(5)[of q' x] k(3) assms(4-6) by (cases "q' = q"; cases "x = ?t") auto
  moreover have "finite {x. pending ?s x \<noteq> No_Call}"
    by (rule finite_subset[OF _ finite.insertI[OF p(3), of ?t]]) auto
  ultimately have "proc_inv i ?s"
    using k(2) p gentleD(5,6)[OF g] by (auto simp: proc_inv_def pend_inv_def)
  moreover have "woken_in s q' \<subseteq> woken_in ?s q'" for q'
    by (rule woken_in_mono[OF g]) (use assms(4) in auto)
  ultimately show ?thesis using k(1,3) by blast
qed

lemma wait_in_inv:
  assumes "proc_inv i s" and "timeout < 0x7FFFFFFF" and "may_block i (base s)" and "flag_ok flag"
    and "pending s (current (sk s)) = No_Call" and "waits_in p = Some q"
  shows "\<exists>k. wait_in q flag timeout p s = Inr (Not_Yet, set_pending (current (sk s)) p (set_kernel k s)) \<and>
    proc_inv i (set_pending (current (sk s)) p (set_kernel k s)) \<and>
    set (susp k q) = insert (current (sk s)) (set (susp (sk s) q)) \<and>
    (\<forall>q'. q' \<noteq> q \<longrightarrow> susp k q' = susp (sk s) q') \<and>
    (\<forall>q'. woken_in s q' \<subseteq> woken_in (set_pending (current (sk s)) p (set_kernel k s)) q')"
proof -
  obtain xs where xs: "ipc_list_suspend q (current (sk s)) flag (set_error (current (sk s)) RT_EOK (sk s)) =
      Inr (in_queue q xs (set_error (current (sk s)) RT_EOK (sk s)))"
    "set xs = insert (current (sk s)) (set (susp (sk s) q))" "distinct xs"
    using join_last[OF proc_invD(1)[OF assms(1)] assms(4)] by blast
  obtain k r where k: "wait_schedule (current (sk s)) timeout (in_queue q xs (set_error (current (sk s)) RT_EOK (sk s))) = Inr (r, k)"
    "proc_inv i (set_pending (current (sk s)) p (set_kernel k s))" "susp k = (susp (sk s))(q := xs)"
    "\<forall>q'. woken_in s q' \<subseteq> woken_in (set_pending (current (sk s)) p (set_kernel k s)) q'"
    using in_wait_inv[OF assms(1-3,5,6) xs(2,3)] by blast
  then show ?thesis using xs by (intro exI[of _ k]) (simp add: wait_in_def Let_def)
qed

lemma wait_first_inv:
  assumes "proc_inv i s" and "timeout < 0x7FFFFFFF" and "may_block i (base s)"
    and "pending s (current (sk s)) = No_Call" and "waits_in p = Some q"
  shows "\<exists>k. wait_first q timeout p s = Inr (Not_Yet, set_pending (current (sk s)) p (set_kernel k s)) \<and>
    proc_inv i (set_pending (current (sk s)) p (set_kernel k s)) \<and> susp k = (susp (sk s))(q := current (sk s) # susp (sk s) q) \<and>
    (\<forall>q'. woken_in s q' \<subseteq> woken_in (set_pending (current (sk s)) p (set_kernel k s)) q')"
proof -
  note j = join_first[OF proc_invD(1)[OF assms(1)], of q]
  obtain k r where "wait_schedule (current (sk s)) timeout (in_queue q (current (sk s) # susp (sk s) q) (set_error (current (sk s)) RT_EOK (sk s))) = Inr (r, k)"
    "proc_inv i (set_pending (current (sk s)) p (set_kernel k s))" "susp k = (susp (sk s))(q := current (sk s) # susp (sk s) q)"
    "\<forall>q'. woken_in s q' \<subseteq> woken_in (set_pending (current (sk s)) p (set_kernel k s)) q'"
    using in_wait_inv[OF assms j(2,3)] by blast
  then show ?thesis using j(1) by (intro exI[of _ k]) (simp add: wait_first_def Let_def)
qed

section \<open>Waking\<close>

lemma resume_first_inv':
  assumes "proc_inv i s" and "q \<notin> base_queues"
  shows "\<exists>k. resume_first q (sk s) = Inr k \<and> proc_inv i (set_kernel k s) \<and> gentle {} {} (sk s) k \<and>
    (susp (sk s) q \<noteq> [] \<longrightarrow> Suc (card (woken_in s q)) \<le> card (woken_in (set_kernel k s) q))"
proof (cases "susp (sk s) q")
  case Nil
  show ?thesis using Nil assms(1) by (simp add: resume_first_def)
next
  case (Cons t ts)
  note p = proc_invD[OF assms(1)] and o = os_invD[OF proc_invD(1)[OF assms(1)]]
  obtain k where k: "bind_res (ipc_list_resume q (sk s)) rt_schedule = Inr k" "kinv (tick (sk s)) k"
    "woken t (sk s) k" "stat (thr k (current k)) = RT_THREAD_RUNNING"
    using resume_first_inv[OF o(1,2) Cons] by blast
  let ?s = "set_kernel k s"
  have os: "os_inv i (base ?s)" using os_inv_woken[OF p(1) k(2-4)] by simp
  have g: "gentle {} {} (sk s) k"
    using k(1) gentle_ipc_resume gentle_schedule gentle_trans unfolding bind_res_Inr_iff by blast
  then have f: "gentle {} base_queues (sk s) (sk ?s)" by (simp add: gentle_weaken)
  have i: "proc_inv i ?s" "woken_in s q \<subseteq> woken_in ?s q"
    using proc_frame[OF assms(1) os f] by simp_all
  have t: "t \<in> set (susp (sk s) q)" using Cons by simp
  have "t \<in> woken_in ?s q" "t \<notin> woken_in s q"
    using k(3) p(5)[OF assms(2) t] o(6)[OF t] kinvD(2)[OF o(1)] t alive_not_suspended[of "sk s" t]
    by (auto simp: woken_in_def woken_def wait_inv_def)
  then have "card (insert t (woken_in s q)) \<le> card (woken_in ?s q)"
    using i(2) by (intro card_mono woken_in_finite[OF i(1)]) auto
  then have "Suc (card (woken_in s q)) \<le> card (woken_in ?s q)"
    using \<open>t \<notin> woken_in s q\<close> woken_in_finite[OF assms(1)] by simp
  moreover have "resume_first q (sk s) = Inr k" using k(1) Cons by (simp add: resume_first_def)
  ultimately show ?thesis using i(1) g by blast
qed

text \<open>After something was brought, waking the first thread makes up for it.\<close>

lemma avail_set_kernel [simp]: "avail (set_kernel k s) q = avail s q"
  by (cases q) simp_all

lemma resume_first_wakes:
  assumes "proc_inv i s" and "q \<notin> base_queues" and "wake_but q s"
  shows "\<exists>k. resume_first q (sk s) = Inr k \<and> proc_inv i (set_kernel k s) \<and> wake_inv (set_kernel k s) \<and>
    gentle {} {} (sk s) k"
proof -
  obtain k where k: "resume_first q (sk s) = Inr k" "proc_inv i (set_kernel k s)" "gentle {} {} (sk s) k"
    "susp (sk s) q \<noteq> [] \<longrightarrow> Suc (card (woken_in s q)) \<le> card (woken_in (set_kernel k s) q)"
    using resume_first_inv'[OF assms(1,2)] by blast
  let ?s = "set_kernel k s"
  have q: "set (susp (sk ?s) q') \<subseteq> set (susp (sk s) q')" for q' using gentleD(4)[OF k(3)] by simp
  then have ne: "susp (sk ?s) q' \<noteq> [] \<Longrightarrow> susp (sk s) q' \<noteq> []" for q' using q[of q'] by fastforce
  have m: "woken_in s q' \<subseteq> woken_in ?s q'" for q' by (rule woken_in_mono[of "{}" "{}"]) (use k(3) in auto)
  have "enough_woken ?s q' (avail ?s q')" if q': "q' \<notin> base_queues" for q'
  proof (cases "q' = q")
    case True
    then show ?thesis
      using assms(2,3) k(4) ne[of q] unfolding wake_but_def enough_woken_def
      by (cases "susp (sk s) q = []") fastforce+
  next
    case False
    then have "enough_woken s q' (avail s q')" using assms(3) q' by (auto simp: wake_but_def)
    then show ?thesis
      by (rule enough_woken_mono) (use ne m woken_in_finite[OF k(2)] in auto)
  qed
  then show ?thesis using k(1-3) by (auto simp: wake_inv_def)
qed

section \<open>Flushing\<close>

lemma resume_all_os:
  assumes "os_inv i w"
  shows "\<exists>k. ipc_list_resume_all q (krn w) = Inr k \<and> os_inv i (w\<lparr>krn := k\<rparr>) \<and> susp k = (susp (krn w))(q := [])"
proof -
  obtain k where k: "ipc_list_resume_all q (krn w) = Inr k" "kinv (tick (krn w)) k" "flushed q (krn w) k"
    using resume_all_inv[OF os_invD(1,2)[OF assms]] by blast
  have "os_inv i (w\<lparr>krn := k\<rparr>)"
    by (rule os_inv_kernel[OF assms]) (use k(2) flushed_inv[OF assms k(3)] in simp_all)
  then show ?thesis using k(1,3) by (auto simp: flushed_def)
qed

lemma resume_both_os:
  assumes "os_inv i w"
  shows "\<exists>k. resume_both q q' (krn w) = Inr k \<and> os_inv i (w\<lparr>krn := k\<rparr>) \<and>
    susp k = (susp (krn w))(q := [], q' := []) \<and> gentle {} {} (krn w) k"
proof -
  obtain k1 where k1: "ipc_list_resume_all q (krn w) = Inr k1" "os_inv i (w\<lparr>krn := k1\<rparr>)"
    "susp k1 = (susp (krn w))(q := [])" using resume_all_os[OF assms] by blast
  obtain k2 where k2: "ipc_list_resume_all q' k1 = Inr k2" "os_inv i (w\<lparr>krn := k2\<rparr>)"
    "susp k2 = (susp k1)(q' := [])" using resume_all_os[OF k1(2), of q'] by auto
  then show ?thesis
    using k1 gentle_trans[OF gentle_resume_all[OF k1(1)] gentle_resume_all[OF k2(1)]] by (auto simp: resume_both_def)
qed

lemma os_reschedule:
  assumes "os_inv i w"
  shows "\<exists>k. rt_schedule (krn w) = Inr k \<and> os_inv i (w\<lparr>krn := k\<rparr>) \<and> susp k = susp (krn w) \<and> gentle {} {} (krn w) k"
proof -
  obtain k where k: "rt_schedule (krn w) = Inr k" "os_inv i (w\<lparr>krn := k\<rparr>)" "same_waiting (krn w) k"
    using os_schedule_inv[OF assms os_invD(1,2,3)[OF assms]] by auto
  then show ?thesis using same_waitingD(1)[OF k(3)] gentle_schedule[OF k(1)] by blast
qed

end
