(* ===== verification/Messages_Inv.thy ===== *)
theory Messages_Inv
  imports Wakeup
begin

text \<open>
  The invariant of the system with all its objects, and that every call and every step of a
  call keeps it and ends without a fault.
\<close>

section \<open>The invariant\<close>

text \<open>No thread waits for flags that are there.\<close>

definition event_inv :: "sys \<Rightarrow> nat \<Rightarrow> bool" where
  "event_inv s e \<longleftrightarrow> flag_ok (ev_flag (event s e)) \<and>
     (\<forall>t \<in> set (susp (sk s) (Event_Q e)).
        (event_info s t AND RT_EVENT_FLAG_AND \<noteq> 0 \<or> event_info s t AND RT_EVENT_FLAG_OR \<noteq> 0) \<and>
        \<not> event_ready (event_set s t) (event_info s t) (ev_set (event s e)))"

text \<open>The node of a message queue that a thread holds to copy a message.\<close>

fun hand :: "nat \<Rightarrow> pending \<Rightarrow> nat option" where
  "hand q (Mq_Copy_In q' m _ _) = (if q' = q then Some m else None)"
| "hand q (Mq_Copy_Out q' m _) = (if q' = q then Some m else None)"
| "hand q _ = None"

definition in_hand :: "sys \<Rightarrow> nat \<Rightarrow> nat set" where
  "in_hand s q = {m. \<exists>t. hand q (pending s t) = Some m}"

text \<open>A message that is to be sent fits into a node, and a limit on waiting fits a timer.\<close>

fun fits :: "nat \<Rightarrow> nat \<Rightarrow> pending \<Rightarrow> bool" where
  "fits q n (Mq_Send_Wait q' buf timeout _) \<longleftrightarrow> (q' = q \<longrightarrow> length buf \<le> n) \<and> timeout < 0x7FFFFFFF"
| "fits q n (Mq_Recv_Wait _ _ timeout _) \<longleftrightarrow> timeout < 0x7FFFFFFF"
| "fits q n (Mb_Send_Wait _ _ timeout _) \<longleftrightarrow> timeout < 0x7FFFFFFF"
| "fits q n (Mb_Recv_Wait _ timeout _) \<longleftrightarrow> timeout < 0x7FFFFFFF"
| "fits q n (Mp_Wait _ timeout _) \<longleftrightarrow> timeout < 0x7FFFFFFF"
| "fits q n (Mq_Copy_In q' _ buf _) \<longleftrightarrow> (q' = q \<longrightarrow> length buf \<le> n)"
| "fits q n _ \<longleftrightarrow> True"

definition mq_inv :: "sys \<Rightarrow> nat \<Rightarrow> bool" where
  "mq_inv s q \<longleftrightarrow> mq_ok (in_hand s q) (msgq s q) \<and>
     (\<forall>t t' m. hand q (pending s t) = Some m \<longrightarrow> hand q (pending s t') = Some m \<longrightarrow> t = t') \<and>
     (\<forall>t. fits q (msg_size (msgq s q)) (pending s t))"

definition obj_inv :: "sys \<Rightarrow> bool" where
  "obj_inv s \<longleftrightarrow> (\<forall>e. event_inv s e) \<and> (\<forall>b. mb_ok (mailbox s b)) \<and> (\<forall>q. mq_inv s q) \<and>
     (\<forall>p. mp_ok p (mempool s p))"

definition sys_inv :: "nat \<Rightarrow> sys \<Rightarrow> bool" where
  "sys_inv i s \<longleftrightarrow> proc_inv i s \<and> wake_inv s \<and> obj_inv s"

lemma sys_invD:
  assumes "sys_inv i s"
  shows "proc_inv i s" "wake_inv s" "obj_inv s" "event_inv s e" "mb_ok (mailbox s b)" "mq_inv s q" "os_inv i (base s)"
    "mp_ok p (mempool s p)"
  using assms by (simp_all add: sys_inv_def obj_inv_def proc_inv_def)

lemma wake_but_empty: "wake_but q s \<Longrightarrow> avail s q = 0 \<Longrightarrow> wake_inv s"
  unfolding wake_but_def wake_inv_def enough_woken_def by (metis diff_zero le0)

text \<open>What a step shows of a mailbox, as operations on its contents.\<close>

fun mail_ops :: "nat \<Rightarrow> outcome \<Rightarrow> u32 queue_op list" where
  "mail_ops b (Sent_Mail b' v) = (if b' = b then [Put v] else [])"
| "mail_ops b (Urgent_Mail b' v) = (if b' = b then [Pushed v] else [])"
| "mail_ops b (Got_Mail b' v) = (if b' = b then [Taken v] else [])"
| "mail_ops b _ = []"

definition mail_effect :: "nat \<Rightarrow> outcome \<Rightarrow> sys \<Rightarrow> sys \<Rightarrow> bool" where
  "mail_effect b out s s' \<longleftrightarrow>
     replay (mail_ops b out) (mb_list (mailbox s b)) = Some (mb_list (mailbox s' b))"

section \<open>Steps that leave the objects alone\<close>

lemma obj_frame:
  assumes "obj_inv s" and "event s' = event s" and "mailbox s' = mailbox s" and "msgq s' = msgq s" and "mempool s' = mempool s"
    and "event_set s' = event_set s" and "event_info s' = event_info s"
    and "\<And>e. set (susp (sk s') (Event_Q e)) \<subseteq> set (susp (sk s) (Event_Q e))"
    and "\<And>t q. hand q (pending s' t) = hand q (pending s t)"
    and "\<And>t q n. fits q (msg_size (msgq s q)) (pending s t) \<Longrightarrow> fits q (msg_size (msgq s q)) (pending s' t)"
  shows "obj_inv s'"
proof -
  have h: "in_hand s' q = in_hand s q" for q using assms(9) by (simp add: in_hand_def)
  have "mq_inv s q" for q using assms(1) by (simp add: obj_inv_def)
  then have "mq_inv s' q" for q using assms(10) unfolding mq_inv_def h assms(4,9) by blast
  moreover have "event_inv s e" for e using assms(1) by (simp add: obj_inv_def)
  then have "event_inv s' e" for e using assms(8)[of e] unfolding event_inv_def assms(2,6,7) by blast
  ultimately show ?thesis using assms(1,3,5) by (simp add: obj_inv_def)
qed

lemma avail_cong: "mailbox s' = mailbox s \<Longrightarrow> msgq s' = msgq s \<Longrightarrow> mempool s' = mempool s \<Longrightarrow> avail s' q = avail s q"
  by (cases q) simp_all

lemma queue_shrinks: "set xs \<subseteq> set ys \<Longrightarrow> xs \<noteq> [] \<Longrightarrow> ys \<noteq> []"
  by auto

text \<open>A step of the kernel alone.\<close>

lemma sys_frame:
  assumes "proc_inv i s" and "wake_but q0 s" and "obj_inv s" and "os_inv i (base s')"
    and "gentle C base_queues (sk s) (sk s')" and "\<And>t. t \<in> C \<Longrightarrow> pending s t = No_Call"
    and "pending s' = pending s" and "event s' = event s" and "mailbox s' = mailbox s" and "msgq s' = msgq s"
    and "mempool s' = mempool s" and "event_set s' = event_set s" and "event_info s' = event_info s"
  shows "proc_inv i s'" and "wake_but q0 s'" and "obj_inv s'"
proof -
  note f = proc_frame[OF assms(1,4,5,6,7)]
  show "proc_inv i s'" by (rule f(1))
  show "wake_but q0 s'"
    by (rule wake_frame[OF assms(2) f(1,2)])
      (use f(3) avail_cong[OF assms(9,10,11)] in \<open>auto dest: queue_shrinks\<close>)
  show "obj_inv s'" by (rule obj_frame[OF assms(3,8,9,10,11,12,13)]) (use f(3) assms(7) in auto)
qed

lemma sys_inv_kernel:
  assumes "sys_inv i s" and "os_inv i ((base s)\<lparr>krn := k\<rparr>)" and "gentle C base_queues (sk s) k"
    and "\<And>t. t \<in> C \<Longrightarrow> pending s t = No_Call"
  shows "sys_inv i (set_kernel k s)"
proof -
  have "wake_but (Sem_Q 0) s" using sys_invD(2)[OF assms(1)] by (simp add: wake_but_base)
  from sys_frame[OF sys_invD(1)[OF assms(1)] this sys_invD(3)[OF assms(1)], of "set_kernel k s" C] assms(2-4)
  show ?thesis by (simp add: sys_inv_def wake_but_base)
qed

section \<open>Going on\<close>

lemma not_in_queue:
  assumes "proc_inv i s"
  shows "current (sk s) \<notin> set (susp (sk s) q)"
  using current_not_waiting[OF proc_invD(1)[OF assms]] .

lemma may_block_again:
  assumes "proc_inv i s" and "waits_in (pending s (current (sk s))) \<noteq> None"
  shows "may_block i (base s)"
  using assms by (auto simp: proc_inv_def pend_inv_def may_block_def scheduler_available_def)

lemma cleared_proc:
  assumes "proc_inv i s"
  shows "proc_inv i (set_pending (current (sk s)) No_Call s)"
proof -
  let ?t = "current (sk s)"
  have "finite {t. pending (set_pending ?t No_Call s) t \<noteq> No_Call}"
    by (rule finite_subset[OF _ proc_invD(3)[OF assms]]) auto
  moreover have "waits_in (pending (set_pending ?t No_Call s) x) = Some q"
    if "q \<notin> base_queues" "x \<in> set (susp (sk s) q)" for x q
    using that proc_invD(5)[OF assms that] not_in_queue[OF assms, of q] by auto
  ultimately show ?thesis using assms by (auto simp: proc_inv_def pend_inv_def)
qed

lemma cleared_woken: "woken_in (set_pending t No_Call s) q = woken_in s q - {t}"
  by (auto simp: woken_in_def)

lemma cleared_wake:
  assumes "proc_inv i s" and "wake_inv s" and "waits_in (pending s (current (sk s))) = Some q0"
  shows "wake_but q0 (set_pending (current (sk s)) No_Call s)"
  unfolding wake_but_def
proof (intro allI impI)
  let ?t = "current (sk s)" and ?s = "set_pending (current (sk s)) No_Call s"
  fix q assume q: "q \<notin> base_queues"
  have e: "enough_woken s q (avail s q)" using assms(2) q by (simp add: wake_inv_def)
  have a: "avail ?s q = avail s q" by (rule avail_cong) simp_all
  show "enough_woken ?s q (avail ?s q - (if q = q0 then 1 else 0))"
  proof (cases "q = q0")
    case True
    have "card (woken_in s q) - 1 \<le> card (woken_in ?s q)" unfolding cleared_woken by (simp add: diff_card_le_card_Diff[of "{_}", simplified])
    then show ?thesis using e a True by (auto simp: enough_woken_def)
  next
    case False
    then have "woken_in ?s q = woken_in s q" using assms(3) by (auto simp: woken_in_def)
    then show ?thesis using e a False by (simp add: enough_woken_def)
  qed
qed

lemma cleared_wake_inv:
  assumes "wake_inv s" and "waits_in (pending s t) = None \<or> error (thr (sk s) t) \<noteq> RT_EOK"
  shows "wake_inv (set_pending t No_Call s)"
proof -
  have "woken_in (set_pending t No_Call s) q = woken_in s q" for q using assms(2) by (auto simp: woken_in_def)
  then show ?thesis
    using assms(1) avail_cong[of "set_pending t No_Call s" s] by (simp add: wake_inv_def enough_woken_def)
qed

lemma cleared_obj:
  assumes "obj_inv s" and "\<And>q. hand q (pending s t) = None"
  shows "obj_inv (set_pending t No_Call s)"
  by (rule obj_frame[OF assms(1)]) (use assms(2) in auto)

section \<open>Waiting and bringing\<close>

text \<open>A thread that finds nothing to take waits.\<close>

lemma waiting_sys:
  assumes "wake_but q s" and "obj_inv s" and "idle_call s" and "avail s q = 0"
    and "proc_inv i (set_pending (current (sk s)) p (set_kernel k s))"
    and "\<And>q'. q' \<noteq> q \<Longrightarrow> susp k q' = susp (sk s) q'"
    and "\<And>q'. woken_in s q' \<subseteq> woken_in (set_pending (current (sk s)) p (set_kernel k s)) q'"
    and "\<And>q'. hand q' p = None" and "\<And>q'. fits q' (msg_size (msgq s q')) p"
  defines "s' \<equiv> set_pending (current (sk s)) p (set_kernel k s)"
  shows "wake_inv s'" and "(\<And>e. q \<noteq> Event_Q e) \<Longrightarrow> obj_inv s'"
proof -
  let ?t = "current (sk s)"
  have id: "pending s ?t = No_Call" using assms(3) by (simp add: idle_call_def)
  have f: "mailbox s' = mailbox s" "msgq s' = msgq s" "mempool s' = mempool s" "event s' = event s" "event_set s' = event_set s"
    "event_info s' = event_info s" "pending s' = (pending s)(?t := p)" "sk s' = k" by (simp_all add: s'_def)
  note a = avail_cong[OF f(1-3)]
  have "wake_but (Sem_Q 0) s'"
  proof (rule wake_frame[OF assms(1)])
    show "proc_inv i s'" "woken_in s q' \<subseteq> woken_in s' q'" for q' using assms(5,7) by (simp_all add: s'_def)
    show "susp (sk s) q' \<noteq> [] \<or> avail s' q' = 0" if "susp (sk s') q' \<noteq> []" for q'
      using that assms(6)[of q'] f(8) a assms(4) by (cases "q' = q") auto
    show "q' \<notin> base_queues \<Longrightarrow> avail s' q' - (if q' = Sem_Q 0 then 1 else 0) \<le> avail s q' - (if q' = q then 1 else 0)" for q'
      using a assms(4) by auto
  qed
  then show "wake_inv s'" by (simp add: wake_but_base)
  show "obj_inv s'" if ne: "\<And>e. q \<noteq> Event_Q e"
  proof (rule obj_frame[OF assms(2) f(4,1,2,3,5,6)])
    have "susp k (Event_Q e) = susp (sk s) (Event_Q e)" for e using ne assms(6) by metis
    then show "set (susp (sk s') (Event_Q e)) \<subseteq> set (susp (sk s) (Event_Q e))" for e using f(8) by simp
  qed (use f(7) id assms(8,9) in auto)
qed

lemma wait_sys:
  assumes "proc_inv i s" and "wake_but q s" and "obj_inv s" and "idle_call s" and "avail s q = 0"
    and "timeout < 0x7FFFFFFF" and "may_block i (base s)" and "flag_ok flag" and "waits_in p = Some q"
    and "\<And>q' n. hand q' p = None" and "\<And>q. fits q (msg_size (msgq s q)) p"
  shows "\<exists>s'. wait_in q flag timeout p s = Inr (Not_Yet, s') \<and> proc_inv i s' \<and> wake_inv s' \<and>
    ((\<forall>e. q \<noteq> Event_Q e) \<longrightarrow> obj_inv s') \<and> mailbox s' = mailbox s \<and> event s' = event s \<and> msgq s' = msgq s \<and>
    event_set s' = event_set s \<and> event_info s' = event_info s \<and> pending s' = (pending s)(current (sk s) := p) \<and>
    set (susp (sk s') q) = insert (current (sk s)) (set (susp (sk s) q)) \<and>
    (\<forall>q'. q' \<noteq> q \<longrightarrow> susp (sk s') q' = susp (sk s) q') \<and> mempool s' = mempool s"
proof -
  have id: "pending s (current (sk s)) = No_Call" using assms(4) by (simp add: idle_call_def)
  obtain k where k: "wait_in q flag timeout p s = Inr (Not_Yet, set_pending (current (sk s)) p (set_kernel k s))"
    "proc_inv i (set_pending (current (sk s)) p (set_kernel k s))" "set (susp k q) = insert (current (sk s)) (set (susp (sk s) q))"
    "\<And>q'. q' \<noteq> q \<Longrightarrow> susp k q' = susp (sk s) q'"
    "\<And>q'. woken_in s q' \<subseteq> woken_in (set_pending (current (sk s)) p (set_kernel k s)) q'"
    using wait_in_inv[OF assms(1,6,7,8) id assms(9)] by blast
  from waiting_sys[OF assms(2-5) k(2,4,5) assms(10,11)] show ?thesis
    using k(1-4) by (intro exI[of _ "set_pending (current (sk s)) p (set_kernel k s)"]) simp
qed

lemma proc_inv_cong: "proc_inv i s \<Longrightarrow> base s' = base s \<Longrightarrow> pending s' = pending s \<Longrightarrow> proc_inv i s'"
  by (simp add: proc_inv_def pend_inv_def)

lemma woken_in_cong: "base s' = base s \<Longrightarrow> pending s' = pending s \<Longrightarrow> woken_in s' q = woken_in s q"
  by (simp add: woken_in_def)

text \<open>Something was brought for the threads of \<open>q\<close>; the first of them is woken.\<close>

lemma bring_sys:
  assumes "proc_inv i s" and "wake_but q s" and "obj_inv s" and "q \<notin> base_queues"
  shows "\<exists>k. resume_first q (sk s) = Inr k \<and> sys_inv i (set_kernel k s)"
proof -
  obtain k where k: "resume_first q (sk s) = Inr k" "proc_inv i (set_kernel k s)" "wake_inv (set_kernel k s)"
    "gentle {} {} (sk s) k" using resume_first_wakes[OF assms(1,4,2)] by blast
  have "obj_inv (set_kernel k s)"
    by (rule obj_frame[OF assms(3)]) (use gentleD(4)[OF k(4)] in auto)
  then show ?thesis using k by (auto simp: sys_inv_def)
qed

lemma set_error_twice: "set_error t e (set_error t e' k) = set_error t e k"
  by (simp add: set_error_def upd_def)

text \<open>A call that ends with an error code in the thread's control block.\<close>

lemma error_sys:
  assumes "proc_inv i s" and "wake_inv s" and "obj_inv s" and "idle_call s"
  shows "sys_inv i (set_kernel (set_error (current (sk s)) e (sk s)) s)"
proof (rule sys_inv_kernel)
  show "sys_inv i s" using assms(1-3) by (simp add: sys_inv_def)
  show "os_inv i ((base s)\<lparr>krn := set_error (current (sk s)) e (sk s)\<rparr>)"
    using os_inv_error[OF proc_invD(1)[OF assms(1)] refl] .
  show "gentle {current (sk s)} base_queues (sk s) (set_error (current (sk s)) e (sk s))"
    by (rule gentle_set_error) simp
  show "t \<in> {current (sk s)} \<Longrightarrow> pending s t = No_Call" for t using assms(4) by (simp add: idle_call_def)
qed

text \<open>Both queues of an object are flushed, and the scheduler chooses.\<close>

lemma flush_sys:
  assumes "sys_inv i s"
  shows "\<exists>k1 k2. resume_both q q' (sk s) = Inr k1 \<and> sys_inv i (set_kernel k1 s) \<and> rt_schedule k1 = Inr k2 \<and>
    sys_inv i (set_kernel k2 s) \<and> susp k1 = (susp (sk s))(q := [], q' := []) \<and> susp k2 = susp k1"
proof -
  obtain k1 where k1: "resume_both q q' (sk s) = Inr k1" "os_inv i ((base s)\<lparr>krn := k1\<rparr>)"
    "susp k1 = (susp (sk s))(q := [], q' := [])" "gentle {} {} (sk s) k1"
    using resume_both_os[OF sys_invD(7)[OF assms]] by blast
  obtain k2 where k2: "rt_schedule k1 = Inr k2" "os_inv i ((base s)\<lparr>krn := k2\<rparr>)" "susp k2 = susp k1" "gentle {} {} k1 k2"
    using os_reschedule[OF k1(2)] by auto
  have "sys_inv i (set_kernel k1 s)" using sys_inv_kernel[OF assms k1(2) gentle_weaken[OF k1(4)], of "{}"] by simp
  moreover have "sys_inv i (set_kernel k2 s)"
    using sys_inv_kernel[OF assms k2(2) gentle_weaken[OF gentle_trans[OF k1(4) k2(4)]], of "{}"] by simp
  ultimately show ?thesis using k1 k2 by blast
qed

end
