(* ===== verification/Event_Inv.thy ===== *)
theory Event_Inv
  imports Messages_Inv
begin

unbundle bit_operations_syntax

text \<open>
  Every operation on an event keeps the invariant of the system: in particular no thread is
  left waiting for flags that are there.
\<close>

section \<open>Flags\<close>

lemma event_ready_mono:
  assumes "event_ready bits option flags'" and "flags' AND flags = flags'"
  shows "event_ready bits option flags"
proof -
  have m: "flags' AND bits = flags' AND (flags AND bits)" using assms(2) by (metis and.assoc)
  show ?thesis
  proof (cases "option AND RT_EVENT_FLAG_AND \<noteq> 0")
    case True
    then have "flags' AND bits = bits" using assms(1) by (simp add: event_ready_def)
    then have "flags AND bits = bits" using m by (metis and.left_commute)
    then show ?thesis using True by (simp add: event_ready_def)
  next
    case False
    then have "flags' AND bits \<noteq> 0" using assms(1) by (simp add: event_ready_def)
    then have "flags AND bits \<noteq> 0" using m by auto
    then show ?thesis using False by (simp add: event_ready_def)
  qed
qed

lemma flags_shrink:
  fixes f :: u32
  shows "(f AND NOT b) AND f = f AND NOT b"
  by (simp add: and.assoc and.commute)

text \<open>An event's invariant speaks of its flags and of the threads in its queue only.\<close>

lemma event_inv_frame:
  assumes "event_inv s e" and "ev_flag (event s' e) = ev_flag (event s e)"
    and "ev_set (event s' e) AND ev_set (event s e) = ev_set (event s' e)"
    and "set (susp (sk s') (Event_Q e)) \<subseteq> set (susp (sk s) (Event_Q e))"
    and "\<And>t. t \<in> set (susp (sk s') (Event_Q e)) \<Longrightarrow> event_set s' t = event_set s t \<and> event_info s' t = event_info s t"
  shows "event_inv s' e"
  unfolding event_inv_def
proof (intro conjI ballI)
  show "flag_ok (ev_flag (event s' e))" using assms(1,2) by (simp add: event_inv_def)
  fix t assume t: "t \<in> set (susp (sk s') (Event_Q e))"
  then have o: "event_info s t AND RT_EVENT_FLAG_AND \<noteq> 0 \<or> event_info s t AND RT_EVENT_FLAG_OR \<noteq> 0"
    "\<not> event_ready (event_set s t) (event_info s t) (ev_set (event s e))"
    using assms(1,4) unfolding event_inv_def by blast+
  then show "event_info s' t AND RT_EVENT_FLAG_AND \<noteq> 0 \<or> event_info s' t AND RT_EVENT_FLAG_OR \<noteq> 0"
    using assms(5)[OF t] by simp
  show "\<not> event_ready (event_set s' t) (event_info s' t) (ev_set (event s' e))"
    using o(2) assms(5)[OF t] event_ready_mono[OF _ assms(3)] by metis
qed

text \<open>When only the events change, only their invariants are at stake.\<close>

lemma event_change:
  assumes "sys_inv i s" and "base s' = base s" and "pending s' = pending s" and "mailbox s' = mailbox s"
    and "msgq s' = msgq s" and "mempool s' = mempool s" and "\<And>e. event_inv s' e"
  shows "sys_inv i s'"
proof -
  note a = sys_invD[OF assms(1)]
  have "enough_woken s' q (avail s' q) = enough_woken s q (avail s q)" for q
    using assms(2) woken_in_cong[OF assms(2,3)] avail_cong[OF assms(4,5,6)] by (simp add: enough_woken_def)
  then have "wake_inv s'" using a(2) by (simp add: wake_inv_def)
  moreover have "mq_inv s' q" "mb_ok (mailbox s' b)" "mp_ok q (mempool s' q)" for q b
    using a(6,8)[of q] a(5)[of b] assms(3-6) by (simp_all add: mq_inv_def in_hand_def)
  ultimately show ?thesis
    using proc_inv_cong[OF a(1) assms(2,3)] assms(7) by (simp add: sys_inv_def obj_inv_def)
qed

section \<open>Sending\<close>

lemma wake_os:
  assumes "os_inv i w" and "t \<in> set (susp (krn w) q)"
  shows "rt_thread_resume t (krn w) = (RT_EOK, wake t (krn w)) \<and> os_inv i (w\<lparr>krn := wake t (krn w)\<rparr>) \<and>
    gentle {} {} (krn w) (wake t (krn w)) \<and> susp (wake t (krn w)) q = removeAll t (susp (krn w) q)"
proof -
  note o = os_invD[OF assms(1)]
  have s: "stat (thr (krn w) t) = RT_THREAD_SUSPEND"
    using kinvD(2)[OF o(1)] assms(2) unfolding wait_inv_def by blast
  then have ne: "current (krn w) \<noteq> t" using o(2) by auto
  have r: "rt_thread_resume t (krn w) = (RT_EOK, wake t (krn w))" by (rule resume_wake[OF kinvD(3)[OF o(1)] s])
  have "os_inv i (w\<lparr>krn := wake t (krn w)\<rparr>)"
    by (rule os_inv_woken[OF assms(1) wake_inv[OF o(1) s] wake_woken])
      (use ne o(2) in \<open>simp add: wake_fields\<close>)
  then show ?thesis using r gentle_resume[of "{}" "{}" "krn w" t] by (simp add: wake_fields)
qed

text \<open>What the loop over the waiting threads has done to them.\<close>

definition scanned :: "nat \<Rightarrow> (nat \<Rightarrow> u8) \<Rightarrow> nat list \<Rightarrow> event_scan \<Rightarrow> event_scan \<Rightarrow> bool" where
  "scanned e info ts x x' \<longleftrightarrow> gentle {} {} (scan_kernel x) (scan_kernel x') \<and>
     scan_set x' AND scan_set x = scan_set x' \<and>
     (\<forall>t. t \<notin> set ts \<or> t \<in> set (susp (scan_kernel x') (Event_Q e)) \<longrightarrow> scan_event_set x' t = scan_event_set x t) \<and>
     (\<forall>t \<in> set ts. t \<in> set (susp (scan_kernel x') (Event_Q e)) \<longrightarrow>
        \<not> event_ready (scan_event_set x' t) (info t) (scan_set x'))"

lemma scanned_skip:
  assumes "scanned e info ts x x'" and "t \<notin> set ts" and "\<not> event_ready (scan_event_set x t) (info t) (scan_set x)"
  shows "scanned e info (t # ts) x x'"
proof -
  have "scan_event_set x' t = scan_event_set x t" "scan_set x' AND scan_set x = scan_set x'"
    using assms(1,2) by (auto simp: scanned_def)
  then have "\<not> event_ready (scan_event_set x' t) (info t) (scan_set x')"
    using assms(3) event_ready_mono by metis
  then show ?thesis using assms(1) by (auto simp: scanned_def)
qed

lemma scanned_wake:
  assumes "scanned e info ts (event_wake (info t) t x1) x'" and "t \<notin> set ts"
    and "rt_thread_resume t (scan_kernel x) = (RT_EOK, wake t (scan_kernel x))"
    and "scan_kernel x1 = scan_kernel x" and "scan_set x1 = scan_set x"
    and "\<And>y. y \<noteq> t \<Longrightarrow> scan_event_set x1 y = scan_event_set x y"
  shows "scanned e info (t # ts) x x'"
proof -
  let ?x = "event_wake (info t) t x1"
  have k: "scan_kernel ?x = wake t (scan_kernel x)" "scan_event_set ?x = scan_event_set x1"
    using assms(3,4) by (simp_all add: event_wake_def)
  have g: "gentle {} {} (scan_kernel x) (wake t (scan_kernel x))"
    using gentle_resume[of "{}" "{}" "scan_kernel x" t] assms(3) by simp
  have sub: "scan_set ?x AND scan_set x = scan_set ?x" using assms(5) flags_shrink by (simp add: event_wake_def)
  have sc: "gentle {} {} (wake t (scan_kernel x)) (scan_kernel x')" "scan_set x' AND scan_set ?x = scan_set x'"
    using assms(1) k(1) by (simp_all add: scanned_def)
  have "set (susp (scan_kernel x') (Event_Q e)) \<subseteq> set (susp (wake t (scan_kernel x)) (Event_Q e))"
    using gentleD(4)[OF sc(1)] by simp
  then have t: "t \<notin> set (susp (scan_kernel x') (Event_Q e))" by (auto simp: wake_fields)
  have "scan_set x' AND scan_set x = scan_set x'" using sub sc(2) by (metis and.assoc)
  moreover have "scan_event_set x' y = scan_event_set x y"
    if "y \<notin> set (t # ts) \<or> y \<in> set (susp (scan_kernel x') (Event_Q e))" for y
    using that t assms(1,6) k(2) by (cases "y = t") (auto simp: scanned_def)
  ultimately show ?thesis using gentle_trans[OF g sc(1)] t assms(1) by (auto simp: scanned_def)
qed

lemma event_send_loop_inv:
  assumes "os_inv i (w\<lparr>krn := scan_kernel x\<rparr>)" and "set ts \<subseteq> set (susp (scan_kernel x) (Event_Q e))" and "distinct ts"
    and "\<forall>t \<in> set ts. info t AND RT_EVENT_FLAG_AND \<noteq> 0 \<or> info t AND RT_EVENT_FLAG_OR \<noteq> 0"
  shows "\<exists>x'. event_send_loop info ts x = (True, x') \<and> os_inv i (w\<lparr>krn := scan_kernel x'\<rparr>) \<and> scanned e info ts x x'"
  using assms
proof (induction ts arbitrary: x)
  case Nil
  then show ?case by (simp add: scanned_def)
next
  case (Cons t ts)
  have t: "t \<in> set (susp (scan_kernel x) (Event_Q e))" "t \<notin> set ts" "distinct ts" using Cons.prems(2,3) by auto
  have w: "rt_thread_resume t (scan_kernel x) = (RT_EOK, wake t (scan_kernel x))"
    "os_inv i (w\<lparr>krn := wake t (scan_kernel x)\<rparr>)"
    using wake_os[OF Cons.prems(1), of t "Event_Q e"] t(1) by simp_all
  have skip: "\<exists>x'. event_send_loop info ts x = (True, x') \<and> os_inv i (w\<lparr>krn := scan_kernel x'\<rparr>) \<and> scanned e info (t # ts) x x'"
    if "\<not> event_ready (scan_event_set x t) (info t) (scan_set x)"
  proof -
    obtain x' where x': "event_send_loop info ts x = (True, x')" "os_inv i (w\<lparr>krn := scan_kernel x'\<rparr>)" "scanned e info ts x x'"
      using Cons.IH[OF Cons.prems(1) _ t(3)] Cons.prems(2,4) by auto
    have "scanned e info (t # ts) x x'" by (rule scanned_skip[OF x'(3) t(2)]) (rule that)
    then show ?thesis using x' by blast
  qed
  have go: "\<exists>x'. event_send_loop info ts (event_wake (info t) t x1) = (True, x') \<and>
      os_inv i (w\<lparr>krn := scan_kernel x'\<rparr>) \<and> scanned e info (t # ts) x x'"
    if x1: "scan_kernel x1 = scan_kernel x" "scan_set x1 = scan_set x" "\<And>y. y \<noteq> t \<Longrightarrow> scan_event_set x1 y = scan_event_set x y"
    for x1
  proof -
    let ?x = "event_wake (info t) t x1"
    have k: "scan_kernel ?x = wake t (scan_kernel x)" using w(1) x1(1) by (simp add: event_wake_def)
    have "set ts \<subseteq> set (susp (scan_kernel ?x) (Event_Q e))" using Cons.prems(2) t(2) k by (auto simp: wake_fields)
    then obtain x' where "event_send_loop info ts ?x = (True, x')" "os_inv i (w\<lparr>krn := scan_kernel x'\<rparr>)"
      "scanned e info ts ?x x'"
      using Cons.IH[of ?x] w(2) t(3) k Cons.prems(4) by auto
    then show ?thesis using scanned_wake[OF _ t(2) w(1) x1] by blast
  qed
  show ?case
    using skip go[of x] go[of "x\<lparr>scan_event_set := (scan_event_set x)(t := scan_event_set x t AND scan_set x)\<rparr>"] Cons.prems(4)
    by (auto simp: event_ready_def and.commute)
qed

lemma event_send_inv:
  assumes "sys_inv i s"
  shows "\<exists>out s'. rt_event_send e bits s = Inr (out, s') \<and> sys_inv i s' \<and> mailbox s' = mailbox s \<and>
    (\<forall>b. mail_ops b out = [])"
proof (cases "bits = 0")
  case True
  then show ?thesis using assms by (simp add: rt_event_send_def)
next
  case False
  note a = sys_invD[OF assms]
  let ?ts = "susp (sk s) (Event_Q e)"
  let ?x = "\<lparr>scan_set = ev_set (event s e) OR bits, scan_event_set = event_set s, scan_kernel = sk s, need_schedule = False\<rparr>"
  have opt: "\<forall>t \<in> set ?ts. event_info s t AND RT_EVENT_FLAG_AND \<noteq> 0 \<or> event_info s t AND RT_EVENT_FLAG_OR \<noteq> 0"
    using a(4)[of e] by (simp add: event_inv_def)
  have d: "distinct ?ts" using kinvD(2)[OF os_invD(1)[OF a(7)]] by (simp add: wait_inv_def)
  obtain x where x: "event_send_loop (event_info s) ?ts ?x = (True, x)" "os_inv i ((base s)\<lparr>krn := scan_kernel x\<rparr>)"
    "scanned e (event_info s) ?ts ?x x"
    using event_send_loop_inv[where w = "base s" and x = ?x and ts = ?ts and e = e and info = "event_info s"] a(7) opt d
    by auto
  have g: "gentle {} {} (sk s) (scan_kernel x)" using x(3) by (simp add: scanned_def)
  obtain k where k: "rt_schedule (scan_kernel x) = Inr k" "os_inv i ((base s)\<lparr>krn := k\<rparr>)" "gentle {} {} (scan_kernel x) k"
    using os_reschedule[OF x(2)] by auto
  have *: "sys_inv i ((set_kernel k' s)\<lparr>event := (event s)(e := (event s e)\<lparr>ev_set := scan_set x\<rparr>), event_set := scan_event_set x\<rparr>)"
    (is "sys_inv i ?s") if k': "os_inv i ((base s)\<lparr>krn := k'\<rparr>)" "gentle {} {} (scan_kernel x) k'" for k'
  proof (rule event_change)
    have sub: "set (susp k' q) \<subseteq> set (susp (scan_kernel x) q)" "set (susp k' q) \<subseteq> set (susp (sk s) q)" for q
      using gentleD(4)[OF k'(2)] gentleD(4)[OF gentle_trans[OF g k'(2)]] by simp_all
    show si: "sys_inv i (set_kernel k' s)"
      by (rule sys_inv_kernel[OF assms k'(1) gentle_weaken[OF gentle_trans[OF g k'(2)]], of "{}"]) simp
    fix e'
    show "event_inv ?s e'"
    proof (cases "e' = e")
      case True
      have "\<not> event_ready (scan_event_set x t) (event_info s t) (scan_set x)" if "t \<in> set (susp k' (Event_Q e))" for t
        using x(3) that sub[of "Event_Q e"] unfolding scanned_def by blast
      moreover have "flag_ok (ev_flag (event s e))" using a(4)[of e] by (simp add: event_inv_def)
      ultimately show ?thesis using True opt sub(2)[of "Event_Q e"] by (auto simp: event_inv_def)
    next
      case False
      have "t \<notin> set ?ts" if "t \<in> set (susp k' (Event_Q e'))" for t
      proof -
        have "t \<in> set (susp (sk s) (Event_Q e'))" using that sub(2) by blast
        then show ?thesis
          using proc_invD(5)[OF a(1), of "Event_Q e" t] proc_invD(5)[OF a(1), of "Event_Q e'" t] False by auto
      qed
      then have "scan_event_set x t = event_set s t" if "t \<in> set (susp k' (Event_Q e'))" for t
        using x(3) that by (auto simp: scanned_def)
      then show ?thesis
        using event_inv_frame[OF a(4)[of e'], of ?s] sub(2)[of "Event_Q e'"] False by simp
    qed
  qed simp_all
  have c: "set_kernel k ((set_kernel (scan_kernel x) s)\<lparr>event := E, event_set := F\<rparr>)
      = (set_kernel k s)\<lparr>event := E, event_set := F\<rparr>" for E F
    by (simp add: set_kernel_def)
  show ?thesis
    using x(1) False k(1) *[OF x(2)] *[OF k(2,3)] by (auto simp: rt_event_send_def Let_def c)
qed

section \<open>Receiving\<close>

lemma event_recv_inv:
  assumes "sys_inv i s" and "idle_call s" and "scheduler_available (sk s)" and "may_wait i s timeout"
    and "option AND RT_EVENT_FLAG_AND \<noteq> 0 \<or> option AND RT_EVENT_FLAG_OR \<noteq> 0"
  shows "\<exists>out s'. rt_event_recv e bits option timeout s = Inr (out, s') \<and> sys_inv i s' \<and> mailbox s' = mailbox s \<and>
    (\<forall>b. mail_ops b out = [])"
proof (cases "bits = 0")
  case True
  then show ?thesis using assms(1,3) by (simp add: rt_event_recv_def)
next
  case False
  let ?t = "current (sk s)"
  let ?s1 = "set_kernel (set_error ?t RT_EOK (sk s)) s"
  have e1: "sys_inv i ?s1" using error_sys[OF sys_invD(1-3)[OF assms(1)] assms(2)] .
  note a = sys_invD[OF e1]
  have cur: "current (sk ?s1) = ?t" by (simp add: set_error_def)
  have nq: "?t \<notin> set (susp (sk ?s1) q)" for q using not_in_queue[OF a(1), of q] cur by simp
  have change: "sys_inv i (?s1\<lparr>event_set := (event_set s)(?t := x), event_info := (event_info s)(?t := option),
      event := (event s)(e := (event s e)\<lparr>ev_set := f\<rparr>)\<rparr>)" (is "sys_inv i ?s") if "f AND ev_set (event s e) = f" for x f
  proof (rule event_change[OF e1])
    fix e'
    show "event_inv ?s e'"
      by (rule event_inv_frame[OF a(4)[of e']]) (use nq that in \<open>auto split: if_splits\<close>)
  qed simp_all
  consider "event_ready bits option (ev_set (event s e))" | "\<not> event_ready bits option (ev_set (event s e))" "timeout = 0"
    | "\<not> event_ready bits option (ev_set (event s e))" "timeout \<noteq> 0" by blast
  then show ?thesis
  proof cases
    case 1
    then show ?thesis
      using change[of "ev_set (event s e)"] change[of "ev_set (event s e) AND NOT bits"] False assms(3,5) flags_shrink
      by (auto simp: rt_event_recv_def Let_def)
  next
    case 2
    have "idle_call ?s1" using assms(2) by (simp add: idle_call_def set_error_def)
    from error_sys[OF a(1-3) this, of "- RT_ETIMEOUT"] 2 show ?thesis
      using False assms(3,5) cur by (auto simp: rt_event_recv_def Let_def)
  next
    case 3
    let ?s2 = "?s1\<lparr>event_set := (event_set s)(?t := bits), event_info := (event_info s)(?t := option)\<rparr>"
    have r: "X\<lparr>event := event s\<rparr> = X" if "event X = event s" for X :: sys using that by (cases X) simp
    have "sys_inv i ?s2" using change[of "ev_set (event s e)" bits] by (simp add: r)
    note b = sys_invD[OF this]
    have w: "timeout < 0x7FFFFFFF" "may_block i (base ?s2)"
      using assms(4) 3(2) by (auto simp: may_wait_def may_block_def scheduler_available_def set_error_def)
    have id: "idle_call ?s2" using assms(2) by (simp add: idle_call_def set_error_def)
    have fl: "flag_ok (ev_flag (event s e))" using a(4)[of e] by (simp add: event_inv_def)
    obtain s' where s': "wait_in (Event_Q e) (ev_flag (event s e)) timeout (Event_Wait e) ?s2 = Inr (Not_Yet, s')"
      "proc_inv i s'" "wake_inv s'" "mailbox s' = mailbox s" "event s' = event s" "msgq s' = msgq s"
      "event_set s' = event_set ?s2" "event_info s' = event_info ?s2" "pending s' = (pending s)(?t := Event_Wait e)"
      "set (susp (sk s') (Event_Q e)) = insert ?t (set (susp (sk ?s1) (Event_Q e)))"
      "\<forall>q'. q' \<noteq> Event_Q e \<longrightarrow> susp (sk s') q' = susp (sk ?s1) q'" "mempool s' = mempool s"
      using wait_sys[OF b(1) wake_inv_but[OF b(2), of "Event_Q e"] b(3) id _ w fl, of "Event_Wait e"] cur by auto
    have "event_inv s' e'" for e'
    proof (cases "e' = e")
      case True
      then show ?thesis
        using b(4)[of e] s'(5,7,8,10) 3(1) assms(5) by (auto simp: event_inv_def)
    next
      case False
      then have "event_inv s' e' = event_inv ?s2 e'" using s'(5,7,8,11) by (simp add: event_inv_def)
      then show ?thesis using b(4) by simp
    qed
    moreover have "mb_ok (mailbox s' x)" "mq_inv s' x" "mp_ok x (mempool s' x)" for x
    proof -
      have "hand x (pending s' y) = hand x (pending s y)" "fits x n (pending s y) \<Longrightarrow> fits x n (pending s' y)" for y n
        using s'(9) assms(2) by (auto simp: idle_call_def)
      then show "mb_ok (mailbox s' x)" "mq_inv s' x" "mp_ok x (mempool s' x)"
        using b(5)[of x] b(6)[of x] b(8)[of x] s'(4,6,12) by (auto simp: mq_inv_def in_hand_def)
    qed
    ultimately have "sys_inv i s'" using s'(2,3) by (simp add: sys_inv_def obj_inv_def)
    then show ?thesis using False 3 assms(3,5) s'(1,4) by (auto simp: rt_event_recv_def Let_def set_error_def)
  qed
qed

section \<open>Other operations\<close>

lemma event_init_inv:
  assumes "sys_inv i s" and "susp (sk s) (Event_Q e) = []" and "flag_ok flag"
  shows "\<exists>s'. rt_event_init e flag s = Inr s' \<and> sys_inv i s' \<and> mailbox s' = mailbox s"
proof -
  have "(susp (sk s))(Event_Q e := []) = susp (sk s)" using assms(2) by auto
  then have k: "set_kernel ((sk s)\<lparr>susp := (susp (sk s))(Event_Q e := [])\<rparr>) s = s" by simp
  let ?s = "s\<lparr>event := (event s)(e := \<lparr>ev_set = 0, ev_flag = flag\<rparr>)\<rparr>"
  have "event_inv ?s e'" for e'
    using sys_invD(4)[OF assms(1), of e'] assms(2,3) by (auto simp: event_inv_def)
  then have "sys_inv i ?s" by (intro event_change[OF assms(1)]) simp_all
  then show ?thesis using k assms(3) by (auto simp: rt_event_init_def flag_ok_def)
qed

lemma queue_flush:
  assumes "sys_inv i s"
  shows "\<exists>k1 k2. ipc_list_resume_all q (sk s) = Inr k1 \<and> sys_inv i (set_kernel k1 s) \<and> rt_schedule k1 = Inr k2 \<and>
    sys_inv i (set_kernel k2 s) \<and> susp k2 q = []"
proof -
  obtain k1 where k1: "ipc_list_resume_all q (sk s) = Inr k1" "os_inv i ((base s)\<lparr>krn := k1\<rparr>)"
    "susp k1 = (susp (sk s))(q := [])" using resume_all_os[OF sys_invD(7)[OF assms]] by blast
  have g: "gentle {} {} (sk s) k1" using gentle_resume_all[OF k1(1)] .
  obtain k2 where k2: "rt_schedule k1 = Inr k2" "os_inv i ((base s)\<lparr>krn := k2\<rparr>)" "susp k2 = susp k1" "gentle {} {} k1 k2"
    using os_reschedule[OF k1(2)] by auto
  have "sys_inv i (set_kernel k1 s)" "sys_inv i (set_kernel k2 s)"
    using sys_inv_kernel[OF assms k1(2) gentle_weaken[OF g], of "{}"]
      sys_inv_kernel[OF assms k2(2) gentle_weaken[OF gentle_trans[OF g k2(4)]], of "{}"] by simp_all
  then show ?thesis using k1 k2 by simp
qed

lemma event_detach_inv:
  assumes "sys_inv i s"
  shows "\<exists>s'. rt_event_detach e s = Inr s' \<and> sys_inv i s' \<and> mailbox s' = mailbox s"
  using queue_flush[OF assms, of "Event_Q e"] by (auto simp: rt_event_detach_def)

lemma event_reset_inv:
  assumes "sys_inv i s"
  shows "\<exists>out s'. rt_event_control e True s = Inr (out, s') \<and> sys_inv i s' \<and> mailbox s' = mailbox s \<and>
    (\<forall>b. mail_ops b out = [])"
proof -
  obtain k1 k2 where k: "ipc_list_resume_all (Event_Q e) (sk s) = Inr k1" "rt_schedule k1 = Inr k2"
    "sys_inv i (set_kernel k2 s)" "susp k2 (Event_Q e) = []" using queue_flush[OF assms] by blast
  let ?s = "(set_kernel k2 s)\<lparr>event := (event s)(e := (event s e)\<lparr>ev_set := 0\<rparr>)\<rparr>"
  have "event_inv ?s e'" for e'
    using sys_invD(4)[OF k(3), of e'] k(4) by (auto simp: event_inv_def)
  then have "sys_inv i ?s" by (intro event_change[OF k(3)]) simp_all
  then show ?thesis using k(1,2) by (simp add: rt_event_control_def)
qed

end
