(* ===== verification/Mailbox_Inv.thy ===== *)
theory Mailbox_Inv
  imports Messages_Inv
begin

text \<open>Every operation on a mailbox keeps the invariant of the system and acts on a list.\<close>

lemma set_mailbox_simps [simp]:
  "base (set_mailbox b mb s) = base s" "pending (set_mailbox b mb s) = pending s" "event (set_mailbox b mb s) = event s"
  "msgq (set_mailbox b mb s) = msgq s" "event_set (set_mailbox b mb s) = event_set s"
  "event_info (set_mailbox b mb s) = event_info s" "mailbox (set_mailbox b mb s) = (mailbox s)(b := mb)"
  "mempool (set_mailbox b mb s) = mempool s"
  by (simp_all add: set_mailbox_def)

text \<open>A mailbox may change as far as enough threads are awake for what is in it.\<close>

lemma set_mailbox_inv:
  assumes "proc_inv i s" and "wake_but q0 s" and "obj_inv s" and "mb_ok mb"
    and "entry mb - (if q1 = Mb_Recv_Q b then 1 else 0) \<le> entry (mailbox s b) - (if q0 = Mb_Recv_Q b then 1 else 0) \<or>
      susp (sk s) (Mb_Recv_Q b) = []"
    and "mb_size mb - entry mb - (if q1 = Mb_Send_Q b then 1 else 0) \<le>
      mb_size (mailbox s b) - entry (mailbox s b) - (if q0 = Mb_Send_Q b then 1 else 0) \<or> susp (sk s) (Mb_Send_Q b) = []"
    and "q0 = Mb_Recv_Q b \<or> q0 = Mb_Send_Q b \<or> q0 \<in> base_queues"
  shows "proc_inv i (set_mailbox b mb s) \<and> wake_but q1 (set_mailbox b mb s) \<and> obj_inv (set_mailbox b mb s)"
proof (intro conjI)
  let ?s = "set_mailbox b mb s"
  show p: "proc_inv i ?s" by (rule proc_inv_cong[OF assms(1)]) simp_all
  have w: "woken_in ?s q = woken_in s q" for q by (rule woken_in_cong) simp_all
  show "wake_but q1 ?s"
    unfolding wake_but_def
  proof (intro allI impI)
    fix q assume q: "q \<notin> base_queues"
    have e: "enough_woken s q (avail s q - (if q = q0 then 1 else 0))" using assms(2) q by (simp add: wake_but_def)
    have "susp (sk s) q = [] \<or> avail ?s q - (if q = q1 then 1 else 0) \<le> avail s q - (if q = q0 then 1 else 0)"
      using assms(5,6,7) q by (cases q) auto
    then show "enough_woken ?s q (avail ?s q - (if q = q1 then 1 else 0))"
      using e w by (auto simp: enough_woken_def)
  qed
  have "event_inv ?s e" "mq_inv ?s q" for e q
    using assms(3) by (simp_all add: obj_inv_def event_inv_def mq_inv_def in_hand_def)
  then show "obj_inv ?s" using assms(3,4) by (simp add: obj_inv_def)
qed

lemma mail_effect_none: "mailbox s' = mailbox s \<Longrightarrow> mail_ops b out = [] \<Longrightarrow> mail_effect b out s s'"
  by (simp add: mail_effect_def)

section \<open>Sending\<close>

lemma mb_send_loop_inv:
  assumes "proc_inv i s" and "wake_but (Mb_Send_Q b) s" and "obj_inv s"
    and "idle_call s \<or> entry (mailbox s b) \<noteq> mb_size (mailbox s b)" and "may_wait i s timeout"
  shows "\<exists>out s'. mb_send_loop b v timeout s = Inr (out, s') \<and> sys_inv i s' \<and> (\<forall>b'. mail_effect b' out s s')"
proof (cases "entry (mailbox s b) = mb_size (mailbox s b)")
  case True
  then have id: "idle_call s" and av: "avail s (Mb_Send_Q b) = 0" using assms(4) by simp_all
  have fl: "flag_ok (mb_flag (mailbox s b))" using assms(3) by (auto simp: obj_inv_def mb_ok_def flag_ok_def)
  show ?thesis
  proof (cases "timeout = 0")
    case z: True
    have "wake_inv s" using wake_but_empty[OF assms(2) av] .
    then show ?thesis
      using error_sys[OF assms(1) _ assms(3) id, of RT_EOK] True z
      by (auto simp: mb_send_loop_def Let_def intro!: mail_effect_none)
  next
    case False
    then have w: "timeout < 0x7FFFFFFF" "may_block i (base s)" using assms(5) by (auto simp: may_wait_def)
    obtain s' where "wait_in (Mb_Send_Q b) (mb_flag (mailbox s b)) timeout (Mb_Send_Wait b v timeout (tick (sk s))) s = Inr (Not_Yet, s')"
      "proc_inv i s'" "wake_inv s'" "obj_inv s'" "mailbox s' = mailbox s"
      using wait_sys[OF assms(1-3) id av w fl, of "Mb_Send_Wait b v timeout (tick (sk s))"] w(1) by auto
    then show ?thesis
      using True False by (auto simp: mb_send_loop_def Let_def sys_inv_def intro!: mail_effect_none)
  qed
next
  case False
  have ok: "mb_ok (mailbox s b)" using assms(3) by (simp add: obj_inv_def)
  then have room: "entry (mailbox s b) < mb_size (mailbox s b)" using False by (auto simp: mb_ok_def)
  obtain mb where mb: "mb_store v (mailbox s b) = Inr (True, mb)" "mb_ok mb" "mb_list mb = mb_list (mailbox s b) @ [v]"
    "entry mb = entry (mailbox s b) + 1" "mb_size mb = mb_size (mailbox s b)"
    using mb_store_ok[OF ok room] by blast
  note m = set_mailbox_inv[OF assms(1,2,3) mb(2), where ?q1.0 = "Mb_Recv_Q b" and b = b]
  obtain k where "resume_first (Mb_Recv_Q b) (sk s) = Inr k" "sys_inv i (set_kernel k (set_mailbox b mb s))"
    using bring_sys[of i "set_mailbox b mb s" "Mb_Recv_Q b"] m mb(4,5) by auto
  then show ?thesis
    using mb False by (auto simp: mb_send_loop_def Let_def mail_effect_def)
qed

lemma mb_send_inv:
  assumes "sys_inv i s" and "may_wait i s timeout" and "idle_call s \<or> timeout = 0"
  shows "\<exists>out s'. rt_mb_send_wait b v timeout s = Inr (out, s') \<and> sys_inv i s' \<and> (\<forall>b'. mail_effect b' out s s')"
proof (cases "entry (mailbox s b) = mb_size (mailbox s b) \<and> timeout = 0")
  case True
  then show ?thesis using assms(1) by (auto simp: rt_mb_send_wait_def intro!: mail_effect_none)
next
  case False
  note a = sys_invD[OF assms(1)]
  have "rt_mb_send_wait b v timeout s = mb_send_loop b v timeout s"
    using False assms(2) by (auto simp: rt_mb_send_wait_def may_wait_def may_block_def)
  moreover have "idle_call s \<or> entry (mailbox s b) \<noteq> mb_size (mailbox s b)" using assms(3) False by auto
  ultimately show ?thesis using mb_send_loop_inv[OF a(1) wake_inv_but[OF a(2)] a(3) _ assms(2)] by simp
qed

lemma mb_urgent_inv:
  assumes "sys_inv i s"
  shows "\<exists>out s'. rt_mb_urgent b v s = Inr (out, s') \<and> sys_inv i s' \<and> (\<forall>b'. mail_effect b' out s s')"
proof (cases "entry (mailbox s b) = mb_size (mailbox s b)")
  case True
  then show ?thesis using assms by (auto simp: rt_mb_urgent_def intro!: mail_effect_none)
next
  case False
  note a = sys_invD[OF assms]
  have room: "entry (mailbox s b) < mb_size (mailbox s b)" using a(5)[of b] False by (auto simp: mb_ok_def)
  obtain mb where mb: "mb_store_first v (mailbox s b) = Inr mb" "mb_ok mb" "mb_list mb = v # mb_list (mailbox s b)"
    "entry mb = entry (mailbox s b) + 1" "mb_size mb = mb_size (mailbox s b)"
    using mb_store_first_ok[OF a(5) room] by blast
  note m = set_mailbox_inv[OF a(1) wake_inv_but[OF a(2), of "Mb_Send_Q b"] a(3) mb(2), where ?q1.0 = "Mb_Recv_Q b" and b = b]
  obtain k where "resume_first (Mb_Recv_Q b) (sk s) = Inr k" "sys_inv i (set_kernel k (set_mailbox b mb s))"
    using bring_sys[of i "set_mailbox b mb s" "Mb_Recv_Q b"] m mb(4,5) by auto
  then show ?thesis
    using mb False by (auto simp: rt_mb_urgent_def Let_def mail_effect_def)
qed

section \<open>Receiving\<close>

lemma mb_recv_loop_inv:
  assumes "proc_inv i s" and "wake_but (Mb_Recv_Q b) s" and "obj_inv s" and "idle_call s" and "may_wait i s timeout"
  shows "\<exists>out s'. mb_recv_loop b timeout s = Inr (out, s') \<and> sys_inv i s' \<and> (\<forall>b'. mail_effect b' out s s')"
proof (cases "entry (mailbox s b) = 0")
  case True
  then have av: "avail s (Mb_Recv_Q b) = 0" by simp
  have fl: "flag_ok (mb_flag (mailbox s b))" using assms(3) by (auto simp: obj_inv_def mb_ok_def flag_ok_def)
  show ?thesis
  proof (cases "timeout = 0")
    case z: True
    have "wake_inv s" using wake_but_empty[OF assms(2) av] .
    then show ?thesis
      using error_sys[OF assms(1) _ assms(3,4), of "- RT_ETIMEOUT"] True z
      by (auto simp: mb_recv_loop_def Let_def set_error_twice intro!: mail_effect_none)
  next
    case False
    then have w: "timeout < 0x7FFFFFFF" "may_block i (base s)" using assms(5) by (auto simp: may_wait_def)
    obtain s' where "wait_in (Mb_Recv_Q b) (mb_flag (mailbox s b)) timeout (Mb_Recv_Wait b timeout (tick (sk s))) s = Inr (Not_Yet, s')"
      "proc_inv i s'" "wake_inv s'" "obj_inv s'" "mailbox s' = mailbox s"
      using wait_sys[OF assms(1-4) av w fl, of "Mb_Recv_Wait b timeout (tick (sk s))"] w(1) by auto
    then show ?thesis
      using True False by (auto simp: mb_recv_loop_def Let_def sys_inv_def intro!: mail_effect_none)
  qed
next
  case False
  have ok: "mb_ok (mailbox s b)" using assms(3) by (simp add: obj_inv_def)
  obtain v mb where mb: "mb_fetch (mailbox s b) = Inr (v, mb)" "mb_ok mb" "mb_list (mailbox s b) = v # mb_list mb"
    "entry mb = entry (mailbox s b) - 1" "mb_size mb = mb_size (mailbox s b)"
    using mb_fetch_ok[OF ok] False by blast
  have le: "entry (mailbox s b) \<le> mb_size (mailbox s b)" using ok by (simp add: mb_ok_def)
  note m = set_mailbox_inv[OF assms(1,2,3) mb(2), where ?q1.0 = "Mb_Send_Q b" and b = b]
  obtain k where "resume_first (Mb_Send_Q b) (sk s) = Inr k" "sys_inv i (set_kernel k (set_mailbox b mb s))"
    using bring_sys[of i "set_mailbox b mb s" "Mb_Send_Q b"] m mb(4,5) le False by auto
  then show ?thesis
    using mb False by (auto simp: mb_recv_loop_def Let_def mail_effect_def)
qed

lemma mb_recv_inv:
  assumes "sys_inv i s" and "may_wait i s timeout" and "idle_call s"
  shows "\<exists>out s'. rt_mb_recv b timeout s = Inr (out, s') \<and> sys_inv i s' \<and> (\<forall>b'. mail_effect b' out s s')"
proof (cases "entry (mailbox s b) = 0 \<and> timeout = 0")
  case True
  then show ?thesis using assms(1) by (auto simp: rt_mb_recv_def intro!: mail_effect_none)
next
  case False
  note a = sys_invD[OF assms(1)]
  have "rt_mb_recv b timeout s = mb_recv_loop b timeout s"
    using False assms(2) by (auto simp: rt_mb_recv_def may_wait_def may_block_def)
  then show ?thesis using mb_recv_loop_inv[OF a(1) wake_inv_but[OF a(2)] a(3) assms(3,2)] by simp
qed

section \<open>Other operations\<close>

lemma mb_init_inv:
  assumes "sys_inv i s" and "sys_allowed i s (Mb_Init b pool sz flag)"
  shows "\<exists>s'. rt_mb_init b pool sz flag s = Inr s' \<and> sys_inv i s' \<and> (\<forall>b'. b' \<noteq> b \<longrightarrow> mailbox s' b' = mailbox s b')"
proof -
  note a = sys_invD[OF assms(1)]
  have q: "susp (sk s) (Mb_Recv_Q b) = []" "susp (sk s) (Mb_Send_Q b) = []" using assms(2) by simp_all
  then have "(susp (sk s))(Mb_Recv_Q b := [], Mb_Send_Q b := []) = susp (sk s)" by auto
  then have k: "set_kernel ((sk s)\<lparr>susp := (susp (sk s))(Mb_Recv_Q b := [], Mb_Send_Q b := [])\<rparr>) s = s" by simp
  let ?mb = "\<lparr>msg_pool = pool, mb_size = sz, entry = 0, in_offset = 0, out_offset = 0, mb_flag = flag\<rparr>"
  have ok: "mb_ok ?mb" using assms(2) by (auto simp: mb_ok_def flag_ok_def)
  have "sys_inv i (set_mailbox b ?mb s)"
    using set_mailbox_inv[OF a(1) _ a(3) ok, where ?q0.0 = "Sem_Q 0" and ?q1.0 = "Sem_Q 0" and b = b] a(2) q by (simp add: sys_inv_def wake_but_base)
  moreover have "rt_mb_init b pool sz flag s = Inr (set_mailbox b ?mb s)"
    using assms(2) k by (auto simp: rt_mb_init_def flag_ok_def set_mailbox_def)
  ultimately show ?thesis by simp
qed

lemma mb_reset_inv:
  assumes "sys_inv i s"
  shows "\<exists>out s'. rt_mb_control b True s = Inr (out, s') \<and> sys_inv i s' \<and> (\<forall>b'. b' \<noteq> b \<longrightarrow> mail_effect b' out s s')"
proof -
  obtain k1 k2 where k: "resume_both (Mb_Recv_Q b) (Mb_Send_Q b) (sk s) = Inr k1" "rt_schedule k1 = Inr k2"
    "sys_inv i (set_kernel k2 s)" "susp k2 = (susp (sk s))(Mb_Recv_Q b := [], Mb_Send_Q b := [])"
    using flush_sys[OF assms] by metis
  note a = sys_invD[OF k(3)]
  let ?mb = "(mailbox s b)\<lparr>entry := 0, in_offset := 0, out_offset := 0\<rparr>"
  have ok: "mb_ok ?mb" using sys_invD(5)[OF assms, of b] by (simp add: mb_ok_def)
  have "sys_inv i (set_mailbox b ?mb (set_kernel k2 s))"
    using set_mailbox_inv[OF a(1) _ a(3) ok, where ?q0.0 = "Sem_Q 0" and ?q1.0 = "Sem_Q 0" and b = b] a(2) k(4) by (simp add: sys_inv_def wake_but_base)
  then show ?thesis using k(1,2) by (auto simp: rt_mb_control_def mail_effect_def)
qed

lemma mb_detach_inv:
  assumes "sys_inv i s"
  shows "\<exists>s'. rt_mb_detach b s = Inr s' \<and> sys_inv i s' \<and> mailbox s' = mailbox s"
proof -
  obtain k where "resume_both (Mb_Recv_Q b) (Mb_Send_Q b) (sk s) = Inr k" "sys_inv i (set_kernel k s)"
    using flush_sys[OF assms] by metis
  then show ?thesis by (simp add: rt_mb_detach_def)
qed

end
