(* ===== verification/Msgqueue_Calls.thy ===== *)
theory Msgqueue_Calls
  imports Messages_Inv
begin

unbundle bit_operations_syntax

text \<open>
  Every operation on a message queue, and each of the two steps of sending and receiving,
  keeps the invariant of the system.
\<close>

section \<open>Nodes change hands\<close>

lemma in_hand_take:
  assumes "pending s' = (pending s)(t := p)" and "hand q (pending s t) = None" and "hand q p = Some m"
  shows "in_hand s' q = insert m (in_hand s q)"
proof (intro set_eqI iffI)
  fix x assume "x \<in> in_hand s' q"
  then obtain t' where "hand q (pending s' t') = Some x" by (auto simp: in_hand_def)
  then show "x \<in> insert m (in_hand s q)" using assms(1,3) by (cases "t' = t") (auto simp: in_hand_def)
next
  fix x assume "x \<in> insert m (in_hand s q)"
  then consider "x = m" | t' where "hand q (pending s t') = Some x" by (auto simp: in_hand_def)
  then show "x \<in> in_hand s' q"
  proof cases
    case 2
    then have "hand q (pending s' t') = Some x" using assms(1,2) by auto
    then show ?thesis by (auto simp: in_hand_def)
  qed (use assms in \<open>auto simp: in_hand_def intro: exI[of _ t]\<close>)
qed

lemma mq_invD:
  assumes "mq_inv s q"
  shows "mq_ok (in_hand s q) (msgq s q)" "fits q (msg_size (msgq s q)) (pending s t)"
    "hand q (pending s t) = Some m \<Longrightarrow> hand q (pending s t') = Some m \<Longrightarrow> t = t'"
    "hand q (pending s t) = Some m \<Longrightarrow> m \<in> in_hand s q"
  using assms by (auto simp: mq_inv_def in_hand_def)

lemma mq_take:
  assumes "mq_inv s q" and "pending s' = (pending s)(t := p)" and "hand q (pending s t) = None" and "hand q p = Some m"
    and "m \<notin> in_hand s q" and "mq_ok (insert m (in_hand s q)) (msgq s' q)"
    and "msg_size (msgq s' q) = msg_size (msgq s q)" and "fits q (msg_size (msgq s q)) p"
  shows "mq_inv s' q"
proof -
  have "x = y" if h: "hand q (pending s' x) = Some n" "hand q (pending s' y) = Some n" for x y n
  proof -
    have o: "n \<noteq> m" if "hand q (pending s z) = Some n" for z using that assms(5) by (auto simp: in_hand_def)
    show ?thesis
      using h o[of x] o[of y] assms(2,4) mq_invD(3)[OF assms(1), of x n y] by (cases "x = t"; cases "y = t"; simp)
  qed
  moreover have "fits q (msg_size (msgq s' q)) (pending s' x)" for x
    using assms(2,7,8) mq_invD(2)[OF assms(1), of x] by (cases "x = t") simp_all
  ultimately show ?thesis
    using in_hand_take[OF assms(2-4)] assms(6) unfolding mq_inv_def by metis
qed

lemma mq_drop:
  assumes "mq_inv s q" and "pending s' = (pending s)(t := p)" and "hand q (pending s t) = Some m" and "hand q p = None"
    and "mq_ok (in_hand s q - {m}) (msgq s' q)" and "msg_size (msgq s' q) = msg_size (msgq s q)" and "fits q (msg_size (msgq s q)) p"
  shows "mq_inv s' q"
proof -
  have "in_hand s' q = in_hand s q - {m}"
  proof (intro set_eqI iffI)
    fix x assume "x \<in> in_hand s' q"
    then obtain t' where t': "hand q (pending s' t') = Some x" by (auto simp: in_hand_def)
    then have "t' \<noteq> t" "hand q (pending s t') = Some x" using assms(2,4) by (auto split: if_splits)
    then show "x \<in> in_hand s q - {m}" using mq_invD(3)[OF assms(1) assms(3)] by (auto simp: in_hand_def)
  next
    fix x assume "x \<in> in_hand s q - {m}"
    then obtain t' where t': "hand q (pending s t') = Some x" "x \<noteq> m" by (auto simp: in_hand_def)
    then have "hand q (pending s' t') = Some x" using assms(2,3) by auto
    then show "x \<in> in_hand s' q" by (auto simp: in_hand_def)
  qed
  moreover have "x = y" if h: "hand q (pending s' x) = Some n" "hand q (pending s' y) = Some n" for x y n
    using h assms(2,4) mq_invD(3)[OF assms(1), of x n y] by (cases "x = t"; cases "y = t"; simp)
  moreover have "fits q (msg_size (msgq s' q)) (pending s' x)" for x
    using assms(2,6,7) mq_invD(2)[OF assms(1), of x] by (cases "x = t") simp_all
  ultimately show ?thesis using assms(5) unfolding mq_inv_def by metis
qed

text \<open>
  A message queue and the call of the running thread may change as far as enough threads
  are awake for what is in the queue.
\<close>

lemma current_live: "os_inv i w \<Longrightarrow> live (krn w) (current (krn w))"
  using os_invD(2)[of i w] by (simp add: live_def)

lemma msgq_change:
  assumes "proc_inv i s" and "wake_but q0 s" and "obj_inv s" and "base s' = base s" and "event s' = event s"
    and "event_set s' = event_set s" and "event_info s' = event_info s" and "mailbox s' = mailbox s"
    and "msgq s' = (msgq s)(q := mq)" and "pending s' = (pending s)(current (sk s) := p)"
    and "waits_in p = waits_in (pending s (current (sk s)))"
    and "\<And>q' n. q' \<noteq> q \<Longrightarrow> hand q' p = hand q' (pending s (current (sk s)))"
    and "\<And>q' n. q' \<noteq> q \<Longrightarrow> fits q' n (pending s (current (sk s))) \<Longrightarrow> fits q' n p"
    and "mq_inv s' q"
    and "mq_entry mq - (if q1 = Mq_Recv_Q q then 1 else 0) \<le> mq_entry (msgq s q) - (if q0 = Mq_Recv_Q q then 1 else 0) \<or>
      susp (sk s) (Mq_Recv_Q q) = []"
    and "length (mq_free_nodes mq) - (if q1 = Mq_Send_Q q then 1 else 0) \<le>
      length (mq_free_nodes (msgq s q)) - (if q0 = Mq_Send_Q q then 1 else 0) \<or> susp (sk s) (Mq_Send_Q q) = []"
    and "q0 = Mq_Recv_Q q \<or> q0 = Mq_Send_Q q \<or> q0 \<in> base_queues" and "mempool s' = mempool s"
  shows "proc_inv i s' \<and> wake_but q1 s' \<and> obj_inv s'"
proof (intro conjI)
  let ?t = "current (sk s)"
  note a = proc_invD[OF assms(1)]
  have w: "waits_in (pending s' x) = waits_in (pending s x)" for x using assms(10,11) by simp
  have "finite {x. pending s' x \<noteq> No_Call}"
    by (rule finite_subset[OF _ finite.insertI[OF a(3), of ?t]]) (use assms(10) in auto)
  moreover have "live (sk s') x" if "pending s' x \<noteq> No_Call" for x
    using that a(4)[of x] current_live[OF a(1)] assms(4,10) by (cases "x = ?t") auto
  ultimately show p: "proc_inv i s'"
    using assms(1) w unfolding proc_inv_def pend_inv_def assms(4) by simp
  have wk: "woken_in s' q' = woken_in s q'" for q' using w assms(4) by (simp add: woken_in_def)
  show "wake_but q1 s'"
    unfolding wake_but_def
  proof (intro allI impI)
    fix q' assume q': "q' \<notin> base_queues"
    have e: "enough_woken s q' (avail s q' - (if q' = q0 then 1 else 0))" using assms(2) q' by (simp add: wake_but_def)
    have "susp (sk s) q' = [] \<or> avail s' q' - (if q' = q1 then 1 else 0) \<le> avail s q' - (if q' = q0 then 1 else 0)"
      using assms(8,9,15,16,17,18) q' by (cases q') auto
    then show "enough_woken s' q' (avail s' q' - (if q' = q1 then 1 else 0))"
      using e wk assms(4) by (auto simp: enough_woken_def)
  qed
  have "event_inv s' e" for e
    using assms(3-7) by (simp add: obj_inv_def event_inv_def)
  moreover have "mq_inv s' q'" for q'
  proof (cases "q' = q")
    case False
    then have h: "hand q' (pending s' x) = hand q' (pending s x)" for x using assms(10,12) by simp
    have "mq_inv s q'" using assms(3) by (simp add: obj_inv_def)
    then show ?thesis
      using False h assms(9,10,13) by (auto simp: mq_inv_def in_hand_def)
  qed (use assms(14) in simp)
  ultimately show "obj_inv s'" using assms(3,8,18) by (simp add: obj_inv_def)
qed

lemma set_msgq_simps [simp]:
  "base (set_msgq q mq s) = base s" "pending (set_msgq q mq s) = pending s" "event (set_msgq q mq s) = event s"
  "mailbox (set_msgq q mq s) = mailbox s" "event_set (set_msgq q mq s) = event_set s"
  "event_info (set_msgq q mq s) = event_info s" "msgq (set_msgq q mq s) = (msgq s)(q := mq)"
  "mempool (set_msgq q mq s) = mempool s"
  by (simp_all add: set_msgq_def)

section \<open>Sending\<close>

text \<open>A free node is taken.\<close>

lemma take_free_inv:
  assumes "proc_inv i s" and "wake_but (Mq_Send_Q q) s" and "obj_inv s" and "idle_call s"
    and "queue_free (msgq s q) = Some m" and "length buf \<le> msg_size (msgq s q)"
  shows "sys_inv i (set_pending (current (sk s)) (Mq_Copy_In q m buf u) (set_msgq q (mq_unlink_free m (msgq s q)) s))"
    (is "sys_inv i ?s")
proof -
  have mi: "mq_inv s q" using assms(3) by (simp add: obj_inv_def)
  note u = unlink_free_ok[OF mq_invD(1)[OF mi] assms(5)]
  have id: "pending s (current (sk s)) = No_Call" using assms(4) by (simp add: idle_call_def)
  have "mq_inv ?s q"
    by (rule mq_take[OF mi, of _ "current (sk s)" "Mq_Copy_In q m buf u" m])
      (use u id assms(6) in \<open>simp_all add: mq_unlink_free_def\<close>)
  then have "proc_inv i ?s \<and> wake_but (Sem_Q 0) ?s \<and> obj_inv ?s"
    by (intro msgq_change[OF assms(1-3), where q = q and p = "Mq_Copy_In q m buf u" and mq = "mq_unlink_free m (msgq s q)"]) (use u id in \<open>simp_all add: mq_unlink_free_def\<close>)
  then show ?thesis by (simp add: sys_inv_def wake_but_base)
qed

lemma mq_send_loop_inv:
  assumes "proc_inv i s" and "wake_but (Mq_Send_Q q) s" and "obj_inv s" and "idle_call s" and "may_wait i s timeout"
    and "length buf \<le> msg_size (msgq s q)"
  shows "\<exists>out s'. mq_send_loop q buf timeout s = Inr (out, s') \<and> sys_inv i s' \<and> mailbox s' = mailbox s \<and>
    (\<forall>b. mail_ops b out = [])"
proof (cases "queue_free (msgq s q)")
  case (Some m)
  then show ?thesis
    using take_free_inv[OF assms(1-4) Some assms(6), of False] free_node[OF mq_invD(1) Some] assms(3)
    by (auto simp: mq_send_loop_def Let_def obj_inv_def)
next
  case None
  have mi: "mq_inv s q" using assms(3) by (simp add: obj_inv_def)
  have av: "avail s (Mq_Send_Q q) = 0" using queue_free_None[OF mq_invD(1)[OF mi]] None by simp
  have fl: "flag_ok (mq_flag (msgq s q))" using mq_invD(1)[OF mi] by (auto simp: mq_ok_def mq_lists_def flag_ok_def)
  show ?thesis
  proof (cases "timeout = 0")
    case True
    have "wake_inv s" using wake_but_empty[OF assms(2) av] .
    then show ?thesis
      using error_sys[OF assms(1) _ assms(3,4), of RT_EOK] None True by (auto simp: mq_send_loop_def Let_def)
  next
    case False
    then have w: "timeout < 0x7FFFFFFF" "may_block i (base s)" using assms(5) by (auto simp: may_wait_def)
    obtain s' where "wait_in (Mq_Send_Q q) (mq_flag (msgq s q)) timeout (Mq_Send_Wait q buf timeout (tick (sk s))) s = Inr (Not_Yet, s')"
      "proc_inv i s'" "wake_inv s'" "obj_inv s'" "mailbox s' = mailbox s"
      using wait_sys[OF assms(1-4) av w fl, of "Mq_Send_Wait q buf timeout (tick (sk s))"] w(1) assms(6) by auto
    then show ?thesis using None False by (auto simp: mq_send_loop_def Let_def sys_inv_def)
  qed
qed

lemma mq_send_inv:
  assumes "sys_inv i s" and "may_wait i s timeout" and "idle_call s" and "buf \<noteq> []"
  shows "\<exists>out s'. rt_mq_send_wait q buf timeout s = Inr (out, s') \<and> sys_inv i s' \<and> mailbox s' = mailbox s \<and>
    (\<forall>b. mail_ops b out = [])"
proof (cases "msg_size (msgq s q) < length buf \<or> queue_free (msgq s q) = None \<and> timeout = 0")
  case True
  then show ?thesis using assms by (auto simp: rt_mq_send_wait_def may_wait_def may_block_def)
next
  case False
  note a = sys_invD[OF assms(1)]
  have "rt_mq_send_wait q buf timeout s = mq_send_loop q buf timeout s"
    using False assms(2,4) by (auto simp: rt_mq_send_wait_def may_wait_def may_block_def)
  then show ?thesis using mq_send_loop_inv[OF a(1) wake_inv_but[OF a(2)] a(3) assms(3,2), of buf q] False by simp
qed

lemma mq_urgent_inv:
  assumes "sys_inv i s" and "idle_call s" and "buf \<noteq> []"
  shows "\<exists>out s'. rt_mq_urgent q buf s = Inr (out, s') \<and> sys_inv i s' \<and> mailbox s' = mailbox s \<and>
    (\<forall>b. mail_ops b out = [])"
proof (cases "msg_size (msgq s q) < length buf \<or> queue_free (msgq s q) = None")
  case True
  then show ?thesis using assms by (auto simp: rt_mq_urgent_def)
next
  case False
  note a = sys_invD[OF assms(1)]
  obtain m where m: "queue_free (msgq s q) = Some m" using False by auto
  show ?thesis
    using take_free_inv[OF a(1) wake_inv_but[OF a(2)] a(3) assms(2), of q m buf True] False assms(3) m
      free_node[OF mq_invD(1)[OF a(6)] m] by (auto simp: rt_mq_urgent_def)
qed

text \<open>The message is linked into the queue.\<close>

lemma mq_copy_in_inv:
  assumes "sys_inv i s" and "pending s (current (sk s)) = Mq_Copy_In q m buf u"
  shows "\<exists>out s'. mq_copy_in q m buf u (set_pending (current (sk s)) No_Call s) = Inr (out, s') \<and> sys_inv i s' \<and>
    mailbox s' = mailbox s \<and> (\<forall>b. mail_ops b out = [])"
proof -
  let ?t = "current (sk s)"
  note a = sys_invD[OF assms(1)] and mi = sys_invD(6)[OF assms(1), of q]
  have h: "hand q (pending s ?t) = Some m" using assms(2) by simp
  have l: "length buf \<le> msg_size (msgq s q)" using mq_invD(2)[OF mi, of ?t] assms(2) by simp
  obtain mq0 where c: "mq_copy m buf (msgq s q) = Inr mq0" "mq_ok (in_hand s q) mq0"
    "mq_free_nodes mq0 = mq_free_nodes (msgq s q)" "mq_entry mq0 = mq_entry (msgq s q)" "msg_size mq0 = msg_size (msgq s q)"
    using copy_ok[OF mq_invD(1)[OF mi] l mq_invD(4)[OF mi h]] by blast
  obtain mq where mq: "(if u then mq_link_head else mq_link_tail) m mq0 = Inr (True, mq)" "mq_ok (in_hand s q - {m}) mq"
    "mq_free_nodes mq = mq_free_nodes (msgq s q)" "msg_size mq = msg_size (msgq s q)"
    "mq_entry mq = mq_entry (msgq s q) + 1"
    using link_head_ok[OF c(2) mq_invD(4)[OF mi h]] link_tail_ok[OF c(2) mq_invD(4)[OF mi h]] c(3-5) by (cases u) auto
  let ?s = "set_msgq q mq (set_pending ?t No_Call s)"
  have "mq_inv ?s q" by (rule mq_drop[OF mi, of _ ?t No_Call m]) (use h mq in simp_all)
  then have s: "proc_inv i ?s \<and> wake_but (Mq_Recv_Q q) ?s \<and> obj_inv ?s"
    by (intro msgq_change[OF a(1) wake_inv_but[OF a(2), of "Sem_Q 0"] a(3), where q = q and mq = mq and p = No_Call]) (use assms(2) mq in simp_all)
  then obtain k where "resume_first (Mq_Recv_Q q) (sk ?s) = Inr k" "sys_inv i (set_kernel k ?s)"
    using bring_sys[of i ?s "Mq_Recv_Q q"] by auto
  then show ?thesis using c(1) mq(1) by (cases u) (auto simp: mq_copy_in_def Let_def)
qed

section \<open>Receiving\<close>

lemma mq_recv_loop_inv:
  assumes "proc_inv i s" and "wake_but (Mq_Recv_Q q) s" and "obj_inv s" and "idle_call s" and "may_wait i s timeout"
  shows "\<exists>out s'. mq_recv_loop q sz timeout s = Inr (out, s') \<and> sys_inv i s' \<and> mailbox s' = mailbox s \<and>
    (\<forall>b. mail_ops b out = [])"
proof (cases "mq_entry (msgq s q) = 0")
  case True
  have mi: "mq_inv s q" using assms(3) by (simp add: obj_inv_def)
  have av: "avail s (Mq_Recv_Q q) = 0" using True by simp
  have fl: "flag_ok (mq_flag (msgq s q))" using mq_invD(1)[OF mi] by (auto simp: mq_ok_def mq_lists_def flag_ok_def)
  show ?thesis
  proof (cases "timeout = 0")
    case z: True
    have "wake_inv s" using wake_but_empty[OF assms(2) av] .
    then show ?thesis
      using error_sys[OF assms(1) _ assms(3,4), of "- RT_ETIMEOUT"] True z
      by (auto simp: mq_recv_loop_def Let_def set_error_twice)
  next
    case False
    then have w: "timeout < 0x7FFFFFFF" "may_block i (base s)" using assms(5) by (auto simp: may_wait_def)
    obtain s' where "wait_in (Mq_Recv_Q q) (mq_flag (msgq s q)) timeout (Mq_Recv_Wait q sz timeout (tick (sk s))) s = Inr (Not_Yet, s')"
      "proc_inv i s'" "wake_inv s'" "obj_inv s'" "mailbox s' = mailbox s"
      using wait_sys[OF assms(1-4) av w fl, of "Mq_Recv_Wait q sz timeout (tick (sk s))"] w(1) by auto
    then show ?thesis using True False by (auto simp: mq_recv_loop_def Let_def sys_inv_def)
  qed
next
  case False
  have mi: "mq_inv s q" using assms(3) by (simp add: obj_inv_def)
  have id: "pending s (current (sk s)) = No_Call" using assms(4) by (simp add: idle_call_def)
  obtain m where m: "queue_head (msgq s q) = Some m" "m \<notin> in_hand s q"
    "let mq' = (mq_unlink_head m (msgq s q))\<lparr>mq_entry := mq_entry (msgq s q) - 1\<rparr> in
      mq_ok (insert m (in_hand s q)) mq' \<and> mq_nodes (msgq s q) = m # mq_nodes mq' \<and> mq_free_nodes mq' = mq_free_nodes (msgq s q)"
    using unlink_head_ok[OF mq_invD(1)[OF mi]] False by blast
  define mq where "mq = (mq_unlink_head m (msgq s q))\<lparr>mq_entry := mq_entry (msgq s q) - 1\<rparr>"
  have mq: "mq_ok (insert m (in_hand s q)) mq" "mq_free_nodes mq = mq_free_nodes (msgq s q)"
    "mq_entry mq = mq_entry (msgq s q) - 1" "msg_size mq = msg_size (msgq s q)"
    "mq_entry (mq_unlink_head m (msgq s q)) = mq_entry (msgq s q)"
    using m(3) by (simp_all add: mq_def mq_unlink_head_def Let_def)
  let ?s = "set_pending (current (sk s)) (Mq_Copy_Out q m sz) (set_msgq q mq s)"
  have "mq_inv ?s q"
    by (rule mq_take[OF mi, of _ "current (sk s)" "Mq_Copy_Out q m sz" m]) (use id m(2) mq in simp_all)
  then have "proc_inv i ?s \<and> wake_but (Sem_Q 0) ?s \<and> obj_inv ?s"
    by (intro msgq_change[OF assms(1-3), where q = q and mq = mq and p = "Mq_Copy_Out q m sz"]) (use id mq in simp_all)
  then have "sys_inv i ?s" by (simp add: sys_inv_def wake_but_base)
  then show ?thesis using False m(1) mq(5) head_node[OF mq_invD(1)[OF mi] m(1)] by (auto simp: mq_recv_loop_def Let_def mq_def)
qed

lemma mq_recv_inv:
  assumes "sys_inv i s" and "may_wait i s timeout" and "idle_call s" and "0 < sz"
  shows "\<exists>out s'. rt_mq_recv q sz timeout s = Inr (out, s') \<and> sys_inv i s' \<and> mailbox s' = mailbox s \<and>
    (\<forall>b. mail_ops b out = [])"
proof (cases "mq_entry (msgq s q) = 0 \<and> timeout = 0")
  case True
  then show ?thesis using assms by (auto simp: rt_mq_recv_def)
next
  case False
  note a = sys_invD[OF assms(1)]
  have "rt_mq_recv q sz timeout s = mq_recv_loop q sz timeout s"
    using False assms(2,4) by (auto simp: rt_mq_recv_def may_wait_def may_block_def)
  then show ?thesis using mq_recv_loop_inv[OF a(1) wake_inv_but[OF a(2)] a(3) assms(3,2)] by simp
qed

text \<open>The node is freed.\<close>

lemma mq_copy_out_inv:
  assumes "sys_inv i s" and "pending s (current (sk s)) = Mq_Copy_Out q m sz"
  shows "\<exists>out s'. mq_copy_out q m sz (set_pending (current (sk s)) No_Call s) = Inr (out, s') \<and> sys_inv i s' \<and>
    mailbox s' = mailbox s \<and> (\<forall>b. mail_ops b out = [])"
proof -
  let ?t = "current (sk s)"
  note a = sys_invD[OF assms(1)] and mi = sys_invD(6)[OF assms(1), of q]
  have h: "hand q (pending s ?t) = Some m" using assms(2) by simp
  define mq where "mq = mq_link_free m (msgq s q)"
  have mq: "mq_ok (in_hand s q - {m}) mq" "mq_free_nodes mq = m # mq_free_nodes (msgq s q)"
    "mq_entry mq = mq_entry (msgq s q)" "msg_size mq = msg_size (msgq s q)"
    using link_free_ok[OF mq_invD(1)[OF mi] mq_invD(4)[OF mi h]] by (simp_all add: mq_def mq_link_free_def)
  let ?s = "set_msgq q mq (set_pending ?t No_Call s)"
  have "mq_inv ?s q" by (rule mq_drop[OF mi, of _ ?t No_Call m]) (use h mq in simp_all)
  then have s: "proc_inv i ?s \<and> wake_but (Mq_Send_Q q) ?s \<and> obj_inv ?s"
    by (intro msgq_change[OF a(1) wake_inv_but[OF a(2), of "Sem_Q 0"] a(3), where q = q and mq = mq and p = No_Call]) (use assms(2) mq in simp_all)
  then obtain k where "resume_first (Mq_Send_Q q) (sk ?s) = Inr k" "sys_inv i (set_kernel k ?s)"
    using bring_sys[of i ?s "Mq_Send_Q q"] by auto
  moreover have "mq_node m (msgq s q)" "length (msg_data (msgq s q) m) = msg_size (msgq s q)"
    using hand_node[OF mq_invD(1)[OF mi] mq_invD(4)[OF mi h]] mq_okD(1)[OF mq_invD(1)[OF mi]] by (simp_all add: mq_lists_def)
  ultimately show ?thesis by (auto simp: mq_copy_out_def Let_def mq_def)
qed

section \<open>Other operations\<close>

text \<open>Nobody waits for the queue; it changes as a whole.\<close>

lemma msgq_replace:
  assumes "sys_inv i s" and "susp (sk s) (Mq_Recv_Q q) = []" and "susp (sk s) (Mq_Send_Q q) = []"
    and "mq_ok (in_hand s q) mq" and "\<And>t. fits q (msg_size mq) (pending s t)"
  shows "sys_inv i (set_msgq q mq s)"
proof -
  note a = sys_invD[OF assms(1)]
  let ?s = "set_msgq q mq s"
  have "in_hand ?s q = in_hand s q" by (simp add: in_hand_def)
  then have mi: "mq_inv ?s q" using a(6)[of q] assms(4,5) by (auto simp: mq_inv_def)
  have "proc_inv i ?s \<and> wake_but (Sem_Q 0) ?s \<and> obj_inv ?s"
    by (rule msgq_change[OF a(1) wake_inv_but[OF a(2), of "Sem_Q 0"] a(3), where p = "pending s (current (sk s))" and q = q and mq = mq])
      (use assms(2,3) mi in simp_all)
  then show ?thesis by (simp add: sys_inv_def wake_but_base)
qed

lemma mq_detach_inv:
  assumes "sys_inv i s"
  shows "\<exists>s'. rt_mq_detach q s = Inr s' \<and> sys_inv i s' \<and> mailbox s' = mailbox s"
proof -
  obtain k where "resume_both (Mq_Recv_Q q) (Mq_Send_Q q) (sk s) = Inr k" "sys_inv i (set_kernel k s)"
    using flush_sys[OF assms] by metis
  then show ?thesis by (simp add: rt_mq_detach_def)
qed

lemma mq_reset_inv:
  assumes "sys_inv i s"
  shows "\<exists>out s'. rt_mq_control q True s = Inr (out, s') \<and> sys_inv i s' \<and> mailbox s' = mailbox s \<and>
    (\<forall>b. mail_ops b out = [])"
proof -
  obtain k1 k2 where k: "resume_both (Mq_Recv_Q q) (Mq_Send_Q q) (sk s) = Inr k1" "rt_schedule k1 = Inr k2"
    "sys_inv i (set_kernel k2 s)" "susp k2 = (susp (sk s))(Mq_Recv_Q q := [], Mq_Send_Q q := [])"
    using flush_sys[OF assms] by metis
  note mi = sys_invD(6)[OF assms, of q]
  note ok = mq_invD(1)[OF mi]
  have len: "length (mq_nodes (msgq s q)) \<le> max_msgs (msgq s q)" using mq_okD[OF ok] by simp
  obtain mq fs where mq: "mq_release_all (max_msgs (msgq s q)) (msgq s q) = Inr mq" "mq_lists (in_hand s q) mq [] fs"
    "msg_size mq = msg_size (msgq s q)" using release_all_lists[OF mq_okD(1)[OF ok] len] by blast
  have "mq_lists (in_hand s q) (mq\<lparr>mq_entry := 0\<rparr>) [] fs" using mq(2) by (simp add: mq_lists_def)
  then have "mq_ok (in_hand s q) (mq\<lparr>mq_entry := 0\<rparr>)" using mq_okI by force
  then have "sys_inv i (set_msgq q (mq\<lparr>mq_entry := 0\<rparr>) (set_kernel k2 s))"
    by (intro msgq_replace[OF k(3)]) (use k(4) mq(3) mq_invD(2)[OF mi] in \<open>simp_all add: in_hand_def\<close>)
  then show ?thesis using k(1,2) mq(1) by (simp add: rt_mq_control_def)
qed

lemma not_waiting_msgq: "waits_in p = Some (Mq_Recv_Q q) \<or> waits_in p = Some (Mq_Send_Q q) \<Longrightarrow> on_msgq q p"
  by (cases p) auto

lemma aligned_size:
  fixes n :: u32
  assumes "unat n < 65533"
  shows "unat ((n + 3) AND NOT 3) < 65536"
proof -
  have "unat (n + 3) = unat n + 3" using assms by (subst unat_add_lem[THEN iffD1]) simp_all
  moreover have "unat ((n + 3) AND NOT 3) \<le> unat (n + 3)" by (simp add: word_and_le2 word_le_nat_alt[symmetric])
  ultimately show ?thesis using assms by simp
qed

lemma on_msgq_hand: "\<not> on_msgq q p \<Longrightarrow> hand q p = None \<and> fits q n p = fits q n' p"
  by (cases p) auto

lemma mq_init_inv:
  assumes "sys_inv i s" and "sys_allowed i s (Mq_Init q nx data msgsz pool_size flag)"
  shows "\<exists>s'. rt_mq_init q nx data msgsz pool_size flag s = Inr s' \<and> sys_inv i s' \<and> mailbox s' = mailbox s"
proof -
  note a = sys_invD[OF assms(1)]
  have no: "\<not> on_msgq q (pending s t)" for t using assms(2) by simp
  have qe: "susp (sk s) (Mq_Recv_Q q) = []" "susp (sk s) (Mq_Send_Q q) = []"
    using proc_invD(5)[OF a(1), of "Mq_Recv_Q q"] proc_invD(5)[OF a(1), of "Mq_Send_Q q"] no not_waiting_msgq[of _ q]
    by (cases "susp (sk s) (Mq_Recv_Q q)"; cases "susp (sk s) (Mq_Send_Q q)"; force)+
  then have "(susp (sk s))(Mq_Recv_Q q := [], Mq_Send_Q q := []) = susp (sk s)" by auto
  then have k: "set_kernel ((sk s)\<lparr>susp := (susp (sk s))(Mq_Recv_Q q := [], Mq_Send_Q q := [])\<rparr>) s = s" by simp
  have fl: "flag = RT_IPC_FLAG_FIFO \<or> flag = RT_IPC_FLAG_PRIO" using assms(2) by (simp add: flag_ok_def)
  define sz where "sz = unat ((msgsz + 3) AND NOT 3) mod 65536"
  define n where "n = (unat pool_size div (sz + 4)) mod 65536"
  obtain f nx1 where f: "mq_free_list n nx = (f, nx1)" by fastforce
  define mq where "mq = \<lparr>msg_size = sz, max_msgs = n, mq_entry = 0, queue_head = None, queue_tail = None, queue_free = f,
    msg_next = nx1, msg_data = data, mq_flag = flag,
    mq_bytes = unat pool_size\<rparr>"
  have e: "in_hand s q = {}" using on_msgq_hand[OF no] by (simp add: in_hand_def)
  have "n \<le> unat pool_size div (sz + 4)" by (simp add: n_def)
  then have room: "n * (sz + 4) \<le> unat pool_size" by (simp add: less_eq_div_iff_mult_less_eq)
  have "mq_lists {} mq [] (rev [0..<n])"
    using free_list_path[OF f] assms(2) aligned_size room[unfolded n_def sz_def] by (auto simp: mq_lists_def mq_def n_def sz_def flag_ok_def)
  then have "mq_ok (in_hand s q) mq" using e mq_okI by (force simp: mq_def)
  then have "sys_inv i (set_msgq q mq s)" 
    by (intro msgq_replace[OF assms(1) qe]) (use on_msgq_hand[OF no] mq_invD(2)[OF a(6)[of q]] in blast)+
  moreover have "rt_mq_init q nx data msgsz pool_size flag s = Inr (set_msgq q mq s)"
    using fl f k room unfolding rt_mq_init_def Let_def sz_def[symmetric] n_def[symmetric] by (simp add: mq_def set_msgq_def)
  ultimately show ?thesis by simp
qed

end
