(* ===== verification/Mempool_Inv.thy ===== *)
theory Mempool_Inv
  imports Event_Inv
begin

text \<open>Every operation on a memory pool keeps the invariant of the system and moves one block at most.\<close>

lemma set_mempool_simps [simp]:
  "base (set_mempool p mp s) = base s" "pending (set_mempool p mp s) = pending s" "event (set_mempool p mp s) = event s"
  "mailbox (set_mempool p mp s) = mailbox s" "msgq (set_mempool p mp s) = msgq s" "event_set (set_mempool p mp s) = event_set s"
  "event_info (set_mempool p mp s) = event_info s" "mempool (set_mempool p mp s) = (mempool s)(p := mp)"
  by (simp_all add: set_mempool_def)

lemma set_mempool_inv:
  assumes "proc_inv i s" and "wake_but q0 s" and "obj_inv s" and "mp_ok p mp"
    and "block_free_count mp - (if q1 = Mp_Q p then 1 else 0) \<le> block_free_count (mempool s p) - (if q0 = Mp_Q p then 1 else 0) \<or>
      susp (sk s) (Mp_Q p) = []"
    and "q0 = Mp_Q p \<or> q0 \<in> base_queues"
  shows "proc_inv i (set_mempool p mp s) \<and> wake_but q1 (set_mempool p mp s) \<and> obj_inv (set_mempool p mp s)"
proof (intro conjI)
  let ?s = "set_mempool p mp s"
  show "proc_inv i ?s" by (rule proc_inv_cong[OF assms(1)]) simp_all
  have w: "woken_in ?s q = woken_in s q" for q by (rule woken_in_cong) simp_all
  show "wake_but q1 ?s"
    unfolding wake_but_def
  proof (intro allI impI)
    fix q assume q: "q \<notin> base_queues"
    have e: "enough_woken s q (avail s q - (if q = q0 then 1 else 0))" using assms(2) q by (simp add: wake_but_def)
    have "susp (sk s) q = [] \<or> avail ?s q - (if q = q1 then 1 else 0) \<le> avail s q - (if q = q0 then 1 else 0)"
      using assms(5,6) q by (cases q) auto
    then show "enough_woken ?s q (avail ?s q - (if q = q1 then 1 else 0))"
      using e w by (auto simp: enough_woken_def)
  qed
  have "event_inv ?s e" "mq_inv ?s q" for e q
    using assms(3) by (simp_all add: obj_inv_def event_inv_def mq_inv_def in_hand_def)
  then show "obj_inv ?s" using assms(3,4) by (simp add: obj_inv_def)
qed

section \<open>Effects on the blocks\<close>

abbreviation used :: "sys \<Rightarrow> nat \<Rightarrow> nat set" where "used s p \<equiv> mp_used p (mempool s p)"

text \<open>What a step shows of the blocks of a pool, and which blocks are handed out after it.\<close>

datatype block_op = Taken_Block nat | Returned_Block nat

fun block_ops :: "nat \<Rightarrow> outcome \<Rightarrow> block_op list" where
  "block_ops p (Got_Block p' m) = (if p' = p then [Taken_Block m] else [])"
| "block_ops p (Freed_Block p' m) = (if p' = p then [Returned_Block m] else [])"
| "block_ops p _ = []"

text \<open>A block can be taken if it is not handed out, and returned if it is.\<close>

fun replay_blocks :: "block_op list \<Rightarrow> nat set \<Rightarrow> nat set option" where
  "replay_blocks [] B = Some B"
| "replay_blocks (Taken_Block m # ops) B = (if m \<in> B then None else replay_blocks ops (insert m B))"
| "replay_blocks (Returned_Block m # ops) B = (if m \<in> B then replay_blocks ops (B - {m}) else None)"

definition block_effect :: "nat \<Rightarrow> outcome \<Rightarrow> sys \<Rightarrow> sys \<Rightarrow> bool" where
  "block_effect p out s s' \<longleftrightarrow> replay_blocks (block_ops p out) (used s p) = Some (used s' p) \<and>
     block_total_count (mempool s' p) = block_total_count (mempool s p)"

lemma block_effect_none: "mempool s' = mempool s \<Longrightarrow> block_ops p out = [] \<Longrightarrow> block_effect p out s s'"
  by (simp add: block_effect_def)

definition pool_step :: "nat \<Rightarrow> sys \<Rightarrow> (outcome \<times> sys) res \<Rightarrow> bool" where
  "pool_step i s r \<longleftrightarrow> (\<exists>out s'. r = Inr (out, s') \<and> sys_inv i s' \<and> mailbox s' = mailbox s \<and> (\<forall>b. mail_ops b out = []) \<and>
     (\<forall>p. block_effect p out s s'))"

section \<open>The calls\<close>

lemma mp_alloc_loop_inv:
  assumes "proc_inv i s" and "wake_but (Mp_Q p) s" and "obj_inv s" and "idle_call s" and "may_wait i s time"
  shows "pool_step i s (mp_alloc_loop p time s)"
proof (cases "block_free_count (mempool s p) = 0")
  case True
  have irq: "irq_nest (sk s) = 0" using proc_invD(6)[OF assms(1)] .
  have av: "avail s (Mp_Q p) = 0" using True by simp
  show ?thesis
  proof (cases "time = 0")
    case z: True
    then show ?thesis
      using error_sys[OF assms(1) wake_but_empty[OF assms(2) av] assms(3,4), of "- RT_ETIMEOUT"] True irq
      by (auto simp: mp_alloc_loop_def rt_set_errno_def pool_step_def intro!: block_effect_none)
  next
    case False
    then have w: "time < 0x7FFFFFFF" "may_block i (base s)" using assms(5) by (auto simp: may_wait_def)
    have id: "pending s (current (sk s)) = No_Call" using assms(4) by (simp add: idle_call_def)
    let ?p = "Mp_Wait p time (tick (sk s))"
    obtain k where k: "wait_first (Mp_Q p) time ?p s = Inr (Not_Yet, set_pending (current (sk s)) ?p (set_kernel k s))"
      "proc_inv i (set_pending (current (sk s)) ?p (set_kernel k s))" "susp k = (susp (sk s))(Mp_Q p := current (sk s) # susp (sk s) (Mp_Q p))"
      "\<And>q'. woken_in s q' \<subseteq> woken_in (set_pending (current (sk s)) ?p (set_kernel k s)) q'"
      using wait_first_inv[OF assms(1) w id, of ?p "Mp_Q p"] by auto
    have q: "\<And>q'. q' \<noteq> Mp_Q p \<Longrightarrow> susp k q' = susp (sk s) q'" using k(3) by simp
    note w' = waiting_sys[OF assms(2-4) av k(2) q k(4)]
    have "sys_inv i (set_pending (current (sk s)) ?p (set_kernel k s))"
      using w'(1,2) k(2) w(1) by (simp add: sys_inv_def)
    then show ?thesis
      using True False irq k(1) by (auto simp: mp_alloc_loop_def Let_def pool_step_def intro!: block_effect_none)
  qed
next
  case False
  have ok: "mp_ok p (mempool s p)" using assms(3) by (simp add: obj_inv_def)
  obtain m mp where mp: "mp_take p (mempool s p) = Inr (m, mp)" "mp_ok p mp" "m \<notin> used s p"
    "mp_used p mp = insert m (used s p)" "block_free_count mp = block_free_count (mempool s p) - 1"
    "block_total_count mp = block_total_count (mempool s p)"
    using mp_take_ok[OF ok] False by blast
  note n = set_mempool_inv[OF assms(1-3) mp(2), where ?q1.0 = "Sem_Q 0"]
  have "sys_inv i (set_mempool p mp s)" using n mp(5) by (simp add: sys_inv_def wake_but_base)
  moreover have "block_effect p' (Got_Block p m) s (set_mempool p mp s)" for p'
    using mp(3,4,6) by (simp add: block_effect_def)
  ultimately show ?thesis using mp(1) False by (simp add: mp_alloc_loop_def Let_def pool_step_def)
qed

lemma mp_alloc_inv:
  assumes "sys_inv i s" and "may_wait i s time" and "idle_call s"
  shows "pool_step i s (rt_mp_alloc p time s)"
  using mp_alloc_loop_inv[OF sys_invD(1)[OF assms(1)] wake_inv_but[OF sys_invD(2)[OF assms(1)]] sys_invD(3)[OF assms(1)] assms(3,2)]
  by (simp add: rt_mp_alloc_def)

text \<open>The waiting threads have no error yet, so the thread that is woken is not changed by clearing it.\<close>

lemma clear_error:
  assumes "error (thr k t) = RT_EOK"
  shows "set_error t RT_EOK k = k"
proof -
  have "(thr k t)\<lparr>error := RT_EOK\<rparr> = thr k t" using assms by (cases "thr k t") simp
  then have "(thr k)(t := (thr k t)\<lparr>error := RT_EOK\<rparr>) = thr k" by (metis fun_upd_triv)
  then show ?thesis by (cases k) (simp add: set_error_def upd_def)
qed

lemma mp_free_eq:
  assumes "os_inv i (base s)" and "m \<in> used s p" and "mp_ok p (mempool s p)"
  shows "rt_mp_free p m s = bind_res (resume_first (Mp_Q p) (sk s)) (\<lambda>k.
    Inr (Freed_Block p m, set_kernel k (set_mempool p (mp_put m (mempool s p)) s)))"
proof -
  have h: "block_head (mempool s p) m = In_Pool p" "mp_block m (mempool s p)"
    using mp_ok_block assms(2,3) by (simp_all add: mp_used_def)
  show ?thesis
  proof (cases "susp (sk s) (Mp_Q p)")
    case Nil
    then show ?thesis using h by (simp add: rt_mp_free_def resume_first_def Let_def)
  next
    case (Cons t ts)
    then have "error (thr (sk s) t) = RT_EOK" using os_invD(6)[OF assms(1), of t "Mp_Q p"] by simp
    from clear_error[OF this] show ?thesis
      using h Cons by (simp add: rt_mp_free_def resume_first_def Let_def bind_res_assoc)
  qed
qed

lemma mp_free_inv:
  assumes "sys_inv i s" and "m \<in> used s p"
  shows "pool_step i s (rt_mp_free p m s)"
proof -
  note a = sys_invD[OF assms(1)]
  note put = mp_put_ok[OF a(8) assms(2)]
  let ?s = "set_mempool p (mp_put m (mempool s p)) s"
  have "proc_inv i ?s \<and> wake_but (Mp_Q p) ?s \<and> obj_inv ?s"
    by (rule set_mempool_inv[OF a(1) wake_inv_but[OF a(2), of "Sem_Q 0"] a(3) put(1)]) (simp_all add: put(3))
  then obtain k where "resume_first (Mp_Q p) (sk s) = Inr k" "sys_inv i (set_kernel k ?s)"
    using bring_sys[of i ?s "Mp_Q p"] by auto
  moreover have "block_effect p' (Freed_Block p m) s (set_kernel k ?s)" for p' k
    using assms(2) put(2,4) by (simp add: block_effect_def)
  ultimately show ?thesis using mp_free_eq[OF a(7) assms(2) a(8)] by (simp add: pool_step_def)
qed

lemma mp_init_inv:
  assumes "sys_inv i s" and "susp (sk s) (Mp_Q p) = []" and "mp_fits sz bs"
  shows "\<exists>s'. rt_mp_init p h sz bs s = Inr s' \<and> sys_inv i s' \<and> mailbox s' = mailbox s \<and>
    (\<forall>p'. p' \<noteq> p \<longrightarrow> mempool s' p' = mempool s p') \<and> used s' p = {}"
proof -
  note a = sys_invD[OF assms(1)]
  let ?n = "((bs + 3) AND NOT 3) + 4"
  have "unat ?n \<le> unat (sz AND NOT 3)" "unat ?n \<noteq> 0"
    using assms(3) by (auto simp: mp_fits_def word_le_nat_alt unat_eq_0)
  then have "unat ((sz AND NOT 3) div ?n) \<noteq> 0" by (simp add: unat_div div_eq_0_iff)
  moreover have "unat ((sz AND NOT 3) div ?n) * unat ?n \<le> unat sz" by (rule blocks_in_memory)
  moreover have "sz \<noteq> 0" using assms(3) by (auto simp: mp_fits_def)
  ultimately obtain mp where mp: "mp_make h sz bs = Inr mp"
    using assms(3) by (cases "mp_make h sz bs") (auto simp: mp_make_def mp_fits_def Let_def split: if_splits)
  have ok: "mp_ok p mp" "mp_used p mp = {}" using mp_make_ok[OF mp] by blast+
  have "(susp (sk s))(Mp_Q p := []) = susp (sk s)" using assms(2) by auto
  then have k: "set_kernel ((sk s)\<lparr>susp := (susp (sk s))(Mp_Q p := [])\<rparr>) s = s" by simp
  have "sys_inv i (set_mempool p mp s)"
    using set_mempool_inv[OF a(1) _ a(3) ok(1), where ?q0.0 = "Sem_Q 0" and ?q1.0 = "Sem_Q 0"] a(2) assms(2)
    by (simp add: sys_inv_def wake_but_base)
  then show ?thesis using mp k ok(2) by (simp add: rt_mp_init_def)
qed

lemma mp_detach_inv:
  assumes "sys_inv i s"
  shows "\<exists>s'. rt_mp_detach p s = Inr s' \<and> sys_inv i s' \<and> mailbox s' = mailbox s \<and> mempool s' = mempool s"
  using queue_flush[OF assms, of "Mp_Q p"] by (auto simp: rt_mp_detach_def)

end
