(* ===== verification/Pool_Frame.thy ===== *)
theory Pool_Frame
  imports Messages
begin

text \<open>Calls on other objects leave the memory pools alone. The rules follow the structure of a definition.\<close>

named_theorems pool_frame

text \<open>A step that moves no block.\<close>

definition same_pools :: "sys \<Rightarrow> (outcome \<times> sys) res \<Rightarrow> bool" where
  "same_pools s r \<longleftrightarrow> (\<forall>out s'. r = Inr (out, s') \<longrightarrow> mempool s' = mempool s \<and> (\<forall>p m. out \<noteq> Got_Block p m \<and> out \<noteq> Freed_Block p m))"

lemma same_pools_Inr [pool_frame]:
  "mempool s' = mempool s \<Longrightarrow> (\<And>p m. out \<noteq> Got_Block p m) \<Longrightarrow> (\<And>p m. out \<noteq> Freed_Block p m) \<Longrightarrow> same_pools s (Inr (out, s'))"
  by (simp add: same_pools_def)

lemma same_pools_Inl [pool_frame]: "same_pools s (Inl e)"
  by (simp add: same_pools_def)

lemma same_pools_bind [pool_frame]: "(\<And>x. r = Inr x \<Longrightarrow> same_pools s (f x)) \<Longrightarrow> same_pools s (bind_res r f)"
  by (cases r) (simp_all add: same_pools_Inl)

lemma same_pools_if [pool_frame]:
  "(c \<Longrightarrow> same_pools s a) \<Longrightarrow> (\<not> c \<Longrightarrow> same_pools s b) \<Longrightarrow> same_pools s (if c then a else b)"
  by simp

lemma same_pools_node [pool_frame]: "(mq_node m mq \<Longrightarrow> same_pools s r) \<Longrightarrow> same_pools s (at_node m mq r)"
  by (simp add: at_node_def same_pools_Inl)

lemma same_pools_let [pool_frame]: "(\<And>x. x = t \<Longrightarrow> same_pools s (f x)) \<Longrightarrow> same_pools s (Let t f)"
  by simp

lemma same_pools_pair [pool_frame]: "(\<And>x y. z = (x, y) \<Longrightarrow> same_pools s (f x y)) \<Longrightarrow> same_pools s (case z of (x, y) \<Rightarrow> f x y)"
  by (cases z) simp

lemma same_pools_option [pool_frame]:
  "(z = None \<Longrightarrow> same_pools s a) \<Longrightarrow> (\<And>x. z = Some x \<Longrightarrow> same_pools s (f x)) \<Longrightarrow> same_pools s (case z of None \<Rightarrow> a | Some x \<Rightarrow> f x)"
  by (cases z) simp_all

lemma same_pools_silent: "(\<And>s'. r = Inr s' \<Longrightarrow> mempool s' = mempool s) \<Longrightarrow> same_pools s (silent r)"
  unfolding silent_def by (intro pool_frame) simp_all

lemma same_pools_wait [pool_frame]: "mempool s1 = mempool s \<Longrightarrow> same_pools s (wait_in q flag timeout p s1)"
  unfolding wait_in_def by (intro pool_frame) (simp_all add: set_kernel_def set_pending_def)

lemma mempool_setters:
  "mempool (set_kernel k s) = mempool s" "mempool (set_pending t p s) = mempool s" "mempool (set_mailbox b mb s) = mempool s"
  "mempool (set_msgq q mq s) = mempool s"
  by (simp_all add: set_kernel_def set_pending_def set_mailbox_def set_msgq_def)

section \<open>Events, mailboxes and message queues\<close>

lemma event_pools [pool_frame]:
  "same_pools s (rt_event_send e bits s)" "same_pools s (rt_event_recv e bits option timeout s)"
  "same_pools s (rt_event_control e cmd s)" "mempool s1 = mempool s \<Longrightarrow> same_pools s (event_recv_resume t s1)"
  unfolding rt_event_send_def rt_event_recv_def rt_event_control_def event_recv_resume_def
  by (intro pool_frame; simp add: mempool_setters)+

lemma mailbox_loops [pool_frame]:
  "mempool s1 = mempool s \<Longrightarrow> same_pools s (mb_send_loop b v timeout s1)"
  "mempool s1 = mempool s \<Longrightarrow> same_pools s (mb_recv_loop b timeout s1)"
  unfolding mb_send_loop_def mb_recv_loop_def by (intro pool_frame; simp add: mempool_setters)+

lemma mailbox_pools [pool_frame]:
  "same_pools s (rt_mb_send_wait b v timeout s)" "same_pools s (rt_mb_urgent b v s)" "same_pools s (rt_mb_recv b timeout s)"
  "same_pools s (rt_mb_control b cmd s)"
  "mempool s1 = mempool s \<Longrightarrow> same_pools s (mb_send_resume t b v timeout start s1)"
  "mempool s1 = mempool s \<Longrightarrow> same_pools s (mb_recv_resume t b timeout start s1)"
  unfolding rt_mb_send_wait_def rt_mb_urgent_def rt_mb_recv_def rt_mb_control_def mb_send_resume_def mb_recv_resume_def
  by (intro pool_frame; simp add: mempool_setters)+

lemma msgq_loops [pool_frame]:
  "mempool s1 = mempool s \<Longrightarrow> same_pools s (mq_send_loop q buf timeout s1)"
  "mempool s1 = mempool s \<Longrightarrow> same_pools s (mq_recv_loop q sz timeout s1)"
  unfolding mq_send_loop_def mq_recv_loop_def by (intro pool_frame; simp add: mempool_setters)+

lemma msgq_pools [pool_frame]:
  "same_pools s (rt_mq_send_wait q buf timeout s)" "same_pools s (rt_mq_urgent q buf s)" "same_pools s (rt_mq_recv q sz timeout s)"
  "same_pools s (rt_mq_control q cmd s)"
  "mempool s1 = mempool s \<Longrightarrow> same_pools s (mq_send_resume t q buf timeout start s1)"
  "mempool s1 = mempool s \<Longrightarrow> same_pools s (mq_recv_resume t q sz timeout start s1)"
  "mempool s1 = mempool s \<Longrightarrow> same_pools s (mq_copy_in q m buf urgent s1)"
  "mempool s1 = mempool s \<Longrightarrow> same_pools s (mq_copy_out q m sz s1)"
  unfolding rt_mq_send_wait_def rt_mq_urgent_def rt_mq_recv_def rt_mq_control_def mq_send_resume_def mq_recv_resume_def
    mq_copy_in_def mq_copy_out_def
  by (intro pool_frame; simp add: mempool_setters)+

section \<open>All calls\<close>

fun on_pool :: "sys_call \<Rightarrow> bool" where
  "on_pool (Mp_Init _ _ _ _) = True"
| "on_pool (Mp_Alloc _ _) = True"
| "on_pool (Mp_Free _ _) = True"
| "on_pool (Mp_Detach _) = True"
| "on_pool Go_On = True"
| "on_pool _ = False"

lemma other_call_pools: "\<not> on_pool c \<Longrightarrow> same_pools s (do_sys c s)"
proof (cases c)
  case (Kernel_Call c')
  then show ?thesis by (auto intro!: same_pools_silent simp: bind_res_Inr_iff)
qed (auto intro!: pool_frame same_pools_silent
      simp: rt_event_init_def rt_event_detach_def rt_mb_init_def rt_mb_detach_def rt_mq_init_def rt_mq_detach_def
        bind_res_Inr_iff mempool_setters Let_def split: if_splits prod.splits)

lemma continue_pools:
  assumes "\<And>p time start. pending s t \<noteq> Mp_Wait p time start"
  shows "same_pools s (continue t s)"
  using assms by (cases "pending s t") (auto simp: continue_def Let_def mempool_setters intro!: pool_frame)

end
