(* ===== verification/Messages_Step.thy ===== *)
theory Messages_Step
  imports Event_Inv Mailbox_Inv Msgqueue_Calls Mempool_Inv Pool_Frame
begin

text \<open>
  Every call that is made under its documented conditions, and every step in which a call
  goes on after a wait, ends without a fault and keeps the invariant of the system; so do
  runs of any length from the start of the system.
\<close>

section \<open>Going on after a wait\<close>

lemma time_left_ok:
  assumes "timeout < 0x7FFFFFFF" and "unat (now - start :: u32) < 2 ^ 31"
  shows "time_left timeout start now < 0x7FFFFFFF"
proof (cases "timeout > 0")
  case True
  define d where "d = int (unat (now - start))"
  have "int (unat (now - start)) < int (2 ^ 31)" using assms(2) by (rule of_nat_less_iff[THEN iffD2])
  then have d: "0 \<le> d" "d < 2 ^ 31" by (simp_all add: d_def)
  have "of_int timeout - (now - start) = (of_int (timeout - d) :: u32)" by (simp add: d_def)
  then have "sint (of_int timeout - (now - start) :: u32) = sint (of_int (timeout - d) :: u32)" by (rule arg_cong)
  also have "\<dots> = signed_take_bit 31 (timeout - d)" by (simp only: signed_of_int) simp
  also have "\<dots> = timeout - d" by (rule signed_take_bit_int_eq_self) (use d True assms(1) in simp_all)
  finally show ?thesis using d(1) assms(1) by (simp add: time_left_def Let_def)
qed (use assms(1) in \<open>simp add: time_left_def\<close>)

text \<open>The thread leaves its wait; nothing else has changed.\<close>

lemma cleared_sys:
  assumes "sys_inv i s" and "waits_in (pending s (current (sk s))) = Some q" and "error (thr (sk s) (current (sk s))) \<noteq> RT_EOK"
    and "\<And>q. hand q (pending s (current (sk s))) = None"
  shows "sys_inv i (set_pending (current (sk s)) No_Call s)"
  using cleared_proc[OF sys_invD(1)[OF assms(1)]] cleared_wake_inv[OF sys_invD(2)[OF assms(1)]]
    cleared_obj[OF sys_invD(3)[OF assms(1)] assms(4)] assms(3) by (simp add: sys_inv_def)

lemma cleared_parts:
  assumes "sys_inv i s" and "waits_in (pending s (current (sk s))) = Some q" and "\<And>q. hand q (pending s (current (sk s))) = None"
    and "timeout < 0x7FFFFFFF"
  defines "s1 \<equiv> set_pending (current (sk s)) No_Call s"
  shows "proc_inv i s1" and "wake_but q s1" and "obj_inv s1" and "idle_call s1" and "may_wait i s1 timeout"
proof -
  note a = sys_invD[OF assms(1)]
  show "proc_inv i s1" "wake_but q s1" "obj_inv s1"
    unfolding s1_def by (rule cleared_proc[OF a(1)] cleared_wake[OF a(1,2) assms(2)] cleared_obj[OF a(3) assms(3)])+
  show "idle_call s1" by (simp add: s1_def idle_call_def)
  show "may_wait i s1 timeout" using may_block_again[OF a(1)] assms(2,4) by (simp add: s1_def may_wait_def)
qed

definition goes_well :: "nat \<Rightarrow> sys \<Rightarrow> (outcome \<times> sys) res \<Rightarrow> bool" where
  "goes_well i s r \<longleftrightarrow> (\<exists>out s'. r = Inr (out, s') \<and> sys_inv i s' \<and> (\<forall>b. mail_effect b out s s'))"

lemma goes_well_none:
  "\<exists>out s'. r = Inr (out, s') \<and> sys_inv i s' \<and> mailbox s' = mailbox s \<and> (\<forall>b. mail_ops b out = []) \<Longrightarrow> goes_well i s r"
  using mail_effect_none unfolding goes_well_def by blast

lemma pool_step_well: "pool_step i s r \<Longrightarrow> goes_well i s r"
  by (intro goes_well_none) (auto simp: pool_step_def)

lemma goes_well_silent:
  "\<exists>s'. r = Inr s' \<and> sys_inv i s' \<and> mailbox s' = mailbox s \<Longrightarrow> goes_well i s (silent r)"
  by (auto simp: goes_well_def silent_def mail_effect_def)

lemma goes_well_mailbox: "mailbox s1 = mailbox s \<Longrightarrow> goes_well i s1 r = goes_well i s r"
  by (simp add: goes_well_def mail_effect_def)

lemma error_ends:
  assumes "sys_inv i s" and "waits_in (pending s (current (sk s))) = Some q" and "error (thr (sk s) (current (sk s))) \<noteq> RT_EOK"
    and "\<And>q. hand q (pending s (current (sk s))) = None" and "\<And>b. mail_ops b out = []"
  shows "goes_well i s (Inr (out, set_pending (current (sk s)) No_Call s))"
  by (rule goes_well_none) (use cleared_sys[OF assms(1-4)] assms(5) in simp)

lemma continue_inv:
  assumes "sys_inv i s" and "sys_allowed i s Go_On"
  shows "goes_well i s (continue (current (sk s)) s)"
proof -
  let ?t = "current (sk s)"
  let ?s = "set_pending ?t No_Call s"
  have n: "pending s ?t \<noteq> No_Call" and tm: "in_time (tick (sk s)) (pending s ?t)"
    using assms(2) by (simp_all add: idle_call_def)
  have fit: "fits q (msg_size (msgq s q)) (pending s ?t)" for q using mq_invD(2)[OF sys_invD(6)[OF assms(1)]] .
  have m: "goes_well i ?s r = goes_well i s r" for r by (rule goes_well_mailbox) simp
  note fails = error_ends[OF assms(1)] and parts = cleared_parts[OF assms(1)]
  show ?thesis
  proof (cases "pending s ?t")
    case (Event_Wait e)
    note p = parts[of "Event_Q e" 0]
    have "wake_inv ?s" using wake_but_empty[OF p(2)] Event_Wait by simp
    then have "sys_inv i ?s" using p(1,3) Event_Wait by (simp add: sys_inv_def)
    then have "goes_well i s (event_recv_resume ?t ?s)"
      by (intro goes_well_none) (auto simp: event_recv_resume_def)
    then show ?thesis using Event_Wait by (simp add: continue_def)
  next
    case (Mb_Send_Wait b v timeout start)
    show ?thesis
    proof (cases "error (thr (sk s) ?t) = RT_EOK")
      case True
      have "time_left timeout start (tick (sk s)) < 0x7FFFFFFF" using time_left_ok fit tm Mb_Send_Wait by simp
      note p = parts[of "Mb_Send_Q b", OF _ _ this]
      have "goes_well i ?s (mb_send_loop b v (time_left timeout start (tick (sk s))) ?s)"
        unfolding goes_well_def using mb_send_loop_inv[OF p(1-3) _ p(5)] p(4) Mb_Send_Wait by simp
      then show ?thesis using Mb_Send_Wait True m by (simp add: continue_def mb_send_resume_def)
    qed (use Mb_Send_Wait fails in \<open>simp add: continue_def mb_send_resume_def\<close>)
  next
    case (Mb_Recv_Wait b timeout start)
    show ?thesis
    proof (cases "error (thr (sk s) ?t) = RT_EOK")
      case True
      have "time_left timeout start (tick (sk s)) < 0x7FFFFFFF" using time_left_ok fit tm Mb_Recv_Wait by simp
      note p = parts[of "Mb_Recv_Q b", OF _ _ this]
      have "goes_well i ?s (mb_recv_loop b (time_left timeout start (tick (sk s))) ?s)"
        unfolding goes_well_def using mb_recv_loop_inv[OF p] Mb_Recv_Wait by simp
      then show ?thesis using Mb_Recv_Wait True m by (simp add: continue_def mb_recv_resume_def)
    qed (use Mb_Recv_Wait fails in \<open>simp add: continue_def mb_recv_resume_def\<close>)
  next
    case (Mq_Send_Wait q buf timeout start)
    show ?thesis
    proof (cases "error (thr (sk s) ?t) = RT_EOK")
      case True
      have "time_left timeout start (tick (sk s)) < 0x7FFFFFFF" using time_left_ok fit tm Mq_Send_Wait by simp
      note p = parts[of "Mq_Send_Q q", OF _ _ this]
      have "length buf \<le> msg_size (msgq s q)" using fit[of q] Mq_Send_Wait by simp
      then have "goes_well i ?s (mq_send_loop q buf (time_left timeout start (tick (sk s))) ?s)"
        by (intro goes_well_none mq_send_loop_inv p) (use Mq_Send_Wait in simp_all)
      then show ?thesis using Mq_Send_Wait True m by (simp add: continue_def mq_send_resume_def)
    qed (use Mq_Send_Wait fails in \<open>simp add: continue_def mq_send_resume_def\<close>)
  next
    case (Mq_Recv_Wait q sz timeout start)
    show ?thesis
    proof (cases "error (thr (sk s) ?t) = RT_EOK")
      case True
      have "time_left timeout start (tick (sk s)) < 0x7FFFFFFF" using time_left_ok fit tm Mq_Recv_Wait by simp
      note p = parts[of "Mq_Recv_Q q", OF _ _ this]
      have "goes_well i ?s (mq_recv_loop q sz (time_left timeout start (tick (sk s))) ?s)"
        by (intro goes_well_none mq_recv_loop_inv p) (use Mq_Recv_Wait in simp_all)
      then show ?thesis using Mq_Recv_Wait True m by (simp add: continue_def mq_recv_resume_def)
    qed (use Mq_Recv_Wait fails in \<open>simp add: continue_def mq_recv_resume_def\<close>)
  next
    case (Mp_Wait p timeout start)
    show ?thesis
    proof (cases "error (thr (sk s) ?t) = RT_EOK")
      case True
      have "time_left timeout start (tick (sk s)) < 0x7FFFFFFF" using time_left_ok fit tm Mp_Wait by simp
      note p = parts[of "Mp_Q p", OF _ _ this]
      have "goes_well i ?s (mp_alloc_loop p (time_left timeout start (tick (sk s))) ?s)"
        by (intro pool_step_well mp_alloc_loop_inv p) (use Mp_Wait in simp_all)
      then show ?thesis using Mp_Wait True m by (simp add: continue_def mp_alloc_resume_def)
    qed (use Mp_Wait fails in \<open>simp add: continue_def mp_alloc_resume_def\<close>)
  next
    case (Mq_Copy_In q m buf u)
    then show ?thesis using goes_well_none[OF mq_copy_in_inv[OF assms(1) Mq_Copy_In]] by (simp add: continue_def)
  next
    case (Mq_Copy_Out q m sz)
    then show ?thesis using goes_well_none[OF mq_copy_out_inv[OF assms(1) Mq_Copy_Out]] by (simp add: continue_def)
  qed (use n in simp)
qed

section \<open>Calls of the kernel\<close>

lemma lock_sys:
  assumes "sys_inv i s" and "idle_call s"
  shows "sys_inv i (set_kernel ((sk s)\<lparr>lock_nest := n\<rparr>) s)" (is "sys_inv i ?s")
proof -
  note a = sys_invD[OF assms(1)]
  have w: "woken_in ?s q = woken_in s q" "avail ?s q = avail s q" for q by (simp_all add: woken_in_def alive_def)
  have "proc_inv i ?s"
    using os_lock_inv[OF a(7), of n] a(1) assms(2) by (auto simp: proc_inv_def pend_inv_def idle_call_def live_def)
  moreover have "wake_inv ?s" using a(2) w by (simp add: wake_inv_def enough_woken_def)
  moreover have "obj_inv ?s" by (rule obj_frame[OF a(3)]) simp_all
  ultimately show ?thesis by (simp add: sys_inv_def)
qed

lemma exit_critical_sys:
  assumes "sys_inv i s" and "idle_call s"
  shows "\<exists>k. rt_exit_critical (sk s) = Inr k \<and> sys_inv i (set_kernel k s)"
proof -
  let ?k = "(sk s)\<lparr>lock_nest := lock_nest (sk s) - 1\<rparr>"
  have l: "sys_inv i (set_kernel ?k s)" by (rule lock_sys[OF assms])
  obtain k where k: "rt_schedule ?k = Inr k" "os_inv i ((base s)\<lparr>krn := k\<rparr>)" "gentle {} {} ?k k"
    using os_reschedule[OF sys_invD(7)[OF l]] by auto
  have "sys_inv i (set_kernel k (set_kernel ?k s))"
    using sys_inv_kernel[OF l, of k "{}"] k(2) gentle_weaken[OF k(3)] by simp
  moreover have "set_kernel k (set_kernel ?k s) = set_kernel k s" by (simp add: set_kernel_def)
  moreover have "rt_exit_critical (sk s) = (if lock_nest ?k = 0 then rt_schedule ?k else Inr ?k)"
    by (simp only: rt_exit_critical_def Let_def)
  ultimately show ?thesis using k(1) l by metis
qed

lemma kernel_call_inv:
  assumes "sys_inv i s" and "sys_allowed i s (Kernel_Call c)"
  shows "\<exists>w. do_call c (base s) = Inr w \<and> sys_inv i (s\<lparr>base := w\<rparr>)"
proof -
  note a = sys_invD[OF assms(1)]
  have al: "allowed i (base s) c" using assms(2) by simp
  consider "c = Enter_Critical" | "c = Exit_Critical" | "c \<noteq> Enter_Critical" "c \<noteq> Exit_Critical" by blast
  then show ?thesis
  proof cases
    case 1
    then have "idle_call s" using assms(2) by simp
    from lock_sys[OF assms(1) this, of "lock_nest (sk s) + 1"] 1 show ?thesis
      by (simp add: in_kernel_def rt_enter_critical_def set_kernel_def)
  next
    case 2
    then have "idle_call s" using assms(2) by simp
    from exit_critical_sys[OF assms(1) this] 2 show ?thesis by (auto simp: in_kernel_def set_kernel_def)
  next
    case 3
    obtain w where w: "do_call c (base s) = Inr w" "os_inv i w" using call_inv[OF a(7) al] by blast
    let ?C = "if c = Tick \<or> (\<exists>s. c = Sem_Release s) then {} else {current (sk s)}"
    have g: "gentle ?C base_queues (sk s) (sk (s\<lparr>base := w\<rparr>))" using gentle_call[OF w(1) al 3] by simp
    have "pending s t = No_Call" if "t \<in> ?C" for t
      using that assms(2) by (auto simp: idle_call_def split: if_splits)
    from sys_frame[OF a(1) wake_inv_but[OF a(2), of "Sem_Q 0"] a(3) _ g this] w
    show ?thesis by (simp add: sys_inv_def wake_but_base)
  qed
qed

section \<open>All calls\<close>

text \<open>Which calls may change a mailbox other than by sending to it and receiving from it.\<close>

fun rebuilds :: "nat \<Rightarrow> sys_call \<Rightarrow> bool" where
  "rebuilds b (Mb_Init b' _ _ _) = (b' = b)"
| "rebuilds b (Mb_Reset b') = (b' = b)"
| "rebuilds b _ = False"

lemma sys_call_inv:
  assumes "sys_inv i s" and "sys_allowed i s c"
  shows "\<exists>out s'. do_sys c s = Inr (out, s') \<and> sys_inv i s' \<and> (\<forall>b. \<not> rebuilds b c \<longrightarrow> mail_effect b out s s')"
proof -
  have ok: ?thesis if "goes_well i s (do_sys c s)" using that unfolding goes_well_def by blast
  note ok0 = ok[OF goes_well_none]
  show ?thesis
  proof (cases c)
    case (Kernel_Call c')
    then show ?thesis
      using kernel_call_inv[OF assms(1), of c'] assms(2) by (intro ok) (auto simp: goes_well_def silent_def mail_effect_def)
  next
    case (Event_Init e flag)
    then show ?thesis using ok goes_well_silent[OF event_init_inv[OF assms(1)]] assms(2) by simp
  next
    case (Event_Send e bits)
    then show ?thesis using ok0 event_send_inv[OF assms(1)] by simp
  next
    case (Event_Recv e bits option timeout)
    then show ?thesis using ok0 event_recv_inv[OF assms(1)] assms(2) by simp
  next
    case (Event_Reset e)
    then show ?thesis using ok0 event_reset_inv[OF assms(1)] by simp
  next
    case (Event_Detach e)
    then show ?thesis using ok goes_well_silent[OF event_detach_inv[OF assms(1)]] by simp
  next
    case (Mb_Init b pool sz flag)
    then show ?thesis
      using mb_init_inv[OF assms(1), of b pool sz flag] assms(2) by (auto simp: silent_def mail_effect_def)
  next
    case (Mb_Send b v timeout)
    then show ?thesis using mb_send_inv[OF assms(1), of timeout b v] assms(2) by auto
  next
    case (Mb_Urgent b v)
    then show ?thesis using mb_urgent_inv[OF assms(1), of b v] by auto
  next
    case (Mb_Recv b timeout)
    then show ?thesis using mb_recv_inv[OF assms(1), of timeout b] assms(2) by auto
  next
    case (Mb_Reset b)
    then show ?thesis using mb_reset_inv[OF assms(1), of b] by auto
  next
    case (Mb_Detach b)
    then show ?thesis using ok goes_well_silent[OF mb_detach_inv[OF assms(1)]] by simp
  next
    case (Mq_Init q nx data msgsz pool_size flag)
    then show ?thesis using ok goes_well_silent[OF mq_init_inv[OF assms(1)]] assms(2) by simp
  next
    case (Mq_Send q buf timeout)
    then show ?thesis using ok0 mq_send_inv[OF assms(1)] assms(2) by simp
  next
    case (Mq_Urgent q buf)
    then show ?thesis using ok0 mq_urgent_inv[OF assms(1)] assms(2) by simp
  next
    case (Mq_Recv q sz timeout)
    then show ?thesis using ok0 mq_recv_inv[OF assms(1)] assms(2) by simp
  next
    case (Mq_Reset q)
    then show ?thesis using ok0 mq_reset_inv[OF assms(1)] by simp
  next
    case (Mq_Detach q)
    then show ?thesis using ok goes_well_silent[OF mq_detach_inv[OF assms(1)]] by simp
  next
    case (Mp_Init p h sz bs)
    then show ?thesis using ok goes_well_silent mp_init_inv[OF assms(1), of p sz bs h] assms(2) by auto
  next
    case (Mp_Alloc p timeout)
    then show ?thesis using ok[OF pool_step_well] mp_alloc_inv[OF assms(1)] assms(2) by simp
  next
    case (Mp_Free p m)
    then show ?thesis using ok[OF pool_step_well] mp_free_inv[OF assms(1)] assms(2) by simp
  next
    case (Mp_Detach p)
    then show ?thesis using ok goes_well_silent mp_detach_inv[OF assms(1), of p] by auto
  next
    case Go_On
    then show ?thesis using ok continue_inv[OF assms(1)] assms(2) by simp
  qed
qed

section \<open>Reachable states\<close>

lemma sys_start_inv:
  assumes "distinct [c, main, timer, i]" and "rtthread_startup main timer i (reset_kernel c) = Inr k"
  shows "sys_inv i (sys_start (os_start k))"
proof -
  let ?s = "sys_start (os_start k)"
  have k: "os_inv i (os_start k)" "lock_nest k = 0" "irq_nest k = 0" "susp k = (\<lambda>_. [])"
    using startup_inv[OF assms(1)] assms(2) by auto
  have f: "base ?s = os_start k" "krn (os_start k) = k" "pending ?s = (\<lambda>_. No_Call)" by (simp_all add: sys_start_def os_start_def)
  have "proc_inv i ?s" using k f by (simp add: proc_inv_def pend_inv_def)
  moreover have "wake_inv ?s" using k(4) f by (simp add: wake_inv_def enough_woken_def)
  moreover have "event_inv ?s e" for e using k(4) f by (simp add: event_inv_def flag_ok_def) (simp add: sys_start_def)
  moreover have "mb_ok (mailbox ?s b)" for b by (simp add: sys_start_def mb_ok_def)
  moreover have "mq_inv ?s q" for q
    by (simp add: mq_inv_def in_hand_def sys_start_def mq_ok_def mq_lists_def mq_nodes_def mq_free_nodes_def)
  moreover have "mp_ok p (mempool ?s p)" for p
    unfolding mp_ok_def by (intro conjI exI[of _ "[]"]) (simp_all add: sys_start_def)
  ultimately show ?thesis by (simp add: sys_inv_def obj_inv_def)
qed

text \<open>What a call does to the blocks of a memory pool.\<close>

lemma same_pools_effect:
  assumes "same_pools s (Inr (out, s'))"
  shows "block_effect p out s s'"
proof (rule block_effect_none)
  show "mempool s' = mempool s" using assms by (simp add: same_pools_def)
  show "block_ops p out = []" using assms by (cases out) (auto simp: same_pools_def)
qed

lemma pool_step_effect: "pool_step i s (Inr (out, s')) \<Longrightarrow> block_effect p out s s'"
  by (simp add: pool_step_def)

lemma continue_blocks:
  assumes "sys_inv i s" and "sys_allowed i s Go_On" and "continue (current (sk s)) s = Inr (out, s')"
  shows "block_effect p out s s'"
proof (cases "pending s (current (sk s))")
  case (Mp_Wait p' timeout start)
  let ?t = "current (sk s)"
  let ?s = "set_pending ?t No_Call s"
  show ?thesis
  proof (cases "error (thr (sk s) ?t) = RT_EOK")
    case True
    have "fits 0 (msg_size (msgq s 0)) (pending s ?t)" using mq_invD(2)[OF sys_invD(6)[OF assms(1)]] .
    then have "time_left timeout start (tick (sk s)) < 0x7FFFFFFF"
      using time_left_ok assms(2) Mp_Wait by simp
    note q = cleared_parts[OF assms(1), of "Mp_Q p'", OF _ _ this]
    have "pool_step i ?s (mp_alloc_loop p' (time_left timeout start (tick (sk s))) ?s)"
      by (intro mp_alloc_loop_inv q) (use Mp_Wait in simp_all)
    moreover have "mp_alloc_loop p' (time_left timeout start (tick (sk s))) ?s = Inr (out, s')"
      using assms(3) Mp_Wait True by (simp add: continue_def mp_alloc_resume_def)
    ultimately show ?thesis using pool_step_effect[of i ?s out s' p] by (simp add: block_effect_def)
  next
    case False
    then show ?thesis using assms(3) Mp_Wait by (auto simp: continue_def mp_alloc_resume_def intro!: block_effect_none)
  qed
qed (use same_pools_effect continue_pools[of s "current (sk s)"] assms(3) in auto)

text \<open>A pool that is not built anew.\<close>

fun builds_pool :: "nat \<Rightarrow> sys_call \<Rightarrow> bool" where
  "builds_pool p (Mp_Init p' _ _ _) = (p' = p)"
| "builds_pool p _ = False"

lemma sys_call_blocks:
  assumes "sys_inv i s" and "sys_allowed i s c" and "do_sys c s = Inr (out, s')" and "\<not> builds_pool p c"
  shows "block_effect p out s s'"
proof (cases "on_pool c")
  case True
  then show ?thesis
  proof (cases c)
    case (Mp_Init p' h sz bs)
    then show ?thesis
      using mp_init_inv[OF assms(1), of p' sz bs h] assms(2-4) by (auto simp: silent_def block_effect_def)
  next
    case (Mp_Alloc p' timeout)
    then show ?thesis using mp_alloc_inv[OF assms(1), of timeout p'] assms(2,3) pool_step_effect by simp
  next
    case (Mp_Free p' m)
    then show ?thesis using mp_free_inv[OF assms(1), of m p'] assms(2,3) pool_step_effect by simp
  next
    case (Mp_Detach p')
    then show ?thesis using mp_detach_inv[OF assms(1), of p'] assms(3) by (auto simp: silent_def block_effect_def)
  next
    case Go_On
    then show ?thesis using continue_blocks[OF assms(1)] assms(2,3) by simp
  qed simp_all
next
  case False
  then show ?thesis using other_call_pools[of c s] assms(3) same_pools_effect by simp
qed

lemma sys_reach_inv: "sys_reach i s \<Longrightarrow> sys_inv i s"
proof (induction rule: sys_reach.induct)
  case (sys_booted c main timer k)
  then show ?case using sys_start_inv by blast
next
  case (sys_next s s')
  then show ?case using sys_call_inv[OF sys_next(3)] by (fastforce elim: sys_stepE)
qed

lemma run_sys_inv:
  assumes "sys_inv i s" and "all_sys_allowed i cs s"
  shows "\<exists>outs s'. run_sys cs s = Inr (outs, s') \<and> sys_inv i s' \<and> length outs = length cs"
  using assms
proof (induction cs arbitrary: s)
  case (Cons c cs)
  obtain out s1 where s1: "do_sys c s = Inr (out, s1)" "sys_inv i s1"
    using sys_call_inv[OF Cons.prems(1), of c] Cons.prems(2) by auto
  then show ?case using Cons.IH[OF s1(2)] Cons.prems(2) by auto
qed simp

end
