(* ===== verification/Messages_Props.thy ===== *)
theory Messages_Props
  imports Messages_Step Kernel_Props
begin

unbundle bit_operations_syntax

text \<open>
  What events, mailboxes, message queues and memory pools promise: no call faults, nothing is lost,
  duplicated or reordered, and no thread is left waiting for what is there.
\<close>

section \<open>A started system\<close>

lemma sys_ready:
  "\<exists>k. rtthread_startup 1 2 3 (reset_kernel 0) = Inr k \<and> sys_reach 3 (sys_start (os_start k)) \<and>
    current k = 2 \<and> susp k = (\<lambda>_. []) \<and> lock_nest k = 0 \<and> irq_nest k = 0 \<and>
    base (sys_start (os_start k)) = os_start k \<and> krn (os_start k) = k"
proof -
  obtain k where k: "rtthread_startup 1 2 3 (reset_kernel 0) = Inr k" "current k = 2"
    "lock_nest k = 0" "irq_nest k = 0" "susp k = (\<lambda>_. [])"
    using startup_inv[of 0 1 2 3] by auto
  moreover have "sys_reach 3 (sys_start (os_start k))" using sys_booted[of 0 1 2 3 k] k(1) by simp
  ultimately show ?thesis by (auto simp: os_start_def sys_start_def)
qed

lemmas mailbox_run_defs = rt_mb_init_def rt_mb_send_wait_def mb_send_loop_def mb_store_def rt_mb_urgent_def
  mb_store_first_def rt_mb_recv_def mb_recv_loop_def mb_fetch_def rt_event_send_def resume_first_def silent_def Let_def
  set_mailbox_def flag_ok_def may_wait_def idle_call_def

text \<open>After that, thread 2 waits for a mail, or for an event.\<close>

lemma sys_waiting_mail:
  "\<exists>k s. rtthread_startup 1 2 3 (reset_kernel 0) = Inr k \<and>
    do_sys (Mb_Recv 0 5) (sys_start (os_start k)) = Inr (Not_Yet, s) \<and> sys_reach 3 s \<and> susp (sk s) (Mb_Recv_Q 0) \<noteq> []"
proof -
  obtain k where k: "rtthread_startup 1 2 3 (reset_kernel 0) = Inr k" "sys_reach 3 (sys_start (os_start k))"
    "current k = 2" "susp k = (\<lambda>_. [])" "lock_nest k = 0" "irq_nest k = 0"
    "base (sys_start (os_start k)) = os_start k" "krn (os_start k) = k" using sys_ready by blast
  let ?s = "sys_start (os_start k)"
  note a = sys_invD[OF sys_reach_inv[OF k(2)]]
  have b: "may_block 3 (base ?s)" using k by (simp add: may_block_def scheduler_available_def)
  have id: "idle_call ?s" by (simp add: idle_call_def sys_start_def)
  have e: "entry (mailbox ?s 0) = 0" "mb_flag (mailbox ?s 0) = RT_IPC_FLAG_FIFO" by (simp_all add: sys_start_def)
  obtain s where s: "wait_in (Mb_Recv_Q 0) RT_IPC_FLAG_FIFO 5 (Mb_Recv_Wait 0 5 (tick (sk ?s))) ?s = Inr (Not_Yet, s)"
    "set (susp (sk s) (Mb_Recv_Q 0)) = insert (current (sk ?s)) (set (susp (sk ?s) (Mb_Recv_Q 0)))"
    using wait_sys[OF a(1) wake_inv_but[OF a(2)] a(3) id _ _ b, of "Mb_Recv_Q 0" 5 RT_IPC_FLAG_FIFO
      "Mb_Recv_Wait 0 5 (tick (sk ?s))"] e by (auto simp: flag_ok_def)
  have d: "do_sys (Mb_Recv 0 5) ?s = Inr (Not_Yet, s)"
    using s(1) b e by (simp add: rt_mb_recv_def mb_recv_loop_def may_block_def)
  moreover have "sys_reach 3 s"
    by (rule sys_next[OF k(2) sys_call[OF _ d]]) (use b id in \<open>simp add: may_wait_def\<close>)
  ultimately show ?thesis using k(1) s(2) by auto
qed

lemma sys_waiting_event:
  "\<exists>k s. rtthread_startup 1 2 3 (reset_kernel 0) = Inr k \<and>
    do_sys (Event_Recv 0 6 RT_EVENT_FLAG_OR 5) (sys_start (os_start k)) = Inr (Not_Yet, s) \<and> sys_reach 3 s \<and>
    2 \<in> set (susp (sk s) (Event_Q 0)) \<and> event_set s 2 = 6 \<and> event_info s 2 = RT_EVENT_FLAG_OR"
proof -
  obtain k where k: "rtthread_startup 1 2 3 (reset_kernel 0) = Inr k" "sys_reach 3 (sys_start (os_start k))"
    "current k = 2" "susp k = (\<lambda>_. [])" "lock_nest k = 0" "irq_nest k = 0"
    "base (sys_start (os_start k)) = os_start k" "krn (os_start k) = k" using sys_ready by blast
  let ?s = "sys_start (os_start k)"
  let ?c = "Event_Recv 0 6 RT_EVENT_FLAG_OR 5"
  note r = sys_reach_inv[OF k(2)]
  have b: "may_block 3 (base ?s)" using k by (simp add: may_block_def scheduler_available_def)
  have al: "sys_allowed 3 ?s ?c" using b k by (simp add: idle_call_def sys_start_def may_wait_def may_block_def)
  let ?s1 = "(set_kernel (set_error 2 RT_EOK (sk ?s)) ?s)\<lparr>event_set := (event_set ?s)(2 := 6), event_info := (event_info ?s)(2 := RT_EVENT_FLAG_OR)\<rparr>"
  have d: "do_sys ?c ?s = wait_in (Event_Q 0) RT_IPC_FLAG_FIFO 5 (Event_Wait 0) ?s1"
    using b k(3,7,8) by (simp add: rt_event_recv_def Let_def may_block_def event_ready_def) (simp add: sys_start_def)
  have id: "idle_call ?s" using al by simp
  have "sys_inv 3 (set_kernel (set_error 2 RT_EOK (sk ?s)) ?s)"
    using error_sys[OF sys_invD(1-3)[OF r] id, of RT_EOK] k(3,7,8) by simp
  then have p: "proc_inv 3 ?s1" by (rule proc_inv_cong[OF sys_invD(1)]) simp_all
  have c: "current (sk ?s1) = 2" "may_block 3 (base ?s1)" "pending ?s1 2 = No_Call"
    using k b id by (simp_all add: set_error_def may_block_def scheduler_available_def idle_call_def)
  obtain k' where k': "do_sys ?c ?s = Inr (Not_Yet, set_pending 2 (Event_Wait 0) (set_kernel k' ?s1))"
    "2 \<in> set (susp k' (Event_Q 0))"
    using wait_in_inv[OF p, of 5 RT_IPC_FLAG_FIFO "Event_Wait 0" "Event_Q 0"] c d by (auto simp: flag_ok_def)
  have "sys_reach 3 (set_pending 2 (Event_Wait 0) (set_kernel k' ?s1))" by (rule sys_next[OF k(2) sys_call[OF al k'(1)]])
  then show ?thesis using k(1) k' by auto
qed

section \<open>Safety\<close>

text \<open>
  C7. Whatever threads and interrupts have done with semaphores, mutexes, events, mailboxes,
  message queues, memory pools and the clock since the system started, every further sequence of calls that
  meet the conditions of \<open>sys_allowed\<close> runs to completion: no assertion fails, no value is stored or fetched
  outside the pool of a mailbox, no node (its link or its data) outside the memory of a message queue is read,
  written or linked, no message is copied past the end of its node, no block outside the memory of a memory pool
  is taken or freed, no null pointer is followed, and the loops end. The conditions: only a thread with the
  scheduler unlocked waits, for less than 0x7FFFFFFF ticks, and it goes on less than \<open>2 ^ 31\<close> ticks after the
  wait began (behind that the assertion on the time that is left can fail); an object is initialised
  when nobody uses it, with memory of the size that is told and room for one block; a message is not
  empty and neither is the buffer for one; only a block that is handed out is freed. An object that was
  detached can be used like one that nobody waits for.
\<close>

theorem messages_never_fault:
  assumes "sys_reach i s" and "all_sys_allowed i cs s"
  shows "\<exists>outs s'. run_sys cs s = Inr (outs, s') \<and> length outs = length cs \<and> sys_reach i s'"
  using assms
proof (induction cs arbitrary: s)
  case (Cons c cs)
  have al: "sys_allowed i s c" using Cons.prems(2) by simp
  obtain out s1 where s1: "do_sys c s = Inr (out, s1)" using sys_call_inv[OF sys_reach_inv[OF Cons.prems(1)] al] by blast
  have "sys_reach i s1" by (rule sys_next[OF Cons.prems(1) sys_call[OF al s1]])
  from Cons.IH[OF this] Cons.prems(2) s1 show ?case by auto
qed simp

theorem messages_never_fault_witness:
  "\<exists>k outs s. rtthread_startup 1 2 3 (reset_kernel 0) = Inr k \<and>
    run_sys [Mb_Init 0 [0, 0] 2 RT_IPC_FLAG_PRIO, Mb_Send 0 7 0, Mb_Urgent 0 9, Mb_Send 0 8 0, Mb_Recv 0 0, Event_Send 1 4]
      (sys_start (os_start k)) = Inr (outs, s) \<and> sys_reach 3 s"
proof -
  obtain k where k: "rtthread_startup 1 2 3 (reset_kernel 0) = Inr k" "sys_reach 3 (sys_start (os_start k))"
    "susp k = (\<lambda>_. [])" "base (sys_start (os_start k)) = os_start k" "krn (os_start k) = k"
    using sys_ready by blast
  define s0 where "s0 = sys_start (os_start k)"
  let ?cs = "[Mb_Init 0 [0, 0] 2 RT_IPC_FLAG_PRIO, Mb_Send 0 7 0, Mb_Urgent 0 9, Mb_Send 0 8 0, Mb_Recv 0 0, Event_Send 1 4]"
  have s0: "susp (sk s0) = (\<lambda>_. [])" "pending s0 = (\<lambda>_. No_Call)" using k by (simp_all add: s0_def sys_start_def)
  have "all_sys_allowed 3 ?cs s0"
    using s0 by (simp add: mailbox_run_defs)
  then show ?thesis using messages_never_fault[OF k(2), of ?cs] k(1) unfolding s0_def by blast
qed

section \<open>Mailboxes\<close>

definition mail_trace :: "nat \<Rightarrow> outcome list \<Rightarrow> u32 queue_op list" where
  "mail_trace b outs = concat (map (mail_ops b) outs)"

lemma run_sys_mails:
  assumes "sys_inv i s" and "all_sys_allowed i cs s" and "run_sys cs s = Inr (outs, s')"
    and "\<And>c. c \<in> set cs \<Longrightarrow> \<not> rebuilds b c"
  shows "replay (mail_trace b outs) (mb_list (mailbox s b)) = Some (mb_list (mailbox s' b))"
  using assms
proof (induction cs arbitrary: s outs)
  case Nil
  then show ?case by (simp add: mail_trace_def)
next
  case (Cons c cs)
  obtain out s1 where s1: "do_sys c s = Inr (out, s1)" "sys_inv i s1" "mail_effect b out s s1"
    using sys_call_inv[OF Cons.prems(1), of c] Cons.prems(2,4) by auto
  obtain outs1 where o: "run_sys cs s1 = Inr (outs1, s')" "outs = out # outs1"
    using Cons.prems(3) s1(1) by (auto simp: bind_res_Inr_iff)
  have "replay (mail_trace b outs1) (mb_list (mailbox s1 b)) = Some (mb_list (mailbox s' b))"
    using Cons.IH[OF s1(2) _ o(1)] Cons.prems(2,4) s1(1) by simp
  then show ?case using s1(3) o(2) by (simp add: mail_trace_def replay_append mail_effect_def)
qed

lemma no_urgent_trace:
  assumes "\<And>v. Urgent_Mail b v \<notin> set outs"
  shows "Pushed x \<notin> set (mail_trace b outs)"
proof
  assume "Pushed x \<in> set (mail_trace b outs)"
  then obtain out where o: "out \<in> set outs" "Pushed x \<in> set (mail_ops b out)" by (auto simp: mail_trace_def)
  then have "out = Urgent_Mail b x" by - (cases out, auto split: if_splits)
  then show False using assms o(1) by blast
qed

text \<open>
  C11. However the calls of all threads and interrupts interleave, and however often a call has
  to wait, a mailbox acts as a list: a mail that was sent is appended, an urgent one is put in
  front, and what a receiver gets is the first mail, which is then gone. Without urgent
  mails every mail comes out once and in the order of sending.
\<close>

theorem mailbox_fifo:
  assumes "sys_reach i s" and "all_sys_allowed i cs s" and "run_sys cs s = Inr (outs, s')"
    and "\<And>c. c \<in> set cs \<Longrightarrow> \<not> rebuilds b c"
  shows "replay (mail_trace b outs) (mb_list (mailbox s b)) = Some (mb_list (mailbox s' b)) \<and>
    ((\<forall>v. Urgent_Mail b v \<notin> set outs) \<longrightarrow>
      mb_list (mailbox s b) @ puts_of (mail_trace b outs) = taken_of (mail_trace b outs) @ mb_list (mailbox s' b))"
proof -
  have r: "replay (mail_trace b outs) (mb_list (mailbox s b)) = Some (mb_list (mailbox s' b))"
    by (rule run_sys_mails[OF sys_reach_inv[OF assms(1)] assms(2-4)])
  then show ?thesis using replay_fifo no_urgent_trace by blast
qed

lemma fresh_mailbox:
  "\<exists>k s. rtthread_startup 1 2 3 (reset_kernel 0) = Inr k \<and>
    run_sys [Mb_Init 0 [0, 0] 2 RT_IPC_FLAG_FIFO] (sys_start (os_start k)) = Inr ([Not_Yet], s) \<and> sys_reach 3 s \<and>
    susp (sk s) = (\<lambda>_. []) \<and> pending s = (\<lambda>_. No_Call) \<and>
    mailbox s 0 = \<lparr>msg_pool = [0, 0], mb_size = 2, entry = 0, in_offset = 0, out_offset = 0, mb_flag = RT_IPC_FLAG_FIFO\<rparr>"
proof -
  obtain k where k: "rtthread_startup 1 2 3 (reset_kernel 0) = Inr k" "sys_reach 3 (sys_start (os_start k))"
    "susp k = (\<lambda>_. [])" "base (sys_start (os_start k)) = os_start k" "krn (os_start k) = k"
    using sys_ready by blast
  let ?s = "sys_start (os_start k)" and ?c = "Mb_Init 0 [0, 0] 2 RT_IPC_FLAG_FIFO"
  have al: "sys_allowed 3 ?s ?c" using k by (simp add: flag_ok_def)
  obtain s where s: "do_sys ?c ?s = Inr (Not_Yet, s)" "susp (sk s) = (\<lambda>_. [])" "pending s = (\<lambda>_. No_Call)"
    "mailbox s 0 = \<lparr>msg_pool = [0, 0], mb_size = 2, entry = 0, in_offset = 0, out_offset = 0, mb_flag = RT_IPC_FLAG_FIFO\<rparr>"
    using k(3-5) by (simp add: mailbox_run_defs fun_upd_idem) (simp add: sys_start_def)
  then show ?thesis using k(1) sys_next[OF k(2) sys_call[OF al s(1)]] by (intro exI[of _ k] exI[of _ s]) simp
qed

theorem mailbox_fifo_witness:
  "\<exists>k s s'. rtthread_startup 1 2 3 (reset_kernel 0) = Inr k \<and>
    run_sys [Mb_Init 0 [0, 0] 2 RT_IPC_FLAG_FIFO] (sys_start (os_start k)) = Inr ([Not_Yet], s) \<and>
    run_sys [Mb_Send 0 7 0, Mb_Urgent 0 9, Mb_Recv 0 0] s = Inr ([Sent_Mail 0 7, Urgent_Mail 0 9, Got_Mail 0 9], s') \<and>
    mb_list (mailbox s' 0) = [7]"
proof -
  obtain k s where s: "rtthread_startup 1 2 3 (reset_kernel 0) = Inr k"
    "run_sys [Mb_Init 0 [0, 0] 2 RT_IPC_FLAG_FIFO] (sys_start (os_start k)) = Inr ([Not_Yet], s)" "sys_reach 3 s"
    "susp (sk s) = (\<lambda>_. [])" "pending s = (\<lambda>_. No_Call)"
    "mailbox s 0 = \<lparr>msg_pool = [0, 0], mb_size = 2, entry = 0, in_offset = 0, out_offset = 0, mb_flag = RT_IPC_FLAG_FIFO\<rparr>"
    using fresh_mailbox by blast
  let ?cs = "[Mb_Send 0 7 0, Mb_Urgent 0 9, Mb_Recv 0 0]"
  have al: "all_sys_allowed 3 ?cs s" using s(4-6) by (simp add: mailbox_run_defs)
  obtain s' where s': "run_sys ?cs s = Inr ([Sent_Mail 0 7, Urgent_Mail 0 9, Got_Mail 0 9], s')"
    using s(4-6) by (simp add: mailbox_run_defs)
  have "replay (mail_trace 0 [Sent_Mail 0 7, Urgent_Mail 0 9, Got_Mail 0 9]) (mb_list (mailbox s 0)) = Some (mb_list (mailbox s' 0))"
    by (rule mailbox_fifo[OF s(3) al s', THEN conjunct1]) auto
  then show ?thesis using s(1,2,6) s' by (auto simp: mail_trace_def mb_list_def ring_slice_def)
qed

text \<open>
  Without waiting, a mail is refused exactly if the mailbox is full, with \<^verbatim>\<open>-RT_EFULL\<close>, and
  a receiver gets none exactly if it is empty, with \<^verbatim>\<open>-RT_ETIMEOUT\<close>; then nothing has changed.
\<close>

theorem mailbox_errors_exact:
  assumes "sys_reach i s" and "idle_call s"
  shows "(rt_mb_send_wait b v 0 s = Inr (Finished (- RT_EFULL), s) \<longleftrightarrow> length (mb_list (mailbox s b)) = mb_size (mailbox s b)) \<and>
    (rt_mb_recv b 0 s = Inr (Finished (- RT_ETIMEOUT), s) \<longleftrightarrow> mb_list (mailbox s b) = []) \<and>
    (length (mb_list (mailbox s b)) < mb_size (mailbox s b) \<longrightarrow> (\<exists>s'. rt_mb_send_wait b v 0 s = Inr (Sent_Mail b v, s'))) \<and>
    (\<forall>x xs. mb_list (mailbox s b) = x # xs \<longrightarrow> (\<exists>s'. rt_mb_recv b 0 s = Inr (Got_Mail b x, s')))"
proof -
  note a = sys_invD[OF sys_reach_inv[OF assms(1)]]
  note ok = a(5)[of b]
  have mw: "may_wait i s 0" by (simp add: may_wait_def)
  have send: "\<exists>s'. rt_mb_send_wait b v 0 s = Inr (Sent_Mail b v, s')" if "entry (mailbox s b) < mb_size (mailbox s b)"
  proof -
    obtain out s' where o: "rt_mb_send_wait b v 0 s = Inr (out, s')"
      using mb_send_inv[OF sys_reach_inv[OF assms(1)] mw] by blast
    then have "out = Sent_Mail b v"
      using mb_store_ok[OF ok that, of v] that
      by (auto simp: rt_mb_send_wait_def mb_send_loop_def Let_def bind_res_Inr_iff)
    then show ?thesis using o by blast
  qed
  have recv: "\<exists>s'. rt_mb_recv b 0 s = Inr (Got_Mail b x, s')" if x: "mb_list (mailbox s b) = x # xs" for x xs
  proof -
    have n: "0 < entry (mailbox s b)" using x length_mb_list[of "mailbox s b"] by simp
    obtain out s' where o: "rt_mb_recv b 0 s = Inr (out, s')"
      using mb_recv_inv[OF sys_reach_inv[OF assms(1)] mw assms(2)] by blast
    then have "out = Got_Mail b x"
      using mb_fetch_ok[OF ok n] x n by (auto simp: rt_mb_recv_def mb_recv_loop_def Let_def bind_res_Inr_iff)
    then show ?thesis using o by blast
  qed
  have "rt_mb_send_wait b v 0 s = Inr (Finished (- RT_EFULL), s) \<longleftrightarrow> entry (mailbox s b) = mb_size (mailbox s b)"
    using send ok by (cases "entry (mailbox s b) = mb_size (mailbox s b)") (auto simp: mb_ok_def rt_mb_send_wait_def)
  moreover have "rt_mb_recv b 0 s = Inr (Finished (- RT_ETIMEOUT), s) \<longleftrightarrow> mb_list (mailbox s b) = []"
    using recv length_mb_list[of "mailbox s b"]
    by (cases "mb_list (mailbox s b)") (auto simp: rt_mb_recv_def)
  ultimately show ?thesis using send recv by simp
qed

theorem mailbox_errors_exact_witness:
  "\<exists>k s. rtthread_startup 1 2 3 (reset_kernel 0) = Inr k \<and>
    run_sys [Mb_Init 0 [0, 0] 2 RT_IPC_FLAG_FIFO] (sys_start (os_start k)) = Inr ([Not_Yet], s) \<and>
    rt_mb_recv 0 0 s = Inr (Finished (- RT_ETIMEOUT), s) \<and> (\<exists>s'. rt_mb_send_wait 0 5 0 s = Inr (Sent_Mail 0 5, s'))"
proof -
  obtain k s where s: "rtthread_startup 1 2 3 (reset_kernel 0) = Inr k"
    "run_sys [Mb_Init 0 [0, 0] 2 RT_IPC_FLAG_FIFO] (sys_start (os_start k)) = Inr ([Not_Yet], s)" "sys_reach 3 s"
    "pending s = (\<lambda>_. No_Call)"
    "mailbox s 0 = \<lparr>msg_pool = [0, 0], mb_size = 2, entry = 0, in_offset = 0, out_offset = 0, mb_flag = RT_IPC_FLAG_FIFO\<rparr>"
    using fresh_mailbox by blast
  have "idle_call s" using s(4) by (simp add: idle_call_def)
  from mailbox_errors_exact[OF s(3) this, of 0 5] s(1,2,5) show ?thesis
    by (auto simp: mb_list_def ring_slice_def)
qed

section \<open>Waking\<close>

text \<open>
  C9. No wake-up is lost: as long as a thread waits in a queue of a mailbox, a message
  queue or a memory pool, for what is there to take (mails, messages, room for a mail, free nodes, free blocks), at least
  as many threads of the same queue have been woken and can run, with the error code
  \<^verbatim>\<open>RT_EOK\<close>, and have yet to go on with their call.
\<close>

theorem no_lost_wakeup:
  assumes "sys_reach i s" and "susp (sk s) q \<noteq> []"
  shows "avail s q \<le> card (woken_in s q) \<and> finite (woken_in s q) \<and>
    (\<forall>t \<in> woken_in s q. stat (thr (sk s) t) \<in> {RT_THREAD_READY, RT_THREAD_RUNNING} \<and> t \<notin> set (susp (sk s) q'))"
proof -
  note a = sys_invD[OF sys_reach_inv[OF assms(1)]]
  have av: "avail s q = 0" if "q \<in> base_queues" using that by (auto simp: base_queues_def)
  have "avail s q \<le> card (woken_in s q)"
    using a(2) av assms(2) by (cases "q \<in> base_queues") (auto simp: wake_inv_def enough_woken_def)
  moreover have "stat (thr (sk s) t) \<in> {RT_THREAD_READY, RT_THREAD_RUNNING} \<and> t \<notin> set (susp (sk s) q')" if "t \<in> woken_in s q" for t
  proof -
    have al: "alive (sk s) t" using that by (rule woken_in_alive)
    have "t \<in> set (susp (sk s) q') \<Longrightarrow> stat (thr (sk s) t) = RT_THREAD_SUSPEND"
      using kinvD(2)[OF os_invD(1)[OF a(7)]] unfolding wait_inv_def by blast
    then show ?thesis using al by (auto simp: alive_def)
  qed
  ultimately show ?thesis using woken_in_finite[OF a(1)] by blast
qed

theorem no_lost_wakeup_witness:
  "\<exists>k s. rtthread_startup 1 2 3 (reset_kernel 0) = Inr k \<and>
    do_sys (Mb_Recv 0 5) (sys_start (os_start k)) = Inr (Not_Yet, s) \<and> susp (sk s) (Mb_Recv_Q 0) \<noteq> [] \<and>
    avail s (Mb_Recv_Q 0) \<le> card (woken_in s (Mb_Recv_Q 0))"
  using sys_waiting_mail no_lost_wakeup[of 3 _ "Mb_Recv_Q 0"] by blast

text \<open>
  C10. No thread is left waiting for an event that is there: what a waiting thread asks for, all
  of its flags or one of them, is not set in the event.
\<close>

theorem event_waiters_not_ready:
  assumes "sys_reach i s" and "t \<in> set (susp (sk s) (Event_Q e))"
  shows "\<not> event_ready (event_set s t) (event_info s t) (ev_set (event s e)) \<and> pending s t = Event_Wait e \<and>
    stat (thr (sk s) t) = RT_THREAD_SUSPEND"
proof -
  note a = sys_invD[OF sys_reach_inv[OF assms(1)]]
  have "waits_in (pending s t) = Some (Event_Q e)" using proc_invD(5)[OF a(1) _ assms(2)] by simp
  then have "pending s t = Event_Wait e" by (cases "pending s t") auto
  moreover have "stat (thr (sk s) t) = RT_THREAD_SUSPEND"
    using kinvD(2)[OF os_invD(1)[OF a(7)]] assms(2) unfolding wait_inv_def by blast
  ultimately show ?thesis using a(4)[of e] assms(2) by (simp add: event_inv_def)
qed

theorem event_waiters_not_ready_witness:
  "\<exists>k s. rtthread_startup 1 2 3 (reset_kernel 0) = Inr k \<and>
    do_sys (Event_Recv 0 6 RT_EVENT_FLAG_OR 5) (sys_start (os_start k)) = Inr (Not_Yet, s) \<and>
    2 \<in> set (susp (sk s) (Event_Q 0)) \<and> \<not> event_ready 6 RT_EVENT_FLAG_OR (ev_set (event s 0))"
proof -
  obtain k s where s: "rtthread_startup 1 2 3 (reset_kernel 0) = Inr k"
    "do_sys (Event_Recv 0 6 RT_EVENT_FLAG_OR 5) (sys_start (os_start k)) = Inr (Not_Yet, s)" "sys_reach 3 s"
    "2 \<in> set (susp (sk s) (Event_Q 0))" "event_set s 2 = 6" "event_info s 2 = RT_EVENT_FLAG_OR"
    using sys_waiting_event by blast
  from event_waiters_not_ready[OF s(3,4)] s show ?thesis by (intro exI[of _ k] exI[of _ s]) simp
qed

section \<open>Message queues\<close>

text \<open>
  C12. No node of a message queue is lost, and none is in two places: at every moment each
  node of the pool is in the queue, free, or in the hands of exactly one thread that copies
  its message; the queue's counter is the number of nodes in it.
\<close>

theorem mq_nodes_partitioned:
  assumes "sys_reach i s"
  shows "distinct (mq_nodes (msgq s q) @ mq_free_nodes (msgq s q)) \<and>
    in_hand s q \<inter> set (mq_nodes (msgq s q) @ mq_free_nodes (msgq s q)) = {} \<and>
    set (mq_nodes (msgq s q) @ mq_free_nodes (msgq s q)) \<union> in_hand s q = {..<max_msgs (msgq s q)} \<and>
    mq_entry (msgq s q) = length (mq_nodes (msgq s q)) \<and>
    (hand q (pending s t) = Some m \<longrightarrow> hand q (pending s t') = Some m \<longrightarrow> t = t')"
proof -
  note mi = sys_invD(6)[OF sys_reach_inv[OF assms], of q]
  have l: "mq_lists (in_hand s q) (msgq s q) (mq_nodes (msgq s q)) (mq_free_nodes (msgq s q))"
    "mq_entry (msgq s q) = length (mq_nodes (msgq s q))" using mq_okD[OF mq_invD(1)[OF mi]] by simp_all
  have "hand q (pending s t) = Some m \<longrightarrow> hand q (pending s t') = Some m \<longrightarrow> t = t'"
    using mq_invD(3)[OF mi] by blast
  then show ?thesis using l unfolding mq_lists_def by blast
qed

lemma fresh_msgq:
  "\<exists>k s. rtthread_startup 1 2 3 (reset_kernel 0) = Inr k \<and>
    run_sys [Mq_Init 0 (\<lambda>_. None) (\<lambda>_. [0, 0, 0, 0]) 4 16 RT_IPC_FLAG_FIFO] (sys_start (os_start k)) = Inr ([Not_Yet], s) \<and>
    sys_reach 3 s \<and> susp (sk s) = (\<lambda>_. []) \<and> pending s = (\<lambda>_. No_Call) \<and>
    msgq s 0 = \<lparr>msg_size = 4, max_msgs = 2, mq_entry = 0, queue_head = None, queue_tail = None, queue_free = Some 1,
      msg_next = (\<lambda>_. None)(1 := Some 0), msg_data = \<lambda>_. [0, 0, 0, 0], mq_flag = RT_IPC_FLAG_FIFO, mq_bytes = 16\<rparr>"
proof -
  obtain k where k: "rtthread_startup 1 2 3 (reset_kernel 0) = Inr k" "sys_reach 3 (sys_start (os_start k))"
    "susp k = (\<lambda>_. [])" "base (sys_start (os_start k)) = os_start k" "krn (os_start k) = k"
    using sys_ready by blast
  let ?s = "sys_start (os_start k)" and ?c = "Mq_Init 0 (\<lambda>_. None) (\<lambda>_. [0, 0, 0, 0]) 4 16 RT_IPC_FLAG_FIFO"
  have al: "sys_allowed 3 ?s ?c" by (simp add: flag_ok_def sys_start_def)
  have n: "unat ((4 + 3 :: u32) AND NOT 3) mod 65536 = 4" "unat (16 :: u32) div (4 + 4) mod 65536 = 2" by simp_all
  have f: "mq_free_list 2 (\<lambda>_. None) = (Some 1, (\<lambda>_. None)(1 := Some 0))" by (simp add: numeral_2_eq_2 fun_upd_idem)
  obtain s where s: "do_sys ?c ?s = Inr (Not_Yet, s)" "susp (sk s) = (\<lambda>_. [])" "pending s = (\<lambda>_. No_Call)"
    "msgq s 0 = \<lparr>msg_size = 4, max_msgs = 2, mq_entry = 0, queue_head = None, queue_tail = None, queue_free = Some 1,
      msg_next = (\<lambda>_. None)(1 := Some 0), msg_data = \<lambda>_. [0, 0, 0, 0], mq_flag = RT_IPC_FLAG_FIFO, mq_bytes = 16\<rparr>"
    using k(3-5) unfolding do_sys.simps rt_mq_init_def n Let_def f
    by (simp add: silent_def fun_upd_idem) (simp add: sys_start_def)
  then show ?thesis using k(1) sys_next[OF k(2) sys_call[OF al s(1)]] by (intro exI[of _ k] exI[of _ s]) simp
qed

theorem mq_nodes_partitioned_witness:
  "\<exists>k s. rtthread_startup 1 2 3 (reset_kernel 0) = Inr k \<and>
    run_sys [Mq_Init 0 (\<lambda>_. None) (\<lambda>_. [0, 0, 0, 0]) 4 16 RT_IPC_FLAG_FIFO] (sys_start (os_start k)) = Inr ([Not_Yet], s) \<and>
    set (mq_nodes (msgq s 0) @ mq_free_nodes (msgq s 0)) \<union> in_hand s 0 = {..<2}"
proof -
  obtain k s where s: "rtthread_startup 1 2 3 (reset_kernel 0) = Inr k"
    "run_sys [Mq_Init 0 (\<lambda>_. None) (\<lambda>_. [0, 0, 0, 0]) 4 16 RT_IPC_FLAG_FIFO] (sys_start (os_start k)) = Inr ([Not_Yet], s)"
    "sys_reach 3 s" "max_msgs (msgq s 0) = 2" using fresh_msgq by force
  from mq_nodes_partitioned[OF s(3), of 0] s show ?thesis by auto
qed

text \<open>
  C36. Resetting a message queue ends: the loop that releases the messages needs no more rounds
  than the queue has nodes, and leaves every node that was in the queue free.
\<close>

theorem mq_reset_terminates:
  assumes "sys_reach i s"
  shows "\<exists>mq. mq_release_all (max_msgs (msgq s q)) (msgq s q) = Inr mq \<and> mq_nodes mq = [] \<and>
    set (mq_free_nodes mq) = set (mq_nodes (msgq s q)) \<union> set (mq_free_nodes (msgq s q)) \<and>
    length (mq_free_nodes mq) = mq_entry (msgq s q) + length (mq_free_nodes (msgq s q))"
proof -
  let ?mq = "msgq s q" and ?R = "in_hand s q"
  note ok = mq_invD(1)[OF sys_invD(6)[OF sys_reach_inv[OF assms], of q]]
  note l = mq_okD[OF ok]
  have "length (mq_nodes ?mq) \<le> max_msgs ?mq" using l by simp
  then obtain mq fs where mq: "mq_release_all (max_msgs ?mq) ?mq = Inr mq" "mq_lists ?R mq [] fs" "max_msgs mq = max_msgs ?mq"
    using release_all_lists[OF l(1)] by blast
  have "set fs \<inter> ?R = {}" "set fs \<union> ?R = {..<max_msgs ?mq}" "distinct fs"
    "set (mq_nodes ?mq @ mq_free_nodes ?mq) \<inter> ?R = {}" "set (mq_nodes ?mq @ mq_free_nodes ?mq) \<union> ?R = {..<max_msgs ?mq}"
    using mq(2,3) l(1) by (auto simp: mq_lists_def)
  then have e: "set fs = set (mq_nodes ?mq @ mq_free_nodes ?mq)" by blast
  moreover have "length fs = length (mq_nodes ?mq @ mq_free_nodes ?mq)"
    using e l(1) \<open>distinct fs\<close> distinct_card by (metis mq_lists_def)
  ultimately show ?thesis using mq mq_lists_nodes[OF mq(2)] l(2) by simp
qed

theorem mq_reset_terminates_witness:
  "\<exists>k s mq. rtthread_startup 1 2 3 (reset_kernel 0) = Inr k \<and>
    run_sys [Mq_Init 0 (\<lambda>_. None) (\<lambda>_. [0, 0, 0, 0]) 4 16 RT_IPC_FLAG_FIFO] (sys_start (os_start k)) = Inr ([Not_Yet], s) \<and>
    mq_release_all 2 (msgq s 0) = Inr mq \<and> mq_nodes mq = []"
proof -
  obtain k s where s: "rtthread_startup 1 2 3 (reset_kernel 0) = Inr k"
    "run_sys [Mq_Init 0 (\<lambda>_. None) (\<lambda>_. [0, 0, 0, 0]) 4 16 RT_IPC_FLAG_FIFO] (sys_start (os_start k)) = Inr ([Not_Yet], s)"
    "sys_reach 3 s" "max_msgs (msgq s 0) = 2" using fresh_msgq by force
  from mq_reset_terminates[OF s(3), of 0] s show ?thesis by auto
qed

text \<open>
  What is sent through an empty message queue that nobody waits for arrives: the receiver
  gets the bytes that were sent, and the queue is empty again.
\<close>

theorem mq_send_recv_roundtrip:
  assumes "sys_reach i s" and "idle_call s" and "susp (sk s) (Mq_Recv_Q q) = []" and "susp (sk s) (Mq_Send_Q q) = []"
    and "mq_entry (msgq s q) = 0" and "mq_free_nodes (msgq s q) \<noteq> []" and "buf \<noteq> []" and "length buf \<le> msg_size (msgq s q)"
  shows "\<exists>s'. run_sys [Mq_Send q buf 0, Go_On, Mq_Recv q (length buf) 0, Go_On] s
      = Inr ([Not_Yet, Sent_Message q buf, Not_Yet, Got_Message q buf], s') \<and> mq_nodes (msgq s' q) = [] \<and>
    set (mq_free_nodes (msgq s' q)) = set (mq_free_nodes (msgq s q))"
proof -
  let ?t = "current (sk s)"
  note ok = mq_invD(1)[OF sys_invD(6)[OF sys_reach_inv[OF assms(1)], of q]]
  have id: "pending s ?t = No_Call" using assms(2) by (simp add: idle_call_def)
  obtain m where m: "queue_free (msgq s q) = Some m" using queue_free_None[OF ok] assms(6) by auto
  define m1 where "m1 = mq_unlink_free m (msgq s q)"
  note u = unlink_free_ok[OF ok m, folded m1_def]
  have m1: "msg_size m1 = msg_size (msgq s q)" "mq_entry m1 = 0" "mq_nodes m1 = []"
    using u assms(5) mq_okD(2)[OF ok] by (simp_all add: m1_def mq_unlink_free_def)
  have l: "length buf \<le> msg_size m1" using assms(8) m1(1) by simp
  obtain c where c: "mq_copy m buf m1 = Inr c" "mq_ok (insert m (in_hand s q)) c" "mq_nodes c = []"
    "mq_free_nodes c = mq_free_nodes m1" "msg_data c m = buf @ drop (length buf) (msg_data m1 m)" "msg_size c = msg_size m1"
    "mq_entry c = 0"
    using copy_ok[OF u[THEN conjunct1] l, of m] m1 by auto
  obtain m2 where m2: "mq_link_tail m c = Inr (True, m2)" "mq_ok (in_hand s q) m2" "mq_nodes m2 = [m]"
    "mq_free_nodes m2 = mq_free_nodes m1" "msg_data m2 m = buf @ drop (length buf) (msg_data m1 m)"
    "msg_size m2 = msg_size (msgq s q)" "mq_entry m2 = 1"
    using link_tail_ok[OF c(2), of m] c u m1 by auto
  obtain m3 where m3: "queue_head m2 = Some m" "m3 = (mq_unlink_head m m2)\<lparr>mq_entry := mq_entry (mq_unlink_head m m2) - 1\<rparr>"
    "mq_ok (insert m (in_hand s q)) m3" "mq_nodes m3 = []" "mq_free_nodes m3 = mq_free_nodes m1"
    using unlink_head_ok[OF m2(2)] m2(3,4,7) by (auto simp: Let_def mq_unlink_head_def)
  have d: "msg_data m3 m = msg_data m2 m" "msg_size m3 = msg_size m2" by (simp_all add: m3(2) mq_unlink_head_def)
  note f = link_free_ok[OF m3(3), of m]
  have n: "mq_node m (msgq s q)" "mq_node m m2" "mq_node m m3" "length (msg_data m3 m) = msg_size m3"
    using free_node[OF ok m] head_node[OF m2(2) m3(1)] hand_node[OF m3(3)] mq_okD(1)[OF m3(3)] by (auto simp: mq_lists_def)
  define s1 where "s1 = set_pending ?t (Mq_Copy_In q m buf False) (set_msgq q m1 s)"
  define s2 where "s2 = set_msgq q m2 (set_pending ?t No_Call s1)"
  define s3 where "s3 = set_pending ?t (Mq_Copy_Out q m (length buf)) (set_msgq q m3 s2)"
  define s4 where "s4 = set_msgq q (mq_link_free m m3) (set_pending ?t No_Call s3)"
  have g: "sk s1 = sk s" "sk s2 = sk s" "sk s3 = sk s" "pending s1 ?t = Mq_Copy_In q m buf False" "pending s2 ?t = No_Call"
    "pending s3 ?t = Mq_Copy_Out q m (length buf)" "msgq s1 q = m1" "msgq s2 q = m2" "msgq s3 q = m3" "msgq s4 q = mq_link_free m m3"
    by (simp_all add: s1_def s2_def s3_def s4_def)
  have "do_sys (Mq_Send q buf 0) s = Inr (Not_Yet, s1)"
    using assms(7,8) m n(1) by (simp add: rt_mq_send_wait_def mq_send_loop_def Let_def s1_def m1_def)
  moreover have "do_sys Go_On s1 = Inr (Sent_Message q buf, s2)"
    using g c(1) m2(1) assms(3) by (simp add: continue_def mq_copy_in_def Let_def s2_def resume_first_def)
  moreover have "do_sys (Mq_Recv q (length buf) 0) s2 = Inr (Not_Yet, s3)"
    using g m2(7) m3(1,2) n(2) assms(7) by (simp add: rt_mq_recv_def mq_recv_loop_def Let_def s3_def)
  moreover have "do_sys Go_On s3 = Inr (Got_Message q buf, s4)"
    using g d n(3,4) m2(5,6) assms(4,8) by (simp add: continue_def mq_copy_out_def Let_def s4_def resume_first_def)
  moreover have "mq_nodes (msgq s4 q) = []" "set (mq_free_nodes (msgq s4 q)) = set (mq_free_nodes (msgq s q))"
    using g(10) f m3(4,5) u by auto
  ultimately show ?thesis by simp
qed

theorem mq_send_recv_roundtrip_witness:
  "\<exists>k s s'. rtthread_startup 1 2 3 (reset_kernel 0) = Inr k \<and>
    run_sys [Mq_Init 0 (\<lambda>_. None) (\<lambda>_. [0, 0, 0, 0]) 4 16 RT_IPC_FLAG_FIFO] (sys_start (os_start k)) = Inr ([Not_Yet], s) \<and>
    run_sys [Mq_Send 0 [1, 2, 3] 0, Go_On, Mq_Recv 0 3 0, Go_On] s
      = Inr ([Not_Yet, Sent_Message 0 [1, 2, 3], Not_Yet, Got_Message 0 [1, 2, 3]], s')"
proof -
  obtain k s where s: "rtthread_startup 1 2 3 (reset_kernel 0) = Inr k"
    "run_sys [Mq_Init 0 (\<lambda>_. None) (\<lambda>_. [0, 0, 0, 0]) 4 16 RT_IPC_FLAG_FIFO] (sys_start (os_start k)) = Inr ([Not_Yet], s)"
    "sys_reach 3 s" "susp (sk s) = (\<lambda>_. [])" "pending s = (\<lambda>_. No_Call)"
    "msgq s 0 = \<lparr>msg_size = 4, max_msgs = 2, mq_entry = 0, queue_head = None, queue_tail = None, queue_free = Some 1,
      msg_next = (\<lambda>_. None)(1 := Some 0), msg_data = \<lambda>_. [0, 0, 0, 0], mq_flag = RT_IPC_FLAG_FIFO, mq_bytes = 16\<rparr>"
    using fresh_msgq by blast
  have "mq_free_nodes (msgq s 0) \<noteq> []" using s(6) by (simp add: mq_free_nodes_def numeral_2_eq_2)
  moreover have "idle_call s" using s(5) by (simp add: idle_call_def)
  ultimately obtain s' where "run_sys [Mq_Send 0 [1, 2, 3] 0, Go_On, Mq_Recv 0 (length [1, 2, 3 :: u8]) 0, Go_On] s
      = Inr ([Not_Yet, Sent_Message 0 [1, 2, 3], Not_Yet, Got_Message 0 [1, 2, 3]], s')"
    using mq_send_recv_roundtrip[OF s(3), of 0 "[1, 2, 3]"] s(4,6) by auto
  moreover have "length [1, 2, 3 :: u8] = 3" by simp
  ultimately show ?thesis using s(1,2) by metis
qed

end
