(* ===== verification/Mempool_Props.thy ===== *)
theory Mempool_Props
  imports Messages_Props
begin

unbundle bit_operations_syntax

text \<open>
  What memory pools promise: a block has one holder at a time, and no block is lost. And what they do not:
  waiting threads are served in the reverse of the order in which they came.
\<close>

section \<open>Blocks\<close>

definition block_trace :: "nat \<Rightarrow> outcome list \<Rightarrow> block_op list" where
  "block_trace p outs = concat (map (block_ops p) outs)"

lemma replay_blocks_append: "replay_blocks (xs @ ys) B = Option.bind (replay_blocks xs B) (replay_blocks ys)"
  by (induction xs B rule: replay_blocks.induct) auto

text \<open>A block that is handed out stays so until it is returned.\<close>

lemma replay_keeps: "replay_blocks ops B = Some B' \<Longrightarrow> m \<in> B \<Longrightarrow> Returned_Block m \<notin> set ops \<Longrightarrow> m \<in> B'"
  by (induction ops B rule: replay_blocks.induct) (auto split: if_splits)

lemma replay_retaken:
  assumes "replay_blocks (xs @ Taken_Block m # ys @ Taken_Block m # zs) B = Some B'"
  shows "Returned_Block m \<in> set ys"
proof (rule ccontr)
  assume n: "Returned_Block m \<notin> set ys"
  obtain C where C: "replay_blocks (Taken_Block m # ys @ Taken_Block m # zs) C = Some B'"
    using assms by (auto simp: replay_blocks_append bind_eq_Some_conv)
  then obtain D where D: "replay_blocks ys (insert m C) = Some D" "replay_blocks (Taken_Block m # zs) D = Some B'"
    by (auto simp: replay_blocks_append bind_eq_Some_conv split: if_splits)
  have "m \<in> D" using replay_keeps[OF D(1)] n by simp
  then show False using D(2) by simp
qed

lemma run_sys_blocks:
  assumes "sys_inv i s" and "all_sys_allowed i cs s" and "run_sys cs s = Inr (outs, s')"
    and "\<And>c. c \<in> set cs \<Longrightarrow> \<not> builds_pool p c"
  shows "replay_blocks (block_trace p outs) (used s p) = Some (used s' p) \<and> sys_inv i s' \<and>
    block_total_count (mempool s' p) = block_total_count (mempool s p)"
  using assms
proof (induction cs arbitrary: s outs)
  case Nil
  then show ?case by (simp add: block_trace_def)
next
  case (Cons c cs)
  obtain out s1 where s1: "do_sys c s = Inr (out, s1)" "sys_inv i s1"
    using sys_call_inv[OF Cons.prems(1), of c] Cons.prems(2) by auto
  have e: "block_effect p out s s1"
    using sys_call_blocks[OF Cons.prems(1) _ s1(1)] Cons.prems(2,4) by simp
  obtain outs1 where o: "run_sys cs s1 = Inr (outs1, s')" "outs = out # outs1"
    using Cons.prems(3) s1(1) by (auto simp: bind_res_Inr_iff)
  have "replay_blocks (block_trace p outs1) (used s1 p) = Some (used s' p) \<and> sys_inv i s' \<and>
    block_total_count (mempool s' p) = block_total_count (mempool s1 p)"
    using Cons.IH[OF s1(2) _ o(1)] Cons.prems(2,4) s1(1) by simp
  then show ?case using e o(2) by (simp add: block_trace_def replay_blocks_append block_effect_def)
qed

text \<open>
  C13. However the calls of all threads and interrupts interleave, and however often an allocation has
  to wait, no block of a memory pool has two holders and none is lost: a block that is handed out
  twice was returned in between, the blocks handed out are those of the pool that were taken and
  not yet returned, and together with the free ones they are all blocks of the pool.
\<close>

theorem blocks_exclusive:
  assumes "sys_reach i s" and "all_sys_allowed i cs s" and "run_sys cs s = Inr (outs, s')"
    and "\<And>c. c \<in> set cs \<Longrightarrow> \<not> builds_pool p c"
  shows "replay_blocks (block_trace p outs) (mp_used p (mempool s p)) = Some (mp_used p (mempool s' p)) \<and>
    card (mp_used p (mempool s' p)) + block_free_count (mempool s' p) = block_total_count (mempool s p) \<and>
    (\<forall>xs ys zs m. block_trace p outs = xs @ Taken_Block m # ys @ Taken_Block m # zs \<longrightarrow> Returned_Block m \<in> set ys)"
proof -
  have r: "replay_blocks (block_trace p outs) (used s p) = Some (used s' p)" "sys_inv i s'"
    "block_total_count (mempool s' p) = block_total_count (mempool s p)"
    using run_sys_blocks[OF sys_reach_inv[OF assms(1)] assms(2-4)] by simp_all
  have "card (used s' p) + block_free_count (mempool s' p) = block_total_count (mempool s p)"
    using mp_free_card(1)[OF sys_invD(8)[OF r(2)]] r(3) by simp
  then show ?thesis using r(1) replay_retaken by metis
qed

lemmas pool_run_defs = rt_mp_alloc_def mp_alloc_loop_def mp_take_def rt_mp_free_def mp_put_def set_mempool_def
  Let_def may_wait_def idle_call_def mp_used_def mp_block_def

text \<open>A pool of two blocks in a started system.\<close>

lemma fresh_pool:
  "\<exists>k s. rtthread_startup 1 2 3 (reset_kernel 0) = Inr k \<and>
    run_sys [Mp_Init 0 (\<lambda>_. Free_Link None) 16 4] (sys_start (os_start k)) = Inr ([Not_Yet], s) \<and> sys_reach 3 s \<and>
    susp (sk s) = (\<lambda>_. []) \<and> pending s = (\<lambda>_. No_Call) \<and> may_block 3 (base s) \<and>
    mempool s 0 = \<lparr>block_total_count = 2, block_free_count = 2, block_list = Some 0,
      block_head = (\<lambda>_. Free_Link None)(0 := Free_Link (Some 1)), mp_stride = 8, mp_bytes = 16\<rparr>"
proof -
  obtain k where k: "rtthread_startup 1 2 3 (reset_kernel 0) = Inr k" "sys_reach 3 (sys_start (os_start k))"
    "current k = 2" "susp k = (\<lambda>_. [])" "lock_nest k = 0" "irq_nest k = 0"
    "base (sys_start (os_start k)) = os_start k" "krn (os_start k) = k" using sys_ready by blast
  let ?s = "sys_start (os_start k)" and ?c = "Mp_Init 0 (\<lambda>_. Free_Link None) 16 4"
  have al: "sys_allowed 3 ?s ?c" using k by (simp add: mp_fits_def)
  have "(link_blocks 2 (\<lambda>_. Free_Link None))(1 := Free_Link None) = (\<lambda>_. Free_Link None)(0 := Free_Link (Some 1))"
    by (auto simp: link_blocks_head)
  then have m: "mp_make (\<lambda>_. Free_Link None) 16 4 = Inr \<lparr>block_total_count = 2, block_free_count = 2, block_list = Some 0,
      block_head = (\<lambda>_. Free_Link None)(0 := Free_Link (Some 1)), mp_stride = 8, mp_bytes = 16\<rparr>" by (simp add: mp_make_def)
  obtain s where s: "do_sys ?c ?s = Inr (Not_Yet, s)" "susp (sk s) = (\<lambda>_. [])" "pending s = (\<lambda>_. No_Call)" "base s = base ?s"
    "mempool s 0 = \<lparr>block_total_count = 2, block_free_count = 2, block_list = Some 0,
      block_head = (\<lambda>_. Free_Link None)(0 := Free_Link (Some 1)), mp_stride = 8, mp_bytes = 16\<rparr>"
    using k(4,7,8) by (simp add: rt_mp_init_def m silent_def set_mempool_def fun_upd_idem) (simp add: sys_start_def)
  have "may_block 3 (base s)" using k s(4) by (simp add: may_block_def scheduler_available_def)
  then show ?thesis using k(1) s sys_next[OF k(2) sys_call[OF al s(1)]] by (intro exI[of _ k] exI[of _ s]) simp
qed

theorem blocks_exclusive_witness:
  "\<exists>k s s'. rtthread_startup 1 2 3 (reset_kernel 0) = Inr k \<and>
    run_sys [Mp_Init 0 (\<lambda>_. Free_Link None) 16 4] (sys_start (os_start k)) = Inr ([Not_Yet], s) \<and>
    run_sys [Mp_Alloc 0 0, Mp_Alloc 0 0, Mp_Free 0 0, Mp_Alloc 0 0] s
      = Inr ([Got_Block 0 0, Got_Block 0 1, Freed_Block 0 0, Got_Block 0 0], s') \<and>
    mp_used 0 (mempool s' 0) = {0, 1}"
proof -
  obtain k s where s: "rtthread_startup 1 2 3 (reset_kernel 0) = Inr k"
    "run_sys [Mp_Init 0 (\<lambda>_. Free_Link None) 16 4] (sys_start (os_start k)) = Inr ([Not_Yet], s)" "sys_reach 3 s"
    "susp (sk s) = (\<lambda>_. [])" "pending s = (\<lambda>_. No_Call)"
    "mempool s 0 = \<lparr>block_total_count = 2, block_free_count = 2, block_list = Some 0,
      block_head = (\<lambda>_. Free_Link None)(0 := Free_Link (Some 1)), mp_stride = 8, mp_bytes = 16\<rparr>" using fresh_pool by blast
  let ?cs = "[Mp_Alloc 0 0, Mp_Alloc 0 0, Mp_Free 0 0, Mp_Alloc 0 0]"
  let ?outs = "[Got_Block 0 0, Got_Block 0 1, Freed_Block 0 0, Got_Block 0 0]"
  obtain sa where sa: "do_sys (Mp_Alloc 0 0) s = Inr (Got_Block 0 0, sa)" "base sa = base s" "pending sa = pending s"
    "mempool sa 0 = \<lparr>block_total_count = 2, block_free_count = 1, block_list = Some 1,
      block_head = (\<lambda>_. Free_Link None)(0 := In_Pool 0), mp_stride = 8, mp_bytes = 16\<rparr>"
    using s(6) by (simp add: pool_run_defs)
  obtain sb where sb: "do_sys (Mp_Alloc 0 0) sa = Inr (Got_Block 0 1, sb)" "base sb = base s" "pending sb = pending s"
    "mempool sb 0 = \<lparr>block_total_count = 2, block_free_count = 0, block_list = None,
      block_head = (\<lambda>_. Free_Link None)(0 := In_Pool 0, 1 := In_Pool 0), mp_stride = 8, mp_bytes = 16\<rparr>"
    using sa by (simp add: pool_run_defs)
  obtain sc where sc: "do_sys (Mp_Free 0 0) sb = Inr (Freed_Block 0 0, sc)" "pending sc = pending s"
    "block_free_count (mempool sc 0) = 1" "block_list (mempool sc 0) = Some 0" "block_head (mempool sc 0) 0 = Free_Link None"
    "mp_block 0 (mempool sc 0)"
    using sb s(4) by (simp add: pool_run_defs)
  obtain s' where sd: "do_sys (Mp_Alloc 0 0) sc = Inr (Got_Block 0 0, s')"
    using sc(3-6) by (simp add: rt_mp_alloc_def mp_alloc_loop_def mp_take_def Let_def)
  have s': "run_sys ?cs s = Inr (?outs, s')" using sa(1) sb(1) sc(1) sd by simp
  have "sys_allowed 3 x (Mp_Alloc 0 0)" if "pending x = pending s" for x
    using that s(5) by (simp add: may_wait_def idle_call_def)
  moreover have "sys_allowed 3 sb (Mp_Free 0 0)" using sb(4) by (simp add: mp_used_def)
  ultimately have al: "all_sys_allowed 3 ?cs s" using sa(1,3) sb(1,3) sc(1,2) sd by simp
  have "replay_blocks (block_trace 0 ?outs) (mp_used 0 (mempool s 0)) = Some (mp_used 0 (mempool s' 0))"
    by (rule blocks_exclusive[OF s(3) al s', THEN conjunct1]) auto
  moreover have "mp_used 0 (mempool s 0) = {}" using s(6) by (auto simp: mp_used_def)
  ultimately have "mp_used 0 (mempool s' 0) = {0, 1}" by (simp add: block_trace_def split: if_splits) (simp add: insert_commute)
  then show ?thesis using s(1,2) s' by blast
qed

section \<open>Waiting threads\<close>

lemma woken_first:
  assumes "os_inv i w" and "susp (krn w) q = t # ts" and "woken t (krn w) k"
  shows "susp k = (susp (krn w))(q := ts)"
proof (rule ext)
  fix q'
  have "t \<in> set (susp (krn w) q)" using assms(2) by simp
  then have "distinct (t # ts)" "q' \<noteq> q \<Longrightarrow> t \<notin> set (susp (krn w) q')"
    using kinvD(2)[OF os_invD(1)[OF assms(1)]] assms(2) unfolding wait_inv_def by metis+
  then show "susp k q' = ((susp (krn w))(q := ts)) q'"
    using assms(2,3) by (cases "q' = q") (auto simp: woken_def removeAll_id)
qed

text \<open>
  C14. The threads that wait for a block are not served in the order of their arrival: a thread that finds
  no block joins the front of the queue, so the block that is freed next wakes it, while every
  thread that waited before it still waits, in an unchanged order.
\<close>

theorem last_waiter_served_first:
  assumes "sys_reach i s" and "idle_call s" and "may_block i (base s)" and "time \<noteq> 0" and "time < 0x7FFFFFFF"
    and "block_free_count (mempool s p) = 0" and "m \<in> mp_used p (mempool s p)"
  shows "\<exists>s1 s2. do_sys (Mp_Alloc p time) s = Inr (Not_Yet, s1) \<and>
    susp (sk s1) (Mp_Q p) = current (sk s) # susp (sk s) (Mp_Q p) \<and>
    do_sys (Mp_Free p m) s1 = Inr (Freed_Block p m, s2) \<and>
    susp (sk s2) (Mp_Q p) = susp (sk s) (Mp_Q p) \<and> alive (sk s2) (current (sk s)) \<and>
    block_list (mempool s2 p) = Some m"
proof -
  let ?t = "current (sk s)" and ?p = "Mp_Wait p time (tick (sk s))"
  note a = sys_invD[OF sys_reach_inv[OF assms(1)]]
  have id: "pending s ?t = No_Call" using assms(2) by (simp add: idle_call_def)
  have irq: "irq_nest (sk s) = 0" using proc_invD(6)[OF a(1)] .
  obtain k where k: "wait_first (Mp_Q p) time ?p s = Inr (Not_Yet, set_pending ?t ?p (set_kernel k s))"
    "proc_inv i (set_pending ?t ?p (set_kernel k s))" "susp k = (susp (sk s))(Mp_Q p := ?t # susp (sk s) (Mp_Q p))"
    using wait_first_inv[OF a(1) assms(5,3) id, of ?p "Mp_Q p"] by auto
  let ?s1 = "set_pending ?t ?p (set_kernel k s)"
  have d1: "do_sys (Mp_Alloc p time) s = Inr (Not_Yet, ?s1)"
    using k(1) assms(4,6) irq by (simp add: rt_mp_alloc_def mp_alloc_loop_def Let_def)
  have q: "susp (sk ?s1) (Mp_Q p) = ?t # susp (sk s) (Mp_Q p)" using k(3) by simp
  note o = proc_invD(1)[OF k(2)]
  obtain k2 where k2: "bind_res (ipc_list_resume (Mp_Q p) (sk ?s1)) rt_schedule = Inr k2" "woken ?t (sk ?s1) k2"
    using resume_first_inv[OF os_invD(1,2)[OF o] q] by blast
  let ?s2 = "set_kernel k2 (set_mempool p (mp_put m (mempool ?s1 p)) ?s1)"
  have u: "m \<in> used ?s1 p" using assms(7) by simp
  have "do_sys (Mp_Free p m) ?s1 = Inr (Freed_Block p m, ?s2)"
    using mp_free_eq[OF o u] a(8)[of p] k2(1) q by (simp add: resume_first_def)
  moreover have "susp k2 (Mp_Q p) = susp (sk s) (Mp_Q p)" using woken_first[OF o q k2(2)] by simp
  moreover have "alive k2 ?t" using k2(2) by (simp add: woken_def)
  ultimately show ?thesis using d1 q by (intro exI[of _ ?s1] exI[of _ ?s2]) (simp add: mp_put_def)
qed

theorem last_waiter_served_first_witness:
  "\<exists>k s s1 s2. rtthread_startup 1 2 3 (reset_kernel 0) = Inr k \<and>
    run_sys [Mp_Init 0 (\<lambda>_. Free_Link None) 16 4, Mp_Alloc 0 0, Mp_Alloc 0 0] (sys_start (os_start k))
      = Inr ([Not_Yet, Got_Block 0 0, Got_Block 0 1], s) \<and>
    do_sys (Mp_Alloc 0 5) s = Inr (Not_Yet, s1) \<and> do_sys (Mp_Free 0 1) s1 = Inr (Freed_Block 0 1, s2) \<and>
    susp (sk s1) (Mp_Q 0) = [current (sk s)] \<and> susp (sk s2) (Mp_Q 0) = []"
proof -
  obtain k s0 where s0: "rtthread_startup 1 2 3 (reset_kernel 0) = Inr k"
    "do_sys (Mp_Init 0 (\<lambda>_. Free_Link None) 16 4) (sys_start (os_start k)) = Inr (Not_Yet, s0)" "sys_reach 3 s0"
    "susp (sk s0) = (\<lambda>_. [])" "pending s0 = (\<lambda>_. No_Call)" "may_block 3 (base s0)"
    "mempool s0 0 = \<lparr>block_total_count = 2, block_free_count = 2, block_list = Some 0,
      block_head = (\<lambda>_. Free_Link None)(0 := Free_Link (Some 1)), mp_stride = 8, mp_bytes = 16\<rparr>"
    using fresh_pool by (auto simp: bind_res_Inr_iff)
  obtain sa where sa: "do_sys (Mp_Alloc 0 0) s0 = Inr (Got_Block 0 0, sa)" "base sa = base s0" "pending sa = pending s0"
    "mempool sa 0 = \<lparr>block_total_count = 2, block_free_count = 1, block_list = Some 1,
      block_head = (\<lambda>_. Free_Link None)(0 := In_Pool 0), mp_stride = 8, mp_bytes = 16\<rparr>"
    using s0(7) by (simp add: pool_run_defs)
  obtain s where s: "do_sys (Mp_Alloc 0 0) sa = Inr (Got_Block 0 1, s)" "base s = base s0" "pending s = pending s0"
    "block_free_count (mempool s 0) = 0" "block_total_count (mempool s 0) = 2" "block_head (mempool s 0) 1 = In_Pool 0"
    using sa by (simp add: pool_run_defs)
  have "sys_allowed 3 x (Mp_Alloc 0 0)" if "pending x = (\<lambda>_. No_Call)" for x
    using that by (simp add: may_wait_def idle_call_def)
  then have "sys_reach 3 s"
    using sys_next[OF sys_next[OF s0(3) sys_call[OF _ sa(1)]] sys_call[OF _ s(1)]] s0(5) sa(3) by simp
  moreover have "idle_call s" "may_block 3 (base s)" "1 \<in> mp_used 0 (mempool s 0)"
    using s s0(5,6) by (simp_all add: idle_call_def mp_used_def)
  ultimately obtain s1 s2 where "do_sys (Mp_Alloc 0 5) s = Inr (Not_Yet, s1)"
    "susp (sk s1) (Mp_Q 0) = current (sk s) # susp (sk s) (Mp_Q 0)" "do_sys (Mp_Free 0 1) s1 = Inr (Freed_Block 0 1, s2)"
    "susp (sk s2) (Mp_Q 0) = susp (sk s) (Mp_Q 0)"
    using last_waiter_served_first[of 3 s 5 0 1] s(4) by auto
  moreover have "susp (sk s) (Mp_Q 0) = []" using s(2) s0(4) by simp
  moreover have "run_sys [Mp_Init 0 (\<lambda>_. Free_Link None) 16 4, Mp_Alloc 0 0, Mp_Alloc 0 0] (sys_start (os_start k))
      = Inr ([Not_Yet, Got_Block 0 0, Got_Block 0 1], s)" using s0(2) sa(1) s(1) by simp
  ultimately show ?thesis using s0(1) by auto
qed

end
