(* ===== verification/Smem.thy ===== *)
theory Smem
  imports Prelude
begin

text \<open>
  The system heap (\<^verbatim>\<open>rt-thread/src/mem.c\<close>, \<^verbatim>\<open>rt_malloc\<close> and its relatives in \<^verbatim>\<open>kservice.c\<close>). Every
  block starts with a header; the headers are a store from offsets into the heap to items,
  which the code links by the offsets of the next and the previous block. The user data are
  a second store: the code never writes a header into the data of a live block. A pointer is
  its offset from the start of the heap. The block headers have 12 bytes, addresses and sizes
  are 32-bit, and everything is aligned to 4 bytes.
\<close>

section \<open>Data\<close>

text \<open>
  The field \<^verbatim>\<open>pool_ptr\<close>: null, or the address of the heap object with the lowest bit saying
  whether the block is used.
\<close>

datatype pool_ptr = Pool_Null | Mem_Freed | Mem_Used

record rt_small_mem_item =
  pool :: pool_ptr
  item_next :: nat
  item_prev :: nat

record rt_small_mem =
  items :: "nat \<Rightarrow> rt_small_mem_item"
  heap_end :: nat
  lfree :: nat
  mem_size_aligned :: nat
  mem_used :: nat
  mem_max :: nat
  bytes :: "nat \<Rightarrow> u8"

abbreviation (input) SIZEOF_STRUCT_MEM :: nat where "SIZEOF_STRUCT_MEM \<equiv> 12"
abbreviation (input) MIN_SIZE_ALIGNED :: nat where "MIN_SIZE_ALIGNED \<equiv> 12"

definition rt_align :: "u32 \<Rightarrow> u32" where
  "rt_align sz = (sz + 3) AND NOT 3"

definition rt_align_down :: "u32 \<Rightarrow> u32" where
  "rt_align_down sz = sz AND NOT 3"

text \<open>Subtraction of 32-bit offsets.\<close>

definition usub :: "nat \<Rightarrow> nat \<Rightarrow> nat" where
  "usub a b = (a + 2 ^ 32 - b) mod 2 ^ 32"

definition item_is_used :: "rt_small_mem \<Rightarrow> nat \<Rightarrow> bool" where
  "item_is_used h p \<longleftrightarrow> pool (items h p) = Mem_Used"

definition upd_item :: "nat \<Rightarrow> (rt_small_mem_item \<Rightarrow> rt_small_mem_item) \<Rightarrow> rt_small_mem \<Rightarrow> rt_small_mem" where
  "upd_item p f h = h\<lparr>items := (items h)(p := f (items h p))\<rparr>"

section \<open>Initialisation\<close>

text \<open>
  The heap object itself, of 56 bytes, lies at the start of the memory. The result is the
  address of the heap and its state, or \<open>None\<close> if the memory is too small.
\<close>

definition rt_smem_init :: "u32 \<Rightarrow> u32 \<Rightarrow> (nat \<Rightarrow> rt_small_mem_item) \<Rightarrow> (nat \<Rightarrow> u8) \<Rightarrow> (u32 \<times> rt_small_mem) option" where
  "rt_smem_init begin_addr sz mem data =
     (let small_mem = rt_align begin_addr;
          start_addr = small_mem + 56;
          begin_align = rt_align start_addr;
          end_align = rt_align_down (begin_addr + sz)
      in if end_align > 24 \<and> end_align - 24 \<ge> start_addr
         then let mem_size = unat (end_align - begin_align - 24);
                  e = mem_size + SIZEOF_STRUCT_MEM
              in Some (begin_align,
                \<lparr>items = mem(0 := \<lparr>pool = Mem_Freed, item_next = e, item_prev = 0\<rparr>,
                              e := \<lparr>pool = Mem_Used, item_next = e, item_prev = e\<rparr>),
                 heap_end = e, lfree = 0, mem_size_aligned = mem_size, mem_used = 0, mem_max = 0, bytes = data\<rparr>)
         else None)"

section \<open>Allocation\<close>

text \<open>
  The loops follow the links of the headers; the fuel bounds the number of blocks they
  visit. Running out of it stands for a loop that does not end.
\<close>

fun smem_find :: "nat \<Rightarrow> rt_small_mem \<Rightarrow> nat \<Rightarrow> nat \<Rightarrow> nat option res" where
  "smem_find 0 h sz ptr = Inl Would_Wait"
| "smem_find (Suc n) h sz ptr =
     (if ptr \<le> usub (mem_size_aligned h) sz
      then if \<not> item_is_used h ptr \<and> usub (item_next (items h ptr)) (ptr + SIZEOF_STRUCT_MEM) \<ge> sz
           then Inr (Some ptr)
           else smem_find n h sz (item_next (items h ptr))
      else Inr None)"

fun next_free :: "nat \<Rightarrow> rt_small_mem \<Rightarrow> nat \<Rightarrow> nat res" where
  "next_free 0 h p = Inl Would_Wait"
| "next_free (Suc n) h p =
     (if item_is_used h p \<and> p \<noteq> heap_end h then next_free n h (item_next (items h p)) else Inr p)"

definition count_used :: "nat \<Rightarrow> rt_small_mem \<Rightarrow> rt_small_mem" where
  "count_used n h = (let u = mem_used h + n in h\<lparr>mem_used := u, mem_max := if mem_max h < u then u else mem_max h\<rparr>)"

text \<open>A new free block in the rest of the block at \<open>ptr\<close>, of which \<open>sz\<close> bytes stay.\<close>

definition split_item :: "nat \<Rightarrow> nat \<Rightarrow> rt_small_mem \<Rightarrow> rt_small_mem" where
  "split_item ptr sz h =
     (let ptr2 = ptr + SIZEOF_STRUCT_MEM + sz;
          nxt = item_next (items h ptr);
          h1 = upd_item ptr2 (\<lambda>_. \<lparr>pool = Mem_Freed, item_next = nxt, item_prev = ptr\<rparr>) h;
          h2 = upd_item ptr (\<lambda>m. m\<lparr>item_next := ptr2\<rparr>) h1
      in if nxt \<noteq> mem_size_aligned h + SIZEOF_STRUCT_MEM then upd_item nxt (\<lambda>m. m\<lparr>item_prev := ptr2\<rparr>) h2 else h2)"

text \<open>The block at \<open>ptr\<close> is taken, after it was split if the rest is worth it.\<close>

definition smem_take :: "nat \<Rightarrow> nat \<Rightarrow> rt_small_mem \<Rightarrow> (nat option \<times> rt_small_mem) res" where
  "smem_take ptr sz h =
     (let nxt = item_next (items h ptr);
          h1 = (if usub nxt (ptr + SIZEOF_STRUCT_MEM) \<ge> sz + SIZEOF_STRUCT_MEM + MIN_SIZE_ALIGNED
                then count_used (sz + SIZEOF_STRUCT_MEM) (split_item ptr sz h)
                else count_used (usub nxt ptr) h);
          h2 = upd_item ptr (\<lambda>m. m\<lparr>pool := Mem_Used\<rparr>) h1
      in bind_res
          (if ptr = lfree h2
           then bind_res (next_free (heap_end h2 + 1) h2 (lfree h2)) (\<lambda>p.
                  if p = heap_end h2 \<or> \<not> item_is_used h2 p then Inr (h2\<lparr>lfree := p\<rparr>) else Inl Assert_Failed)
           else Inr h2) (\<lambda>h3.
         if ptr + SIZEOF_STRUCT_MEM + sz \<le> heap_end h3 \<and> (ptr + SIZEOF_STRUCT_MEM) mod 4 = 0 \<and> ptr mod 4 = 0
         then Inr (Some (ptr + SIZEOF_STRUCT_MEM), h3) else Inl Assert_Failed))"

definition request_size :: "u32 \<Rightarrow> nat" where
  "request_size sz = (let s = unat (rt_align sz) in if s < MIN_SIZE_ALIGNED then MIN_SIZE_ALIGNED else s)"

definition rt_smem_alloc :: "u32 \<Rightarrow> rt_small_mem \<Rightarrow> (nat option \<times> rt_small_mem) res" where
  "rt_smem_alloc sz h =
     (if sz = 0 then Inr (None, h)
      else let s = request_size sz in
        if s > mem_size_aligned h then Inr (None, h)
        else bind_res (smem_find (heap_end h + 1) h s (lfree h)) (\<lambda>r.
          case r of None \<Rightarrow> Inr (None, h) | Some ptr \<Rightarrow> smem_take ptr s h))"

section \<open>Release\<close>

definition plug_forward :: "nat \<Rightarrow> rt_small_mem \<Rightarrow> rt_small_mem" where
  "plug_forward mem m =
     (let nmem = item_next (items m mem) in
      if mem \<noteq> nmem \<and> \<not> item_is_used m nmem \<and> nmem \<noteq> heap_end m
      then let m1 = (if lfree m = nmem then m\<lparr>lfree := mem\<rparr> else m);
               m2 = upd_item nmem (\<lambda>i. i\<lparr>pool := Pool_Null\<rparr>) m1;
               m3 = upd_item mem (\<lambda>i. i\<lparr>item_next := item_next (items m2 nmem)\<rparr>) m2
           in upd_item (item_next (items m3 nmem)) (\<lambda>i. i\<lparr>item_prev := mem\<rparr>) m3
      else m)"

definition plug_backward :: "nat \<Rightarrow> rt_small_mem \<Rightarrow> rt_small_mem" where
  "plug_backward mem m =
     (let pmem = item_prev (items m mem) in
      if pmem \<noteq> mem \<and> \<not> item_is_used m pmem
      then let m1 = (if lfree m = mem then m\<lparr>lfree := pmem\<rparr> else m);
               m2 = upd_item mem (\<lambda>i. i\<lparr>pool := Pool_Null\<rparr>) m1;
               m3 = upd_item pmem (\<lambda>i. i\<lparr>item_next := item_next (items m2 mem)\<rparr>) m2
           in upd_item (item_next (items m3 mem)) (\<lambda>i. i\<lparr>item_prev := pmem\<rparr>) m3
      else m)"

definition plug_holes :: "nat \<Rightarrow> rt_small_mem \<Rightarrow> rt_small_mem res" where
  "plug_holes mem m =
     (if mem < heap_end m then Inr (plug_backward mem (plug_forward mem m)) else Inl Assert_Failed)"

definition rt_smem_free :: "nat option \<Rightarrow> rt_small_mem \<Rightarrow> rt_small_mem res" where
  "rt_smem_free rmem h =
     (case rmem of None \<Rightarrow> Inr h
      | Some r \<Rightarrow>
          if r mod 4 \<noteq> 0 then Inl Assert_Failed
          else if r < SIZEOF_STRUCT_MEM then Inl Out_Of_Bounds
          else let mem = r - SIZEOF_STRUCT_MEM; nxt = item_next (items h mem) in
            if item_is_used h mem \<and> r < heap_end h \<and> pool (items h nxt) \<noteq> Pool_Null
            then let h1 = upd_item mem (\<lambda>i. i\<lparr>pool := Mem_Freed\<rparr>) h;
                     h2 = (if mem < lfree h1 then h1\<lparr>lfree := mem\<rparr> else h1)
                 in plug_holes mem (h2\<lparr>mem_used := usub (mem_used h2) (usub nxt mem)\<rparr>)
            else Inl Assert_Failed)"

section \<open>Resizing\<close>

definition copy_bytes :: "nat \<Rightarrow> nat \<Rightarrow> nat \<Rightarrow> rt_small_mem \<Rightarrow> rt_small_mem" where
  "copy_bytes dst src n h =
     h\<lparr>bytes := \<lambda>x. if dst \<le> x \<and> x < dst + n then bytes h (src + (x - dst)) else bytes h x\<rparr>"

definition rt_smem_realloc :: "nat option \<Rightarrow> u32 \<Rightarrow> rt_small_mem \<Rightarrow> (nat option \<times> rt_small_mem) res" where
  "rt_smem_realloc rmem newsize0 h =
     (let newsize = rt_align newsize0; n = unat newsize in
      if n > mem_size_aligned h then Inr (None, h)
      else if n = 0 then bind_res (rt_smem_free rmem h) (\<lambda>h1. Inr (None, h1))
      else case rmem of None \<Rightarrow> rt_smem_alloc newsize h
      | Some r \<Rightarrow>
          if r mod 4 \<noteq> 0 \<or> r \<ge> heap_end h then Inl Assert_Failed
          else if r < SIZEOF_STRUCT_MEM then Inl Out_Of_Bounds
          else let ptr = r - SIZEOF_STRUCT_MEM; nxt = item_next (items h ptr);
                   sz = usub (usub nxt ptr) SIZEOF_STRUCT_MEM
          in if sz = n then Inr (rmem, h)
             else if n + SIZEOF_STRUCT_MEM + MIN_SIZE_ALIGNED < sz
             then let ptr2 = ptr + SIZEOF_STRUCT_MEM + n;
                      h1 = split_item ptr n (h\<lparr>mem_used := usub (mem_used h) (usub sz n)\<rparr>);
                      h2 = (if ptr2 < lfree h1 then h1\<lparr>lfree := ptr2\<rparr> else h1)
                  in bind_res (plug_holes ptr2 h2) (\<lambda>h3. Inr (rmem, h3))
             else bind_res (rt_smem_alloc newsize h) (\<lambda>(nmem, h1).
               case nmem of None \<Rightarrow> Inr (None, h1)
               | Some q \<Rightarrow> bind_res (rt_smem_free rmem (copy_bytes q r (min sz n) h1)) (\<lambda>h2. Inr (nmem, h2))))"

text \<open>\<^verbatim>\<open>rt_calloc\<close>: the product of the sizes is a 32-bit number.\<close>

definition rt_calloc :: "u32 \<Rightarrow> u32 \<Rightarrow> rt_small_mem \<Rightarrow> (nat option \<times> rt_small_mem) res" where
  "rt_calloc count sz h =
     bind_res (rt_smem_alloc (count * sz) h) (\<lambda>(p, h1).
       case p of None \<Rightarrow> Inr (None, h1)
       | Some q \<Rightarrow> Inr (p, h1\<lparr>bytes := \<lambda>x. if q \<le> x \<and> x < q + unat (count * sz) then 0 else bytes h1 x\<rparr>))"

end
