(* ===== verification/Smem_Inv.thy ===== *)
theory Smem_Inv
  imports Smem
begin

text \<open>
  The heap as a list of blocks. The headers of a well-formed heap describe a list of used and
  free blocks that fill it without a gap; no two free blocks are neighbours, \<^verbatim>\<open>lfree\<close> is the
  first free one and \<^verbatim>\<open>used\<close> counts the bytes of the used ones. Allocation, release and
  resizing refine first fit and merging on these lists.
\<close>

section \<open>Lists of blocks\<close>

text \<open>The size of the user data, and whether the block is used.\<close>

type_synonym block = "nat \<times> bool"

definition bsize :: "block \<Rightarrow> nat" where
  "bsize b = SIZEOF_STRUCT_MEM + fst b"

definition off :: "block list \<Rightarrow> nat" where
  "off bs = sum_list (map bsize bs)"

lemma off_simps [simp]: "off [] = 0" "off (b # bs) = bsize b + off bs" "off (as @ bs) = off as + off bs"
  by (simp_all add: off_def)

lemma bsize_pos: "12 \<le> bsize b" "bsize (n, u) = 12 + n" "0 < bsize b"
  by (simp_all add: bsize_def)

lemma off_length: "length bs \<le> off bs"
  by (induction bs) (auto simp: bsize_def)

lemma off_member: "b \<in> set bs \<Longrightarrow> bsize b \<le> off bs"
  by (induction bs) auto

text \<open>Where the headers of the blocks lie and what they say; \<open>pv\<close> is the block before.\<close>

fun blocks :: "(nat \<Rightarrow> rt_small_mem_item) \<Rightarrow> nat \<Rightarrow> nat \<Rightarrow> block list \<Rightarrow> bool" where
  "blocks m pv p [] \<longleftrightarrow> True"
| "blocks m pv p (b # bs) \<longleftrightarrow>
     m p = \<lparr>pool = if snd b then Mem_Used else Mem_Freed, item_next = p + bsize b, item_prev = pv\<rparr> \<and>
     blocks m p (p + bsize b) bs"

text \<open>The last block of a list that starts at \<open>p\<close>.\<close>

fun last_block :: "nat \<Rightarrow> nat \<Rightarrow> block list \<Rightarrow> nat" where
  "last_block pv p [] = pv"
| "last_block pv p (b # bs) = last_block p (p + bsize b) bs"

lemma last_block_snoc [simp]: "last_block pv p (bs @ [b]) = p + off bs"
  by (induction bs arbitrary: pv p) simp_all

lemma blocks_append:
  "blocks m pv p (as @ bs) \<longleftrightarrow> blocks m pv p as \<and> blocks m (last_block pv p as) (p + off as) bs"
  by (induction as arbitrary: pv p) (simp_all add: add.assoc)

lemma blocks_frame:
  assumes "\<And>x. p \<le> x \<Longrightarrow> x < p + off bs \<Longrightarrow> m' x = m x"
  shows "blocks m' pv p bs = blocks m pv p bs"
  using assms
proof (induction bs arbitrary: pv p)
  case (Cons b bs)
  have "m' p = m p" using Cons.prems[of p] bsize_pos(3)[of b] by simp
  moreover have "blocks m' p (p + bsize b) bs = blocks m p (p + bsize b) bs"
    by (rule Cons.IH) (use Cons.prems in auto)
  ultimately show ?case by simp
qed simp

text \<open>No two free blocks side by side.\<close>

fun coalesced :: "block list \<Rightarrow> bool" where
  "coalesced (a # b # bs) \<longleftrightarrow> (snd a \<or> snd b) \<and> coalesced (b # bs)"
| "coalesced _ \<longleftrightarrow> True"

lemma coalesced_append:
  "coalesced (as @ bs) \<longleftrightarrow> coalesced as \<and> coalesced bs \<and> (as \<noteq> [] \<longrightarrow> bs \<noteq> [] \<longrightarrow> snd (last as) \<or> snd (hd bs))"
proof (induction as)
  case (Cons a as)
  then show ?case by (cases as; cases bs) auto
qed simp

definition used_bytes :: "block list \<Rightarrow> nat" where
  "used_bytes bs = off (filter snd bs)"

lemma used_bytes_simps [simp]:
  "used_bytes [] = 0" "used_bytes (b # bs) = (if snd b then bsize b else 0) + used_bytes bs"
  "used_bytes (as @ bs) = used_bytes as + used_bytes bs"
  by (simp_all add: used_bytes_def)

lemma used_bytes_le: "used_bytes bs \<le> off bs"
  by (induction bs) auto

text \<open>A used block has room for something.\<close>

definition sized :: "block list \<Rightarrow> bool" where
  "sized bs \<longleftrightarrow> (\<forall>b \<in> set bs. snd b \<longrightarrow> 0 < fst b)"

lemma sized_simps [simp]:
  "sized []" "sized (b # bs) \<longleftrightarrow> (snd b \<longrightarrow> 0 < fst b) \<and> sized bs" "sized (as @ bs) \<longleftrightarrow> sized as \<and> sized bs"
  by (auto simp: sized_def)

text \<open>A heap that represents a list of blocks.\<close>

definition smem_repr :: "rt_small_mem \<Rightarrow> block list \<Rightarrow> bool" where
  "smem_repr h bs \<longleftrightarrow> blocks (items h) 0 0 bs \<and> bs \<noteq> [] \<and> heap_end h = off bs \<and>
     heap_end h = mem_size_aligned h + SIZEOF_STRUCT_MEM \<and> heap_end h < 2 ^ 32 \<and>
     pool (items h (off bs)) = Mem_Used \<and> lfree h = off (takeWhile snd bs) \<and>
     mem_used h = used_bytes bs \<and> (\<forall>b \<in> set bs. fst b mod 4 = 0) \<and> coalesced bs \<and> sized bs"

lemma smem_reprD:
  assumes "smem_repr h bs"
  shows "blocks (items h) 0 0 bs" "bs \<noteq> []" "heap_end h = off bs" "heap_end h = mem_size_aligned h + 12"
    "heap_end h < 2 ^ 32" "pool (items h (off bs)) = Mem_Used" "lfree h = off (takeWhile snd bs)"
    "mem_used h = used_bytes bs" "b \<in> set bs \<Longrightarrow> fst b mod 4 = 0" "coalesced bs" "sized bs"
  using assms by (simp_all add: smem_repr_def)

lemma off_mod: "\<forall>b \<in> set bs. fst b mod 4 = 0 \<Longrightarrow> off bs mod 4 = 0"
proof (induction bs)
  case (Cons b bs)
  then have "fst b mod 4 = 0" "off bs mod 4 = 0" by auto
  then show ?case unfolding bsize_def off_simps by presburger
qed simp

lemma usub_eq: "b \<le> a \<Longrightarrow> a < 2 ^ 32 \<Longrightarrow> usub a b = a - b"
  by (simp add: usub_def mod_if)

section \<open>Alignment\<close>

lemma and_not_3: "unat ((x :: u32) AND NOT 3) = unat x - unat x mod 4"
proof -
  have "(3 :: u32) = mask 2" by (simp add: mask_eq_exp_minus_1)
  then have a: "x AND 3 = take_bit 2 x" by (simp add: take_bit_eq_mask)
  have "x = (x AND NOT 3) OR (x AND 3)" by (simp add: bit.conj_disj_distrib[symmetric])
  also have "\<dots> = (x AND NOT 3) + (x AND 3)"
    by (rule disjunctive_add_eq_or[symmetric]) (simp add: ac_simps)
  finally have e: "x AND NOT 3 = x - take_bit 2 x" using a by (metis add_diff_cancel_right')
  have t: "unat (take_bit 2 x) = unat x mod 4" by (simp add: unat_mod_distrib take_bit_eq_mod)
  then have "take_bit 2 x \<le> x" by (simp add: word_le_nat_alt)
  then show ?thesis unfolding e using t by (simp add: unat_sub)
qed

text \<open>Sizes within three bytes of the top of the range are rounded to zero.\<close>

lemma rt_align_unat:
  "unat (rt_align n) = (if unat n \<le> 0xFFFFFFFC then 4 * ((unat n + 3) div 4) else 0)"
proof -
  have u: "unat (n + 3) = (unat n + 3) mod 2 ^ 32" by (simp add: unat_word_ariths)
  have lt: "unat n < 2 ^ 32" using unsigned_less[of n] by simp
  show ?thesis
  proof (cases "unat n \<le> 0xFFFFFFFC")
    case True
    then show ?thesis
      unfolding rt_align_def and_not_3 u by (simp add: minus_mod_eq_mult_div)
  next
    case False
    then have "unat n \<in> {0xFFFFFFFD, 0xFFFFFFFE, 0xFFFFFFFF}" using lt by auto
    then show ?thesis unfolding rt_align_def and_not_3 u by auto
  qed
qed

lemma rt_align_mod: "unat (rt_align n) mod 4 = 0"
  by (simp add: rt_align_unat)

section \<open>First fit\<close>

fun first_fit :: "nat \<Rightarrow> block list \<Rightarrow> (nat \<times> block list) option" where
  "first_fit n [] = None"
| "first_fit n (b # bs) =
     (if \<not> snd b \<and> n \<le> fst b
      then Some (0, if n + 24 \<le> fst b then (n, True) # (fst b - n - 12, False) # bs else (fst b, True) # bs)
      else map_option (\<lambda>(p, bs'). (bsize b + p, b # bs')) (first_fit n bs))"

lemma first_fit_None: "first_fit n bs = None \<longleftrightarrow> (\<forall>b \<in> set bs. snd b \<or> fst b < n)"
  by (induction bs) auto

text \<open>The block that is chosen and what becomes of it.\<close>

definition taken :: "nat \<Rightarrow> nat \<Rightarrow> block list" where
  "taken n s = (if n + 24 \<le> s then [(n, True), (s - n - 12, False)] else [(s, True)])"

lemma first_fit_Some:
  assumes "first_fit n bs = Some (p, bs')"
  shows "\<exists>as s cs. bs = as @ (s, False) # cs \<and> p = off as \<and> n \<le> s \<and> bs' = as @ taken n s @ cs \<and>
    (\<forall>b \<in> set as. snd b \<or> fst b < n)"
  using assms
proof (induction bs arbitrary: p bs')
  case (Cons b bs)
  show ?case
  proof (cases "\<not> snd b \<and> n \<le> fst b")
    case True
    then show ?thesis using Cons.prems by (intro exI[of _ "[]"] exI[of _ "fst b"] exI[of _ bs])
        (cases b, auto simp: taken_def)
  next
    case False
    then obtain q cs' where q: "first_fit n bs = Some (q, cs')" "p = bsize b + q" "bs' = b # cs'"
      using Cons.prems by auto
    from Cons.IH[OF q(1)] obtain as s cs where
      "bs = as @ (s, False) # cs" "q = off as" "n \<le> s" "cs' = as @ taken n s @ cs" "\<forall>b \<in> set as. snd b \<or> fst b < n"
      by blast
    then show ?thesis using q False by (intro exI[of _ "b # as"] exI[of _ s] exI[of _ cs]) auto
  qed
qed simp

lemma first_fit_used_prefix:
  "\<forall>b \<in> set us. snd b \<Longrightarrow> first_fit n (us @ bs) =
     (case first_fit n bs of None \<Rightarrow> None | Some (p, bs') \<Rightarrow> Some (off us + p, us @ bs'))"
proof (induction us)
  case (Cons u us)
  then show ?case by (cases "first_fit n bs") (auto simp: add.assoc)
qed (simp split: option.split)

section \<open>The loops\<close>

lemma blocks_at:
  assumes "blocks m pv p (as @ b # cs)"
  shows "m (p + off as) = \<lparr>pool = if snd b then Mem_Used else Mem_Freed, item_next = p + off as + bsize b,
    item_prev = last_block pv p as\<rparr>" "blocks m (p + off as) (p + off as + bsize b) cs" "blocks m pv p as"
  using assms by (simp_all add: blocks_append)

lemma smem_find_fit:
  assumes "smem_repr h (as @ rest)" and "n \<le> mem_size_aligned h" and "length rest < fuel"
  shows "smem_find fuel h n (off as) = Inr (map_option (\<lambda>(p, _). off as + p) (first_fit n rest))"
  using assms
proof (induction rest arbitrary: as fuel)
  case Nil
  then obtain f where "fuel = Suc f" by (cases fuel) auto
  moreover have "\<not> off as \<le> usub (mem_size_aligned h) n"
    using Nil.prems(2) smem_reprD(3-5)[OF Nil.prems(1)] by (simp add: usub_eq)
  ultimately show ?case by simp
next
  case (Cons b rest)
  note r = smem_reprD[OF Cons.prems(1)]
  obtain f where f: "fuel = Suc f" using Cons.prems(3) by (cases fuel) auto
  have i: "items h (off as) = \<lparr>pool = if snd b then Mem_Used else Mem_Freed, item_next = off as + bsize b,
      item_prev = last_block 0 0 as\<rparr>" using blocks_at(1)[OF r(1)] by simp
  have e: "usub (mem_size_aligned h) n = mem_size_aligned h - n" "usub (off as + bsize b) (off as + 12) = fst b"
    using r(3,4,5) Cons.prems(2) by (simp_all add: usub_eq bsize_def)
  have IH: "smem_find f h n (off (as @ [b])) = Inr (map_option (\<lambda>(p, _). off (as @ [b]) + p) (first_fit n rest))"
    using Cons.IH[of "as @ [b]" f] Cons.prems f by simp
  show ?case
  proof (cases "off as \<le> mem_size_aligned h - n")
    case True
    then show ?thesis using IH i e f
      by (cases "first_fit n rest") (auto simp: item_is_used_def add.assoc)
  next
    case False
    have "fst c < n" if "c \<in> set (b # rest)" for c
      using off_member[OF that] r(3,4) False by (simp add: bsize_def)
    then have "first_fit n (b # rest) = None" unfolding first_fit_None by auto
    then show ?thesis using False e f by simp
  qed
qed

lemma next_free_first:
  assumes "blocks (items h) pv p bs" and "heap_end h = p + off bs" and "length bs < fuel"
  shows "next_free fuel h p = Inr (p + off (takeWhile snd bs))"
  using assms
proof (induction bs arbitrary: pv p fuel)
  case Nil
  then show ?case by (cases fuel) simp_all
next
  case (Cons b bs)
  then obtain f where f: "fuel = Suc f" by (cases fuel) auto
  have "p \<noteq> heap_end h" using Cons.prems(2) bsize_pos(3)[of b] by simp
  then show ?case
    using Cons.IH[of p "p + bsize b" f] Cons.prems f by (auto simp: item_is_used_def add.assoc)
qed

section \<open>Splitting a block\<close>

lemma blocks_set_prev:
  assumes "blocks m pv q cs" and "cs \<noteq> []"
  shows "blocks (m(q := (m q)\<lparr>item_prev := v\<rparr>)) v q cs"
proof -
  obtain c cs' where c: "cs = c # cs'" using assms(2) by (cases cs) auto
  have "blocks (m(q := (m q)\<lparr>item_prev := v\<rparr>)) q (q + bsize c) cs' = blocks m q (q + bsize c) cs'"
    by (rule blocks_frame) (use bsize_pos(3)[of c] in auto)
  then show ?thesis using assms(1) c by simp
qed

text \<open>The parts of a heap around one block, and the way back.\<close>

lemma blocks_around:
  "blocks m pv p (as @ b # cs) \<longleftrightarrow> blocks m pv p as \<and>
     m (p + off as) = \<lparr>pool = if snd b then Mem_Used else Mem_Freed, item_next = p + off as + bsize b,
       item_prev = last_block pv p as\<rparr> \<and>
     blocks m (p + off as) (p + off as + bsize b) cs"
  by (auto simp: blocks_append)

lemma split_item_blocks:
  assumes "blocks (items h) 0 0 (as @ (s, u) # cs)" and "n + 12 \<le> s"
    and "mem_size_aligned h + 12 = off (as @ (s, u) # cs)"
  shows "blocks (items (split_item (off as) n h)) 0 0 (as @ (n, u) # (s - n - 12, False) # cs)"
    and "off (as @ (s, u) # cs) \<le> x \<Longrightarrow> items (split_item (off as) n h) x = items h x"
proof -
  let ?m = "items h"
  let ?p = "off as"
  let ?p2 = "?p + 12 + n"
  let ?q = "?p + 12 + s"
  note b = assms(1)[unfolded blocks_around, simplified, unfolded bsize_def, simplified]
  define m2 where "m2 = ?m(?p2 := \<lparr>pool = Mem_Freed, item_next = ?q, item_prev = ?p\<rparr>,
    ?p := (?m ?p)\<lparr>item_next := ?p2\<rparr>)"
  define m3 where "m3 = (if cs = [] then m2 else m2(?q := (m2 ?q)\<lparr>item_prev := ?p2\<rparr>))"
  have lt: "?p < ?p2" "?p2 < ?q" using assms(2) by auto
  have e: "?q \<noteq> mem_size_aligned h + 12 \<longleftrightarrow> cs \<noteq> []"
    using assms(3) bsize_pos(3) by (cases cs) (auto simp: bsize_def)
  have it: "items (split_item ?p n h) = m3"
    using b e lt by (auto simp: split_item_def Let_def upd_item_def m2_def m3_def add.assoc)
  have "blocks m3 0 0 as = blocks ?m 0 0 as"
    by (rule blocks_frame) (use lt in \<open>auto simp: m3_def m2_def\<close>)
  moreover have "blocks m2 ?p ?q cs = blocks ?m ?p ?q cs"
    by (rule blocks_frame) (use lt in \<open>auto simp: m2_def\<close>)
  then have "blocks m3 ?p2 ?q cs" using b blocks_set_prev[of m2 ?p ?q cs ?p2] by (auto simp: m3_def add.assoc)
  moreover have "m3 ?p = (?m ?p)\<lparr>item_next := ?p2\<rparr>" "m3 ?p2 = \<lparr>pool = Mem_Freed, item_next = ?q, item_prev = ?p\<rparr>"
    using lt by (auto simp: m3_def m2_def)
  ultimately show "blocks (items (split_item ?p n h)) 0 0 (as @ (n, u) # (s - n - 12, False) # cs)"
    unfolding it blocks_around using b assms(2) by (simp add: bsize_def add.assoc)
  show "off (as @ (s, u) # cs) \<le> x \<Longrightarrow> items (split_item ?p n h) x = items h x"
    unfolding it using lt bsize_pos(3) by (cases cs) (auto simp: m3_def m2_def bsize_def)
qed

section \<open>Allocation\<close>

lemma off_prefix_eq:
  assumes "off (takeWhile P (as @ b # cs)) = off as" and "\<not> P b"
  shows "takeWhile P as = as"
proof (rule ccontr)
  assume a: "takeWhile P as \<noteq> as"
  then have "\<exists>x \<in> set as. \<not> P x" using takeWhile_eq_all_conv by blast
  then have "takeWhile P (as @ b # cs) = takeWhile P as" by (auto simp: takeWhile_append1)
  moreover obtain x xs where "as = takeWhile P as @ x # xs"
    using a by (metis append_Nil2 list.exhaust takeWhile_dropWhile_id)
  then have "off as = off (takeWhile P as) + (bsize x + off xs)" by (metis off_simps(2,3))
  ultimately show False using assms(1) bsize_pos(3)[of x] by simp
qed

lemma takeWhile_all_prefix: "takeWhile P as = as \<Longrightarrow> \<not> P b \<Longrightarrow> takeWhile P (as @ b # cs) = as"
  by (metis takeWhile_append2 takeWhile_eq_all_conv takeWhile.simps(2) append_Nil2)

lemma takeWhile_first_false:
  "takeWhile P as \<noteq> as \<Longrightarrow> takeWhile P (as @ cs) = takeWhile P as"
  by (metis takeWhile_append1 takeWhile_eq_all_conv)

lemma taken_off: "n \<le> s \<Longrightarrow> off (taken n s) = 12 + s" "hd (taken n s) = (if n + 24 \<le> s then n else s, True)"
  "taken n s \<noteq> []"
  by (auto simp: taken_def bsize_def)

text \<open>The headers after the block at \<open>off as\<close> was split if worth it, and marked as used.\<close>

definition take_block :: "nat \<Rightarrow> nat \<Rightarrow> rt_small_mem \<Rightarrow> rt_small_mem" where
  "take_block ptr n h =
     (let nxt = item_next (items h ptr);
          h1 = (if usub nxt (ptr + 12) \<ge> n + 12 + 12 then count_used (n + 12) (split_item ptr n h)
                else count_used (usub nxt ptr) h)
      in upd_item ptr (\<lambda>m. m\<lparr>pool := Mem_Used\<rparr>) h1)"

lemma split_item_fields [simp]:
  "heap_end (split_item p n h) = heap_end h" "lfree (split_item p n h) = lfree h"
  "mem_size_aligned (split_item p n h) = mem_size_aligned h" "mem_used (split_item p n h) = mem_used h"
  "bytes (split_item p n h) = bytes h"
  by (simp_all add: split_item_def upd_item_def Let_def)

lemma count_used_fields [simp]:
  "heap_end (count_used n h) = heap_end h" "lfree (count_used n h) = lfree h" "items (count_used n h) = items h"
  "mem_size_aligned (count_used n h) = mem_size_aligned h" "mem_used (count_used n h) = mem_used h + n"
  "bytes (count_used n h) = bytes h"
  by (simp_all add: count_used_def Let_def)

lemma upd_item_fields [simp]:
  "heap_end (upd_item p f h) = heap_end h" "lfree (upd_item p f h) = lfree h"
  "items (upd_item p f h) = (items h)(p := f (items h p))"
  "mem_size_aligned (upd_item p f h) = mem_size_aligned h" "mem_used (upd_item p f h) = mem_used h"
  "bytes (upd_item p f h) = bytes h"
  by (simp_all add: upd_item_def)

lemma mark_blocks:
  assumes "blocks m pv p (as @ (s, u) # cs)"
  shows "blocks (m(p + off as := (m (p + off as))\<lparr>pool := if u' then Mem_Used else Mem_Freed\<rparr>)) pv p (as @ (s, u') # cs)"
proof -
  let ?m = "m(p + off as := (m (p + off as))\<lparr>pool := if u' then Mem_Used else Mem_Freed\<rparr>)"
  have "blocks ?m pv p as = blocks m pv p as" by (rule blocks_frame) simp
  moreover have "blocks ?m (p + off as) (p + off as + bsize (s, u)) cs = blocks m (p + off as) (p + off as + bsize (s, u)) cs"
    by (rule blocks_frame) (simp add: bsize_def)
  ultimately show ?thesis using assms by (simp add: blocks_around bsize_def)
qed

lemma take_block_repr:
  assumes "smem_repr h (as @ (s, False) # cs)" and "n \<le> s"
  defines "h' \<equiv> take_block (off as) n h"
  shows "blocks (items h') 0 0 (as @ taken n s @ cs)" "pool (items h' (off (as @ taken n s @ cs))) = Mem_Used"
    "heap_end h' = heap_end h" "lfree h' = lfree h" "mem_size_aligned h' = mem_size_aligned h"
    "mem_used h' = used_bytes (as @ taken n s @ cs)" "bytes h' = bytes h"
proof -
  note r = smem_reprD[OF assms(1)]
  have i: "item_next (items h (off as)) = off as + 12 + s" using blocks_at(1)[OF r(1)] by (simp add: bsize_def add.assoc)
  have u: "usub (off as + 12 + s) (off as + 12) = s" "usub (off as + 12 + s) (off as) = 12 + s"
    using r(3,5) by (simp_all add: usub_eq bsize_def)
  have e: "off (as @ taken n s @ cs) = off (as @ (s, False) # cs)" using taken_off(1)[OF assms(2)] by (simp add: bsize_def)
  show f: "heap_end h' = heap_end h" "lfree h' = lfree h" "mem_size_aligned h' = mem_size_aligned h" "bytes h' = bytes h"
    by (simp_all add: h'_def take_block_def Let_def)
  have ne: "off as \<noteq> off (as @ (s, False) # cs)" using bsize_pos(3)[of "(s, False)"] by simp
  have "blocks (items h') 0 0 (as @ taken n s @ cs) \<and> items h' (off (as @ (s, False) # cs)) = items h (off (as @ (s, False) # cs)) \<and>
    mem_used h' = used_bytes (as @ taken n s @ cs)"
  proof (cases "n + 24 \<le> s")
    case True
    have sp: "blocks (items (split_item (off as) n h)) 0 0 (as @ (n, False) # (s - n - 12, False) # cs)"
      "items (split_item (off as) n h) (off (as @ (s, False) # cs)) = items h (off (as @ (s, False) # cs))"
      using split_item_blocks[OF r(1), of n] True r(3,4) by simp_all
    have "blocks (items h') 0 0 (as @ (n, True) # (s - n - 12, False) # cs)"
      using mark_blocks[OF sp(1), of True] True i u by (simp add: h'_def take_block_def Let_def)
    then show ?thesis
      using True i u sp(2) ne r(8) by (simp add: h'_def take_block_def Let_def taken_def bsize_def)
  next
    case False
    have "blocks (items h') 0 0 (as @ (s, True) # cs)"
      using mark_blocks[OF r(1), of True] False i u by (simp add: h'_def take_block_def Let_def)
    then show ?thesis using False i u ne r(8) by (simp add: h'_def take_block_def Let_def taken_def bsize_def)
  qed
  then show "blocks (items h') 0 0 (as @ taken n s @ cs)" "pool (items h' (off (as @ taken n s @ cs))) = Mem_Used"
    "mem_used h' = used_bytes (as @ taken n s @ cs)" using e r(6) by simp_all
qed

lemma alloc_lists:
  assumes "coalesced (as @ (s, False) # cs)"
  shows "coalesced (as @ taken n s @ cs)"
  using assms by (cases cs) (auto simp: coalesced_append taken_def)

lemma smem_take_repr:
  assumes "smem_repr h (as @ (s, False) # cs)" and "n \<le> s" and "n mod 4 = 0" and "0 < n"
  shows "\<exists>h'. smem_take (off as) n h = Inr (Some (off as + 12), h') \<and> smem_repr h' (as @ taken n s @ cs) \<and>
    bytes h' = bytes h"
proof -
  let ?bs = "as @ taken n s @ cs"
  define h2 where "h2 = take_block (off as) n h"
  note r = smem_reprD[OF assms(1)] and t = take_block_repr[OF assms(1,2), folded h2_def]
  have e: "heap_end h2 = off ?bs" using r(3) t(3) taken_off(1)[OF assms(2)] by (simp add: bsize_def)
  have "s mod 4 = 0" using r(9)[of "(s, False)"] by simp
  then have md: "\<forall>b \<in> set ?bs. fst b mod 4 = 0"
    using r(9) assms(2,3) by (auto simp: taken_def mod_eq_0_iff_dvd intro!: dvd_diff_nat)
  have sz: "sized (taken n s)" using assms(2,4) by (auto simp: taken_def)
  define h3 where "h3 = h2\<lparr>lfree := off (takeWhile snd ?bs)\<rparr>"
  have rep: "smem_repr h3 ?bs"
    using t r(4,5,11) e md alloc_lists[OF r(10)] taken_off(3) sz by (auto simp: smem_repr_def h3_def)
  have "(if off as = lfree h2
      then bind_res (next_free (heap_end h2 + 1) h2 (lfree h2)) (\<lambda>p.
             if p = heap_end h2 \<or> \<not> item_is_used h2 p then Inr (h2\<lparr>lfree := p\<rparr>) else Inl Assert_Failed)
      else Inr h2) = Inr h3"
  proof (cases "off as = lfree h2")
    case True
    then have "off (takeWhile snd (as @ (s, False) # cs)) = off as" by (simp only: r(7)[symmetric] t(4))
    then have tw: "takeWhile snd as = as" by (rule off_prefix_eq) simp
    have b: "blocks (items h2) (last_block 0 0 as) (off as) (taken n s @ cs)" using t(1) by (simp add: blocks_append)
    have tl: "takeWhile snd ?bs = as @ takeWhile snd (taken n s @ cs)"
      using tw by (metis takeWhile_append2 takeWhile_eq_all_conv)
    have nf: "next_free (heap_end h2 + 1) h2 (off as) = Inr (off (takeWhile snd ?bs))"
      using next_free_first[OF b] e off_length[of "taken n s @ cs"] by (simp add: tl del: next_free.simps)
    have "off (takeWhile snd ?bs) = heap_end h2 \<or> \<not> item_is_used h2 (off (takeWhile snd ?bs))"
    proof (cases "dropWhile snd ?bs")
      case Nil
      then show ?thesis using e by (metis append_Nil2 takeWhile_dropWhile_id)
    next
      case (Cons b bs')
      then have nb: "\<not> snd b" by (metis hd_dropWhile list.sel(1) list.distinct(1))
      have "?bs = takeWhile snd ?bs @ b # bs'" using Cons by (metis takeWhile_dropWhile_id)
      then have "pool (items h2 (off (takeWhile snd ?bs))) = Mem_Freed"
        using blocks_at(1)[of "items h2" 0 0 "takeWhile snd ?bs" b bs'] t(1) nb by simp
      then show ?thesis by (simp add: item_is_used_def)
    qed
    then show ?thesis using True nf by (auto simp: h3_def)
  next
    case False
    then have "takeWhile snd as \<noteq> as" using r(7) t(4) takeWhile_all_prefix[of snd as "(s, False)" cs] by (metis snd_conv)
    then have "lfree h2 = off (takeWhile snd ?bs)"
      using r(7) t(4) takeWhile_first_false[of snd as] by simp
    then show ?thesis using False by (simp add: h3_def)
  qed
  moreover have "off as + 12 + n \<le> heap_end h3" "(off as + 12) mod 4 = 0" "off as mod 4 = 0"
    using e assms(2) taken_off(1)[OF assms(2)] off_mod[of as] r(9) by (auto simp: h3_def mod_add_left_eq[symmetric])
  ultimately show ?thesis
    using rep t(7) unfolding smem_take_def Let_def h2_def[unfolded take_block_def Let_def, symmetric]
    by (simp add: h3_def)
qed

text \<open>Allocation is first fit.\<close>

lemma request_size_mod: "request_size n mod 4 = 0"
  using rt_align_mod[of n] by (simp add: request_size_def Let_def)

lemma request_size_pos: "0 < request_size n"
  by (simp add: request_size_def Let_def)

lemma request_size_ge: "unat n \<le> 0xFFFFFFFC \<Longrightarrow> unat n \<le> request_size n"
  unfolding request_size_def rt_align_unat Let_def by (simp; presburger)

lemma alloc_refines:
  assumes "smem_repr h bs" and "n \<noteq> 0"
  shows "case first_fit (request_size n) bs of
      None \<Rightarrow> rt_smem_alloc n h = Inr (None, h)
    | Some (p, bs') \<Rightarrow> \<exists>h'. rt_smem_alloc n h = Inr (Some (p + 12), h') \<and> smem_repr h' bs' \<and> bytes h' = bytes h"
proof -
  let ?n = "request_size n"
  note r = smem_reprD[OF assms(1)]
  show ?thesis
  proof (cases "mem_size_aligned h < ?n")
    case True
    have "fst b < ?n" if "b \<in> set bs" for b using off_member[OF that] r(3,4) True by (simp add: bsize_def)
    then have "first_fit ?n bs = None" unfolding first_fit_None by auto
    then show ?thesis using True assms(2) by (simp add: rt_smem_alloc_def Let_def)
  next
    case False
    let ?us = "takeWhile snd bs" and ?rs = "dropWhile snd bs"
    have "length ?rs \<le> length bs" by (rule length_dropWhile_le)
    then have "smem_find (heap_end h + 1) h ?n (off ?us) =
        Inr (map_option (\<lambda>(p, _). off ?us + p) (first_fit ?n ?rs))"
      using smem_find_fit[of h ?us ?rs ?n "heap_end h + 1"] assms(1) False off_length[of bs] r(3) by simp
    moreover have "first_fit ?n bs =
        (case first_fit ?n ?rs of None \<Rightarrow> None | Some (p, bs') \<Rightarrow> Some (off ?us + p, ?us @ bs'))"
      using first_fit_used_prefix[of ?us ?n ?rs] by (auto dest: set_takeWhileD)
    ultimately have f: "smem_find (heap_end h + 1) h ?n (lfree h) = Inr (map_option fst (first_fit ?n bs))"
      using r(7) by (auto split: option.split)
    show ?thesis
    proof (cases "first_fit ?n bs")
      case None
      then show ?thesis using f False assms(2) by (simp add: rt_smem_alloc_def Let_def)
    next
      case (Some pb)
      obtain p bs' where pb: "pb = (p, bs')" by (cases pb)
      obtain as s cs where d: "bs = as @ (s, False) # cs" "p = off as" "?n \<le> s" "bs' = as @ taken ?n s @ cs"
        using first_fit_Some[of ?n bs p bs'] Some pb by blast
      show ?thesis
        using smem_take_repr[of h as s cs ?n] assms d Some pb f False request_size_mod[of n] request_size_pos[of n]
        by (simp add: rt_smem_alloc_def Let_def)
    qed
  qed
qed

section \<open>Release\<close>

fun merge_next :: "nat \<Rightarrow> block list \<Rightarrow> nat \<times> block list" where
  "merge_next n ((s, False) # cs) = (n + 12 + s, cs)"
| "merge_next n cs = (n, cs)"

lemma merge_next_cases:
  assumes "merge_next n cs = (n', cs')"
  obtains (free) s where "cs = (s, False) # cs'" "n' = n + 12 + s"
  | (none) "cs' = cs" "n' = n" "cs = [] \<or> snd (hd cs)"
  using assms by (cases "(n, cs)" rule: merge_next.cases) auto

text \<open>The block of \<open>n\<close> bytes between \<open>as\<close> and \<open>cs\<close> is free and joins its free neighbours.\<close>

definition release :: "block list \<Rightarrow> nat \<Rightarrow> block list \<Rightarrow> block list" where
  "release as n cs =
     (let (n', cs') = merge_next n cs in
      if as \<noteq> [] \<and> \<not> snd (last as) then butlast as @ (fst (last as) + 12 + n', False) # cs'
      else as @ (n', False) # cs')"

lemma merge_blocks:
  assumes "blocks m 0 0 (as @ (s, u) # (n, v) # cs)"
  defines "a \<equiv> off as" and "b \<equiv> off as + 12 + s" and "q \<equiv> off as + 12 + s + 12 + n"
  defines "m' \<equiv> m(b := (m b)\<lparr>pool := Pool_Null\<rparr>, a := (m a)\<lparr>item_next := q\<rparr>)"
  shows "blocks (m'(q := (m' q)\<lparr>item_prev := a\<rparr>)) 0 0 (as @ (s + 12 + n, u) # cs)"
    and "pool ((m'(q := (m' q)\<lparr>item_prev := a\<rparr>)) (q + off cs)) = pool (m (q + off cs))"
proof -
  let ?m = "m'(q := (m' q)\<lparr>item_prev := a\<rparr>)"
  have p: "blocks m 0 0 as" "m a = \<lparr>pool = if u then Mem_Used else Mem_Freed, item_next = b, item_prev = last_block 0 0 as\<rparr>"
    "blocks m b q cs"
    using assms(1) by (simp_all add: blocks_around a_def b_def q_def bsize_def add.assoc)
  have lt: "a < b" "b < q" "off as = a" by (simp_all add: a_def b_def q_def)
  have "blocks ?m 0 0 as = blocks m 0 0 as" by (rule blocks_frame) (use lt in \<open>auto simp: m'_def\<close>)
  moreover have "blocks m' b q cs = blocks m b q cs" by (rule blocks_frame) (use lt in \<open>auto simp: m'_def\<close>)
  then have "blocks ?m a q cs" using p(3) blocks_set_prev[of m' b q cs a] by (cases cs) auto
  moreover have "?m a = (m a)\<lparr>item_next := q\<rparr>" using lt by (simp add: m'_def)
  moreover have "a + bsize (s + 12 + n, u) = q" by (simp add: a_def q_def bsize_def)
  ultimately show "blocks ?m 0 0 (as @ (s + 12 + n, u) # cs)"
    unfolding blocks_around add_0 lt(3) using p(1,2) by simp
  show "pool (?m (q + off cs)) = pool (m (q + off cs))" using lt by (auto simp: m'_def)
qed

text \<open>What stays when two neighbours are joined.\<close>

lemma plug_forward_blocks:
  assumes "blocks (items h) 0 0 (as @ (n, False) # cs)" and "heap_end h = off (as @ (n, False) # cs)"
    and "pool (items h (heap_end h)) = Mem_Used" and "merge_next n cs = (n', cs')"
    and "lfree h \<noteq> off as + 12 + n"
  defines "h' \<equiv> plug_forward (off as) h"
  shows "blocks (items h') 0 0 (as @ (n', False) # cs')" "pool (items h' (heap_end h)) = Mem_Used"
    "heap_end h' = heap_end h" "lfree h' = lfree h" "mem_size_aligned h' = mem_size_aligned h"
    "mem_used h' = mem_used h" "bytes h' = bytes h" "off (as @ (n', False) # cs') = off (as @ (n, False) # cs)"
proof -
  have i: "item_next (items h (off as)) = off as + 12 + n"
    using assms(1) by (simp add: blocks_around bsize_def add.assoc)
  from assms(4) have "blocks (items h') 0 0 (as @ (n', False) # cs') \<and> pool (items h' (heap_end h)) = Mem_Used \<and>
    heap_end h' = heap_end h \<and> lfree h' = lfree h \<and> mem_size_aligned h' = mem_size_aligned h \<and>
    mem_used h' = mem_used h \<and> bytes h' = bytes h \<and> off (as @ (n', False) # cs') = off (as @ (n, False) # cs)"
  proof (cases rule: merge_next_cases)
    case (free s)
    let ?b = "off as + 12 + n" and ?q = "off as + 12 + n + 12 + s"
    have j: "items h ?b = \<lparr>pool = Mem_Freed, item_next = ?q, item_prev = off as\<rparr>"
      using assms(1) free by (simp add: blocks_around bsize_def add.assoc)
    let ?m = "(items h)(?b := (items h ?b)\<lparr>pool := Pool_Null\<rparr>, off as := (items h (off as))\<lparr>item_next := ?q\<rparr>)"
    have "?b \<noteq> heap_end h" using assms(2) free by (simp add: bsize_def)
    then have "h' = h\<lparr>items := ?m(?q := (?m ?q)\<lparr>item_prev := off as\<rparr>)\<rparr>"
      using i j assms(5) by (simp add: h'_def plug_forward_def Let_def item_is_used_def upd_item_def)
    then show ?thesis
      using merge_blocks[of "items h" as n False s False cs'] assms(1-3) free by (simp add: bsize_def add.assoc)
  next
    case none
    have "item_is_used h (off as + 12 + n) \<or> off as + 12 + n = heap_end h"
    proof (cases cs)
      case (Cons c cs1)
      then show ?thesis using none(3) assms(1) by (simp add: blocks_around bsize_def add.assoc item_is_used_def)
    qed (simp add: assms(2) bsize_def)
    then have "h' = h" using i by (auto simp: h'_def plug_forward_def Let_def)
    then show ?thesis using none assms by simp
  qed
  then show "blocks (items h') 0 0 (as @ (n', False) # cs')" "pool (items h' (heap_end h)) = Mem_Used"
    "heap_end h' = heap_end h" "lfree h' = lfree h" "mem_size_aligned h' = mem_size_aligned h"
    "mem_used h' = mem_used h" "bytes h' = bytes h" "off (as @ (n', False) # cs') = off (as @ (n, False) # cs)" by blast+
qed

lemma plug_backward_blocks:
  assumes "blocks (items h) 0 0 (as @ (n, False) # cs)" and "lfree h \<noteq> off as \<or> as = [] \<or> snd (last as)"
    and "pool (items h (off (as @ (n, False) # cs))) = Mem_Used"
  defines "h' \<equiv> plug_backward (off as) h"
    and "bs' \<equiv> (if as \<noteq> [] \<and> \<not> snd (last as) then butlast as @ (fst (last as) + 12 + n, False) # cs
                else as @ (n, False) # cs)"
  shows "blocks (items h') 0 0 bs'" "pool (items h' (off bs')) = Mem_Used"
    "heap_end h' = heap_end h" "lfree h' = lfree h" "mem_size_aligned h' = mem_size_aligned h"
    "mem_used h' = mem_used h" "bytes h' = bytes h" "off bs' = off (as @ (n, False) # cs)"
proof -
  have i: "items h (off as) = \<lparr>pool = Mem_Freed, item_next = off as + 12 + n, item_prev = last_block 0 0 as\<rparr>"
    using assms(1) by (simp add: blocks_around bsize_def add.assoc)
  have "blocks (items h') 0 0 bs' \<and> pool (items h' (off bs')) = Mem_Used \<and>
    heap_end h' = heap_end h \<and> lfree h' = lfree h \<and> mem_size_aligned h' = mem_size_aligned h \<and>
    mem_used h' = mem_used h \<and> bytes h' = bytes h \<and> off bs' = off (as @ (n, False) # cs)"
  proof (cases "as = []")
    case True
    then have "h' = h" using i by (simp add: h'_def plug_backward_def Let_def)
    then show ?thesis using True assms(1,3) by (simp add: bs'_def)
  next
    case False
    obtain as' s u where as': "as = as' @ [(s, u)]" using False by (metis rev_exhaust surj_pair)
    let ?a = "off as'" and ?b = "off as' + 12 + s" and ?q = "off as' + 12 + s + 12 + n"
    have e: "off as = ?b" by (simp add: as' bsize_def add.assoc)
    have j: "pool (items h ?a) = (if u then Mem_Used else Mem_Freed)"
      using assms(1) by (simp add: as' blocks_around)
    show ?thesis
    proof (cases u)
      case True
      then have "h' = h" using i j e by (simp add: h'_def plug_backward_def Let_def item_is_used_def as')
      then show ?thesis using True as' assms(1,3) by (simp add: bs'_def)
    next
      case False
      let ?m = "(items h)(?b := (items h ?b)\<lparr>pool := Pool_Null\<rparr>, ?a := (items h ?a)\<lparr>item_next := ?q\<rparr>)"
      have lf: "lfree h \<noteq> ?b" using assms(2) False as' e by simp
      have "h' = h\<lparr>items := ?m(?q := (?m ?q)\<lparr>item_prev := ?a\<rparr>)\<rparr>"
        using i j e lf False by (simp add: h'_def plug_backward_def Let_def item_is_used_def upd_item_def as' bsize_def add.assoc)
      then show ?thesis
        using merge_blocks[of "items h" as' s False n False cs] assms(1,3) False as' e
        by (simp add: bs'_def bsize_def add.assoc)
    qed
  qed
  then show "blocks (items h') 0 0 bs'" "pool (items h' (off bs')) = Mem_Used"
    "heap_end h' = heap_end h" "lfree h' = lfree h" "mem_size_aligned h' = mem_size_aligned h"
    "mem_used h' = mem_used h" "bytes h' = bytes h" "off bs' = off (as @ (n, False) # cs)" by blast+
qed

text \<open>The first free block after a release.\<close>

lemma release_first:
  "off (takeWhile snd (release as n cs)) = off (takeWhile snd (as @ (n, False) # cs))"
proof -
  obtain n' cs' where m: "merge_next n cs = (n', cs')" by (cases "merge_next n cs")
  show ?thesis
  proof (cases "as \<noteq> [] \<and> \<not> snd (last as)")
    case True
    then obtain as' a where "as = as' @ [a]" "\<not> snd a" by (metis last_snoc rev_exhaust)
    then show ?thesis using m by (auto simp: release_def takeWhile_tail)
  next
    case False
    then show ?thesis using m by (auto simp: release_def takeWhile_tail)
  qed
qed

lemma release_lists:
  assumes "coalesced as" and "coalesced cs" and "\<forall>b \<in> set (as @ (n, False) # cs). fst b mod 4 = 0"
  shows "coalesced (release as n cs)" "release as n cs \<noteq> []" "\<forall>b \<in> set (release as n cs). fst b mod 4 = 0"
    "used_bytes (release as n cs) = used_bytes as + used_bytes cs" "sized as \<Longrightarrow> sized cs \<Longrightarrow> sized (release as n cs)"
proof -
  obtain n' cs' where m: "merge_next n cs = (n', cs')" by (cases "merge_next n cs")
  have "coalesced cs' \<and> (cs' = [] \<or> snd (hd cs')) \<and> n' mod 4 = 0 \<and> (\<forall>b \<in> set cs'. fst b mod 4 = 0) \<and>
    used_bytes cs' = used_bytes cs \<and> (sized cs \<longrightarrow> sized cs')"
    using m
  proof (cases rule: merge_next_cases)
    case (free s)
    moreover have "n mod 4 = 0" "s mod 4 = 0" using assms(3) free(1) by simp_all
    then have "(n + 12 + s) mod 4 = 0" by presburger
    moreover have "coalesced cs' \<and> (cs' = [] \<or> snd (hd cs'))" using assms(2) free(1) by (cases cs') auto
    ultimately show ?thesis using assms(3) by simp
  qed (use assms(2,3) in simp)
  then have c: "coalesced cs'" "cs' = [] \<or> snd (hd cs')" "n' mod 4 = 0" "\<forall>b \<in> set cs'. fst b mod 4 = 0"
    "used_bytes cs' = used_bytes cs" "sized cs \<longrightarrow> sized cs'" by blast+
  have f: "coalesced ((x, False) # cs')" for x using c(1,2) by (cases cs') auto
  have "coalesced (release as n cs) \<and> release as n cs \<noteq> [] \<and> (\<forall>b \<in> set (release as n cs). fst b mod 4 = 0) \<and>
    used_bytes (release as n cs) = used_bytes as + used_bytes cs \<and>
    (sized as \<longrightarrow> sized cs \<longrightarrow> sized (release as n cs))"
  proof (cases "as \<noteq> [] \<and> \<not> snd (last as)")
    case True
    then obtain as' b where "as = as' @ [b]" by (cases as rule: rev_cases) auto
    moreover from this obtain s where "b = (s, False)" using True by (cases b) auto
    ultimately have a: "as = as' @ [(s, False)]" by simp
    then have a': "coalesced as'" "as' = [] \<or> snd (last as')" "s mod 4 = 0" "\<forall>b \<in> set as'. fst b mod 4 = 0"
      using assms(1,3) by (auto simp: coalesced_append)
    have l: "release as n cs = as' @ (s + 12 + n', False) # cs'" using a m by (simp add: release_def)
    have "(s + 12 + n') mod 4 = 0" using a'(3) c(3) by presburger
    then have "\<forall>b \<in> set (release as n cs). fst b mod 4 = 0" using a'(4) c(4) by (auto simp: l)
    moreover have "coalesced (release as n cs)" using a'(1,2) f by (auto simp: l coalesced_append)
    moreover have "used_bytes (release as n cs) = used_bytes as + used_bytes cs" unfolding l using a c(5) by simp
    moreover have "sized as \<longrightarrow> sized cs \<longrightarrow> sized (release as n cs)" unfolding l using a c(6) by simp
    ultimately show ?thesis by (simp add: l)
  next
    case False
    then have l: "release as n cs = as @ (n', False) # cs'" using m by (simp add: release_def)
    have "\<forall>b \<in> set (release as n cs). fst b mod 4 = 0" using assms(3) c(3,4) by (auto simp: l)
    moreover have "coalesced (release as n cs)" using assms(1) False f by (auto simp: l coalesced_append)
    moreover have "used_bytes (release as n cs) = used_bytes as + used_bytes cs" using c(5) by (simp add: l)
    moreover have "sized as \<longrightarrow> sized cs \<longrightarrow> sized (release as n cs)" using c(6) by (simp add: l)
    ultimately show ?thesis by (simp add: l)
  qed
  then show "coalesced (release as n cs)" "release as n cs \<noteq> []" "\<forall>b \<in> set (release as n cs). fst b mod 4 = 0"
    "used_bytes (release as n cs) = used_bytes as + used_bytes cs"
    "sized as \<Longrightarrow> sized cs \<Longrightarrow> sized (release as n cs)" by blast+
qed

text \<open>
  Joining a block that has just become free: the heap is as a heap should be but for the
  neighbours of that block.
\<close>

lemma plug_holes_repr:
  assumes "blocks (items h) 0 0 (as @ (n, False) # cs)" and "heap_end h = off (as @ (n, False) # cs)"
    and "heap_end h = mem_size_aligned h + 12" and "heap_end h < 2 ^ 32"
    and "pool (items h (heap_end h)) = Mem_Used" and "lfree h = off (takeWhile snd (as @ (n, False) # cs))"
    and "mem_used h = used_bytes as + used_bytes cs" and "\<forall>b \<in> set (as @ (n, False) # cs). fst b mod 4 = 0"
    and "coalesced as" and "coalesced cs" and "sized as" and "sized cs"
  shows "\<exists>h'. plug_holes (off as) h = Inr h' \<and> smem_repr h' (release as n cs) \<and> bytes h' = bytes h"
proof -
  obtain n' cs' where m: "merge_next n cs = (n', cs')" by (cases "merge_next n cs")
  have le: "off (takeWhile snd (as @ (n, False) # cs)) \<le> off as"
  proof (cases "takeWhile snd as = as")
    case True
    then have "takeWhile snd (as @ (n, False) # cs) = as" by (rule takeWhile_all_prefix) simp
    then show ?thesis by simp
  next
    case False
    then have "takeWhile snd (as @ (n, False) # cs) = takeWhile snd as" by (rule takeWhile_first_false)
    moreover have "off as = off (takeWhile snd as) + off (dropWhile snd as)" by (metis off_simps(3) takeWhile_dropWhile_id)
    ultimately show ?thesis by simp
  qed
  then have lf: "lfree h \<noteq> off as + 12 + n" using assms(6) by simp
  define h1 where "h1 = plug_forward (off as) h"
  note f = plug_forward_blocks[OF assms(1,2,5) m lf, folded h1_def]
  have lf1: "lfree h1 \<noteq> off as \<or> as = [] \<or> snd (last as)"
  proof (rule ccontr)
    assume "\<not> ?thesis"
    then have a: "lfree h1 = off as" "as \<noteq> []" "\<not> snd (last as)" by auto
    then have "off (takeWhile snd (as @ (n, False) # cs)) = off as" using f(4) assms(6) by simp
    then have "takeWhile snd as = as" by (rule off_prefix_eq) simp
    then show False using a(2,3) by (metis last_in_set takeWhile_eq_all_conv)
  qed
  have pe: "pool (items h1 (off (as @ (n', False) # cs'))) = Mem_Used" using f(2,8) assms(2) by simp
  note g = plug_backward_blocks[OF f(1) lf1 pe]
  have e: "(if as \<noteq> [] \<and> \<not> snd (last as) then butlast as @ (fst (last as) + 12 + n', False) # cs'
      else as @ (n', False) # cs') = release as n cs" using m by (simp add: release_def)
  let ?h = "plug_backward (off as) h1"
  note l = release_lists[OF assms(9,10,8)]
  have "smem_repr ?h (release as n cs)"
    using g[unfolded e] f l assms(2-4,6,7,11,12) release_first[of as n cs] by (simp add: smem_repr_def)
  moreover have "off as < heap_end h" using assms(2) by (simp add: bsize_def)
  ultimately show ?thesis using g(7) f(7) by (simp add: plug_holes_def h1_def)
qed

lemma takeWhile_min:
  assumes "lfree h = off (takeWhile snd (as @ (n, True) # cs))"
  shows "(if off as < lfree h then off as else lfree h) = off (takeWhile snd (as @ (n, False) # cs))"
proof (cases "takeWhile snd as = as")
  case True
  then have "takeWhile snd (as @ (n, False) # cs) = as" by (rule takeWhile_all_prefix) simp
  moreover have "takeWhile snd (as @ (n, True) # cs) = as @ (n, True) # takeWhile snd cs"
    using True by (metis takeWhile_append2 takeWhile_eq_all_conv takeWhile.simps(2) snd_conv)
  ultimately show ?thesis using assms by (simp add: bsize_def)
next
  case False
  then have "takeWhile snd (as @ x) = takeWhile snd as" for x by (rule takeWhile_first_false)
  moreover have "off as = off (takeWhile snd as) + off (dropWhile snd as)" by (metis off_simps(3) takeWhile_dropWhile_id)
  ultimately show ?thesis using assms by simp
qed

lemma free_refines:
  assumes "smem_repr h (as @ (n, True) # cs)"
  shows "\<exists>h'. rt_smem_free (Some (off as + 12)) h = Inr h' \<and> smem_repr h' (release as n cs) \<and> bytes h' = bytes h"
proof -
  note r = smem_reprD[OF assms]
  let ?p = "off as"
  have i: "items h ?p = \<lparr>pool = Mem_Used, item_next = ?p + 12 + n, item_prev = last_block 0 0 as\<rparr>"
    using blocks_at(1)[OF r(1)] by (simp add: bsize_def add.assoc)
  have nx: "pool (items h (?p + 12 + n)) \<noteq> Pool_Null"
  proof (cases cs)
    case Nil
    then show ?thesis using r(6) by (simp add: bsize_def add.assoc)
  next
    case (Cons c cs')
    then show ?thesis using r(1) by (auto simp: blocks_around bsize_def add.assoc)
  qed
  have md: "(?p + 12) mod 4 = 0" using off_mod[of as] r(9) by (simp add: mod_add_left_eq[symmetric])
  have u: "usub (mem_used h) (usub (?p + 12 + n) ?p) = used_bytes as + used_bytes cs"
    using r(3,5,8) used_bytes_le[of "as @ (n, True) # cs"] by (simp add: usub_eq bsize_def)
  define h1 where "h1 = h\<lparr>items := (items h)(?p := (items h ?p)\<lparr>pool := Mem_Freed\<rparr>),
    lfree := off (takeWhile snd (as @ (n, False) # cs)), mem_used := used_bytes as + used_bytes cs\<rparr>"
  have "rt_smem_free (Some (?p + 12)) h = plug_holes ?p h1"
    using i nx md u r(3,11) takeWhile_min[OF r(7), symmetric]
    by (simp add: rt_smem_free_def Let_def item_is_used_def upd_item_def h1_def bsize_def)
  moreover have "\<exists>h'. plug_holes ?p h1 = Inr h' \<and> smem_repr h' (release as n cs) \<and> bytes h' = bytes h1"
  proof (rule plug_holes_repr)
    show "blocks (items h1) 0 0 (as @ (n, False) # cs)"
      using mark_blocks[OF r(1), of False] by (simp add: h1_def)
    show "pool (items h1 (heap_end h1)) = Mem_Used" "heap_end h1 = off (as @ (n, False) # cs)"
      using r(3,6) by (simp_all add: h1_def bsize_def)
    show "\<forall>b \<in> set (as @ (n, False) # cs). fst b mod 4 = 0" using r(9) r(9)[of "(n, True)"] by auto
    show "coalesced as" "coalesced cs" using r(10) by (cases cs; simp add: coalesced_append)+
  qed (use r(4,5,11) in \<open>simp_all add: h1_def\<close>)
  ultimately show ?thesis by (simp add: h1_def)
qed

section \<open>Live memory\<close>

text \<open>The addresses and sizes of the user data of the used blocks.\<close>

fun live_from :: "nat \<Rightarrow> block list \<Rightarrow> (nat \<times> nat) set" where
  "live_from p [] = {}"
| "live_from p (b # bs) = (if snd b then {(p + 12, fst b)} else {}) \<union> live_from (p + bsize b) bs"

abbreviation live :: "block list \<Rightarrow> (nat \<times> nat) set" where
  "live \<equiv> live_from 0"

lemma live_append: "live_from p (as @ bs) = live_from p as \<union> live_from (p + off as) bs"
  by (induction as arbitrary: p) (auto simp: add.assoc)

lemma live_bounds: "(q, s) \<in> live_from p bs \<Longrightarrow> p + 12 \<le> q \<and> q + s \<le> p + off bs"
proof (induction bs arbitrary: p)
  case (Cons b bs)
  then consider "q = p + 12" "s = fst b" | "(q, s) \<in> live_from (p + bsize b) bs" by (auto split: if_splits)
  then show ?case
  proof cases
    case 2
    then show ?thesis using Cons.IH[OF 2] by (simp add: bsize_def)
  qed (simp add: bsize_def)
qed simp

lemma live_member:
  assumes "(q, s) \<in> live_from p bs"
  shows "\<exists>as cs. bs = as @ (s, True) # cs \<and> q = p + off as + 12"
  using assms
proof (induction bs arbitrary: p)
  case (Cons b bs)
  then consider "snd b" "q = p + 12" "s = fst b" | "(q, s) \<in> live_from (p + bsize b) bs" by (auto split: if_splits)
  then show ?case
  proof cases
    case 1
    then show ?thesis by (intro exI[of _ "[]"] exI[of _ bs]) (cases b, simp)
  next
    case 2
    from Cons.IH[OF 2] obtain as cs where "bs = as @ (s, True) # cs" "q = p + bsize b + off as + 12" by blast
    then show ?thesis by (intro exI[of _ "b # as"] exI[of _ cs]) simp
  qed
qed simp

text \<open>Two live pieces of memory are the same or have a header between them.\<close>

lemma live_disjoint:
  assumes "(q, s) \<in> live_from p bs" and "(q', s') \<in> live_from p bs"
  shows "(q, s) = (q', s') \<or> q + s + 12 \<le> q' \<or> q' + s' + 12 \<le> q"
  using assms
proof (induction bs arbitrary: p)
  case (Cons b bs)
  then show ?case
    using live_bounds[of q s "p + bsize b" bs] live_bounds[of q' s' "p + bsize b" bs] Cons.IH[of "p + bsize b"]
    by (auto simp: bsize_def split: if_splits)
qed simp

lemma live_taken:
  assumes "n \<le> s"
  shows "live (as @ taken n s @ cs) =
    insert (off as + 12, if n + 24 \<le> s then n else s) (live (as @ (s, False) # cs))"
  using assms by (auto simp: live_append taken_def bsize_def)

lemma live_release: "live (release as n cs) = live (as @ (n, False) # cs)"
proof -
  obtain n' cs' where m: "merge_next n cs = (n', cs')" by (cases "merge_next n cs")
  have l: "live_from p ((x + n, False) # cs) = live_from p ((x + n', False) # cs')" for p x
    using m by (cases rule: merge_next_cases) (simp_all add: bsize_def add.assoc)
  show ?thesis
  proof (cases "as \<noteq> [] \<and> \<not> snd (last as)")
    case True
    then obtain as' b where b: "as = as' @ [b]" "\<not> snd b" by (cases as rule: rev_cases) auto
    then show ?thesis using l[of "off as'" "fst b + 12"] m
      by (simp add: release_def live_append bsize_def add.assoc add.left_commute)
  next
    case False
    then show ?thesis using m l[of "off as" 0] by (auto simp: release_def live_append)
  qed
qed

lemma live_freed:
  "live (as @ (n, False) # cs) = live (as @ (n, True) # cs) - {(off as + 12, n)}"
proof -
  have "(off as + 12, n) \<notin> live as" using live_bounds[of "off as + 12" n 0 as] by auto
  moreover have "(off as + 12, n) \<notin> live_from (off as + bsize (n, x)) cs" for x
    using live_bounds[of "off as + 12" n "off as + bsize (n, x)" cs] by (auto simp: bsize_def)
  ultimately show ?thesis by (auto simp: live_append bsize_def)
qed

lemma smem_repr_bytes [simp]: "smem_repr (h\<lparr>bytes := d\<rparr>) bs = smem_repr h bs"
  by (simp add: smem_repr_def)

text \<open>The operations on live memory.\<close>

lemma alloc_live:
  assumes "smem_repr h bs" and "n \<noteq> 0" and "rt_smem_alloc n h = Inr (Some q, h')"
  shows "\<exists>bs' s. smem_repr h' bs' \<and> bytes h' = bytes h \<and> request_size n \<le> s \<and> live bs' = insert (q, s) (live bs) \<and>
    (\<forall>s'. (q, s') \<notin> live bs)"
proof -
  obtain p bs' where p: "first_fit (request_size n) bs = Some (p, bs')"
    using alloc_refines[OF assms(1,2)] assms(3) by (cases "first_fit (request_size n) bs") auto
  then have q: "q = p + 12" "smem_repr h' bs'" "bytes h' = bytes h" using alloc_refines[OF assms(1,2)] assms(3) by auto
  from first_fit_Some[OF p] obtain as s cs where d: "bs = as @ (s, False) # cs" "p = off as" "request_size n \<le> s"
    "bs' = as @ taken (request_size n) s @ cs" by blast
  have "(off as + 12, s') \<notin> live bs" for s'
    using live_bounds[of "off as + 12" s' 0 as] live_bounds[of "off as + 12" s' "off as + bsize (s, False)" cs]
    by (auto simp: d(1) live_append bsize_def)
  then show ?thesis using q d live_taken[OF d(3), of as cs]
    by (intro exI[of _ bs'] exI[of _ "if request_size n + 24 \<le> s then request_size n else s"]) auto
qed

lemma free_live:
  assumes "smem_repr h bs" and "(q, s) \<in> live bs"
  shows "\<exists>h' bs'. rt_smem_free (Some q) h = Inr h' \<and> smem_repr h' bs' \<and> bytes h' = bytes h \<and>
    live bs' = live bs - {(q, s)}"
proof -
  obtain as cs where d: "bs = as @ (s, True) # cs" "q = off as + 12" using live_member[OF assms(2)] by auto
  then show ?thesis using free_refines[of h as s cs] assms(1) live_release[of as s cs] live_freed[of as s cs] by auto
qed

section \<open>Resizing\<close>

lemma realloc_shrink:
  assumes "smem_repr h (as @ (s, True) # cs)" and "n + 24 < s" and "n mod 4 = 0" and "0 < n"
  defines "h1 \<equiv> split_item (off as) n (h\<lparr>mem_used := usub (mem_used h) (usub s n)\<rparr>)"
  defines "h2 \<equiv> (if off as + 12 + n < lfree h1 then h1\<lparr>lfree := off as + 12 + n\<rparr> else h1)"
  shows "\<exists>h3. plug_holes (off as + 12 + n) h2 = Inr h3 \<and> smem_repr h3 (release (as @ [(n, True)]) (s - n - 12) cs) \<and>
    bytes h3 = bytes h"
proof -
  note r = smem_reprD[OF assms(1)]
  let ?as = "as @ [(n, True)]"
  let ?h = "h\<lparr>mem_used := usub (mem_used h) (usub s n)\<rparr>"
  have e: "off ?as = off as + 12 + n" "mem_size_aligned ?h + 12 = off (as @ (s, True) # cs)"
    using r(3,4) by (simp_all add: bsize_def)
  have sp: "blocks (items h1) 0 0 (as @ (n, True) # (s - n - 12, False) # cs)"
    "items h1 (off (as @ (s, True) # cs)) = items h (off (as @ (s, True) # cs))"
    using split_item_blocks[of ?h as s True cs n] r(1) assms(2) e(2) by (simp_all add: h1_def)
  have u: "usub (mem_used h) (usub s n) = used_bytes as + 12 + n + used_bytes cs"
    using r(3,5,8) assms(2) used_bytes_le[of "as @ (s, True) # cs"] by (simp add: usub_eq bsize_def)
  have "lfree h1 = off (takeWhile snd (as @ (s, True) # cs))" using r(7) by (simp add: h1_def)
  also have "(if off as + 12 + n < \<dots> then off as + 12 + n else \<dots>) = off (takeWhile snd (?as @ (s - n - 12, False) # cs))"
  proof (cases "takeWhile snd as = as")
    case True
    then have "takeWhile snd (as @ xs) = as @ takeWhile snd xs" for xs
      by (metis takeWhile_append2 takeWhile_eq_all_conv)
    then show ?thesis using assms(2) by (simp add: bsize_def)
  next
    case False
    then have t: "takeWhile snd (as @ x) = takeWhile snd as" for x by (rule takeWhile_first_false)
    have "off as = off (takeWhile snd as) + off (dropWhile snd as)" by (metis off_simps(3) takeWhile_dropWhile_id)
    then show ?thesis using t by simp
  qed
  finally have lf: "lfree h2 = off (takeWhile snd (?as @ (s - n - 12, False) # cs))" by (auto simp: h2_def)
  have h2: "items h2 = items h1" "heap_end h2 = heap_end h" "mem_size_aligned h2 = mem_size_aligned h"
    "bytes h2 = bytes h" "mem_used h2 = usub (mem_used h) (usub s n)"
    by (simp_all add: h2_def h1_def)
  have "\<exists>h3. plug_holes (off ?as) h2 = Inr h3 \<and> smem_repr h3 (release ?as (s - n - 12) cs) \<and> bytes h3 = bytes h2"
  proof (rule plug_holes_repr)
    show "blocks (items h2) 0 0 (?as @ (s - n - 12, False) # cs)" using sp(1) by (simp add: h2)
    show "heap_end h2 = off (?as @ (s - n - 12, False) # cs)" using r(3) assms(2) by (simp add: h2 bsize_def)
    show "pool (items h2 (heap_end h2)) = Mem_Used" using sp(2) r(3,6) by (simp add: h2)
    show "mem_used h2 = used_bytes ?as + used_bytes cs" using u by (simp add: h2 bsize_def)
    have "s mod 4 = 0" using r(9)[of "(s, True)"] by simp
    then have "(s - n - 12) mod 4 = 0" using assms(2,3) by (simp add: mod_eq_0_iff_dvd dvd_diff_nat)
    then show "\<forall>b \<in> set (?as @ (s - n - 12, False) # cs). fst b mod 4 = 0" using r(9) assms(3) by auto
    show "coalesced ?as" "coalesced cs" using r(10) by (cases cs; simp add: coalesced_append)+
  qed (use r(4,5,11) assms(4) lf in \<open>simp_all add: h2\<close>)
  then show ?thesis unfolding e(1) h2(4) .
qed

text \<open>What resizing does on a live piece of memory, the block after \<open>as\<close>.\<close>

lemma realloc_body:
  assumes "smem_repr h (as @ (s, True) # cs)" and "0 < unat (rt_align sz)"
    and "unat (rt_align sz) \<le> mem_size_aligned h" and "r = off as + 12"
  defines "n \<equiv> unat (rt_align sz)"
  shows "rt_smem_realloc (Some r) sz h =
     (if s = n then Inr (Some r, h)
      else if n + 24 < s
      then let h1 = split_item (off as) n (h\<lparr>mem_used := usub (mem_used h) (usub s n)\<rparr>);
               h2 = (if off as + 12 + n < lfree h1 then h1\<lparr>lfree := off as + 12 + n\<rparr> else h1)
           in bind_res (plug_holes (off as + 12 + n) h2) (\<lambda>h3. Inr (Some r, h3))
      else bind_res (rt_smem_alloc (rt_align sz) h) (\<lambda>(nmem, h1).
        case nmem of None \<Rightarrow> Inr (None, h1)
        | Some q \<Rightarrow> bind_res (rt_smem_free (Some r) (copy_bytes q r (min s n) h1)) (\<lambda>h2. Inr (nmem, h2))))"
proof -
  note rp = smem_reprD[OF assms(1)]
  have i: "item_next (items h (off as)) = off as + 12 + s"
    using blocks_at(1)[of "items h" 0 0 as "(s, True)" cs] rp(1) by (simp add: bsize_def add.assoc)
  have u: "usub (usub (item_next (items h (off as))) (off as)) 12 = s"
    using rp(3,5) i by (simp add: usub_eq bsize_def)
  have md: "r mod 4 = 0" "r < heap_end h"
    using off_mod[of as] rp(3,9,11) by (simp_all add: assms(4) mod_add_left_eq[symmetric] bsize_def)
  show ?thesis
    using assms(2,3) md
    unfolding rt_smem_realloc_def Let_def n_def assms(4) option.case diff_add_inverse2 u by simp
qed

text \<open>
  Resizing a live piece of memory: it fails and changes nothing, or gives a piece that is
  large enough, keeps the data and leaves the data of all other pieces alone.
\<close>

lemma realloc_live:
  assumes "smem_repr h bs" and "(r, s) \<in> live bs" and "0 < unat (rt_align sz)"
    and "unat (rt_align sz) \<le> mem_size_aligned h"
  defines "n \<equiv> unat (rt_align sz)"
  shows "\<exists>q h'. rt_smem_realloc (Some r) sz h = Inr (q, h') \<and>
    (case q of None \<Rightarrow> h' = h
     | Some q \<Rightarrow> \<exists>bs' s'. smem_repr h' bs' \<and> n \<le> s' \<and> live bs' = insert (q, s') (live bs - {(r, s)}) \<and>
         (\<forall>x < min s n. bytes h' (q + x) = bytes h (r + x)) \<and>
         (\<forall>(q2, s2) \<in> live bs - {(r, s)}. \<forall>x < s2. bytes h' (q2 + x) = bytes h (q2 + x)))"
proof -
  obtain as cs where d: "bs = as @ (s, True) # cs" "r = off as + 12" using live_member[OF assms(2)] by auto
  have n: "n mod 4 = 0" "rt_align (rt_align sz) = rt_align sz" "rt_align sz \<noteq> 0"
    using rt_align_mod[of sz] assms(3) by (auto simp: n_def word_unat_eq_iff rt_align_unat)
  note body = realloc_body[OF assms(1)[unfolded d(1)] assms(3,4) d(2), folded n_def]
  consider (same) "s = n" | (shrink) "s \<noteq> n" "n + 24 < s" | (move) "s \<noteq> n" "\<not> n + 24 < s" by blast
  then show ?thesis
  proof cases
    case same
    then show ?thesis using body assms(1,2) by (intro exI[of _ "Some r"] exI[of _ h]) auto
  next
    case shrink
    have "0 < n" using assms(3) by (simp add: n_def)
    from realloc_shrink[OF assms(1)[unfolded d(1)] shrink(2) n(1) this] obtain h3 where
      s3: "bind_res (plug_holes (off as + 12 + n)
          (let h1 = split_item (off as) n (h\<lparr>mem_used := usub (mem_used h) (usub s n)\<rparr>)
           in if off as + 12 + n < lfree h1 then h1\<lparr>lfree := off as + 12 + n\<rparr> else h1))
        (\<lambda>h3. Inr (Some r, h3)) = Inr (Some r, h3)"
      "smem_repr h3 (release (as @ [(n, True)]) (s - n - 12) cs)" "bytes h3 = bytes h"
      unfolding Let_def by force
    then have h3: "rt_smem_realloc (Some r) sz h = Inr (Some r, h3)"
      unfolding body Let_def if_P[OF shrink(2)] if_not_P[OF shrink(1)] by simp
    have l: "live (as @ (n, True) # (s - n - 12, False) # cs) = insert (r, n) (live (as @ (s, False) # cs))"
      using shrink(2) d(2) by (auto simp: live_append bsize_def)
    have "live (release (as @ [(n, True)]) (s - n - 12) cs) = insert (r, n) (live bs - {(r, s)})"
      unfolding live_release using l live_freed[of as s cs] d by simp
    then show ?thesis using h3 s3 by (intro exI[of _ "Some r"] exI[of _ h3]) auto
  next
    case move
    show ?thesis
    proof (cases "first_fit (request_size (rt_align sz)) bs")
      case None
      then have "rt_smem_alloc (rt_align sz) h = Inr (None, h)" using alloc_refines[OF assms(1) n(3)] by simp
      then show ?thesis using body move by (intro exI[of _ None] exI[of _ h]) simp
    next
      case (Some pb)
      then obtain q h1 where a: "rt_smem_alloc (rt_align sz) h = Inr (Some q, h1)"
        using alloc_refines[OF assms(1) n(3)] by (cases pb) auto
      obtain bs1 s1 where b: "smem_repr h1 bs1" "bytes h1 = bytes h" "request_size (rt_align sz) \<le> s1"
        "live bs1 = insert (q, s1) (live bs)" "(q, x) \<notin> live bs" for x
        using alloc_live[OF assms(1) n(3) a] by blast
      have ns: "n \<le> s1" using b(3) n(2) by (simp add: request_size_def n_def Let_def split: if_splits)
      let ?h = "copy_bytes q r (min s n) h1"
      have "smem_repr ?h bs1" "(r, s) \<in> live bs1" using b(1,4) assms(2) by (simp_all add: copy_bytes_def)
      then obtain h2 bs2 where c: "rt_smem_free (Some r) ?h = Inr h2" "smem_repr h2 bs2" "bytes h2 = bytes ?h"
        "live bs2 = live bs1 - {(r, s)}" using free_live by blast
      have "bytes h2 (q + x) = bytes h (r + x)" if "x < min s n" for x
        using that b(2) c(3) by (simp add: copy_bytes_def)
      moreover have "bytes h2 (q2 + x) = bytes h (q2 + x)" if m: "(q2, s2) \<in> live bs - {(r, s)}" "x < s2" for q2 s2 x
      proof -
        have "(q2, s2) \<in> live bs1" "(q, s1) \<in> live bs1" "q2 \<noteq> q" using b(4,5) m(1) by auto
        then have "q2 + s2 + 12 \<le> q \<or> q + s1 + 12 \<le> q2" using live_disjoint[of q2 s2 0 bs1 q s1] by auto
        then show ?thesis using m(2) ns b(2) c(3) by (auto simp: copy_bytes_def)
      qed
      moreover have "live bs2 = insert (q, s1) (live bs - {(r, s)})" using c(4) b(4,5) assms(2) by auto
      moreover have "rt_smem_realloc (Some r) sz h = Inr (Some q, h2)" using body move a c(1) by simp
      ultimately show ?thesis using c(2) ns
        by (intro exI[of _ "Some q"] exI[of _ h2]) (simp, intro exI[of _ bs2] conjI exI[of _ s1], auto)
    qed
  qed
qed

section \<open>Initialisation\<close>

lemma init_repr:
  assumes "rt_smem_init begin_addr sz mem data = Some (p, h)"
    and "unat begin_addr + unat sz < 2 ^ 32" and "unat begin_addr + 62 < 2 ^ 32"
  shows "smem_repr h [(mem_size_aligned h, False)] \<and> unat p mod 4 = 0 \<and> unat begin_addr + 56 \<le> unat p \<and>
    unat p + heap_end h + 12 \<le> unat begin_addr + unat sz"
proof -
  let ?s = "rt_align begin_addr" and ?e = "rt_align_down (begin_addr + sz)"
  let ?b = "rt_align (?s + 56)"
  have s: "unat ?s = 4 * ((unat begin_addr + 3) div 4)" using assms(3) by (simp add: rt_align_unat)
  then have s': "unat begin_addr \<le> unat ?s" "unat ?s \<le> unat begin_addr + 3" "unat ?s mod 4 = 0" by presburger+
  have s56: "unat (?s + 56) = unat ?s + 56" using s'(2) assms(3) by (simp add: unat_word_ariths)
  have "4 * ((x + 56 + 3) div 4) = x + 56" if "x mod 4 = 0" for x :: nat using that by presburger
  then have "unat ?b = unat (?s + 56)"
    using s56 s' assms(3) unfolding rt_align_unat[of "?s + 56"] by simp
  then have b: "unat ?b = unat ?s + 56" "?s + 56 = ?b"
    using s56 by (simp_all add: word_unat_eq_iff)
  have sm: "unat (begin_addr + sz) = unat begin_addr + unat sz" using assms(2) by (simp add: unat_word_ariths)
  then have e: "unat ?e \<le> unat begin_addr + unat sz" "unat ?e mod 4 = 0"
    unfolding rt_align_down_def and_not_3 by (simp_all add: minus_mod_eq_mult_div)
  have c: "24 < ?e" "?b \<le> ?e - 24" "p = ?b"
    using assms(1) b(2) by (auto simp: rt_smem_init_def Let_def split: if_splits)
  have e24: "unat (?e - 24) = unat ?e - 24" using c(1) by (simp add: unat_sub word_le_nat_alt word_less_nat_alt)
  then have g: "unat ?b + 24 \<le> unat ?e" using c(1,2) by (simp add: word_le_nat_alt word_less_nat_alt)
  have "?e - ?b - 24 = ?e - 24 - ?b" by simp
  then have "unat (?e - ?b - 24) = unat (?e - 24) - unat ?b" by (simp only: unat_sub[OF c(2)])
  then have ms: "unat (?e - ?b - 24) = unat ?e - unat ?b - 24" using e24 by simp
  have h: "h = \<lparr>items = mem(0 := \<lparr>pool = Mem_Freed, item_next = mem_size_aligned h + 12, item_prev = 0\<rparr>,
        mem_size_aligned h + 12 := \<lparr>pool = Mem_Used, item_next = mem_size_aligned h + 12, item_prev = mem_size_aligned h + 12\<rparr>),
      heap_end = mem_size_aligned h + 12, lfree = 0, mem_size_aligned = unat (?e - ?b - 24), mem_used = 0, mem_max = 0, bytes = data\<rparr>"
    using assms(1) b(2) by (auto simp: rt_smem_init_def Let_def split: if_splits)
  then have m: "mem_size_aligned h = unat ?e - unat ?b - 24" "heap_end h = mem_size_aligned h + 12" "lfree h = 0"
    "mem_used h = 0" "items h 0 = \<lparr>pool = Mem_Freed, item_next = mem_size_aligned h + 12, item_prev = 0\<rparr>"
    "pool (items h (mem_size_aligned h + 12)) = Mem_Used"
    using ms by (metis rt_small_mem.select_convs fun_upd_apply rt_small_mem_item.select_convs add_is_0 zero_neq_numeral)+
  have "mem_size_aligned h mod 4 = 0" using m(1) g e(2) b(1) s'(3) by presburger
  then have "smem_repr h [(mem_size_aligned h, False)]"
    using m g e(1) assms(2) b(1) by (simp add: smem_repr_def bsize_def)
  moreover have "unat p mod 4 = 0" using c(3) rt_align_mod by simp
  moreover have "unat begin_addr + 56 \<le> unat p" using c(3) b(1) s'(1) by simp
  moreover have "unat p + heap_end h + 12 \<le> unat begin_addr + unat sz" using m(1,2) c(3) g e(1) by simp
  ultimately show ?thesis by blast
qed

end
