(* ===== verification/Smem_Props.thy ===== *)
theory Smem_Props
  imports Smem_Inv
begin

text \<open>
  What the heap promises its users, for every state that a sequence of allocations, releases,
  resizings and writes can reach from a fresh heap, and two places where it does not keep
  its promise.
\<close>

section \<open>Reachable heaps\<close>

text \<open>A pointer to a live piece of memory with its size.\<close>

definition allocated :: "rt_small_mem \<Rightarrow> nat \<Rightarrow> nat \<Rightarrow> bool" where
  "allocated h q s \<longleftrightarrow> (\<exists>bs. smem_repr h bs \<and> (q, s) \<in> live bs)"

text \<open>
  Users release and resize only what they were given; what they write does not concern the
  headers.
\<close>

inductive heap_reach :: "rt_small_mem \<Rightarrow> bool" where
  heap_init: "rt_smem_init begin_addr sz mem data = Some (p, h) \<Longrightarrow> unat begin_addr + unat sz < 2 ^ 32 \<Longrightarrow>
    unat begin_addr + 62 < 2 ^ 32 \<Longrightarrow> heap_reach h"
| heap_alloc: "heap_reach h \<Longrightarrow> rt_smem_alloc n h = Inr (q, h') \<Longrightarrow> heap_reach h'"
| heap_free: "heap_reach h \<Longrightarrow> allocated h q s \<Longrightarrow> rt_smem_free (Some q) h = Inr h' \<Longrightarrow> heap_reach h'"
| heap_realloc: "heap_reach h \<Longrightarrow> allocated h q s \<Longrightarrow>
    rt_smem_realloc (Some q) n h = Inr (r, h') \<Longrightarrow> heap_reach h'"
| heap_write: "heap_reach h \<Longrightarrow> heap_reach (h\<lparr>bytes := d\<rparr>)"

lemma blocks_unique:
  assumes "blocks m pv p as" and "blocks m pv p bs" and "off as = off bs"
  shows "as = bs"
  using assms
proof (induction as arbitrary: pv p bs)
  case Nil
  then show ?case using bsize_pos(3)[of "hd bs"] by (cases bs) simp_all
next
  case (Cons a as)
  then obtain b bs' where b: "bs = b # bs'" using bsize_pos(3)[of a] by (cases bs) auto
  then have "bsize a = bsize b" "snd a = snd b" using Cons.prems by (auto split: if_splits)
  then have "a = b" by (cases a; cases b) (simp add: bsize_def)
  then show ?case using Cons b by auto
qed

lemma repr_unique: "smem_repr h as \<Longrightarrow> smem_repr h bs \<Longrightarrow> as = bs"
  using blocks_unique[of "items h" 0 0 as bs] by (simp add: smem_repr_def)

lemma allocatedD: "allocated h q s \<Longrightarrow> smem_repr h bs \<Longrightarrow> (q, s) \<in> live bs"
  unfolding allocated_def using repr_unique by blast

lemma alloc_total:
  assumes "smem_repr h bs"
  shows "\<exists>q h' bs'. rt_smem_alloc n h = Inr (q, h') \<and> smem_repr h' bs'"
proof (cases "n = 0")
  case False
  then show ?thesis
    using alloc_refines[OF assms False] assms by (cases "first_fit (request_size n) bs") auto
qed (use assms in \<open>auto simp: rt_smem_alloc_def\<close>)

lemma realloc_total:
  assumes "smem_repr h bs" and "(r, s) \<in> live bs"
  shows "\<exists>q h' bs'. rt_smem_realloc (Some r) n h = Inr (q, h') \<and> smem_repr h' bs'"
proof -
  consider "unat (rt_align n) > mem_size_aligned h" | "unat (rt_align n) = 0"
    | "0 < unat (rt_align n)" "unat (rt_align n) \<le> mem_size_aligned h" by linarith
  then show ?thesis
  proof cases
    case 1
    then show ?thesis using assms(1) by (auto simp: rt_smem_realloc_def Let_def)
  next
    case 2
    then show ?thesis using free_live[OF assms] by (auto simp: rt_smem_realloc_def Let_def)
  next
    case 3
    obtain q h' where q: "rt_smem_realloc (Some r) n h = Inr (q, h')"
      "case q of None \<Rightarrow> h' = h | Some q \<Rightarrow> \<exists>bs'. smem_repr h' bs'"
      using realloc_live[OF assms 3] by (force split: option.splits)
    then show ?thesis using assms(1) by (cases q) auto
  qed
qed

lemma heap_reach_repr: "heap_reach h \<Longrightarrow> \<exists>bs. smem_repr h bs"
proof (induction rule: heap_reach.induct)
  case heap_init
  then show ?case using init_repr by blast
next
  case (heap_alloc h n q h')
  then show ?case using alloc_total[of h _ n] by auto
next
  case (heap_free h q s h')
  then show ?case using free_live allocatedD by fastforce
next
  case (heap_realloc h q s n r h')
  then show ?case using realloc_total[of h _ q s n] allocatedD by fastforce
qed auto

section \<open>Properties\<close>

text \<open>
  C26. However a heap is used, its calls never fail an assertion, never leave the heap and never
  loop, its blocks fill it without a gap, no two free blocks are neighbours, and the live
  pieces of memory are aligned, lie inside the heap and do not overlap.
\<close>

theorem heap_safe:
  assumes "heap_reach h"
  shows "(\<exists>q h'. rt_smem_alloc n h = Inr (q, h')) \<and>
    (allocated h q s \<longrightarrow> (\<exists>h'. rt_smem_free (Some q) h = Inr h') \<and> (\<exists>r h'. rt_smem_realloc (Some q) n h = Inr (r, h')) \<and>
       q mod 4 = 0 \<and> 12 \<le> q \<and> q + s \<le> heap_end h) \<and>
    (allocated h q s \<longrightarrow> allocated h q' s' \<longrightarrow> (q, s) = (q', s') \<or> q + s \<le> q' \<or> q' + s' \<le> q) \<and>
    (\<exists>bs. blocks (items h) 0 0 bs \<and> off bs = heap_end h \<and> coalesced bs \<and> mem_used h = used_bytes bs)"
proof -
  obtain bs where bs: "smem_repr h bs" using heap_reach_repr[OF assms] by blast
  note r = smem_reprD[OF bs]
  have a: "(q, s) \<in> live bs" if "allocated h q s" for q s using allocatedD[OF that bs] .
  have "q mod 4 = 0 \<and> 12 \<le> q \<and> q + s \<le> heap_end h" if q: "allocated h q s"
  proof -
    obtain as cs where "bs = as @ (s, True) # cs" "q = off as + 12" using live_member[OF a[OF q]] by auto
    then show ?thesis using off_mod[of as] r(9) live_bounds[OF a[OF q]] r(3) by (simp add: mod_add_left_eq[symmetric])
  qed
  moreover have "(q, s) = (q', s') \<or> q + s \<le> q' \<or> q' + s' \<le> q" if "allocated h q s" "allocated h q' s'"
    using live_disjoint[OF a[OF that(1)] a[OF that(2)]] by auto
  moreover have "\<exists>h'. rt_smem_free (Some q) h = Inr h'" if "allocated h q s" using free_live[OF bs a[OF that]] by blast
  moreover have "\<exists>r h'. rt_smem_realloc (Some q) n h = Inr (r, h')" if "allocated h q s"
    using realloc_total[OF bs a[OF that]] by blast
  moreover have "\<exists>q h'. rt_smem_alloc n h = Inr (q, h')" using alloc_total[OF bs] by blast
  ultimately show ?thesis using r(1,3,8,10) by auto
qed

text \<open>A heap of 4 KiB.\<close>

abbreviation (input) blank_items :: "nat \<Rightarrow> rt_small_mem_item" where
  "blank_items \<equiv> \<lambda>_. \<lparr>pool = Pool_Null, item_next = 0, item_prev = 0\<rparr>"

abbreviation (input) blank_bytes :: "nat \<Rightarrow> u8" where "blank_bytes \<equiv> \<lambda>_. 0"

lemma fresh_heap:
  "\<exists>p h. rt_smem_init 0x24000000 4096 m d = Some (p, h) \<and> heap_reach h \<and> smem_repr h [(4016, False)]"
proof -
  have "rt_align 0x24000000 = 0x24000000" "rt_align 0x24000038 = 0x24000038" "rt_align_down 0x24001000 = 0x24001000"
    by (simp_all add: rt_align_def rt_align_down_def)
  then obtain p h where h: "rt_smem_init 0x24000000 4096 m d = Some (p, h)" "mem_size_aligned h = 4016"
    by (simp add: rt_smem_init_def Let_def)
  then show ?thesis using init_repr[OF h(1)] heap_init[OF h(1)] by auto
qed

theorem heap_safe_witness:
  "\<exists>p h q h'. rt_smem_init 0x24000000 4096 blank_items blank_bytes = Some (p, h) \<and> rt_smem_alloc 100 h = Inr (q, h')"
proof -
  obtain p h where h: "rt_smem_init 0x24000000 4096 blank_items blank_bytes = Some (p, h)" "heap_reach h" using fresh_heap by blast
  then show ?thesis using heap_safe[OF h(2), of 100] by blast
qed

text \<open>
  Allocation is complete and sound. It gives memory exactly when some free block is large
  enough; what it gives has at least the size asked for, is none of the live pieces, and
  leaves those and all data alone.
\<close>

theorem alloc_correct:
  assumes "smem_repr h bs" and "n \<noteq> 0" and "unat n \<le> 0xFFFFFFFC"
  shows "\<exists>q h'. rt_smem_alloc n h = Inr (q, h') \<and> bytes h' = bytes h \<and>
    (case q of None \<Rightarrow> h' = h \<and> (\<forall>b \<in> set bs. snd b \<or> fst b < request_size n)
     | Some q \<Rightarrow> \<exists>bs' s. smem_repr h' bs' \<and> live bs' = insert (q, s) (live bs) \<and> (\<forall>s'. (q, s') \<notin> live bs) \<and>
         unat n \<le> s \<and> (\<exists>b \<in> set bs. \<not> snd b \<and> request_size n \<le> fst b))"
proof (cases "first_fit (request_size n) bs")
  case None
  then show ?thesis using alloc_refines[OF assms(1,2)] first_fit_None[of "request_size n" bs] by auto
next
  case (Some pb)
  then obtain q h' where q: "rt_smem_alloc n h = Inr (Some q, h')"
    using alloc_refines[OF assms(1,2)] by (cases pb) auto
  have "\<exists>b \<in> set bs. \<not> snd b \<and> request_size n \<le> fst b"
    using Some first_fit_None[of "request_size n" bs] by (auto simp: not_less)
  moreover obtain bs' s where "smem_repr h' bs'" "bytes h' = bytes h" "request_size n \<le> s"
    "live bs' = insert (q, s) (live bs)" "\<forall>s'. (q, s') \<notin> live bs"
    using alloc_live[OF assms(1,2) q] by blast
  moreover from this have "unat n \<le> s" using request_size_ge[OF assms(3)] by simp
  ultimately show ?thesis using q by (intro exI[of _ "Some q"] exI[of _ h']) auto
qed

theorem alloc_correct_witness:
  "\<exists>p h q h'. rt_smem_init 0x24000000 4096 blank_items blank_bytes = Some (p, h) \<and> rt_smem_alloc 100 h = Inr (Some q, h')"
proof -
  obtain p h where h: "rt_smem_init 0x24000000 4096 blank_items blank_bytes = Some (p, h)" "smem_repr h [(4016, False)]"
    using fresh_heap by blast
  have "request_size 100 = 100" by (simp add: request_size_def rt_align_unat)
  moreover obtain q h' where "rt_smem_alloc 100 h = Inr (q, h')"
    "q = None \<longrightarrow> (\<forall>b \<in> set [(4016, False)]. snd b \<or> fst b < request_size 100)"
    using alloc_correct[OF h(2), of 100] by (auto split: option.splits)
  ultimately show ?thesis using h(1) by (cases q) auto
qed

text \<open>
  C32. Releasing what was just allocated undoes the allocation: the blocks of the heap, its
  count of used bytes and its first free block are what they were before.
\<close>

theorem alloc_free_roundtrip:
  assumes "smem_repr h bs" and "n \<noteq> 0" and "rt_smem_alloc n h = Inr (Some q, h1)"
  shows "\<exists>h2. rt_smem_free (Some q) h1 = Inr h2 \<and> smem_repr h2 bs \<and> mem_used h2 = mem_used h \<and> lfree h2 = lfree h"
proof -
  let ?n = "request_size n"
  obtain p bs' where p: "first_fit ?n bs = Some (p, bs')"
    using alloc_refines[OF assms(1,2)] assms(3) by (cases "first_fit ?n bs") auto
  then have q: "q = p + 12" "smem_repr h1 bs'" using alloc_refines[OF assms(1,2)] assms(3) by auto
  from first_fit_Some[OF p] obtain as s cs where d: "bs = as @ (s, False) # cs" "p = off as" "?n \<le> s"
    "bs' = as @ taken ?n s @ cs" by blast
  have "coalesced (as @ (s, False) # cs)" using smem_reprD(10)[OF assms(1)] by (simp only: d(1))
  then have "coalesced ((s, False) # cs)" and ca: "as = [] \<or> snd (last as)" by (auto simp: coalesced_append)
  then have cc: "cs = [] \<or> snd (hd cs)" by (cases cs) simp_all
  note c = ca cc
  obtain k ds where k: "taken ?n s @ cs = (k, True) # ds" "merge_next k ds = (s, cs)"
  proof (cases "?n + 24 \<le> s")
    case True
    then show thesis using that[of ?n "(s - ?n - 12, False) # cs"] by (simp add: taken_def)
  next
    case False
    moreover have "merge_next s cs = (s, cs)" using c(2) by (cases "(s, cs)" rule: merge_next.cases) auto
    ultimately show thesis using that[of s cs] by (simp add: taken_def)
  qed
  have "release as k ds = bs" using k(2) c(1) d(1) by (simp add: release_def)
  then obtain h2 where h2: "rt_smem_free (Some q) h1 = Inr h2" "smem_repr h2 bs"
    using free_refines[of h1 as k ds] q d(2,4) k(1) by auto
  have "mem_used h2 = mem_used h" by (simp only: smem_reprD(8)[OF h2(2)] smem_reprD(8)[OF assms(1)])
  moreover have "lfree h2 = lfree h" by (simp only: smem_reprD(7)[OF h2(2)] smem_reprD(7)[OF assms(1)])
  ultimately show ?thesis using h2 by blast
qed

theorem alloc_free_roundtrip_witness:
  "\<exists>p h q h1 h2. rt_smem_init 0x24000000 4096 blank_items blank_bytes = Some (p, h) \<and> rt_smem_alloc 100 h = Inr (Some q, h1) \<and>
    rt_smem_free (Some q) h1 = Inr h2 \<and> smem_repr h2 [(4016, False)]"
proof -
  obtain p h where h: "rt_smem_init 0x24000000 4096 blank_items blank_bytes = Some (p, h)" "smem_repr h [(4016, False)]"
    using fresh_heap by blast
  have "first_fit (request_size 100) [(4016, False)] = Some (0, [(100, True), (3904, False)])"
    by (simp add: request_size_def rt_align_unat)
  then obtain h1 where h1: "rt_smem_alloc 100 h = Inr (Some 12, h1)" using alloc_refines[OF h(2), of 100] by auto
  then show ?thesis using alloc_free_roundtrip[OF h(2) _ h1] h(1) by auto
qed

text \<open>
  Resizing a live piece of memory either fails and changes nothing, or gives a piece of at
  least the new size that is the only change to the live pieces, starts with the old data as
  far as they fit, and leaves the data of the other pieces alone.
\<close>

theorem realloc_correct:
  assumes "smem_repr h bs" and "(r, s) \<in> live bs" and "n \<noteq> 0" and "unat n \<le> 0xFFFFFFFC"
  shows "\<exists>q h'. rt_smem_realloc (Some r) n h = Inr (q, h') \<and>
    (case q of None \<Rightarrow> h' = h
     | Some q \<Rightarrow> \<exists>bs' s'. smem_repr h' bs' \<and> unat n \<le> s' \<and> live bs' = insert (q, s') (live bs - {(r, s)}) \<and>
         (\<forall>x < min s (unat n). bytes h' (q + x) = bytes h (r + x)) \<and>
         (\<forall>(q2, s2) \<in> live bs - {(r, s)}. \<forall>x < s2. bytes h' (q2 + x) = bytes h (q2 + x)))"
proof -
  have "0 < unat n" using assms(3) by (simp add: unat_gt_0)
  then have le: "unat n \<le> unat (rt_align n)" "0 < unat (rt_align n)"
    using assms(4) unfolding rt_align_unat by auto
  show ?thesis
  proof (cases "unat (rt_align n) \<le> mem_size_aligned h")
    case False
    then show ?thesis by (intro exI[of _ None] exI[of _ h]) (simp add: rt_smem_realloc_def Let_def)
  next
    case True
    obtain q h' where q: "rt_smem_realloc (Some r) n h = Inr (q, h')"
      "case q of None \<Rightarrow> h' = h
       | Some q \<Rightarrow> \<exists>bs' s'. smem_repr h' bs' \<and> unat (rt_align n) \<le> s' \<and> live bs' = insert (q, s') (live bs - {(r, s)}) \<and>
         (\<forall>x < min s (unat (rt_align n)). bytes h' (q + x) = bytes h (r + x)) \<and>
         (\<forall>(q2, s2) \<in> live bs - {(r, s)}. \<forall>x < s2. bytes h' (q2 + x) = bytes h (q2 + x))"
      using realloc_live[OF assms(1,2) le(2) True] by blast
    show ?thesis
    proof (cases q)
      case (Some q')
      then obtain bs' s' where "smem_repr h' bs'" "unat (rt_align n) \<le> s'" "live bs' = insert (q', s') (live bs - {(r, s)})"
        "\<forall>x < min s (unat (rt_align n)). bytes h' (q' + x) = bytes h (r + x)"
        "\<forall>(q2, s2) \<in> live bs - {(r, s)}. \<forall>x < s2. bytes h' (q2 + x) = bytes h (q2 + x)"
        using q(2) by auto
      then show ?thesis using q(1) Some le(1)
        by (intro exI[of _ q] exI[of _ h']) (simp, intro exI[of _ bs'] exI[of _ s'] conjI, auto)
    qed (use q in auto)
  qed
qed

theorem realloc_correct_witness:
  "\<exists>p h h1 q h2. rt_smem_init 0x24000000 4096 blank_items blank_bytes = Some (p, h) \<and> rt_smem_alloc 100 h = Inr (Some 12, h1) \<and>
    rt_smem_realloc (Some 12) 200 h1 = Inr (q, h2)"
proof -
  obtain p h where h: "rt_smem_init 0x24000000 4096 blank_items blank_bytes = Some (p, h)" "smem_repr h [(4016, False)]"
    using fresh_heap by blast
  have "first_fit (request_size 100) [(4016, False)] = Some (0, [(100, True), (3904, False)])"
    by (simp add: request_size_def rt_align_unat)
  then obtain h1 where h1: "rt_smem_alloc 100 h = Inr (Some 12, h1)" "smem_repr h1 [(100, True), (3904, False)]"
    using alloc_refines[OF h(2), of 100] by auto
  have "(12, 100) \<in> live [(100, True), (3904, False)]" by simp
  then show ?thesis using realloc_correct[OF h1(2), of 12 100 200] h(1) h1(1) by auto
qed

section \<open>Where the heap fails its users\<close>

text \<open>
  A request within three bytes of the top of the range is rounded up to zero and then to the
  least size: the heap hands out a few bytes for four gigabytes. Allocation succeeds, with a
  piece that is smaller than was asked for.
\<close>

theorem alloc_overflow:
  assumes "smem_repr h bs" and "0xFFFFFFFC < unat n" and "b \<in> set bs" and "\<not> snd b" and "12 \<le> fst b"
  shows "\<exists>q h' s. rt_smem_alloc n h = Inr (Some q, h') \<and> allocated h' q s \<and> s < unat n"
proof -
  have rs: "request_size n = 12" using assms(2) by (simp add: request_size_def rt_align_unat)
  have nz: "n \<noteq> 0" using assms(2) by auto
  have "first_fit 12 bs \<noteq> None" unfolding first_fit_None using assms(3-5) by auto
  then obtain q h' where q: "rt_smem_alloc n h = Inr (Some q, h')"
    using alloc_refines[OF assms(1) nz] rs by auto
  obtain bs' s where b: "smem_repr h' bs'" "live bs' = insert (q, s) (live bs)"
    using alloc_live[OF assms(1) nz q] by blast
  then have "q + s \<le> off bs'" "12 \<le> q" using live_bounds[of q s 0 bs'] by auto
  then have "s < unat n" using smem_reprD(3,5)[OF b(1)] assms(2) by simp
  then show ?thesis using q b by (auto simp: allocated_def)
qed

theorem alloc_overflow_witness:
  "\<exists>p h q h' s. rt_smem_init 0x24000000 4096 blank_items blank_bytes = Some (p, h) \<and> rt_smem_alloc 0xFFFFFFFF h = Inr (Some q, h') \<and>
    allocated h' q s \<and> s < 0xFFFFFFFF"
proof -
  obtain p h where h: "rt_smem_init 0x24000000 4096 blank_items blank_bytes = Some (p, h)" "smem_repr h [(4016, False)]"
    using fresh_heap by blast
  then show ?thesis using alloc_overflow[OF h(2), of "0xFFFFFFFF" "(4016, False)"] by auto
qed

text \<open>
  Making a piece of memory smaller by at most 24 bytes needs a second piece: in a full heap
  the call fails although the memory it was given would do.
\<close>

theorem realloc_shrink_fails:
  assumes "smem_repr h bs" and "(r, s) \<in> live bs" and "n \<noteq> 0" and "unat n mod 4 = 0" and "unat n < s"
    and "s \<le> unat n + 24" and "\<forall>b \<in> set bs. snd b"
  shows "rt_smem_realloc (Some r) n h = Inr (None, h)"
proof -
  obtain as cs where d: "bs = as @ (s, True) # cs" "r = off as + 12" using live_member[OF assms(2)] by auto
  note rp = smem_reprD[OF assms(1)]
  have a: "unat (rt_align n) = unat n"
  proof -
    have "4 * ((x + 3) div 4) = x" if "x mod 4 = 0" for x :: nat using that by presburger
    moreover have "unat n \<le> 0xFFFFFFFC"
      using off_member[of "(s, True)" bs] d rp(3,5) assms(5) by (simp add: bsize_def)
    ultimately show ?thesis using assms(4) unfolding rt_align_unat by simp
  qed
  have pos: "0 < unat n" using assms(3) by (simp add: unat_gt_0)
  have "unat n \<le> mem_size_aligned h" using off_member[of "(s, True)" bs] d rp(3,4) assms(5) by (simp add: bsize_def)
  then have body: "rt_smem_realloc (Some r) n h = bind_res (rt_smem_alloc (rt_align n) h) (\<lambda>(nmem, h1).
      case nmem of None \<Rightarrow> Inr (None, h1)
      | Some q \<Rightarrow> bind_res (rt_smem_free (Some r) (copy_bytes q r (min s (unat n)) h1)) (\<lambda>h2. Inr (nmem, h2)))"
    using realloc_body[of h as s cs n r, unfolded a] assms(1,5,6) d pos by simp
  have "first_fit k bs = None" for k unfolding first_fit_None using assms(7) by auto
  then have "rt_smem_alloc (rt_align n) h = Inr (None, h)"
    using alloc_refines[OF assms(1), of "rt_align n"] a pos by (auto simp: word_unat_eq_iff)
  then show ?thesis using body by simp
qed

text \<open>A heap that is one used block of 4016 bytes.\<close>

lemma full_heap:
  "\<exists>p h h1. rt_smem_init 0x24000000 4096 m d = Some (p, h) \<and> rt_smem_alloc 4016 h = Inr (Some 12, h1) \<and>
    smem_repr h1 [(4016, True)]"
proof -
  obtain p h where h: "rt_smem_init 0x24000000 4096 m d = Some (p, h)" "smem_repr h [(4016, False)]"
    using fresh_heap by blast
  have "first_fit (request_size 4016) [(4016, False)] = Some (0, [(4016, True)])"
    by (simp add: request_size_def rt_align_unat)
  then show ?thesis using alloc_refines[OF h(2), of 4016] h(1) by auto
qed

theorem realloc_shrink_fails_witness:
  "\<exists>p h h1. rt_smem_init 0x24000000 4096 blank_items blank_bytes = Some (p, h) \<and> rt_smem_alloc 4016 h = Inr (Some 12, h1) \<and>
    rt_smem_realloc (Some 12) 4000 h1 = Inr (None, h1)"
proof -
  obtain p h h1 where h: "rt_smem_init 0x24000000 4096 blank_items blank_bytes = Some (p, h)" "rt_smem_alloc 4016 h = Inr (Some 12, h1)"
    "smem_repr h1 [(4016, True)]" using full_heap by blast
  then show ?thesis using realloc_shrink_fails[OF h(3), of 12 4016 4000] by simp
qed

end
