(* ===== verification/C_String.thy ===== *)
theory C_String
  imports Prelude
begin

text \<open>Character arrays and the C strings in them.\<close>

abbreviation (input) nul :: char where "nul \<equiv> CHR 0x00"

definition char_at :: "string \<Rightarrow> nat \<Rightarrow> char res" where
  "char_at b i = (if i < length b then Inr (b ! i) else Inl Out_Of_Bounds)"

definition set_char :: "string \<Rightarrow> nat \<Rightarrow> char \<Rightarrow> string res" where
  "set_char b i c = (if i < length b then Inr (b[i := c]) else Inl Out_Of_Bounds)"

text \<open>The string at the start of an array, which needs an end mark, and the string at an offset.\<close>

definition c_text :: "string \<Rightarrow> string res" where
  "c_text b = (if nul \<in> set b then Inr (takeWhile (\<lambda>c. c \<noteq> nul) b) else Inl Out_Of_Bounds)"

definition c_string :: "string \<Rightarrow> nat \<Rightarrow> string" where
  "c_string b i = takeWhile (\<lambda>c. c \<noteq> nul) (drop i b)"

text \<open>\<^verbatim>\<open>memmove\<close> within an array.\<close>

definition memmove :: "nat \<Rightarrow> nat \<Rightarrow> nat \<Rightarrow> string \<Rightarrow> string res" where
  "memmove dst src n b =
     (if dst + n \<le> length b \<and> src + n \<le> length b
      then Inr (take dst b @ take n (drop src b) @ drop (dst + n) b) else Inl Out_Of_Bounds)"

text \<open>\<^verbatim>\<open>memcpy\<close> of the bytes \<open>cs\<close> to an offset.\<close>

definition copy_to :: "nat \<Rightarrow> string \<Rightarrow> string \<Rightarrow> string res" where
  "copy_to i cs b =
     (if i + length cs \<le> length b then Inr (take i b @ cs @ drop (i + length cs) b) else Inl Out_Of_Bounds)"

lemma char_at_ok [simp]: "i < length b \<Longrightarrow> char_at b i = Inr (b ! i)"
  by (simp add: char_at_def)

lemma set_char_ok [simp]: "i < length b \<Longrightarrow> set_char b i c = Inr (b[i := c])"
  by (simp add: set_char_def)

lemma takeWhile_nul: "nul \<notin> set w \<Longrightarrow> takeWhile (\<lambda>c. c \<noteq> nul) (w @ nul # post) = w"
  by (induction w) auto

lemma c_string_at: "nul \<notin> set w \<Longrightarrow> length pre = i \<Longrightarrow> c_string (pre @ w @ nul # post) i = w"
  by (simp add: c_string_def takeWhile_nul)

end
