(* ===== verification/Dfs_Path.thy ===== *)
theory Dfs_Path
  imports C_String
begin

text \<open>
  Paths (\<^verbatim>\<open>dfs_normalize_path\<close> and \<^verbatim>\<open>dfs_subdir\<close> of \<^verbatim>\<open>components/dfs/src/dfs.c\<close>). The path is
  rewritten in place, with one pointer that reads and one that writes. The specification
  works on the components of the path and a stack of directories.
\<close>

section \<open>The code\<close>

function skip_slashes :: "string \<Rightarrow> nat \<Rightarrow> nat res" where
  "skip_slashes b i =
     (if i < length b then if b ! i = CHR ''/'' then skip_slashes b (i + 1) else Inr i else Inl Out_Of_Bounds)"
  by pat_completeness auto

termination by (relation "measure (\<lambda>(b, i). length b - i)") auto

text \<open>Copy up to a slash or the end, which is the character that is returned.\<close>

function copy_up :: "string \<Rightarrow> nat \<Rightarrow> nat \<Rightarrow> (string \<times> char \<times> nat \<times> nat) res" where
  "copy_up b src dst =
     (if src < length b
      then if b ! src \<noteq> nul \<and> b ! src \<noteq> CHR ''/''
           then if dst < length b then copy_up (b[dst := b ! src]) (src + 1) (dst + 1) else Inl Out_Of_Bounds
           else Inr (b, b ! src, src + 1, dst)
      else Inl Out_Of_Bounds)"
  by pat_completeness auto

termination by (relation "measure (\<lambda>(b, src, dst). length b - src)") auto

declare skip_slashes.simps [simp del] and copy_up.simps [simp del]

text \<open>Back to behind the slash before.\<close>

fun back_up :: "string \<Rightarrow> nat \<Rightarrow> nat res" where
  "back_up b 0 = Inr 0"
| "back_up b (Suc d) =
     (if d < length b then if b ! d \<noteq> CHR ''/'' then back_up b d else Inr (Suc d) else Inl Out_Of_Bounds)"

datatype norm_result = Again string nat nat | Stop string nat | No_Path

definition up_one :: "string \<Rightarrow> nat \<Rightarrow> nat \<Rightarrow> norm_result res" where
  "up_one b src dst = (if dst = 0 then Inr No_Path else bind_res (back_up b (dst - 1)) (\<lambda>d. Inr (Again b src d)))"

definition copy_component :: "string \<Rightarrow> nat \<Rightarrow> nat \<Rightarrow> norm_result res" where
  "copy_component b src dst =
     bind_res (copy_up b src dst) (\<lambda>(b1, c, src1, dst1).
       if c = CHR ''/''
       then bind_res (set_char b1 dst1 (CHR ''/'')) (\<lambda>b2. bind_res (skip_slashes b2 src1) (\<lambda>src2. Inr (Again b2 src2 (dst1 + 1))))
       else Inr (Stop b1 dst1))"

text \<open>One round of the loop.\<close>

definition normalize_round :: "string \<Rightarrow> nat \<Rightarrow> nat \<Rightarrow> norm_result res" where
  "normalize_round b src dst =
     bind_res (char_at b src) (\<lambda>c.
       if c \<noteq> CHR ''.'' then copy_component b src dst
       else bind_res (char_at b (src + 1)) (\<lambda>c1.
         if c1 = nul then copy_component b (src + 1) dst
         else if c1 = CHR ''/'' then bind_res (skip_slashes b (src + 2)) (\<lambda>src1. Inr (Again b src1 dst))
         else if c1 = CHR ''.''
         then bind_res (char_at b (src + 2)) (\<lambda>c2.
                if c2 = nul then up_one b (src + 2) dst
                else if c2 = CHR ''/'' then bind_res (skip_slashes b (src + 3)) (\<lambda>src1. up_one b src1 dst)
                else copy_component b src dst)
         else copy_component b src dst))"

text \<open>The loop; every round reads at least one character, so the length of the buffer is enough fuel.\<close>

fun normalize_loop :: "nat \<Rightarrow> string \<Rightarrow> nat \<Rightarrow> nat \<Rightarrow> (string \<times> nat) option res" where
  "normalize_loop 0 b src dst = Inl Would_Wait"
| "normalize_loop (Suc n) b src dst =
     bind_res (normalize_round b src dst) (\<lambda>r. case r of
         Again b1 src1 dst1 \<Rightarrow> normalize_loop n b1 src1 dst1
       | Stop b1 dst1 \<Rightarrow> Inr (Some (b1, dst1))
       | No_Path \<Rightarrow> Inr None)"

text \<open>
  The end of the function. The byte before the write pointer is read even if the pointer is
  at the start of the buffer.
\<close>

definition normalize_end :: "string \<Rightarrow> nat \<Rightarrow> string res" where
  "normalize_end b dst =
     bind_res (set_char b dst nul) (\<lambda>b1.
     if dst = 0 then Inl Out_Of_Bounds
     else let b2 = (if dst - 1 \<noteq> 0 \<and> b1 ! (dst - 1) = CHR ''/'' then b1[dst - 1 := nul] else b1) in
       if b2 ! 0 = nul then bind_res (set_char b2 1 nul) (\<lambda>b3. Inr (b3[0 := CHR ''/''])) else Inr b2)"

text \<open>
  The arguments are C strings without their end mark; \<open>mem\<close>: the allocation succeeds. A
  missing directory is the working directory.
\<close>

definition dfs_normalize_path :: "bool \<Rightarrow> string \<Rightarrow> string option \<Rightarrow> string \<Rightarrow> string option res" where
  "dfs_normalize_path mem working_directory directory filename =
     (let dir = (case directory of None \<Rightarrow> working_directory | Some d \<Rightarrow> d);
          b = (if filename = [] \<or> hd filename \<noteq> CHR ''/'' then dir @ CHR ''/'' # filename else filename) @ [nul]
      in if \<not> mem then Inr None
         else bind_res (normalize_loop (length b) b 0 0) (\<lambda>r. case r of
             None \<Rightarrow> Inr None
           | Some (b1, dst) \<Rightarrow> bind_res (normalize_end b1 dst) (\<lambda>b2. Inr (Some (takeWhile (\<lambda>c. c \<noteq> nul) b2)))))"

text \<open>The part of a path below a directory; \<open>None\<close> is the null pointer.\<close>

definition dfs_subdir :: "string \<Rightarrow> string \<Rightarrow> string option res" where
  "dfs_subdir directory filename =
     (let n = length directory in
      if n = length filename then Inr None
      else if n > length filename then Inl Out_Of_Bounds
      else Inr (Some (drop (if filename ! n \<noteq> CHR ''/'' \<and> n \<noteq> 0 then n - 1 else n) filename)))"

section \<open>Components\<close>

text \<open>The components of a path.\<close>

function components :: "string \<Rightarrow> string list" where
  "components [] = []"
| "components (c # s) =
     (if c = CHR ''/'' then components s
      else (c # takeWhile (\<lambda>c. c \<noteq> CHR ''/'') s) # components (dropWhile (\<lambda>c. c \<noteq> CHR ''/'') s))"
  by pat_completeness auto

termination
  by (relation "measure length") (auto simp: le_imp_less_Suc length_dropWhile_le)

text \<open>
  A stack of directories, and whether it stands on the root. Going up from the root loses the
  root, as it does in the code; going up from nothing fails.
\<close>

fun enter :: "string \<Rightarrow> bool \<times> string list \<Rightarrow> (bool \<times> string list) option" where
  "enter c (rooted, ds) =
     (if c = ''.'' then Some (rooted, ds)
      else if c = ''..'' then if ds \<noteq> [] then Some (rooted, butlast ds) else if rooted then Some (False, []) else None
      else Some (rooted, ds @ [c]))"

fun enter_all :: "string list \<Rightarrow> bool \<times> string list \<Rightarrow> (bool \<times> string list) option" where
  "enter_all [] st = Some st"
| "enter_all (c # cs) st = Option.bind (enter c st) (enter_all cs)"

definition path_text :: "bool \<times> string list \<Rightarrow> string" where
  "path_text st = (if fst st then ''/'' else []) @ concat (map (\<lambda>d. d @ ''/'') (snd st))"

text \<open>A path is written without a slash at its end, but for the root.\<close>

definition path_string :: "bool \<times> string list \<Rightarrow> string" where
  "path_string st = (let s = path_text st in if 1 < length s then butlast s else s)"

section \<open>Correctness\<close>

lemma skip_slashes_ok:
  assumes "drop i b = r @ [nul]"
  shows "skip_slashes b i = Inr (i + length (takeWhile (\<lambda>c. c = CHR ''/'') r))"
  using assms
proof (induction r arbitrary: i)
  case Nil
  then have "i < length b" "b ! i = nul" by (metis append_Nil drop_eq_Nil leI list.distinct(1), metis append_Nil nth_via_drop)
  then show ?case by (subst skip_slashes.simps) simp
next
  case (Cons c r)
  have i: "i < length b" using Cons.prems by (metis append_Cons drop_eq_Nil leI list.distinct(1))
  then have c: "b ! i = c" "drop (i + 1) b = r @ [nul]"
    using Cons.prems by (metis append_Cons nth_via_drop, metis Suc_eq_plus1 append_Cons drop_Suc list.sel(3) tl_drop)
  show ?case using Cons.IH[OF c(2)] i c(1) by (subst skip_slashes.simps) simp
qed

lemma copy_up_ok:
  assumes "drop src b = c @ x # ts" and "\<forall>y \<in> set c. y \<noteq> nul \<and> y \<noteq> CHR ''/''" and "x = nul \<or> x = CHR ''/''" and "dst \<le> src"
  shows "\<exists>b'. copy_up b src dst = Inr (b', x, src + length c + 1, dst + length c) \<and> length b' = length b \<and>
    take (dst + length c) b' = take dst b @ c \<and> drop (src + length c) b' = x # ts"
  using assms
proof (induction c arbitrary: b src dst)
  case Nil
  then have "src < length b" "b ! src = x" by (metis append_Nil drop_eq_Nil leI list.distinct(1), metis append_Nil nth_via_drop)
  then show ?case using Nil by (subst copy_up.simps) auto
next
  case (Cons y c)
  have l: "src < length b" "b ! src = y"
    using Cons.prems(1) by (metis append_Cons drop_eq_Nil leI list.distinct(1), metis append_Cons nth_via_drop)
  let ?b = "b[dst := y]"
  have "drop (src + 1) b = c @ x # ts" using Cons.prems(1) by (metis Suc_eq_plus1 append_Cons drop_Suc list.sel(3) tl_drop)
  then have d: "drop (src + 1) ?b = c @ x # ts" using Cons.prems(4) by simp
  have dl: "dst < length b" using Cons.prems(4) l(1) by simp
  then have t: "take (Suc dst) ?b = take dst b @ [y]" by (simp add: take_Suc_conv_app_nth)
  obtain b' where "copy_up ?b (src + 1) (dst + 1) = Inr (b', x, src + 1 + length c + 1, dst + 1 + length c)" "length b' = length ?b"
    "take (dst + 1 + length c) b' = take (dst + 1) ?b @ c" "drop (src + 1 + length c) b' = x # ts"
    using Cons.IH[OF d, of "dst + 1"] Cons.prems(2-4) by auto
  moreover have "copy_up b src dst = copy_up ?b (src + 1) (dst + 1)"
    by (subst copy_up.simps) (use l dl Cons.prems(2) in simp)
  ultimately show ?case using t by (intro exI[of _ b']) simp
qed

text \<open>The part of the buffer that has been written is a path text; the rest has not been touched.\<close>

definition path_chars :: "bool \<times> string list \<Rightarrow> bool" where
  "path_chars st \<longleftrightarrow> (\<forall>d \<in> set (snd st). d \<noteq> [] \<and> CHR ''/'' \<notin> set d \<and> nul \<notin> set d)"

lemma path_text_snoc: "path_text (r, ds @ [d]) = path_text (r, ds) @ d @ ''/''"
  by (simp add: path_text_def)

lemma back_up_ok:
  assumes "take (n + length c) b = t @ c" and "length t = n" and "CHR ''/'' \<notin> set c" and "t = [] \<or> last t = CHR ''/''"
  shows "back_up b (n + length c) = Inr n"
  using assms
proof (induction c rule: rev_induct)
  case Nil
  show ?case
  proof (cases n)
    case (Suc k)
    have k: "k < length b" using arg_cong[OF Nil(1), of length] Nil(2) Suc by simp
    then have "t = take k b @ [b ! k]" using Nil(1) Suc by (simp add: take_Suc_conv_app_nth)
    then have "b ! k = CHR ''/''" using Nil(4) by auto
    then show ?thesis using Suc k by simp
  qed simp
next
  case (snoc x c)
  have l: "n + length c < length b" using arg_cong[OF snoc.prems(1), of length] snoc.prems(2) by simp
  then have "take (n + length c) b @ [b ! (n + length c)] = (t @ c) @ [x]"
    using snoc.prems(1) by (simp add: take_Suc_conv_app_nth)
  then have "take (n + length c) b = t @ c" "b ! (n + length c) = x" by simp_all
  moreover have "x \<noteq> CHR ''/''" using snoc.prems(3) by auto
  ultimately show ?case using snoc l by simp
qed

lemma up_one_ok:
  assumes "take dst b = path_text st" and "dst = length (path_text st)" and "path_chars st" and "st = (rooted, ds)"
  shows "up_one b src dst = Inr (case enter ''..'' st of None \<Rightarrow> No_Path | Some st' \<Rightarrow> Again b src (length (path_text st')))"
    and "enter ''..'' st = Some st' \<Longrightarrow> take (length (path_text st')) b = path_text st' \<and> length (path_text st') \<le> dst \<and> path_chars st'"
proof -
  have e: "ds \<noteq> [] \<Longrightarrow> path_text st = path_text (rooted, butlast ds) @ last ds @ ''/''"
    using assms(4) path_text_snoc[of rooted "butlast ds" "last ds"] by simp
  have l: "path_text (rooted, es) = [] \<or> last (path_text (rooted, es)) = CHR ''/''" for es
    by (cases es rule: rev_cases) (auto simp: path_text_def)
  have n: "ds \<noteq> [] \<Longrightarrow> CHR ''/'' \<notin> set (last ds)" using assms(3,4) by (simp add: path_chars_def)
  have b: "back_up b (dst - 1) = Inr (length (path_text (rooted, butlast ds)))" if "ds \<noteq> []"
  proof -
    have "dst - 1 = length (path_text (rooted, butlast ds)) + length (last ds)" using e[OF that] assms(2) by simp
    moreover have "take (dst - 1) b = path_text (rooted, butlast ds) @ last ds"
      using arg_cong[OF assms(1), of "take (dst - 1)"] e[OF that] calculation by simp
    ultimately show ?thesis using back_up_ok[OF _ refl n[OF that] l] by metis
  qed
  show "up_one b src dst = Inr (case enter ''..'' st of None \<Rightarrow> No_Path | Some st' \<Rightarrow> Again b src (length (path_text st')))"
  proof (cases "ds = []")
    case False
    then have "dst \<noteq> 0" using e assms(2) by simp
    then show ?thesis using b[OF False] False assms(4) by (simp add: up_one_def)
  next
    case True
    then show ?thesis using assms(2,4) by (cases rooted) (simp_all add: up_one_def path_text_def)
  qed
  show "enter ''..'' st = Some st' \<Longrightarrow> take (length (path_text st')) b = path_text st' \<and> length (path_text st') \<le> dst \<and> path_chars st'"
  proof -
    assume s: "enter ''..'' st = Some st'"
    show ?thesis
    proof (cases "ds = []")
      case True
      then show ?thesis using s assms(4) by (cases rooted) (auto simp: path_text_def path_chars_def)
    next
      case False
      then have st': "st' = (rooted, butlast ds)" using s assms(4) by simp
      then have "take (length (path_text st')) (take dst b) = path_text st'" using assms(1) e[OF False] by simp
      then show ?thesis
        using st' assms(2,3,4) e[OF False] by (auto simp: path_chars_def min_def dest: in_set_butlastD)
    qed
  qed
qed

text \<open>The state of the loop at the start of a component, \<open>r\<close> being what is left to read.\<close>

definition norm_at :: "string \<Rightarrow> nat \<Rightarrow> nat \<Rightarrow> string \<Rightarrow> bool \<times> string list \<Rightarrow> bool" where
  "norm_at b src dst r st \<longleftrightarrow> drop src b = r @ [nul] \<and> nul \<notin> set r \<and> (r = [] \<or> hd r \<noteq> CHR ''/'') \<and>
     take dst b = path_text st \<and> dst = length (path_text st) \<and> dst \<le> src \<and> path_chars st"

definition norm_done :: "string \<Rightarrow> nat \<Rightarrow> bool \<times> string list \<Rightarrow> bool" where
  "norm_done b d st \<longleftrightarrow> d < length b \<and> nul \<notin> set (path_text st) \<and>
     (take d b = path_text st \<or>
      take d b @ ''/'' = path_text st \<and> take d b \<noteq> [] \<and> last (take d b) \<noteq> CHR ''/'')"

lemma path_text_chars: "path_chars st \<Longrightarrow> nul \<notin> set (path_text st)"
  by (auto simp: path_chars_def path_text_def)

lemma norm_read:
  assumes "drop src b = r @ [nul]" and "i \<le> length r"
  shows "char_at b (src + i) = Inr ((r @ [nul]) ! i)"
proof -
  have l: "length b = src + length r + 1" using arg_cong[OF assms(1), of length] by simp
  then have "b ! (src + i) = drop src b ! i" using assms(2) by simp
  then show ?thesis using assms l by (simp add: char_at_def)
qed

lemma norm_skip:
  assumes "drop src b = r @ [nul]" and "nul \<notin> set r"
  defines "r' \<equiv> dropWhile (\<lambda>c. c = CHR ''/'') r"
  shows "\<exists>s. skip_slashes b src = Inr s \<and> src \<le> s \<and> drop s b = r' @ [nul] \<and> nul \<notin> set r' \<and> (r' = [] \<or> hd r' \<noteq> CHR ''/'') \<and>
    length r' \<le> length r"
proof -
  let ?k = "length (takeWhile (\<lambda>c. c = CHR ''/'') r)"
  have r: "r' = drop ?k r" by (simp add: r'_def dropWhile_eq_drop)
  have "drop ?k (drop src b) = r' @ [nul]"
    unfolding assms(1) using r length_takeWhile_le[of "\<lambda>c. c = CHR ''/''" r] by simp
  then have "drop (src + ?k) b = r' @ [nul]" by (simp add: add.commute)
  moreover have "nul \<notin> set r'" using assms(2) set_dropWhileD by (fastforce simp: r'_def)
  moreover have "r' = [] \<or> hd r' \<noteq> CHR ''/''" using hd_dropWhile[of "\<lambda>c. c = CHR ''/''" r] by (auto simp: r'_def)
  ultimately show ?thesis using skip_slashes_ok[OF assms(1)] by (auto simp: r'_def length_dropWhile_le)
qed

lemma components_skip: "components (dropWhile (\<lambda>c. c = CHR ''/'') r) = components r"
  by (induction r) auto

lemma components_split:
  assumes "c \<noteq> []" and "CHR ''/'' \<notin> set c"
  shows "components (c @ CHR ''/'' # r) = c # components r" and "components c = [c]"
proof -
  obtain x c' where c: "c = x # c'" using assms(1) by (cases c) auto
  have t: "takeWhile (\<lambda>c. c \<noteq> CHR ''/'') (c' @ CHR ''/'' # r) = c'" "dropWhile (\<lambda>c. c \<noteq> CHR ''/'') (c' @ CHR ''/'' # r) = CHR ''/'' # r"
    "takeWhile (\<lambda>c. c \<noteq> CHR ''/'') c' = c'" "dropWhile (\<lambda>c. c \<noteq> CHR ''/'') c' = []"
    using assms(2) c by (induction c' arbitrary: c) auto
  have x: "x \<noteq> CHR ''/''" using assms(2) c by auto
  show "components (c @ CHR ''/'' # r) = c # components r" unfolding c by (simp add: x t(1,2))
  show "components c = [c]" unfolding c by (simp add: x t(3,4))
qed

lemma first_component:
  assumes "r \<noteq> []" and "hd r \<noteq> CHR ''/''"
  obtains c where "c \<noteq> []" "CHR ''/'' \<notin> set c" "r = c"
    | c r1 where "c \<noteq> []" "CHR ''/'' \<notin> set c" "r = c @ CHR ''/'' # r1"
proof -
  let ?P = "\<lambda>c. c \<noteq> CHR ''/''"
  have c: "takeWhile ?P r \<noteq> []" using assms by (cases r) auto
  have n: "CHR ''/'' \<notin> set (takeWhile ?P r)" by (auto dest: set_takeWhileD)
  show ?thesis
  proof (cases "dropWhile ?P r")
    case Nil
    then have "r = takeWhile ?P r" by (metis append_Nil2 takeWhile_dropWhile_id)
    then show ?thesis using that(1) c n by blast
  next
    case (Cons x xs)
    then have "x = CHR ''/''" using hd_dropWhile[of ?P r] by simp
    then have "r = takeWhile ?P r @ CHR ''/'' # xs" using Cons by (metis takeWhile_dropWhile_id)
    then show ?thesis using that(2) c n by blast
  qed
qed

text \<open>One round is one component.\<close>

definition round_ok :: "string \<Rightarrow> string \<Rightarrow> bool \<times> string list \<Rightarrow> norm_result res \<Rightarrow> bool" where
  "round_ok b r st x \<longleftrightarrow> (case x of
       Inr (Again b' s d) \<Rightarrow> length b' = length b \<and> norm_at b' s d r st
     | Inr (Stop b' d) \<Rightarrow> r = [] \<and> length b' = length b \<and> norm_done b' d st
     | _ \<Rightarrow> False)"

lemma norm_copy_end:
  assumes "norm_at b src dst r st" and "r = c" and "CHR ''/'' \<notin> set c" and "c \<noteq> []"
  shows "round_ok b [] (fst st, snd st @ [c]) (copy_component b src dst)"
proof -
  have a: "drop src b = c @ nul # []" "nul \<notin> set c" "take dst b = path_text st" "dst \<le> src" "path_chars st"
    using assms(1,2) unfolding norm_at_def by auto
  have y: "\<forall>y \<in> set c. y \<noteq> nul \<and> y \<noteq> CHR ''/''" using a(2) assms(3) by auto
  obtain b' where b': "copy_up b src dst = Inr (b', nul, src + length c + 1, dst + length c)" "length b' = length b"
    "take (dst + length c) b' = path_text st @ c"
    using copy_up_ok[OF a(1) y _ a(4)] a(3) by auto
  have "src + length c < length b" using arg_cong[OF a(1), of length] by simp
  moreover have "nul \<notin> set (path_text st)" using a(5) by (rule path_text_chars)
  moreover have "last c \<noteq> CHR ''/''" using assms(3,4) by (metis last_in_set)
  ultimately have "norm_done b' (dst + length c) (fst st, snd st @ [c])"
    using b' a assms(4) by (simp add: norm_done_def path_text_snoc)
  then show ?thesis using b' by (simp add: copy_component_def round_ok_def)
qed

lemma norm_copy_slash:
  assumes "norm_at b src dst r st" and "r = c @ CHR ''/'' # r1" and "CHR ''/'' \<notin> set c" and "c \<noteq> []"
  shows "round_ok b (dropWhile (\<lambda>c. c = CHR ''/'') r1) (fst st, snd st @ [c]) (copy_component b src dst)"
proof -
  have a: "drop src b = c @ CHR ''/'' # r1 @ [nul]" "nul \<notin> set c" "take dst b = path_text st" "dst \<le> src" "path_chars st"
    "nul \<notin> set r1"
    using assms(1,2) unfolding norm_at_def by auto
  obtain b1 where b1: "copy_up b src dst = Inr (b1, CHR ''/'', src + length c + 1, dst + length c)" "length b1 = length b"
    "take (dst + length c) b1 = take dst b @ c" "drop (src + length c) b1 = CHR ''/'' # r1 @ [nul]"
    using copy_up_ok[OF a(1), of dst] a assms(3) by auto
  let ?b2 = "b1[dst + length c := CHR ''/'']"
  have l: "dst + length c < length b1" using a(4) arg_cong[OF b1(4), of length] by simp
  have "drop (src + length c + 1) b1 = r1 @ [nul]"
    using arg_cong[OF b1(4), of "drop 1"] by (simp add: add.commute)
  then have "drop (src + length c + 1) ?b2 = r1 @ [nul]" using a(4) by simp
  from norm_skip[OF this a(6)] obtain s where s: "skip_slashes ?b2 (src + length c + 1) = Inr s" "src + length c + 1 \<le> s"
    "drop s ?b2 = dropWhile (\<lambda>c. c = CHR ''/'') r1 @ [nul]" "nul \<notin> set (dropWhile (\<lambda>c. c = CHR ''/'') r1)"
    "dropWhile (\<lambda>c. c = CHR ''/'') r1 = [] \<or> hd (dropWhile (\<lambda>c. c = CHR ''/'') r1) \<noteq> CHR ''/''" by blast
  have t: "take (dst + length c + 1) ?b2 = path_text (fst st, snd st @ [c])"
    using b1(3) a(3) l by (simp add: take_Suc_conv_app_nth path_text_snoc)
  moreover have "dst + length c + 1 = length (path_text (fst st, snd st @ [c]))" using arg_cong[OF t, of length] l by simp
  moreover have "path_chars (fst st, snd st @ [c])" using a(2,5) assms(3,4) by (auto simp: path_chars_def)
  ultimately have "norm_at ?b2 s (dst + length c + 1) (dropWhile (\<lambda>c. c = CHR ''/'') r1) (fst st, snd st @ [c])"
    using s a(4) by (simp add: norm_at_def)
  then show ?thesis using b1(1,2) l s(1) by (simp add: copy_component_def round_ok_def set_char_def)
qed

lemma norm_stop:
  assumes "drop src b = [nul]" and "take dst b = path_text st" and "dst \<le> src" and "path_chars st"
  shows "\<exists>b' d. copy_component b src dst = Inr (Stop b' d) \<and> length b' = length b \<and> norm_done b' d st"
proof -
  have "src < length b" using arg_cong[OF assms(1), of length] by simp
  then show ?thesis using copy_up_ok[of src b "[]" nul "[]" dst] assms path_text_chars[OF assms(4)]
    by (auto simp: copy_component_def norm_done_def)
qed

text \<open>The first characters of a component decide what the round does.\<close>

lemma round_copies:
  assumes "drop src b = c @ x # ts" and "x = nul \<or> x = CHR ''/''" and "\<forall>y \<in> set c. y \<noteq> nul \<and> y \<noteq> CHR ''/''"
    and "c \<noteq> ''.''" and "c \<noteq> ''..''"
  shows "normalize_round b src dst = copy_component b src dst"
proof -
  have l: "length b = src + length c + 1 + length ts" using arg_cong[OF assms(1), of length] by simp
  have n: "char_at b (src + i) = Inr ((c @ x # ts) ! i)" if "i \<le> length c" for i
  proof -
    have "b ! (src + i) = drop src b ! i" using l that by simp
    then show ?thesis using assms(1) l that by (simp add: char_at_def)
  qed
  consider "c = [] \<or> hd c \<noteq> CHR ''.''" | d c1 where "c = CHR ''.'' # d # c1" "d \<noteq> CHR ''.''"
    | e c1 where "c = CHR ''.'' # CHR ''.'' # e # c1"
    using assms(4,5) by (cases c rule: list.exhaust; cases "tl c"; cases "tl (tl c)") auto
  then show ?thesis
  proof cases
    case 1
    then have "char_at b src = Inr (hd (c @ [x]))" "hd (c @ [x]) \<noteq> CHR ''.''"
      using n[of 0] assms(2) by (cases c; auto)+
    then show ?thesis by (simp add: normalize_round_def)
  next
    case 2
    then show ?thesis using n[of 0] n[of 1] assms(3) by (simp add: normalize_round_def)
  next
    case 3
    then show ?thesis using n[of 0] n[of 1] n[of 2] assms(3) by (simp add: normalize_round_def numeral_2_eq_2)
  qed
qed

definition rest_ok :: "string \<Rightarrow> string \<Rightarrow> string option \<Rightarrow> bool \<times> string list \<Rightarrow> norm_result res \<Rightarrow> bool" where
  "rest_ok b c r1 st x \<longleftrightarrow> (case enter c st of
       None \<Rightarrow> x = Inr No_Path
     | Some st' \<Rightarrow> round_ok b (case r1 of None \<Rightarrow> [] | Some r \<Rightarrow> dropWhile (\<lambda>c. c = CHR ''/'') r) st' x)"

lemma up_one_rest:
  assumes "take dst b = path_text st" and "dst = length (path_text st)" and "path_chars st" and "dst \<le> s"
    and "drop s b = r @ [nul]" and "nul \<notin> set r" and "r = [] \<or> hd r \<noteq> CHR ''/''"
  shows "case enter ''..'' st of None \<Rightarrow> up_one b s dst = Inr No_Path | Some st' \<Rightarrow> round_ok b r st' (up_one b s dst)"
proof (cases "enter ''..'' st")
  case None
  then show ?thesis using up_one_ok(1)[OF assms(1-3), of "fst st" "snd st" s] by simp
next
  case (Some st')
  have "norm_at b s (length (path_text st')) r st'"
    using up_one_ok(2)[OF assms(1-3), of "fst st" "snd st" st'] Some assms(4-7) unfolding norm_at_def by simp
  then show ?thesis using up_one_ok(1)[OF assms(1-3), of "fst st" "snd st" s] Some by (simp add: round_ok_def del: enter.simps)
qed

lemma round_end:
  assumes "norm_at b src dst r st" and "r = c" and "CHR ''/'' \<notin> set c" and "c \<noteq> []"
  shows "rest_ok b c None st (normalize_round b src dst)"
proof -
  have a: "drop src b = c @ [nul]" "nul \<notin> set c" "take dst b = path_text st" "dst \<le> src" "path_chars st"
    "dst = length (path_text st)"
    using assms(1,2) unfolding norm_at_def by auto
  consider "c = ''.''" | "c = ''..''" | "c \<noteq> ''.''" "c \<noteq> ''..''" by blast
  then show ?thesis
  proof cases
    case 1
    have d: "drop (src + 1) b = [nul]" using arg_cong[OF a(1), of "drop 1"] 1 by (simp add: add.commute)
    then have "round_ok b [] st (copy_component b (src + 1) dst)"
      using norm_stop[OF d a(3) _ a(5)] a(4) by (auto simp: round_ok_def)
    moreover have "char_at b src = Inr (CHR ''.'')" "char_at b (src + 1) = Inr nul"
      using norm_read[OF a(1), of 0] norm_read[OF a(1), of 1] 1 by simp_all
    ultimately show ?thesis using 1 by (cases st) (simp add: rest_ok_def normalize_round_def)
  next
    case 2
    have d: "drop (src + 2) b = [nul]" using arg_cong[OF a(1), of "drop 2"] 2 by (simp add: add.commute)
    have "char_at b src = Inr (CHR ''.'')" "char_at b (src + 1) = Inr (CHR ''.'')" "char_at b (src + 2) = Inr nul"
      using norm_read[OF a(1), of 0] norm_read[OF a(1), of 1] norm_read[OF a(1), of 2] 2 by (simp_all add: numeral_2_eq_2)
    then have "normalize_round b src dst = up_one b (src + 2) dst" by (simp add: normalize_round_def)
    then show ?thesis
      using up_one_rest[OF a(3,6,5), of "src + 2" "[]"] 2 d a(4) by (auto simp: rest_ok_def simp del: enter.simps split: option.splits)
  next
    case 3
    have "\<forall>y \<in> set c. y \<noteq> nul \<and> y \<noteq> CHR ''/''" using a(2) assms(3) by auto
    then have "normalize_round b src dst = copy_component b src dst" using round_copies[of src b c nul "[]"] a(1) 3 by simp
    then show ?thesis using norm_copy_end[OF assms] 3 by (cases st) (simp add: rest_ok_def)
  qed
qed

lemma round_slash:
  assumes "norm_at b src dst r st" and "r = c @ CHR ''/'' # r1" and "CHR ''/'' \<notin> set c" and "c \<noteq> []"
  shows "rest_ok b c (Some r1) st (normalize_round b src dst)"
proof -
  have a: "drop src b = (c @ CHR ''/'' # r1) @ [nul]" "nul \<notin> set c" "take dst b = path_text st" "dst \<le> src" "path_chars st"
    "dst = length (path_text st)" "nul \<notin> set r1"
    using assms(1,2) unfolding norm_at_def by auto
  let ?r = "dropWhile (\<lambda>c. c = CHR ''/'') r1"
  have d: "drop (src + length c + 1) b = r1 @ [nul]"
    using arg_cong[OF a(1), of "drop (length c + 1)"] by (simp add: add.commute)
  from norm_skip[OF d a(7)] obtain s where s: "skip_slashes b (src + length c + 1) = Inr s" "src + length c + 1 \<le> s"
    "drop s b = ?r @ [nul]" "nul \<notin> set ?r" "?r = [] \<or> hd ?r \<noteq> CHR ''/''" by blast
  consider "c = ''.''" | "c = ''..''" | "c \<noteq> ''.''" "c \<noteq> ''..''" by blast
  then show ?thesis
  proof cases
    case 1
    have "char_at b src = Inr (CHR ''.'')" "char_at b (src + 1) = Inr (CHR ''/'')"
      using norm_read[OF a(1), of 0] norm_read[OF a(1), of 1] 1 by simp_all
    then have "normalize_round b src dst = Inr (Again b s dst)" using s(1) 1 by (simp add: normalize_round_def)
    moreover have "norm_at b s dst ?r st" using s a by (simp add: norm_at_def)
    ultimately show ?thesis using 1 by (cases st) (simp add: rest_ok_def round_ok_def)
  next
    case 2
    have "char_at b src = Inr (CHR ''.'')" "char_at b (src + 1) = Inr (CHR ''.'')" "char_at b (src + 2) = Inr (CHR ''/'')"
      using norm_read[OF a(1), of 0] norm_read[OF a(1), of 1] norm_read[OF a(1), of 2] 2 by (simp_all add: numeral_2_eq_2)
    moreover have "skip_slashes b (src + 3) = Inr s" using s(1) 2 by (simp add: numeral_3_eq_3)
    ultimately have "normalize_round b src dst = up_one b s dst" by (simp add: normalize_round_def)
    then show ?thesis
      using up_one_rest[OF a(3,6,5) _ s(3-5)] 2 s(2) a(4) by (auto simp: rest_ok_def simp del: enter.simps split: option.splits)
  next
    case 3
    have "\<forall>y \<in> set c. y \<noteq> nul \<and> y \<noteq> CHR ''/''" using a(2) assms(3) by auto
    then have "normalize_round b src dst = copy_component b src dst"
      using round_copies[of src b c "CHR ''/''" "r1 @ [nul]"] a(1) 3 by simp
    then show ?thesis using norm_copy_slash[OF assms] 3 by (cases st) (simp add: rest_ok_def)
  qed
qed

text \<open>The whole loop.\<close>

lemma normalize_loop_ok:
  assumes "norm_at b src dst r st" and "length r < n"
  shows "case enter_all (components r) st of
      None \<Rightarrow> normalize_loop n b src dst = Inr None
    | Some st' \<Rightarrow> \<exists>b' d. normalize_loop n b src dst = Inr (Some (b', d)) \<and> length b' = length b \<and> norm_done b' d st'"
  using assms
proof (induction n arbitrary: b src dst r st)
  case (Suc n)
  note na = Suc.prems(1)
  have go: ?case if ok: "rest_ok b c r1 st (normalize_round b src dst)" and rest: "rest = (case r1 of None \<Rightarrow> [] | Some r \<Rightarrow> dropWhile (\<lambda>c. c = CHR ''/'') r)"
    and r: "components r = c # components rest" "length rest < length r" for c r1 rest
  proof (cases "enter c st")
    case None
    then show ?thesis using ok r(1) by (simp add: rest_ok_def)
  next
    case (Some st')
    then have ok': "round_ok b rest st' (normalize_round b src dst)" using ok rest by (simp add: rest_ok_def)
    then obtain x where x: "normalize_round b src dst = Inr x" by (cases "normalize_round b src dst") (auto simp: round_ok_def)
    have e: "enter_all (components r) st = enter_all (components rest) st'" using r(1) Some by simp
    show ?thesis
    proof (cases x)
      case (Again b1 s d)
      then have "length b1 = length b" "norm_at b1 s d rest st'" using ok' x by (simp_all add: round_ok_def)
      then show ?thesis using Suc.IH[of b1 s d rest st'] r(2) Suc.prems(2) x Again e
        by (cases "enter_all (components rest) st'") simp_all
    next
      case (Stop b1 d)
      then show ?thesis using ok' x e by (simp add: round_ok_def)
    qed (use ok' x in \<open>simp add: round_ok_def\<close>)
  qed
  show ?case
  proof (cases "r = []")
    case True
    then have a: "drop src b = [nul]" "take dst b = path_text st" "dst \<le> src" "path_chars st"
      using na unfolding norm_at_def by auto
    have "char_at b src = Inr nul" using norm_read[of src b "[]" 0] a(1) by simp
    then have "normalize_round b src dst = copy_component b src dst" by (simp add: normalize_round_def)
    then show ?thesis using norm_stop[OF a] True by auto
  next
    case False
    then have "hd r \<noteq> CHR ''/''" using na by (simp add: norm_at_def)
    with False show ?thesis
    proof (cases rule: first_component)
      case (1 c)
      have "rest_ok b c None st (normalize_round b src dst)" using na 1 by (intro round_end)
      then show ?thesis using go[of c None "[]"] 1 components_split(2)[OF 1(1,2)] by simp
    next
      case (2 c r1)
      let ?r = "dropWhile (\<lambda>c. c = CHR ''/'') r1"
      have "rest_ok b c (Some r1) st (normalize_round b src dst)" using na 2 by (intro round_slash)
      moreover have "length ?r \<le> length r1" by (rule length_dropWhile_le)
      ultimately show ?thesis
        using go[of c "Some r1" ?r] 2 components_split(1)[OF 2(1,2)] components_skip[of r1] by simp
    qed
  qed
qed simp

text \<open>The end of the function.\<close>

lemma path_text_short: "path_chars st \<Longrightarrow> length (path_text st) = 1 \<Longrightarrow> st = (True, [])"
  by (cases st; cases "snd st") (auto simp: path_text_def path_chars_def split: if_splits)

lemma path_text_last: "path_text st \<noteq> [] \<Longrightarrow> last (path_text st) = CHR ''/''"
  by (cases st; cases "snd st" rule: rev_cases) (auto simp: path_text_def)

lemma take_to_nul:
  assumes "e < length b" and "nul \<notin> set (take e b)"
  shows "takeWhile (\<lambda>c. c \<noteq> nul) (b[e := nul]) = take e b"
proof -
  have "b[e := nul] = take e b @ nul # drop (Suc e) b" using assms(1) by (rule upd_conv_take_nth_drop)
  moreover have "takeWhile (\<lambda>c. c \<noteq> nul) (take e b @ nul # ys) = take e b" for ys
    using assms(2) by (subst takeWhile_append2) auto
  ultimately show ?thesis by simp
qed

lemma normalize_end_ok:
  assumes "norm_done b d st" and "path_chars st"
  shows "path_text st = [] \<Longrightarrow> normalize_end b d = Inl Out_Of_Bounds"
    and "path_text st \<noteq> [] \<Longrightarrow> \<exists>b'. normalize_end b d = Inr b' \<and> takeWhile (\<lambda>c. c \<noteq> nul) b' = path_string st"
proof -
  note nd = assms(1)[unfolded norm_done_def]
  show "normalize_end b d = Inl Out_Of_Bounds" if "path_text st = []"
    using nd that by (auto simp: normalize_end_def set_char_def)
  show "\<exists>b'. normalize_end b d = Inr b' \<and> takeWhile (\<lambda>c. c \<noteq> nul) b' = path_string st" if ne: "path_text st \<noteq> []"
  proof -
    have d: "d < length b" "d \<noteq> 0" using nd ne by (auto intro: gr0I)
    let ?b = "b[d := nul]"
    have "set (take d b) \<subseteq> set (path_text st)" using nd by (metis Un_upper1 order_refl set_append)
    then have nul: "nul \<notin> set (take d b)" using nd by blast
    have "take d b ! 0 \<in> set (take d b)" using d by (intro nth_mem) simp
    then have c0: "b ! 0 \<noteq> nul" using nul d(2) by auto
    have l: "b ! (d - 1) = last (take d b)" using d last_conv_nth[of "take d b"] by fastforce
    have "?b ! (d - 1) = b ! (d - 1)" using d by simp
    with d c0 have e: "normalize_end b d = Inr (if d \<noteq> 1 \<and> last (take d b) = CHR ''/'' then ?b[d - 1 := nul] else ?b)"
      using l by (auto simp: normalize_end_def set_char_def Let_def nth_list_update)
    show ?thesis
    proof (cases "d \<noteq> 1 \<and> last (take d b) = CHR ''/''")
      case True
      then have t: "take d b = path_text st" using nd by auto
      have "takeWhile (\<lambda>c. c \<noteq> nul) (?b[d - 1 := nul]) = take (d - 1) ?b"
        using d nul by (intro take_to_nul) (auto dest: in_set_takeD simp: take_update_cancel min_def intro: subsetD[OF set_take_subset_set_take, rotated])
      also have "\<dots> = butlast (path_text st)" using t d by (metis diff_le_self butlast_take less_imp_le take_update_cancel)
      finally have "takeWhile (\<lambda>c. c \<noteq> nul) (?b[d - 1 := nul]) = butlast (path_text st)" .
      moreover have "length (path_text st) = d" using d by (simp flip: t)
      ultimately show ?thesis using e True t d by (auto simp: path_string_def Let_def)
    next
      case False
      have "takeWhile (\<lambda>c. c \<noteq> nul) ?b = take d b" using take_to_nul[OF d(1)] nul by simp
      moreover have "take d b = path_string st"
      proof (cases "take d b = path_text st")
        case True
        have "d = 1" using False True path_text_last[OF ne] by auto
        then have "length (path_text st) = 1" using True d by (simp flip: True)
        then show ?thesis using True by (simp add: path_string_def Let_def)
      next
        case False
        then have t: "take d b @ ''/'' = path_text st" "take d b \<noteq> []" using nd by auto
        then have "1 < length (path_text st)" by (cases "take d b") (simp_all flip: t(1))
        moreover have "butlast (path_text st) = take d b" using t(1) by (metis butlast_snoc)
        ultimately show ?thesis by (simp add: path_string_def Let_def)
      qed
      ultimately show ?thesis using e False by auto
    qed
  qed
qed

section \<open>The correctness of the whole function\<close>

text \<open>The path that is normalised.\<close>

definition full_path :: "string \<Rightarrow> string option \<Rightarrow> string \<Rightarrow> string" where
  "full_path wd directory filename =
     (if filename = [] \<or> hd filename \<noteq> CHR ''/'' then (case directory of None \<Rightarrow> wd | Some d \<Rightarrow> d) @ CHR ''/'' # filename else filename)"

definition starting :: "string \<Rightarrow> bool \<times> string list" where
  "starting p = (p \<noteq> [] \<and> hd p = CHR ''/'', [])"

definition normalized :: "string \<Rightarrow> string option res" where
  "normalized p = (case enter_all (components p) (starting p) of
       None \<Rightarrow> Inr None
     | Some st \<Rightarrow> if path_text st = [] then Inl Out_Of_Bounds else Inr (Some (path_string st)))"

lemma enter_chars:
  assumes "path_chars st" and "c \<noteq> []" and "CHR ''/'' \<notin> set c" and "nul \<notin> set c" and "enter c st = Some st'"
  shows "path_chars st'"
proof -
  have "set (snd st') \<subseteq> insert c (set (snd st))"
    using assms(5) by (cases st) (auto dest: in_set_butlastD split: if_split_asm)
  then show ?thesis using assms(1-4) unfolding path_chars_def by blast
qed

definition clean :: "string \<Rightarrow> bool" where
  "clean c \<longleftrightarrow> c \<noteq> [] \<and> CHR ''/'' \<notin> set c \<and> nul \<notin> set c"

lemma components_chars: "nul \<notin> set p \<Longrightarrow> \<forall>c \<in> set (components p). clean c"
proof (induction p rule: components.induct)
  case (2 c s)
  let ?P = "\<lambda>c. c \<noteq> CHR ''/''"
  have "nul \<notin> set (takeWhile ?P s)" "nul \<notin> set (dropWhile ?P s)"
    using "2.prems" set_takeWhileD[of nul ?P s] set_dropWhileD[of nul ?P s] by auto
  moreover have "CHR ''/'' \<notin> set (takeWhile ?P s)" using set_takeWhileD[of "CHR ''/''" ?P s] by blast
  ultimately show ?case using 2 by (cases "c = CHR ''/''") (simp_all add: clean_def)
qed simp

lemma enter_all_chars:
  "\<forall>c \<in> set cs. clean c \<Longrightarrow> path_chars st \<Longrightarrow> enter_all cs st = Some st' \<Longrightarrow> path_chars st'"
proof (induction cs arbitrary: st)
  case (Cons c cs)
  then obtain st1 where st1: "enter c st = Some st1" "enter_all cs st1 = Some st'"
    by (cases "enter c st") (simp_all del: enter.simps)
  have "clean c" using Cons.prems(1) by simp
  then have "path_chars st1" using enter_chars[OF Cons.prems(2) _ _ _ st1(1)] by (simp add: clean_def)
  then show ?case using Cons.IH st1(2) Cons.prems(1) by simp
qed simp

lemma loop_start:
  assumes "nul \<notin> set p" and "p \<noteq> []"
  defines "b \<equiv> p @ [nul]"
  shows "case enter_all (components p) (starting p) of
      None \<Rightarrow> normalize_loop (length b) b 0 0 = Inr None
    | Some st \<Rightarrow> \<exists>b' d. normalize_loop (length b) b 0 0 = Inr (Some (b', d)) \<and> norm_done b' d st"
proof (cases "hd p = CHR ''/''")
  case False
  then have "norm_at b 0 0 p (starting p)" using assms by (simp add: norm_at_def path_chars_def path_text_def starting_def)
  from normalize_loop_ok[OF this, of "length b"] show ?thesis by (auto simp: b_def split: option.splits)
next
  case True
  then obtain q where p: "p = CHR ''/'' # q" using assms(2) by (cases p) auto
  let ?q = "dropWhile (\<lambda>c. c = CHR ''/'') q"
  have "drop 1 b = q @ [nul]" using p by (simp add: b_def)
  moreover have "nul \<notin> set q" using assms(1) p by simp
  ultimately obtain s where s: "skip_slashes b 1 = Inr s" "1 \<le> s" "drop s b = ?q @ [nul]" "nul \<notin> set ?q"
    "?q = [] \<or> hd ?q \<noteq> CHR ''/''" "length ?q \<le> length q" using norm_skip[of 1 b q] by blast
  have "copy_up b 0 0 = Inr (b, CHR ''/'', 1, 0)" using p by (subst copy_up.simps) (simp add: b_def)
  then have "normalize_round b 0 0 = Inr (Again b s 1)"
    using s(1) p by (simp add: normalize_round_def copy_component_def char_at_def set_char_def b_def)
  then have e: "normalize_loop (length b) b 0 0 = normalize_loop (length p) b s 1" by (simp add: b_def)
  have "norm_at b s 1 ?q (starting p)"
    using s p by (simp add: norm_at_def path_chars_def path_text_def starting_def b_def)
  then have "case enter_all (components ?q) (starting p) of
      None \<Rightarrow> normalize_loop (length p) b s 1 = Inr None
    | Some st \<Rightarrow> \<exists>b' d. normalize_loop (length p) b s 1 = Inr (Some (b', d)) \<and> length b' = length b \<and> norm_done b' d st"
    using s(6) p by (intro normalize_loop_ok) auto
  moreover have "components ?q = components p" using p components_skip[of q] by simp
  ultimately show ?thesis unfolding e by (auto split: option.splits)
qed

text \<open>C15. The in-place rewriting of a path is the walk over its components: every component but
  the dots enters a directory, two dots leave one, and there is no path where the walk leaves a
  directory that was never entered. Walking up from the root lets the code read the byte before
  its buffer.\<close>

lemma normalize_equiv:
  assumes "nul \<notin> set wd" and "\<forall>d. directory = Some d \<longrightarrow> nul \<notin> set d" and "nul \<notin> set filename"
  shows "dfs_normalize_path True wd directory filename = normalized (full_path wd directory filename)"
proof -
  let ?p = "full_path wd directory filename"
  have p: "nul \<notin> set ?p" "?p \<noteq> []" using assms by (auto simp: full_path_def split: option.splits)
  have e: "dfs_normalize_path True wd directory filename =
      bind_res (normalize_loop (length (?p @ [nul])) (?p @ [nul]) 0 0) (\<lambda>r. case r of
         None \<Rightarrow> Inr None
       | Some (b1, dst) \<Rightarrow> bind_res (normalize_end b1 dst) (\<lambda>b2. Inr (Some (takeWhile (\<lambda>c. c \<noteq> nul) b2))))"
    by (simp add: dfs_normalize_path_def full_path_def Let_def)
  show ?thesis
  proof (cases "enter_all (components ?p) (starting ?p)")
    case None
    then show ?thesis using loop_start[OF p] unfolding e normalized_def by simp
  next
    case (Some st)
    have "path_chars st" using enter_all_chars[OF components_chars[OF p(1)] _ Some] by (simp add: starting_def path_chars_def)
    moreover obtain b d where "normalize_loop (length (?p @ [nul])) (?p @ [nul]) 0 0 = Inr (Some (b, d))" "norm_done b d st"
      using loop_start[OF p] Some by auto
    ultimately show ?thesis using normalize_end_ok[of b d st] Some unfolding e normalized_def by (cases "path_text st = []") auto
  qed
qed

lemma normalize_equiv_witness:
  "dfs_normalize_path True ''/sd'' None ''./a//../b/c.csv'' = Inr (Some ''/sd/b/c.csv'')"
  by (subst normalize_equiv) (simp_all add: full_path_def normalized_def starting_def path_text_def path_string_def)

end
