(* ===== verification/Dfs.thy ===== *)
theory Dfs
  imports Dfs_Path Device
begin

text \<open>
  The virtual file system (\<^verbatim>\<open>components/dfs\<close>): its tables, the lookup of the file system that
  holds a path (\<^verbatim>\<open>src/dfs_fs.c\<close>) and the table of descriptors (\<^verbatim>\<open>src/dfs.c\<close>). A file system is
  a structure of function pointers, \<open>None\<close> being the null pointer; the structures are constants of
  the program and are named by numbers, and \<open>'w\<close> is the state behind them. A driver is handed a
  descriptor and changes its type, size, position and data, and nothing else. A call holds the lock of
  the file system or uses only what belongs to its caller, and is one step.
\<close>

section \<open>Constants\<close>

abbreviation (input) ENOENT :: int where "ENOENT \<equiv> 2"
abbreviation (input) ENXIO :: int where "ENXIO \<equiv> 6"
abbreviation (input) EBADF :: int where "EBADF \<equiv> 9"
abbreviation (input) ENOMEM :: int where "ENOMEM \<equiv> 12"
abbreviation (input) EBUSY :: int where "EBUSY \<equiv> 16"
abbreviation (input) EEXIST :: int where "EEXIST \<equiv> 17"
abbreviation (input) EXDEV :: int where "EXDEV \<equiv> 18"
abbreviation (input) ENODEV :: int where "ENODEV \<equiv> 19"
abbreviation (input) ENOTDIR :: int where "ENOTDIR \<equiv> 20"
abbreviation (input) EINVAL :: int where "EINVAL \<equiv> 22"
abbreviation (input) ENOSPC :: int where "ENOSPC \<equiv> 28"
abbreviation (input) ENOSYS :: int where "ENOSYS \<equiv> 88"

abbreviation (input) O_RDONLY :: u32 where "O_RDONLY \<equiv> 0"
abbreviation (input) O_WRONLY :: u32 where "O_WRONLY \<equiv> 1"
abbreviation (input) O_APPEND :: u32 where "O_APPEND \<equiv> 0x8"
abbreviation (input) O_CREAT :: u32 where "O_CREAT \<equiv> 0x200"
abbreviation (input) O_TRUNC :: u32 where "O_TRUNC \<equiv> 0x400"
abbreviation (input) O_NONBLOCK :: u32 where "O_NONBLOCK \<equiv> 0x4000"
abbreviation (input) O_DIRECTORY :: u32 where "O_DIRECTORY \<equiv> 0x200000"

abbreviation (input) DFS_F_OPEN :: u32 where "DFS_F_OPEN \<equiv> 0x01000000"
abbreviation (input) DFS_F_DIRECTORY :: u32 where "DFS_F_DIRECTORY \<equiv> 0x02000000"
abbreviation (input) DFS_F_EOF :: u32 where "DFS_F_EOF \<equiv> 0x04000000"
abbreviation (input) DFS_FS_FLAG_FULLPATH :: u32 where "DFS_FS_FLAG_FULLPATH \<equiv> 1"

abbreviation (input) DFS_FD_MAGIC :: u16 where "DFS_FD_MAGIC \<equiv> 0xfdfd"
abbreviation (input) DFS_FD_OFFSET :: nat where "DFS_FD_OFFSET \<equiv> 3"
abbreviation (input) DFS_FD_MAX :: nat where "DFS_FD_MAX \<equiv> 16"
abbreviation (input) DFS_FILESYSTEMS_MAX :: nat where "DFS_FILESYSTEMS_MAX \<equiv> 4"
abbreviation (input) DFS_FILESYSTEM_TYPES_MAX :: nat where "DFS_FILESYSTEM_TYPES_MAX \<equiv> 4"
abbreviation (input) DFS_PATH_MAX :: nat where "DFS_PATH_MAX \<equiv> 256"

section \<open>State\<close>

text \<open>A pointer of a file system to data of its own, which starts as a pointer to the mount entry.\<close>

datatype handle = Null_Data | Of_Fs nat | Own nat

datatype file_type = FT_REGULAR | FT_SOCKET | FT_DIRECTORY | FT_USER | FT_DEVICE

text \<open>The part of a descriptor that a driver writes, and the whole \<^verbatim>\<open>struct dfs_fd\<close>.\<close>

record fd_io =
  ftype :: file_type
  fsize :: u32
  fpos :: u32
  fdata :: handle

record dfs_fd =
  magic :: u16
  fpath :: "string option"
  fd_refs :: int
  ffs :: "nat option"
  fops :: "nat option"
  fflags :: u32
  fio :: fd_io

text \<open>\<^verbatim>\<open>struct dfs_filesystem\<close>.\<close>

record dfs_filesystem =
  dev_id :: "nat option"
  mpath :: "string option"
  mops :: "nat option"
  mdata :: handle

record stat_buf =
  st_mode :: u32
  st_size :: u32

text \<open>The argument of a control call: a number, or the address of a length.\<close>

datatype ioctl_arg = Arg u32 | Length u32

record 'w dfs_file_ops =
  f_open :: "(dfs_fd \<Rightarrow> 'w \<Rightarrow> int \<times> fd_io \<times> 'w) option"
  f_close :: "(dfs_fd \<Rightarrow> 'w \<Rightarrow> int \<times> fd_io \<times> 'w) option"
  f_ioctl :: "(dfs_fd \<Rightarrow> int \<Rightarrow> ioctl_arg \<Rightarrow> 'w \<Rightarrow> int \<times> fd_io \<times> 'w) option"
  f_read :: "(dfs_fd \<Rightarrow> nat \<Rightarrow> 'w \<Rightarrow> int \<times> u8 list \<times> fd_io \<times> 'w) option"
  f_write :: "(dfs_fd \<Rightarrow> u8 list \<Rightarrow> 'w \<Rightarrow> int \<times> fd_io \<times> 'w) option"
  f_flush :: "(dfs_fd \<Rightarrow> 'w \<Rightarrow> int \<times> fd_io \<times> 'w) option"
  f_lseek :: "(dfs_fd \<Rightarrow> u32 \<Rightarrow> 'w \<Rightarrow> int \<times> fd_io \<times> 'w) option"
  f_getdents :: "(dfs_fd \<Rightarrow> nat \<Rightarrow> 'w \<Rightarrow> int \<times> u8 list \<times> fd_io \<times> 'w) option"

record 'w dfs_filesystem_ops =
  op_name :: string
  op_flags :: u32
  op_fops :: "'w dfs_file_ops"
  op_mount :: "(dfs_filesystem \<Rightarrow> u32 \<Rightarrow> 'w \<Rightarrow> int \<times> handle \<times> 'w) option"
  op_unmount :: "(dfs_filesystem \<Rightarrow> 'w \<Rightarrow> int \<times> handle \<times> 'w) option"
  op_mkfs :: "(nat \<Rightarrow> 'w \<Rightarrow> int \<times> 'w) option"
  op_statfs :: "(dfs_filesystem \<Rightarrow> 'w \<Rightarrow> int \<times> 'w) option"
  op_unlink :: "(dfs_filesystem \<Rightarrow> string \<Rightarrow> 'w \<Rightarrow> int \<times> 'w) option"
  op_stat :: "(dfs_filesystem \<Rightarrow> string \<Rightarrow> stat_buf \<Rightarrow> 'w \<Rightarrow> int \<times> stat_buf \<times> 'w) option"
  op_rename :: "(dfs_filesystem \<Rightarrow> string option \<Rightarrow> string option \<Rightarrow> 'w \<Rightarrow> int \<times> 'w) option"

text \<open>
  The constants of the program: the structures, the opening and closing of a device
  (\<^verbatim>\<open>rt_device_open\<close> and \<^verbatim>\<open>rt_device_close\<close> of theory \<open>Device\<close> with the function pointers of
  the device), and what an uninitialised descriptor on the stack holds.
\<close>

record 'w dfs_env =
  ops_at :: "nat \<Rightarrow> 'w dfs_filesystem_ops"
  dev_open :: "nat \<Rightarrow> 'w \<Rightarrow> int \<times> 'w"
  dev_close :: "nat \<Rightarrow> 'w \<Rightarrow> 'w"
  stack_fd :: dfs_fd

text \<open>
  \<open>mem\<close>: whether the next allocations succeed; all do once the list is used up. \<open>fds\<close> is the
  array of \<^verbatim>\<open>_fdtab\<close>, whose length is \<^verbatim>\<open>maxfd\<close>; a pointer to a descriptor is its index.
\<close>

record 'w dfs =
  filesystem_operation_table :: "nat option list"
  filesystem_table :: "dfs_filesystem list"
  fds :: "dfs_fd option list"
  working_directory :: string
  errno :: int
  registry :: registry
  mem :: "bool list"
  world :: 'w

definition empty_fs :: dfs_filesystem where
  "empty_fs = \<lparr>dev_id = None, mpath = None, mops = None, mdata = Null_Data\<rparr>"

definition zero_io :: fd_io where
  "zero_io = \<lparr>ftype = FT_REGULAR, fsize = 0, fpos = 0, fdata = Null_Data\<rparr>"

definition zero_fd :: dfs_fd where
  "zero_fd = \<lparr>magic = 0, fpath = None, fd_refs = 0, ffs = None, fops = None, fflags = 0, fio = zero_io\<rparr>"

definition set_errno :: "int \<Rightarrow> 'w dfs \<Rightarrow> 'w dfs" where
  "set_errno e s = s\<lparr>errno := e\<rparr>"

text \<open>An allocation of the heap.\<close>

definition alloc_mem :: "'w dfs \<Rightarrow> bool \<times> 'w dfs" where
  "alloc_mem s = (case mem s of [] \<Rightarrow> (True, s) | b # bs \<Rightarrow> (b, s\<lparr>mem := bs\<rparr>))"

text \<open>\<^verbatim>\<open>dfs_init\<close> without the device file system, which is mounted with \<^verbatim>\<open>dfs_mount\<close>.\<close>

definition dfs_init :: "registry \<Rightarrow> bool list \<Rightarrow> 'w \<Rightarrow> 'w dfs" where
  "dfs_init reg ms w =
     \<lparr>filesystem_operation_table = replicate DFS_FILESYSTEM_TYPES_MAX None,
      filesystem_table = replicate DFS_FILESYSTEMS_MAX empty_fs, fds = [], working_directory = ''/'',
      errno = 0, registry = reg, mem = ms, world = w\<rparr>"

text \<open>
  \<^verbatim>\<open>dfs_normalize_path\<close> in a state. A working directory that fills its array has no end mark,
  and to join it with a name reads past the array.
\<close>

definition normalize :: "string option \<Rightarrow> string \<Rightarrow> 'w dfs \<Rightarrow> (string option \<times> 'w dfs) res" where
  "normalize directory filename s =
     (if directory = None \<and> (filename = [] \<or> hd filename \<noteq> CHR ''/'') \<and> DFS_PATH_MAX \<le> length (working_directory s)
      then Inl Out_Of_Bounds
      else let (m, s1) = alloc_mem s in
        bind_res (dfs_normalize_path m (working_directory s) directory filename) (\<lambda>p. Inr (p, s1)))"

section \<open>File systems\<close>

text \<open>The first entry of the table of types that \<open>P\<close> holds of.\<close>

fun first_at :: "('a \<Rightarrow> bool) \<Rightarrow> 'a list \<Rightarrow> nat \<Rightarrow> nat option" where
  "first_at P [] i = None"
| "first_at P (x # xs) i = (if P x then Some i else first_at P xs (i + 1))"

definition named :: "'w dfs_env \<Rightarrow> string \<Rightarrow> nat option \<Rightarrow> bool" where
  "named env name x \<longleftrightarrow> (case x of None \<Rightarrow> False | Some k \<Rightarrow> op_name (ops_at env k) = name)"

text \<open>
  The empty entry that counts is one in front of an entry of the same name, if there is one; without
  an empty entry the error of the full table replaces the other one.
\<close>

definition dfs_register :: "'w dfs_env \<Rightarrow> nat \<Rightarrow> 'w dfs \<Rightarrow> int \<times> 'w dfs" where
  "dfs_register env k s =
     (let tab = filesystem_operation_table s;
          dup = first_at (named env (op_name (ops_at env k))) tab 0;
          empty = first_at (\<lambda>x. x = None) (case dup of None \<Rightarrow> tab | Some i \<Rightarrow> take i tab) 0;
          s1 = (if dup = None then s else set_errno (- EEXIST) s)
      in case empty of
           None \<Rightarrow> (- 1, set_errno (- ENOSPC) s1)
         | Some e \<Rightarrow> if dup = None then (0, s1\<lparr>filesystem_operation_table := tab[e := Some k]\<rparr>) else (- 1, s1))"

text \<open>One entry of the mount table, tested against a path and the longest match so far.\<close>

definition better_match :: "string \<Rightarrow> dfs_filesystem \<Rightarrow> nat \<Rightarrow> nat option" where
  "better_match path e prefixlen =
     (case mpath e of
        None \<Rightarrow> None
      | Some m \<Rightarrow>
          let n = length m in
          if mops e = None \<or> n < prefixlen \<or> take n path \<noteq> m \<or> (1 < n \<and> n < length path \<and> path ! n \<noteq> CHR ''/'')
          then None else Some n)"

fun lookup_loop :: "string \<Rightarrow> dfs_filesystem list \<Rightarrow> nat \<Rightarrow> nat \<times> nat option \<Rightarrow> nat \<times> nat option" where
  "lookup_loop path [] i acc = acc"
| "lookup_loop path (e # es) i acc =
     lookup_loop path es (i + 1) (case better_match path e (fst acc) of None \<Rightarrow> acc | Some n \<Rightarrow> (n, Some i))"

definition dfs_filesystem_lookup :: "string \<Rightarrow> 'w dfs \<Rightarrow> nat option" where
  "dfs_filesystem_lookup path s = snd (lookup_loop path (filesystem_table s) 0 (0, None))"

definition dfs_filesystem_get_mounted_path :: "nat option \<Rightarrow> 'w dfs \<Rightarrow> string option" where
  "dfs_filesystem_get_mounted_path device s =
     (case filter (\<lambda>e. mops e \<noteq> None \<and> dev_id e = device) (filesystem_table s) of
        [] \<Rightarrow> None | e # _ \<Rightarrow> mpath e)"

text \<open>The path of a file below the mount point, as the file system gets it.\<close>

definition path_below :: "'w dfs_env \<Rightarrow> dfs_filesystem \<Rightarrow> string \<Rightarrow> string res" where
  "path_below env e full =
     (case (mops e, mpath e) of
        (Some k, Some m) \<Rightarrow>
          if op_flags (ops_at env k) AND DFS_FS_FLAG_FULLPATH \<noteq> 0 then Inr full
          else bind_res (dfs_subdir m full) (\<lambda>d. Inr (case d of None \<Rightarrow> ''/'' | Some p \<Rightarrow> p))
      | _ \<Rightarrow> Inl Out_Of_Bounds)"

section \<open>Descriptors\<close>

definition unused_fd :: "dfs_fd option \<Rightarrow> bool" where
  "unused_fd d \<longleftrightarrow> (case d of None \<Rightarrow> True | Some d \<Rightarrow> fd_refs d = 0)"

definition find_unused :: "dfs_fd option list \<Rightarrow> nat \<Rightarrow> nat" where
  "find_unused xs startfd = (case first_at unused_fd (drop startfd xs) startfd of None \<Rightarrow> max startfd (length xs) | Some i \<Rightarrow> i)"

text \<open>Grow the array by four, up to the limit.\<close>

definition fd_grow :: "nat \<Rightarrow> 'w dfs \<Rightarrow> 'w dfs" where
  "fd_grow idx s =
     (if idx = length (fds s) \<and> length (fds s) < DFS_FD_MAX
      then let (m, s1) = alloc_mem s; cnt = min (length (fds s) + 4) DFS_FD_MAX in
        if m then s1\<lparr>fds := fds s @ replicate (cnt - length (fds s)) None\<rparr> else s1
      else s)"

text \<open>If the array could not grow, the index is the length of the array, and the rest is skipped.\<close>

definition fd_alloc :: "nat \<Rightarrow> 'w dfs \<Rightarrow> nat \<times> 'w dfs" where
  "fd_alloc startfd s =
     (let idx = find_unused (fds s) startfd; s1 = fd_grow idx s in
      if idx < length (fds s1) \<and> (fds s1) ! idx = None
      then let (m, s2) = alloc_mem s1 in
        if m then (idx, s2\<lparr>fds := (fds s2)[idx := Some zero_fd]\<rparr>) else (length (fds s2), s2)
      else (idx, s1))"

definition set_fd :: "nat \<Rightarrow> dfs_fd option \<Rightarrow> 'w dfs \<Rightarrow> 'w dfs" where
  "set_fd i d s = s\<lparr>fds := (fds s)[i := d]\<rparr>"

definition fd_new :: "'w dfs \<Rightarrow> (int \<times> 'w dfs) res" where
  "fd_new s =
     (let (idx, s1) = fd_alloc 0 s in
      if idx = length (fds s1) then Inr (- 1, s1)
      else if idx < length (fds s1)
      then case (fds s1) ! idx of
          None \<Rightarrow> Inl Out_Of_Bounds
        | Some d \<Rightarrow> Inr (int idx + int DFS_FD_OFFSET, set_fd idx (Some (d\<lparr>fd_refs := 1, magic := DFS_FD_MAGIC\<rparr>)) s1)
      else Inl Out_Of_Bounds)"

definition fd_get :: "int \<Rightarrow> 'w dfs \<Rightarrow> nat option \<times> 'w dfs" where
  "fd_get fd s =
     (let i = fd - int DFS_FD_OFFSET in
      if i < 0 \<or> i \<ge> int (length (fds s)) then (None, s)
      else case (fds s) ! nat i of
          None \<Rightarrow> (None, s)
        | Some d \<Rightarrow> if magic d \<noteq> DFS_FD_MAGIC then (None, s)
            else (Some (nat i), set_fd (nat i) (Some (d\<lparr>fd_refs := fd_refs d + 1\<rparr>)) s))"

text \<open>The descriptor that a pointer leads to; a descriptor that has been freed is gone.\<close>

definition fd_deref :: "nat \<Rightarrow> 'w dfs \<Rightarrow> dfs_fd res" where
  "fd_deref i s = (if i < length (fds s) then case (fds s) ! i of None \<Rightarrow> Inl Out_Of_Bounds | Some d \<Rightarrow> Inr d else Inl Out_Of_Bounds)"

definition fd_put :: "nat option \<Rightarrow> 'w dfs \<Rightarrow> 'w dfs res" where
  "fd_put p s =
     (case p of
        None \<Rightarrow> Inl Assert_Failed
      | Some i \<Rightarrow> bind_res (fd_deref i s) (\<lambda>d.
          let n = fd_refs d - 1 in Inr (set_fd i (if n = 0 then None else Some (d\<lparr>fd_refs := n\<rparr>)) s)))"

text \<open>Whether a descriptor stands for the file; a path that cannot be found counts as not open.\<close>

definition fd_is_open :: "string \<Rightarrow> 'w dfs \<Rightarrow> (int \<times> 'w dfs) res" where
  "fd_is_open pathname s =
     bind_res (normalize None pathname s) (\<lambda>(full, s1).
       case full of
         None \<Rightarrow> Inr (- 1, s1)
       | Some p \<Rightarrow>
           (case dfs_filesystem_lookup p s1 of
              None \<Rightarrow> Inr (- 1, s1)
            | Some k \<Rightarrow>
                let m = the (mpath (filesystem_table s1 ! k));
                    below = (if m = ''/'' then p else drop (length m) p) in
                Inr (if \<exists>d \<in> set (fds s1). case d of None \<Rightarrow> False
                          | Some d \<Rightarrow> fops d \<noteq> None \<and> ffs d = Some k \<and> fpath d = Some below
                     then 0 else - 1, s1)))"

end
