(* ===== verification/Dfs_File.thy ===== *)
theory Dfs_File
  imports Dfs
begin

text \<open>
  Operations on files (\<^verbatim>\<open>components/dfs/src/dfs_file.c\<close>). A descriptor is handed over as its
  contents, since none of these functions reaches it in another way; \<open>None\<close> is the null pointer.
\<close>

section \<open>Calling a driver\<close>

definition fd_ops :: "'w dfs_env \<Rightarrow> dfs_fd \<Rightarrow> 'w dfs_file_ops res" where
  "fd_ops env d = (case fops d of None \<Rightarrow> Inl Out_Of_Bounds | Some k \<Rightarrow> Inr (op_fops (ops_at env k)))"

definition drive :: "(dfs_fd \<Rightarrow> 'w \<Rightarrow> int \<times> fd_io \<times> 'w) \<Rightarrow> dfs_fd \<Rightarrow> 'w dfs \<Rightarrow> int \<times> dfs_fd \<times> 'w dfs" where
  "drive f d s = (let (r, io, w) = f d (world s) in (r, d\<lparr>fio := io\<rparr>, s\<lparr>world := w\<rparr>))"

definition drive_read ::
  "(dfs_fd \<Rightarrow> nat \<Rightarrow> 'w \<Rightarrow> int \<times> u8 list \<times> fd_io \<times> 'w) \<Rightarrow> dfs_fd \<Rightarrow> nat \<Rightarrow> 'w dfs \<Rightarrow> int \<times> u8 list \<times> dfs_fd \<times> 'w dfs" where
  "drive_read f d n s = (let (r, bs, io, w) = f d n (world s) in (r, bs, d\<lparr>fio := io\<rparr>, s\<lparr>world := w\<rparr>))"

definition on_fs :: "('w \<Rightarrow> int \<times> 'w) \<Rightarrow> 'w dfs \<Rightarrow> int \<times> 'w dfs" where
  "on_fs f s = (let (r, w) = f (world s) in (r, s\<lparr>world := w\<rparr>))"

section \<open>Open and close\<close>

text \<open>The copy of the path in the descriptor; a copy that fails leaves a null pointer.\<close>

definition file_path :: "'w dfs_env \<Rightarrow> dfs_filesystem \<Rightarrow> string \<Rightarrow> 'w dfs \<Rightarrow> (string option \<times> 'w dfs) res" where
  "file_path env e full s =
     bind_res (path_below env e full) (\<lambda>p.
       if (case mops e of None \<Rightarrow> False | Some k \<Rightarrow> op_flags (ops_at env k) AND DFS_FS_FLAG_FULLPATH \<noteq> 0)
       then Inr (Some p, s)
       else let (m, s1) = alloc_mem s in Inr (if m then Some p else None, s1))"

definition opened :: "u32 \<Rightarrow> dfs_fd \<Rightarrow> dfs_fd" where
  "opened fl d =
     (if fl AND O_DIRECTORY \<noteq> 0
      then d\<lparr>fflags := fflags d OR DFS_F_OPEN OR DFS_F_DIRECTORY, fio := (fio d)\<lparr>ftype := FT_DIRECTORY\<rparr>\<rparr>
      else d\<lparr>fflags := fflags d OR DFS_F_OPEN\<rparr>)"

text \<open>The part of \<^verbatim>\<open>dfs_file_open\<close> once the file system is known.\<close>

definition open_in :: "'w dfs_env \<Rightarrow> dfs_fd \<Rightarrow> nat \<Rightarrow> string \<Rightarrow> u32 \<Rightarrow> 'w dfs \<Rightarrow> (int \<times> dfs_fd option \<times> 'w dfs) res" where
  "open_in env d k full fl s =
     (case mops (filesystem_table s ! k) of
        None \<Rightarrow> Inl Out_Of_Bounds
      | Some ops \<Rightarrow>
          let d1 = d\<lparr>ffs := Some k, fops := Some ops, fflags := fl,
                     fio := \<lparr>ftype = FT_REGULAR, fsize = 0, fpos = 0, fdata = Of_Fs k\<rparr>\<rparr> in
          bind_res (file_path env (filesystem_table s ! k) full s) (\<lambda>(p, s1).
            let d2 = d1\<lparr>fpath := p\<rparr> in
            case f_open (op_fops (ops_at env ops)) of
              None \<Rightarrow> Inr (- ENOSYS, Some (d2\<lparr>fpath := None\<rparr>), s1)
            | Some f \<Rightarrow>
                let (r, d3, s2) = drive f d2 s1 in
                Inr (if r < 0 then (r, Some (d3\<lparr>fpath := None\<rparr>), s2) else (0, Some (opened fl d3), s2))))"

definition dfs_file_open ::
  "'w dfs_env \<Rightarrow> dfs_fd option \<Rightarrow> string \<Rightarrow> u32 \<Rightarrow> 'w dfs \<Rightarrow> (int \<times> dfs_fd option \<times> 'w dfs) res" where
  "dfs_file_open env fd path fl s =
     (case fd of
        None \<Rightarrow> Inr (- EINVAL, None, s)
      | Some d \<Rightarrow>
          bind_res (normalize None path s) (\<lambda>(full, s1).
            case full of
              None \<Rightarrow> Inr (- ENOMEM, Some d, s1)
            | Some p \<Rightarrow>
                (case dfs_filesystem_lookup p s1 of
                   None \<Rightarrow> Inr (- ENOENT, Some d, s1)
                 | Some k \<Rightarrow> open_in env d k p fl s1)))"

definition dfs_file_close :: "'w dfs_env \<Rightarrow> dfs_fd option \<Rightarrow> 'w dfs \<Rightarrow> (int \<times> dfs_fd option \<times> 'w dfs) res" where
  "dfs_file_close env fd s =
     (case fd of
        None \<Rightarrow> Inr (- ENXIO, None, s)
      | Some d \<Rightarrow>
          bind_res (fd_ops env d) (\<lambda>ops.
            let (r, d1, s1) = (case f_close ops of None \<Rightarrow> (0, d, s) | Some f \<Rightarrow> drive f d s) in
            Inr (if r < 0 then (r, Some d1, s1) else (r, Some (d1\<lparr>fpath := None\<rparr>), s1))))"

section \<open>Data\<close>

abbreviation (input) F_GETFL :: int where "F_GETFL \<equiv> 3"
abbreviation (input) F_SETFL :: int where "F_SETFL \<equiv> 4"
abbreviation (input) RT_FIOFTRUNCATE :: int where "RT_FIOFTRUNCATE \<equiv> 0x52540000"

definition ioctl_driver ::
  "'w dfs_env \<Rightarrow> dfs_fd \<Rightarrow> int \<Rightarrow> ioctl_arg \<Rightarrow> 'w dfs \<Rightarrow> (int \<times> dfs_fd option \<times> 'w dfs) res" where
  "ioctl_driver env d cmd args s =
     bind_res (fd_ops env d) (\<lambda>ops.
       case f_ioctl ops of
         None \<Rightarrow> Inr (- ENOSYS, Some d, s)
       | Some f \<Rightarrow> let (r, d1, s1) = drive (\<lambda>d. f d cmd args) d s in Inr (r, Some d1, s1))"

definition dfs_file_ioctl ::
  "'w dfs_env \<Rightarrow> dfs_fd option \<Rightarrow> int \<Rightarrow> u32 \<Rightarrow> 'w dfs \<Rightarrow> (int \<times> dfs_fd option \<times> 'w dfs) res" where
  "dfs_file_ioctl env fd cmd args s =
     (case fd of
        None \<Rightarrow> Inr (- EINVAL, None, s)
      | Some d \<Rightarrow>
          if ftype (fio d) = FT_REGULAR \<and> cmd = F_GETFL then Inr (sint (fflags d), Some d, s)
          else if ftype (fio d) = FT_REGULAR \<and> cmd = F_SETFL
          then let mask = O_NONBLOCK OR O_APPEND in
            Inr (0, Some (d\<lparr>fflags := (fflags d AND NOT mask) OR (args AND mask)\<rparr>), s)
          else ioctl_driver env d cmd (Arg args) s)"

definition dfs_file_read ::
  "'w dfs_env \<Rightarrow> dfs_fd option \<Rightarrow> nat \<Rightarrow> 'w dfs \<Rightarrow> (int \<times> u8 list \<times> dfs_fd option \<times> 'w dfs) res" where
  "dfs_file_read env fd len s =
     (case fd of
        None \<Rightarrow> Inr (- EINVAL, [], None, s)
      | Some d \<Rightarrow>
          bind_res (fd_ops env d) (\<lambda>ops.
            case f_read ops of
              None \<Rightarrow> Inr (- ENOSYS, [], Some d, s)
            | Some f \<Rightarrow>
                let (r, bs, d1, s1) = drive_read f d len s in
                Inr (r, bs, Some (if r < 0 then d1\<lparr>fflags := fflags d1 OR DFS_F_EOF\<rparr> else d1), s1)))"

definition dfs_file_getdents ::
  "'w dfs_env \<Rightarrow> dfs_fd option \<Rightarrow> nat \<Rightarrow> 'w dfs \<Rightarrow> (int \<times> u8 list \<times> dfs_fd option \<times> 'w dfs) res" where
  "dfs_file_getdents env fd nbytes s =
     (case fd of
        None \<Rightarrow> Inr (- EINVAL, [], None, s)
      | Some d \<Rightarrow>
          if ftype (fio d) \<noteq> FT_DIRECTORY then Inr (- EINVAL, [], Some d, s)
          else bind_res (fd_ops env d) (\<lambda>ops.
            case f_getdents ops of
              None \<Rightarrow> Inr (- ENOSYS, [], Some d, s)
            | Some f \<Rightarrow> let (r, bs, d1, s1) = drive_read f d nbytes s in Inr (r, bs, Some d1, s1)))"

definition dfs_file_write ::
  "'w dfs_env \<Rightarrow> dfs_fd option \<Rightarrow> u8 list \<Rightarrow> 'w dfs \<Rightarrow> (int \<times> dfs_fd option \<times> 'w dfs) res" where
  "dfs_file_write env fd bs s =
     (case fd of
        None \<Rightarrow> Inr (- EINVAL, None, s)
      | Some d \<Rightarrow>
          bind_res (fd_ops env d) (\<lambda>ops.
            case f_write ops of
              None \<Rightarrow> Inr (- ENOSYS, Some d, s)
            | Some f \<Rightarrow> let (r, d1, s1) = drive (\<lambda>d. f d bs) d s in Inr (r, Some d1, s1)))"

definition dfs_file_flush :: "'w dfs_env \<Rightarrow> dfs_fd option \<Rightarrow> 'w dfs \<Rightarrow> (int \<times> dfs_fd option \<times> 'w dfs) res" where
  "dfs_file_flush env fd s =
     (case fd of
        None \<Rightarrow> Inr (- EINVAL, None, s)
      | Some d \<Rightarrow>
          bind_res (fd_ops env d) (\<lambda>ops.
            case f_flush ops of
              None \<Rightarrow> Inr (- ENOSYS, Some d, s)
            | Some f \<Rightarrow> let (r, d1, s1) = drive f d s in Inr (r, Some d1, s1)))"

definition dfs_file_lseek ::
  "'w dfs_env \<Rightarrow> dfs_fd option \<Rightarrow> u32 \<Rightarrow> 'w dfs \<Rightarrow> (int \<times> dfs_fd option \<times> 'w dfs) res" where
  "dfs_file_lseek env fd offset s =
     (case fd of
        None \<Rightarrow> Inr (- EINVAL, None, s)
      | Some d \<Rightarrow>
          bind_res (fd_ops env d) (\<lambda>ops.
            case f_lseek ops of
              None \<Rightarrow> Inr (- ENOSYS, Some d, s)
            | Some f \<Rightarrow>
                let (r, d1, s1) = drive (\<lambda>d. f d offset) d s in
                Inr (r, Some (if r \<ge> 0 then d1\<lparr>fio := (fio d1)\<lparr>fpos := word_of_int r\<rparr>\<rparr> else d1), s1)))"

definition dfs_file_ftruncate ::
  "'w dfs_env \<Rightarrow> dfs_fd option \<Rightarrow> u32 \<Rightarrow> 'w dfs \<Rightarrow> (int \<times> dfs_fd option \<times> 'w dfs) res" where
  "dfs_file_ftruncate env fd len s =
     (case fd of
        None \<Rightarrow> Inr (- EINVAL, None, s)
      | Some d \<Rightarrow>
          if ftype (fio d) \<noteq> FT_REGULAR \<or> sint len < 0 then Inr (- EINVAL, Some d, s)
          else bind_res (ioctl_driver env d RT_FIOFTRUNCATE (Length len) s) (\<lambda>(r, d1, s1).
            Inr (r, if r = 0 then map_option (\<lambda>d. d\<lparr>fio := (fio d)\<lparr>fsize := len\<rparr>\<rparr>) d1 else d1, s1)))"

section \<open>Names\<close>

definition dfs_file_unlink :: "'w dfs_env \<Rightarrow> string \<Rightarrow> 'w dfs \<Rightarrow> (int \<times> 'w dfs) res" where
  "dfs_file_unlink env path s =
     bind_res (normalize None path s) (\<lambda>(full, s1).
       case full of
         None \<Rightarrow> Inr (- EINVAL, s1)
       | Some p \<Rightarrow>
           (case dfs_filesystem_lookup p s1 of
              None \<Rightarrow> Inr (- ENOENT, s1)
            | Some k \<Rightarrow>
                bind_res (fd_is_open p s1) (\<lambda>(r, s2).
                  let e = filesystem_table s1 ! k in
                  if r = 0 then Inr (- EBUSY, s2)
                  else case Option.bind (mops e) (\<lambda>t. op_unlink (ops_at env t)) of
                      None \<Rightarrow> Inr (- ENOSYS, s2)
                    | Some f \<Rightarrow> bind_res (path_below env e p) (\<lambda>q. Inr (on_fs (f e q) s2)))))"

text \<open>What \<^verbatim>\<open>stat\<close> says of a root: read and write for all, a directory, to be searched by all.\<close>

definition root_stat :: stat_buf where
  "root_stat = \<lparr>st_mode = 0x1B6 OR 0x4000 OR 0x49, st_size = 0\<rparr>"

definition dfs_file_stat :: "'w dfs_env \<Rightarrow> string \<Rightarrow> stat_buf \<Rightarrow> 'w dfs \<Rightarrow> (int \<times> stat_buf \<times> 'w dfs) res" where
  "dfs_file_stat env path buf s =
     bind_res (normalize None path s) (\<lambda>(full, s1).
       case full of
         None \<Rightarrow> Inr (- 1, buf, s1)
       | Some p \<Rightarrow>
           (case dfs_filesystem_lookup p s1 of
              None \<Rightarrow> Inr (- ENOENT, buf, s1)
            | Some k \<Rightarrow>
                let e = filesystem_table s1 ! k in
                bind_res (dfs_subdir (the (mpath e)) p) (\<lambda>sub.
                  if p = ''/'' \<or> sub = None then Inr (0, root_stat, s1)
                  else case Option.bind (mops e) (\<lambda>t. op_stat (ops_at env t)) of
                      None \<Rightarrow> Inr (- ENOSYS, buf, s1)
                    | Some f \<Rightarrow> bind_res (path_below env e p) (\<lambda>q.
                        let (r, b, w) = f e q buf (world s1) in Inr (r, b, s1\<lparr>world := w\<rparr>)))))"

text \<open>
  Two names without a file system also count as names of the same file system, the null pointer,
  which is then followed. The mount point itself has no name below the mount point.
\<close>

definition dfs_file_rename :: "'w dfs_env \<Rightarrow> string \<Rightarrow> string \<Rightarrow> 'w dfs \<Rightarrow> (int \<times> 'w dfs) res" where
  "dfs_file_rename env oldpath newpath s =
     bind_res (normalize None oldpath s) (\<lambda>(old, s1).
       case old of
         None \<Rightarrow> Inr (- ENOENT, s1)
       | Some p \<Rightarrow>
           bind_res (normalize None newpath s1) (\<lambda>(new, s2).
             case new of
               None \<Rightarrow> Inr (- ENOENT, s2)
             | Some q \<Rightarrow>
                 if dfs_filesystem_lookup p s2 \<noteq> dfs_filesystem_lookup q s2 then Inr (- EXDEV, s2)
                 else case dfs_filesystem_lookup p s2 of
                     None \<Rightarrow> Inl Out_Of_Bounds
                   | Some k \<Rightarrow>
                       let e = filesystem_table s2 ! k in
                       (case Option.bind (mops e) (\<lambda>t. op_rename (ops_at env t)) of
                          None \<Rightarrow> Inr (- ENOSYS, s2)
                        | Some f \<Rightarrow>
                            if op_flags (ops_at env (the (mops e))) AND DFS_FS_FLAG_FULLPATH \<noteq> 0
                            then Inr (on_fs (f e (Some p) (Some q)) s2)
                            else bind_res (dfs_subdir (the (mpath e)) p) (\<lambda>p1.
                              bind_res (dfs_subdir (the (mpath e)) q) (\<lambda>q1. Inr (on_fs (f e p1 q1) s2))))))"

end
