(* ===== verification/Dfs_Mount.thy ===== *)
theory Dfs_Mount
  imports Dfs_File
begin

text \<open>Mounting (the rest of \<^verbatim>\<open>components/dfs/src/dfs_fs.c\<close>).\<close>

section \<open>Mount and unmount\<close>

text \<open>The check that the mount point exists, but for the root and \<^verbatim>\<open>/dev\<close>: whether it does.\<close>

definition mount_point_exists :: "'w dfs_env \<Rightarrow> string \<Rightarrow> 'w dfs \<Rightarrow> (bool \<times> 'w dfs) res" where
  "mount_point_exists env full s =
     (if full = ''/'' \<or> full = ''/dev'' then Inr (True, s)
      else bind_res (dfs_file_open env (Some (stack_fd env)) full (O_RDONLY OR O_DIRECTORY) s) (\<lambda>(r, d, s1).
        if r < 0 then Inr (False, s1)
        else bind_res (dfs_file_close env d s1) (\<lambda>(_, _, s2). Inr (True, s2))))"

text \<open>
  The walk over the mount table: the path is looked for in the entries that are in use. The
  result is the first free entry, or the error.
\<close>

fun find_mount_slot :: "string \<Rightarrow> dfs_filesystem list \<Rightarrow> nat \<Rightarrow> nat option \<Rightarrow> int + nat" where
  "find_mount_slot path [] i found = (case found of None \<Rightarrow> Inl ENOSPC | Some k \<Rightarrow> Inr k)"
| "find_mount_slot path (e # es) i found =
     (if mops e = None then find_mount_slot path es (i + 1) (case found of None \<Rightarrow> Some i | Some k \<Rightarrow> Some k)
      else if mpath e = Some path then Inl EINVAL
      else find_mount_slot path es (i + 1) found)"

definition set_entry :: "nat \<Rightarrow> dfs_filesystem \<Rightarrow> 'w dfs \<Rightarrow> 'w dfs" where
  "set_entry k e s = s\<lparr>filesystem_table := (filesystem_table s)[k := e]\<rparr>"

text \<open>The device is opened, then the file system mounted; a failure clears the entry.\<close>

definition mount_at ::
  "'w dfs_env \<Rightarrow> nat \<Rightarrow> nat \<Rightarrow> (dfs_filesystem \<Rightarrow> u32 \<Rightarrow> 'w \<Rightarrow> int \<times> handle \<times> 'w) \<Rightarrow> nat option \<Rightarrow> string \<Rightarrow> u32 \<Rightarrow>
    'w dfs \<Rightarrow> int \<times> 'w dfs" where
  "mount_at env k ops mount dev full rwflag s =
     (let e = \<lparr>dev_id = dev, mpath = Some full, mops = Some ops, mdata = mdata (filesystem_table s ! k)\<rparr>;
          (r, w) = (case dev of None \<Rightarrow> (0, world s) | Some d \<Rightarrow> dev_open env d (world s)) in
      if r \<noteq> 0 then (- 1, set_entry k empty_fs (s\<lparr>world := w\<rparr>))
      else let (r1, h, w1) = mount e rwflag w in
        if r1 < 0
        then (- 1, set_entry k empty_fs (s\<lparr>world := (case dev of None \<Rightarrow> w1 | Some d \<Rightarrow> dev_close env d w1)\<rparr>))
        else (0, set_entry k (e\<lparr>mdata := h\<rparr>) (s\<lparr>world := w1\<rparr>)))"

definition dfs_mount :: "'w dfs_env \<Rightarrow> string option \<Rightarrow> string \<Rightarrow> string \<Rightarrow> u32 \<Rightarrow> 'w dfs \<Rightarrow> (int \<times> 'w dfs) res" where
  "dfs_mount env device_name path filesystemtype rwflag s =
     (let dev = Option.bind device_name (rt_device_find (registry s)) in
      if device_name \<noteq> None \<and> dev = None then Inr (- 1, set_errno (- ENODEV) s)
      else case first_at (named env filesystemtype) (filesystem_operation_table s) 0 of
        None \<Rightarrow> Inr (- 1, set_errno (- ENODEV) s)
      | Some i \<Rightarrow>
          let ops = the (filesystem_operation_table s ! i) in
          (case op_mount (ops_at env ops) of
             None \<Rightarrow> Inr (- 1, set_errno (- ENOSYS) s)
           | Some mount \<Rightarrow>
               bind_res (normalize None path s) (\<lambda>(full, s1).
                 case full of
                   None \<Rightarrow> Inr (- 1, set_errno (- ENOTDIR) s1)
                 | Some p \<Rightarrow>
                     bind_res (mount_point_exists env p s1) (\<lambda>(ok, s2).
                       if \<not> ok then Inr (- 1, set_errno (- ENOTDIR) s2)
                       else case find_mount_slot path (filesystem_table s2) 0 None of
                           Inl e \<Rightarrow> Inr (- 1, set_errno (- e) s2)
                         | Inr k \<Rightarrow> Inr (mount_at env k ops mount dev p rwflag s2)))))"

definition dfs_unmount :: "'w dfs_env \<Rightarrow> string \<Rightarrow> 'w dfs \<Rightarrow> (int \<times> 'w dfs) res" where
  "dfs_unmount env specialfile s =
     bind_res (normalize None specialfile s) (\<lambda>(full, s1).
       case full of
         None \<Rightarrow> Inr (- 1, set_errno (- ENOTDIR) s1)
       | Some p \<Rightarrow>
           (case first_at (\<lambda>e. mpath e = Some p) (filesystem_table s1) 0 of
              None \<Rightarrow> Inr (- 1, s1)
            | Some k \<Rightarrow>
                let e = filesystem_table s1 ! k in
                (case mops e of
                   None \<Rightarrow> Inl Out_Of_Bounds
                 | Some t \<Rightarrow>
                     (case op_unmount (ops_at env t) of
                        None \<Rightarrow> Inr (- 1, s1)
                      | Some f \<Rightarrow>
                          let (r, h, w) = f e (world s1) in
                          if r < 0 then Inr (- 1, set_entry k (e\<lparr>mdata := h\<rparr>) (s1\<lparr>world := w\<rparr>))
                          else Inr (0, set_entry k empty_fs
                            (s1\<lparr>world := (case dev_id e of None \<Rightarrow> w | Some d \<Rightarrow> dev_close env d w)\<rparr>))))))"

section \<open>The other operations of a file system\<close>

text \<open>A type that is not registered leaves the error number alone.\<close>

definition dfs_mkfs :: "'w dfs_env \<Rightarrow> string \<Rightarrow> string option \<Rightarrow> 'w dfs \<Rightarrow> int \<times> 'w dfs" where
  "dfs_mkfs env fs_name device_name s =
     (case Option.bind device_name (rt_device_find (registry s)) of
        None \<Rightarrow> (- 1, set_errno (- ENODEV) s)
      | Some dev \<Rightarrow>
          (case first_at (named env fs_name) (filesystem_operation_table s) 0 of
             None \<Rightarrow> (- 1, s)
           | Some i \<Rightarrow>
               (case op_mkfs (ops_at env (the (filesystem_operation_table s ! i))) of
                  None \<Rightarrow> (- 1, set_errno (- ENOSYS) s)
                | Some f \<Rightarrow> on_fs (f dev) s)))"

definition dfs_statfs :: "'w dfs_env \<Rightarrow> string \<Rightarrow> 'w dfs \<Rightarrow> int \<times> 'w dfs" where
  "dfs_statfs env path s =
     (case dfs_filesystem_lookup path s of
        None \<Rightarrow> (- 1, s)
      | Some k \<Rightarrow>
          let e = filesystem_table s ! k in
          (case Option.bind (mops e) (\<lambda>t. op_statfs (ops_at env t)) of
             None \<Rightarrow> (- 1, s) | Some f \<Rightarrow> on_fs (f e) s))"

text \<open>
  \<^verbatim>\<open>dfs_filesystem_get_partition\<close> on a boot sector: the type, the start and the size of a partition;
  \<open>None\<close> is the error. The bytes of a number are joined from the lowest.
\<close>

definition le32 :: "u8 list \<Rightarrow> nat \<Rightarrow> u32" where
  "le32 buf i = ucast (buf ! i) OR push_bit 8 (ucast (buf ! (i + 1))) OR push_bit 16 (ucast (buf ! (i + 2)))
     OR push_bit 24 (ucast (buf ! (i + 3)))"

definition dfs_filesystem_get_partition :: "u8 list \<Rightarrow> nat \<Rightarrow> (u8 \<times> u32 \<times> u32) option res" where
  "dfs_filesystem_get_partition buf pindex =
     (let dpt = 0x1be + pindex * 16 in
      if length buf \<le> dpt then Inl Out_Of_Bounds
      else if buf ! dpt \<noteq> 0x80 \<and> buf ! dpt \<noteq> 0x00 then Inr None
      else if length buf \<le> dpt + 4 then Inl Out_Of_Bounds
      else if buf ! (dpt + 4) = 0 then Inr None
      else if length buf \<le> dpt + 15 then Inl Out_Of_Bounds
      else Inr (Some (buf ! (dpt + 4), le32 buf (dpt + 8), le32 buf (dpt + 12))))"

end
