(* ===== verification/Dfs_Posix.thy ===== *)
theory Dfs_Posix
  imports Dfs_Mount
begin

text \<open>
  The calls of POSIX (\<^verbatim>\<open>components/dfs/src/dfs_posix.c\<close>). A call takes a reference to the
  descriptor, works on it and gives the reference back. Results are those of the C functions, \<open>- 1\<close>
  with the error number in the state; \<open>None\<close> is a null pointer.
\<close>

section \<open>Descriptors\<close>

text \<open>Work on the descriptor behind a pointer.\<close>

definition with_fd ::
  "nat option \<Rightarrow> (dfs_fd option \<Rightarrow> 'w dfs \<Rightarrow> ('r \<times> dfs_fd option \<times> 'w dfs) res) \<Rightarrow> 'w dfs \<Rightarrow> ('r \<times> 'w dfs) res" where
  "with_fd p f s =
     (case p of
        None \<Rightarrow> bind_res (f None s) (\<lambda>(r, _, s1). Inr (r, s1))
      | Some i \<Rightarrow> bind_res (fd_deref i s) (\<lambda>d. bind_res (f (Some d) s) (\<lambda>(r, d1, s1). Inr (r, set_fd i d1 s1))))"

text \<open>An operation on the file of a number.\<close>

definition call_fd ::
  "int \<Rightarrow> (dfs_fd option \<Rightarrow> 'w dfs \<Rightarrow> (int \<times> dfs_fd option \<times> 'w dfs) res) \<Rightarrow> 'w dfs \<Rightarrow> (int \<times> 'w dfs) res" where
  "call_fd fd f s =
     (case fd_get fd s of
        (None, s1) \<Rightarrow> Inr (- 1, set_errno (- EBADF) s1)
      | (Some i, s1) \<Rightarrow>
          bind_res (with_fd (Some i) f s1) (\<lambda>(r, s2).
            bind_res (fd_put (Some i) s2) (\<lambda>s3. Inr (if r < 0 then (- 1, set_errno r s3) else (r, s3)))))"

text \<open>The end of a call that only gives an error number.\<close>

definition to_errno :: "int \<times> 'w dfs \<Rightarrow> int \<times> 'w dfs" where
  "to_errno x = (if fst x < 0 then (- 1, set_errno (fst x) (snd x)) else x)"

section \<open>Files\<close>

text \<open>The name \<open>open\<close> and the like belong to the logic.\<close>

definition posix_open :: "'w dfs_env \<Rightarrow> string \<Rightarrow> u32 \<Rightarrow> 'w dfs \<Rightarrow> (int \<times> 'w dfs) res" where
  "posix_open env file fl s =
     bind_res (fd_new s) (\<lambda>(fd, s1).
       if fd < 0 then Inr (- 1, set_errno (- ENOMEM) s1)
       else let (p, s2) = fd_get fd s1 in
         bind_res (with_fd p (\<lambda>d. dfs_file_open env d file fl) s2) (\<lambda>(r, s3).
           if r < 0
           then bind_res (fd_put p s3) (\<lambda>s4. bind_res (fd_put p s4) (\<lambda>s5. Inr (- 1, set_errno r s5)))
           else bind_res (fd_put p s3) (\<lambda>s4. Inr (fd, s4))))"

definition creat :: "'w dfs_env \<Rightarrow> string \<Rightarrow> 'w dfs \<Rightarrow> (int \<times> 'w dfs) res" where
  "creat env path s = posix_open env path (O_WRONLY OR O_CREAT OR O_TRUNC) s"

definition posix_close :: "'w dfs_env \<Rightarrow> int \<Rightarrow> 'w dfs \<Rightarrow> (int \<times> 'w dfs) res" where
  "posix_close env fd s =
     (case fd_get fd s of
        (None, s1) \<Rightarrow> Inr (- 1, set_errno (- EBADF) s1)
      | (Some i, s1) \<Rightarrow>
          bind_res (with_fd (Some i) (dfs_file_close env) s1) (\<lambda>(r, s2).
            bind_res (fd_put (Some i) s2) (\<lambda>s3.
              if r < 0 then Inr (- 1, set_errno r s3)
              else bind_res (fd_put (Some i) s3) (\<lambda>s4. Inr (0, s4)))))"

text \<open>The bytes that land in the buffer of the caller come with the result.\<close>

definition posix_read :: "'w dfs_env \<Rightarrow> int \<Rightarrow> nat \<Rightarrow> 'w dfs \<Rightarrow> (int \<times> u8 list \<times> 'w dfs) res" where
  "posix_read env fd len s =
     (case fd_get fd s of
        (None, s1) \<Rightarrow> Inr (- 1, [], set_errno (- EBADF) s1)
      | (Some i, s1) \<Rightarrow>
          bind_res (with_fd (Some i)
              (\<lambda>d s. bind_res (dfs_file_read env d len s) (\<lambda>(r, bs, d1, s1). Inr ((r, bs), d1, s1))) s1) (\<lambda>((r, bs), s2).
            bind_res (fd_put (Some i) s2) (\<lambda>s3.
              Inr (if r < 0 then (- 1, bs, set_errno r s3) else (r, bs, s3)))))"

definition posix_write :: "'w dfs_env \<Rightarrow> int \<Rightarrow> u8 list \<Rightarrow> 'w dfs \<Rightarrow> (int \<times> 'w dfs) res" where
  "posix_write env fd bs s = call_fd fd (\<lambda>d. dfs_file_write env d bs) s"

datatype whence = SEEK_SET | SEEK_CUR | SEEK_END

text \<open>
  The new offset; the sum of two signed numbers that does not fit is undefined. The size is
  unsigned, and the sum with it wraps.
\<close>

definition seek_offset :: "dfs_fd \<Rightarrow> u32 \<Rightarrow> whence \<Rightarrow> u32 res" where
  "seek_offset d offset whence =
     (case whence of
        SEEK_SET \<Rightarrow> Inr offset
      | SEEK_CUR \<Rightarrow>
          if sint (offset + fpos (fio d)) = sint offset + sint (fpos (fio d)) then Inr (offset + fpos (fio d))
          else Inl Out_Of_Bounds
      | SEEK_END \<Rightarrow> Inr (offset + fsize (fio d)))"

text \<open>\<open>None\<close>: a \<^verbatim>\<open>whence\<close> that is none of the three.\<close>

definition lseek_op ::
  "'w dfs_env \<Rightarrow> u32 \<Rightarrow> whence option \<Rightarrow> dfs_fd option \<Rightarrow> 'w dfs \<Rightarrow> (int \<times> dfs_fd option \<times> 'w dfs) res" where
  "lseek_op env offset whence fd s =
     (case (whence, fd) of
        (Some w, Some d) \<Rightarrow>
          bind_res (seek_offset d offset w) (\<lambda>off.
            if sint off < 0 then Inr (- EINVAL, fd, s)
            else bind_res (dfs_file_lseek env fd off s) (\<lambda>(r, d1, s1).
              Inr (if r < 0 then r else sint off, d1, s1)))
      | _ \<Rightarrow> Inr (- EINVAL, fd, s))"

definition posix_lseek :: "'w dfs_env \<Rightarrow> int \<Rightarrow> u32 \<Rightarrow> whence option \<Rightarrow> 'w dfs \<Rightarrow> (int \<times> 'w dfs) res" where
  "posix_lseek env fd offset whence s = call_fd fd (lseek_op env offset whence) s"

definition posix_rename :: "'w dfs_env \<Rightarrow> string \<Rightarrow> string \<Rightarrow> 'w dfs \<Rightarrow> (int \<times> 'w dfs) res" where
  "posix_rename env old new s = bind_res (dfs_file_rename env old new s) (\<lambda>x. Inr (if fst x < 0 then to_errno x else (0, snd x)))"

definition posix_unlink :: "'w dfs_env \<Rightarrow> string \<Rightarrow> 'w dfs \<Rightarrow> (int \<times> 'w dfs) res" where
  "posix_unlink env path s = bind_res (dfs_file_unlink env path s) (\<lambda>x. Inr (if fst x < 0 then to_errno x else (0, snd x)))"

definition posix_stat :: "'w dfs_env \<Rightarrow> string \<Rightarrow> stat_buf \<Rightarrow> 'w dfs \<Rightarrow> (int \<times> stat_buf \<times> 'w dfs) res" where
  "posix_stat env file buf s =
     bind_res (dfs_file_stat env file buf s) (\<lambda>(r, b, s1). Inr (if r < 0 then (- 1, b, set_errno r s1) else (r, b, s1)))"

definition fd_stat :: "dfs_fd \<Rightarrow> stat_buf" where
  "fd_stat d =
     \<lparr>st_mode = (if ftype (fio d) = FT_DIRECTORY
                 then ((0x8000 OR 0x1B6) AND NOT 0x8000) OR 0x4000 OR 0x49 else 0x8000 OR 0x1B6),
      st_size = fsize (fio d)\<rparr>"

text \<open>\<open>None\<close>: the buffer is left alone.\<close>

definition fstat :: "int \<Rightarrow> 'w dfs \<Rightarrow> (int \<times> stat_buf option \<times> 'w dfs) res" where
  "fstat fildes s =
     (case fd_get fildes s of
        (None, s1) \<Rightarrow> Inr (- 1, None, set_errno (- EBADF) s1)
      | (Some i, s1) \<Rightarrow>
          bind_res (fd_deref i s1) (\<lambda>d. bind_res (fd_put (Some i) s1) (\<lambda>s2. Inr (0, Some (fd_stat d), s2))))"

text \<open>The result of the driver, and no error number.\<close>

definition fsync :: "'w dfs_env \<Rightarrow> int \<Rightarrow> 'w dfs \<Rightarrow> (int \<times> 'w dfs) res" where
  "fsync env fildes s =
     (case fd_get fildes s of
        (None, s1) \<Rightarrow> Inr (- 1, set_errno (- EBADF) s1)
      | (Some i, s1) \<Rightarrow>
          bind_res (with_fd (Some i) (dfs_file_flush env) s1) (\<lambda>(r, s2).
            bind_res (fd_put (Some i) s2) (\<lambda>s3. Inr (r, s3))))"

definition fcntl :: "'w dfs_env \<Rightarrow> int \<Rightarrow> int \<Rightarrow> u32 \<Rightarrow> 'w dfs \<Rightarrow> (int \<times> 'w dfs) res" where
  "fcntl env fildes cmd args s = call_fd fildes (\<lambda>d. dfs_file_ioctl env d cmd args) s"

definition posix_ioctl :: "'w dfs_env \<Rightarrow> int \<Rightarrow> int \<Rightarrow> u32 \<Rightarrow> 'w dfs \<Rightarrow> (int \<times> 'w dfs) res" where
  "posix_ioctl env fildes cmd args s = fcntl env fildes cmd args s"

definition ftruncate :: "'w dfs_env \<Rightarrow> int \<Rightarrow> u32 \<Rightarrow> 'w dfs \<Rightarrow> (int \<times> 'w dfs) res" where
  "ftruncate env fd len s =
     call_fd fd (\<lambda>d s. if sint len < 0 then Inr (- EINVAL, d, s)
       else bind_res (dfs_file_ftruncate env d len s) (\<lambda>(r, d1, s1). Inr (if r < 0 then r else 0, d1, s1))) s"

definition posix_statfs :: "'w dfs_env \<Rightarrow> string \<Rightarrow> 'w dfs \<Rightarrow> int \<times> 'w dfs" where
  "posix_statfs env path s = to_errno (dfs_statfs env path s)"

text \<open>\<^verbatim>\<open>access\<close> asks only whether the file is there.\<close>

definition posix_access :: "'w dfs_env \<Rightarrow> string \<Rightarrow> stat_buf \<Rightarrow> 'w dfs \<Rightarrow> (int \<times> 'w dfs) res" where
  "posix_access env path sb s = bind_res (posix_stat env path sb s) (\<lambda>(r, _, s1). Inr (if r < 0 then - 1 else 0, s1))"

section \<open>Directories\<close>

definition mkdir :: "'w dfs_env \<Rightarrow> string \<Rightarrow> 'w dfs \<Rightarrow> (int \<times> 'w dfs) res" where
  "mkdir env path s =
     bind_res (fd_new s) (\<lambda>(fd, s1).
       if fd = - 1 then Inr (- 1, set_errno (- ENOMEM) s1)
       else let (p, s2) = fd_get fd s1 in
         bind_res (with_fd p (\<lambda>d. dfs_file_open env d path (O_DIRECTORY OR O_CREAT)) s2) (\<lambda>(r, s3).
           if r < 0
           then bind_res (fd_put p s3) (\<lambda>s4. bind_res (fd_put p s4) (\<lambda>s5. Inr (- 1, set_errno r s5)))
           else bind_res (with_fd p (dfs_file_close env) s3) (\<lambda>(_, s4).
             bind_res (fd_put p s4) (\<lambda>s5. bind_res (fd_put p s5) (\<lambda>s6. Inr (0, s6))))))"

definition posix_rmdir :: "'w dfs_env \<Rightarrow> string \<Rightarrow> 'w dfs \<Rightarrow> (int \<times> 'w dfs) res" where
  "posix_rmdir env path s = bind_res (dfs_file_unlink env path s) (\<lambda>x. Inr (if fst x < 0 then to_errno x else (0, snd x)))"

text \<open>A directory stream: the number of its descriptor and a buffer with some of its entries.\<close>

record dir =
  dir_fd :: int
  dbuf :: "u8 list"
  dnum :: int
  dcur :: int

definition new_dir :: "int \<Rightarrow> dir" where
  "new_dir fd = \<lparr>dir_fd = fd, dbuf = replicate 512 0, dnum = 0, dcur = 0\<rparr>"

definition opendir :: "'w dfs_env \<Rightarrow> string \<Rightarrow> 'w dfs \<Rightarrow> (dir option \<times> 'w dfs) res" where
  "opendir env name s =
     bind_res (fd_new s) (\<lambda>(fd, s1).
       if fd = - 1 then Inr (None, set_errno (- ENOMEM) s1)
       else let (p, s2) = fd_get fd s1 in
         bind_res (with_fd p (\<lambda>d. dfs_file_open env d name (O_RDONLY OR O_DIRECTORY)) s2) (\<lambda>(r, s3).
           if r \<ge> 0
           then let (m, s4) = alloc_mem s3 in
             if \<not> m
             then bind_res (with_fd p (dfs_file_close env) s4) (\<lambda>(_, s5).
               bind_res (fd_put p s5) (\<lambda>s6. bind_res (fd_put p s6) (\<lambda>s7. Inr (None, s7))))
             else bind_res (fd_put p s4) (\<lambda>s5. Inr (Some (new_dir fd), s5))
           else bind_res (fd_put p s3) (\<lambda>s4. bind_res (fd_put p s4) (\<lambda>s5. Inr (None, set_errno r s5)))))"

text \<open>The length of the entry at a position of the buffer, its bytes 2 and 3.\<close>

definition reclen :: "u8 list \<Rightarrow> int \<Rightarrow> int res" where
  "reclen buf cur =
     (if 0 \<le> cur \<and> cur + 3 < int (length buf)
      then Inr (uint (buf ! nat (cur + 2)) + 256 * uint (buf ! nat (cur + 3))) else Inl Out_Of_Bounds)"

definition getdents_op ::
  "'w dfs_env \<Rightarrow> nat \<Rightarrow> dfs_fd option \<Rightarrow> 'w dfs \<Rightarrow> ((int \<times> u8 list) \<times> dfs_fd option \<times> 'w dfs) res" where
  "getdents_op env n d s = bind_res (dfs_file_getdents env d n s) (\<lambda>(r, bs, d1, s1). Inr ((r, bs), d1, s1))"

text \<open>The position in the buffer of the next entry.\<close>

definition readdir :: "'w dfs_env \<Rightarrow> dir \<Rightarrow> 'w dfs \<Rightarrow> (int option \<times> dir \<times> 'w dfs) res" where
  "readdir env d s =
     (case fd_get (dir_fd d) s of
        (None, s1) \<Rightarrow> Inr (None, d, set_errno (- EBADF) s1)
      | (Some i, s1) \<Rightarrow>
          bind_res (if dnum d \<noteq> 0 then bind_res (reclen (dbuf d) (dcur d)) (\<lambda>n. Inr (dcur d + n)) else Inr (dcur d)) (\<lambda>cur.
            if dnum d = 0 \<or> cur \<ge> dnum d
            then bind_res (with_fd (Some i) (getdents_op env 511) s1) (\<lambda>((r, bs), s2).
              if length bs > 511 then Inl Out_Of_Bounds
              else let d1 = d\<lparr>dbuf := bs @ drop (length bs) (dbuf d), dcur := cur\<rparr> in
                bind_res (fd_put (Some i) s2) (\<lambda>s3.
                  Inr (if r \<le> 0 then (None, d1, set_errno r s3) else (Some 0, d1\<lparr>dnum := r, dcur := 0\<rparr>, s3))))
            else bind_res (fd_put (Some i) s1) (\<lambda>s2. Inr (Some cur, d\<lparr>dcur := cur\<rparr>, s2))))"

definition telldir :: "dir \<Rightarrow> 'w dfs \<Rightarrow> (int \<times> 'w dfs) res" where
  "telldir d s =
     (case fd_get (dir_fd d) s of
        (None, s1) \<Rightarrow> Inr (0, set_errno (- EBADF) s1)
      | (Some i, s1) \<Rightarrow>
          bind_res (fd_deref i s1) (\<lambda>x. bind_res (fd_put (Some i) s1) (\<lambda>s2. Inr (sint (fpos (fio x)) - dnum d + dcur d, s2))))"

definition seekdir :: "'w dfs_env \<Rightarrow> dir \<Rightarrow> u32 \<Rightarrow> 'w dfs \<Rightarrow> (dir \<times> 'w dfs) res" where
  "seekdir env d offset s =
     (case fd_get (dir_fd d) s of
        (None, s1) \<Rightarrow> Inr (d, set_errno (- EBADF) s1)
      | (Some i, s1) \<Rightarrow>
          bind_res (with_fd (Some i) (\<lambda>x. dfs_file_lseek env x offset) s1) (\<lambda>(r, s2).
            bind_res (fd_put (Some i) s2) (\<lambda>s3. Inr (if r \<ge> 0 then d\<lparr>dnum := 0, dcur := 0\<rparr> else d, s3))))"

definition rewinddir :: "'w dfs_env \<Rightarrow> dir \<Rightarrow> 'w dfs \<Rightarrow> (dir \<times> 'w dfs) res" where
  "rewinddir env d s = seekdir env d 0 s"

text \<open>The stream and its descriptor are gone even if the file system could not close the directory.\<close>

definition closedir :: "'w dfs_env \<Rightarrow> dir \<Rightarrow> 'w dfs \<Rightarrow> (int \<times> 'w dfs) res" where
  "closedir env d s =
     (case fd_get (dir_fd d) s of
        (None, s1) \<Rightarrow> Inr (- 1, set_errno (- EBADF) s1)
      | (Some i, s1) \<Rightarrow>
          bind_res (with_fd (Some i) (dfs_file_close env) s1) (\<lambda>(r, s2).
            bind_res (fd_put (Some i) s2) (\<lambda>s3. bind_res (fd_put (Some i) s3) (\<lambda>s4.
              Inr (if r < 0 then (- 1, set_errno r s4) else (0, s4))))))"

section \<open>The working directory\<close>

text \<open>\<^verbatim>\<open>strncpy\<close> into an array of \<open>n\<close> bytes: the text, and end marks if there is room.\<close>

definition strncpy :: "nat \<Rightarrow> string \<Rightarrow> string" where
  "strncpy n src = take n src @ replicate (n - length src) nul"

definition chdir :: "'w dfs_env \<Rightarrow> string option \<Rightarrow> 'w dfs \<Rightarrow> (int \<times> 'w dfs) res" where
  "chdir env path s =
     (case path of
        None \<Rightarrow> Inr (0, s)
      | Some p \<Rightarrow>
          if length p > DFS_PATH_MAX then Inr (- 1, set_errno (- ENOTDIR) s)
          else bind_res (normalize None p s) (\<lambda>(full, s1).
            case full of
              None \<Rightarrow> Inr (- 1, set_errno (- ENOTDIR) s1)
            | Some q \<Rightarrow>
                bind_res (opendir env q s1) (\<lambda>(d, s2).
                  case d of
                    None \<Rightarrow> Inr (- 1, s2)
                  | Some d \<Rightarrow> bind_res (closedir env d s2) (\<lambda>(_, s3).
                      Inr (0, s3\<lparr>working_directory := take DFS_PATH_MAX q\<rparr>)))))"

text \<open>The array of the caller, if the working directory has an end mark in the bytes that are read.\<close>

definition getcwd :: "nat \<Rightarrow> 'w dfs \<Rightarrow> string res" where
  "getcwd sz s =
     (if DFS_PATH_MAX \<le> length (working_directory s) \<and> DFS_PATH_MAX < sz then Inl Out_Of_Bounds
      else Inr (strncpy sz (working_directory s)))"

end
