(* ===== verification/Dfs_Inv.thy ===== *)
theory Dfs_Inv
  imports Dfs_Posix
begin

text \<open>
  The table of descriptors between two calls: an entry is free, or an open file with exactly one
  reference. Every call gives back the references that it takes.
\<close>

section \<open>What an operation on a file leaves alone\<close>

definition same_tables :: "'w dfs \<Rightarrow> 'w dfs \<Rightarrow> bool" where
  "same_tables s s' \<longleftrightarrow> fds s' = fds s \<and> filesystem_table s' = filesystem_table s \<and>
     filesystem_operation_table s' = filesystem_operation_table s \<and> working_directory s' = working_directory s \<and>
     registry s' = registry s"

lemma same_tables_refl [simp]: "same_tables s s"
  by (simp add: same_tables_def)

lemma same_tables_trans: "same_tables s t \<Longrightarrow> same_tables t u \<Longrightarrow> same_tables s u"
  by (simp add: same_tables_def)

lemma same_tables_world [simp]: "same_tables s (s\<lparr>world := w\<rparr>)"
  by (simp add: same_tables_def)

lemma same_tables_alloc: "alloc_mem s = (m, s1) \<Longrightarrow> same_tables s s1"
  by (auto simp: alloc_mem_def same_tables_def split: list.splits)

lemma same_tables_errno [simp]: "same_tables s (set_errno e s)"
  by (simp add: same_tables_def set_errno_def)

lemma normalize_same: "normalize d p s = Inr (q, s1) \<Longrightarrow> same_tables s s1"
  by (auto simp: normalize_def bind_res_Inr_iff same_tables_alloc split: if_splits prod.splits)

lemma drive_same: "drive f d s = (r, d1, s1) \<Longrightarrow> same_tables s s1 \<and> d1 = d\<lparr>fio := fio d1\<rparr>"
  by (auto simp: drive_def split: prod.splits)

lemma drive_read_same: "drive_read f d n s = (r, bs, d1, s1) \<Longrightarrow> same_tables s s1 \<and> d1 = d\<lparr>fio := fio d1\<rparr>"
  by (auto simp: drive_read_def split: prod.splits)

lemma on_fs_same: "on_fs f s = (r, s1) \<Longrightarrow> same_tables s s1"
  by (auto simp: on_fs_def split: prod.splits)

text \<open>The header of a descriptor.\<close>

definition same_head :: "dfs_fd \<Rightarrow> dfs_fd \<Rightarrow> bool" where
  "same_head d d' \<longleftrightarrow> magic d' = magic d \<and> fd_refs d' = fd_refs d"

text \<open>
  A file operation that works on one descriptor: on a descriptor with operations it does not fault,
  and it changes nothing but this descriptor and the state behind the file system.
\<close>

definition file_step :: "(dfs_fd option \<Rightarrow> 'w dfs \<Rightarrow> ('r \<times> dfs_fd option \<times> 'w dfs) res) \<Rightarrow> bool" where
  "file_step f \<longleftrightarrow> (\<forall>d s r d' s'. f (Some d) s = Inr (r, d', s') \<longrightarrow>
      same_tables s s' \<and> (\<exists>d1. d' = Some d1 \<and> same_head d d1 \<and> (fops d \<noteq> None \<longrightarrow> fops d1 \<noteq> None)))"

definition file_total :: "(dfs_fd option \<Rightarrow> 'w dfs \<Rightarrow> ('r \<times> dfs_fd option \<times> 'w dfs) res) \<Rightarrow> bool" where
  "file_total f \<longleftrightarrow> (\<forall>d s. fops d \<noteq> None \<longrightarrow> (\<exists>r. f (Some d) s = Inr r))"

lemma file_stepI:
  assumes "\<And>d s r d' s'. f (Some d) s = Inr (r, d', s') \<Longrightarrow>
    same_tables s s' \<and> (\<exists>d1. d' = Some d1 \<and> same_head d d1 \<and> (fops d \<noteq> None \<longrightarrow> fops d1 \<noteq> None))"
  shows "file_step f"
  unfolding file_step_def using assms by blast

named_theorems file_defs \<open>the operations on one descriptor\<close>

declare dfs_file_close_def [file_defs] dfs_file_ioctl_def [file_defs] ioctl_driver_def [file_defs] dfs_file_read_def [file_defs]
  dfs_file_getdents_def [file_defs] dfs_file_write_def [file_defs] dfs_file_flush_def [file_defs] dfs_file_lseek_def [file_defs]
  dfs_file_ftruncate_def [file_defs] fd_ops_def [file_defs] same_head_def [file_defs]

lemma fio_ext: "d1 = d\<lparr>fio := fio d1\<rparr> \<Longrightarrow> magic d1 = magic d \<and> fd_refs d1 = fd_refs d \<and> fops d1 = fops d \<and> ffs d1 = ffs d"
  by (metis dfs_fd.select_convs dfs_fd.surjective dfs_fd.update_convs(7))

lemma close_step: "file_step (dfs_file_close env)"
  by (rule file_stepI) (auto simp: file_defs Let_def split: option.splits prod.splits if_splits dest!: drive_same fio_ext)

lemma ioctl_step: "file_step (\<lambda>d. dfs_file_ioctl env d cmd args)"
  by (rule file_stepI) (auto simp: file_defs Let_def split: option.splits prod.splits if_splits dest!: drive_same fio_ext)

lemma write_step: "file_step (\<lambda>d. dfs_file_write env d bs)"
  by (rule file_stepI) (auto simp: file_defs Let_def split: option.splits prod.splits if_splits dest!: drive_same fio_ext)

lemma flush_step: "file_step (dfs_file_flush env)"
  by (rule file_stepI) (auto simp: file_defs Let_def split: option.splits prod.splits if_splits dest!: drive_same fio_ext)

lemma lseek_step: "file_step (\<lambda>d. dfs_file_lseek env d off)"
  by (rule file_stepI) (auto simp: file_defs Let_def split: option.splits prod.splits if_splits dest!: drive_same fio_ext)

lemma read_step: "file_step (\<lambda>d s. bind_res (dfs_file_read env d n s) (\<lambda>(r, bs, d1, s1). Inr ((r, bs), d1, s1)))"
  by (rule file_stepI)
    (auto simp: file_defs Let_def bind_res_Inr_iff split: option.splits prod.splits if_splits dest!: drive_read_same fio_ext)

lemma getdents_step: "file_step (getdents_op env n)"
  by (rule file_stepI)
    (auto simp: file_defs getdents_op_def Let_def bind_res_Inr_iff split: option.splits prod.splits if_splits dest!: drive_read_same fio_ext)

lemma lseek_op_step: "file_step (lseek_op env off whence)"
proof (rule file_stepI)
  fix d s r d' s'
  assume a: "lseek_op env off whence (Some d) s = Inr (r, d', s')"
  show "same_tables s s' \<and> (\<exists>d1. d' = Some d1 \<and> same_head d d1 \<and> (fops d \<noteq> None \<longrightarrow> fops d1 \<noteq> None))"
  proof (cases "\<exists>w o1 r1 . whence = Some w \<and> seek_offset d off w = Inr o1 \<and> \<not> sint o1 < 0 \<and> dfs_file_lseek env (Some d) o1 s = Inr (r1, d', s')")
    case True
    then show ?thesis using lseek_step[of env] unfolding file_step_def by blast
  next
    case False
    then have "s' = s \<and> d' = Some d"
      using a by (auto simp: lseek_op_def bind_res_Inr_iff split: option.splits if_splits)
    then show ?thesis by (simp add: same_head_def)
  qed
qed

lemma ioctl_driver_step:
  "ioctl_driver env d cmd args s = Inr (r, d', s') \<Longrightarrow> same_tables s s' \<and> (\<exists>d1. d' = Some d1 \<and> same_head d d1 \<and> fops d1 = fops d)"
  by (auto simp: ioctl_driver_def fd_ops_def same_head_def split: option.splits prod.splits dest!: drive_same fio_ext)

lemma ftruncate_step: "file_step (\<lambda>d. dfs_file_ftruncate env d n)"
proof (rule file_stepI)
  fix d s r d' s'
  assume a: "dfs_file_ftruncate env (Some d) n s = Inr (r, d', s')"
  show "same_tables s s' \<and> (\<exists>d1. d' = Some d1 \<and> same_head d d1 \<and> (fops d \<noteq> None \<longrightarrow> fops d1 \<noteq> None))"
  proof (cases "ftype (fio d) \<noteq> FT_REGULAR \<or> sint n < 0")
    case True
    then show ?thesis using a by (auto simp: dfs_file_ftruncate_def same_head_def)
  next
    case False
    then obtain r1 d1 s1 where i: "ioctl_driver env d RT_FIOFTRUNCATE (Length n) s = Inr (r1, d1, s1)"
      using a by (auto simp: dfs_file_ftruncate_def bind_res_Inr_iff)
    then show ?thesis using a False ioctl_driver_step[OF i]
      by (auto simp: dfs_file_ftruncate_def same_head_def split: if_splits)
  qed
qed

lemma file_step_map: "file_step f \<Longrightarrow> file_step (\<lambda>d s. if c then Inr (e, d, s) else bind_res (f d s) (\<lambda>(r, d1, s1). Inr (g r, d1, s1)))"
  by (auto simp: file_step_def bind_res_Inr_iff same_head_def split: if_splits)

text \<open>Opening: the path has to be one that can be normalised.\<close>

lemma file_path_same: "file_path env e p s = Inr (q, s1) \<Longrightarrow> same_tables s s1"
  by (auto simp: file_path_def bind_res_Inr_iff same_tables_alloc split: if_splits prod.splits option.splits)

lemma open_in_step:
  assumes "open_in env d k p fl s = Inr (r, d', s')"
  shows "same_tables s s' \<and> (r \<ge> 0 \<longrightarrow> r = 0) \<and> (\<exists>d1. d' = Some d1 \<and> same_head d d1 \<and> fops d1 \<noteq> None \<and> ffs d1 = Some k)"
proof -
  obtain t where t: "mops (filesystem_table s ! k) = Some t" using assms by (auto simp: open_in_def split: option.splits)
  obtain q s1 where q: "file_path env (filesystem_table s ! k) p s = Inr (q, s1)"
    using assms t by (auto simp: open_in_def bind_res_Inr_iff Let_def)
  let ?d = "d\<lparr>ffs := Some k, fops := Some t, fflags := fl,
    fio := \<lparr>ftype = FT_REGULAR, fsize = 0, fpos = 0, fdata = Of_Fs k\<rparr>, fpath := q\<rparr>"
  show ?thesis
  proof (cases "f_open (op_fops (ops_at env t))")
    case None
    then show ?thesis using assms t q file_path_same[OF q] by (auto simp: open_in_def Let_def same_head_def)
  next
    case (Some f)
    obtain r1 d1 s2 where x: "drive f ?d s1 = (r1, d1, s2)" by (cases "drive f ?d s1") auto
    have d1: "same_tables s1 s2" "magic d1 = magic d" "fd_refs d1 = fd_refs d" "fops d1 = Some t" "ffs d1 = Some k"
      using drive_same[OF x] fio_ext[of d1 ?d] by simp_all
    show ?thesis using assms t q Some x d1 same_tables_trans[OF file_path_same[OF q] d1(1)]
      by (auto simp: open_in_def Let_def same_head_def opened_def split: if_splits)
  qed
qed

lemma open_step: "file_step (\<lambda>d. dfs_file_open env d path fl)"
proof (rule file_stepI)
  fix d s r d' s'
  assume a: "dfs_file_open env (Some d) path fl s = Inr (r, d', s')"
  then obtain p s1 where p: "normalize None path s = Inr (p, s1)" by (auto simp: dfs_file_open_def bind_res_Inr_iff)
  show "same_tables s s' \<and> (\<exists>d1. d' = Some d1 \<and> same_head d d1 \<and> (fops d \<noteq> None \<longrightarrow> fops d1 \<noteq> None))"
  proof (cases "\<exists>q k. p = Some q \<and> open_in env d k q fl s1 = Inr (r, d', s')")
    case True
    then obtain q k where "open_in env d k q fl s1 = Inr (r, d', s')" by blast
    then show ?thesis using open_in_step same_tables_trans[OF normalize_same[OF p]] by fastforce
  next
    case False
    then have "s' = s1 \<and> d' = Some d" using a p by (auto simp: dfs_file_open_def split: option.splits)
    then show ?thesis using normalize_same[OF p] by (simp add: same_head_def)
  qed
qed

lemma open_result:
  assumes "dfs_file_open env (Some d) path fl s = Inr (r, d', s')" and "r \<ge> 0"
  shows "r = 0 \<and> (\<exists>d1. d' = Some d1 \<and> fops d1 \<noteq> None)"
proof -
  obtain p s1 where p: "normalize None path s = Inr (p, s1)" using assms by (auto simp: dfs_file_open_def bind_res_Inr_iff)
  then obtain q k where q: "p = Some q" "open_in env d k q fl s1 = Inr (r, d', s')"
    using assms by (auto simp: dfs_file_open_def split: option.splits)
  then show ?thesis using open_in_step[OF q(2)] assms(2) by blast
qed

section \<open>The table\<close>

definition fd_open :: "dfs_fd \<Rightarrow> bool" where
  "fd_open d \<longleftrightarrow> magic d = DFS_FD_MAGIC \<and> fd_refs d = 1 \<and> fops d \<noteq> None"

definition fds_ok :: "'w dfs \<Rightarrow> bool" where
  "fds_ok s \<longleftrightarrow> length (fds s) \<le> DFS_FD_MAX \<and> (\<forall>d. Some d \<in> set (fds s) \<longrightarrow> fd_open d)"

text \<open>The file of a number, if there is one.\<close>

definition fd_at :: "'w dfs \<Rightarrow> int \<Rightarrow> dfs_fd option" where
  "fd_at s fd = (if 3 \<le> fd \<and> fd - 3 < int (length (fds s)) then (fds s) ! nat (fd - 3) else None)"

lemma fd_get_None: "fds_ok s \<Longrightarrow> fd_at s fd = None \<Longrightarrow> fd_get fd s = (None, s)"
  by (auto simp: fd_get_def fd_at_def Let_def split: option.splits if_splits)

lemma fd_get_Some:
  assumes "fds_ok s" and "fd_at s fd = Some d"
  shows "fd_get fd s = (Some (nat (fd - 3)), set_fd (nat (fd - 3)) (Some (d\<lparr>fd_refs := 2\<rparr>)) s)"
    and "nat (fd - 3) < length (fds s)" and "fd_open d" and "(fds s) ! nat (fd - 3) = Some d"
proof -
  have l: "3 \<le> fd" "nat (fd - 3) < length (fds s)" "(fds s) ! nat (fd - 3) = Some d"
    using assms(2) by (auto simp: fd_at_def split: if_splits)
  then show "nat (fd - 3) < length (fds s)" "(fds s) ! nat (fd - 3) = Some d" by auto
  have "Some d \<in> set (fds s)" using l(2,3) by (metis nth_mem)
  then show o1: "fd_open d" using assms(1) by (simp add: fds_ok_def)
  show "fd_get fd s = (Some (nat (fd - 3)), set_fd (nat (fd - 3)) (Some (d\<lparr>fd_refs := 2\<rparr>)) s)"
    using l o1 by (simp add: fd_get_def fd_open_def Let_def)
qed

text \<open>One entry has changed.\<close>

definition changes :: "nat \<Rightarrow> dfs_fd option \<Rightarrow> 'w dfs \<Rightarrow> 'w dfs \<Rightarrow> bool" where
  "changes i x s s' \<longleftrightarrow> i < length (fds s) \<and> fds s' = (fds s)[i := x] \<and> filesystem_table s' = filesystem_table s \<and>
     filesystem_operation_table s' = filesystem_operation_table s \<and> working_directory s' = working_directory s \<and>
     registry s' = registry s"

lemma changes_fd_at: "changes i x s s' \<Longrightarrow> fd_at s' = (fd_at s)(int i + 3 := x)"
  by (rule ext) (auto simp: changes_def fd_at_def nth_list_update)

lemma changes_ok: "changes i x s s' \<Longrightarrow> fds_ok s \<Longrightarrow> (\<And>d. x = Some d \<Longrightarrow> fd_open d) \<Longrightarrow> fds_ok s'"
  by (auto simp: fds_ok_def changes_def dest!: set_update_subset_insert[THEN subsetD])

lemma changes_again: "changes i x s s1 \<Longrightarrow> changes i y s1 s2 \<Longrightarrow> changes i y s s2"
  by (simp add: changes_def)

lemma changes_set_fd: "i < length (fds s) \<Longrightarrow> changes i x s (set_fd i x s)"
  by (simp add: changes_def set_fd_def)

lemma changes_same: "changes i x s s1 \<Longrightarrow> same_tables s1 s2 \<Longrightarrow> changes i x s s2"
  by (simp add: changes_def same_tables_def)

lemma changes_deref: "changes i (Some d) s s1 \<Longrightarrow> fd_deref i s1 = Inr d"
  by (simp add: changes_def fd_deref_def)

lemma put_changes:
  assumes "changes i (Some d) s s1"
  shows "\<exists>s2. fd_put (Some i) s1 = Inr s2 \<and>
    changes i (if fd_refs d = 1 then None else Some (d\<lparr>fd_refs := fd_refs d - 1\<rparr>)) s s2"
  using changes_deref[OF assms] assms by (auto simp: fd_put_def Let_def changes_def set_fd_def)

text \<open>An operation on the file of a pointer.\<close>

lemma with_fd_changes:
  assumes "file_step f" and "changes i (Some d) s s1" and "with_fd (Some i) f s1 = Inr (r, s2)"
  shows "\<exists>d1 s3. changes i (Some d1) s s2 \<and> same_head d d1 \<and> (fops d \<noteq> None \<longrightarrow> fops d1 \<noteq> None) \<and>
    f (Some d) s1 = Inr (r, Some d1, s3) \<and> world s2 = world s3"
proof -
  obtain d' s3 where f: "f (Some d) s1 = Inr (r, d', s3)" "s2 = set_fd i d' s3"
    using assms(3) changes_deref[OF assms(2)] by (auto simp: with_fd_def bind_res_Inr_iff)
  then obtain d1 where d1: "d' = Some d1" "same_tables s1 s3" "same_head d d1" "fops d \<noteq> None \<longrightarrow> fops d1 \<noteq> None"
    using assms(1) unfolding file_step_def by blast
  have "changes i (Some d1) s s2"
    using changes_same[OF assms(2) d1(2)] f(2) d1(1) by (simp add: changes_def set_fd_def)
  then show ?thesis using f d1 by (auto simp: set_fd_def)
qed

lemma get_changes:
  assumes "fds_ok s" and "fd_at s fd = Some d"
  shows "\<exists>s1. fd_get fd s = (Some (nat (fd - 3)), s1) \<and> changes (nat (fd - 3)) (Some (d\<lparr>fd_refs := 2\<rparr>)) s s1 \<and>
    fd_open d \<and> int (nat (fd - 3)) + 3 = fd"
  using fd_get_Some[OF assms] changes_set_fd assms(2) by (auto simp: fd_at_def split: if_splits)

text \<open>The effect of a call that uses a descriptor.\<close>

definition fd_updated :: "int \<Rightarrow> 'w dfs \<Rightarrow> 'w dfs \<Rightarrow> bool" where
  "fd_updated fd s s' \<longleftrightarrow> (\<exists>d1. changes (nat (fd - 3)) (Some d1) s s' \<and> fd_open d1 \<and> int (nat (fd - 3)) + 3 = fd)"

lemma fd_updated_ok: "fd_updated fd s s' \<Longrightarrow> fds_ok s \<Longrightarrow> fds_ok s' \<and> (\<exists>d1. fd_at s' = (fd_at s)(fd \<mapsto> d1))"
  unfolding fd_updated_def using changes_ok changes_fd_at by fastforce

lemma use_fd:
  assumes "fds_ok s" and "fd_at s fd = Some d" and "fd_get fd s = (p, s1)" and "file_step f" and "with_fd p f s1 = Inr (r, s2)"
  shows "\<exists>s3. fd_put p s2 = Inr s3 \<and> fd_updated fd s s3 \<and>
    (\<exists>s4. fd_put p s3 = Inr s4 \<and> changes (nat (fd - 3)) None s s4) \<and> p = Some (nat (fd - 3)) \<and> int (nat (fd - 3)) + 3 = fd"
proof -
  let ?i = "nat (fd - 3)"
  have g: "p = Some ?i" "changes ?i (Some (d\<lparr>fd_refs := 2\<rparr>)) s s1" "fd_open d" "int ?i + 3 = fd"
    using get_changes[OF assms(1,2)] assms(3) by auto
  then obtain d1 where d1: "changes ?i (Some d1) s s2" "same_head (d\<lparr>fd_refs := 2\<rparr>) d1" "fops d \<noteq> None \<longrightarrow> fops d1 \<noteq> None"
    using with_fd_changes[OF assms(4) g(2)] assms(5) by auto
  then have h: "fd_refs d1 = 2" "magic d1 = DFS_FD_MAGIC" "fops d1 \<noteq> None"
    using g(3) by (auto simp: same_head_def fd_open_def)
  obtain s3 where s3: "fd_put (Some ?i) s2 = Inr s3" "changes ?i (Some (d1\<lparr>fd_refs := 1\<rparr>)) s s3"
    using put_changes[OF d1(1)] h(1) by auto
  have "fd_open (d1\<lparr>fd_refs := 1\<rparr>)" using h by (simp add: fd_open_def)
  then have "fd_updated fd s s3" using s3(2) g(4) unfolding fd_updated_def by blast
  moreover obtain s4 where "fd_put (Some ?i) s3 = Inr s4" "changes ?i None s s4"
    using put_changes[OF s3(2)] by auto
  ultimately show ?thesis using s3(1) g(1,4) by blast
qed

lemma call_fd_effect:
  assumes "fds_ok s" and "file_step f" and "call_fd fd f s = Inr (r, s')"
  shows "if fd_at s fd = None then r = - 1 \<and> s' = set_errno (- EBADF) s else \<exists>s1. fd_updated fd s s1 \<and> same_tables s1 s'"
proof (cases "fd_at s fd")
  case None
  then show ?thesis using assms(3) fd_get_None[OF assms(1) None] by (simp add: call_fd_def)
next
  case (Some d)
  obtain p s1 where p: "fd_get fd s = (p, s1)" by fastforce
  then have pi: "p = Some (nat (fd - 3))" using get_changes[OF assms(1) Some] by auto
  obtain r1 s2 where s2: "with_fd p f s1 = Inr (r1, s2)"
    using assms(3) p pi by (auto simp: call_fd_def bind_res_Inr_iff)
  from use_fd[OF assms(1) Some p assms(2) s2] obtain s3 where "fd_put p s2 = Inr s3" "fd_updated fd s s3" by blast
  then show ?thesis using assms(3) p pi s2 Some by (auto simp: call_fd_def split: if_splits)
qed

section \<open>New descriptors\<close>

definition grown :: "'w dfs \<Rightarrow> 'w dfs \<Rightarrow> bool" where
  "grown s s' \<longleftrightarrow> (\<exists>n. fds s' = fds s @ replicate n None) \<and> length (fds s') \<le> DFS_FD_MAX \<and>
     filesystem_table s' = filesystem_table s \<and> filesystem_operation_table s' = filesystem_operation_table s \<and>
     working_directory s' = working_directory s \<and> registry s' = registry s"

lemma grown_ok: "grown s s' \<Longrightarrow> fds_ok s \<Longrightarrow> fds_ok s'"
  by (auto simp: grown_def fds_ok_def)

lemma grown_fd_at: "grown s s' \<Longrightarrow> fd_at s' = fd_at s"
  by (rule ext) (auto simp: grown_def fd_at_def nth_append nth_replicate)

lemma first_at_Some: "first_at P xs i = Some k \<longleftrightarrow> i \<le> k \<and> k - i < length xs \<and> P (xs ! (k - i)) \<and> (\<forall>j < k - i. \<not> P (xs ! j))"
proof (induction xs arbitrary: i)
  case (Cons x xs)
  consider "k < i" | "k = i" | n where "k = Suc i + n" using less_imp_Suc_add[of i k] by fastforce
  then show ?case
  proof cases
    case 3
    then show ?thesis using Cons.IH[of "i + 1"] by (auto simp: All_less_Suc2)
  qed (use Cons.IH[of "i + 1"] in auto)
qed simp

lemma first_at_None: "first_at P xs i = None \<longleftrightarrow> (\<forall>x \<in> set xs. \<not> P x)"
  by (induction xs arbitrary: i) auto

definition fresh_fd :: dfs_fd where
  "fresh_fd = zero_fd\<lparr>fd_refs := 1, magic := DFS_FD_MAGIC\<rparr>"

definition lowest_free :: "nat \<Rightarrow> 'w dfs \<Rightarrow> bool" where
  "lowest_free i s \<longleftrightarrow> i < length (fds s) \<and> (fds s) ! i = None \<and> (\<forall>j < i. (fds s) ! j \<noteq> None)"

lemma unused_open: "fds_ok s \<Longrightarrow> j < length (fds s) \<Longrightarrow> unused_fd ((fds s) ! j) \<longleftrightarrow> (fds s) ! j = None"
  by (cases "(fds s) ! j") (auto simp: unused_fd_def fds_ok_def fd_open_def dest: nth_mem)

lemma fd_grow_grown: "fds_ok s \<Longrightarrow> grown s (fd_grow idx s)"
  using same_tables_alloc[of s]
  by (cases "alloc_mem s") (auto simp: fd_grow_def grown_def same_tables_def fds_ok_def Let_def intro: exI[of _ 0])

lemma find_unused_spec:
  assumes "fds_ok s"
  shows "(find_unused (fds s) 0 < length (fds s) \<longrightarrow> lowest_free (find_unused (fds s) 0) s) \<and>
    (\<not> find_unused (fds s) 0 < length (fds s) \<longrightarrow> find_unused (fds s) 0 = length (fds s) \<and> (\<forall>j < length (fds s). (fds s) ! j \<noteq> None))"
proof (cases "first_at unused_fd (fds s) 0")
  case None
  then have "\<forall>j < length (fds s). \<not> unused_fd ((fds s) ! j)" by (simp add: first_at_None)
  then show ?thesis using None unused_open[OF assms] by (simp add: find_unused_def)
next
  case (Some k)
  then have "k < length (fds s)" "unused_fd ((fds s) ! k)" "\<forall>j < k. \<not> unused_fd ((fds s) ! j)" by (simp_all add: first_at_Some)
  then show ?thesis using Some unused_open[OF assms] by (auto simp: find_unused_def lowest_free_def)
qed

lemma fd_grow_lowest:
  assumes "fds_ok s"
  defines "i \<equiv> find_unused (fds s) 0" and "s1 \<equiv> fd_grow (find_unused (fds s) 0) s"
  shows "if i < length (fds s1) then lowest_free i s1 else i = length (fds s1)"
proof (cases "i < length (fds s)")
  case True
  then have "s1 = s" by (simp add: s1_def fd_grow_def i_def)
  then show ?thesis using find_unused_spec[OF assms(1)] True by (simp add: i_def)
next
  case False
  then have i: "i = length (fds s)" "\<forall>j < length (fds s). (fds s) ! j \<noteq> None"
    using find_unused_spec[OF assms(1)] by (simp_all add: i_def)
  obtain n where n: "fds s1 = fds s @ replicate n None"
    using fd_grow_grown[OF assms(1)] unfolding s1_def grown_def by blast
  show ?thesis using i n by (cases n) (auto simp: lowest_free_def nth_append)
qed

lemma fd_new_effect:
  assumes "fds_ok s" and "fd_new s = Inr (fd, s1)"
  shows "fd = - 1 \<and> grown s s1 \<or>
    (\<exists>i s0. fd = int i + 3 \<and> grown s s0 \<and> lowest_free i s0 \<and> changes i (Some fresh_fd) s0 s1)"
proof -
  let ?i = "find_unused (fds s) 0"
  let ?g = "fd_grow ?i s"
  have g: "grown s ?g" using assms(1) by (rule fd_grow_grown)
  show ?thesis
  proof (cases "?i < length (fds ?g)")
    case False
    then have "?i = length (fds ?g)" using fd_grow_lowest[OF assms(1)] by simp
    then show ?thesis using assms(2) g by (simp add: fd_new_def fd_alloc_def Let_def)
  next
    case True
    then have l: "lowest_free ?i ?g" using fd_grow_lowest[OF assms(1)] by simp
    then have n: "(fds ?g) ! ?i = None" by (simp add: lowest_free_def)
    obtain m s2 where a: "alloc_mem ?g = (m, s2)" by fastforce
    have st: "same_tables ?g s2" using same_tables_alloc[OF a] .
    then have g2: "grown s s2" "lowest_free ?i s2" using g l by (auto simp: same_tables_def grown_def lowest_free_def)
    show ?thesis
    proof (cases m)
      case False
      then show ?thesis using assms(2) a n True g2(1) st
        by (simp add: fd_new_def fd_alloc_def Let_def same_tables_def)
    next
      case m: True
      have "fd = int ?i + 3 \<and> s1 = set_fd ?i (Some fresh_fd) (s2\<lparr>fds := (fds s2)[?i := Some zero_fd]\<rparr>)"
        using assms(2) a n True m st by (simp add: fd_new_def fd_alloc_def Let_def same_tables_def fresh_fd_def)
      then have "fd = int ?i + 3" "changes ?i (Some fresh_fd) s2 s1"
        using True st by (simp_all add: changes_def set_fd_def same_tables_def)
      then show ?thesis using g2 by blast
    qed
  qed
qed

text \<open>A new descriptor, as a call gets it back from the table.\<close>

lemma get_fresh:
  assumes "changes i (Some fresh_fd) s0 s1" and "fd_get (int i + 3) s1 = (p, s2)"
  shows "p = Some i \<and> changes i (Some (fresh_fd\<lparr>fd_refs := 2\<rparr>)) s0 s2"
  using assms by (auto simp: fd_get_def Let_def changes_def set_fd_def fresh_fd_def)

lemma clear_lowest: "lowest_free i s0 \<Longrightarrow> changes i None s0 s1 \<Longrightarrow> grown s s0 \<Longrightarrow> grown s s1"
  by (auto simp: lowest_free_def changes_def grown_def) (metis list_update_id)

text \<open>The effect of a call that makes a descriptor and keeps it only if it succeeds.\<close>

definition fd_made :: "int \<Rightarrow> 'w dfs \<Rightarrow> 'w dfs \<Rightarrow> bool" where
  "fd_made fd s s' \<longleftrightarrow> (\<exists>i s0 d. fd = int i + 3 \<and> grown s s0 \<and> lowest_free i s0 \<and> changes i (Some d) s0 s' \<and> fd_open d)"

lemma open_fresh:
  assumes "changes i (Some fresh_fd) s0 s1" and "fd_get (int i + 3) s1 = (p, s2)"
    and "with_fd p (\<lambda>d. dfs_file_open env d path fl) s2 = Inr (r, s3)"
  shows "p = Some i \<and> (\<exists>d. changes i (Some d) s0 s3 \<and> fd_refs d = 2 \<and> magic d = DFS_FD_MAGIC \<and> (r \<ge> 0 \<longrightarrow> r = 0 \<and> fops d \<noteq> None))"
proof -
  have g: "p = Some i" "changes i (Some (fresh_fd\<lparr>fd_refs := 2\<rparr>)) s0 s2" using get_fresh[OF assms(1,2)] by simp_all
  obtain d s4 where d: "changes i (Some d) s0 s3" "same_head (fresh_fd\<lparr>fd_refs := 2\<rparr>) d"
    "dfs_file_open env (Some (fresh_fd\<lparr>fd_refs := 2\<rparr>)) path fl s2 = Inr (r, Some d, s4)"
    using with_fd_changes[OF open_step g(2)] assms(3) g(1) by blast
  then show ?thesis using g(1) open_result[OF d(3)] by (auto simp: same_head_def fresh_fd_def)
qed

lemma put_twice:
  assumes "changes i (Some d) s0 s1" and "fd_refs d = 2"
  shows "\<exists>s2 s3. fd_put (Some i) s1 = Inr s2 \<and> changes i (Some (d\<lparr>fd_refs := 1\<rparr>)) s0 s2 \<and>
    fd_put (Some i) s2 = Inr s3 \<and> changes i None s0 s3"
proof -
  obtain s2 where s2: "fd_put (Some i) s1 = Inr s2" "changes i (Some (d\<lparr>fd_refs := 1\<rparr>)) s0 s2"
    using put_changes[OF assms(1)] assms(2) by auto
  then show ?thesis using put_changes[OF s2(2)] by auto
qed

lemma open_effect:
  assumes "fds_ok s" and "posix_open env file fl s = Inr (fd, s')"
  shows "fd = - 1 \<and> (\<exists>s1. grown s s1 \<and> same_tables s1 s') \<or> fd_made fd s s'"
proof -
  obtain fd0 s1 where n: "fd_new s = Inr (fd0, s1)" using assms(2) by (auto simp: posix_open_def bind_res_Inr_iff)
  from fd_new_effect[OF assms(1) n] show ?thesis
  proof
    assume "fd0 = - 1 \<and> grown s s1"
    then show ?thesis using assms(2) n by (auto simp: posix_open_def intro!: exI[of _ s1])
  next
    assume "\<exists>i s0. fd0 = int i + 3 \<and> grown s s0 \<and> lowest_free i s0 \<and> changes i (Some fresh_fd) s0 s1"
    then obtain i s0 where i: "fd0 = int i + 3" "grown s s0" "lowest_free i s0" "changes i (Some fresh_fd) s0 s1" by blast
    obtain p s2 where p: "fd_get fd0 s1 = (p, s2)" by fastforce
    obtain r s3 where r: "with_fd p (\<lambda>d. dfs_file_open env d file fl) s2 = Inr (r, s3)"
      using assms(2) n i(1) p by (auto simp: posix_open_def bind_res_Inr_iff)
    obtain d where d: "p = Some i" "changes i (Some d) s0 s3" "fd_refs d = 2" "magic d = DFS_FD_MAGIC"
      "r \<ge> 0 \<longrightarrow> r = 0 \<and> fops d \<noteq> None"
      using open_fresh[OF i(4)] p i(1) r by blast
    obtain s4 s5 where s4: "fd_put (Some i) s3 = Inr s4" "changes i (Some (d\<lparr>fd_refs := 1\<rparr>)) s0 s4"
      "fd_put (Some i) s4 = Inr s5" "changes i None s0 s5" using put_twice[OF d(2,3)] by blast
    show ?thesis
    proof (cases "r < 0")
      case True
      then have "fd = - 1" "s' = set_errno r s5"
        using assms(2) n p r i(1) d(1) s4(1,3) by (simp_all add: posix_open_def)
      then show ?thesis using clear_lowest[OF i(3) s4(4) i(2)] by auto
    next
      case False
      then have "fd = fd0" "s' = s4" using assms(2) n p r i(1) d(1) s4(1,3) by (simp_all add: posix_open_def)
      moreover have "fd_open (d\<lparr>fd_refs := 1\<rparr>)" using d(4,5) False by (simp add: fd_open_def)
      ultimately show ?thesis using i s4(2) unfolding fd_made_def by blast
    qed
  qed
qed

end
