(* ===== verification/Dfs_Lookup.thy ===== *)
theory Dfs_Lookup
  imports Dfs "HOL-Library.Sublist"
begin

text \<open>
  The lookup of the file system that holds a path compares texts; the specification compares
  components: the mount point is the longest that the path starts with.
\<close>

section \<open>Absolute paths\<close>

definition abs_path :: "string list \<Rightarrow> string" where
  "abs_path cs = (if cs = [] then ''/'' else concat (map ((#) (CHR ''/'')) cs))"

definition clean_names :: "string list \<Rightarrow> bool" where
  "clean_names cs \<longleftrightarrow> (\<forall>c \<in> set cs. clean c)"

lemma rooted_text: "concat (map ((#) (CHR ''/'')) cs) @ ''/'' = path_text (True, cs)"
  by (induction cs rule: rev_induct) (simp_all add: path_text_def)

lemma path_string_abs: "clean_names cs \<Longrightarrow> path_string (True, cs) = abs_path cs"
proof (cases "cs = []")
  case False
  have "path_text (True, cs) = concat (map ((#) (CHR ''/'')) cs) @ ''/''" by (rule rooted_text [symmetric])
  moreover have "concat (map ((#) (CHR ''/'')) cs) \<noteq> []" using False by (cases cs) auto
  ultimately show ?thesis using False by (simp add: path_string_def abs_path_def Let_def)
qed (simp add: path_string_def path_text_def abs_path_def)

section \<open>Prefixes\<close>

definition slashed :: "string list \<Rightarrow> string" where
  "slashed cs = concat (map ((#) (CHR ''/'')) cs)"

text \<open>A text that starts with a component ends with it or goes on with a slash.\<close>

definition continues :: "string \<Rightarrow> string \<Rightarrow> bool" where
  "continues m p \<longleftrightarrow> (\<exists>q. p = m @ q \<and> (q = [] \<or> hd q = CHR ''/''))"

lemma continues_conv:
  "continues m p \<longleftrightarrow> take (length m) p = m \<and> (length m < length p \<longrightarrow> p ! length m = CHR ''/'')"
proof
  assume "continues m p"
  then show "take (length m) p = m \<and> (length m < length p \<longrightarrow> p ! length m = CHR ''/'')"
    by (auto simp: continues_def hd_conv_nth nth_append)
next
  assume a: "take (length m) p = m \<and> (length m < length p \<longrightarrow> p ! length m = CHR ''/'')"
  then have "p = m @ drop (length m) p" by (metis append_take_drop_id)
  moreover have "drop (length m) p = [] \<or> hd (drop (length m) p) = CHR ''/''" using a by (cases "length m < length p") (auto simp: hd_drop_conv_nth)
  ultimately show "continues m p" unfolding continues_def by blast
qed

lemma same_component:
  assumes "c @ u = d @ v" and "clean c" and "clean d" and "u = [] \<or> hd u = CHR ''/''" and "v = [] \<or> hd v = CHR ''/''"
  shows "c = d"
proof -
  have t: "takeWhile (\<lambda>x. x \<noteq> CHR ''/'') (c @ u) = c" if "clean c" "u = [] \<or> hd u = CHR ''/''" for c u
    using that by (cases u) (auto simp: clean_def takeWhile_append)
  show ?thesis using t[OF assms(2,4)] t[OF assms(3,5)] assms(1) by simp
qed

lemma slashed_start: "slashed cs = [] \<or> hd (slashed cs) = CHR ''/''"
  by (cases cs) (simp_all add: slashed_def)

lemma continues_prefix:
  assumes "clean_names ms" and "clean_names cs"
  shows "continues (slashed ms) (slashed cs) \<longleftrightarrow> prefix ms cs"
  using assms
proof (induction ms arbitrary: cs)
  case Nil
  show ?case using slashed_start[of cs] by (auto simp: continues_def slashed_def)
next
  case (Cons m ms)
  show ?case
  proof (cases cs)
    case Nil
    then show ?thesis by (auto simp: continues_def slashed_def)
  next
    case c: (Cons c cs')
    have "continues (slashed (m # ms)) (slashed cs) \<longleftrightarrow> c = m \<and> continues (slashed ms) (slashed cs')"
    proof
      assume "continues (slashed (m # ms)) (slashed cs)"
      then obtain q where q: "c @ slashed cs' = m @ slashed ms @ q" "q = [] \<or> hd q = CHR ''/''"
        using c by (auto simp: continues_def slashed_def)
      have "slashed ms @ q = [] \<or> hd (slashed ms @ q) = CHR ''/''"
        using q(2) slashed_start[of ms] by (cases "slashed ms") auto
      then have "c = m"
        using same_component[OF q(1) _ _ slashed_start] Cons.prems c by (simp add: clean_names_def)
      then show "c = m \<and> continues (slashed ms) (slashed cs')" using q by (auto simp: continues_def)
    next
      assume "c = m \<and> continues (slashed ms) (slashed cs')"
      then show "continues (slashed (m # ms)) (slashed cs)" using c by (auto simp: continues_def slashed_def)
    qed
    then show ?thesis using Cons.IH[of cs'] Cons.prems c by (auto simp: clean_names_def)
  qed
qed

section \<open>The walk over the mount table\<close>

text \<open>The entry is in use and mounted on the directory \<open>ms\<close>.\<close>

definition mounted_on :: "dfs_filesystem \<Rightarrow> string list \<Rightarrow> bool" where
  "mounted_on e ms \<longleftrightarrow> mops e \<noteq> None \<and> mpath e = Some (abs_path ms) \<and> clean_names ms"

lemma length_abs_path: "clean_names ms \<Longrightarrow> ms \<noteq> [] \<Longrightarrow> 1 < length (abs_path ms)"
  by (cases ms) (auto simp: abs_path_def clean_names_def clean_def)

lemma abs_path_root: "take 1 (abs_path cs) = ''/''"
  by (cases cs) (simp_all add: abs_path_def)

lemma better_match_prefix:
  assumes "mounted_on e ms" and "clean_names cs"
  shows "better_match (abs_path cs) e n =
    (if prefix ms cs \<and> n \<le> length (abs_path ms) then Some (length (abs_path ms)) else None)"
proof -
  have m: "mops e \<noteq> None" "mpath e = Some (abs_path ms)" "clean_names ms" using assms(1) by (simp_all add: mounted_on_def)
  show ?thesis
  proof (cases "ms = []")
    case True
    then have "abs_path ms = ''/''" by (simp add: abs_path_def)
    then show ?thesis using m True abs_path_root[of cs] by (auto simp: better_match_def)
  next
    case False
    have l: "1 < length (abs_path ms)" using length_abs_path m(3) False by blast
    have "prefix ms cs \<longleftrightarrow> continues (abs_path ms) (abs_path cs)"
    proof (cases "cs = []")
      case True
      have "\<not> continues (abs_path ms) ''/''" using l by (auto simp: continues_def dest: arg_cong[where f = length])
      then show ?thesis using True False by (simp add: abs_path_def)
    next
      case cs: False
      then show ?thesis
        using continues_prefix[OF m(3) assms(2)] False by (simp add: abs_path_def slashed_def)
    qed
    then show ?thesis using m(1,2) l by (auto simp: better_match_def continues_conv Let_def)
  qed
qed

text \<open>What the walk knows after some entries.\<close>

definition best_so_far :: "string list \<Rightarrow> dfs_filesystem list \<Rightarrow> nat \<times> nat option \<Rightarrow> bool" where
  "best_so_far cs tab acc \<longleftrightarrow> (case snd acc of
       None \<Rightarrow> fst acc = 0 \<and> (\<forall>e \<in> set tab. \<forall>ms. mounted_on e ms \<longrightarrow> \<not> prefix ms cs)
     | Some k \<Rightarrow> k < length tab \<and> (\<exists>ms. mounted_on (tab ! k) ms \<and> prefix ms cs \<and> fst acc = length (abs_path ms)) \<and>
         (\<forall>e \<in> set tab. \<forall>ms. mounted_on e ms \<and> prefix ms cs \<longrightarrow> length (abs_path ms) \<le> fst acc))"

lemma mounted_on_unique: "mounted_on e ms \<Longrightarrow> mounted_on e ms' \<Longrightarrow> length (abs_path ms) = length (abs_path ms')"
  by (simp add: mounted_on_def)

lemma best_step:
  assumes b: "best_so_far cs seen acc" and cs: "clean_names cs" and e: "mops e \<noteq> None \<and> mpath e \<noteq> None \<longrightarrow> (\<exists>ms. mounted_on e ms)"
  shows "best_so_far cs (seen @ [e])
    (case better_match (abs_path cs) e (fst acc) of None \<Rightarrow> acc | Some n \<Rightarrow> (n, Some (length seen)))"
proof (cases "\<exists>ms. mounted_on e ms \<and> prefix ms cs")
  case False
  have "better_match (abs_path cs) e (fst acc) = None"
  proof (cases "\<exists>ms. mounted_on e ms")
    case True
    then show ?thesis using better_match_prefix[OF _ cs] False by auto
  next
    case n: False
    then have "mops e = None \<or> mpath e = None" using e by blast
    then show ?thesis by (auto simp: better_match_def split: option.splits)
  qed
  then show ?thesis using b False by (auto simp: best_so_far_def nth_append split: option.splits)
next
  case True
  then obtain ms where ms: "mounted_on e ms" "prefix ms cs" by blast
  show ?thesis
  proof (cases "fst acc \<le> length (abs_path ms)")
    case le: True
    then have "better_match (abs_path cs) e (fst acc) = Some (length (abs_path ms))"
      using better_match_prefix[OF ms(1) cs] ms(2) by simp
    moreover have "\<forall>x \<in> set seen. \<forall>xs. mounted_on x xs \<and> prefix xs cs \<longrightarrow> length (abs_path xs) \<le> length (abs_path ms)"
      using b le by (fastforce simp: best_so_far_def split: option.splits)
    moreover have "length (abs_path xs) \<le> length (abs_path ms)" if "mounted_on e xs" for xs
      using mounted_on_unique[OF that ms(1)] by simp
    ultimately show ?thesis using ms by (simp add: best_so_far_def) blast
  next
    case gt: False
    then have n: "better_match (abs_path cs) e (fst acc) = None" using better_match_prefix[OF ms(1) cs] by simp
    have "snd acc \<noteq> None" using b gt by (auto simp: best_so_far_def split: option.splits)
    then obtain k where k: "snd acc = Some k" by auto
    moreover have "length (abs_path xs) \<le> fst acc" if "mounted_on e xs" for xs
      using mounted_on_unique[OF that ms(1)] gt by simp
    ultimately show ?thesis using n b by (auto simp: best_so_far_def nth_append)
  qed
qed

lemma lookup_loop_best:
  assumes "best_so_far cs seen acc" and "clean_names cs"
    and "\<forall>e \<in> set es. mops e \<noteq> None \<and> mpath e \<noteq> None \<longrightarrow> (\<exists>ms. mounted_on e ms)"
  shows "best_so_far cs (seen @ es) (lookup_loop (abs_path cs) es (length seen) acc)"
  using assms
proof (induction es arbitrary: seen acc)
  case (Cons e es)
  have "mops e \<noteq> None \<and> mpath e \<noteq> None \<longrightarrow> (\<exists>ms. mounted_on e ms)" using Cons.prems(3) by simp
  from Cons.IH[OF best_step[OF Cons.prems(1,2) this] Cons.prems(2)] Cons.prems(3) show ?case by simp
qed simp

text \<open>The table holds normalised mount points.\<close>

definition mounts_normal :: "'w dfs \<Rightarrow> bool" where
  "mounts_normal s \<longleftrightarrow>
     (\<forall>e \<in> set (filesystem_table s). mops e \<noteq> None \<and> mpath e \<noteq> None \<longrightarrow> (\<exists>ms. mounted_on e ms))"

lemma lookup_best:
  assumes "mounts_normal s" and "clean_names cs"
  shows "best_so_far cs (filesystem_table s)
    (lookup_loop (abs_path cs) (filesystem_table s) 0 (0, None))"
  using lookup_loop_best[of cs "[]" "(0, None)" "filesystem_table s"] assms
  by (simp add: best_so_far_def mounts_normal_def)

text \<open>C19. The lookup of a normalised path finds the mounted file system whose mount point is the
  longest one that the path starts with, component by component, and none exactly if no mount point
  is a start of the path: \<open>/sdcard\<close> is not below \<open>/sd\<close>.\<close>

lemma lookup_longest:
  assumes "mounts_normal s" and "clean_names cs"
  shows "case dfs_filesystem_lookup (abs_path cs) s of
      None \<Rightarrow> \<not> (\<exists>e ms. e \<in> set (filesystem_table s) \<and> mounted_on e ms \<and> prefix ms cs)
    | Some k \<Rightarrow> k < length (filesystem_table s) \<and>
        (\<exists>ms. mounted_on (filesystem_table s ! k) ms \<and> prefix ms cs \<and>
          length (abs_path ms) = Max {length (abs_path xs) | e xs. e \<in> set (filesystem_table s) \<and> mounted_on e xs \<and> prefix xs cs})"
proof (cases "dfs_filesystem_lookup (abs_path cs) s")
  case None
  then show ?thesis using lookup_best[OF assms] by (auto simp: best_so_far_def dfs_filesystem_lookup_def split: option.splits)
next
  case (Some k)
  let ?M = "{length (abs_path xs) | e xs. e \<in> set (filesystem_table s) \<and> mounted_on e xs \<and> prefix xs cs}"
  obtain ms where ms: "k < length (filesystem_table s)" "mounted_on (filesystem_table s ! k) ms" "prefix ms cs"
    "\<forall>e \<in> set (filesystem_table s). \<forall>xs. mounted_on e xs \<and> prefix xs cs \<longrightarrow> length (abs_path xs) \<le> length (abs_path ms)"
    using lookup_best[OF assms] Some by (auto simp: best_so_far_def dfs_filesystem_lookup_def split: option.splits)
  have "?M \<subseteq> (\<lambda>xs. length (abs_path xs)) ` set (prefixes cs)" by auto
  then have f: "finite ?M" using finite_surj by blast
  have "length (abs_path ms) = Max ?M"
    using f ms by (intro Max_eqI[symmetric]) (auto intro!: exI[of _ "filesystem_table s ! k"])
  then show ?thesis using Some ms by auto
qed

text \<open>Two mount points, the root and \<open>/sd\<close>.\<close>

definition two_mounts :: "unit dfs" where
  "two_mounts = (dfs_init [] [] ())\<lparr>filesystem_table :=
     [\<lparr>dev_id = None, mpath = Some ''/'', mops = Some 0, mdata = Null_Data\<rparr>,
      \<lparr>dev_id = Some 0, mpath = Some ''/sd'', mops = Some 1, mdata = Null_Data\<rparr>, empty_fs, empty_fs]\<rparr>"

lemma two_mounts_normal: "mounts_normal two_mounts"
proof -
  have "mounted_on (filesystem_table two_mounts ! 0) []" "mounted_on (filesystem_table two_mounts ! 1) [''sd'']"
    by code_simp+
  then show ?thesis by (auto simp: mounts_normal_def two_mounts_def empty_fs_def)
qed

lemma lookup_longest_witness:
  "case dfs_filesystem_lookup (abs_path [''sd'', ''x'']) two_mounts of
      None \<Rightarrow> \<not> (\<exists>e ms. e \<in> set (filesystem_table two_mounts) \<and> mounted_on e ms \<and> prefix ms [''sd'', ''x''])
    | Some k \<Rightarrow> k < length (filesystem_table two_mounts) \<and>
        (\<exists>ms. mounted_on (filesystem_table two_mounts ! k) ms \<and> prefix ms [''sd'', ''x''] \<and>
          length (abs_path ms) = Max {length (abs_path xs) | e xs. e \<in> set (filesystem_table two_mounts) \<and>
            mounted_on e xs \<and> prefix xs [''sd'', ''x'']})"
  by (rule lookup_longest[OF two_mounts_normal]) code_simp

end
