(* ===== verification/Dfs_Calls.thy ===== *)
theory Dfs_Calls
  imports Dfs_Inv Dfs_Lookup
begin

text \<open>
  Sequences of calls. The invariant ties the tables together: the working directory and the mount
  points are normalised, a mount entry has a path exactly if it has a type, and the descriptors
  are those of \<open>Dfs_Inv\<close>.
\<close>

section \<open>Paths that stay below the root\<close>

definition proper_names :: "string list \<Rightarrow> bool" where
  "proper_names cs \<longleftrightarrow> (\<forall>c \<in> set cs. clean c \<and> c \<noteq> ''.'' \<and> c \<noteq> ''..'')"

lemma proper_clean: "proper_names cs \<Longrightarrow> clean_names cs"
  by (simp add: proper_names_def clean_names_def)

text \<open>The walk over the path ends in the directory \<open>cs\<close> and never leaves the root.\<close>

definition resolves :: "string \<Rightarrow> string \<Rightarrow> string list \<Rightarrow> bool" where
  "resolves wd p cs \<longleftrightarrow> nul \<notin> set p \<and> enter_all (components (full_path wd None p)) (True, []) = Some (True, cs)"

definition wd_ok :: "'w dfs \<Rightarrow> bool" where
  "wd_ok s \<longleftrightarrow> (\<exists>ws. working_directory s = abs_path ws \<and> proper_names ws) \<and> length (working_directory s) < DFS_PATH_MAX"

lemma enter_proper: "enter c (r, ds) = Some (r', ds') \<Longrightarrow> clean c \<Longrightarrow> proper_names ds \<Longrightarrow> proper_names ds'"
proof -
  assume e: "enter c (r, ds) = Some (r', ds')" and c: "clean c" and ds: "proper_names ds"
  consider "c = ''.''" | "c = ''..''" "ds = []" | "c = ''..''" "ds \<noteq> []" | "c \<noteq> ''.''" "c \<noteq> ''..''" by blast
  then show ?thesis
  proof cases
    case 2
    then show ?thesis using e ds by (cases r) simp_all
  next
    case 3
    then have "ds' = butlast ds" using e by simp
    then show ?thesis using ds by (simp add: proper_names_def in_set_butlastD)
  next
    case 4
    then have "ds' = ds @ [c]" using e by simp
    then show ?thesis using ds c 4 by (simp add: proper_names_def)
  qed (use e ds in simp)
qed

lemma enter_all_proper:
  "enter_all cs (r, ds) = Some (r', ds') \<Longrightarrow> \<forall>c \<in> set cs. clean c \<Longrightarrow> proper_names ds \<Longrightarrow> proper_names ds'"
proof (induction cs arbitrary: r ds)
  case (Cons c cs)
  then obtain r1 d1 where "enter c (r, ds) = Some (r1, d1)" "enter_all cs (r1, d1) = Some (r', ds')"
    by (cases "enter c (r, ds)") (auto simp del: enter.simps)
  then show ?case using Cons.IH Cons.prems enter_proper by fastforce
qed simp

lemma components_abs: "clean_names cs \<Longrightarrow> components (abs_path cs) = cs"
proof -
  have "components (slashed cs) = cs" if "clean_names cs" using that
  proof (induction cs)
    case (Cons c cs)
    have c: "c \<noteq> []" "CHR ''/'' \<notin> set c" using Cons.prems by (simp_all add: clean_names_def clean_def)
    have "components (c @ slashed cs) = c # cs"
    proof (cases cs)
      case Nil
      then show ?thesis using components_split(2)[OF c] by (simp add: slashed_def)
    next
      case (Cons d ds)
      then have "slashed cs = CHR ''/'' # d @ slashed ds" by (simp add: slashed_def)
      moreover have "components (slashed cs) = cs" using Cons.IH Cons.prems by (simp add: clean_names_def)
      ultimately show ?thesis using components_split(1)[OF c, of "d @ slashed ds"] by simp
    qed
    then show ?case by (simp add: slashed_def)
  qed (simp add: slashed_def)
  then show "clean_names cs \<Longrightarrow> components (abs_path cs) = cs" by (auto simp: abs_path_def slashed_def)
qed

lemma enter_all_names: "proper_names cs \<Longrightarrow> enter_all cs (r, ds) = Some (r, ds @ cs)"
  by (induction cs arbitrary: ds) (auto simp: proper_names_def)

lemma abs_path_nul: "clean_names cs \<Longrightarrow> nul \<notin> set (abs_path cs)"
  by (auto simp: abs_path_def clean_names_def clean_def)

lemma abs_path_hd: "abs_path cs \<noteq> [] \<and> hd (abs_path cs) = CHR ''/''"
  by (cases cs) (simp_all add: abs_path_def)

lemma resolves_abs: "proper_names cs \<Longrightarrow> resolves wd (abs_path cs) cs"
  using abs_path_hd[of cs] abs_path_nul[OF proper_clean] components_abs[OF proper_clean] enter_all_names[of cs True "[]"]
  by (simp add: resolves_def full_path_def)

lemma resolves_proper:
  assumes "wd_ok s" and "resolves (working_directory s) p cs"
  shows "proper_names cs" and "normalized (full_path (working_directory s) None p) = Inr (Some (abs_path cs))"
proof -
  let ?f = "full_path (working_directory s) None p"
  obtain ws where ws: "working_directory s = abs_path ws" "proper_names ws" using assms(1) by (auto simp: wd_ok_def)
  have "nul \<notin> set (working_directory s)" using ws abs_path_nul proper_clean by metis
  then have "nul \<notin> set ?f" using assms(2) by (auto simp: full_path_def resolves_def)
  then have c: "\<forall>c \<in> set (components ?f). clean c" by (rule components_chars)
  show p: "proper_names cs" using enter_all_proper[of _ True "[]" True cs] assms(2) c by (auto simp: resolves_def proper_names_def)
  have "starting ?f = (True, [])" using abs_path_hd[of ws] ws(1) by (auto simp: starting_def full_path_def)
  moreover have "path_text (True, cs) \<noteq> []" by (simp add: path_text_def)
  ultimately show "normalized ?f = Inr (Some (abs_path cs))"
    using assms(2) path_string_abs[OF proper_clean[OF p]] by (simp add: normalized_def resolves_def)
qed

lemma normalize_resolves:
  assumes "wd_ok s" and "resolves (working_directory s) p cs"
  shows "\<exists>m s1. normalize None p s = Inr (if m then Some (abs_path cs) else None, s1) \<and> same_tables s s1"
proof -
  obtain ws where ws: "working_directory s = abs_path ws" "proper_names ws" "length (working_directory s) < DFS_PATH_MAX"
    using assms(1) by (auto simp: wd_ok_def)
  have n: "nul \<notin> set (working_directory s)" "nul \<notin> set p"
    using ws abs_path_nul[OF proper_clean] assms(2) by (auto simp: resolves_def)
  obtain m s1 where m: "alloc_mem s = (m, s1)" by fastforce
  have "dfs_normalize_path m (working_directory s) None p = Inr (if m then Some (abs_path cs) else None)"
  proof (cases m)
    case True
    then show ?thesis using normalize_equiv[of "working_directory s" None p] n resolves_proper(2)[OF assms] by simp
  qed (simp add: dfs_normalize_path_def Let_def)
  then show ?thesis using ws(3) m same_tables_alloc[OF m] by (auto simp: normalize_def)
qed

section \<open>The other tables\<close>

definition rest_same :: "'w dfs \<Rightarrow> 'w dfs \<Rightarrow> bool" where
  "rest_same s s' \<longleftrightarrow> filesystem_table s' = filesystem_table s \<and>
     filesystem_operation_table s' = filesystem_operation_table s \<and> working_directory s' = working_directory s \<and>
     registry s' = registry s"

lemma rest_same_trans: "rest_same s t \<Longrightarrow> rest_same t u \<Longrightarrow> rest_same s u"
  by (simp add: rest_same_def)

lemma rest_same_I:
  "same_tables s s' \<Longrightarrow> rest_same s s'" "changes i x s s' \<Longrightarrow> rest_same s s'" "grown s s' \<Longrightarrow> rest_same s s'"
  by (simp_all add: rest_same_def same_tables_def changes_def grown_def)

definition mounts_ok :: "'w dfs \<Rightarrow> bool" where
  "mounts_ok s \<longleftrightarrow> length (filesystem_table s) = DFS_FILESYSTEMS_MAX \<and> (\<forall>e \<in> set (filesystem_table s).
     e = empty_fs \<or> (\<exists>t ms. mops e = Some t \<and> mpath e = Some (abs_path ms) \<and> proper_names ms))"

definition tables_ok :: "'w dfs \<Rightarrow> bool" where
  "tables_ok s \<longleftrightarrow> wd_ok s \<and> mounts_ok s \<and> length (filesystem_operation_table s) = DFS_FILESYSTEM_TYPES_MAX"

lemma tables_ok_rest: "rest_same s s' \<Longrightarrow> tables_ok s' = tables_ok s"
  by (simp add: rest_same_def tables_ok_def wd_ok_def mounts_ok_def)

lemma mounts_ok_normal: "mounts_ok s \<Longrightarrow> mounts_normal s"
  unfolding mounts_ok_def mounts_normal_def mounted_on_def using proper_clean by (fastforce simp: empty_fs_def)

lemma lookup_found:
  assumes "mounts_ok s" and "proper_names cs" and "dfs_filesystem_lookup (abs_path cs) s = Some k"
  shows "k < length (filesystem_table s) \<and> (\<exists>t ms. mops (filesystem_table s ! k) = Some t \<and>
    mpath (filesystem_table s ! k) = Some (abs_path ms) \<and> prefix ms cs)"
  using lookup_best[OF mounts_ok_normal[OF assms(1)] proper_clean[OF assms(2)]] assms(3)
  by (auto simp: best_so_far_def dfs_filesystem_lookup_def mounted_on_def split: option.splits)

lemma prefix_length: "prefix ms cs \<Longrightarrow> clean_names cs \<Longrightarrow> length (abs_path ms) \<le> length (abs_path cs)"
proof -
  assume p: "prefix ms cs" and c: "clean_names cs"
  then obtain q where q: "cs = ms @ q" by (auto simp: prefix_def)
  show ?thesis
  proof (cases "ms = []")
    case True
    have "abs_path cs \<noteq> []" using abs_path_hd by blast
    then have "0 < length (abs_path cs)" by blast
    moreover have "length (abs_path ms) = 1" using True by (simp add: abs_path_def)
    ultimately show ?thesis by linarith
  qed (use q in \<open>simp add: abs_path_def\<close>)
qed

lemma subdir_total: "prefix ms cs \<Longrightarrow> clean_names cs \<Longrightarrow> \<exists>q. dfs_subdir (abs_path ms) (abs_path cs) = Inr q"
  using prefix_length[of ms cs] by (simp add: dfs_subdir_def Let_def)

lemma below_total:
  assumes "mounts_ok s" and "proper_names cs" and "dfs_filesystem_lookup (abs_path cs) s = Some k"
  shows "\<exists>q. path_below env (filesystem_table s ! k) (abs_path cs) = Inr q"
  using lookup_found[OF assms] subdir_total[OF _ proper_clean[OF assms(2)]] by (fastforce simp: path_below_def)

section \<open>No operation on a descriptor faults\<close>

lemma total_steps:
  "file_total (dfs_file_close env)" "file_total (\<lambda>d. dfs_file_ioctl env d cmd args)" "file_total (\<lambda>d. dfs_file_write env d bs)"
  "file_total (dfs_file_flush env)" "file_total (\<lambda>d. dfs_file_lseek env d off)" "file_total (getdents_op env n)"
  "file_total (\<lambda>d s. bind_res (dfs_file_read env d n s) (\<lambda>(r, bs, d1, s1). Inr ((r, bs), d1, s1)))"
  "file_total (\<lambda>d. dfs_file_ftruncate env d len)"
  by (auto simp: file_total_def file_defs getdents_op_def Let_def split: option.splits prod.splits)

lemma open_total:
  assumes "tables_ok s" and "resolves (working_directory s) p cs"
  shows "\<exists>r. dfs_file_open env (Some d) p fl s = Inr r"
proof -
  have wd: "wd_ok s" "mounts_ok s" using assms(1) by (simp_all add: tables_ok_def)
  have cs: "proper_names cs" using resolves_proper(1)[OF wd(1) assms(2)] .
  obtain m s1 where n: "normalize None p s = Inr (if m then Some (abs_path cs) else None, s1)" "same_tables s s1"
    using normalize_resolves[OF wd(1) assms(2)] by blast
  have m1: "mounts_ok s1" using n(2) wd(2) by (simp add: mounts_ok_def same_tables_def)
  show ?thesis
  proof (cases "m \<and> dfs_filesystem_lookup (abs_path cs) s1 \<noteq> None")
    case False
    then show ?thesis using n(1) by (auto simp: dfs_file_open_def)
  next
    case True
    then obtain k where k: "dfs_filesystem_lookup (abs_path cs) s1 = Some k" by blast
    obtain t where t: "mops (filesystem_table s1 ! k) = Some t" using lookup_found[OF m1 cs k] by blast
    obtain q where "path_below env (filesystem_table s1 ! k) (abs_path cs) = Inr q" using below_total[OF m1 cs k] by blast
    then have "\<exists>x. file_path env (filesystem_table s1 ! k) (abs_path cs) s1 = Inr x"
      by (auto simp: file_path_def Let_def split: prod.splits)
    then obtain q' s2 where q: "file_path env (filesystem_table s1 ! k) (abs_path cs) s1 = Inr (q', s2)" by auto
    show ?thesis using n(1) True k t q
      by (auto simp: dfs_file_open_def open_in_def Let_def split: option.splits prod.splits)
  qed
qed

section \<open>The table as a map from numbers to open files\<close>

definition fd_effect :: "'w dfs \<Rightarrow> 'w dfs \<Rightarrow> (int \<Rightarrow> dfs_fd option) \<Rightarrow> bool" where
  "fd_effect s s' m \<longleftrightarrow> rest_same s s' \<and> fds_ok s' \<and> fd_at s' = m"

lemma fd_at_same: "same_tables s s' \<Longrightarrow> fd_at s' = fd_at s"
  by (rule ext) (simp add: same_tables_def fd_at_def)

lemma fds_ok_same: "same_tables s s' \<Longrightarrow> fds_ok s' = fds_ok s"
  by (simp add: same_tables_def fds_ok_def)

lemma fd_effect_same: "fd_effect s s1 m \<Longrightarrow> same_tables s1 s' \<Longrightarrow> fd_effect s s' m"
  by (simp add: fd_effect_def fd_at_same fds_ok_same) (simp add: rest_same_def same_tables_def)

lemma effect_grown: "fds_ok s \<Longrightarrow> grown s s1 \<Longrightarrow> fd_effect s s1 (fd_at s)"
  by (simp add: fd_effect_def grown_fd_at grown_ok rest_same_I)

lemma effect_refl: "fds_ok s \<Longrightarrow> same_tables s s1 \<Longrightarrow> fd_effect s s1 (fd_at s)"
  by (simp add: fd_effect_def fd_at_same fds_ok_same rest_same_I)

lemma effect_updated: "fds_ok s \<Longrightarrow> fd_updated fd s s1 \<Longrightarrow> \<exists>d. fd_effect s s1 ((fd_at s)(fd \<mapsto> d))"
  using fd_updated_ok[of fd s s1] rest_same_I(2) by (auto simp: fd_effect_def fd_updated_def)

lemma effect_removed:
  assumes "fds_ok s" and "changes (nat (fd - 3)) None s s1" and "int (nat (fd - 3)) + 3 = fd"
  shows "fd_effect s s1 ((fd_at s)(fd := None))"
  using changes_fd_at[OF assms(2)] changes_ok[OF assms(2,1)] rest_same_I(2)[OF assms(2)] assms(3)
  by (simp add: fd_effect_def)

text \<open>The lowest number that is free.\<close>

definition next_fd :: "(int \<Rightarrow> dfs_fd option) \<Rightarrow> int \<Rightarrow> bool" where
  "next_fd m fd \<longleftrightarrow> 3 \<le> fd \<and> m fd = None \<and> (\<forall>k. 3 \<le> k \<and> k < fd \<longrightarrow> m k \<noteq> None)"

lemma effect_made:
  assumes "fds_ok s" and "fd_made fd s s1"
  shows "next_fd (fd_at s) fd \<and> fd < 3 + int DFS_FD_MAX \<and> (\<exists>d. fd_effect s s1 ((fd_at s)(fd \<mapsto> d)))"
proof -
  obtain i s0 d where i: "fd = int i + 3" "grown s s0" "lowest_free i s0" "changes i (Some d) s0 s1" "fd_open d"
    using assms(2) by (auto simp: fd_made_def)
  have ok: "fds_ok s0" "fd_at s0 = fd_at s" using grown_ok[OF i(2) assms(1)] grown_fd_at[OF i(2)] by auto
  have "next_fd (fd_at s0) fd" using i(1,3) by (auto simp: next_fd_def lowest_free_def fd_at_def)
  moreover have "fd < 3 + int DFS_FD_MAX" using i(1,2,3) by (auto simp: lowest_free_def grown_def)
  moreover have "rest_same s s1" using rest_same_trans rest_same_I(2)[OF i(4)] rest_same_I(3)[OF i(2)] by blast
  moreover have "fds_ok s1" using changes_ok[OF i(4) ok(1)] i(5) by simp
  ultimately show ?thesis using changes_fd_at[OF i(4)] ok(2) i(1) by (auto simp: fd_effect_def)
qed

text \<open>A call on a number: it works on an open file, or there is none.\<close>

definition uses :: "int \<Rightarrow> 'w dfs \<Rightarrow> 'w dfs \<Rightarrow> bool" where
  "uses fd s s' \<longleftrightarrow> (if fd_at s fd = None then s' = set_errno (- EBADF) s else \<exists>d. fd_effect s s' ((fd_at s)(fd \<mapsto> d)))"

lemma use_fd_total:
  assumes "fds_ok s" and "fd_at s fd = Some d" and "file_step f" and "\<And>s1. \<exists>r. f (Some (d\<lparr>fd_refs := 2\<rparr>)) s1 = Inr r"
  shows "\<exists>i s1 r s2 s3 s4. fd_get fd s = (Some i, s1) \<and> with_fd (Some i) f s1 = Inr (r, s2) \<and> fd_put (Some i) s2 = Inr s3 \<and>
    fd_updated fd s s3 \<and> fd_put (Some i) s3 = Inr s4 \<and> fd_effect s s4 ((fd_at s)(fd := None))"
proof -
  obtain s1 where g: "fd_get fd s = (Some (nat (fd - 3)), s1)" "changes (nat (fd - 3)) (Some (d\<lparr>fd_refs := 2\<rparr>)) s s1"
    using get_changes[OF assms(1,2)] by blast
  obtain x where "f (Some (d\<lparr>fd_refs := 2\<rparr>)) s1 = Inr x" using assms(4) by blast
  then have "\<exists>r. with_fd (Some (nat (fd - 3))) f s1 = Inr r"
    using changes_deref[OF g(2)] by (cases x) (simp add: with_fd_def)
  then obtain r s2 where w: "with_fd (Some (nat (fd - 3))) f s1 = Inr (r, s2)" by auto
  from use_fd[OF assms(1,2) g(1) assms(3) w] show ?thesis
    using g(1) w effect_removed[OF assms(1)] by blast
qed

lemma open_total_refs: "file_total f \<Longrightarrow> fds_ok s \<Longrightarrow> fd_at s fd = Some d \<Longrightarrow> \<exists>r. f (Some (d\<lparr>fd_refs := 2\<rparr>)) s1 = Inr r"
  using fd_get_Some(3)[of s fd d] by (simp add: file_total_def fd_open_def)

lemma call_fd_ok:
  assumes "fds_ok s" and "file_step f" and "\<And>d s1. fd_at s fd = Some d \<Longrightarrow> \<exists>r. f (Some (d\<lparr>fd_refs := 2\<rparr>)) s1 = Inr r"
  shows "\<exists>r s'. call_fd fd f s = Inr (r, s') \<and> uses fd s s' \<and> (fd_at s fd = None \<longrightarrow> r = - 1)"
proof (cases "fd_at s fd")
  case None
  then show ?thesis using fd_get_None[OF assms(1) None] by (simp add: call_fd_def uses_def)
next
  case (Some d)
  obtain i s1 r s2 s3 where "fd_get fd s = (Some i, s1)" "with_fd (Some i) f s1 = Inr (r, s2)" "fd_put (Some i) s2 = Inr s3"
    "fd_updated fd s s3" using use_fd_total[OF assms(1) Some assms(2) assms(3)[OF Some]] by blast
  moreover obtain e where "fd_effect s s3 ((fd_at s)(fd \<mapsto> e))" using effect_updated[OF assms(1)] calculation(4) by blast
  moreover from this have "fd_effect s (set_errno r s3) ((fd_at s)(fd \<mapsto> e))" by (rule fd_effect_same) simp
  ultimately show ?thesis using Some by (auto simp: call_fd_def uses_def)
qed

lemma call_fd_total:
  assumes "fds_ok s" and "file_step f" and "file_total f"
  shows "\<exists>r s'. call_fd fd f s = Inr (r, s') \<and> uses fd s s'"
  using call_fd_ok[OF assms(1,2), of fd] open_total_refs[OF assms(3,1), of fd] by blast

section \<open>The calls that make and remove a descriptor\<close>

lemma fd_new_total: "fds_ok s \<Longrightarrow> \<exists>r. fd_new s = Inr r"
proof -
  assume ok: "fds_ok s"
  let ?i = "find_unused (fds s) 0"
  let ?g = "fd_grow ?i s"
  show ?thesis
  proof (cases "?i < length (fds ?g)")
    case False
    then have "?i = length (fds ?g)" using fd_grow_lowest[OF ok] by simp
    then show ?thesis by (simp add: fd_new_def fd_alloc_def Let_def)
  next
    case True
    then have n: "(fds ?g) ! ?i = None" using fd_grow_lowest[OF ok] by (simp add: lowest_free_def)
    obtain m s2 where a: "alloc_mem ?g = (m, s2)" by fastforce
    show ?thesis using a n True same_tables_alloc[OF a]
      by (cases m) (simp_all add: fd_new_def fd_alloc_def Let_def same_tables_def)
  qed
qed

text \<open>A descriptor is made and a file opened with it; the result of the opening decides what happens next.\<close>

lemma make_fd:
  assumes "fds_ok s" and "tables_ok s" and "resolves (working_directory s) p cs"
  shows "(\<exists>s1. fd_new s = Inr (- 1, s1) \<and> fd_effect s s1 (fd_at s)) \<or>
    (\<exists>i s1 s2 r s3 s4 s5 d. fd_new s = Inr (int i + 3, s1) \<and> fd_get (int i + 3) s1 = (Some i, s2) \<and>
      with_fd (Some i) (\<lambda>d. dfs_file_open env d p fl) s2 = Inr (r, s3) \<and> fd_put (Some i) s3 = Inr s4 \<and>
      fd_put (Some i) s4 = Inr s5 \<and> fd_effect s s5 (fd_at s) \<and>
      (\<exists>s0. grown s s0 \<and> lowest_free i s0 \<and> changes i (Some d) s0 s3 \<and> fd_refs d = 2 \<and> magic d = DFS_FD_MAGIC \<and>
        (r \<ge> 0 \<longrightarrow> r = 0 \<and> fops d \<noteq> None)) \<and>
      (r \<ge> 0 \<longrightarrow> fd_made (int i + 3) s s4))"
proof -
  obtain fd0 s1 where n: "fd_new s = Inr (fd0, s1)" using fd_new_total[OF assms(1)] by auto
  from fd_new_effect[OF assms(1) n] show ?thesis
  proof
    assume "fd0 = - 1 \<and> grown s s1"
    then show ?thesis using n effect_grown[OF assms(1)] by blast
  next
    assume "\<exists>i s0. fd0 = int i + 3 \<and> grown s s0 \<and> lowest_free i s0 \<and> changes i (Some fresh_fd) s0 s1"
    then obtain i s0 where i: "fd0 = int i + 3" "grown s s0" "lowest_free i s0" "changes i (Some fresh_fd) s0 s1" by blast
    obtain q s2 where q: "fd_get (int i + 3) s1 = (q, s2)" by fastforce
    have g: "q = Some i" "changes i (Some (fresh_fd\<lparr>fd_refs := 2\<rparr>)) s0 s2" using get_fresh[OF i(4) q] by auto
    have "rest_same s s2" using rest_same_trans rest_same_I(2)[OF g(2)] rest_same_I(3)[OF i(2)] by blast
    then have "tables_ok s2" "resolves (working_directory s2) p cs" using assms(2,3) tables_ok_rest by (auto simp: rest_same_def)
    then obtain x where "dfs_file_open env (Some (fresh_fd\<lparr>fd_refs := 2\<rparr>)) p fl s2 = Inr x" using open_total by blast
    then have "\<exists>x. with_fd (Some i) (\<lambda>d. dfs_file_open env d p fl) s2 = Inr x"
      using changes_deref[OF g(2)] by (cases x) (simp add: with_fd_def)
    then obtain r s3 where r: "with_fd (Some i) (\<lambda>d. dfs_file_open env d p fl) s2 = Inr (r, s3)" by auto
    obtain d where d: "changes i (Some d) s0 s3" "fd_refs d = 2" "magic d = DFS_FD_MAGIC" "r \<ge> 0 \<longrightarrow> r = 0 \<and> fops d \<noteq> None"
      using open_fresh[OF i(4) q] r g(1) by blast
    obtain s4 s5 where s4: "fd_put (Some i) s3 = Inr s4" "changes i (Some (d\<lparr>fd_refs := 1\<rparr>)) s0 s4"
      "fd_put (Some i) s4 = Inr s5" "changes i None s0 s5" using put_twice[OF d(1,2)] by blast
    have "fd_effect s s5 (fd_at s)" using effect_grown[OF assms(1) clear_lowest[OF i(3) s4(4) i(2)]] .
    moreover have "fd_made (int i + 3) s s4" if "r \<ge> 0"
    proof -
      have "fd_open (d\<lparr>fd_refs := 1\<rparr>)" using d(3,4) that by (simp add: fd_open_def)
      then show ?thesis using i s4(2) unfolding fd_made_def by blast
    qed
    ultimately show ?thesis using n i q g(1) r s4(1,3) d by blast
  qed
qed

text \<open>An open call: either nothing has changed, or the lowest free number stands for the file.\<close>

definition opens :: "'w dfs \<Rightarrow> int \<Rightarrow> 'w dfs \<Rightarrow> bool" where
  "opens s fd s' \<longleftrightarrow> (if fd = - 1 then fd_effect s s' (fd_at s)
     else next_fd (fd_at s) fd \<and> fd < 3 + int DFS_FD_MAX \<and> (\<exists>d. fd_effect s s' ((fd_at s)(fd \<mapsto> d))))"

lemma opens_made: "fds_ok s \<Longrightarrow> fd_made fd s s' \<Longrightarrow> opens s fd s'"
  using effect_made[of s fd s'] by (auto simp: opens_def next_fd_def)

lemma opens_errno: "fd_effect s s1 (fd_at s) \<Longrightarrow> opens s (- 1) (set_errno e s1)"
  using fd_effect_same[of s s1 _ "set_errno e s1"] by (simp add: opens_def)

lemma posix_open_ok:
  assumes "fds_ok s" and "tables_ok s" and "resolves (working_directory s) p cs"
  shows "\<exists>fd s'. posix_open env p fl s = Inr (fd, s') \<and> opens s fd s'"
  using make_fd[OF assms, of env fl]
proof (elim disjE exE conjE)
  fix s1 assume "fd_new s = Inr (- 1, s1)" "fd_effect s s1 (fd_at s)"
  then show ?thesis using opens_errno by (auto simp: posix_open_def)
next
  fix i s1 s2 r s3 s4 s5
  assume a: "fd_new s = Inr (int i + 3, s1)" "fd_get (int i + 3) s1 = (Some i, s2)"
    "with_fd (Some i) (\<lambda>d. dfs_file_open env d p fl) s2 = Inr (r, s3)" "fd_put (Some i) s3 = Inr s4"
    "fd_put (Some i) s4 = Inr s5" "fd_effect s s5 (fd_at s)" "r \<ge> 0 \<longrightarrow> fd_made (int i + 3) s s4"
  then show ?thesis using opens_errno opens_made[OF assms(1)] by (cases "r < 0") (auto simp: posix_open_def)
qed

text \<open>A descriptor that is closed and put twice leaves the table as it was.\<close>

lemma close_made:
  assumes "fds_ok s" and "grown s s0" and "lowest_free i s0" and "changes i (Some d) s0 s1" and "fd_refs d = 2" and "fops d \<noteq> None"
  shows "\<exists>r s2 s3 s4. with_fd (Some i) (dfs_file_close env) s1 = Inr (r, s2) \<and> fd_put (Some i) s2 = Inr s3 \<and>
    fd_put (Some i) s3 = Inr s4 \<and> fd_effect s s4 (fd_at s)"
proof -
  obtain x where "dfs_file_close env (Some d) s1 = Inr x" using total_steps(1)[of env] assms(6) unfolding file_total_def by blast
  then have "\<exists>x. with_fd (Some i) (dfs_file_close env) s1 = Inr x"
    using changes_deref[OF assms(4)] by (cases x) (simp add: with_fd_def)
  then obtain r s2 where r: "with_fd (Some i) (dfs_file_close env) s1 = Inr (r, s2)" by auto
  obtain d1 where d1: "changes i (Some d1) s0 s2" "same_head d d1" using with_fd_changes[OF close_step assms(4) r] by blast
  then have "fd_refs d1 = 2" using assms(5) by (simp add: same_head_def)
  from put_twice[OF d1(1) this] obtain s3 s4 where "fd_put (Some i) s2 = Inr s3" "fd_put (Some i) s3 = Inr s4" "changes i None s0 s4"
    by blast
  then show ?thesis using r effect_grown[OF assms(1) clear_lowest[OF assms(3) _ assms(2)]] by blast
qed

lemma mkdir_ok:
  assumes "fds_ok s" and "tables_ok s" and "resolves (working_directory s) p cs"
  shows "\<exists>r s'. mkdir env p s = Inr (r, s') \<and> fd_effect s s' (fd_at s)"
  using make_fd[OF assms, of env "O_DIRECTORY OR O_CREAT"]
proof (elim disjE exE conjE)
  fix s1 assume "fd_new s = Inr (- 1, s1)" "fd_effect s s1 (fd_at s)"
  then show ?thesis using fd_effect_same[of s s1 _ "set_errno (- ENOMEM) s1"] by (simp add: mkdir_def)
next
  fix i s1 s2 r s3 s4 s5 d s0
  assume a: "fd_new s = Inr (int i + 3, s1)" "fd_get (int i + 3) s1 = (Some i, s2)"
    "with_fd (Some i) (\<lambda>d. dfs_file_open env d p (O_DIRECTORY OR O_CREAT)) s2 = Inr (r, s3)" "fd_put (Some i) s3 = Inr s4"
    "fd_put (Some i) s4 = Inr s5" "fd_effect s s5 (fd_at s)"
    and d: "grown s s0" "lowest_free i s0" "changes i (Some d) s0 s3" "fd_refs d = 2" "r \<ge> 0 \<longrightarrow> r = 0 \<and> fops d \<noteq> None"
  show ?thesis
  proof (cases "r < 0")
    case True
    then show ?thesis using a fd_effect_same[of s s5 _ "set_errno r s5"] by (simp add: mkdir_def)
  next
    case False
    then obtain r1 s6 s7 s8 where "with_fd (Some i) (dfs_file_close env) s3 = Inr (r1, s6)" "fd_put (Some i) s6 = Inr s7"
      "fd_put (Some i) s7 = Inr s8" "fd_effect s s8 (fd_at s)" using close_made[OF assms(1) d(1-4)] d(5) by fastforce
    then show ?thesis using a(1-3) False by (simp add: mkdir_def)
  qed
qed

lemma opendir_ok:
  assumes "fds_ok s" and "tables_ok s" and "resolves (working_directory s) p cs"
  shows "\<exists>d s'. opendir env p s = Inr (d, s') \<and> opens s (case d of None \<Rightarrow> - 1 | Some d \<Rightarrow> dir_fd d) s' \<and>
    (\<forall>x. d = Some x \<longrightarrow> x = new_dir (dir_fd x))"
  using make_fd[OF assms, of env "O_RDONLY OR O_DIRECTORY"]
proof (elim disjE exE conjE)
  fix s1 assume "fd_new s = Inr (- 1, s1)" "fd_effect s s1 (fd_at s)"
  then show ?thesis using opens_errno by (auto simp: opendir_def)
next
  fix i s1 s2 r s3 s4 s5 d s0
  assume a: "fd_new s = Inr (int i + 3, s1)" "fd_get (int i + 3) s1 = (Some i, s2)"
    "with_fd (Some i) (\<lambda>d. dfs_file_open env d p (O_RDONLY OR O_DIRECTORY)) s2 = Inr (r, s3)" "fd_put (Some i) s3 = Inr s4"
    "fd_put (Some i) s4 = Inr s5" "fd_effect s s5 (fd_at s)"
    and d: "grown s s0" "lowest_free i s0" "changes i (Some d) s0 s3" "fd_refs d = 2" "magic d = DFS_FD_MAGIC"
      "r \<ge> 0 \<longrightarrow> r = 0 \<and> fops d \<noteq> None"
  show ?thesis
  proof (cases "r < 0")
    case True
    then show ?thesis using a opens_errno by (auto simp: opendir_def)
  next
    case False
    obtain m s6 where m: "alloc_mem s3 = (m, s6)" by fastforce
    have c: "changes i (Some d) s0 s6" using changes_same[OF d(3) same_tables_alloc[OF m]] .
    show ?thesis
    proof (cases m)
      case True
      obtain s7 where s7: "fd_put (Some i) s6 = Inr s7" "changes i (Some (d\<lparr>fd_refs := 1\<rparr>)) s0 s7" using put_twice[OF c d(4)] by blast
      have "fd_open (d\<lparr>fd_refs := 1\<rparr>)" using d(5,6) False by (simp add: fd_open_def)
      then have "fd_made (int i + 3) s s7" using s7(2) d(1,2) unfolding fd_made_def by blast
      then show ?thesis using a(1-3) m True False s7(1) opens_made[OF assms(1)] by (auto simp: opendir_def new_dir_def)
    next
      case nomem: False
      obtain r1 s7 s8 s9 where "with_fd (Some i) (dfs_file_close env) s6 = Inr (r1, s7)" "fd_put (Some i) s7 = Inr s8"
        "fd_put (Some i) s8 = Inr s9" "fd_effect s s9 (fd_at s)" using close_made[OF assms(1) d(1,2) c d(4)] d(6) False by fastforce
      then show ?thesis using a(1-3) m nomem False by (simp add: opendir_def opens_def)
    qed
  qed
qed

text \<open>A closing call: no such number, or the number is free afterwards, or the file system has failed.\<close>

definition closes :: "int \<Rightarrow> 'w dfs \<Rightarrow> 'w dfs \<Rightarrow> bool" where
  "closes fd s s' \<longleftrightarrow> uses fd s s' \<or> fd_effect s s' ((fd_at s)(fd := None))"

lemmas close_total = open_total_refs[OF total_steps(1)]

lemma posix_close_ok:
  assumes "fds_ok s"
  shows "\<exists>r s'. posix_close env fd s = Inr (r, s') \<and>
    (if r = 0 then fd_at s fd \<noteq> None \<and> fd_effect s s' ((fd_at s)(fd := None)) else r = - 1 \<and> uses fd s s')"
proof (cases "fd_at s fd")
  case None
  then show ?thesis using fd_get_None[OF assms None] by (simp add: posix_close_def uses_def)
next
  case (Some d)
  obtain i s1 r s2 s3 s4 where a: "fd_get fd s = (Some i, s1)" "with_fd (Some i) (dfs_file_close env) s1 = Inr (r, s2)"
    "fd_put (Some i) s2 = Inr s3" "fd_updated fd s s3" "fd_put (Some i) s3 = Inr s4" "fd_effect s s4 ((fd_at s)(fd := None))"
    using use_fd_total[OF assms Some close_step close_total[OF assms Some]] by blast
  moreover obtain e where "fd_effect s s3 ((fd_at s)(fd \<mapsto> e))" using effect_updated[OF assms a(4)] by blast
  moreover from this have "fd_effect s (set_errno r s3) ((fd_at s)(fd \<mapsto> e))" by (rule fd_effect_same) simp
  ultimately show ?thesis using Some by (cases "r < 0") (auto simp: posix_close_def uses_def)
qed

lemma closedir_ok:
  assumes "fds_ok s"
  shows "\<exists>r s'. closedir env d s = Inr (r, s') \<and>
    (if fd_at s (dir_fd d) = None then r = - 1 \<and> uses (dir_fd d) s s' else fd_effect s s' ((fd_at s)(dir_fd d := None)))"
proof (cases "fd_at s (dir_fd d)")
  case None
  then show ?thesis using fd_get_None[OF assms None] by (simp add: closedir_def uses_def)
next
  case (Some x)
  obtain i s1 r s2 s3 s4 where "fd_get (dir_fd d) s = (Some i, s1)" "with_fd (Some i) (dfs_file_close env) s1 = Inr (r, s2)"
    "fd_put (Some i) s2 = Inr s3" "fd_put (Some i) s3 = Inr s4" "fd_effect s s4 ((fd_at s)(dir_fd d := None))"
    using use_fd_total[OF assms Some close_step close_total[OF assms Some]] by blast
  then show ?thesis using Some fd_effect_same[of s s4 _ "set_errno r s4"] by (auto simp: closedir_def)
qed

end
