(* ===== verification/Dfs_Reach.thy ===== *)
theory Dfs_Reach
  imports Dfs_Calls
begin

text \<open>
  The calls as steps, what a caller has to respect, and the invariant of all states that can be
  reached: no call faults, no reference to a descriptor is lost or given back twice.
\<close>

section \<open>Calls on numbers\<close>

lemma read_ok:
  assumes "fds_ok s"
  shows "\<exists>r bs s'. posix_read env fd n s = Inr (r, bs, s') \<and> uses fd s s'"
proof (cases "fd_at s fd")
  case None
  then show ?thesis using fd_get_None[OF assms None] by (simp add: posix_read_def uses_def)
next
  case (Some d)
  obtain i s1 r s2 s3 where a: "fd_get fd s = (Some i, s1)"
    "with_fd (Some i) (\<lambda>d s. bind_res (dfs_file_read env d n s) (\<lambda>(r, bs, d1, s1). Inr ((r, bs), d1, s1))) s1 = Inr (r, s2)"
    "fd_put (Some i) s2 = Inr s3" "fd_updated fd s s3"
    using use_fd_total[OF assms Some read_step open_total_refs[OF total_steps(7) assms Some]] by blast
  moreover obtain r1 bs where "r = (r1, bs)" by fastforce
  moreover obtain e where "fd_effect s s3 ((fd_at s)(fd \<mapsto> e))" using effect_updated[OF assms a(4)] by blast
  moreover from this have "fd_effect s (set_errno (fst r) s3) ((fd_at s)(fd \<mapsto> e))" by (rule fd_effect_same) simp
  ultimately show ?thesis using Some by (cases "r1 < 0") (auto simp: posix_read_def uses_def)
qed

definition seek_fits :: "'w dfs \<Rightarrow> int \<Rightarrow> u32 \<Rightarrow> whence option \<Rightarrow> bool" where
  "seek_fits s fd off w \<longleftrightarrow> (case fd_at s fd of None \<Rightarrow> True
     | Some d \<Rightarrow> w = Some SEEK_CUR \<longrightarrow> sint (off + fpos (fio d)) = sint off + sint (fpos (fio d)))"

lemma lseek_op_total:
  assumes "fops d \<noteq> None" and "w = Some SEEK_CUR \<longrightarrow> sint (off + fpos (fio d)) = sint off + sint (fpos (fio d))"
  shows "\<exists>r. lseek_op env off w (Some d) s = Inr r"
proof (cases w)
  case (Some x)
  obtain o1 where o1: "seek_offset d off x = Inr o1" using assms(2) Some by (cases x) (auto simp: seek_offset_def)
  obtain y where "dfs_file_lseek env (Some d) o1 s = Inr y" using total_steps(5)[of env o1] assms(1) unfolding file_total_def by blast
  then show ?thesis using Some o1 by (cases y) (simp add: lseek_op_def)
qed (simp add: lseek_op_def)

lemma lseek_ok:
  assumes "fds_ok s" and "seek_fits s fd off w"
  shows "\<exists>r s'. posix_lseek env fd off w s = Inr (r, s') \<and> uses fd s s'"
proof -
  have "\<exists>r. lseek_op env off w (Some (d\<lparr>fd_refs := 2\<rparr>)) s1 = Inr r" if "fd_at s fd = Some d" for d s1
    using fd_get_Some(3)[OF assms(1) that] assms(2) that
    by (intro lseek_op_total) (auto simp: seek_fits_def fd_open_def)
  then show ?thesis using call_fd_ok[OF assms(1) lseek_op_step] by (fastforce simp: posix_lseek_def)
qed

lemma write_ok: "fds_ok s \<Longrightarrow> \<exists>r s'. posix_write env fd bs s = Inr (r, s') \<and> uses fd s s'"
  using call_fd_total[OF _ write_step total_steps(3)] unfolding posix_write_def by blast

lemma fcntl_ok: "fds_ok s \<Longrightarrow> \<exists>r s'. fcntl env fd cmd args s = Inr (r, s') \<and> uses fd s s'"
  using call_fd_total[OF _ ioctl_step total_steps(2)] unfolding fcntl_def by blast

lemma ftruncate_ok: "fds_ok s \<Longrightarrow> \<exists>r s'. ftruncate env fd len s = Inr (r, s') \<and> uses fd s s'"
proof -
  let ?f = "\<lambda>d s. if sint len < 0 then Inr (- EINVAL, d, s)
    else bind_res (dfs_file_ftruncate env d len s) (\<lambda>(r, d1, s1). Inr (if r < 0 then r else 0, d1, s1))"
  have s: "file_step ?f" by (rule file_step_map[OF ftruncate_step, where g = "\<lambda>r. if r < 0 then r else 0"])
  have t: "file_total ?f" unfolding file_total_def
  proof (intro allI impI)
    fix d :: dfs_fd and s :: "'a dfs"
    assume "fops d \<noteq> None"
    then obtain x where "dfs_file_ftruncate env (Some d) len s = Inr x"
      using total_steps(8)[of env len] unfolding file_total_def by blast
    then show "\<exists>r. ?f (Some d) s = Inr r" by (cases x) simp
  qed
  show "fds_ok s \<Longrightarrow> \<exists>r s'. ftruncate env fd len s = Inr (r, s') \<and> uses fd s s'" using call_fd_total[OF _ s t] unfolding ftruncate_def by blast
qed

text \<open>An operation and one put, as in \<open>fsync\<close> and the calls on directories.\<close>

lemma work_and_put:
  assumes "fds_ok s" and "fd_at s fd = Some d" and "file_step f" and "file_total f"
  shows "\<exists>i s1 r s2 s3. fd_get fd s = (Some i, s1) \<and> with_fd (Some i) f s1 = Inr (r, s2) \<and> fd_put (Some i) s2 = Inr s3 \<and>
    uses fd s s3 \<and> (\<forall>e. uses fd s (set_errno e s3))"
proof -
  obtain i s1 r s2 s3 where a: "fd_get fd s = (Some i, s1)" "with_fd (Some i) f s1 = Inr (r, s2)" "fd_put (Some i) s2 = Inr s3"
    "fd_updated fd s s3" using use_fd_total[OF assms(1,2,3) open_total_refs[OF assms(4,1,2)]] by blast
  obtain e where e: "fd_effect s s3 ((fd_at s)(fd \<mapsto> e))" using effect_updated[OF assms(1) a(4)] by blast
  have "fd_effect s (set_errno n s3) ((fd_at s)(fd \<mapsto> e))" for n using e by (rule fd_effect_same) simp
  then show ?thesis using a(1-3) e assms(2) by (auto simp: uses_def)
qed

lemma look_total: "file_step (\<lambda>d s. Inr (d, d, s))" "file_total (\<lambda>d s. Inr (d, d, s))"
  by (auto simp: file_step_def file_total_def same_head_def)

text \<open>Looking at a descriptor is an operation that does nothing.\<close>

lemma look_and_put:
  assumes "fds_ok s" and "fd_at s fd = Some d"
  shows "\<exists>i s1 x s2. fd_get fd s = (Some i, s1) \<and> fd_deref i s1 = Inr x \<and> fd_put (Some i) s1 = Inr s2 \<and> uses fd s s2"
proof -
  obtain i s1 r s2 s3 where a: "fd_get fd s = (Some i, s1)" "with_fd (Some i) (\<lambda>d s. Inr (d, d, s)) s1 = Inr (r, s2)"
    "fd_put (Some i) s2 = Inr s3" "uses fd s s3" using work_and_put[OF assms look_total] by blast
  obtain x where x: "fd_deref i s1 = Inr x" using a(2) by (auto simp: with_fd_def bind_res_Inr_iff)
  then have "s2 = set_fd i (Some x) s1" using a(2) by (auto simp: with_fd_def)
  moreover have "set_fd i (Some x) s1 = s1"
    using x by (auto simp: set_fd_def fd_deref_def split: if_splits option.splits) (metis list_update_id dfs.surjective dfs.update_convs(3))
  ultimately have "s2 = s1" by simp
  then show ?thesis using a x by blast
qed

lemma fsync_ok: "fds_ok s \<Longrightarrow> \<exists>r s'. fsync env fd s = Inr (r, s') \<and> uses fd s s'"
proof (cases "fd_at s fd")
  case (Some d)
  assume ok: "fds_ok s"
  then show ?thesis using work_and_put[OF ok Some flush_step total_steps(4), of env] by (fastforce simp: fsync_def)
qed (simp add: fsync_def fd_get_None uses_def)

lemma fstat_ok: "fds_ok s \<Longrightarrow> \<exists>r b s'. fstat fd s = Inr (r, b, s') \<and> uses fd s s'"
proof (cases "fd_at s fd")
  case (Some d)
  assume ok: "fds_ok s"
  then show ?thesis using look_and_put[OF ok Some] by (fastforce simp: fstat_def)
qed (simp add: fstat_def fd_get_None uses_def)

lemma telldir_ok: "fds_ok s \<Longrightarrow> \<exists>r s'. telldir d s = Inr (r, s') \<and> uses (dir_fd d) s s'"
proof (cases "fd_at s (dir_fd d)")
  case (Some x)
  assume ok: "fds_ok s"
  then show ?thesis using look_and_put[OF ok Some] by (fastforce simp: telldir_def)
qed (simp add: telldir_def fd_get_None uses_def)

lemma seekdir_ok: "fds_ok s \<Longrightarrow> \<exists>d1 s'. seekdir env d off s = Inr (d1, s') \<and> uses (dir_fd d) s s'"
proof (cases "fd_at s (dir_fd d)")
  case (Some x)
  assume ok: "fds_ok s"
  then show ?thesis using work_and_put[OF ok Some lseek_step total_steps(5), of env off] by (fastforce simp: seekdir_def)
qed (simp add: seekdir_def fd_get_None uses_def)

text \<open>The file systems keep to the room for directory entries, and the client to the entries it has.\<close>

definition getdents_fits :: "'w dfs_env \<Rightarrow> bool" where
  "getdents_fits env \<longleftrightarrow> (\<forall>k f d n w. f_getdents (op_fops (ops_at env k)) = Some f \<longrightarrow> length (fst (snd (f d n w))) \<le> n)"

definition dir_fits :: "dir \<Rightarrow> bool" where
  "dir_fits d \<longleftrightarrow> dnum d = 0 \<or> 0 \<le> dcur d \<and> dcur d + 3 < int (length (dbuf d))"

lemma getdents_length:
  "getdents_fits env \<Longrightarrow> with_fd (Some i) (getdents_op env n) s = Inr ((r, bs), s1) \<Longrightarrow> length bs \<le> n"
  by (auto simp: with_fd_def getdents_op_def dfs_file_getdents_def fd_ops_def drive_read_def getdents_fits_def bind_res_Inr_iff Let_def
      split: option.splits prod.splits if_splits) (metis fst_conv snd_conv)

lemma readdir_ok:
  assumes "fds_ok s" and "getdents_fits env" and "dir_fits d"
  shows "\<exists>r d1 s'. readdir env d s = Inr (r, d1, s') \<and> uses (dir_fd d) s s'"
proof (cases "fd_at s (dir_fd d)")
  case None
  then show ?thesis using fd_get_None[OF assms(1) None] by (simp add: readdir_def uses_def)
next
  case (Some x)
  have c: "\<exists>c. (if dnum d \<noteq> 0 then bind_res (reclen (dbuf d) (dcur d)) (\<lambda>n. Inr (dcur d + n)) else Inr (dcur d)) = Inr c"
    using assms(3) by (auto simp: dir_fits_def reclen_def)
  then obtain cur where cur:
    "(if dnum d \<noteq> 0 then bind_res (reclen (dbuf d) (dcur d)) (\<lambda>n. Inr (dcur d + n)) else Inr (dcur d)) = Inr cur" by blast
  show ?thesis
  proof (cases "dnum d = 0 \<or> cur \<ge> dnum d")
    case True
    obtain i s1 r s2 s3 where a: "fd_get (dir_fd d) s = (Some i, s1)" "with_fd (Some i) (getdents_op env 511) s1 = Inr (r, s2)"
      "fd_put (Some i) s2 = Inr s3" "uses (dir_fd d) s s3" "\<forall>e. uses (dir_fd d) s (set_errno e s3)"
      using work_and_put[OF assms(1) Some getdents_step total_steps(6)] by blast
    obtain r1 bs where r: "r = (r1, bs)" by fastforce
    then have "length bs \<le> 511" using getdents_length[OF assms(2)] a(2) by blast
    then show ?thesis using a r cur True by (simp add: readdir_def Let_def)
  next
    case False
    obtain i s1 x s2 where "fd_get (dir_fd d) s = (Some i, s1)" "fd_put (Some i) s1 = Inr s2" "uses (dir_fd d) s s2"
      using look_and_put[OF assms(1) Some] by blast
    then show ?thesis using cur False by (auto simp: readdir_def)
  qed
qed

section \<open>Calls on names\<close>

text \<open>The call has an outcome and leaves the tables alone.\<close>

definition quiet :: "'w dfs \<Rightarrow> ('r \<times> 'w dfs) res \<Rightarrow> bool" where
  "quiet s x \<longleftrightarrow> (\<exists>r s'. x = Inr (r, s') \<and> same_tables s s')"

lemma quiet_ret: "same_tables s s1 \<Longrightarrow> quiet s (Inr (r, s1))"
  by (simp add: quiet_def)

lemma quiet_bind: "quiet s x \<Longrightarrow> (\<And>r s1. same_tables s s1 \<Longrightarrow> quiet s (f (r, s1))) \<Longrightarrow> quiet s (bind_res x f)"
  by (auto simp: quiet_def)

lemma quiet_on_fs: "same_tables s s1 \<Longrightarrow> quiet s (Inr (on_fs f s1))"
  by (cases "on_fs f s1") (auto simp: quiet_def dest: on_fs_same same_tables_trans)

lemma tables_ok_same: "same_tables s s' \<Longrightarrow> tables_ok s' = tables_ok s"
  by (rule tables_ok_rest) (rule rest_same_I)

text \<open>Normalising comes first.\<close>

lemma with_path:
  assumes "tables_ok s" and "resolves (working_directory s) p cs" and "same_tables s s0"
    and "\<And>s1. same_tables s s1 \<Longrightarrow> quiet s (f (None, s1))"
    and "\<And>s1. same_tables s s1 \<Longrightarrow> tables_ok s1 \<Longrightarrow> proper_names cs \<Longrightarrow> quiet s (f (Some (abs_path cs), s1))"
  shows "quiet s (bind_res (normalize None p s0) f)"
proof -
  have t: "tables_ok s0" "wd_ok s0" "resolves (working_directory s0) p cs"
    using assms(1-3) tables_ok_same[OF assms(3)] by (auto simp: tables_ok_def same_tables_def)
  obtain m s1 where n: "normalize None p s0 = Inr (if m then Some (abs_path cs) else None, s1)" "same_tables s0 s1"
    using normalize_resolves[OF t(2,3)] by blast
  have s1: "same_tables s s1" using same_tables_trans[OF assms(3) n(2)] .
  show ?thesis using assms(4)[OF s1] assms(5)[OF s1] n(1) resolves_proper(1)[OF t(2,3)] tables_ok_same[OF s1] assms(1)
    by (cases m) simp_all
qed

lemma is_open_quiet:
  assumes "tables_ok s" and "proper_names cs" and "same_tables s s0"
  shows "quiet s (fd_is_open (abs_path cs) s0)"
  unfolding fd_is_open_def
  by (rule with_path[OF assms(1) resolves_abs[OF assms(2)] assms(3)]) (auto simp: quiet_def Let_def split: option.splits)

lemma unlink_ok:
  assumes "tables_ok s" and "resolves (working_directory s) p cs"
  shows "quiet s (dfs_file_unlink env p s)"
  unfolding dfs_file_unlink_def
proof (rule with_path[OF assms same_tables_refl])
  fix s1 assume s1: "same_tables s s1" "tables_ok s1" "proper_names cs"
  let ?g = "\<lambda>k (r, s2). let e = filesystem_table s1 ! k in
    if r = 0 then Inr (- EBUSY, s2)
    else case Option.bind (mops e) (\<lambda>t. op_unlink (ops_at env t)) of
        None \<Rightarrow> Inr (- ENOSYS, s2)
      | Some f \<Rightarrow> bind_res (path_below env e (abs_path cs)) (\<lambda>q. Inr (on_fs (f e q) s2))"
  have m: "mounts_ok s1" using s1(2) by (simp add: tables_ok_def)
  have "quiet s (bind_res (fd_is_open (abs_path cs) s1) (?g k))" if k: "dfs_filesystem_lookup (abs_path cs) s1 = Some k" for k
  proof (rule quiet_bind[OF is_open_quiet[OF assms(1) s1(3,1)]])
    fix r s2 assume s2: "same_tables s s2"
    obtain q where "path_below env (filesystem_table s1 ! k) (abs_path cs) = Inr q" using below_total[OF m s1(3) k] by blast
    then show "quiet s (?g k (r, s2))" by (auto simp: Let_def quiet_ret[OF s2] quiet_on_fs[OF s2] split: option.splits)
  qed
  then show "quiet s (case (Some (abs_path cs), s1) of (full, s1) \<Rightarrow> case full of None \<Rightarrow> Inr (- EINVAL, s1)
      | Some p \<Rightarrow> case dfs_filesystem_lookup p s1 of None \<Rightarrow> Inr (- ENOENT, s1)
        | Some k \<Rightarrow> bind_res (fd_is_open p s1) (\<lambda>(r, s2). let e = filesystem_table s1 ! k in
            if r = 0 then Inr (- EBUSY, s2)
            else case Option.bind (mops e) (\<lambda>t. op_unlink (ops_at env t)) of
                None \<Rightarrow> Inr (- ENOSYS, s2)
              | Some f \<Rightarrow> bind_res (path_below env e p) (\<lambda>q. Inr (on_fs (f e q) s2))))"
    by (simp add: quiet_ret[OF s1(1)] split: option.splits)
qed (simp add: quiet_def)

lemma subdir_found:
  assumes "tables_ok s" and "proper_names cs" and "dfs_filesystem_lookup (abs_path cs) s = Some k"
  shows "\<exists>q. dfs_subdir (the (mpath (filesystem_table s ! k))) (abs_path cs) = Inr q"
  using lookup_found[of s cs k] assms subdir_total[OF _ proper_clean[OF assms(2)]] by (auto simp: tables_ok_def)

lemma stat_ok:
  assumes "tables_ok s" and "resolves (working_directory s) p cs"
  shows "\<exists>r b s'. dfs_file_stat env p buf s = Inr (r, b, s') \<and> same_tables s s'"
proof -
  have wd: "wd_ok s" using assms(1) by (simp add: tables_ok_def)
  have cs: "proper_names cs" using resolves_proper(1)[OF wd assms(2)] .
  obtain m s1 where n: "normalize None p s = Inr (if m then Some (abs_path cs) else None, s1)" "same_tables s s1"
    using normalize_resolves[OF wd assms(2)] by blast
  show ?thesis
  proof (cases "m \<and> dfs_filesystem_lookup (abs_path cs) s1 \<noteq> None")
    case False
    then show ?thesis using n by (auto simp: dfs_file_stat_def)
  next
    case True
    then obtain k where k: "dfs_filesystem_lookup (abs_path cs) s1 = Some k" by blast
    have t: "tables_ok s1" using tables_ok_same[OF n(2)] assms(1) by simp
    obtain q where q: "dfs_subdir (the (mpath (filesystem_table s1 ! k))) (abs_path cs) = Inr q"
      using subdir_found[OF t cs k] by blast
    obtain b where "path_below env (filesystem_table s1 ! k) (abs_path cs) = Inr b"
      using below_total[OF _ cs k] t by (auto simp: tables_ok_def)
    then show ?thesis using n k q True same_tables_trans[OF n(2) same_tables_world]
      by (auto simp: dfs_file_stat_def Let_def split: option.splits prod.splits)
  qed
qed

lemma rename_ok:
  assumes "tables_ok s" and "resolves (working_directory s) p cs" and "resolves (working_directory s) q ds"
    and "dfs_filesystem_lookup (abs_path cs) s \<noteq> None"
  shows "quiet s (dfs_file_rename env p q s)"
proof -
  have wd: "wd_ok s" using assms(1) by (simp add: tables_ok_def)
  have n: "proper_names cs" "proper_names ds" using resolves_proper(1)[OF wd] assms(2,3) by auto
  obtain m s1 where s1: "normalize None p s = Inr (if m then Some (abs_path cs) else None, s1)" "same_tables s s1"
    using normalize_resolves[OF wd assms(2)] by blast
  have "wd_ok s1" "resolves (working_directory s1) q ds" using wd assms(3) s1(2) by (auto simp: same_tables_def wd_ok_def)
  then obtain m2 s2 where s2: "normalize None q s1 = Inr (if m2 then Some (abs_path ds) else None, s2)" "same_tables s1 s2"
    using normalize_resolves by blast
  have st: "same_tables s s2" using same_tables_trans[OF s1(2) s2(2)] .
  then have t: "tables_ok s2" "dfs_filesystem_lookup x s2 = dfs_filesystem_lookup x s" for x
    using tables_ok_same[OF st] assms(1) by (auto simp: dfs_filesystem_lookup_def same_tables_def)
  show ?thesis
  proof (cases "m \<and> m2 \<and> dfs_filesystem_lookup (abs_path cs) s2 = dfs_filesystem_lookup (abs_path ds) s2")
    case False
    then show ?thesis using s1 s2 st by (auto simp: dfs_file_rename_def quiet_def)
  next
    case True
    then obtain k where k: "dfs_filesystem_lookup (abs_path cs) s2 = Some k" "dfs_filesystem_lookup (abs_path ds) s2 = Some k"
      using assms(4) t(2) by auto
    obtain a b where "dfs_subdir (the (mpath (filesystem_table s2 ! k))) (abs_path cs) = Inr a"
      "dfs_subdir (the (mpath (filesystem_table s2 ! k))) (abs_path ds) = Inr b"
      using subdir_found[OF t(1) n(1) k(1)] subdir_found[OF t(1) n(2) k(2)] by blast
    then show ?thesis using s1(1) s2(1) True k
      by (simp add: dfs_file_rename_def Let_def quiet_ret[OF st] quiet_on_fs[OF st] split: option.splits)
  qed
qed

section \<open>Mounting and the working directory\<close>

definition dfs_inv :: "'w dfs \<Rightarrow> bool" where
  "dfs_inv s \<longleftrightarrow> fds_ok s \<and> tables_ok s"

lemma inv_same: "dfs_inv s \<Longrightarrow> same_tables s s' \<Longrightarrow> dfs_inv s'"
  by (simp add: dfs_inv_def fds_ok_same tables_ok_same)

lemma inv_effect: "dfs_inv s \<Longrightarrow> fd_effect s s' m \<Longrightarrow> dfs_inv s'"
  by (auto simp: dfs_inv_def fd_effect_def tables_ok_rest)

lemma inv_uses: "dfs_inv s \<Longrightarrow> uses fd s s' \<Longrightarrow> dfs_inv s'"
  using inv_effect inv_same[of s "set_errno (- EBADF) s"] by (auto simp: uses_def split: if_splits)

lemma inv_opens: "dfs_inv s \<Longrightarrow> opens s fd s' \<Longrightarrow> dfs_inv s'"
  using inv_effect by (auto simp: opens_def split: if_splits)

text \<open>An entry of the mount table is filled or cleared.\<close>

definition good_entry :: "dfs_filesystem \<Rightarrow> bool" where
  "good_entry e \<longleftrightarrow> e = empty_fs \<or> (\<exists>t ms. mops e = Some t \<and> mpath e = Some (abs_path ms) \<and> proper_names ms)"

lemma inv_entry: "dfs_inv s \<Longrightarrow> good_entry e \<Longrightarrow> dfs_inv (set_entry k e s)"
  by (auto simp: dfs_inv_def fds_ok_def tables_ok_def wd_ok_def mounts_ok_def good_entry_def set_entry_def
      dest!: set_update_subset_insert[THEN subsetD])

text \<open>The open files stay as they are.\<close>

definition keeps :: "'w dfs \<Rightarrow> 'w dfs \<Rightarrow> bool" where
  "keeps s s' \<longleftrightarrow> dfs_inv s' \<and> fd_at s' = fd_at s"

lemma keeps_same: "dfs_inv s \<Longrightarrow> same_tables s s' \<Longrightarrow> keeps s s'"
  by (simp add: keeps_def inv_same fd_at_same)

lemma fd_at_fds: "fds s' = fds s \<Longrightarrow> fd_at s' = fd_at s"
  by (rule ext) (simp add: fd_at_def)

lemma keeps_entry: "keeps s s1 \<Longrightarrow> good_entry e \<Longrightarrow> keeps s (set_entry k e s1)"
proof -
  assume "keeps s s1" and "good_entry e"
  moreover have "fd_at (set_entry k e s1) = fd_at s1" by (rule fd_at_fds) (simp add: set_entry_def)
  ultimately show ?thesis by (simp add: keeps_def inv_entry)
qed

lemma mount_at_keeps:
  assumes "dfs_inv s" and "same_tables s s1" and "proper_names cs"
  shows "keeps s (snd (mount_at env k t f dev (abs_path cs) rw s1))"
proof -
  have w: "keeps s (s1\<lparr>world := w\<rparr>)" for w using keeps_same[OF assms(1) same_tables_trans[OF assms(2)]] by simp
  have "good_entry empty_fs" "good_entry (\<lparr>dev_id = dev, mpath = Some (abs_path cs), mops = Some t, mdata = h\<rparr>)" for h
    using assms(3) by (auto simp: good_entry_def)
  then show ?thesis using keeps_entry[OF w] by (auto simp: mount_at_def Let_def split: prod.splits)
qed

lemma mount_point_ok:
  assumes "tables_ok s" and "proper_names cs"
  shows "quiet s (mount_point_exists env (abs_path cs) s)"
proof (cases "abs_path cs = ''/'' \<or> abs_path cs = ''/dev''")
  case True
  then show ?thesis by (auto simp: mount_point_exists_def quiet_ret)
next
  case False
  obtain r d s1 where o1: "dfs_file_open env (Some (stack_fd env)) (abs_path cs) (O_RDONLY OR O_DIRECTORY) s = Inr (r, d, s1)"
    using open_total[OF assms(1) resolves_abs[OF assms(2)]] by (metis prod_cases3)
  then obtain d1 where s1: "same_tables s s1" "d = Some d1" using open_step unfolding file_step_def by blast
  show ?thesis
  proof (cases "r < 0")
    case True
    then show ?thesis using o1 s1 False by (simp add: mount_point_exists_def quiet_ret)
  next
    case r: False
    then have "fops d1 \<noteq> None" using open_result[OF o1] s1(2) by auto
    then obtain y where y: "dfs_file_close env (Some d1) s1 = Inr y" using total_steps(1)[of env] unfolding file_total_def by blast
    obtain r2 d2 s2 where y2: "y = (r2, d2, s2)" by (cases y)
    then have "same_tables s1 s2" using close_step y unfolding file_step_def by blast
    then show ?thesis using o1 s1 r False y y2 same_tables_trans[OF s1(1)]
      by (auto simp: mount_point_exists_def quiet_def)
  qed
qed

lemma mount_ok:
  assumes "dfs_inv s" and "resolves (working_directory s) p cs"
  shows "\<exists>r s'. dfs_mount env dev p ty rw s = Inr (r, s') \<and> keeps s s'"
proof -
  have t: "tables_ok s" "wd_ok s" using assms(1) by (simp_all add: dfs_inv_def tables_ok_def)
  have e: "keeps s (set_errno n s1)" if "same_tables s s1" for n s1
    using keeps_same[OF assms(1)] same_tables_trans[OF that same_tables_errno] by blast
  have e0: "keeps s (set_errno n s)" for n using e[of s] by simp
  obtain m s1 where n: "normalize None p s = Inr (if m then Some (abs_path cs) else None, s1)" "same_tables s s1"
    using normalize_resolves[OF t(2) assms(2)] by blast
  have cs: "proper_names cs" using resolves_proper(1)[OF t(2) assms(2)] .
  have t1: "tables_ok s1" using tables_ok_same[OF n(2)] t(1) by simp
  obtain b s2 where b: "mount_point_exists env (abs_path cs) s1 = Inr (b, s2)" "same_tables s1 s2"
    using mount_point_ok[OF t1 cs, of env] by (auto simp: quiet_def)
  have s2: "same_tables s s2" using same_tables_trans[OF n(2) b(2)] .
  have at: "\<exists>r s'. mount_at env k u f d (abs_path cs) rw s2 = (r, s') \<and> keeps s s'" for k u f d
    using mount_at_keeps[OF assms(1) s2 cs, of env k u f d rw] by (cases "mount_at env k u f d (abs_path cs) rw s2") simp
  show ?thesis
  proof (cases "dev \<noteq> None \<and> Option.bind dev (rt_device_find (registry s)) = None")
    case True
    then show ?thesis using e0 by (simp add: dfs_mount_def Let_def)
  next
    case dev: False
    show ?thesis
    proof (cases "first_at (named env ty) (filesystem_operation_table s) 0")
      case None
      then show ?thesis using dev e0 by (auto simp: dfs_mount_def Let_def)
    next
      case (Some i)
      show ?thesis
      proof (cases "op_mount (ops_at env (the (filesystem_operation_table s ! i)))")
        case None
        then show ?thesis using dev Some e0 by (auto simp: dfs_mount_def Let_def)
      next
        case (Some f)
        with \<open>first_at _ _ _ = _\<close> dev n b at e[OF n(2)] e[OF s2] show ?thesis
          by (cases m; cases b; cases "find_mount_slot p (filesystem_table s2) 0 None") (auto simp: dfs_mount_def Let_def)
      qed
    qed
  qed
qed

lemma unmount_ok:
  assumes "dfs_inv s" and "resolves (working_directory s) p cs"
  shows "\<exists>r s'. dfs_unmount env p s = Inr (r, s') \<and> keeps s s'"
proof -
  have t: "tables_ok s" "wd_ok s" using assms(1) by (simp_all add: dfs_inv_def tables_ok_def)
  obtain m s1 where n: "normalize None p s = Inr (if m then Some (abs_path cs) else None, s1)" "same_tables s s1"
    using normalize_resolves[OF t(2) assms(2)] by blast
  have i1: "keeps s s1" "keeps s (set_errno e s1)" "keeps s (s1\<lparr>world := w\<rparr>)" for e w
    using keeps_same[OF assms(1) n(2)] keeps_same[OF assms(1) same_tables_trans[OF n(2)]] by auto
  show ?thesis
  proof (cases "m \<and> first_at (\<lambda>e. mpath e = Some (abs_path cs)) (filesystem_table s1) 0 \<noteq> None")
    case False
    then show ?thesis using n i1 by (auto simp: dfs_unmount_def)
  next
    case True
    then obtain k where k: "first_at (\<lambda>e. mpath e = Some (abs_path cs)) (filesystem_table s1) 0 = Some k" by blast
    let ?e = "filesystem_table s1 ! k"
    have e: "k < length (filesystem_table s1)" "mpath ?e = Some (abs_path cs)" using k by (simp_all add: first_at_Some)
    have "\<forall>x \<in> set (filesystem_table s1). good_entry x"
      using i1(1) unfolding keeps_def dfs_inv_def tables_ok_def mounts_ok_def good_entry_def by blast
    then have g: "good_entry ?e" using nth_mem[OF e(1)] by blast
    then obtain u where u: "mops ?e = Some u" using e(2) by (auto simp: good_entry_def empty_fs_def)
    have "good_entry (?e\<lparr>mdata := h\<rparr>)" "good_entry empty_fs" for h using g e(2) by (auto simp: good_entry_def empty_fs_def)
    then have "keeps s (set_entry k (?e\<lparr>mdata := h\<rparr>) (s1\<lparr>world := w\<rparr>))" "keeps s (set_entry k empty_fs (s1\<lparr>world := w\<rparr>))" for h w
      using keeps_entry[OF i1(3)] by blast+
    then show ?thesis using n True k u i1(1) by (auto simp: dfs_unmount_def Let_def split: option.splits prod.splits)
  qed
qed

lemma chdir_ok:
  assumes "dfs_inv s" and "resolves (working_directory s) p cs" and "length (abs_path cs) < DFS_PATH_MAX"
  shows "\<exists>r s'. chdir env (Some p) s = Inr (r, s') \<and> keeps s s'"
proof -
  have t: "tables_ok s" "wd_ok s" using assms(1) by (simp_all add: dfs_inv_def tables_ok_def)
  obtain m s1 where n: "normalize None p s = Inr (if m then Some (abs_path cs) else None, s1)" "same_tables s s1"
    using normalize_resolves[OF t(2) assms(2)] by blast
  have cs: "proper_names cs" using resolves_proper(1)[OF t(2) assms(2)] .
  have i1: "dfs_inv s1" "fd_at s1 = fd_at s" using inv_same[OF assms(1) n(2)] fd_at_same[OF n(2)] .
  have e: "keeps s (set_errno x s)" "keeps s (set_errno x s1)" for x
    using keeps_same[OF assms(1)] same_tables_trans[OF n(2)] by simp_all
  obtain d s2 where d: "opendir env (abs_path cs) s1 = Inr (d, s2)" "opens s1 (case d of None \<Rightarrow> - 1 | Some d \<Rightarrow> dir_fd d) s2"
    "\<forall>x. d = Some x \<longrightarrow> x = new_dir (dir_fd x)"
    using opendir_ok[of s1 "abs_path cs" cs env] i1 resolves_abs[OF cs] by (auto simp: dfs_inv_def)
  have i2: "dfs_inv s2" using inv_opens[OF i1(1) d(2)] .
  have wd: "keeps s (s'\<lparr>working_directory := abs_path cs\<rparr>)" if "keeps s s'" for s' :: "'a dfs"
    using that cs assms(3) fd_at_fds[of "s'\<lparr>working_directory := abs_path cs\<rparr>" s']
    by (auto simp: keeps_def dfs_inv_def fds_ok_def tables_ok_def wd_ok_def mounts_ok_def)
  show ?thesis
  proof (cases d)
    case None
    then have "keeps s s2" using d(2) i1(2) i2 by (simp add: opens_def keeps_def fd_effect_def)
    then show ?thesis using None n d(1) e by (auto simp: chdir_def)
  next
    case (Some x)
    have x: "dir_fd x \<noteq> - 1 \<Longrightarrow> fd_at s1 (dir_fd x) = None \<and> (\<exists>y. fd_at s2 = (fd_at s1)(dir_fd x \<mapsto> y))"
      using d(2) Some by (auto simp: opens_def next_fd_def fd_effect_def)
    obtain r s3 where r: "closedir env x s2 = Inr (r, s3)"
      "if fd_at s2 (dir_fd x) = None then r = - 1 \<and> uses (dir_fd x) s2 s3 else fd_effect s2 s3 ((fd_at s2)(dir_fd x := None))"
      using closedir_ok[of s2 env x] i2 by (auto simp: dfs_inv_def)
    have "dfs_inv s3" using inv_uses[OF i2] inv_effect[OF i2] r(2) by (auto split: if_splits)
    moreover have "fd_at s3 = fd_at s"
    proof (cases "dir_fd x = - 1")
      case True
      then have "fd_at s2 (dir_fd x) = None" "fd_at s2 = fd_at s1" using d(2) Some by (simp_all add: fd_at_def opens_def fd_effect_def)
      then show ?thesis using r(2) i1(2) by (simp add: uses_def fd_at_same[OF same_tables_errno])
    next
      case False
      then obtain y where "fd_at s1 (dir_fd x) = None" "fd_at s2 = (fd_at s1)(dir_fd x \<mapsto> y)" using x by blast
      then show ?thesis using r(2) i1(2) by (auto simp: fd_effect_def fun_upd_idem)
    qed
    ultimately have "keeps s s3" by (simp add: keeps_def)
    then show ?thesis using n d(1) Some r(1) e wd[of s3] assms(3) by (auto simp: chdir_def)
  qed
qed

end
