(* ===== verification/Dfs_Props.thy ===== *)
theory Dfs_Props
  imports Dfs_Reach
begin

text \<open>
  The calls of the file layer as steps of a machine, and the properties of the layer: no call faults
  and no descriptor gets lost, the table implements a map from numbers to open files, a closed file
  frees its number, an open file is not removed, and a mounted file system is found.
\<close>

section \<open>Calls\<close>

datatype file_call =
    Open string u32
  | Close int
  | Read int nat
  | Write int "u8 list"
  | Lseek int u32 "whence option"
  | Fstat int
  | Fsync int
  | Fcntl int int u32
  | Ftruncate int u32
  | Rename string string
  | Unlink string
  | Stat string stat_buf
  | Statfs string
  | Mkdir string
  | Opendir string
  | Readdir dir
  | Telldir dir
  | Seekdir dir u32
  | Closedir dir
  | Chdir string
  | Mount "string option" string string u32
  | Unmount string
  | Mkfs string "string option"
  | Register nat

text \<open>The result as a number, where there is one.\<close>

definition drop2 :: "('a \<times> 'b \<times> 'c) res \<Rightarrow> ('a \<times> 'c) res" where
  "drop2 x = bind_res x (\<lambda>(a, _, c). Inr (a, c))"

definition numbered :: "int \<Rightarrow> ('a \<times> 'c) res \<Rightarrow> (int \<times> 'c) res" where
  "numbered n x = bind_res x (\<lambda>(_, c). Inr (n, c))"

fun run_call :: "'w dfs_env \<Rightarrow> file_call \<Rightarrow> 'w dfs \<Rightarrow> (int \<times> 'w dfs) res" where
  "run_call env (Open p fl) s = posix_open env p fl s"
| "run_call env (Close fd) s = posix_close env fd s"
| "run_call env (Read fd n) s = drop2 (posix_read env fd n s)"
| "run_call env (Write fd bs) s = posix_write env fd bs s"
| "run_call env (Lseek fd off w) s = posix_lseek env fd off w s"
| "run_call env (Fstat fd) s = drop2 (fstat fd s)"
| "run_call env (Fsync fd) s = fsync env fd s"
| "run_call env (Fcntl fd cmd args) s = fcntl env fd cmd args s"
| "run_call env (Ftruncate fd len) s = ftruncate env fd len s"
| "run_call env (Rename p q) s = posix_rename env p q s"
| "run_call env (Unlink p) s = posix_unlink env p s"
| "run_call env (Stat p b) s = drop2 (posix_stat env p b s)"
| "run_call env (Statfs p) s = Inr (posix_statfs env p s)"
| "run_call env (Mkdir p) s = mkdir env p s"
| "run_call env (Opendir p) s = bind_res (opendir env p s) (\<lambda>(d, s1). Inr (case d of None \<Rightarrow> - 1 | Some d \<Rightarrow> dir_fd d, s1))"
| "run_call env (Readdir d) s = numbered 0 (drop2 (readdir env d s))"
| "run_call env (Telldir d) s = telldir d s"
| "run_call env (Seekdir d off) s = numbered 0 (seekdir env d off s)"
| "run_call env (Closedir d) s = closedir env d s"
| "run_call env (Chdir p) s = chdir env (Some p) s"
| "run_call env (Mount dev p ty rw) s = dfs_mount env dev p ty rw s"
| "run_call env (Unmount p) s = dfs_unmount env p s"
| "run_call env (Mkfs ty dev) s = Inr (dfs_mkfs env ty dev s)"
| "run_call env (Register k) s = Inr (dfs_register env k s)"

text \<open>
  What the caller has to respect: a path does not climb above the root; a new working directory fits
  its array; the sum of a seek fits its type; one of two names is below a mount point; a directory
  stream is one that \<open>opendir\<close> and \<open>readdir\<close> have made.
\<close>

definition path_ok :: "'w dfs \<Rightarrow> string \<Rightarrow> bool" where
  "path_ok s p \<longleftrightarrow> (\<exists>cs. resolves (working_directory s) p cs)"

fun call_ok :: "file_call \<Rightarrow> 'w dfs \<Rightarrow> bool" where
  "call_ok (Open p fl) s = path_ok s p"
| "call_ok (Lseek fd off w) s = seek_fits s fd off w"
| "call_ok (Rename p q) s = (path_ok s q \<and> (\<exists>cs. resolves (working_directory s) p cs \<and> dfs_filesystem_lookup (abs_path cs) s \<noteq> None))"
| "call_ok (Unlink p) s = path_ok s p"
| "call_ok (Stat p b) s = path_ok s p"
| "call_ok (Mkdir p) s = path_ok s p"
| "call_ok (Opendir p) s = path_ok s p"
| "call_ok (Readdir d) s = dir_fits d"
| "call_ok (Chdir p) s = (\<exists>cs. resolves (working_directory s) p cs \<and> length (abs_path cs) < DFS_PATH_MAX)"
| "call_ok (Mount dev p ty rw) s = path_ok s p"
| "call_ok (Unmount p) s = path_ok s p"
| "call_ok _ s = True"

inductive dfs_reach :: "'w dfs_env \<Rightarrow> 'w dfs \<Rightarrow> bool" for env where
  start: "dfs_reach env (dfs_init reg ms w)"
| step: "dfs_reach env s \<Longrightarrow> call_ok c s \<Longrightarrow> run_call env c s = Inr (r, s') \<Longrightarrow> dfs_reach env s'"

section \<open>The invariant\<close>

text \<open>What a call does to the map from numbers to files.\<close>

fun call_effect :: "file_call \<Rightarrow> int \<Rightarrow> 'w dfs \<Rightarrow> 'w dfs \<Rightarrow> bool" where
  "call_effect (Open p fl) r s s' = opens s r s'"
| "call_effect (Opendir p) r s s' = opens s r s'"
| "call_effect (Close fd) r s s' = (if r = 0 then fd_at s fd \<noteq> None \<and> fd_effect s s' ((fd_at s)(fd := None)) else r = - 1 \<and> uses fd s s')"
| "call_effect (Closedir d) r s s' =
     (if fd_at s (dir_fd d) = None then r = - 1 \<and> uses (dir_fd d) s s' else fd_effect s s' ((fd_at s)(dir_fd d := None)))"
| "call_effect (Read fd n) r s s' = uses fd s s'"
| "call_effect (Write fd bs) r s s' = uses fd s s'"
| "call_effect (Lseek fd off w) r s s' = uses fd s s'"
| "call_effect (Fstat fd) r s s' = uses fd s s'"
| "call_effect (Fsync fd) r s s' = uses fd s s'"
| "call_effect (Fcntl fd cmd args) r s s' = uses fd s s'"
| "call_effect (Ftruncate fd len) r s s' = uses fd s s'"
| "call_effect (Readdir d) r s s' = uses (dir_fd d) s s'"
| "call_effect (Telldir d) r s s' = uses (dir_fd d) s s'"
| "call_effect (Seekdir d off) r s s' = uses (dir_fd d) s s'"
| "call_effect _ r s s' = keeps s s'"

lemma quiet_keeps: "dfs_inv s \<Longrightarrow> quiet s x \<Longrightarrow> \<exists>r s'. x = Inr (r, s') \<and> keeps s s'"
  using keeps_same by (auto simp: quiet_def)

lemma keeps_errno: "keeps s s1 \<Longrightarrow> keeps s (set_errno e s1)"
  using inv_same[of s1 "set_errno e s1"] fd_at_same[of s1 "set_errno e s1"] by (simp add: keeps_def)

lemma keeps_to_errno: "keeps s (snd x) \<Longrightarrow> keeps s (snd (to_errno x))"
  using keeps_errno by (auto simp: to_errno_def)

lemma errno_keeps:
  assumes "dfs_inv s" and "quiet s x"
  shows "\<exists>r s'. bind_res x (\<lambda>x. Inr (if fst x < 0 then to_errno x else (0, snd x))) = Inr (r, s') \<and> keeps s s'"
proof -
  obtain r s' where "x = Inr (r, s')" "keeps s s'" using quiet_keeps[OF assms] by blast
  then show ?thesis using keeps_errno by (auto simp: to_errno_def)
qed

lemma keeps_on_fs: "dfs_inv s \<Longrightarrow> keeps s (snd (on_fs f s))"
  using keeps_same[of s] on_fs_same[of f s] by (cases "on_fs f s") simp

lemma keeps_register: "dfs_inv s \<Longrightarrow> keeps s (snd (dfs_register env k s))"
  using fd_at_fds[of "snd (dfs_register env k s)" s]
  by (auto simp: keeps_def dfs_register_def Let_def dfs_inv_def fds_ok_def tables_ok_def wd_ok_def mounts_ok_def set_errno_def
      split: option.splits)

lemma keeps_refl: "dfs_inv s \<Longrightarrow> keeps s s"
  by (simp add: keeps_def)

lemma keeps_mkfs: "dfs_inv s \<Longrightarrow> keeps s (snd (dfs_mkfs env ty dev s))"
  using keeps_errno[OF keeps_refl] keeps_refl keeps_on_fs by (auto simp: dfs_mkfs_def split: option.splits)

lemma keeps_statfs: "dfs_inv s \<Longrightarrow> keeps s (snd (dfs_statfs env p s))"
  using keeps_refl keeps_on_fs by (auto simp: dfs_statfs_def Let_def split: option.splits)

lemma call_step:
  assumes "dfs_inv s" and "getdents_fits env" and "call_ok c s"
  shows "\<exists>r s'. run_call env c s = Inr (r, s') \<and> call_effect c r s s'"
proof -
  have ok: "fds_ok s" "tables_ok s" using assms(1) by (simp_all add: dfs_inv_def)
  show ?thesis
  proof (cases c)
    case (Open p fl)
    then show ?thesis using posix_open_ok[OF ok] assms(3) by (auto simp: path_ok_def)
  next
    case (Close fd)
    then show ?thesis using posix_close_ok[OF ok(1), of env fd] by auto
  next
    case (Read fd n)
    then show ?thesis using read_ok[OF ok(1), of env fd n] by (auto simp: drop2_def)
  next
    case (Write fd bs)
    then show ?thesis using write_ok[OF ok(1), of env fd bs] by auto
  next
    case (Lseek fd off w)
    then show ?thesis using lseek_ok[OF ok(1), of fd off w env] assms(3) by auto
  next
    case (Fstat fd)
    then show ?thesis using fstat_ok[OF ok(1), of fd] by (auto simp: drop2_def)
  next
    case (Fsync fd)
    then show ?thesis using fsync_ok[OF ok(1), of env fd] by auto
  next
    case (Fcntl fd cmd args)
    then show ?thesis using fcntl_ok[OF ok(1), of env fd cmd args] by auto
  next
    case (Ftruncate fd len)
    then show ?thesis using ftruncate_ok[OF ok(1), of env fd len] by auto
  next
    case (Rename p q)
    then obtain cs ds where "quiet s (dfs_file_rename env p q s)" using rename_ok[OF ok(2)] assms(3) by (auto simp: path_ok_def)
    then show ?thesis using Rename errno_keeps[OF assms(1)] by (simp add: posix_rename_def)
  next
    case (Unlink p)
    then have "quiet s (dfs_file_unlink env p s)" using unlink_ok[OF ok(2)] assms(3) by (auto simp: path_ok_def)
    then show ?thesis using Unlink errno_keeps[OF assms(1)] by (simp add: posix_unlink_def)
  next
    case (Stat p b)
    then obtain r b' s' where "dfs_file_stat env p b s = Inr (r, b', s')" "same_tables s s'"
      using stat_ok[OF ok(2)] assms(3) by (fastforce simp: path_ok_def)
    then show ?thesis using Stat keeps_same[OF assms(1)] keeps_errno by (auto simp: posix_stat_def drop2_def)
  next
    case (Statfs p)
    then show ?thesis using keeps_to_errno[OF keeps_statfs[OF assms(1)], of env p]
      by (cases "posix_statfs env p s") (auto simp: posix_statfs_def)
  next
    case (Mkdir p)
    then obtain r s' where "mkdir env p s = Inr (r, s')" "fd_effect s s' (fd_at s)"
      using mkdir_ok[OF ok] assms(3) by (fastforce simp: path_ok_def)
    then show ?thesis using Mkdir inv_effect[OF assms(1)] by (auto simp: keeps_def fd_effect_def)
  next
    case (Opendir p)
    then obtain d s' where "opendir env p s = Inr (d, s')" "opens s (case d of None \<Rightarrow> - 1 | Some d \<Rightarrow> dir_fd d) s'"
      using opendir_ok[OF ok, of p _ env] assms(3) by (fastforce simp: path_ok_def)
    then show ?thesis using Opendir by simp
  next
    case (Readdir d)
    then show ?thesis using readdir_ok[OF ok(1) assms(2), of d] assms(3) by (auto simp: drop2_def numbered_def)
  next
    case (Telldir d)
    then show ?thesis using telldir_ok[OF ok(1), of d] by auto
  next
    case (Seekdir d off)
    then show ?thesis using seekdir_ok[OF ok(1), of env d off] by (auto simp: numbered_def)
  next
    case (Closedir d)
    then show ?thesis using closedir_ok[OF ok(1), of env d] by auto
  next
    case (Chdir p)
    then show ?thesis using chdir_ok[OF assms(1)] assms(3) by fastforce
  next
    case (Mount dev p ty rw)
    then show ?thesis using mount_ok[OF assms(1)] assms(3) by (fastforce simp: path_ok_def)
  next
    case (Unmount p)
    then show ?thesis using unmount_ok[OF assms(1)] assms(3) by (fastforce simp: path_ok_def)
  next
    case (Mkfs ty dev)
    then show ?thesis using keeps_mkfs[OF assms(1), of env ty dev] by (cases "dfs_mkfs env ty dev s") auto
  next
    case (Register k)
    then show ?thesis using keeps_register[OF assms(1), of env k] by (cases "dfs_register env k s") auto
  qed
qed

lemma effect_inv: "dfs_inv s \<Longrightarrow> call_effect c r s s' \<Longrightarrow> dfs_inv s'"
  by (cases c) (auto simp: keeps_def intro: inv_opens inv_uses inv_effect split: if_splits)

lemma init_inv: "dfs_inv (dfs_init reg ms w)"
proof -
  have "proper_names []" "abs_path [] = ''/''" by (simp_all add: proper_names_def abs_path_def)
  then have "\<exists>ws. ''/'' = abs_path ws \<and> proper_names ws" by metis
  then show ?thesis
    by (simp add: dfs_inv_def dfs_init_def fds_ok_def tables_ok_def wd_ok_def mounts_ok_def)
qed

lemma reach_inv: "dfs_reach env s \<Longrightarrow> getdents_fits env \<Longrightarrow> dfs_inv s"
proof (induction rule: dfs_reach.induct)
  case (step s c r s')
  then show ?case using call_step[of s env c] effect_inv by fastforce
qed (rule init_inv)

text \<open>C16. In every state that sequences of calls within \<open>call_ok\<close> can reach, a further call within \<open>call_ok\<close> leaves no
  array, follows no null pointer, uses no descriptor after it was freed and fails no assertion, provided the
  drivers keep to the room they get for directory entries. \<open>call_ok\<close> asks of the caller: the walk over a path does not
  climb above the root; the new working directory, joined and normalised, is shorter than 256 characters; one
  of the names of a rename is below a mount point; the sum of a seek from the current position fits its type; and a
  directory stream still has the header of an entry in its buffer, or none is left. The code checks none of these.\<close>

lemma file_calls_never_fault:
  assumes "dfs_reach env s" and "getdents_fits env" and "call_ok c s"
  shows "\<exists>r s'. run_call env c s = Inr (r, s') \<and> dfs_reach env s'"
proof -
  obtain r s' where "run_call env c s = Inr (r, s')" using call_step[OF reach_inv[OF assms(1,2)] assms(2,3)] by blast
  then show ?thesis using dfs_reach.step[OF assms(1,3)] by blast
qed

section \<open>Types\<close>

definition normal_path :: "string \<Rightarrow> bool" where
  "normal_path p \<longleftrightarrow> (\<exists>cs. p = abs_path cs \<and> proper_names cs)"

definition mount_typed :: "dfs_filesystem \<Rightarrow> bool" where
  "mount_typed e \<longleftrightarrow> (case (mpath e, mops e) of (None, None) \<Rightarrow> True | (Some p, Some _) \<Rightarrow> normal_path p | _ \<Rightarrow> False)"

definition well_typed :: "'w dfs \<Rightarrow> bool" where
  "well_typed s \<longleftrightarrow>
     length (filesystem_operation_table s) = DFS_FILESYSTEM_TYPES_MAX \<and>
     length (filesystem_table s) = DFS_FILESYSTEMS_MAX \<and> (\<forall>e \<in> set (filesystem_table s). mount_typed e) \<and>
     length (fds s) \<le> DFS_FD_MAX \<and> (\<forall>d. Some d \<in> set (fds s) \<longrightarrow> fd_open d) \<and>
     normal_path (working_directory s) \<and> length (working_directory s) < DFS_PATH_MAX"

text \<open>C20. The state keeps types that C does not express: the tables have their sizes, the array of
  descriptors at most its limit; a mount entry has a path exactly if it has operations, and the path is
  absolute and normalised; so is the working directory, with room for its end mark; and every entry of the
  descriptor array is null or an open file with its mark, its operations and exactly one reference: no
  call keeps a reference or gives one back twice, on any of its paths.\<close>

lemma state_well_typed:
  assumes "dfs_reach env s" and "getdents_fits env"
  shows "well_typed s"
proof -
  have i: "fds_ok s" "wd_ok s" "mounts_ok s" "length (filesystem_operation_table s) = DFS_FILESYSTEM_TYPES_MAX"
    using reach_inv[OF assms] by (auto simp: dfs_inv_def tables_ok_def)
  have "mount_typed e" if e: "e \<in> set (filesystem_table s)" for e
  proof -
    consider "e = empty_fs" | t ms where "mops e = Some t" "mpath e = Some (abs_path ms)" "proper_names ms"
      using i(3) e unfolding mounts_ok_def by blast
    then show ?thesis by cases (auto simp: mount_typed_def normal_path_def empty_fs_def)
  qed
  then show ?thesis using i by (auto simp: well_typed_def wd_ok_def mounts_ok_def normal_path_def fds_ok_def)
qed

text \<open>The abstract table: a map from numbers to files, and what a call may do to it.\<close>

definition map_open :: "int \<Rightarrow> (int \<Rightarrow> dfs_fd option) \<Rightarrow> (int \<Rightarrow> dfs_fd option) \<Rightarrow> bool" where
  "map_open r m m' \<longleftrightarrow> (if r = - 1 then m' = m else next_fd m r \<and> (\<exists>d. m' = m(r \<mapsto> d)))"

definition map_use :: "int \<Rightarrow> (int \<Rightarrow> dfs_fd option) \<Rightarrow> (int \<Rightarrow> dfs_fd option) \<Rightarrow> bool" where
  "map_use fd m m' \<longleftrightarrow> dom m' = dom m \<and> m' |` (- {fd}) = m |` (- {fd})"

fun map_step :: "file_call \<Rightarrow> int \<Rightarrow> (int \<Rightarrow> dfs_fd option) \<Rightarrow> (int \<Rightarrow> dfs_fd option) \<Rightarrow> bool" where
  "map_step (Open p fl) r m m' = map_open r m m'"
| "map_step (Opendir p) r m m' = map_open r m m'"
| "map_step (Close fd) r m m' = (if r = 0 then m fd \<noteq> None \<and> m' = m(fd := None) else r = - 1 \<and> map_use fd m m')"
| "map_step (Closedir d) r m m' = (m' = m(dir_fd d := None))"
| "map_step (Read fd n) r m m' = map_use fd m m'"
| "map_step (Write fd bs) r m m' = map_use fd m m'"
| "map_step (Lseek fd off w) r m m' = map_use fd m m'"
| "map_step (Fstat fd) r m m' = map_use fd m m'"
| "map_step (Fsync fd) r m m' = map_use fd m m'"
| "map_step (Fcntl fd cmd args) r m m' = map_use fd m m'"
| "map_step (Ftruncate fd len) r m m' = map_use fd m m'"
| "map_step (Readdir d) r m m' = map_use (dir_fd d) m m'"
| "map_step (Telldir d) r m m' = map_use (dir_fd d) m m'"
| "map_step (Seekdir d off) r m m' = map_use (dir_fd d) m m'"
| "map_step _ r m m' = (m' = m)"

lemma uses_map: "uses fd s s' \<Longrightarrow> map_use fd (fd_at s) (fd_at s')"
proof (cases "fd_at s fd")
  case (Some d)
  moreover assume "uses fd s s'"
  ultimately obtain e where "fd_at s' = (fd_at s)(fd \<mapsto> e)" by (auto simp: uses_def fd_effect_def)
  then show ?thesis using Some by (auto simp: map_use_def)
qed (simp add: uses_def map_use_def fd_at_same[OF same_tables_errno])

lemma opens_map: "opens s r s' \<Longrightarrow> map_open r (fd_at s) (fd_at s')"
  by (auto simp: opens_def fd_effect_def map_open_def)

text \<open>C17. The descriptor table with its growth and its reference counts implements a map from numbers
  to open files: opening gives the lowest free number from three on, closing frees it, every other
  call on a number changes at most that file, and all calls on names leave the map alone.\<close>

lemma descriptors_refine_map:
  assumes "dfs_reach env s" and "getdents_fits env" and "call_ok c s" and "run_call env c s = Inr (r, s')"
  shows "map_step c r (fd_at s) (fd_at s')"
proof -
  have e: "call_effect c r s s'" using call_step[OF reach_inv[OF assms(1,2)] assms(2,3)] assms(4) by auto
  show ?thesis
  proof (cases c)
    case (Close fd)
    then show ?thesis using e uses_map[of fd s s'] by (auto simp: fd_effect_def split: if_splits)
  next
    case (Closedir d)
    then show ?thesis using e
      by (auto simp: fd_effect_def uses_def fun_upd_idem fd_at_same[OF same_tables_errno] split: if_splits)
  qed (use e in \<open>simp_all add: keeps_def uses_map opens_map\<close>)
qed

section \<open>An example\<close>

text \<open>
  A file system whose calls always succeed, mounted at the root, with one open file: a state in
  which the hypotheses of the properties hold.
\<close>

definition ram_files :: "unit dfs_file_ops" where
  "ram_files = \<lparr>f_open = Some (\<lambda>d w. (0, fio d, w)), f_close = None, f_ioctl = None, f_read = None,
     f_write = Some (\<lambda>d bs w. (int (length bs), fio d, w)), f_flush = None, f_lseek = None, f_getdents = None\<rparr>"

definition ram_env :: "unit dfs_env" where
  "ram_env = \<lparr>ops_at = \<lambda>_. \<lparr>op_name = ''ram'', op_flags = 0, op_fops = ram_files,
       op_mount = Some (\<lambda>e rw w. (0, mdata e, w)), op_unmount = None, op_mkfs = None, op_statfs = None,
       op_unlink = Some (\<lambda>e p w. (0, w)), op_stat = None, op_rename = None\<rparr>,
     dev_open = \<lambda>_ w. (0, w), dev_close = \<lambda>_ w. w, stack_fd = zero_fd\<rparr>"

definition ram_file :: dfs_fd where
  "ram_file = \<lparr>magic = DFS_FD_MAGIC, fpath = Some ''/a'', fd_refs = 1, ffs = Some 0, fops = Some 0,
     fflags = DFS_F_OPEN, fio = zero_io\<lparr>fdata := Of_Fs 0\<rparr>\<rparr>"

definition ram_mounted :: "unit dfs" where
  "ram_mounted = (dfs_init [] [] ())\<lparr>filesystem_operation_table := [Some 0, None, None, None],
     filesystem_table := [\<lparr>dev_id = None, mpath = Some ''/'', mops = Some 0, mdata = Null_Data\<rparr>, empty_fs, empty_fs, empty_fs]\<rparr>"

definition ram_state :: "unit dfs" where
  "ram_state = ram_mounted\<lparr>fds := [Some ram_file, None, None, None]\<rparr>"

lemma ram_resolves: "resolves ''/'' ''/a'' [''a'']" "resolves ''/'' ''/'' []"
  by code_simp+

lemma ram_calls:
  "run_call ram_env (Register 0) (dfs_init [] [] ()) =
     Inr (0, (dfs_init [] [] ())\<lparr>filesystem_operation_table := [Some 0, None, None, None]\<rparr>)"
  "run_call ram_env (Mount None ''/'' ''ram'' 0) ((dfs_init [] [] ())\<lparr>filesystem_operation_table := [Some 0, None, None, None]\<rparr>) =
     Inr (0, ram_mounted)"
  "run_call ram_env (Open ''/a'' 0) ram_mounted = Inr (3, ram_state)"
  "run_call ram_env (Close 3) ram_state = Inr (0, ram_mounted\<lparr>fds := [None, None, None, None]\<rparr>)"
  by code_simp+

lemma ram_fits: "getdents_fits ram_env"
  by (simp add: getdents_fits_def ram_env_def ram_files_def)

lemma ram_reach: "dfs_reach ram_env ram_state"
proof -
  have p: "path_ok (dfs_init [] [] ()) ''/''" "path_ok ram_mounted ''/a''"
    using ram_resolves by (auto simp: path_ok_def ram_mounted_def dfs_init_def)
  have "dfs_reach ram_env ((dfs_init [] [] ())\<lparr>filesystem_operation_table := [Some 0, None, None, None]\<rparr>)"
    by (rule dfs_reach.step[OF dfs_reach.start _ ram_calls(1)]) simp
  then have "dfs_reach ram_env ram_mounted"
    by (rule dfs_reach.step[OF _ _ ram_calls(2)]) (use p in \<open>simp add: path_ok_def\<close>)
  then show ?thesis by (rule dfs_reach.step[OF _ _ ram_calls(3)]) (use p in simp)
qed

lemma file_calls_never_fault_witness:
  "\<exists>r s'. run_call ram_env (Write 3 [7]) ram_state = Inr (r, s') \<and> dfs_reach ram_env s'"
  by (rule file_calls_never_fault[OF ram_reach ram_fits]) simp

lemma descriptors_refine_map_witness:
  "map_step (Close 3) 0 (fd_at ram_state) (fd_at (ram_mounted\<lparr>fds := [None, None, None, None]\<rparr>))"
  by (rule descriptors_refine_map[OF ram_reach ram_fits _ ram_calls(4)]) simp

lemma state_well_typed_witness: "well_typed ram_state"
  by (rule state_well_typed[OF ram_reach ram_fits])

end
