(* ===== verification/Dfs_Open.thy ===== *)
theory Dfs_Open
  imports Dfs_Props
begin

text \<open>
  What an open file is, and what follows: with memory and a free number, opening succeeds as soon as
  the driver does, the descriptor stands for the path below the mount point, and as long as it is
  open the file cannot be removed.
\<close>

section \<open>A successful open\<close>

lemma alloc_mem_free: "mem s = [] \<Longrightarrow> alloc_mem s = (True, s)"
  by (simp add: alloc_mem_def)

lemma fd_new_free:
  assumes "fds_ok s" and "mem s = []" and "next_fd (fd_at s) fd" and "fd < 3 + int DFS_FD_MAX"
  shows "\<exists>s0 s1. fd_new s = Inr (fd, s1) \<and> grown s s0 \<and> lowest_free (nat (fd - 3)) s0 \<and>
    changes (nat (fd - 3)) (Some fresh_fd) s0 s1 \<and> world s1 = world s \<and> mem s1 = []"
proof -
  let ?i = "find_unused (fds s) 0"
  let ?g = "fd_grow ?i s"
  have g: "grown s ?g" "mem ?g = []" "world ?g = world s"
    using fd_grow_grown[OF assms(1)] assms(2) by (auto simp: fd_grow_def alloc_mem_free Let_def)
  have i: "?i < length (fds ?g)"
  proof (rule ccontr)
    assume n: "\<not> ?i < length (fds ?g)"
    then have "\<not> ?i < length (fds s)" using g(1) by (auto simp: grown_def)
    then have a: "?i = length (fds s)" "\<forall>j < length (fds s). (fds s) ! j \<noteq> None" using find_unused_spec[OF assms(1)] by auto
    then have "\<not> length (fds s) < DFS_FD_MAX" using n assms(2) by (auto simp: fd_grow_def alloc_mem_free Let_def)
    then have "nat (fd - 3) < length (fds s)" "3 \<le> fd" using assms(3,4) by (auto simp: next_fd_def)
    then show False using a(2) assms(3) by (auto simp: next_fd_def fd_at_def split: if_splits)
  qed
  then have l: "lowest_free ?i ?g" using fd_grow_lowest[OF assms(1)] by simp
  then have n: "(fds ?g) ! ?i = None" by (simp add: lowest_free_def)
  have fd: "fd = int ?i + 3"
  proof (rule linorder_cases[of fd "int ?i + 3"])
    assume "fd < int ?i + 3"
    then have "nat (fd - 3) < ?i" "3 \<le> fd" using assms(3) by (auto simp: next_fd_def)
    then have "(fds ?g) ! nat (fd - 3) \<noteq> None" "nat (fd - 3) < length (fds ?g)" using l i by (auto simp: lowest_free_def)
    then have "fd_at ?g fd \<noteq> None" using \<open>3 \<le> fd\<close> by (auto simp: fd_at_def)
    then show ?thesis using grown_fd_at[OF g(1)] assms(3) by (simp add: next_fd_def)
  next
    assume "int ?i + 3 < fd"
    then have "fd_at s (int ?i + 3) \<noteq> None" using assms(3) by (auto simp: next_fd_def)
    moreover have "fd_at ?g (int ?i + 3) = None" using n by (simp add: fd_at_def)
    ultimately show ?thesis using grown_fd_at[OF g(1)] by simp
  qed
  let ?s1 = "set_fd ?i (Some fresh_fd) ?g"
  have "fd_new s = Inr (fd, ?s1)"
    using i n fd g(2) by (simp add: fd_new_def fd_alloc_def Let_def alloc_mem_free fresh_fd_def set_fd_def)
  moreover have "changes ?i (Some fresh_fd) ?g ?s1" using changes_set_fd[OF i] .
  ultimately show ?thesis using g l fd by (auto simp: set_fd_def)
qed

lemma normalize_free:
  assumes "wd_ok s" and "resolves (working_directory s) p cs" and "mem s = []"
  shows "normalize None p s = Inr (Some (abs_path cs), s)"
proof -
  obtain ws where ws: "working_directory s = abs_path ws" "proper_names ws" "length (working_directory s) < DFS_PATH_MAX"
    using assms(1) by (auto simp: wd_ok_def)
  have "dfs_normalize_path True (working_directory s) None p = Inr (Some (abs_path cs))"
    using normalize_equiv[of "working_directory s" None p] resolves_proper(2)[OF assms(1,2)] ws
      abs_path_nul[OF proper_clean] assms(2) by (simp add: resolves_def)
  then show ?thesis using ws(3) assms(3) by (simp add: normalize_def alloc_mem_free)
qed

text \<open>The file system that a path leads to, and the path below its mount point.\<close>

definition leads_to :: "'w dfs_env \<Rightarrow> 'w dfs \<Rightarrow> string \<Rightarrow> nat \<Rightarrow> nat \<Rightarrow> string \<Rightarrow> bool" where
  "leads_to env s p k t q \<longleftrightarrow> (\<exists>cs. resolves (working_directory s) p cs \<and> dfs_filesystem_lookup (abs_path cs) s = Some k \<and>
     mops (filesystem_table s ! k) = Some t \<and> path_below env (filesystem_table s ! k) (abs_path cs) = Inr q)"

lemma leads_to_rest: "rest_same s s' \<Longrightarrow> leads_to env s' p k t q = leads_to env s p k t q"
  by (simp add: leads_to_def rest_same_def dfs_filesystem_lookup_def)

definition asked :: "string \<Rightarrow> u32 \<Rightarrow> dfs_fd \<Rightarrow> bool" where
  "asked q fl d \<longleftrightarrow> fpath d = Some q \<and> fflags d = fl"

lemma file_open_free:
  assumes "tables_ok s" and "mem s = []" and "leads_to env s p k t q"
    and "f_open (op_fops (ops_at env t)) = Some f" and "\<And>d w. asked q fl d \<Longrightarrow> 0 \<le> fst (f d w)"
  shows "\<exists>d0 d1. asked q fl d0 \<and>
    dfs_file_open env (Some d) p fl s = Inr (0, Some d1, s\<lparr>world := snd (snd (f d0 (world s)))\<rparr>) \<and>
    same_head d d1 \<and> fpath d1 = Some q \<and> fops d1 = Some t \<and> ffs d1 = Some k \<and>
    (fl AND O_DIRECTORY = 0 \<longrightarrow> fio d1 = fst (snd (f d0 (world s))))"
proof -
  obtain cs where cs: "resolves (working_directory s) p cs" "dfs_filesystem_lookup (abs_path cs) s = Some k"
    "mops (filesystem_table s ! k) = Some t" "path_below env (filesystem_table s ! k) (abs_path cs) = Inr q"
    using assms(3) by (auto simp: leads_to_def)
  let ?d = "d\<lparr>ffs := Some k, fops := Some t, fflags := fl,
    fio := \<lparr>ftype = FT_REGULAR, fsize = 0, fpos = 0, fdata = Of_Fs k\<rparr>, fpath := Some q\<rparr>"
  have a: "asked q fl ?d" by (simp add: asked_def)
  obtain r io w where r: "f ?d (world s) = (r, io, w)" by (cases "f ?d (world s)") auto
  then have "0 \<le> r" using assms(5)[OF a, of "world s"] by simp
  moreover have "normalize None p s = Inr (Some (abs_path cs), s)"
    using normalize_free[OF _ cs(1) assms(2)] assms(1) by (simp add: tables_ok_def)
  ultimately have "dfs_file_open env (Some d) p fl s = Inr (0, Some (opened fl (?d\<lparr>fio := io\<rparr>)), s\<lparr>world := w\<rparr>)"
    using cs(2-4) assms(2,4) r
    by (simp add: dfs_file_open_def open_in_def file_path_def alloc_mem_free drive_def)
  moreover have "same_head d (opened fl (?d\<lparr>fio := io\<rparr>))" "fpath (opened fl (?d\<lparr>fio := io\<rparr>)) = Some q"
    "fops (opened fl (?d\<lparr>fio := io\<rparr>)) = Some t" "ffs (opened fl (?d\<lparr>fio := io\<rparr>)) = Some k"
    by (simp_all add: same_head_def opened_def)
  moreover have "w = snd (snd (f ?d (world s)))"
    "fl AND O_DIRECTORY = 0 \<longrightarrow> fio (opened fl (?d\<lparr>fio := io\<rparr>)) = fst (snd (f ?d (world s)))"
    using r by (simp_all add: opened_def)
  ultimately show ?thesis using a by blast
qed

lemma posix_open_free:
  assumes "dfs_inv s" and "mem s = []" and "leads_to env s p k t q" and "next_fd (fd_at s) fd" and "fd < 3 + int DFS_FD_MAX"
    and "f_open (op_fops (ops_at env t)) = Some f" and "\<And>d w. asked q fl d \<Longrightarrow> 0 \<le> fst (f d w)"
  shows "\<exists>d0 d1 s'. asked q fl d0 \<and> posix_open env p fl s = Inr (fd, s') \<and> fd_effect s s' ((fd_at s)(fd \<mapsto> d1)) \<and>
    world s' = snd (snd (f d0 (world s))) \<and> mem s' = [] \<and> fpath d1 = Some q \<and> fops d1 = Some t \<and> ffs d1 = Some k \<and>
    (fl AND O_DIRECTORY = 0 \<longrightarrow> fio d1 = fst (snd (f d0 (world s))))"
proof -
  let ?i = "nat (fd - 3)"
  have ok: "fds_ok s" "tables_ok s" using assms(1) by (simp_all add: dfs_inv_def)
  have fd: "fd = int ?i + 3" using assms(4) by (simp add: next_fd_def)
  obtain s0 s1 where n: "fd_new s = Inr (fd, s1)" "grown s s0" "lowest_free ?i s0" "changes ?i (Some fresh_fd) s0 s1"
    "world s1 = world s" "mem s1 = []" using fd_new_free[OF ok(1) assms(2,4,5)] by blast
  obtain p' s2 where g: "fd_get (int ?i + 3) s1 = (p', s2)" by fastforce
  then have p': "p' = Some ?i" "changes ?i (Some (fresh_fd\<lparr>fd_refs := 2\<rparr>)) s0 s2" using get_fresh[OF n(4)] by auto
  have s2: "world s2 = world s" "mem s2 = []" using g n(5,6) by (auto simp: fd_get_def Let_def set_fd_def split: if_splits option.splits)
  have rs: "rest_same s s2" using rest_same_trans rest_same_I(2)[OF p'(2)] rest_same_I(3)[OF n(2)] by blast
  then have t2: "tables_ok s2" "leads_to env s2 p k t q" using tables_ok_rest ok(2) leads_to_rest assms(3) by blast+
  obtain d0 d1 where d: "asked q fl d0" "dfs_file_open env (Some (fresh_fd\<lparr>fd_refs := 2\<rparr>)) p fl s2 =
      Inr (0, Some d1, s2\<lparr>world := snd (snd (f d0 (world s)))\<rparr>)" "same_head (fresh_fd\<lparr>fd_refs := 2\<rparr>) d1"
    "fpath d1 = Some q" "fops d1 = Some t" "ffs d1 = Some k" "fl AND O_DIRECTORY = 0 \<longrightarrow> fio d1 = fst (snd (f d0 (world s)))"
    using file_open_free[OF t2(1) s2(2) t2(2) assms(6,7), where d = "fresh_fd\<lparr>fd_refs := 2\<rparr>" and fl = fl] s2(1) by auto
  let ?s3 = "set_fd ?i (Some d1) (s2\<lparr>world := snd (snd (f d0 (world s)))\<rparr>)"
  have w: "with_fd (Some ?i) (\<lambda>d. dfs_file_open env d p fl) s2 = Inr (0, ?s3)"
    using changes_deref[OF p'(2)] d(2) by (simp add: with_fd_def)
  have c3: "changes ?i (Some d1) s0 ?s3" using p'(2) by (simp add: changes_def set_fd_def)
  have refs: "fd_refs d1 = 2" "magic d1 = DFS_FD_MAGIC" using d(3) by (simp_all add: same_head_def fresh_fd_def)
  let ?s4 = "set_fd ?i (Some (d1\<lparr>fd_refs := 1\<rparr>)) ?s3"
  have p4: "fd_put (Some ?i) ?s3 = Inr ?s4" using changes_deref[OF c3] refs by (simp add: fd_put_def Let_def)
  have c4: "changes ?i (Some (d1\<lparr>fd_refs := 1\<rparr>)) s0 ?s4" using c3 by (simp add: changes_def set_fd_def)
  have "posix_open env p fl s = Inr (fd, ?s4)"
    using n(1) g p'(1) w p4 fd assms(4) by (simp add: posix_open_def next_fd_def)
  moreover have "fd_effect s ?s4 ((fd_at s)(fd \<mapsto> d1\<lparr>fd_refs := 1\<rparr>))"
  proof -
    have "rest_same s ?s4" using rest_same_trans rest_same_I(2)[OF c4] rest_same_I(3)[OF n(2)] by blast
    moreover have "fds_ok ?s4" using changes_ok[OF c4 grown_ok[OF n(2) ok(1)]] refs d(5) by (simp add: fd_open_def)
    ultimately show ?thesis using changes_fd_at[OF c4] grown_fd_at[OF n(2)] fd by (simp add: fd_effect_def)
  qed
  moreover have "world ?s4 = snd (snd (f d0 (world s)))" "mem ?s4 = []" using s2(2) by (simp_all add: set_fd_def)
  ultimately show ?thesis using d(1,4-7) by (intro exI[of _ d0] exI[of _ "d1\<lparr>fd_refs := 1\<rparr>"]) auto
qed

section \<open>Writing and closing\<close>

text \<open>The driver gets the descriptor with the reference of the call.\<close>

definition for_file :: "string \<Rightarrow> nat \<Rightarrow> dfs_fd \<Rightarrow> bool" where
  "for_file q t d \<longleftrightarrow> fpath d = Some q \<and> fops d = Some t"

lemma posix_write_free:
  assumes "fds_ok s" and "fd_at s fd = Some d" and "fops d = Some t" and "f_write (op_fops (ops_at env t)) = Some f"
    and "f (d\<lparr>fd_refs := 2\<rparr>) bs (world s) = (r, io, w)" and "0 \<le> r"
  shows "\<exists>s'. posix_write env fd bs s = Inr (r, s') \<and> fd_effect s s' ((fd_at s)(fd \<mapsto> d\<lparr>fio := io\<rparr>)) \<and>
    world s' = w \<and> mem s' = mem s"
proof -
  let ?i = "nat (fd - 3)" and ?d = "d\<lparr>fd_refs := 2\<rparr>"
  note g = fd_get_Some[OF assms(1,2)]
  let ?s1 = "set_fd ?i (Some ?d) s" and ?d1 = "d\<lparr>fd_refs := 2, fio := io\<rparr>"
  let ?s2 = "set_fd ?i (Some ?d1) (s\<lparr>world := w\<rparr>)"
  let ?s3 = "set_fd ?i (Some (d\<lparr>fio := io\<rparr>)) ?s2"
  have fd: "int ?i + 3 = fd" using assms(2) by (auto simp: fd_at_def split: if_splits)
  have "with_fd (Some ?i) (\<lambda>d. dfs_file_write env d bs) ?s1 = Inr (r, ?s2)"
    using changes_deref[OF changes_set_fd[OF g(2)]] assms(3-5)
    by (simp add: with_fd_def dfs_file_write_def fd_ops_def drive_def) (simp add: set_fd_def)
  moreover have c2: "changes ?i (Some ?d1) s ?s2" using g(2) by (simp add: changes_def set_fd_def)
  have "d\<lparr>fio := io, fd_refs := 1\<rparr> = d\<lparr>fio := io\<rparr>" using g(3) by (cases d) (simp add: fd_open_def)
  then have "fd_put (Some ?i) ?s2 = Inr ?s3" using changes_deref[OF c2] by (simp add: fd_put_def Let_def)
  ultimately have "posix_write env fd bs s = Inr (r, ?s3)"
    using g(1) assms(6) by (simp add: posix_write_def call_fd_def)
  moreover have c3: "changes ?i (Some (d\<lparr>fio := io\<rparr>)) s ?s3" using g(2) by (simp add: changes_def set_fd_def)
  have "fd_open (d\<lparr>fio := io\<rparr>)" using g(3) by (simp add: fd_open_def)
  then have "fd_effect s ?s3 ((fd_at s)(fd \<mapsto> d\<lparr>fio := io\<rparr>))"
    using changes_fd_at[OF c3] changes_ok[OF c3 assms(1)] rest_same_I(2)[OF c3] fd by (simp add: fd_effect_def)
  ultimately show ?thesis by (auto simp: set_fd_def)
qed

lemma posix_close_free:
  assumes "fds_ok s" and "fd_at s fd = Some d" and "for_file q t d"
    and "\<And>d f. for_file q t d \<Longrightarrow> f_close (op_fops (ops_at env t)) = Some f \<Longrightarrow> 0 \<le> fst (f d (world s)) \<and> P (snd (snd (f d (world s))))"
    and "P (world s)"
  shows "\<exists>s'. posix_close env fd s = Inr (0, s') \<and> fd_effect s s' ((fd_at s)(fd := None)) \<and> P (world s')"
proof -
  let ?i = "nat (fd - 3)" and ?d = "d\<lparr>fd_refs := 2\<rparr>"
  note g = fd_get_Some[OF assms(1,2)]
  let ?s1 = "set_fd ?i (Some ?d) s"
  have t: "for_file q t ?d" using assms(3) by (simp add: for_file_def)
  have "\<exists>r d1 w. dfs_file_close env (Some ?d) ?s1 = Inr (r, Some d1, ?s1\<lparr>world := w\<rparr>) \<and> 0 \<le> r \<and> fd_refs d1 = 2 \<and> P w"
  proof (cases "f_close (op_fops (ops_at env t))")
    case None
    have "?s1 = ?s1\<lparr>world := world s\<rparr>" by (simp add: set_fd_def)
    then show ?thesis using t None assms(5) by (auto simp: dfs_file_close_def fd_ops_def for_file_def intro!: exI[of _ "world s"])
  next
    case (Some f)
    obtain r io w where f: "f ?d (world s) = (r, io, w)" by (cases "f ?d (world s)") auto
    then have "0 \<le> r" "P w" using assms(4)[OF t Some] by auto
    moreover have "world ?s1 = world s" by (simp add: set_fd_def)
    ultimately show ?thesis using t Some f by (auto simp: dfs_file_close_def fd_ops_def for_file_def drive_def)
  qed
  then obtain r d1 w where c: "dfs_file_close env (Some ?d) ?s1 = Inr (r, Some d1, ?s1\<lparr>world := w\<rparr>)" "0 \<le> r" "fd_refs d1 = 2" "P w"
    by blast
  let ?s2 = "set_fd ?i (Some d1) (s\<lparr>world := w\<rparr>)"
  have "with_fd (Some ?i) (dfs_file_close env) ?s1 = Inr (r, ?s2)"
    using changes_deref[OF changes_set_fd[OF g(2)]] c(1) by (simp add: with_fd_def) (simp add: set_fd_def)
  moreover have c2: "changes ?i (Some d1) s ?s2" using g(2) by (simp add: changes_def set_fd_def)
  then obtain s3 s4 where "fd_put (Some ?i) ?s2 = Inr s3" "fd_put (Some ?i) s3 = Inr s4" "changes ?i None s s4"
    using put_twice[OF c2 c(3)] by blast
  moreover from this have "world s4 = w" by (auto simp: fd_put_def bind_res_Inr_iff Let_def set_fd_def)
  moreover have "int ?i + 3 = fd" using assms(2) by (auto simp: fd_at_def split: if_splits)
  ultimately show ?thesis using g(1) c(2,4) effect_removed[OF assms(1)] by (simp add: posix_close_def)
qed

section \<open>Open files are not removed\<close>

lemma below_text:
  assumes "mpath e = Some (abs_path ms)" and "mops e = Some t" and "prefix ms cs" and "proper_names cs"
    and "op_flags (ops_at env t) AND DFS_FS_FLAG_FULLPATH = 0" and "path_below env e (abs_path cs) = Inr q"
    and "q \<noteq> ''/'' \<or> abs_path ms = ''/''"
  shows "q = (if abs_path ms = ''/'' then abs_path cs else drop (length (abs_path ms)) (abs_path cs))"
proof (cases "ms = []")
  case True
  then have m: "abs_path ms = ''/''" by (simp add: abs_path_def)
  show ?thesis
  proof (cases cs)
    case Nil
    then show ?thesis using assms(1,2,5,6) m by (simp add: path_below_def dfs_subdir_def abs_path_def)
  next
    case (Cons c ds)
    then have "clean c" using assms(4) by (simp add: proper_names_def)
    then obtain x c' where c: "c = x # c'" "x \<noteq> CHR ''/''" by (cases c) (auto simp: clean_def)
    then have "abs_path cs = CHR ''/'' # x # c' @ slashed ds" using Cons by (simp add: abs_path_def slashed_def)
    then show ?thesis using assms(1,2,5,6) m c by (simp add: path_below_def dfs_subdir_def)
  qed
next
  case False
  then have l: "1 < length (abs_path ms)"
    using length_abs_path[of ms] assms(3,4) by (auto simp: prefix_def proper_names_def clean_names_def)
  then have ne: "abs_path ms \<noteq> ''/''" by auto
  obtain rest where rest: "cs = ms @ rest" using assms(3) by (auto simp: prefix_def)
  then have p: "abs_path cs = abs_path ms @ slashed rest" using False by (simp add: abs_path_def slashed_def)
  show ?thesis
  proof (cases rest)
    case Nil
    then show ?thesis using assms(1,2,5,6,7) p ne by (simp add: path_below_def dfs_subdir_def slashed_def)
  next
    case (Cons r rs)
    then have "slashed rest = CHR ''/'' # r @ slashed rs" by (simp add: slashed_def)
    then show ?thesis using assms(1,2,5,6) p ne by (simp add: path_below_def dfs_subdir_def nth_append)
  qed
qed

text \<open>C18. An open file cannot be removed: while a descriptor stands for it, \<^verbatim>\<open>unlink\<close> and \<^verbatim>\<open>rmdir\<close> of any
  path that leads to the same place of the same file system fail with \<open>EBUSY\<close>, and the file system is
  not asked. This needs four conditions: the state was reached by calls within their conditions, with drivers that keep
  to the room for directory entries; the allocations succeed (a check that gets no memory for the path reports the file
  as not open); the file system does not want full paths; and the path is not that of the mount point itself, unless that is the root.\<close>

lemma open_file_not_removed:
  assumes "dfs_reach env s" and "getdents_fits env" and "mem s = []" and "leads_to env s p k t q"
    and "op_flags (ops_at env t) AND DFS_FS_FLAG_FULLPATH = 0"
    and "q \<noteq> ''/'' \<or> mpath (filesystem_table s ! k) = Some ''/''"
    and "fd_at s fd = Some d" and "fpath d = Some q" and "ffs d = Some k"
  shows "\<exists>s'. posix_unlink env p s = Inr (- 1, s') \<and> posix_rmdir env p s = Inr (- 1, s') \<and> errno s' = - EBUSY \<and>
    world s' = world s \<and> fd_at s' = fd_at s"
proof -
  have i: "wd_ok s" "mounts_ok s" "fds_ok s" using reach_inv[OF assms(1,2)] by (auto simp: dfs_inv_def tables_ok_def)
  obtain cs where cs: "resolves (working_directory s) p cs" "dfs_filesystem_lookup (abs_path cs) s = Some k"
    "mops (filesystem_table s ! k) = Some t" "path_below env (filesystem_table s ! k) (abs_path cs) = Inr q"
    using assms(4) by (auto simp: leads_to_def)
  have pr: "proper_names cs" using resolves_proper(1)[OF i(1) cs(1)] .
  obtain ms where ms: "mpath (filesystem_table s ! k) = Some (abs_path ms)" "prefix ms cs" using lookup_found[OF i(2) pr cs(2)] by blast
  have "q \<noteq> ''/'' \<or> abs_path ms = ''/''" using assms(6) ms(1) by auto
  note q = below_text[OF ms(1) cs(3) ms(2) pr assms(5) cs(4) this]
  note g = fd_get_Some[OF i(3) assms(7)]
  have "Some d \<in> set (fds s)" "fops d \<noteq> None"
    using nth_mem[OF g(2)] g(3,4) by (simp_all add: fd_open_def)
  then have ex: "\<exists>d \<in> set (fds s). case d of None \<Rightarrow> False | Some d \<Rightarrow> fops d \<noteq> None \<and> ffs d = Some k \<and> fpath d = Some q"
    using assms(8,9) by (intro bexI[of _ "Some d"]) auto
  have "normalize None (abs_path cs) s = Inr (Some (abs_path cs), s)"
    using normalize_free[OF i(1) resolves_abs[OF pr] assms(3)] .
  then have "fd_is_open (abs_path cs) s = Inr (0, s)"
    using cs(2) ms(1) ex[unfolded q] by (simp add: fd_is_open_def Let_def)
  then have "dfs_file_unlink env p s = Inr (- EBUSY, s)"
    using normalize_free[OF i(1) cs(1) assms(3)] cs(2) by (simp add: dfs_file_unlink_def)
  then show ?thesis by (simp add: posix_unlink_def posix_rmdir_def to_errno_def fd_at_same[OF same_tables_errno]) (simp add: set_errno_def)
qed

lemma open_file_not_removed_witness:
  "\<exists>s'. posix_unlink ram_env ''/a'' ram_state = Inr (- 1, s') \<and> posix_rmdir ram_env ''/a'' ram_state = Inr (- 1, s') \<and> errno s' = - EBUSY \<and> world s' = world ram_state \<and>
    fd_at s' = fd_at ram_state"
proof -
  have l: "dfs_filesystem_lookup (abs_path [''a'']) ram_state = Some 0" by code_simp
  have m: "filesystem_table ram_state ! 0 = \<lparr>dev_id = None, mpath = Some ''/'', mops = Some 0, mdata = Null_Data\<rparr>" by code_simp
  have w: "working_directory ram_state = ''/''" by code_simp
  have p: "path_below ram_env (filesystem_table ram_state ! 0) (abs_path [''a'']) = Inr ''/a''" by code_simp
  have n: "leads_to ram_env ram_state ''/a'' 0 0 ''/a''" unfolding leads_to_def w using ram_resolves(1) l p m by auto
  have f: "fd_at ram_state 3 = Some ram_file" by code_simp
  show ?thesis
    by (rule open_file_not_removed[OF ram_reach ram_fits _ n _ _ f])
      (simp_all add: m ram_file_def ram_env_def ram_state_def ram_mounted_def dfs_init_def)
qed

section \<open>A mounted file system is found\<close>

lemma find_slot:
  "find_mount_slot p es i found = Inr k \<Longrightarrow> found = Some k \<or> (found = None \<and> i \<le> k \<and> k < i + length es \<and> mops (es ! (k - i)) = None)"
proof (induction p es i found rule: find_mount_slot.induct)
  case (2 p e es i found)
  show ?case
  proof (cases "mops e = None")
    case True
    then show ?thesis using 2 by (cases found) auto
  next
    case False
    then have "found = Some k \<or> found = None \<and> i + 1 \<le> k \<and> k < i + 1 + length es \<and> mops (es ! (k - (i + 1))) = None"
      using 2 by (auto split: if_splits)
    then show ?thesis
    proof
      assume a: "found = None \<and> i + 1 \<le> k \<and> k < i + 1 + length es \<and> mops (es ! (k - (i + 1))) = None"
      then have "(e # es) ! (k - i) = es ! (k - (i + 1))" by (metis Suc_diff_le Suc_eq_plus1 diff_Suc_Suc nth_Cons_Suc)
      then show ?thesis using a by simp
    qed simp
  qed
qed (auto split: option.splits)

lemma lookup_own:
  assumes "mounts_ok s" and "proper_names cs" and "k < length (filesystem_table s)" and "mounted_on (filesystem_table s ! k) cs"
  shows "\<exists>j. dfs_filesystem_lookup (abs_path cs) s = Some j \<and> j < length (filesystem_table s) \<and>
    mpath (filesystem_table s ! j) = Some (abs_path cs)"
proof -
  have b: "best_so_far cs (filesystem_table s) (lookup_loop (abs_path cs) (filesystem_table s) 0 (0, None))"
    using lookup_best[OF mounts_ok_normal[OF assms(1)] proper_clean[OF assms(2)]] .
  have m: "filesystem_table s ! k \<in> set (filesystem_table s)" "prefix cs cs" using assms(3) by auto
  let ?l = "lookup_loop (abs_path cs) (filesystem_table s) 0 (0, None)"
  obtain j where j: "snd ?l = Some j" using b m assms(4) by (cases "snd ?l") (auto simp: best_so_far_def)
  then obtain ms where ms: "j < length (filesystem_table s)" "mounted_on (filesystem_table s ! j) ms" "prefix ms cs"
    "fst ?l = length (abs_path ms)" using b by (auto simp: best_so_far_def)
  have "\<forall>e \<in> set (filesystem_table s). \<forall>xs. mounted_on e xs \<and> prefix xs cs \<longrightarrow> length (abs_path xs) \<le> fst ?l"
    using b j by (simp add: best_so_far_def)
  then have le: "length (abs_path cs) \<le> length (abs_path ms)" using m assms(4) ms(4) by metis
  obtain rest where rest: "cs = ms @ rest" using ms(3) by (auto simp: prefix_def)
  have "ms = cs"
  proof (cases "ms = []")
    case True
    then have "length (abs_path cs) \<le> 1" using le by (simp add: abs_path_def)
    then show ?thesis using True length_abs_path[OF proper_clean[OF assms(2)]] by (cases "cs = []") auto
  next
    case False
    then have "slashed rest = []" using le rest by (simp add: abs_path_def slashed_def)
    then show ?thesis using rest by (cases rest) (auto simp: slashed_def)
  qed
  then show ?thesis using j ms(1,2) by (simp add: mounted_on_def dfs_filesystem_lookup_def)
qed

end
