(* ===== verification/Csv_File.thy ===== *)
theory Csv_File
  imports Inspect Dfs_Open
begin

text \<open>
  The inspection thread on the virtual file layer: the file calls of a batch, which theory \<open>Inspect\<close>
  records, are made on the layer of theory \<open>Dfs_Posix\<close>, and the file then holds the CSV text.
\<close>

section \<open>The file calls of the thread\<close>







section \<open>A file that is being written\<close>







section \<open>A batch\<close>











end
