(* ===== verification/Msh.thy ===== *)
theory Msh
  imports C_String
begin

text \<open>
  The command interpreter of the console (\<^verbatim>\<open>components/finsh/msh.c\<close>): splitting a command line into
  arguments, looking up and calling a command, completion. The array with the line is rewritten in
  place; an argument is an offset into it. Output is left out; what a command does, whether a script was
  found and what directories hold are parameters.
\<close>

section \<open>Splitting\<close>

definition FINSH_ARG_MAX :: nat where "FINSH_ARG_MAX = 10"

definition is_blank :: "char \<Rightarrow> bool" where
  "is_blank c \<longleftrightarrow> c = CHR '' '' \<or> c = CHR 0x09"

text \<open>The inner loops. They read a character before they compare the position with the length.\<close>

function strip_blanks :: "string \<Rightarrow> nat \<Rightarrow> nat \<Rightarrow> (string \<times> nat) res" where
  "strip_blanks cmd len p =
     (if p < length cmd
      then if is_blank (cmd ! p) \<and> p < len then strip_blanks (cmd[p := nul]) len (p + 1) else Inr (cmd, p)
      else Inl Out_Of_Bounds)"
  by pat_completeness auto

termination by (relation "measure (\<lambda>(cmd, len, p). len - p)") auto

function skip_string :: "string \<Rightarrow> nat \<Rightarrow> nat \<Rightarrow> nat res" where
  "skip_string cmd len p =
     (if p < length cmd
      then if cmd ! p \<noteq> CHR 0x22 \<and> p < len
           then if cmd ! p = CHR 0x5C
                then if p + 1 < length cmd
                     then skip_string cmd len (if cmd ! (p + 1) = CHR 0x22 then p + 2 else p + 1)
                     else Inl Out_Of_Bounds
                else skip_string cmd len (p + 1)
           else Inr p
      else Inl Out_Of_Bounds)"
  by pat_completeness auto

termination by (relation "measure (\<lambda>(cmd, len, p). len - p)") auto

function skip_word :: "string \<Rightarrow> nat \<Rightarrow> nat \<Rightarrow> nat res" where
  "skip_word cmd len p =
     (if p < length cmd
      then if \<not> is_blank (cmd ! p) \<and> p < len then skip_word cmd len (p + 1) else Inr p
      else Inl Out_Of_Bounds)"
  by pat_completeness auto

termination by (relation "measure (\<lambda>(cmd, len, p). len - p)") auto

declare strip_blanks.simps [simp del] and skip_string.simps [simp del] and skip_word.simps [simp del]

text \<open>The outer loop, whose rounds use up a character each, so that the length is enough fuel.\<close>

fun split_loop :: "nat \<Rightarrow> string \<Rightarrow> nat \<Rightarrow> nat \<Rightarrow> nat list \<Rightarrow> (string \<times> nat list) res" where
  "split_loop 0 cmd len p argv = Inl Would_Wait"
| "split_loop (Suc n) cmd len p argv =
     (if p < len
      then bind_res (strip_blanks cmd len p) (\<lambda>(cmd1, p1).
        if length argv \<ge> FINSH_ARG_MAX \<or> p1 \<ge> len then Inr (cmd1, argv)
        else bind_res (char_at cmd1 p1) (\<lambda>c.
          if c = CHR 0x22
          then bind_res (skip_string cmd1 len (p1 + 1)) (\<lambda>p2.
                 if p2 \<ge> len then Inr (cmd1, argv @ [p1 + 1])
                 else bind_res (set_char cmd1 p2 nul) (\<lambda>cmd2. split_loop n cmd2 len (p2 + 1) (argv @ [p1 + 1])))
          else bind_res (skip_word cmd1 len p1) (\<lambda>p2.
                 if p2 \<ge> len then Inr (cmd1, argv @ [p1]) else split_loop n cmd1 len p2 (argv @ [p1]))))
      else Inr (cmd, argv))"

definition msh_split :: "string \<Rightarrow> nat \<Rightarrow> (string \<times> nat list) res" where
  "msh_split cmd len = split_loop (len + 1) cmd len 0 []"

section \<open>What splitting should do\<close>

text \<open>
  A quoted string ends at a quote that has no backslash in front; the backslash stays. A missing
  quote at the end does no harm.
\<close>

fun quoted :: "string \<Rightarrow> string \<times> string" where
  "quoted [] = ([], [])"
| "quoted (c # s) =
     (if c = CHR 0x22 then ([], s)
      else if c = CHR 0x5C \<and> s \<noteq> [] \<and> hd s = CHR 0x22
      then let (w, r) = quoted (tl s) in (c # CHR 0x22 # w, r)
      else let (w, r) = quoted s in (c # w, r))"

lemma length_quoted: "length (snd (quoted s)) \<le> length s"
  by (induction s rule: quoted.induct) (auto simp: Let_def case_prod_beta)

function split_text :: "string \<Rightarrow> string list" where
  "split_text t =
     (let t1 = dropWhile is_blank t in
      if t1 = [] then []
      else if hd t1 = CHR 0x22 then fst (quoted (tl t1)) # split_text (snd (quoted (tl t1)))
      else takeWhile (\<lambda>c. \<not> is_blank c) t1 # split_text (dropWhile (\<lambda>c. \<not> is_blank c) t1))"
  by pat_completeness auto

termination
proof (relation "measure length"; (rule wf_measure)?)
  fix t t1 :: string
  assume t1: "t1 = dropWhile is_blank t" "t1 \<noteq> []"
  have le: "length t1 \<le> length t" using t1(1) by (simp add: length_dropWhile_le)
  show "(snd (quoted (tl t1)), t) \<in> measure length"
    using length_quoted[of "tl t1"] le t1(2) by (cases t1) auto
  have "\<not> is_blank (hd t1)" using t1 hd_dropWhile[of is_blank t] by simp
  then have "length (dropWhile (\<lambda>c. \<not> is_blank c) t1) < length t1"
    using t1(2) by (cases t1) (auto simp: le_imp_less_Suc length_dropWhile_le)
  then show "(dropWhile (\<lambda>c. \<not> is_blank c) t1, t) \<in> measure length" using le by simp
qed

declare split_text.simps [simp del]

lemma strip_blanks_ok:
  "strip_blanks (pre @ rest @ nul # junk) (length pre + length rest) (length pre) =
     Inr (pre @ replicate (length (takeWhile is_blank rest)) nul @ dropWhile is_blank rest @ nul # junk,
          length pre + length (takeWhile is_blank rest))"
proof (induction rest arbitrary: pre)
  case Nil
  then show ?case by (subst strip_blanks.simps) (simp add: is_blank_def)
next
  case (Cons c rest)
  show ?case
  proof (cases "is_blank c")
    case True
    have "(pre @ (c # rest) @ nul # junk)[length pre := nul] = (pre @ [nul]) @ rest @ nul # junk" by simp
    then show ?thesis using True Cons.IH[of "pre @ [nul]"] by (subst strip_blanks.simps) simp
  next
    case False
    then show ?thesis by (subst strip_blanks.simps) simp
  qed
qed

lemma skip_word_ok:
  "skip_word (pre @ rest @ post) (length pre + length rest) (length pre) =
     (if rest = [] \<and> post = [] then Inl Out_Of_Bounds else
      if length (takeWhile (\<lambda>c. \<not> is_blank c) rest) = length rest \<and> post = [] then Inl Out_Of_Bounds
      else Inr (length pre + length (takeWhile (\<lambda>c. \<not> is_blank c) rest)))"
proof (induction rest arbitrary: pre)
  case Nil
  then show ?case by (subst skip_word.simps) simp
next
  case (Cons c rest)
  then show ?case using Cons.IH[of "pre @ [c]"] by (subst skip_word.simps) auto
qed

lemma quoted_split: "quoted s = (s, []) \<or> s = fst (quoted s) @ CHR 0x22 # snd (quoted s)"
proof (induction s rule: quoted.induct)
  case (2 c s)
  then show ?case by (cases s) (auto simp: Let_def case_prod_beta)
qed simp

lemma skip_string_ok:
  "skip_string (pre @ rest @ nul # junk) (length pre + length rest) (length pre) = Inr (length pre + length (fst (quoted rest)))"
proof (induction rest arbitrary: pre rule: quoted.induct)
  case 1
  then show ?case by (subst skip_string.simps) simp
next
  case (2 c s)
  consider "c = CHR 0x22" | "c = CHR 0x5C" "s \<noteq> []" "hd s = CHR 0x22" | "c \<noteq> CHR 0x22" "\<not> (c = CHR 0x5C \<and> s \<noteq> [] \<and> hd s = CHR 0x22)"
    by blast
  then show ?case
  proof cases
    case 1
    then show ?thesis by (subst skip_string.simps) simp
  next
    case 2
    then obtain s' where s: "s = CHR 0x22 # s'" by (cases s) auto
    have "skip_string ((pre @ [c, CHR 0x22]) @ s' @ nul # junk) (length (pre @ [c, CHR 0x22]) + length s') (length (pre @ [c, CHR 0x22])) =
        Inr (length (pre @ [c, CHR 0x22]) + length (fst (quoted s')))"
      using "2.IH"(1)[of "pre @ [c, CHR 0x22]"] 2 s by simp
    then show ?thesis using 2(1) s by (subst skip_string.simps) (simp add: nth_append case_prod_beta)
  next
    case 3
    have "skip_string ((pre @ [c]) @ s @ nul # junk) (length (pre @ [c]) + length s) (length (pre @ [c])) =
        Inr (length (pre @ [c]) + length (fst (quoted s)))"
      using "2.IH"(2)[of "pre @ [c]"] 3 by blast
    moreover have "(s @ nul # junk) ! 0 = CHR 0x22 \<Longrightarrow> c \<noteq> CHR 0x5C" using 3(2) by (cases s) auto
    ultimately show ?thesis using 3 by (subst skip_string.simps) (auto simp: nth_append case_prod_beta Let_def)
  qed
qed

lemma split_text_Nil [simp]: "split_text [] = []"
  by (subst split_text.simps) simp

lemma split_text_blank: "dropWhile is_blank t = [] \<Longrightarrow> split_text t = []"
  by (subst split_text.simps) simp

lemma split_text_quote:
  "dropWhile is_blank t = CHR 0x22 # s \<Longrightarrow> split_text t = fst (quoted s) # split_text (snd (quoted s))"
  by (subst split_text.simps) simp

lemma split_text_word:
  "dropWhile is_blank t = c # s \<Longrightarrow> c \<noteq> CHR 0x22 \<Longrightarrow>
    split_text t = takeWhile (\<lambda>c. \<not> is_blank c) (c # s) # split_text (dropWhile (\<lambda>c. \<not> is_blank c) (c # s))"
  by (subst split_text.simps) simp

text \<open>The loop on the rest of a line, behind what has been split already.\<close>

definition split_done :: "string \<Rightarrow> string \<Rightarrow> string \<Rightarrow> nat list \<Rightarrow> (string \<times> nat list) res \<Rightarrow> bool" where
  "split_done pre rest junk argv x \<longleftrightarrow> (\<exists>post starts. x = Inr (pre @ post, argv @ starts) \<and>
     length post = length rest + 1 + length junk \<and> (rest = [] \<or> is_blank (hd rest) \<longrightarrow> hd post = nul) \<and>
     map (c_string (pre @ post)) starts = take (FINSH_ARG_MAX - length argv) (split_text rest))"

text \<open>The word in front of the rest is an argument of its own.\<close>

lemma split_done_cons:
  assumes "split_done (pre @ blanks @ q @ w @ sep) rest junk (argv @ [length (pre @ blanks @ q)]) x"
    and "nul \<notin> set w" and "sep = [nul] \<or> sep = [] \<and> (rest = [] \<or> is_blank (hd rest))"
    and "split_text rest0 = w # split_text rest" and "length argv < FINSH_ARG_MAX"
    and "length (blanks @ q @ w @ sep) + length rest = length rest0"
    and "rest0 = [] \<or> is_blank (hd rest0) \<longrightarrow> blanks \<noteq> [] \<and> hd blanks = nul"
  shows "split_done pre rest0 junk argv x"
proof -
  let ?pre = "pre @ blanks @ q @ w @ sep" and ?a = "length (pre @ blanks @ q)"
  obtain post starts where x: "x = Inr (?pre @ post, argv @ ?a # starts)" "length post = length rest + 1 + length junk"
    "rest = [] \<or> is_blank (hd rest) \<longrightarrow> hd post = nul"
    "map (c_string (?pre @ post)) starts = take (FINSH_ARG_MAX - Suc (length argv)) (split_text rest)"
    using assms(1) by (auto simp: split_done_def)
  obtain y ys where "post = y # ys" using x(2) by (cases post) auto
  then obtain zs where "sep @ post = nul # zs" using assms(3) x(3) by auto
  then have b: "?pre @ post = (pre @ blanks @ q) @ w @ nul # zs" by simp
  have "c_string (?pre @ post) ?a = w" unfolding b by (rule c_string_at[OF assms(2) refl])
  then have "map (c_string (?pre @ post)) (?a # starts) = take (FINSH_ARG_MAX - length argv) (split_text rest0)"
    using x(4) assms(4,5) by (simp add: take_Cons')
  moreover have "hd (blanks @ q @ w @ sep @ post) = nul" if "rest0 = [] \<or> is_blank (hd rest0)"
    using assms(7) that by (cases blanks) auto
  ultimately show ?thesis using x(1,2) assms(6)
    unfolding split_done_def by (intro exI[of _ "blanks @ q @ w @ sep @ post"] exI[of _ "?a # starts"]) auto
qed

lemma split_loop_ok:
  "nul \<notin> set rest \<Longrightarrow> length rest < n \<Longrightarrow>
    split_done pre rest junk argv (split_loop n (pre @ rest @ nul # junk) (length pre + length rest) (length pre) argv)"
proof (induction n arbitrary: pre rest argv)
  case (Suc n)
  let ?k = "length (takeWhile is_blank rest)" and ?t = "dropWhile is_blank rest"
  let ?z = "replicate ?k nul"
  have z: "rest = [] \<or> is_blank (hd rest) \<Longrightarrow> rest \<noteq> [] \<Longrightarrow> ?z \<noteq> [] \<and> hd ?z = nul"
    by (cases rest) auto
  have len: "?k + length ?t = length rest" by (metis length_append takeWhile_dropWhile_id)
  note strip = strip_blanks_ok[of pre rest junk]
  show ?case
  proof (cases "rest = []")
    case True
    then show ?thesis by (auto simp: split_done_def)
  next
    case False
    show ?thesis
    proof (cases "length argv \<ge> FINSH_ARG_MAX \<or> ?t = []")
      case True
      then have "FINSH_ARG_MAX \<le> length argv \<or> length rest \<le> ?k" using len by (metis add.right_neutral le_refl list.size(3))
      then have "split_loop (Suc n) (pre @ rest @ nul # junk) (length pre + length rest) (length pre) argv =
          Inr (pre @ ?z @ ?t @ nul # junk, argv)"
        using strip False by auto
      moreover have "take (FINSH_ARG_MAX - length argv) (split_text rest) = []" using True split_text_blank by auto
      moreover have "hd (?z @ ?t @ nul # junk) = nul" if "is_blank (hd rest)" using z that False by auto
      ultimately show ?thesis using len False
        unfolding split_done_def by (intro exI[of _ "?z @ ?t @ nul # junk"] exI[of _ "[]"]) auto
    next
      case more: False
      then obtain c s where t: "?t = c # s" by (cases ?t) auto
      have c: "\<not> is_blank c" using hd_dropWhile[of is_blank rest] t by simp
      have nn: "nul \<notin> set (c # s)" using Suc.prems(1) t by (metis set_dropWhileD)
      have p1: "length pre + ?k < length pre + length rest" using len t by simp
      have start: "split_loop (Suc n) (pre @ rest @ nul # junk) (length pre + length rest) (length pre) argv =
         (let cmd1 = pre @ ?z @ (c # s) @ nul # junk; p1 = length pre + ?k in
          if c = CHR 0x22
          then bind_res (skip_string cmd1 (length pre + length rest) (p1 + 1)) (\<lambda>p2.
                 if p2 \<ge> length pre + length rest then Inr (cmd1, argv @ [p1 + 1])
                 else bind_res (set_char cmd1 p2 nul) (\<lambda>cmd2. split_loop n cmd2 (length pre + length rest) (p2 + 1) (argv @ [p1 + 1])))
          else bind_res (skip_word cmd1 (length pre + length rest) p1) (\<lambda>p2.
                 if p2 \<ge> length pre + length rest then Inr (cmd1, argv @ [p1])
                 else split_loop n cmd1 (length pre + length rest) p2 (argv @ [p1])))"
        using strip False more p1 t by (simp add: char_at_def nth_append Let_def)
      show ?thesis
      proof (cases "c = CHR 0x22")
        case True
        let ?w = "fst (quoted s)" and ?r = "snd (quoted s)" and ?pre = "pre @ ?z @ [c]"
        have sl: "length ?pre + length s = length pre + length rest" using len t by simp
        have skip: "skip_string (pre @ ?z @ (c # s) @ nul # junk) (length pre + length rest) (length pre + ?k + 1) =
            Inr (length ?pre + length ?w)"
          using skip_string_ok[of ?pre s junk] unfolding sl by simp
        have sp: "split_text rest = ?w # split_text ?r" using split_text_quote t True by simp
        consider "quoted s = (s, [])" | "s = ?w @ CHR 0x22 # ?r" using quoted_split by blast
        then show ?thesis
        proof cases
          case 1
          then have "split_loop (Suc n) (pre @ rest @ nul # junk) (length pre + length rest) (length pre) argv =
              Inr (pre @ ?z @ [c] @ s @ [] @ nul # junk, argv @ [length (pre @ ?z @ [c])])"
            unfolding start using True skip sl by (simp add: Let_def)
          then show ?thesis
            by (intro split_done_cons[of pre ?z "[c]" s "[]" "[]"])
              (use 1 nn more sl sp z False in \<open>auto simp: split_done_def\<close>)
        next
          case 2
          have lw: "length s = length ?w + 1 + length ?r" using arg_cong[OF 2, of length] by simp
          have eq: "length pre + length rest = Suc (Suc (length pre + (?k + (length ?w + length ?r))))" using sl lw by simp
          have nr: "nul \<notin> set ?w" "nul \<notin> set ?r" using nn 2 by (metis Un_iff list.set_intros(2) set_append)+
          have "(pre @ ?z @ (c # s) @ nul # junk)[length ?pre + length ?w := nul] = (?pre @ ?w @ [nul]) @ ?r @ nul # junk"
            by (subst (1) 2) (simp add: list_update_append)
          then have "split_loop (Suc n) (pre @ rest @ nul # junk) (length pre + length rest) (length pre) argv =
              split_loop n ((?pre @ ?w @ [nul]) @ ?r @ nul # junk) (length (?pre @ ?w @ [nul]) + length ?r)
                (length (?pre @ ?w @ [nul])) (argv @ [length (pre @ ?z @ [c])])"
            unfolding start using True skip lw by (simp add: Let_def set_char_def eq add.assoc)
          moreover have "length ?r < n" using Suc.prems(2) len t lw by simp
          ultimately show ?thesis
            using Suc.IH[OF nr(2), of "?pre @ ?w @ [nul]" "argv @ [length (pre @ ?z @ [c])]"]
            by (intro split_done_cons[of pre ?z "[c]" ?w "[nul]" ?r]) (use nr more sl sp z False lw in \<open>auto\<close>)
        qed
      next
        case False': False
        obtain w r where w: "w = takeWhile (\<lambda>c. \<not> is_blank c) (c # s)" and r: "r = dropWhile (\<lambda>c. \<not> is_blank c) (c # s)"
          by blast
        have wr: "c # s = w @ r" by (simp add: w r)
        have sl: "length pre + length rest = length pre + ?k + length w + length r" using len t arg_cong[OF wr, of length] by simp
        have e: "length (pre @ ?z) + length (c # s) = length pre + length rest" using len t by simp
        have skip: "skip_word (pre @ ?z @ (c # s) @ nul # junk) (length pre + length rest) (length pre + ?k) =
            Inr (length pre + ?k + length w)"
          using skip_word_ok[of "pre @ ?z" "c # s" "nul # junk"] unfolding e w[symmetric] by simp
        have sp: "split_text rest = w # split_text r" using split_text_word t False' unfolding w r by simp
        have nr: "nul \<notin> set w" "nul \<notin> set r" using nn unfolding wr by simp_all
        have b: "r = [] \<or> is_blank (hd r)" using hd_dropWhile[of "\<lambda>c. \<not> is_blank c" "c # s"] unfolding r by blast
        have "w \<noteq> []" using c by (simp add: w)
        then have lr: "length r < n" using Suc.prems(2) sl by (cases w) auto
        have start': "split_loop (Suc n) (pre @ rest @ nul # junk) (length pre + length rest) (length pre) argv =
            (if r = [] then Inr (pre @ ?z @ w @ r @ nul # junk, argv @ [length pre + ?k])
             else split_loop n (pre @ ?z @ w @ r @ nul # junk) (length pre + length rest) (length pre + ?k + length w)
                (argv @ [length pre + ?k]))"
          unfolding start using False' skip unfolding wr by (simp add: Let_def sl)
        have "split_done (pre @ ?z @ [] @ w @ []) r junk (argv @ [length (pre @ ?z @ [])])
            (split_loop (Suc n) (pre @ rest @ nul # junk) (length pre + length rest) (length pre) argv)"
        proof (cases "r = []")
          case True
          then show ?thesis unfolding start' by (auto simp: split_done_def)
        next
          case False
          then show ?thesis unfolding start'
            using Suc.IH[OF nr(2) lr, of "pre @ ?z @ w" "argv @ [length (pre @ ?z)]"] sl by (simp add: add.assoc)
        qed
        then show ?thesis
          by (rule split_done_cons) (use nr more sl sp z False b in \<open>auto\<close>)
      qed
    qed
  qed
qed simp

text \<open>C24. Splitting a line in place, with pointers into it, gives the arguments that cutting the text into
  words and quoted strings gives, at most ten of them; it ends, and it stays inside the text and its end
  mark.\<close>

theorem msh_split_correct:
  assumes "nul \<notin> set t"
  shows "\<exists>cmd argv. msh_split (t @ nul # junk) (length t) = Inr (cmd, argv) \<and>
    length cmd = length (t @ nul # junk) \<and> map (c_string cmd) argv = take FINSH_ARG_MAX (split_text t)"
  using split_loop_ok[of t "length t + 1" "[]" junk "[]"] assms by (auto simp: msh_split_def split_done_def)

theorem msh_split_correct_witness:
  "\<exists>cmd argv. msh_split ((''cat '' @ [CHR 0x22] @ ''a b'' @ [CHR 0x22]) @ nul # ''z'') (length (''cat '' @ [CHR 0x22] @ ''a b'' @ [CHR 0x22])) = Inr (cmd, argv) \<and>
    map (c_string cmd) argv = [''cat'', ''a b'']"
proof -
  have "take FINSH_ARG_MAX (split_text (''cat '' @ [CHR 0x22] @ ''a b'' @ [CHR 0x22])) = [''cat'', ''a b'']" by code_simp
  then show ?thesis using msh_split_correct[of "''cat '' @ [CHR 0x22] @ ''a b'' @ [CHR 0x22]" "''z''"] by auto
qed

text \<open>Arguments as one would type them: in quotes if they are empty or hold a blank.\<close>

definition type_arg :: "string \<Rightarrow> string" where
  "type_arg w = (if w = [] \<or> (\<exists>c \<in> set w. is_blank c) then CHR 0x22 # w @ [CHR 0x22] else w)"

definition type_line :: "string list \<Rightarrow> string" where
  "type_line ws = concat (map (\<lambda>w. type_arg w @ '' '') ws)"

lemma quoted_plain: "CHR 0x22 \<notin> set w \<Longrightarrow> CHR 0x5C \<notin> set w \<Longrightarrow> quoted (w @ CHR 0x22 # r) = (w, r)"
proof (induction w)
  case (Cons c w)
  then show ?case by (cases w) auto
qed simp

lemma split_type_line:
  assumes "\<forall>w \<in> set ws. CHR 0x22 \<notin> set w \<and> CHR 0x5C \<notin> set w"
  shows "split_text ('' '' @ type_line ws) = ws" and "split_text (type_line ws) = ws"
proof -
  have b: "is_blank (CHR '' '')" "\<not> is_blank (CHR 0x22)" by (simp_all add: is_blank_def)
  have "split_text ('' '' @ type_line ws) = ws \<and> split_text (type_line ws) = ws"
    using assms
  proof (induction ws)
    case Nil
    then show ?case by (simp add: type_line_def split_text_blank b)
  next
    case (Cons w ws)
    let ?l = "type_line (w # ws)"
    have l: "?l = type_arg w @ '' '' @ type_line ws" by (simp add: type_line_def)
    have ih: "split_text ('' '' @ type_line ws) = ws" using Cons by simp
    show ?case
    proof (cases "w = [] \<or> (\<exists>c \<in> set w. is_blank c)")
      case True
      then have e: "dropWhile is_blank ?l = CHR 0x22 # w @ CHR 0x22 # '' '' @ type_line ws"
        "dropWhile is_blank ('' '' @ ?l) = CHR 0x22 # w @ CHR 0x22 # '' '' @ type_line ws"
        using l b by (simp_all add: type_arg_def)
      have "quoted (w @ CHR 0x22 # '' '' @ type_line ws) = (w, '' '' @ type_line ws)"
        using quoted_plain Cons.prems by simp
      then show ?thesis using split_text_quote[OF e(1)] split_text_quote[OF e(2)] ih by simp
    next
      case False
      then obtain c s where w: "w = c # s" "\<not> is_blank c" "\<forall>x \<in> set w. \<not> is_blank x" by (cases w) auto
      have t: "type_arg w = w" using False by (simp add: type_arg_def)
      have e: "dropWhile is_blank ?l = c # s @ '' '' @ type_line ws"
        "dropWhile is_blank ('' '' @ ?l) = c # s @ '' '' @ type_line ws"
        using l b w t by simp_all
      have "takeWhile (\<lambda>c. \<not> is_blank c) (c # s @ '' '' @ type_line ws) = w"
        "dropWhile (\<lambda>c. \<not> is_blank c) (c # s @ '' '' @ type_line ws) = '' '' @ type_line ws"
        using w b takeWhile_append2[of s "\<lambda>c. \<not> is_blank c" "'' '' @ type_line ws"]
          dropWhile_append2[of s "\<lambda>c. \<not> is_blank c" "'' '' @ type_line ws"] by simp_all
      moreover have "c \<noteq> CHR 0x22" using Cons.prems w(1) by auto
      ultimately show ?thesis using split_text_word[OF e(1)] split_text_word[OF e(2)] ih by simp
    qed
  qed
  then show "split_text ('' '' @ type_line ws) = ws" "split_text (type_line ws) = ws" by blast+
qed

text \<open>What is typed arrives: up to ten arguments without quotes and backslashes, in quotes where they
  are empty or hold blanks, come back from the line.\<close>

theorem msh_split_roundtrip:
  assumes "\<forall>w \<in> set ws. nul \<notin> set w \<and> CHR 0x22 \<notin> set w \<and> CHR 0x5C \<notin> set w" and "length ws \<le> FINSH_ARG_MAX"
  shows "\<exists>cmd argv. msh_split (type_line ws @ nul # junk) (length (type_line ws)) = Inr (cmd, argv) \<and>
    map (c_string cmd) argv = ws"
proof -
  let ?t = "type_line ws"
  have "nul \<notin> set ?t" using assms(1) by (auto simp: type_line_def type_arg_def)
  then have "split_done [] ?t junk [] (split_loop (length ?t + 1) ([] @ ?t @ nul # junk) (length ([]::string) + length ?t) (length ([]::string)) [])"
    by (rule split_loop_ok) simp
  moreover have "split_text ?t = ws" using split_type_line assms(1) by simp
  ultimately show ?thesis using assms(2) by (auto simp: msh_split_def split_done_def)
qed

theorem msh_split_roundtrip_witness:
  "\<exists>cmd argv. msh_split (type_line [''cp'', ''a b'', '''', ''c''] @ nul # []) (length (type_line [''cp'', ''a b'', '''', ''c''])) = Inr (cmd, argv) \<and>
    map (c_string cmd) argv = [''cp'', ''a b'', '''', ''c'']"
  by (rule msh_split_roundtrip) (simp_all add: FINSH_ARG_MAX_def)

section \<open>Commands\<close>

text \<open>
  \<open>commands\<close>: the names of the command table; \<open>script_found\<close>: whether \<^verbatim>\<open>msh_exec_script\<close> finds and
  runs a script of that name; \<open>path_memory\<close>, \<open>cwd\<close> and \<open>list_dir\<close>: the buffer of the completion of
  paths can be allocated, the working directory, and the names in a directory, if it can be opened.
\<close>

record shell_env =
  commands :: "string list"
  script_found :: "string \<Rightarrow> bool"
  path_memory :: bool
  cwd :: string
  list_dir :: "string \<Rightarrow> string list option"

datatype run_result = Nothing | Ran nat "string list" | Script string | Not_Found string

text \<open>Whether \<^verbatim>\<open>strncmp\<close> finds two strings equal; a string goes on with end marks.\<close>

fun strncmp_eq :: "nat \<Rightarrow> string \<Rightarrow> string \<Rightarrow> bool" where
  "strncmp_eq 0 a b = True"
| "strncmp_eq (Suc n) a b =
     (let x = (case a of [] \<Rightarrow> nul | c # _ \<Rightarrow> c); y = (case b of [] \<Rightarrow> nul | c # _ \<Rightarrow> c) in
      x = y \<and> (x = nul \<or> strncmp_eq n (tl a) (tl b)))"

fun msh_get_cmd :: "string list \<Rightarrow> string \<Rightarrow> nat \<Rightarrow> nat \<Rightarrow> nat option res" where
  "msh_get_cmd [] cmd sz i = Inr None"
| "msh_get_cmd (name # names) cmd sz i =
     (if strncmp_eq sz name cmd
      then if length name < sz then Inl Out_Of_Bounds
           else if sz = length name then Inr (Some i) else msh_get_cmd names cmd sz (i + 1)
      else msh_get_cmd names cmd sz (i + 1))"

definition msh_exec_cmd :: "shell_env \<Rightarrow> string \<Rightarrow> nat \<Rightarrow> run_result option res" where
  "msh_exec_cmd env cmd len =
     bind_res (skip_word cmd len 0) (\<lambda>n.
       if n = 0 then Inr None
       else bind_res (msh_get_cmd (commands env) cmd n 0) (\<lambda>f.
         case f of
           None \<Rightarrow> Inr None
         | Some i \<Rightarrow> bind_res (msh_split cmd len) (\<lambda>(cmd1, argv).
             Inr (if argv = [] then None else Some (Ran i (map (c_string cmd1) argv))))))"

fun trim_line :: "string \<Rightarrow> nat \<Rightarrow> (string \<times> nat) res" where
  "trim_line cmd 0 = Inr (cmd, 0)"
| "trim_line [] (Suc n) = Inl Out_Of_Bounds"
| "trim_line (c # cmd) (Suc n) = (if is_blank c then trim_line cmd n else Inr (c # cmd, Suc n))"

definition until_space :: "string \<Rightarrow> string res" where
  "until_space cmd =
     (if \<exists>c \<in> set cmd. c = CHR '' '' \<or> c = nul then Inr (takeWhile (\<lambda>c. c \<noteq> CHR '' '' \<and> c \<noteq> nul) cmd) else Inl Out_Of_Bounds)"

definition msh_exec :: "shell_env \<Rightarrow> string \<Rightarrow> nat \<Rightarrow> run_result res" where
  "msh_exec env line len =
     bind_res (trim_line line len) (\<lambda>(cmd, n).
       if n = 0 then Inr Nothing
       else bind_res (msh_exec_cmd env cmd n) (\<lambda>r.
         case r of
           Some x \<Rightarrow> Inr x
         | None \<Rightarrow> bind_res (skip_word cmd n 0) (\<lambda>k.
             if script_found env (take k cmd) then Inr (Script (take k cmd))
             else bind_res (until_space cmd) (\<lambda>w. Inr (Not_Found w)))))"

text \<open>What a line should do: run the first command of that name.\<close>

fun index_of :: "string \<Rightarrow> string list \<Rightarrow> nat \<Rightarrow> nat option" where
  "index_of w [] i = None"
| "index_of w (x # xs) i = (if x = w then Some i else index_of w xs (i + 1))"

definition exec_spec :: "shell_env \<Rightarrow> string \<Rightarrow> run_result" where
  "exec_spec env t =
     (let t1 = dropWhile is_blank t; w = takeWhile (\<lambda>c. \<not> is_blank c) t1 in
      if t1 = [] then Nothing
      else case index_of w (commands env) 0 of
          Some i \<Rightarrow> Ran i (take FINSH_ARG_MAX (split_text t1))
        | None \<Rightarrow> if script_found env w then Script w else Not_Found (takeWhile (\<lambda>c. c \<noteq> CHR '' '') t1))"

definition env_ok :: "shell_env \<Rightarrow> bool" where
  "env_ok env \<longleftrightarrow> (\<forall>n \<in> set (commands env). nul \<notin> set n)"

lemma strncmp_word: "nul \<notin> set w \<Longrightarrow> nul \<notin> set n \<Longrightarrow> strncmp_eq (length w) n (w @ x) = (take (length w) n = w)"
proof (induction w arbitrary: n)
  case (Cons c w)
  then show ?case by (cases n) (auto simp: Let_def)
qed simp

lemma get_cmd_ok:
  "nul \<notin> set w \<Longrightarrow> \<forall>n \<in> set names. nul \<notin> set n \<Longrightarrow> msh_get_cmd names (w @ x) (length w) i = Inr (index_of w names i)"
proof (induction names arbitrary: i)
  case (Cons n names)
  then have s: "strncmp_eq (length w) n (w @ x) = (take (length w) n = w)" using strncmp_word by simp
  have "take (length w) n = w \<Longrightarrow> \<not> length n < length w" by (metis length_take min_less_iff_conj less_irrefl)
  moreover have "take (length w) n = w \<Longrightarrow> length w = length n \<Longrightarrow> n = w" by simp
  ultimately show ?case using Cons s by auto
qed simp

lemma trim_ok: "trim_line (t @ x) (length t) = Inr (dropWhile is_blank t @ x, length (dropWhile is_blank t))"
  by (induction t) auto

lemma until_nul:
  "nul \<notin> set s \<Longrightarrow> takeWhile (\<lambda>c. c \<noteq> CHR '' '' \<and> c \<noteq> nul) (s @ nul # x) = takeWhile (\<lambda>c. c \<noteq> CHR '' '') s"
  by (induction s) auto

lemma msh_exec_ok:
  assumes "env_ok env" and "nul \<notin> set t"
  shows "msh_exec env (t @ nul # junk) (length t) = Inr (exec_spec env t)"
proof -
  obtain u where u: "u = dropWhile is_blank t" by blast
  obtain w r where w: "w = takeWhile (\<lambda>c. \<not> is_blank c) u" and r: "r = dropWhile (\<lambda>c. \<not> is_blank c) u" by blast
  have wr: "u = w @ r" by (simp add: w r)
  have nu: "nul \<notin> set u" using assms(2) u by (metis set_dropWhileD)
  have nw: "nul \<notin> set w" using nu wr by simp
  have spec: "exec_spec env t =
      (if u = [] then Nothing
       else case index_of w (commands env) 0 of
           Some i \<Rightarrow> Ran i (take FINSH_ARG_MAX (split_text u))
         | None \<Rightarrow> if script_found env w then Script w else Not_Found (takeWhile (\<lambda>c. c \<noteq> CHR '' '') u))"
    by (simp only: exec_spec_def Let_def u w)
  have trim: "trim_line (t @ nul # junk) (length t) = Inr (u @ nul # junk, length u)"
    using trim_ok[of t "nul # junk"] u by simp
  show ?thesis
  proof (cases "u = []")
    case True
    then show ?thesis using trim spec by (simp add: msh_exec_def)
  next
    case False
    then obtain c s where cs: "u = c # s" by (cases u) auto
    have c: "\<not> is_blank c" using cs u by (metis hd_dropWhile list.distinct(1) list.sel(1))
    have w0: "w \<noteq> []" using w cs c by simp
    have skip: "skip_word (u @ nul # junk) (length u) 0 = Inr (length w)"
      using skip_word_ok[of "[]" u "nul # junk"] w by simp
    have get: "msh_get_cmd (commands env) (u @ nul # junk) (length w) 0 = Inr (index_of w (commands env) 0)"
      using get_cmd_ok[OF nw, of "commands env" "r @ nul # junk" 0] assms(1) wr by (simp add: env_ok_def)
    obtain cmd argv where sp: "msh_split (u @ nul # junk) (length u) = Inr (cmd, argv)"
      "map (c_string cmd) argv = take FINSH_ARG_MAX (split_text u)"
      using split_loop_ok[of u "length u + 1" "[]" junk "[]"] nu by (auto simp: msh_split_def split_done_def)
    have d: "dropWhile is_blank u = c # s" using cs c by simp
    have "split_text u \<noteq> []"
      using split_text_quote[of u s] split_text_word[of u c s] d by (cases "c = CHR 0x22") simp_all
    then have "argv \<noteq> []" using sp(2) by (auto simp: FINSH_ARG_MAX_def)
    then have cmd: "msh_exec_cmd env (u @ nul # junk) (length u) =
        Inr (map_option (\<lambda>i. Ran i (take FINSH_ARG_MAX (split_text u))) (index_of w (commands env) 0))"
      using skip get sp w0 by (simp add: msh_exec_cmd_def split: option.splits)
    have tk: "take (length w) (u @ nul # junk) = w" by (simp add: wr)
    have un: "until_space (u @ nul # junk) = Inr (takeWhile (\<lambda>c. c \<noteq> CHR '' '') u)"
      using until_nul[OF nu] by (simp add: until_space_def)
    show ?thesis
      using trim False
      by (cases "index_of w (commands env) 0") (simp_all add: msh_exec_def spec cmd skip tk un del: take_append)
  qed
qed

section \<open>Completion\<close>

fun str_common :: "string \<Rightarrow> string \<Rightarrow> nat" where
  "str_common (a # s) (b # t) = (if a = b then Suc (str_common s t) else 0)"
| "str_common s t = 0"

text \<open>The names that start with a prefix, and the length of what they have in common.\<close>

definition candidates :: "string \<Rightarrow> string list \<Rightarrow> string list" where
  "candidates p names = filter (\<lambda>n. take (length p) n = p) names"

definition common_length :: "string \<Rightarrow> string list \<Rightarrow> nat" where
  "common_length m ms = foldl (\<lambda>k n. min k (str_common m n)) (length m) ms"

text \<open>
  Completion of the path that starts at an offset of the line. The name that was found is copied over
  the last part of the path without a check of the room behind it.
\<close>

definition msh_auto_complete_path :: "shell_env \<Rightarrow> nat \<Rightarrow> string \<Rightarrow> string res" where
  "msh_auto_complete_path env off line =
     (let path = c_string line off;
          dest = length path - length (takeWhile (\<lambda>c. c \<noteq> CHR ''/'') (rev path));
          name = drop dest path;
          full = (if path \<noteq> [] \<and> hd path = CHR ''/'' then []
                  else cwd env @ (if last (cwd env) \<noteq> CHR ''/'' then ''/'' else [])) @ take dest path
      in if \<not> path_memory env then Inr line
         else if cwd env = [] \<or> length (cwd env) \<ge> 256 \<or> length full \<ge> 256 then Inl Out_Of_Bounds
         else case list_dir env full of
             None \<Rightarrow> Inr line
           | Some names \<Rightarrow>
               if name = [] then Inr line
               else (case candidates name names of
                   [] \<Rightarrow> Inr line
                 | m # ms \<Rightarrow>
                     if length m \<ge> 256 then Inl Out_Of_Bounds
                     else copy_to (off + dest) (take (common_length m (m # ms)) m @ [nul]) line))"

text \<open>The offset behind the last space that is not the first character.\<close>

definition after_space :: "string \<Rightarrow> nat option" where
  "after_space p = (case filter (\<lambda>i. p ! i = CHR '' '') (rev [1..<length p]) of [] \<Rightarrow> None | i # _ \<Rightarrow> Some (i + 1))"

definition complete_command :: "shell_env \<Rightarrow> string \<Rightarrow> string res" where
  "complete_command env line =
     bind_res (c_text line) (\<lambda>p.
       case candidates p (commands env) of
         [] \<Rightarrow> Inr line
       | m # ms \<Rightarrow> copy_to 0 (take (common_length m (m # ms)) m) line)"

definition msh_auto_complete :: "shell_env \<Rightarrow> string \<Rightarrow> string res" where
  "msh_auto_complete env line =
     bind_res (c_text line) (\<lambda>p.
       if p = [] then Inr line
       else bind_res (case after_space p of None \<Rightarrow> Inr line | Some off \<Rightarrow> msh_auto_complete_path env off line)
              (complete_command env))"

end
