(* ===== verification/Shell.thy ===== *)
theory Shell
  imports Msh
begin

text \<open>
  The line editor of the console (\<^verbatim>\<open>components/finsh/shell.c\<close>, with the types of \<^verbatim>\<open>shell.h\<close>): the keys,
  the history, and the line that is run. What is printed is left out, but a read of the line for it
  counts as a read. Positions are 16 bits wide.
\<close>

section \<open>State\<close>

abbreviation (input) FINSH_CMD_SIZE :: nat where "FINSH_CMD_SIZE \<equiv> 80"
abbreviation (input) FINSH_HISTORY_LINES :: nat where "FINSH_HISTORY_LINES \<equiv> 5"

datatype input_stat = WAIT_NORMAL | WAIT_SPEC_KEY | WAIT_FUNC_KEY

record finsh_shell =
  stat :: input_stat
  current_history :: nat
  history_count :: nat
  cmd_history :: "string list"
  line :: string
  line_position :: nat
  line_curpos :: nat

definition wrap16 :: "nat \<Rightarrow> nat" where
  "wrap16 n = n mod 65536"

definition shell_start :: finsh_shell where
  "shell_start = \<lparr>stat = WAIT_NORMAL, current_history = 0, history_count = 0,
     cmd_history = replicate FINSH_HISTORY_LINES (replicate FINSH_CMD_SIZE nul),
     line = replicate (FINSH_CMD_SIZE + 1) nul, line_position = 0, line_curpos = 0\<rparr>"

section \<open>Keys\<close>

text \<open>A row of the history, cleared before the line is copied.\<close>

definition new_row :: "finsh_shell \<Rightarrow> string res" where
  "new_row s =
     (if line_position s \<le> length (line s)
      then copy_to 0 (take (line_position s) (line s)) (replicate FINSH_CMD_SIZE nul) else Inl Out_Of_Bounds)"

definition shell_push_history :: "finsh_shell \<Rightarrow> finsh_shell res" where
  "shell_push_history s =
     bind_res
       (if line_position s \<noteq> 0
        then if history_count s \<ge> FINSH_HISTORY_LINES
             then if cmd_history s ! (FINSH_HISTORY_LINES - 1) \<noteq> take FINSH_CMD_SIZE (line s)
                  then bind_res (new_row s) (\<lambda>row.
                    Inr (s\<lparr>cmd_history := drop 1 (cmd_history s) @ [row], history_count := FINSH_HISTORY_LINES\<rparr>))
                  else Inr s
             else if history_count s = 0 \<or> cmd_history s ! (history_count s - 1) \<noteq> take FINSH_CMD_SIZE (line s)
             then bind_res (new_row s) (\<lambda>row.
               Inr (s\<lparr>current_history := history_count s, cmd_history := (cmd_history s)[history_count s := row],
                      history_count := history_count s + 1\<rparr>))
             else Inr s
        else Inr s)
       (\<lambda>s1. Inr (s1\<lparr>current_history := history_count s1\<rparr>))"

definition set_line :: "string \<Rightarrow> finsh_shell \<Rightarrow> finsh_shell res" where
  "set_line l s = bind_res (c_text l) (\<lambda>t. Inr (s\<lparr>line := l, line_position := wrap16 (length t), line_curpos := wrap16 (length t)\<rparr>))"

definition recall_history :: "finsh_shell \<Rightarrow> finsh_shell res" where
  "recall_history s =
     (if current_history s < length (cmd_history s)
      then bind_res (copy_to 0 (cmd_history s ! current_history s) (line s)) (\<lambda>l. set_line l s)
      else Inl Out_Of_Bounds)"

definition up_key :: "finsh_shell \<Rightarrow> finsh_shell res" where
  "up_key s = (if current_history s > 0 then recall_history (s\<lparr>current_history := current_history s - 1\<rparr>)
               else Inr (s\<lparr>current_history := 0\<rparr>))"

definition down_key :: "finsh_shell \<Rightarrow> finsh_shell res" where
  "down_key s =
     (if current_history s + 1 < history_count s then recall_history (s\<lparr>current_history := current_history s + 1\<rparr>)
      else if history_count s \<noteq> 0 then recall_history (s\<lparr>current_history := history_count s - 1\<rparr>)
      else Inr s)"

definition left_key :: "finsh_shell \<Rightarrow> finsh_shell res" where
  "left_key s = Inr (if line_curpos s \<noteq> 0 then s\<lparr>line_curpos := line_curpos s - 1\<rparr> else s)"

definition right_key :: "finsh_shell \<Rightarrow> finsh_shell res" where
  "right_key s =
     (if line_curpos s < line_position s
      then bind_res (char_at (line s) (line_curpos s)) (\<lambda>_. Inr (s\<lparr>line_curpos := line_curpos s + 1\<rparr>))
      else Inr s)"

definition tab_key :: "shell_env \<Rightarrow> finsh_shell \<Rightarrow> finsh_shell res" where
  "tab_key env s = bind_res (msh_auto_complete env (line s)) (\<lambda>l. set_line l s)"

text \<open>Backspace; a position that is zero wraps around.\<close>

definition backspace_key :: "finsh_shell \<Rightarrow> finsh_shell res" where
  "backspace_key s =
     (if line_curpos s = 0 then Inr s
      else let p = wrap16 (line_position s + 65535); c = line_curpos s - 1 in
        bind_res (if p > c then memmove c (c + 1) (p - c) (line s) else Inr (line s)) (\<lambda>l.
        bind_res (set_char l p nul) (\<lambda>l1. Inr (s\<lparr>line := l1, line_position := p, line_curpos := c\<rparr>))))"

definition enter_key :: "shell_env \<Rightarrow> finsh_shell \<Rightarrow> (finsh_shell \<times> run_result list) res" where
  "enter_key env s =
     bind_res (shell_push_history s) (\<lambda>s1.
     bind_res (msh_exec env (line s1) (line_position s1)) (\<lambda>r.
       Inr (s1\<lparr>line := replicate (FINSH_CMD_SIZE + 1) nul, line_position := 0, line_curpos := 0\<rparr>, [r])))"

text \<open>
  A plain character. A line that is full is given up by resetting positions; before the insertion the
  cursor is not reset, and the contents never are.
\<close>

definition plain_key :: "char \<Rightarrow> finsh_shell \<Rightarrow> finsh_shell res" where
  "plain_key ch s =
     (let p = (if line_position s \<ge> FINSH_CMD_SIZE then 0 else line_position s); c = line_curpos s in
      bind_res
        (if c < p then bind_res (memmove (c + 1) c (p - c) (line s)) (\<lambda>l. set_char l c ch)
         else set_char (line s) p ch)
        (\<lambda>l. Inr (if wrap16 (p + 1) \<ge> FINSH_CMD_SIZE then s\<lparr>line := l, line_position := 0, line_curpos := 0\<rparr>
                  else s\<lparr>line := l, line_position := wrap16 (p + 1), line_curpos := wrap16 (c + 1)\<rparr>)))"

definition quiet :: "finsh_shell res \<Rightarrow> (finsh_shell \<times> run_result list) res" where
  "quiet r = bind_res r (\<lambda>s. Inr (s, []))"

text \<open>What a character does that is not part of an escape sequence.\<close>

definition ordinary_key :: "shell_env \<Rightarrow> char \<Rightarrow> finsh_shell \<Rightarrow> (finsh_shell \<times> run_result list) res" where
  "ordinary_key env ch s =
     (if ch = nul \<or> ch = CHR 0xFF then Inr (s, [])
      else if ch = CHR 0x09 then quiet (tab_key env s)
      else if ch = CHR 0x7F \<or> ch = CHR 0x08 then quiet (backspace_key s)
      else if ch = CHR 0x0D \<or> ch = CHR 0x0A then enter_key env s
      else quiet (plain_key ch s))"

text \<open>One round of the loop of the shell thread.\<close>

definition shell_key :: "shell_env \<Rightarrow> char \<Rightarrow> finsh_shell \<Rightarrow> (finsh_shell \<times> run_result list) res" where
  "shell_key env ch s =
     (if ch = CHR 0x1B then Inr (s\<lparr>stat := WAIT_SPEC_KEY\<rparr>, [])
      else if stat s = WAIT_SPEC_KEY \<and> ch = CHR 0x5B then Inr (s\<lparr>stat := WAIT_FUNC_KEY\<rparr>, [])
      else let s1 = s\<lparr>stat := WAIT_NORMAL\<rparr> in
        if stat s = WAIT_FUNC_KEY \<and> ch = CHR ''A'' then quiet (up_key s1)
        else if stat s = WAIT_FUNC_KEY \<and> ch = CHR ''B'' then quiet (down_key s1)
        else if stat s = WAIT_FUNC_KEY \<and> ch = CHR ''D'' then quiet (left_key s1)
        else if stat s = WAIT_FUNC_KEY \<and> ch = CHR ''C'' then quiet (right_key s1)
        else ordinary_key env ch s1)"

fun shell_run :: "(shell_env \<times> char) list \<Rightarrow> finsh_shell \<Rightarrow> (finsh_shell \<times> run_result list) res" where
  "shell_run [] s = Inr (s, [])"
| "shell_run ((env, ch) # keys) s =
     bind_res (shell_key env ch s) (\<lambda>(s1, rs). bind_res (shell_run keys s1) (\<lambda>(s2, rs'). Inr (s2, rs @ rs')))"

section \<open>An example\<close>

definition console :: shell_env where
  "console = \<lparr>commands = [''ls'', ''echo''], script_found = (\<lambda>_. False), path_memory = True, cwd = ''/'',
     list_dir = (\<lambda>_. Some [''data.csv'', ''data.old''])\<rparr>"

definition typed :: "string \<Rightarrow> (shell_env \<times> char) list" where
  "typed ks = map (Pair console) ks"

end
