(* ===== verification/Shell_Safe.thy ===== *)
theory Shell_Safe
  imports Shell
begin

text \<open>
  The line editor without completion stays inside its arrays, whatever is typed: too long a line is given
  up with its characters left behind, so the invariant speaks about the line up to the position only.
\<close>

section \<open>Running what is left of a line\<close>

text \<open>The functions of the interpreter on a line that need not end at its length.\<close>

lemma strip_blanks_safe:
  assumes "p \<le> len" and "len < length cmd"
  shows "\<exists>cmd1 p1. strip_blanks cmd len p = Inr (cmd1, p1) \<and> length cmd1 = length cmd \<and> p \<le> p1 \<and> p1 \<le> len \<and>
    (p1 < len \<longrightarrow> \<not> is_blank (cmd1 ! p1))"
  using assms
proof (induction cmd len p rule: strip_blanks.induct)
  case (1 cmd len p)
  show ?case
  proof (cases "is_blank (cmd ! p) \<and> p < len")
    case True
    then obtain cmd1 p1 where "strip_blanks (cmd[p := nul]) len (p + 1) = Inr (cmd1, p1)" "length cmd1 = length cmd"
      "p + 1 \<le> p1" "p1 \<le> len" "p1 < len \<longrightarrow> \<not> is_blank (cmd1 ! p1)"
      using 1 by force
    then show ?thesis using True 1(3) by (subst strip_blanks.simps) auto
  next
    case False
    then show ?thesis using 1(2,3) by (subst strip_blanks.simps) auto
  qed
qed

lemma skip_string_safe:
  assumes "p \<le> len + 1" and "len + 1 < length cmd"
  shows "\<exists>p1. skip_string cmd len p = Inr p1 \<and> p \<le> p1 \<and> p1 \<le> len + 1"
  using assms
proof (induction cmd len p rule: skip_string.induct)
  case (1 cmd len p)
  show ?case
  proof (cases "cmd ! p \<noteq> CHR 0x22 \<and> p < len")
    case True
    obtain q where q: "q = (if cmd ! p = CHR 0x5C \<and> cmd ! (p + 1) = CHR 0x22 then p + 2 else p + 1)" by blast
    have "\<exists>p1. skip_string cmd len q = Inr p1 \<and> q \<le> p1 \<and> p1 \<le> len + 1"
      using 1 True q by (auto split: if_splits)
    moreover have "skip_string cmd len p = skip_string cmd len q"
      using True 1(4) q by (subst skip_string.simps) auto
    ultimately show ?thesis using q by (auto split: if_splits)
  next
    case False
    then show ?thesis using 1(3,4) by (subst skip_string.simps) auto
  qed
qed

lemma skip_word_safe:
  assumes "p \<le> len" and "len < length cmd"
  shows "\<exists>p1. skip_word cmd len p = Inr p1 \<and> p \<le> p1 \<and> p1 \<le> len \<and> (p < len \<and> \<not> is_blank (cmd ! p) \<longrightarrow> p < p1)"
  using assms
proof (induction cmd len p rule: skip_word.induct)
  case (1 cmd len p)
  show ?case
  proof (cases "\<not> is_blank (cmd ! p) \<and> p < len")
    case True
    then obtain p1 where "skip_word cmd len (p + 1) = Inr p1" "p + 1 \<le> p1" "p1 \<le> len" using 1 by force
    then show ?thesis using True 1(3) by (subst skip_word.simps) auto
  next
    case False
    then show ?thesis using 1(2,3) by (subst skip_word.simps) auto
  qed
qed

lemma split_loop_safe:
  "len + 1 < length cmd \<Longrightarrow> len < n + p \<Longrightarrow> 0 < n \<Longrightarrow> \<exists>x. split_loop n cmd len p argv = Inr x"
proof (induction n arbitrary: cmd p argv)
  case (Suc n)
  show ?case
  proof (cases "p < len")
    case True
    obtain cmd1 p1 where strip: "strip_blanks cmd len p = Inr (cmd1, p1)" "length cmd1 = length cmd" "p \<le> p1" "p1 \<le> len"
      "p1 < len \<longrightarrow> \<not> is_blank (cmd1 ! p1)"
      using strip_blanks_safe[of p len cmd] True Suc.prems by auto
    have go: "\<exists>x. split_loop n c len q a = Inr x" if "length c = length cmd" "p1 < q" "q < len" for c q a
      by (rule Suc.IH) (use Suc.prems that strip in linarith)+
    have stop: "split_loop n c len q a = Inr (c, a)" if "0 < n" "q \<ge> len" for c q a
      using that by (cases n) simp_all
    have "0 < n" if "p1 < len" using Suc.prems that strip by linarith
    then have further: "\<exists>x. split_loop n c len q a = Inr x" if "length c = length cmd" "p1 < q" "p1 < len" for c q a
      using go[OF that(1,2)] stop that by (cases "q < len") auto
    show ?thesis
    proof (cases "FINSH_ARG_MAX \<le> length argv \<or> p1 \<ge> len")
      case True
      then show ?thesis using strip \<open>p < len\<close> by auto
    next
      case more: False
      obtain e where e: "skip_string cmd1 len (p1 + 1) = Inr e" "p1 + 1 \<le> e" "e \<le> len + 1"
        using skip_string_safe[of "p1 + 1" len cmd1] more strip Suc.prems by auto
      obtain w where w: "skip_word cmd1 len p1 = Inr w" "p1 < w"
        using skip_word_safe[of p1 len cmd1] more strip Suc.prems by auto
      have "p1 < length cmd1" "e < length cmd1" using e more strip Suc.prems by auto
      then show ?thesis
        using \<open>p < len\<close> strip more e w further[of "cmd1[e := nul]" "e + 1"] further[of cmd1 w] by auto
    qed
  qed simp
qed simp

lemma trim_safe:
  "n + 1 < length cmd \<Longrightarrow> nul \<notin> set (take n cmd) \<Longrightarrow> nul \<in> set cmd \<Longrightarrow>
    \<exists>cmd1 n1. trim_line cmd n = Inr (cmd1, n1) \<and> n1 + 1 < length cmd1 \<and> nul \<notin> set (take n1 cmd1) \<and> nul \<in> set cmd1"
proof (induction cmd n rule: trim_line.induct)
  case (3 c cmd n)
  then show ?case by (cases "is_blank c") (auto simp: is_blank_def)
qed auto

lemma msh_exec_safe:
  assumes "env_ok env" and "n + 1 < length cmd" and "nul \<notin> set (take n cmd)" and "nul \<in> set cmd"
  shows "\<exists>r. msh_exec env cmd n = Inr r"
proof -
  obtain cmd1 n1 where trim: "trim_line cmd n = Inr (cmd1, n1)" "n1 + 1 < length cmd1" "nul \<notin> set (take n1 cmd1)" "nul \<in> set cmd1"
    using trim_safe[OF assms(2-4)] by auto
  obtain k where k: "skip_word cmd1 n1 0 = Inr k" "k \<le> n1" using skip_word_safe[of 0 n1 cmd1] trim(2) by auto
  have "nul \<notin> set (take k cmd1)" using trim(3) k(2) set_take_subset_set_take by fast
  then have "msh_get_cmd (commands env) (take k cmd1 @ drop k cmd1) (length (take k cmd1)) 0 = Inr (index_of (take k cmd1) (commands env) 0)"
    using assms(1) by (intro get_cmd_ok) (auto simp: env_ok_def)
  then have get: "msh_get_cmd (commands env) cmd1 k 0 = Inr (index_of (take k cmd1) (commands env) 0)"
    using k(2) trim(2) by simp
  obtain cmd2 argv where "msh_split cmd1 n1 = Inr (cmd2, argv)"
    using split_loop_safe[of n1 cmd1 "n1 + 1" 0 "[]"] trim(2) unfolding msh_split_def by auto
  then have "\<exists>r. msh_exec_cmd env cmd1 n1 = Inr r" using k get by (auto simp: msh_exec_cmd_def split: option.splits)
  then obtain r where "msh_exec_cmd env cmd1 n1 = Inr r" by blast
  moreover have "\<exists>c \<in> set cmd1. c = CHR '' '' \<or> c = nul" using trim(4) by blast
  ultimately show ?thesis using trim(1) k by (auto simp: msh_exec_def until_space_def split: option.splits)
qed

section \<open>The invariant\<close>

definition row_ok :: "string \<Rightarrow> bool" where
  "row_ok row \<longleftrightarrow> length row = FINSH_CMD_SIZE \<and> last row = nul"

definition shell_inv :: "finsh_shell \<Rightarrow> bool" where
  "shell_inv s \<longleftrightarrow> length (line s) = FINSH_CMD_SIZE + 1 \<and> last (line s) = nul \<and>
     line_curpos s \<le> line_position s \<and> line_position s < FINSH_CMD_SIZE \<and> nul \<notin> set (take (line_position s) (line s)) \<and>
     length (cmd_history s) = FINSH_HISTORY_LINES \<and> (\<forall>row \<in> set (cmd_history s). row_ok row) \<and>
     history_count s \<le> FINSH_HISTORY_LINES \<and> current_history s \<le> history_count s"

lemma shell_inv_start: "shell_inv shell_start"
  by (simp add: shell_inv_def shell_start_def row_ok_def)

lemma stat_inv [simp]: "shell_inv (s\<lparr>stat := x\<rparr>) = shell_inv s"
  by (simp add: shell_inv_def)

text \<open>An operation that works and keeps the invariant.\<close>

definition keeps :: "finsh_shell res \<Rightarrow> bool" where
  "keeps r \<longleftrightarrow> (\<exists>s. r = Inr s \<and> shell_inv s)"

lemma keeps_Inr [simp]: "keeps (Inr s) = shell_inv s"
  by (simp add: keeps_def)

lemma take_list_update_nul: "nul \<notin> set (take n l) \<Longrightarrow> c \<noteq> nul \<Longrightarrow> i \<le> n \<Longrightarrow> nul \<notin> set (take n (l[i := c]))"
  by (auto simp: take_update_swap dest: set_update_subset_insert[THEN subsetD])

lemma takeWhile_last: "l \<noteq> [] \<Longrightarrow> last l = x \<Longrightarrow> length (takeWhile (\<lambda>c. c \<noteq> x) l) < length l"
proof (induction l)
  case (Cons c l)
  then show ?case by (cases "l = []") auto
qed simp

text \<open>A recalled row.\<close>

lemma recall_keeps:
  assumes "shell_inv s" and "i < history_count s"
  shows "keeps (recall_history (s\<lparr>current_history := i\<rparr>))"
proof -
  let ?row = "cmd_history s ! i"
  have i: "i < length (cmd_history s)" using assms by (auto simp: shell_inv_def)
  then have row: "length ?row = 80" "last ?row = nul" using assms(1) by (auto simp: shell_inv_def row_ok_def)
  obtain e where l: "drop 80 (line s) = [e]" and e: "e = nul"
  proof -
    obtain xs e where l: "line s = xs @ [e]" using assms(1) by (cases "line s" rule: rev_cases) (auto simp: shell_inv_def)
    have "e = nul" "drop 80 (line s) = [e]" using assms(1) l by (auto simp: shell_inv_def)
    then show thesis using that by blast
  qed
  have cp: "copy_to 0 ?row (line s) = Inr (?row @ [nul])" using assms(1) row l e by (simp add: copy_to_def shell_inv_def)
  have nn: "?row \<noteq> []" using row(1) by auto
  have lt: "length (takeWhile (\<lambda>c. c \<noteq> nul) ?row) < 80" using takeWhile_last[OF nn row(2)] row(1) by simp
  have mem: "nul \<in> set ?row" using nn row(2) last_in_set by metis
  then have tw: "takeWhile (\<lambda>c. c \<noteq> nul) (?row @ [nul]) = takeWhile (\<lambda>c. c \<noteq> nul) ?row" by auto
  have "take (length (takeWhile (\<lambda>c. c \<noteq> nul) ?row)) (?row @ [nul]) = takeWhile (\<lambda>c. c \<noteq> nul) ?row"
    by (metis append_assoc append_eq_conv_conj takeWhile_dropWhile_id)
  moreover have "nul \<notin> set (takeWhile (\<lambda>c. c \<noteq> nul) ?row)" by (auto dest: set_takeWhileD)
  ultimately show ?thesis
    using assms i cp lt mem row tw
    by (auto simp: recall_history_def set_line_def c_text_def wrap16_def shell_inv_def)
qed

section \<open>Keys\<close>

lemma cursor_keys_keep:
  assumes "shell_inv s"
  shows "keeps (up_key s)" and "keeps (down_key s)" and "keeps (left_key s)" and "keeps (right_key s)"
proof -
  have "history_count s \<le> 5" "current_history s \<le> history_count s" "length (line s) = 81" "line_position s < 80"
    using assms by (auto simp: shell_inv_def)
  then show "keeps (up_key s)" "keeps (down_key s)" "keeps (left_key s)" "keeps (right_key s)"
    using assms recall_keeps[OF assms]
    by (auto simp: up_key_def down_key_def left_key_def right_key_def shell_inv_def)
qed

lemma wrap16_dec: "n < 65535 \<Longrightarrow> wrap16 (n + 1 + 65535) = n"
  by (simp add: wrap16_def)

lemma memmove_left:
  assumes "c < p" and "p < length l"
  shows "memmove c (c + 1) (p - c) l = Inr (take c l @ take (p - c) (drop (c + 1) l) @ drop p l)"
  using assms by (simp add: memmove_def)

lemma memmove_right:
  assumes "c < p" and "p < length l"
  shows "memmove (c + 1) c (p - c) l = Inr (take (c + 1) l @ take (p - c) (drop c l) @ drop (p + 1) l)"
  using assms by (simp add: memmove_def)

lemma last_append_drop: "n < length l \<Longrightarrow> last (a @ b @ drop n l) = last l"
  by simp

lemma join_parts:
  assumes "length a + length b = n" and "n \<le> length l"
  shows "length (a @ b @ drop n l) = length l" and "take n (a @ b @ drop n l) = a @ b"
  using assms by auto

lemma nul_notin_parts:
  assumes "nul \<notin> set (take p l)"
  shows "n \<le> p \<Longrightarrow> nul \<notin> set (take n l)" and "i + n \<le> p \<Longrightarrow> nul \<notin> set (take n (drop i l))"
proof -
  show "nul \<notin> set (take n l)" if "n \<le> p" using assms that set_take_subset_set_take by fast
  show "nul \<notin> set (take n (drop i l))" if "i + n \<le> p"
  proof -
    have "take n (drop i l) = drop i (take (i + n) l)" by (simp add: drop_take)
    moreover have "nul \<notin> set (take (i + n) l)" using assms that set_take_subset_set_take by fast
    ultimately show ?thesis by (metis in_set_dropD)
  qed
qed

lemma delete_at:
  assumes "c < p" and "p < length l" and "nul \<notin> set (take (p + 1) l)"
  obtains m where "memmove c (c + 1) (p - c) l = Inr m" "length m = length l" "last m = last l" "nul \<notin> set (take p m)"
proof -
  obtain a b where ab: "a = take c l" "b = take (p - c) (drop (c + 1) l)" by blast
  have n: "length a + length b = p" "p \<le> length l" using assms ab by simp_all
  have "nul \<notin> set (a @ b)" using nul_notin_parts[OF assms(3)] assms(1) ab by simp
  then show thesis
    using that[of "a @ b @ drop p l"] memmove_left[OF assms(1,2)] last_append_drop[OF assms(2), of a b] join_parts[OF n]
    unfolding ab by metis
qed

lemma insert_at:
  assumes "c < p" and "p + 1 < length l" and "nul \<notin> set (take p l)" and "ch \<noteq> nul"
  obtains m where "bind_res (memmove (c + 1) c (p - c) l) (\<lambda>l. set_char l c ch) = Inr m" "length m = length l"
    "last m = last l" "nul \<notin> set (take (p + 1) m)"
proof -
  obtain a b where ab: "a = take (c + 1) l" "b = take (p - c) (drop c l)" by blast
  have n: "length a + length b = p + 1" "p + 1 \<le> length l" using assms ab by simp_all
  obtain m where m: "m = a @ b @ drop (p + 1) l" by blast
  have mv: "memmove (c + 1) c (p - c) l = Inr m" using memmove_right[of c p l] assms m ab by simp
  have len: "length m = length l" "take (p + 1) m = a @ b" using join_parts[OF n] m by auto
  have "nul \<notin> set (take (p + 1) m)" using nul_notin_parts[OF assms(3)] assms(1) ab len(2) by simp
  then have "nul \<notin> set (take (p + 1) (m[c := ch]))" using take_list_update_nul assms(1,4) by simp
  moreover have "last m = last l" using last_append_drop[OF assms(2), of a b] m by simp
  then have "last (m[c := ch]) = last l" using len(1) assms(1,2) by (subst last_list_update) auto
  ultimately show thesis using that[of "m[c := ch]"] mv len(1) assms(1,2) by simp
qed

lemma backspace_keeps:
  assumes "shell_inv s"
  shows "keeps (backspace_key s)"
proof (cases "line_curpos s = 0")
  case False
  obtain p c l where v: "p = line_position s - 1" "c = line_curpos s - 1" "l = line s" by blast
  have inv: "length l = 81" "last l = nul" "c \<le> p" "p < 79" "nul \<notin> set (take (p + 1) l)" "line_position s = p + 1" "line_curpos s = c + 1"
    using assms False v by (auto simp: shell_inv_def)
  have p: "wrap16 (line_position s + 65535) = p" unfolding inv(6) by (rule wrap16_dec) (use inv(4) in linarith)
  obtain m where m: "(if c < p then memmove c (c + 1) (p - c) l else Inr l) = Inr m" "length m = 81" "last m = nul"
    "nul \<notin> set (take p m)"
  proof (cases "c < p")
    case True
    then show ?thesis using delete_at[OF True _ inv(5)] that inv by auto
  next
    case False
    then show ?thesis using that inv nul_notin_parts(1)[OF inv(5), of p] by simp
  qed
  have "last (m[p := nul]) = nul" using m(2,3) inv(4) by (subst last_list_update) auto
  moreover have "backspace_key s = Inr (s\<lparr>line := m[p := nul], line_position := p, line_curpos := c\<rparr>)"
    using m(1,2) p inv(4,7) v(3)[symmetric] by (cases "c < p") (simp_all add: backspace_key_def Let_def)
  ultimately show ?thesis using assms m inv by (simp add: shell_inv_def)
qed (simp add: backspace_key_def assms)

lemma plain_keeps:
  assumes "shell_inv s" and "ch \<noteq> nul"
  shows "keeps (plain_key ch s)"
proof -
  obtain p c l where v: "p = line_position s" "c = line_curpos s" "l = line s" by blast
  have inv: "length l = 81" "last l = nul" "c \<le> p" "p < 80" "nul \<notin> set (take p l)"
    using assms(1) v by (auto simp: shell_inv_def)
  obtain m where m: "(if c < p then bind_res (memmove (c + 1) c (p - c) l) (\<lambda>l. set_char l c ch) else set_char l p ch) = Inr m"
    "length m = 81" "last m = nul" "nul \<notin> set (take (p + 1) m)"
  proof (cases "c < p")
    case True
    then show ?thesis using insert_at[OF True _ inv(5) assms(2)] that inv by auto
  next
    case False
    have "nul \<notin> set (take (p + 1) (l[p := ch]))" using inv assms(2) by (simp add: take_Suc_conv_app_nth)
    moreover have "last (l[p := ch]) = nul" using inv by (subst last_list_update) auto
    ultimately show ?thesis using that[of "l[p := ch]"] False inv by simp
  qed
  have "plain_key ch s = Inr (if p + 1 \<ge> 80 then s\<lparr>line := m, line_position := 0, line_curpos := 0\<rparr>
      else s\<lparr>line := m, line_position := p + 1, line_curpos := c + 1\<rparr>)"
    using m(1) inv unfolding v by (simp add: plain_key_def Let_def wrap16_def)
  then show ?thesis using assms m inv by (simp add: shell_inv_def)
qed

lemma new_row_ok:
  assumes "shell_inv s"
  shows "new_row s = Inr (take (line_position s) (line s) @ replicate (80 - line_position s) nul)"
    and "row_ok (take (line_position s) (line s) @ replicate (80 - line_position s) nul)"
  using assms by (auto simp: new_row_def copy_to_def shell_inv_def row_ok_def)

lemma push_keeps:
  assumes "shell_inv s"
  shows "\<exists>s1. shell_push_history s = Inr s1 \<and> shell_inv s1 \<and> line s1 = line s \<and> line_position s1 = line_position s"
proof -
  let ?row = "take (line_position s) (line s) @ replicate (80 - line_position s) nul"
  have rows: "\<forall>r \<in> set ((cmd_history s)[i := ?row]). row_ok r" "\<forall>r \<in> set (drop (Suc 0) (cmd_history s) @ [?row]). row_ok r" for i
    using assms new_row_ok(2)[OF assms] set_update_subset_insert[of "cmd_history s" i ?row]
    by (auto simp: shell_inv_def dest: in_set_dropD)
  have inv: "length (cmd_history s) = 5" "history_count s \<le> 5" using assms by (auto simp: shell_inv_def)
  show ?thesis
  proof (cases "line_position s = 0")
    case True
    then show ?thesis using assms by (auto simp: shell_push_history_def shell_inv_def)
  next
    case pos: False
    consider "history_count s < 5" | "history_count s = 5" using inv by linarith
    then show ?thesis
    proof cases
      case 1
      then show ?thesis
        using assms pos rows(1) inv new_row_ok(1)[OF assms]
        by (cases "history_count s = 0 \<or> cmd_history s ! (history_count s - 1) \<noteq> take 80 (line s)")
          (simp_all add: shell_push_history_def shell_inv_def)
    next
      case 2
      then show ?thesis
        using assms pos rows(2) inv new_row_ok(1)[OF assms]
        by (cases "cmd_history s ! 4 = take 80 (line s)") (simp_all add: shell_push_history_def shell_inv_def)
    qed
  qed
qed

lemma enter_keeps:
  assumes "shell_inv s" and "env_ok env"
  shows "\<exists>s1 rs. enter_key env s = Inr (s1, rs) \<and> shell_inv s1"
proof -
  obtain s1 where s1: "shell_push_history s = Inr s1" "shell_inv s1" using push_keeps[OF assms(1)] by blast
  have "line s1 \<noteq> []" "last (line s1) = nul" using s1(2) by (auto simp: shell_inv_def)
  then have "nul \<in> set (line s1)" by (metis last_in_set)
  then obtain r where "msh_exec env (line s1) (line_position s1) = Inr r"
    using msh_exec_safe[OF assms(2), of "line_position s1" "line s1"] s1(2) by (auto simp: shell_inv_def)
  moreover have "shell_inv (s1\<lparr>line := replicate 81 nul, line_position := 0, line_curpos := 0\<rparr>)"
    using s1(2) by (simp add: shell_inv_def)
  ultimately show ?thesis using s1(1) by (simp add: enter_key_def)
qed

lemma shell_key_keeps:
  assumes "shell_inv s" and "env_ok env" and "ch \<noteq> CHR 0x09"
  shows "\<exists>s1 rs. shell_key env ch s = Inr (s1, rs) \<and> shell_inv s1"
proof -
  let ?s = "s\<lparr>stat := WAIT_NORMAL\<rparr>"
  have inv: "shell_inv ?s" using assms(1) by simp
  have quiet: "\<exists>s1 rs. quiet r = Inr (s1, rs) \<and> shell_inv s1" if "keeps r" for r
    using that by (auto simp: keeps_def quiet_def)
  have "\<exists>s1 rs. ordinary_key env ch ?s = Inr (s1, rs) \<and> shell_inv s1"
    using inv assms(3) quiet[OF backspace_keeps[OF inv]] quiet[OF plain_keeps[OF inv]] enter_keeps[OF inv assms(2)]
    by (simp add: ordinary_key_def)
  then show ?thesis
    using assms(1) quiet[OF cursor_keys_keep(1)[OF inv]] quiet[OF cursor_keys_keep(2)[OF inv]]
      quiet[OF cursor_keys_keep(3)[OF inv]] quiet[OF cursor_keys_keep(4)[OF inv]]
    unfolding shell_key_def Let_def by auto
qed

lemma shell_run_keeps:
  "shell_inv s \<Longrightarrow> \<forall>(env, ch) \<in> set keys. env_ok env \<and> ch \<noteq> CHR 0x09 \<Longrightarrow>
    \<exists>s1 rs. shell_run keys s = Inr (s1, rs) \<and> shell_inv s1"
proof (induction keys arbitrary: s)
  case (Cons k keys)
  obtain env ch where k: "k = (env, ch)" by (cases k)
  obtain s1 rs where "shell_key env ch s = Inr (s1, rs)" "shell_inv s1"
    using shell_key_keeps[OF Cons.prems(1), of env ch] Cons.prems(2) k by auto
  moreover have "\<forall>(env, ch) \<in> set keys. env_ok env \<and> ch \<noteq> CHR 0x09" using Cons.prems(2) by simp
  then obtain s2 rs' where "shell_run keys s1 = Inr (s2, rs')" "shell_inv s2"
    using Cons.IH[OF \<open>shell_inv s1\<close>] by blast
  ultimately show ?case using k by simp
qed simp

text \<open>C22. Whatever is typed into the console, and however long the lines are, the editor stays inside the
  line and the history, and what it runs is inside the line, as long as the completion key is not used.\<close>

theorem shell_safe:
  assumes "\<forall>(env, ch) \<in> set keys. env_ok env \<and> ch \<noteq> CHR 0x09"
  shows "\<exists>s rs. shell_run keys shell_start = Inr (s, rs) \<and> shell_inv s"
  using shell_run_keeps[OF shell_inv_start assms] .

lemma console_env: "env_ok console"
  by (auto simp: console_def env_ok_def)

theorem shell_safe_witness:
  "\<exists>s rs. shell_run (typed (''ls x'' @ [CHR 0x1B, CHR ''['', CHR ''D'', CHR 0x08, CHR 0x0D])) shell_start = Inr (s, rs) \<and> shell_inv s"
  by (rule shell_safe) (simp add: typed_def console_env)

end
