(* ===== verification/Shell_Edit.thy ===== *)
theory Shell_Edit
  imports Shell_Safe
begin

text \<open>
  What the line editor is for: a text with a cursor in it, a history, and commands that are run. As long
  as no line gets too long, the arrays and positions of the shell are that, padded with end marks.
\<close>

section \<open>The editor\<close>

record editor =
  ed_mode :: input_stat
  ed_before :: string
  ed_after :: string
  ed_past :: "string list"
  ed_browse :: nat

definition ed_start :: editor where
  "ed_start = \<lparr>ed_mode = WAIT_NORMAL, ed_before = [], ed_after = [], ed_past = [], ed_browse = 0\<rparr>"

definition ed_text :: "editor \<Rightarrow> string" where
  "ed_text e = ed_before e @ ed_after e"

text \<open>The last name of a path, and completion of a text.\<close>

definition last_name :: "string \<Rightarrow> string" where
  "last_name p = rev (takeWhile (\<lambda>c. c \<noteq> CHR ''/'') (rev p))"

definition shared :: "string list \<Rightarrow> string" where
  "shared ms = take (common_length (hd ms) ms) (hd ms)"

definition match_command :: "shell_env \<Rightarrow> string \<Rightarrow> string" where
  "match_command env t = (case candidates t (commands env) of [] \<Rightarrow> t | m # ms \<Rightarrow> shared (m # ms))"

definition match_path :: "shell_env \<Rightarrow> nat \<Rightarrow> string \<Rightarrow> string" where
  "match_path env off t =
     (let path = drop off t; name = last_name path; dir = take (length path - length name) path;
          full = (if path \<noteq> [] \<and> hd path = CHR ''/'' then [] else cwd env @ (if last (cwd env) \<noteq> CHR ''/'' then ''/'' else [])) @ dir
      in if \<not> path_memory env \<or> name = [] then t
         else case list_dir env full of
             None \<Rightarrow> t
           | Some names \<Rightarrow> (case candidates name names of [] \<Rightarrow> t | m # ms \<Rightarrow> take off t @ dir @ shared (m # ms)))"

definition complete_text :: "shell_env \<Rightarrow> string \<Rightarrow> string" where
  "complete_text env t =
     (if t = [] then [] else match_command env (case after_space t of None \<Rightarrow> t | Some off \<Rightarrow> match_path env off t))"

text \<open>Keys. A line that would get too long is no longer described.\<close>

definition ed_recall :: "nat \<Rightarrow> editor \<Rightarrow> editor" where
  "ed_recall i e = e\<lparr>ed_browse := i, ed_before := ed_past e ! i, ed_after := []\<rparr>"

definition ed_up :: "editor \<Rightarrow> editor" where
  "ed_up e = (if ed_browse e > 0 then ed_recall (ed_browse e - 1) e else e)"

definition ed_down :: "editor \<Rightarrow> editor" where
  "ed_down e = (if ed_past e = [] then e else ed_recall (min (ed_browse e + 1) (length (ed_past e) - 1)) e)"

definition ed_left :: "editor \<Rightarrow> editor" where
  "ed_left e = (if ed_before e = [] then e else e\<lparr>ed_before := butlast (ed_before e), ed_after := last (ed_before e) # ed_after e\<rparr>)"

definition ed_right :: "editor \<Rightarrow> editor" where
  "ed_right e = (if ed_after e = [] then e else e\<lparr>ed_before := ed_before e @ [hd (ed_after e)], ed_after := tl (ed_after e)\<rparr>)"

definition ed_backspace :: "editor \<Rightarrow> editor" where
  "ed_backspace e = e\<lparr>ed_before := butlast (ed_before e)\<rparr>"

definition ed_type :: "char \<Rightarrow> editor \<Rightarrow> editor option" where
  "ed_type c e = (if length (ed_text e) + 1 < 80 then Some (e\<lparr>ed_before := ed_before e @ [c]\<rparr>) else None)"

definition ed_tab :: "shell_env \<Rightarrow> editor \<Rightarrow> editor option" where
  "ed_tab env e =
     (let t = complete_text env (ed_text e) in if length t < 80 then Some (e\<lparr>ed_before := t, ed_after := []\<rparr>) else None)"

text \<open>The history keeps five lines, none of them blank, and no line twice in a row.\<close>

definition remember :: "string \<Rightarrow> string list \<Rightarrow> string list" where
  "remember t h =
     (if t = [] \<or> h \<noteq> [] \<and> last h = t then h else if length h < 5 then h @ [t] else drop 1 h @ [t])"

definition ed_enter :: "editor \<Rightarrow> editor" where
  "ed_enter e =
     (let h = remember (ed_text e) (ed_past e) in e\<lparr>ed_before := [], ed_after := [], ed_past := h, ed_browse := length h\<rparr>)"

definition ed_ordinary :: "shell_env \<Rightarrow> char \<Rightarrow> editor \<Rightarrow> (editor \<times> run_result list) option" where
  "ed_ordinary env ch e =
     (if ch = nul \<or> ch = CHR 0xFF then Some (e, [])
      else if ch = CHR 0x09 then map_option (\<lambda>e. (e, [])) (ed_tab env e)
      else if ch = CHR 0x7F \<or> ch = CHR 0x08 then Some (ed_backspace e, [])
      else if ch = CHR 0x0D \<or> ch = CHR 0x0A then Some (ed_enter e, [exec_spec env (ed_text e)])
      else map_option (\<lambda>e. (e, [])) (ed_type ch e))"

definition ed_key :: "shell_env \<Rightarrow> char \<Rightarrow> editor \<Rightarrow> (editor \<times> run_result list) option" where
  "ed_key env ch e =
     (let e1 = e\<lparr>ed_mode := WAIT_NORMAL\<rparr> in
      if ch = CHR 0x1B then Some (e\<lparr>ed_mode := WAIT_SPEC_KEY\<rparr>, [])
      else if ed_mode e = WAIT_SPEC_KEY \<and> ch = CHR 0x5B then Some (e\<lparr>ed_mode := WAIT_FUNC_KEY\<rparr>, [])
      else if ed_mode e = WAIT_FUNC_KEY \<and> ch = CHR ''A'' then Some (ed_up e1, [])
      else if ed_mode e = WAIT_FUNC_KEY \<and> ch = CHR ''B'' then Some (ed_down e1, [])
      else if ed_mode e = WAIT_FUNC_KEY \<and> ch = CHR ''D'' then Some (ed_left e1, [])
      else if ed_mode e = WAIT_FUNC_KEY \<and> ch = CHR ''C'' then Some (ed_right e1, [])
      else ed_ordinary env ch e1)"

fun ed_run :: "(shell_env \<times> char) list \<Rightarrow> editor \<Rightarrow> (editor \<times> run_result list) option" where
  "ed_run [] e = Some (e, [])"
| "ed_run ((env, ch) # keys) e =
     (case ed_key env ch e of
        None \<Rightarrow> None
      | Some (e1, rs) \<Rightarrow> map_option (\<lambda>(e2, rs'). (e2, rs @ rs')) (ed_run keys e1))"

section \<open>Padded text\<close>

definition padded :: "nat \<Rightarrow> string \<Rightarrow> string" where
  "padded n t = t @ replicate (n - length t) nul"

lemma padded_inject: "nul \<notin> set t \<Longrightarrow> nul \<notin> set u \<Longrightarrow> padded n t = padded n u \<Longrightarrow> t = u"
proof -
  assume n: "nul \<notin> set t" "nul \<notin> set u" and eq: "padded n t = padded n u"
  have "takeWhile (\<lambda>c. c \<noteq> nul) (padded n v) = v" if "nul \<notin> set v" for v
  proof -
    have "takeWhile (\<lambda>c. c \<noteq> nul) (replicate k nul) = []" for k by (cases k) simp_all
    moreover have "\<And>c. c \<in> set v \<Longrightarrow> c \<noteq> nul" using that by blast
    ultimately show ?thesis unfolding padded_def by (simp add: takeWhile_append2)
  qed
  then show "t = u" using n eq by metis
qed

lemma padded_split: "length t < n \<Longrightarrow> padded n t = t @ nul # replicate (n - length t - 1) nul"
  by (simp add: padded_def Suc_diff_Suc flip: replicate_Suc)

lemma length_padded [simp]: "length t \<le> n \<Longrightarrow> length (padded n t) = n"
  by (simp add: padded_def)

lemma c_text_padded: "nul \<notin> set t \<Longrightarrow> length t < n \<Longrightarrow> c_text (padded n t) = Inr t"
  by (simp add: c_text_def padded_split takeWhile_nul)

lemma take_padded: "length t \<le> m \<Longrightarrow> m \<le> n \<Longrightarrow> take m (padded n t) = padded m t"
  by (simp add: padded_def)

lemma padded_81: "length t < 80 \<Longrightarrow> padded 81 t = padded 80 t @ [nul]"
proof -
  assume "length t < 80"
  then have "81 - length t = Suc (80 - length t)" by simp
  then show ?thesis unfolding padded_def by (simp add: replicate_append_same)
qed

text \<open>Inserting and deleting at the cursor.\<close>

lemma delete_padded:
  assumes "length b + 1 + length a < n"
  shows "bind_res (if length b + length a > length b then memmove (length b) (length b + 1) (length a) (padded n (b @ x # a)) else Inr (padded n (b @ x # a)))
    (\<lambda>l. set_char l (length b + length a) nul) = Inr (padded n (b @ a))"
proof -
  let ?k = "n - (length b + 1 + length a)"
  have l: "padded n (b @ x # a) = b @ x # a @ replicate ?k nul" by (simp add: padded_def)
  have p: "padded n (b @ a) = b @ a @ nul # replicate ?k nul" using assms by (simp add: padded_def Suc_diff_le flip: replicate_Suc)
  show ?thesis
  proof (cases a rule: rev_cases)
    case Nil
    then show ?thesis unfolding l p by (simp add: set_char_def)
  next
    case (snoc a' y)
    then show ?thesis unfolding l p by (simp add: memmove_def set_char_def list_update_append)
  qed
qed

lemma insert_padded:
  assumes "length b + length a + 1 < n"
  shows "(if length b < length b + length a then bind_res (memmove (length b + 1) (length b) (length a) (padded n (b @ a))) (\<lambda>l. set_char l (length b) c)
     else set_char (padded n (b @ a)) (length b + length a) c) = Inr (padded n (b @ c # a))"
proof -
  let ?k = "n - (length b + 1 + length a)"
  have l: "padded n (b @ a) = b @ a @ nul # replicate ?k nul" using assms by (simp add: padded_def Suc_diff_le flip: replicate_Suc)
  have p: "padded n (b @ c # a) = b @ c # a @ replicate ?k nul" by (simp add: padded_def)
  show ?thesis
  proof (cases a)
    case Nil
    then show ?thesis unfolding l p by (simp add: set_char_def)
  next
    case (Cons y a')
    then show ?thesis unfolding l p by (simp add: memmove_def set_char_def list_update_append)
  qed
qed

section \<open>Completion\<close>

text \<open>What the completion needs of the environment.\<close>

definition dirs_ok :: "shell_env \<Rightarrow> bool" where
  "dirs_ok env \<longleftrightarrow> cwd env \<noteq> [] \<and> length (cwd env) < 170 \<and>
     (\<forall>p names. list_dir env p = Some names \<longrightarrow> (\<forall>n \<in> set names. nul \<notin> set n \<and> length n < 256))"

lemma str_common_prefix: "take (length p) a = p \<Longrightarrow> take (length p) b = p \<Longrightarrow> length p \<le> str_common a b"
proof (induction p arbitrary: a b)
  case (Cons c p)
  then show ?case by (cases a; cases b) auto
qed simp

lemma common_length_bounds:
  "(\<forall>n \<in> set ms. k \<le> str_common m n) \<Longrightarrow> k \<le> length m \<Longrightarrow> k \<le> common_length m ms \<and> common_length m ms \<le> length m"
proof -
  have "k \<le> foldl (\<lambda>k n. min k (str_common m n)) j ms \<and> foldl (\<lambda>k n. min k (str_common m n)) j ms \<le> j"
    if "\<forall>n \<in> set ms. k \<le> str_common m n" "k \<le> j" for j
    using that
  proof (induction ms arbitrary: j)
    case (Cons n ms)
    then show ?case using Cons.IH[of "min j (str_common m n)"] by simp
  qed simp
  then show "(\<forall>n \<in> set ms. k \<le> str_common m n) \<Longrightarrow> k \<le> length m \<Longrightarrow> ?thesis" unfolding common_length_def by blast
qed

lemma shared_facts:
  assumes "candidates p names = m # ms"
  shows "length p \<le> common_length m (m # ms)" and "common_length m (m # ms) \<le> length m"
    and "length (shared (m # ms)) = common_length m (m # ms)" and "m \<in> set names"
proof -
  have c: "\<forall>n \<in> set (m # ms). n \<in> set names \<and> take (length p) n = p"
    using arg_cong[OF assms, of set] unfolding candidates_def by auto
  then have "take (length p) m = p" by simp
  then have "length p \<le> length m" by (metis length_take min.cobounded1)
  moreover have "\<forall>n \<in> set (m # ms). length p \<le> str_common m n"
    using c \<open>take (length p) m = p\<close> str_common_prefix by blast
  ultimately show "length p \<le> common_length m (m # ms)" "common_length m (m # ms) \<le> length m"
    using common_length_bounds by blast+
  then show "length (shared (m # ms)) = common_length m (m # ms)" by (simp add: shared_def)
  show "m \<in> set names" using c by simp
qed

lemma complete_command_ok:
  assumes "env_ok env" and "nul \<notin> set t" and "length t < 81" and "length (match_command env t) < 81"
  shows "complete_command env (padded 81 t) = Inr (padded 81 (match_command env t))" and "nul \<notin> set (match_command env t)"
    and "length t \<le> length (match_command env t)"
proof -
  have "complete_command env (padded 81 t) = Inr (padded 81 (match_command env t)) \<and> nul \<notin> set (match_command env t) \<and>
    length t \<le> length (match_command env t)"
  proof (cases "candidates t (commands env)")
    case Nil
    then show ?thesis using assms c_text_padded[of t 81] by (simp add: complete_command_def match_command_def)
  next
    case (Cons m ms)
    note f = shared_facts[OF Cons]
    have mc: "match_command env t = shared (m # ms)" using Cons by (simp add: match_command_def)
    have "nul \<notin> set (shared (m # ms))"
      using assms(1) f(4) by (auto simp: env_ok_def shared_def dest: in_set_takeD)
    moreover have "copy_to 0 (shared (m # ms)) (padded 81 t) = Inr (padded 81 (shared (m # ms)))"
      using assms(3,4) f mc by (simp add: copy_to_def padded_def)
    ultimately show ?thesis
      using Cons assms f c_text_padded[of t 81] mc by (simp add: complete_command_def shared_def)
  qed
  then show "complete_command env (padded 81 t) = Inr (padded 81 (match_command env t))" "nul \<notin> set (match_command env t)"
    "length t \<le> length (match_command env t)" by blast+
qed

lemma last_name_split: "take (length p - length (last_name p)) p @ last_name p = p"
proof -
  have "p = rev (dropWhile (\<lambda>c. c \<noteq> CHR ''/'') (rev p)) @ last_name p"
    unfolding last_name_def by (metis rev_append rev_rev_ident takeWhile_dropWhile_id)
  then obtain d where "p = d @ last_name p" by blast
  then show ?thesis by (metis append_eq_conv_conj diff_add_inverse2 length_append)
qed

lemma complete_path_ok:
  assumes "dirs_ok env" and "nul \<notin> set t" and "off \<le> length t" and "length t < 81" and "length (match_path env off t) < 81"
  shows "msh_auto_complete_path env off (padded 81 t) = Inr (padded 81 (match_path env off t)) \<and> nul \<notin> set (match_path env off t) \<and>
    length t \<le> length (match_path env off t)"
proof -
  obtain path name dir where nd: "path = drop off t" "name = last_name path" "dir = take (length path - length name) path" by blast
  obtain root where root: "root = (if path \<noteq> [] \<and> hd path = CHR ''/'' then [] else cwd env @ (if last (cwd env) \<noteq> CHR ''/'' then ''/'' else []))"
    by blast
  have split: "path = dir @ name" using last_name_split[of path] nd(2,3) by simp
  have t: "t = take off t @ dir @ name" using split nd(1) by (metis append_take_drop_id)
  have len: "length t = off + length dir + length name" using arg_cong[OF t, of length] assms(3) by simp
  have cs: "c_string (padded 81 t) off = path"
  proof -
    have e: "padded 81 t = take off t @ path @ nul # replicate (81 - length t - 1) nul"
      using assms(4) nd(1) by (simp add: padded_split)
    have "nul \<notin> set path" using assms(2) nd(1) by (metis in_set_dropD)
    then show ?thesis unfolding e by (rule c_string_at) (use assms(3) in simp)
  qed
  have "length path - length (takeWhile (\<lambda>c. c \<noteq> CHR ''/'') (rev path)) = length dir"
  proof -
    have "length (takeWhile (\<lambda>c. c \<noteq> CHR ''/'') (rev path)) = length name" by (simp add: nd(2) last_name_def)
    moreover have "length path = length dir + length name" using arg_cong[OF split, of length] by simp
    ultimately show ?thesis by linarith
  qed
  moreover have "drop (length dir) path = name" "take (length dir) path = dir" using split by simp_all
  ultimately have code: "msh_auto_complete_path env off (padded 81 t) =
      (if \<not> path_memory env then Inr (padded 81 t)
       else if cwd env = [] \<or> length (cwd env) \<ge> 256 \<or> length (root @ dir) \<ge> 256 then Inl Out_Of_Bounds
       else case list_dir env (root @ dir) of
           None \<Rightarrow> Inr (padded 81 t)
         | Some names \<Rightarrow>
             if name = [] then Inr (padded 81 t)
             else (case candidates name names of
                 [] \<Rightarrow> Inr (padded 81 t)
               | m # ms \<Rightarrow>
                   if length m \<ge> 256 then Inl Out_Of_Bounds
                   else copy_to (off + length dir) (shared (m # ms) @ [nul]) (padded 81 t)))"
    unfolding msh_auto_complete_path_def cs Let_def root shared_def list.sel by (simp only:)
  have spec: "match_path env off t =
      (if \<not> path_memory env \<or> name = [] then t
       else case list_dir env (root @ dir) of
           None \<Rightarrow> t
         | Some names \<Rightarrow> (case candidates name names of [] \<Rightarrow> t | m # ms \<Rightarrow> take off t @ dir @ shared (m # ms)))"
    unfolding match_path_def Let_def root nd ..
  have small: "cwd env \<noteq> []" "length (cwd env) < 170" "length (root @ dir) < 256"
    using assms(1,4) len root by (auto simp: dirs_ok_def)
  show ?thesis
  proof (cases "path_memory env \<and> name \<noteq> [] \<and> (\<exists>names m ms. list_dir env (root @ dir) = Some names \<and> candidates name names = m # ms)")
    case False
    then show ?thesis using code spec small assms(2) by (auto split: option.splits list.splits)
  next
    case True
    then obtain names m ms where d: "path_memory env" "name \<noteq> []" "list_dir env (root @ dir) = Some names" "candidates name names = m # ms"
      by blast
    note f = shared_facts[OF d(4)]
    obtain w where w: "w = shared (m # ms)" by blast
    have mp: "match_path env off t = take off t @ dir @ w" using spec d w by simp
    have m: "nul \<notin> set m" "length m < 256" using assms(1) d(3) f(4) by (auto simp: dirs_ok_def)
    then have "nul \<notin> set w" by (auto simp: w shared_def dest: in_set_takeD)
    moreover have "nul \<notin> set (take off t)" "nul \<notin> set dir" using assms(2) t by (metis Un_iff set_append)+
    moreover have lw: "length name \<le> length w" "off + length dir + length w < 81"
      using f assms(3,5) mp w by auto
    moreover have "copy_to (off + length dir) (w @ [nul]) (padded 81 t) = Inr (padded 81 (take off t @ dir @ w))"
    proof -
      have "take (off + length dir) (padded 81 t) = take off t @ dir"
        using t len assms(3,4) by (metis append_assoc append_eq_conv_conj length_append length_take min.absorb2 padded_def)
      moreover have "drop (Suc (off + length dir + length w)) (padded 81 t) = replicate (81 - Suc (off + length dir + length w)) nul"
        using len lw by (simp add: padded_def)
      ultimately show ?thesis using lw assms(3,4)
        by (simp add: copy_to_def padded_def add.assoc flip: replicate_Suc)
    qed
    ultimately show ?thesis
      using code d small m(2) mp len assms(3) w by simp
  qed
qed

lemma after_space_le: "after_space t = Some off \<Longrightarrow> off \<le> length t"
proof -
  assume "after_space t = Some off"
  then obtain i xs where "filter (\<lambda>i. t ! i = CHR '' '') (rev [1..<length t]) = i # xs" "off = i + 1"
    by (auto simp: after_space_def split: list.splits)
  then have "i \<in> set (filter (\<lambda>i. t ! i = CHR '' '') (rev [1..<length t]))" by simp
  then show ?thesis using \<open>off = i + 1\<close> by simp
qed

lemma match_command_longer: "length t \<le> length (match_command env t)"
proof (cases "candidates t (commands env)")
  case (Cons m ms)
  then show ?thesis using shared_facts(1,3)[OF Cons] by (simp add: match_command_def)
qed (simp add: match_command_def)

lemma complete_ok:
  assumes "env_ok env" and "dirs_ok env" and "nul \<notin> set t" and "length t < 80" and "length (complete_text env t) < 80"
  shows "msh_auto_complete env (padded 81 t) = Inr (padded 81 (complete_text env t))" and "nul \<notin> set (complete_text env t)"
proof -
  have "msh_auto_complete env (padded 81 t) = Inr (padded 81 (complete_text env t)) \<and> nul \<notin> set (complete_text env t)"
  proof (cases "t = []")
    case True
    then show ?thesis using c_text_padded[of t 81] by (simp add: msh_auto_complete_def complete_text_def)
  next
    case False
    obtain u where u: "u = (case after_space t of None \<Rightarrow> t | Some off \<Rightarrow> match_path env off t)" by blast
    have ct: "complete_text env t = match_command env u" using False u by (simp add: complete_text_def)
    have lu: "length u < 81" using assms(5) match_command_longer[of u env] ct by simp
    have "(case after_space t of None \<Rightarrow> Inr (padded 81 t) | Some off \<Rightarrow> msh_auto_complete_path env off (padded 81 t)) = Inr (padded 81 u) \<and>
        nul \<notin> set u"
    proof (cases "after_space t")
      case None
      then show ?thesis using u assms(3) by simp
    next
      case (Some off)
      have "match_path env off t = u" using u Some by simp
      then show ?thesis
        using complete_path_ok[OF assms(2,3) after_space_le[OF Some]] assms(4) lu Some by simp
    qed
    moreover have "c_text (padded 81 t) = Inr t" using assms(3,4) by (intro c_text_padded) simp_all
    ultimately show ?thesis
      using False complete_command_ok[OF assms(1), of u] lu assms(5) ct by (simp add: msh_auto_complete_def)
  qed
  then show "msh_auto_complete env (padded 81 t) = Inr (padded 81 (complete_text env t))" "nul \<notin> set (complete_text env t)"
    by blast+
qed

section \<open>The shell shows an editor\<close>

definition shell_shows :: "finsh_shell \<Rightarrow> editor \<Rightarrow> bool" where
  "shell_shows s e \<longleftrightarrow> stat s = ed_mode e \<and> line s = padded 81 (ed_text e) \<and> length (ed_text e) < 80 \<and> nul \<notin> set (ed_text e) \<and>
     line_position s = length (ed_text e) \<and> line_curpos s = length (ed_before e) \<and>
     length (cmd_history s) = 5 \<and> length (ed_past e) \<le> 5 \<and> take (length (ed_past e)) (cmd_history s) = map (padded 80) (ed_past e) \<and>
     (\<forall>t \<in> set (ed_past e). nul \<notin> set t \<and> length t < 80) \<and>
     history_count s = length (ed_past e) \<and> current_history s = ed_browse e \<and> ed_browse e \<le> length (ed_past e)"

lemma shows_start: "shell_shows shell_start ed_start"
  by (simp add: shell_shows_def shell_start_def ed_start_def ed_text_def padded_def)

lemma shows_mode: "shell_shows s e \<Longrightarrow> shell_shows (s\<lparr>stat := m\<rparr>) (e\<lparr>ed_mode := m\<rparr>)"
  by (simp add: shell_shows_def ed_text_def)

lemma history_row:
  assumes "shell_shows s e" and "i < length (ed_past e)"
  shows "cmd_history s ! i = padded 80 (ed_past e ! i)" and "nul \<notin> set (ed_past e ! i)" and "length (ed_past e ! i) < 80"
proof -
  have "take (length (ed_past e)) (cmd_history s) ! i = padded 80 (ed_past e ! i)"
    using assms by (simp add: shell_shows_def)
  then show "cmd_history s ! i = padded 80 (ed_past e ! i)" using assms(2) by simp
  show "nul \<notin> set (ed_past e ! i)" "length (ed_past e ! i) < 80" using assms by (auto simp: shell_shows_def)
qed

lemma set_line_ok:
  assumes "nul \<notin> set t" and "length t < 80"
  shows "set_line (padded 81 t) s = Inr (s\<lparr>line := padded 81 t, line_position := length t, line_curpos := length t\<rparr>)"
  using assms c_text_padded[of t 81] by (simp add: set_line_def wrap16_def)

text \<open>A key that runs nothing.\<close>

definition shows_key :: "finsh_shell res \<Rightarrow> editor \<Rightarrow> bool" where
  "shows_key r e \<longleftrightarrow> (\<exists>s. r = Inr s \<and> shell_shows s e)"

lemma recall_shows:
  assumes "shell_shows s e" and "i < length (ed_past e)"
  shows "shows_key (recall_history (s\<lparr>current_history := i\<rparr>)) (ed_recall i e)"
proof -
  obtain t where t: "t = ed_past e ! i" by blast
  note row = history_row[OF assms, folded t]
  have "copy_to 0 (padded 80 t) (line s) = Inr (padded 81 t)"
    using assms(1) row(3) by (simp add: shell_shows_def copy_to_def padded_81)
  then have "recall_history (s\<lparr>current_history := i\<rparr>) =
      Inr (s\<lparr>current_history := i, line := padded 81 t, line_position := length t, line_curpos := length t\<rparr>)"
    using assms row set_line_ok[OF row(2,3)] by (simp add: recall_history_def shell_shows_def)
  then show ?thesis using assms row t by (auto simp: shows_key_def shell_shows_def ed_recall_def ed_text_def)
qed

lemma up_shows: "shell_shows s e \<Longrightarrow> shows_key (up_key s) (ed_up e)"
  using recall_shows[of s e "ed_browse e - 1"]
  by (auto simp: up_key_def ed_up_def shows_key_def shell_shows_def)

lemma down_shows:
  assumes "shell_shows s e"
  shows "shows_key (down_key s) (ed_down e)"
proof (cases "ed_past e = []")
  case True
  then show ?thesis using assms by (simp add: down_key_def ed_down_def shows_key_def shell_shows_def)
next
  case False
  have h: "history_count s = length (ed_past e)" "current_history s = ed_browse e" using assms by (simp_all add: shell_shows_def)
  then have "down_key s = recall_history (s\<lparr>current_history := min (ed_browse e + 1) (length (ed_past e) - 1)\<rparr>)"
    using False by (auto simp: down_key_def min_def)
  moreover have "min (ed_browse e + 1) (length (ed_past e) - 1) < length (ed_past e)" using False by (cases "ed_past e") (auto simp: min_def)
  ultimately show ?thesis using recall_shows[OF assms] False by (simp only: ed_down_def if_False)
qed

lemma left_shows: "shell_shows s e \<Longrightarrow> shows_key (left_key s) (ed_left e)"
  by (cases "ed_before e" rule: rev_cases) (auto simp: left_key_def ed_left_def shows_key_def shell_shows_def ed_text_def)

lemma right_shows:
  assumes "shell_shows s e"
  shows "shows_key (right_key s) (ed_right e)"
proof (cases "ed_after e")
  case Nil
  then show ?thesis using assms by (simp add: right_key_def ed_right_def shows_key_def shell_shows_def ed_text_def)
next
  case (Cons c a)
  then have "length (ed_before e) < length (line s)" using assms by (auto simp: shell_shows_def ed_text_def)
  then show ?thesis using Cons assms
    by (simp add: right_key_def ed_right_def shows_key_def shell_shows_def ed_text_def)
qed

lemma backspace_shows:
  assumes "shell_shows s e"
  shows "shows_key (backspace_key s) (ed_backspace e)"
proof (cases "ed_before e" rule: rev_cases)
  case Nil
  then show ?thesis using assms by (simp add: backspace_key_def ed_backspace_def shows_key_def shell_shows_def ed_text_def)
next
  case (snoc b x)
  let ?a = "ed_after e"
  have v: "line s = padded 81 (b @ x # ?a)" "line_position s = length b + length ?a + 1" "line_curpos s = length b + 1"
    "length b + 1 + length ?a < 80" "nul \<notin> set (b @ x # ?a)"
    using assms snoc by (auto simp: shell_shows_def ed_text_def)
  have p: "wrap16 (length b + length ?a + 1 + 65535) = length b + length ?a" by (rule wrap16_dec) (use v(4) in linarith)
  have "length b + 1 + length ?a < 81" using v(4) by linarith
  from delete_padded[OF this, of x]
  have "backspace_key s = Inr (s\<lparr>line := padded 81 (b @ ?a), line_position := length b + length ?a, line_curpos := length b\<rparr>)"
    unfolding backspace_key_def v(1-3) p Let_def by (auto simp: bind_res_Inr_iff split: if_splits)
  then show ?thesis using assms snoc v(4,5)
    by (simp add: ed_backspace_def shows_key_def shell_shows_def ed_text_def)
qed

lemma type_shows:
  assumes "shell_shows s e" and "c \<noteq> nul" and "ed_type c e = Some e1"
  shows "shows_key (plain_key c s) e1"
proof -
  let ?b = "ed_before e" and ?a = "ed_after e"
  have v: "line s = padded 81 (?b @ ?a)" "line_position s = length ?b + length ?a" "line_curpos s = length ?b"
    "length ?b + length ?a + 1 < 80" "e1 = e\<lparr>ed_before := ?b @ [c]\<rparr>"
    using assms(1,3) by (auto simp: shell_shows_def ed_text_def ed_type_def split: if_splits)
  have "length ?b + length ?a + 1 < 81" using v(4) by linarith
  from insert_padded[OF this, of c]
  have "plain_key c s = Inr (s\<lparr>line := padded 81 (?b @ c # ?a), line_position := length ?b + length ?a + 1, line_curpos := length ?b + 1\<rparr>)"
    using v(4) unfolding plain_key_def v(1-3) Let_def by (auto simp: wrap16_def split: if_splits)
  then show ?thesis using assms(1,2) v(4,5)
    by (simp add: shows_key_def shell_shows_def ed_text_def)
qed

lemma tab_shows:
  assumes "shell_shows s e" and "env_ok env" and "dirs_ok env" and "ed_tab env e = Some e1"
  shows "shows_key (tab_key env s) e1"
proof -
  let ?t = "ed_text e" and ?u = "complete_text env (ed_text e)"
  have t: "line s = padded 81 ?t" "nul \<notin> set ?t" "length ?t < 80" using assms(1) by (simp_all add: shell_shows_def)
  have u: "length ?u < 80" "e1 = e\<lparr>ed_before := ?u, ed_after := []\<rparr>"
    using assms(4) by (auto simp: ed_tab_def Let_def split: if_splits)
  have "tab_key env s = Inr (s\<lparr>line := padded 81 ?u, line_position := length ?u, line_curpos := length ?u\<rparr>)"
    using complete_ok[OF assms(2,3) t(2,3) u(1)] set_line_ok[OF _ u(1)] t(1) by (simp add: tab_key_def)
  then show ?thesis using assms(1) u complete_ok(2)[OF assms(2,3) t(2,3) u(1)]
    by (simp add: shows_key_def shell_shows_def ed_text_def)
qed

lemma new_row_shows:
  assumes "shell_shows s e"
  shows "new_row s = Inr (padded 80 (ed_text e))"
  using assms by (simp add: new_row_def shell_shows_def copy_to_def padded_def)

lemma same_line:
  assumes "shell_shows s e" and "ed_past e \<noteq> []"
  shows "cmd_history s ! (length (ed_past e) - 1) = take 80 (line s) \<longleftrightarrow> last (ed_past e) = ed_text e"
proof -
  have i: "length (ed_past e) - 1 < length (ed_past e)" using assms(2) by simp
  have "take 80 (line s) = padded 80 (ed_text e)" using assms(1) by (simp add: shell_shows_def take_padded)
  moreover have "cmd_history s ! (length (ed_past e) - 1) = padded 80 (last (ed_past e))"
    using history_row(1)[OF assms(1) i] assms(2) by (simp add: last_conv_nth)
  moreover have "nul \<notin> set (last (ed_past e))" "nul \<notin> set (ed_text e)"
    using history_row(2)[OF assms(1) i] assms by (simp_all add: last_conv_nth shell_shows_def)
  ultimately show ?thesis using padded_inject by metis
qed

lemma push_shows:
  assumes "shell_shows s e"
  shows "shows_key (shell_push_history s)
    (e\<lparr>ed_past := remember (ed_text e) (ed_past e), ed_browse := length (remember (ed_text e) (ed_past e))\<rparr>)"
proof -
  let ?t = "ed_text e" and ?h = "ed_past e"
  have v: "line_position s = length ?t" "history_count s = length ?h" "length (cmd_history s) = 5" "length ?h \<le> 5"
    "take (length ?h) (cmd_history s) = map (padded 80) ?h" "length ?t < 80" "nul \<notin> set ?t"
    using assms by (simp_all add: shell_shows_def)
  note row = new_row_shows[OF assms] and same = same_line[OF assms]
  consider "?t = [] \<or> ?h \<noteq> [] \<and> last ?h = ?t" | "?t \<noteq> []" "?h = [] \<or> last ?h \<noteq> ?t" "length ?h < 5"
    | "?t \<noteq> []" "last ?h \<noteq> ?t" "length ?h = 5" using v(4) by fastforce
  then show ?thesis
  proof cases
    case 1
    then have "remember ?t ?h = ?h" by (auto simp: remember_def)
    moreover have "shell_push_history s = Inr (s\<lparr>current_history := history_count s\<rparr>)"
    proof (cases "?t = []")
      case False
      then have h: "?h \<noteq> []" "cmd_history s ! (length ?h - 1) = take 80 (line s)" using 1 same by auto
      then show ?thesis using v by (cases "length ?h = 5") (auto simp: shell_push_history_def)
    qed (simp add: shell_push_history_def v)
    ultimately show ?thesis using assms by (simp add: shows_key_def shell_shows_def ed_text_def)
  next
    case 2
    have p: "shell_push_history s = Inr (s\<lparr>current_history := length ?h + 1, history_count := length ?h + 1,
        cmd_history := (cmd_history s)[length ?h := padded 80 ?t]\<rparr>)"
      using 2 v row same by (auto simp: shell_push_history_def)
    have "take (Suc (length ?h)) ((cmd_history s)[length ?h := padded 80 ?t]) = map (padded 80) (?h @ [?t])"
      using 2(3) v(3,5) by (simp add: take_Suc_conv_app_nth)
    moreover have "remember ?t ?h = ?h @ [?t]" using 2 by (auto simp: remember_def)
    ultimately show ?thesis using assms p 2 v(6,7) by (simp add: shows_key_def shell_shows_def ed_text_def)
  next
    case 3
    have "?h \<noteq> []" using 3(3) by auto
    then have p: "shell_push_history s = Inr (s\<lparr>current_history := 5, history_count := 5,
        cmd_history := drop 1 (cmd_history s) @ [padded 80 ?t]\<rparr>)"
      using 3 v(1,2) row same by (auto simp: shell_push_history_def)
    have h: "cmd_history s = map (padded 80) ?h" using v(3,5) 3(3) by simp
    have "take 5 (drop 1 (cmd_history s) @ [padded 80 ?t]) = map (padded 80) (drop 1 ?h @ [?t])"
      unfolding h using 3(3) by (simp add: drop_map)
    moreover have "remember ?t ?h = drop 1 ?h @ [?t]" using 3 by (auto simp: remember_def)
    ultimately show ?thesis using assms p 3 v(6,7)
      by (auto simp: shows_key_def shell_shows_def ed_text_def dest: in_set_dropD)
  qed
qed

lemma enter_shows:
  assumes "shell_shows s e" and "env_ok env"
  shows "\<exists>s1. enter_key env s = Inr (s1, [exec_spec env (ed_text e)]) \<and> shell_shows s1 (ed_enter e)"
proof -
  let ?e = "e\<lparr>ed_past := remember (ed_text e) (ed_past e), ed_browse := length (remember (ed_text e) (ed_past e))\<rparr>"
  obtain s1 where s1: "shell_push_history s = Inr s1" "shell_shows s1 ?e" using push_shows[OF assms(1)] by (auto simp: shows_key_def)
  have t: "line s1 = padded 81 (ed_text e)" "line_position s1 = length (ed_text e)" "length (ed_text e) < 81" "nul \<notin> set (ed_text e)"
    using s1(2) assms(1) by (simp_all add: shell_shows_def ed_text_def)
  have "msh_exec env (line s1) (line_position s1) = Inr (exec_spec env (ed_text e))"
    unfolding t(1,2) padded_split[OF t(3)] by (rule msh_exec_ok[OF assms(2) t(4)])
  moreover have "shell_shows (s1\<lparr>line := replicate 81 nul, line_position := 0, line_curpos := 0\<rparr>) (ed_enter e)"
    using s1(2) by (simp add: shell_shows_def ed_enter_def ed_text_def padded_def Let_def)
  ultimately show ?thesis using s1(1) by (simp add: enter_key_def)
qed

text \<open>What shows an editor and has run the given commands.\<close>

definition shows_run :: "(finsh_shell \<times> run_result list) res \<Rightarrow> editor \<times> run_result list \<Rightarrow> bool" where
  "shows_run r x \<longleftrightarrow> (\<exists>s. r = Inr (s, snd x) \<and> shell_shows s (fst x))"

lemma quiet_shows: "shows_key r e \<Longrightarrow> shows_run (quiet r) (e, [])"
  by (auto simp: shows_key_def shows_run_def quiet_def)

lemma ordinary_shows:
  assumes "shell_shows s e" and "env_ok env" and "dirs_ok env" and "ed_ordinary env ch e = Some x"
  shows "shows_run (ordinary_key env ch s) x"
proof -
  note enter = enter_shows[OF assms(1,2)] and erase = quiet_shows[OF backspace_shows[OF assms(1)]]
  consider "ch = nul \<or> ch = CHR 0xFF" | "ch = CHR 0x09" | "ch = CHR 0x7F \<or> ch = CHR 0x08" | "ch = CHR 0x0D \<or> ch = CHR 0x0A"
    | "ch \<notin> {nul, CHR 0xFF, CHR 0x09, CHR 0x7F, CHR 0x08, CHR 0x0D, CHR 0x0A}" by blast
  then show ?thesis
  proof cases
    case 1
    then have "ordinary_key env ch s = Inr (s, [])" "x = (e, [])" using assms(4) by (simp_all only: ordinary_key_def ed_ordinary_def if_True option.inject)
    then show ?thesis using assms(1) by (simp add: shows_run_def)
  next
    case 2
    then obtain e1 where "ed_tab env e = Some e1" "x = (e1, [])" using assms(4) by (auto simp: ed_ordinary_def)
    then show ?thesis using 2 quiet_shows[OF tab_shows[OF assms(1-3)]] by (simp add: ordinary_key_def)
  next
    case 3
    then have "ordinary_key env ch s = quiet (backspace_key s)" "x = (ed_backspace e, [])"
      using assms(4) by (auto simp: ordinary_key_def ed_ordinary_def)
    then show ?thesis using erase by simp
  next
    case 4
    then have "ordinary_key env ch s = enter_key env s" "x = (ed_enter e, [exec_spec env (ed_text e)])"
      using assms(4) by (auto simp: ordinary_key_def ed_ordinary_def)
    then show ?thesis using enter by (auto simp: shows_run_def)
  next
    case 5
    then have "ordinary_key env ch s = quiet (plain_key ch s)" "map_option (\<lambda>e. (e, [])) (ed_type ch e) = Some x"
      using assms(4) by (simp_all add: ordinary_key_def ed_ordinary_def)
    then show ?thesis using quiet_shows[OF type_shows[OF assms(1)]] 5 by auto
  qed
qed

lemma key_shows:
  assumes "shell_shows s e" and "env_ok env" and "dirs_ok env" and "ed_key env ch e = Some x"
  shows "shows_run (shell_key env ch s) x"
proof -
  let ?s = "s\<lparr>stat := WAIT_NORMAL\<rparr>" and ?e = "e\<lparr>ed_mode := WAIT_NORMAL\<rparr>"
  have st: "stat s = ed_mode e" using assms(1) by (simp add: shell_shows_def)
  have sh: "shell_shows ?s ?e" using shows_mode[OF assms(1)] .
  note keys = quiet_shows[OF up_shows[OF sh]] quiet_shows[OF down_shows[OF sh]] quiet_shows[OF left_shows[OF sh]]
    quiet_shows[OF right_shows[OF sh]]
  show ?thesis
  proof (cases "ch = CHR 0x1B \<or> ed_mode e = WAIT_SPEC_KEY \<and> ch = CHR 0x5B")
    case True
    then show ?thesis using assms(4) shows_mode[OF assms(1)] st
      by (auto simp: shows_run_def shell_key_def ed_key_def)
  next
    case False
    show ?thesis
    proof (cases "ed_mode e = WAIT_FUNC_KEY \<and> ch \<in> set ''ABCD''")
      case True
      then show ?thesis using assms(4) keys st by (auto simp: shell_key_def ed_key_def Let_def)
    next
      case plain: False
      then have "shell_key env ch s = ordinary_key env ch ?s" "ed_ordinary env ch ?e = Some x"
        using False assms(4) st by (auto simp: shell_key_def ed_key_def Let_def)
      then show ?thesis using ordinary_shows[OF sh assms(2,3)] by simp
    qed
  qed
qed

lemma run_shows:
  "shell_shows s e \<Longrightarrow> \<forall>(env, ch) \<in> set keys. env_ok env \<and> dirs_ok env \<Longrightarrow> ed_run keys e = Some (e1, rs) \<Longrightarrow>
    \<exists>s1. shell_run keys s = Inr (s1, rs) \<and> shell_shows s1 e1"
proof (induction keys arbitrary: s e rs)
  case (Cons k keys)
  obtain env ch where k: "k = (env, ch)" by (cases k)
  obtain e2 r1 r2 where e: "ed_key env ch e = Some (e2, r1)" "ed_run keys e2 = Some (e1, r2)" "rs = r1 @ r2"
    using Cons.prems(3) k by (auto split: option.splits)
  obtain s2 where s2: "shell_key env ch s = Inr (s2, r1)" "shell_shows s2 e2"
    using key_shows[OF Cons.prems(1) _ _ e(1)] Cons.prems(2) k by (auto simp: shows_run_def)
  have "\<forall>(env, ch) \<in> set keys. env_ok env \<and> dirs_ok env" using Cons.prems(2) by simp
  from Cons.IH[OF s2(2) this e(2)] show ?case using s2(1) e(3) k by auto
qed simp

text \<open>C21. The arrays, positions and history rows of the shell are a text editor with a cursor and a
  history of the last five lines (repetitions once): as long as no line gets longer than 79 characters, every key
  does to them what it does to the editor, and Enter runs exactly the commands the lines spell.\<close>

theorem line_editor_refines:
  assumes "\<forall>(env, ch) \<in> set keys. env_ok env \<and> dirs_ok env" and "ed_run keys ed_start = Some (e, rs)"
  shows "\<exists>s. shell_run keys shell_start = Inr (s, rs) \<and> shell_shows s e"
  using run_shows[OF shows_start assms] .

lemma console_dirs: "dirs_ok console"
  by (auto simp: console_def dirs_ok_def)

theorem line_editor_refines_witness:
  "\<exists>s. shell_run (typed (''ec'' @ [CHR 0x09] @ '' dat'' @ [CHR 0x09] @ ''x'' @ [CHR 0x1B, CHR ''['', CHR ''D'', CHR 0x08, CHR 0x0D])) shell_start =
      Inr (s, [Ran 1 [''echo'', ''datax'']]) \<and> shell_shows s (ed_start\<lparr>ed_past := [''echo datax''], ed_browse := 1\<rparr>)"
  by (rule line_editor_refines) (simp add: typed_def console_env console_dirs, code_simp)

end
