(* ===== verification/Shell_Props.thy ===== *)
theory Shell_Props
  imports Shell_Edit
begin

















end
