(* ===== verification/Json_Parse.thy ===== *)
theory Json_Parse
  imports Json
begin

text \<open>
  Reading a whole document (\<^verbatim>\<open>packages/cJSON-v1.7.17/cJSON.c\<close>). The input is a buffer with an offset, as in the
  code; a read outside the buffer is a fault, and a text that is no document gives \<open>None\<close>. The position that the code
  reports for an error is left out.
\<close>

section \<open>Numbers\<close>

text \<open>
  \<^verbatim>\<open>strtod\<close> on the characters that \<^verbatim>\<open>parse_number\<close> hands it: the value of the longest prefix that is a
  decimal number, rounded to binary64, and the length of this prefix.
\<close>

definition rnd64 :: "rat \<Rightarrow> rat" where
  "rnd64 x =
     (if x = 0 then 0
      else let u = pow2 (max (ilog2 \<bar>x\<bar>) (- 1022) - 52) in of_int (round_half_even (x / u)) * u)"

definition double_of_rat :: "rat \<Rightarrow> c_double" where
  "double_of_rat x =
     (let y = rnd64 x in if y \<ge> 2 ^ 1024 then Pos_Inf else if y \<le> - (2 ^ 1024) then Neg_Inf else Finite y)"

definition is_digit :: "char \<Rightarrow> bool" where
  "is_digit c \<longleftrightarrow> 48 \<le> (of_char c :: nat) \<and> (of_char c :: nat) \<le> 57"

definition digits_value :: "string \<Rightarrow> nat" where
  "digits_value ds = foldl (\<lambda>v c. 10 * v + (of_char c - 48)) 0 ds"

fun read_sign :: "string \<Rightarrow> int \<times> string" where
  "read_sign [] = (1, [])"
| "read_sign (c # cs) = (if c = CHR ''-'' then (- 1, cs) else if c = CHR ''+'' then (1, cs) else (1, c # cs))"

text \<open>The exponent, and what follows it; an \<open>e\<close> without digits is no exponent.\<close>

fun read_exponent :: "string \<Rightarrow> int \<times> string" where
  "read_exponent [] = (0, [])"
| "read_exponent (c # cs) =
     (if c = CHR ''e'' \<or> c = CHR ''E''
      then case read_sign cs of (sg, r) \<Rightarrow>
             let ds = takeWhile is_digit r in
             if ds = [] then (0, c # cs) else (sg * int (digits_value ds), dropWhile is_digit r)
      else (0, c # cs))"

fun read_fraction :: "string \<Rightarrow> string \<times> string" where
  "read_fraction [] = ([], [])"
| "read_fraction (c # cs) = (if c = CHR ''.'' then (takeWhile is_digit cs, dropWhile is_digit cs) else ([], c # cs))"

definition pow10 :: "int \<Rightarrow> rat" where
  "pow10 z = (if z \<ge> 0 then 10 ^ nat z else 1 / 10 ^ nat (- z))"

definition strtod :: "string \<Rightarrow> c_double \<times> nat" where
  "strtod s =
     (case read_sign s of (sg, s1) \<Rightarrow>
      let ip = takeWhile is_digit s1 in
      case read_fraction (dropWhile is_digit s1) of (fp, s2) \<Rightarrow>
      if ip = [] \<and> fp = [] then (Finite 0, 0)
      else case read_exponent s2 of (e, s3) \<Rightarrow>
        (double_of_rat (of_int sg * of_nat (digits_value (ip @ fp)) * pow10 (e - int (length fp))), length s - length s3))"

section \<open>The buffer\<close>

record parse_buffer =
  content :: string
  buf_offset :: nat
  buf_depth :: nat

definition can_access :: "parse_buffer \<Rightarrow> nat \<Rightarrow> bool" where
  "can_access b i \<longleftrightarrow> buf_offset b + i < length (content b)"

definition at_offset :: "parse_buffer \<Rightarrow> char res" where
  "at_offset b = (if can_access b 0 then Inr (content b ! buf_offset b) else Inl Out_Of_Bounds)"

text \<open>The character at the offset is \<open>c\<close>; the code looks only where it can.\<close>

definition next_is :: "char \<Rightarrow> parse_buffer \<Rightarrow> bool" where
  "next_is c b \<longleftrightarrow> can_access b 0 \<and> content b ! buf_offset b = c"

definition blank :: "char \<Rightarrow> bool" where
  "blank c \<longleftrightarrow> (of_char c :: nat) \<le> 32"

definition buffer_skip_whitespace :: "parse_buffer \<Rightarrow> parse_buffer" where
  "buffer_skip_whitespace b =
     (if \<not> can_access b 0 then b
      else let off = buf_offset b + length (takeWhile blank (drop (buf_offset b) (content b))) in
        b\<lparr>buf_offset := if off = length (content b) then off - 1 else off\<rparr>)"

definition skip_utf8_bom :: "parse_buffer \<Rightarrow> parse_buffer" where
  "skip_utf8_bom b =
     (if can_access b 4 \<and> take 3 (drop (buf_offset b) (content b)) = [CHR 0xEF, CHR 0xBB, CHR 0xBF]
      then b\<lparr>buf_offset := buf_offset b + 3\<rparr> else b)"

section \<open>Values\<close>

type_synonym 'a parsed = "('a \<times> parse_buffer) option"

definition number_char :: "char \<Rightarrow> bool" where
  "number_char c \<longleftrightarrow> is_digit c \<or> c \<in> {CHR ''+'', CHR ''-'', CHR ''e'', CHR ''E'', CHR ''.''}"

definition parse_number :: "parse_buffer \<Rightarrow> cJSON parsed" where
  "parse_number b =
     (case strtod (takeWhile number_char (take 63 (drop (buf_offset b) (content b)))) of (d, n) \<Rightarrow>
        if n = 0 then None else Some (cJSON_Number d (saturate_int d), b\<lparr>buf_offset := buf_offset b + n\<rparr>))"

text \<open>\<^verbatim>\<open>parse_string\<close> looks at the first character without a check.\<close>

definition parse_string_at :: "parse_buffer \<Rightarrow> string parsed res" where
  "parse_string_at b =
     bind_res (at_offset b) (\<lambda>_.
       Inr (case parse_string (drop (buf_offset b) (content b)) of
              None \<Rightarrow> None
            | Some (s, rest) \<Rightarrow> Some (s, b\<lparr>buf_offset := length (content b) - length rest\<rparr>)))"

text \<open>
  The loop over the elements of an array, from the character in front of an element on; \<open>pv\<close> reads an
  element. Every round moves on, so the length of the buffer is enough fuel.
\<close>

primrec parse_elements :: "(parse_buffer \<Rightarrow> cJSON parsed res) \<Rightarrow> nat \<Rightarrow> parse_buffer \<Rightarrow> (cJSON list) parsed res" where
  "parse_elements pv 0 b = Inl Would_Wait"
| "parse_elements pv (Suc m) b =
     bind_res (pv (buffer_skip_whitespace (b\<lparr>buf_offset := buf_offset b + 1\<rparr>))) (\<lambda>r.
       case r of None \<Rightarrow> Inr None
       | Some (x, b1) \<Rightarrow>
           let b2 = buffer_skip_whitespace b1 in
           if next_is (CHR '','') b2
           then bind_res (parse_elements pv m b2) (\<lambda>r. Inr (map_option (\<lambda>(xs, b3). (x # xs, b3)) r))
           else Inr (Some ([x], b2)))"

text \<open>The opening character is left behind; the result is \<open>None\<close> at the end of the buffer.\<close>

definition open_container :: "parse_buffer \<Rightarrow> parse_buffer" where
  "open_container b = buffer_skip_whitespace (b\<lparr>buf_depth := buf_depth b + 1, buf_offset := buf_offset b + 1\<rparr>)"

definition close_container :: "char \<Rightarrow> 'a parsed \<Rightarrow> 'a parsed" where
  "close_container c r =
     (case r of None \<Rightarrow> None
      | Some (x, b) \<Rightarrow>
          if next_is c b then Some (x, b\<lparr>buf_depth := buf_depth b - 1, buf_offset := buf_offset b + 1\<rparr>) else None)"

definition parse_array :: "(parse_buffer \<Rightarrow> cJSON parsed res) \<Rightarrow> parse_buffer \<Rightarrow> cJSON parsed res" where
  "parse_array pv b =
     (if buf_depth b \<ge> 1000 then Inr None
      else bind_res (at_offset b) (\<lambda>c.
        if c \<noteq> CHR ''['' then Inr None
        else let b1 = open_container b in
          if next_is (CHR '']'') b1 then Inr (close_container (CHR '']'') (Some (cJSON_Array [], b1)))
          else if \<not> can_access b1 0 then Inr None
          else bind_res (parse_elements pv (length (content b)) (b1\<lparr>buf_offset := buf_offset b1 - 1\<rparr>)) (\<lambda>r.
            Inr (close_container (CHR '']'') (map_option (\<lambda>(xs, b2). (cJSON_Array xs, b2)) r)))))"

primrec parse_members :: "(parse_buffer \<Rightarrow> cJSON parsed res) \<Rightarrow> nat \<Rightarrow> parse_buffer \<Rightarrow> ((string \<times> cJSON) list) parsed res" where
  "parse_members pv 0 b = Inl Would_Wait"
| "parse_members pv (Suc m) b =
     bind_res (parse_string_at (buffer_skip_whitespace (b\<lparr>buf_offset := buf_offset b + 1\<rparr>))) (\<lambda>r.
       case r of None \<Rightarrow> Inr None
       | Some (name, b1) \<Rightarrow>
           let b2 = buffer_skip_whitespace b1 in
           if \<not> next_is (CHR '':'') b2 then Inr None
           else bind_res (pv (buffer_skip_whitespace (b2\<lparr>buf_offset := buf_offset b2 + 1\<rparr>))) (\<lambda>r.
             case r of None \<Rightarrow> Inr None
             | Some (x, b3) \<Rightarrow>
                 let b4 = buffer_skip_whitespace b3 in
                 if next_is (CHR '','') b4
                 then bind_res (parse_members pv m b4) (\<lambda>r. Inr (map_option (\<lambda>(ms, b5). ((c_str name, x) # ms, b5)) r))
                 else Inr (Some ([(c_str name, x)], b4))))"

definition parse_object :: "(parse_buffer \<Rightarrow> cJSON parsed res) \<Rightarrow> parse_buffer \<Rightarrow> cJSON parsed res" where
  "parse_object pv b =
     (if buf_depth b \<ge> 1000 then Inr None
      else if \<not> next_is (CHR ''{'') b then Inr None
      else let b1 = open_container b in
        if next_is (CHR ''}'') b1 then Inr (close_container (CHR ''}'') (Some (cJSON_Object [], b1)))
        else if \<not> can_access b1 0 then Inr None
        else bind_res (parse_members pv (length (content b)) (b1\<lparr>buf_offset := buf_offset b1 - 1\<rparr>)) (\<lambda>r.
          Inr (close_container (CHR ''}'') (map_option (\<lambda>(ms, b2). (cJSON_Object ms, b2)) r))))"

text \<open>A word at the offset.\<close>

definition word_at :: "string \<Rightarrow> parse_buffer \<Rightarrow> bool" where
  "word_at w b \<longleftrightarrow> take (length w) (drop (buf_offset b) (content b)) = w"

definition move_by :: "nat \<Rightarrow> parse_buffer \<Rightarrow> parse_buffer" where
  "move_by n b = b\<lparr>buf_offset := buf_offset b + n\<rparr>"

text \<open>
  The reader of a value. Containers nest at most 1000 deep, so more levels of the recursion are
  never entered; \<open>n\<close> counts them down.
\<close>

primrec parse_value :: "nat \<Rightarrow> parse_buffer \<Rightarrow> cJSON parsed res" where
  "parse_value 0 b = Inl Would_Wait"
| "parse_value (Suc n) b =
     (if word_at ''null'' b then Inr (Some (cJSON_NULL, move_by 4 b))
      else if word_at ''false'' b then Inr (Some (cJSON_False, move_by 5 b))
      else if word_at ''true'' b then Inr (Some (cJSON_True, move_by 4 b))
      else if \<not> can_access b 0 then Inr None
      else let c = content b ! buf_offset b in
        if c = CHR 0x22 then bind_res (parse_string_at b) (\<lambda>r. Inr (map_option (\<lambda>(s, b1). (cJSON_String (c_str s), b1)) r))
        else if c = CHR ''-'' \<or> is_digit c then Inr (parse_number b)
        else if c = CHR ''['' then parse_array (parse_value n) b
        else if c = CHR ''{'' then parse_object (parse_value n) b
        else Inr None)"

section \<open>Documents\<close>

text \<open>The result has the item and the offset behind it.\<close>

definition cJSON_ParseWithLengthOpts :: "string \<Rightarrow> bool \<Rightarrow> (cJSON \<times> nat) option res" where
  "cJSON_ParseWithLengthOpts v require_null_terminated =
     (if v = [] then Inr None
      else bind_res (parse_value 1001 (buffer_skip_whitespace (skip_utf8_bom \<lparr>content = v, buf_offset = 0, buf_depth = 0\<rparr>))) (\<lambda>r.
        Inr (case r of None \<Rightarrow> None
          | Some (x, b) \<Rightarrow>
              if require_null_terminated
              then let b1 = buffer_skip_whitespace b in if next_is (CHR 0x00) b1 then Some (x, buf_offset b1) else None
              else Some (x, buf_offset b))))"

definition cJSON_ParseWithOpts :: "string \<Rightarrow> bool \<Rightarrow> (cJSON \<times> nat) option res" where
  "cJSON_ParseWithOpts v require_null_terminated = cJSON_ParseWithLengthOpts (c_str v @ [CHR 0x00]) require_null_terminated"

definition cJSON_Parse :: "string \<Rightarrow> cJSON option res" where
  "cJSON_Parse v = bind_res (cJSON_ParseWithOpts v False) (\<lambda>r. Inr (map_option fst r))"

definition cJSON_ParseWithLength :: "string \<Rightarrow> cJSON option res" where
  "cJSON_ParseWithLength v = bind_res (cJSON_ParseWithLengthOpts v False) (\<lambda>r. Inr (map_option fst r))"

section \<open>Looking into items\<close>

fun children :: "cJSON \<Rightarrow> (string option \<times> cJSON) list" where
  "children (cJSON_Array xs) = map (Pair None) xs"
| "children (cJSON_Object ms) = map (map_prod Some id) ms"
| "children other = []"

definition cJSON_GetArraySize :: "cJSON \<Rightarrow> nat" where
  "cJSON_GetArraySize item = length (children item)"

definition cJSON_GetArrayItem :: "cJSON \<Rightarrow> int \<Rightarrow> cJSON option" where
  "cJSON_GetArrayItem item index =
     (if index < 0 \<or> nat index \<ge> length (children item) then None else Some (snd (children item ! nat index)))"

definition to_lower :: "char \<Rightarrow> char" where
  "to_lower c = (let n = of_char c :: nat in if 65 \<le> n \<and> n \<le> 90 then char_of (n + 32) else c)"

text \<open>
  The first child of that name. With case, a child without a name ends the search; without, it is passed over.
\<close>

fun get_object_item :: "(string option \<times> cJSON) list \<Rightarrow> string \<Rightarrow> bool \<Rightarrow> cJSON option" where
  "get_object_item [] name case_sensitive = None"
| "get_object_item ((None, x) # xs) name case_sensitive = (if case_sensitive then None else get_object_item xs name False)"
| "get_object_item ((Some n, x) # xs) name case_sensitive =
     (if (if case_sensitive then name = n else map to_lower name = map to_lower n) then Some x
      else get_object_item xs name case_sensitive)"

definition cJSON_GetObjectItem :: "cJSON \<Rightarrow> string \<Rightarrow> cJSON option" where
  "cJSON_GetObjectItem item name = get_object_item (children item) name False"

definition cJSON_GetObjectItemCaseSensitive :: "cJSON \<Rightarrow> string \<Rightarrow> cJSON option" where
  "cJSON_GetObjectItemCaseSensitive item name = get_object_item (children item) name True"

fun cJSON_GetStringValue :: "cJSON \<Rightarrow> string option" where
  "cJSON_GetStringValue (cJSON_String s) = Some s"
| "cJSON_GetStringValue other = None"

end
