(* ===== verification/Json_Safe.thy ===== *)
theory Json_Safe
  imports Json_Parse
begin

text \<open>
  Reading a text with an end mark never leaves it, and ends; reading a buffer without one can go a character too far.
\<close>

section \<open>Inside a text\<close>

definition inside :: "parse_buffer \<Rightarrow> bool" where
  "inside b \<longleftrightarrow> buf_offset b < length (content b) \<and> last (content b) = CHR 0x00"

text \<open>What a step leaves: the same text, a place inside it that is further on.\<close>

definition onward :: "parse_buffer \<Rightarrow> parse_buffer \<Rightarrow> bool" where
  "onward b b' \<longleftrightarrow> content b' = content b \<and> buf_depth b' = buf_depth b \<and> buf_offset b < buf_offset b' \<and> inside b'"

definition goes_on :: "parse_buffer \<Rightarrow> 'a parsed res \<Rightarrow> bool" where
  "goes_on b r \<longleftrightarrow> (\<exists>p. r = Inr p \<and> (\<forall>x b'. p = Some (x, b') \<longrightarrow> onward b b'))"

lemma goes_on_None [simp, intro]: "goes_on b (Inr None)"
  by (simp add: goes_on_def)

lemma goes_on_Some [simp]: "goes_on b (Inr (Some (x, b'))) = onward b b'"
  by (simp add: goes_on_def)

lemma goes_onE:
  assumes "goes_on b r"
  obtains "r = Inr None" | x b' where "r = Inr (Some (x, b'))" and "onward b b'"
proof -
  obtain p where p: "r = Inr p" "\<forall>x b'. p = Some (x, b') \<longrightarrow> onward b b'" using assms by (auto simp: goes_on_def)
  show thesis
  proof (cases p)
    case None
    then show ?thesis using that(1) p(1) by simp
  next
    case (Some y)
    then show ?thesis using that(2) p by (cases y) simp
  qed
qed

lemma rest_last:
  assumes "inside b"
  shows "drop (buf_offset b) (content b) \<noteq> []" and "last (drop (buf_offset b) (content b)) = CHR 0x00"
  using assms by (auto simp: inside_def)

text \<open>The end mark is not read over by what has none in it.\<close>

lemma move_inside:
  assumes "inside b" and "drop (buf_offset b) (content b) = ys @ zs" and "CHR 0x00 \<notin> set ys"
  shows "inside (b\<lparr>buf_offset := buf_offset b + length ys\<rparr>)"
proof -
  have "zs \<noteq> []"
  proof
    assume "zs = []"
    then have "last ys = CHR 0x00" "ys \<noteq> []" using rest_last[OF assms(1)] assms(2) by simp_all
    then show False using assms(3) last_in_set by metis
  qed
  moreover have "length (content b) - buf_offset b = length ys + length zs"
    using arg_cong[OF assms(2), of length] by simp
  moreover have "0 < length zs" using \<open>zs \<noteq> []\<close> by simp
  ultimately have "buf_offset b + length ys < length (content b)" by linarith
  then show ?thesis using assms(1) by (simp add: inside_def)
qed

lemma step_inside:
  assumes "inside b" and "content b ! buf_offset b \<noteq> CHR 0x00"
  shows "inside (b\<lparr>buf_offset := buf_offset b + 1\<rparr>)"
proof -
  have "drop (buf_offset b) (content b) = [content b ! buf_offset b] @ drop (Suc (buf_offset b)) (content b)"
    using assms(1) Cons_nth_drop_Suc[of "buf_offset b" "content b"] by (simp add: inside_def)
  from move_inside[OF assms(1) this] show ?thesis using assms(2) by simp
qed

lemma next_is_step: "inside b \<Longrightarrow> next_is c b \<Longrightarrow> c \<noteq> CHR 0x00 \<Longrightarrow> inside (b\<lparr>buf_offset := buf_offset b + 1\<rparr>)"
  by (rule step_inside) (auto simp: next_is_def)

lemma skip_inside:
  assumes "inside b"
  shows "inside (buffer_skip_whitespace b)" and "buf_offset b \<le> buf_offset (buffer_skip_whitespace b)"
    and "content (buffer_skip_whitespace b) = content b" and "buf_depth (buffer_skip_whitespace b) = buf_depth b"
proof -
  have "length (takeWhile blank (drop (buf_offset b) (content b))) \<le> length (content b) - buf_offset b"
    using length_takeWhile_le[of blank "drop (buf_offset b) (content b)"] by simp
  then show "inside (buffer_skip_whitespace b)" "buf_offset b \<le> buf_offset (buffer_skip_whitespace b)"
    using assms by (auto simp: buffer_skip_whitespace_def inside_def Let_def can_access_def)
qed (simp_all add: buffer_skip_whitespace_def Let_def)

lemma onward_skip: "onward b b' \<Longrightarrow> onward b (buffer_skip_whitespace b')"
  using skip_inside[of b'] by (auto simp: onward_def)

section \<open>Tokens\<close>

lemma word_goes_on:
  assumes "inside b" and "word_at w b" and "CHR 0x00 \<notin> set w" and "w \<noteq> []"
  shows "onward b (move_by (length w) b)"
proof -
  have "drop (buf_offset b) (content b) = w @ drop (length w) (drop (buf_offset b) (content b))"
    using assms(2) append_take_drop_id[of "length w" "drop (buf_offset b) (content b)"] unfolding word_at_def by simp
  from move_inside[OF assms(1) this assms(3)] show ?thesis using assms(4) by (simp add: onward_def move_by_def)
qed

lemma scan_literal_split: "scan_literal xs = Some (body, rest) \<Longrightarrow> xs = body @ CHR 0x22 # rest"
proof (induction xs arbitrary: body rule: scan_literal.induct)
  case (2 c cs)
  then show ?case by (auto split: if_splits list.splits)
qed simp

lemma string_goes_on:
  assumes "inside b"
  shows "goes_on b (parse_string_at b)"
proof (cases "parse_string (drop (buf_offset b) (content b))")
  case None
  then show ?thesis using assms by (simp add: parse_string_at_def at_offset_def can_access_def inside_def)
next
  case (Some p)
  obtain s rest where p: "p = (s, rest)" by (cases p)
  obtain body where x: "drop (buf_offset b) (content b) = CHR 0x22 # body @ CHR 0x22 # rest"
    using Some p scan_literal_split by (fastforce simp: parse_string_def split: list.splits if_splits option.splits)
  have "rest \<noteq> []" using rest_last[OF assms] unfolding x by (cases rest) auto
  then have "0 < length rest" by simp
  moreover have "length (content b) - buf_offset b = 2 + length body + length rest"
    using arg_cong[OF x, of length] by simp
  ultimately have "buf_offset b < length (content b) - length rest" "length (content b) - length rest < length (content b)"
    by linarith+
  then show ?thesis
    using assms Some p by (simp add: parse_string_at_def at_offset_def can_access_def inside_def onward_def)
qed

lemma strtod_length: "snd (strtod s) \<le> length s"
  by (simp add: strtod_def Let_def split: prod.split)

lemma number_goes_on:
  assumes "inside b"
  shows "goes_on b (Inr (parse_number b))"
proof -
  let ?xs = "drop (buf_offset b) (content b)"
  let ?ns = "takeWhile number_char (take 63 ?xs)"
  obtain d n where s: "strtod ?ns = (d, n)" by (cases "strtod ?ns")
  have n: "n \<le> length ?ns" using strtod_length[of ?ns] s by simp
  have "?xs = take n ?ns @ drop n ?ns @ dropWhile number_char (take 63 ?xs) @ drop 63 ?xs"
    by (metis append_assoc append_take_drop_id takeWhile_dropWhile_id)
  moreover have "CHR 0x00 \<notin> set (take n ?ns)"
    using set_takeWhileD[of "CHR 0x00" number_char] in_set_takeD[of "CHR 0x00" n ?ns]
    by (auto simp: number_char_def is_digit_def)
  ultimately have "inside (b\<lparr>buf_offset := buf_offset b + length (take n ?ns)\<rparr>)" using move_inside[OF assms] by blast
  moreover have "length (take n ?ns) = n" using n by simp
  ultimately show ?thesis using s by (auto simp: parse_number_def goes_on_def onward_def)
qed

section \<open>Containers\<close>

text \<open>A reader of values that goes on from every place inside, from some depth of nesting on.\<close>

locale value_parser =
  fixes pv :: "parse_buffer \<Rightarrow> cJSON parsed res" and low :: nat
  assumes value_goes_on: "inside b \<Longrightarrow> low \<le> buf_depth b \<Longrightarrow> buf_depth b \<le> 1000 \<Longrightarrow> goes_on b (pv b)"
begin

lemma after_skip:
  assumes "inside b" and "low \<le> buf_depth b" and "buf_depth b \<le> 1000"
  obtains "pv (buffer_skip_whitespace b) = Inr None"
  | x b' where "pv (buffer_skip_whitespace b) = Inr (Some (x, b'))" and "onward b b'"
proof -
  note s = skip_inside[OF assms(1)]
  have "goes_on (buffer_skip_whitespace b) (pv (buffer_skip_whitespace b))"
    using value_goes_on[OF s(1)] s(4) assms(2,3) by simp
  then show ?thesis
    by (rule goes_onE) (use that s in \<open>auto simp: onward_def\<close>)
qed

lemma elements_go_on:
  assumes "inside (b\<lparr>buf_offset := buf_offset b + 1\<rparr>)" and "low \<le> buf_depth b" and "buf_depth b \<le> 1000"
    and "length (content b) \<le> m + buf_offset b"
  shows "goes_on b (parse_elements pv m b)"
  using assms
proof (induction m arbitrary: b)
  case 0
  then show ?case by (simp add: inside_def)
next
  case (Suc m)
  let ?b = "b\<lparr>buf_offset := buf_offset b + 1\<rparr>"
  show ?case
  proof (rule after_skip[OF Suc.prems(1)])
    show "low \<le> buf_depth ?b" "buf_depth ?b \<le> 1000" using Suc.prems(2,3) by simp_all
  next
    assume "pv (buffer_skip_whitespace ?b) = Inr None"
    then show ?thesis by simp
  next
    fix x b1 assume x: "pv (buffer_skip_whitespace ?b) = Inr (Some (x, b1))" "onward ?b b1"
    let ?b2 = "buffer_skip_whitespace b1"
    have o: "onward b ?b2" using onward_skip[OF x(2)] by (simp add: onward_def)
    show ?thesis
    proof (cases "next_is (CHR '','') ?b2")
      case True
      have "goes_on ?b2 (parse_elements pv m ?b2)"
        using Suc.IH[of ?b2] next_is_step[OF _ True] o Suc.prems(2-4) by (simp add: onward_def)
      then show ?thesis
        by (rule goes_onE) (use x True o in \<open>auto simp: onward_def\<close>)
    qed (use x o in simp)
  qed
qed

lemma members_go_on:
  assumes "inside (b\<lparr>buf_offset := buf_offset b + 1\<rparr>)" and "low \<le> buf_depth b" and "buf_depth b \<le> 1000"
    and "length (content b) \<le> m + buf_offset b"
  shows "goes_on b (parse_members pv m b)"
  using assms
proof (induction m arbitrary: b)
  case 0
  then show ?case by (simp add: inside_def)
next
  case (Suc m)
  let ?b = "b\<lparr>buf_offset := buf_offset b + 1\<rparr>"
  note s = skip_inside[OF Suc.prems(1)]
  show ?case
  proof (rule goes_onE[OF string_goes_on[OF s(1)]])
    assume "parse_string_at (buffer_skip_whitespace ?b) = Inr None"
    then show ?thesis by simp
  next
    fix nm b1 assume nm: "parse_string_at (buffer_skip_whitespace ?b) = Inr (Some (nm, b1))" "onward (buffer_skip_whitespace ?b) b1"
    let ?b2 = "buffer_skip_whitespace b1"
    have o: "onward b ?b2" using onward_skip[OF nm(2)] s by (simp add: onward_def)
    show ?thesis
    proof (cases "next_is (CHR '':'') ?b2")
      case c: True
      have i: "inside (?b2\<lparr>buf_offset := buf_offset ?b2 + 1\<rparr>)" using next_is_step[OF _ c] o by (simp add: onward_def)
      show ?thesis
      proof (rule after_skip[OF i])
        show "low \<le> buf_depth (?b2\<lparr>buf_offset := buf_offset ?b2 + 1\<rparr>)" "buf_depth (?b2\<lparr>buf_offset := buf_offset ?b2 + 1\<rparr>) \<le> 1000"
          using Suc.prems(2,3) o by (simp_all add: onward_def)
      next
        assume "pv (buffer_skip_whitespace (?b2\<lparr>buf_offset := buf_offset ?b2 + 1\<rparr>)) = Inr None"
        then show ?thesis using nm c by simp
      next
        fix x b3 assume x: "pv (buffer_skip_whitespace (?b2\<lparr>buf_offset := buf_offset ?b2 + 1\<rparr>)) = Inr (Some (x, b3))"
          "onward (?b2\<lparr>buf_offset := buf_offset ?b2 + 1\<rparr>) b3"
        let ?b4 = "buffer_skip_whitespace b3"
        have o4: "onward b ?b4" using onward_skip[OF x(2)] o by (simp add: onward_def)
        show ?thesis
        proof (cases "next_is (CHR '','') ?b4")
          case True
          have "goes_on ?b4 (parse_members pv m ?b4)"
            using Suc.IH[of ?b4] next_is_step[OF _ True] o4 Suc.prems(2-4) by (simp add: onward_def)
          then show ?thesis
            by (rule goes_onE) (use nm c x True o4 in \<open>auto simp: onward_def\<close>)
        qed (use nm c x o4 in simp)
      qed
    qed (use nm in simp)
  qed
qed

end

lemma close_goes_on:
  assumes "inside b" and "c \<noteq> CHR 0x00" and "\<And>x b'. r = Some (x, b') \<Longrightarrow> inside b' \<and> content b' = content b \<and>
    buf_depth b' = buf_depth b + 1 \<and> buf_offset b < buf_offset b'"
  shows "goes_on b (Inr (close_container c r))"
proof (cases "\<exists>x b'. r = Some (x, b') \<and> next_is c b'")
  case True
  then obtain x b' where r: "r = Some (x, b')" "next_is c b'" by blast
  have i: "inside b'" "content b' = content b" "buf_depth b' = buf_depth b + 1" "buf_offset b < buf_offset b'"
    using assms(3)[OF r(1)] by simp_all
  have "onward b (b'\<lparr>buf_depth := buf_depth b' - 1, buf_offset := buf_offset b' + 1\<rparr>)"
    using next_is_step[OF i(1) r(2) assms(2)] i by (simp add: onward_def inside_def)
  then show ?thesis using r by (simp add: close_container_def)
next
  case False
  then have "close_container c r = None" by (auto simp: close_container_def split: option.splits)
  then show ?thesis by simp
qed

lemma open_inside:
  assumes "inside b" and "content b ! buf_offset b \<noteq> CHR 0x00"
  shows "inside (open_container b)" and "buf_offset b < buf_offset (open_container b)"
    and "content (open_container b) = content b" and "buf_depth (open_container b) = buf_depth b + 1"
proof -
  let ?b = "b\<lparr>buf_depth := buf_depth b + 1, buf_offset := buf_offset b + 1\<rparr>"
  have i: "inside ?b" using step_inside[OF assms] by (simp add: inside_def)
  show "inside (open_container b)" "buf_offset b < buf_offset (open_container b)"
    "content (open_container b) = content b" "buf_depth (open_container b) = buf_depth b + 1"
    using skip_inside[OF i] unfolding open_container_def by simp_all
qed

context value_parser
begin

text \<open>The character in front of the first element.\<close>

lemma loop_inside:
  assumes "inside b" and "content b ! buf_offset b \<noteq> CHR 0x00"
  defines "b0 \<equiv> (open_container b)\<lparr>buf_offset := buf_offset (open_container b) - 1\<rparr>"
  shows "inside (b0\<lparr>buf_offset := buf_offset b0 + 1\<rparr>)" and "buf_depth b0 = buf_depth b + 1" and "content b0 = content b"
    and "buf_offset b \<le> buf_offset b0"
  using open_inside[OF assms(1,2)] by (simp_all add: b0_def inside_def)

lemma array_goes_on:
  assumes "inside b" and "low \<le> buf_depth b + 1" and "buf_depth b \<le> 1000"
  shows "goes_on b (parse_array pv b)"
proof (cases "buf_depth b < 1000 \<and> content b ! buf_offset b = CHR ''[''")
  case True
  have c: "content b ! buf_offset b \<noteq> CHR 0x00" using True by simp
  note o = open_inside[OF assms(1) c] and l = loop_inside[OF assms(1) c]
  let ?b0 = "(open_container b)\<lparr>buf_offset := buf_offset (open_container b) - 1\<rparr>"
  have "goes_on ?b0 (parse_elements pv (length (content b)) ?b0)"
    by (rule elements_go_on) (use l True assms(2) in simp_all)
  then obtain r where r: "parse_elements pv (length (content b)) ?b0 = Inr r" "\<And>x b'. r = Some (x, b') \<Longrightarrow> onward ?b0 b'"
    unfolding goes_on_def by blast
  have "goes_on b (Inr (close_container (CHR '']'') (map_option (\<lambda>(xs, b2). (cJSON_Array xs, b2)) r)))"
    by (rule close_goes_on[OF assms(1)]) (use r(2) l in \<open>auto simp: onward_def\<close>)
  moreover have "goes_on b (Inr (close_container (CHR '']'') (Some (cJSON_Array [], open_container b))))"
    by (rule close_goes_on[OF assms(1)]) (use o in auto)
  ultimately show ?thesis
    using r(1) True assms(1) o by (simp add: parse_array_def at_offset_def can_access_def inside_def Let_def)
qed (use assms(1) in \<open>auto simp: parse_array_def at_offset_def can_access_def inside_def\<close>)

lemma object_goes_on:
  assumes "inside b" and "low \<le> buf_depth b + 1" and "buf_depth b \<le> 1000"
  shows "goes_on b (parse_object pv b)"
proof (cases "buf_depth b < 1000 \<and> next_is (CHR ''{'') b")
  case True
  have c: "content b ! buf_offset b \<noteq> CHR 0x00" using True by (simp add: next_is_def)
  note o = open_inside[OF assms(1) c] and l = loop_inside[OF assms(1) c]
  let ?b0 = "(open_container b)\<lparr>buf_offset := buf_offset (open_container b) - 1\<rparr>"
  have "goes_on ?b0 (parse_members pv (length (content b)) ?b0)"
    by (rule members_go_on) (use l True assms(2) in simp_all)
  then obtain r where r: "parse_members pv (length (content b)) ?b0 = Inr r" "\<And>x b'. r = Some (x, b') \<Longrightarrow> onward ?b0 b'"
    unfolding goes_on_def by blast
  have "goes_on b (Inr (close_container (CHR ''}'') (map_option (\<lambda>(ms, b2). (cJSON_Object ms, b2)) r)))"
    by (rule close_goes_on[OF assms(1)]) (use r(2) l in \<open>auto simp: onward_def\<close>)
  moreover have "goes_on b (Inr (close_container (CHR ''}'') (Some (cJSON_Object [], open_container b))))"
    by (rule close_goes_on[OF assms(1)]) (use o in auto)
  ultimately show ?thesis using r(1) True o by (simp add: parse_object_def Let_def)
qed (auto simp: parse_object_def)

end

section \<open>Values\<close>

lemma parse_value_goes_on: "value_parser (parse_value n) (1001 - n)"
proof (induction n)
  case 0
  show ?case by unfold_locales simp
next
  case (Suc n)
  show ?case
  proof
    fix b assume b: "inside b" "1001 - Suc n \<le> buf_depth b" "buf_depth b \<le> 1000"
    have s: "goes_on b (bind_res (parse_string_at b) (\<lambda>r. Inr (map_option (\<lambda>(s, b1). (cJSON_String (c_str s), b1)) r)))"
      by (rule goes_onE[OF string_goes_on[OF b(1)]]) auto
    have d: "1001 - n \<le> buf_depth b + 1" using b(2) by simp
    note c = value_parser.array_goes_on[OF Suc b(1) d b(3)] value_parser.object_goes_on[OF Suc b(1) d b(3)]
    have w: "word_at ''null'' b \<Longrightarrow> onward b (move_by 4 b)" "word_at ''false'' b \<Longrightarrow> onward b (move_by 5 b)"
      "word_at ''true'' b \<Longrightarrow> onward b (move_by 4 b)"
      using word_goes_on[OF b(1), of "''null''"] word_goes_on[OF b(1), of "''false''"] word_goes_on[OF b(1), of "''true''"]
      by (simp_all add: eval_nat_numeral)
    show "goes_on b (parse_value (Suc n) b)"
      using s c number_goes_on[OF b(1)] w by (simp add: Let_def)
  qed
qed

interpretation json: value_parser "parse_value n" "1001 - n" for n
  by (rule parse_value_goes_on)

end
