(* ===== verification/Json_Read.thy ===== *)
theory Json_Read
  imports Json_Safe
begin

text \<open>
  What the printer writes, plain or formatted, the reader reads back: for every item whose numbers are integers
  of C, whose strings end where C ends them, and that does not nest too deep.
\<close>

section \<open>Integers\<close>

lemma nat_log2_less: "n < 2 ^ k \<Longrightarrow> 0 < k \<Longrightarrow> nat_log2 n < k"
proof (induction n arbitrary: k rule: nat_log2.induct)
  case (1 n)
  show ?case
  proof (cases "n < 2")
    case True
    then show ?thesis using 1(3) by (simp add: nat_log2.simps[of n])
  next
    case False
    then obtain k' where k: "k = Suc k'" "0 < k'" using 1(2,3) by (cases k; cases "k - 1") auto
    then have "n div 2 < 2 ^ k'" using 1(2) by (simp add: less_mult_imp_div_less mult.commute)
    then show ?thesis using 1(1)[OF False _ k(2)] False k(1) by (simp add: nat_log2.simps[of n])
  qed
qed

lemma round_half_even_int: "round_half_even (of_int z) = z"
  by (simp add: round_half_even_def)

lemma ilog2_int: "0 < n \<Longrightarrow> n < 2 ^ 53 \<Longrightarrow> ilog2 (of_int n) \<le> 52"
proof -
  assume n: "0 < n" "n < 2 ^ 53"
  have "nat_log2 (nat n) < 53" by (rule nat_log2_less) (use n in simp_all)
  moreover have "nat_log2 1 = 0" by (simp add: nat_log2.simps)
  ultimately show ?thesis by (simp add: ilog2_def quotient_of_int Let_def)
qed

text \<open>Integers of up to 53 bits are doubles.\<close>

lemma rnd64_int:
  assumes "\<bar>z\<bar> < 2 ^ 53"
  shows "rnd64 (of_int z) = of_int z"
proof (cases "z = 0")
  case False
  define e where "e = max (ilog2 (of_int \<bar>z\<bar>)) (- 1022) - 52"
  have e: "e \<le> 0" using ilog2_int[of "\<bar>z\<bar>"] assms False by (simp add: e_def)
  have u: "pow2 e = 1 / of_int (2 ^ nat (- e))" using e by (cases "e = 0") (simp_all add: pow2_def)
  have "of_int z / pow2 e = (of_int (z * 2 ^ nat (- e)) :: rat)" by (simp add: u)
  then have "round_half_even (of_int z / pow2 e) = z * 2 ^ nat (- e)" by (simp only: round_half_even_int)
  then show ?thesis using False by (simp add: rnd64_def Let_def e_def[symmetric] u flip: of_int_abs)
qed (simp add: rnd64_def)

lemma double_of_small:
  assumes "\<bar>z\<bar> < 2 ^ 53"
  shows "double_of_rat (of_int z) = double_of_int z"
proof -
  have "(of_int z :: rat) < of_int (2 ^ 1024)" "(of_int (- (2 ^ 1024)) :: rat) < of_int z"
    unfolding of_int_less_iff using assms power_increasing[of 53 1024 "2 :: int"] by simp_all
  then show ?thesis using rnd64_int[OF assms] by (simp add: double_of_rat_def Let_def double_of_int_def)
qed

lemma digit_char: "k < 10 \<Longrightarrow> is_digit (char_of (48 + k)) \<and> of_char (char_of (48 + k) :: char) = 48 + (k :: nat)"
  by (simp add: is_digit_def)

lemma nat_digits: "(\<forall>c \<in> set (string_of_nat n). is_digit c) \<and> string_of_nat n \<noteq> [] \<and> digits_value (string_of_nat n) = n"
proof (induction n rule: string_of_nat.induct)
  case (1 n)
  show ?case
  proof (cases "n < 10")
    case True
    then show ?thesis using digit_char[of n] by (simp add: string_of_nat.simps[of n] digits_value_def)
  next
    case False
    then show ?thesis
      using 1 digit_char[of "n mod 10"] by (simp add: string_of_nat.simps[of n] digits_value_def)
  qed
qed

lemma strtod_digits:
  assumes "\<forall>c \<in> set ds. is_digit c" and "ds \<noteq> []" and "\<bar>int (digits_value ds)\<bar> < 2 ^ 53"
  shows "strtod (CHR ''-'' # ds) = (double_of_int (- int (digits_value ds)), Suc (length ds))"
    and "strtod ds = (double_of_int (int (digits_value ds)), length ds)"
proof -
  have d: "takeWhile is_digit ds = ds" "dropWhile is_digit ds = []" using assms(1) by simp_all
  obtain c cs where c: "ds = c # cs" using assms(2) by (cases ds) auto
  then have "is_digit c" using assms(1) by simp
  then have "read_sign ds = (1, ds)" using c by (auto simp: is_digit_def)
  then show "strtod ds = (double_of_int (int (digits_value ds)), length ds)"
    using assms(2) double_of_small[OF assms(3)] by (simp add: strtod_def Let_def pow10_def d)
  show "strtod (CHR ''-'' # ds) = (double_of_int (- int (digits_value ds)), Suc (length ds))"
    using assms(2,3) double_of_small[of "- int (digits_value ds)"] by (simp add: strtod_def Let_def pow10_def d)
qed

lemma strtod_int:
  assumes "\<bar>i\<bar> < 2 ^ 53"
  shows "strtod (string_of_int i) = (double_of_int i, length (string_of_int i))"
proof -
  note n = nat_digits[of "nat \<bar>i\<bar>"]
  have v: "int (digits_value (string_of_nat (nat \<bar>i\<bar>))) = \<bar>i\<bar>" using n by simp
  show ?thesis
    using strtod_digits[of "string_of_nat (nat \<bar>i\<bar>)"] n v assms by (auto simp: string_of_int_def abs_if)
qed

lemma string_of_int_chars:
  assumes "INT_MIN \<le> i" and "i \<le> INT_MAX"
  shows "\<forall>c \<in> set (string_of_int i). number_char c" and "length (string_of_int i) \<le> 11"
    and "\<exists>c cs. string_of_int i = c # cs \<and> (c = CHR ''-'' \<or> is_digit c)"
proof -
  note n = nat_digits[of "nat \<bar>i\<bar>"]
  have "length (string_of_nat (nat \<bar>i\<bar>)) \<le> 10"
    using length_string_of_nat[of "nat \<bar>i\<bar>" 9] assms by (simp add: INT_MIN_def INT_MAX_def)
  then show "\<forall>c \<in> set (string_of_int i). number_char c" "length (string_of_int i) \<le> 11"
    "\<exists>c cs. string_of_int i = c # cs \<and> (c = CHR ''-'' \<or> is_digit c)"
    using n by (auto simp: string_of_int_def number_char_def abs_if neq_Nil_conv split: if_splits)
qed

section \<open>A place in a text\<close>

definition here :: "string \<Rightarrow> string \<Rightarrow> nat \<Rightarrow> parse_buffer" where
  "here pre post k = \<lparr>content = pre @ post, buf_offset = length pre, buf_depth = k\<rparr>"

lemma here_simps [simp]:
  "drop (buf_offset (here pre post k)) (content (here pre post k)) = post"
  "can_access (here pre (c # post) k) 0" "content (here pre (c # post) k) ! buf_offset (here pre (c # post) k) = c"
  "at_offset (here pre (c # post) k) = Inr c" "next_is d (here pre (c # post) k) \<longleftrightarrow> c = d"
  "buf_depth (here pre post k) = k"
  by (simp_all add: here_def can_access_def at_offset_def next_is_def)

lemma here_move: "(here pre (t @ post) k)\<lparr>buf_offset := buf_offset (here pre (t @ post) k) + length t\<rparr> = here (pre @ t) post k"
  by (simp add: here_def)

lemma here_step: "(here pre (c # post) k)\<lparr>buf_offset := buf_offset (here pre (c # post) k) + 1\<rparr> = here (pre @ [c]) post k"
  using here_move[of pre "[c]"] by simp

lemma here_depth: "(here pre post k)\<lparr>buf_depth := k'\<rparr> = here pre post k'"
  by (simp add: here_def)

lemma skip_here:
  assumes "\<forall>c \<in> set ws. blank c" and "\<not> blank c"
  shows "buffer_skip_whitespace (here pre (ws @ c # post) k) = here (pre @ ws) (c # post) k"
proof -
  have t: "takeWhile blank (ws @ c # post) = ws" using assms by (simp add: takeWhile_append2)
  show ?thesis
    unfolding buffer_skip_whitespace_def Let_def here_simps(1) t by (auto simp: here_def can_access_def)
qed

lemma word_here: "word_at (d # w) (here pre (c # post) k) \<Longrightarrow> c = d"
  by (simp add: word_at_def)

section \<open>Items that can be read back\<close>

fun nest :: "cJSON \<Rightarrow> nat"
  and nest_elements :: "cJSON list \<Rightarrow> nat"
  and nest_members :: "(string \<times> cJSON) list \<Rightarrow> nat" where
  "nest (cJSON_Array xs) = Suc (nest_elements xs)"
| "nest (cJSON_Object ms) = Suc (nest_members ms)"
| "nest j = 0"
| "nest_elements [] = 0"
| "nest_elements (x # xs) = max (nest x) (nest_elements xs)"
| "nest_members [] = 0"
| "nest_members (m # ms) = max (nest (snd m)) (nest_members ms)"

fun plain :: "cJSON \<Rightarrow> bool"
  and plain_elements :: "cJSON list \<Rightarrow> bool"
  and plain_members :: "(string \<times> cJSON) list \<Rightarrow> bool" where
  "plain (cJSON_Number d i) \<longleftrightarrow> d = double_of_int i \<and> INT_MIN \<le> i \<and> i \<le> INT_MAX"
| "plain (cJSON_Raw s) \<longleftrightarrow> False"
| "plain (cJSON_String s) \<longleftrightarrow> c_str s = s"
| "plain (cJSON_Array xs) \<longleftrightarrow> plain_elements xs"
| "plain (cJSON_Object ms) \<longleftrightarrow> plain_members ms"
| "plain j \<longleftrightarrow> True"
| "plain_elements [] \<longleftrightarrow> True"
| "plain_elements (x # xs) \<longleftrightarrow> plain x \<and> plain_elements xs"
| "plain_members [] \<longleftrightarrow> True"
| "plain_members (m # ms) \<longleftrightarrow> c_str (fst m) = fst m \<and> plain (snd m) \<and> plain_members ms"

text \<open>What follows a value ends a number.\<close>

definition ends_value :: "string \<Rightarrow> bool" where
  "ends_value post \<longleftrightarrow> post \<noteq> [] \<and> \<not> number_char (hd post)"

lemma ends_value_simps [simp]: "ends_value (c # post) \<longleftrightarrow> \<not> number_char c"
  by (simp add: ends_value_def)

definition reads :: "(parse_buffer \<Rightarrow> cJSON parsed res) \<Rightarrow> nat \<Rightarrow> cJSON \<Rightarrow> string \<Rightarrow> bool" where
  "reads pv k j t \<longleftrightarrow> (\<forall>pre post. ends_value post \<longrightarrow> pv (here pre (t @ post) k) = Inr (Some (j, here (pre @ t) post k)))"

lemma blank_no_number: "blank c \<Longrightarrow> \<not> number_char c"
  by (auto simp: blank_def number_char_def is_digit_def)

text \<open>The first character of a value.\<close>

lemma print_first:
  assumes "plain j"
  obtains c r where "print_value g fmt d j = c # r" and "\<not> blank c" and "c \<noteq> CHR '']''" and "c \<noteq> CHR ''}''"
proof (cases j)
  case (cJSON_Number x i)
  then obtain c r where "string_of_int i = c # r" "c = CHR ''-'' \<or> is_digit c" using string_of_int_chars(3)[of i] assms by auto
  moreover from this(2) have "\<not> blank c" "c \<noteq> CHR '']''" "c \<noteq> CHR ''}''" by (auto simp: blank_def is_digit_def)
  ultimately show ?thesis using that[of c r] cJSON_Number assms by simp
qed (use assms that in \<open>auto simp: blank_def print_string_ptr_def\<close>)

section \<open>Leaves\<close>

lemma string_here:
  assumes "c_str s = s"
  shows "parse_string_at (here pre (print_string_ptr s @ post) k) = Inr (Some (s, here (pre @ print_string_ptr s) post k))"
proof -
  have "at_offset (here pre (print_string_ptr s @ post) k) = Inr (CHR 0x22)" by (simp add: print_string_ptr_def)
  then show ?thesis
    using json_string_roundtrip[of s post] assms by (simp add: parse_string_at_def) (simp add: here_def)
qed

lemma number_here:
  assumes "INT_MIN \<le> i" and "i \<le> INT_MAX" and "ends_value post"
  shows "parse_number (here pre (string_of_int i @ post) k) = Some (cJSON_Number (double_of_int i) i, here (pre @ string_of_int i) post k)"
proof -
  note c = string_of_int_chars[OF assms(1,2)]
  have "takeWhile number_char (take n post) = []" for n
    using assms(3) by (cases post; cases n) (auto simp: ends_value_def)
  then have t: "takeWhile number_char (take 63 (string_of_int i @ post)) = string_of_int i"
    using c(1,2) by (simp add: takeWhile_append2)
  have "\<bar>i\<bar> < 2 ^ 53" using assms(1,2) by (auto simp: INT_MIN_def INT_MAX_def)
  moreover have "saturate_int (double_of_int i) = i" by (rule saturate_double_of_int[OF assms(1,2)])
  moreover have "length (string_of_int i) \<noteq> 0" using c(3) by auto
  ultimately show ?thesis
    unfolding parse_number_def here_simps(1) t using strtod_int[of i] here_move[of pre "string_of_int i" post k]
    by (simp del: saturate_int.simps)
qed

lemma leaf_reads:
  assumes "plain j" and "nest j = 0"
  shows "reads (parse_value (Suc n)) k j (print_value g fmt d j)"
  unfolding reads_def
proof (intro allI impI)
  fix pre post assume e: "ends_value post"
  obtain c r where cr: "print_value g fmt d j = c # r" using print_first[OF assms(1)] by metis
  have w: "\<not> word_at ''null'' (here pre (c # x) k)" if "c \<noteq> CHR ''n''" for x using that word_here by blast
  have w': "\<not> word_at ''false'' (here pre (c # x) k)" if "c \<noteq> CHR ''f''" for x using that word_here by blast
  have w'': "\<not> word_at ''true'' (here pre (c # x) k)" if "c \<noteq> CHR ''t''" for x using that word_here by blast
  show "parse_value (Suc n) (here pre (print_value g fmt d j @ post) k) = Inr (Some (j, here (pre @ print_value g fmt d j) post k))"
  proof (cases j)
    case (cJSON_Number x i)
    then have i: "INT_MIN \<le> i" "i \<le> INT_MAX" "print_value g fmt d j = string_of_int i" "x = double_of_int i" using assms(1) by auto
    have c: "c = CHR ''-'' \<or> is_digit c" using string_of_int_chars(3)[OF i(1,2)] i(3) cr by auto
    then have "c \<noteq> CHR ''n''" "c \<noteq> CHR ''f''" "c \<noteq> CHR ''t''" "c \<noteq> CHR 0x22" by (auto simp: is_digit_def)
    then show ?thesis
      using number_here[OF i(1,2) e, of pre k] c w w' w'' i(3,4) cr cJSON_Number by (simp add: Let_def)
  next
    case (cJSON_String s)
    then show ?thesis
      using string_here[of s pre post k] assms(1) cr w w' w'' by (auto simp: Let_def print_string_ptr_def)
  qed (use assms here_move[of pre "print_value g fmt d j" post k] in \<open>auto simp: word_at_def move_by_def eval_nat_numeral\<close>)
qed

section \<open>Containers\<close>

lemma ends_blank: "\<forall>c \<in> set ws. blank c \<Longrightarrow> \<not> number_char c \<Longrightarrow> ends_value (ws @ c # post)"
  by (cases ws) (simp_all add: blank_no_number)

lemma not_blank [simp]: "\<not> blank (CHR '','')" "\<not> blank (CHR '':'')" "\<not> blank (CHR '']'')" "\<not> blank (CHR ''}'')" "\<not> blank (CHR 0x22)"
  by (simp_all add: blank_def)

lemma no_number [simp]: "\<not> number_char (CHR '','')" "\<not> number_char (CHR '']'')" "\<not> number_char (CHR ''}'')"
  by (simp_all add: number_char_def is_digit_def)

lemma skip_none: "\<not> blank c \<Longrightarrow> buffer_skip_whitespace (here pre (c # post) k) = here pre (c # post) k"
  using skip_here[of "[]"] by simp

lemma close_here: "close_container c (Some (x, here pre (c # post) (Suc k))) = Some (x, here (pre @ [c]) post k)"
  by (simp add: close_container_def) (simp add: here_def)

lemma open_here:
  assumes "\<forall>c \<in> set ws. blank c" and "\<not> blank c"
  shows "open_container (here pre (a # ws @ c # post) k) = here (pre @ a # ws) (c # post) (Suc k)"
proof -
  have "(here pre (a # ws @ c # post) k)\<lparr>buf_depth := buf_depth (here pre (a # ws @ c # post) k) + 1,
      buf_offset := buf_offset (here pre (a # ws @ c # post) k) + 1\<rparr> = here (pre @ [a]) (ws @ c # post) (Suc k)"
    by (simp add: here_def)
  then show ?thesis using skip_here[OF assms, of "pre @ [a]" post "Suc k"] by (simp add: open_container_def)
qed

text \<open>In front of the first element, one character back.\<close>

lemma back_and_skip:
  fixes pre post :: string and k :: nat
  assumes "\<not> blank c" and "pre \<noteq> []"
  defines "b \<equiv> (here pre (c # post) k)\<lparr>buf_offset := buf_offset (here pre (c # post) k) - 1\<rparr>"
  shows "buffer_skip_whitespace (b\<lparr>buf_offset := buf_offset b + 1\<rparr>) = here pre (c # post) k"
proof -
  have "b\<lparr>buf_offset := buf_offset b + 1\<rparr> = here pre (c # post) k" using assms(2) by (simp add: b_def here_def)
  then show ?thesis using skip_none[OF assms(1)] by simp
qed

lemma elements_read:
  assumes "xs \<noteq> []" and "\<forall>x \<in> set xs. plain x \<and> reads pv k x (print_value g fmt d x)" and "length xs \<le> m"
    and "buffer_skip_whitespace (b\<lparr>buf_offset := buf_offset b + 1\<rparr>) = here pre (print_elements g fmt d xs @ CHR '']'' # post) k"
  shows "parse_elements pv m b = Inr (Some (xs, here (pre @ print_elements g fmt d xs) (CHR '']'' # post) k))"
  using assms
proof (induction xs arbitrary: m b pre)
  case (Cons x xs)
  obtain m' where m: "m = Suc m'" using Cons.prems(3) by (cases m) auto
  let ?t = "print_value g fmt d x"
  have r: "ends_value u \<Longrightarrow> pv (here pre (?t @ u) k) = Inr (Some (x, here (pre @ ?t) u k))" for u
    using Cons.prems(2) by (simp add: reads_def)
  show ?case
  proof (cases "xs = []")
    case True
    then show ?thesis
      using Cons.prems(4) r[of "CHR '']'' # post"] m by (simp add: skip_none)
  next
    case False
    define sp where "sp = (if fmt then '' '' else [])"
    let ?u = "sp @ print_elements g fmt d xs @ CHR '']'' # post"
    have e: "print_elements g fmt d (x # xs) = ?t @ CHR '','' # sp @ print_elements g fmt d xs"
      using False by (simp add: sp_def)
    have pv: "pv (buffer_skip_whitespace (b\<lparr>buf_offset := buf_offset b + 1\<rparr>)) = Inr (Some (x, here (pre @ ?t) (CHR '','' # ?u) k))"
      unfolding Cons.prems(4) e using r[of "CHR '','' # ?u"] by simp
    obtain y ys where y: "xs = y # ys" using False by (cases xs) auto
    obtain c cs where c: "print_elements g fmt d xs = c # cs" "\<not> blank c"
      using print_first[of y g fmt d] Cons.prems(2) y by (metis append_Cons list.set_intros print_elements.simps(2))
    have "\<forall>c \<in> set sp. blank c" by (simp add: sp_def blank_def)
    from skip_here[OF this c(2)] have "buffer_skip_whitespace ((here (pre @ ?t) (CHR '','' # ?u) k)\<lparr>buf_offset :=
        buf_offset (here (pre @ ?t) (CHR '','' # ?u) k) + 1\<rparr>) =
      here (pre @ ?t @ CHR '','' # sp) (print_elements g fmt d xs @ CHR '']'' # post) k"
      unfolding here_step c(1) by simp
    from Cons.IH[OF False _ _ this, of m'] Cons.prems(2,3) m
    have "parse_elements pv m' (here (pre @ ?t) (CHR '','' # ?u) k) =
      Inr (Some (xs, here (pre @ print_elements g fmt d (x # xs)) (CHR '']'' # post) k))"
      unfolding e by simp
    then show ?thesis using pv m by (simp add: skip_none Let_def)
  qed
qed simp

lemma print_elements_length: "\<forall>x \<in> set xs. plain x \<Longrightarrow> length xs \<le> length (print_elements g fmt d xs)"
proof (induction xs)
  case (Cons x xs)
  obtain c r where "print_value g fmt d x = c # r" using print_first[of x g fmt d] Cons.prems by (metis list.set_intros(1))
  then show ?case using Cons by simp
qed simp

lemma array_reads:
  assumes "\<forall>x \<in> set xs. plain x \<and> reads pv (Suc k) x (print_value g fmt (Suc d) x)" and "k < 1000"
  shows "parse_array pv (here pre (print_value g fmt d (cJSON_Array xs) @ post) k) =
    Inr (Some (cJSON_Array xs, here (pre @ print_value g fmt d (cJSON_Array xs)) post k))"
proof (cases "xs = []")
  case True
  have "open_container (here pre (CHR ''['' # CHR '']'' # post) k) = here (pre @ ''['') (CHR '']'' # post) (Suc k)"
    using open_here[of "[]" "CHR '']''"] by simp
  then show ?thesis
    using True assms(2) close_here[of "CHR '']''" "cJSON_Array []" "pre @ ''[''" post k] by (simp add: parse_array_def)
next
  case False
  let ?e = "print_elements g fmt (Suc d) xs" and ?b = "here pre (print_value g fmt d (cJSON_Array xs) @ post) k"
  obtain y ys where y: "xs = y # ys" using False by (cases xs) auto
  obtain c cs where c: "?e @ CHR '']'' # post = c # cs" "\<not> blank c" "c \<noteq> CHR '']''"
    using print_first[of y g fmt "Suc d"] assms(1) y by (metis append_Cons list.set_intros(1) print_elements.simps(2))
  have o: "open_container ?b = here (pre @ ''['') (c # cs) (Suc k)"
    using open_here[of "[]" c pre "CHR ''[''" cs k] c by simp
  let ?start = "(open_container ?b)\<lparr>buf_offset := buf_offset (open_container ?b) - 1\<rparr>"
  have "buffer_skip_whitespace (?start\<lparr>buf_offset := buf_offset ?start + 1\<rparr>) = here (pre @ ''['') (?e @ CHR '']'' # post) (Suc k)"
    using back_and_skip[OF c(2), of "pre @ ''[''" cs "Suc k"] unfolding o c(1) by simp
  moreover have "length xs \<le> length (content ?b)"
    using print_elements_length[of xs g fmt "Suc d"] assms(1) by (simp add: here_def)
  ultimately have "parse_elements pv (length (content ?b)) ?start =
      Inr (Some (xs, here (pre @ ''['' @ ?e) (CHR '']'' # post) (Suc k)))"
    using elements_read[OF False assms(1)] by simp
  then show ?thesis
    using assms(2) o c(3) close_here[of "CHR '']''" "cJSON_Array xs" "pre @ ''['' @ ?e" post k]
    by (simp add: parse_array_def Let_def)
qed

text \<open>The text of the members without the tabulators in front of the first.\<close>

definition members_body :: "(rat \<Rightarrow> string) \<Rightarrow> bool \<Rightarrow> nat \<Rightarrow> (string \<times> cJSON) list \<Rightarrow> string" where
  "members_body g fmt d ms = drop (if fmt then d else 0) (print_members g fmt d ms)"

abbreviation tabs :: "bool \<Rightarrow> nat \<Rightarrow> string" where "tabs fmt d \<equiv> if fmt then replicate d (CHR 0x09) else []"
abbreviation newline :: "bool \<Rightarrow> string" where "newline fmt \<equiv> if fmt then [CHR 0x0A] else []"

lemma members_body_Cons:
  "members_body g fmt d (m # ms) = print_string_ptr (fst m) @ CHR '':'' # (if fmt then [CHR 0x09] else []) @
     print_value g fmt d (snd m) @ (if ms = [] then [] else '','') @ newline fmt @ print_members g fmt d ms"
  by (simp add: members_body_def)

lemma print_members_body: "ms \<noteq> [] \<Longrightarrow> print_members g fmt d ms = tabs fmt d @ members_body g fmt d ms"
  by (cases ms) (simp_all add: members_body_def)

lemma members_first: "ms \<noteq> [] \<Longrightarrow> \<exists>r. members_body g fmt d ms = CHR 0x22 # r"
  by (cases ms) (simp_all add: members_body_Cons print_string_ptr_def)

text \<open>Reading a member: its name, the colon, and its value.\<close>

lemma member_read:
  fixes pre :: string
  assumes "c_str nm = nm" and "plain x" and "reads pv k x (print_value g fmt d x)" and "ends_value u" and "\<forall>c \<in> set sp. blank c"
  defines "b1 \<equiv> here (pre @ print_string_ptr nm) (CHR '':'' # sp @ print_value g fmt d x @ u) k"
  shows "parse_string_at (here pre (print_string_ptr nm @ CHR '':'' # sp @ print_value g fmt d x @ u) k) = Inr (Some (nm, b1))"
    and "buffer_skip_whitespace b1 = b1" and "next_is (CHR '':'') b1"
    and "pv (buffer_skip_whitespace (b1\<lparr>buf_offset := buf_offset b1 + 1\<rparr>)) =
      Inr (Some (x, here (pre @ print_string_ptr nm @ CHR '':'' # sp @ print_value g fmt d x) u k))"
proof -
  obtain c r where c: "print_value g fmt d x = c # r" "\<not> blank c" using print_first[OF assms(2), of g fmt d] by metis
  show "parse_string_at (here pre (print_string_ptr nm @ CHR '':'' # sp @ print_value g fmt d x @ u) k) = Inr (Some (nm, b1))"
    unfolding b1_def by (rule string_here[OF assms(1)])
  show "buffer_skip_whitespace b1 = b1" "next_is (CHR '':'') b1" by (simp_all add: b1_def skip_none)
  have "buffer_skip_whitespace (b1\<lparr>buf_offset := buf_offset b1 + 1\<rparr>) =
    here ((pre @ print_string_ptr nm @ '':'') @ sp) (print_value g fmt d x @ u) k"
    unfolding b1_def here_step c(1) using skip_here[OF assms(5) c(2), of "(pre @ print_string_ptr nm) @ '':''" "r @ u" k] by simp
  then show "pv (buffer_skip_whitespace (b1\<lparr>buf_offset := buf_offset b1 + 1\<rparr>)) =
      Inr (Some (x, here (pre @ print_string_ptr nm @ CHR '':'' # sp @ print_value g fmt d x) u k))"
    using assms(3,4) by (simp add: reads_def)
qed

lemma members_read:
  assumes "ms \<noteq> []" and "\<forall>m \<in> set ms. c_str (fst m) = fst m \<and> plain (snd m) \<and> reads pv k (snd m) (print_value g fmt d (snd m))"
    and "length ms \<le> n" and "\<forall>c \<in> set after. blank c"
    and "buffer_skip_whitespace (b\<lparr>buf_offset := buf_offset b + 1\<rparr>) = here pre (members_body g fmt d ms @ after @ CHR ''}'' # post) k"
  shows "parse_members pv n b = Inr (Some (ms, here (pre @ members_body g fmt d ms @ after) (CHR ''}'' # post) k))"
  using assms
proof (induction ms arbitrary: n b pre)
  case (Cons m ms)
  obtain n' where n: "n = Suc n'" using Cons.prems(3) by (cases n) auto
  obtain nm x where m: "m = (nm, x)" by (cases m)
  define sp where "sp = (if fmt then [CHR 0x09] else [])"
  define ws where "ws = (if ms = [] then newline fmt @ after else newline fmt @ tabs fmt d)"
  have bl: "\<forall>c \<in> set sp. blank c" "\<forall>c \<in> set ws. blank c"
    using Cons.prems(4) by (auto simp: sp_def ws_def blank_def)
  have cx: "c_str nm = nm" "plain x" "reads pv k x (print_value g fmt d x)" using Cons.prems(2) m by simp_all
  let ?vt = "print_string_ptr nm @ CHR '':'' # sp @ print_value g fmt d x"
  show ?case
  proof (cases "ms = []")
    case True
    let ?u = "ws @ CHR ''}'' # post"
    have e: "members_body g fmt d (m # ms) @ after = ?vt @ ws" using True m by (simp add: members_body_Cons sp_def ws_def)
    then have b: "buffer_skip_whitespace (b\<lparr>buf_offset := buf_offset b + 1\<rparr>) = here pre (print_string_ptr nm @ CHR '':'' # sp @ print_value g fmt d x @ ?u) k"
      using Cons.prems(5) by (metis append_Cons append_assoc)
    have "ends_value ?u" by (rule ends_blank[OF bl(2) no_number(3)])
    note r = member_read[OF cx this bl(1), of pre]
    have "buffer_skip_whitespace (here (pre @ ?vt) ?u k) = here (pre @ members_body g fmt d (m # ms) @ after) (CHR ''}'' # post) k"
      unfolding skip_here[OF bl(2) not_blank(4)] e by simp
    then show ?thesis unfolding n parse_members.simps b r(1) using r(2-4) True m cx(1) by (simp add: Let_def)
  next
    case False
    let ?u = "CHR '','' # ws @ members_body g fmt d ms @ after @ CHR ''}'' # post"
    have e: "members_body g fmt d (m # ms) = ?vt @ CHR '','' # ws @ members_body g fmt d ms"
      using False m by (simp add: members_body_Cons sp_def ws_def print_members_body)
    then have b: "buffer_skip_whitespace (b\<lparr>buf_offset := buf_offset b + 1\<rparr>) = here pre (print_string_ptr nm @ CHR '':'' # sp @ print_value g fmt d x @ ?u) k"
      using Cons.prems(5) by (metis append_Cons append_assoc)
    have "ends_value ?u" by simp
    note r = member_read[OF cx this bl(1), of pre]
    obtain mr where mr: "members_body g fmt d ms = CHR 0x22 # mr" using members_first[OF False] by blast
    have s: "buffer_skip_whitespace (here (pre @ ?vt) ?u k) = here (pre @ ?vt) ?u k" "next_is (CHR '','') (here (pre @ ?vt) ?u k)"
      by (simp_all add: skip_none)
    have "buffer_skip_whitespace ((here (pre @ ?vt) ?u k)\<lparr>buf_offset := buf_offset (here (pre @ ?vt) ?u k) + 1\<rparr>) =
      here (pre @ ?vt @ CHR '','' # ws) (members_body g fmt d ms @ after @ CHR ''}'' # post) k"
      unfolding here_step mr using skip_here[OF bl(2) not_blank(5), of "(pre @ ?vt) @ '',''" "mr @ after @ CHR ''}'' # post" k] by simp
    from Cons.IH[OF False _ _ Cons.prems(4) this, of n'] Cons.prems(2,3) n
    have "parse_members pv n' (here (pre @ ?vt) ?u k) =
      Inr (Some (ms, here (pre @ members_body g fmt d (m # ms) @ after) (CHR ''}'' # post) k))"
      unfolding e by simp
    then show ?thesis unfolding n parse_members.simps b r(1) using r(2-4) s m cx(1) by (simp add: Let_def)
  qed
qed simp

lemma members_body_length: "length ms \<le> length (members_body g fmt d ms)"
proof (induction ms)
  case (Cons m ms)
  have "length (members_body g fmt d ms) \<le> length (print_members g fmt d ms)" by (simp add: members_body_def)
  then show ?case using Cons by (simp add: members_body_Cons print_string_ptr_def)
qed (simp add: members_body_def)

lemma object_reads:
  assumes "\<forall>m \<in> set ms. c_str (fst m) = fst m \<and> plain (snd m) \<and> reads pv (Suc k) (snd m) (print_value g fmt (Suc d) (snd m))"
    and "k < 1000"
  shows "parse_object pv (here pre (print_value g fmt d (cJSON_Object ms) @ post) k) =
    Inr (Some (cJSON_Object ms, here (pre @ print_value g fmt d (cJSON_Object ms)) post k))"
proof (cases "ms = []")
  case True
  let ?ws = "newline fmt @ tabs fmt d"
  have t: "print_value g fmt d (cJSON_Object ms) = CHR ''{'' # ?ws @ ''}''" using True by simp
  have bl: "\<forall>c \<in> set ?ws. blank c" by (auto simp: blank_def)
  have "open_container (here pre (CHR ''{'' # ?ws @ CHR ''}'' # post) k) = here (pre @ CHR ''{'' # ?ws) (CHR ''}'' # post) (Suc k)"
    by (rule open_here[OF bl not_blank(4)])
  then show ?thesis
    unfolding t using True assms(2) close_here[of "CHR ''}''" "cJSON_Object []" "pre @ CHR ''{'' # ?ws" post k]
    by (simp add: parse_object_def Let_def)
next
  case False
  let ?ws = "newline fmt @ tabs fmt (Suc d)" and ?e = "members_body g fmt (Suc d) ms"
  let ?start = "here pre (print_value g fmt d (cJSON_Object ms) @ post) k"
  obtain r where r: "?e = CHR 0x22 # r" using members_first[OF False] by blast
  have t: "print_value g fmt d (cJSON_Object ms) = CHR ''{'' # ?ws @ ?e @ tabs fmt d @ ''}''"
    using print_members_body[OF False, of g fmt "Suc d"] by simp
  have bl: "\<forall>c \<in> set ?ws. blank c" "\<forall>c \<in> set (tabs fmt d). blank c" by (auto simp: blank_def)
  let ?rest = "r @ tabs fmt d @ CHR ''}'' # post"
  have o: "open_container ?start = here (pre @ CHR ''{'' # ?ws) (CHR 0x22 # ?rest) (Suc k)"
    unfolding t r using open_here[OF bl(1) not_blank(5), of pre "CHR ''{''" ?rest k] by simp
  let ?prev = "(open_container ?start)\<lparr>buf_offset := buf_offset (open_container ?start) - 1\<rparr>"
  have "buffer_skip_whitespace (?prev\<lparr>buf_offset := buf_offset ?prev + 1\<rparr>) =
      here (pre @ CHR ''{'' # ?ws) (?e @ tabs fmt d @ CHR ''}'' # post) (Suc k)"
    unfolding o r using back_and_skip[OF not_blank(5), of "pre @ CHR ''{'' # ?ws" ?rest "Suc k"] by simp
  moreover have "length ms \<le> length (content ?start)"
    using members_body_length[of ms g fmt "Suc d"] unfolding t by (simp add: here_def)
  ultimately have "parse_members pv (length (content ?start)) ?prev =
      Inr (Some (ms, here ((pre @ CHR ''{'' # ?ws) @ ?e @ tabs fmt d) (CHR ''}'' # post) (Suc k)))"
    by (rule members_read[OF False assms(1) _ bl(2), rotated])
  moreover have "next_is (CHR ''{'') ?start" unfolding t by simp
  moreover have "next_is (CHR ''}'') (open_container ?start) = False" "can_access (open_container ?start) 0" unfolding o by simp_all
  moreover have "buf_depth ?start < 1000" using assms(2) by simp
  ultimately show ?thesis
    using close_here[of "CHR ''}''" "cJSON_Object ms" "(pre @ CHR ''{'' # ?ws) @ ?e @ tabs fmt d" post k]
    unfolding parse_object_def Let_def t by simp
qed

section \<open>All items\<close>

lemma value_first:
  assumes "reads pv k j t"
  shows "ends_value post \<Longrightarrow> pv (here pre (t @ post) k) = Inr (Some (j, here (pre @ t) post k))"
  using assms by (simp add: reads_def)

lemma container_value:
  assumes "c = CHR ''['' \<or> c = CHR ''{''"
  shows "parse_value (Suc n) (here pre (c # post) k) =
    (if c = CHR ''['' then parse_array (parse_value n) (here pre (c # post) k) else parse_object (parse_value n) (here pre (c # post) k))"
proof -
  have c: "c \<noteq> CHR ''n''" "c \<noteq> CHR ''f''" "c \<noteq> CHR ''t''" "c \<noteq> CHR 0x22" "c \<noteq> CHR ''-''" "\<not> is_digit c"
    using assms by (auto simp: is_digit_def)
  have "\<not> word_at ''null'' (here pre (c # post) k)" "\<not> word_at ''false'' (here pre (c # post) k)" "\<not> word_at ''true'' (here pre (c # post) k)"
    using c(1-3) word_here by blast+
  then have "parse_value (Suc n) (here pre (c # post) k) = (if c = CHR ''['' then parse_array (parse_value n) (here pre (c # post) k)
      else if c = CHR ''{'' then parse_object (parse_value n) (here pre (c # post) k) else Inr None)"
    using c(4-6) by (simp add: Let_def)
  then show ?thesis using assms by metis
qed

lemma all_read:
  "plain j \<Longrightarrow> nest j + k \<le> 1000 \<Longrightarrow> nest j < n \<Longrightarrow> reads (parse_value n) k j (print_value g fmt d j)"
  "plain_elements xs \<Longrightarrow> nest_elements xs + k \<le> 1000 \<Longrightarrow> nest_elements xs < n \<Longrightarrow>
    \<forall>x \<in> set xs. plain x \<and> reads (parse_value n) k x (print_value g fmt d x)"
  "plain_members ms \<Longrightarrow> nest_members ms + k \<le> 1000 \<Longrightarrow> nest_members ms < n \<Longrightarrow>
    \<forall>m \<in> set ms. c_str (fst m) = fst m \<and> plain (snd m) \<and> reads (parse_value n) k (snd m) (print_value g fmt d (snd m))"
proof (induction g fmt d j and g fmt d xs and g fmt d ms arbitrary: n k and n k and n k
    rule: print_value_print_elements_print_members.induct)
  case (7 g fmt d xs)
  obtain n' where n: "n = Suc n'" "nest_elements xs < n'" using "7.prems"(3) by (cases n) auto
  have "\<forall>x \<in> set xs. plain x \<and> reads (parse_value n') (Suc k) x (print_value g fmt (Suc d) x)"
    by (rule "7.IH") (use "7.prems" n in simp_all)
  from array_reads[OF this] show ?case
    using "7.prems"(2) n(1) container_value[of "CHR ''[''" n'] by (simp add: reads_def del: parse_value.simps)
next
  case (8 g fmt d ms)
  obtain n' where n: "n = Suc n'" "nest_members ms < n'" using "8.prems"(3) by (cases n) auto
  have "\<forall>m \<in> set ms. c_str (fst m) = fst m \<and> plain (snd m) \<and> reads (parse_value n') (Suc k) (snd m) (print_value g fmt (Suc d) (snd m))"
    by (rule "8.IH") (use "8.prems" n in simp_all)
  from object_reads[OF this] show ?case
    using "8.prems"(2) n(1) container_value[of "CHR ''{''" n'] by (simp add: reads_def del: parse_value.simps)
next
  case (10 g fmt d x xs)
  have "reads (parse_value n) k x (print_value g fmt d x)" by (rule "10.IH"(1)) (use "10.prems" in simp_all)
  moreover have "\<forall>x \<in> set xs. plain x \<and> reads (parse_value n) k x (print_value g fmt d x)"
    by (rule "10.IH"(2)) (use "10.prems" in simp_all)
  ultimately show ?case using "10.prems"(1) by simp
next
  case (12 g fmt d m ms)
  have "reads (parse_value n) k (snd m) (print_value g fmt d (snd m))" by (rule "12.IH"(1)) (use "12.prems" in simp_all)
  moreover have "\<forall>m \<in> set ms. c_str (fst m) = fst m \<and> plain (snd m) \<and> reads (parse_value n) k (snd m) (print_value g fmt d (snd m))"
    by (rule "12.IH"(2)) (use "12.prems" in simp_all)
  ultimately show ?case using "12.prems"(1) by simp
next
  case (1 g fmt d)
  then show ?case by (cases n) (simp_all only: leaf_reads nest.simps not_less_zero)
next
  case (2 g fmt d)
  then show ?case by (cases n) (simp_all only: leaf_reads nest.simps not_less_zero)
next
  case (3 g fmt d)
  then show ?case by (cases n) (simp_all only: leaf_reads nest.simps not_less_zero)
next
  case (4 g fmt d x i)
  then show ?case by (cases n) (simp_all only: leaf_reads nest.simps not_less_zero)
next
  case (5 g fmt d s)
  then show ?case by simp
next
  case (6 g fmt d s)
  then show ?case by (cases n) (simp_all only: leaf_reads nest.simps not_less_zero)
qed simp_all

section \<open>Documents\<close>

lemma hex_digit_char: "k < 16 \<Longrightarrow> hex_digit k \<noteq> CHR 0x00"
  using of_char_hex_digit[of k] by (auto split: if_splits)

lemma escape_char_text: "c \<noteq> CHR 0x00 \<Longrightarrow> CHR 0x00 \<notin> set (escape_char c)"
proof -
  assume c: "c \<noteq> CHR 0x00"
  have "of_char c div 16 < (16 :: nat)" by (rule less_mult_imp_div_less) simp
  then show ?thesis using c hex_digit_char[of "of_char c div 16"] hex_digit_char[of "of_char c mod 16"]
    by (auto simp: escape_char_def u_escape_def Let_def)
qed

lemma string_text: "CHR 0x00 \<notin> set (print_string_ptr s)"
  using escape_char_text set_takeWhileD[of _ "\<lambda>c. c \<noteq> CHR 0x00" s] by (auto simp: print_string_ptr_def c_str_def)

text \<open>The text of an item has no end mark in it and does not begin with a byte order mark.\<close>

lemma value_text:
  "plain j \<Longrightarrow> CHR 0x00 \<notin> set (print_value g fmt d j)"
  "plain_elements xs \<Longrightarrow> CHR 0x00 \<notin> set (print_elements g fmt d xs)"
  "plain_members ms \<Longrightarrow> CHR 0x00 \<notin> set (print_members g fmt d ms)"
proof (induction g fmt d j and g fmt d xs and g fmt d ms rule: print_value_print_elements_print_members.induct)
  case (4 g fmt d x i)
  then have "\<forall>c \<in> set (string_of_int i). number_char c" using string_of_int_chars(1)[of i] by simp
  then show ?case using 4 by (auto simp: number_char_def is_digit_def)
qed (auto simp: string_text)

lemma c_str_text: "CHR 0x00 \<notin> set t \<Longrightarrow> c_str t = t"
  by (auto simp: c_str_def takeWhile_eq_all_conv)

lemma value_no_bom:
  assumes "plain j"
  shows "take 3 (print_value g fmt d j @ post) \<noteq> [CHR 0xEF, CHR 0xBB, CHR 0xBF]"
proof (cases j)
  case (cJSON_Number x i)
  then obtain c r where "string_of_int i = c # r" "c = CHR ''-'' \<or> is_digit c" using string_of_int_chars(3)[of i] assms by auto
  then show ?thesis using cJSON_Number assms by (auto simp: is_digit_def)
qed (use assms in \<open>simp_all add: print_string_ptr_def\<close>)

lemma document_read:
  fixes g :: "rat \<Rightarrow> string" and fmt :: bool
  assumes "plain j" and "nest j \<le> 1000"
  defines "t \<equiv> print_value g fmt 0 j"
  shows "cJSON_ParseWithOpts t require_null_terminated = Inr (Some (j, length t))"
proof -
  obtain c r where c: "t = c # r" "\<not> blank c" using print_first[OF assms(1), of g fmt 0] unfolding t_def by metis
  have b: "\<lparr>content = t @ [CHR 0x00], buf_offset = 0, buf_depth = 0\<rparr> = here [] (t @ [CHR 0x00]) 0" by (simp add: here_def)
  have "skip_utf8_bom (here [] (t @ [CHR 0x00]) 0) = here [] (t @ [CHR 0x00]) 0"
    using value_no_bom[OF assms(1)] unfolding skip_utf8_bom_def here_simps(1) t_def by simp
  then have "buffer_skip_whitespace (skip_utf8_bom (here [] (t @ [CHR 0x00]) 0)) = here [] (t @ [CHR 0x00]) 0"
    using skip_none[OF c(2), of "[]"] c(1) by simp
  moreover have "ends_value [CHR 0x00]" by (simp add: number_char_def is_digit_def)
  then have "parse_value 1001 (here [] (t @ [CHR 0x00]) 0) = Inr (Some (j, here t [CHR 0x00] 0))"
    using value_first[OF all_read(1)[of j 0 1001 g fmt 0]] assms by (simp add: t_def del: parse_value.simps)
  moreover have "buffer_skip_whitespace (here t [CHR 0x00] 0) = here t [CHR 0x00] 0"
    by (simp add: buffer_skip_whitespace_def Let_def blank_def) (simp add: here_def)
  moreover have "c_str t = t" using value_text(1)[OF assms(1)] c_str_text by (simp add: t_def)
  moreover have "buf_offset (here t [CHR 0x00] 0) = length t" by (simp add: here_def)
  ultimately show ?thesis
    by (simp add: cJSON_ParseWithOpts_def cJSON_ParseWithLengthOpts_def b Let_def del: parse_value.simps)
qed

text \<open>
  C33. A plain document that cJSON prints, formatted or not, cJSON reads back as the same item, up to the end mark. Plain
  documents consist of objects, arrays, strings and names without an end mark in them (any other bytes), the three words, and numbers
  that are integers of the range of C's \<^verbatim>\<open>int\<close>; they have no raw items, and arrays and objects are nested at
  most 1000 deep. (Other numbers go through \<^verbatim>\<open>%g\<close>, a parameter here; an infinity is printed as \<^verbatim>\<open>null\<close>.)
\<close>

theorem json_document_roundtrip:
  assumes "plain j" and "nest j \<le> 1000"
  shows "cJSON_ParseWithOpts (cJSON_PrintUnformatted g j) True = Inr (Some (j, length (cJSON_PrintUnformatted g j))) \<and>
    cJSON_ParseWithOpts (cJSON_Print g j) True = Inr (Some (j, length (cJSON_Print g j)))"
  using document_read[OF assms] by (simp add: cJSON_PrintUnformatted_def cJSON_Print_def)

theorem json_document_roundtrip_witness:
  "cJSON_ParseWithOpts (cJSON_PrintUnformatted (\<lambda>_. [])
      (cJSON_Object [(''a'', cJSON_Array [cJSON_Number (Finite (- 5)) (- 5), cJSON_NULL]), (''b'', cJSON_String ''x'')])) True =
    Inr (Some (cJSON_Object [(''a'', cJSON_Array [cJSON_Number (Finite (- 5)) (- 5), cJSON_NULL]), (''b'', cJSON_String ''x'')],
      length (cJSON_PrintUnformatted (\<lambda>_. [])
        (cJSON_Object [(''a'', cJSON_Array [cJSON_Number (Finite (- 5)) (- 5), cJSON_NULL]), (''b'', cJSON_String ''x'')]))))"
  by (rule json_document_roundtrip[THEN conjunct1]) (simp_all add: c_str_def INT_MIN_def INT_MAX_def double_of_int_def)

section \<open>Any text\<close>

text \<open>
  C34. Whatever text cJSON is given to read, it ends and reads no character behind the end mark; what it has read ends
  at the latest at the end mark.
\<close>

theorem json_read_safe:
  "\<exists>r. cJSON_ParseWithOpts v require_null_terminated = Inr r \<and> (\<forall>x n. r = Some (x, n) \<longrightarrow> n \<le> length (c_str v))"
proof -
  let ?b = "\<lparr>content = c_str v @ [CHR 0x00], buf_offset = 0, buf_depth = 0\<rparr>"
  have "inside (skip_utf8_bom ?b)" "content (skip_utf8_bom ?b) = content ?b" "buf_depth (skip_utf8_bom ?b) = 0"
    by (auto simp: inside_def skip_utf8_bom_def can_access_def)
  moreover from this have "inside (buffer_skip_whitespace (skip_utf8_bom ?b))" "content (buffer_skip_whitespace (skip_utf8_bom ?b)) = content ?b"
    "buf_depth (buffer_skip_whitespace (skip_utf8_bom ?b)) = 0" using skip_inside[of "skip_utf8_bom ?b"] by simp_all
  ultimately have "goes_on (buffer_skip_whitespace (skip_utf8_bom ?b)) (parse_value 1001 (buffer_skip_whitespace (skip_utf8_bom ?b)))"
    using json.value_goes_on[of "buffer_skip_whitespace (skip_utf8_bom ?b)" 1001] by simp
  then show ?thesis
  proof (rule goes_onE)
    fix x b assume x: "parse_value 1001 (buffer_skip_whitespace (skip_utf8_bom ?b)) = Inr (Some (x, b))"
      "onward (buffer_skip_whitespace (skip_utf8_bom ?b)) b"
    then have b: "inside b" "content b = c_str v @ [CHR 0x00]"
      using \<open>content (buffer_skip_whitespace (skip_utf8_bom ?b)) = content ?b\<close> by (simp_all add: onward_def)
    have "buf_offset b \<le> length (c_str v)" "buf_offset (buffer_skip_whitespace b) \<le> length (c_str v)"
      using b skip_inside[OF b(1)] by (simp_all add: inside_def)
    then show ?thesis
      using x(1) by (simp add: cJSON_ParseWithOpts_def cJSON_ParseWithLengthOpts_def Let_def del: parse_value.simps)
  qed (simp add: cJSON_ParseWithOpts_def cJSON_ParseWithLengthOpts_def del: parse_value.simps)
qed

theorem json_read_safe_witness:
  "\<exists>r. cJSON_ParseWithOpts ''[1, {'' True = Inr r"
  using json_read_safe[of "''[1, {''" True] by blast

text \<open>The reader of an object whose text ends behind a comma, with or without an end mark.\<close>

lemma cut_object:
  fixes nm :: string and x :: cJSON and g :: "rat \<Rightarrow> string"
  assumes "c_str nm = nm" and "plain x" and "nest x < 1000" and "post = [] \<or> post = [CHR 0x00]"
  defines "t \<equiv> ''{'' @ print_string_ptr nm @ '':'' @ cJSON_PrintUnformatted g x @ '',''"
  shows "parse_value 1001 (here [] (t @ post) 0) = (if post = [] then Inl Out_Of_Bounds else Inr None)"
proof -
  let ?v = "print_value g False 0 x" and ?start = "here [] (t @ post) 0" and ?pv = "parse_value 1000"
  have rd: "reads ?pv 1 x ?v" by (rule all_read(1)) (use assms(2,3) in simp_all)
  have t: "t @ post = CHR ''{'' # print_string_ptr nm @ CHR '':'' # [] @ ?v @ CHR '','' # post"
    by (simp add: t_def cJSON_PrintUnformatted_def)
  obtain q where q: "print_string_ptr nm = CHR 0x22 # q" by (simp add: print_string_ptr_def)
  let ?text = "print_string_ptr nm @ CHR '':'' # [] @ ?v @ CHR '','' # post"
  have o: "open_container ?start = here ''{'' ?text 1"
    unfolding t q using open_here[of "[]" "CHR 0x22" "[]" "CHR ''{''"] by simp
  let ?prev = "(open_container ?start)\<lparr>buf_offset := buf_offset (open_container ?start) - 1\<rparr>"
  have s: "buffer_skip_whitespace (?prev\<lparr>buf_offset := buf_offset ?prev + 1\<rparr>) = here ''{'' ?text 1"
    unfolding o q using back_and_skip[OF not_blank(5), of "''{''"] by simp
  have "ends_value (CHR '','' # post)" by simp
  moreover have "\<forall>c \<in> set ([] :: string). blank c" by simp
  ultimately have r: "parse_string_at (here ''{'' ?text 1) =
      Inr (Some (nm, here (''{'' @ print_string_ptr nm) (CHR '':'' # [] @ ?v @ CHR '','' # post) 1))"
    "?pv (buffer_skip_whitespace ((here (''{'' @ print_string_ptr nm) (CHR '':'' # [] @ ?v @ CHR '','' # post) 1)\<lparr>buf_offset :=
      buf_offset (here (''{'' @ print_string_ptr nm) (CHR '':'' # [] @ ?v @ CHR '','' # post) 1) + 1\<rparr>)) =
      Inr (Some (x, here (''{'' @ print_string_ptr nm @ CHR '':'' # [] @ ?v) (CHR '','' # post) 1))"
    using member_read[OF assms(1,2) rd, of "CHR '','' # post" "[]" "''{''"] by blast+
  text \<open>The second round.\<close>
  let ?b = "here (''{'' @ print_string_ptr nm @ CHR '':'' # [] @ ?v) (CHR '','' # post) 1"
  have n: "?b\<lparr>buf_offset := buf_offset ?b + 1\<rparr> = here t post 1"
    unfolding here_step by (simp add: t_def cJSON_PrintUnformatted_def)
  have e: "parse_string_at (buffer_skip_whitespace (here t post 1)) = (if post = [] then Inl Out_Of_Bounds else Inr None)"
  proof (cases "post = []")
    case True
    then show ?thesis by (simp add: buffer_skip_whitespace_def can_access_def here_def parse_string_at_def at_offset_def)
  next
    case False
    then have p: "post = [CHR 0x00]" using assms(4) by simp
    have "buffer_skip_whitespace (here t [CHR 0x00] 1) = here t [CHR 0x00] 1"
      by (simp add: buffer_skip_whitespace_def Let_def blank_def) (simp add: here_def)
    then show ?thesis unfolding p by (simp add: parse_string_at_def parse_string_def)
  qed
  have two: "parse_members ?pv (Suc m) ?b = (if post = [] then Inl Out_Of_Bounds else Inr None)" for m
    unfolding parse_members.simps(2) n e by simp
  have one: "parse_members ?pv (Suc (Suc m)) ?prev = (if post = [] then Inl Out_Of_Bounds else Inr None)" for m
    unfolding parse_members.simps(2)[of ?pv "Suc m"] s r(1)
    using r(2) two[of m] assms(1) by (simp add: Let_def skip_none del: parse_members.simps parse_value.simps)
  have len: "length (content ?start) = Suc (Suc (length (content ?start) - 2))" by (simp add: here_def t_def)
  have "next_is (CHR ''{'') ?start" unfolding t by simp
  moreover have "\<not> next_is (CHR ''}'') (open_container ?start)" "can_access (open_container ?start) 0" unfolding o q by simp_all
  ultimately have "parse_object ?pv ?start = (if post = [] then Inl Out_Of_Bounds else Inr None)"
    using one[of "length (content ?start) - 2"] unfolding len[symmetric] parse_object_def Let_def
    by (simp add: close_container_def del: parse_members.simps)
  moreover have "parse_value (Suc 1000) ?start = parse_object ?pv ?start"
    unfolding t using container_value[of "CHR ''{''" 1000 "[]"] by simp
  moreover have "Suc 1000 = (1001 :: nat)" by simp
  ultimately show ?thesis by metis
qed

text \<open>
  C35. Without an end mark this is not so: in a buffer that ends behind the comma of an object, the reader of the next name looks at
  the character behind the buffer. With an end mark the same text is refused.
\<close>

theorem cut_object_overread:
  fixes g :: "rat \<Rightarrow> string"
  assumes "c_str nm = nm" and "plain x" and "nest x < 1000"
  defines "t \<equiv> ''{'' @ print_string_ptr nm @ '':'' @ cJSON_PrintUnformatted g x @ '',''"
  shows "cJSON_ParseWithLength t = Inl Out_Of_Bounds \<and> cJSON_Parse t = Inr None"
proof -
  have b: "\<lparr>content = t @ post, buf_offset = 0, buf_depth = 0\<rparr> = here [] (t @ post) 0" for post by (simp add: here_def)
  have "skip_utf8_bom (here [] (t @ post) 0) = here [] (t @ post) 0" for post
    unfolding skip_utf8_bom_def here_simps(1) by (simp add: t_def)
  moreover have "buffer_skip_whitespace (here [] (t @ post) 0) = here [] (t @ post) 0" for post
    using skip_none[of "CHR ''{''" "[]"] by (simp add: t_def blank_def)
  ultimately have s: "buffer_skip_whitespace (skip_utf8_bom \<lparr>content = t @ post, buf_offset = 0, buf_depth = 0\<rparr>) = here [] (t @ post) 0" for post
    unfolding b by simp
  note c = cut_object[OF assms(1-3), of _ g, folded t_def]
  have "CHR 0x00 \<notin> set t"
    using string_text value_text(1)[OF assms(2)] by (simp add: t_def cJSON_PrintUnformatted_def)
  then have "c_str t = t" by (rule c_str_text)
  moreover have "t \<noteq> []" by (simp add: t_def)
  ultimately show ?thesis
    using c[of "[]"] c[of "[CHR 0x00]"] s[of "[]"] s[of "[CHR 0x00]"]
    by (simp add: cJSON_ParseWithLength_def cJSON_Parse_def cJSON_ParseWithOpts_def cJSON_ParseWithLengthOpts_def del: parse_value.simps)
qed

theorem cut_object_overread_witness:
  "cJSON_ParseWithLength (''{'' @ print_string_ptr ''a'' @ '':'' @ cJSON_PrintUnformatted (\<lambda>_. []) (cJSON_Number (Finite 1) 1) @ '','') =
    Inl Out_Of_Bounds"
  by (rule cut_object_overread[THEN conjunct1]) (simp_all add: c_str_def INT_MIN_def INT_MAX_def double_of_int_def)

end
