(* ===== verification/Json_Report.thy ===== *)
theory Json_Report
  imports Inspect Json_Read
begin

text \<open>
  The reports of the inspection thread as whoever receives them reads them: a document whose \<open>value\<close> is a string, which is a document
  again. Both are read with cJSON.
\<close>

section \<open>The receiver\<close>

definition decode_payload :: "string \<Rightarrow> string \<Rightarrow> cJSON option" where
  "decode_payload name payload =
     (case cJSON_Parse payload of
        Inr (Some doc) \<Rightarrow>
          Option.bind (cJSON_GetObjectItem doc ''params'') (\<lambda>params.
          Option.bind (cJSON_GetObjectItem params name) (\<lambda>entry.
          Option.bind (cJSON_GetObjectItem entry ''value'') (\<lambda>v.
          Option.bind (cJSON_GetStringValue v) (\<lambda>s.
            case cJSON_Parse s of Inr r \<Rightarrow> r | Inl _ \<Rightarrow> None))))
      | _ \<Rightarrow> None)"

lemma digits_text: "c_str (string_of_nat n) = string_of_nat n"
  using nat_digits[of n] by (intro c_str_text) (auto simp: is_digit_def)

lemma document_parse:
  assumes "plain j" and "nest j \<le> 1000"
  shows "cJSON_Parse (cJSON_PrintUnformatted g j) = Inr (Some j)"
  using document_read[OF assms, of g False False] by (simp add: cJSON_Parse_def cJSON_PrintUnformatted_def)

lemma payload_decodes:
  assumes "plain v" and "nest v \<le> 1000" and "c_str name = name"
  shows "decode_payload name (payload_spec g r name v) = Some v"
proof -
  have v: "c_str (cJSON_PrintUnformatted g v) = cJSON_PrintUnformatted g v"
    using c_str_text[OF value_text(1)[OF assms(1)]] by (simp add: cJSON_PrintUnformatted_def)
  let ?entry = "cJSON_Object [(''value'', cJSON_String (cJSON_PrintUnformatted g v))]"
  let ?doc = "cJSON_Object [(''id'', cJSON_String (string_of_nat (unat r))), (''params'', cJSON_Object [(name, ?entry)])]"
  have "plain ?doc" "nest ?doc \<le> 1000" using v assms(3) by (simp_all add: digits_text) (simp_all add: c_str_def)
  then have "cJSON_Parse (payload_spec g r name v) = Inr (Some ?doc)"
    using document_parse[of ?doc g] by (simp only: payload_spec_def)
  moreover have "cJSON_GetObjectItem ?doc ''params'' = Some (cJSON_Object [(name, ?entry)])"
    "cJSON_GetObjectItem (cJSON_Object [(name, ?entry)]) name = Some ?entry"
    "cJSON_GetObjectItem ?entry ''value'' = Some (cJSON_String (cJSON_PrintUnformatted g v))"
    by (simp_all add: cJSON_GetObjectItem_def to_lower_def)
  ultimately show ?thesis using document_parse[OF assms(1,2)] by (simp add: decode_payload_def)
qed

section \<open>What it reads\<close>

lemma defect_names_text: "i < 7 \<Longrightarrow> c_str (defect_names ! i) = defect_names ! i"
  by (auto simp: defect_names_def c_str_def less_Suc_eq numeral_eq_Suc)

lemma report_plain:
  assumes "\<forall>c \<in> set cs. c < 7" and "length cs < 256"
  shows "plain (report_spec cs)" and "nest (report_spec cs) \<le> 1000"
proof -
  have "plain_elements (map (\<lambda>c. cJSON_String (defect_names ! c)) cs)"
    "nest_elements (map (\<lambda>c. cJSON_String (defect_names ! c)) cs) = 0"
    using assms(1) defect_names_text by (induction cs) simp_all
  then show "plain (report_spec cs)" "nest (report_spec cs) \<le> 1000"
    using assms(2) by (simp_all add: report_spec_def INT_MIN_def INT_MAX_def c_str_def)
qed

lemma classes_7: "[0..<DEFECT_CLASS_CNT] = [0, 1, 2, 3, 4, 5, 6]"
  by (simp add: DEFECT_CLASS_CNT_def upt_rec)

lemma count_plain:
  assumes "length cs \<le> 10"
  shows "plain (count_spec cs)" and "nest (count_spec cs) \<le> 1000"
proof -
  have "count_list cs i \<le> 10" for i using count_le_length[of cs i] assms by linarith
  then have "int (count_list cs i) \<le> INT_MAX" "INT_MIN \<le> int (count_list cs i)" for i
    using order.trans[of "count_list cs i" 10 2147483647] by (auto simp: INT_MIN_def INT_MAX_def)
  then show "plain (count_spec cs)" "nest (count_spec cs) \<le> 1000"
    using defect_names_text unfolding count_spec_def classes_7 by simp_all
qed

text \<open>
  C4. What the inspection thread publishes is read as it was meant: the first message of a batch decodes to the number of
  images and, image by image, the name of its class; the second one, under the name of each class, to the number of its images.
\<close>

theorem reports_received:
  assumes "unat n \<le> length results" and "unat n \<le> 10" and "classes_ok results"
  defines "cs \<equiv> map unat (take (unat n) results)"
  shows "(\<exists>ret payload v arr. onenet_upload_defect_report env n results s = Inr (ret, emit (E_Publish onenet_topic payload) s) \<and>
      decode_payload ''defect_report'' payload = Some v \<and>
      cJSON_GetObjectItem v ''total'' = Some (cJSON_Number (double_of_int (int (unat n))) (int (unat n))) \<and>
      cJSON_GetObjectItem v ''results'' = Some arr \<and> cJSON_GetArraySize arr = unat n \<and>
      (\<forall>i < unat n. cJSON_GetArrayItem arr (int i) = Some (cJSON_String (defect_names ! unat (results ! i))))) \<and>
    (\<exists>ret payload v. onenet_upload_defect_count env (counts cs) s = (ret, emit (E_Publish onenet_topic payload) s) \<and>
      decode_payload ''defect_count'' payload = Some v \<and>
      (\<forall>i < DEFECT_CLASS_CNT. cJSON_GetObjectItem v (defect_names ! i) =
        Some (cJSON_Number (double_of_int (int (count_list cs i))) (int (count_list cs i)))))"
proof (intro conjI)
  have len: "length cs = unat n" "length cs \<le> 10" using assms(1,2) by (simp_all add: cs_def)
  have cl: "\<forall>c \<in> set cs. c < 7"
    using assms(3) in_set_takeD[of _ "unat n" results] by (auto simp: cs_def classes_ok_def DEFECT_CLASS_CNT_def)
  let ?pl = "\<lambda>name v. payload_spec (fmt_g env) (rnd env (length (trace s))) name v"
  have d: "decode_payload ''defect_report'' (?pl ''defect_report'' (report_spec cs)) = Some (report_spec cs)"
    by (rule payload_decodes[OF report_plain]) (use cl len in \<open>simp_all add: c_str_def\<close>)
  let ?arr = "cJSON_Array (map (\<lambda>c. cJSON_String (defect_names ! c)) cs)"
  have i: "cJSON_GetObjectItem (report_spec cs) ''total'' = Some (cJSON_Number (double_of_int (int (unat n))) (int (unat n)))"
    "cJSON_GetObjectItem (report_spec cs) ''results'' = Some ?arr" "cJSON_GetArraySize ?arr = unat n"
    using len(1) by (simp_all add: report_spec_def cJSON_GetObjectItem_def cJSON_GetArraySize_def to_lower_def)
  have el: "cJSON_GetArrayItem ?arr (int k) = Some (cJSON_String (defect_names ! unat (results ! k)))" if "k < unat n" for k
    using that len(1) assms(1) by (simp add: cJSON_GetArrayItem_def cs_def)
  have "onenet_upload_defect_report env n results s = Inr (onenet_publish_property env ''defect_report'' (report_spec cs) s)"
    unfolding onenet_upload_defect_report_def report_value_ok[OF assms(1,3)] by (simp add: cs_def)
  then show "\<exists>ret payload v arr. onenet_upload_defect_report env n results s = Inr (ret, emit (E_Publish onenet_topic payload) s) \<and>
      decode_payload ''defect_report'' payload = Some v \<and>
      cJSON_GetObjectItem v ''total'' = Some (cJSON_Number (double_of_int (int (unat n))) (int (unat n))) \<and>
      cJSON_GetObjectItem v ''results'' = Some arr \<and> cJSON_GetArraySize arr = unat n \<and>
      (\<forall>i < unat n. cJSON_GetArrayItem arr (int i) = Some (cJSON_String (defect_names ! unat (results ! i))))"
    using d i el unfolding publish_property_eq by blast
  have "onenet_upload_defect_count env (counts cs) s = onenet_publish_property env ''defect_count'' (count_spec cs) s"
    by (simp add: onenet_upload_defect_count_def count_value_ok[OF len(2)])
  moreover have "decode_payload ''defect_count'' (?pl ''defect_count'' (count_spec cs)) = Some (count_spec cs)"
    by (rule payload_decodes[OF count_plain[OF len(2)]]) (simp add: c_str_def)
  moreover have "cJSON_GetObjectItem (count_spec cs) (defect_names ! k) =
      Some (cJSON_Number (double_of_int (int (count_list cs k))) (int (count_list cs k)))" if "k < DEFECT_CLASS_CNT" for k
  proof -
    have "k \<in> {0, 1, 2, 3, 4, 5, 6}" using that by (auto simp: DEFECT_CLASS_CNT_def)
    then show ?thesis
      unfolding count_spec_def classes_7
      by (elim insertE emptyE; hypsubst) (simp_all add: cJSON_GetObjectItem_def defect_names_def to_lower_def)
  qed
  ultimately show "\<exists>ret payload v. onenet_upload_defect_count env (counts cs) s = (ret, emit (E_Publish onenet_topic payload) s) \<and>
      decode_payload ''defect_count'' payload = Some v \<and>
      (\<forall>i < DEFECT_CLASS_CNT. cJSON_GetObjectItem v (defect_names ! i) =
        Some (cJSON_Number (double_of_int (int (count_list cs i))) (int (count_list cs i))))"
    unfolding publish_property_eq by blast
qed

theorem reports_received_witness:
  "\<exists>ret payload v. onenet_upload_defect_count demo_env (counts [0, 3]) insp_init = (ret, emit (E_Publish onenet_topic payload) insp_init) \<and>
    decode_payload ''defect_count'' payload = Some v \<and> cJSON_GetObjectItem v ''line'' = Some (cJSON_Number (double_of_int 1) 1)"
proof -
  have "counts (map unat (take (unat (2 :: u8)) [0, 3 :: u8])) = counts [0, 3]" by simp
  moreover have "classes_ok [0, 3]" by (simp add: classes_ok_def DEFECT_CLASS_CNT_def)
  ultimately obtain ret payload v where "onenet_upload_defect_count demo_env (counts [0, 3]) insp_init = (ret, emit (E_Publish onenet_topic payload) insp_init)"
    "decode_payload ''defect_count'' payload = Some v"
    "cJSON_GetObjectItem v (defect_names ! 3) = Some (cJSON_Number (double_of_int (int (count_list [0, 3 :: nat] 3))) (int (count_list [0, 3 :: nat] 3)))"
    using reports_received[of 2 "[0, 3]" demo_env insp_init, THEN conjunct2] by (auto simp: DEFECT_CLASS_CNT_def)
  moreover have "defect_names ! 3 = ''line''" by (simp add: defect_names_def numeral_eq_Suc)
  ultimately show ?thesis by auto
qed

end
