(* ===== verification/Spec2Isabelle.thy ===== *)
theory Spec2Isabelle
  imports Inspection_System Ringbuffer Kernel_Props Mempool_Props Smem_Props Csv_File Shell_Props Json_Report
begin

text \<open>
  Verification of the firmware of a fabric defect inspection machine (an STM32H743 under
  RT-Thread; the sources are in \<^verbatim>\<open>src/Fabric_Defect_Detection_END\<close>).

  What the program does. A camera sends grey-scale images over a UART. The receive
  interrupt moves bytes into the FIFO of the serial framework and calls the application's
  callback, which cuts frames out of the byte stream. The inspection thread runs a neural
  network on every frame, collects the classes of a batch of images, and after the last
  one writes a CSV file and publishes two JSON reports over MQTT. A second UART brings
  one-letter commands for two stepper motors, among them the announcement of the size of
  the next batch; a third thread controls the speed of the motors with a PID loop over an
  incremental encoder.

  Theories, in the order of their dependencies:
  \<^item> \<open>Prelude\<close>: machine integers, error codes, faults (a failed assertion, an access outside
    an array, a division by zero), the fault monad and generic list lemmas.
  \<^item> \<open>Fifo_Spec\<close>: the contracts of a bounded queue that overwrites its oldest element and of
    one that refuses a new one, as locales; \<open>Serial\<close>, \<open>Ringbuffer\<close>, \<open>Mailbox\<close> and \<open>Msgqueue_Inv\<close>
    interpret them on the code's own operations.
  \<^item> \<open>Device\<close>: \<^verbatim>\<open>rt-thread/src/device.c\<close> and the named-object part of \<^verbatim>\<open>object.c\<close>.
  \<^item> \<open>Serial\<close>: \<^verbatim>\<open>serial.c\<close> and \<^verbatim>\<open>drv_usart.c\<close>: open, close, configuration, polled and
    interrupt-driven transfer, the interrupt handler.
  \<^item> \<open>Frame_Rx\<close>: \<^verbatim>\<open>uart_rx_callback\<close>, the frame parser, with a specification over the whole
    byte stream that the incremental parser refines, and the path from the interrupt to
    the parser.
  \<^item> \<open>Json\<close>: the part of cJSON that builds and prints reports, and the string parser; \<open>Json_Parse\<close>: the reader
    of whole documents and looking into them; \<open>Json_Safe\<close>: it stays inside a text with an end mark;
    \<open>Json_Read\<close>: it reads back what is printed; \<open>Json_Report\<close>: the reports of the inspection thread as they are read.
  \<^item> \<open>Inspect\<close>: \<^verbatim>\<open>model_sd_start.c\<close>: classification, batch bookkeeping, CSV file, reports, and
    the thread's loop as a step function that can be interleaved with interrupts.
  \<^item> \<open>Ringbuffer\<close>: \<^verbatim>\<open>ringbuffer.c\<close>.
  \<^item> \<open>Pwm\<close>: \<^verbatim>\<open>rt_drv_pwm.c\<close> and \<^verbatim>\<open>drv_pwm.c\<close> down to the timer registers.
  \<^item> \<open>Pin\<close>: \<^verbatim>\<open>pin.c\<close> and \<^verbatim>\<open>drv_gpio.c\<close> with the bookkeeping of shared interrupt lines.
  \<^item> \<open>Float32\<close>: binary32 arithmetic on rational numbers with rounding to nearest even.
  \<^item> \<open>Motor\<close>: the motor functions, the speed controller and the command switch of \<^verbatim>\<open>main.c\<close>.
  \<^item> \<open>Inspection_System\<close>: all threads and the interrupt together, with the shared batch size.
  \<^item> \<open>Sched\<close>: the kernel state and its primitives: ready queues and bit map, \<^verbatim>\<open>rt_schedule\<close>,
    threads, thread timers and the clock (\<^verbatim>\<open>scheduler.c\<close>, \<^verbatim>\<open>thread.c\<close>, \<^verbatim>\<open>timer.c\<close>,
    \<^verbatim>\<open>clock.c\<close>); \<open>Sched_Inv\<close>: the invariant that ties queues, bit map, timer list and thread
    states together, and that every primitive keeps it.
  \<^item> \<open>Ipc\<close>: semaphores and mutexes with priority inheritance (\<^verbatim>\<open>ipc.c\<close>); \<open>Ipc_Inv\<close>: a
    thread waits only for an object that is taken, and every operation keeps this.
  \<^item> \<open>Kernel\<close>: the start of the system, the calls of threads and the clock as one step
    relation, and its invariant; \<open>Kernel_Props\<close>: what it promises to threads.
  \<^item> \<open>Objects\<close>: the state of the system with events, mailboxes, message queues and memory pools, and
    what their waiting calls share (\<^verbatim>\<open>ipc.c\<close>); \<open>Event\<close>, \<open>Mailbox\<close>, \<open>Msgqueue\<close>, \<open>Mempool\<close> (\<^verbatim>\<open>mempool.c\<close>): the operations;
    \<open>Msgqueue_Inv\<close>: the linked lists of a message queue; \<open>Messages\<close>: all calls and the steps in
    which calls go on after a wait, as one step relation.
  \<^item> \<open>Gentle\<close>: what a kernel call leaves alone of other threads; \<open>Wakeup\<close>: what all waiting calls
    share, and the invariant behind "no wake-up is lost"; \<open>Messages_Inv\<close>: the invariant of the
    whole; \<open>Event_Inv\<close>, \<open>Mailbox_Inv\<close>, \<open>Msgqueue_Calls\<close>, \<open>Mempool_Inv\<close>: every operation keeps it;
    \<open>Pool_Frame\<close>: calls on other objects leave the memory pools alone;
    \<open>Messages_Step\<close>: so does every call and every step of a waiting call;
    \<open>Messages_Props\<close>, \<open>Mempool_Props\<close>: what the objects promise.
  \<^item> \<open>Smem\<close>: the system heap (\<^verbatim>\<open>mem.c\<close>); \<open>Smem_Inv\<close>: the headers in memory represent a list
    of blocks, and the operations refine operations on such lists; \<open>Smem_Props\<close>: what the
    heap promises to its users.
  \<^item> \<open>Dfs_Path\<close>: paths of the virtual file layer (\<^verbatim>\<open>components/dfs\<close>), with a specification on stacks
    of directories; \<open>Dfs\<close>: the tables of the layer, lookup and descriptors (\<^verbatim>\<open>dfs.c\<close>); \<open>Dfs_File\<close>,
    \<open>Dfs_Mount\<close>, \<open>Dfs_Posix\<close>: \<^verbatim>\<open>dfs_file.c\<close>, \<^verbatim>\<open>dfs_fs.c\<close> and the POSIX calls of \<^verbatim>\<open>dfs_posix.c\<close>.
  \<^item> \<open>Dfs_Lookup\<close>: what the lookup of a path finds; \<open>Dfs_Inv\<close>, \<open>Dfs_Calls\<close>, \<open>Dfs_Reach\<close>: the invariant
    of the layer and what each call does to the descriptors; \<open>Dfs_Props\<close>: all calls as steps of one
    machine and what it promises; \<open>Dfs_Open\<close>: successful calls, and open files.
  \<^item> \<open>Csv_File\<close>: the file calls of the inspection thread made on the virtual file layer.
  \<^item> \<open>C_String\<close>: character arrays; \<open>Msh\<close>: the command interpreter (\<^verbatim>\<open>components/finsh/msh.c\<close>), with a
    specification of splitting on texts; \<open>Shell\<close>: the line editor (\<^verbatim>\<open>shell.c\<close>) key by key; \<open>Shell_Safe\<close>: its
    invariant; \<open>Shell_Edit\<close>: the editor of texts that it refines; \<open>Shell_Props\<close>: what lines that are too
    long do.

  Representation. A C struct is a record, a fixed-size array a list of that length, an
  unsigned integer a word or a natural number reduced modulo its range, a thread an
  explicit program counter or one step per loop round. The batch size that the command thread and the
  inspection thread share is kept in the state of each and written to both by the step that changes it. A function that can fail an
  assertion or leave an array returns \<open>Inl\<close> of a fault; theorems of the form "never faults"
  say that the result is \<open>Inr\<close>. The neural network and the MQTT client
  are not part of the repository's own code and are parameters (\<open>insp_env\<close>), and so are, for the
  inspection thread, the results of its file calls; hypotheses
  about them are stated in the theorems (the network writes seven outputs, also when its model could not be
  created, as the code calls it then as well; a file can be opened).

  Files. A file system is a structure of function pointers, a parameter of the model (\<open>dfs_env\<close>)
  with a state of its own; a null pointer is \<open>None\<close>. A driver is handed a descriptor and writes its
  type, size, position and data. Every call is one step: it holds the lock of the layer where it works
  on the shared tables. The outcomes of its allocations are a list in the state (\<open>mem\<close>). The
  theorems ask of the caller what the code does not check: a path does not climb above the root, a
  working directory fits its array, one name of a rename is below a mount point, a seek does not overflow, a
  directory stream is not read on after its end (\<open>call_ok\<close>).

  The kernel and its users. The theories of the application use the kernel's guarantees as
  atomic steps (a mutex-protected access, a semaphore that wakes a thread); the kernel
  theories show these guarantees. A kernel call is one step: the code runs it with
  interrupts disabled up to its schedule, and the only code that runs before the caller
  goes on after the schedule is that of other threads and the clock. A call that waits ends
  with the schedule; its result is read off the thread's control block when it goes on. The
  calls on mailboxes, message queues and memory pools look again when they go on, and wait again with
  the time that is left; where a thread goes on is part of the state (\<open>pending\<close>). A message
  is copied with interrupts enabled, so sending and receiving one take two steps. Interrupts
  tick the clock, release semaphores, send events and, without waiting, mails, and free blocks. A block
  of a memory pool is known by its number, and the word in front of it is part of the model. So is a node of a
  message queue, with its link and its data. The size of the memory behind both is in the state: access to
  a node or a block outside it, and a copy longer than the data of a node, are faults. The calls are made under the
  conditions of \<open>sys_allowed\<close> and \<open>allowed\<close>, among them that a waiting call goes on less than \<open>2 ^ 31\<close> ticks after its wait began.

  Bounds. Loops of the C code are structural recursions or terminate by a measure. The two
  loops of the heap that follow links in memory have fuel, one more than the size of the
  heap; it is enough because the links of a well-formed heap only go upwards, and
  \<open>heap_safe\<close> shows that the fuel never runs out. The loop that resets a message queue has the
  number of nodes as fuel (\<open>mq_reset_terminates\<close>). The loop over a path has the length of its buffer as
  fuel, of which every round uses up a character (\<open>normalize_equiv\<close>), and so
  has the loop that splits a command line (\<open>msh_split_correct\<close>). The loops over the elements of an array and the
  members of an object have the length of the text as fuel, and the reader of values the 1000 levels that the code allows
  (\<open>json_read_safe\<close>). The only other loop that could run for ever is that of \<^verbatim>\<open>motor_accel\<close> with a step that
  is not positive, which the model reports as a fault and the theorems exclude.

  What is not modelled: of the kernel timers of users, the deferred clean-up of dead threads,
  the creation of objects on the heap and the assertions on the type of an object (an object that was detached can be used like
  one that nobody waits for); context switch in assembly; DMA, the network stack, the drivers
  below the virtual file layer (FAT, device files), the scripts and built-in commands of the console, the HAL beyond the calls the drivers make, log output, and the start-up
  sequence of \<^verbatim>\<open>main\<close>.
\<close>

end
